(* ===== verification/Prelude.thy ===== *)
theory Prelude
  imports Complex_Main "HOL-Library.AList" "HOL-Library.Multiset"
begin

text \<open>
  Shared vocabulary of the development: results of code that may throw, the JavaScript
  array and number operations the source uses, JavaScript's stable sort with its
  laws, objects used as dictionaries (association lists in insertion order), and the
  interface of a state machine whose operations keep an invariant.

  JavaScript numbers that take part in arithmetic on fractions are exact \<open>real\<close>s (rounding
  of doubles is not modelled); indices and counts are \<open>int\<close> or \<open>nat\<close>. Where the code
  tests \<open>Number.isFinite\<close>, the argument is a \<open>js_number\<close>, which also has the
  three values that are not finite.
\<close>

named_theorems res_simps "how results of throwing code compose"

section \<open>Results of code that may throw\<close>

text \<open>\<open>Inl e\<close> is a thrown error, \<open>Inr x\<close> a returned value.\<close>

definition bindE :: "'e + 'a \<Rightarrow> ('a \<Rightarrow> 'e + 'b) \<Rightarrow> 'e + 'b" where
  "bindE m f = (case m of Inl e \<Rightarrow> Inl e | Inr x \<Rightarrow> f x)"

text \<open>\<open>if (cond) throw new Error(...)\<close> followed by the rest of the function.\<close>

definition throwIf :: "bool \<Rightarrow> 'e \<Rightarrow> 'e + 'a \<Rightarrow> 'e + 'a" where
  "throwIf c e rest = (if c then Inl e else rest)"

fun mapE :: "('a \<Rightarrow> 'e + 'b) \<Rightarrow> 'a list \<Rightarrow> 'e + 'b list" where
  "mapE f [] = Inr []"
| "mapE f (x # xs) = bindE (f x) (\<lambda>y. bindE (mapE f xs) (\<lambda>ys. Inr (y # ys)))"

fun foldE :: "('s \<Rightarrow> 'a \<Rightarrow> 'e + 's) \<Rightarrow> 's \<Rightarrow> 'a list \<Rightarrow> 'e + 's" where
  "foldE f s [] = Inr s"
| "foldE f s (x # xs) = bindE (f s x) (\<lambda>s'. foldE f s' xs)"

definition isOk :: "'e + 'a \<Rightarrow> bool" where
  "isOk r = (case r of Inl _ \<Rightarrow> False | Inr _ \<Rightarrow> True)"

lemma bindE_simps [simp, res_simps]:
  "bindE (Inl e) f = Inl e" "bindE (Inr x) f = f x"
  by (simp_all add: bindE_def)

lemma bindE_assoc: "bindE (bindE m f) g = bindE m (\<lambda>x. bindE (f x) g)"
  by (cases m) (simp_all add: bindE_def)

lemma bindE_Inr_iff [res_simps]:
  "bindE m f = Inr y \<longleftrightarrow> (\<exists>x. m = Inr x \<and> f x = Inr y)"
  by (cases m) auto

lemma bindE_Inl_iff [res_simps]:
  "bindE m f = Inl e \<longleftrightarrow> m = Inl e \<or> (\<exists>x. m = Inr x \<and> f x = Inl e)"
  by (cases m) auto

lemma throwIf_simps [simp, res_simps]:
  "throwIf True e r = Inl e" "throwIf False e r = r"
  by (simp_all add: throwIf_def)

lemma throwIf_Inr_iff [res_simps]: "throwIf c e r = Inr y \<longleftrightarrow> \<not> c \<and> r = Inr y"
  by (simp add: throwIf_def)

lemma throwIf_Inl_iff [res_simps]:
  "throwIf c e r = Inl e' \<longleftrightarrow> (c \<and> e' = e) \<or> (\<not> c \<and> r = Inl e')"
  by (auto simp: throwIf_def)

lemma isOk_simps [simp]: "isOk (Inr x)" "\<not> isOk (Inl e)"
  by (simp_all add: isOk_def)

lemma isOk_iff: "isOk r \<longleftrightarrow> (\<exists>x. r = Inr x)"
  by (cases r) auto

lemma mapE_Inr_length: "mapE f xs = Inr ys \<Longrightarrow> length ys = length xs"
  by (induction xs arbitrary: ys) (auto simp: res_simps)

lemma mapE_nth: "mapE f xs = Inr ys \<Longrightarrow> i < length xs \<Longrightarrow> f (xs ! i) = Inr (ys ! i)"
  by (induction xs arbitrary: ys i) (auto simp: res_simps nth_Cons split: nat.splits)

lemma mapE_pure: "(\<And>x. x \<in> set xs \<Longrightarrow> f x = Inr (g x)) \<Longrightarrow> mapE f xs = Inr (map g xs)"
  by (induction xs) auto

lemma foldE_append: "foldE f s (xs @ ys) = bindE (foldE f s xs) (\<lambda>s'. foldE f s' ys)"
  by (induction xs arbitrary: s) (auto simp: bindE_def split: sum.splits)

lemma foldE_inv:
  assumes "foldE f s xs = Inr s'" and "P s"
    and "\<And>s x s'. x \<in> set xs \<Longrightarrow> P s \<Longrightarrow> f s x = Inr s' \<Longrightarrow> P s'"
  shows "P s'"
  using assms
proof (induction xs arbitrary: s)
  case Nil
  then show ?case by simp
next
  case (Cons x xs)
  from Cons.prems(1) obtain s1 where s1: "f s x = Inr s1" "foldE f s1 xs = Inr s'"
    by (auto simp: res_simps)
  have "P s1" using Cons.prems(2,3) s1(1) by auto
  with Cons.IH [OF s1(2)] Cons.prems(3) show ?case by auto
qed

section \<open>Numbers\<close>

datatype js_number = Finite real | NaN | Infinite bool

definition isFinite :: "js_number \<Rightarrow> bool" where
  "isFinite n = (case n of Finite _ \<Rightarrow> True | _ \<Rightarrow> False)"

fun numValue :: "js_number \<Rightarrow> real" where
  "numValue (Finite x) = x"
| "numValue NaN = 0"
| "numValue (Infinite _) = 0"

text \<open>\<open>Math.round\<close> rounds halves up; \<open>Math.trunc\<close> drops the fraction.\<close>

definition mathRound :: "real \<Rightarrow> int" where
  "mathRound x = \<lfloor>x + 1 / 2\<rfloor>"

definition mathTrunc :: "real \<Rightarrow> int" where
  "mathTrunc x = (if 0 \<le> x then \<lfloor>x\<rfloor> else \<lceil>x\<rceil>)"

lemma mathRound_int [simp]: "mathRound (of_int k) = k"
  by (simp add: mathRound_def floor_eq_iff)

lemma mathTrunc_int [simp]: "mathTrunc (of_int k) = k"
  by (simp add: mathTrunc_def)

lemma mathRound_mono: "x \<le> y \<Longrightarrow> mathRound x \<le> mathRound y"
  by (simp add: mathRound_def floor_mono)

lemma mathRound_nonneg: "0 \<le> x \<Longrightarrow> 0 \<le> mathRound x"
  using mathRound_mono [of 0 x] mathRound_int [of 0] by simp

lemma mathRound_le_int: "x \<le> of_int k \<Longrightarrow> mathRound x \<le> k"
  using mathRound_mono [of x "of_int k"] by simp

section \<open>Arrays\<close>

text \<open>\<open>findIndex\<close> with \<open>None\<close> for the source's \<open>-1\<close>.\<close>

fun findIndex :: "('a \<Rightarrow> bool) \<Rightarrow> 'a list \<Rightarrow> nat option" where
  "findIndex P [] = None"
| "findIndex P (x # xs) = (if P x then Some 0 else map_option Suc (findIndex P xs))"

text \<open>\<open>xs.splice(i, n, ...ys)\<close> for an index inside the array.\<close>

definition splice :: "nat \<Rightarrow> nat \<Rightarrow> 'a list \<Rightarrow> 'a list \<Rightarrow> 'a list" where
  "splice i n ys xs = take i xs @ ys @ drop (i + n) xs"

text \<open>\<open>xs[i]\<close>, with \<open>None\<close> for \<open>undefined\<close>.\<close>

definition nthOpt :: "'a list \<Rightarrow> nat \<Rightarrow> 'a option" where
  "nthOpt xs i = (if i < length xs then Some (xs ! i) else None)"

lemma find_Some_in: "find P xs = Some x \<Longrightarrow> x \<in> set xs \<and> P x"
  by (induction xs) (auto split: if_splits)

lemma find_None: "find P xs = None \<longleftrightarrow> (\<forall>x\<in>set xs. \<not> P x)"
  by (induction xs) auto

lemma find_map: "find P (map f xs) = map_option f (find (P \<circ> f) xs)"
  by (induction xs) auto

lemma findIndex_Some:
  "findIndex P xs = Some i \<Longrightarrow> i < length xs \<and> P (xs ! i) \<and> (\<forall>j<i. \<not> P (xs ! j))"
proof (induction xs arbitrary: i)
  case Nil
  then show ?case by simp
next
  case (Cons x xs)
  show ?case
  proof (cases "P x")
    case True
    with Cons.prems show ?thesis by simp
  next
    case False
    with Cons.prems obtain j where "i = Suc j" "findIndex P xs = Some j" by auto
    with Cons.IH [of j] False show ?thesis by (auto simp: less_Suc_eq_0_disj)
  qed
qed

lemma findIndex_None: "findIndex P xs = None \<longleftrightarrow> (\<forall>x\<in>set xs. \<not> P x)"
  by (induction xs) auto

lemma findIndex_ex: "x \<in> set xs \<Longrightarrow> P x \<Longrightarrow> \<exists>i. findIndex P xs = Some i"
  using findIndex_None [of P xs] by (cases "findIndex P xs") auto

lemma mset_splice:
  "i + n \<le> length xs \<Longrightarrow>
   mset (splice i n ys xs) = mset (take i xs) + mset ys + mset (drop (i + n) xs)"
  by (simp add: splice_def)

lemma mset_insert_at: "mset (splice i 0 ys xs) = mset ys + mset xs"
  by (simp add: splice_def flip: union_assoc) (metis append_take_drop_id mset_append union_commute union_assoc)

lemma set_insert_at: "set (splice i 0 ys xs) = set ys \<union> set xs"
  by (metis mset_insert_at set_mset_mset set_mset_union)

section \<open>The sort of the JavaScript library\<close>

text \<open>
  \<open>Array.prototype.sort\<close> is stable; for a comparator that is a total preorder its result is
  the unique stable sorted rearrangement, which insertion sort computes.
  A comparator returns a number; \<open>cmp a b \<le> 0\<close> keeps \<open>a\<close> before \<open>b\<close>.
\<close>

fun insertBy :: "('a \<Rightarrow> 'a \<Rightarrow> real) \<Rightarrow> 'a \<Rightarrow> 'a list \<Rightarrow> 'a list" where
  "insertBy cmp x [] = [x]"
| "insertBy cmp x (y # ys) = (if cmp x y \<le> 0 then x # y # ys else y # insertBy cmp x ys)"

fun sortBy :: "('a \<Rightarrow> 'a \<Rightarrow> real) \<Rightarrow> 'a list \<Rightarrow> 'a list" where
  "sortBy cmp [] = []"
| "sortBy cmp (x # xs) = insertBy cmp x (sortBy cmp xs)"

lemma mset_insertBy [simp]: "mset (insertBy cmp x xs) = add_mset x (mset xs)"
  by (induction xs) auto

lemma mset_sortBy [simp]: "mset (sortBy cmp xs) = mset xs"
  by (induction xs) auto

lemma set_insertBy [simp]: "set (insertBy cmp x xs) = insert x (set xs)"
  by (metis mset_insertBy set_mset_add_mset_insert set_mset_mset)

lemma set_sortBy [simp]: "set (sortBy cmp xs) = set xs"
  by (metis mset_sortBy set_mset_mset)

lemma length_sortBy [simp]: "length (sortBy cmp xs) = length xs"
  by (metis mset_sortBy size_mset)

lemma insertBy_cong:
  "(\<And>y. y \<in> set ys \<Longrightarrow> cmp x y = cmp' x y) \<Longrightarrow> insertBy cmp x ys = insertBy cmp' x ys"
  by (induction ys) auto

lemma sortBy_cong:
  "(\<And>x y. x \<in> set xs \<Longrightarrow> y \<in> set xs \<Longrightarrow> cmp x y = cmp' x y) \<Longrightarrow> sortBy cmp xs = sortBy cmp' xs"
proof (induction xs)
  case (Cons x xs)
  then have "sortBy cmp xs = sortBy cmp' xs" by simp
  with Cons.prems show ?case
    by (auto intro!: insertBy_cong)
qed simp

locale comparator =
  fixes cmp :: "'a \<Rightarrow> 'a \<Rightarrow> real"
  assumes cmp_total: "cmp x y \<le> 0 \<or> cmp y x \<le> 0"
    and cmp_trans: "cmp x y \<le> 0 \<Longrightarrow> cmp y z \<le> 0 \<Longrightarrow> cmp x z \<le> 0"
begin

lemma cmp_refl: "cmp x x \<le> 0"
  using cmp_total [of x x] by simp

lemma insertBy_sorted:
  "sorted_wrt (\<lambda>a b. cmp a b \<le> 0) xs \<Longrightarrow> sorted_wrt (\<lambda>a b. cmp a b \<le> 0) (insertBy cmp x xs)"
proof (induction xs)
  case (Cons y ys)
  show ?case
  proof (cases "cmp x y \<le> 0")
    case True
    with Cons.prems show ?thesis by (auto intro: cmp_trans)
  next
    case False
    then have "cmp y x \<le> 0" using cmp_total [of x y] by simp
    with Cons False show ?thesis by simp
  qed
qed simp

lemma sortBy_sorted: "sorted_wrt (\<lambda>a b. cmp a b \<le> 0) (sortBy cmp xs)"
  by (induction xs) (simp_all add: insertBy_sorted)

lemma sortBy_hd_least: "sortBy cmp xs = y # ys \<Longrightarrow> z \<in> set xs \<Longrightarrow> cmp y z \<le> 0"
proof -
  assume s: "sortBy cmp xs = y # ys" and z: "z \<in> set xs"
  have "z \<in> set (y # ys)" using z s set_sortBy [of cmp xs] by simp
  moreover have "sorted_wrt (\<lambda>a b. cmp a b \<le> 0) (y # ys)" using sortBy_sorted [of xs] s by simp
  ultimately show "cmp y z \<le> 0" by (auto intro: cmp_refl)
qed

lemma sortBy_id: "sorted_wrt (\<lambda>a b. cmp a b \<le> 0) xs \<Longrightarrow> sortBy cmp xs = xs"
proof (induction xs)
  case (Cons x xs)
  then show ?case by (cases xs) auto
qed simp

end

section \<open>Objects used as dictionaries\<close>

text \<open>
  \<open>Record<string, T>\<close>: an association list in insertion order. \<open>o[k]\<close> is
  \<open>map_of\<close>; \<open>o[k] = v\<close> and \<open>{ ...o, [k]: v }\<close> are \<open>AList.update\<close>, which keeps the
  position of an existing key and appends a new one; \<open>delete o[k]\<close> is \<open>AList.delete\<close>;
  \<open>Object.entries(o)\<close> is the list itself.
\<close>

type_synonym 'v obj = "(string \<times> 'v) list"

definition wfObj :: "'v obj \<Rightarrow> bool" where
  "wfObj ob = distinct (map fst ob)"

lemma wfObj_update [simp]: "wfObj ob \<Longrightarrow> wfObj (AList.update k v ob)"
  by (simp add: wfObj_def distinct_update)

lemma wfObj_delete [simp]: "wfObj ob \<Longrightarrow> wfObj (AList.delete k ob)"
  by (simp add: wfObj_def distinct_delete)

lemma wfObj_Nil [simp]: "wfObj []"
  by (simp add: wfObj_def)

section \<open>Machines that keep an invariant\<close>

text \<open>
  The contract shared by the stateful components: a step function over commands, an
  invariant, and the commands enabled in a state (those whose fresh identifiers are really
  fresh, for instance). A run of enabled commands keeps the invariant.
\<close>

fun enabledRun :: "('s \<Rightarrow> 'c \<Rightarrow> 's) \<Rightarrow> ('s \<Rightarrow> 'c \<Rightarrow> bool) \<Rightarrow> 's \<Rightarrow> 'c list \<Rightarrow> bool" where
  "enabledRun step enabled s [] = True"
| "enabledRun step enabled s (c # cs) = (enabled s c \<and> enabledRun step enabled (step s c) cs)"

locale invariant_machine =
  fixes step :: "'s \<Rightarrow> 'c \<Rightarrow> 's"
    and enabled :: "'s \<Rightarrow> 'c \<Rightarrow> bool"
    and inv :: "'s \<Rightarrow> bool"
  assumes step_inv: "inv s \<Longrightarrow> enabled s c \<Longrightarrow> inv (step s c)"
begin

lemma run_inv: "inv s \<Longrightarrow> enabledRun step enabled s cs \<Longrightarrow> inv (fold (\<lambda>c s. step s c) cs s)"
  by (induction cs arbitrary: s) (auto intro: step_inv)

end

end
