(* ===== verification/TabModel.thy ===== *)
theory TabModel
  imports Prelude
begin

text \<open>
  The tabs and split panes of the Key window (\<open>apps/key-office/apps/key/src/shared/tab-model.ts\<close>):
  the pane tree of a tab, its geometry, and every operation on the window's tabs.

  \<open>crypto.randomUUID()\<close> is a parameter: an operation that creates tabs takes the fresh
  identifiers as an argument, and the lemmas ask that they are not in use. The optional
  \<open>pinned\<close> is a \<open>bool\<close> (absent and \<open>false\<close> are the same to the code). The one place where the
  code could raise a \<open>TypeError\<close> (the non-null assertion of a detach) makes the result of a
  drop an \<open>option\<close>.
\<close>

section \<open>Pane trees\<close>

datatype SplitDir = Row | Column

datatype PaneLayout = View string | Split SplitDir real PaneLayout PaneLayout

record WorkspaceTab =
  tabId :: string
  viewIds :: "string list"
  activeViewId :: string
  splitRatio :: real
  layout :: PaneLayout
  pinned :: bool

record WorkspaceTabsState =
  tabs :: "WorkspaceTab list"
  activeTabId :: "string option"

datatype SplitEdge = EdgeLeft | EdgeRight | EdgeTop | EdgeBottom

definition MAX_PANES :: nat where "MAX_PANES = 8"
definition PANE_HEADER :: real where "PANE_HEADER = 26"
definition MIN_RATIO :: real where "MIN_RATIO = 1 / 10"
definition MAX_RATIO :: real where "MAX_RATIO = 9 / 10"

fun layoutViews :: "PaneLayout \<Rightarrow> string list" where
  "layoutViews (View v) = [v]"
| "layoutViews (Split _ _ a b) = layoutViews a @ layoutViews b"

text \<open>The first argument stands for \<open>Pick<WorkspaceTab, "id"> & Partial<WorkspaceTab>\<close>: its
  \<open>id\<close>, the optional \<open>activeViewId\<close> and \<open>pinned\<close> are all the code reads of it.\<close>

definition tabWithLayout :: "string \<Rightarrow> string option \<Rightarrow> bool \<Rightarrow> PaneLayout \<Rightarrow> WorkspaceTab" where
  "tabWithLayout i active pin l =
     (let ids = layoutViews l in
      \<lparr>tabId = i, viewIds = ids,
       activeViewId = (case active of
          Some v \<Rightarrow> if v \<noteq> [] \<and> v \<in> set ids then v else hd ids
        | None \<Rightarrow> hd ids),
       splitRatio = (case l of View _ \<Rightarrow> 1 / 2 | Split _ r _ _ \<Rightarrow> r),
       layout = l, pinned = pin\<rparr>)"

abbreviation relayout :: "WorkspaceTab \<Rightarrow> PaneLayout \<Rightarrow> WorkspaceTab" where
  "relayout t l \<equiv> tabWithLayout (tabId t) (Some (activeViewId t)) (pinned t) l"

definition pinnedFirst :: "WorkspaceTab list \<Rightarrow> WorkspaceTab list" where
  "pinnedFirst ts = filter pinned ts @ filter (\<lambda>t. \<not> pinned t) ts"

definition singleWorkspaceTab :: "string \<Rightarrow> string \<Rightarrow> WorkspaceTab" where
  "singleWorkspaceTab uuid viewId = tabWithLayout uuid None False (View viewId)"

fun removeFromLayout :: "PaneLayout \<Rightarrow> string \<Rightarrow> PaneLayout option" where
  "removeFromLayout (View v) viewId = (if v = viewId then None else Some (View v))"
| "removeFromLayout (Split d r a b) viewId =
     (case (removeFromLayout a viewId, removeFromLayout b viewId) of
        (None, b') \<Rightarrow> b'
      | (Some a', None) \<Rightarrow> Some a'
      | (Some a', Some b') \<Rightarrow> Some (Split d r a' b'))"

fun insertIntoLayout :: "PaneLayout \<Rightarrow> string \<Rightarrow> PaneLayout \<Rightarrow> SplitEdge \<Rightarrow> PaneLayout" where
  "insertIntoLayout (View v) targetViewId ins edge =
     (if v \<noteq> targetViewId then View v
      else let d = (if edge = EdgeLeft \<or> edge = EdgeRight then Row else Column);
               before = (edge = EdgeLeft \<or> edge = EdgeTop)
           in Split d (1 / 2) (if before then ins else View v) (if before then View v else ins))"
| "insertIntoLayout (Split d r a b) targetViewId ins edge =
     Split d r (insertIntoLayout a targetViewId ins edge) (insertIntoLayout b targetViewId ins edge)"

fun mapViews :: "PaneLayout \<Rightarrow> (string \<Rightarrow> string) \<Rightarrow> PaneLayout" where
  "mapViews (View v) f = View (f v)"
| "mapViews (Split d r a b) f = Split d r (mapViews a f) (mapViews b f)"

text \<open>A path is a string over \<open>a\<close> and \<open>b\<close>, from the root.\<close>

fun layoutAt :: "PaneLayout \<Rightarrow> string \<Rightarrow> PaneLayout option" where
  "layoutAt l [] = Some l"
| "layoutAt (View v) (c # p) = None"
| "layoutAt (Split d r a b) (c # p) = layoutAt (if c = CHR ''a'' then a else b) p"

fun updateAt :: "PaneLayout \<Rightarrow> string \<Rightarrow> (PaneLayout \<Rightarrow> PaneLayout) \<Rightarrow> PaneLayout" where
  "updateAt l [] upd = upd l"
| "updateAt (View v) (c # p) upd = View v"
| "updateAt (Split d r a b) (c # p) upd =
     (if c = CHR ''a'' then Split d r (updateAt a p upd) b else Split d r a (updateAt b p upd))"

fun parentPath :: "PaneLayout \<Rightarrow> string \<Rightarrow> string \<Rightarrow> string option" where
  "parentPath (View v) viewId path = None"
| "parentPath (Split d r a b) viewId path =
     (if a = View viewId then Some path
      else case parentPath a viewId (path @ ''a'') of
        Some p \<Rightarrow> Some p
      | None \<Rightarrow>
          if b = View viewId then Some path
          else parentPath b viewId (path @ ''b''))"

section \<open>Geometry\<close>

record PaneRect =
  rectX :: real
  rectY :: real
  rectW :: real
  rectH :: real

record LaidOutPane = PaneRect +
  paneView :: string

record LaidOutDivider = PaneRect +
  dividerPath :: string
  dividerSplit :: SplitDir
  dividerRatio :: real
  parentRect :: PaneRect

text \<open>\<open>visit\<close> of the source: the panes and dividers below a node, in the order it pushes them.\<close>

fun visitPanes :: "real \<Rightarrow> PaneLayout \<Rightarrow> PaneRect \<Rightarrow> string \<Rightarrow> LaidOutPane list \<times> LaidOutDivider list" where
  "visitPanes gap (View v) r path =
     ([\<lparr>rectX = rectX r, rectY = rectY r, rectW = rectW r, rectH = rectH r, paneView = v\<rparr>], [])"
| "visitPanes gap (Split d ratio a b) r path =
     (let row = (d = Row);
          size = (if row then rectW r else rectH r);
          pos = of_int (mathRound (size * ratio));
          first = max 0 (pos - gap);
          second = max 0 (size - pos - gap)
      in if row then
           let (pa, da) = visitPanes gap a (r\<lparr>rectW := first\<rparr>) (path @ ''a'');
               (pb, db) = visitPanes gap b (r\<lparr>rectX := rectX r + pos + gap, rectW := second\<rparr>) (path @ ''b'')
           in (pa @ pb,
               \<lparr>rectX = rectX r + pos - gap, rectY = rectY r, rectW = gap * 2, rectH = rectH r,
                dividerPath = path, dividerSplit = Row, dividerRatio = ratio, parentRect = r\<rparr> # da @ db)
         else
           let (pa, da) = visitPanes gap a (r\<lparr>rectH := first\<rparr>) (path @ ''a'');
               (pb, db) = visitPanes gap b (r\<lparr>rectY := rectY r + pos + gap, rectH := second\<rparr>) (path @ ''b'')
           in (pa @ pb,
               \<lparr>rectX = rectX r, rectY = rectY r + pos - gap, rectW = rectW r, rectH = gap * 2,
                dividerPath = path, dividerSplit = Column, dividerRatio = ratio, parentRect = r\<rparr> # da @ db))"

definition layoutPanes :: "PaneLayout \<Rightarrow> PaneRect \<Rightarrow> real \<Rightarrow> LaidOutPane list \<times> LaidOutDivider list" where
  "layoutPanes l rect gap = visitPanes gap l rect []"

definition paneBody :: "'r PaneRect_scheme \<Rightarrow> bool \<Rightarrow> 'r PaneRect_scheme" where
  "paneBody pane split =
     (if \<not> split then pane
      else let header = min PANE_HEADER (rectH pane)
           in pane\<lparr>rectY := rectY pane + header, rectH := rectH pane - header\<rparr>)"

definition paneOverlap :: "SplitEdge \<Rightarrow> LaidOutPane \<Rightarrow> LaidOutPane \<Rightarrow> real" where
  "paneOverlap direction from p =
     (if direction = EdgeLeft \<or> direction = EdgeRight
      then min (rectY p + rectH p) (rectY from + rectH from) - max (rectY p) (rectY from)
      else min (rectX p + rectW p) (rectX from + rectW from) - max (rectX p) (rectX from))"

definition paneDistance :: "SplitEdge \<Rightarrow> LaidOutPane \<Rightarrow> LaidOutPane \<Rightarrow> real" where
  "paneDistance direction from p =
     (case direction of
        EdgeLeft \<Rightarrow> rectX from - (rectX p + rectW p)
      | EdgeRight \<Rightarrow> rectX p - (rectX from + rectW from)
      | EdgeTop \<Rightarrow> rectY from - (rectY p + rectH p)
      | EdgeBottom \<Rightarrow> rectY p - (rectY from + rectH from))"

definition paneOrder :: "SplitEdge \<Rightarrow> LaidOutPane \<Rightarrow> LaidOutPane \<Rightarrow> LaidOutPane \<Rightarrow> real" where
  "paneOrder direction from p q =
     (let d = paneDistance direction from p - paneDistance direction from q
      in if d \<noteq> 0 then d else paneOverlap direction from q - paneOverlap direction from p)"

definition neighbourPane :: "PaneLayout \<Rightarrow> string \<Rightarrow> SplitEdge \<Rightarrow> string option" where
  "neighbourPane l viewId direction =
     (let panes = fst (layoutPanes l \<lparr>rectX = 0, rectY = 0, rectW = 1000, rectH = 1000\<rparr> 3) in
      case find (\<lambda>p. paneView p = viewId) panes of
        None \<Rightarrow> None
      | Some from \<Rightarrow>
          (case sortBy (paneOrder direction from)
                  (filter (\<lambda>p. paneView p \<noteq> viewId \<and> 0 \<le> paneDistance direction from p
                              \<and> 0 < paneOverlap direction from p) panes) of
             [] \<Rightarrow> None
           | p # _ \<Rightarrow> Some (paneView p)))"

section \<open>Operations on the window's tabs\<close>

definition activeWorkspaceTab :: "WorkspaceTabsState \<Rightarrow> WorkspaceTab option" where
  "activeWorkspaceTab s =
     (case find (\<lambda>t. Some (tabId t) = activeTabId s) (tabs s) of
        Some t \<Rightarrow> Some t
      | None \<Rightarrow> nthOpt (tabs s) 0)"

definition activateWorkspaceTab :: "WorkspaceTabsState \<Rightarrow> string \<Rightarrow> string option \<Rightarrow> WorkspaceTabsState" where
  "activateWorkspaceTab s i viewId =
     (case find (\<lambda>t. tabId t = i) (tabs s) of
        None \<Rightarrow> s
      | Some target \<Rightarrow>
          let active = (case viewId of
                Some v \<Rightarrow> if v \<noteq> [] \<and> v \<in> set (viewIds target) then v else activeViewId target
              | None \<Rightarrow> activeViewId target)
          in \<lparr>tabs = map (\<lambda>t. if tabId t = i then t\<lparr>activeViewId := active\<rparr> else t) (tabs s),
              activeTabId = Some i\<rparr>)"

definition splitWithTab :: "WorkspaceTabsState \<Rightarrow> string \<Rightarrow> string \<Rightarrow> SplitEdge \<Rightarrow> WorkspaceTabsState" where
  "splitWithTab s sourceTabId targetTabId edge =
     (case (find (\<lambda>t. tabId t = sourceTabId) (tabs s), find (\<lambda>t. tabId t = targetTabId) (tabs s)) of
        (Some source, Some target) \<Rightarrow>
          if tabId source = tabId target
             \<or> length (viewIds source) + length (viewIds target) > MAX_PANES then s
          else
            let split = relayout source
                  (insertIntoLayout (layout source) (activeViewId source) (layout target) edge)
            in \<lparr>tabs = map (\<lambda>t. if tabId t = tabId source then split else t)
                         (filter (\<lambda>t. tabId t \<noteq> tabId target) (tabs s)),
                activeTabId = Some (tabId source)\<rparr>
      | _ \<Rightarrow> s)"

text \<open>The fresh identifier of the i-th new tab is \<open>uuid i\<close>.\<close>

definition separateWorkspaceTab :: "(nat \<Rightarrow> string) \<Rightarrow> WorkspaceTabsState \<Rightarrow> string \<Rightarrow> WorkspaceTabsState" where
  "separateWorkspaceTab uuid s i =
     (case find (\<lambda>t. tabId t = i) (tabs s) of
        None \<Rightarrow> s
      | Some target \<Rightarrow>
          (case viewIds target of
             first # second # others \<Rightarrow>
               let firstTab = tabWithLayout (tabId target) None (pinned target) (View first)
               in (case findIndex (\<lambda>t. tabId t = i) (tabs s) of
                     None \<Rightarrow> s
                   | Some index \<Rightarrow>
                       \<lparr>tabs = pinnedFirst (splice index 1
                          (firstTab # map (\<lambda>(k, v). singleWorkspaceTab (uuid k) v)
                                        (enumerate 0 (second # others))) (tabs s)),
                        activeTabId = Some (tabId firstTab)\<rparr>)
           | _ \<Rightarrow> s))"

fun swapSides :: "PaneLayout \<Rightarrow> PaneLayout" where
  "swapSides (View v) = View v"
| "swapSides (Split d r a b) = Split d r b a"

definition swapWorkspaceSplit :: "WorkspaceTabsState \<Rightarrow> string \<Rightarrow> WorkspaceTabsState" where
  "swapWorkspaceSplit s i =
     s\<lparr>tabs := map (\<lambda>t.
         if tabId t \<noteq> i \<or> length (viewIds t) < 2 then t
         else let path = (case parentPath (layout t) (activeViewId t) [] of Some p \<Rightarrow> p | None \<Rightarrow> [])
              in relayout t (updateAt (layout t) path swapSides)) (tabs s)\<rparr>"

fun setRatio :: "real \<Rightarrow> PaneLayout \<Rightarrow> PaneLayout" where
  "setRatio c (View v) = View v"
| "setRatio c (Split d r a b) = Split d c a b"

definition setWorkspaceSplitRatio :: "WorkspaceTabsState \<Rightarrow> string \<Rightarrow> js_number \<Rightarrow> string \<Rightarrow> WorkspaceTabsState" where
  "setWorkspaceSplitRatio s i ratio path =
     (if \<not> isFinite ratio \<or> \<not> list_all (\<lambda>c. c = CHR ''a'' \<or> c = CHR ''b'') path then s
      else let clamped = min MAX_RATIO (max MIN_RATIO (numValue ratio)) in
        s\<lparr>tabs := map (\<lambda>t.
            if tabId t \<noteq> i then t
            else if (\<exists>v. layout t = View v) \<and> path = [] then t\<lparr>splitRatio := clamped\<rparr>
            else relayout t (updateAt (layout t) path (setRatio clamped))) (tabs s)\<rparr>)"

fun evenSplits :: "PaneLayout \<Rightarrow> PaneLayout" where
  "evenSplits (View v) = View v"
| "evenSplits (Split d r a b) = Split d (1 / 2) (evenSplits a) (evenSplits b)"

definition resetWorkspaceSplits :: "WorkspaceTabsState \<Rightarrow> string \<Rightarrow> WorkspaceTabsState" where
  "resetWorkspaceSplits s i =
     s\<lparr>tabs := map (\<lambda>t. if tabId t = i then relayout t (evenSplits (layout t)) else t) (tabs s)\<rparr>"

definition replaceWorkspaceView :: "WorkspaceTabsState \<Rightarrow> string \<Rightarrow> string \<Rightarrow> WorkspaceTabsState" where
  "replaceWorkspaceView s replacedViewId viewId =
     (case find (\<lambda>t. replacedViewId \<in> set (viewIds t)) (tabs s) of
        None \<Rightarrow> s
      | Some owner \<Rightarrow>
          if list_ex (\<lambda>t. viewId \<in> set (viewIds t)) (tabs s) then s
          else
            \<lparr>tabs = map (\<lambda>t. if tabId t = tabId owner
                then tabWithLayout (tabId t) (Some viewId) (pinned t)
                       (mapViews (layout t) (\<lambda>v. if v = replacedViewId then viewId else v))
                else t) (tabs s),
             activeTabId = Some (tabId owner)\<rparr>)"

text \<open>The first view of what takes a closed pane's place.\<close>

definition closeSurvivor :: "PaneLayout \<Rightarrow> string \<Rightarrow> string option" where
  "closeSurvivor l viewId =
     (case (case l of Split _ _ _ _ \<Rightarrow> parentPath l viewId [] | View _ \<Rightarrow> None) of
        None \<Rightarrow> None
      | Some sibling \<Rightarrow>
          (case layoutAt l sibling of
             Some (Split _ _ a b) \<Rightarrow>
               Some (hd (layoutViews (if a = View viewId then b else a)))
           | _ \<Rightarrow> None))"

definition closeWorkspaceView :: "WorkspaceTabsState \<Rightarrow> string \<Rightarrow> WorkspaceTabsState" where
  "closeWorkspaceView s viewId =
     (case find (\<lambda>t. viewId \<in> set (viewIds t)) (tabs s) of
        None \<Rightarrow> s
      | Some owner \<Rightarrow>
          (case removeFromLayout (layout owner) viewId of
             Some l \<Rightarrow>
               s\<lparr>tabs := map (\<lambda>t. if tabId t = tabId owner
                   then tabWithLayout (tabId t)
                          (if activeViewId t = viewId then closeSurvivor (layout owner) viewId
                           else Some (activeViewId t)) (pinned t) l
                   else t) (tabs s)\<rparr>
           | None \<Rightarrow>
               let index = (case findIndex (\<lambda>t. tabId t = tabId owner) (tabs s) of
                              Some k \<Rightarrow> k | None \<Rightarrow> 0);
                   rest = filter (\<lambda>t. tabId t \<noteq> tabId owner) (tabs s)
               in \<lparr>tabs = rest,
                   activeTabId =
                     (if activeTabId s = Some (tabId owner)
                      then (if rest = [] then None
                            else map_option tabId (nthOpt rest (min index (length rest - 1))))
                      else activeTabId s)\<rparr>))"

definition reorderWorkspaceTab :: "WorkspaceTabsState \<Rightarrow> string \<Rightarrow> js_number \<Rightarrow> WorkspaceTabsState" where
  "reorderWorkspaceTab s i index =
     (case findIndex (\<lambda>t. tabId t = i) (tabs s) of
        None \<Rightarrow> s
      | Some from \<Rightarrow>
          if \<not> isFinite index then s
          else
            let moved = tabs s ! from;
                rest = splice from 1 [] (tabs s);
                pins = length (filter pinned rest);
                lo = (if pinned moved then 0 else pins);
                hi = (if pinned moved then pins else length rest)
            in s\<lparr>tabs := splice (nat (min (int hi) (max (int lo) (mathTrunc (numValue index))))) 0
                           [moved] rest\<rparr>)"

definition pinWorkspaceTab :: "WorkspaceTabsState \<Rightarrow> string \<Rightarrow> bool \<Rightarrow> WorkspaceTabsState" where
  "pinWorkspaceTab s i pin =
     (case find (\<lambda>t. tabId t = i) (tabs s) of
        None \<Rightarrow> s
      | Some target \<Rightarrow>
          if pinned target = pin then s
          else
            let rest = filter (\<lambda>t. tabId t \<noteq> i) (tabs s);
                pos = length (filter pinned rest)
            in s\<lparr>tabs := splice pos 0 [target\<lparr>pinned := pin\<rparr>] rest\<rparr>)"

datatype CloseWhich = Others | ToRight

definition tabsToClose :: "WorkspaceTabsState \<Rightarrow> string \<Rightarrow> CloseWhich \<Rightarrow> string list" where
  "tabsToClose s i which =
     (case findIndex (\<lambda>t. tabId t = i) (tabs s) of
        None \<Rightarrow> []
      | Some index \<Rightarrow>
          map (tabId \<circ> snd)
            (filter (\<lambda>(k, t). \<not> pinned t \<and> (if which = Others then k \<noteq> index else index < k))
               (enumerate 0 (tabs s))))"

datatype WorkspaceViewDrop =
  DropSplit string string "string option" "SplitEdge option"  \<comment> \<open>viewId, targetTabId, targetViewId?, edge?\<close>
| DropSwap string string  \<comment> \<open>viewId, targetViewId\<close>
| DropDetach string js_number  \<comment> \<open>viewId, index\<close>

definition exchange :: "string \<Rightarrow> string \<Rightarrow> string \<Rightarrow> string" where
  "exchange u v z = (if z = u then v else if z = v then u else z)"

text \<open>\<open>None\<close>: the \<open>TypeError\<close> a detach would raise if nothing were left of the source tab.\<close>

fun applyWorkspaceViewDrop :: "string \<Rightarrow> WorkspaceTabsState \<Rightarrow> WorkspaceViewDrop \<Rightarrow> WorkspaceTabsState option" where
  "applyWorkspaceViewDrop uuid s (DropSwap viewId targetViewId) =
     (case find (\<lambda>t. viewId \<in> set (viewIds t)) (tabs s) of
        None \<Rightarrow> Some s
      | Some source \<Rightarrow>
     (case find (\<lambda>t. targetViewId \<in> set (viewIds t)) (tabs s) of
        None \<Rightarrow> Some s
      | Some target \<Rightarrow>
          if viewId = targetViewId then Some s
          else if length (viewIds target) < 2 \<and> length (viewIds source) < 2 then Some s
          else Some
            \<lparr>tabs = map (\<lambda>t. if tabId t = tabId source \<or> tabId t = tabId target
                then (relayout t (mapViews (layout t) (exchange viewId targetViewId)))
                       \<lparr>activeViewId := (if tabId t = tabId target then viewId
                                        else exchange viewId targetViewId (activeViewId t))\<rparr>
                else t) (tabs s),
             activeTabId = Some (tabId target)\<rparr>))"
| "applyWorkspaceViewDrop uuid s (DropDetach viewId index) =
     (case find (\<lambda>t. viewId \<in> set (viewIds t)) (tabs s) of
        None \<Rightarrow> Some s
      | Some source \<Rightarrow>
          if length (viewIds source) < 2 \<or> \<not> isFinite index then Some s
          else
            (case those (map (\<lambda>t. if tabId t = tabId source
                     then map_option (relayout t) (removeFromLayout (layout t) viewId)
                     else Some t) (tabs s)) of
               None \<Rightarrow> None
             | Some ts \<Rightarrow>
                 let detached = singleWorkspaceTab uuid viewId;
                     pins = length (filter pinned ts);
                     pos = max (int pins) (min (int (length ts)) (mathTrunc (numValue index)))
                 in Some \<lparr>tabs = splice (nat pos) 0 [detached] ts,
                          activeTabId = Some (tabId detached)\<rparr>))"
| "applyWorkspaceViewDrop uuid s (DropSplit viewId targetTabId targetView edgeOpt) =
     (case find (\<lambda>t. viewId \<in> set (viewIds t)) (tabs s) of
        None \<Rightarrow> Some s
      | Some source \<Rightarrow>
     (case find (\<lambda>t. tabId t = targetTabId) (tabs s) of
        None \<Rightarrow> Some s
      | Some target \<Rightarrow>
          let edge = (case edgeOpt of Some e \<Rightarrow> e | None \<Rightarrow> EdgeRight);
              targetViewId = (case targetView of Some v \<Rightarrow> v | None \<Rightarrow> activeViewId target)
          in if targetViewId \<notin> set (viewIds target) \<or> targetViewId = viewId then Some s
             else if (if tabId target = tabId source then False
                      else length (viewIds target) \<ge> MAX_PANES) then Some s
             else
               let ts = concat (map (\<lambda>t. if tabId t \<noteq> tabId source then [t]
                          else (case removeFromLayout (layout t) viewId of
                                  Some rest \<Rightarrow> [relayout t rest] | None \<Rightarrow> [])) (tabs s))
               in Some
                 \<lparr>tabs = map (\<lambda>t. if tabId t = tabId target
                     then tabWithLayout (tabId t) (Some viewId) (pinned t)
                            (insertIntoLayout (layout t) targetViewId (View viewId) edge)
                     else t) ts,
                  activeTabId = Some (tabId target)\<rparr>))"

definition moveWorkspacePane :: "WorkspaceTabsState \<Rightarrow> string \<Rightarrow> SplitEdge \<Rightarrow> WorkspaceTabsState option" where
  "moveWorkspacePane s viewId direction =
     (case find (\<lambda>t. viewId \<in> set (viewIds t)) (tabs s) of
        None \<Rightarrow> Some s
      | Some owner \<Rightarrow>
          (case neighbourPane (layout owner) viewId direction of
             None \<Rightarrow> Some s
           | Some neighbour \<Rightarrow>
               if neighbour = [] then Some s
               else map_option (\<lambda>moved. activateWorkspaceTab moved (tabId owner) (Some viewId))
                      (applyWorkspaceViewDrop [] s (DropSwap viewId neighbour))))"

end
