(* ===== verification/TabInvariant.thy ===== *)
theory TabInvariant
  imports TabModel
begin

text \<open>
  What the tab operations keep: the well-formedness of a tab (its views are its layout's
  views, without repetition, the focused one among them, at most \<open>MAX_PANES\<close>, every split
  ratio inside the bounds), and of the window (no view and no tab id twice, pinned tabs
  first, the active tab among the tabs). One lemma per operation, then the machine of all
  operations as an interpretation of \<open>invariant_machine\<close>.
\<close>

section \<open>Layouts\<close>

lemma layoutViews_nonempty [simp]: "layoutViews l \<noteq> []"
  by (induction l) auto

lemma hd_layoutViews [simp]: "hd (layoutViews l) \<in> set (layoutViews l)"
  by simp

lemma removeFromLayout_views:
  "(case removeFromLayout l v of None \<Rightarrow> [] | Some l' \<Rightarrow> layoutViews l')
   = filter (\<lambda>z. z \<noteq> v) (layoutViews l)"
proof (induction l)
  case (View u)
  then show ?case by simp
next
  case (Split d r a b)
  then show ?case by (cases "removeFromLayout a v"; cases "removeFromLayout b v") simp_all
qed

lemma removeFromLayout_Some:
  "removeFromLayout l v = Some l' \<Longrightarrow> layoutViews l' = filter (\<lambda>z. z \<noteq> v) (layoutViews l)"
  using removeFromLayout_views [of l v] by simp

lemma removeFromLayout_None:
  "removeFromLayout l v = None \<longleftrightarrow> set (layoutViews l) \<subseteq> {v}"
proof -
  have "removeFromLayout l v = None \<longleftrightarrow> filter (\<lambda>z. z \<noteq> v) (layoutViews l) = []"
  proof (cases "removeFromLayout l v")
    case (Some l')
    then have "filter (\<lambda>z. z \<noteq> v) (layoutViews l) = layoutViews l'"
      by (simp add: removeFromLayout_Some)
    with Some show ?thesis by simp
  qed (use removeFromLayout_views [of l v] in simp)
  then show ?thesis by (auto simp: filter_empty_conv)
qed

definition edgeBefore :: "SplitEdge \<Rightarrow> bool" where
  "edgeBefore e = (e = EdgeLeft \<or> e = EdgeTop)"

lemma insertIntoLayout_views:
  "layoutViews (insertIntoLayout l w ins e) =
   concat (map (\<lambda>z. if z = w then (if edgeBefore e then layoutViews ins @ [z] else z # layoutViews ins)
                    else [z]) (layoutViews l))"
  by (induction l) (auto simp: edgeBefore_def Let_def)

lemma concat_map_single [simp]: "concat (map (\<lambda>z. [z]) xs) = xs"
  by (induction xs) auto

lemma concat_expand_other: "w \<notin> set xs \<Longrightarrow> concat (map (\<lambda>z. if z = w then f z else [z]) xs) = xs"
  by (induction xs) auto

lemma mset_concat_expand:
  assumes "w \<notin> set xs" "w \<notin> set ys"
  shows "mset (concat (map (\<lambda>z. if z = w then f z else [z]) (xs @ w # ys)))
         = mset xs + mset (f w) + mset ys"
  using assms by (simp add: concat_expand_other)

lemma insertIntoLayout_mset:
  assumes "distinct (layoutViews l)" "w \<in> set (layoutViews l)"
  shows "mset (layoutViews (insertIntoLayout l w ins e)) = mset (layoutViews l) + mset (layoutViews ins)"
proof -
  from assms(2) obtain xs ys where sp: "layoutViews l = xs @ w # ys"
    by (meson split_list)
  with assms(1) have "w \<notin> set xs" "w \<notin> set ys" by auto
  from mset_concat_expand [OF this, of "\<lambda>z. if edgeBefore e then layoutViews ins @ [z] else z # layoutViews ins"]
  show ?thesis by (simp add: insertIntoLayout_views sp)
qed

lemma mapViews_views [simp]: "layoutViews (mapViews l f) = map f (layoutViews l)"
  by (induction l) auto

lemma updateAt_mset:
  "(\<And>n. mset (layoutViews (upd n)) = mset (layoutViews n)) \<Longrightarrow>
   mset (layoutViews (updateAt l p upd)) = mset (layoutViews l)"
  by (induction l p upd rule: updateAt.induct) auto

lemma updateAt_views:
  "(\<And>n. layoutViews (upd n) = layoutViews n) \<Longrightarrow> layoutViews (updateAt l p upd) = layoutViews l"
  by (induction l p upd rule: updateAt.induct) auto

lemma swapSides_mset [simp]: "mset (layoutViews (swapSides l)) = mset (layoutViews l)"
  by (cases l) auto

lemma setRatio_views [simp]: "layoutViews (setRatio c l) = layoutViews l"
  by (cases l) auto

lemma evenSplits_views [simp]: "layoutViews (evenSplits l) = layoutViews l"
  by (induction l) auto

text \<open>Every ratio of a layout is inside the bounds a divider can be dragged to.\<close>

definition ratioOk :: "real \<Rightarrow> bool" where
  "ratioOk r = (MIN_RATIO \<le> r \<and> r \<le> MAX_RATIO)"

fun ratiosOk :: "PaneLayout \<Rightarrow> bool" where
  "ratiosOk (View v) = True"
| "ratiosOk (Split d r a b) = (ratioOk r \<and> ratiosOk a \<and> ratiosOk b)"

lemma ratioOk_half [simp]: "ratioOk (1 / 2)"
  by (simp add: ratioOk_def MIN_RATIO_def MAX_RATIO_def)

lemma ratioOk_clamp [simp]: "ratioOk (min MAX_RATIO (max MIN_RATIO r))"
  by (simp add: ratioOk_def MIN_RATIO_def MAX_RATIO_def)

lemma removeFromLayout_ratios':
  "ratiosOk l \<Longrightarrow> (case removeFromLayout l v of None \<Rightarrow> True | Some l' \<Rightarrow> ratiosOk l')"
proof (induction l)
  case (Split d r a b)
  then show ?case by (cases "removeFromLayout a v"; cases "removeFromLayout b v") simp_all
qed simp

lemma removeFromLayout_ratios: "ratiosOk l \<Longrightarrow> removeFromLayout l v = Some l' \<Longrightarrow> ratiosOk l'"
  using removeFromLayout_ratios' [of l v] by simp

lemma insertIntoLayout_ratios [simp]:
  "ratiosOk l \<Longrightarrow> ratiosOk ins \<Longrightarrow> ratiosOk (insertIntoLayout l w ins e)"
  by (induction l) (auto simp: Let_def)

lemma mapViews_ratios [simp]: "ratiosOk (mapViews l f) = ratiosOk l"
  by (induction l) auto

lemma updateAt_ratios:
  "(\<And>n. ratiosOk n \<Longrightarrow> ratiosOk (upd n)) \<Longrightarrow> ratiosOk l \<Longrightarrow> ratiosOk (updateAt l p upd)"
  by (induction l p upd rule: updateAt.induct) auto

lemma swapSides_ratios: "ratiosOk l \<Longrightarrow> ratiosOk (swapSides l)"
  by (cases l) auto

lemma setRatio_ratios: "ratioOk c \<Longrightarrow> ratiosOk l \<Longrightarrow> ratiosOk (setRatio c l)"
  by (cases l) auto

lemma evenSplits_ratios [simp]: "ratiosOk (evenSplits l)"
  by (induction l) auto

section \<open>One tab\<close>

definition tabOk :: "WorkspaceTab \<Rightarrow> bool" where
  "tabOk t \<longleftrightarrow> viewIds t = layoutViews (layout t) \<and> distinct (viewIds t)
     \<and> activeViewId t \<in> set (viewIds t) \<and> length (viewIds t) \<le> MAX_PANES
     \<and> ratiosOk (layout t) \<and> ratioOk (splitRatio t)
     \<and> (case layout t of View _ \<Rightarrow> True | Split _ r _ _ \<Rightarrow> splitRatio t = r)"

lemma tabWithLayout_sel [simp]:
  "tabId (tabWithLayout i a p l) = i"
  "viewIds (tabWithLayout i a p l) = layoutViews l"
  "layout (tabWithLayout i a p l) = l"
  "pinned (tabWithLayout i a p l) = p"
  by (simp_all add: tabWithLayout_def Let_def)

lemma tabWithLayout_active_in: "activeViewId (tabWithLayout i a p l) \<in> set (layoutViews l)"
  by (simp add: tabWithLayout_def Let_def split: option.splits)

lemma tabWithLayout_active:
  "v \<in> set (layoutViews l) \<Longrightarrow> v \<noteq> [] \<Longrightarrow> activeViewId (tabWithLayout i (Some v) p l) = v"
  by (simp add: tabWithLayout_def Let_def)

lemma tabWithLayout_ok:
  "distinct (layoutViews l) \<Longrightarrow> length (layoutViews l) \<le> MAX_PANES \<Longrightarrow> ratiosOk l \<Longrightarrow>
   tabOk (tabWithLayout i a p l)"
  using tabWithLayout_active_in [of i a p l]
  by (cases l) (auto simp: tabOk_def tabWithLayout_def Let_def)

lemma tabOkD:
  "tabOk t \<Longrightarrow> viewIds t = layoutViews (layout t)"
  "tabOk t \<Longrightarrow> distinct (viewIds t)"
  "tabOk t \<Longrightarrow> distinct (layoutViews (layout t))"
  "tabOk t \<Longrightarrow> activeViewId t \<in> set (viewIds t)"
  "tabOk t \<Longrightarrow> length (viewIds t) \<le> MAX_PANES"
  "tabOk t \<Longrightarrow> ratiosOk (layout t)"
  "tabOk t \<Longrightarrow> length (layoutViews (layout t)) \<le> MAX_PANES"
  "tabOk t \<Longrightarrow> activeViewId t \<in> set (layoutViews (layout t))"
  unfolding tabOk_def by auto

lemma singleWorkspaceTab_sel [simp]:
  "tabId (singleWorkspaceTab u v) = u" "viewIds (singleWorkspaceTab u v) = [v]"
  "layout (singleWorkspaceTab u v) = View v" "\<not> pinned (singleWorkspaceTab u v)"
  by (simp_all add: singleWorkspaceTab_def)

lemma singleWorkspaceTab_ok [simp]: "tabOk (singleWorkspaceTab u v)"
  unfolding singleWorkspaceTab_def by (rule tabWithLayout_ok) (auto simp: MAX_PANES_def)

section \<open>The window\<close>

definition tabsViews :: "WorkspaceTab list \<Rightarrow> string list" where
  "tabsViews ts = concat (map viewIds ts)"

definition pinnedSorted :: "WorkspaceTab list \<Rightarrow> bool" where
  "pinnedSorted ts = sorted_wrt (\<lambda>t u. pinned u \<longrightarrow> pinned t) ts"

definition tabsOk :: "WorkspaceTab list \<Rightarrow> bool" where
  "tabsOk ts \<longleftrightarrow> (\<forall>t\<in>set ts. tabOk t) \<and> distinct (map tabId ts)
     \<and> distinct (tabsViews ts) \<and> pinnedSorted ts"

definition stateOk :: "WorkspaceTabsState \<Rightarrow> bool" where
  "stateOk s \<longleftrightarrow> tabsOk (tabs s)
     \<and> (case activeTabId s of None \<Rightarrow> True | Some i \<Rightarrow> i \<in> tabId ` set (tabs s))"

lemma tabsViews_simps [simp]:
  "tabsViews [] = []" "tabsViews (t # ts) = viewIds t @ tabsViews ts"
  "tabsViews (ts @ us) = tabsViews ts @ tabsViews us"
  by (simp_all add: tabsViews_def)

lemma set_tabsViews: "set (tabsViews ts) = (\<Union>t\<in>set ts. set (viewIds t))"
  by (simp add: tabsViews_def)

lemma mset_tabsViews: "mset (tabsViews ts) = (\<Sum>t\<in>#mset ts. mset (viewIds t))"
  by (induction ts) auto

lemma tabsViews_perm: "mset ts = mset us \<Longrightarrow> mset (tabsViews ts) = mset (tabsViews us)"
  by (simp add: mset_tabsViews)

text \<open>The tab an id names, and the tab a view is in, are unique.\<close>

lemma tabId_unique:
  "distinct (map tabId ts) \<Longrightarrow> t \<in> set ts \<Longrightarrow> u \<in> set ts \<Longrightarrow> tabId t = tabId u \<Longrightarrow> t = u"
  by (metis distinct_map inj_onD)

lemma view_unique:
  "distinct (tabsViews ts) \<Longrightarrow> t \<in> set ts \<Longrightarrow> u \<in> set ts \<Longrightarrow>
   v \<in> set (viewIds t) \<Longrightarrow> v \<in> set (viewIds u) \<Longrightarrow> t = u"
proof (induction ts)
  case (Cons a ts)
  have "\<And>w. w \<in> set ts \<Longrightarrow> set (viewIds w) \<subseteq> set (tabsViews ts)" by (auto simp: set_tabsViews)
  with Cons show ?case by (auto; blast)
qed simp

lemma split_at_tab:
  assumes "distinct (map tabId ts)" "t \<in> set ts"
  obtains xs ys where "ts = xs @ t # ys" "\<forall>u\<in>set xs. tabId u \<noteq> tabId t" "\<forall>u\<in>set ys. tabId u \<noteq> tabId t"
proof -
  from assms(2) obtain xs ys where sp: "ts = xs @ t # ys" by (meson split_list)
  from assms(1) sp have "tabId t \<notin> tabId ` set xs" "tabId t \<notin> tabId ` set ys" by auto
  then have "\<forall>u\<in>set xs. tabId u \<noteq> tabId t" "\<forall>u\<in>set ys. tabId u \<noteq> tabId t"
    by (metis image_eqI)+
  with sp show thesis by (rule that)
qed

lemma map_only_tab:
  assumes "\<forall>u\<in>set xs. tabId u \<noteq> i"
  shows "map (\<lambda>t. if tabId t = i then f t else t) xs = xs"
    "map (\<lambda>t. if tabId t \<noteq> i then t else f t) xs = xs"
    "filter (\<lambda>t. tabId t \<noteq> i) xs = xs"
  using assms by (induction xs) auto

text \<open>Changing one tab, or dropping one, changes the views by that tab's views.\<close>

lemma views_map_tab:
  assumes "distinct (map tabId ts)" "t \<in> set ts" "tabId t = i"
  shows "mset (tabsViews (map (\<lambda>u. if tabId u = i then f u else u) ts)) + mset (viewIds t)
         = mset (tabsViews ts) + mset (viewIds (f t))"
proof -
  from split_at_tab [OF assms(1,2)] obtain xs ys where
    "ts = xs @ t # ys" "\<forall>u\<in>set xs. tabId u \<noteq> i" "\<forall>u\<in>set ys. tabId u \<noteq> i"
    using assms(3) by metis
  with assms(3) show ?thesis by (simp add: map_only_tab)
qed

lemma views_drop_tab:
  assumes "distinct (map tabId ts)" "t \<in> set ts" "tabId t = i"
  shows "mset (tabsViews (filter (\<lambda>u. tabId u \<noteq> i) ts)) + mset (viewIds t) = mset (tabsViews ts)"
proof -
  from split_at_tab [OF assms(1,2)] obtain xs ys where
    "ts = xs @ t # ys" "\<forall>u\<in>set xs. tabId u \<noteq> i" "\<forall>u\<in>set ys. tabId u \<noteq> i"
    using assms(3) by metis
  with assms(3) show ?thesis by (simp add: map_only_tab)
qed

lemma distinct_mset_cong: "mset xs = mset ys \<Longrightarrow> distinct xs = distinct ys"
  by (rule mset_eq_imp_distinct_iff)

subsection \<open>Pinned tabs first\<close>

lemma pinnedSorted_map:
  "(\<And>t. t \<in> set ts \<Longrightarrow> pinned (f t) = pinned t) \<Longrightarrow> pinnedSorted (map f ts) = pinnedSorted ts"
  unfolding pinnedSorted_def sorted_wrt_map
  by (induction ts) auto

lemma pinnedSorted_filter: "pinnedSorted ts \<Longrightarrow> pinnedSorted (filter P ts)"
  by (simp add: pinnedSorted_def sorted_wrt_filter)

lemma pinnedSorted_append:
  "pinnedSorted (ts @ us) \<longleftrightarrow> pinnedSorted ts \<and> pinnedSorted us
     \<and> (\<forall>t\<in>set ts. \<forall>u\<in>set us. pinned u \<longrightarrow> pinned t)"
  by (simp add: pinnedSorted_def sorted_wrt_append)

lemma pinnedSorted_Cons:
  "pinnedSorted (t # ts) \<longleftrightarrow> (\<forall>u\<in>set ts. pinned u \<longrightarrow> pinned t) \<and> pinnedSorted ts"
  by (simp add: pinnedSorted_def)

lemma pinnedSorted_pinnedFirst: "pinnedSorted (pinnedFirst ts)"
proof -
  have "pinnedSorted (filter pinned ts)" "pinnedSorted (filter (\<lambda>t. \<not> pinned t) ts)"
    by (induction ts) (auto simp: pinnedSorted_def)
  then show ?thesis by (simp add: pinnedFirst_def pinnedSorted_append)
qed

lemma pinnedFirst_id: "pinnedSorted ts \<Longrightarrow> pinnedFirst ts = ts"
proof (induction ts)
  case (Cons t ts)
  then have IH: "filter pinned ts @ filter (\<lambda>t. \<not> pinned t) ts = ts"
    and all: "\<forall>u\<in>set ts. pinned u \<longrightarrow> pinned t"
    by (simp_all add: pinnedSorted_def pinnedFirst_def)
  show ?case
  proof (cases "pinned t")
    case True
    with IH show ?thesis by (simp add: pinnedFirst_def)
  next
    case False
    with all have "filter pinned ts = []" by (auto simp: filter_empty_conv)
    with IH False show ?thesis by (simp add: pinnedFirst_def)
  qed
qed (simp add: pinnedFirst_def)

lemma mset_pinnedFirst: "mset (pinnedFirst ts) = mset ts"
  by (induction ts) (auto simp: pinnedFirst_def)

text \<open>Inserting a tab where its kind belongs.\<close>

lemma pinnedSorted_insert:
  assumes "pinnedSorted ts"
    and "if pinned t then k \<le> length (filter pinned ts)
         else length (filter pinned ts) \<le> k"
  shows "pinnedSorted (splice k 0 [t] ts)"
proof -
  define P U where "P = filter pinned ts" and "U = filter (\<lambda>t. \<not> pinned t) ts"
  have ts: "ts = P @ U" using pinnedFirst_id [OF assms(1)] by (simp add: pinnedFirst_def P_def U_def)
  have P: "\<forall>u\<in>set P. pinned u" and U: "\<forall>u\<in>set U. \<not> pinned u" by (auto simp: P_def U_def)
  have tk: "pinnedSorted (take k ts)" and dr: "pinnedSorted (drop k ts)"
    and cross: "\<forall>a\<in>set (take k ts). \<forall>b\<in>set (drop k ts). pinned b \<longrightarrow> pinned a"
    using assms(1) pinnedSorted_append [of "take k ts" "drop k ts"] by simp_all
  have "if pinned t then \<forall>a\<in>set (take k ts). pinned a else \<forall>b\<in>set (drop k ts). \<not> pinned b"
  proof (cases "pinned t")
    case True
    with assms(2) have "k \<le> length P" by (simp add: P_def)
    then have "take k ts = take k P" by (simp add: ts)
    with P True show ?thesis by (auto dest: in_set_takeD)
  next
    case False
    with assms(2) have "length P \<le> k" by (simp add: P_def)
    then have "drop k ts = drop (k - length P) U" by (simp add: ts)
    with U False show ?thesis by (auto dest: in_set_dropD)
  qed
  with tk dr cross show ?thesis
    by (cases "pinned t") (simp_all add: splice_def pinnedSorted_append pinnedSorted_Cons)
qed

section \<open>The operations keep the window well-formed\<close>

lemma tabsOkD:
  "tabsOk ts \<Longrightarrow> t \<in> set ts \<Longrightarrow> tabOk t" "tabsOk ts \<Longrightarrow> distinct (map tabId ts)"
  "tabsOk ts \<Longrightarrow> distinct (tabsViews ts)" "tabsOk ts \<Longrightarrow> pinnedSorted ts"
  by (simp_all add: tabsOk_def)

lemma stateOkD: "stateOk s \<Longrightarrow> tabsOk (tabs s)"
  by (simp add: stateOk_def)

lemma tabsOk_map:
  assumes "tabsOk ts" "distinct (tabsViews (map f ts))"
    and "\<And>t. t \<in> set ts \<Longrightarrow> tabOk (f t) \<and> tabId (f t) = tabId t \<and> pinned (f t) = pinned t"
  shows "tabsOk (map f ts)" "tabId ` set (map f ts) = tabId ` set ts"
proof -
  have "map tabId (map f ts) = map tabId ts" using assms(3) by simp
  moreover have "pinnedSorted (map f ts)"
    using pinnedSorted_map [of ts f] assms(1,3) tabsOkD(4) by auto
  ultimately show "tabsOk (map f ts)"
    using assms tabsOkD(2) [OF assms(1)] unfolding tabsOk_def by (metis image_iff list.set_map)
  show "tabId ` set (map f ts) = tabId ` set ts"
    unfolding set_map image_image by (rule image_cong) (use assms(3) in auto)
qed

lemma tabsViews_map_same:
  assumes "\<And>t. t \<in> set ts \<Longrightarrow> mset (viewIds (f t)) = mset (viewIds t)"
  shows "mset (tabsViews (map f ts)) = mset (tabsViews ts)"
  using assms by (induction ts) auto

lemma tabsOk_map_same:
  assumes "tabsOk ts"
    and "\<And>t. t \<in> set ts \<Longrightarrow> tabOk (f t) \<and> tabId (f t) = tabId t \<and> pinned (f t) = pinned t
           \<and> mset (viewIds (f t)) = mset (viewIds t)"
  shows "tabsOk (map f ts)" "tabId ` set (map f ts) = tabId ` set ts"
proof -
  have "mset (tabsViews (map f ts)) = mset (tabsViews ts)"
    using assms(2) by (intro tabsViews_map_same) auto
  then have "distinct (tabsViews (map f ts))"
    using distinct_mset_cong tabsOkD(3) [OF assms(1)] by blast
  then show "tabsOk (map f ts)" "tabId ` set (map f ts) = tabId ` set ts"
    using tabsOk_map [OF assms(1)] assms(2) by auto
qed

lemma stateOk_map_same:
  assumes "stateOk s"
    and "\<And>t. t \<in> set (tabs s) \<Longrightarrow> tabOk (f t) \<and> tabId (f t) = tabId t \<and> pinned (f t) = pinned t
           \<and> mset (viewIds (f t)) = mset (viewIds t)"
  shows "stateOk (s\<lparr>tabs := map f (tabs s)\<rparr>)"
    and "i \<in> tabId ` set (tabs s) \<Longrightarrow> stateOk \<lparr>tabs = map f (tabs s), activeTabId = Some i\<rparr>"
proof -
  have ok: "tabsOk (map f (tabs s))" "tabId ` set (map f (tabs s)) = tabId ` set (tabs s)"
    using tabsOk_map_same [OF stateOkD [OF assms(1)], of f] assms(2) by auto
  show "stateOk (s\<lparr>tabs := map f (tabs s)\<rparr>)"
    using ok assms(1) unfolding stateOk_def by (auto split: option.splits)
  show "i \<in> tabId ` set (tabs s) \<Longrightarrow> stateOk \<lparr>tabs = map f (tabs s), activeTabId = Some i\<rparr>"
    using ok by (auto simp: stateOk_def)
qed

lemma relayout_perm_ok:
  assumes "tabOk t" "mset (layoutViews l) = mset (layoutViews (layout t))" "ratiosOk l"
  shows "tabOk (relayout t l) \<and> mset (viewIds (relayout t l)) = mset (viewIds t)"
proof -
  have "distinct (layoutViews l)" "length (layoutViews l) \<le> MAX_PANES"
    using tabOkD(1,3,5) [OF assms(1)] distinct_mset_cong [OF assms(2)] mset_eq_length [OF assms(2)]
    by simp_all
  with assms show ?thesis by (simp add: tabWithLayout_ok tabOkD(1))
qed

lemma activate_ok: "stateOk s \<Longrightarrow> stateOk (activateWorkspaceTab s i v)"
proof (cases "find (\<lambda>t. tabId t = i) (tabs s)")
  case (Some target)
  assume ok: "stateOk s"
  from Some have t: "target \<in> set (tabs s)" "tabId target = i" by (auto dest: find_Some_in)
  define w where "w = (case v of
                Some v \<Rightarrow> if v \<noteq> [] \<and> v \<in> set (viewIds target) then v else activeViewId target
              | None \<Rightarrow> activeViewId target)"
  have w: "w \<in> set (viewIds target)"
    using tabOkD(4) [OF tabsOkD(1) [OF stateOkD [OF ok] t(1)]] by (auto simp: w_def split: option.splits)
  have "stateOk \<lparr>tabs = map (\<lambda>t. if tabId t = i then t\<lparr>activeViewId := w\<rparr> else t) (tabs s),
                     activeTabId = Some i\<rparr>"
  proof (rule stateOk_map_same(2) [OF ok], goal_cases)
    case (1 u)
    have u: "tabOk u" by (rule tabsOkD(1) [OF stateOkD [OF ok] 1])
    have "tabId u = i \<Longrightarrow> u = target"
      using tabId_unique [OF tabsOkD(2) [OF stateOkD [OF ok]] 1 t(1)] t(2) by simp
    with u w show ?case by (auto simp: tabOk_def split: PaneLayout.splits)
  next
    case 2
    from t show ?case by auto
  qed
  with Some show ?thesis by (simp add: activateWorkspaceTab_def Let_def flip: w_def)
qed (simp add: activateWorkspaceTab_def)

lemma stateOk_relayout:
  assumes "stateOk s"
    and "\<And>t. tabOk t \<Longrightarrow> f t = t \<or> (\<exists>l. f t = relayout t l
           \<and> mset (layoutViews l) = mset (layoutViews (layout t)) \<and> ratiosOk l)"
  shows "stateOk (s\<lparr>tabs := map f (tabs s)\<rparr>)"
proof (rule stateOk_map_same(1) [OF assms(1)])
  fix t assume "t \<in> set (tabs s)"
  then have ok: "tabOk t" using assms(1) stateOkD tabsOkD(1) by blast
  from assms(2) [OF ok] show "tabOk (f t) \<and> tabId (f t) = tabId t \<and> pinned (f t) = pinned t
           \<and> mset (viewIds (f t)) = mset (viewIds t)"
  proof
    assume "\<exists>l. f t = relayout t l \<and> mset (layoutViews l) = mset (layoutViews (layout t)) \<and> ratiosOk l"
    then obtain l where l: "f t = relayout t l" "mset (layoutViews l) = mset (layoutViews (layout t))" "ratiosOk l"
      by blast
    with relayout_perm_ok [OF ok l(2,3)] show ?thesis by simp
  qed (simp add: ok)
qed

lemma swap_ok: "stateOk s \<Longrightarrow> stateOk (swapWorkspaceSplit s i)"
  unfolding swapWorkspaceSplit_def Let_def
proof (rule stateOk_relayout, assumption, goal_cases)
  case (1 t)
  define p where "p = (case parentPath (layout t) (activeViewId t) [] of Some p \<Rightarrow> p | None \<Rightarrow> [])"
  have "mset (layoutViews (updateAt (layout t) p swapSides)) = mset (layoutViews (layout t))"
    by (rule updateAt_mset) simp
  moreover have "ratiosOk (updateAt (layout t) p swapSides)"
    by (rule updateAt_ratios [OF swapSides_ratios tabOkD(6) [OF 1(2)]])
  ultimately show ?case by (auto simp: p_def)
qed

lemma ratio_ok: "stateOk s \<Longrightarrow> stateOk (setWorkspaceSplitRatio s i ratio p)"
proof -
  assume ok: "stateOk s"
  define c where "c = min MAX_RATIO (max MIN_RATIO (numValue ratio))"
  have c: "ratioOk c" by (simp add: c_def)
  have "stateOk (s\<lparr>tabs := map (\<lambda>t.
            if tabId t \<noteq> i then t
            else if (\<exists>v. layout t = View v) \<and> p = [] then t\<lparr>splitRatio := c\<rparr>
            else relayout t (updateAt (layout t) p (setRatio c))) (tabs s)\<rparr>)"
  proof (rule stateOk_map_same(1) [OF ok], goal_cases)
    case (1 t)
    then have t: "tabOk t" using ok stateOkD tabsOkD(1) by blast
    have "tabOk (relayout t (updateAt (layout t) p (setRatio c)))
        \<and> mset (viewIds (relayout t (updateAt (layout t) p (setRatio c)))) = mset (viewIds t)"
      by (rule relayout_perm_ok [OF t])
         (use c t in \<open>auto simp: updateAt_views intro!: updateAt_ratios setRatio_ratios dest: tabOkD\<close>)
    moreover have "(\<exists>v. layout t = View v) \<Longrightarrow> tabOk (t\<lparr>splitRatio := c\<rparr>)"
      using t c unfolding tabOk_def by auto
    ultimately show ?case using t by auto
  qed
  with ok show ?thesis by (simp add: setWorkspaceSplitRatio_def Let_def flip: c_def)
qed

lemma reset_ok: "stateOk s \<Longrightarrow> stateOk (resetWorkspaceSplits s i)"
  unfolding resetWorkspaceSplits_def
  by (rule stateOk_relayout) (auto simp: exI [of _ "evenSplits _"])

subsection \<open>Operations that change which tab holds a view\<close>

lemma distinct_subseteq_mset: "mset xs \<subseteq># mset ys \<Longrightarrow> distinct ys \<Longrightarrow> distinct xs"
  by (metis distinct_append ex_mset mset_append mset_eq_imp_distinct_iff subset_mset.add_diff_inverse)

lemma tab_views_distinct: "distinct (tabsViews ts) \<Longrightarrow> t \<in> set ts \<Longrightarrow> distinct (viewIds t)"
  by (induction ts) auto

lemma tabsOk_map_tab:
  assumes ok: "tabsOk ts" and t: "t \<in> set ts" "tabId t = i"
    and new: "tabOk (f t)" "tabId (f t) = i" "pinned (f t) = pinned t"
    and views: "distinct (tabsViews (map (\<lambda>u. if tabId u = i then f u else u) ts))"
  shows "tabsOk (map (\<lambda>u. if tabId u = i then f u else u) ts)"
    "tabId ` set (map (\<lambda>u. if tabId u = i then f u else u) ts) = tabId ` set ts"
proof -
  have "tabOk (if tabId u = i then f u else u) \<and> tabId (if tabId u = i then f u else u) = tabId u
      \<and> pinned (if tabId u = i then f u else u) = pinned u" if u: "u \<in> set ts" for u
    using tabId_unique [OF tabsOkD(2) [OF ok] u t(1)] t(2) new tabsOkD(1) [OF ok u] by auto
  from tabsOk_map [OF ok views this]
  show "tabsOk (map (\<lambda>u. if tabId u = i then f u else u) ts)"
    "tabId ` set (map (\<lambda>u. if tabId u = i then f u else u) ts) = tabId ` set ts" by auto
qed

lemma tabsOk_filter_tab:
  assumes "tabsOk ts" "t \<in> set ts" "tabId t = i"
  shows "tabsOk (filter (\<lambda>u. tabId u \<noteq> i) ts)"
proof -
  have "mset (tabsViews (filter (\<lambda>u. tabId u \<noteq> i) ts)) \<subseteq># mset (tabsViews ts)"
    using views_drop_tab [OF tabsOkD(2) [OF assms(1)] assms(2,3)] by (metis mset_subset_eq_add_left)
  then have "distinct (tabsViews (filter (\<lambda>u. tabId u \<noteq> i) ts))"
    using distinct_subseteq_mset tabsOkD(3) [OF assms(1)] by blast
  with assms(1) show ?thesis
    by (auto simp: tabsOk_def pinnedSorted_filter distinct_map_filter)
qed

text \<open>Taking a view out of the tab that owns it, where something is left of the tab.\<close>

lemma filter_out_id: "v \<notin> set xs \<Longrightarrow> filter (\<lambda>z. z \<noteq> v) xs = xs"
  by (induction xs) auto

lemma mset_filter_out: "distinct xs \<Longrightarrow> v \<in> set xs \<Longrightarrow> add_mset v (mset (filter (\<lambda>z. z \<noteq> v) xs)) = mset xs"
proof (induction xs)
  case (Cons z zs)
  then show ?case by (cases "z = v") (simp_all add: filter_out_id add_mset_commute)
qed simp

lemma length_filter_out: "distinct xs \<Longrightarrow> v \<in> set xs \<Longrightarrow> Suc (length (filter (\<lambda>z. z \<noteq> v) xs)) = length xs"
proof (induction xs)
  case (Cons z zs)
  then show ?case by (cases "z = v") (simp_all add: filter_out_id)
qed simp

text \<open>Multiset bookkeeping: a tab's views change from \<open>old\<close> to \<open>new\<close>.\<close>

lemma mset_account_remove: "X + add_mset v N = A + N \<Longrightarrow> add_mset v X = (A :: 'a multiset)"
  by (metis add_right_cancel union_mset_add_mset_left union_mset_add_mset_right)

lemma mset_account_add: "X + T = A + (T + B) \<Longrightarrow> X = (A + B :: 'a multiset)"
  by (simp add: add.left_commute add.commute)

lemma removal_ok:
  assumes ok: "tabsOk ts" and t: "t \<in> set ts" "tabId t = i" "v \<in> set (viewIds t)"
    and l: "removeFromLayout (layout t) v = Some l"
    and f: "f t = tabWithLayout i a (pinned t) l"
  shows "tabsOk (map (\<lambda>u. if tabId u = i then f u else u) ts)"
    "add_mset v (mset (tabsViews (map (\<lambda>u. if tabId u = i then f u else u) ts))) = mset (tabsViews ts)"
    "tabId ` set (map (\<lambda>u. if tabId u = i then f u else u) ts) = tabId ` set ts"
proof -
  let ?ts = "map (\<lambda>u. if tabId u = i then f u else u) ts"
  have tok: "tabOk t" by (rule tabsOkD(1) [OF ok t(1)])
  have fv: "viewIds (f t) = filter (\<lambda>z. z \<noteq> v) (viewIds t)"
    using f l tok by (simp add: removeFromLayout_Some tabOkD(1))
  have add: "add_mset v (mset (viewIds (f t))) = mset (viewIds t)"
    using mset_filter_out [OF tabOkD(2) [OF tok] t(3)] fv by simp
  show m: "add_mset v (mset (tabsViews ?ts)) = mset (tabsViews ts)"
    by (rule mset_account_remove [where N = "mset (viewIds (f t))"])
       (use views_map_tab [OF tabsOkD(2) [OF ok] t(1,2), of f] add in metis)
  then have "mset (tabsViews ?ts) \<subseteq># mset (tabsViews ts)"
    by (metis add_mset_add_single mset_subset_eq_add_left)
  then have d: "distinct (tabsViews ?ts)"
    using distinct_subseteq_mset tabsOkD(3) [OF ok] by blast
  have "tabOk (f t)" unfolding f
  proof (rule tabWithLayout_ok)
    have "layoutViews l = filter (\<lambda>z. z \<noteq> v) (viewIds t)" using fv f by simp
    then show "distinct (layoutViews l)" "length (layoutViews l) \<le> MAX_PANES"
      using tabOkD(2,5) [OF tok] by (simp_all add: le_trans [OF length_filter_le])
    show "ratiosOk l" by (rule removeFromLayout_ratios [OF tabOkD(6) [OF tok] l])
  qed
  with tabsOk_map_tab [OF ok t(1,2) _ _ _ d] f
  show "tabsOk ?ts" "tabId ` set ?ts = tabId ` set ts" by auto
qed

lemma removal_all:
  assumes ok: "tabsOk ts" and t: "t \<in> set ts" "tabId t = i" "v \<in> set (viewIds t)"
    and l: "removeFromLayout (layout t) v = None"
  shows "tabsOk (filter (\<lambda>u. tabId u \<noteq> i) ts)"
    "add_mset v (mset (tabsViews (filter (\<lambda>u. tabId u \<noteq> i) ts))) = mset (tabsViews ts)"
proof -
  have tok: "tabOk t" by (rule tabsOkD(1) [OF ok t(1)])
  have "set (viewIds t) \<subseteq> {v}" using l tabOkD(1) [OF tok] by (simp add: removeFromLayout_None)
  then have "filter (\<lambda>z. z \<noteq> v) (viewIds t) = []" by (auto simp: filter_empty_conv)
  then have "mset (viewIds t) = {#v#}"
    using mset_filter_out [OF tabOkD(2) [OF tok] t(3)] by simp
  with views_drop_tab [OF tabsOkD(2) [OF ok] t(1,2)]
  show "add_mset v (mset (tabsViews (filter (\<lambda>u. tabId u \<noteq> i) ts))) = mset (tabsViews ts)" by simp
  show "tabsOk (filter (\<lambda>u. tabId u \<noteq> i) ts)" by (rule tabsOk_filter_tab [OF ok t(1,2)])
qed

text \<open>Putting an arrangement whose views no tab holds beside a pane of a tab.\<close>

lemma insertion_ok:
  assumes ok: "tabsOk ts" and t: "t \<in> set ts" "tabId t = i" "w \<in> set (viewIds t)"
    and ins: "ratiosOk ins" "distinct (layoutViews ins)"
      "set (layoutViews ins) \<inter> set (tabsViews ts) = {}"
      "length (viewIds t) + length (layoutViews ins) \<le> MAX_PANES"
    and f: "f t = tabWithLayout i a (pinned t) (insertIntoLayout (layout t) w ins e)"
  shows "tabsOk (map (\<lambda>u. if tabId u = i then f u else u) ts)"
    "mset (tabsViews (map (\<lambda>u. if tabId u = i then f u else u) ts))
       = mset (tabsViews ts) + mset (layoutViews ins)"
    "tabId ` set (map (\<lambda>u. if tabId u = i then f u else u) ts) = tabId ` set ts"
proof -
  let ?ts = "map (\<lambda>u. if tabId u = i then f u else u) ts"
  have tok: "tabOk t" by (rule tabsOkD(1) [OF ok t(1)])
  have fv: "mset (viewIds (f t)) = mset (viewIds t) + mset (layoutViews ins)"
    using insertIntoLayout_mset [OF tabOkD(3) [OF tok], of w ins e] t(3) tabOkD(1) [OF tok] f by simp
  have "mset (tabsViews ?ts) + mset (viewIds t)
      = mset (tabsViews ts) + (mset (viewIds t) + mset (layoutViews ins))"
    using views_map_tab [OF tabsOkD(2) [OF ok] t(1,2), of f] by (simp only: fv)
  then show m: "mset (tabsViews ?ts) = mset (tabsViews ts) + mset (layoutViews ins)"
    by (rule mset_account_add)
  have "distinct (tabsViews ts @ layoutViews ins)" using tabsOkD(3) [OF ok] ins(2,3) by auto
  then have d: "distinct (tabsViews ?ts)" using distinct_mset_cong [of "tabsViews ?ts" "tabsViews ts @ layoutViews ins"] m by simp
  have ft: "f t \<in> set ?ts" using t by force
  have "tabOk (f t)" unfolding f
  proof (rule tabWithLayout_ok)
    show "distinct (layoutViews (insertIntoLayout (layout t) w ins e))"
      using tab_views_distinct [OF d ft] f by simp
    show "length (layoutViews (insertIntoLayout (layout t) w ins e)) \<le> MAX_PANES"
      using mset_eq_length [of "viewIds (f t)" "viewIds t @ layoutViews ins"] fv ins(4) f by simp
    show "ratiosOk (insertIntoLayout (layout t) w ins e)" using tabOkD(6) [OF tok] ins(1) by simp
  qed
  with tabsOk_map_tab [OF ok t(1,2) _ _ _ d] f
  show "tabsOk ?ts" "tabId ` set ?ts = tabId ` set ts" by auto
qed

text \<open>Putting a new tab into the strip, in any order of the others.\<close>

lemma tabsOk_perm:
  assumes "tabsOk ts" "mset us = mset ts" "pinnedSorted us"
  shows "tabsOk us"
proof -
  have "mset (map tabId us) = mset (map tabId ts)" using assms(2) by simp
  then have "distinct (map tabId us)" using distinct_mset_cong tabsOkD(2) [OF assms(1)] by blast
  moreover have "distinct (tabsViews us)"
    using distinct_mset_cong [OF tabsViews_perm [OF assms(2)]] tabsOkD(3) [OF assms(1)] by blast
  ultimately show ?thesis
    using assms mset_eq_setD [OF assms(2)] by (simp add: tabsOk_def)
qed

lemma tabsOk_insert:
  assumes "tabsOk ts" "tabOk t" "tabId t \<notin> tabId ` set ts" "set (viewIds t) \<inter> set (tabsViews ts) = {}"
    and "if pinned t then k \<le> length (filter pinned ts) else length (filter pinned ts) \<le> k"
  shows "tabsOk (splice k 0 [t] ts)"
proof -
  have s: "pinnedSorted (splice k 0 [t] ts)"
    by (rule pinnedSorted_insert [OF tabsOkD(4) [OF assms(1)] assms(5)])
  have m: "mset (splice k 0 [t] ts) = mset (t # ts)" by (simp add: mset_insert_at)
  then have st: "set (splice k 0 [t] ts) = insert t (set ts)" by (metis list.set(2) mset_eq_setD)
  have "mset (map tabId (splice k 0 [t] ts)) = mset (map tabId (t # ts))" by (simp only: mset_map m)
  then have "distinct (map tabId (splice k 0 [t] ts))"
    using distinct_mset_cong [of _ "map tabId (t # ts)"] assms(1,3) by (auto simp: tabsOk_def)
  moreover have "distinct (tabsViews (splice k 0 [t] ts))"
    using distinct_mset_cong [OF tabsViews_perm [OF m]] assms(1,2,4) by (auto simp: tabsOk_def tabOkD)
  ultimately show ?thesis using assms(1,2) s st by (auto simp: tabsOk_def)
qed

subsection \<open>Splitting, separating, replacing, closing\<close>

lemma find_tab: "find (\<lambda>t. tabId t = i) ts = Some t \<Longrightarrow> t \<in> set ts \<and> tabId t = i"
  using find_Some_in by fast

lemma find_view: "find (\<lambda>t. v \<in> set (viewIds t)) ts = Some t \<Longrightarrow> t \<in> set ts \<and> v \<in> set (viewIds t)"
  using find_Some_in by fast

lemma tabViews_disjoint:
  assumes "distinct (tabsViews ts)" "t \<in> set ts"
  shows "set (viewIds t) \<inter> set (tabsViews (filter (\<lambda>u. tabId u \<noteq> tabId t) ts)) = {}"
  using view_unique [OF assms(1)] assms(2) by (fastforce simp: set_tabsViews)

lemma split_ok:
  assumes ok: "stateOk s"
  shows "stateOk (splitWithTab s i j e)
    \<and> mset (tabsViews (tabs (splitWithTab s i j e))) = mset (tabsViews (tabs s))"
proof (cases "find (\<lambda>t. tabId t = i) (tabs s)"; cases "find (\<lambda>t. tabId t = j) (tabs s)")
  fix source target
  assume fnd: "find (\<lambda>t. tabId t = i) (tabs s) = Some source" "find (\<lambda>t. tabId t = j) (tabs s) = Some target"
  note so = find_tab [OF fnd(1)] and ta = find_tab [OF fnd(2)]
  note tok = stateOkD [OF ok]
  show ?thesis
  proof (cases "tabId source = tabId target \<or> length (viewIds source) + length (viewIds target) > MAX_PANES")
    case False
    let ?ts = "filter (\<lambda>u. tabId u \<noteq> tabId target) (tabs s)"
    let ?f = "\<lambda>t. relayout source (insertIntoLayout (layout source) (activeViewId source) (layout target) e)"
    have fil: "tabsOk ?ts" using tabsOk_filter_tab [OF tok] ta by blast
    have sin: "source \<in> set ?ts" using so False by simp
    have okt: "tabOk source" "tabOk target" using tabsOkD(1) [OF tok] so ta by auto
    have dis: "set (layoutViews (layout target)) \<inter> set (tabsViews ?ts) = {}"
      using tabViews_disjoint [OF tabsOkD(3) [OF tok]] ta tabOkD(1) [OF okt(2)] by metis
    have len: "length (viewIds source) + length (layoutViews (layout target)) \<le> MAX_PANES"
      using False tabOkD(1) [OF okt(2)] by simp
    note ins = insertion_ok [OF fil sin refl tabOkD(4) [OF okt(1)] tabOkD(6) [OF okt(2)] tabOkD(3) [OF okt(2)] dis len,
        of ?f "Some (activeViewId source)" e, OF refl]
    have "mset (tabsViews ?ts) + mset (layoutViews (layout target)) = mset (tabsViews (tabs s))"
      using views_drop_tab [OF tabsOkD(2) [OF tok]] ta tabOkD(1) [OF okt(2)] by metis
    with ins False fnd sin show ?thesis
      by (auto simp: splitWithTab_def stateOk_def Let_def)
  qed (use fnd ok in \<open>simp add: splitWithTab_def\<close>)
qed (use ok in \<open>simp_all add: splitWithTab_def\<close>)

lemma close_ok:
  assumes ok: "stateOk s"
  shows "stateOk (closeWorkspaceView s v)
    \<and> mset (tabsViews (tabs (closeWorkspaceView s v))) = mset (tabsViews (tabs s)) - {#v#}"
proof (cases "find (\<lambda>t. v \<in> set (viewIds t)) (tabs s)")
  case None
  then have "v \<notin> set (tabsViews (tabs s))" by (auto simp: find_None set_tabsViews)
  with None ok show ?thesis by (simp add: closeWorkspaceView_def diff_single_trivial)
next
  case (Some owner)
  note ow = find_view [OF Some] and tok = stateOkD [OF ok]
  show ?thesis
  proof (cases "removeFromLayout (layout owner) v")
    case l: (Some l)
    let ?f = "\<lambda>t. tabWithLayout (tabId t) (if activeViewId t = v then closeSurvivor (layout owner) v
                           else Some (activeViewId t)) (pinned t) l"
    from ow have ows: "owner \<in> set (tabs s)" "v \<in> set (viewIds owner)" by auto
    note rem = removal_ok [OF tok ows(1) refl ows(2) l, of ?f, OF refl]
    have "mset (tabsViews (map (\<lambda>u. if tabId u = tabId owner then ?f u else u) (tabs s)))
        = mset (tabsViews (tabs s)) - {#v#}"
      unfolding rem(2) [symmetric] by simp
    with rem(1,3) Some l ok show ?thesis
      by (auto simp: closeWorkspaceView_def stateOk_def split: option.splits)
  next
    case l: None
    let ?rest = "filter (\<lambda>t. tabId t \<noteq> tabId owner) (tabs s)"
    from ow have ows: "owner \<in> set (tabs s)" "v \<in> set (viewIds owner)" by auto
    note rem = removal_all [OF tok ows(1) refl ows(2) l]
    have "mset (tabsViews ?rest) = mset (tabsViews (tabs s)) - {#v#}"
      unfolding rem(2) [symmetric] by simp
    moreover have "?rest \<noteq> [] \<Longrightarrow> ?rest ! min k (length ?rest - 1) \<in> set ?rest" for k
      by (rule nth_mem) (simp add: min_less_iff_disj)
    ultimately show ?thesis using rem(1) Some l ok
      by (auto simp: closeWorkspaceView_def stateOk_def Let_def nthOpt_def split: option.splits)
  qed
qed

lemma replace_ok:
  assumes ok: "stateOk s"
  shows "stateOk (replaceWorkspaceView s u v)"
proof (cases "find (\<lambda>t. u \<in> set (viewIds t)) (tabs s)")
  case (Some owner)
  note ow = find_view [OF Some] and tok = stateOkD [OF ok]
  from ow have own: "owner \<in> set (tabs s)" and uo: "u \<in> set (viewIds owner)" by auto
  note ook = tabsOkD(1) [OF tok own]
  let ?m = "\<lambda>z. if z = u then v else z"
  let ?f = "\<lambda>t. tabWithLayout (tabId t) (Some v) (pinned t) (mapViews (layout t) ?m)"
  let ?ts = "map (\<lambda>t. if tabId t = tabId owner then ?f t else t) (tabs s)"
  show ?thesis
  proof (cases "list_ex (\<lambda>t. v \<in> set (viewIds t)) (tabs s)")
    case False
    then have v: "v \<notin> set (tabsViews (tabs s))" by (auto simp: list_ex_iff set_tabsViews)
    have inj: "inj_on ?m (set (viewIds owner))"
      using v own by (auto simp: inj_on_def set_tabsViews)
    have okf: "tabOk (?f owner)"
      by (rule tabWithLayout_ok)
         (use inj ook in \<open>auto simp: distinct_map dest: tabOkD(1) tabOkD(3) tabOkD(6) tabOkD(7)\<close>)
    have sub: "set (viewIds (?f owner)) \<subseteq> insert v (set (viewIds owner))"
      by (auto simp: tabOkD(1) [OF ook])
    have v2: "v \<notin> set (tabsViews (filter (\<lambda>t. tabId t \<noteq> tabId owner) (tabs s)))"
      using v by (auto simp: set_tabsViews)
    have dis: "set (viewIds (?f owner)) \<inter> set (tabsViews (filter (\<lambda>t. tabId t \<noteq> tabId owner) (tabs s))) = {}"
      using tabViews_disjoint [OF tabsOkD(3) [OF tok] own] sub v2 by blast
    have "mset (tabsViews ?ts) + mset (viewIds owner)
        = mset (tabsViews (filter (\<lambda>t. tabId t \<noteq> tabId owner) (tabs s))) + mset (viewIds owner) + mset (viewIds (?f owner))"
      using views_map_tab [OF tabsOkD(2) [OF tok] own refl, of ?f]
        views_drop_tab [OF tabsOkD(2) [OF tok] own refl] by metis
    then have "mset (tabsViews ?ts)
        = mset (tabsViews (filter (\<lambda>t. tabId t \<noteq> tabId owner) (tabs s)) @ viewIds (?f owner))"
      by simp
    then have "distinct (tabsViews ?ts) = distinct
        (tabsViews (filter (\<lambda>t. tabId t \<noteq> tabId owner) (tabs s)) @ viewIds (?f owner))"
      by (rule distinct_mset_cong)
    then have "distinct (tabsViews ?ts)"
      unfolding distinct_append
      using dis tabOkD(2) [OF okf] tabsOkD(3) [OF tabsOk_filter_tab [OF tok own refl]] by blast
    from tabsOk_map_tab [OF tok own refl okf _ _ this]
    show ?thesis using own Some False
      by (auto simp: replaceWorkspaceView_def stateOk_def)
  qed (use Some ok in \<open>simp add: replaceWorkspaceView_def\<close>)
qed (use ok in \<open>simp add: replaceWorkspaceView_def\<close>)

lemma splice_remove: "k < length ts \<Longrightarrow> mset ts = add_mset (ts ! k) (mset (splice k 1 [] ts))"
  by (metis (no_types) Cons_nth_drop_Suc Suc_eq_plus1 append_Nil append_take_drop_id mset.simps(2)
      mset_append splice_def union_mset_add_mset_right)

lemma splice_remove_sorted: "pinnedSorted ts \<Longrightarrow> pinnedSorted (splice k 1 [] ts)"
proof -
  assume "pinnedSorted ts"
  then have "pinnedSorted (take k ts @ drop k ts)" by simp
  moreover have "drop (k + 1) ts = tl (drop k ts)" by (simp add: drop_Suc tl_drop)
  ultimately show ?thesis
    by (cases "drop k ts") (auto simp: splice_def pinnedSorted_append pinnedSorted_Cons)
qed

lemma reorder_ok:
  assumes ok: "stateOk s"
  shows "stateOk (reorderWorkspaceTab s i ix)
    \<and> mset (tabs (reorderWorkspaceTab s i ix)) = mset (tabs s)"
proof (cases "findIndex (\<lambda>t. tabId t = i) (tabs s)")
  case (Some k)
  note tok = stateOkD [OF ok]
  have k: "k < length (tabs s)" using findIndex_Some [OF Some] by simp
  let ?rest = "splice k 1 [] (tabs s)" and ?m = "tabs s ! k"
  define lo hi where "lo = (if pinned ?m then 0 else length (filter pinned ?rest))"
    and "hi = (if pinned ?m then length (filter pinned ?rest) else length ?rest)"
  define n where "n = nat (min (int hi) (max (int lo) (mathTrunc (numValue ix))))"
  have lohi: "lo \<le> hi" by (simp add: lo_def hi_def)
  then have n: "lo \<le> n" "n \<le> hi" by (auto simp: n_def)
  have srt: "pinnedSorted (splice n 0 [?m] ?rest)"
    by (rule pinnedSorted_insert [OF splice_remove_sorted [OF tabsOkD(4) [OF tok]]])
       (use n in \<open>auto simp: lo_def hi_def split: if_splits\<close>)
  have m: "mset (splice n 0 [?m] ?rest) = mset (tabs s)"
    using splice_remove [OF k] by (simp add: mset_insert_at)
  have "tabsOk (splice n 0 [?m] ?rest)" by (rule tabsOk_perm [OF tok m srt])
  moreover have "reorderWorkspaceTab s i ix
      = (if isFinite ix then s\<lparr>tabs := splice n 0 [?m] ?rest\<rparr> else s)"
    by (simp add: reorderWorkspaceTab_def Some Let_def lo_def hi_def n_def)
  ultimately show ?thesis using m ok mset_eq_setD [OF m]
    by (auto simp: stateOk_def split: option.splits)
qed (use ok in \<open>simp add: reorderWorkspaceTab_def\<close>)

lemma pin_ok:
  assumes ok: "stateOk s"
  shows "stateOk (pinWorkspaceTab s i p)
    \<and> mset (tabsViews (tabs (pinWorkspaceTab s i p))) = mset (tabsViews (tabs s))"
proof (cases "find (\<lambda>t. tabId t = i) (tabs s)")
  case (Some t)
  note tok = stateOkD [OF ok]
  from find_tab [OF Some] have t: "t \<in> set (tabs s)" "tabId t = i" by auto
  show ?thesis
  proof (cases "pinned t = p")
    case False
    let ?rest = "filter (\<lambda>t. tabId t \<noteq> i) (tabs s)" and ?t = "t\<lparr>pinned := p\<rparr>"
    let ?k = "length (filter pinned ?rest)"
    have tk: "tabOk ?t" using tabsOkD(1) [OF tok t(1)] by (auto simp: tabOk_def split: PaneLayout.splits)
    have dis: "set (viewIds ?t) \<inter> set (tabsViews ?rest) = {}"
      using tabViews_disjoint [OF tabsOkD(3) [OF tok] t(1)] t(2) by simp
    have "tabsOk (splice ?k 0 [?t] ?rest)"
      by (rule tabsOk_insert [OF tabsOk_filter_tab [OF tok t] tk _ dis]) (use t in auto)
    moreover have "mset (tabsViews (splice ?k 0 [?t] ?rest)) = mset (tabsViews (tabs s))"
      using views_drop_tab [OF tabsOkD(2) [OF tok] t]
      by (simp add: mset_tabsViews mset_insert_at add.commute)
    moreover have "tabId ` set (splice ?k 0 [?t] ?rest) = tabId ` set (tabs s)"
      using t by (auto simp: set_insert_at)
    ultimately show ?thesis using False Some ok
      by (auto simp: pinWorkspaceTab_def Let_def stateOk_def split: option.splits)
  qed (use ok Some in \<open>simp add: pinWorkspaceTab_def\<close>)
qed (use ok in \<open>simp add: pinWorkspaceTab_def\<close>)

text \<open>The identifiers drawn for new tabs are new and different.\<close>

definition freshIds :: "(nat \<Rightarrow> string) \<Rightarrow> nat \<Rightarrow> WorkspaceTabsState \<Rightarrow> bool" where
  "freshIds uuid n s \<longleftrightarrow> distinct (map uuid [0..<n]) \<and> (\<forall>k<n. uuid k \<notin> tabId ` set (tabs s))"

lemma singles_sel:
  "map tabId (map (\<lambda>(k, v). singleWorkspaceTab (uuid k) v) (enumerate n vs)) = map uuid [n..<n + length vs]"
  "tabsViews (map (\<lambda>(k, v). singleWorkspaceTab (uuid k) v) (enumerate n vs)) = vs"
  "\<forall>t\<in>set (map (\<lambda>(k, v). singleWorkspaceTab (uuid k) v) (enumerate n vs)). tabOk t"
proof -
  show "map tabId (map (\<lambda>(k, v). singleWorkspaceTab (uuid k) v) (enumerate n vs)) = map uuid [n..<n + length vs]"
    by (induction vs arbitrary: n) (simp_all add: upt_conv_Cons del: upt_Suc)
  show "tabsViews (map (\<lambda>(k, v). singleWorkspaceTab (uuid k) v) (enumerate n vs)) = vs"
    by (induction vs arbitrary: n) simp_all
  show "\<forall>t\<in>set (map (\<lambda>(k, v). singleWorkspaceTab (uuid k) v) (enumerate n vs)). tabOk t"
    by auto
qed

lemma tabsOk_pinnedFirst:
  assumes "\<forall>t\<in>set ts. tabOk t" "distinct (map tabId ts)" "distinct (tabsViews ts)"
  shows "tabsOk (pinnedFirst ts)"
proof -
  have m: "mset (pinnedFirst ts) = mset ts" by (rule mset_pinnedFirst)
  have "mset (map tabId (pinnedFirst ts)) = mset (map tabId ts)" by (simp only: mset_map m)
  with assms show ?thesis
    unfolding tabsOk_def
    using distinct_mset_cong distinct_mset_cong [OF tabsViews_perm [OF m]] mset_eq_setD [OF m]
      pinnedSorted_pinnedFirst by metis
qed

lemma separate_ok:
  assumes ok: "stateOk s"
    and fresh: "\<And>t. t \<in> set (tabs s) \<Longrightarrow> tabId t = i \<Longrightarrow> freshIds uuid (length (viewIds t) - 1) s"
  shows "stateOk (separateWorkspaceTab uuid s i)
    \<and> mset (tabsViews (tabs (separateWorkspaceTab uuid s i))) = mset (tabsViews (tabs s))"
proof (cases "find (\<lambda>t. tabId t = i) (tabs s)")
  case (Some t)
  note tok = stateOkD [OF ok]
  from find_tab [OF Some] have t: "t \<in> set (tabs s)" "tabId t = i" by auto
  obtain k where k: "findIndex (\<lambda>t. tabId t = i) (tabs s) = Some k"
    using findIndex_ex [of t "tabs s" "\<lambda>t. tabId t = i"] t by auto
  have kt: "k < length (tabs s)" "tabs s ! k = t"
    using findIndex_Some [OF k] tabId_unique [OF tabsOkD(2) [OF tok] _ t(1)] t(2) by auto
  show ?thesis
  proof (cases "\<exists>a b vs. viewIds t = a # b # vs")
    case True
    then obtain a b vs where vs: "viewIds t = a # b # vs" by blast
    let ?one = "tabWithLayout (tabId t) None (pinned t) (View a)"
    define new where "new = map (\<lambda>(k, v). singleWorkspaceTab (uuid k) v) (enumerate 0 (b # vs))"
    define A B where "A = take k (tabs s)" and "B = drop (k + 1) (tabs s)"
    let ?ts = "A @ ?one # new @ B"
    have eq: "separateWorkspaceTab uuid s i = \<lparr>tabs = pinnedFirst ?ts, activeTabId = Some i\<rparr>"
      using Some k vs t by (simp add: separateWorkspaceTab_def Let_def splice_def new_def A_def B_def)
    have sp: "tabs s = A @ t # B"
      using kt unfolding A_def B_def by (metis Suc_eq_plus1 id_take_nth_drop)
    have new: "map tabId new = map uuid [0..<length (b # vs)]" "tabsViews new = b # vs"
        "\<forall>t\<in>set new. tabOk t"
      using singles_sel [of uuid 0 "b # vs"] by (simp_all only: new_def add_0)
    have fr: "distinct (map uuid [0..<length (b # vs)])" "\<forall>j<length (b # vs). uuid j \<notin> tabId ` set (tabs s)"
      using fresh [OF t] vs by (simp_all add: freshIds_def del: upt_Suc)
    have "mset (map tabId ?ts) = mset (map tabId (tabs s) @ map uuid [0..<length (b # vs)])"
      unfolding sp map_append list.map new(1) tabWithLayout_sel by simp
    moreover have "distinct (map tabId (tabs s) @ map uuid [0..<length (b # vs)])"
    proof -
      have "set (map uuid [0..<length (b # vs)]) \<inter> set (map tabId (tabs s)) = {}"
        using fr(2) by (fastforce simp del: upt_Suc)
      with fr(1) tabsOkD(2) [OF tok] show ?thesis unfolding distinct_append by blast
    qed
    ultimately have d1: "distinct (map tabId ?ts)" using distinct_mset_cong by blast
    have m: "mset (tabsViews ?ts) = mset (tabsViews (tabs s))"
      unfolding sp tabsViews_simps new(2) vs by simp
    then have d2: "distinct (tabsViews ?ts)" using distinct_mset_cong tabsOkD(3) [OF tok] by blast
    have "tabOk ?one" by (rule tabWithLayout_ok) (auto simp: MAX_PANES_def)
    then have "\<forall>u\<in>set ?ts. tabOk u"
      using tabsOkD(1) [OF tok] new(3) unfolding sp by auto
    then have "tabsOk (pinnedFirst ?ts)" by (rule tabsOk_pinnedFirst [OF _ d1 d2])
    moreover have "mset (tabsViews (pinnedFirst ?ts)) = mset (tabsViews (tabs s))"
      using tabsViews_perm [OF mset_pinnedFirst [of ?ts]] m by simp
    moreover have "?one \<in> set (pinnedFirst ?ts)"
      unfolding mset_eq_setD [OF mset_pinnedFirst [of ?ts]] by simp
    then have "i \<in> tabId ` set (pinnedFirst ?ts)"
      by (rule rev_image_eqI) (simp add: t(2))
    ultimately show ?thesis unfolding eq by (simp add: stateOk_def)
  next
    case False
    then have "separateWorkspaceTab uuid s i = s"
      using Some by (auto simp: separateWorkspaceTab_def split: list.splits)
    with ok show ?thesis by simp
  qed
qed (use ok in \<open>simp add: separateWorkspaceTab_def\<close>)

subsection \<open>Drag and drop\<close>

lemma exchange_invol [simp]: "exchange u v (exchange u v z) = z"
  by (simp add: exchange_def)

lemma inj_exchange: "inj_on (exchange u v) A"
  by (metis exchange_invol inj_onI)

lemma exchange_set: "u \<in> A \<Longrightarrow> v \<in> A \<Longrightarrow> exchange u v ` A = A"
  by (auto simp: exchange_def image_iff)

lemma map_exchange_other: "u \<notin> set xs \<Longrightarrow> v \<notin> set xs \<Longrightarrow> map (exchange u v) xs = xs"
  by (induction xs) (auto simp: exchange_def)

lemma tabsViews_map_views:
  "(\<And>t. t \<in> set ts \<Longrightarrow> viewIds (f t) = map g (viewIds t)) \<Longrightarrow> tabsViews (map f ts) = map g (tabsViews ts)"
  by (induction ts) auto

lemma dropSwap_ok:
  assumes ok: "stateOk s"
  shows "\<exists>s'. applyWorkspaceViewDrop uuid s (DropSwap u v) = Some s' \<and> stateOk s'
    \<and> mset (tabsViews (tabs s')) = mset (tabsViews (tabs s))"
proof (cases "find (\<lambda>t. u \<in> set (viewIds t)) (tabs s)"; cases "find (\<lambda>t. v \<in> set (viewIds t)) (tabs s)")
  fix source target
  assume fnd: "find (\<lambda>t. u \<in> set (viewIds t)) (tabs s) = Some source"
    "find (\<lambda>t. v \<in> set (viewIds t)) (tabs s) = Some target"
  note tok = stateOkD [OF ok]
  from find_view [OF fnd(1)] find_view [OF fnd(2)]
  have so: "source \<in> set (tabs s)" "u \<in> set (viewIds source)"
    and ta: "target \<in> set (tabs s)" "v \<in> set (viewIds target)" by auto
  let ?f = "\<lambda>t. if tabId t = tabId source \<or> tabId t = tabId target
                then (relayout t (mapViews (layout t) (exchange u v)))
                       \<lparr>activeViewId := (if tabId t = tabId target then u
                                        else exchange u v (activeViewId t))\<rparr>
                else t"
  have vw: "viewIds (?f t) = map (exchange u v) (viewIds t)" if t: "t \<in> set (tabs s)" for t
  proof (cases "tabId t = tabId source \<or> tabId t = tabId target")
    case True
    then show ?thesis using tabOkD(1) [OF tabsOkD(1) [OF tok t]] by auto
  next
    case False
    then have "u \<notin> set (viewIds t)" "v \<notin> set (viewIds t)"
      using view_unique [OF tabsOkD(3) [OF tok] t] so ta by blast+
    then show ?thesis using False by (simp add: map_exchange_other)
  qed
  have views: "tabsViews (map ?f (tabs s)) = map (exchange u v) (tabsViews (tabs s))"
    using tabsViews_map_views [of "tabs s" ?f] vw by blast
  have mem: "u \<in> set (tabsViews (tabs s))" "v \<in> set (tabsViews (tabs s))"
    using so ta by (auto simp: set_tabsViews)
  have dis: "distinct (tabsViews (map ?f (tabs s)))"
    unfolding views distinct_map using tabsOkD(3) [OF tok] inj_exchange by blast
  have m: "mset (tabsViews (map ?f (tabs s))) = mset (tabsViews (tabs s))"
    using exchange_set [OF mem] set_eq_iff_mset_eq_distinct [OF dis tabsOkD(3) [OF tok]]
    unfolding views by simp
  have ft: "tabOk (?f t) \<and> tabId (?f t) = tabId t \<and> pinned (?f t) = pinned t"
    if t: "t \<in> set (tabs s)" for t
  proof -
    note tk = tabsOkD(1) [OF tok t]
    let ?l = "mapViews (layout t) (exchange u v)"
    have r: "tabOk (relayout t ?l)"
      by (rule tabWithLayout_ok)
         (use tk inj_exchange in \<open>auto simp: distinct_map tabOkD\<close>)
    have "tabOk (relayout t ?l\<lparr>activeViewId := w\<rparr>)" if "w \<in> set (layoutViews ?l)" for w
      using r that by (auto simp: tabOk_def split: PaneLayout.splits)
    moreover have "u \<in> set (layoutViews ?l)" if "tabId t = tabId target"
    proof -
      have "t = target" using tabId_unique [OF tabsOkD(2) [OF tok] t ta(1) that] .
      then have "v \<in> set (layoutViews (layout t))" using ta tabOkD(1) [OF tk] by simp
      then have "exchange u v v \<in> set (layoutViews ?l)" by simp
      then show ?thesis by (simp add: exchange_def split: if_splits)
    qed
    moreover have "exchange u v (activeViewId t) \<in> set (layoutViews ?l)"
      using tabOkD(8) [OF tk] by simp
    ultimately show ?thesis using tk by auto
  qed
  have "stateOk \<lparr>tabs = map ?f (tabs s), activeTabId = Some (tabId target)\<rparr>"
    using tabsOk_map [OF tok dis ft] ta by (simp add: stateOk_def)
  with m ok fnd show ?thesis by simp
qed (use ok in simp_all)

lemma those_map_Some: "\<forall>z\<in>set xs. f z = Some (g z) \<Longrightarrow> those (map f xs) = Some (map g xs)"
  by (induction xs) auto

lemma find_source_split:
  assumes "tabOk t" "v \<in> set (viewIds t)" "\<not> length (viewIds t) < 2"
  obtains l where "removeFromLayout (layout t) v = Some l"
proof (cases "removeFromLayout (layout t) v")
  case None
  then have "filter (\<lambda>z. z \<noteq> v) (viewIds t) = []"
    using tabOkD(1) [OF assms(1)] by (auto simp: removeFromLayout_None filter_empty_conv)
  with mset_filter_out [OF tabOkD(2) [OF assms(1)] assms(2)] have "size (mset (viewIds t)) = 1"
    by (metis mset.simps(1) size_single)
  with assms(3) show ?thesis by simp
qed (rule that)

lemma dropDetach_ok:
  assumes ok: "stateOk s" and fresh: "uuid \<notin> tabId ` set (tabs s)"
  shows "\<exists>s'. applyWorkspaceViewDrop uuid s (DropDetach v ix) = Some s' \<and> stateOk s'
    \<and> mset (tabsViews (tabs s')) = mset (tabsViews (tabs s))"
proof (cases "find (\<lambda>t. v \<in> set (viewIds t)) (tabs s)")
  case (Some source)
  note tok = stateOkD [OF ok]
  from find_view [OF Some] have so: "source \<in> set (tabs s)" "v \<in> set (viewIds source)" by auto
  show ?thesis
  proof (cases "length (viewIds source) < 2 \<or> \<not> isFinite ix")
    case False
    from find_source_split [OF tabsOkD(1) [OF tok so(1)] so(2)] False
    obtain l where l: "removeFromLayout (layout source) v = Some l" by blast
    let ?f = "\<lambda>t. relayout t (the (removeFromLayout (layout t) v))"
    let ?ts = "map (\<lambda>t. if tabId t = tabId source then ?f t else t) (tabs s)"
    have "those (map (\<lambda>t. if tabId t = tabId source then map_option (relayout t) (removeFromLayout (layout t) v)
             else Some t) (tabs s)) = Some ?ts"
      using tabId_unique [OF tabsOkD(2) [OF tok] _ so(1)] l by (intro those_map_Some) fastforce
    note those = this
    have fl: "?f source = tabWithLayout (tabId source) (Some (activeViewId source)) (pinned source) l"
      using l by simp
    note rem = removal_ok [OF tok so(1) refl so(2) l, of ?f, OF fl]
    let ?n = "nat (max (int (length (filter pinned ?ts))) (min (int (length ?ts)) (mathTrunc (numValue ix))))"
    have "v \<notin> set (tabsViews ?ts)"
    proof
      assume "v \<in> set (tabsViews ?ts)"
      then have "\<not> distinct (v # tabsViews ?ts)" by simp
      moreover have "mset (v # tabsViews ?ts) = mset (tabsViews (tabs s))" using rem(2) by simp
      ultimately show False using distinct_mset_cong tabsOkD(3) [OF tok] by blast
    qed
    then have "tabsOk (splice ?n 0 [singleWorkspaceTab uuid v] ?ts)"
      by (intro tabsOk_insert [OF rem(1)]) (use fresh rem(3) in auto)
    moreover have "mset (tabsViews (splice ?n 0 [singleWorkspaceTab uuid v] ?ts)) = mset (tabsViews (tabs s))"
      using rem(2) by (simp add: mset_tabsViews mset_insert_at)
    ultimately show ?thesis using Some False those
      by (auto simp: Let_def stateOk_def set_insert_at)
  qed (use Some ok in simp)
qed (use ok in simp)

lemma concat_map_filter:
  "(\<And>z. z \<in> set xs \<Longrightarrow> h z = (if P z then [z] else [])) \<Longrightarrow> concat (map h xs) = filter P xs"
  by (induction xs) auto

lemma concat_map_map:
  "(\<And>z. z \<in> set xs \<Longrightarrow> h z = [g z]) \<Longrightarrow> concat (map h xs) = map g xs"
  by (induction xs) auto

text \<open>What a split drop leaves of the tabs once the dragged view is out of its source.\<close>

definition withoutView :: "string \<Rightarrow> string \<Rightarrow> WorkspaceTab list \<Rightarrow> WorkspaceTab list" where
  "withoutView i v ts = concat (map (\<lambda>t. if tabId t \<noteq> i then [t]
     else (case removeFromLayout (layout t) v of Some rest \<Rightarrow> [relayout t rest] | None \<Rightarrow> [])) ts)"

lemma withoutView_None:
  assumes "tabsOk ts" "t \<in> set ts" "tabId t = i" "removeFromLayout (layout t) v = None"
  shows "withoutView i v ts = filter (\<lambda>t. tabId t \<noteq> i) ts"
  unfolding withoutView_def
proof (rule concat_map_filter)
  fix z assume "z \<in> set ts"
  then show "(if tabId z \<noteq> i then [z] else (case removeFromLayout (layout z) v of
      Some rest \<Rightarrow> [relayout z rest] | None \<Rightarrow> [])) = (if tabId z \<noteq> i then [z] else [])"
    using tabId_unique [OF tabsOkD(2) [OF assms(1)], of z t] assms by (cases "z = t") auto
qed

lemma withoutView_Some:
  assumes "tabsOk ts" "t \<in> set ts" "tabId t = i" "removeFromLayout (layout t) v = Some l"
  shows "withoutView i v ts = map (\<lambda>u. if tabId u = i then relayout u (the (removeFromLayout (layout u) v)) else u) ts"
  unfolding withoutView_def
proof (rule concat_map_map)
  fix z assume "z \<in> set ts"
  then show "(if tabId z \<noteq> i then [z] else (case removeFromLayout (layout z) v of
      Some rest \<Rightarrow> [relayout z rest] | None \<Rightarrow> []))
    = [if tabId z = i then relayout z (the (removeFromLayout (layout z) v)) else z]"
    using tabId_unique [OF tabsOkD(2) [OF assms(1)], of z t] assms by (cases "z = t") auto
qed

lemma withoutView_ok:
  assumes ok: "tabsOk ts" and so: "source \<in> set ts" "v \<in> set (viewIds source)"
  shows "tabsOk (withoutView (tabId source) v ts)"
    and "add_mset v (mset (tabsViews (withoutView (tabId source) v ts))) = mset (tabsViews ts)"
proof -
  have "tabsOk (withoutView (tabId source) v ts)
    \<and> add_mset v (mset (tabsViews (withoutView (tabId source) v ts))) = mset (tabsViews ts)"
  proof (cases "removeFromLayout (layout source) v")
    case None
    then show ?thesis
      using removal_all [OF ok so(1) refl so(2) None] withoutView_None [OF ok so(1) refl None] by simp
  next
    case (Some l)
    then show ?thesis
      using removal_ok [OF ok so(1) refl so(2) Some,
          of "\<lambda>u. relayout u (the (removeFromLayout (layout u) v))" "Some (activeViewId source)"]
        withoutView_Some [OF ok so(1) refl Some] by simp
  qed
  then show "tabsOk (withoutView (tabId source) v ts)"
    and "add_mset v (mset (tabsViews (withoutView (tabId source) v ts))) = mset (tabsViews ts)" by auto
qed

text \<open>The target of the drop is still there, still shows \<open>w\<close>, and has room for one more pane.\<close>

lemma withoutView_target:
  assumes ok: "tabsOk ts" and so: "source \<in> set ts" "v \<in> set (viewIds source)"
    and ta: "target \<in> set ts" and w: "w \<in> set (viewIds target)" "w \<noteq> v"
    and room: "tabId target \<noteq> tabId source \<Longrightarrow> length (viewIds target) < MAX_PANES"
  shows "\<exists>t\<in>set (withoutView (tabId source) v ts).
    tabId t = tabId target \<and> w \<in> set (viewIds t) \<and> length (viewIds t) + 1 \<le> MAX_PANES"
proof (cases "tabId target = tabId source")
  case False
  then have "target \<in> set (withoutView (tabId source) v ts)"
    using ta unfolding withoutView_def by force
  with w room False show ?thesis by (intro bexI [of _ target]) auto
next
  case True
  then have eq: "target = source" by (rule tabId_unique [OF tabsOkD(2) [OF ok] ta so(1)])
  note sok = tabsOkD(1) [OF ok so(1)]
  obtain l where l: "removeFromLayout (layout source) v = Some l"
    using w eq tabOkD(1) [OF sok] by (cases "removeFromLayout (layout source) v") (auto simp: removeFromLayout_None)
  have vl: "viewIds (relayout source l) = filter (\<lambda>z. z \<noteq> v) (viewIds source)"
    using l by (simp add: removeFromLayout_Some tabOkD(1) [OF sok])
  have "length (viewIds (relayout source l)) + 1 = length (viewIds source)"
    using length_filter_out [OF tabOkD(2) [OF sok] so(2)] vl by simp
  moreover have "w \<in> set (viewIds (relayout source l))" using w eq vl by simp
  moreover have "relayout source l \<in> set (withoutView (tabId source) v ts)"
    unfolding withoutView_Some [OF ok so(1) refl l] using so(1) l by force
  ultimately show ?thesis using tabOkD(5) [OF sok] True
    by (intro bexI [of _ "relayout source l"]) auto
qed

text \<open>Putting the view beside \<open>w\<close> completes the drop.\<close>

lemma withoutView_insert:
  fixes e :: SplitEdge
  assumes ok: "tabsOk ts" and so: "source \<in> set ts" "v \<in> set (viewIds source)"
    and t: "t \<in> set (withoutView (tabId source) v ts)" "tabId t = j" "w \<in> set (viewIds t)"
      "length (viewIds t) + 1 \<le> MAX_PANES"
  defines "us \<equiv> map (\<lambda>u. if tabId u = j then tabWithLayout (tabId u) (Some v) (pinned u)
      (insertIntoLayout (layout u) w (View v) e) else u) (withoutView (tabId source) v ts)"
  shows "tabsOk us \<and> mset (tabsViews us) = mset (tabsViews ts) \<and> j \<in> tabId ` set us"
proof -
  let ?ts = "withoutView (tabId source) v ts"
  let ?g = "\<lambda>u. tabWithLayout (tabId u) (Some v) (pinned u) (insertIntoLayout (layout u) w (View v) e)"
  note wo = withoutView_ok [OF ok so]
  have "mset (v # tabsViews ?ts) = mset (tabsViews ts)" using wo(2) by simp
  then have "distinct (v # tabsViews ?ts)" using distinct_mset_cong tabsOkD(3) [OF ok] by blast
  then have vn: "set (layoutViews (View v)) \<inter> set (tabsViews ?ts) = {}" by simp
  have gt: "?g t = tabWithLayout j (Some v) (pinned t) (insertIntoLayout (layout t) w (View v) e)"
    using t(2) by simp
  have ratios: "ratiosOk (View v)" "distinct (layoutViews (View v))"
    "length (viewIds t) + length (layoutViews (View v)) \<le> MAX_PANES" using t(4) by simp_all
  note ins = insertion_ok [OF wo(1) t(1,2,3) ratios(1,2) vn ratios(3), of ?g, OF gt]
  have "mset (tabsViews us) = mset (tabsViews ts)" unfolding us_def ins(2) using wo(2) by simp
  then show ?thesis using ins(1,3) t(1,2) unfolding us_def by (metis image_eqI)
qed

lemma dropSplit_ok:
  assumes ok: "stateOk s"
  shows "\<exists>s'. applyWorkspaceViewDrop uuid s (DropSplit v j tv eo) = Some s' \<and> stateOk s'
    \<and> mset (tabsViews (tabs s')) = mset (tabsViews (tabs s))"
proof (cases "find (\<lambda>t. v \<in> set (viewIds t)) (tabs s)"; cases "find (\<lambda>t. tabId t = j) (tabs s)")
  fix source target
  assume fnd: "find (\<lambda>t. v \<in> set (viewIds t)) (tabs s) = Some source"
    "find (\<lambda>t. tabId t = j) (tabs s) = Some target"
  note tok = stateOkD [OF ok]
  from find_view [OF fnd(1)] have so: "source \<in> set (tabs s)" "v \<in> set (viewIds source)" by auto
  from find_tab [OF fnd(2)] have ta: "target \<in> set (tabs s)" "tabId target = j" by auto
  define w where "w = (case tv of Some w \<Rightarrow> w | None \<Rightarrow> activeViewId target)"
  define e where "e = (case eo of Some e \<Rightarrow> e | None \<Rightarrow> EdgeRight)"
  show ?thesis
  proof (cases "w \<notin> set (viewIds target) \<or> w = v
      \<or> (tabId target \<noteq> tabId source \<and> length (viewIds target) \<ge> MAX_PANES)")
    case True
    then show ?thesis using fnd ok by (auto simp: Let_def simp flip: w_def)
  next
    case False
    then have w: "w \<in> set (viewIds target)" "w \<noteq> v"
      and room: "tabId target \<noteq> tabId source \<Longrightarrow> length (viewIds target) < MAX_PANES" by auto
    from withoutView_target [OF tok so ta(1) w room] ta(2)
    obtain t where t: "t \<in> set (withoutView (tabId source) v (tabs s))" "tabId t = j"
      "w \<in> set (viewIds t)" "length (viewIds t) + 1 \<le> MAX_PANES" by auto
    have "applyWorkspaceViewDrop uuid s (DropSplit v j tv eo) = Some
        \<lparr>tabs = map (\<lambda>u. if tabId u = j then tabWithLayout (tabId u) (Some v) (pinned u)
           (insertIntoLayout (layout u) w (View v) e) else u) (withoutView (tabId source) v (tabs s)),
         activeTabId = Some j\<rparr>"
      using fnd False ta(2) by (auto simp: Let_def simp flip: w_def e_def withoutView_def)
    with withoutView_insert [OF tok so t, of e] show ?thesis by (auto simp: stateOk_def)
  qed
qed (use ok in simp_all)

lemma drop_ok:
  assumes "stateOk s" "uuid \<notin> tabId ` set (tabs s)"
  shows "\<exists>s'. applyWorkspaceViewDrop uuid s d = Some s' \<and> stateOk s'
    \<and> mset (tabsViews (tabs s')) = mset (tabsViews (tabs s))"
proof (cases d)
  case (DropSplit v j tv eo)
  then show ?thesis using dropSplit_ok [OF assms(1)] by blast
next
  case (DropSwap u v)
  then show ?thesis using dropSwap_ok [OF assms(1)] by blast
next
  case (DropDetach v ix)
  then show ?thesis using dropDetach_ok [OF assms] by blast
qed

lemma activate_views: "mset (tabsViews (tabs (activateWorkspaceTab s i v))) = mset (tabsViews (tabs s))"
  by (auto simp: activateWorkspaceTab_def Let_def split: option.split intro!: tabsViews_map_same)

lemma move_ok:
  assumes ok: "stateOk s"
  shows "\<exists>s'. moveWorkspacePane s v d = Some s' \<and> stateOk s'
    \<and> mset (tabsViews (tabs s')) = mset (tabsViews (tabs s))"
proof -
  have "\<exists>s'. map_option (\<lambda>moved. activateWorkspaceTab moved i (Some v))
          (applyWorkspaceViewDrop [] s (DropSwap v w)) = Some s' \<and> stateOk s'
    \<and> mset (tabsViews (tabs s')) = mset (tabsViews (tabs s))" for i w
    using dropSwap_ok [OF ok, of "[]" v w] activate_ok activate_views by fastforce
  then show ?thesis using ok by (auto simp: moveWorkspacePane_def simp del: applyWorkspaceViewDrop.simps split: option.split)
qed

section \<open>The machine of all operations\<close>

datatype TabCommand =
  Activate string "string option"
| SplitWith string string SplitEdge
| Separate "nat \<Rightarrow> string" string
| SwapSplit string
| SetRatio string js_number string
| ResetSplits string
| ReplaceView string string
| CloseView string
| Reorder string js_number
| Pin string bool
| Drop string WorkspaceViewDrop
| Move string SplitEdge

fun tabStep :: "WorkspaceTabsState \<Rightarrow> TabCommand \<Rightarrow> WorkspaceTabsState" where
  "tabStep s (Activate i v) = activateWorkspaceTab s i v"
| "tabStep s (SplitWith i j e) = splitWithTab s i j e"
| "tabStep s (Separate uuid i) = separateWorkspaceTab uuid s i"
| "tabStep s (SwapSplit i) = swapWorkspaceSplit s i"
| "tabStep s (SetRatio i r p) = setWorkspaceSplitRatio s i r p"
| "tabStep s (ResetSplits i) = resetWorkspaceSplits s i"
| "tabStep s (ReplaceView u v) = replaceWorkspaceView s u v"
| "tabStep s (CloseView v) = closeWorkspaceView s v"
| "tabStep s (Reorder i k) = reorderWorkspaceTab s i k"
| "tabStep s (Pin i p) = pinWorkspaceTab s i p"
| "tabStep s (Drop uuid d) = (case applyWorkspaceViewDrop uuid s d of Some s' \<Rightarrow> s' | None \<Rightarrow> s)"
| "tabStep s (Move v e) = (case moveWorkspacePane s v e of Some s' \<Rightarrow> s' | None \<Rightarrow> s)"

text \<open>A command is enabled when the identifiers it draws are fresh.\<close>

fun tabEnabled :: "WorkspaceTabsState \<Rightarrow> TabCommand \<Rightarrow> bool" where
  "tabEnabled s (Separate uuid i) =
     (\<forall>t\<in>set (tabs s). tabId t = i \<longrightarrow> freshIds uuid (length (viewIds t) - 1) s)"
| "tabEnabled s (Drop uuid d) = (uuid \<notin> tabId ` set (tabs s))"
| "tabEnabled s _ = True"

lemma tabStep_ok: "stateOk s \<Longrightarrow> tabEnabled s c \<Longrightarrow> stateOk (tabStep s c)"
proof (cases c)
  case (Separate uuid i)
  assume "stateOk s" "tabEnabled s c"
  with Separate show ?thesis using separate_ok [of s i uuid] by auto
next
  case (Drop uuid d)
  assume "stateOk s" "tabEnabled s c"
  with Drop show ?thesis using drop_ok [of s uuid d] by auto
next
  case (Move v e)
  assume "stateOk s" "tabEnabled s c"
  with Move show ?thesis using move_ok [of s v e] by auto
qed (simp_all add: activate_ok split_ok swap_ok ratio_ok reset_ok replace_ok close_ok reorder_ok pin_ok)

interpretation tab_machine: invariant_machine tabStep tabEnabled stateOk
  by unfold_locales (rule tabStep_ok)

end
