(* ===== verification/TabLayout.thy ===== *)
theory TabLayout
  imports TabInvariant
begin

text \<open>
  What the pane tree and its geometry promise: paths lead to the split that holds a view,
  taking a pane out undoes putting it in, the panes drawn are the layout's views in
  reading order, they stay inside the window and do not overlap, and the neighbour a key
  press moves to is a nearest pane in that direction.
\<close>

section \<open>Insert and remove\<close>

lemma removeFromLayout_other: "v \<notin> set (layoutViews l) \<Longrightarrow> removeFromLayout l v = Some l"
  by (induction l) auto

lemma insertIntoLayout_other: "w \<notin> set (layoutViews l) \<Longrightarrow> insertIntoLayout l w ins e = l"
  by (induction l) auto

lemma remove_insert:
  "v \<notin> set (layoutViews l) \<Longrightarrow> w \<in> set (layoutViews l) \<Longrightarrow> distinct (layoutViews l) \<Longrightarrow>
   removeFromLayout (insertIntoLayout l w (View v) e) v = Some l"
proof (induction l)
  case (View u)
  then show ?case by (auto simp: Let_def)
next
  case (Split d r a b)
  then consider "w \<in> set (layoutViews a)" "w \<notin> set (layoutViews b)"
    | "w \<in> set (layoutViews b)" "w \<notin> set (layoutViews a)" by auto
  then show ?case
    by cases (use Split in \<open>simp_all add: removeFromLayout_other insertIntoLayout_other\<close>)
qed

section \<open>Paths\<close>

lemma layoutAt_append: "layoutAt l (p @ q) = (case layoutAt l p of None \<Rightarrow> None | Some n \<Rightarrow> layoutAt n q)"
  by (induction l p rule: layoutAt.induct) auto

lemma parentPath_prefix:
  "parentPath l v path = Some p \<Longrightarrow>
   \<exists>q. p = path @ q \<and> (\<exists>d r a b. layoutAt l q = Some (Split d r a b) \<and> (a = View v \<or> b = View v))"
proof (induction l arbitrary: path p)
  case (Split d r a b)
  show ?case
  proof (cases "a = View v")
    case True
    with Split.prems show ?thesis by (intro exI [of _ "[]"]) simp
  next
    case a: False
    show ?thesis
    proof (cases "parentPath a v (path @ ''a'')")
      case (Some p')
      with a Split.prems have "p' = p" by simp
      with Split.IH(1) [OF Some] obtain q where
        "p = path @ ''a'' @ q" "\<exists>d r a' b. layoutAt a q = Some (Split d r a' b) \<and> (a' = View v \<or> b = View v)"
        by auto
      then show ?thesis by (intro exI [of _ "''a'' @ q"]) simp
    next
      case None
      show ?thesis
      proof (cases "b = View v")
        case True
        with a None Split.prems show ?thesis by (intro exI [of _ "[]"]) simp
      next
        case False
        with a None Split.prems have "parentPath b v (path @ ''b'') = Some p" by simp
        from Split.IH(2) [OF this] obtain q where
          "p = path @ ''b'' @ q" "\<exists>d r a b'. layoutAt b q = Some (Split d r a b') \<and> (a = View v \<or> b' = View v)"
          by auto
        then show ?thesis by (intro exI [of _ "''b'' @ q"]) simp
      qed
    qed
  qed
qed simp

lemma parentPath_finds:
  "v \<in> set (layoutViews l) \<Longrightarrow> l \<noteq> View v \<Longrightarrow> \<exists>p. parentPath l v path = Some p"
proof (induction l arbitrary: path)
  case (Split d r a b)
  show ?case
  proof (cases "a = View v \<or> b = View v")
    case True
    then show ?thesis by (cases "parentPath a v (path @ ''a'')") auto
  next
    case False
    from Split.prems consider "v \<in> set (layoutViews a)" | "v \<in> set (layoutViews b)" by auto
    then show ?thesis
    proof cases
      case 1
      then obtain p where "parentPath a v (path @ ''a'') = Some p" using Split.IH(1) False by blast
      with False show ?thesis by simp
    next
      case 2
      then obtain p where "parentPath b v (path @ ''b'') = Some p" using Split.IH(2) False by blast
      with False show ?thesis by (cases "parentPath a v (path @ ''a'')") auto
    qed
  qed
qed auto

text \<open>The focus after closing the focused pane of a split is a pane of the split's other side.\<close>

lemma layoutAt_views: "layoutAt l p = Some n \<Longrightarrow> set (layoutViews n) \<subseteq> set (layoutViews l)"
  by (induction l p rule: layoutAt.induct) (auto split: if_splits)

lemma layoutAt_distinct: "layoutAt l p = Some n \<Longrightarrow> distinct (layoutViews l) \<Longrightarrow> distinct (layoutViews n)"
  by (induction l p rule: layoutAt.induct) (auto split: if_splits)

lemma closeSurvivor_sibling:
  assumes "distinct (layoutViews l)" "v \<in> set (layoutViews l)" "l \<noteq> View v"
  shows "\<exists>p d r a b other. layoutAt l p = Some (Split d r a b)
    \<and> (a = View v \<and> other = b \<or> b = View v \<and> other = a)
    \<and> closeSurvivor l v = Some (hd (layoutViews other)) \<and> v \<notin> set (layoutViews other)"
proof -
  obtain p where p: "parentPath l v [] = Some p" using parentPath_finds [OF assms(2,3)] by blast
  from parentPath_prefix [OF this] obtain d r a b where
    n: "layoutAt l p = Some (Split d r a b)" "a = View v \<or> b = View v" by auto
  from layoutAt_distinct [OF n(1) assms(1)] have dis: "set (layoutViews a) \<inter> set (layoutViews b) = {}" by simp
  have ls: "\<exists>d' r' a' b'. l = Split d' r' a' b'" using assms(2,3) by (cases l) auto
  have "closeSurvivor l v = Some (hd (layoutViews (if a = View v then b else a)))"
    using ls p n(1) by (auto simp: closeSurvivor_def)
  moreover have "v \<notin> set (layoutViews (if a = View v then b else a))" using n(2) dis by auto
  ultimately show ?thesis
    using n by (intro exI [of _ p] exI [of _ d] exI [of _ r] exI [of _ a] exI [of _ b]
        exI [of _ "if a = View v then b else a"]) auto
qed

section \<open>Geometry\<close>

lemma visitPanes_views: "map paneView (fst (visitPanes gap l r path)) = layoutViews l"
  by (induction gap l r path rule: visitPanes.induct) (auto simp: Let_def split: prod.splits)

lemma layoutPanes_views: "map paneView (fst (layoutPanes l r gap)) = layoutViews l"
  by (simp add: layoutPanes_def visitPanes_views)

fun splitCount :: "PaneLayout \<Rightarrow> nat" where
  "splitCount (View v) = 0"
| "splitCount (Split d r a b) = Suc (splitCount a + splitCount b)"

lemma visitPanes_dividers: "length (snd (visitPanes gap l r path)) = splitCount l"
  by (induction gap l r path rule: visitPanes.induct) (auto simp: Let_def split: prod.splits)

definition visible :: "'r PaneRect_scheme \<Rightarrow> bool" where
  "visible p = (0 < rectW p \<and> 0 < rectH p)"

definition withinRect :: "'r PaneRect_scheme \<Rightarrow> 'q PaneRect_scheme \<Rightarrow> bool" where
  "withinRect p r \<longleftrightarrow> rectX r \<le> rectX p \<and> rectX p + rectW p \<le> rectX r + rectW r
     \<and> rectY r \<le> rectY p \<and> rectY p + rectH p \<le> rectY r + rectH r"

definition apart :: "'r PaneRect_scheme \<Rightarrow> 'q PaneRect_scheme \<Rightarrow> bool" where
  "apart p q \<longleftrightarrow> rectX p + rectW p \<le> rectX q \<or> rectX q + rectW q \<le> rectX p
     \<or> rectY p + rectH p \<le> rectY q \<or> rectY q + rectH q \<le> rectY p"

lemma mathRound_bounds:
  assumes "0 \<le> sz" "ratioOk ratio"
  shows "0 \<le> mathRound (sz * ratio)" "of_int (mathRound (sz * ratio)) \<le> sz + 1 / 2"
proof -
  have r: "0 \<le> ratio" "ratio \<le> 1" using assms(2) by (simp_all add: ratioOk_def MIN_RATIO_def MAX_RATIO_def)
  then have "sz * ratio \<le> sz" using assms(1) by (simp add: mult_left_le)
  then show "of_int (mathRound (sz * ratio)) \<le> sz + 1 / 2"
    unfolding mathRound_def by linarith
  show "0 \<le> mathRound (sz * ratio)" using assms(1) r by (intro mathRound_nonneg) simp
qed

text \<open>The two halves of a rectangle that a divider of width \<open>2 * gap\<close> leaves.\<close>

definition extent :: "SplitDir \<Rightarrow> PaneRect \<Rightarrow> real" where
  "extent d r = (if d = Row then rectW r else rectH r)"

definition halfA :: "real \<Rightarrow> SplitDir \<Rightarrow> real \<Rightarrow> PaneRect \<Rightarrow> PaneRect" where
  "halfA gap d ratio r =
     (let first = max 0 (of_int (mathRound (extent d r * ratio)) - gap)
      in if d = Row then r\<lparr>rectW := first\<rparr> else r\<lparr>rectH := first\<rparr>)"

definition halfB :: "real \<Rightarrow> SplitDir \<Rightarrow> real \<Rightarrow> PaneRect \<Rightarrow> PaneRect" where
  "halfB gap d ratio r =
     (let pos = of_int (mathRound (extent d r * ratio)); second = max 0 (extent d r - pos - gap)
      in if d = Row then r\<lparr>rectX := rectX r + pos + gap, rectW := second\<rparr>
         else r\<lparr>rectY := rectY r + pos + gap, rectH := second\<rparr>)"

lemma visitPanes_Split:
  "fst (visitPanes gap (Split d ratio a b) r path) =
   fst (visitPanes gap a (halfA gap d ratio r) (path @ ''a''))
   @ fst (visitPanes gap b (halfB gap d ratio r) (path @ ''b''))"
  by (cases d) (simp_all add: Let_def halfA_def halfB_def extent_def split: prod.split)

lemma halves_nonneg:
  "0 \<le> rectW r \<Longrightarrow> 0 \<le> rectH r \<Longrightarrow> 0 \<le> rectW (halfA gap d ratio r) \<and> 0 \<le> rectH (halfA gap d ratio r)"
  "0 \<le> rectW r \<Longrightarrow> 0 \<le> rectH r \<Longrightarrow> 0 \<le> rectW (halfB gap d ratio r) \<and> 0 \<le> rectH (halfB gap d ratio r)"
  by (simp_all add: halfA_def halfB_def Let_def)

lemma within_halfA:
  assumes "1 \<le> gap" "ratioOk ratio" "0 \<le> rectW r" "0 \<le> rectH r"
    and "visible p" "withinRect p (halfA gap d ratio r)"
  shows "withinRect p r"
proof -
  have "0 \<le> extent d r" using assms(3,4) by (simp add: extent_def)
  note b = mathRound_bounds [OF this assms(2)]
  show ?thesis using b(2) assms
    by (cases d) (auto simp: withinRect_def visible_def halfA_def extent_def Let_def)
qed

lemma within_halfB:
  assumes "1 \<le> gap" "ratioOk ratio" "0 \<le> rectW r" "0 \<le> rectH r"
    and "visible p" "withinRect p (halfB gap d ratio r)"
  shows "withinRect p r"
proof -
  have "0 \<le> extent d r" using assms(3,4) by (simp add: extent_def)
  then have "0 \<le> (of_int (mathRound (extent d r * ratio)) :: real)"
    using mathRound_bounds(1) [OF _ assms(2)] by simp
  then show ?thesis using assms
    by (cases d) (auto simp: withinRect_def visible_def halfB_def extent_def Let_def max_def split: if_splits)
qed

lemma halves_apart:
  assumes "1 \<le> gap" "visible p" "visible q"
    and "withinRect p (halfA gap d ratio r)" "withinRect q (halfB gap d ratio r)"
  shows "apart p q"
  using assms
  by (cases d) (auto simp: withinRect_def visible_def halfA_def halfB_def apart_def Let_def max_def split: if_splits)

lemma visitPanes_geometry:
  "1 \<le> gap \<Longrightarrow> ratiosOk l \<Longrightarrow> 0 \<le> rectW r \<Longrightarrow> 0 \<le> rectH r \<Longrightarrow>
   (\<forall>p\<in>set (fst (visitPanes gap l r path)). visible p \<longrightarrow> withinRect p r)
   \<and> sorted_wrt (\<lambda>p q. visible p \<longrightarrow> visible q \<longrightarrow> apart p q) (fst (visitPanes gap l r path))"
proof (induction l arbitrary: r path)
  case (View v)
  then show ?case by (simp add: withinRect_def)
next
  case (Split d ratio a b)
  have ra: "ratioOk ratio" "ratiosOk a" "ratiosOk b" using Split.prems(2) by auto
  have nn: "0 \<le> rectW (halfA gap d ratio r)" "0 \<le> rectH (halfA gap d ratio r)"
    "0 \<le> rectW (halfB gap d ratio r)" "0 \<le> rectH (halfB gap d ratio r)"
    using halves_nonneg Split.prems(3,4) by auto
  let ?as = "fst (visitPanes gap a (halfA gap d ratio r) (path @ ''a''))"
  let ?bs = "fst (visitPanes gap b (halfB gap d ratio r) (path @ ''b''))"
  note A = Split.IH(1) [OF Split.prems(1) ra(2) nn(1,2), of "path @ ''a''"]
  note B = Split.IH(2) [OF Split.prems(1) ra(3) nn(3,4), of "path @ ''b''"]
  have "\<forall>p\<in>set (?as @ ?bs). visible p \<longrightarrow> withinRect p r"
  proof (intro ballI impI)
    fix p
    assume "p \<in> set (?as @ ?bs)" and vis: "visible p"
    then have "withinRect p (halfA gap d ratio r) \<or> withinRect p (halfB gap d ratio r)"
      using A [THEN conjunct1] B [THEN conjunct1] by auto
    then show "withinRect p r"
      using within_halfA [OF Split.prems(1) ra(1) Split.prems(3,4) vis]
        within_halfB [OF Split.prems(1) ra(1) Split.prems(3,4) vis] by blast
  qed
  moreover have "\<forall>p\<in>set ?as. \<forall>q\<in>set ?bs. visible p \<longrightarrow> visible q \<longrightarrow> apart p q"
    using A [THEN conjunct1] B [THEN conjunct1] halves_apart [OF Split.prems(1)] by metis
  ultimately show ?case
    using A [THEN conjunct2] B [THEN conjunct2]
    by (simp only: visitPanes_Split sorted_wrt_append)
qed

section \<open>Moving to a neighbour\<close>

lemma paneOrder_le:
  "paneOrder d from p q \<le> 0 \<longleftrightarrow>
     paneDistance d from p < paneDistance d from q
     \<or> paneDistance d from p = paneDistance d from q \<and> paneOverlap d from q \<le> paneOverlap d from p"
  by (auto simp: paneOrder_def Let_def)

interpretation pane_order: comparator "paneOrder d from" for d "from"
  by unfold_locales (auto simp: paneOrder_le)

lemma neighbourPane_nearest:
  assumes "neighbourPane l v d = Some w"
  shows "\<exists>from p. let panes = fst (layoutPanes l \<lparr>rectX = 0, rectY = 0, rectW = 1000, rectH = 1000\<rparr> 3) in
    from \<in> set panes \<and> paneView from = v \<and> p \<in> set panes \<and> paneView p = w \<and> w \<noteq> v
    \<and> 0 \<le> paneDistance d from p \<and> 0 < paneOverlap d from p
    \<and> (\<forall>q\<in>set panes. paneView q \<noteq> v \<longrightarrow> 0 \<le> paneDistance d from q \<longrightarrow> 0 < paneOverlap d from q
         \<longrightarrow> paneDistance d from p \<le> paneDistance d from q)"
proof -
  let ?panes = "fst (layoutPanes l \<lparr>rectX = 0, rectY = 0, rectW = 1000, rectH = 1000\<rparr> 3)"
  from assms obtain "from" where fr: "find (\<lambda>p. paneView p = v) ?panes = Some from"
    by (auto simp: neighbourPane_def Let_def split: option.splits)
  let ?cand = "filter (\<lambda>p. paneView p \<noteq> v \<and> 0 \<le> paneDistance d from p \<and> 0 < paneOverlap d from p) ?panes"
  from assms fr obtain p ps where srt: "sortBy (paneOrder d from) ?cand = p # ps" "paneView p = w"
    by (auto simp: neighbourPane_def Let_def split: list.splits)
  have "p \<in> set ?cand" using set_sortBy [of "paneOrder d from" ?cand] unfolding srt(1) by force
  then have p: "p \<in> set ?panes" "paneView p \<noteq> v" "0 \<le> paneDistance d from p" "0 < paneOverlap d from p"
    by simp_all
  have near: "paneDistance d from p \<le> paneDistance d from q" if "q \<in> set ?cand" for q
    using pane_order.sortBy_hd_least [OF srt(1) that] unfolding paneOrder_le by linarith
  have "\<forall>q\<in>set ?panes. paneView q \<noteq> v \<longrightarrow> 0 \<le> paneDistance d from q \<longrightarrow> 0 < paneOverlap d from q
         \<longrightarrow> paneDistance d from p \<le> paneDistance d from q"
    using near by simp
  moreover have "from \<in> set ?panes" "paneView from = v" using find_Some_in [OF fr] by simp_all
  ultimately show ?thesis
    unfolding Let_def using p srt(2) by blast
qed

end
