(* ===== verification/TabProperties.thy ===== *)
theory TabProperties
  imports TabLayout
begin

text \<open>The properties of the window's tabs.\<close>

section \<open>Facts the properties combine\<close>

lemma filter_not_tab_map:
  "(\<And>t. t \<in> set ts \<Longrightarrow> tabId t \<noteq> i \<Longrightarrow> f t = t) \<Longrightarrow> (\<And>t. t \<in> set ts \<Longrightarrow> tabId (f t) = tabId t) \<Longrightarrow>
   filter (\<lambda>t. tabId t \<noteq> i) (map f ts) = filter (\<lambda>t. tabId t \<noteq> i) ts"
  by (induction ts) auto

lemma filter_insert_at: "\<not> P x \<Longrightarrow> filter P (splice k 0 [x] xs) = filter P xs"
  by (simp add: splice_def) (metis append_take_drop_id filter_append)

lemma filter_remove_at:
  "k < length xs \<Longrightarrow> \<not> P (xs ! k) \<Longrightarrow> filter P (splice k (Suc 0) [] xs) = filter P xs"
  using arg_cong [OF id_take_nth_drop [of k xs], of "filter P"] by (simp add: splice_def)

lemma find_owner:
  assumes "stateOk s" "t \<in> set (tabs s)" "v \<in> set (viewIds t)"
  shows "find (\<lambda>t. v \<in> set (viewIds t)) (tabs s) = Some t"
proof -
  obtain u where u: "find (\<lambda>t. v \<in> set (viewIds t)) (tabs s) = Some u"
    using assms(2,3) find_None [of "\<lambda>t. v \<in> set (viewIds t)" "tabs s"] by auto
  with find_view [OF u] assms view_unique tabsOkD(3) [OF stateOkD] show ?thesis by metis
qed

lemma close_focused:
  assumes ok: "stateOk s" and t: "t \<in> set (tabs s)" "v \<in> set (viewIds t)" "layout t \<noteq> View v"
  shows "closeWorkspaceView s v = s\<lparr>tabs := map (\<lambda>u. if tabId u = tabId t
      then tabWithLayout (tabId u) (if activeViewId u = v then closeSurvivor (layout t) v
             else Some (activeViewId u)) (pinned u) (the (removeFromLayout (layout t) v))
      else u) (tabs s)\<rparr>"
    and "layoutViews (the (removeFromLayout (layout t) v)) = filter (\<lambda>w. w \<noteq> v) (viewIds t)"
proof -
  note tok = tabsOkD(1) [OF stateOkD [OF ok] t(1)]
  have "removeFromLayout (layout t) v \<noteq> None"
  proof
    assume "removeFromLayout (layout t) v = None"
    then have sub: "set (layoutViews (layout t)) \<subseteq> {v}" by (simp add: removeFromLayout_None)
    moreover have "distinct (layoutViews (layout t))" using tabOkD(1,2) [OF tok] by simp
    ultimately have "length (layoutViews (layout t)) \<le> 1"
      using card_mono [OF _ sub] distinct_card [of "layoutViews (layout t)"] by simp
    with sub have "layoutViews (layout t) = [v]"
      by (cases "layoutViews (layout t)") auto
    then show False using t(3) by (cases "layout t") (auto simp: append_eq_Cons_conv)
  qed
  then obtain l where l: "removeFromLayout (layout t) v = Some l" by blast
  then show "layoutViews (the (removeFromLayout (layout t) v)) = filter (\<lambda>w. w \<noteq> v) (viewIds t)"
    using tabOkD(1) [OF tok] by (simp add: removeFromLayout_Some)
  show "closeWorkspaceView s v = s\<lparr>tabs := map (\<lambda>u. if tabId u = tabId t
      then tabWithLayout (tabId u) (if activeViewId u = v then closeSurvivor (layout t) v
             else Some (activeViewId u)) (pinned u) (the (removeFromLayout (layout t) v))
      else u) (tabs s)\<rparr>"
    using find_owner [OF ok t(1,2)] l by (simp add: closeWorkspaceView_def)
qed

lemma reorder_others:
  "filter (\<lambda>t. tabId t \<noteq> i) (tabs (reorderWorkspaceTab s i k)) = filter (\<lambda>t. tabId t \<noteq> i) (tabs s)"
proof (cases "findIndex (\<lambda>t. tabId t = i) (tabs s)")
  case (Some j)
  from findIndex_Some [OF this] have "j < length (tabs s)" "tabId (tabs s ! j) = i" by auto
  with Some show ?thesis
    by (simp add: reorderWorkspaceTab_def Let_def filter_insert_at filter_remove_at)
qed (simp add: reorderWorkspaceTab_def)

lemma pin_others:
  "filter (\<lambda>t. tabId t \<noteq> i) (tabs (pinWorkspaceTab s i p)) = filter (\<lambda>t. tabId t \<noteq> i) (tabs s)"
proof (cases "find (\<lambda>t. tabId t = i) (tabs s)")
  case (Some t)
  from find_tab [OF this] have "tabId t = i" by simp
  with Some show ?thesis
    by (simp add: pinWorkspaceTab_def Let_def filter_insert_at)
qed (simp add: pinWorkspaceTab_def)

lemma pin_sets:
  assumes "stateOk s" "t \<in> set (tabs (pinWorkspaceTab s i p))" "tabId t = i"
  shows "pinned t = p"
proof (cases "find (\<lambda>t. tabId t = i) (tabs s)")
  case None
  with assms show ?thesis by (auto simp: pinWorkspaceTab_def find_None)
next
  case (Some u)
  show ?thesis
  proof (cases "pinned u = p")
    case True
    with Some assms find_tab [OF Some] show ?thesis
      using tabId_unique [OF tabsOkD(2) [OF stateOkD [OF assms(1)]], of t u]
      by (simp add: pinWorkspaceTab_def)
  next
    case False
    with Some assms(2,3) show ?thesis
      by (auto simp: pinWorkspaceTab_def Let_def set_insert_at)
  qed
qed

lemma tabsToClose_others:
  assumes "distinct (map tabId (tabs s))" "i \<in> tabId ` set (tabs s)"
  shows "tabsToClose s i Others = map tabId (filter (\<lambda>t. \<not> pinned t \<and> tabId t \<noteq> i) (tabs s))"
proof -
  obtain k where k: "findIndex (\<lambda>t. tabId t = i) (tabs s) = Some k"
    using assms(2) findIndex_ex [of _ "tabs s" "\<lambda>t. tabId t = i"] by auto
  from findIndex_Some [OF k] have kk: "k < length (tabs s)" "tabId (tabs s ! k) = i" by auto
  have same: "(j \<noteq> k) = (tabId t \<noteq> i)" if "(j, t) \<in> set (enumerate 0 (tabs s))" for j t
    using that kk assms(1) by (auto simp: in_set_enumerate_eq distinct_conv_nth)
  have fl: "filter (\<lambda>(j, t). \<not> pinned t \<and> j \<noteq> k) (enumerate 0 (tabs s))
      = filter ((\<lambda>t. \<not> pinned t \<and> tabId t \<noteq> i) \<circ> snd) (enumerate 0 (tabs s))"
    by (intro filter_cong refl) (use same in \<open>force split: prod.split\<close>)
  have "map snd (filter (\<lambda>(j, t). \<not> pinned t \<and> j \<noteq> k) (enumerate 0 (tabs s)))
      = filter (\<lambda>t. \<not> pinned t \<and> tabId t \<noteq> i) (map snd (enumerate 0 (tabs s)))"
    unfolding fl filter_map by (rule refl)
  then show ?thesis
    by (simp add: tabsToClose_def k flip: map_map)
qed

section \<open>Example states\<close>

text \<open>Two tabs: a pinned split of three panes, and a single view.\<close>

definition sampleLayout :: PaneLayout where
  "sampleLayout = Split Row (1 / 2) (View ''a'') (Split Column (1 / 4) (View ''b'') (View ''c''))"

definition sampleTabs :: WorkspaceTabsState where
  "sampleTabs =
     \<lparr>tabs = [tabWithLayout ''t1'' (Some ''b'') True sampleLayout, singleWorkspaceTab ''t2'' ''d''],
      activeTabId = Some ''t1''\<rparr>"

lemmas sample_simps = sampleTabs_def sampleLayout_def tabWithLayout_def singleWorkspaceTab_def

lemma sample_ok: "stateOk sampleTabs"
  by (simp add: sample_simps stateOk_def tabsOk_def tabOk_def tabsViews_def pinnedSorted_def
      ratioOk_def MAX_PANES_def MIN_RATIO_def MAX_RATIO_def)

section \<open>Properties\<close>

text \<open>C1: Any sequence of tab commands (activate, split with a tab, separate, swap sides, set
  and reset ratios, replace, close, reorder, pin, drop, move) from a well-formed state ends in
  a well-formed one: every tab lists exactly the distinct views of its pane tree and focuses
  one of them, holds at most eight panes with every ratio in [0.1, 0.9], no view is shown
  twice in the window, pinned tabs come first, and the active tab exists.\<close>

theorem tab_commands_keep_invariant:
  "stateOk s \<Longrightarrow> enabledRun tabStep tabEnabled s cs \<Longrightarrow> stateOk (fold (\<lambda>c s. tabStep s c) cs s)"
  by (rule tab_machine.run_inv)

theorem tab_commands_keep_invariant_witness:
  "stateOk (fold (\<lambda>c s. tabStep s c)
     [CloseView ''b'', Drop ''t3'' (DropDetach ''c'' (Finite 0)), Pin ''t2'' True, SplitWith ''t2'' ''t3'' EdgeTop]
     sampleTabs)"
proof (rule tab_commands_keep_invariant [OF sample_ok])
  show "enabledRun tabStep tabEnabled sampleTabs
     [CloseView ''b'', Drop ''t3'' (DropDetach ''c'' (Finite 0)), Pin ''t2'' True, SplitWith ''t2'' ''t3'' EdgeTop]"
    by (simp add: sample_simps closeWorkspaceView_def Let_def)
qed

text \<open>C2: Dropping a dragged view never raises and never closes or duplicates a view: every
  kind of drop (beside a pane, onto a pane, out into its own tab) leaves the window with the
  same views, in a well-formed state.\<close>

theorem drop_conserves_views:
  assumes "stateOk s" "uuid \<notin> tabId ` set (tabs s)"
  shows "\<exists>s'. applyWorkspaceViewDrop uuid s d = Some s' \<and> stateOk s'
    \<and> mset (tabsViews (tabs s')) = mset (tabsViews (tabs s))"
  by (rule drop_ok [OF assms])

theorem drop_conserves_views_witness:
  "\<exists>s'. applyWorkspaceViewDrop ''t3'' sampleTabs (DropSplit ''d'' ''t1'' (Some ''c'') None) = Some s' \<and> stateOk s'
    \<and> mset (tabsViews (tabs s')) = mset (tabsViews (tabs sampleTabs))"
  by (rule drop_conserves_views [OF sample_ok]) (simp add: sample_simps)

text \<open>Splitting with another tab, separating a split, exchanging the sides of a split and
  moving a pane to its neighbour's place only rearrange views, whatever the arguments; moving a
  pane always returns.\<close>

theorem rearranging_conserves_views:
  assumes "stateOk s" "\<And>t. t \<in> set (tabs s) \<Longrightarrow> freshIds uuid (length (viewIds t) - 1) s"
  shows "mset (tabsViews (tabs (splitWithTab s i j e))) = mset (tabsViews (tabs s))
    \<and> mset (tabsViews (tabs (separateWorkspaceTab uuid s i))) = mset (tabsViews (tabs s))
    \<and> (\<exists>s'. moveWorkspacePane s v e = Some s' \<and> mset (tabsViews (tabs s')) = mset (tabsViews (tabs s)))"
  using split_ok [OF assms(1)] separate_ok [OF assms(1), of i uuid] assms(2) move_ok [OF assms(1), of v e]
  by blast

theorem rearranging_conserves_views_witness:
  "mset (tabsViews (tabs (separateWorkspaceTab (\<lambda>k. ''u'' @ replicate k CHR ''x'') sampleTabs ''t1'')))
     = mset (tabsViews (tabs sampleTabs))"
  by (rule rearranging_conserves_views [OF sample_ok, THEN conjunct2, THEN conjunct1])
    (auto simp: sample_simps freshIds_def upt_conv_Cons numeral_2_eq_2 less_Suc_eq)

text \<open>C3: Closing a view takes exactly that view out of the window. When it was the focused
  pane of a split, the pane's tab keeps its other panes in reading order and the focus goes to
  the first pane of the arrangement that was beside the closed one (view identifiers are not
  empty: the code takes an empty one for none).\<close>

theorem close_focuses_sibling:
  assumes "stateOk s" "t \<in> set (tabs s)" "v \<in> set (viewIds t)" "layout t \<noteq> View v" "activeViewId t = v"
    "[] \<notin> set (viewIds t)"
  shows "mset (tabsViews (tabs (closeWorkspaceView s v))) = mset (tabsViews (tabs s)) - {#v#}
    \<and> (\<exists>p d r a b other. layoutAt (layout t) p = Some (Split d r a b)
        \<and> (a = View v \<and> other = b \<or> b = View v \<and> other = a)
        \<and> (\<exists>u\<in>set (tabs (closeWorkspaceView s v)). tabId u = tabId t \<and> pinned u = pinned t
             \<and> viewIds u = filter (\<lambda>w. w \<noteq> v) (viewIds t) \<and> activeViewId u = hd (layoutViews other)))"
proof -
  note tok = tabsOkD(1) [OF stateOkD [OF assms(1)] assms(2)]
  let ?l = "the (removeFromLayout (layout t) v)"
  let ?u = "tabWithLayout (tabId t) (closeSurvivor (layout t) v) (pinned t) ?l"
  note cf = close_focused [OF assms(1-4)]
  obtain p d r a b other where sib: "layoutAt (layout t) p = Some (Split d r a b)"
    "a = View v \<and> other = b \<or> b = View v \<and> other = a"
    "closeSurvivor (layout t) v = Some (hd (layoutViews other))" "v \<notin> set (layoutViews other)"
  proof -
    have "distinct (layoutViews (layout t))" "v \<in> set (layoutViews (layout t))"
      using assms(3) tabOkD(1,2) [OF tok] by simp_all
    from closeSurvivor_sibling [OF this assms(4)] that show thesis by blast
  qed
  have "?u \<in> set (tabs (closeWorkspaceView s v))"
    unfolding cf(1) using assms(2,5) by force
  moreover have "hd (layoutViews other) \<in> set (layoutViews (layout t))" "hd (layoutViews other) \<noteq> v"
    using layoutAt_views [OF sib(1)] sib(2,4) hd_layoutViews [of other] by auto
  then have "hd (layoutViews other) \<in> set (layoutViews ?l)" "hd (layoutViews other) \<noteq> []"
    using cf(2) tabOkD(1) [OF tok] assms(6) by auto
  then have "activeViewId ?u = hd (layoutViews other)"
    unfolding sib(3) by (rule tabWithLayout_active)
  moreover have "tabId ?u = tabId t" "pinned ?u = pinned t" "viewIds ?u = filter (\<lambda>w. w \<noteq> v) (viewIds t)"
    using cf(2) by simp_all
  ultimately have "\<exists>u\<in>set (tabs (closeWorkspaceView s v)). tabId u = tabId t \<and> pinned u = pinned t
             \<and> viewIds u = filter (\<lambda>w. w \<noteq> v) (viewIds t) \<and> activeViewId u = hd (layoutViews other)"
    by blast
  with sib(1,2) close_ok [OF assms(1), THEN conjunct2] show ?thesis by blast
qed

theorem close_focuses_sibling_witness:
  "mset (tabsViews (tabs (closeWorkspaceView sampleTabs ''b''))) = mset (tabsViews (tabs sampleTabs)) - {#''b''#}"
  using close_focuses_sibling [OF sample_ok, of "tabWithLayout ''t1'' (Some ''b'') True sampleLayout" "''b''"]
  by (simp add: sampleTabs_def tabWithLayout_def Let_def) (simp add: sampleLayout_def)

text \<open>C5: Taking a pane out of a layout undoes putting it in: the split it made collapses and
  every other split keeps its direction and ratio.\<close>

theorem remove_undoes_insert:
  "v \<notin> set (layoutViews l) \<Longrightarrow> w \<in> set (layoutViews l) \<Longrightarrow> distinct (layoutViews l) \<Longrightarrow>
   removeFromLayout (insertIntoLayout l w (View v) e) v = Some l"
  by (rule remove_insert)

theorem remove_undoes_insert_witness:
  "removeFromLayout (insertIntoLayout sampleLayout ''c'' (View ''z'') EdgeTop) ''z'' = Some sampleLayout"
  by (rule remove_undoes_insert) (simp_all add: sample_simps)

text \<open>C4: The panes laid out are the layout's views in reading order; with ratios in range and
  a gap of at least one pixel, every pane with a positive size lies inside the window's
  rectangle and no two of them overlap.\<close>

theorem panes_tile_the_window:
  assumes "1 \<le> gap" "ratiosOk l" "0 \<le> rectW r" "0 \<le> rectH r"
  shows "map paneView (fst (layoutPanes l r gap)) = layoutViews l
    \<and> (\<forall>p\<in>set (fst (layoutPanes l r gap)). visible p \<longrightarrow> withinRect p r)
    \<and> sorted_wrt (\<lambda>p q. visible p \<longrightarrow> visible q \<longrightarrow> apart p q) (fst (layoutPanes l r gap))"
  using visitPanes_geometry [OF assms] layoutPanes_views by (simp add: layoutPanes_def)

theorem panes_tile_the_window_witness:
  "map paneView (fst (layoutPanes sampleLayout \<lparr>rectX = 0, rectY = 0, rectW = 800, rectH = 600\<rparr> 3))
     = layoutViews sampleLayout"
  using panes_tile_the_window [of 3 sampleLayout "\<lparr>rectX = 0, rectY = 0, rectW = 800, rectH = 600\<rparr>"]
  by (simp add: sampleLayout_def ratioOk_def MIN_RATIO_def MAX_RATIO_def)

text \<open>The neighbour a pane moves to is another pane of the tab that lies wholly on that
  side, shares part of its extent, and is nearest of all the panes that do.\<close>

theorem neighbour_is_nearest:
  assumes "neighbourPane l v d = Some w"
  shows "\<exists>from p. let panes = fst (layoutPanes l \<lparr>rectX = 0, rectY = 0, rectW = 1000, rectH = 1000\<rparr> 3) in
    from \<in> set panes \<and> paneView from = v \<and> p \<in> set panes \<and> paneView p = w \<and> w \<noteq> v
    \<and> 0 \<le> paneDistance d from p \<and> 0 < paneOverlap d from p
    \<and> (\<forall>q\<in>set panes. paneView q \<noteq> v \<longrightarrow> 0 \<le> paneDistance d from q \<longrightarrow> 0 < paneOverlap d from q
         \<longrightarrow> paneDistance d from p \<le> paneDistance d from q)"
  by (rule neighbourPane_nearest [OF assms])

theorem neighbour_is_nearest_witness:
  "\<exists>from p. let panes = fst (layoutPanes sampleLayout \<lparr>rectX = 0, rectY = 0, rectW = 1000, rectH = 1000\<rparr> 3) in
    from \<in> set panes \<and> paneView from = ''c'' \<and> p \<in> set panes \<and> paneView p = ''a'' \<and> ''a'' \<noteq> ''c''
    \<and> 0 \<le> paneDistance EdgeLeft from p \<and> 0 < paneOverlap EdgeLeft from p
    \<and> (\<forall>q\<in>set panes. paneView q \<noteq> ''c'' \<longrightarrow> 0 \<le> paneDistance EdgeLeft from q \<longrightarrow> 0 < paneOverlap EdgeLeft from q
         \<longrightarrow> paneDistance EdgeLeft from p \<le> paneDistance EdgeLeft from q)"
  by (rule neighbour_is_nearest)
    (simp add: sampleLayout_def neighbourPane_def layoutPanes_def Let_def mathRound_def
      paneDistance_def paneOverlap_def)

text \<open>Reordering a tab and pinning one keep every other tab as it is and in its order;
  reordering keeps the tabs, pinning sets the tab's flag, and the pinned tabs stay first.\<close>

theorem reorder_pin_local:
  assumes "stateOk s"
  shows "mset (tabs (reorderWorkspaceTab s i k)) = mset (tabs s)
    \<and> filter (\<lambda>t. tabId t \<noteq> i) (tabs (reorderWorkspaceTab s i k)) = filter (\<lambda>t. tabId t \<noteq> i) (tabs s)
    \<and> filter (\<lambda>t. tabId t \<noteq> i) (tabs (pinWorkspaceTab s i p)) = filter (\<lambda>t. tabId t \<noteq> i) (tabs s)
    \<and> (\<forall>t\<in>set (tabs (pinWorkspaceTab s i p)). tabId t = i \<longrightarrow> pinned t = p)
    \<and> pinnedSorted (tabs (reorderWorkspaceTab s i k)) \<and> pinnedSorted (tabs (pinWorkspaceTab s i p))"
  using reorder_ok [OF assms, of i k] pin_ok [OF assms, of i p] reorder_others pin_others pin_sets [OF assms]
    tabsOkD(4) [OF stateOkD] by blast

theorem reorder_pin_local_witness:
  "pinnedSorted (tabs (reorderWorkspaceTab sampleTabs ''t2'' (Finite 0)))"
  using reorder_pin_local [OF sample_ok] by blast

text \<open>Close Other Tabs closes every tab but the given one and the pinned ones.\<close>

theorem close_others_spares_pinned:
  assumes "stateOk s" "i \<in> tabId ` set (tabs s)"
  shows "tabsToClose s i Others = map tabId (filter (\<lambda>t. \<not> pinned t \<and> tabId t \<noteq> i) (tabs s))"
  by (rule tabsToClose_others [OF tabsOkD(2) [OF stateOkD [OF assms(1)]] assms(2)])

theorem close_others_spares_pinned_witness:
  "tabsToClose sampleTabs ''t1'' Others = [''t2'']"
  using close_others_spares_pinned [OF sample_ok, of "''t1''"] by (simp add: sample_simps)

text \<open>Setting the ratio of a tab that shows a single pane records the ratio on the tab,
  although the comment on \<open>splitRatio\<close> says it is 0.5 there.\<close>

lemma single_pane_ratio_recorded:
  assumes "t \<in> set (tabs s)" "tabId t = i" "layout t = View v"
  shows "t\<lparr>splitRatio := min MAX_RATIO (max MIN_RATIO x)\<rparr>
    \<in> set (tabs (setWorkspaceSplitRatio s i (Finite x) []))"
  using assms by (force simp: setWorkspaceSplitRatio_def isFinite_def Let_def)

end
