(* ===== verification/JsText.thy ===== *)
theory JsText
  imports Prelude
begin

text \<open>
  JavaScript strings and the text operations the source uses on them. A string is a list of
  ASCII code units; the typographic symbols that appear in messages and labels are named
  constants (their UTF-8 bytes). A thrown \<open>Error\<close> carries its message.
\<close>

section \<open>Errors\<close>

datatype js_error = Error string | WorkbookConflictError string

section \<open>Symbols of messages and labels\<close>

definition enDash :: string where "enDash = [CHR 0xE2, CHR 0x80, CHR 0x93]"
definition emDash :: string where "emDash = [CHR 0xE2, CHR 0x80, CHR 0x94]"
definition arrow :: string where "arrow = [CHR 0xE2, CHR 0x86, CHR 0x92]"
definition ellipsis :: string where "ellipsis = [CHR 0xE2, CHR 0x80, CHR 0xA6]"
definition timesSign :: string where "timesSign = [CHR 0xC3, CHR 0x97]"
definition leSign :: string where "leSign = [CHR 0xE2, CHR 0x89, CHR 0xA4]"
definition quote :: string where "quote = [CHR 0x22]"
definition apos :: string where "apos = [CHR 0x27]"

section \<open>Character classes\<close>

definition code :: "char \<Rightarrow> nat" where "code c = of_char c"

definition isUpper :: "char \<Rightarrow> bool" where "isUpper c = (65 \<le> code c \<and> code c \<le> 90)"
definition isLower :: "char \<Rightarrow> bool" where "isLower c = (97 \<le> code c \<and> code c \<le> 122)"
definition isDigit :: "char \<Rightarrow> bool" where "isDigit c = (48 \<le> code c \<and> code c \<le> 57)"
definition isAlnum :: "char \<Rightarrow> bool" where "isAlnum c = (isUpper c \<or> isLower c \<or> isDigit c)"
definition isHex :: "char \<Rightarrow> bool" where
  "isHex c = (isDigit c \<or> (65 \<le> code c \<and> code c \<le> 70) \<or> (97 \<le> code c \<and> code c \<le> 102))"
definition isSpace :: "char \<Rightarrow> bool" where
  "isSpace c = (code c \<in> {9, 10, 11, 12, 13, 32, 160})"

lemma code_less [simp]: "code c < 256"
  by (simp add: code_def)

lemma code_char_of [simp]: "n < 256 \<Longrightarrow> code (char_of n) = n"
  by (simp add: code_def)

lemma char_of_code [simp]: "char_of (code c) = c"
  by (simp add: code_def)

lemma code_inj: "code c = code d \<longleftrightarrow> c = d"
  by (simp add: code_def)

lemma class_disjoint:
  "isUpper c \<Longrightarrow> \<not> isDigit c" "isUpper c \<Longrightarrow> c \<noteq> CHR ''$''" "isDigit c \<Longrightarrow> c \<noteq> CHR ''$''"
  "isUpper c \<Longrightarrow> c \<noteq> CHR '':''" "isDigit c \<Longrightarrow> c \<noteq> CHR '':''"
  by (auto simp: isUpper_def isDigit_def code_def)

section \<open>Numbers as text\<close>

text \<open>The decimal digits of a natural number, \<open>String(n)\<close>.\<close>

fun natStr :: "nat \<Rightarrow> string" where
  "natStr n = (if n < 10 then [char_of (48 + n)] else natStr (n div 10) @ [char_of (48 + n mod 10)])"

declare natStr.simps [simp del]

definition intStr :: "int \<Rightarrow> string" where
  "intStr k = (if k < 0 then ''-'' @ natStr (nat (- k)) else natStr (nat k))"

text \<open>\<open>Number(s)\<close> of a string of decimal digits.\<close>

definition digitsVal :: "string \<Rightarrow> nat" where
  "digitsVal s = foldl (\<lambda>n c. n * 10 + (code c - 48)) 0 s"

lemma natStr_digits: "\<forall>c\<in>set (natStr n). isDigit c"
  by (induction n rule: natStr.induct) (subst natStr.simps, auto simp: isDigit_def)

lemma natStr_nonempty [simp]: "natStr n \<noteq> []"
  by (subst natStr.simps) simp

lemma digitsVal_natStr [simp]: "digitsVal (natStr n) = n"
proof (induction n rule: natStr.induct)
  case (1 n)
  show ?case
  proof (cases "n < 10")
    case True
    then show ?thesis by (subst natStr.simps) (simp add: digitsVal_def)
  next
    case False
    then have "digitsVal (natStr n) = digitsVal (natStr (n div 10)) * 10 + n mod 10"
      by (subst natStr.simps) (simp add: digitsVal_def)
    with 1 False show ?thesis by simp
  qed
qed

lemma natStr_inj: "natStr m = natStr n \<Longrightarrow> m = n"
  using digitsVal_natStr by metis

lemma natStr_hd: "0 < n \<Longrightarrow> hd (natStr n) \<noteq> CHR ''0''"
proof (induction n rule: natStr.induct)
  case (1 n)
  show ?case
  proof (cases "n < 10")
    case True
    have "char_of (48 + n) \<noteq> CHR ''0''"
    proof
      assume "char_of (48 + n) = CHR ''0''"
      then have "code (char_of (48 + n)) = code (CHR ''0'')" by simp
      then show False using True 1 by (simp add: code_def)
    qed
    then show ?thesis using True by (subst natStr.simps) simp
  next
    case False
    then show ?thesis using 1 by (subst natStr.simps) auto
  qed
qed

lemma natStr_length: "n < 10 ^ k \<Longrightarrow> 0 < k \<Longrightarrow> length (natStr n) \<le> k"
proof (induction k arbitrary: n)
  case (Suc k)
  show ?case
  proof (cases "n < 10")
    case True
    then show ?thesis by (subst natStr.simps) simp
  next
    case False
    then have "n div 10 < 10 ^ k" "0 < k" using Suc.prems by (auto simp: div_less_iff_less_mult mult.commute intro: gr0I)
    with Suc.IH False show ?thesis by (subst natStr.simps) simp
  qed
qed simp

section \<open>Operations on text\<close>

definition startsWith :: "string \<Rightarrow> string \<Rightarrow> bool" where
  "startsWith s p = (take (length p) s = p)"

definition toLower :: "char \<Rightarrow> char" where
  "toLower c = (if isUpper c then char_of (code c + 32) else c)"

definition toLowerCase :: "string \<Rightarrow> string" where
  "toLowerCase s = map toLower s"

definition trimWith :: "(char \<Rightarrow> bool) \<Rightarrow> string \<Rightarrow> string" where
  "trimWith P s = rev (dropWhile P (rev (dropWhile P s)))"

definition trim :: "string \<Rightarrow> string" where
  "trim s = trimWith isSpace s"

fun strIncludes :: "string \<Rightarrow> string \<Rightarrow> bool" where
  "strIncludes [] p = (p = [])"
| "strIncludes (c # s) p = (startsWith (c # s) p \<or> strIncludes s p)"

fun join :: "string \<Rightarrow> string list \<Rightarrow> string" where
  "join sep [] = []"
| "join sep [s] = s"
| "join sep (s # t # ts) = s @ sep @ join sep (t # ts)"

text \<open>\<open>s.split(c)\<close> for a separator of one character.\<close>

fun splitOn :: "char \<Rightarrow> string \<Rightarrow> string list" where
  "splitOn d [] = [[]]"
| "splitOn d (c # s) =
     (if c = d then [] # splitOn d s
      else case splitOn d s of [] \<Rightarrow> [[c]] | w # ws \<Rightarrow> (c # w) # ws)"

lemma splitOn_nonempty [simp]: "splitOn d s \<noteq> []"
  by (induction s) (auto split: list.split)

lemma splitOn_none: "d \<notin> set s \<Longrightarrow> splitOn d s = [s]"
  by (induction s) auto

lemma splitOn_append: "d \<notin> set s \<Longrightarrow> splitOn d (s @ d # t) = s # splitOn d t"
  by (induction s) auto

lemma join_splitOn: "join [d] (splitOn d s) = s"
proof (induction s)
  case (Cons c s)
  obtain w ws where "splitOn d s = w # ws" by (cases "splitOn d s") auto
  with Cons show ?case by (cases ws) auto
qed simp

text \<open>The lists in labels.\<close>

abbreviation commaJoin :: "string list \<Rightarrow> string" where
  "commaJoin \<equiv> join '', ''"

end
