(* ===== verification/CellAddress.thy ===== *)
theory CellAddress
  imports JsText
begin

text \<open>
  A1-style addresses (\<open>apps/key-office/apps/sheets/src/domain/cell-address.ts\<close>): parsing and
  formatting of cells, columns and ranges, with the round trips between them. Rows and columns
  are 0-based \<open>int\<close>s, as in the code.
\<close>

section \<open>Cells and ranges\<close>

record CellCoordinates =
  cellRow :: int
  cellColumn :: int

record RangeBounds =
  startRow :: int
  startColumn :: int
  endRow :: int
  endColumn :: int

text \<open>The accumulation \<open>column * 26 + character.charCodeAt(0) - 64\<close> over the letters.\<close>

definition columnValue :: "string \<Rightarrow> int" where
  "columnValue letters = foldl (\<lambda>column c. column * 26 + int (code c) - 64) 0 letters"

definition dropAnchor :: "string \<Rightarrow> string" where
  "dropAnchor s = (case s of c # t \<Rightarrow> if c = CHR ''$'' then t else s | [] \<Rightarrow> [])"

text \<open>The pattern \<open>$?([A-Z]+)$?([1-9][0-9]*)\<close> on the whole text, with its two groups.\<close>

definition matchAddress :: "string \<Rightarrow> (string \<times> string) option" where
  "matchAddress address =
     (let s = dropAnchor address;
          letters = takeWhile isUpper s;
          digits = dropAnchor (dropWhile isUpper s)
      in if letters = [] then None
         else case digits of
            [] \<Rightarrow> None
          | c # cs \<Rightarrow>
              if isDigit c \<and> c \<noteq> CHR ''0'' \<and> list_all isDigit cs then Some (letters, digits) else None)"

definition parseAddress :: "string \<Rightarrow> js_error + CellCoordinates" where
  "parseAddress address =
     (case matchAddress address of
        None \<Rightarrow> Inl (Error (''Invalid cell address: '' @ address))
      | Some (letters, digits) \<Rightarrow>
          Inr \<lparr>cellRow = int (digitsVal digits) - 1, cellColumn = columnValue letters - 1\<rparr>)"

text \<open>The loop of \<open>columnLabel\<close>.\<close>

function labelLoop :: "int \<Rightarrow> string \<Rightarrow> string" where
  "labelLoop remaining label =
     (if 0 < remaining
      then labelLoop ((remaining - 1) div 26) (char_of (65 + nat ((remaining - 1) mod 26)) # label)
      else label)"
  by auto
termination
  by (relation "measure (\<lambda>(r, _). nat r)") auto

declare labelLoop.simps [simp del]

definition columnLabel :: "int \<Rightarrow> string" where
  "columnLabel column = labelLoop (column + 1) []"

definition formatAddress :: "int \<Rightarrow> int \<Rightarrow> string" where
  "formatAddress row column = columnLabel column @ intStr (row + 1)"

definition columnIndex :: "string \<Rightarrow> js_error + int" where
  "columnIndex label =
     (if label = [] \<or> \<not> list_all isUpper label then Inl (Error (''Invalid column label: '' @ label))
      else Inr (columnValue label - 1))"

definition parseRange :: "string \<Rightarrow> js_error + RangeBounds" where
  "parseRange rng =
     (let parts = splitOn (CHR '':'') rng in
      if length parts > 2 \<or> hd parts = [] then Inl (Error (''Invalid range: '' @ rng))
      else bindE (parseAddress (hd parts)) (\<lambda>first.
        bindE (case nthOpt parts 1 of
                 Some p \<Rightarrow> if p \<noteq> [] then parseAddress p else Inr first
               | None \<Rightarrow> Inr first) (\<lambda>second.
        Inr \<lparr>startRow = min (cellRow first) (cellRow second),
             startColumn = min (cellColumn first) (cellColumn second),
             endRow = max (cellRow first) (cellRow second),
             endColumn = max (cellColumn first) (cellColumn second)\<rparr>)))"

definition rangeCellCount :: "RangeBounds \<Rightarrow> int" where
  "rangeCellCount b = (endRow b - startRow b + 1) * (endColumn b - startColumn b + 1)"

text \<open>\<open>upto\<close> is the index sequence of the source's \<open>for\<close> loops.\<close>

definition rangeAddresses :: "RangeBounds \<Rightarrow> string list" where
  "rangeAddresses b =
     concat (map (\<lambda>row. map (\<lambda>column. formatAddress row column) [startColumn b..endColumn b])
                 [startRow b..endRow b])"

section \<open>Column labels\<close>

lemma columnValue_append: "columnValue (s @ [c]) = columnValue s * 26 + int (code c) - 64"
  by (simp add: columnValue_def)

lemma labelLoop_acc: "labelLoop r acc = labelLoop r [] @ acc"
proof (induction "nat r" arbitrary: r acc rule: less_induct)
  case less
  show ?case
  proof (cases "0 < r")
    case True
    then have lt: "nat ((r - 1) div 26) < nat r" by auto
    let ?c = "char_of (65 + nat ((r - 1) mod 26)) :: char"
    have "labelLoop r acc = labelLoop ((r - 1) div 26) (?c # acc)"
      "labelLoop r [] = labelLoop ((r - 1) div 26) [?c]"
      using True by (subst labelLoop.simps; simp)+
    then show ?thesis using less [OF lt, of "?c # acc"] less [OF lt, of "[?c]"] by simp
  next
    case False
    then show ?thesis by (simp add: labelLoop.simps)
  qed
qed

lemma columnLabel_step:
  "0 \<le> k \<Longrightarrow> columnLabel k = (if k < 26 then [] else columnLabel (k div 26 - 1)) @ [char_of (65 + nat (k mod 26))]"
proof -
  assume k: "0 \<le> k"
  have "columnLabel k = labelLoop (k div 26) [char_of (65 + nat (k mod 26))]"
    using k unfolding columnLabel_def by (subst labelLoop.simps) simp
  also have "\<dots> = labelLoop (k div 26) [] @ [char_of (65 + nat (k mod 26))]"
    by (rule labelLoop_acc)
  also have "labelLoop (k div 26) [] = (if k < 26 then [] else columnLabel (k div 26 - 1))"
    using k by (auto simp: columnLabel_def labelLoop.simps)
  finally show ?thesis .
qed

lemma columnLabel_neg: "k < 0 \<Longrightarrow> columnLabel k = []"
  by (simp add: columnLabel_def labelLoop.simps)

lemma letter_code: "0 \<le> k \<Longrightarrow> code (char_of (65 + nat (k mod 26))) = 65 + nat (k mod 26)"
  by (rule code_char_of) (use pos_mod_bound [of 26 k] in linarith)

lemma columnLabel_induct [consumes 1, case_names small big]:
  fixes k :: int
  assumes "0 \<le> k" "\<And>k. 0 \<le> k \<Longrightarrow> k < 26 \<Longrightarrow> P k"
    "\<And>k. 26 \<le> k \<Longrightarrow> P (k div 26 - 1) \<Longrightarrow> P k"
  shows "P k"
  using assms(1)
proof (induction "nat k" arbitrary: k rule: less_induct)
  case less
  show ?case
  proof (cases "k < 26")
    case True
    then show ?thesis using assms(2) less.prems by simp
  next
    case False
    then have "0 \<le> k div 26 - 1" "nat (k div 26 - 1) < nat k" using less.prems by auto
    then show ?thesis using assms(3) less.hyps False by simp
  qed
qed

lemma letter_upper: "isUpper (char_of (65 + nat (k mod 26)))"
proof -
  have "nat (k mod 26) \<le> 25" using pos_mod_bound [of 26 k] by linarith
  then show ?thesis by (simp add: isUpper_def)
qed

lemma columnLabel_upper: "0 \<le> k \<Longrightarrow> list_all isUpper (columnLabel k)"
proof (induction k rule: columnLabel_induct)
  case (small k)
  then show ?case using letter_upper [of k] by (subst columnLabel_step) simp_all
next
  case (big k)
  then show ?case using letter_upper [of k] by (subst columnLabel_step) simp_all
qed

lemma columnLabel_nonempty: "0 \<le> k \<Longrightarrow> columnLabel k \<noteq> []"
  by (subst columnLabel_step) auto

lemma columnValue_columnLabel: "0 \<le> k \<Longrightarrow> columnValue (columnLabel k) = k + 1"
proof (induction k rule: columnLabel_induct)
  case (small k)
  then show ?case
    by (subst columnLabel_step) (simp_all add: columnValue_def letter_code)
next
  case (big k)
  then have "columnValue (columnLabel k) = (k div 26) * 26 + k mod 26 + 1"
    by (subst columnLabel_step) (simp_all add: columnValue_append letter_code)
  then show ?case by simp
qed

text \<open>\<open>columnLabel\<close> and \<open>columnIndex\<close> are inverse.\<close>

lemma columnIndex_columnLabel: "0 \<le> k \<Longrightarrow> columnIndex (columnLabel k) = Inr k"
  by (simp add: columnIndex_def columnLabel_upper columnLabel_nonempty columnValue_columnLabel)

lemma columnValue_pos: "list_all isUpper s \<Longrightarrow> s \<noteq> [] \<Longrightarrow> 1 \<le> columnValue s"
proof (induction s rule: rev_induct)
  case (snoc c s)
  then have "0 \<le> columnValue s" by (cases "s = []") (auto simp: columnValue_def)
  with snoc.prems show ?case by (auto simp: columnValue_append isUpper_def)
qed simp

lemma columnLabel_columnValue:
  "list_all isUpper s \<Longrightarrow> s \<noteq> [] \<Longrightarrow> columnLabel (columnValue s - 1) = s"
proof (induction s rule: rev_induct)
  case (snoc c s)
  then have c: "65 \<le> code c" "code c \<le> 90" by (simp_all add: isUpper_def)
  let ?k = "columnValue (s @ [c]) - 1"
  have k: "?k = columnValue s * 26 + (int (code c) - 65)" by (simp add: columnValue_append)
  then have dm: "?k div 26 = columnValue s" "?k mod 26 = int (code c) - 65"
    unfolding k using c by (simp_all add: div_pos_pos_trivial mod_pos_pos_trivial)
  have ch: "char_of (65 + nat (?k mod 26)) = c" using c by (simp add: dm(2) nat_diff_distrib)
  show ?case
  proof (cases "s = []")
    case True
    then have "?k < 26" "0 \<le> ?k" using k c by (simp_all add: columnValue_def)
    then show ?thesis using ch True by (subst columnLabel_step) simp_all
  next
    case False
    then have "1 \<le> columnValue s" using columnValue_pos snoc.prems by simp
    then have "\<not> ?k < 26" "0 \<le> ?k" using k c by auto
    then show ?thesis using ch dm(1) snoc False by (subst columnLabel_step) simp_all
  qed
qed simp

lemma columnLabel_inj: "0 \<le> j \<Longrightarrow> 0 \<le> k \<Longrightarrow> columnLabel j = columnLabel k \<longleftrightarrow> j = k"
  by (metis columnValue_columnLabel add_right_cancel)

lemma columnIndex_ok: "columnIndex s = Inr k \<Longrightarrow> 0 \<le> k \<and> columnLabel k = s"
  by (auto simp: columnIndex_def columnLabel_columnValue split: if_splits dest: columnValue_pos)

section \<open>Addresses\<close>

lemma dropAnchor_other: "s \<noteq> [] \<Longrightarrow> hd s \<noteq> CHR ''$'' \<Longrightarrow> dropAnchor s = s"
  by (cases s) (simp_all add: dropAnchor_def)

lemma takeWhile_letters:
  "list_all isUpper l \<Longrightarrow> (d = [] \<or> \<not> isUpper (hd d)) \<Longrightarrow>
   takeWhile isUpper (l @ d) = l \<and> dropWhile isUpper (l @ d) = d"
  by (induction l) (cases d; auto)+

lemma matchAddress_join:
  assumes l: "list_all isUpper l" "l \<noteq> []"
    and d: "list_all isDigit d" "d \<noteq> []" "hd d \<noteq> CHR ''0''"
  shows "matchAddress (l @ d) = Some (l, d)"
proof -
  have dd: "isDigit (hd d)" using d by (cases d) auto
  have "dropAnchor (l @ d) = l @ d" using l by (intro dropAnchor_other) (cases l; auto dest: class_disjoint)+
  moreover have "dropAnchor d = d" using d dd class_disjoint(3) by (intro dropAnchor_other) auto
  moreover have "\<not> isUpper (hd d)" using dd class_disjoint(1) by blast
  ultimately show ?thesis
    using takeWhile_letters [OF l(1), of d] l d
    by (cases d) (auto simp: matchAddress_def Let_def)
qed

lemma parseAddress_formatAddress:
  assumes "0 \<le> row" "0 \<le> column"
  shows "parseAddress (formatAddress row column) = Inr \<lparr>cellRow = row, cellColumn = column\<rparr>"
proof -
  have d: "intStr (row + 1) = natStr (nat (row + 1))" using assms by (simp add: intStr_def)
  have "matchAddress (columnLabel column @ natStr (nat (row + 1)))
      = Some (columnLabel column, natStr (nat (row + 1)))"
    using assms natStr_digits natStr_hd
    by (intro matchAddress_join columnLabel_upper columnLabel_nonempty) (auto simp: list_all_iff)
  then show ?thesis
    using assms by (simp add: parseAddress_def formatAddress_def d columnValue_columnLabel)
qed

lemma formatAddress_inj:
  assumes "0 \<le> r" "0 \<le> c" "0 \<le> r'" "0 \<le> c'"
  shows "formatAddress r c = formatAddress r' c' \<longleftrightarrow> r = r' \<and> c = c'"
proof
  assume eq: "formatAddress r c = formatAddress r' c'"
  show "r = r' \<and> c = c'"
    using parseAddress_formatAddress [OF assms(1,2)] parseAddress_formatAddress [OF assms(3,4)]
    unfolding eq by simp
qed simp

lemma matchAddress_groups:
  assumes "matchAddress s = Some (l, d)"
  shows "list_all isUpper l \<and> l \<noteq> [] \<and> list_all isDigit d \<and> d \<noteq> [] \<and> hd d \<noteq> CHR ''0''"
proof -
  define ds where "ds = dropAnchor (dropWhile isUpper (dropAnchor s))"
  from assms have "d = ds" "ds \<noteq> []" "list_all isDigit ds" "hd ds \<noteq> CHR ''0''"
    and l: "l = takeWhile isUpper (dropAnchor s)" "l \<noteq> []"
    by (auto simp: matchAddress_def Let_def simp flip: ds_def split: if_splits list.splits)
  moreover have "list_all isUpper l" unfolding l(1) list_all_iff by (auto dest: set_takeWhileD)
  ultimately show ?thesis by blast
qed

lemma digitsVal_ge: "n \<le> foldl (\<lambda>n c. n * 10 + (code c - 48)) n s"
proof (induction s arbitrary: n)
  case (Cons c s)
  have "n \<le> n * 10 + (code c - 48)" by simp
  also have "\<dots> \<le> foldl (\<lambda>n c. n * 10 + (code c - 48)) (n * 10 + (code c - 48)) s" by (rule Cons.IH)
  finally show ?case by simp
qed simp

lemma digitsVal_pos:
  assumes "list_all isDigit d" "d \<noteq> []" "hd d \<noteq> CHR ''0''"
  shows "1 \<le> digitsVal d"
proof (cases d)
  case (Cons c cs)
  have "code c \<noteq> 48"
  proof
    assume "code c = 48"
    also have "48 = code (CHR ''0'')" by (simp add: code_def)
    finally show False using assms(3) Cons by (simp add: code_inj)
  qed
  moreover have "48 \<le> code c" using assms(1) Cons by (simp add: isDigit_def)
  ultimately have "1 \<le> code c - 48" by simp
  also have "\<dots> \<le> foldl (\<lambda>n c. n * 10 + (code c - 48)) (code c - 48) cs" by (rule digitsVal_ge)
  finally show ?thesis using Cons by (simp add: digitsVal_def)
qed (use assms in simp)

lemma parseAddress_bounds:
  assumes "parseAddress s = Inr p"
  shows "0 \<le> cellRow p \<and> 0 \<le> cellColumn p"
proof -
  from assms obtain l d where m: "matchAddress s = Some (l, d)"
    and p: "p = \<lparr>cellRow = int (digitsVal d) - 1, cellColumn = columnValue l - 1\<rparr>"
    by (auto simp: parseAddress_def split: option.splits)
  from matchAddress_groups [OF m] have "1 \<le> columnValue l" "1 \<le> digitsVal d"
    using columnValue_pos digitsVal_pos by auto
  with p show ?thesis by simp
qed

section \<open>Ranges\<close>

definition boundsOk :: "RangeBounds \<Rightarrow> bool" where
  "boundsOk b \<longleftrightarrow> 0 \<le> startRow b \<and> 0 \<le> startColumn b
     \<and> startRow b \<le> endRow b \<and> startColumn b \<le> endColumn b"

definition inBounds :: "RangeBounds \<Rightarrow> int \<Rightarrow> int \<Rightarrow> bool" where
  "inBounds b row column \<longleftrightarrow> startRow b \<le> row \<and> row \<le> endRow b
     \<and> startColumn b \<le> column \<and> column \<le> endColumn b"

lemma parseRange_ok: "parseRange rng = Inr b \<Longrightarrow> boundsOk b"
  by (auto simp: parseRange_def Let_def res_simps boundsOk_def split: if_splits option.splits
      dest!: parseAddress_bounds)

lemma colon_not_in_address:
  "0 \<le> column \<Longrightarrow> 0 \<le> row \<Longrightarrow> CHR '':'' \<notin> set (formatAddress row column)"
  using columnLabel_upper [of column] natStr_digits [of "nat (row + 1)"] class_disjoint(4,5)
  by (auto simp: formatAddress_def intStr_def list_all_iff)

lemma formatAddress_nonempty: "0 \<le> column \<Longrightarrow> formatAddress row column \<noteq> []"
  by (simp add: formatAddress_def columnLabel_nonempty)

lemma parseRange_cell:
  "0 \<le> row \<Longrightarrow> 0 \<le> column \<Longrightarrow> parseRange (formatAddress row column) =
     Inr \<lparr>startRow = row, startColumn = column, endRow = row, endColumn = column\<rparr>"
  by (simp add: parseRange_def splitOn_none colon_not_in_address formatAddress_nonempty
      parseAddress_formatAddress nthOpt_def)

lemma parseRange_join:
  "0 \<le> r \<Longrightarrow> 0 \<le> c \<Longrightarrow> 0 \<le> r' \<Longrightarrow> 0 \<le> c' \<Longrightarrow>
   parseRange (formatAddress r c @ '':'' @ formatAddress r' c') =
     Inr \<lparr>startRow = min r r', startColumn = min c c', endRow = max r r', endColumn = max c c'\<rparr>"
  by (simp add: parseRange_def splitOn_append splitOn_none colon_not_in_address
      formatAddress_nonempty parseAddress_formatAddress nthOpt_def)

lemma rangeAddresses_product:
  "rangeAddresses b = map (\<lambda>(r, c). formatAddress r c)
     (List.product [startRow b..endRow b] [startColumn b..endColumn b])"
  by (simp add: rangeAddresses_def product_concat_map map_concat comp_def)

lemma rangeAddresses_set:
  "a \<in> set (rangeAddresses b) \<longleftrightarrow> (\<exists>r c. a = formatAddress r c \<and> inBounds b r c)"
  by (force simp: rangeAddresses_product inBounds_def)

lemma rangeAddresses_length: "boundsOk b \<Longrightarrow> int (length (rangeAddresses b)) = rangeCellCount b"
  by (simp add: rangeAddresses_product boundsOk_def rangeCellCount_def)

lemma formatAddress_inj_on:
  "0 \<le> startRow b \<Longrightarrow> 0 \<le> startColumn b \<Longrightarrow>
   inj_on (\<lambda>(r, c). formatAddress r c) {(r, c). startRow b \<le> r \<and> startColumn b \<le> c}"
  by (rule inj_onI) (auto simp: formatAddress_inj)

lemma rangeAddresses_distinct:
  assumes "boundsOk b"
  shows "distinct (rangeAddresses b)"
proof -
  have "set (List.product [startRow b..endRow b] [startColumn b..endColumn b])
      \<subseteq> {(r, c). startRow b \<le> r \<and> startColumn b \<le> c}" by auto
  with assms formatAddress_inj_on [of b] have
    "inj_on (\<lambda>(r, c). formatAddress r c) (set (List.product [startRow b..endRow b] [startColumn b..endColumn b]))"
    unfolding boundsOk_def using inj_on_subset by blast
  then show ?thesis
    unfolding rangeAddresses_product by (simp add: distinct_map distinct_product)
qed

end
