(* ===== verification/WorkbookTypes.thy ===== *)
theory WorkbookTypes
  imports CellAddress
begin

text \<open>
  The command language of the workbook (\<open>workbook-dsl.ts\<close>, lines 1-1087, and
  \<open>workbook.types.ts\<close>): the operations as datatypes with the source's variants, the zod
  schemas as predicates on the parsed values, and the sets that classify operations.

  An optional field is an \<open>option\<close>; an enumeration keeps its string values; a field that may
  also be \<open>null\<close> is a \<open>patch\<close>. Integers of \<open>z.number().int()\<close> are \<open>int\<close>, other numbers
  \<open>real\<close> (the schemas admit finite numbers only). Schemas with \<open>.trim()\<close> or \<open>.default()\<close> describe
  the values after parsing: trimmed, with the default filled in.
\<close>

section \<open>Cells\<close>

datatype CellScalar = Str string | Num real | Boolean bool | Null

record CellState =
  cellValue :: CellScalar
  formula :: "string option"
  rawValue :: "CellScalar option"

abbreviation plainCell :: "CellScalar \<Rightarrow> CellState" where
  "plainCell v \<equiv> \<lparr>cellValue = v, formula = None, rawValue = None\<rparr>"

abbreviation formulaCell :: "string \<Rightarrow> CellState" where
  "formulaCell f \<equiv> \<lparr>cellValue = Null, formula = Some f, rawValue = None\<rparr>"

text \<open>A field that is absent, \<open>null\<close>, or a value.\<close>

datatype 'a patch = Absent | Cleared | Value 'a

fun patchOk :: "('a \<Rightarrow> bool) \<Rightarrow> 'a patch \<Rightarrow> bool" where
  "patchOk P (Value x) = P x"
| "patchOk P _ = True"

definition optOk :: "('a \<Rightarrow> bool) \<Rightarrow> 'a option \<Rightarrow> bool" where
  "optOk P o' = (case o' of None \<Rightarrow> True | Some x \<Rightarrow> P x)"

lemma optOk_simps [simp]: "optOk P None" "optOk P (Some x) = P x"
  by (simp_all add: optOk_def)

definition lengthIn :: "nat \<Rightarrow> nat \<Rightarrow> 'a list \<Rightarrow> bool" where
  "lengthIn lo hi xs \<longleftrightarrow> lo \<le> length xs \<and> length xs \<le> hi"

definition intIn :: "int \<Rightarrow> int \<Rightarrow> int \<Rightarrow> bool" where
  "intIn lo hi k \<longleftrightarrow> lo \<le> k \<and> k \<le> hi"

definition realIn :: "real \<Rightarrow> real \<Rightarrow> real \<Rightarrow> bool" where
  "realIn lo hi k \<longleftrightarrow> lo \<le> k \<and> k \<le> hi"

section \<open>Basic schemas\<close>

definition cellAddressOk :: "string \<Rightarrow> bool" where
  "cellAddressOk s =
     (let letters = takeWhile isUpper s; digits = dropWhile isUpper s in
      lengthIn 1 3 letters \<and> lengthIn 1 7 digits \<and> hd digits \<noteq> CHR ''0'' \<and> list_all isDigit digits)"

definition cellRangeOk :: "string \<Rightarrow> bool" where
  "cellRangeOk s = (case splitOn (CHR '':'') s of
      [a] \<Rightarrow> cellAddressOk a
    | [a, b] \<Rightarrow> cellAddressOk a \<and> cellAddressOk b
    | _ \<Rightarrow> False)"

definition columnLabelOk :: "string \<Rightarrow> bool" where
  "columnLabelOk s = (lengthIn 1 3 s \<and> list_all isUpper s)"

definition sheetNameOk :: "string \<Rightarrow> bool" where
  "sheetNameOk s = (trim s = s \<and> lengthIn 1 31 s
     \<and> list_all (\<lambda>c. c \<notin> set '':'' \<union> {CHR 0x5C} \<union> set ''/?*[]'') s)"

definition hexColorOk :: "string \<Rightarrow> bool" where
  "hexColorOk s = (case s of c # h \<Rightarrow> c = CHR ''#'' \<and> length h = 6 \<and> list_all isHex h | [] \<Rightarrow> False)"

text \<open>\<open>z.string().min(1)\<close>, \<open>z.string().startsWith('=').max(8192)\<close>, and the two forms of a defined name.\<close>

definition idOk :: "string \<Rightarrow> bool" where "idOk s = (1 \<le> length s)"

definition formulaTextOk :: "string \<Rightarrow> bool" where
  "formulaTextOk s = (startsWith s ''='' \<and> length s \<le> 8192)"

definition nameStart :: "char \<Rightarrow> bool" where
  "nameStart c = (isUpper c \<or> isLower c \<or> c = CHR ''_'' \<or> c = CHR 0x5C)"

definition definedNameOk :: "(char \<Rightarrow> bool) \<Rightarrow> string \<Rightarrow> bool" where
  "definedNameOk extra s = (case s of
      c # r \<Rightarrow> nameStart c \<and> length r \<le> 254
        \<and> list_all (\<lambda>x. nameStart x \<or> isDigit x \<or> x = CHR ''.'' \<or> extra x) r
    | [] \<Rightarrow> False)"

section \<open>Cell and range operations\<close>

datatype CellContentOperation =
  SetCell string string CellScalar "CellScalar option"  \<comment> \<open>sheetId, address, value, expectedValue?\<close>
| SetFormula string string string "string option"  \<comment> \<open>sheetId, address, formula, expectedFormula?\<close>
| ClearCell string string  \<comment> \<open>sheetId, address\<close>

record SetRangeOperation =
  setSheetId :: string
  setStart :: "string option"
  setRange :: "string option"
  setValues :: "CellScalar list list"

record FillRangeOperation =
  fillSheetId :: string
  fillSource :: string
  fillSourceSheetId :: "string option"
  fillTarget :: string

record CopyRangeOperation =
  copySheetId :: string
  copySource :: string
  copySourceSheetId :: "string option"
  copyTarget :: string
  filterColumn :: "string option"
  filterValues :: "string list option"

definition setCellOk :: "string \<Rightarrow> string \<Rightarrow> CellScalar \<Rightarrow> CellScalar option \<Rightarrow> bool" where
  "setCellOk sheetId address v expected = (idOk sheetId \<and> cellAddressOk address)"

definition setFormulaOk :: "string \<Rightarrow> string \<Rightarrow> string \<Rightarrow> string option \<Rightarrow> bool" where
  "setFormulaOk sheetId address f expected = (idOk sheetId \<and> cellAddressOk address \<and> formulaTextOk f)"

definition clearCellOk :: "string \<Rightarrow> string \<Rightarrow> bool" where
  "clearCellOk sheetId address = (idOk sheetId \<and> cellAddressOk address)"

definition setRangeOk :: "SetRangeOperation \<Rightarrow> bool" where
  "setRangeOk op' = (idOk (setSheetId op') \<and> optOk cellAddressOk (setStart op')
     \<and> optOk cellRangeOk (setRange op')
     \<and> lengthIn 1 500 (setValues op') \<and> list_all (lengthIn 1 100) (setValues op'))"

definition clearRangeOk :: "string \<Rightarrow> string \<Rightarrow> bool" where
  "clearRangeOk sheetId rng = (idOk sheetId \<and> cellRangeOk rng)"

definition fillRangeOk :: "FillRangeOperation \<Rightarrow> bool" where
  "fillRangeOk op' = (idOk (fillSheetId op') \<and> cellRangeOk (fillSource op')
     \<and> optOk idOk (fillSourceSheetId op') \<and> cellRangeOk (fillTarget op'))"

definition copyRangeOk :: "CopyRangeOperation \<Rightarrow> bool" where
  "copyRangeOk op' = (idOk (copySheetId op') \<and> cellRangeOk (copySource op')
     \<and> optOk idOk (copySourceSheetId op') \<and> cellRangeOk (copyTarget op')
     \<and> optOk columnLabelOk (filterColumn op')
     \<and> optOk (\<lambda>vs. lengthIn 1 100 vs \<and> list_all (\<lambda>v. trim v = v \<and> lengthIn 1 32767 v) vs) (filterValues op'))"

definition convertToValuesOk :: "string \<Rightarrow> string \<Rightarrow> bool" where
  "convertToValuesOk sheetId rng = (idOk sheetId \<and> cellRangeOk rng)"

section \<open>Structural operations\<close>

datatype StructuralOperation =
  InsertRows string int int  \<comment> \<open>sheetId, row, count\<close>
| DeleteRows string int int
| InsertCols string string int  \<comment> \<open>sheetId, column, count\<close>
| DeleteCols string string int
| AddSheet string "int option" "int option"  \<comment> \<open>name, rows?, columns?\<close>
| DeleteSheet string
| DuplicateSheet string "string option"  \<comment> \<open>sheetId, name?\<close>
| SetSheetHidden string bool
| MoveSheet string int  \<comment> \<open>sheetId, position\<close>

definition insertRowsOk :: "string \<Rightarrow> int \<Rightarrow> int \<Rightarrow> bool" where
  "insertRowsOk sheetId row count' = (idOk sheetId \<and> intIn 1 9999999 row \<and> intIn 1 500 count')"

definition deleteRowsOk :: "string \<Rightarrow> int \<Rightarrow> int \<Rightarrow> bool" where
  "deleteRowsOk sheetId row count' = (idOk sheetId \<and> intIn 1 9999999 row \<and> intIn 1 500 count')"

definition insertColsOk :: "string \<Rightarrow> string \<Rightarrow> int \<Rightarrow> bool" where
  "insertColsOk sheetId column count' = (idOk sheetId \<and> columnLabelOk column \<and> intIn 1 100 count')"

definition deleteColsOk :: "string \<Rightarrow> string \<Rightarrow> int \<Rightarrow> bool" where
  "deleteColsOk sheetId column count' = (idOk sheetId \<and> columnLabelOk column \<and> intIn 1 100 count')"

definition addSheetOk :: "string \<Rightarrow> int option \<Rightarrow> int option \<Rightarrow> bool" where
  "addSheetOk name rows columns = (sheetNameOk name \<and> optOk (intIn 1 1048576) rows \<and> optOk (intIn 1 16384) columns)"

definition duplicateSheetOk :: "string \<Rightarrow> string option \<Rightarrow> bool" where
  "duplicateSheetOk sheetId name = (idOk sheetId \<and> optOk sheetNameOk name)"

definition moveSheetOk :: "string \<Rightarrow> int \<Rightarrow> bool" where
  "moveSheetOk sheetId position = (idOk sheetId \<and> intIn 1 1000 position)"

fun structuralOk :: "StructuralOperation \<Rightarrow> bool" where
  "structuralOk (InsertRows s r n) = insertRowsOk s r n"
| "structuralOk (DeleteRows s r n) = deleteRowsOk s r n"
| "structuralOk (InsertCols s c n) = insertColsOk s c n"
| "structuralOk (DeleteCols s c n) = deleteColsOk s c n"
| "structuralOk (AddSheet name rows columns) = addSheetOk name rows columns"
| "structuralOk (DeleteSheet s) = idOk s"
| "structuralOk (DuplicateSheet s name) = duplicateSheetOk s name"
| "structuralOk (SetSheetHidden s h) = idOk s"
| "structuralOk (MoveSheet s p) = moveSheetOk s p"

section \<open>Charts, shapes and images\<close>

record SeriesDataEntry =
  seriesIndex :: int
  seriesName :: "string option"
  valuesRange :: "string option"
  categoriesRange :: "string option"
  seriesSheetId :: "string option"

record AxisTitles =
  axisCategory :: "string patch"
  axisValue :: "string patch"

record EditChartOperation =
  chartPath :: string
  chartTitle :: "string option"
  editChartType :: "string option"
  seriesColors :: "string obj option"
  legend :: "string option"
  dataLabels :: "string option"
  grouping :: "string option"
  axisTitles :: "AxisTitles option"
  seriesData :: "SeriesDataEntry list option"

definition fileNameChar :: "char \<Rightarrow> bool" where
  "fileNameChar c = (isAlnum c \<or> c \<in> set ''._-'')"

text \<open>\<open>xl/charts/[A-Za-z0-9._-]+.xml\<close> or \<open>(added|demo)-chart-[A-Za-z0-9._-]+\<close>\<close>

definition chartPathOk :: "string \<Rightarrow> bool" where
  "chartPathOk s =
     ((let p = ''xl/charts/''; x = ''.xml''; body = drop (length p) s in
        startsWith s p \<and> length x < length body
        \<and> drop (length body - length x) body = x
        \<and> list_all fileNameChar (take (length body - length x) body))
      \<or> list_ex (\<lambda>p. startsWith s p \<and> length p < length s \<and> list_all fileNameChar (drop (length p) s))
          [''added-chart-'', ''demo-chart-''])"

definition seriesEntryOk :: "SeriesDataEntry \<Rightarrow> bool" where
  "seriesEntryOk e = (intIn 0 255 (seriesIndex e) \<and> optOk (lengthIn 0 255) (seriesName e)
     \<and> optOk cellRangeOk (valuesRange e) \<and> optOk cellRangeOk (categoriesRange e)
     \<and> optOk idOk (seriesSheetId e))"

definition editChartOk :: "EditChartOperation \<Rightarrow> bool" where
  "editChartOk e = (chartPathOk (chartPath e) \<and> optOk (lengthIn 0 255) (chartTitle e)
     \<and> optOk (\<lambda>t. t \<in> set [''column'', ''bar'', ''line'', ''area'', ''pie'', ''doughnut'']) (editChartType e)
     \<and> optOk (\<lambda>cs. wfObj cs \<and> list_all (\<lambda>(k, c). lengthIn 1 3 k \<and> list_all isDigit k \<and> hexColorOk c) cs) (seriesColors e)
     \<and> optOk (\<lambda>t. t \<in> set [''none'', ''right'', ''bottom'', ''top'', ''left'']) (legend e)
     \<and> optOk (\<lambda>t. t \<in> set [''none'', ''value'', ''percent'', ''category-percent'']) (dataLabels e)
     \<and> optOk (\<lambda>t. t \<in> set [''clustered'', ''stacked'', ''percentStacked'']) (grouping e)
     \<and> optOk (\<lambda>a. patchOk (lengthIn 0 255) (axisCategory a) \<and> patchOk (lengthIn 0 255) (axisValue a)) (axisTitles e)
     \<and> optOk (\<lambda>es. lengthIn 1 24 es \<and> list_all seriesEntryOk es) (seriesData e))"

definition addChartOk :: "string \<Rightarrow> string \<Rightarrow> string \<Rightarrow> string option \<Rightarrow> string option \<Rightarrow> bool" where
  "addChartOk sheetId type dataRange title anchor =
     (idOk sheetId
      \<and> type \<in> set [''column'', ''bar'', ''line'', ''area'', ''pie'', ''doughnut'', ''scatter'', ''radar'', ''combo'']
      \<and> cellRangeOk dataRange \<and> optOk (lengthIn 0 255) title \<and> optOk cellAddressOk anchor)"

definition ADDABLE_SHAPE_TYPES :: "string list" where
  "ADDABLE_SHAPE_TYPES =
    [''rect'', ''roundRect'', ''snip1Rect'', ''snip2SameRect'', ''snip2DiagRect'',
     ''snipRoundRect'', ''round1Rect'', ''round2SameRect'', ''round2DiagRect'', ''ellipse'',
     ''triangle'', ''rtTriangle'', ''parallelogram'', ''trapezoid'', ''diamond'', ''pentagon'',
     ''hexagon'', ''octagon'', ''plus'', ''mathPlus'', ''pie'', ''chord'', ''teardrop'',
     ''frame'', ''halfFrame'', ''corner'', ''diagStripe'', ''donut'', ''noSmoking'',
     ''blockArc'', ''foldedCorner'', ''bevel'', ''cube'', ''can'', ''lightningBolt'', ''heart'',
     ''sun'', ''moon'', ''cloud'', ''arc'', ''plaque'', ''smileyFace'', ''leftBracket'',
     ''rightBracket'', ''leftBrace'', ''rightBrace'', ''rightArrow'', ''leftArrow'', ''upArrow'',
     ''downArrow'', ''leftRightArrow'', ''upDownArrow'', ''quadArrow'', ''bentArrow'',
     ''uturnArrow'', ''curvedRightArrow'', ''stripedRightArrow'', ''notchedRightArrow'',
     ''chevron'', ''homePlate'', ''star4'', ''star5'', ''star6'', ''star7'', ''star8'',
     ''star10'', ''star12'', ''star16'', ''star24'', ''star32'', ''irregularSeal1'',
     ''irregularSeal2'', ''ribbon'', ''ribbon2'', ''wave'', ''doubleWave'', ''flowChartProcess'',
     ''flowChartAlternateProcess'', ''flowChartDecision'', ''flowChartPredefinedProcess'',
     ''flowChartInternalStorage'', ''flowChartDocument'', ''flowChartMultidocument'',
     ''flowChartTerminator'', ''flowChartPreparation'', ''flowChartManualInput'',
     ''flowChartManualOperation'', ''flowChartConnector'', ''flowChartOffpageConnector'',
     ''flowChartMagneticDisk'', ''flowChartMagneticDrum'', ''flowChartDisplay'',
     ''flowChartDelay'', ''flowChartOr'', ''flowChartCollate'', ''flowChartSort'',
     ''flowChartExtract'', ''flowChartMerge'', ''flowChartSummingJunction'',
     ''flowChartPunchedTape'', ''wedgeRectCallout'', ''wedgeRoundRectCallout'',
     ''wedgeEllipseCallout'', ''cloudCallout'']"

definition addShapeOk :: "string \<Rightarrow> string \<Rightarrow> string \<Rightarrow> string option \<Rightarrow> string option \<Rightarrow> bool" where
  "addShapeOk sheetId type anchor fillColor txt =
     (idOk sheetId \<and> type \<in> set (ADDABLE_SHAPE_TYPES @ [''textbox'']) \<and> cellAddressOk anchor
      \<and> optOk hexColorOk fillColor \<and> optOk (lengthIn 0 1000) txt)"

definition editShapeOk :: "string \<Rightarrow> string option \<Rightarrow> string option \<Rightarrow> string option \<Rightarrow> bool" where
  "editShapeOk visualId txt fillColor anchor =
     (lengthIn 1 128 visualId \<and> optOk (lengthIn 0 1000) txt \<and> optOk hexColorOk fillColor
      \<and> optOk cellAddressOk anchor)"

definition addImageOk :: "string \<Rightarrow> string \<Rightarrow> string \<Rightarrow> bool" where
  "addImageOk sheetId path anchor = (idOk sheetId \<and> lengthIn 1 2048 path \<and> cellAddressOk anchor)"

section \<open>Tables and pivots\<close>

definition tableStyleOk :: "string \<Rightarrow> bool" where
  "tableStyleOk s = list_ex (\<lambda>p. startsWith s p
       \<and> (let d = drop (length p) s in lengthIn 1 2 d \<and> hd d \<noteq> CHR ''0'' \<and> list_all isDigit d))
     [''TableStyleLight'', ''TableStyleMedium'', ''TableStyleDark'']"

definition addTableOk :: "string \<Rightarrow> string \<Rightarrow> string option \<Rightarrow> string option \<Rightarrow> bool option \<Rightarrow> bool" where
  "addTableOk sheetId rng name style banded =
     (idOk sheetId \<and> cellRangeOk rng \<and> optOk (definedNameOk (\<lambda>_. False)) name \<and> optOk tableStyleOk style)"

definition addTableRowOk :: "string \<Rightarrow> string \<Rightarrow> int option \<Rightarrow> int \<Rightarrow> bool" where
  "addTableRowOk sheetId tableName row count' =
     (idOk sheetId \<and> idOk tableName \<and> optOk (\<lambda>r. 1 \<le> r) row \<and> intIn 1 1000 count')"

definition addTableColumnOk :: "string \<Rightarrow> string \<Rightarrow> int option \<Rightarrow> string \<Rightarrow> int \<Rightarrow> bool" where
  "addTableColumnOk sheetId tableName column columnName count' =
     (idOk sheetId \<and> idOk tableName \<and> optOk (\<lambda>c. 1 \<le> c) column \<and> lengthIn 1 255 columnName \<and> intIn 1 100 count')"

definition deleteTableRowOk :: "string \<Rightarrow> string \<Rightarrow> int \<Rightarrow> int \<Rightarrow> bool" where
  "deleteTableRowOk sheetId tableName row count' = (idOk sheetId \<and> idOk tableName \<and> 1 \<le> row \<and> intIn 1 1000 count')"

definition deleteTableColumnOk :: "string \<Rightarrow> string \<Rightarrow> int \<Rightarrow> int \<Rightarrow> bool" where
  "deleteTableColumnOk sheetId tableName column count' = (idOk sheetId \<and> idOk tableName \<and> 1 \<le> column \<and> intIn 1 100 count')"

datatype OneOrMany = OneField string | ManyFields "string list"

record PivotValue =
  valueField :: string
  agg :: string
  numFmt :: "string option"
  showDataAs :: "string option"
  valueFormula :: "string option"

datatype PivotGrouping =
  DateGrouping string string  \<comment> \<open>field, dateUnit\<close>
| RangeGrouping string real "real option"  \<comment> \<open>field, rangeStep, rangeStart?\<close>

datatype PivotFilter =
  LabelFilter string string string  \<comment> \<open>field, op, value\<close>
| ValueFilter string int string "int option" "real option" "real option"  \<comment> \<open>field, valueIndex, op, count?, from?, to?\<close>

record AddPivotOperation =
  pivotSheetId :: string
  sourceRange :: string
  targetCell :: string
  targetSheetId :: "string option"
  rowFields :: OneOrMany
  columnField :: "OneOrMany option"
  pageFields :: "string list option"
  pivotValues :: "PivotValue list"
  groupings :: "PivotGrouping list option"
  filters :: "PivotFilter list option"
  pivotName :: "string option"

fun oneOrManyOk :: "OneOrMany \<Rightarrow> bool" where
  "oneOrManyOk (OneField s) = lengthIn 1 255 s"
| "oneOrManyOk (ManyFields ss) = (lengthIn 1 8 ss \<and> list_all (lengthIn 1 255) ss)"

definition pivotValueOk :: "PivotValue \<Rightarrow> bool" where
  "pivotValueOk v = (lengthIn 1 255 (valueField v)
     \<and> agg v \<in> set [''sum'', ''count'', ''average'', ''max'', ''min'']
     \<and> optOk (lengthIn 1 255) (numFmt v)
     \<and> optOk (\<lambda>m. m \<in> set [''percentOfTotal'', ''percentOfRow'', ''percentOfCol'']) (showDataAs v)
     \<and> optOk (lengthIn 1 1024) (valueFormula v))"

fun pivotGroupingOk :: "PivotGrouping \<Rightarrow> bool" where
  "pivotGroupingOk (DateGrouping f u) = (lengthIn 1 255 f \<and> u \<in> set [''year'', ''quarter'', ''month''])"
| "pivotGroupingOk (RangeGrouping f step start) = (lengthIn 1 255 f \<and> 0 < step)"

fun pivotFilterOk :: "PivotFilter \<Rightarrow> bool" where
  "pivotFilterOk (LabelFilter f o' v) =
     (lengthIn 1 255 f \<and> o' \<in> set [''equal'', ''contains'', ''beginsWith''] \<and> lengthIn 0 255 v)"
| "pivotFilterOk (ValueFilter f ix o' n fr to') =
     (lengthIn 1 255 f \<and> intIn 0 7 ix \<and> o' \<in> set [''top'', ''greaterThan'', ''between'']
      \<and> optOk (intIn 1 10000) n)"

definition addPivotOk :: "AddPivotOperation \<Rightarrow> bool" where
  "addPivotOk p = (idOk (pivotSheetId p) \<and> cellRangeOk (sourceRange p) \<and> cellAddressOk (targetCell p)
     \<and> optOk idOk (targetSheetId p) \<and> oneOrManyOk (rowFields p) \<and> optOk oneOrManyOk (columnField p)
     \<and> optOk (\<lambda>fs. lengthIn 0 4 fs \<and> list_all (lengthIn 1 255) fs) (pageFields p)
     \<and> lengthIn 1 8 (pivotValues p) \<and> list_all pivotValueOk (pivotValues p)
     \<and> optOk (\<lambda>gs. lengthIn 0 8 gs \<and> list_all pivotGroupingOk gs) (groupings p)
     \<and> optOk (\<lambda>fs. lengthIn 0 8 fs \<and> list_all pivotFilterOk fs) (filters p)
     \<and> optOk (definedNameOk (\<lambda>c. c = CHR '' '')) (pivotName p))"

section \<open>Conditional formats and data validation\<close>

record CfFormat =
  cfFill :: "string option"
  cfFont :: "string option"
  cfBold :: "bool option"
  cfItalic :: "bool option"

datatype CfRule =
  CfNumber string real "real option" CfFormat  \<comment> \<open>operator, value, value2?\<close>
| CfText string string CfFormat  \<comment> \<open>operator, text\<close>
| CfBlank bool CfFormat
| CfDuplicate "bool option" CfFormat  \<comment> \<open>unique?\<close>
| CfTop10 int "bool option" "bool option" CfFormat  \<comment> \<open>rank, percent?, bottom?\<close>
| CfFormula string CfFormat
| CfColorScale string "string option" string  \<comment> \<open>minColor, midColor?, maxColor\<close>
| CfDataBar "string option"

datatype DvRule =
  DvList "string list"
| DvListRef string
| DvNumberBetween real real
| DvDateBetween string string
| DvCheckbox
| DvFormula string

definition cfFormatOk :: "CfFormat \<Rightarrow> bool" where
  "cfFormatOk f = (optOk hexColorOk (cfFill f) \<and> optOk hexColorOk (cfFont f)
     \<and> (cfFill f \<noteq> None \<or> cfFont f \<noteq> None \<or> cfBold f \<noteq> None \<or> cfItalic f \<noteq> None))"

fun cfRuleOk :: "CfRule \<Rightarrow> bool" where
  "cfRuleOk (CfNumber o' v v2 f) =
     (o' \<in> set [''greaterThan'', ''greaterThanOrEqual'', ''lessThan'', ''lessThanOrEqual'', ''equal'',
                ''notEqual'', ''between'', ''notBetween''] \<and> cfFormatOk f)"
| "cfRuleOk (CfText o' t f) =
     (o' \<in> set [''contains'', ''notContains'', ''beginsWith'', ''endsWith''] \<and> lengthIn 1 255 t \<and> cfFormatOk f)"
| "cfRuleOk (CfBlank b f) = cfFormatOk f"
| "cfRuleOk (CfDuplicate u f) = cfFormatOk f"
| "cfRuleOk (CfTop10 rank percent bottom f) = (intIn 1 1000 rank \<and> cfFormatOk f)"
| "cfRuleOk (CfFormula t f) = (formulaTextOk t \<and> cfFormatOk f)"
| "cfRuleOk (CfColorScale lo mid hi) = (hexColorOk lo \<and> optOk hexColorOk mid \<and> hexColorOk hi)"
| "cfRuleOk (CfDataBar c) = optOk hexColorOk c"

text \<open>\<open>\d{4}-\d{2}-\d{2}\<close>\<close>

definition isoDateOk :: "string \<Rightarrow> bool" where
  "isoDateOk s = (length s = 10
     \<and> list_all (\<lambda>(k, c). if k \<in> {4, 7} then c = CHR ''-'' else isDigit c) (enumerate 0 s))"

fun dvRuleOk :: "DvRule \<Rightarrow> bool" where
  "dvRuleOk (DvList vs) = (lengthIn 1 100 vs \<and> list_all (lengthIn 1 255) vs)"
| "dvRuleOk (DvListRef r) = cellRangeOk r"
| "dvRuleOk (DvNumberBetween lo hi) = True"
| "dvRuleOk (DvDateBetween a b) = (isoDateOk a \<and> isoDateOk b)"
| "dvRuleOk DvCheckbox = True"
| "dvRuleOk (DvFormula t) = formulaTextOk t"

section \<open>Page setup\<close>

record PageSetupOperation =
  pageSheetId :: string
  orientation :: "string option"
  paperSize :: "int option"
  pageScale :: "int option"
  fitToWidth :: "int option"
  fitToHeight :: "int option"
  margins :: "string option"
  printGridlines :: "bool option"
  printHeadings :: "bool option"
  printArea :: "string patch"

definition pageSetupOk :: "PageSetupOperation \<Rightarrow> bool" where
  "pageSetupOk p = (idOk (pageSheetId p)
     \<and> optOk (\<lambda>x. x \<in> set [''portrait'', ''landscape'']) (orientation p)
     \<and> optOk (intIn 1 118) (paperSize p) \<and> optOk (intIn 10 400) (pageScale p)
     \<and> optOk (intIn 0 1000) (fitToWidth p) \<and> optOk (intIn 0 1000) (fitToHeight p)
     \<and> optOk (\<lambda>x. x \<in> set [''normal'', ''wide'', ''narrow'']) (margins p)
     \<and> patchOk cellRangeOk (printArea p))"

section \<open>Formats\<close>

text \<open>
  The values a format property can take; a format patch maps a property name to a value or to
  \<open>null\<close> (\<open>None\<close>), in the order of the schema; a property that is not set is absent.
\<close>

datatype FormatValue =
  FBool bool
| FNum real
| FText string
| FBorder string "string option"  \<comment> \<open>type, color?\<close>

type_synonym CellFormatPatch = "FormatValue option obj"
type_synonym CellFormatState = "FormatValue obj"

definition borderPatchOk :: "string \<Rightarrow> string option \<Rightarrow> bool" where
  "borderPatchOk type color =
     (type \<in> set [''all'', ''top'', ''bottom'', ''left'', ''right'', ''none''] \<and> optOk hexColorOk color)"

definition FORMAT_KEYS :: "string list" where
  "FORMAT_KEYS = [''bold'', ''italic'', ''underline'', ''strikethrough'', ''fontFamily'', ''fontSize'',
     ''fontColor'', ''fillColor'', ''numberFormat'', ''horizontalAlign'', ''verticalAlign'', ''wrapText'',
     ''textRotation'', ''indent'', ''border'']"

fun formatValueOk :: "string \<Rightarrow> FormatValue \<Rightarrow> bool" where
  "formatValueOk k (FBool b) = (k \<in> set [''bold'', ''italic'', ''underline'', ''strikethrough'', ''wrapText''])"
| "formatValueOk k (FNum x) =
     (k = ''fontSize'' \<and> realIn 1 409 x
      \<or> k = ''textRotation'' \<and> x = of_int \<lfloor>x\<rfloor> \<and> realIn (- 90) 90 x
      \<or> k = ''indent'' \<and> x = of_int \<lfloor>x\<rfloor> \<and> realIn 0 250 x)"
| "formatValueOk k (FText t) =
     (k = ''fontFamily'' \<and> lengthIn 1 128 t
      \<or> k \<in> set [''fontColor'', ''fillColor''] \<and> hexColorOk t
      \<or> k = ''numberFormat'' \<and> lengthIn 1 255 t
      \<or> k = ''horizontalAlign'' \<and> t \<in> set [''left'', ''center'', ''right'']
      \<or> k = ''verticalAlign'' \<and> t \<in> set [''top'', ''center'', ''bottom'']
      \<or> k = ''textRotation'' \<and> t = ''vertical'')"
| "formatValueOk k (FBorder type color) = (k = ''border'' \<and> borderPatchOk type color)"

definition formatPatchOk :: "CellFormatPatch \<Rightarrow> bool" where
  "formatPatchOk p = (p \<noteq> [] \<and> map fst p = filter (\<lambda>k. k \<in> set (map fst p)) FORMAT_KEYS
     \<and> list_all (\<lambda>(k, v). case v of None \<Rightarrow> k \<noteq> ''border'' | Some x \<Rightarrow> formatValueOk k x) p)"

record FindReplaceOperation =
  findSheetId :: string
  findRange :: string
  findText :: string
  replaceText :: string
  matchCase :: "bool option"
  wholeCell :: "bool option"

record SortRangeOperation =
  sortSheetId :: string
  sortRange :: string
  byColumn :: string
  sortOrder :: string
  hasHeader :: "bool option"

definition findReplaceOk :: "FindReplaceOperation \<Rightarrow> bool" where
  "findReplaceOk f = (idOk (findSheetId f) \<and> cellRangeOk (findRange f) \<and> lengthIn 1 32767 (findText f)
     \<and> lengthIn 0 255 (replaceText f))"

definition sortRangeOk :: "SortRangeOperation \<Rightarrow> bool" where
  "sortRangeOk s = (idOk (sortSheetId s) \<and> cellRangeOk (sortRange s) \<and> columnLabelOk (byColumn s)
     \<and> sortOrder s \<in> set [''asc'', ''desc''])"

definition formatRangeOk :: "string \<Rightarrow> string \<Rightarrow> CellFormatPatch \<Rightarrow> bool" where
  "formatRangeOk sheetId rng f = (idOk sheetId \<and> cellRangeOk rng \<and> formatPatchOk f)"

section \<open>Layout operations\<close>

datatype LayoutOperation =
  MergeCells string string  \<comment> \<open>sheetId, range\<close>
| UnmergeCells string string
| SetRowHeight string int int real  \<comment> \<open>sheetId, row, count, heightPoints\<close>
| SetColWidth string string int real  \<comment> \<open>sheetId, column, count, widthPx\<close>
| EditChart EditChartOperation
| AddChart string string string "string option" "string option"  \<comment> \<open>sheetId, chartType, dataRange, title?, anchorCell?\<close>
| AddShape string string string "string option" "string option"  \<comment> \<open>sheetId, shapeType, anchorCell, fillColor?, text?\<close>
| EditShape string "string option" "string option" "string option"  \<comment> \<open>visualId, text?, fillColor?, anchorCell?\<close>
| AddImage string string string  \<comment> \<open>sheetId, path, anchorCell\<close>
| AddTable string string "string option" "string option" "bool option"  \<comment> \<open>sheetId, range, name?, style?, bandedRows?\<close>
| AddTableRow string string "int option" int  \<comment> \<open>sheetId, tableName, row?, count\<close>
| AddTableColumn string string "int option" string int  \<comment> \<open>sheetId, tableName, column?, columnName, count\<close>
| DeleteTableRow string string int int  \<comment> \<open>sheetId, tableName, row, count\<close>
| DeleteTableColumn string string int int
| AddPivot AddPivotOperation
| SetRowsHidden string int int bool  \<comment> \<open>sheetId, row, count, hidden\<close>
| SetColsHidden string string int bool
| SetHyperlink string string "string option"  \<comment> \<open>sheetId, address, target or null\<close>
| ProtectSheet string bool
| SetFilter string string
| ClearFilter string
| SetFilterCriteria string string "string list option"  \<comment> \<open>sheetId, column, values or null\<close>
| AddConditionalFormat string string CfRule
| ClearConditionalFormats string
| SetDataValidation string string "DvRule option"
| AddDefinedName string string
| DeleteDefinedName string
| SetPageSetup PageSetupOperation
| SetFreeze string int int
| SetNote string string "string option"
| RefreshPivot string
| DeleteVisual string
| DeleteTable string string
| AddSparkline string string string "string option" "string option"  \<comment> \<open>sheetId, type, dataRange, targetCell?, color?\<close>

definition rowHeightOk :: "string \<Rightarrow> int \<Rightarrow> int \<Rightarrow> real \<Rightarrow> bool" where
  "rowHeightOk sheetId row count' h = (idOk sheetId \<and> intIn 1 9999999 row \<and> intIn 1 500 count' \<and> realIn 2 409 h)"

definition colWidthOk :: "string \<Rightarrow> string \<Rightarrow> int \<Rightarrow> real \<Rightarrow> bool" where
  "colWidthOk sheetId column count' w = (idOk sheetId \<and> columnLabelOk column \<and> intIn 1 100 count' \<and> realIn 10 2000 w)"

definition rowsHiddenOk :: "string \<Rightarrow> int \<Rightarrow> int \<Rightarrow> bool" where
  "rowsHiddenOk sheetId row count' = (idOk sheetId \<and> intIn 1 9999999 row \<and> intIn 1 10000 count')"

definition colsHiddenOk :: "string \<Rightarrow> string \<Rightarrow> int \<Rightarrow> bool" where
  "colsHiddenOk sheetId column count' = (idOk sheetId \<and> columnLabelOk column \<and> intIn 1 1000 count')"

definition hyperlinkOk :: "string \<Rightarrow> string \<Rightarrow> string option \<Rightarrow> bool" where
  "hyperlinkOk sheetId address target = (idOk sheetId \<and> cellAddressOk address \<and> optOk (lengthIn 1 2048) target)"

definition filterCriteriaOk :: "string \<Rightarrow> string \<Rightarrow> string list option \<Rightarrow> bool" where
  "filterCriteriaOk sheetId column vs =
     (idOk sheetId \<and> columnLabelOk column \<and> optOk (\<lambda>xs. lengthIn 1 1000 xs \<and> list_all (lengthIn 0 32767) xs) vs)"

definition noteOk :: "string \<Rightarrow> string \<Rightarrow> string option \<Rightarrow> bool" where
  "noteOk sheetId address txt = (idOk sheetId \<and> cellAddressOk address \<and> optOk (lengthIn 1 32000) txt)"

definition freezeOk :: "string \<Rightarrow> int \<Rightarrow> int \<Rightarrow> bool" where
  "freezeOk sheetId rows columns = (idOk sheetId \<and> intIn 0 100 rows \<and> intIn 0 100 columns)"

definition addDefinedNameOk :: "string \<Rightarrow> string \<Rightarrow> bool" where
  "addDefinedNameOk name ref = (definedNameOk (\<lambda>_. False) name \<and> lengthIn 1 8192 ref)"

definition sparklineOk :: "string \<Rightarrow> string \<Rightarrow> string \<Rightarrow> string option \<Rightarrow> string option \<Rightarrow> bool" where
  "sparklineOk sheetId type dataRange target color =
     (idOk sheetId \<and> type \<in> set [''line'', ''column'', ''stacked''] \<and> cellRangeOk dataRange
      \<and> optOk cellAddressOk target \<and> optOk hexColorOk color)"

end
