(* ===== verification/WorkbookOps.thy ===== *)
theory WorkbookOps
  imports WorkbookTypes
begin

text \<open>
  The unions of operations, their names and the name sets that classify them
  (\<open>STRUCTURAL_OPS\<close>, \<open>LAYOUT_OPS\<close>, \<open>CELL_CONTENT_OPS\<close>), and the schema of a command batch.
  \<open>zod\<close>'s parser itself is a parameter of the adapter; \<open>batchOk\<close> is what it promises.
\<close>

datatype PrimitiveOperation =
  Content CellContentOperation
| FormatRange string string CellFormatPatch  \<comment> \<open>sheetId, range, format\<close>
| FillRange FillRangeOperation
| CopyRange CopyRangeOperation
| ConvertToValues string string
| ClearRange string string
| FindReplace FindReplaceOperation
| SortRange SortRangeOperation
| Layout LayoutOperation
| Structural StructuralOperation
| RenameSheet string string  \<comment> \<open>sheetId, name\<close>

datatype WorkbookOperation = Primitive PrimitiveOperation | SetRange SetRangeOperation

record WorkbookCommandBatch =
  dslVersion :: int
  transactionId :: string
  baseRevision :: int
  summary :: string
  operations :: "WorkbookOperation list"

section \<open>Names\<close>

fun contentName :: "CellContentOperation \<Rightarrow> string" where
  "contentName (SetCell _ _ _ _) = ''set_cell''"
| "contentName (SetFormula _ _ _ _) = ''set_formula''"
| "contentName (ClearCell _ _) = ''clear_cell''"

fun structuralName :: "StructuralOperation \<Rightarrow> string" where
  "structuralName (InsertRows _ _ _) = ''insert_rows''"
| "structuralName (DeleteRows _ _ _) = ''delete_rows''"
| "structuralName (InsertCols _ _ _) = ''insert_cols''"
| "structuralName (DeleteCols _ _ _) = ''delete_cols''"
| "structuralName (AddSheet _ _ _) = ''add_sheet''"
| "structuralName (DeleteSheet _) = ''delete_sheet''"
| "structuralName (DuplicateSheet _ _) = ''duplicate_sheet''"
| "structuralName (SetSheetHidden _ _) = ''set_sheet_hidden''"
| "structuralName (MoveSheet _ _) = ''move_sheet''"

fun layoutName :: "LayoutOperation \<Rightarrow> string" where
  "layoutName (MergeCells _ _) = ''merge_cells''"
| "layoutName (UnmergeCells _ _) = ''unmerge_cells''"
| "layoutName (SetRowHeight _ _ _ _) = ''set_row_height''"
| "layoutName (SetColWidth _ _ _ _) = ''set_col_width''"
| "layoutName (EditChart _) = ''edit_chart''"
| "layoutName (AddChart _ _ _ _ _) = ''add_chart''"
| "layoutName (AddShape _ _ _ _ _) = ''add_shape''"
| "layoutName (EditShape _ _ _ _) = ''edit_shape''"
| "layoutName (AddImage _ _ _) = ''add_image''"
| "layoutName (AddTable _ _ _ _ _) = ''add_table''"
| "layoutName (AddTableRow _ _ _ _) = ''add_table_row''"
| "layoutName (AddTableColumn _ _ _ _ _) = ''add_table_column''"
| "layoutName (DeleteTableRow _ _ _ _) = ''delete_table_row''"
| "layoutName (DeleteTableColumn _ _ _ _) = ''delete_table_column''"
| "layoutName (AddPivot _) = ''add_pivot''"
| "layoutName (SetRowsHidden _ _ _ _) = ''set_rows_hidden''"
| "layoutName (SetColsHidden _ _ _ _) = ''set_cols_hidden''"
| "layoutName (SetHyperlink _ _ _) = ''set_hyperlink''"
| "layoutName (ProtectSheet _ _) = ''protect_sheet''"
| "layoutName (SetFilter _ _) = ''set_filter''"
| "layoutName (ClearFilter _) = ''clear_filter''"
| "layoutName (SetFilterCriteria _ _ _) = ''set_filter_criteria''"
| "layoutName (AddConditionalFormat _ _ _) = ''add_conditional_format''"
| "layoutName (ClearConditionalFormats _) = ''clear_conditional_formats''"
| "layoutName (SetDataValidation _ _ _) = ''set_data_validation''"
| "layoutName (AddDefinedName _ _) = ''add_defined_name''"
| "layoutName (DeleteDefinedName _) = ''delete_defined_name''"
| "layoutName (SetPageSetup _) = ''set_page_setup''"
| "layoutName (SetFreeze _ _ _) = ''set_freeze''"
| "layoutName (SetNote _ _ _) = ''set_note''"
| "layoutName (RefreshPivot _) = ''refresh_pivot''"
| "layoutName (DeleteVisual _) = ''delete_visual''"
| "layoutName (DeleteTable _ _) = ''delete_table''"
| "layoutName (AddSparkline _ _ _ _ _) = ''add_sparkline''"

fun primitiveName :: "PrimitiveOperation \<Rightarrow> string" where
  "primitiveName (Content c) = contentName c"
| "primitiveName (FormatRange _ _ _) = ''format_range''"
| "primitiveName (FillRange _) = ''fill_range''"
| "primitiveName (CopyRange _) = ''copy_range''"
| "primitiveName (ConvertToValues _ _) = ''convert_to_values''"
| "primitiveName (ClearRange _ _) = ''clear_range''"
| "primitiveName (FindReplace _) = ''find_replace''"
| "primitiveName (SortRange _) = ''sort_range''"
| "primitiveName (Layout l) = layoutName l"
| "primitiveName (Structural s) = structuralName s"
| "primitiveName (RenameSheet _ _) = ''rename_sheet''"

fun opName :: "WorkbookOperation \<Rightarrow> string" where
  "opName (Primitive p) = primitiveName p"
| "opName (SetRange _) = ''set_range''"

section \<open>Classes of operations\<close>

definition STRUCTURAL_OPS :: "string list" where
  "STRUCTURAL_OPS = [''insert_rows'', ''delete_rows'', ''insert_cols'', ''delete_cols'', ''add_sheet'',
     ''delete_sheet'', ''duplicate_sheet'', ''set_sheet_hidden'', ''move_sheet'']"

definition LAYOUT_OPS :: "string list" where
  "LAYOUT_OPS = [''merge_cells'', ''unmerge_cells'', ''set_row_height'', ''set_col_width'', ''edit_chart'',
     ''add_chart'', ''add_shape'', ''edit_shape'', ''add_image'', ''add_table'', ''add_pivot'', ''add_table_row'',
     ''add_table_column'', ''delete_table_row'', ''delete_table_column'', ''set_rows_hidden'', ''set_cols_hidden'',
     ''set_hyperlink'', ''protect_sheet'', ''set_filter'', ''clear_filter'', ''set_filter_criteria'',
     ''add_conditional_format'', ''clear_conditional_formats'', ''set_data_validation'', ''add_defined_name'',
     ''delete_defined_name'', ''set_page_setup'', ''set_freeze'', ''set_note'', ''refresh_pivot'',
     ''delete_visual'', ''delete_table'', ''add_sparkline'']"

definition CELL_CONTENT_OPS :: "string list" where
  "CELL_CONTENT_OPS = [''set_cell'', ''set_formula'', ''clear_cell'', ''set_range'', ''clear_range'', ''fill_range'',
     ''copy_range'', ''convert_to_values'', ''format_range'', ''sort_range'', ''find_replace''] @ LAYOUT_OPS"

definition isStructuralOp :: "PrimitiveOperation \<Rightarrow> bool" where
  "isStructuralOp p = (primitiveName p \<in> set STRUCTURAL_OPS)"

definition isLayoutOp :: "PrimitiveOperation \<Rightarrow> bool" where
  "isLayoutOp p = (primitiveName p \<in> set LAYOUT_OPS)"

section \<open>The schema of a batch\<close>

fun layoutOk :: "LayoutOperation \<Rightarrow> bool" where
  "layoutOk (MergeCells s r) = (idOk s \<and> cellRangeOk r)"
| "layoutOk (UnmergeCells s r) = (idOk s \<and> cellRangeOk r)"
| "layoutOk (SetRowHeight s r n h) = rowHeightOk s r n h"
| "layoutOk (SetColWidth s c n w) = colWidthOk s c n w"
| "layoutOk (EditChart e) = editChartOk e"
| "layoutOk (AddChart s t r title a) = addChartOk s t r title a"
| "layoutOk (AddShape s t a f x) = addShapeOk s t a f x"
| "layoutOk (EditShape v x f a) = editShapeOk v x f a"
| "layoutOk (AddImage s p a) = addImageOk s p a"
| "layoutOk (AddTable s r n st b) = addTableOk s r n st b"
| "layoutOk (AddTableRow s t r n) = addTableRowOk s t r n"
| "layoutOk (AddTableColumn s t c cn n) = addTableColumnOk s t c cn n"
| "layoutOk (DeleteTableRow s t r n) = deleteTableRowOk s t r n"
| "layoutOk (DeleteTableColumn s t c n) = deleteTableColumnOk s t c n"
| "layoutOk (AddPivot p) = addPivotOk p"
| "layoutOk (SetRowsHidden s r n h) = rowsHiddenOk s r n"
| "layoutOk (SetColsHidden s c n h) = colsHiddenOk s c n"
| "layoutOk (SetHyperlink s a t) = hyperlinkOk s a t"
| "layoutOk (ProtectSheet s p) = idOk s"
| "layoutOk (SetFilter s r) = (idOk s \<and> cellRangeOk r)"
| "layoutOk (ClearFilter s) = idOk s"
| "layoutOk (SetFilterCriteria s c vs) = filterCriteriaOk s c vs"
| "layoutOk (AddConditionalFormat s r rule) = (idOk s \<and> cellRangeOk r \<and> cfRuleOk rule)"
| "layoutOk (ClearConditionalFormats s) = idOk s"
| "layoutOk (SetDataValidation s r v) = (idOk s \<and> cellRangeOk r \<and> optOk dvRuleOk v)"
| "layoutOk (AddDefinedName n r) = addDefinedNameOk n r"
| "layoutOk (DeleteDefinedName n) = lengthIn 1 255 n"
| "layoutOk (SetPageSetup p) = pageSetupOk p"
| "layoutOk (SetFreeze s r c) = freezeOk s r c"
| "layoutOk (SetNote s a t) = noteOk s a t"
| "layoutOk (RefreshPivot s) = idOk s"
| "layoutOk (DeleteVisual v) = lengthIn 1 300 v"
| "layoutOk (DeleteTable s t) = (idOk s \<and> lengthIn 1 255 t)"
| "layoutOk (AddSparkline s t r c col) = sparklineOk s t r c col"

fun contentOk :: "CellContentOperation \<Rightarrow> bool" where
  "contentOk (SetCell s a v e) = setCellOk s a v e"
| "contentOk (SetFormula s a f e) = setFormulaOk s a f e"
| "contentOk (ClearCell s a) = clearCellOk s a"

fun primitiveOk :: "PrimitiveOperation \<Rightarrow> bool" where
  "primitiveOk (Content c) = contentOk c"
| "primitiveOk (FormatRange s r f) = formatRangeOk s r f"
| "primitiveOk (FillRange f) = fillRangeOk f"
| "primitiveOk (CopyRange c) = copyRangeOk c"
| "primitiveOk (ConvertToValues s r) = convertToValuesOk s r"
| "primitiveOk (ClearRange s r) = clearRangeOk s r"
| "primitiveOk (FindReplace f) = findReplaceOk f"
| "primitiveOk (SortRange s) = sortRangeOk s"
| "primitiveOk (Layout l) = layoutOk l"
| "primitiveOk (Structural s) = structuralOk s"
| "primitiveOk (RenameSheet s n) = (idOk s \<and> sheetNameOk n)"

fun operationOk :: "WorkbookOperation \<Rightarrow> bool" where
  "operationOk (Primitive p) = primitiveOk p"
| "operationOk (SetRange r) = setRangeOk r"

definition batchOk :: "WorkbookCommandBatch \<Rightarrow> bool" where
  "batchOk b =
     (dslVersion b = 1 \<and> lengthIn 1 128 (transactionId b) \<and> 0 \<le> baseRevision b
      \<and> trim (summary b) = summary b \<and> lengthIn 1 500 (summary b)
      \<and> lengthIn 1 1000 (operations b) \<and> list_all operationOk (operations b)
      \<and> (let hasStructural = list_ex (\<lambda>x. opName x \<in> set STRUCTURAL_OPS) (operations b);
             hasCellContent = list_ex (\<lambda>x. opName x \<in> set CELL_CONTENT_OPS) (operations b)
         in \<not> (hasStructural \<and> hasCellContent)))"

section \<open>The name sets are the variants\<close>

lemma structuralName_in: "structuralName s \<in> set STRUCTURAL_OPS \<and> structuralName s \<notin> set CELL_CONTENT_OPS"
  by (cases s) (simp_all add: STRUCTURAL_OPS_def CELL_CONTENT_OPS_def LAYOUT_OPS_def)

lemma layoutName_in: "layoutName l \<in> set LAYOUT_OPS \<and> layoutName l \<notin> set STRUCTURAL_OPS"
  by (cases l) (simp_all add: STRUCTURAL_OPS_def LAYOUT_OPS_def)

lemma isStructuralOp_iff: "isStructuralOp p \<longleftrightarrow> (\<exists>s. p = Structural s)"
proof (cases p)
  case (Content c)
  then show ?thesis by (cases c) (simp_all add: isStructuralOp_def STRUCTURAL_OPS_def)
next
  case (Layout l)
  then show ?thesis using layoutName_in [of l] by (simp add: isStructuralOp_def)
next
  case (Structural s)
  then show ?thesis using structuralName_in [of s] by (simp add: isStructuralOp_def)
qed (simp_all add: isStructuralOp_def STRUCTURAL_OPS_def)

lemma isLayoutOp_iff: "isLayoutOp p \<longleftrightarrow> (\<exists>l. p = Layout l)"
proof (cases p)
  case (Content c)
  then show ?thesis by (cases c) (simp_all add: isLayoutOp_def LAYOUT_OPS_def)
next
  case (Layout l)
  then show ?thesis using layoutName_in [of l] by (simp add: isLayoutOp_def)
next
  case (Structural s)
  then show ?thesis
    using structuralName_in [of s] by (simp add: isLayoutOp_def CELL_CONTENT_OPS_def)
qed (simp_all add: isLayoutOp_def LAYOUT_OPS_def)

lemma content_op_iff:
  "opName x \<in> set CELL_CONTENT_OPS \<longleftrightarrow>
     (\<forall>s. x \<noteq> Primitive (Structural s)) \<and> (\<forall>s n. x \<noteq> Primitive (RenameSheet s n))"
proof (cases x)
  case (Primitive p)
  show ?thesis
  proof (cases p)
    case (Content c)
    with Primitive show ?thesis by (cases c) (simp_all add: CELL_CONTENT_OPS_def)
  next
    case (Layout l)
    with Primitive show ?thesis using layoutName_in [of l] by (simp add: CELL_CONTENT_OPS_def)
  next
    case (Structural s)
    with Primitive show ?thesis using structuralName_in [of s] by simp
  qed (use Primitive in \<open>simp_all add: CELL_CONTENT_OPS_def LAYOUT_OPS_def\<close>)
qed (simp add: CELL_CONTENT_OPS_def)

end
