(* ===== verification/SortRange.thy ===== *)
theory SortRange
  imports WorkbookTypes
begin

text \<open>
  The cell rewrites of a sort (\<open>sort-range.ts\<close>). \<open>localeCompare\<close> with the options
  \<open>numeric, base\<close> is left to the engine by the ECMAScript standard, so it is a parameter, as is
  \<open>String(number)\<close>, which only feeds it; what the proofs use of the collation is that it is a
  total preorder (\<open>weakOrder\<close>).
\<close>

section \<open>The comparison\<close>

text \<open>\<open>rank\<close> of the source; the code never asks it of \<open>null\<close>.\<close>

fun scalarRank :: "CellScalar \<Rightarrow> real" where
  "scalarRank (Num _) = 0"
| "scalarRank (Str _) = 1"
| "scalarRank (Boolean _) = 2"
| "scalarRank Null = 3"

fun scalarText :: "(real \<Rightarrow> string) \<Rightarrow> CellScalar \<Rightarrow> string" where
  "scalarText numStr (Num x) = numStr x"
| "scalarText numStr (Str s) = s"
| "scalarText numStr (Boolean b) = (if b then ''true'' else ''false'')"
| "scalarText numStr Null = ''null''"

definition compareScalars ::
  "(real \<Rightarrow> string) \<Rightarrow> (string \<Rightarrow> string \<Rightarrow> real) \<Rightarrow> CellScalar \<Rightarrow> CellScalar \<Rightarrow> real" where
  "compareScalars numStr localeCompare a b =
     (if a = Null \<and> b = Null then 0
      else if a = Null then 1
      else if b = Null then - 1
      else if scalarRank a \<noteq> scalarRank b then scalarRank a - scalarRank b
      else case (a, b) of
        (Num x, Num y) \<Rightarrow> x - y
      | (Boolean p, Boolean q) \<Rightarrow> of_bool p - of_bool q
      | _ \<Rightarrow> localeCompare (scalarText numStr a) (scalarText numStr b))"

text \<open>The comparator of the sort on \<open>{ key, index }\<close> entries.\<close>

definition entryOrder ::
  "(real \<Rightarrow> string) \<Rightarrow> (string \<Rightarrow> string \<Rightarrow> real) \<Rightarrow> bool \<Rightarrow> CellScalar \<times> nat \<Rightarrow> CellScalar \<times> nat \<Rightarrow> real" where
  "entryOrder numStr localeCompare ascending a b =
     (let cmp = compareScalars numStr localeCompare (fst a) (fst b);
          oriented = (if fst a = Null \<or> fst b = Null \<or> cmp = 0 then cmp
                      else if ascending then cmp else - cmp)
      in if oriented \<noteq> 0 then oriented else real (snd a) - real (snd b))"

definition computeSortedRowOrder ::
  "(real \<Rightarrow> string) \<Rightarrow> (string \<Rightarrow> string \<Rightarrow> real) \<Rightarrow> CellScalar list list \<Rightarrow> nat \<Rightarrow> bool \<Rightarrow> nat list" where
  "computeSortedRowOrder numStr localeCompare rows keyOffset ascending =
     map snd (sortBy (entryOrder numStr localeCompare ascending)
       (map (\<lambda>(index, row). (case nthOpt row keyOffset of Some v \<Rightarrow> v | None \<Rightarrow> Null, index))
            (enumerate 0 rows)))"

section \<open>The changes of a sort\<close>

record SortSpec =
  specRange :: string
  specByColumn :: string
  specAscending :: bool
  specHasHeader :: bool

record SortComputedChange =
  changeAddress :: string
  changeBefore :: CellScalar
  changeAfter :: CellScalar

text \<open>Reading one cell of the region: a formula is refused, otherwise the raw value when there is one.\<close>

definition readSortCell :: "(string \<Rightarrow> js_error + CellState) \<Rightarrow> int \<Rightarrow> int \<Rightarrow> js_error + CellScalar" where
  "readSortCell readCell row column =
     bindE (readCell (formatAddress row column)) (\<lambda>state.
       case formula state of
         Some (c # f) \<Rightarrow> Inl (Error (''The sort range contains a formula at '' @ formatAddress row column
           @ '' '' @ emDash @ '' sorting would silently re-target its references. Sort values only, or convert formulas to values first.''))
       | _ \<Rightarrow> Inr (case rawValue state of Some v \<Rightarrow> v | None \<Rightarrow> cellValue state))"

definition readSortRows ::
  "(string \<Rightarrow> js_error + CellState) \<Rightarrow> RangeBounds \<Rightarrow> int \<Rightarrow> js_error + CellScalar list list" where
  "readSortRows readCell bounds firstDataRow =
     mapE (\<lambda>row. mapE (\<lambda>column. readSortCell readCell row column) [startColumn bounds..endColumn bounds])
       [firstDataRow..endRow bounds]"

text \<open>The change of one target cell, if its value changes; \<open>before\<close> is the cell now there.\<close>

definition sortCellChange ::
  "RangeBounds \<Rightarrow> int \<Rightarrow> CellScalar list list \<Rightarrow> nat \<Rightarrow> nat \<Rightarrow> CellScalar \<Rightarrow> SortComputedChange list" where
  "sortCellChange bounds firstDataRow rows offset columnOffset value =
     (let current = (case nthOpt rows offset of
            Some cells \<Rightarrow> (case nthOpt cells columnOffset of Some v \<Rightarrow> v | None \<Rightarrow> Null)
          | None \<Rightarrow> Null)
      in if current \<noteq> value
         then [\<lparr>changeAddress = formatAddress (firstDataRow + int offset) (startColumn bounds + int columnOffset),
                changeBefore = current, changeAfter = value\<rparr>]
         else [])"

definition sortRowChanges ::
  "RangeBounds \<Rightarrow> int \<Rightarrow> CellScalar list list \<Rightarrow> nat \<Rightarrow> nat \<Rightarrow> SortComputedChange list" where
  "sortRowChanges bounds firstDataRow rows offset sourceIndex =
     (case nthOpt rows sourceIndex of
        None \<Rightarrow> []
      | Some cells \<Rightarrow>
          concat (map (\<lambda>(columnOffset, value). sortCellChange bounds firstDataRow rows offset columnOffset value)
                   (enumerate 0 cells)))"

definition computeSortChanges ::
  "(real \<Rightarrow> string) \<Rightarrow> (string \<Rightarrow> string \<Rightarrow> real) \<Rightarrow> SortSpec \<Rightarrow> (string \<Rightarrow> js_error + CellState)
     \<Rightarrow> js_error + SortComputedChange list" where
  "computeSortChanges numStr localeCompare spec readCell =
     bindE (parseRange (specRange spec)) (\<lambda>bounds.
     bindE (columnIndex (specByColumn spec)) (\<lambda>keyColumn.
     throwIf (keyColumn < startColumn bounds \<or> endColumn bounds < keyColumn)
       (Error (''Sort column '' @ specByColumn spec @ '' is outside the range '' @ specRange spec @ ''.''))
     (let firstDataRow = startRow bounds + (if specHasHeader spec then 1 else 0) in
      throwIf (endRow bounds \<le> firstDataRow) (Error ''The sort range needs at least two data rows.'')
      (bindE (readSortRows readCell bounds firstDataRow) (\<lambda>rows.
        let order = computeSortedRowOrder numStr localeCompare rows
                      (nat (keyColumn - startColumn bounds)) (specAscending spec)
        in Inr (concat (map (\<lambda>(offset, sourceIndex). sortRowChanges bounds firstDataRow rows offset sourceIndex)
                          (enumerate 0 order))))))))"

section \<open>The order is a total preorder\<close>

text \<open>A comparison whose sign flips with its arguments and whose \<open>\<le> 0\<close> is transitive: what the
  ECMAScript standard asks of \<open>localeCompare\<close>.\<close>

definition weakOrder :: "('a \<Rightarrow> 'a \<Rightarrow> real) \<Rightarrow> bool" where
  "weakOrder f \<longleftrightarrow> (\<forall>x y. f x y < 0 \<longleftrightarrow> 0 < f y x) \<and> (\<forall>x y z. f x y \<le> 0 \<longrightarrow> f y z \<le> 0 \<longrightarrow> f x z \<le> 0)"

lemma weakOrder_flip:
  assumes "weakOrder f"
  shows "f x y < 0 \<longleftrightarrow> 0 < f y x" "f x y \<le> 0 \<longleftrightarrow> 0 \<le> f y x" "f x y = 0 \<longleftrightarrow> f y x = 0"
proof -
  have f: "f x y < 0 \<longleftrightarrow> 0 < f y x" "f y x < 0 \<longleftrightarrow> 0 < f x y" using assms unfolding weakOrder_def by blast+
  then show "f x y < 0 \<longleftrightarrow> 0 < f y x" "f x y \<le> 0 \<longleftrightarrow> 0 \<le> f y x" "f x y = 0 \<longleftrightarrow> f y x = 0" by linarith+
qed

lemma weakOrder_trans: "weakOrder f \<Longrightarrow> f x y \<le> 0 \<Longrightarrow> f y z \<le> 0 \<Longrightarrow> f x z \<le> 0"
  unfolding weakOrder_def by blast

lemma weakOrder_strict:
  assumes w: "weakOrder f" and xy: "f x y \<le> 0" and yz: "f y z \<le> 0" and s: "f x y < 0 \<or> f y z < 0"
  shows "f x z < 0"
proof (rule ccontr)
  assume "\<not> f x z < 0"
  then have zx: "f z x \<le> 0" using weakOrder_flip(2) [OF w, of z x] by linarith
  have "f z y \<le> 0" "f y x \<le> 0"
    using weakOrder_trans [OF w zx xy] weakOrder_trans [OF w yz zx] by blast+
  then show False using s weakOrder_flip(1) [OF w, of y z] weakOrder_flip(1) [OF w, of x y] by linarith
qed

lemma weakOrder_reverse:
  assumes "weakOrder f"
  shows "weakOrder (\<lambda>x y. - f x y)"
  unfolding weakOrder_def
proof (intro conjI allI impI)
  fix x y z
  show "- f x y < 0 \<longleftrightarrow> 0 < - f y x" using weakOrder_flip(1) [OF assms, of y x] by linarith
  assume "- f x y \<le> 0" "- f y z \<le> 0"
  then have "f z y \<le> 0" "f y x \<le> 0"
    using weakOrder_flip(2) [OF assms, of z y] weakOrder_flip(2) [OF assms, of y x] by linarith+
  then have "f z x \<le> 0" by (rule weakOrder_trans [OF assms])
  then show "- f x z \<le> 0" using weakOrder_flip(2) [OF assms, of z x] by linarith
qed

lemma weakOrder_then_index:
  fixes f :: "'a \<Rightarrow> 'a \<Rightarrow> real"
  assumes "weakOrder f"
  shows "comparator (\<lambda>a b. if f (fst a) (fst b) \<noteq> 0 then f (fst a) (fst b) else real (snd a) - real (snd b))"
proof
  fix a b c :: "'a \<times> nat"
  note fl = weakOrder_flip [OF assms, of "fst a" "fst b"]
  show "(if f (fst a) (fst b) \<noteq> 0 then f (fst a) (fst b) else real (snd a) - real (snd b)) \<le> 0
      \<or> (if f (fst b) (fst a) \<noteq> 0 then f (fst b) (fst a) else real (snd b) - real (snd a)) \<le> 0"
    using fl by (cases "f (fst a) (fst b) = 0") auto
  assume ab: "(if f (fst a) (fst b) \<noteq> 0 then f (fst a) (fst b) else real (snd a) - real (snd b)) \<le> 0"
    and bc: "(if f (fst b) (fst c) \<noteq> 0 then f (fst b) (fst c) else real (snd b) - real (snd c)) \<le> 0"
  then have le: "f (fst a) (fst b) \<le> 0" "f (fst b) (fst c) \<le> 0" by (auto split: if_splits)
  note tr = weakOrder_trans [OF assms le] and st = weakOrder_strict [OF assms le]
  show "(if f (fst a) (fst c) \<noteq> 0 then f (fst a) (fst c) else real (snd a) - real (snd c)) \<le> 0"
    using ab bc le tr st by (cases "f (fst a) (fst c) = 0") (auto split: if_splits)
qed

lemma compareScalars_weak:
  assumes "weakOrder lc"
  shows "weakOrder (compareScalars numStr lc)"
  unfolding weakOrder_def
proof (intro conjI allI impI)
  fix a b c
  show "compareScalars numStr lc a b < 0 \<longleftrightarrow> 0 < compareScalars numStr lc b a"
    using weakOrder_flip(1) [OF assms] by (cases a; cases b) (auto simp: compareScalars_def)
  assume "compareScalars numStr lc a b \<le> 0" "compareScalars numStr lc b c \<le> 0"
  then show "compareScalars numStr lc a c \<le> 0"
    by (cases a; cases b; cases c)
      (auto simp: compareScalars_def of_bool_def split: if_splits intro: weakOrder_trans [OF assms])
qed

text \<open>The order of the keys: reversed when descending, but blanks last either way.\<close>

definition keyOrder :: "(real \<Rightarrow> string) \<Rightarrow> (string \<Rightarrow> string \<Rightarrow> real) \<Rightarrow> bool \<Rightarrow> CellScalar \<Rightarrow> CellScalar \<Rightarrow> real" where
  "keyOrder numStr lc ascending a b =
     (if a = Null \<or> b = Null \<or> ascending then compareScalars numStr lc a b else - compareScalars numStr lc a b)"

lemma compareScalars_Null:
  "compareScalars numStr lc Null b = (if b = Null then 0 else 1)"
  "compareScalars numStr lc a Null = (if a = Null then 0 else - 1)"
  by (simp_all add: compareScalars_def)

lemma keyOrder_weak:
  assumes "weakOrder lc"
  shows "weakOrder (keyOrder numStr lc ascending)"
proof (cases ascending)
  case True
  then have "keyOrder numStr lc ascending = compareScalars numStr lc" by (intro ext) (simp add: keyOrder_def)
  with compareScalars_weak [OF assms] show ?thesis by simp
next
  case False
  note w = compareScalars_weak [OF assms, of numStr]
  note r = weakOrder_reverse [OF w]
  show ?thesis
    unfolding weakOrder_def
  proof (intro conjI allI impI)
    fix a b c
    show "keyOrder numStr lc ascending a b < 0 \<longleftrightarrow> 0 < keyOrder numStr lc ascending b a"
      using weakOrder_flip(1) [OF w, of a b] weakOrder_flip(1) [OF r, of a b] unfolding keyOrder_def by auto
    assume "keyOrder numStr lc ascending a b \<le> 0" "keyOrder numStr lc ascending b c \<le> 0"
    then show "keyOrder numStr lc ascending a c \<le> 0"
      using False weakOrder_trans [OF r, of a b c]
      by (auto simp: keyOrder_def compareScalars_Null split: if_splits)
  qed
qed

lemma entryOrder_key:
  "entryOrder numStr lc ascending = (\<lambda>a b. if keyOrder numStr lc ascending (fst a) (fst b) \<noteq> 0
     then keyOrder numStr lc ascending (fst a) (fst b) else real (snd a) - real (snd b))"
  by (intro ext) (auto simp: entryOrder_def keyOrder_def Let_def)

lemma entryOrder_comparator: "weakOrder lc \<Longrightarrow> comparator (entryOrder numStr lc ascending)"
  unfolding entryOrder_key by (rule weakOrder_then_index [OF keyOrder_weak])

section \<open>The row order\<close>

definition sortKey :: "CellScalar list list \<Rightarrow> nat \<Rightarrow> nat \<Rightarrow> CellScalar" where
  "sortKey rows keyOffset index =
     (case nthOpt (rows ! index) keyOffset of Some v \<Rightarrow> v | None \<Rightarrow> Null)"

definition sortEntries :: "CellScalar list list \<Rightarrow> nat \<Rightarrow> (CellScalar \<times> nat) list" where
  "sortEntries rows keyOffset = map (\<lambda>i. (sortKey rows keyOffset i, i)) [0..<length rows]"

lemma computeSortedRowOrder_entries:
  "computeSortedRowOrder numStr lc rows keyOffset ascending =
     map snd (sortBy (entryOrder numStr lc ascending) (sortEntries rows keyOffset))"
proof -
  have "map (\<lambda>(index, row). (case nthOpt row keyOffset of Some v \<Rightarrow> v | None \<Rightarrow> Null, index)) (enumerate 0 rows)
      = sortEntries rows keyOffset"
    by (rule nth_equalityI) (simp_all add: sortEntries_def sortKey_def nth_enumerate_eq)
  then show ?thesis by (simp add: computeSortedRowOrder_def)
qed

lemma order_perm: "mset (computeSortedRowOrder numStr lc rows keyOffset ascending) = mset [0..<length rows]"
proof -
  have "mset (computeSortedRowOrder numStr lc rows keyOffset ascending)
      = image_mset snd (mset (sortEntries rows keyOffset))"
    by (simp only: computeSortedRowOrder_entries mset_map mset_sortBy)
  also have "\<dots> = mset (map snd (sortEntries rows keyOffset))" by (simp only: mset_map)
  also have "map snd (sortEntries rows keyOffset) = [0..<length rows]"
    by (simp add: sortEntries_def comp_def)
  finally show ?thesis .
qed

lemma order_length: "length (computeSortedRowOrder numStr lc rows keyOffset ascending) = length rows"
  using arg_cong [OF order_perm, of size] by (metis diff_zero length_upt size_mset)

lemma order_distinct: "distinct (computeSortedRowOrder numStr lc rows keyOffset ascending)"
  using order_perm distinct_upt by (metis mset_eq_imp_distinct_iff)

lemma order_set: "set (computeSortedRowOrder numStr lc rows keyOffset ascending) = {0..<length rows}"
  using order_perm by (metis atLeastLessThan_upt mset_eq_setD)

lemma order_sorted:
  assumes "weakOrder lc"
  shows "sorted_wrt (\<lambda>i j. keyOrder numStr lc ascending (sortKey rows keyOffset i) (sortKey rows keyOffset j) < 0
      \<or> keyOrder numStr lc ascending (sortKey rows keyOffset i) (sortKey rows keyOffset j) = 0 \<and> i < j)
    (computeSortedRowOrder numStr lc rows keyOffset ascending)"
proof -
  let ?es = "sortBy (entryOrder numStr lc ascending) (sortEntries rows keyOffset)"
  have srt: "sorted_wrt (\<lambda>a b. entryOrder numStr lc ascending a b \<le> 0) ?es"
    by (rule comparator.sortBy_sorted [OF entryOrder_comparator [OF assms]])
  have key: "fst e = sortKey rows keyOffset (snd e)" if "e \<in> set ?es" for e
    using that by (auto simp: sortEntries_def)
  have dis: "distinct (map snd ?es)"
    using order_distinct [of numStr lc rows keyOffset ascending] by (simp only: computeSortedRowOrder_entries)
  show ?thesis
    unfolding computeSortedRowOrder_entries sorted_wrt_iff_nth_less length_map
  proof (intro allI impI)
    fix i j assume ij: "i < j" "j < length ?es"
    then have "entryOrder numStr lc ascending (?es ! i) (?es ! j) \<le> 0"
      using srt sorted_wrt_nth_less by blast
    moreover have "snd (?es ! i) \<noteq> snd (?es ! j)"
      using dis ij nth_eq_iff_index_eq [of "map snd ?es" i j] by simp
    moreover have "fst (?es ! i) = sortKey rows keyOffset (snd (?es ! i))"
      "fst (?es ! j) = sortKey rows keyOffset (snd (?es ! j))"
      using key [OF nth_mem, of i] key [OF nth_mem, of j] ij by linarith+
    ultimately show "keyOrder numStr lc ascending (sortKey rows keyOffset (map snd ?es ! i)) (sortKey rows keyOffset (map snd ?es ! j)) < 0
      \<or> keyOrder numStr lc ascending (sortKey rows keyOffset (map snd ?es ! i)) (sortKey rows keyOffset (map snd ?es ! j)) = 0
        \<and> map snd ?es ! i < map snd ?es ! j"
      using ij by (auto simp: entryOrder_key split: if_splits)
  qed
qed

section \<open>The changes\<close>

lemma readSortRows_shape:
  assumes "readSortRows readCell bounds first = Inr rows" "first \<le> endRow bounds" "startColumn bounds \<le> endColumn bounds"
  shows "int (length rows) = endRow bounds - first + 1"
    and "i < length rows \<Longrightarrow> int (length (rows ! i)) = endColumn bounds - startColumn bounds + 1"
    and "i < length rows \<Longrightarrow> j < length (rows ! i) \<Longrightarrow>
      readSortCell readCell (first + int i) (startColumn bounds + int j) = Inr (rows ! i ! j)"
proof -
  note m = assms(1) [unfolded readSortRows_def]
  show len: "int (length rows) = endRow bounds - first + 1"
    using mapE_Inr_length [OF m] assms(2) by simp
  have row: "mapE (\<lambda>column. readSortCell readCell (first + int i) column) [startColumn bounds..endColumn bounds] = Inr (rows ! i)"
    if "i < length rows" for i
  proof -
    have i: "i < length [first..endRow bounds]" using that mapE_Inr_length [OF m] by simp
    with mapE_nth [OF m i] show ?thesis by (simp add: nth_upto)
  qed
  show "i < length rows \<Longrightarrow> int (length (rows ! i)) = endColumn bounds - startColumn bounds + 1"
    using mapE_Inr_length [OF row] assms(3) by fastforce
  assume i: "i < length rows" and j: "j < length (rows ! i)"
  have "j < length [startColumn bounds..endColumn bounds]" using mapE_Inr_length [OF row [OF i]] j by simp
  with mapE_nth [OF row [OF i] this] show
    "readSortCell readCell (first + int i) (startColumn bounds + int j) = Inr (rows ! i ! j)"
    by (simp add: nth_upto)
qed

lemma set_concat_enumerate:
  "set (concat (map (\<lambda>(i, x). g i x) (enumerate n xs))) = (\<Union>i\<in>{..<length xs}. set (g (n + i) (xs ! i)))"
proof (induction xs arbitrary: n)
  case (Cons x xs)
  have "{..<length (x # xs)} = insert 0 (Suc ` {..<length xs})" by (auto simp: less_Suc_eq_0_disj)
  with Cons [of "Suc n"] show ?case by simp
qed simp

text \<open>The change records of a sort: one for each cell whose value changes.\<close>

lemma sort_changes_set:
  assumes order: "\<forall>s\<in>set order. s < length rows" and len: "length order = length rows"
    and w: "\<forall>r\<in>set rows. length r = w"
  shows "set (concat (map (\<lambda>(offset, sourceIndex). sortRowChanges bounds first rows offset sourceIndex)
      (enumerate 0 order)))
    = {\<lparr>changeAddress = formatAddress (first + int i) (startColumn bounds + int j),
        changeBefore = rows ! i ! j, changeAfter = rows ! (order ! i) ! j\<rparr> |i j.
        i < length rows \<and> j < w \<and> rows ! i ! j \<noteq> rows ! (order ! i) ! j}"
proof -
  have row: "set (sortRowChanges bounds first rows i (order ! i))
    = {\<lparr>changeAddress = formatAddress (first + int i) (startColumn bounds + int j),
        changeBefore = rows ! i ! j, changeAfter = rows ! (order ! i) ! j\<rparr> |j.
        j < w \<and> rows ! i ! j \<noteq> rows ! (order ! i) ! j}" if i: "i < length rows" for i
  proof -
    have s: "order ! i < length rows" using order len i by simp
    have lens: "length (rows ! i) = w" "length (rows ! (order ! i)) = w" using w i s by simp_all
    have cell: "set (sortCellChange bounds first rows i j v) =
        (if rows ! i ! j \<noteq> v then {\<lparr>changeAddress = formatAddress (first + int i) (startColumn bounds + int j),
          changeBefore = rows ! i ! j, changeAfter = v\<rparr>} else {})" if "j < w" for j v
      using that i lens by (simp add: sortCellChange_def nthOpt_def Let_def)
    have "set (sortRowChanges bounds first rows i (order ! i))
      = (\<Union>j\<in>{..<w}. set (sortCellChange bounds first rows i j (rows ! (order ! i) ! j)))"
      unfolding sortRowChanges_def using s lens
      by (simp add: nthOpt_def set_concat_enumerate del: set_concat)
    also have "\<dots> = (\<Union>j\<in>{..<w}. if rows ! i ! j \<noteq> rows ! (order ! i) ! j
        then {\<lparr>changeAddress = formatAddress (first + int i) (startColumn bounds + int j),
          changeBefore = rows ! i ! j, changeAfter = rows ! (order ! i) ! j\<rparr>} else {})"
      by (rule SUP_cong) (simp_all add: cell)
    finally show ?thesis by (auto split: if_splits)
  qed
  have "set (concat (map (\<lambda>(offset, sourceIndex). sortRowChanges bounds first rows offset sourceIndex)
      (enumerate 0 order))) = (\<Union>i\<in>{..<length rows}. set (sortRowChanges bounds first rows i (order ! i)))"
    unfolding set_concat_enumerate using len by simp
  also have "\<dots> = (\<Union>i\<in>{..<length rows}. {\<lparr>changeAddress = formatAddress (first + int i) (startColumn bounds + int j),
        changeBefore = rows ! i ! j, changeAfter = rows ! (order ! i) ! j\<rparr> |j.
        j < w \<and> rows ! i ! j \<noteq> rows ! (order ! i) ! j})"
    by (rule SUP_cong) (simp_all add: row)
  finally show ?thesis by blast
qed

end
