(* ===== verification/WorkbookExpand.thy ===== *)
theory WorkbookExpand
  imports WorkbookOps SortRange
begin

text \<open>
  Expansion of a batch into primitive operations (\<open>workbook-dsl.ts\<close>, lines 1089-1720): the
  geometry guards of fills and copies, the batch-order guard of \<open>convert_to_values\<close>, text
  replacement, and \<open>expandToPrimitiveOps\<close> with its cap on cell edits. Every \<open>throw\<close> is an
  \<open>Inl\<close> with the source's message.
\<close>

definition MAX_EXPANDED_CELL_OPS :: int where "MAX_EXPANDED_CELL_OPS = 2000"
definition MAX_RANGE_OP_CELLS :: int where "MAX_RANGE_OP_CELLS = 200000"
definition MAX_FILL_SOURCE_CELLS :: int where "MAX_FILL_SOURCE_CELLS = 2000"

text \<open>\<open>MAX_RANGE_OP_CELLS.toLocaleString('en-US')\<close>\<close>

definition rangeCapText :: string where "rangeCapText = ''200,000''"

definition isSome :: "'a option \<Rightarrow> bool" where "isSome x = (x \<noteq> None)"

lemma isSome_simps [simp]: "\<not> isSome None" "isSome (Some x)"
  by (simp_all add: isSome_def)

section \<open>Fill and copy\<close>

text \<open>The overlap test that the guards repeat.\<close>

definition boundsOverlap :: "RangeBounds \<Rightarrow> RangeBounds \<Rightarrow> bool" where
  "boundsOverlap a b \<longleftrightarrow> startRow a \<le> endRow b \<and> startRow b \<le> endRow a
     \<and> startColumn a \<le> endColumn b \<and> startColumn b \<le> endColumn a"

definition boundsRows :: "RangeBounds \<Rightarrow> int" where "boundsRows b = endRow b - startRow b + 1"
definition boundsColumns :: "RangeBounds \<Rightarrow> int" where "boundsColumns b = endColumn b - startColumn b + 1"

definition validateFillRange :: "FillRangeOperation \<Rightarrow> js_error + unit" where
  "validateFillRange op' =
     bindE (parseRange (fillSource op')) (\<lambda>source.
     bindE (parseRange (fillTarget op')) (\<lambda>target.
     throwIf (rangeCellCount source > MAX_FILL_SOURCE_CELLS)
       (Error (''fill_range source covers more than '' @ intStr MAX_FILL_SOURCE_CELLS @ '' cells.''))
     (throwIf (rangeCellCount target > MAX_RANGE_OP_CELLS)
       (Error (''fill_range target covers more than '' @ rangeCapText @ '' cells '' @ emDash @ '' fill it in several ranges.''))
     (throwIf (boundsRows target mod boundsRows source \<noteq> 0 \<or> boundsColumns target mod boundsColumns source \<noteq> 0)
       (Error (''fill_range target '' @ fillTarget op' @ '' ('' @ intStr (boundsRows target) @ timesSign
          @ intStr (boundsColumns target) @ '') is not a whole multiple of source '' @ fillSource op' @ '' (''
          @ intStr (boundsRows source) @ timesSign @ intStr (boundsColumns source) @ '') '' @ emDash
          @ '' adjust the target so the source tiles it exactly.''))
     (let sameSheet = (fillSourceSheetId op' = None \<or> fillSourceSheetId op' = Some (fillSheetId op'));
          overlaps = (sameSheet \<and> boundsOverlap source target)
      in throwIf (overlaps \<and> (startRow source \<noteq> startRow target \<or> startColumn source \<noteq> startColumn target))
           (Error (''fill_range source and target overlap '' @ emDash @ '' start the target at the source cell (fill-down/right includes the source as the first tile) or keep them disjoint.''))
           (Inr ()))))))"

definition copyTargetBounds :: "CopyRangeOperation \<Rightarrow> js_error + RangeBounds" where
  "copyTargetBounds op' =
     bindE (parseRange (copySource op')) (\<lambda>source.
     bindE (parseRange (copyTarget op')) (\<lambda>target.
     Inr (if rangeCellCount target = 1
          then \<lparr>startRow = startRow target, startColumn = startColumn target,
                endRow = startRow target + (endRow source - startRow source),
                endColumn = startColumn target + (endColumn source - startColumn source)\<rparr>
          else target)))"

definition matchableCellText :: "(real \<Rightarrow> string) \<Rightarrow> CellScalar \<Rightarrow> string" where
  "matchableCellText numStr v =
     (case v of
        Null \<Rightarrow> []
      | Boolean b \<Rightarrow> if b then ''true'' else ''false''
      | _ \<Rightarrow> toLowerCase (trim (scalarText numStr v)))"

definition filteredCopySourceRows ::
  "CopyRangeOperation \<Rightarrow> (int \<Rightarrow> int \<Rightarrow> string) \<Rightarrow> js_error + int list option" where
  "filteredCopySourceRows op' cellText =
     bindE (parseRange (copySource op')) (\<lambda>source.
     case filterColumn op' of
       None \<Rightarrow> Inr (Some [startRow source..endRow source])
     | Some c \<Rightarrow>
         bindE (columnIndex c) (\<lambda>column.
           let wanted = map (\<lambda>v. toLowerCase (trim v)) (case filterValues op' of Some vs \<Rightarrow> vs | None \<Rightarrow> []);
               rows = filter (\<lambda>row. cellText row column \<in> set wanted) [startRow source..endRow source]
           in Inr (if rows = [] then None else Some rows)))"

definition validateCopyRange :: "CopyRangeOperation \<Rightarrow> js_error + unit" where
  "validateCopyRange op' =
     bindE (parseRange (copySource op')) (\<lambda>source.
     throwIf (rangeCellCount source > MAX_RANGE_OP_CELLS)
       (Error (''copy_range source covers more than '' @ rangeCapText @ '' cells '' @ emDash @ '' copy it in several blocks.''))
     (bindE (parseRange (copyTarget op')) (\<lambda>rawTarget.
     bindE (copyTargetBounds op') (\<lambda>target.
     throwIf (rangeCellCount rawTarget \<noteq> 1
         \<and> (endRow target - startRow target \<noteq> endRow source - startRow source
            \<or> endColumn target - startColumn target \<noteq> endColumn source - startColumn source))
       (Error (''copy_range target '' @ copyTarget op' @ '' does not match the source's size '' @ emDash
          @ '' pass just the destination's top-left cell (e.g. '' @ quote @ ''H1'' @ quote
          @ ''), or a range exactly the size of '' @ copySource op' @ ''.''))
     (let sameSheet = (copySourceSheetId op' = None \<or> copySourceSheetId op' = Some (copySheetId op')) in
     throwIf (sameSheet \<and> boundsOverlap source target)
       (Error (''copy_range source and target overlap '' @ emDash @ '' choose a destination outside the source block (to shift data by whole rows/columns, use insert_rows/insert_cols instead).''))
     (throwIf (isSome (filterColumn op') \<noteq> isSome (filterValues op'))
       (Error ''copy_range filterColumn and filterValues must be provided together.'')
     (case filterColumn op' of
        None \<Rightarrow> Inr ()
      | Some c \<Rightarrow>
          bindE (columnIndex c) (\<lambda>column.
          throwIf (column < startColumn source \<or> endColumn source < column)
            (Error (''copy_range filterColumn '' @ c @ '' lies outside the source range '' @ copySource op' @ '' '' @ emDash
               @ '' it must be one of the source's own columns.''))
          (throwIf (rangeCellCount rawTarget \<noteq> 1)
            (Error (''A filtered copy_range does not know its height in advance '' @ emDash @ '' pass just the destination top-left cell as target.''))
            (Inr ()))))))))))"

section \<open>Converting formulas to values\<close>

fun isFormulaText :: "CellScalar \<Rightarrow> bool" where
  "isFormulaText (Str s) = startsWith s ''=''"
| "isFormulaText _ = False"

text \<open>The range on sheet \<open>sheetId\<close> into which an operation may write formulas, if any.\<close>

fun formulaWrites :: "string \<Rightarrow> WorkbookOperation \<Rightarrow> js_error + RangeBounds option" where
  "formulaWrites sheetId (Primitive (Content (SetFormula s a f e))) =
     (if s \<noteq> sheetId then Inr None else bindE (parseRange a) (\<lambda>b. Inr (Some b)))"
| "formulaWrites sheetId (SetRange op') =
     (if setSheetId op' \<noteq> sheetId then Inr None
      else
        let writesFormulas = list_ex (list_ex isFormulaText) (setValues op');
            anchor = (case setRange op' of Some r \<Rightarrow> Some r | None \<Rightarrow> setStart op')
        in case anchor of
             Some (c # a) \<Rightarrow>
               if \<not> writesFormulas then Inr None
               else bindE (parseRange (c # a)) (\<lambda>origin.
                 Inr (Some \<lparr>startRow = startRow origin, startColumn = startColumn origin,
                   endRow = startRow origin + int (length (setValues op')) - 1,
                   endColumn = startColumn origin
                     + (case setValues op' of r # _ \<Rightarrow> int (length r) | [] \<Rightarrow> 1) - 1\<rparr>))
           | _ \<Rightarrow> Inr None)"
| "formulaWrites sheetId (Primitive (FillRange op')) =
     (if fillSheetId op' \<noteq> sheetId then Inr None else bindE (parseRange (fillTarget op')) (\<lambda>b. Inr (Some b)))"
| "formulaWrites sheetId (Primitive (CopyRange op')) =
     (if copySheetId op' \<noteq> sheetId then Inr None else bindE (copyTargetBounds op') (\<lambda>b. Inr (Some b)))"
| "formulaWrites sheetId _ = Inr None"

text \<open>The inner loop over the operations, and the outer loop over the converts. The source skips the
  convert itself by identity; a convert writes no formulas, so it is skipped either way.\<close>

fun convertClash :: "string \<Rightarrow> string \<Rightarrow> RangeBounds \<Rightarrow> WorkbookOperation list \<Rightarrow> js_error + string option" where
  "convertClash sheetId rng bounds [] = Inr None"
| "convertClash sheetId rng bounds (x # xs) =
     bindE (formulaWrites sheetId x) (\<lambda>w. case w of
       None \<Rightarrow> convertClash sheetId rng bounds xs
     | Some writes \<Rightarrow>
         if boundsOverlap writes bounds
         then Inr (Some (''convert_to_values on '' @ rng @ '' cannot share a batch with a '' @ opName x @ '' that writes ''
           @ ''formulas into that range '' @ emDash @ '' the writes would land after (or invisibly to) the convert. ''
           @ ''Propose the formula writes first, verify the results, then convert in a separate batch.''))
         else convertClash sheetId rng bounds xs)"

fun convertErrors :: "WorkbookOperation list \<Rightarrow> WorkbookOperation list \<Rightarrow> js_error + string option" where
  "convertErrors ops [] = Inr None"
| "convertErrors ops (Primitive (ConvertToValues s r) # xs) =
     bindE (parseRange r) (\<lambda>bounds.
     bindE (convertClash s r bounds ops) (\<lambda>e. case e of
       Some m \<Rightarrow> Inr (Some m)
     | None \<Rightarrow> convertErrors ops xs))"
| "convertErrors ops (x # xs) = convertErrors ops xs"

definition convertToValuesBatchError :: "WorkbookOperation list \<Rightarrow> js_error + string option" where
  "convertToValuesBatchError ops = convertErrors ops ops"

section \<open>Replacing text\<close>

text \<open>\<open>text.split(find)\<close> for a non-empty separator: the scan, with the piece so far.\<close>

function splitText :: "string \<Rightarrow> string \<Rightarrow> string \<Rightarrow> string list" where
  "splitText find' acc [] = [acc]"
| "splitText find' acc (c # s) =
     (if find' \<noteq> [] \<and> startsWith (c # s) find'
      then acc # splitText find' [] (drop (length find') (c # s))
      else splitText find' (acc @ [c]) s)"
  by pat_completeness auto
termination
  by (relation "measure (\<lambda>(f, _, s). length s)") (auto simp: neq_Nil_conv)

text \<open>\<open>text.replace(/escaped/gi, () => replace)\<close>: matching ignores case.\<close>

function replaceIgnoringCase :: "string \<Rightarrow> string \<Rightarrow> string \<Rightarrow> string" where
  "replaceIgnoringCase find' rep [] = []"
| "replaceIgnoringCase find' rep (c # s) =
     (if find' \<noteq> [] \<and> startsWith (toLowerCase (c # s)) (toLowerCase find')
      then rep @ replaceIgnoringCase find' rep (drop (length find') (c # s))
      else c # replaceIgnoringCase find' rep s)"
  by pat_completeness auto
termination
  by (relation "measure (\<lambda>(f, _, s). length s)") (auto simp: neq_Nil_conv)

declare splitText.simps [simp del] replaceIgnoringCase.simps [simp del]

definition replaceOccurrences :: "string \<Rightarrow> string \<Rightarrow> string \<Rightarrow> bool \<Rightarrow> string" where
  "replaceOccurrences txt' find' rep matchCase' =
     (if find' = [] then txt'
      else if matchCase' then join rep (splitText find' [] txt')
      else replaceIgnoringCase find' rep txt')"

text \<open>The text that replaces a cell's content, if it changes (the body of the cell loop).\<close>

definition trimSpaces :: "string \<Rightarrow> string" where
  "trimSpaces s = trimWith (\<lambda>c. c = CHR '' '') s"

definition findReplaceNext :: "FindReplaceOperation \<Rightarrow> CellState \<Rightarrow> string option" where
  "findReplaceNext op' current =
     (let matchCase' = (case matchCase op' of Some b \<Rightarrow> b | None \<Rightarrow> False);
          needle = (if matchCase' then findText op' else toLowerCase (findText op'));
          content = (case rawValue current of Some v \<Rightarrow> v | None \<Rightarrow> cellValue current)
      in case (formula current, content) of
           (None, Str s) \<Rightarrow>
             let haystack = (if matchCase' then s else toLowerCase s);
                 next = (if wholeCell op' = Some True
                         then (if trimSpaces haystack = trim needle then Some (replaceText op') else None)
                         else if strIncludes haystack needle
                         then Some (replaceOccurrences s (findText op') (replaceText op') matchCase')
                         else None)
             in (case next of Some n \<Rightarrow> if n = s then None else Some n | None \<Rightarrow> None)
         | _ \<Rightarrow> None)"

section \<open>Where a set_range starts\<close>

definition truthy :: "string option \<Rightarrow> bool" where
  "truthy x = (case x of Some (_ # _) \<Rightarrow> True | _ \<Rightarrow> False)"

definition setRangeOrigin :: "SetRangeOperation \<Rightarrow> js_error + RangeBounds" where
  "setRangeOrigin op' =
     (let width = (case setValues op' of r # _ \<Rightarrow> length r | [] \<Rightarrow> 0);
          start = setStart op'; rng = setRange op' in
      case findIndex (\<lambda>r. length r \<noteq> width) (setValues op') of
        Some k \<Rightarrow> Inl (Error (''set_range values must be rectangular: row 1 has '' @ natStr width
          @ '' cell(s) but row '' @ natStr (k + 1) @ '' has '' @ natStr (length (setValues op' ! k)) @ ''. ''
          @ ''Use null for cells that should be cleared, or split into separate set_range operations.''))
      | None \<Rightarrow>
      throwIf (\<not> truthy start \<and> \<not> truthy rng)
        (Error (''set_range needs '' @ quote @ ''start'' @ quote @ '' '' @ emDash @ '' the top-left target cell, like '' @ quote @ ''B2'' @ quote @ ''.''))
      (let anchor = (case rng of Some r \<Rightarrow> r | None \<Rightarrow> (case start of Some a \<Rightarrow> a | None \<Rightarrow> [])) in
      bindE (parseRange anchor) (\<lambda>bounds.
      bindE (if truthy start \<and> truthy rng
             then bindE (parseRange (the start)) (\<lambda>startBounds.
               throwIf (startRow startBounds \<noteq> startRow bounds \<or> startColumn startBounds \<noteq> startColumn bounds)
                 (Error (''set_range received both start '' @ the start @ '' and range '' @ the rng
                   @ '', which disagree on the top-left cell '' @ emDash @ '' pass only one of them.''))
                 (Inr ()))
             else Inr ()) (\<lambda>_.
      throwIf (truthy rng \<and> (boundsRows bounds \<noteq> int (length (setValues op')) \<or> boundsColumns bounds \<noteq> int width))
        (Error (''set_range range '' @ the rng @ '' spans '' @ intStr (boundsRows bounds) @ timesSign
          @ intStr (boundsColumns bounds) @ '' cells but values is '' @ natStr (length (setValues op')) @ '' row(s) ''
          @ timesSign @ '' '' @ natStr width @ '' cell(s) '' @ emDash
          @ '' make them match, or give '' @ quote @ ''start'' @ quote @ '' (the top-left cell) instead.''))
        (Inr bounds)))))"

section \<open>Expansion\<close>

text \<open>The closure of \<open>expandToPrimitiveOps\<close>: the list built so far and the number of cell edits.\<close>

type_synonym expansion = "PrimitiveOperation list \<times> int"

definition countCell :: "int \<Rightarrow> js_error + int" where
  "countCell cellOps =
     (let n = cellOps + 1 in
      throwIf (n > MAX_EXPANDED_CELL_OPS)
        (Error (''The batch expands to more than '' @ intStr MAX_EXPANDED_CELL_OPS @ '' cell edits.'')) (Inr n))"

definition pushOp :: "PrimitiveOperation \<Rightarrow> expansion \<Rightarrow> expansion" where
  "pushOp p st = (fst st @ [p], snd st)"

definition pushCell :: "expansion \<Rightarrow> PrimitiveOperation \<Rightarrow> js_error + expansion" where
  "pushCell st p = bindE (countCell (snd st)) (\<lambda>n. Inr (fst st @ [p], n))"

definition setRangeCell :: "string \<Rightarrow> RangeBounds \<Rightarrow> nat \<Rightarrow> nat \<Rightarrow> CellScalar \<Rightarrow> PrimitiveOperation" where
  "setRangeCell sheetId origin rowOffset columnOffset value =
     (let address = formatAddress (startRow origin + int rowOffset) (startColumn origin + int columnOffset) in
      case value of
        Str (c # s) \<Rightarrow>
          if c = CHR ''='' then Content (SetFormula sheetId address (c # s) None)
          else Content (SetCell sheetId address value None)
      | _ \<Rightarrow> Content (SetCell sheetId address value None))"

definition expandSetRange :: "expansion \<Rightarrow> SetRangeOperation \<Rightarrow> js_error + expansion" where
  "expandSetRange st op' =
     bindE (setRangeOrigin op') (\<lambda>origin.
       foldE pushCell st
         (concat (map (\<lambda>(rowOffset, rowValues).
             map (\<lambda>(columnOffset, value). setRangeCell (setSheetId op') origin rowOffset columnOffset value)
               (enumerate 0 rowValues)) (enumerate 0 (setValues op')))))"

definition expandClearRange :: "expansion \<Rightarrow> string \<Rightarrow> string \<Rightarrow> js_error + expansion" where
  "expandClearRange st sheetId rng =
     bindE (parseRange rng) (\<lambda>bounds.
       let cells = rangeCellCount bounds in
       throwIf (cells > MAX_RANGE_OP_CELLS)
         (Error (''clear_range covers more than '' @ rangeCapText @ '' cells '' @ emDash @ '' clear it in several ranges.''))
       (if cells > MAX_EXPANDED_CELL_OPS then Inr (pushOp (ClearRange sheetId rng) st)
        else foldE pushCell st (map (\<lambda>a. Content (ClearCell sheetId a)) (rangeAddresses bounds))))"

text \<open>A range operation that stays as it is, with the cap on its size and the message beyond it.\<close>

definition expandCapped :: "expansion \<Rightarrow> string \<Rightarrow> string \<Rightarrow> PrimitiveOperation \<Rightarrow> js_error + expansion" where
  "expandCapped st rng message p =
     bindE (parseRange rng) (\<lambda>bounds.
       throwIf (rangeCellCount bounds > MAX_RANGE_OP_CELLS) (Error message) (Inr (pushOp p st)))"

type_synonym cellReader = "string \<Rightarrow> string \<Rightarrow> js_error + CellState"

definition expandFindReplace :: "cellReader option \<Rightarrow> expansion \<Rightarrow> FindReplaceOperation \<Rightarrow> js_error + expansion" where
  "expandFindReplace reader st op' =
     bindE (parseRange (findRange op')) (\<lambda>bounds.
       let cells = rangeCellCount bounds in
       throwIf (cells > MAX_RANGE_OP_CELLS)
         (Error (''find_replace covers more than '' @ rangeCapText @ '' cells '' @ emDash @ '' replace in several ranges.''))
       (if cells > MAX_EXPANDED_CELL_OPS then Inr (pushOp (FindReplace op') st)
        else case reader of
          None \<Rightarrow> Inl (Error ''find_replace needs the current cell contents to plan against.'')
        | Some readCell \<Rightarrow>
            foldE (\<lambda>st address.
              bindE (readCell address (findSheetId op')) (\<lambda>current.
                case findReplaceNext op' current of
                  None \<Rightarrow> Inr st
                | Some next \<Rightarrow> pushCell st (Content (SetCell (findSheetId op') address (Str next) None))))
              st (rangeAddresses bounds)))"

definition expandSortRange ::
  "(real \<Rightarrow> string) \<Rightarrow> (string \<Rightarrow> string \<Rightarrow> real) \<Rightarrow> cellReader option \<Rightarrow> expansion \<Rightarrow> SortRangeOperation \<Rightarrow> js_error + expansion" where
  "expandSortRange numStr localeCompare reader st op' =
     bindE (parseRange (sortRange op')) (\<lambda>bounds.
       let sortCells = rangeCellCount bounds in
       throwIf (sortCells > MAX_RANGE_OP_CELLS)
         (Error (''sort_range covers more than '' @ rangeCapText @ '' cells '' @ emDash @ '' sort a smaller range.''))
       (if sortCells > MAX_EXPANDED_CELL_OPS then Inr (pushOp (SortRange op') st)
        else case reader of
          None \<Rightarrow> Inl (Error ''sort_range needs the current cell contents to plan against.'')
        | Some readCell \<Rightarrow>
            bindE (computeSortChanges numStr localeCompare
                \<lparr>specRange = sortRange op', specByColumn = byColumn op', specAscending = (sortOrder op' = ''asc''),
                 specHasHeader = (case hasHeader op' of Some b \<Rightarrow> b | None \<Rightarrow> False)\<rparr>
                (\<lambda>address. readCell address (sortSheetId op'))) (\<lambda>changes.
              foldE pushCell st
                (map (\<lambda>c. Content (SetCell (sortSheetId op') (changeAddress c) (changeAfter c) (Some (changeBefore c))))
                     changes))))"

fun fieldsOf :: "OneOrMany \<Rightarrow> string list" where
  "fieldsOf (OneField s) = [s]"
| "fieldsOf (ManyFields ss) = ss"

definition columnFieldsOf :: "AddPivotOperation \<Rightarrow> string list" where
  "columnFieldsOf p = (case columnField p of None \<Rightarrow> [] | Some f \<Rightarrow> fieldsOf f)"

fun groupingField :: "PivotGrouping \<Rightarrow> string" where
  "groupingField (DateGrouping f _) = f"
| "groupingField (RangeGrouping f _ _) = f"

fun filterField :: "PivotFilter \<Rightarrow> string" where
  "filterField (LabelFilter f _ _) = f"
| "filterField (ValueFilter f _ _ _ _ _) = f"

fun checkPivotFilter :: "nat \<Rightarrow> PivotFilter \<Rightarrow> js_error + unit" where
  "checkPivotFilter valueCount (LabelFilter f o' v) = Inr ()"
| "checkPivotFilter valueCount (ValueFilter f valueIndex o' n fr to') =
     throwIf (int valueCount \<le> valueIndex)
       (Error (''Filter valueIndex '' @ intStr valueIndex @ '' is out of range.''))
     (throwIf (o' = ''top'' \<and> n = None) (Error (''A top-N value filter needs '' @ quote @ ''count'' @ quote @ ''.''))
     (throwIf (o' = ''greaterThan'' \<and> fr = None)
       (Error (''A greaterThan value filter needs '' @ quote @ ''from'' @ quote @ ''.''))
     (throwIf (o' = ''between'' \<and> (fr = None \<or> to' = None))
       (Error (''A between value filter needs '' @ quote @ ''from'' @ quote @ '' and '' @ quote @ ''to'' @ quote @ ''.''))
     (Inr ()))))"

definition optList :: "'a list option \<Rightarrow> 'a list" where
  "optList x = (case x of Some xs \<Rightarrow> xs | None \<Rightarrow> [])"

definition expandAddPivot :: "expansion \<Rightarrow> AddPivotOperation \<Rightarrow> js_error + expansion" where
  "expandAddPivot st p =
     (let columnFields = columnFieldsOf p; rowFieldNames = fieldsOf (rowFields p) in
      throwIf (columnFields \<noteq> [] \<and> length (pivotValues p) \<noteq> 1)
        (Error ''With a columnField the pivot supports exactly one values entry.'')
      (throwIf (\<not> distinct columnFields) (Error ''columnField must not repeat a field.'')
      (throwIf (\<not> distinct rowFieldNames) (Error ''rowFields must not repeat a field.'')
      (throwIf (list_ex (\<lambda>f. f \<in> set rowFieldNames) columnFields)
        (Error ''A field cannot be both a row and a column dimension.'')
      (let allDimensionFields = rowFieldNames @ columnFields @ optList (pageFields p) in
      throwIf (list_ex (\<lambda>v. valueField v \<in> set allDimensionFields) (pivotValues p))
        (Error ''A values field cannot also be a row, column, or page filter field.'')
      (throwIf (list_ex (\<lambda>v. valueFormula v \<noteq> None \<and> agg v \<noteq> ''sum'') (pivotValues p))
        (Error (''A calculated field must use agg '' @ quote @ ''sum'' @ quote @ ''.''))
      (let axisFields = rowFieldNames @ columnFields;
           groupedFields = map groupingField (optList (groupings p));
           filteredFields = map filterField (optList (filters p)) in
      throwIf (list_ex (\<lambda>f. f \<notin> set axisFields) groupedFields)
        (Error ''A grouping field must be a row or column dimension field.'')
      (throwIf (\<not> distinct groupedFields) (Error ''A field can only have one grouping rule.'')
      (throwIf (list_ex (\<lambda>f. f \<notin> set axisFields) filteredFields)
        (Error ''A filter field must be a row or column dimension field.'')
      (throwIf (\<not> distinct filteredFields) (Error ''A field can only have one filter.'')
      (bindE (mapE (checkPivotFilter (length (pivotValues p))) (optList (filters p))) (\<lambda>_.
        Inr (pushOp (Layout (AddPivot (p\<lparr>rowFields := ManyFields rowFieldNames\<rparr>))) st)))))))))))))"

definition checkSeriesEntry :: "SeriesDataEntry \<Rightarrow> js_error + unit" where
  "checkSeriesEntry e =
     throwIf (seriesName e = None \<and> valuesRange e = None \<and> categoriesRange e = None)
       (Error (''seriesData[index='' @ intStr (seriesIndex e) @ ''] needs a name or a data range.'')) (Inr ())"

definition expandEditChart :: "expansion \<Rightarrow> EditChartOperation \<Rightarrow> js_error + expansion" where
  "expandEditChart st e =
     throwIf (chartTitle e = None \<and> editChartType e = None \<and> optList (seriesColors e) = [] \<and> legend e = None
         \<and> axisTitles e = None \<and> dataLabels e = None \<and> grouping e = None \<and> optList (seriesData e) = [])
       (Error ''edit_chart needs at least one of title / chartType / seriesColors / legend / dataLabels / grouping / axisTitles / seriesData.'')
     (bindE (mapE checkSeriesEntry (optList (seriesData e))) (\<lambda>_. Inr (pushOp (Layout (EditChart e)) st)))"

fun checkCfRule :: "CfRule \<Rightarrow> js_error + unit" where
  "checkCfRule (CfNumber o' v v2 f) =
     throwIf ((o' = ''between'' \<or> o' = ''notBetween'') \<and> v2 = None)
       (Error (''add_conditional_format with operator '' @ quote @ o' @ quote @ '' needs value2.'')) (Inr ())"
| "checkCfRule _ = Inr ()"

text \<open>\<open>s > t\<close> on strings.\<close>

fun textLess :: "string \<Rightarrow> string \<Rightarrow> bool" where
  "textLess s [] = False"
| "textLess [] (d # t) = True"
| "textLess (c # s) (d # t) = (code c < code d \<or> (c = d \<and> textLess s t))"

fun checkDvRule :: "DvRule option \<Rightarrow> js_error + unit" where
  "checkDvRule (Some (DvNumberBetween lo hi)) =
     throwIf (lo > hi) (Error (''set_data_validation numberBetween needs min '' @ leSign @ '' max.'')) (Inr ())"
| "checkDvRule (Some (DvDateBetween a b)) =
     throwIf (textLess b a) (Error (''set_data_validation dateBetween needs start '' @ leSign @ '' end.'')) (Inr ())"
| "checkDvRule _ = Inr ()"

definition expandPageSetup :: "expansion \<Rightarrow> PageSetupOperation \<Rightarrow> js_error + expansion" where
  "expandPageSetup st p =
     throwIf (orientation p = None \<and> paperSize p = None \<and> pageScale p = None \<and> fitToWidth p = None
         \<and> fitToHeight p = None \<and> margins p = None \<and> printGridlines p = None \<and> printHeadings p = None
         \<and> printArea p = Absent)
       (Error ''set_page_setup needs at least one setting.'')
     (throwIf (pageScale p \<noteq> None \<and> (fitToWidth p \<noteq> None \<or> fitToHeight p \<noteq> None))
       (Error ''set_page_setup: scale and fitToWidth/fitToHeight are mutually exclusive.'')
     (Inr (pushOp (Layout (SetPageSetup p)) st)))"

text \<open>The last branch: operations that pass through, counted when they edit content.\<close>

definition expandOther :: "expansion \<Rightarrow> PrimitiveOperation \<Rightarrow> js_error + expansion" where
  "expandOther st p =
     (if primitiveName p \<in> set CELL_CONTENT_OPS then pushCell st p else Inr (pushOp p st))"

fun expandLayout :: "expansion \<Rightarrow> LayoutOperation \<Rightarrow> js_error + expansion" where
  "expandLayout st (AddPivot p) = expandAddPivot st p"
| "expandLayout st (EditShape v t f a) =
     throwIf (t = None \<and> f = None \<and> a = None)
       (Error ''edit_shape needs at least one of text / fillColor / anchorCell.'')
       (Inr (pushOp (Layout (EditShape v t f a)) st))"
| "expandLayout st (EditChart e) = expandEditChart st e"
| "expandLayout st (AddConditionalFormat s r rule) =
     bindE (checkCfRule rule) (\<lambda>_. Inr (pushOp (Layout (AddConditionalFormat s r rule)) st))"
| "expandLayout st (SetDataValidation s r v) =
     bindE (checkDvRule v) (\<lambda>_. Inr (pushOp (Layout (SetDataValidation s r v)) st))"
| "expandLayout st (SetPageSetup p) = expandPageSetup st p"
| "expandLayout st l = expandOther st (Layout l)"

fun expandOperation ::
  "(real \<Rightarrow> string) \<Rightarrow> (string \<Rightarrow> string \<Rightarrow> real) \<Rightarrow> cellReader option \<Rightarrow> expansion \<Rightarrow> WorkbookOperation \<Rightarrow> js_error + expansion" where
  "expandOperation numStr lc reader st (SetRange op') = expandSetRange st op'"
| "expandOperation numStr lc reader st (Primitive (ClearRange s r)) = expandClearRange st s r"
| "expandOperation numStr lc reader st (Primitive (FillRange op')) =
     bindE (validateFillRange op') (\<lambda>_. Inr (pushOp (FillRange op') st))"
| "expandOperation numStr lc reader st (Primitive (CopyRange op')) =
     bindE (validateCopyRange op') (\<lambda>_. Inr (pushOp (CopyRange op') st))"
| "expandOperation numStr lc reader st (Primitive (ConvertToValues s r)) =
     expandCapped st r (''convert_to_values covers more than '' @ rangeCapText @ '' cells '' @ emDash @ '' convert it in several ranges.'')
       (ConvertToValues s r)"
| "expandOperation numStr lc reader st (Primitive (FormatRange s r f)) =
     expandCapped st r (''format_range covers more than '' @ rangeCapText @ '' cells.'') (FormatRange s r f)"
| "expandOperation numStr lc reader st (Primitive (FindReplace op')) = expandFindReplace reader st op'"
| "expandOperation numStr lc reader st (Primitive (SortRange op')) = expandSortRange numStr lc reader st op'"
| "expandOperation numStr lc reader st (Primitive (Layout l)) = expandLayout st l"
| "expandOperation numStr lc reader st (Primitive p) = expandOther st p"

definition expandToPrimitiveOps ::
  "(real \<Rightarrow> string) \<Rightarrow> (string \<Rightarrow> string \<Rightarrow> real) \<Rightarrow> WorkbookOperation list \<Rightarrow> cellReader option
     \<Rightarrow> js_error + PrimitiveOperation list" where
  "expandToPrimitiveOps numStr lc ops reader =
     bindE (convertToValuesBatchError ops) (\<lambda>convertBatchError.
     throwIf (truthy convertBatchError) (Error (the convertBatchError))
     (bindE (foldE (expandOperation numStr lc reader) ([], 0) ops) (\<lambda>st. Inr (fst st))))"

end
