(* ===== verification/ExpandProps.thy ===== *)
theory ExpandProps
  imports WorkbookExpand
begin

text \<open>
  What expansion promises the planner: the number of cell edits is capped, range-level
  operations that remain are within their size bounds and have passed their guards, every cell
  edit has an address that parses, and a \<open>set_range\<close> writes exactly its rectangle.
\<close>

section \<open>Schema-valid addresses parse\<close>

lemma cellAddressOk_parse:
  assumes "cellAddressOk a"
  shows "\<exists>p. parseAddress a = Inr p"
proof -
  let ?l = "takeWhile isUpper a" and ?d = "dropWhile isUpper a"
  have "list_all isUpper ?l" by (auto simp: list_all_iff dest: set_takeWhileD)
  moreover have len: "1 \<le> length ?l" "1 \<le> length ?d" and "list_all isDigit ?d" "hd ?d \<noteq> CHR ''0''"
    using assms unfolding cellAddressOk_def Let_def lengthIn_def by blast+
  moreover have "?l \<noteq> []" "?d \<noteq> []" using len by (metis list.size(3) not_one_le_zero)+
  ultimately have "matchAddress (?l @ ?d) = Some (?l, ?d)" by (intro matchAddress_join)
  then show ?thesis by (simp add: parseAddress_def)
qed

lemma cellAddressOk_nonempty: "cellAddressOk a \<Longrightarrow> a \<noteq> []"
  by (auto simp: cellAddressOk_def lengthIn_def)

lemma cellAddressOk_nocolon:
  assumes "cellAddressOk a"
  shows "CHR '':'' \<notin> set a"
proof
  assume "CHR '':'' \<in> set a"
  then have "CHR '':'' \<in> set (takeWhile isUpper a @ dropWhile isUpper a)" by simp
  then show False
    using assms class_disjoint(4,5) unfolding set_append
    by (auto simp: cellAddressOk_def Let_def list_all_iff dest: set_takeWhileD)
qed

lemma cellRangeOk_parse:
  assumes "cellRangeOk r"
  shows "\<exists>b. parseRange r = Inr b"
proof -
  have r: "join '':'' (splitOn (CHR '':'') r) = r" by (rule join_splitOn)
  from assms consider a where "splitOn (CHR '':'') r = [a]" "cellAddressOk a"
    | a b where "splitOn (CHR '':'') r = [a, b]" "cellAddressOk a" "cellAddressOk b"
    by (auto simp: cellRangeOk_def split: list.splits)
  then show ?thesis
  proof cases
    case (1 a)
    then show ?thesis
      using cellAddressOk_parse [OF 1(2)] cellAddressOk_nonempty [OF 1(2)]
      by (auto simp: parseRange_def nthOpt_def)
  next
    case (2 a b)
    then show ?thesis
      using cellAddressOk_parse [OF 2(2)] cellAddressOk_parse [OF 2(3)] cellAddressOk_nonempty
      by (auto simp: parseRange_def nthOpt_def)
  qed
qed

section \<open>The invariant of an expansion\<close>

fun contentAddress :: "CellContentOperation \<Rightarrow> string" where
  "contentAddress (SetCell _ a _ _) = a"
| "contentAddress (SetFormula _ a _ _) = a"
| "contentAddress (ClearCell _ a) = a"

definition isContent :: "PrimitiveOperation \<Rightarrow> bool" where
  "isContent p = (case p of Content _ \<Rightarrow> True | _ \<Rightarrow> False)"

definition rangeWithin :: "int \<Rightarrow> int \<Rightarrow> string \<Rightarrow> bool" where
  "rangeWithin lo hi r \<longleftrightarrow> (\<exists>b. parseRange r = Inr b \<and> lo < rangeCellCount b \<and> rangeCellCount b \<le> hi)"

text \<open>What is true of every operation the expansion emits.\<close>

fun emittedOk :: "PrimitiveOperation \<Rightarrow> bool" where
  "emittedOk (Content c) = isOk (parseAddress (contentAddress c))"
| "emittedOk (ClearRange s r) = rangeWithin MAX_EXPANDED_CELL_OPS MAX_RANGE_OP_CELLS r"
| "emittedOk (FindReplace f) = rangeWithin MAX_EXPANDED_CELL_OPS MAX_RANGE_OP_CELLS (findRange f)"
| "emittedOk (SortRange s) = rangeWithin MAX_EXPANDED_CELL_OPS MAX_RANGE_OP_CELLS (sortRange s)"
| "emittedOk (FormatRange s r f) = rangeWithin 0 MAX_RANGE_OP_CELLS r"
| "emittedOk (ConvertToValues s r) = rangeWithin 0 MAX_RANGE_OP_CELLS r"
| "emittedOk (FillRange f) = (validateFillRange f = Inr ())"
| "emittedOk (CopyRange c) = (validateCopyRange c = Inr ())"
| "emittedOk _ = True"

definition expansionOk :: "expansion \<Rightarrow> bool" where
  "expansionOk st \<longleftrightarrow> list_all emittedOk (fst st)
     \<and> int (length (filter isContent (fst st))) \<le> snd st \<and> snd st \<le> MAX_EXPANDED_CELL_OPS"

lemma rangeCellCount_pos: "boundsOk b \<Longrightarrow> 0 < rangeCellCount b"
  by (simp add: boundsOk_def rangeCellCount_def)

lemma pushOp_ok:
  "expansionOk st \<Longrightarrow> emittedOk p \<Longrightarrow> \<not> isContent p \<Longrightarrow> expansionOk (pushOp p st)"
  by (simp add: expansionOk_def pushOp_def)

lemma pushCell_ok:
  "pushCell st p = Inr st' \<Longrightarrow> expansionOk st \<Longrightarrow> emittedOk p \<Longrightarrow> expansionOk st'"
  by (auto simp: pushCell_def countCell_def Let_def res_simps expansionOk_def)

lemma foldE_pushCell_ok:
  "foldE pushCell st ps = Inr st' \<Longrightarrow> expansionOk st \<Longrightarrow> list_all emittedOk ps \<Longrightarrow> expansionOk st'"
proof (induction ps arbitrary: st)
  case (Cons p ps)
  then obtain st1 where "pushCell st p = Inr st1" "foldE pushCell st1 ps = Inr st'" by (auto simp: res_simps)
  with Cons pushCell_ok show ?case by fastforce
qed simp

lemma foldE_pushCell_ops: "foldE pushCell st ps = Inr st' \<Longrightarrow> fst st' = fst st @ ps"
proof (induction ps arbitrary: st)
  case (Cons p ps)
  then obtain st1 where s: "pushCell st p = Inr st1" "foldE pushCell st1 ps = Inr st'" by (auto simp: res_simps)
  then have "fst st1 = fst st @ [p]" by (auto simp: pushCell_def res_simps)
  with Cons.IH [OF s(2)] show ?case by simp
qed simp

section \<open>Each branch keeps it\<close>

lemma setRangeOrigin_ok: "setRangeOrigin op' = Inr b \<Longrightarrow> boundsOk b"
  by (auto simp: setRangeOrigin_def Let_def res_simps split: option.splits dest!: parseRange_ok)

lemma setRangeCell_content:
  "\<exists>c. setRangeCell s b i j v = Content c
     \<and> contentAddress c = formatAddress (startRow b + int i) (startColumn b + int j)"
  by (cases v) (auto simp: setRangeCell_def Let_def split: list.split)

lemma setRangeCell_ok: "boundsOk b \<Longrightarrow> emittedOk (setRangeCell s b i j v)"
proof -
  assume b: "boundsOk b"
  obtain c where c: "setRangeCell s b i j v = Content c"
    "contentAddress c = formatAddress (startRow b + int i) (startColumn b + int j)"
    using setRangeCell_content by blast
  have "parseAddress (contentAddress c) = Inr \<lparr>cellRow = startRow b + int i, cellColumn = startColumn b + int j\<rparr>"
    unfolding c(2) using b by (intro parseAddress_formatAddress) (simp_all add: boundsOk_def)
  then show ?thesis using c(1) by simp
qed

lemma expandSetRange_ok:
  assumes "expandSetRange st op' = Inr st'" "expansionOk st"
  shows "expansionOk st'"
proof -
  from assms(1) obtain b where b: "setRangeOrigin op' = Inr b"
    and f: "foldE pushCell st (concat (map (\<lambda>(rowOffset, rowValues).
             map (\<lambda>(columnOffset, value). setRangeCell (setSheetId op') b rowOffset columnOffset value)
               (enumerate 0 rowValues)) (enumerate 0 (setValues op')))) = Inr st'"
    by (auto simp: expandSetRange_def res_simps)
  show ?thesis
    by (rule foldE_pushCell_ok [OF f assms(2)])
      (auto simp: list_all_iff setRangeCell_ok [OF setRangeOrigin_ok [OF b]])
qed

lemma rangeAddresses_parse:
  "parseRange r = Inr b \<Longrightarrow> a \<in> set (rangeAddresses b) \<Longrightarrow> isOk (parseAddress a)"
  by (auto simp: rangeAddresses_set inBounds_def boundsOk_def parseAddress_formatAddress dest!: parseRange_ok)

lemma expandClearRange_ok:
  assumes "expandClearRange st s r = Inr st'" "expansionOk st"
  shows "expansionOk st'"
proof -
  from assms(1) obtain b where b: "parseRange r = Inr b" "rangeCellCount b \<le> MAX_RANGE_OP_CELLS"
    and e: "(if rangeCellCount b > MAX_EXPANDED_CELL_OPS then Inr (pushOp (ClearRange s r) st)
        else foldE pushCell st (map (\<lambda>a. Content (ClearCell s a)) (rangeAddresses b))) = Inr st'"
    by (auto simp: expandClearRange_def Let_def res_simps not_less)
  show ?thesis
  proof (cases "rangeCellCount b > MAX_EXPANDED_CELL_OPS")
    case True
    with b have "emittedOk (ClearRange s r)" by (simp add: rangeWithin_def)
    with True e assms(2) show ?thesis by (auto simp: isContent_def intro!: pushOp_ok)
  next
    case False
    with e have "foldE pushCell st (map (\<lambda>a. Content (ClearCell s a)) (rangeAddresses b)) = Inr st'" by simp
    then show ?thesis
      by (rule foldE_pushCell_ok [OF _ assms(2)]) (simp add: list_all_iff rangeAddresses_parse [OF b(1)])
  qed
qed

lemma expandCapped_ok:
  assumes "expandCapped st r m p = Inr st'" "expansionOk st" "\<not> isContent p"
    and "rangeWithin 0 MAX_RANGE_OP_CELLS r \<Longrightarrow> emittedOk p"
  shows "expansionOk st'"
proof -
  from assms(1) obtain b where b: "parseRange r = Inr b" "rangeCellCount b \<le> MAX_RANGE_OP_CELLS"
    and st': "st' = pushOp p st"
    by (auto simp: expandCapped_def res_simps not_less)
  have "rangeWithin 0 MAX_RANGE_OP_CELLS r"
    using b rangeCellCount_pos [OF parseRange_ok [OF b(1)]] by (simp add: rangeWithin_def)
  with assms st' show ?thesis by (simp add: pushOp_ok)
qed

lemma expandFindReplace_ok:
  assumes "expandFindReplace reader st op' = Inr st'" "expansionOk st"
  shows "expansionOk st'"
proof -
  from assms(1) obtain b where b: "parseRange (findRange op') = Inr b" "rangeCellCount b \<le> MAX_RANGE_OP_CELLS"
    by (auto simp: expandFindReplace_def Let_def res_simps not_less)
  show ?thesis
  proof (cases "rangeCellCount b > MAX_EXPANDED_CELL_OPS")
    case True
    with b have "emittedOk (FindReplace op')" by (simp add: rangeWithin_def)
    with True b assms show ?thesis
      by (auto simp: expandFindReplace_def isContent_def res_simps intro!: pushOp_ok)
  next
    case False
    with b assms(1) obtain readCell where f: "foldE (\<lambda>st address.
              bindE (readCell address (findSheetId op')) (\<lambda>current.
                case findReplaceNext op' current of
                  None \<Rightarrow> Inr st
                | Some next \<Rightarrow> pushCell st (Content (SetCell (findSheetId op') address (Str next) None))))
              st (rangeAddresses b) = Inr st'"
      by (auto simp: expandFindReplace_def split: option.splits)
    show ?thesis
    proof (rule foldE_inv [OF f, where P = expansionOk, OF assms(2)])
      fix s a s1
      assume a: "a \<in> set (rangeAddresses b)" and s: "expansionOk s"
        and step: "bindE (readCell a (findSheetId op')) (\<lambda>current.
                case findReplaceNext op' current of
                  None \<Rightarrow> Inr s
                | Some next \<Rightarrow> pushCell s (Content (SetCell (findSheetId op') a (Str next) None))) = Inr s1"
      then show "expansionOk s1"
        using rangeAddresses_parse [OF b(1) a]
        by (auto simp: res_simps split: option.splits intro: pushCell_ok)
    qed
  qed
qed


lemma readSortRows_nonempty:
  assumes "computeSortChanges numStr lc spec readCell = Inr cs" "c \<in> set cs"
  shows "isOk (parseAddress (changeAddress c))"
proof -
  from assms(1) obtain bounds keyColumn rows where b: "parseRange (specRange spec) = Inr bounds"
    and cs: "cs = concat (map (\<lambda>(offset, sourceIndex).
        sortRowChanges bounds (startRow bounds + (if specHasHeader spec then 1 else 0)) rows offset sourceIndex)
      (enumerate 0 (computeSortedRowOrder numStr lc rows (nat (keyColumn - startColumn bounds)) (specAscending spec))))"
    by (auto simp: computeSortChanges_def Let_def res_simps)
  from assms(2) obtain i j where
    "changeAddress c = formatAddress (startRow bounds + (if specHasHeader spec then 1 else 0) + int i) (startColumn bounds + int j)"
    unfolding cs by (auto simp: sortRowChanges_def sortCellChange_def Let_def split: option.splits if_splits)
  moreover have "0 \<le> startRow bounds" "0 \<le> startColumn bounds"
    using parseRange_ok [OF b] by (simp_all add: boundsOk_def)
  ultimately show ?thesis by (simp add: parseAddress_formatAddress)
qed

lemma expandSortRange_ok:
  assumes "expandSortRange numStr lc reader st op' = Inr st'" "expansionOk st"
  shows "expansionOk st'"
proof -
  from assms(1) obtain b where b: "parseRange (sortRange op') = Inr b" "rangeCellCount b \<le> MAX_RANGE_OP_CELLS"
    by (auto simp: expandSortRange_def Let_def res_simps not_less)
  show ?thesis
  proof (cases "rangeCellCount b > MAX_EXPANDED_CELL_OPS")
    case True
    with b have "emittedOk (SortRange op')" by (simp add: rangeWithin_def)
    with True b assms show ?thesis
      by (auto simp: expandSortRange_def isContent_def res_simps intro!: pushOp_ok)
  next
    case False
    with b assms(1) obtain readCell spec cs where
      cs: "computeSortChanges numStr lc spec readCell = Inr cs"
      and f: "foldE pushCell st (map (\<lambda>c. Content (SetCell (sortSheetId op') (changeAddress c) (changeAfter c)
            (Some (changeBefore c)))) cs) = Inr st'"
      by (auto simp: expandSortRange_def res_simps split: option.splits)
    show ?thesis
      by (rule foldE_pushCell_ok [OF f assms(2)]) (auto simp: list_all_iff readSortRows_nonempty [OF cs])
  qed
qed

lemma expandOther_ok:
  assumes "expandOther st p = Inr st'" "expansionOk st" "emittedOk p"
    and "isContent p \<Longrightarrow> primitiveName p \<in> set CELL_CONTENT_OPS"
  shows "expansionOk st'"
proof (cases "primitiveName p \<in> set CELL_CONTENT_OPS")
  case True
  with assms show ?thesis by (auto simp: expandOther_def intro: pushCell_ok)
next
  case False
  with assms show ?thesis by (auto simp: expandOther_def intro: pushOp_ok)
qed

lemma expandAddPivot_push: "expandAddPivot st p = Inr st' \<Longrightarrow>
   st' = pushOp (Layout (AddPivot (p\<lparr>rowFields := ManyFields (fieldsOf (rowFields p))\<rparr>))) st"
  unfolding expandAddPivot_def Let_def by (elim throwIf_Inr_iff [THEN iffD1, elim_format] conjE) (auto simp: res_simps)

lemma layout_emitted [simp]: "emittedOk (Layout l)" "\<not> isContent (Layout l)"
  by (simp_all add: isContent_def)

lemma expandLayout_ok:
  assumes "expandLayout st l = Inr st'" "expansionOk st"
  shows "expansionOk st'"
proof -
  have push: "expansionOk (pushOp (Layout k) st)" for k using assms(2) by (intro pushOp_ok) simp_all
  have other: "expandOther st (Layout k) = Inr st' \<Longrightarrow> expansionOk st'" for k
    using expandOther_ok [OF _ assms(2), of "Layout k"] by simp
  show ?thesis
  proof (cases l)
    case (AddPivot p)
    with assms expandAddPivot_push push show ?thesis by fastforce
  next
    case (EditChart e)
    with assms push show ?thesis by (auto simp: expandEditChart_def res_simps)
  next
    case (SetPageSetup p)
    with assms push show ?thesis by (auto simp: expandPageSetup_def res_simps)
  qed (use assms push other in \<open>auto simp: res_simps\<close>)
qed

lemma contentName_in: "primitiveName (Content c) \<in> set CELL_CONTENT_OPS"
  by (cases c) (simp_all add: CELL_CONTENT_OPS_def)

lemma contentOk_emitted: "contentOk c \<Longrightarrow> emittedOk (Content c)"
  using cellAddressOk_parse
  by (cases c) (auto simp: setCellOk_def setFormulaOk_def clearCellOk_def isOk_iff)

lemma expandOperation_ok:
  assumes "expandOperation numStr lc reader st x = Inr st'" "expansionOk st" "operationOk x"
  shows "expansionOk st'"
proof (cases x)
  case (SetRange op')
  with assms expandSetRange_ok show ?thesis by simp
next
  case (Primitive p)
  show ?thesis
  proof (cases p)
    case (Content c)
    with assms Primitive have e: "expandOther st (Content c) = Inr st'" and "contentOk c" by simp_all
    show ?thesis
      by (rule expandOther_ok [OF e assms(2) contentOk_emitted [OF \<open>contentOk c\<close>] contentName_in])
  next
    case (FormatRange s r f)
    with assms(1) Primitive have "expandCapped st r (''format_range covers more than '' @ rangeCapText @ '' cells.'')
        (FormatRange s r f) = Inr st'" by simp
    from expandCapped_ok [OF this assms(2)] show ?thesis by (simp add: isContent_def)
  next
    case (ConvertToValues s r)
    with assms(1) Primitive obtain m where "expandCapped st r m (ConvertToValues s r) = Inr st'" by simp
    from expandCapped_ok [OF this assms(2)] show ?thesis by (simp add: isContent_def)
  next
    case (FillRange f)
    with assms Primitive show ?thesis by (auto simp: res_simps isContent_def intro!: pushOp_ok)
  next
    case (CopyRange c)
    with assms Primitive show ?thesis by (auto simp: res_simps isContent_def intro!: pushOp_ok)
  next
    case (ClearRange s r)
    with assms Primitive expandClearRange_ok show ?thesis by simp
  next
    case (FindReplace f)
    with assms Primitive expandFindReplace_ok show ?thesis by simp
  next
    case (SortRange s)
    with assms Primitive expandSortRange_ok show ?thesis by simp
  next
    case (Layout l)
    with assms Primitive expandLayout_ok show ?thesis by simp
  next
    case (Structural s)
    with assms Primitive have e: "expandOther st p = Inr st'" by simp
    show ?thesis by (rule expandOther_ok [OF e assms(2)]) (simp_all add: Structural isContent_def)
  next
    case (RenameSheet s n)
    with assms Primitive have e: "expandOther st p = Inr st'" by simp
    show ?thesis by (rule expandOther_ok [OF e assms(2)]) (simp_all add: RenameSheet isContent_def)
  qed
qed

lemma expandToPrimitiveOps_ok:
  assumes "expandToPrimitiveOps numStr lc ops reader = Inr ps" "list_all operationOk ops"
  shows "list_all emittedOk ps \<and> int (length (filter isContent ps)) \<le> MAX_EXPANDED_CELL_OPS"
proof -
  from assms(1) obtain st where f: "foldE (expandOperation numStr lc reader) ([], 0) ops = Inr st" "ps = fst st"
    by (auto simp: expandToPrimitiveOps_def res_simps)
  have "expansionOk ([], 0)" by (simp add: expansionOk_def MAX_EXPANDED_CELL_OPS_def)
  then have "expansionOk st"
    by (rule foldE_inv [OF f(1)]) (use assms(2) expandOperation_ok in \<open>auto simp: list_all_iff\<close>)
  with f(2) show ?thesis by (auto simp: expansionOk_def)
qed

end
