(* ===== verification/Regex.thy ===== *)
theory Regex
  imports CellAddress
begin

text \<open>
  The fragment of JavaScript regular expressions the formula code uses, as an interpreter
  that returns the matches at a position in the order the backtracking matcher tries them:
  classes, greedy bounded repetition of a class, sequence, greedy option, ordered
  alternatives, capture groups, and one-character look-behind and look-ahead.
\<close>

datatype re =
  Class "char \<Rightarrow> bool"
| Many "char \<Rightarrow> bool" nat "nat option"  \<comment> \<open>at least, at most\<close>
| Seq re re
| Alt re re
| Opt re
| Group nat re
| NotBehind "char \<Rightarrow> bool"
| NotAhead "char \<Rightarrow> bool"

text \<open>A position: the character before it, the rest of the subject, and the groups captured so far.\<close>

type_synonym captures = "(nat \<times> string) list"
type_synonym position = "char option \<times> string \<times> captures"

definition lit :: "char \<Rightarrow> re" where "lit c = Class (\<lambda>x. x = c)"

definition lastOf :: "char option \<Rightarrow> string \<Rightarrow> char option" where
  "lastOf pv s = (if s = [] then pv else Some (last s))"

text \<open>\<open>x{lo,hi}\<close>: the longest run first.\<close>

definition runs :: "(char \<Rightarrow> bool) \<Rightarrow> nat \<Rightarrow> nat option \<Rightarrow> string \<Rightarrow> nat list" where
  "runs P lo hi s =
     (let n = length (takeWhile P s); m = (case hi of None \<Rightarrow> n | Some h \<Rightarrow> min h n)
      in rev [lo..<Suc m])"

definition advance :: "nat \<Rightarrow> position \<Rightarrow> position" where
  "advance n p = (case p of (pv, s, caps) \<Rightarrow> (lastOf pv (take n s), drop n s, caps))"

fun reMatch :: "re \<Rightarrow> position \<Rightarrow> position list" where
  "reMatch (Class P) (pv, s, caps) =
     (case s of [] \<Rightarrow> [] | c # t \<Rightarrow> if P c then [(Some c, t, caps)] else [])"
| "reMatch (Many P lo hi) (pv, s, caps) = map (\<lambda>n. advance n (pv, s, caps)) (runs P lo hi s)"
| "reMatch (Seq a b) p = concat (map (reMatch b) (reMatch a p))"
| "reMatch (Alt a b) p = reMatch a p @ reMatch b p"
| "reMatch (Opt a) p = reMatch a p @ [p]"
| "reMatch (Group g a) (pv, s, caps) =
     map (\<lambda>(pv', t, caps'). (pv', t, (g, take (length s - length t) s) # caps')) (reMatch a (pv, s, caps))"
| "reMatch (NotBehind P) (pv, s, caps) =
     (case pv of Some c \<Rightarrow> if P c then [] else [(pv, s, caps)] | None \<Rightarrow> [(pv, s, caps)])"
| "reMatch (NotAhead P) (pv, s, caps) =
     (case s of c # _ \<Rightarrow> if P c then [] else [(pv, s, caps)] | [] \<Rightarrow> [(pv, s, caps)])"

definition seqAll :: "re list \<Rightarrow> re" where
  "seqAll rs = foldr Seq (butlast rs) (last rs)"

text \<open>The first match at a position: the matched text, the groups, and the rest.\<close>

definition matchAt :: "re \<Rightarrow> char option \<Rightarrow> string \<Rightarrow> (string \<times> captures \<times> string) option" where
  "matchAt r pv s =
     (case reMatch r (pv, s, []) of
        [] \<Rightarrow> None
      | (_, t, caps) # _ \<Rightarrow> Some (take (length s - length t) s, caps, t))"

text \<open>A group that took part in the match; the patterns always capture the ones read here.\<close>

definition captured :: "captures \<Rightarrow> nat \<Rightarrow> string" where
  "captured caps g = (case map_of caps g of Some w \<Rightarrow> w | None \<Rightarrow> [])"

text \<open>
  \<open>s.replace(/re/g, callback)\<close> for an expression that matches no empty text; the callback may
  change variables of its closure, the state \<open>'s\<close>.
\<close>

function replaceAll ::
  "re \<Rightarrow> (string \<Rightarrow> captures \<Rightarrow> 's \<Rightarrow> string \<times> 's) \<Rightarrow> char option \<Rightarrow> string \<Rightarrow> 's \<Rightarrow> string \<times> 's" where
  "replaceAll r f pv [] st = ([], st)"
| "replaceAll r f pv (c # s) st =
     (case matchAt r pv (c # s) of
        Some (m, caps, t) \<Rightarrow>
          if length t < length (c # s) then
            (let (out, st1) = f m caps st;
                 (rest, st2) = replaceAll r f (lastOf pv m) t st1
             in (out @ rest, st2))
          else (let (rest, st1) = replaceAll r f (Some c) s st in (c # rest, st1))
      | None \<Rightarrow> (let (rest, st1) = replaceAll r f (Some c) s st in (c # rest, st1)))"
  by pat_completeness auto
termination
  by (relation "measure (\<lambda>(_, _, _, s, _). length s)") auto

declare replaceAll.simps [simp del]

section \<open>Splitting at string literals\<close>

text \<open>
  The rest of a literal after its opening quote, by \<open>(?:[^"]|"")*"\<close> with backtracking: a quote
  followed by a quote is an escaped one when the literal can still close later.
\<close>

fun closeLiteral :: "string \<Rightarrow> (string \<times> string) option" where
  "closeLiteral [] = None"
| "closeLiteral (c # s) =
     (if c \<noteq> CHR 0x22 then map_option (\<lambda>(l, t). (c # l, t)) (closeLiteral s)
      else case s of
        [] \<Rightarrow> Some ([c], [])
      | d # s' \<Rightarrow>
          if d \<noteq> CHR 0x22 then Some ([c], s)
          else case closeLiteral s' of
            Some (l, t) \<Rightarrow> Some (c # d # l, t)
          | None \<Rightarrow> Some ([c], s))"

lemma closeLiteral_append: "closeLiteral s = Some (l, t) \<Longrightarrow> s = l @ t \<and> l \<noteq> []"
proof (induction s arbitrary: l t rule: closeLiteral.induct)
  case (2 c s)
  show ?case
  proof (cases "c = CHR 0x22")
    case False
    with 2 show ?thesis by auto
  next
    case c: True
    show ?thesis
    proof (cases s)
      case (Cons d s')
      show ?thesis
      proof (cases "d = CHR 0x22 \<and> (\<exists>z. closeLiteral s' = Some z)")
        case True
        then obtain l' t' where "closeLiteral s' = Some (l', t')" by auto
        with 2 True c Cons show ?thesis by auto
      next
        case False
        with 2 c Cons show ?thesis by (auto split: if_splits option.splits)
      qed
    qed (use 2 c in auto)
  qed
qed simp

text \<open>\<open>formula.split(/("(?:[^"]|"")*")/)\<close>: texts at even and literals at odd positions.\<close>

function splitLiterals :: "string \<Rightarrow> string \<Rightarrow> string list" where
  "splitLiterals acc [] = [acc]"
| "splitLiterals acc (c # s) =
     (case (if c = CHR 0x22 then closeLiteral s else None) of
        Some (l, t) \<Rightarrow> acc # (c # l) # splitLiterals [] t
      | None \<Rightarrow> splitLiterals (acc @ [c]) s)"
  by pat_completeness auto
termination
  by (relation "measure (\<lambda>(_, s). length s)") (auto dest: closeLiteral_append split: if_splits)

declare splitLiterals.simps [simp del]

lemma concat_splitLiterals: "concat (splitLiterals acc s) = acc @ s"
  by (induction acc s rule: splitLiterals.induct)
    (auto simp: splitLiterals.simps dest: closeLiteral_append split: option.split if_splits)

lemma splitLiterals_odd: "odd (length (splitLiterals acc s))"
  by (induction acc s rule: splitLiterals.induct)
    (auto simp: splitLiterals.simps split: option.split if_splits)

lemma splitLiterals_plain: "CHR 0x22 \<notin> set s \<Longrightarrow> splitLiterals acc s = [acc @ s]"
  by (induction s arbitrary: acc) (auto simp: splitLiterals.simps)

section \<open>Laws of the matcher\<close>

lemma advance_append:
  "n \<le> length s \<Longrightarrow> advance n (pv, s, caps) = (lastOf pv (take n s), drop n s, caps)"
  by (simp add: advance_def)

text \<open>A match consumes a prefix of the subject.\<close>

lemma reMatch_suffix:
  "(pv', t, caps') \<in> set (reMatch r (pv, s, caps)) \<Longrightarrow> \<exists>m. s = m @ t"
proof (induction r arbitrary: pv s caps pv' t caps')
  case (Many P lo hi)
  then show ?case by (auto simp: advance_def) (metis append_take_drop_id)
next
  case (Seq a b)
  then obtain pv1 t1 caps1 where "(pv1, t1, caps1) \<in> set (reMatch a (pv, s, caps))"
    "(pv', t, caps') \<in> set (reMatch b (pv1, t1, caps1))" by auto
  with Seq.IH(1) [OF this(1)] Seq.IH(2) [OF this(2)] show ?case by auto
qed (auto split: list.splits option.splits if_splits)

lemma matchAt_append: "matchAt r pv s = Some (m, caps, t) \<Longrightarrow> s = m @ t"
proof -
  assume "matchAt r pv s = Some (m, caps, t)"
  then obtain pv' where "(pv', t, caps) \<in> set (reMatch r (pv, s, []))" "m = take (length s - length t) s"
    by (auto simp: matchAt_def split: list.splits)
  with reMatch_suffix [OF this(1)] show "s = m @ t" by auto
qed

text \<open>
  The rule by which properties of a replacement are proved: a relation between the subject and
  state before and the text and state after that holds of nothing, of a copied character and
  of a replaced match holds of every replacement.
\<close>

lemma replaceAll_rule:
  assumes nil: "\<And>st. R [] st [] st"
    and copy: "\<And>c s st out st'. R s st out st' \<Longrightarrow> R (c # s) st (c # out) st'"
    and repl: "\<And>pv m caps s st out1 st1 out2 st2. matchAt r pv (m @ s) = Some (m, caps, s) \<Longrightarrow>
      f m caps st = (out1, st1) \<Longrightarrow> R s st1 out2 st2 \<Longrightarrow> R (m @ s) st (out1 @ out2) st2"
    and run: "replaceAll r f pv s st = (out, st')"
  shows "R s st out st'"
  using run
proof (induction s arbitrary: pv st out st' rule: length_induct)
  case (1 s)
  show ?case
  proof (cases s)
    case Nil
    with 1 nil show ?thesis by (simp add: replaceAll.simps)
  next
    case (Cons c u)
    have keep: "R s st out st'" if "replaceAll r f pv s st = (let (rest, st1) = replaceAll r f (Some c) u st in (c # rest, st1))"
    proof -
      obtain rest st1 where rec: "replaceAll r f (Some c) u st = (rest, st1)" by fastforce
      with that 1 have "out = c # rest" "st' = st1" by simp_all
      moreover have "R u st rest st1" using 1 rec Cons by simp
      ultimately show ?thesis using copy Cons by simp
    qed
    show ?thesis
    proof (cases "matchAt r pv s")
      case None
      then show ?thesis using keep Cons by (simp add: replaceAll.simps)
    next
      case (Some z)
      then obtain m caps t where m: "matchAt r pv s = Some (m, caps, t)" by (cases z) auto
      note sp = matchAt_append [OF m]
      show ?thesis
      proof (cases "length t < length s")
        case False
        then show ?thesis using keep Cons m by (simp add: replaceAll.simps)
      next
        case True
        obtain out1 st1 where f1: "f m caps st = (out1, st1)" by fastforce
        obtain out2 st2 where f2: "replaceAll r f (lastOf pv m) t st1 = (out2, st2)" by fastforce
        have "out = out1 @ out2" "st' = st2" using 1(2) f1 f2 m True Cons by (simp_all add: replaceAll.simps)
        moreover have "R t st1 out2 st2" using 1(1) True f2 by blast
        ultimately show ?thesis using repl [OF _ f1] m sp by simp
      qed
    qed
  qed
qed

text \<open>If the callback leaves text alone whenever the flag stays unset, so does the replacement.\<close>

lemma replaceAll_unflagged:
  assumes run: "replaceAll r f pv s st = (out, st')" and unset: "\<not> flag st'"
    and f: "\<And>m caps st out st'. f m caps st = (out, st') \<Longrightarrow> \<not> flag st' \<Longrightarrow> \<not> flag st \<and> out = m"
  shows "\<not> flag st \<and> out = s"
proof -
  have "\<not> flag st' \<longrightarrow> \<not> flag st \<and> out = s"
    by (rule replaceAll_rule [OF _ _ _ run, where R = "\<lambda>s st out st'. \<not> flag st' \<longrightarrow> \<not> flag st \<and> out = s"])
      (use f in auto)
  with unset show ?thesis by blast
qed

text \<open>A property of the state that every match keeps.\<close>

lemma replaceAll_keeps:
  assumes run: "replaceAll r f pv s st = (out, st')" and init: "P st"
    and f: "\<And>pv m caps s st out st'. matchAt r pv (m @ s) = Some (m, caps, s) \<Longrightarrow>
      f m caps st = (out, st') \<Longrightarrow> P st \<Longrightarrow> P st'"
  shows "P st'"
proof -
  have "P st \<longrightarrow> P st'"
    by (rule replaceAll_rule [OF _ _ _ run, where R = "\<lambda>s st out st'. P st \<longrightarrow> P st'"]) (use f in auto)
  with init show ?thesis by blast
qed

section \<open>What the groups capture\<close>

text \<open>\<open>groupsIn Q r\<close>: every group of \<open>r\<close> is a run of a class, and \<open>Q\<close> holds of its captures.\<close>

fun groupsIn :: "(nat \<Rightarrow> string \<Rightarrow> bool) \<Rightarrow> re \<Rightarrow> bool" where
  "groupsIn Q (Group g a) =
     (case a of Many P lo hi \<Rightarrow> \<forall>w. list_all P w \<and> lo \<le> length w \<and> (\<forall>h. hi = Some h \<longrightarrow> length w \<le> h) \<longrightarrow> Q g w
      | _ \<Rightarrow> False)"
| "groupsIn Q (Seq a b) = (groupsIn Q a \<and> groupsIn Q b)"
| "groupsIn Q (Alt a b) = (groupsIn Q a \<and> groupsIn Q b)"
| "groupsIn Q (Opt a) = groupsIn Q a"
| "groupsIn Q _ = True"

lemma runs_ok: "n \<in> set (runs P lo hi s) \<Longrightarrow>
   lo \<le> n \<and> n \<le> length s \<and> list_all P (take n s) \<and> (\<forall>h. hi = Some h \<longrightarrow> n \<le> h)"
proof -
  assume "n \<in> set (runs P lo hi s)"
  then have n: "lo \<le> n" "n \<le> length (takeWhile P s)" "\<forall>h. hi = Some h \<longrightarrow> n \<le> h"
    by (auto simp: runs_def Let_def split: option.splits)
  have "take n (takeWhile P s @ dropWhile P s) = take n (takeWhile P s)"
    unfolding take_append using n(2) by simp
  then have "take n s = take n (takeWhile P s)" by (simp only: takeWhile_dropWhile_id)
  then have "list_all P (take n s)" by (auto simp: list_all_iff dest!: in_set_takeD set_takeWhileD)
  then show ?thesis using n length_takeWhile_le [of P s] by auto
qed

lemma reMatch_groups:
  "(pv', t, caps') \<in> set (reMatch r (pv, s, caps)) \<Longrightarrow> groupsIn Q r \<Longrightarrow>
   \<forall>(g, w)\<in>set caps. Q g w \<Longrightarrow> \<forall>(g, w)\<in>set caps'. Q g w"
proof (induction r arbitrary: pv s caps pv' t caps')
  case (Many P lo hi)
  then show ?case by (auto simp: advance_def)
next
  case (Seq a b)
  then obtain pv1 t1 caps1 where ab: "(pv1, t1, caps1) \<in> set (reMatch a (pv, s, caps))"
    "(pv', t, caps') \<in> set (reMatch b (pv1, t1, caps1))" by auto
  have "\<forall>(g, w)\<in>set caps1. Q g w" using Seq.IH(1) [OF ab(1)] Seq.prems by simp
  then show ?case using Seq.IH(2) [OF ab(2)] Seq.prems by simp
next
  case (Alt a b)
  from Alt.prems(1) consider "(pv', t, caps') \<in> set (reMatch a (pv, s, caps))"
    | "(pv', t, caps') \<in> set (reMatch b (pv, s, caps))" by auto
  then show ?case
  proof cases
    case 1
    from Alt.IH(1) [OF this _ Alt.prems(3)] Alt.prems(2) show ?thesis unfolding groupsIn.simps by blast
  next
    case 2
    from Alt.IH(2) [OF this _ Alt.prems(3)] Alt.prems(2) show ?thesis unfolding groupsIn.simps by blast
  qed
next
  case (Opt a)
  from Opt.prems(1) consider "(pv', t, caps') \<in> set (reMatch a (pv, s, caps))" | "caps' = caps" by auto
  then show ?case
  proof cases
    case 1
    from Opt.IH [OF this _ Opt.prems(3)] Opt.prems(2) show ?thesis unfolding groupsIn.simps by blast
  next
    case 2
    with Opt.prems(3) show ?thesis by (simp only:)
  qed
next
  case (Group g a)
  from Group.prems(2) obtain P lo hi where a: "a = Many P lo hi"
    and Q: "\<And>w. list_all P w \<Longrightarrow> lo \<le> length w \<Longrightarrow> \<forall>h. hi = Some h \<longrightarrow> length w \<le> h \<Longrightarrow> Q g w"
    by (cases a) auto
  from Group.prems(1) a obtain n where n: "n \<in> set (runs P lo hi s)" and t: "t = drop n s"
    "caps' = (g, take (length s - length t) s) # caps" by (auto simp: advance_def)
  note ok = runs_ok [OF n]
  have "take (length s - length t) s = take n s" using t ok by simp
  moreover have "Q g (take n s)" using ok by (intro Q) auto
  ultimately show ?case using t Group.prems(3) by simp
qed (auto split: list.splits option.splits if_splits)

lemma matchAt_groups:
  "matchAt r pv s = Some (m, caps, t) \<Longrightarrow> groupsIn Q r \<Longrightarrow> map_of caps g = Some w \<Longrightarrow> Q g w"
proof -
  assume "matchAt r pv s = Some (m, caps, t)" "groupsIn Q r" and w: "map_of caps g = Some w"
  then obtain pv' where "(pv', t, caps) \<in> set (reMatch r (pv, s, []))"
    by (auto simp: matchAt_def split: list.splits)
  from reMatch_groups [OF this \<open>groupsIn Q r\<close>] map_of_SomeD [OF w] show "Q g w" by auto
qed

end
