(* ===== verification/FormulaShift.thy ===== *)
theory FormulaShift
  imports Regex WorkbookTypes
begin

text \<open>
  Rewriting the references of a formula (\<open>formula-shift.ts\<close>): after rows or columns are inserted
  or deleted (\<open>shiftFormulaRefs\<close>), and when a formula is copied or filled
  (\<open>offsetFormulaRefs\<close>). The two regular expressions are data for the matcher of \<open>Regex\<close>.
\<close>

section \<open>Shifting an index\<close>

datatype Axis = RowAxis | ColumnAxis

record ShiftSpec =
  axis :: Axis
  shiftStart :: int
  shiftDelta :: int

fun shiftSpecForOp :: "StructuralOperation \<Rightarrow> js_error + ShiftSpec option" where
  "shiftSpecForOp (InsertRows _ row n) = Inr (Some \<lparr>axis = RowAxis, shiftStart = row - 1, shiftDelta = n\<rparr>)"
| "shiftSpecForOp (DeleteRows _ row n) = Inr (Some \<lparr>axis = RowAxis, shiftStart = row - 1, shiftDelta = - n\<rparr>)"
| "shiftSpecForOp (InsertCols _ column n) =
     bindE (columnIndex column) (\<lambda>c. Inr (Some \<lparr>axis = ColumnAxis, shiftStart = c, shiftDelta = n\<rparr>))"
| "shiftSpecForOp (DeleteCols _ column n) =
     bindE (columnIndex column) (\<lambda>c. Inr (Some \<lparr>axis = ColumnAxis, shiftStart = c, shiftDelta = - n\<rparr>))"
| "shiftSpecForOp (AddSheet _ _ _) = Inr None"
| "shiftSpecForOp (DeleteSheet _) = Inr None"
| "shiftSpecForOp (DuplicateSheet _ _) = Inr None"
| "shiftSpecForOp (SetSheetHidden _ _) = Inr None"
| "shiftSpecForOp (MoveSheet _ _) = Inr None"

definition shiftIndex :: "int \<Rightarrow> ShiftSpec \<Rightarrow> int option" where
  "shiftIndex index spec =
     (if index < shiftStart spec then Some index
      else if 0 < shiftDelta spec then Some (index + shiftDelta spec)
      else if index < shiftStart spec - shiftDelta spec then None
      else Some (index + shiftDelta spec))"

section \<open>References\<close>

record RefPart =
  colAbs :: string
  refCol :: int
  rowAbs :: string
  refRow :: int

definition formatRef :: "RefPart \<Rightarrow> string" where
  "formatRef p = colAbs p @ columnLabel (refCol p) @ rowAbs p @ intStr (refRow p + 1)"

definition shiftRefPart :: "RefPart \<Rightarrow> ShiftSpec \<Rightarrow> RefPart option" where
  "shiftRefPart p spec =
     (let v = (if axis spec = RowAxis then refRow p else refCol p) in
      case shiftIndex v spec of
        None \<Rightarrow> None
      | Some shifted \<Rightarrow> Some (if axis spec = RowAxis then p\<lparr>refRow := shifted\<rparr> else p\<lparr>refCol := shifted\<rparr>))"

datatype Side = StartSide | EndSide

definition clampRefPart :: "RefPart \<Rightarrow> ShiftSpec \<Rightarrow> Side \<Rightarrow> RefPart" where
  "clampRefPart p spec side =
     (let clamped = (if side = StartSide then shiftStart spec else shiftStart spec - 1)
      in if axis spec = RowAxis then p\<lparr>refRow := clamped\<rparr> else p\<lparr>refCol := clamped\<rparr>)"

section \<open>The patterns\<close>

definition wordChar :: "char \<Rightarrow> bool" where
  "wordChar c = (isAlnum c \<or> c = CHR ''_'' \<or> c = CHR ''.'')"

text \<open>\<open>(?:(?:'([^']+)'|([A-Za-z0-9_.]+))!)?\<close>: groups 1 and 2 are the sheet.\<close>

definition sheetPrefixRe :: re where
  "sheetPrefixRe = Opt (Seq
     (Alt (seqAll [lit (CHR 0x27), Group 1 (Many (\<lambda>c. c \<noteq> CHR 0x27) 1 None), lit (CHR 0x27)])
          (Group 2 (Many wordChar 1 None)))
     (lit (CHR ''!'')))"

definition anchorRe :: re where "anchorRe = Many (\<lambda>c. c = CHR ''$'') 0 (Some 1)"

definition REF_RE :: re where
  "REF_RE = seqAll
     [NotBehind (\<lambda>c. wordChar c \<or> c \<in> set ''$!''),
      sheetPrefixRe,
      Group 3 anchorRe, Group 4 (Many isUpper 1 (Some 3)),
      Group 5 anchorRe, Group 6 (Many isDigit 1 (Some 7)),
      Opt (seqAll [lit (CHR '':''), Group 7 anchorRe, Group 8 (Many isUpper 1 (Some 3)),
                   Group 9 anchorRe, Group 10 (Many isDigit 1 (Some 7))]),
      NotAhead (\<lambda>c. isAlnum c \<or> c = CHR ''('')]"

definition COLUMN_SPAN_RE :: re where
  "COLUMN_SPAN_RE = seqAll
     [NotBehind (\<lambda>c. wordChar c \<or> c \<in> set ''$!:''),
      sheetPrefixRe,
      Group 3 anchorRe, Group 4 (Many isUpper 1 (Some 3)), lit (CHR '':''),
      Group 5 anchorRe, Group 6 (Many isUpper 1 (Some 3)),
      NotAhead (\<lambda>c. isAlnum c \<or> c \<in> set ''($!:'')]"

text \<open>\<open>columnIndex\<close> of a captured column: its pattern only captures letters
  (\<open>ref_columns\<close> below), so the call never throws.\<close>

definition capturedColumn :: "captures \<Rightarrow> nat \<Rightarrow> int" where
  "capturedColumn caps g = (case columnIndex (captured caps g) of Inr k \<Rightarrow> k | Inl _ \<Rightarrow> 0)"

definition refPart :: "captures \<Rightarrow> nat \<Rightarrow> RefPart" where
  "refPart caps g =
     \<lparr>colAbs = captured caps g, refCol = capturedColumn caps (g + 1),
      rowAbs = captured caps (g + 2), refRow = int (digitsVal (captured caps (g + 3))) - 1\<rparr>"

definition quotedPrefix :: "captures \<Rightarrow> string" where
  "quotedPrefix caps =
     (case map_of caps 1 of
        Some q \<Rightarrow> apos @ q @ apos @ ''!''
      | None \<Rightarrow> (case map_of caps 2 of Some b \<Rightarrow> b @ ''!'' | None \<Rightarrow> []))"

section \<open>Copy and fill\<close>

definition MAX_GRID_ROWS :: int where "MAX_GRID_ROWS = 1048576"
definition MAX_GRID_COLUMNS :: int where "MAX_GRID_COLUMNS = 16384"

definition offsetRefPart :: "RefPart \<Rightarrow> int \<Rightarrow> int \<Rightarrow> RefPart option" where
  "offsetRefPart p rowDelta columnDelta =
     (let row = (if rowAbs p = ''$'' then refRow p else refRow p + rowDelta);
          col = (if colAbs p = ''$'' then refCol p else refCol p + columnDelta)
      in if row < 0 \<or> MAX_GRID_ROWS \<le> row \<or> col < 0 \<or> MAX_GRID_COLUMNS \<le> col then None
         else Some (p\<lparr>refRow := row, refCol := col\<rparr>))"

text \<open>The two replacement callbacks of \<open>offsetFormulaRefs\<close>.\<close>

definition offsetRefMatch :: "int \<Rightarrow> int \<Rightarrow> string \<Rightarrow> captures \<Rightarrow> unit \<Rightarrow> string \<times> unit" where
  "offsetRefMatch rowDelta columnDelta m caps st =
     (let prefix = quotedPrefix caps; first = offsetRefPart (refPart caps 3) rowDelta columnDelta in
      if map_of caps 8 = None then
        (case first of Some p \<Rightarrow> prefix @ formatRef p | None \<Rightarrow> prefix @ ''#REF!'', st)
      else
        (case (first, offsetRefPart (refPart caps 7) rowDelta columnDelta) of
           (Some p, Some q) \<Rightarrow> prefix @ formatRef p @ '':'' @ formatRef q
         | _ \<Rightarrow> prefix @ ''#REF!'', st))"

definition shiftColumnSpan :: "int \<Rightarrow> string \<Rightarrow> int \<Rightarrow> string \<Rightarrow> string option" where
  "shiftColumnSpan columnDelta anchor column letters =
     (if anchor = ''$'' then Some (''$'' @ letters)
      else let shifted = column + columnDelta
           in if shifted < 0 \<or> MAX_GRID_COLUMNS \<le> shifted then None else Some (columnLabel shifted))"

definition offsetSpanMatch :: "int \<Rightarrow> string \<Rightarrow> captures \<Rightarrow> unit \<Rightarrow> string \<times> unit" where
  "offsetSpanMatch columnDelta m caps st =
     (let prefix = quotedPrefix caps;
          first = shiftColumnSpan columnDelta (captured caps 3) (capturedColumn caps 4) (captured caps 4);
          second = shiftColumnSpan columnDelta (captured caps 5) (capturedColumn caps 6) (captured caps 6)
      in (case (first, second) of
            (Some p, Some q) \<Rightarrow> prefix @ p @ '':'' @ q
          | _ \<Rightarrow> prefix @ ''#REF!'', st))"

definition offsetSegment :: "int \<Rightarrow> int \<Rightarrow> string \<Rightarrow> string" where
  "offsetSegment rowDelta columnDelta segment =
     (let out = fst (replaceAll REF_RE (offsetRefMatch rowDelta columnDelta) None segment ())
      in if columnDelta \<noteq> 0
         then fst (replaceAll COLUMN_SPAN_RE (offsetSpanMatch columnDelta) None out ())
         else out)"

text \<open>Apply a function to the segments at even positions, keep the literals.\<close>

fun mapSegments :: "(string \<Rightarrow> string) \<Rightarrow> string list \<Rightarrow> string list" where
  "mapSegments f [] = []"
| "mapSegments f [t] = [f t]"
| "mapSegments f (t # l # ts) = f t # l # mapSegments f ts"

definition offsetFormulaRefs :: "string \<Rightarrow> int \<Rightarrow> int \<Rightarrow> string" where
  "offsetFormulaRefs formula' rowDelta columnDelta =
     (if rowDelta = 0 \<and> columnDelta = 0 then formula'
      else concat (mapSegments (offsetSegment rowDelta columnDelta) (splitLiterals [] formula')))"

section \<open>Inserts and deletes\<close>

record ShiftFlags =
  changed :: bool
  hasRefError :: bool

record FormulaShiftResult = ShiftFlags +
  shiftedFormula :: string

text \<open>The replacement callback; \<open>changed\<close> and \<open>hasRefError\<close> are its closure.\<close>

definition shiftRefMatch ::
  "ShiftSpec \<Rightarrow> bool \<Rightarrow> string \<Rightarrow> string \<Rightarrow> captures \<Rightarrow> ShiftFlags \<Rightarrow> string \<times> ShiftFlags" where
  "shiftRefMatch spec formulaSheetMatchesOp opSheetName m caps fl =
     (let prefixSheet = (case map_of caps 1 of Some q \<Rightarrow> Some q | None \<Rightarrow> map_of caps 2);
          applies = (case prefixSheet of None \<Rightarrow> formulaSheetMatchesOp | Some s \<Rightarrow> s = opSheetName)
      in if \<not> applies then (m, fl)
         else
           let prefix = quotedPrefix caps;
               refError = fl\<lparr>changed := True, hasRefError := True\<rparr>;
               first = refPart caps 3
           in if map_of caps 8 = None then
                (case shiftRefPart first spec of
                   None \<Rightarrow> (prefix @ ''#REF!'', refError)
                 | Some p \<Rightarrow>
                     let next = prefix @ formatRef p
                     in (next, if next \<noteq> m then fl\<lparr>changed := True\<rparr> else fl))
              else
                let second = refPart caps 7;
                    shiftedFirst = shiftRefPart first spec;
                    shiftedSecond = shiftRefPart second spec
                in if shiftedFirst = None \<and> shiftedSecond = None then (prefix @ ''#REF!'', refError)
                   else
                     let p = (case shiftedFirst of Some p \<Rightarrow> p | None \<Rightarrow> clampRefPart first spec StartSide);
                         q = (case shiftedSecond of Some q \<Rightarrow> q | None \<Rightarrow> clampRefPart second spec EndSide);
                         next = prefix @ formatRef p @ '':'' @ formatRef q
                     in (next, if next \<noteq> m then fl\<lparr>changed := True\<rparr> else fl))"

fun shiftSegments :: "(string \<Rightarrow> ShiftFlags \<Rightarrow> string \<times> ShiftFlags) \<Rightarrow> string list \<Rightarrow> ShiftFlags \<Rightarrow> string list \<times> ShiftFlags" where
  "shiftSegments f [] fl = ([], fl)"
| "shiftSegments f [t] fl = (let (t', fl') = f t fl in ([t'], fl'))"
| "shiftSegments f (t # l # ts) fl =
     (let (t', fl1) = f t fl; (ts', fl2) = shiftSegments f ts fl1 in (t' # l # ts', fl2))"

definition shiftFormulaRefs ::
  "string \<Rightarrow> StructuralOperation \<Rightarrow> bool \<Rightarrow> string \<Rightarrow> js_error + FormulaShiftResult" where
  "shiftFormulaRefs formula' op' formulaSheetMatchesOp opSheetName =
     bindE (shiftSpecForOp op') (\<lambda>s. case s of
       None \<Rightarrow> Inr \<lparr>changed = False, hasRefError = False, shiftedFormula = formula'\<rparr>
     | Some spec \<Rightarrow>
         let (rewritten, fl) =
           shiftSegments (\<lambda>t fl. replaceAll REF_RE (shiftRefMatch spec formulaSheetMatchesOp opSheetName) None t fl)
             (splitLiterals [] formula') \<lparr>changed = False, hasRefError = False\<rparr>
         in Inr \<lparr>changed = changed fl, hasRefError = hasRefError fl, shiftedFormula = concat rewritten\<rparr>)"

section \<open>Indices\<close>

lemma shiftIndex_insert: "0 < n \<Longrightarrow> shiftDelta spec = n \<Longrightarrow>
   shiftIndex i spec = Some (if i < shiftStart spec then i else i + n)"
  by (simp add: shiftIndex_def)

lemma shiftIndex_delete: "0 < n \<Longrightarrow> shiftDelta spec = - n \<Longrightarrow>
   shiftIndex i spec = (if i < shiftStart spec then Some i
     else if i < shiftStart spec + n then None else Some (i - n))"
  by (simp add: shiftIndex_def)

lemma shiftIndex_mono:
  "i \<le> j \<Longrightarrow> shiftIndex i spec = Some i' \<Longrightarrow> shiftIndex j spec = Some j' \<Longrightarrow> i' \<le> j'"
  by (auto simp: shiftIndex_def split: if_splits)

lemma shiftIndex_inj:
  "shiftIndex i spec = Some k \<Longrightarrow> shiftIndex j spec = Some k \<Longrightarrow> shiftDelta spec \<noteq> 0 \<Longrightarrow> i = j"
  by (auto simp: shiftIndex_def split: if_splits)

lemma shiftIndex_nonneg:
  "shiftIndex i spec = Some k \<Longrightarrow> 0 \<le> i \<Longrightarrow> 0 \<le> shiftStart spec \<Longrightarrow> 0 \<le> k"
  by (auto simp: shiftIndex_def split: if_splits)

lemma delete_undoes_insert:
  "0 < n \<Longrightarrow> shiftIndex i \<lparr>axis = a, shiftStart = k, shiftDelta = n\<rparr> = Some j \<Longrightarrow>
   shiftIndex j \<lparr>axis = a, shiftStart = k, shiftDelta = - n\<rparr> = Some i"
  by (auto simp: shiftIndex_def split: if_splits)

lemma shiftSpec_delta:
  "structuralOk op' \<Longrightarrow> shiftSpecForOp op' = Inr (Some spec) \<Longrightarrow> shiftDelta spec \<noteq> 0 \<and> 0 \<le> shiftStart spec"
  by (cases op') (auto simp: insertRowsOk_def deleteRowsOk_def insertColsOk_def deleteColsOk_def
      intIn_def res_simps dest: columnIndex_ok)

lemma columnLabelOk_index: "columnLabelOk c \<Longrightarrow> \<exists>k. columnIndex c = Inr k"
  by (auto simp: columnLabelOk_def lengthIn_def columnIndex_def)

lemma shiftSpecForOp_total: "structuralOk op' \<Longrightarrow> \<exists>s. shiftSpecForOp op' = Inr s"
  by (cases op') (auto simp: insertColsOk_def deleteColsOk_def dest!: columnLabelOk_index)

section \<open>What the callbacks do\<close>

lemma shiftRefMatch_unchanged:
  "shiftRefMatch spec b name m caps fl = (out, fl') \<Longrightarrow> \<not> changed fl' \<Longrightarrow> \<not> changed fl \<and> out = m"
  by (auto simp: shiftRefMatch_def Let_def split: if_splits option.splits)

lemma shiftRefMatch_flags:
  "shiftRefMatch spec b name m caps fl = (out, fl') \<Longrightarrow> (hasRefError fl \<longrightarrow> changed fl) \<Longrightarrow>
   hasRefError fl' \<longrightarrow> changed fl'"
  by (auto simp: shiftRefMatch_def Let_def split: if_splits option.splits)

lemma shiftRefMatch_insert:
  assumes "shiftRefMatch spec b name m caps fl = (out, fl')" "0 < shiftDelta spec" "\<not> hasRefError fl"
  shows "\<not> hasRefError fl'"
proof -
  have "\<exists>q. shiftRefPart p spec = Some q" for p using assms(2)
    by (simp add: shiftRefPart_def shiftIndex_def Let_def)
  then obtain p q where "shiftRefPart (refPart caps 3) spec = Some p" "shiftRefPart (refPart caps 7) spec = Some q"
    by blast
  with assms(1,3) show ?thesis
    by (auto simp: shiftRefMatch_def Let_def split: if_splits option.splits)
qed

text \<open>The columns a match captures are letters, so \<open>columnIndex\<close> returns on them.\<close>

lemma ref_groups:
  "groupsIn (\<lambda>g w. g \<in> {4, 8} \<longrightarrow> list_all isUpper w \<and> w \<noteq> []) REF_RE"
  by (auto simp: REF_RE_def sheetPrefixRe_def anchorRe_def seqAll_def lit_def)

lemma ref_columns:
  assumes "matchAt REF_RE pv s = Some (m, caps, t)" "g \<in> {4, 8}" "map_of caps g = Some w"
  shows "columnIndex (captured caps g) = Inr (capturedColumn caps g)"
proof -
  from matchAt_groups [OF assms(1) ref_groups assms(3)] assms(2)
  have "list_all isUpper w \<and> w \<noteq> []" by blast
  then show ?thesis using assms(3) by (simp add: capturedColumn_def captured_def columnIndex_def)
qed

section \<open>Segments\<close>

fun literals :: "string list \<Rightarrow> string list" where
  "literals (t # l # ts) = l # literals ts"
| "literals _ = []"

lemma literals_mapSegments: "literals (mapSegments f ts) = literals ts"
  by (induction f ts rule: mapSegments.induct) auto

lemma literals_shiftSegments: "literals (fst (shiftSegments f ts fl)) = literals ts"
  by (induction f ts fl rule: shiftSegments.induct) (auto split: prod.splits)

lemma shiftSegments_keeps:
  assumes "shiftSegments f ts fl = (us, fl')" "P fl"
    and "\<And>t fl out fl'. f t fl = (out, fl') \<Longrightarrow> P fl \<Longrightarrow> P fl'"
  shows "P fl'"
  using assms(1,2)
proof (induction ts arbitrary: fl us rule: induct_list012)
  case (2 t)
  then show ?case using assms(3) by (auto split: prod.splits)
next
  case (3 t l ts)
  obtain t' fl1 where t': "f t fl = (t', fl1)" by fastforce
  obtain ts' fl2 where ts': "shiftSegments f ts fl1 = (ts', fl2)" by fastforce
  have "fl2 = fl'" using 3 t' ts' by simp
  with 3 t' ts' assms(3) show ?case by blast
qed simp

lemma shiftSegments_unflagged:
  assumes "shiftSegments f ts fl = (us, fl')" "\<not> changed fl'"
    and f: "\<And>t fl out fl'. f t fl = (out, fl') \<Longrightarrow> \<not> changed fl' \<Longrightarrow> \<not> changed fl \<and> out = t"
  shows "\<not> changed fl \<and> us = ts"
  using assms(1,2)
proof (induction ts arbitrary: fl us rule: induct_list012)
  case (2 t)
  then show ?case using f by (fastforce split: prod.splits)
next
  case (3 t l ts)
  obtain t' fl1 where t': "f t fl = (t', fl1)" by fastforce
  obtain ts' fl2 where ts': "shiftSegments f ts fl1 = (ts', fl2)" by fastforce
  from 3 t' ts' have "fl2 = fl'" "us = t' # l # ts'" by simp_all
  with 3 ts' have "\<not> changed fl1 \<and> ts' = ts" by blast
  with f [OF t'] \<open>us = _\<close> show ?case by simp
qed simp

lemma shiftFormulaRefs_cases:
  assumes "shiftFormulaRefs f op' b name = Inr r"
  obtains "shiftSpecForOp op' = Inr None" "r = \<lparr>changed = False, hasRefError = False, shiftedFormula = f\<rparr>"
  | spec us fl where "shiftSpecForOp op' = Inr (Some spec)"
    "shiftSegments (\<lambda>t fl. replaceAll REF_RE (shiftRefMatch spec b name) None t fl)
       (splitLiterals [] f) \<lparr>changed = False, hasRefError = False\<rparr> = (us, fl)"
    "r = \<lparr>changed = changed fl, hasRefError = hasRefError fl, shiftedFormula = concat us\<rparr>"
proof -
  from assms obtain o' where o': "shiftSpecForOp op' = Inr o'" by (auto simp: shiftFormulaRefs_def res_simps)
  show thesis
  proof (cases o')
    case None
    with assms o' that(1) show ?thesis by (simp add: shiftFormulaRefs_def)
  next
    case (Some spec)
    obtain us fl where "shiftSegments (\<lambda>t fl. replaceAll REF_RE (shiftRefMatch spec b name) None t fl)
       (splitLiterals [] f) \<lparr>changed = False, hasRefError = False\<rparr> = (us, fl)" by fastforce
    with Some assms o' that(2) show ?thesis by (simp add: shiftFormulaRefs_def)
  qed
qed

text \<open>An unchanged flag means the formula is unchanged.\<close>

lemma shiftFormulaRefs_unchanged:
  assumes "shiftFormulaRefs f op' b name = Inr r" "\<not> changed r"
  shows "shiftedFormula r = f"
  using assms(1)
proof (cases rule: shiftFormulaRefs_cases)
  case (2 spec us fl)
  have "us = splitLiterals [] f"
    using shiftSegments_unflagged [OF 2(2)] assms(2) 2(3)
      replaceAll_unflagged [where flag = changed] shiftRefMatch_unchanged by fastforce
  with 2 show ?thesis by (simp add: concat_splitLiterals)
qed simp

lemma shiftFormulaRefs_refError:
  assumes "shiftFormulaRefs f op' b name = Inr r" "hasRefError r"
  shows "changed r"
  using assms(1)
proof (cases rule: shiftFormulaRefs_cases)
  case (2 spec us fl)
  have "hasRefError fl \<longrightarrow> changed fl"
  proof (rule shiftSegments_keeps [OF 2(2), where P = "\<lambda>fl. hasRefError fl \<longrightarrow> changed fl"])
    fix t fl out fl'
    assume r: "replaceAll REF_RE (shiftRefMatch spec b name) None t fl = (out, fl')"
      and h: "hasRefError fl \<longrightarrow> changed (fl :: ShiftFlags)"
    show "hasRefError fl' \<longrightarrow> changed fl'"
      by (rule replaceAll_keeps [where P = "\<lambda>fl. hasRefError fl \<longrightarrow> changed fl", OF r h]) (use shiftRefMatch_flags in blast)
  qed simp
  with 2 assms(2) show ?thesis by simp
qed (use assms in simp)

lemma shiftFormulaRefs_insert:
  assumes "shiftFormulaRefs f op' b name = Inr r" "shiftSpecForOp op' = Inr (Some spec)" "0 < shiftDelta spec"
  shows "\<not> hasRefError r"
  using assms(1)
proof (cases rule: shiftFormulaRefs_cases)
  case (2 spec' us fl)
  have "\<not> hasRefError fl"
  proof (rule shiftSegments_keeps [OF 2(2), where P = "\<lambda>fl. \<not> hasRefError fl"])
    fix t fl out fl'
    assume r: "replaceAll REF_RE (shiftRefMatch spec' b name) None t fl = (out, fl')"
      and h: "\<not> hasRefError (fl :: ShiftFlags)"
    show "\<not> hasRefError fl'"
      by (rule replaceAll_keeps [where P = "\<lambda>fl. \<not> hasRefError fl", OF r h]) (use shiftRefMatch_insert assms(2,3) 2(1) in auto)
  qed simp
  with 2 show ?thesis by simp
qed (use assms in simp)

lemma shiftFormulaRefs_literals:
  assumes "shiftFormulaRefs f op' b name = Inr r"
  shows "\<exists>us. shiftedFormula r = concat us \<and> length us = length (splitLiterals [] f)
    \<and> literals us = literals (splitLiterals [] f)"
proof -
  have len: "length (fst (shiftSegments g ts fl)) = length ts" for g ts fl
    by (induction g ts fl rule: shiftSegments.induct) (auto split: prod.splits)
  from assms show ?thesis
  proof (cases rule: shiftFormulaRefs_cases)
    case 1
    then show ?thesis by (intro exI [of _ "splitLiterals [] f"]) (simp add: concat_splitLiterals)
  next
    case (2 spec us fl)
    then show ?thesis
      using literals_shiftSegments len by (intro exI [of _ us]) (metis fst_conv FormulaShiftResult.select_convs)
  qed
qed

end
