(* ===== verification/FormulaRef.thy ===== *)
theory FormulaRef
  imports FormulaShift
begin

text \<open>
  What the rewriting does to a formula that is one reference: the pattern recognises the text
  of a reference, so the reference moves with its cell, becomes \<open>#REF!\<close> exactly when its cell
  is deleted, and an insert followed by the matching delete gives the formula back.
\<close>

section \<open>The first match of an expression\<close>

definition firstMatch :: "re \<Rightarrow> position \<Rightarrow> position \<Rightarrow> bool" where
  "firstMatch r p q \<longleftrightarrow> (\<exists>qs. reMatch r p = q # qs)"

lemma first_Seq: "firstMatch a p q \<Longrightarrow> firstMatch b q r \<Longrightarrow> firstMatch (Seq a b) p r"
  by (auto simp: firstMatch_def)

lemma seqAll_simps: "seqAll [r] = r" "seqAll (a # b # rs) = Seq a (seqAll (b # rs))"
  by (simp_all add: seqAll_def)

lemma first_Opt_none: "reMatch a p = [] \<Longrightarrow> firstMatch (Opt a) p p"
  by (simp add: firstMatch_def)

lemma first_Many:
  assumes "list_all P w" "t = [] \<or> \<not> P (hd t)" "lo \<le> length w" "\<And>h. hi = Some h \<Longrightarrow> length w \<le> h"
  shows "firstMatch (Many P lo hi) (pv, w @ t, caps) (lastOf pv w, t, caps)"
proof -
  have "takeWhile P (w @ t) = w"
    using assms(1,2) by (cases t) (simp_all add: takeWhile_append list_all_iff takeWhile_eq_all_conv [THEN iffD2])
  then have "runs P lo hi (w @ t) = length w # rev [lo..<length w]"
    using assms(3,4) by (cases hi) (auto simp: runs_def Let_def min_absorb2)
  then show ?thesis by (simp add: firstMatch_def advance_def)
qed

lemma first_Group:
  assumes "firstMatch a (pv, w @ t, caps) (pv', t, caps')"
  shows "firstMatch (Group g a) (pv, w @ t, caps) (pv', t, (g, w) # caps')"
  using assms by (auto simp: firstMatch_def)

lemma first_group_run:
  assumes "list_all P w" "t = [] \<or> \<not> P (hd t)" "lo \<le> length w" "length w \<le> h"
  shows "firstMatch (Group g (Many P lo (Some h))) (pv, w @ t, caps) (lastOf pv w, t, (g, w) # caps)"
  by (rule first_Group [OF first_Many]) (use assms in auto)

lemma first_NotBehind: "(\<And>c. pv = Some c \<Longrightarrow> \<not> P c) \<Longrightarrow> firstMatch (NotBehind P) (pv, s, caps) (pv, s, caps)"
  by (cases pv) (auto simp: firstMatch_def)

lemma first_NotAhead_end: "firstMatch (NotAhead P) (pv, [], caps) (pv, [], caps)"
  by (simp add: firstMatch_def)

text \<open>An expression that ends in a character the subject lacks does not match.\<close>

lemma no_match_absent:
  assumes "c \<notin> set s"
  shows "reMatch (Seq a (lit c)) (pv, s, caps) = []"
proof -
  have "reMatch (lit c) p = []" if "p \<in> set (reMatch a (pv, s, caps))" for p
  proof -
    obtain pv' t caps' where p: "p = (pv', t, caps')" by (cases p) auto
    with that reMatch_suffix obtain m where "s = m @ t" by blast
    with assms p show ?thesis by (cases t) (auto simp: lit_def)
  qed
  then show ?thesis by simp
qed

lemma first_no_prefix: "CHR ''!'' \<notin> set s \<Longrightarrow> firstMatch sheetPrefixRe (pv, s, caps) (pv, s, caps)"
  unfolding sheetPrefixRe_def by (intro first_Opt_none no_match_absent)

section \<open>The text of a reference\<close>

definition refOk :: "RefPart \<Rightarrow> bool" where
  "refOk p \<longleftrightarrow> colAbs p \<in> {[], ''$''} \<and> rowAbs p \<in> {[], ''$''}
     \<and> 0 \<le> refCol p \<and> refCol p < 18278 \<and> 0 \<le> refRow p \<and> refRow p < 9999999"

lemma columnLabel_length:
  "0 \<le> k \<Longrightarrow> k < 18278 \<Longrightarrow> 1 \<le> length (columnLabel k) \<and> length (columnLabel k) \<le> 3"
proof -
  assume k: "0 \<le> k" "k < 18278"
  have one: "length (columnLabel j) = 1" if "0 \<le> j" "j < 26" for j
    using that by (subst columnLabel_step) simp_all
  have two: "length (columnLabel j) \<le> 2" if "0 \<le> j" "j < 702" for j
    using that one [of "j div 26 - 1"] by (subst columnLabel_step) auto
  show ?thesis
    using k two [of "k div 26 - 1"] by (subst (1 2) columnLabel_step) auto
qed

lemma rowText:
  "0 \<le> r \<Longrightarrow> r < 9999999 \<Longrightarrow> list_all isDigit (intStr (r + 1)) \<and> 1 \<le> length (intStr (r + 1))
     \<and> length (intStr (r + 1)) \<le> 7 \<and> digitsVal (intStr (r + 1)) = nat (r + 1)"
  using natStr_digits [of "nat (r + 1)"] natStr_length [of "nat (r + 1)" 7] natStr_nonempty [of "nat (r + 1)"]
  by (auto simp: intStr_def list_all_iff Suc_le_eq simp del: natStr_nonempty)

lemma refText_chars:
  assumes "refOk p"
  shows "CHR ''!'' \<notin> set (formatRef p)"
  using assms columnLabel_upper [of "refCol p"] rowText [of "refRow p"]
  by (auto simp: formatRef_def refOk_def list_all_iff isUpper_def isDigit_def code_def)

text \<open>At the text of a reference the pattern matches all of it and captures its parts.\<close>

definition refCaptures :: "RefPart \<Rightarrow> captures" where
  "refCaptures p = [(6, intStr (refRow p + 1)), (5, rowAbs p), (4, columnLabel (refCol p)), (3, colAbs p)]"

lemma firstMatch_ref:
  assumes ok: "refOk p" and pv: "\<And>c. pv = Some c \<Longrightarrow> \<not> wordChar c \<and> c \<notin> set ''$!''"
  shows "\<exists>pv'. firstMatch REF_RE (pv, formatRef p, []) (pv', [], refCaptures p)"
proof -
  let ?L = "columnLabel (refCol p)" and ?D = "intStr (refRow p + 1)"
  have L: "list_all isUpper ?L" "1 \<le> length ?L" "length ?L \<le> 3"
    using ok columnLabel_upper columnLabel_length by (simp_all add: refOk_def)
  have D: "list_all isDigit ?D" "1 \<le> length ?D" "length ?D \<le> 7"
    using ok rowText by (simp_all add: refOk_def)
  have hdL: "isUpper (hd ?L)"
    using L by (cases ?L) simp_all
  have hdD: "isDigit (hd ?D)" using D by (cases ?D) simp_all
  have abs: "list_all (\<lambda>c. c = CHR ''$'') (colAbs p)" "length (colAbs p) \<le> 1"
    "list_all (\<lambda>c. c = CHR ''$'') (rowAbs p)" "length (rowAbs p) \<le> 1"
    using ok by (auto simp: refOk_def)
  have refTxt: "formatRef p = colAbs p @ ?L @ rowAbs p @ ?D" by (simp add: formatRef_def)
  have "hd (?L @ rowAbs p @ ?D) \<noteq> CHR ''$''" using hdL L class_disjoint(2) by (cases ?L) auto
  note m3 = first_group_run [where g = 3 and P = "\<lambda>c. c = CHR ''$''" and lo = 0 and h = 1 and w = "colAbs p",
      OF abs(1) disjI2 [OF this] le0 abs(2)]
  have "\<not> isUpper (hd (rowAbs p @ ?D))" using hdD class_disjoint(1) ok
    by (auto simp: refOk_def isUpper_def code_def)
  note m4 = first_group_run [where g = 4 and w = ?L, OF L(1) disjI2 [OF this] L(2,3)]
  have "hd ?D \<noteq> CHR ''$''" using hdD class_disjoint(3) by blast
  note m5 = first_group_run [where g = 5 and P = "\<lambda>c. c = CHR ''$''" and lo = 0 and h = 1 and w = "rowAbs p",
      OF abs(3) disjI2 [OF this] le0 abs(4)]
  note m6 = first_group_run [where g = 6 and w = ?D and t = "[]", OF D(1) disjI1 [OF refl] D(2,3)]
  have tail: "firstMatch (Opt (seqAll [lit (CHR '':''), Group 7 anchorRe, Group 8 (Many isUpper 1 (Some 3)),
      Group 9 anchorRe, Group 10 (Many isDigit 1 (Some 7))])) (pv', [], caps) (pv', [], caps)" for pv' caps
    by (rule first_Opt_none) (simp add: seqAll_def lit_def)
  have bang: "CHR ''!'' \<notin> set (colAbs p @ ?L @ rowAbs p @ ?D)" using refText_chars [OF ok] by (simp add: refTxt)
  let ?behind = "NotBehind (\<lambda>c. wordChar c \<or> c \<in> set ''$!'')"
  have "firstMatch ?behind (pv, colAbs p @ ?L @ rowAbs p @ ?D, []) (pv, colAbs p @ ?L @ rowAbs p @ ?D, [])"
    by (rule first_NotBehind) (use pv in blast)
  note steps = first_Seq [OF this first_Seq [OF first_no_prefix [OF bang]
      first_Seq [OF m3 first_Seq [OF m4 first_Seq [OF m5 first_Seq [OF m6 [simplified append_Nil2]
      first_Seq [OF tail [unfolded seqAll_simps anchorRe_def] first_NotAhead_end]]]]]]]
  show ?thesis
    unfolding REF_RE_def seqAll_simps anchorRe_def refCaptures_def refTxt by (rule exI) (rule steps)
qed

lemma matchAt_ref:
  assumes "refOk p" "\<And>c. pv = Some c \<Longrightarrow> \<not> wordChar c \<and> c \<notin> set ''$!''"
  shows "matchAt REF_RE pv (formatRef p) = Some (formatRef p, refCaptures p, [])"
proof -
  obtain pv' qs where "reMatch REF_RE (pv, formatRef p, []) = (pv', [], refCaptures p) # qs"
    using firstMatch_ref [OF assms(1), of pv] assms(2) unfolding firstMatch_def by blast
  then show ?thesis by (simp add: matchAt_def)
qed

lemma equals_classes [simp]:
  "\<not> wordChar (CHR ''='')" "\<not> isUpper (CHR ''='')" "CHR ''='' \<notin> set ''$!''"
  by (simp_all add: wordChar_def isAlnum_def isUpper_def isLower_def isDigit_def code_def)

lemma matchAt_equals: "matchAt REF_RE None (CHR ''='' # s) = None"
  by (simp add: matchAt_def REF_RE_def seqAll_simps sheetPrefixRe_def anchorRe_def lit_def runs_def advance_def
      Let_def)

lemma refCaptures_parts:
  assumes "refOk p"
  shows "refPart (refCaptures p) 3 = p" "quotedPrefix (refCaptures p) = []"
    "map_of (refCaptures p) 1 = None" "map_of (refCaptures p) 2 = None" "map_of (refCaptures p) 8 = None"
proof -
  have "columnIndex (columnLabel (refCol p)) = Inr (refCol p)"
    using assms by (simp add: columnIndex_columnLabel refOk_def)
  moreover have "digitsVal (intStr (refRow p + 1)) = nat (refRow p + 1)" "0 \<le> refRow p"
    using assms rowText by (simp_all add: refOk_def)
  ultimately show "refPart (refCaptures p) 3 = p"
    by (simp add: refPart_def refCaptures_def captured_def capturedColumn_def)
qed (simp_all add: refCaptures_def quotedPrefix_def)

lemma formatRef_nonempty: "refOk p \<Longrightarrow> formatRef p \<noteq> []"
  by (simp add: formatRef_def refOk_def columnLabel_nonempty)

lemma replaceAll_ref:
  assumes "refOk p"
  shows "replaceAll REF_RE f None (''='' @ formatRef p) st =
    (let (out, st') = f (formatRef p) (refCaptures p) st in (''='' @ out, st'))"
proof -
  have m: "matchAt REF_RE (Some (CHR ''='')) (formatRef p) = Some (formatRef p, refCaptures p, [])"
    by (rule matchAt_ref [OF assms]) (auto simp del: set_simps)
  obtain c u where cu: "formatRef p = c # u" using formatRef_nonempty [OF assms] by (cases "formatRef p") auto
  have "replaceAll REF_RE f (Some (CHR ''='')) (formatRef p) st =
      (let (out, st') = f (formatRef p) (refCaptures p) st in (out, st'))"
    using m unfolding cu by (simp add: replaceAll.simps split: prod.splits)
  then show ?thesis by (simp add: replaceAll.simps matchAt_equals split: prod.splits)
qed

lemma refText_noquote: "refOk p \<Longrightarrow> CHR 0x22 \<notin> set (''='' @ formatRef p)"
  using columnLabel_upper [of "refCol p"] rowText [of "refRow p"]
  by (auto simp: formatRef_def refOk_def list_all_iff isUpper_def isDigit_def code_def)

section \<open>Structural edits\<close>

lemma shiftRefPart_differs:
  assumes "refOk p" "shiftRefPart p spec = Some q" "0 \<le> shiftStart spec"
  shows "formatRef q = formatRef p \<longleftrightarrow> q = p"
proof -
  have nn: "0 \<le> refRow p" "0 \<le> refCol p" using assms(1) by (simp_all add: refOk_def)
  show ?thesis
  proof (cases "axis spec = RowAxis")
    case True
    with assms obtain k where q: "q = p\<lparr>refRow := k\<rparr>" "shiftIndex (refRow p) spec = Some k"
      by (auto simp: shiftRefPart_def split: option.splits)
    have "0 \<le> k" using shiftIndex_nonneg [OF q(2) nn(1) assms(3)] .
    then have "intStr (k + 1) = intStr (refRow p + 1) \<longleftrightarrow> k = refRow p"
      using natStr_inj [of "nat (k + 1)" "nat (refRow p + 1)"] nn by (auto simp: intStr_def)
    then show ?thesis using q by (cases p) (simp add: formatRef_def)
  next
    case False
    with assms obtain k where q: "q = p\<lparr>refCol := k\<rparr>" "shiftIndex (refCol p) spec = Some k"
      by (auto simp: shiftRefPart_def split: option.splits)
    have "0 \<le> k" using shiftIndex_nonneg [OF q(2) nn(2) assms(3)] .
    then show ?thesis using q columnLabel_inj [of k "refCol p"] nn by (cases p) (simp add: formatRef_def)
  qed
qed

text \<open>A formula that is a reference on the edited sheet: the reference moves with its cell.\<close>

lemma shiftFormulaRefs_ref:
  assumes "refOk p" "structuralOk op'" "shiftSpecForOp op' = Inr (Some spec)"
  shows "shiftFormulaRefs (''='' @ formatRef p) op' True name = Inr (case shiftRefPart p spec of
      Some q \<Rightarrow> \<lparr>changed = (q \<noteq> p), hasRefError = False, shiftedFormula = ''='' @ formatRef q\<rparr>
    | None \<Rightarrow> \<lparr>changed = True, hasRefError = True, shiftedFormula = ''=#REF!''\<rparr>)"
proof -
  note parts = refCaptures_parts [OF assms(1)]
  have start: "0 \<le> shiftStart spec" using shiftSpec_delta [OF assms(2,3)] by simp
  have "shiftRefMatch spec True name (formatRef p) (refCaptures p) \<lparr>changed = False, hasRefError = False\<rparr> =
    (case shiftRefPart p spec of
      Some q \<Rightarrow> (formatRef q, \<lparr>changed = (q \<noteq> p), hasRefError = False\<rparr>)
    | None \<Rightarrow> (''#REF!'', \<lparr>changed = True, hasRefError = True\<rparr>))"
    using shiftRefPart_differs [OF assms(1) _ start]
    by (auto simp: shiftRefMatch_def parts Let_def simp del: One_nat_def split: option.split)
  then show ?thesis
    using refText_noquote [OF assms(1)] assms(3)
    by (auto simp: shiftFormulaRefs_def splitLiterals_plain replaceAll_ref [OF assms(1), unfolded append_Cons append_Nil]
        split: option.split)
qed

text \<open>Deleting what was inserted gives the formula back.\<close>

lemma insert_delete_ref:
  assumes p: "refOk p" and row: "1 \<le> row" and n: "0 < n" and fits: "refRow p + n < 9999999"
    and ok: "structuralOk (InsertRows sheet row n)"
  shows "bindE (shiftFormulaRefs (''='' @ formatRef p) (InsertRows sheet row n) True name)
    (\<lambda>r. shiftFormulaRefs (shiftedFormula r) (DeleteRows sheet row n) True name)
    = Inr \<lparr>changed = (row \<le> refRow p + 1), hasRefError = False, shiftedFormula = ''='' @ formatRef p\<rparr>"
proof -
  let ?q = "p\<lparr>refRow := if refRow p < row - 1 then refRow p else refRow p + n\<rparr>"
  have q: "refOk ?q" using p n fits by (auto simp: refOk_def)
  have ins: "shiftRefPart p \<lparr>axis = RowAxis, shiftStart = row - 1, shiftDelta = n\<rparr> = Some ?q"
    using n by (simp add: shiftRefPart_def shiftIndex_def Let_def)
  have del: "shiftRefPart ?q \<lparr>axis = RowAxis, shiftStart = row - 1, shiftDelta = - n\<rparr> = Some p"
    using n by (cases p) (simp add: shiftRefPart_def shiftIndex_def Let_def)
  have ok': "structuralOk (DeleteRows sheet row n)"
    using ok by (simp add: insertRowsOk_def deleteRowsOk_def)
  have ne: "(p \<noteq> ?q) = (row \<le> refRow p + 1)" using n by (cases p) auto
  show ?thesis
    using shiftFormulaRefs_ref [OF p ok, of _ name] shiftFormulaRefs_ref [OF q ok', of _ name]
    by (simp add: ins del ne del: append.simps)
qed

text \<open>
  Two references the pattern does not treat as Excel does: the column spans of a structural
  edit are left alone, and a quoted sheet name with an apostrophe (written \<open>'It''s'!\<close>) is taken
  for the part after it, so that an edit of that sheet misses the reference.
\<close>

lemma column_span_not_shifted:
  "shiftFormulaRefs ''=SUM(B:B)'' (InsertCols ''s'' ''A'' 1) True ''Sheet1''
     = Inr \<lparr>changed = False, hasRefError = False, shiftedFormula = ''=SUM(B:B)''\<rparr>"
  by code_simp

lemma apostrophe_sheet_missed:
  "shiftFormulaRefs (''='' @ apos @ ''It'' @ apos @ apos @ ''s'' @ apos @ ''!A5'')
      (InsertRows ''s'' 1 1) False (''It'' @ apos @ ''s'')
     = Inr \<lparr>changed = False, hasRefError = False,
            shiftedFormula = ''='' @ apos @ ''It'' @ apos @ apos @ ''s'' @ apos @ ''!A5''\<rparr>"
  by code_simp

end
