(* ===== verification/ChartVisual.thy ===== *)
theory ChartVisual
  imports WorkbookTypes
begin

text \<open>
  Charts (\<open>chart-visual.ts\<close>): building a chart from a data range, editing its state, and the
  sheet-qualified references of its series. \<open>String(number)\<close> and \<open>Number(text)\<close> of fractional
  numbers are parameters (\<open>numStr\<close>, \<open>toNum\<close>). The axis scales and number formats of the renderer
  are not modelled.
\<close>

section \<open>Chart state\<close>

record SheetVisualAnchor =
  fromRow :: int
  fromColumn :: int
  fromRowOffset :: int
  fromColumnOffset :: int
  toRow :: int
  toColumn :: int
  toRowOffset :: int
  toColumnOffset :: int

record ChartSeriesVisualState =
  serName :: string
  serNameRef :: "string option"
  serCategories :: "string list"
  serValues :: "real list"
  serBlanks :: "int list option"
  serNumberFormat :: "string option"
  serCategoryFormat :: "string option"
  serColor :: "string option"
  serTrendline :: "string option"
  serValuesRef :: "string option"
  serCategoriesRef :: "string option"
  serPointColors :: "(int \<times> string) list option"
  serExplosionPct :: "real option"
  serPointExplosions :: "(int \<times> real) list option"
  serLineColor :: "string option"
  serLineWidth :: "real option"
  serSmooth :: "bool option"
  serMarker :: "string option"
  serCategoryGroups :: "(string \<times> int \<times> int) list option"
  serPlot :: "string option"

record ChartAxisInfoState =
  axTitle :: "string option"
  axMin :: "real option"
  axMax :: "real option"
  axMajorUnit :: "real option"
  axNumFmt :: "string option"
  axMajorGridlines :: bool
  axHidden :: bool
  axReversed :: bool

record ValueAxis =
  boundMin :: "real option"
  boundMax :: "real option"

record ChartVisualState =
  chartTypes :: "string list"
  barDirection :: "string option"
  cvTitle :: string
  cvSeries :: "ChartSeriesVisualState list"
  cvLegend :: "string option"
  cvAxisTitles :: "AxisTitles option"
  cvDataLabels :: "string option"
  cvDataLabelPosition :: "string option"
  cvDataLabelFormat :: "string option"
  cvGrouping :: "string option"
  cvGridlines :: "bool option"
  cvValueAxis :: "ValueAxis option"
  cvCategoryAxisFormat :: "string option"
  cvGapWidthPct :: "real option"
  cvHoleSizePct :: "real option"
  cvXAxis :: "ChartAxisInfoState option"
  cvYAxis :: "ChartAxisInfoState option"
  cvSecondaryYAxis :: "ChartAxisInfoState option"
  cvScatterStyle :: "string option"
  cvLineMarkers :: "bool option"
  cvDispBlanksAs :: "string option"
  cvTitleStyle :: "(real option \<times> bool option \<times> string option) option"

record SheetVisual =
  visualId :: string
  visualSheetId :: string
  anchor :: SheetVisualAnchor
  chart :: ChartVisualState

section \<open>Edits of a chart\<close>

record SeriesEdit =
  editIndex :: int
  editName :: "string option"
  editValues :: "real list option"
  editCategories :: "string list option"
  editValuesRef :: "string option"
  editCategoriesRef :: "string option"

record SeriesSetEntry =
  setName :: string
  setEntryValues :: "real list"
  setCategories :: "string list option"
  setValuesRef :: "string option"
  setCategoriesRef :: "string option"
  setColor :: "string option"

record ChartStateEdit =
  ceTitle :: "string option"
  ceChartType :: "string option"
  ceSeriesColors :: "string obj option"
  cePointColors :: "string obj obj option"
  ceLegend :: "string option"
  ceDataLabels :: "string option"
  ceDataLabelPosition :: "string option"
  ceDataLabelFormat :: "string option"
  ceAxisTitles :: "AxisTitles option"
  ceGrouping :: "string option"
  ceGridlines :: "bool option"
  ceValueAxis :: "(real patch \<times> real patch) option"
  ceGapWidthPct :: "real option"
  ceHoleSizePct :: "real option"
  ceExplosionPct :: "real option"
  cePointExplosions :: "real obj option"
  ceSeries :: "SeriesEdit list option"
  ceSeriesSet :: "SeriesSetEntry list option"

text \<open>\<open>chart.x\<close> unless the edit sets it.\<close>

definition orElse :: "'a option \<Rightarrow> 'a option \<Rightarrow> 'a option" where
  "orElse e old = (case e of Some x \<Rightarrow> Some x | None \<Rightarrow> old)"

lemma orElse_simps [simp]: "orElse None old = old" "orElse (Some x) old = Some x"
  by (simp_all add: orElse_def)

definition CHART_EDIT_TYPES :: "(string list \<times> string option) obj" where
  "CHART_EDIT_TYPES =
     [(''column'', ([''barChart''], Some ''col'')),
      (''bar'', ([''barChart''], Some ''bar'')),
      (''line'', ([''lineChart''], None)),
      (''area'', ([''areaChart''], None)),
      (''pie'', ([''pieChart''], None)),
      (''doughnut'', ([''doughnutChart''], None))]"

definition withDefaultBarLabels :: "ChartVisualState \<Rightarrow> ChartVisualState" where
  "withDefaultBarLabels c =
     (if chartTypes c = [''barChart''] \<and> length (cvSeries c) = 1 \<and> cvGrouping c \<noteq> Some ''stacked''
         \<and> cvGrouping c \<noteq> Some ''percentStacked'' \<and> cvDataLabels c = None
      then c\<lparr>cvDataLabels := Some ''value''\<rparr> else c)"

definition chartCategoryFormat :: "ChartVisualState \<Rightarrow> string option" where
  "chartCategoryFormat c =
     (if cvCategoryAxisFormat c \<noteq> None \<and> cvCategoryAxisFormat c \<noteq> Some ''General'' then cvCategoryAxisFormat c
      else case cvSeries c of
        [] \<Rightarrow> None
      | s # _ \<Rightarrow> if serCategoryFormat s \<noteq> Some ''General'' then serCategoryFormat s else None)"

definition transposeChartSeries ::
  "ChartSeriesVisualState list \<Rightarrow> (nat \<Rightarrow> string) \<Rightarrow> SeriesSetEntry list option" where
  "transposeChartSeries series seriesLabel =
     (let seriesNames = map (\<lambda>(i, e). if serName e \<noteq> [] then serName e else seriesLabel (i + 1)) (enumerate 0 series);
          categories = (case series of s # _ \<Rightarrow> serCategories s | [] \<Rightarrow> [])
      in if categories = [] then None
         else Some (map (\<lambda>(i, c).
           \<lparr>setName = take 255 (if c \<noteq> [] then c else seriesLabel (i + 1)),
            setEntryValues = map (\<lambda>e. case nthOpt (serValues e) i of Some v \<Rightarrow> v | None \<Rightarrow> 0) series,
            setCategories = Some seriesNames, setValuesRef = None, setCategoriesRef = None, setColor = None\<rparr>)
           (enumerate 0 (take 24 categories))))"

definition LABELABLE_PLOTS :: "string list" where
  "LABELABLE_PLOTS = [''barChart'', ''lineChart'', ''areaChart'', ''pieChart'', ''doughnutChart'']"

definition chartSupportsDataLabels :: "string list \<Rightarrow> bool" where
  "chartSupportsDataLabels types = list_ex (\<lambda>t. t \<in> set LABELABLE_PLOTS) types"

definition SERIES_REPLACEABLE_PLOTS :: "string list" where
  "SERIES_REPLACEABLE_PLOTS = [''barChart'', ''lineChart'', ''areaChart'', ''pieChart'', ''doughnutChart'',
     ''radarChart'', ''scatterChart'']"

definition chartSupportsSeriesReplace :: "string list \<Rightarrow> bool" where
  "chartSupportsSeriesReplace types = (length types = 1 \<and> hd types \<in> set SERIES_REPLACEABLE_PLOTS)"

text \<open>The \<open>Map\<close> by index, patched, and sorted by index; colours and explosions share the code.\<close>

definition mergeByIndex :: "(int \<times> 'v) list option \<Rightarrow> 'v obj option \<Rightarrow> (int \<times> 'v) list option" where
  "mergeByIndex existing patch =
     (case patch of
        None \<Rightarrow> existing
      | Some entries \<Rightarrow>
          let start = foldl (\<lambda>m (k, v). AList.update k v m) [] (case existing of Some xs \<Rightarrow> xs | None \<Rightarrow> []);
              byIndex = foldl (\<lambda>m (k, v). AList.update (int (digitsVal k)) v m) start entries
          in Some (sortBy (\<lambda>a b. real_of_int (fst a) - real_of_int (fst b)) byIndex))"

definition mergePointColors :: "(int \<times> string) list option \<Rightarrow> string obj option \<Rightarrow> (int \<times> string) list option" where
  "mergePointColors existing patch = mergeByIndex existing patch"

definition mergePointExplosions :: "(int \<times> real) list option \<Rightarrow> real obj option \<Rightarrow> (int \<times> real) list option" where
  "mergePointExplosions existing patch = mergeByIndex existing patch"

fun patched :: "'a patch \<Rightarrow> 'a option \<Rightarrow> 'a option" where
  "patched Absent old = old"
| "patched Cleared old = None"
| "patched (Value x) old = Some x"

definition mergeValueAxis :: "ValueAxis option \<Rightarrow> (real patch \<times> real patch) option \<Rightarrow> ValueAxis option" where
  "mergeValueAxis existing patch =
     (case patch of
        None \<Rightarrow> existing
      | Some (pMin, pMax) \<Rightarrow>
          let lo = patched pMin (Option.bind existing boundMin);
              hi = patched pMax (Option.bind existing boundMax)
          in if lo = None \<and> hi = None then None else Some \<lparr>boundMin = lo, boundMax = hi\<rparr>)"

fun mergeTitle :: "string patch \<Rightarrow> string patch \<Rightarrow> string patch" where
  "mergeTitle old Absent = old"
| "mergeTitle old e = e"

definition mergeAxisTitles :: "AxisTitles option \<Rightarrow> AxisTitles \<Rightarrow> AxisTitles" where
  "mergeAxisTitles old e =
     (case old of
        None \<Rightarrow> e
      | Some t \<Rightarrow> \<lparr>axisCategory = mergeTitle (axisCategory t) (axisCategory e),
                  axisValue = mergeTitle (axisValue t) (axisValue e)\<rparr>)"

text \<open>The series of a full replacement.\<close>

definition replacementSeries :: "string list \<Rightarrow> SeriesSetEntry \<Rightarrow> ChartSeriesVisualState" where
  "replacementSeries fallbackCategories e =
     \<lparr>serName = setName e, serNameRef = None,
      serCategories = (case setCategories e of Some cs \<Rightarrow> cs
                       | None \<Rightarrow> take (length (setEntryValues e)) fallbackCategories),
      serValues = setEntryValues e, serBlanks = None, serNumberFormat = None, serCategoryFormat = None,
      serColor = setColor e, serTrendline = None, serValuesRef = setValuesRef e,
      serCategoriesRef = setCategoriesRef e, serPointColors = None, serExplosionPct = None,
      serPointExplosions = None, serLineColor = None, serLineWidth = None, serSmooth = None,
      serMarker = None, serCategoryGroups = None, serPlot = None\<rparr>"

definition editSeries :: "ChartStateEdit \<Rightarrow> nat \<Rightarrow> ChartSeriesVisualState \<Rightarrow> ChartSeriesVisualState" where
  "editSeries edit index series =
     (let key = natStr index;
          color = Option.bind (ceSeriesColors edit) (\<lambda>cs. map_of cs key);
          pointColors = mergePointColors (serPointColors series) (Option.bind (cePointColors edit) (\<lambda>cs. map_of cs key));
          pointExplosions = (if index = 0 then mergePointExplosions (serPointExplosions series) (cePointExplosions edit)
                             else serPointExplosions series);
          data = Option.bind (ceSeries edit) (find (\<lambda>e. editIndex e = int index))
      in series
          \<lparr>serColor := orElse color (serColor series),
           serPointColors := orElse pointColors (serPointColors series),
           serPointExplosions := orElse pointExplosions (serPointExplosions series),
           serExplosionPct := (if index = 0 then orElse (ceExplosionPct edit) (serExplosionPct series)
                               else serExplosionPct series),
           serName := (case Option.bind data editName of Some n \<Rightarrow> n | None \<Rightarrow> serName series),
           serValues := (case Option.bind data editValues of Some v \<Rightarrow> v | None \<Rightarrow> serValues series),
           serBlanks := (if Option.bind data editValues = None then serBlanks series else None),
           serCategories := (case Option.bind data editCategories of Some c \<Rightarrow> c | None \<Rightarrow> serCategories series),
           serCategoryGroups := (if Option.bind data editCategories = None then serCategoryGroups series else None),
           serValuesRef := orElse (Option.bind data editValuesRef) (serValuesRef series),
           serCategoriesRef := orElse (Option.bind data editCategoriesRef) (serCategoriesRef series)\<rparr>)"

definition applyChartStateEdit :: "ChartVisualState \<Rightarrow> ChartStateEdit option \<Rightarrow> ChartVisualState" where
  "applyChartStateEdit c editOpt =
     (case editOpt of
        None \<Rightarrow> c
      | Some edit \<Rightarrow>
          let typeOverride = Option.bind (ceChartType edit) (map_of CHART_EDIT_TYPES);
              effectiveTypes = (case typeOverride of Some (ts, _) \<Rightarrow> ts | None \<Rightarrow> chartTypes c);
              grouping' = (if ceGrouping edit = Some ''clustered'' \<and> ''barChart'' \<notin> set effectiveTypes
                           then Some ''standard'' else ceGrouping edit);
              fallbackCategories = (case cvSeries c of s # _ \<Rightarrow> serCategories s | [] \<Rightarrow> []);
              baseSeries = (case ceSeriesSet edit of
                  Some entries \<Rightarrow> map (replacementSeries fallbackCategories) entries | None \<Rightarrow> cvSeries c)
          in c\<lparr>cvTitle := (case ceTitle edit of Some t \<Rightarrow> t | None \<Rightarrow> cvTitle c),
               cvLegend := orElse (ceLegend edit) (cvLegend c),
               cvDataLabels := orElse (ceDataLabels edit) (cvDataLabels c),
               cvDataLabelPosition := orElse (ceDataLabelPosition edit) (cvDataLabelPosition c),
               cvDataLabelFormat := orElse (ceDataLabelFormat edit) (cvDataLabelFormat c),
               cvAxisTitles := (case ceAxisTitles edit of Some t \<Rightarrow> Some (mergeAxisTitles (cvAxisTitles c) t)
                                | None \<Rightarrow> cvAxisTitles c),
               cvGrouping := orElse grouping' (cvGrouping c),
               cvGridlines := orElse (ceGridlines edit) (cvGridlines c),
               cvValueAxis := (if ceValueAxis edit = None then cvValueAxis c
                               else mergeValueAxis (cvValueAxis c) (ceValueAxis edit)),
               cvGapWidthPct := orElse (ceGapWidthPct edit) (cvGapWidthPct c),
               cvHoleSizePct := orElse (ceHoleSizePct edit) (cvHoleSizePct c),
               chartTypes := effectiveTypes,
               barDirection := orElse (Option.bind typeOverride snd) (barDirection c),
               cvSeries := map (\<lambda>(i, s). editSeries edit i s) (enumerate 0 baseSeries)\<rparr>)"

end
