(* ===== verification/ChartBuild.thy ===== *)
theory ChartBuild
  imports ChartVisual SortRange FormulaRef
begin

text \<open>
  Building a chart from a grid of cells (\<open>chartDataFromValues\<close>, \<open>buildChartVisual\<close>) and the
  sheet-qualified references of its series (\<open>splitSheetRef\<close>, \<open>renameRefSheet\<close>, \<open>refIntersects\<close>,
  \<open>a1RangeRef\<close>, \<open>a1RowRangeRef\<close> of \<open>chart-visual.ts\<close>), with the round trip between writing and
  reading a reference. \<open>toNum\<close> is \<open>Number(text)\<close>.
\<close>

section \<open>Chart data\<close>

record ParsedSeries =
  psName :: string
  psValues :: "real list"
  psColumn :: nat

record ParsedChartData =
  byRow :: bool
  hasHeaderRow :: bool
  hasCategoryColumn :: bool
  pcCategories :: "string list"
  pcSeries :: "ParsedSeries list"

definition MAX_CHART_ROWS :: nat where "MAX_CHART_ROWS = 500"
definition MAX_CHART_SERIES :: nat where "MAX_CHART_SERIES = 12"

text \<open>\<open>row[column] ?? null\<close>.\<close>

definition gridCell :: "CellScalar list \<Rightarrow> nat \<Rightarrow> CellScalar" where
  "gridCell row i = (case nthOpt row i of Some v \<Rightarrow> v | None \<Rightarrow> Null)"

definition isBlankValue :: "CellScalar \<Rightarrow> bool" where
  "isBlankValue v = (v = Null \<or> v = Str [])"

definition isNumericValue :: "(string \<Rightarrow> js_number) \<Rightarrow> CellScalar \<Rightarrow> bool" where
  "isNumericValue toNum v =
     (case v of Num _ \<Rightarrow> True | Str s \<Rightarrow> trim s \<noteq> [] \<and> isFinite (toNum s) | _ \<Rightarrow> False)"

definition chartNumber :: "(string \<Rightarrow> js_number) \<Rightarrow> CellScalar \<Rightarrow> real" where
  "chartNumber toNum v =
     (case v of Num x \<Rightarrow> x
      | Str s \<Rightarrow> if isNumericValue toNum v then numValue (toNum (trim s)) else 0
      | _ \<Rightarrow> 0)"

text \<open>\<open>String(v ?? '')\<close>.\<close>

definition textOrEmpty :: "(real \<Rightarrow> string) \<Rightarrow> CellScalar \<Rightarrow> string" where
  "textOrEmpty numStr v = (if v = Null then [] else scalarText numStr v)"

definition transposeGrid :: "CellScalar list list \<Rightarrow> CellScalar list list" where
  "transposeGrid source = map (\<lambda>column. map (\<lambda>row. gridCell row column) source) [0..<length (hd source)]"

text \<open>
  The value returned: nothing without rows, the first column as a series when it was taken for
  the categories and no other column has numbers (\<open>firstSeries\<close>), the series otherwise.
\<close>

definition chartResult :: "bool \<Rightarrow> bool \<Rightarrow> bool \<Rightarrow> CellScalar list list \<Rightarrow> string list \<Rightarrow> string list \<Rightarrow>
    ParsedSeries list \<Rightarrow> ParsedSeries option \<Rightarrow> ParsedChartData option" where
  "chartResult transposed header categoryColumn body counted labels series firstSeries =
     (if body = [] then None
      else if series = [] \<and> categoryColumn \<and> firstSeries \<noteq> None
      then Some \<lparr>byRow = transposed, hasHeaderRow = header, hasCategoryColumn = False,
                 pcCategories = counted, pcSeries = [the firstSeries]\<rparr>
      else if series = [] then None
      else Some \<lparr>byRow = transposed, hasHeaderRow = header, hasCategoryColumn = categoryColumn,
                 pcCategories = labels, pcSeries = series\<rparr>)"

text \<open>The categories and series of the body rows.\<close>

definition chartSeriesOf ::
  "(real \<Rightarrow> string) \<Rightarrow> (string \<Rightarrow> js_number) \<Rightarrow> bool \<Rightarrow> CellScalar list \<Rightarrow> CellScalar list list \<Rightarrow> nat \<Rightarrow> nat \<Rightarrow> ParsedSeries" where
  "chartSeriesOf numStr toNum header firstRow body i column =
     (let h = (if header then gridCell firstRow column else Null)
      in \<lparr>psName = (if isBlankValue h then ''Series '' @ natStr (Suc i) else scalarText numStr h),
          psValues = map (\<lambda>row. chartNumber toNum (gridCell row column)) body,
          psColumn = column\<rparr>)"

definition chartFromBody ::
  "(real \<Rightarrow> string) \<Rightarrow> (string \<Rightarrow> js_number) \<Rightarrow> bool \<Rightarrow> bool \<Rightarrow> bool \<Rightarrow> CellScalar list \<Rightarrow>
   CellScalar list list \<Rightarrow> bool \<Rightarrow> ParsedChartData option" where
  "chartFromBody numStr toNum transposed header crossTab firstRow body numericCategoryColumn =
     (let numeric = isNumericValue toNum;
          categoryColumn = (1 < length firstRow \<and> (crossTab
            \<or> list_ex (\<lambda>row. \<not> isBlankValue (gridCell row 0) \<and> \<not> numeric (gridCell row 0)) body
            \<or> numericCategoryColumn \<and> list_ex (\<lambda>row. numeric (gridCell row 0)) body));
          counted = map (\<lambda>i. natStr (Suc i)) [0..<length body];
          labels = (if categoryColumn then map (\<lambda>row. textOrEmpty numStr (gridCell row 0)) body else counted);
          columns = take MAX_CHART_SERIES
            (filter (\<lambda>column. list_ex (\<lambda>row. numeric (gridCell row column)) body)
               [(if categoryColumn then 1 else 0)..<length firstRow]);
          series = map (\<lambda>(i, column). chartSeriesOf numStr toNum header firstRow body i column) (enumerate 0 columns)
      in chartResult transposed header categoryColumn body counted labels series
           (if list_ex (\<lambda>row. numeric (gridCell row 0)) body
            then Some (chartSeriesOf numStr toNum header firstRow body 0 0) else None))"

definition hasLabelHeader :: "(string \<Rightarrow> js_number) \<Rightarrow> CellScalar list list \<Rightarrow> bool" where
  "hasLabelHeader toNum grid = (1 < length grid \<and>
     list_ex (\<lambda>(i, v). (length (hd grid) = 1 \<or> 0 < i) \<and> \<not> isBlankValue v \<and> \<not> isNumericValue toNum v)
       (enumerate 0 (hd grid)))"

definition hasCrossTabHeader :: "CellScalar list list \<Rightarrow> bool" where
  "hasCrossTabHeader grid = (1 < length grid \<and> 1 < length (hd grid) \<and> isBlankValue (hd (hd grid))
     \<and> list_all (\<lambda>(i, v). i = 0 \<or> \<not> isBlankValue v) (enumerate 0 (hd grid)))"

definition chartDataFromValues ::
  "(real \<Rightarrow> string) \<Rightarrow> (string \<Rightarrow> js_number) \<Rightarrow> CellScalar list list \<Rightarrow> bool \<Rightarrow> ParsedChartData option" where
  "chartDataFromValues numStr toNum source numericCategoryColumn =
     (if source = [] \<or> hd source = [] then None
      else
        let transposed = 1 < length (hd source) \<and> length source \<le> length (hd source);
            grid = (if transposed then transposeGrid source else source);
            crossTab = hasCrossTabHeader grid;
            header = hasLabelHeader toNum grid \<or> crossTab;
            body = take MAX_CHART_ROWS (if header then tl grid else grid)
        in chartFromBody numStr toNum transposed header crossTab (hd grid) body numericCategoryColumn)"

text \<open>Every chart has between one and twelve series, each with one value per category.\<close>

lemma chartResult_shape:
  assumes "chartResult t h c body counted labels series first = Some d" and "length body \<le> MAX_CHART_ROWS"
    and "length counted = length body" "length labels = length body" "length series \<le> MAX_CHART_SERIES"
    and "\<And>s. s \<in> set series \<Longrightarrow> length (psValues s) = length body"
    and "\<And>s. first = Some s \<Longrightarrow> length (psValues s) = length body"
  shows "pcSeries d \<noteq> [] \<and> length (pcSeries d) \<le> MAX_CHART_SERIES \<and> length (pcCategories d) \<le> MAX_CHART_ROWS
    \<and> (\<forall>s\<in>set (pcSeries d). length (psValues s) = length (pcCategories d))"
  using assms by (auto simp: chartResult_def MAX_CHART_SERIES_def split: if_splits)

lemma chartFromBody_shape:
  assumes "chartFromBody numStr toNum t h ct firstRow body ncc = Some d" and "length body \<le> MAX_CHART_ROWS"
  shows "pcSeries d \<noteq> [] \<and> length (pcSeries d) \<le> MAX_CHART_SERIES \<and> length (pcCategories d) \<le> MAX_CHART_ROWS
    \<and> (\<forall>s\<in>set (pcSeries d). length (psValues s) = length (pcCategories d))"
  by (rule chartResult_shape [OF assms(1) [unfolded chartFromBody_def Let_def] assms(2)])
    (auto simp: chartSeriesOf_def Let_def split: if_splits)

lemma chartDataFromValues_shape:
  assumes "chartDataFromValues numStr toNum source ncc = Some d"
  shows "pcSeries d \<noteq> [] \<and> length (pcSeries d) \<le> MAX_CHART_SERIES \<and> length (pcCategories d) \<le> MAX_CHART_ROWS
    \<and> (\<forall>s\<in>set (pcSeries d). length (psValues s) = length (pcCategories d))"
proof -
  have "\<not> (source = [] \<or> hd source = [])"
    using assms unfolding chartDataFromValues_def by (metis option.distinct(1))
  from chartFromBody_shape [OF assms [unfolded chartDataFromValues_def Let_def if_not_P [OF this]]]
  show ?thesis by simp
qed

section \<open>Sheet references\<close>

text \<open>
  The sheet name of a reference, \<open>'?((?:[^'!]|'')+?)'?\<close> up to its exclamation mark. A unit is a
  plain character or a doubled quote; the lazy repetition stops at the first unit boundary from
  which an optional quote ends the name.
\<close>

definition isQuote :: "char \<Rightarrow> bool" where "isQuote c = (c = CHR 0x27)"

fun sheetUnits :: "bool \<Rightarrow> string \<Rightarrow> string option" where
  "sheetUnits started [] = (if started then Some [] else None)"
| "sheetUnits started [c] =
     (if started \<and> isQuote c then Some []
      else if isQuote c then None else Some [c])"
| "sheetUnits started (c # d # s) =
     (if \<not> isQuote c then map_option (\<lambda>u. c # u) (sheetUnits True (d # s))
      else if isQuote d then map_option (\<lambda>u. c # d # u) (sheetUnits True s)
      else None)"

definition sheetNamePart :: "string \<Rightarrow> string option" where
  "sheetNamePart s =
     (case s of
        c # t \<Rightarrow>
          if isQuote c then (case sheetUnits False t of Some u \<Rightarrow> Some u | None \<Rightarrow> sheetUnits False s)
          else sheetUnits False s
      | [] \<Rightarrow> None)"

text \<open>The range part, \<open>[$]?[A-Z]{1,3}[$]?[0-9]+(?::[$]?[A-Z]{1,3}[$]?[0-9]+)?\<close>.\<close>

definition REF_CELL_RE :: re where
  "REF_CELL_RE = seqAll [Opt (lit (CHR ''$'')), Many isUpper 1 (Some 3), Opt (lit (CHR ''$'')), Many isDigit 1 None]"

definition REF_RANGE_RE :: re where
  "REF_RANGE_RE = Seq REF_CELL_RE (Opt (Seq (lit (CHR '':'')) REF_CELL_RE))"

definition fullMatch :: "re \<Rightarrow> string \<Rightarrow> bool" where
  "fullMatch r s = list_ex (\<lambda>(_, t, _). t = []) (reMatch r (None, s, []))"

fun unescapeQuotes :: "string \<Rightarrow> string" where
  "unescapeQuotes (c # d # s) =
     (if isQuote c \<and> isQuote d then c # unescapeQuotes s else c # unescapeQuotes (d # s))"
| "unescapeQuotes s = s"

definition escapeQuotes :: "string \<Rightarrow> string" where
  "escapeQuotes s = concat (map (\<lambda>c. if isQuote c then [c, c] else [c]) s)"

record SheetRef =
  refSheetName :: string
  refRange :: string

definition splitSheetRef :: "string \<Rightarrow> SheetRef option" where
  "splitSheetRef ref =
     (let s = trim ref; beforeMark = takeWhile (\<lambda>c. c \<noteq> CHR ''!'') s; after = tl (dropWhile (\<lambda>c. c \<noteq> CHR ''!'') s)
      in if CHR ''!'' \<notin> set s \<or> \<not> fullMatch REF_RANGE_RE after then None
         else map_option (\<lambda>name. \<lparr>refSheetName = unescapeQuotes name,
                refRange = filter (\<lambda>c. c \<noteq> CHR ''$'') after\<rparr>) (sheetNamePart beforeMark))"

text \<open>\<open>ref.slice(ref.indexOf('!') + 1)\<close>.\<close>

definition renameRefSheet :: "string \<Rightarrow> string \<Rightarrow> string \<Rightarrow> string" where
  "renameRefSheet ref oldName newName =
     (case splitSheetRef ref of
        None \<Rightarrow> ref
      | Some split \<Rightarrow>
          if refSheetName split \<noteq> oldName then ref
          else apos @ escapeQuotes newName @ apos @ ''!'' @ tl (dropWhile (\<lambda>c. c \<noteq> CHR ''!'') ref))"

definition refIntersects :: "string \<Rightarrow> string \<Rightarrow> RangeBounds \<Rightarrow> bool" where
  "refIntersects ref sheetName bounds =
     (case splitSheetRef ref of
        None \<Rightarrow> False
      | Some split \<Rightarrow>
          refSheetName split = sheetName \<and>
          (case parseRange (refRange split) of
             Inl _ \<Rightarrow> False
           | Inr area \<Rightarrow> startRow area \<le> endRow bounds \<and> startRow bounds \<le> endRow area
               \<and> startColumn area \<le> endColumn bounds \<and> startColumn bounds \<le> endColumn area))"

definition a1RangeRef :: "string \<Rightarrow> int \<Rightarrow> int \<Rightarrow> int \<Rightarrow> string" where
  "a1RangeRef sheetName column from to =
     (let col = columnLabel column
      in apos @ escapeQuotes sheetName @ apos @ ''!$'' @ col @ ''$'' @ intStr (from + 1)
         @ '':$'' @ col @ ''$'' @ intStr (to + 1))"

definition a1RowRangeRef :: "string \<Rightarrow> int \<Rightarrow> int \<Rightarrow> int \<Rightarrow> string" where
  "a1RowRangeRef sheetName row from to =
     apos @ escapeQuotes sheetName @ apos @ ''!$'' @ columnLabel from @ ''$'' @ intStr (row + 1)
       @ '':$'' @ columnLabel to @ ''$'' @ intStr (row + 1)"

section \<open>Building a chart\<close>

record BuildChartVisualInput =
  inId :: string
  inSheetId :: string
  inSheetName :: string
  inChartType :: string
  inDataRange :: string
  inTitle :: "string option"
  inAnchorCell :: "string option"
  inValues :: "CellScalar list list"

definition CHART_KIND_TO_TYPES :: "string list obj" where
  "CHART_KIND_TO_TYPES =
     [(''column'', [''barChart'']), (''bar'', [''barChart'']), (''line'', [''lineChart'']),
      (''area'', [''areaChart'']), (''pie'', [''pieChart'']), (''doughnut'', [''doughnutChart'']),
      (''scatter'', [''scatterChart'']), (''radar'', [''radarChart'']),
      (''combo'', [''barChart'', ''lineChart''])]"

definition emptyChart :: ChartVisualState where
  "emptyChart = \<lparr>chartTypes = [], barDirection = None, cvTitle = [], cvSeries = [], cvLegend = None,
     cvAxisTitles = None, cvDataLabels = None, cvDataLabelPosition = None, cvDataLabelFormat = None,
     cvGrouping = None, cvGridlines = None, cvValueAxis = None, cvCategoryAxisFormat = None,
     cvGapWidthPct = None, cvHoleSizePct = None, cvXAxis = None, cvYAxis = None, cvSecondaryYAxis = None,
     cvScatterStyle = None, cvLineMarkers = None, cvDispBlanksAs = None, cvTitleStyle = None\<rparr>"

definition plainSeries :: "string \<Rightarrow> string list \<Rightarrow> real list \<Rightarrow> string \<Rightarrow> string option \<Rightarrow> ChartSeriesVisualState" where
  "plainSeries name categories vals ref catRef =
     \<lparr>serName = name, serNameRef = None, serCategories = categories, serValues = vals, serBlanks = None,
      serNumberFormat = None, serCategoryFormat = None, serColor = None, serTrendline = None,
      serValuesRef = Some ref, serCategoriesRef = catRef, serPointColors = None, serExplosionPct = None,
      serPointExplosions = None, serLineColor = None, serLineWidth = None, serSmooth = None,
      serMarker = None, serCategoryGroups = None, serPlot = None\<rparr>"

definition anchorSpan :: "int \<Rightarrow> int \<Rightarrow> int \<Rightarrow> SheetVisualAnchor" where
  "anchorSpan row column columns =
     \<lparr>fromRow = row, fromColumn = column, fromRowOffset = 0, fromColumnOffset = 0,
      toRow = row + 15, toColumn = column + columns, toRowOffset = 0, toColumnOffset = 0\<rparr>"

text \<open>The references of a series into the sheet, by orientation.\<close>

definition seriesRefs :: "string \<Rightarrow> RangeBounds \<Rightarrow> ParsedChartData \<Rightarrow> nat \<Rightarrow> string \<times> string option" where
  "seriesRefs sheetName bounds parsed column =
     (let dataStartRow = startRow bounds + (if hasHeaderRow parsed \<and> \<not> byRow parsed then 1 else 0);
          dataStartColumn = startColumn bounds + (if hasHeaderRow parsed \<and> byRow parsed then 1 else 0)
      in if byRow parsed
         then (a1RowRangeRef sheetName (startRow bounds + int column) dataStartColumn (endColumn bounds),
               if hasCategoryColumn parsed
               then Some (a1RowRangeRef sheetName (startRow bounds) dataStartColumn (endColumn bounds)) else None)
         else (a1RangeRef sheetName (int column + startColumn bounds) dataStartRow (endRow bounds),
               if hasCategoryColumn parsed
               then Some (a1RangeRef sheetName (startColumn bounds) dataStartRow (endRow bounds)) else None))"

definition buildChartVisual ::
  "(real \<Rightarrow> string) \<Rightarrow> (string \<Rightarrow> js_number) \<Rightarrow> BuildChartVisualInput \<Rightarrow> js_error + SheetVisual" where
  "buildChartVisual numStr toNum input =
     bindE (parseRange (inDataRange input)) (\<lambda>bounds.
     throwIf (2000 < rangeCellCount bounds) (Error ''add_chart dataRange covers more than 2000 cells.'')
     (case chartDataFromValues numStr toNum (inValues input) False of
        None \<Rightarrow> Inl (Error ''The chart dataRange needs at least one numeric column.'')
      | Some parsed \<Rightarrow>
          bindE (case inAnchorCell input of
                   None \<Rightarrow> Inr (anchorSpan (startRow bounds) (endColumn bounds + 2) 7)
                 | Some a \<Rightarrow> bindE (parseAddress a) (\<lambda>base. Inr (anchorSpan (cellRow base) (cellColumn base) 7)))
          (\<lambda>anc.
             let kind = inChartType input;
                 isBar = kind = ''column'' \<or> kind = ''bar'' \<or> kind = ''combo''
             in Inr \<lparr>visualId = inId input, visualSheetId = inSheetId input, anchor = anc,
                     chart = emptyChart\<lparr>
                       chartTypes := (case map_of CHART_KIND_TO_TYPES kind of Some ts \<Rightarrow> ts | None \<Rightarrow> []),
                       barDirection := (if isBar then Some (if kind = ''bar'' then ''bar'' else ''col'') else None),
                       cvDataLabels := (if isBar \<and> kind \<noteq> ''combo'' then Some ''value'' else None),
                       cvTitle := (case inTitle input of Some t \<Rightarrow> t
                         | None \<Rightarrow> (case pcSeries parsed of [s] \<Rightarrow> psName s | _ \<Rightarrow> ''Chart Title'')),
                       cvSeries := map (\<lambda>s. case seriesRefs (inSheetName input) bounds parsed (psColumn s) of
                         (ref, catRef) \<Rightarrow> plainSeries (psName s) (pcCategories parsed) (psValues s) ref catRef)
                         (pcSeries parsed)\<rparr>\<rparr>)))"

section \<open>The round trip of references\<close>

lemma escapeQuotes_simps [simp]:
  "escapeQuotes [] = []"
  "escapeQuotes (c # s) = (if isQuote c then c # c # escapeQuotes s else c # escapeQuotes s)"
  by (simp_all add: escapeQuotes_def)

lemma unescape_escape: "unescapeQuotes (escapeQuotes s) = s"
proof (induction s)
  case (Cons c s)
  show ?case
  proof (cases "isQuote c")
    case False
    with Cons show ?thesis by (cases "escapeQuotes s") auto
  qed (use Cons in simp)
qed simp

lemma sheetUnits_escaped: "started \<or> name \<noteq> [] \<Longrightarrow> isQuote q \<Longrightarrow>
   sheetUnits started (escapeQuotes name @ [q]) = Some (escapeQuotes name)"
proof (induction name arbitrary: started)
  case (Cons c s)
  have IH: "sheetUnits True (escapeQuotes s @ [q]) = Some (escapeQuotes s)" using Cons by simp
  show ?case
  proof (cases "isQuote c")
    case True
    with IH show ?thesis by simp
  next
    case False
    obtain d r where "escapeQuotes s @ [q] = d # r" by (cases "escapeQuotes s") auto
    with False IH show ?thesis by simp
  qed
qed simp

lemma isQuote_apos [simp]: "isQuote (CHR 0x27)"
  by (simp add: isQuote_def)

lemma sheetNamePart_escaped: "name \<noteq> [] \<Longrightarrow> sheetNamePart (apos @ escapeQuotes name @ apos) = Some (escapeQuotes name)"
  by (simp add: sheetNamePart_def apos_def sheetUnits_escaped)

lemma set_escapeQuotes [simp]: "set (escapeQuotes s) = set s"
  by (induction s) auto

lemma trim_id: "s \<noteq> [] \<Longrightarrow> \<not> isSpace (hd s) \<Longrightarrow> \<not> isSpace (last s) \<Longrightarrow> trim s = s"
proof -
  assume s: "s \<noteq> []" "\<not> isSpace (hd s)" "\<not> isSpace (last s)"
  then have "dropWhile isSpace s = s" by (cases s) auto
  moreover have "dropWhile isSpace (rev s) = rev s" using s by (cases s rule: rev_cases) auto
  ultimately show ?thesis by (simp add: trim_def trimWith_def)
qed

lemma splitSheetRef_quoted:
  assumes name: "name \<noteq> []" "CHR ''!'' \<notin> set name"
    and rng: "fullMatch REF_RANGE_RE rng" "rng \<noteq> []" "\<not> isSpace (last rng)"
  shows "splitSheetRef (apos @ escapeQuotes name @ apos @ ''!'' @ rng) =
    Some \<lparr>refSheetName = name, refRange = filter (\<lambda>c. c \<noteq> CHR ''$'') rng\<rparr>"
proof -
  let ?q = "apos @ escapeQuotes name @ apos"
  have nx: "c \<noteq> CHR ''!''" if "c \<in> set ?q" for c using that name(2) by (auto simp: apos_def)
  have t: "trim (?q @ CHR ''!'' # rng) = ?q @ CHR ''!'' # rng"
    by (rule trim_id) (use rng in \<open>auto simp: apos_def isSpace_def code_def\<close>)
  have b: "takeWhile (\<lambda>c. c \<noteq> CHR ''!'') (?q @ CHR ''!'' # rng) = ?q"
    by (subst takeWhile_append2) (use nx in auto)
  have b': "dropWhile (\<lambda>c. c \<noteq> CHR ''!'') (?q @ CHR ''!'' # rng) = CHR ''!'' # rng"
    by (subst dropWhile_append2) (use nx in auto)
  show ?thesis
    using t b b' rng(1) sheetNamePart_escaped [OF name(1)]
    by (simp add: splitSheetRef_def Let_def unescape_escape)
qed

text \<open>A text that an expression accepts before any continuation.\<close>

definition accepts :: "re \<Rightarrow> string \<Rightarrow> bool" where
  "accepts r w = (\<forall>pv t caps. \<exists>pv' caps'. (pv', t, caps') \<in> set (reMatch r (pv, w @ t, caps)))"

lemma accepts_lit: "accepts (lit c) [c]"
  by (simp add: accepts_def lit_def)

lemma accepts_Seq: "accepts a v \<Longrightarrow> accepts b w \<Longrightarrow> accepts (Seq a b) (v @ w)"
  unfolding accepts_def by (simp, metis (no_types, lifting) case_prodI2 prod.collapse)

lemma accepts_Opt: "accepts a w \<Longrightarrow> accepts (Opt a) w" "accepts (Opt a) []"
  by (fastforce simp: accepts_def) (auto simp: accepts_def)

lemma accepts_Many:
  assumes "list_all P w" "lo \<le> length w" "\<forall>h. hi = Some h \<longrightarrow> length w \<le> h"
  shows "accepts (Many P lo hi) w"
  unfolding accepts_def
proof (intro allI)
  fix pv :: "char option" and t :: string and caps :: captures
  have "length w \<le> length (takeWhile P (w @ t))"
    using assms(1) by (simp add: takeWhile_append2 list_all_iff)
  with assms(2,3) have "length w \<in> set (runs P lo hi (w @ t))"
    by (auto simp: runs_def Let_def split: option.splits)
  moreover have "advance (length w) (pv, w @ t, caps) = (lastOf pv w, t, caps)" by (simp add: advance_def)
  ultimately have "(lastOf pv w, t, caps) \<in> set (reMatch (Many P lo hi) (pv, w @ t, caps))"
    by (metis (no_types, lifting) imageI list.set_map reMatch.simps(2))
  then show "\<exists>pv' caps'. (pv', t, caps') \<in> set (reMatch (Many P lo hi) (pv, w @ t, caps))" by blast
qed

lemma accepts_fullMatch: "accepts r w \<Longrightarrow> fullMatch r w"
  unfolding accepts_def fullMatch_def list_ex_iff
  by (metis (mono_tags, lifting) append_Nil2 case_prodI)

abbreviation anchoredCell :: "int \<Rightarrow> int \<Rightarrow> string" where
  "anchoredCell row column \<equiv> ''$'' @ columnLabel column @ ''$'' @ intStr (row + 1)"

lemma accepts_cell:
  assumes "0 \<le> row" "0 \<le> column" "column < 18278"
  shows "accepts REF_CELL_RE (anchoredCell row column)"
proof -
  have digits: "accepts (Many isDigit 1 None) (intStr (row + 1))"
    using natStr_digits [of "nat (row + 1)"] assms(1)
    by (intro accepts_Many) (auto simp: intStr_def list_all_iff Suc_le_eq)
  have label: "accepts (Many isUpper 1 (Some 3)) (columnLabel column)"
    using columnLabel_upper columnLabel_nonempty columnLabel_length assms
    by (intro accepts_Many) (auto simp: Suc_le_eq)
  show ?thesis
    unfolding REF_CELL_RE_def seqAll_def
    using accepts_Seq [OF accepts_Opt(1) [OF accepts_lit] accepts_Seq [OF label
        accepts_Seq [OF accepts_Opt(1) [OF accepts_lit] digits]]] by simp
qed

lemma plain_cell:
  "0 \<le> column \<Longrightarrow> filter (\<lambda>c. c \<noteq> CHR ''$'') (columnLabel column) = columnLabel column"
  "0 \<le> row \<Longrightarrow> filter (\<lambda>c. c \<noteq> CHR ''$'') (intStr (row + 1)) = intStr (row + 1)"
  using columnLabel_upper [of column] natStr_digits [of "nat (row + 1)"]
  by (auto simp: intStr_def list_all_iff filter_id_conv class_disjoint)

lemma splitSheetRef_cells:
  assumes name: "name \<noteq> []" "CHR ''!'' \<notin> set name"
    and pos: "0 \<le> r" "0 \<le> c" "0 \<le> r'" "0 \<le> c'" and small: "c < 18278" "c' < 18278"
  shows "splitSheetRef (apos @ escapeQuotes name @ apos @ ''!'' @ anchoredCell r c @ '':'' @ anchoredCell r' c') =
    Some \<lparr>refSheetName = name, refRange = formatAddress r c @ '':'' @ formatAddress r' c'\<rparr>"
proof -
  have m: "fullMatch REF_RANGE_RE (anchoredCell r c @ '':'' @ anchoredCell r' c')"
    unfolding REF_RANGE_RE_def using assms
    by (intro accepts_fullMatch accepts_Seq accepts_Opt(1) accepts_cell) (auto intro: accepts_lit)
  have "isDigit (last (intStr (r' + 1)))"
    using natStr_digits [of "nat (r' + 1)"] pos by (simp add: intStr_def)
  then have l: "\<not> isSpace (last (anchoredCell r c @ '':'' @ anchoredCell r' c'))"
    using pos by (auto simp: isDigit_def isSpace_def intStr_def)
  have f: "filter (\<lambda>c. c \<noteq> CHR ''$'') (anchoredCell r c @ '':'' @ anchoredCell r' c')
      = formatAddress r c @ '':'' @ formatAddress r' c'"
    using pos by (simp add: plain_cell formatAddress_def)
  show ?thesis
    using splitSheetRef_quoted [OF name m _ l] unfolding f by simp
qed

lemma splitSheetRef_a1RangeRef:
  assumes "name \<noteq> []" "CHR ''!'' \<notin> set name" "0 \<le> column" "column < 18278" "0 \<le> from" "0 \<le> to"
  shows "splitSheetRef (a1RangeRef name column from to) =
    Some \<lparr>refSheetName = name, refRange = formatAddress from column @ '':'' @ formatAddress to column\<rparr>"
  using splitSheetRef_cells [of name "from" column to column] assms by (simp add: a1RangeRef_def Let_def)

lemma splitSheetRef_a1RowRangeRef:
  assumes "name \<noteq> []" "CHR ''!'' \<notin> set name" "0 \<le> row" "0 \<le> from" "from < 18278" "0 \<le> to" "to < 18278"
  shows "splitSheetRef (a1RowRangeRef name row from to) =
    Some \<lparr>refSheetName = name, refRange = formatAddress row from @ '':'' @ formatAddress row to\<rparr>"
  using splitSheetRef_cells [of name row "from" row to] assms by (simp add: a1RowRangeRef_def)

end
