(* ===== verification/ChartRefs.thy ===== *)
theory ChartRefs
  imports ChartBuild
begin

text \<open>
  What the references of a built chart denote: the sheet and the cells whose numbers the series
  plots; and how references follow a renamed sheet and an edited area.
\<close>

section \<open>References and areas\<close>

lemma parseRange_area:
  "0 \<le> r \<Longrightarrow> 0 \<le> c \<Longrightarrow> r \<le> r' \<Longrightarrow> c \<le> c' \<Longrightarrow>
   parseRange (formatAddress r c @ '':'' @ formatAddress r' c') =
     Inr \<lparr>startRow = r, startColumn = c, endRow = r', endColumn = c'\<rparr>"
  using parseRange_join [of r c r' c'] by simp

text \<open>An edited area meets a column reference exactly when it is on the sheet and the areas overlap.\<close>

definition overlap :: "RangeBounds \<Rightarrow> RangeBounds \<Rightarrow> bool" where
  "overlap a b \<longleftrightarrow> (\<exists>r c. inBounds a r c \<and> inBounds b r c)"

lemma overlap_iff:
  assumes "boundsOk a" "boundsOk b"
  shows "overlap a b \<longleftrightarrow> startRow a \<le> endRow b \<and> startRow b \<le> endRow a
    \<and> startColumn a \<le> endColumn b \<and> startColumn b \<le> endColumn a"
proof
  assume "startRow a \<le> endRow b \<and> startRow b \<le> endRow a
    \<and> startColumn a \<le> endColumn b \<and> startColumn b \<le> endColumn a"
  then have "inBounds a (max (startRow a) (startRow b)) (max (startColumn a) (startColumn b))"
    "inBounds b (max (startRow a) (startRow b)) (max (startColumn a) (startColumn b))"
    using assms by (auto simp: inBounds_def boundsOk_def)
  then show "overlap a b" by (auto simp: overlap_def)
qed (auto simp: overlap_def inBounds_def)

lemma refIntersects_iff:
  assumes "splitSheetRef ref = Some \<lparr>refSheetName = name, refRange = rng\<rparr>" "parseRange rng = Inr a" "boundsOk b"
  shows "refIntersects ref sheet b \<longleftrightarrow> sheet = name \<and> overlap a b"
  using assms overlap_iff [OF parseRange_ok [OF assms(2)] assms(3)] by (auto simp: refIntersects_def)

section \<open>The grid of a range\<close>

text \<open>\<open>gridOf f rows columns\<close>: the values of the cells \<open>f row column\<close>, row by row.\<close>

definition gridOf :: "(int \<Rightarrow> int \<Rightarrow> CellScalar) \<Rightarrow> int list \<Rightarrow> int list \<Rightarrow> CellScalar list list" where
  "gridOf f rows columns = map (\<lambda>r. map (f r) columns) rows"

lemma gridCell_map: "k < length columns \<Longrightarrow> gridCell (map g columns) k = g (columns ! k)"
  by (simp add: gridCell_def nthOpt_def)

lemma transposeGrid_gridOf:
  "rows \<noteq> [] \<Longrightarrow> transposeGrid (gridOf f rows columns) = gridOf (\<lambda>c r. f r c) columns rows"
  by (rule nth_equalityI) (auto simp: transposeGrid_def gridOf_def hd_map gridCell_map)

lemma chartResult_series:
  assumes "chartResult t h c body counted labels series first = Some d" "s \<in> set (pcSeries d)"
  shows "byRow d = t \<and> hasHeaderRow d = h \<and> body \<noteq> [] \<and> (s \<in> set series \<or> first = Some s)"
  using assms by (auto simp: chartResult_def split: if_splits)

lemma chartSeriesOf_simps [simp]:
  "psColumn (chartSeriesOf numStr toNum h firstRow body i column) = column"
  "psValues (chartSeriesOf numStr toNum h firstRow body i column) = map (\<lambda>row. chartNumber toNum (gridCell row column)) body"
  by (simp_all add: chartSeriesOf_def Let_def)

lemma chartFromBody_values:
  assumes "chartFromBody numStr toNum t h ct firstRow body ncc = Some d" "firstRow \<noteq> []" "s \<in> set (pcSeries d)"
  shows "byRow d = t \<and> hasHeaderRow d = h \<and> body \<noteq> [] \<and> psColumn s < length firstRow
    \<and> psValues s = map (\<lambda>row. chartNumber toNum (gridCell row (psColumn s))) body"
proof -
  obtain n P where r: "byRow d = t \<and> hasHeaderRow d = h \<and> body \<noteq> [] \<and>
      (s \<in> set (map (\<lambda>(i, column). chartSeriesOf numStr toNum h firstRow body i column)
          (enumerate 0 (take MAX_CHART_SERIES (filter P [n..<length firstRow]))))
       \<or> (if list_ex (\<lambda>row. isNumericValue toNum (gridCell row 0)) body
            then Some (chartSeriesOf numStr toNum h firstRow body 0 0) else None) = Some s)"
    using chartResult_series [OF assms(1) [unfolded chartFromBody_def Let_def] assms(3)] by blast
  then consider i column where "column \<in> set (take MAX_CHART_SERIES (filter P [n..<length firstRow]))"
      "s = chartSeriesOf numStr toNum h firstRow body i column"
    | "s = chartSeriesOf numStr toNum h firstRow body 0 0"
    by (auto simp: enumerate_eq_zip dest: set_zip_rightD split: if_splits)
  then show ?thesis
    by cases (use r assms(2) in \<open>auto dest: in_set_takeD\<close>)
qed

text \<open>The series of a grid: each is one column, below the header.\<close>

lemma chartFromBody_gridOf:
  assumes run: "chartFromBody numStr toNum t h ct (hd (gridOf f [lo..hi] columns))
      (take MAX_CHART_ROWS (if h then tl (gridOf f [lo..hi] columns) else gridOf f [lo..hi] columns)) ncc = Some d"
    and s: "s \<in> set (pcSeries d)" and ne: "lo \<le> hi" "columns \<noteq> []" and short: "length [lo..hi] \<le> MAX_CHART_ROWS"
  shows "byRow d = t \<and> hasHeaderRow d = h \<and> psColumn s < length columns
    \<and> lo + (if h then 1 else 0) \<le> hi
    \<and> psValues s = map (\<lambda>r. chartNumber toNum (f r (columns ! psColumn s))) [lo + (if h then 1 else 0)..hi]"
proof -
  let ?from = "lo + (if h then 1 else 0)"
  have rows: "[lo..hi] = lo # [lo + 1..hi]" using ne by (simp add: upto_rec1)
  have first: "hd (gridOf f [lo..hi] columns) = map (f lo) columns" by (simp add: gridOf_def rows)
  have "(if h then tl (gridOf f [lo..hi] columns) else gridOf f [lo..hi] columns) = gridOf f [?from..hi] columns"
    by (simp add: gridOf_def rows)
  moreover have "take MAX_CHART_ROWS (gridOf f [?from..hi] columns) = gridOf f [?from..hi] columns"
    using short by (cases h) (auto simp: gridOf_def)
  ultimately have body: "take MAX_CHART_ROWS (if h then tl (gridOf f [lo..hi] columns)
      else gridOf f [lo..hi] columns) = gridOf f [?from..hi] columns" by simp
  have *: "byRow d = t \<and> hasHeaderRow d = h \<and> gridOf f [?from..hi] columns \<noteq> [] \<and> psColumn s < length columns
    \<and> psValues s = map (\<lambda>row. chartNumber toNum (gridCell row (psColumn s))) (gridOf f [?from..hi] columns)"
    using chartFromBody_values [OF run [unfolded first body] _ s] ne by simp
  then have "?from \<le> hi" by (simp add: gridOf_def split: if_splits)
  with * show ?thesis by (simp add: gridOf_def comp_def gridCell_map)
qed


section \<open>The chart of a range\<close>

abbreviation areaRows :: "RangeBounds \<Rightarrow> int list" where "areaRows b \<equiv> [startRow b..endRow b]"
abbreviation areaColumns :: "RangeBounds \<Rightarrow> int list" where "areaColumns b \<equiv> [startColumn b..endColumn b]"

definition insideBounds :: "RangeBounds \<Rightarrow> RangeBounds \<Rightarrow> bool" where
  "insideBounds a b \<longleftrightarrow> startRow b \<le> startRow a \<and> endRow a \<le> endRow b
     \<and> startColumn b \<le> startColumn a \<and> endColumn a \<le> endColumn b \<and> boundsOk a"

text \<open>
  \<open>denotes\<close>: the reference names cells of the sheet, inside the bounds, and the numbers are
  those of its cells in order.
\<close>

definition denotes ::
  "(string \<Rightarrow> js_number) \<Rightarrow> (int \<Rightarrow> int \<Rightarrow> CellScalar) \<Rightarrow> string \<Rightarrow> RangeBounds \<Rightarrow> string \<Rightarrow> real list \<Rightarrow> bool" where
  "denotes toNum cellAt sheetName b ref vs \<longleftrightarrow>
     (\<exists>rng a. splitSheetRef ref = Some \<lparr>refSheetName = sheetName, refRange = rng\<rparr> \<and> parseRange rng = Inr a
        \<and> insideBounds a b
        \<and> vs = concat (map (\<lambda>r. map (\<lambda>c. chartNumber toNum (cellAt r c)) (areaColumns a)) (areaRows a)))"

lemma denotes_column:
  assumes "boundsOk b" "sheetName \<noteq> []" "CHR ''!'' \<notin> set sheetName" "endColumn b < 18278"
    and "startRow b \<le> lo" "lo \<le> endRow b" "startColumn b \<le> c" "c \<le> endColumn b"
  shows "denotes toNum cellAt sheetName b (a1RangeRef sheetName c lo (endRow b))
    (map (\<lambda>r. chartNumber toNum (cellAt r c)) [lo..endRow b])"
  using assms parseRange_area [of lo c "endRow b" c]
  by (auto simp: denotes_def splitSheetRef_a1RangeRef insideBounds_def boundsOk_def concat_map_singleton)

lemma denotes_row:
  assumes "boundsOk b" "sheetName \<noteq> []" "CHR ''!'' \<notin> set sheetName" "endColumn b < 18278"
    and "startColumn b \<le> lo" "lo \<le> endColumn b" "startRow b \<le> r" "r \<le> endRow b"
  shows "denotes toNum cellAt sheetName b (a1RowRangeRef sheetName r lo (endColumn b))
    (map (\<lambda>c. chartNumber toNum (cellAt r c)) [lo..endColumn b])"
  using assms parseRange_area [of r lo r "endColumn b"]
  by (auto simp: denotes_def splitSheetRef_a1RowRangeRef insideBounds_def boundsOk_def)

lemma chart_series_refs:
  assumes b: "boundsOk b" and name: "sheetName \<noteq> []" "CHR ''!'' \<notin> set sheetName" and "endColumn b < 18278"
    and short: "endRow b - startRow b < 500" "endColumn b - startColumn b < 500"
    and d: "chartDataFromValues numStr toNum (gridOf cellAt (areaRows b) (areaColumns b)) False = Some d"
    and s: "s \<in> set (pcSeries d)"
  shows "denotes toNum cellAt sheetName b (fst (seriesRefs sheetName b d (psColumn s))) (psValues s)"
proof -
  let ?g = "gridOf cellAt (areaRows b) (areaColumns b)"
  have le: "startRow b \<le> endRow b" "startColumn b \<le> endColumn b" using b by (simp_all add: boundsOk_def)
  then have ne: "\<not> (?g = [] \<or> hd ?g = [])" by (auto simp: gridOf_def upto_rec1)
  note run = d [unfolded chartDataFromValues_def Let_def if_not_P [OF ne]]
  show ?thesis
  proof (cases "1 < length (hd ?g) \<and> length ?g \<le> length (hd ?g)")
    case True
    have tr: "transposeGrid ?g = gridOf (\<lambda>c r. cellAt r c) (areaColumns b) (areaRows b)"
      using le by (intro transposeGrid_gridOf) simp
    from chartFromBody_gridOf [OF run [unfolded if_P [OF True] tr] s] le short
    have "byRow d" "psColumn s < length (areaRows b)"
      "startColumn b + (if hasHeaderRow d then 1 else 0) \<le> endColumn b"
      "psValues s = map (\<lambda>c. chartNumber toNum (cellAt (areaRows b ! psColumn s) c))
         [startColumn b + (if hasHeaderRow d then 1 else 0)..endColumn b]"
      using True by (auto simp: MAX_CHART_ROWS_def)
    then show ?thesis
      using denotes_row [OF b name \<open>endColumn b < 18278\<close>, of "startColumn b + (if hasHeaderRow d then 1 else 0)"
          "startRow b + int (psColumn s)" toNum cellAt] by (auto simp: seriesRefs_def Let_def)
  next
    case False
    from chartFromBody_gridOf [OF run [unfolded if_not_P [OF False]] s] le short
    have "\<not> byRow d" "psColumn s < length (areaColumns b)"
      "startRow b + (if hasHeaderRow d then 1 else 0) \<le> endRow b"
      "psValues s = map (\<lambda>r. chartNumber toNum (cellAt r (areaColumns b ! psColumn s)))
         [startRow b + (if hasHeaderRow d then 1 else 0)..endRow b]"
      using False by (auto simp: MAX_CHART_ROWS_def)
    then show ?thesis
      using denotes_column [OF b name \<open>endColumn b < 18278\<close>, of "startRow b + (if hasHeaderRow d then 1 else 0)"
          "startColumn b + int (psColumn s)" toNum cellAt] by (auto simp: seriesRefs_def Let_def add.commute)
  qed
qed


lemma buildChartVisual_Inr:
  assumes "buildChartVisual numStr toNum input = Inr v"
  obtains b d where "parseRange (inDataRange input) = Inr b" "rangeCellCount b \<le> 2000"
    "chartDataFromValues numStr toNum (inValues input) False = Some d"
    "visualId v = inId input" "visualSheetId v = inSheetId input"
    "cvSeries (chart v) = map (\<lambda>s. case seriesRefs (inSheetName input) b d (psColumn s) of
       (ref, catRef) \<Rightarrow> plainSeries (psName s) (pcCategories d) (psValues s) ref catRef) (pcSeries d)"
proof -
  note run = assms [unfolded buildChartVisual_def Let_def]
  obtain b where b: "parseRange (inDataRange input) = Inr b" "rangeCellCount b \<le> 2000"
    using run by (auto simp: res_simps)
  obtain d where d: "chartDataFromValues numStr toNum (inValues input) False = Some d"
    using run b by (cases "chartDataFromValues numStr toNum (inValues input) False") (auto simp: res_simps)
  show thesis
    by (rule that [OF b d]) (use run b d in \<open>auto simp: res_simps simp del: bindE_Inl_iff\<close>)
qed

text \<open>Every series of a new chart plots the numbers of the cells its reference denotes.\<close>

lemma buildChartVisual_denotes:
  assumes run: "buildChartVisual numStr toNum input = Inr v"
    and b: "parseRange (inDataRange input) = Inr b"
    and grid: "inValues input = gridOf cellAt (areaRows b) (areaColumns b)"
    and name: "inSheetName input \<noteq> []" "CHR ''!'' \<notin> set (inSheetName input)" "endColumn b < 18278"
    and short: "endRow b - startRow b < 500" "endColumn b - startColumn b < 500"
    and s: "s \<in> set (cvSeries (chart v))"
  shows "\<exists>ref. serValuesRef s = Some ref \<and> denotes toNum cellAt (inSheetName input) b ref (serValues s)"
proof -
  obtain b' d where b': "parseRange (inDataRange input) = Inr b'" and
    d: "chartDataFromValues numStr toNum (inValues input) False = Some d" and
    cs': "cvSeries (chart v) = map (\<lambda>s. case seriesRefs (inSheetName input) b' d (psColumn s) of
       (ref, catRef) \<Rightarrow> plainSeries (psName s) (pcCategories d) (psValues s) ref catRef) (pcSeries d)"
    by (rule buildChartVisual_Inr [OF run])
  have "b' = b" using b b' by simp
  note cs = cs' [unfolded this]
  from s cs obtain p where p: "p \<in> set (pcSeries d)" and
    sp: "s = (case seriesRefs (inSheetName input) b d (psColumn p) of
       (ref, catRef) \<Rightarrow> plainSeries (psName p) (pcCategories d) (psValues p) ref catRef)" by auto
  have "serValuesRef s = Some (fst (seriesRefs (inSheetName input) b d (psColumn p)))" "serValues s = psValues p"
    unfolding sp by (simp_all add: plainSeries_def split: prod.split)
  with chart_series_refs [OF parseRange_ok [OF b] name short d [unfolded grid] p] show ?thesis by simp
qed

section \<open>Renaming a sheet\<close>

lemma dropWhile_trim:
  assumes "\<not> isSpace c" "c \<in> set s"
  shows "\<exists>w. dropWhile (\<lambda>x. x \<noteq> c) s = dropWhile (\<lambda>x. x \<noteq> c) (trim s) @ w \<and> list_all isSpace w"
proof -
  obtain u where u: "s = takeWhile isSpace s @ dropWhile isSpace s" by simp
  define t where "t = dropWhile isSpace s"
  have sp: "\<forall>x\<in>set (takeWhile isSpace s). isSpace x" by (auto dest: set_takeWhileD)
  then have nc: "\<forall>x\<in>set (takeWhile isSpace s). x \<noteq> c" using assms(1) by auto
  have d1: "dropWhile (\<lambda>x. x \<noteq> c) s = dropWhile (\<lambda>x. x \<noteq> c) t"
    unfolding t_def by (subst u, subst dropWhile_append2) (use nc in auto)
  have ct: "c \<in> set t" using assms(2) nc u unfolding t_def by (metis Un_iff set_append)
  define w where "w = rev (takeWhile isSpace (rev t))"
  have w: "list_all isSpace w" by (auto simp: w_def list_all_iff dest: set_takeWhileD)
  have tt: "t = trim s @ w"
    by (simp add: w_def t_def [symmetric] trim_def trimWith_def flip: rev_append)
  have "c \<in> set (trim s)" using ct w assms(1) tt by (metis Un_iff list_all_iff set_append)
  then have "dropWhile (\<lambda>x. x \<noteq> c) t = dropWhile (\<lambda>x. x \<noteq> c) (trim s) @ w"
    by (subst tt) (auto simp: dropWhile_append1)
  with d1 w show ?thesis by auto
qed


lemma trim_spaces: "list_all isSpace w \<Longrightarrow> trim (s @ w) = trim s"
proof -
  assume w: "list_all isSpace w"
  show ?thesis
  proof (cases "list_all isSpace s")
    case True
    with w have "dropWhile isSpace (s @ w) = []" "dropWhile isSpace s = []"
      by (auto simp: list_all_iff dropWhile_eq_Nil_conv)
    then show ?thesis by (simp only: trim_def trimWith_def)
  next
    case False
    then have ne: "dropWhile isSpace s \<noteq> []" by (auto simp: list_all_iff dropWhile_eq_Nil_conv)
    have "dropWhile isSpace (s @ w) = dropWhile isSpace s @ w"
      using False by (auto simp: list_all_iff dropWhile_append1)
    moreover have "dropWhile isSpace (rev w @ rev (dropWhile isSpace s)) = dropWhile isSpace (rev (dropWhile isSpace s))"
      by (rule dropWhile_append2) (use w in \<open>auto simp: list_all_iff\<close>)
    ultimately show ?thesis by (simp only: trim_def trimWith_def rev_append)
  qed
qed

lemma trim_last: "trim s \<noteq> [] \<Longrightarrow> \<not> isSpace (last (trim s))"
  using hd_dropWhile [of isSpace "rev (dropWhile isSpace s)"]
  by (simp add: trim_def trimWith_def last_rev del: dropWhile_eq_Nil_conv)

lemma splitSheetRef_Some:
  assumes "splitSheetRef ref = Some r"
  obtains rest where "CHR ''!'' \<in> set (trim ref)" "dropWhile (\<lambda>c. c \<noteq> CHR ''!'') (trim ref) = CHR ''!'' # rest"
    "fullMatch REF_RANGE_RE rest" "rest \<noteq> []" "\<not> isSpace (last rest)" "refRange r = filter (\<lambda>c. c \<noteq> CHR ''$'') rest"
proof -
  let ?d = "dropWhile (\<lambda>c. c \<noteq> CHR ''!'') (trim ref)"
  have ex: "CHR ''!'' \<in> set (trim ref)" and m: "fullMatch REF_RANGE_RE (tl ?d)"
    and r: "refRange r = filter (\<lambda>c. c \<noteq> CHR ''$'') (tl ?d)"
    using assms by (auto simp: splitSheetRef_def Let_def split: if_splits)
  then have "?d \<noteq> []" by (auto simp: dropWhile_eq_Nil_conv)
  then have d: "?d = CHR ''!'' # tl ?d" using hd_dropWhile [of "\<lambda>c. c \<noteq> CHR ''!''" "trim ref"]
    by (metis list.collapse)
  have ne: "tl ?d \<noteq> []"
  proof
    assume "tl ?d = []"
    with m show False by (simp add: fullMatch_def REF_RANGE_RE_def REF_CELL_RE_def seqAll_def lit_def runs_def)
  qed
  have "trim ref = takeWhile (\<lambda>c. c \<noteq> CHR ''!'') (trim ref) @ CHR ''!'' # tl ?d"
    using d by (metis takeWhile_dropWhile_id)
  then have "last (tl ?d) = last (trim ref)" "trim ref \<noteq> []" using ne
    by (metis last_ConsR last_appendR list.discI, auto)
  then have "\<not> isSpace (last (tl ?d))" using trim_last by simp
  with ex d m ne r that show thesis by blast
qed

lemma renameRefSheet_split:
  assumes split: "splitSheetRef ref = Some r" and old: "refSheetName r = oldName"
    and new: "newName \<noteq> []" "CHR ''!'' \<notin> set newName"
  shows "splitSheetRef (renameRefSheet ref oldName newName) = Some (r\<lparr>refSheetName := newName\<rparr>)"
proof -
  from splitSheetRef_Some [OF split] obtain rest where
    ex: "CHR ''!'' \<in> set (trim ref)" and d: "dropWhile (\<lambda>c. c \<noteq> CHR ''!'') (trim ref) = CHR ''!'' # rest"
    and rest: "fullMatch REF_RANGE_RE rest" "rest \<noteq> []" "\<not> isSpace (last rest)"
    and rng: "refRange r = filter (\<lambda>c. c \<noteq> CHR ''$'') rest" by blast
  have "set (trim ref) \<subseteq> set ref"
    unfolding trim_def trimWith_def by (metis set_dropWhileD set_rev subsetI)
  with ex have "CHR ''!'' \<in> set ref" by blast
  from dropWhile_trim [OF _ this] obtain w where
    w: "dropWhile (\<lambda>c. c \<noteq> CHR ''!'') ref = CHR ''!'' # rest @ w" "list_all isSpace w"
    using d by (auto simp: isSpace_def code_def)
  have eq: "renameRefSheet ref oldName newName = (apos @ escapeQuotes newName @ apos @ ''!'' @ rest) @ w"
    using split old w(1) by (simp add: renameRefSheet_def)
  have t: "splitSheetRef ((apos @ escapeQuotes newName @ apos @ ''!'' @ rest) @ w)
    = splitSheetRef (apos @ escapeQuotes newName @ apos @ ''!'' @ rest)"
    by (simp only: splitSheetRef_def trim_spaces [OF w(2)])
  show ?thesis
    unfolding eq t splitSheetRef_quoted [OF new rest] using rng by simp
qed

end
