(* ===== verification/WorkbookLabels.thy ===== *)
theory WorkbookLabels
  imports WorkbookOps
begin

text \<open>
  The labels of operations in a change preview (\<open>workbook-dsl.ts\<close>, the \<open>*OpLabel\<close> functions).
  A label that names the last column of a span can throw, through \<open>columnIndex\<close>; that it does
  not on a parsed operation is \<open>layoutOpLabel_total\<close> and \<open>structuralOpLabel_total\<close>. \<open>numStr\<close> is
  \<open>String(number)\<close>.
\<close>

definition quoted :: "string \<Rightarrow> string" where "quoted s = quote @ s @ quote"

text \<open>\<open>x ? f(x) : ''\<close> for an optional text: absent and empty are both false.\<close>

definition whenText :: "string option \<Rightarrow> (string \<Rightarrow> string) \<Rightarrow> string" where
  "whenText t f = (case t of None \<Rightarrow> [] | Some s \<Rightarrow> if s = [] then [] else f s)"

definition whenSome :: "'a option \<Rightarrow> ('a \<Rightarrow> string) \<Rightarrow> string list" where
  "whenSome t f = (case t of None \<Rightarrow> [] | Some x \<Rightarrow> [f x])"

definition truthyTexts :: "string list \<Rightarrow> string list" where
  "truthyTexts xs = filter (\<lambda>s. s \<noteq> []) xs"

definition shorten :: "nat \<Rightarrow> string \<Rightarrow> string" where
  "shorten n s = (if n < length s then take n s @ ellipsis else s)"

text \<open>\<open>columnLabel(columnIndex(column) + count - 1)\<close>\<close>

definition lastColumn :: "string \<Rightarrow> int \<Rightarrow> js_error + string" where
  "lastColumn column count' = bindE (columnIndex column) (\<lambda>c. Inr (columnLabel (c + count' - 1)))"

section \<open>Range operations\<close>

definition fillOpLabel :: "FillRangeOperation \<Rightarrow> string" where
  "fillOpLabel op' = ''Fill '' @ fillSource op' @ '' '' @ arrow @ '' '' @ fillTarget op'"

definition copyOpLabel :: "CopyRangeOperation \<Rightarrow> string" where
  "copyOpLabel op' =
     ''Copy '' @ copySource op' @ '' '' @ arrow @ '' '' @ copyTarget op'
       @ whenText (filterColumn op') (\<lambda>c. '' (rows where '' @ c @ '' matches: ''
           @ commaJoin (case filterValues op' of Some vs \<Rightarrow> vs | None \<Rightarrow> []) @ '')'')"

definition convertToValuesOpLabel :: "string \<Rightarrow> string" where
  "convertToValuesOpLabel rng = ''Convert '' @ rng @ '' to values''"

definition clearRangeOpLabel :: "string \<Rightarrow> string" where
  "clearRangeOpLabel rng = ''Clear '' @ rng"

definition findReplaceOpLabel :: "FindReplaceOperation \<Rightarrow> string" where
  "findReplaceOpLabel op' = ''Replace '' @ quoted (findText op') @ '' '' @ arrow @ '' ''
     @ quoted (replaceText op') @ '' in '' @ findRange op'"

definition sortOpLabel :: "SortRangeOperation \<Rightarrow> string" where
  "sortOpLabel op' = ''Sort '' @ sortRange op' @ '' by '' @ byColumn op' @ '' ''
     @ (if sortOrder op' = ''asc'' then ''ascending'' else ''descending'')"

section \<open>Formats\<close>

definition FORMAT_FIELD_LABELS :: "string obj" where
  "FORMAT_FIELD_LABELS =
     [(''bold'', ''bold''), (''italic'', ''italic''), (''underline'', ''underline''),
      (''strikethrough'', ''strikethrough''), (''fontFamily'', ''font''), (''fontSize'', ''font size''),
      (''fontColor'', ''font color''), (''fillColor'', ''fill''), (''numberFormat'', ''number format''),
      (''horizontalAlign'', ''align''), (''verticalAlign'', ''vertical align''), (''wrapText'', ''wrap''),
      (''textRotation'', ''rotation''), (''indent'', ''indent'')]"

definition formatPart :: "(real \<Rightarrow> string) \<Rightarrow> string \<times> FormatValue option \<Rightarrow> string" where
  "formatPart numStr entry = (case entry of (key, v) \<Rightarrow>
     let name = (case map_of FORMAT_FIELD_LABELS key of Some n \<Rightarrow> n | None \<Rightarrow> key)
     in case v of
          None \<Rightarrow> ''clear '' @ name
        | Some (FBorder type color) \<Rightarrow>
            if type = ''none'' then ''clear borders''
            else ''border '' @ type @ whenText color (\<lambda>c. '' '' @ c)
        | Some (FBool b) \<Rightarrow> if b then name else ''no '' @ name
        | Some (FNum x) \<Rightarrow> name @ '' '' @ numStr x
        | Some (FText t) \<Rightarrow> name @ '' '' @ t)"

definition formatOpLabel :: "(real \<Rightarrow> string) \<Rightarrow> string \<Rightarrow> CellFormatPatch \<Rightarrow> string" where
  "formatOpLabel numStr rng fmt = rng @ '': '' @ commaJoin (map (formatPart numStr) fmt)"

section \<open>Rules\<close>

fun cfRuleLabel :: "(real \<Rightarrow> string) \<Rightarrow> CfRule \<Rightarrow> string" where
  "cfRuleLabel numStr (CfNumber oper v v2 f) =
     oper @ '' '' @ numStr v @ (case v2 of None \<Rightarrow> [] | Some x \<Rightarrow> '' and '' @ numStr x)"
| "cfRuleLabel numStr (CfText oper t f) = oper @ '' '' @ quoted t"
| "cfRuleLabel numStr (CfBlank b f) = (if b then ''is empty'' else ''is not empty'')"
| "cfRuleLabel numStr (CfDuplicate unique f) = (if unique = Some True then ''unique values'' else ''duplicate values'')"
| "cfRuleLabel numStr (CfTop10 rank percent bottom f) =
     (if bottom = Some True then ''bottom'' else ''top'') @ '' '' @ intStr rank @ (if percent = Some True then ''%'' else [])"
| "cfRuleLabel numStr (CfFormula t f) = t"
| "cfRuleLabel numStr (CfColorScale lo mid hi) = ''color scale '' @ lo @ '' '' @ arrow @ '' '' @ hi"
| "cfRuleLabel numStr (CfDataBar color) = ''data bar'' @ whenText color (\<lambda>c. '' '' @ c)"

fun dvRuleLabel :: "(real \<Rightarrow> string) \<Rightarrow> DvRule \<Rightarrow> string" where
  "dvRuleLabel numStr (DvList vs) =
     ''list ('' @ commaJoin (take 5 vs) @ (if 5 < length vs then '', '' @ ellipsis else []) @ '')''"
| "dvRuleLabel numStr (DvListRef r) = ''list from '' @ r"
| "dvRuleLabel numStr (DvNumberBetween lo hi) = ''number between '' @ numStr lo @ '' and '' @ numStr hi"
| "dvRuleLabel numStr (DvDateBetween a b) = ''date between '' @ a @ '' and '' @ b"
| "dvRuleLabel numStr DvCheckbox = ''checkbox''"
| "dvRuleLabel numStr (DvFormula t) = ''custom '' @ t"

section \<open>Layout operations\<close>

definition axisTitlePart :: "string \<Rightarrow> string patch \<Rightarrow> string list" where
  "axisTitlePart axis p =
     (case p of Absent \<Rightarrow> [] | Cleared \<Rightarrow> [''clear '' @ axis @ ''-axis title''] | Value t \<Rightarrow> [axis @ '' axis '' @ quoted t])"

definition seriesDataPart :: "SeriesDataEntry \<Rightarrow> string" where
  "seriesDataPart e =
     ''series #'' @ intStr (seriesIndex e) @ '' ''
       @ join '' '' (truthyTexts (whenSome (seriesName e) (\<lambda>n. ''name '' @ quoted n)
           @ whenSome (valuesRange e) (\<lambda>r. ''values '' @ r) @ whenSome (categoriesRange e) (\<lambda>r. ''categories '' @ r)))"

definition editChartParts :: "EditChartOperation \<Rightarrow> string list" where
  "editChartParts e =
     whenSome (chartTitle e) (\<lambda>t. ''title '' @ quoted t)
     @ whenSome (editChartType e) (\<lambda>t. ''type '' @ t)
     @ (case seriesColors e of None \<Rightarrow> []
        | Some cs \<Rightarrow> if cs = [] then []
            else [''series colors '' @ commaJoin (map (\<lambda>(i, c). ''#'' @ i @ arrow @ c) cs)])
     @ whenSome (legend e) (\<lambda>l. if l = ''none'' then ''hide legend'' else ''legend '' @ l)
     @ (case axisTitles e of None \<Rightarrow> []
        | Some a \<Rightarrow> axisTitlePart ''category'' (axisCategory a) @ axisTitlePart ''value'' (axisValue a))
     @ map seriesDataPart (case seriesData e of Some es \<Rightarrow> es | None \<Rightarrow> [])"

fun fieldList :: "OneOrMany \<Rightarrow> string list" where
  "fieldList (OneField f) = [f]"
| "fieldList (ManyFields fs) = fs"

definition addPivotLabel :: "AddPivotOperation \<Rightarrow> string" where
  "addPivotLabel p =
     (let columns = (case columnField p of None \<Rightarrow> [] | Some c \<Rightarrow> fieldList c);
          pages = (case pageFields p of None \<Rightarrow> [] | Some fs \<Rightarrow> fs)
      in ''Create pivot'' @ whenText (pivotName p) (\<lambda>n. '' '' @ n) @ '' from '' @ sourceRange p
         @ '' (rows: '' @ join '' > '' (fieldList (rowFields p))
         @ (if columns \<noteq> [] then '', columns: '' @ join '' > '' columns else [])
         @ (if pages \<noteq> [] then '', filters: '' @ commaJoin pages else []) @ '', ''
         @ ''values: '' @ commaJoin (map (\<lambda>v. agg v @ '' '' @ valueField v) (pivotValues p))
         @ '') at '' @ targetCell p)"

definition orAuto :: "int \<Rightarrow> string" where
  "orAuto n = (if n = 0 then ''auto'' else intStr n)"

definition pageSetupParts :: "PageSetupOperation \<Rightarrow> string list" where
  "pageSetupParts p =
     whenSome (orientation p) (\<lambda>x. x)
     @ whenSome (paperSize p) (\<lambda>n. ''paper '' @ intStr n)
     @ whenSome (pageScale p) (\<lambda>n. ''scale '' @ intStr n @ ''%'')
     @ whenSome (fitToWidth p) (\<lambda>n. ''fit width '' @ orAuto n)
     @ whenSome (fitToHeight p) (\<lambda>n. ''fit height '' @ orAuto n)
     @ whenSome (margins p) (\<lambda>x. x @ '' margins'')
     @ whenSome (printGridlines p) (\<lambda>b. (if b then ''print'' else ''no'') @ '' gridlines'')
     @ whenSome (printHeadings p) (\<lambda>b. (if b then ''print'' else ''no'') @ '' headings'')
     @ (case printArea p of Absent \<Rightarrow> [] | Cleared \<Rightarrow> [''clear print area''] | Value r \<Rightarrow> [''print area '' @ r])"

definition plural :: "int \<Rightarrow> string \<Rightarrow> string" where
  "plural n word = (if n = 1 then word else word @ ''s'')"

definition countText :: "int \<Rightarrow> string \<Rightarrow> string" where
  "countText n word = ''first '' @ intStr n @ '' '' @ plural n word"

definition rowSpan :: "int \<Rightarrow> int \<Rightarrow> string" where
  "rowSpan row count' = intStr row @ enDash @ intStr (row + count' - 1)"

definition hideWord :: "bool \<Rightarrow> string" where
  "hideWord h = (if h then ''Hide'' else ''Unhide'')"

fun layoutOpLabel :: "(real \<Rightarrow> string) \<Rightarrow> LayoutOperation \<Rightarrow> js_error + string" where
  "layoutOpLabel numStr (DeleteVisual v) = Inr (''Delete visual '' @ v)"
| "layoutOpLabel numStr (DeleteTable s t) = Inr (''Delete table '' @ quoted t)"
| "layoutOpLabel numStr (AddSparkline s type r c col) = Inr (''Insert '' @ type @ '' sparklines for '' @ r)"
| "layoutOpLabel numStr (MergeCells s r) = Inr (''Merge '' @ r)"
| "layoutOpLabel numStr (UnmergeCells s r) = Inr (''Unmerge '' @ r)"
| "layoutOpLabel numStr (SetRowHeight s row n h) = Inr (
     if n = 1 then ''Set row '' @ intStr row @ '' height to '' @ numStr h @ ''pt''
     else ''Set rows '' @ rowSpan row n @ '' height to '' @ numStr h @ ''pt'')"
| "layoutOpLabel numStr (SetColWidth s column n w) =
     (if n = 1 then Inr (''Set column '' @ column @ '' width to '' @ numStr w @ ''px'')
      else bindE (lastColumn column n) (\<lambda>l.
        Inr (''Set columns '' @ column @ enDash @ l @ '' width to '' @ numStr w @ ''px'')))"
| "layoutOpLabel numStr (EditChart e) = Inr (''Edit chart '' @ chartPath e @ '': '' @ commaJoin (editChartParts e))"
| "layoutOpLabel numStr (AddChart s type r title a) =
     Inr (''Insert '' @ type @ '' chart from '' @ r @ whenText title (\<lambda>t. '' '' @ quoted t))"
| "layoutOpLabel numStr (AddShape s type a f x) =
     Inr (''Insert '' @ (if type = ''textbox'' then ''text box'' else type @ '' shape'') @ '' at '' @ a)"
| "layoutOpLabel numStr (EditShape v x f a) =
     Inr (''Edit shape '' @ v @ '': '' @ commaJoin (truthyTexts (whenSome x (\<lambda>t. ''text '' @ quoted (shorten 40 t))
       @ whenSome f (\<lambda>c. ''fill '' @ c) @ whenSome a (\<lambda>c. ''move to '' @ c))))"
| "layoutOpLabel numStr (AddImage s p a) = Inr (''Insert image '' @ last (splitOn (CHR ''/'') p) @ '' at '' @ a)"
| "layoutOpLabel numStr (AddTable s r name style banded) =
     Inr (''Create table'' @ whenText name (\<lambda>n. '' '' @ n) @ '' over '' @ r)"
| "layoutOpLabel numStr (AddTableRow s t row n) =
     Inr (''Insert '' @ intStr n @ '' row(s) into table '' @ t
       @ (case row of Some r \<Rightarrow> '' at position '' @ intStr r | None \<Rightarrow> '' (append)''))"
| "layoutOpLabel numStr (AddTableColumn s t c name n) =
     Inr (''Insert column '' @ quoted name @ '' into table '' @ t)"
| "layoutOpLabel numStr (DeleteTableRow s t row n) =
     Inr (''Delete '' @ intStr n @ '' row(s) from table '' @ t @ '' at position '' @ intStr row)"
| "layoutOpLabel numStr (DeleteTableColumn s t c n) =
     Inr (''Delete '' @ intStr n @ '' column(s) from table '' @ t @ '' at position '' @ intStr c)"
| "layoutOpLabel numStr (AddPivot p) = Inr (addPivotLabel p)"
| "layoutOpLabel numStr (SetRowsHidden s row n h) =
     Inr (hideWord h @ '' row'' @ (if n = 1 then '' '' @ intStr row else ''s '' @ rowSpan row n))"
| "layoutOpLabel numStr (SetColsHidden s column n h) =
     (if n = 1 then Inr (hideWord h @ '' column '' @ column)
      else bindE (lastColumn column n) (\<lambda>l. Inr (hideWord h @ '' columns '' @ column @ enDash @ l)))"
| "layoutOpLabel numStr (SetHyperlink s a target) = Inr (
     case target of None \<Rightarrow> ''Remove link at '' @ a | Some t \<Rightarrow> ''Link '' @ a @ '' '' @ arrow @ '' '' @ t)"
| "layoutOpLabel numStr (ProtectSheet s p) = Inr (if p then ''Protect sheet'' else ''Unprotect sheet'')"
| "layoutOpLabel numStr (SetFilter s r) = Inr (''Add auto-filter on '' @ r)"
| "layoutOpLabel numStr (ClearFilter s) = Inr ''Remove auto-filter''"
| "layoutOpLabel numStr (SetFilterCriteria s c vs) = Inr (
     case vs of
       None \<Rightarrow> ''Clear filter criteria on column '' @ c
     | Some xs \<Rightarrow> ''Filter column '' @ c @ '' to '' @ natStr (length xs) @ '' '' @ plural (int (length xs)) ''value'')"
| "layoutOpLabel numStr (AddConditionalFormat s r rule) = Inr (''Conditional format '' @ r @ '': '' @ cfRuleLabel numStr rule)"
| "layoutOpLabel numStr (ClearConditionalFormats s) = Inr ''Clear conditional formats''"
| "layoutOpLabel numStr (SetDataValidation s r v) = Inr (
     case v of None \<Rightarrow> ''Clear data validation on '' @ r
     | Some rule \<Rightarrow> ''Data validation '' @ r @ '': '' @ dvRuleLabel numStr rule)"
| "layoutOpLabel numStr (AddDefinedName n r) = Inr (''Define name '' @ n @ '' = '' @ r)"
| "layoutOpLabel numStr (DeleteDefinedName n) = Inr (''Delete defined name '' @ n)"
| "layoutOpLabel numStr (SetPageSetup p) = Inr (''Page setup: '' @ commaJoin (pageSetupParts p))"
| "layoutOpLabel numStr (SetFreeze s rows columns) = Inr (
     if rows = 0 \<and> columns = 0 then ''Unfreeze panes''
     else ''Freeze '' @ join '' and '' (truthyTexts
       [if 0 < rows then countText rows ''row'' else [], if 0 < columns then countText columns ''column'' else []]))"
| "layoutOpLabel numStr (SetNote s a t) = Inr (
     case t of None \<Rightarrow> ''Remove note at '' @ a | Some x \<Rightarrow> ''Note at '' @ a @ '': '' @ quoted (shorten 60 x))"
| "layoutOpLabel numStr (RefreshPivot s) = Inr ''Refresh pivot tables''"

section \<open>Structural operations\<close>

fun structuralOpLabel :: "StructuralOperation \<Rightarrow> js_error + string" where
  "structuralOpLabel (InsertRows s row n) = Inr (
     if n = 1 then ''Insert 1 row before row '' @ intStr row
     else ''Insert '' @ intStr n @ '' rows before row '' @ intStr row)"
| "structuralOpLabel (DeleteRows s row n) = Inr (
     if n = 1 then ''Delete row '' @ intStr row else ''Delete rows '' @ rowSpan row n)"
| "structuralOpLabel (InsertCols s column n) = Inr (
     if n = 1 then ''Insert 1 column before column '' @ column
     else ''Insert '' @ intStr n @ '' columns before column '' @ column)"
| "structuralOpLabel (DeleteCols s column n) =
     (if n = 1 then Inr (''Delete column '' @ column)
      else bindE (lastColumn column n) (\<lambda>l. Inr (''Delete columns '' @ column @ enDash @ l)))"
| "structuralOpLabel (AddSheet name rows columns) =
     Inr (''Add sheet '' @ quoted name
       @ (if (rows \<noteq> None \<and> rows \<noteq> Some 0) \<or> (columns \<noteq> None \<and> columns \<noteq> Some 0)
          then '' ('' @ intStr (case rows of Some r \<Rightarrow> r | None \<Rightarrow> 1000) @ '' rows '' @ timesSign @ '' ''
            @ intStr (case columns of Some c \<Rightarrow> c | None \<Rightarrow> 20) @ '' columns)'' else []))"
| "structuralOpLabel (DeleteSheet s) = Inr (''Delete sheet '' @ s)"
| "structuralOpLabel (DuplicateSheet s name) =
     Inr (''Duplicate sheet '' @ s @ whenText name (\<lambda>n. '' as '' @ quoted n))"
| "structuralOpLabel (SetSheetHidden s h) = Inr (hideWord h @ '' sheet '' @ s)"
| "structuralOpLabel (MoveSheet s position) = Inr (''Move sheet '' @ s @ '' to position '' @ intStr position)"

section \<open>Every parsed operation has a label\<close>

lemma columnIndex_total: "columnLabelOk c \<Longrightarrow> \<exists>k. columnIndex c = Inr k \<and> 0 \<le> k"
  using columnIndex_ok [of c] by (auto simp: columnLabelOk_def lengthIn_def columnIndex_def)

lemma layoutOpLabel_total: "layoutOk l \<Longrightarrow> \<exists>t. layoutOpLabel numStr l = Inr t"
  using columnIndex_total
  by (cases l) (fastforce simp: colWidthOk_def colsHiddenOk_def lastColumn_def)+

lemma structuralOpLabel_total: "structuralOk s \<Longrightarrow> \<exists>t. structuralOpLabel s = Inr t"
  using columnIndex_total
  by (cases s) (fastforce simp: deleteColsOk_def lastColumn_def)+

end
