(* ===== verification/SortOrder.thy ===== *)
theory SortOrder
  imports SortRange
begin

text \<open>
  The order that a sort promises, stated without the comparator of \<open>sort-range.ts\<close>: the comment at its line 25
  and the one on \<open>computeSortedRowOrder\<close>. The code differs from the first comment on booleans and texts only.
\<close>

section \<open>The documented order\<close>

text \<open>Numbers before booleans before texts, each kind by its own order; texts by the collation.\<close>

fun valueBefore :: "(string \<Rightarrow> string \<Rightarrow> real) \<Rightarrow> CellScalar \<Rightarrow> CellScalar \<Rightarrow> bool" where
  "valueBefore lc (Num x) (Num y) = (x < y)"
| "valueBefore lc (Num x) (Boolean q) = True"
| "valueBefore lc (Num x) (Str t) = True"
| "valueBefore lc (Boolean p) (Boolean q) = (\<not> p \<and> q)"
| "valueBefore lc (Boolean p) (Str t) = True"
| "valueBefore lc (Str s) (Str t) = (lc s t < 0)"
| "valueBefore lc _ _ = False"

text \<open>Descending turns the values around; blanks stay last.\<close>

definition keyBefore :: "(string \<Rightarrow> string \<Rightarrow> real) \<Rightarrow> bool \<Rightarrow> CellScalar \<Rightarrow> CellScalar \<Rightarrow> bool" where
  "keyBefore lc ascending a b \<longleftrightarrow>
     a \<noteq> Null \<and> (b = Null \<or> (if ascending then valueBefore lc a b else valueBefore lc b a))"

text \<open>A boolean against a text, the one case where the code and the comment disagree.\<close>

fun textAndBoolean :: "CellScalar \<Rightarrow> CellScalar \<Rightarrow> bool" where
  "textAndBoolean (Str s) (Boolean b) = True"
| "textAndBoolean (Boolean b) (Str s) = True"
| "textAndBoolean _ _ = False"

fun textKey :: "CellScalar \<Rightarrow> bool" where
  "textKey (Str s) = True"
| "textKey _ = False"

section \<open>The comparator against it\<close>

lemma keyOrder_before:
  assumes "weakOrder lc" "\<not> textAndBoolean a b"
  shows "keyOrder numStr lc ascending a b < 0 \<longleftrightarrow> keyBefore lc ascending a b"
  using assms(2) weakOrder_flip(1) [OF assms(1)]
  by (cases a; cases b) (auto simp: keyOrder_def compareScalars_def keyBefore_def of_bool_def)

lemma keyOrder_tie:
  assumes "weakOrder lc" "\<not> textAndBoolean a b" "keyOrder numStr lc ascending a b = 0"
  shows "\<not> keyBefore lc ascending b a"
proof -
  have "\<not> textAndBoolean b a" using assms(2) by (cases a; cases b) simp_all
  moreover have "keyOrder numStr lc ascending b a = 0"
    using weakOrder_flip(3) [OF keyOrder_weak [OF assms(1)], of numStr ascending a b] assms(3) by simp
  ultimately show ?thesis using keyOrder_before [OF assms(1), of b a numStr ascending] by simp
qed

lemma keyOrder_mixed:
  assumes "textAndBoolean a b"
  shows "keyOrder numStr lc ascending a b < 0 \<longleftrightarrow> (textKey a \<longleftrightarrow> ascending)" "keyOrder numStr lc ascending a b \<noteq> 0"
  using assms by (cases a; cases b; auto simp: keyOrder_def compareScalars_def)+

text \<open>Against the comment, a text comes before a boolean.\<close>

lemma text_before_boolean:
  "compareScalars numStr lc (Str s) (Boolean b) < 0" "keyBefore lc True (Boolean b) (Str s)"
  by (simp_all add: compareScalars_def keyBefore_def)

section \<open>The row order\<close>

text \<open>What holds of a row and one after it.\<close>

definition rowBefore :: "(string \<Rightarrow> string \<Rightarrow> real) \<Rightarrow> bool \<Rightarrow> (nat \<Rightarrow> CellScalar) \<Rightarrow> nat \<Rightarrow> nat \<Rightarrow> bool" where
  "rowBefore lc ascending key i j \<longleftrightarrow>
     (if textAndBoolean (key i) (key j) then textKey (key i) = ascending
      else keyBefore lc ascending (key i) (key j) \<or> \<not> keyBefore lc ascending (key j) (key i) \<and> i < j)"

lemma order_documented:
  assumes "weakOrder lc"
  shows "sorted_wrt (rowBefore lc ascending (sortKey rows keyOffset)) (computeSortedRowOrder numStr lc rows keyOffset ascending)"
  by (rule sorted_wrt_mono_rel [OF _ order_sorted [OF assms, of numStr ascending rows keyOffset]])
    (use keyOrder_before [OF assms] keyOrder_tie [OF assms] keyOrder_mixed in \<open>auto simp: rowBefore_def\<close>)

text \<open>So blanks are last in both directions.\<close>

lemma blanks_last:
  assumes "weakOrder lc"
  shows "sorted_wrt (\<lambda>i j. sortKey rows keyOffset i = Null \<longrightarrow> sortKey rows keyOffset j = Null)
    (computeSortedRowOrder numStr lc rows keyOffset ascending)"
  by (rule sorted_wrt_mono_rel [OF _ order_documented [OF assms]]) (auto simp: rowBefore_def keyBefore_def)

end
