(* ===== verification/SheetsProperties.thy ===== *)
theory SheetsProperties
  imports ExpandProps FormulaRef ChartRefs WorkbookLabels SortOrder
begin

text \<open>
  The properties of the workbook language: addresses, formula references, sorting, the expansion
  of a batch, charts and labels.
\<close>

section \<open>Addresses\<close>

lemma natStr_digitsVal:
  "list_all isDigit d \<Longrightarrow> d \<noteq> [] \<Longrightarrow> hd d \<noteq> CHR ''0'' \<Longrightarrow> natStr (digitsVal d) = d"
proof (induction d rule: rev_induct)
  case (snoc c d)
  obtain k where k: "code c = 48 + k" "k < 10"
    using snoc.prems(1) le_Suc_ex [of 48 "code c"] by (auto simp: isDigit_def)
  have c: "char_of (48 + k) = c" using arg_cong [OF k(1), of char_of] by simp
  show ?case
  proof (cases "d = []")
    case True
    with c k show ?thesis by (subst natStr.simps) (simp add: digitsVal_def)
  next
    case False
    with snoc have IH: "natStr (digitsVal d) = d" and pos: "1 \<le> digitsVal d"
      using digitsVal_pos [of d] by auto
    have "digitsVal (d @ [c]) = digitsVal d * 10 + k" using k by (simp add: digitsVal_def)
    with IH pos c k show ?thesis by (subst natStr.simps) simp
  qed
qed simp

lemma dropAnchor_absent: "CHR ''$'' \<notin> set s \<Longrightarrow> dropAnchor s = s"
  by (auto simp: dropAnchor_def split: list.split)

lemma formatAddress_parse:
  assumes "parseAddress a = Inr p" "CHR ''$'' \<notin> set a"
  shows "formatAddress (cellRow p) (cellColumn p) = a"
proof -
  from assms(1) obtain l d where m: "matchAddress a = Some (l, d)"
    and p: "p = \<lparr>cellRow = int (digitsVal d) - 1, cellColumn = columnValue l - 1\<rparr>"
    by (auto simp: parseAddress_def split: option.splits)
  note g = matchAddress_groups [OF m]
  have "CHR ''$'' \<notin> set (dropWhile isUpper a)" using assms(2) by (meson set_dropWhileD)
  with m assms(2) have "a = l @ d"
    by (auto simp: matchAddress_def Let_def dropAnchor_absent split: list.splits if_splits)
  moreover have "columnLabel (columnValue l - 1) = l" using columnLabel_columnValue g by blast
  moreover have "natStr (digitsVal d) = d" using natStr_digitsVal g by blast
  ultimately show ?thesis using digitsVal_pos [of d] g by (simp add: p formatAddress_def intStr_def)
qed

text \<open>Cell addresses and their coordinates correspond one to one: formatting then parsing
  returns the coordinates, parsing then formatting returns the address unless it was anchored with
  \<open>$\<close>, and the same holds of column labels.\<close>

theorem address_roundtrip:
  "(0 \<le> row \<and> 0 \<le> column \<longrightarrow> parseAddress (formatAddress row column) = Inr \<lparr>cellRow = row, cellColumn = column\<rparr>)
   \<and> (parseAddress a = Inr p \<and> CHR ''$'' \<notin> set a \<longrightarrow> formatAddress (cellRow p) (cellColumn p) = a)
   \<and> (0 \<le> column \<longrightarrow> columnIndex (columnLabel column) = Inr column)
   \<and> (columnIndex l = Inr k \<longrightarrow> columnLabel k = l)"
  using parseAddress_formatAddress formatAddress_parse columnIndex_columnLabel columnIndex_ok by blast

theorem address_roundtrip_witness:
  "parseAddress (formatAddress 41 27) = Inr \<lparr>cellRow = 41, cellColumn = 27\<rparr>
   \<and> formatAddress 9 28 = ''AC10'' \<and> columnIndex (columnLabel 700) = Inr 700 \<and> columnLabel 26 = ''AA''"
proof -
  have "parseAddress ''AC10'' = Inr \<lparr>cellRow = 9, cellColumn = 28\<rparr>" by code_simp
  moreover have "columnIndex ''AA'' = Inr 26" by code_simp
  ultimately show ?thesis
    using address_roundtrip [of 41 27 "''AC10''" "\<lparr>cellRow = 9, cellColumn = 28\<rparr>" "''AA''" 26]
      address_roundtrip [of 0 700] by simp
qed

text \<open>A parsed range is a proper box whatever the order of its corners; the addresses of a
  box are exactly its cells, each once, and as many as \<open>rangeCellCount\<close> says.\<close>

theorem range_addresses_exact:
  assumes "parseRange rng = Inr b"
  shows "boundsOk b \<and> distinct (rangeAddresses b) \<and> int (length (rangeAddresses b)) = rangeCellCount b
    \<and> (\<forall>a. a \<in> set (rangeAddresses b) \<longleftrightarrow> (\<exists>row column. a = formatAddress row column \<and> inBounds b row column))"
  using parseRange_ok [OF assms] rangeAddresses_distinct rangeAddresses_length rangeAddresses_set by blast

theorem range_addresses_exact_witness:
  "boundsOk \<lparr>startRow = 1, startColumn = 0, endRow = 4, endColumn = 2\<rparr>"
proof -
  have "parseRange ''C5:A2'' = Inr \<lparr>startRow = 1, startColumn = 0, endRow = 4, endColumn = 2\<rparr>" by code_simp
  from range_addresses_exact [OF this] show ?thesis by simp
qed

section \<open>Formula references\<close>

text \<open>C16: Rewriting the references of a formula: when nothing changed the text is the same, a
  \<open>#REF!\<close> is always reported as a change, text inside string literals is kept, and inserting
  rows or columns never makes a \<open>#REF!\<close>.\<close>

theorem formula_shift_safe:
  assumes "shiftFormulaRefs f op' here name = Inr r"
  shows "(changed r \<or> shiftedFormula r = f) \<and> (hasRefError r \<longrightarrow> changed r)
    \<and> (\<exists>us. shiftedFormula r = concat us \<and> length us = length (splitLiterals [] f)
         \<and> literals us = literals (splitLiterals [] f))
    \<and> (\<forall>spec. shiftSpecForOp op' = Inr (Some spec) \<and> 0 < shiftDelta spec \<longrightarrow> \<not> hasRefError r)"
  using shiftFormulaRefs_unchanged [OF assms] shiftFormulaRefs_refError [OF assms]
    shiftFormulaRefs_literals [OF assms] shiftFormulaRefs_insert [OF assms] by blast

theorem formula_shift_safe_witness:
  "\<not> hasRefError \<lparr>changed = True, hasRefError = False, shiftedFormula = ''=A3+1''\<rparr>"
proof -
  have run: "shiftFormulaRefs ''=A2+1'' (InsertRows ''s'' 1 1) True ''S'' =
      Inr \<lparr>changed = True, hasRefError = False, shiftedFormula = ''=A3+1''\<rparr>" by code_simp
  have "shiftSpecForOp (InsertRows ''s'' 1 1) = Inr (Some \<lparr>axis = RowAxis, shiftStart = 0, shiftDelta = 1\<rparr>)" by code_simp
  with formula_shift_safe [OF run] show ?thesis by simp
qed

text \<open>A reference to one cell moves exactly as its row and column do: to the shifted cell,
  reported as changed when that is another one, or to \<open>#REF!\<close> when the cell was deleted.\<close>

theorem formula_ref_moves:
  assumes "refOk p" "structuralOk op'" "shiftSpecForOp op' = Inr (Some spec)"
  shows "shiftFormulaRefs (''='' @ formatRef p) op' True name = Inr (case shiftRefPart p spec of
      Some q \<Rightarrow> \<lparr>changed = (q \<noteq> p), hasRefError = False, shiftedFormula = ''='' @ formatRef q\<rparr>
    | None \<Rightarrow> \<lparr>changed = True, hasRefError = True, shiftedFormula = ''=#REF!''\<rparr>)"
  by (rule shiftFormulaRefs_ref [OF assms])

theorem formula_ref_moves_witness:
  "shiftFormulaRefs (''='' @ formatRef \<lparr>colAbs = ''$'', refCol = 1, rowAbs = [], refRow = 7\<rparr>)
      (DeleteRows ''s'' 3 2) True ''S''
    = Inr \<lparr>changed = True, hasRefError = False,
        shiftedFormula = ''='' @ formatRef \<lparr>colAbs = ''$'', refCol = 1, rowAbs = [], refRow = 5\<rparr>\<rparr>"
  using formula_ref_moves [of "\<lparr>colAbs = ''$'', refCol = 1, rowAbs = [], refRow = 7\<rparr>" "DeleteRows ''s'' 3 2"
      "\<lparr>axis = RowAxis, shiftStart = 2, shiftDelta = - 2\<rparr>" "''S''"]
  by (simp add: refOk_def deleteRowsOk_def idOk_def lengthIn_def intIn_def shiftRefPart_def shiftIndex_def Let_def
      del: append.simps)

text \<open>Deleting the rows just inserted gives a reference back.\<close>

theorem formula_insert_delete:
  assumes "refOk p" "1 \<le> row" "0 < n" "refRow p + n < 9999999" "structuralOk (InsertRows sheet row n)"
  shows "bindE (shiftFormulaRefs (''='' @ formatRef p) (InsertRows sheet row n) True name)
    (\<lambda>r. shiftFormulaRefs (shiftedFormula r) (DeleteRows sheet row n) True name)
    = Inr \<lparr>changed = (row \<le> refRow p + 1), hasRefError = False, shiftedFormula = ''='' @ formatRef p\<rparr>"
  by (rule insert_delete_ref [OF assms])

theorem formula_insert_delete_witness:
  "bindE (shiftFormulaRefs (''='' @ formatRef \<lparr>colAbs = [], refCol = 1, rowAbs = [], refRow = 7\<rparr>)
      (InsertRows ''s'' 4 2) True ''S'') (\<lambda>r. shiftFormulaRefs (shiftedFormula r) (DeleteRows ''s'' 4 2) True ''S'')
    = Inr \<lparr>changed = True, hasRefError = False, shiftedFormula = ''='' @ formatRef \<lparr>colAbs = [], refCol = 1, rowAbs = [], refRow = 7\<rparr>\<rparr>"
  using formula_insert_delete [of "\<lparr>colAbs = [], refCol = 1, rowAbs = [], refRow = 7\<rparr>" 4 2 "''s''" "''S''"]
  by (simp add: refOk_def insertRowsOk_def idOk_def lengthIn_def intIn_def del: append.simps)

section \<open>Sorting\<close>

text \<open>C15: The row order of a sort is a permutation of the rows in which the key of a row comes before the key
  of each later row in the documented order (numbers by value, then booleans, then texts by the collation,
  turned around when descending), or ties with it and the rows keep their order; rows with a blank key come last
  in both directions. Only of a text and a boolean the code puts the text first, against its comment. The
  collation is any total preorder.\<close>

theorem sort_order_correct:
  assumes "weakOrder lc"
  shows "mset (computeSortedRowOrder numStr lc rows keyOffset ascending) = mset [0..<length rows]
    \<and> sorted_wrt (rowBefore lc ascending (sortKey rows keyOffset)) (computeSortedRowOrder numStr lc rows keyOffset ascending)
    \<and> sorted_wrt (\<lambda>i j. sortKey rows keyOffset i = Null \<longrightarrow> sortKey rows keyOffset j = Null)
        (computeSortedRowOrder numStr lc rows keyOffset ascending)"
  using order_perm order_documented [OF assms] blanks_last [OF assms] by blast

theorem sort_order_correct_witness:
  "sorted_wrt (rowBefore (\<lambda>s t. real (length s) - real (length t)) False
       (sortKey [[Num 3], [Null], [Num 1], [Str ''x''], [Boolean True], [Num 3], [Str ''yz'']] 0)) [4, 6, 3, 0, 5, 2, 1]"
proof -
  let ?lc = "\<lambda>s t :: string. real (length s) - real (length t)"
  let ?rows = "[[Num 3], [Null], [Num 1], [Str ''x''], [Boolean True], [Num 3], [Str ''yz'']]"
  have "weakOrder ?lc" by (simp add: weakOrder_def)
  from sort_order_correct [OF this, of "\<lambda>_. []" ?rows 0 False]
  have "sorted_wrt (rowBefore ?lc False (sortKey ?rows 0)) (computeSortedRowOrder (\<lambda>_. []) ?lc ?rows 0 False)" by blast
  moreover have "computeSortedRowOrder (\<lambda>_. []) ?lc ?rows 0 False = [4, 6, 3, 0, 5, 2, 1]" by code_simp
  ultimately show ?thesis by simp
qed

text \<open>A sort rewrites exactly the cells whose value changes: the cell at a row and column of
  the data rows gets the value of the row that the order puts there, and carries the value it had
  as the expected one.\<close>

theorem sort_changes_exact:
  assumes run: "computeSortChanges numStr lc spec readCell = Inr cs" and b: "parseRange (specRange spec) = Inr b"
    and first: "first = startRow b + (if specHasHeader spec then 1 else 0)"
  shows "\<exists>rows order. readSortRows readCell b first = Inr rows \<and> int (length rows) = endRow b - first + 1
    \<and> (\<exists>keyOffset. order = computeSortedRowOrder numStr lc rows keyOffset (specAscending spec))
    \<and> set cs = {\<lparr>changeAddress = formatAddress (first + int i) (startColumn b + int j),
        changeBefore = rows ! i ! j, changeAfter = rows ! (order ! i) ! j\<rparr> |i j.
        i < length rows \<and> int j < endColumn b - startColumn b + 1 \<and> rows ! i ! j \<noteq> rows ! (order ! i) ! j}"
proof -
  from run b obtain key rows where
    key: "columnIndex (specByColumn spec) = Inr key" and
    inside: "\<not> endRow b \<le> first" "startColumn b \<le> key" "key \<le> endColumn b" and
    rows: "readSortRows readCell b first = Inr rows" and
    cs: "cs = concat (map (\<lambda>(offset, sourceIndex). sortRowChanges b first rows offset sourceIndex) (enumerate 0
        (computeSortedRowOrder numStr lc rows (nat (key - startColumn b)) (specAscending spec))))"
    by (auto simp: computeSortChanges_def Let_def first res_simps not_less)
  note shape = readSortRows_shape [OF rows]
  let ?order = "computeSortedRowOrder numStr lc rows (nat (key - startColumn b)) (specAscending spec)"
  have w: "\<forall>r\<in>set rows. length r = nat (endColumn b - startColumn b + 1)"
    using shape(2) inside by (force simp: in_set_conv_nth nat_eq_iff)
  have "set cs = {\<lparr>changeAddress = formatAddress (first + int i) (startColumn b + int j),
        changeBefore = rows ! i ! j, changeAfter = rows ! (?order ! i) ! j\<rparr> |i j.
        i < length rows \<and> j < nat (endColumn b - startColumn b + 1) \<and> rows ! i ! j \<noteq> rows ! (?order ! i) ! j}"
    unfolding cs by (rule sort_changes_set) (use w order_set order_length in auto)
  moreover have "j < nat (endColumn b - startColumn b + 1) \<longleftrightarrow> int j < endColumn b - startColumn b + 1" for j
    by linarith
  ultimately show ?thesis using rows shape(1) inside by auto
qed

theorem sort_changes_exact_witness:
  "\<exists>rows. readSortRows (\<lambda>a. Inr (if a = ''B2'' then plainCell (Num 7) else plainCell Null))
     \<lparr>startRow = 0, startColumn = 1, endRow = 1, endColumn = 1\<rparr> 0 = Inr rows \<and> int (length rows) = 2"
proof -
  let ?read = "\<lambda>a. Inr (if a = ''B2'' then plainCell (Num 7) else plainCell Null) :: js_error + CellState"
  let ?spec = "\<lparr>specRange = ''B1:B2'', specByColumn = ''B'', specAscending = True, specHasHeader = False\<rparr>"
  have b: "parseRange ''B1:B2'' = Inr \<lparr>startRow = 0, startColumn = 1, endRow = 1, endColumn = 1\<rparr>" by code_simp
  have c: "columnIndex ''B'' = Inr 1" by code_simp
  have "isOk (computeSortChanges (\<lambda>_. []) (\<lambda>_ _. 0) ?spec ?read)"
    by (simp add: computeSortChanges_def b c readSortRows_def readSortCell_def Let_def upto.simps)
  then obtain cs where "computeSortChanges (\<lambda>_. []) (\<lambda>_ _. 0) ?spec ?read = Inr cs" by (auto simp: isOk_iff)
  from sort_changes_exact [OF this, of "\<lparr>startRow = 0, startColumn = 1, endRow = 1, endColumn = 1\<rparr>" 0] b
  show ?thesis by auto
qed

section \<open>Expanding a batch\<close>

text \<open>C13: The expansion of a batch of well-formed operations never exceeds its caps: at most
  2000 cell edits in all, and what stays a range operation covers at most 200,000 cells (large
  clears, replaces and sorts more than 2000); every emitted cell edit has a valid address and every
  fill and copy passed its checks.\<close>

theorem expansion_within_caps:
  assumes "expandToPrimitiveOps numStr lc ops reader = Inr ps" "list_all operationOk ops"
  shows "list_all emittedOk ps \<and> int (length (filter isContent ps)) \<le> MAX_EXPANDED_CELL_OPS"
  by (rule expandToPrimitiveOps_ok [OF assms])

theorem expansion_within_caps_witness:
  "list_all emittedOk [Content (ClearCell ''s'' ''A1''), Content (ClearCell ''s'' ''A2'')]"
proof -
  have run: "expandToPrimitiveOps (\<lambda>_. []) (\<lambda>_ _. 0) [Primitive (ClearRange ''s'' ''A1:A2'')] None
      = Inr [Content (ClearCell ''s'' ''A1''), Content (ClearCell ''s'' ''A2'')]"
    by code_simp
  have "operationOk (Primitive (ClearRange ''s'' ''A1:A2''))" by code_simp
  with expansion_within_caps [OF run] show ?thesis by simp
qed

text \<open>C14: The name sets of the language are the variants of its types: an operation is
  structural, or a layout operation, by name exactly when it is by type; so a batch that passes
  the schema and has a structural operation holds nothing but structural operations and renames.\<close>

theorem schema_separates_structure:
  "(isStructuralOp q \<longleftrightarrow> (\<exists>s. q = Structural s)) \<and> (isLayoutOp q \<longleftrightarrow> (\<exists>l. q = Layout l))
   \<and> (batchOk b \<and> Primitive (Structural s) \<in> set (operations b) \<longrightarrow>
      (\<forall>x\<in>set (operations b). (\<exists>s'. x = Primitive (Structural s')) \<or> (\<exists>i n. x = Primitive (RenameSheet i n))))"
proof -
  have "opName (Primitive (Structural s)) \<in> set STRUCTURAL_OPS" using structuralName_in by simp
  then have "(\<exists>s'. x = Primitive (Structural s')) \<or> (\<exists>i n. x = Primitive (RenameSheet i n))"
    if "batchOk b" "Primitive (Structural s) \<in> set (operations b)" "x \<in> set (operations b)" for x
    using that content_op_iff [of x] unfolding batchOk_def list_ex_iff Let_def by blast
  then show ?thesis using isStructuralOp_iff isLayoutOp_iff by blast
qed

theorem schema_separates_structure_witness:
  "\<not> batchOk \<lparr>dslVersion = 1, transactionId = ''t'', baseRevision = 0, summary = ''x'',
      operations = [Primitive (Structural (DeleteSheet ''s'')), Primitive (Content (ClearCell ''s'' ''A1''))]\<rparr>"
  using schema_separates_structure [of "Structural (DeleteSheet ''s'')" "\<lparr>dslVersion = 1, transactionId = ''t'', baseRevision = 0,
      summary = ''x'', operations = [Primitive (Structural (DeleteSheet ''s'')), Primitive (Content (ClearCell ''s'' ''A1''))]\<rparr>"
      "DeleteSheet ''s''"] by auto

text \<open>Every operation that passed its schema has a preview label: the label functions always
  return.\<close>

theorem labels_total:
  "(layoutOk l \<longrightarrow> isOk (layoutOpLabel numStr l)) \<and> (structuralOk s \<longrightarrow> isOk (structuralOpLabel s))"
  using layoutOpLabel_total structuralOpLabel_total by (fastforce simp: isOk_iff)

theorem labels_total_witness:
  "isOk (layoutOpLabel (\<lambda>_. []) (UnmergeCells ''s'' ''B2:C3'')) \<and> isOk (structuralOpLabel (DeleteCols ''s'' ''C'' 2))"
proof -
  have "layoutOk (UnmergeCells ''s'' ''B2:C3'')" "structuralOk (DeleteCols ''s'' ''C'' 2)" by code_simp+
  with labels_total [of "UnmergeCells ''s'' ''B2:C3''" "\<lambda>_. []" "DeleteCols ''s'' ''C'' 2"] show ?thesis by blast
qed

section \<open>Charts\<close>

text \<open>Parsed chart data always has a series, at most 12 of them and 500 points, and every
  series has as many values as there are categories.\<close>

theorem chart_data_shape:
  assumes "chartDataFromValues numStr toNum source ncc = Some d"
  shows "pcSeries d \<noteq> [] \<and> length (pcSeries d) \<le> MAX_CHART_SERIES \<and> length (pcCategories d) \<le> MAX_CHART_ROWS
    \<and> (\<forall>s\<in>set (pcSeries d). length (psValues s) = length (pcCategories d))"
  by (rule chartDataFromValues_shape [OF assms])

theorem chart_data_shape_witness:
  "\<exists>d. chartDataFromValues (\<lambda>_. []) (\<lambda>_. NaN) [[Str ''a'', Num 1], [Str ''b'', Num 2], [Str ''c'', Num 3]] False = Some d
     \<and> pcSeries d \<noteq> []"
proof -
  have "chartDataFromValues (\<lambda>_. []) (\<lambda>_. NaN) [[Str ''a'', Num 1], [Str ''b'', Num 2], [Str ''c'', Num 3]] False \<noteq> None"
    by code_simp
  then show ?thesis using chart_data_shape [of "\<lambda>_. []" "\<lambda>_. NaN"] by blast
qed

text \<open>The reference a new chart stores for a series denotes the cells its cached values came
  from: it names the chart's sheet, lies inside the data range, and reading those cells gives the
  values (ranges of at most 500 rows and columns, sheet names without an exclamation mark).\<close>

theorem chart_refs_denote:
  assumes run: "buildChartVisual numStr toNum input = Inr v"
    and b: "parseRange (inDataRange input) = Inr b"
    and grid: "inValues input = gridOf cellAt (areaRows b) (areaColumns b)"
    and name: "inSheetName input \<noteq> []" "CHR ''!'' \<notin> set (inSheetName input)" "endColumn b < 18278"
    and short: "endRow b - startRow b < 500" "endColumn b - startColumn b < 500"
    and s: "s \<in> set (cvSeries (chart v))"
  shows "\<exists>ref. serValuesRef s = Some ref \<and> denotes toNum cellAt (inSheetName input) b ref (serValues s)"
  by (rule buildChartVisual_denotes [OF run b grid name short s])

definition sampleGrid :: "int \<Rightarrow> int \<Rightarrow> CellScalar" where
  "sampleGrid row column = (if column = 0 then Str ''label'' else Num (of_int row))"

definition sampleInput :: BuildChartVisualInput where
  "sampleInput = \<lparr>inId = ''c'', inSheetId = ''s'', inSheetName = ''Data'', inChartType = ''line'', inDataRange = ''A1:B3'',
     inTitle = None, inAnchorCell = None, inValues = gridOf sampleGrid [0..2] [0..1]\<rparr>"

theorem chart_refs_denote_witness:
  "\<exists>v s ref. buildChartVisual (\<lambda>_. []) (\<lambda>_. NaN) sampleInput = Inr v \<and> s \<in> set (cvSeries (chart v))
     \<and> denotes (\<lambda>_. NaN) sampleGrid ''Data'' \<lparr>startRow = 0, startColumn = 0, endRow = 2, endColumn = 1\<rparr> ref (serValues s)"
proof -
  have "case buildChartVisual (\<lambda>_. []) (\<lambda>_. NaN) sampleInput of Inr v \<Rightarrow> cvSeries (chart v) \<noteq> [] | Inl _ \<Rightarrow> False"
    by code_simp
  then obtain v where v: "buildChartVisual (\<lambda>_. []) (\<lambda>_. NaN) sampleInput = Inr v" "cvSeries (chart v) \<noteq> []"
    by (auto split: sum.splits)
  then have s: "hd (cvSeries (chart v)) \<in> set (cvSeries (chart v))" by simp
  have "parseRange ''A1:B3'' = Inr \<lparr>startRow = 0, startColumn = 0, endRow = 2, endColumn = 1\<rparr>" by code_simp
  then have "\<exists>ref. serValuesRef (hd (cvSeries (chart v))) = Some ref
      \<and> denotes (\<lambda>_. NaN) sampleGrid (inSheetName sampleInput) \<lparr>startRow = 0, startColumn = 0, endRow = 2, endColumn = 1\<rparr>
          ref (serValues (hd (cvSeries (chart v))))"
    by (intro chart_refs_denote [OF v(1) _ _ _ _ _ _ _ s]) (simp_all add: sampleInput_def)
  with v(1) s show ?thesis by (auto simp: sampleInput_def)
qed

text \<open>Renaming a sheet in a chart reference changes the sheet it names and nothing else; a
  reference to another sheet, or one that does not parse, is left as it was.\<close>

theorem chart_ref_rename:
  "(splitSheetRef ref = Some r \<and> refSheetName r = oldName \<and> newName \<noteq> [] \<and> CHR ''!'' \<notin> set newName \<longrightarrow>
      splitSheetRef (renameRefSheet ref oldName newName) = Some (r\<lparr>refSheetName := newName\<rparr>))
   \<and> ((\<forall>r. splitSheetRef ref = Some r \<longrightarrow> refSheetName r \<noteq> oldName) \<longrightarrow> renameRefSheet ref oldName newName = ref)"
  using renameRefSheet_split by (auto simp: renameRefSheet_def split: option.split)

theorem chart_ref_rename_witness:
  "splitSheetRef (renameRefSheet (a1RangeRef ''Data'' 1 1 9) ''Data'' ''Q1 data'')
     = Some \<lparr>refSheetName = ''Q1 data'', refRange = formatAddress 1 1 @ '':'' @ formatAddress 9 1\<rparr>"
  using chart_ref_rename [of "a1RangeRef ''Data'' 1 1 9" "\<lparr>refSheetName = ''Data'', refRange = formatAddress 1 1 @ '':'' @ formatAddress 9 1\<rparr>"
      "''Data''" "''Q1 data''"] splitSheetRef_a1RangeRef [of "''Data''" 1 1 9]
  by simp

end
