(* ===== verification/WorkbookState.thy ===== *)
theory WorkbookState
  imports WorkbookExpand WorkbookLabels ChartBuild FormulaShift
begin

text \<open>
  The state of the in-memory workbook (\<open>workbook.types.ts\<close>) and the operations on a snapshot
  (\<open>in-memory-workbook.ts\<close>): finding and replacing sheets and cells, formats, the shifts of
  structural operations, and layout operations. The source mutates a deep copy of the snapshot;
  here each operation returns the new snapshot, or the error it throws.

  A \<open>Record<string, T>\<close> is an association list. JavaScript keeps integer-like keys in ascending
  order before the others, so for row heights only the map it represents is meant, not its order.
\<close>

section \<open>Snapshots\<close>

record WorksheetState =
  wsId :: string
  wsName :: string
  wsCells :: "CellState obj"
  gridRows :: "int option"
  gridColumns :: "int option"
  wsStyles :: "CellFormatState obj option"
  wsMerges :: "string list option"
  rowHeights :: "real obj option"
  colWidths :: "real obj option"
  wsVisuals :: "SheetVisual list option"

record WorkbookSnapshot =
  revision :: int
  sheets :: "WorksheetState list"

definition conflict :: "string \<Rightarrow> js_error + 'a" where
  "conflict message = Inl (WorkbookConflictError message)"

definition findSheet :: "WorkbookSnapshot \<Rightarrow> string \<Rightarrow> js_error + WorksheetState" where
  "findSheet snapshot sheetId =
     (case find (\<lambda>s. wsId s = sheetId) (sheets snapshot) of
        None \<Rightarrow> conflict (''Unknown sheet: '' @ sheetId)
      | Some s \<Rightarrow> Inr s)"

text \<open>An index of \<open>-1\<close> only adds a property to the array, which no code reads.\<close>

definition replaceSheet :: "WorkbookSnapshot \<Rightarrow> WorksheetState \<Rightarrow> WorkbookSnapshot" where
  "replaceSheet snapshot replacement =
     (case findIndex (\<lambda>s. wsId s = wsId replacement) (sheets snapshot) of
        None \<Rightarrow> snapshot
      | Some i \<Rightarrow> snapshot\<lparr>sheets := (sheets snapshot)[i := replacement]\<rparr>)"

definition replaceCell :: "WorkbookSnapshot \<Rightarrow> string \<Rightarrow> string \<Rightarrow> CellState \<Rightarrow> js_error + WorkbookSnapshot" where
  "replaceCell snapshot sheetId address cell =
     bindE (findSheet snapshot sheetId) (\<lambda>sheet.
       Inr (replaceSheet snapshot (sheet\<lparr>wsCells := AList.update address cell (wsCells sheet)\<rparr>)))"

text \<open>\<open>sheet.cells[address] ?? { value: null }\<close>\<close>

definition cellOr :: "WorksheetState \<Rightarrow> string \<Rightarrow> CellState" where
  "cellOr sheet address = (case map_of (wsCells sheet) address of Some c \<Rightarrow> c | None \<Rightarrow> plainCell Null)"

text \<open>\<open>gridFromRange\<close>\<close>

definition gridFromRange :: "WorksheetState \<Rightarrow> string \<Rightarrow> js_error + CellScalar list list" where
  "gridFromRange sheet rng =
     bindE (parseRange rng) (\<lambda>b.
       Inr (map (\<lambda>row. map (\<lambda>column. cellValue (cellOr sheet (formatAddress row column)))
         [startColumn b..endColumn b]) [startRow b..endRow b]))"

section \<open>Formats\<close>

definition mergeFormat :: "CellFormatState option \<Rightarrow> CellFormatPatch \<Rightarrow> CellFormatState option" where
  "mergeFormat existing patch =
     (let merged = foldl (\<lambda>m (key, v). case v of None \<Rightarrow> AList.delete key m | Some x \<Rightarrow> AList.update key x m)
        (case existing of Some e \<Rightarrow> e | None \<Rightarrow> []) patch
      in if merged = [] then None else Some merged)"

definition applyFormatRange :: "WorkbookSnapshot \<Rightarrow> string \<Rightarrow> string \<Rightarrow> CellFormatPatch \<Rightarrow> js_error + WorkbookSnapshot" where
  "applyFormatRange snapshot sheetId rng format =
     bindE (findSheet snapshot sheetId) (\<lambda>sheet.
     bindE (parseRange rng) (\<lambda>bounds.
       let styles = foldl (\<lambda>st address.
             case mergeFormat (map_of st address) format of
               Some merged \<Rightarrow> AList.update address merged st
             | None \<Rightarrow> AList.delete address st)
           (optList (wsStyles sheet)) (rangeAddresses bounds)
       in Inr (replaceSheet snapshot (sheet\<lparr>wsStyles := if styles = [] then None else Some styles\<rparr>))))"

section \<open>Shifts of structural operations\<close>

text \<open>Where the cell at a row and column goes; \<open>None\<close> where the loop continues.\<close>

fun shiftPosition :: "StructuralOperation \<Rightarrow> int \<Rightarrow> int \<Rightarrow> js_error + (int \<times> int) option" where
  "shiftPosition (InsertRows _ r n) row column =
     Inr (Some (if row \<ge> r - 1 then row + n else row, column))"
| "shiftPosition (DeleteRows _ r n) row column =
     Inr (if row \<ge> r - 1 \<and> row < r - 1 + n then None
          else Some (if row \<ge> r - 1 + n then row - n else row, column))"
| "shiftPosition (InsertCols _ c n) row column =
     bindE (columnIndex c) (\<lambda>pivot. Inr (Some (row, if column \<ge> pivot then column + n else column)))"
| "shiftPosition (DeleteCols _ c n) row column =
     bindE (columnIndex c) (\<lambda>pivot.
       Inr (if column \<ge> pivot \<and> column < pivot + n then None
            else Some (row, if column \<ge> pivot + n then column - n else column)))"
| "shiftPosition _ row column = Inr (Some (row, column))"

definition shiftAddressedRecord :: "'v obj \<Rightarrow> StructuralOperation \<Rightarrow> js_error + 'v obj" where
  "shiftAddressedRecord record op' =
     foldE (\<lambda>next (address, value).
       bindE (parseAddress address) (\<lambda>p.
       bindE (shiftPosition op' (cellRow p) (cellColumn p)) (\<lambda>moved.
         case moved of
           None \<Rightarrow> Inr next
         | Some (row, column) \<Rightarrow> Inr (AList.update (formatAddress row column) value next))))
       [] record"

definition shiftRangeString :: "string \<Rightarrow> ShiftSpec \<Rightarrow> js_error + string option" where
  "shiftRangeString rng spec =
     bindE (parseRange rng) (\<lambda>bounds.
       let rows = (axis spec = RowAxis);
           startShift = shiftIndex (if rows then startRow bounds else startColumn bounds) spec;
           endShift = shiftIndex (if rows then endRow bounds else endColumn bounds) spec;
           first = (case startShift of Some k \<Rightarrow> k | None \<Rightarrow> shiftStart spec);
           last = (case endShift of Some k \<Rightarrow> k | None \<Rightarrow> shiftStart spec - 1);
           p = (if rows then (first, startColumn bounds) else (startRow bounds, first));
           q = (if rows then (last, endColumn bounds) else (endRow bounds, last))
       in Inr (if startShift = None \<and> endShift = None then None
               else if last < first then None
               else if p = q then None
               else Some (formatAddress (fst p) (snd p) @ '':'' @ formatAddress (fst q) (snd q))))"

definition shiftNumericKeyRecord ::
  "real obj \<Rightarrow> ShiftSpec \<Rightarrow> (string \<Rightarrow> js_error + int) \<Rightarrow> (int \<Rightarrow> string) \<Rightarrow> js_error + real obj" where
  "shiftNumericKeyRecord record spec toIndex toKey =
     foldE (\<lambda>next (key, value).
       bindE (toIndex key) (\<lambda>index.
         case shiftIndex index spec of
           None \<Rightarrow> Inr next
         | Some shifted \<Rightarrow> Inr (AList.update (toKey shifted) value next)))
       [] record"

text \<open>\<open>Number(key) - 1\<close> of a row number key.\<close>

definition rowKeyIndex :: "string \<Rightarrow> js_error + int" where
  "rowKeyIndex key = Inr (int (digitsVal key) - 1)"

section \<open>Structural operations\<close>

text \<open>\<open>cell.formula\<close> as a condition: an empty formula is false.\<close>

definition formulaOf :: "CellState \<Rightarrow> string option" where
  "formulaOf cell = (case formula cell of Some (c # f) \<Rightarrow> Some (c # f) | _ \<Rightarrow> None)"

text \<open>
  The pattern of \<open>delete_sheet\<close>: \<open>(?:'NAME'|\bNAME)!\<close> somewhere in the formula. \<open>\b\<close> holds
  where a word character meets another character.
\<close>

definition regexWord :: "char option \<Rightarrow> bool" where
  "regexWord c = (case c of None \<Rightarrow> False | Some x \<Rightarrow> isAlnum x \<or> x = CHR ''_'')"

fun mentionsSheetFrom :: "string \<Rightarrow> char option \<Rightarrow> string \<Rightarrow> bool" where
  "mentionsSheetFrom name pv s =
     (startsWith s (apos @ name @ apos @ ''!'')
      \<or> startsWith s (name @ ''!'') \<and> regexWord pv \<noteq> regexWord (case s of c # _ \<Rightarrow> Some c | [] \<Rightarrow> None)
      \<or> (case s of [] \<Rightarrow> False | c # t \<Rightarrow> mentionsSheetFrom name (Some c) t))"

declare mentionsSheetFrom.simps [simp del]

definition mentionsSheet :: "string \<Rightarrow> string \<Rightarrow> bool" where
  "mentionsSheet name formula' = mentionsSheetFrom name None formula'"

definition danglingRefs :: "string \<Rightarrow> WorksheetState list \<Rightarrow> string list" where
  "danglingRefs name remaining =
     concat (map (\<lambda>s. concat (map (\<lambda>(address, cell).
        case formulaOf cell of
          Some f \<Rightarrow> if mentionsSheet name f then [wsName s @ ''!'' @ address] else []
        | None \<Rightarrow> []) (wsCells s))) remaining)"

text \<open>\<open>sheet-n\<close> for the first \<open>n\<close> from \<open>sheets.length + 1\<close> on that is free (\<open>freshSerial_free\<close>:
  among one more than there are sheets one is).\<close>

definition freshSerial :: "string list \<Rightarrow> nat \<Rightarrow> nat" where
  "freshSerial used from =
     (case find (\<lambda>n. ''sheet-'' @ natStr n \<notin> set used) [from..<Suc (from + length used)] of
        Some n \<Rightarrow> n | None \<Rightarrow> from)"

definition addSheet :: "WorkbookSnapshot \<Rightarrow> string \<Rightarrow> int option \<Rightarrow> int option \<Rightarrow> js_error + WorkbookSnapshot" where
  "addSheet snapshot name rows columns =
     throwIf (list_ex (\<lambda>s. wsName s = name) (sheets snapshot))
       (WorkbookConflictError (''A sheet named '' @ quoted name @ '' already exists.''))
       (Inr (snapshot\<lparr>sheets := sheets snapshot @
          [\<lparr>wsId = ''sheet-'' @ natStr (freshSerial (map wsId (sheets snapshot)) (Suc (length (sheets snapshot)))),
            wsName = name, wsCells = [], gridRows = rows, gridColumns = columns, wsStyles = None,
            wsMerges = None, rowHeights = None, colWidths = None, wsVisuals = None\<rparr>]\<rparr>))"

definition deleteSheet :: "WorkbookSnapshot \<Rightarrow> string \<Rightarrow> js_error + WorkbookSnapshot \<times> string list" where
  "deleteSheet snapshot sheetId =
     bindE (findSheet snapshot sheetId) (\<lambda>sheet.
     throwIf (length (sheets snapshot) = 1) (WorkbookConflictError ''The workbook needs at least one sheet.'')
     (case findIndex (\<lambda>s. wsId s = sheetId) (sheets snapshot) of
        None \<Rightarrow> Inr (snapshot, [])
      | Some i \<Rightarrow>
          let remaining = splice i 1 [] (sheets snapshot)
          in Inr (snapshot\<lparr>sheets := remaining\<rparr>, danglingRefs (wsName sheet) remaining)))"

text \<open>
  The references of one sheet's formulas: the cells rewritten (\<open>nextCells\<close>, unset while nothing
  changed), and the addresses whose formula now holds \<open>#REF!\<close>.
\<close>

definition shiftCellFormula ::
  "StructuralOperation \<Rightarrow> string \<Rightarrow> string \<Rightarrow> WorksheetState \<Rightarrow> CellState obj option \<times> string list \<Rightarrow>
   string \<times> CellState \<Rightarrow> js_error + CellState obj option \<times> string list" where
  "shiftCellFormula op' opSheetId opSheetName s st entry = (case (st, entry) of
     ((nextCells, refErrors), (address, cell)) \<Rightarrow>
       (case formulaOf cell of
          None \<Rightarrow> Inr (nextCells, refErrors)
        | Some f \<Rightarrow>
            bindE (shiftFormulaRefs f op' (wsId s = opSheetId) opSheetName) (\<lambda>result.
              if \<not> changed result then Inr (nextCells, refErrors)
              else Inr (Some (AList.update address (cell\<lparr>formula := Some (shiftedFormula result)\<rparr>)
                                (case nextCells of Some c \<Rightarrow> c | None \<Rightarrow> wsCells s)),
                        if hasRefError result then refErrors @ [wsName s @ ''!'' @ address] else refErrors))))"

definition shiftSheetFormulas ::
  "StructuralOperation \<Rightarrow> string \<Rightarrow> string \<Rightarrow> WorksheetState \<Rightarrow> js_error + CellState obj option \<times> string list" where
  "shiftSheetFormulas op' opSheetId opSheetName s =
     foldE (shiftCellFormula op' opSheetId opSheetName s) (None, []) (wsCells s)"

text \<open>\<open>for (const candidate of snapshot.sheets)\<close>, with the sheets replaced while it runs.\<close>

definition shiftAllFormulas ::
  "WorkbookSnapshot \<Rightarrow> StructuralOperation \<Rightarrow> string \<Rightarrow> string \<Rightarrow> js_error + WorkbookSnapshot \<times> string list" where
  "shiftAllFormulas snapshot op' opSheetId opSheetName =
     foldE (\<lambda>(snap, refErrors) i.
       let candidate = sheets snap ! i in
       bindE (shiftSheetFormulas op' opSheetId opSheetName candidate) (\<lambda>(nextCells, errs).
         Inr (case nextCells of None \<Rightarrow> snap | Some c \<Rightarrow> replaceSheet snap (candidate\<lparr>wsCells := c\<rparr>),
              refErrors @ errs)))
       (snapshot, []) [0..<length (sheets snapshot)]"

definition mapOptE :: "('a \<Rightarrow> js_error + 'b) \<Rightarrow> 'a option \<Rightarrow> js_error + 'b option" where
  "mapOptE f x = (case x of None \<Rightarrow> Inr None | Some a \<Rightarrow> bindE (f a) (\<lambda>b. Inr (Some b)))"

definition shiftGrid :: "WorkbookSnapshot \<Rightarrow> StructuralOperation \<Rightarrow> string \<Rightarrow> js_error + WorkbookSnapshot \<times> string list" where
  "shiftGrid snapshot op' sheetId =
     bindE (findSheet snapshot sheetId) (\<lambda>sheet.
     bindE (shiftSpecForOp op') (\<lambda>s. case s of
       None \<Rightarrow> Inr (snapshot, [])
     | Some spec \<Rightarrow>
         bindE (shiftAddressedRecord (wsCells sheet) op') (\<lambda>cells'.
         bindE (mapOptE (\<lambda>r. shiftAddressedRecord r op') (wsStyles sheet)) (\<lambda>styles'.
         bindE (mapOptE (mapE (\<lambda>m. shiftRangeString m spec)) (wsMerges sheet)) (\<lambda>merges'.
         bindE (if axis spec = RowAxis
                then mapOptE (\<lambda>r. shiftNumericKeyRecord r spec rowKeyIndex (\<lambda>i. intStr (i + 1))) (rowHeights sheet)
                else Inr (rowHeights sheet)) (\<lambda>rowHeights'.
         bindE (if axis spec = ColumnAxis
                then mapOptE (\<lambda>r. shiftNumericKeyRecord r spec columnIndex columnLabel) (colWidths sheet)
                else Inr (colWidths sheet)) (\<lambda>colWidths'.
           shiftAllFormulas
             (replaceSheet snapshot (sheet\<lparr>wsCells := cells', wsStyles := styles',
                wsMerges := map_option (\<lambda>ms. map the (filter (\<lambda>m. m \<noteq> None) ms)) merges',
                rowHeights := rowHeights', colWidths := colWidths'\<rparr>))
             op' sheetId (wsName sheet))))))))"

definition demoUnsupported :: "string \<Rightarrow> js_error + 'a" where
  "demoUnsupported name = conflict (name @ '' needs an imported xlsx file '' @ emDash
     @ '' the demo workbook does not support it.'')"

fun applyStructuralOp :: "WorkbookSnapshot \<Rightarrow> StructuralOperation \<Rightarrow> js_error + WorkbookSnapshot \<times> string list" where
  "applyStructuralOp snapshot (AddSheet name rows columns) =
     bindE (addSheet snapshot name rows columns) (\<lambda>s. Inr (s, []))"
| "applyStructuralOp snapshot (DeleteSheet sheetId) = deleteSheet snapshot sheetId"
| "applyStructuralOp snapshot (DuplicateSheet s n) = demoUnsupported ''duplicate_sheet''"
| "applyStructuralOp snapshot (SetSheetHidden s h) = demoUnsupported ''set_sheet_hidden''"
| "applyStructuralOp snapshot (MoveSheet s p) = demoUnsupported ''move_sheet''"
| "applyStructuralOp snapshot (InsertRows s r n) = shiftGrid snapshot (InsertRows s r n) s"
| "applyStructuralOp snapshot (DeleteRows s r n) = shiftGrid snapshot (DeleteRows s r n) s"
| "applyStructuralOp snapshot (InsertCols s c n) = shiftGrid snapshot (InsertCols s c n) s"
| "applyStructuralOp snapshot (DeleteCols s c n) = shiftGrid snapshot (DeleteCols s c n) s"


section \<open>Layout operations\<close>

definition rangesIntersect :: "string \<Rightarrow> string \<Rightarrow> js_error + bool" where
  "rangesIntersect a b =
     bindE (parseRange a) (\<lambda>boundsA. bindE (parseRange b) (\<lambda>boundsB. Inr (boundsOverlap boundsA boundsB)))"

text \<open>\<open>find\<close> and \<open>filter\<close> with a test that can throw.\<close>

fun findE :: "('a \<Rightarrow> 'e + bool) \<Rightarrow> 'a list \<Rightarrow> 'e + 'a option" where
  "findE f [] = Inr None"
| "findE f (x # xs) = bindE (f x) (\<lambda>b. if b then Inr (Some x) else findE f xs)"

fun filterE :: "('a \<Rightarrow> 'e + bool) \<Rightarrow> 'a list \<Rightarrow> 'e + 'a list" where
  "filterE f [] = Inr []"
| "filterE f (x # xs) = bindE (f x) (\<lambda>b. bindE (filterE f xs) (\<lambda>ys. Inr (if b then x # ys else ys)))"

definition sheetVisuals :: "WorksheetState \<Rightarrow> SheetVisual list" where
  "sheetVisuals s = optList (wsVisuals s)"

text \<open>The first sheet with the visual, and the visual.\<close>

fun findVisualIn :: "string \<Rightarrow> WorksheetState list \<Rightarrow> (WorksheetState \<times> SheetVisual) option" where
  "findVisualIn vid [] = None"
| "findVisualIn vid (s # ss) =
     (case find (\<lambda>v. visualId v = vid) (sheetVisuals s) of
        Some v \<Rightarrow> Some (s, v)
      | None \<Rightarrow> findVisualIn vid ss)"

definition vectorNumber :: "(real \<Rightarrow> string) \<Rightarrow> (string \<Rightarrow> js_number) \<Rightarrow> CellScalar \<Rightarrow> real" where
  "vectorNumber numStr toNum v =
     (case v of Num x \<Rightarrow> x | _ \<Rightarrow> numValue (toNum (trim (textOrEmpty numStr v))))"

definition editChartSeries ::
  "(real \<Rightarrow> string) \<Rightarrow> (string \<Rightarrow> js_number) \<Rightarrow> WorkbookSnapshot \<Rightarrow> string \<Rightarrow> SheetVisual \<Rightarrow> SeriesDataEntry
     \<Rightarrow> js_error + SeriesEdit" where
  "editChartSeries numStr toNum snapshot path visual e =
     throwIf (seriesIndex e \<ge> int (length (cvSeries (chart visual))))
       (WorkbookConflictError (''Chart '' @ path @ '' has no series #'' @ intStr (seriesIndex e)
         @ '' (it has '' @ natStr (length (cvSeries (chart visual))) @ '').''))
     (bindE (findSheet snapshot (case seriesSheetId e of None \<Rightarrow> visualSheetId visual | Some s \<Rightarrow> s)) (\<lambda>sourceSheet.
      bindE (mapOptE (gridFromRange sourceSheet) (valuesRange e)) (\<lambda>vs.
      bindE (mapOptE (gridFromRange sourceSheet) (categoriesRange e)) (\<lambda>cs.
      Inr \<lparr>editIndex = seriesIndex e, editName = seriesName e,
           editValues = map_option (\<lambda>g. map (vectorNumber numStr toNum) (concat g)) vs,
           editCategories = map_option (\<lambda>g. map (textOrEmpty numStr) (concat g)) cs,
           editValuesRef = None, editCategoriesRef = None\<rparr>))))"

definition chartStateEdit :: "EditChartOperation \<Rightarrow> SeriesEdit list \<Rightarrow> ChartStateEdit" where
  "chartStateEdit op' series =
     \<lparr>ceTitle = chartTitle op', ceChartType = editChartType op', ceSeriesColors = seriesColors op',
      cePointColors = None, ceLegend = legend op', ceDataLabels = dataLabels op', ceDataLabelPosition = None,
      ceDataLabelFormat = None, ceAxisTitles = axisTitles op', ceGrouping = grouping op', ceGridlines = None,
      ceValueAxis = None, ceGapWidthPct = None, ceHoleSizePct = None, ceExplosionPct = None,
      cePointExplosions = None, ceSeries = (if series = [] then None else Some series), ceSeriesSet = None\<rparr>"

definition setVisual :: "string \<Rightarrow> SheetVisual \<Rightarrow> SheetVisual list \<Rightarrow> SheetVisual list" where
  "setVisual vid v vs = map (\<lambda>entry. if visualId entry = vid then v else entry) vs"

definition applyEditChart ::
  "(real \<Rightarrow> string) \<Rightarrow> (string \<Rightarrow> js_number) \<Rightarrow> WorkbookSnapshot \<Rightarrow> EditChartOperation \<Rightarrow> js_error + WorkbookSnapshot" where
  "applyEditChart numStr toNum snapshot op' =
     (case findVisualIn (chartPath op') (sheets snapshot) of
        None \<Rightarrow> conflict (''Unknown chart: '' @ chartPath op' @ '' (demo charts are addressed by their visual id).'')
      | Some (sheet, visual) \<Rightarrow>
          throwIf (axisTitles op' \<noteq> None \<and> list_ex (\<lambda>t. strIncludes (toLowerCase t) ''pie''
              \<or> strIncludes (toLowerCase t) ''doughnut'') (chartTypes (chart visual)))
            (WorkbookConflictError (''Pie/doughnut charts have no axes '' @ emDash @ '' axisTitles does not apply.''))
          (let targetTypes = (case editChartType op' of
                  Some t \<Rightarrow> (case map_of CHART_EDIT_TYPES t of Some (ts, _) \<Rightarrow> ts | None \<Rightarrow> [])
                | None \<Rightarrow> chartTypes (chart visual))
           in throwIf (grouping op' \<noteq> None
                \<and> \<not> list_ex (\<lambda>t. t \<in> set [''barChart'', ''lineChart'', ''areaChart'']) targetTypes)
              (WorkbookConflictError ''Only bar, line, and area charts support grouping.'')
              (bindE (mapE (editChartSeries numStr toNum snapshot (chartPath op') visual) (optList (seriesData op')))
                (\<lambda>series.
                  let chart' = applyChartStateEdit (chart visual) (Some (chartStateEdit op' series))
                  in Inr (replaceSheet snapshot (sheet\<lparr>wsVisuals :=
                       Some (map (\<lambda>entry. if visualId entry = visualId visual then entry\<lparr>chart := chart'\<rparr> else entry)
                         (sheetVisuals sheet))\<rparr>))))))"

fun errorMessage :: "js_error \<Rightarrow> string" where
  "errorMessage (Error m) = m"
| "errorMessage (WorkbookConflictError m) = m"

definition asConflict :: "js_error + 'a \<Rightarrow> js_error + 'a" where
  "asConflict r = (case r of Inl e \<Rightarrow> conflict (errorMessage e) | Inr x \<Rightarrow> Inr x)"

definition applyAddChart ::
  "(real \<Rightarrow> string) \<Rightarrow> (string \<Rightarrow> js_number) \<Rightarrow> WorkbookSnapshot \<Rightarrow> string \<Rightarrow> string \<Rightarrow> string \<Rightarrow> string option
     \<Rightarrow> string option \<Rightarrow> js_error + WorkbookSnapshot" where
  "applyAddChart numStr toNum snapshot sheetId type dataRange title anchorCell =
     bindE (findSheet snapshot sheetId) (\<lambda>sheet.
     bindE (parseRange dataRange) (\<lambda>b.
     throwIf (2000 < rangeCellCount b) (WorkbookConflictError ''add_chart dataRange covers more than 2000 cells.'')
     (bindE (asConflict (bindE (gridFromRange sheet dataRange) (\<lambda>values.
         buildChartVisual numStr toNum
           \<lparr>inId = ''demo-chart-'' @ sheetId @ ''-'' @ natStr (Suc (length (sheetVisuals sheet))),
            inSheetId = wsId sheet, inSheetName = wsName sheet, inChartType = type, inDataRange = dataRange,
            inTitle = title, inAnchorCell = anchorCell, inValues = values\<rparr>))) (\<lambda>visual.
       Inr (replaceSheet snapshot (sheet\<lparr>wsVisuals := Some (sheetVisuals sheet @ [visual])\<rparr>))))))"

definition applyDeleteVisual :: "WorkbookSnapshot \<Rightarrow> string \<Rightarrow> js_error + WorkbookSnapshot" where
  "applyDeleteVisual snapshot vid =
     (case find (\<lambda>s. list_ex (\<lambda>v. visualId v = vid) (sheetVisuals s)) (sheets snapshot) of
        None \<Rightarrow> conflict (''Unknown visual: '' @ vid @ '' (demo charts are addressed by their visual id).'')
      | Some sheet \<Rightarrow>
          Inr (replaceSheet snapshot
            (sheet\<lparr>wsVisuals := Some (filter (\<lambda>v. visualId v \<noteq> vid) (sheetVisuals sheet))\<rparr>)))"

definition applyMerge :: "WorkbookSnapshot \<Rightarrow> string \<Rightarrow> string \<Rightarrow> js_error + WorkbookSnapshot" where
  "applyMerge snapshot sheetId rng =
     bindE (findSheet snapshot sheetId) (\<lambda>sheet.
     bindE (parseRange rng) (\<lambda>b.
     throwIf (rangeCellCount b < 2) (WorkbookConflictError ''merge_cells needs a range of at least two cells.'')
     (let merges = optList (wsMerges sheet) in
      if rng \<in> set merges then Inr snapshot
      else bindE (findE (\<lambda>existing. rangesIntersect existing rng) merges) (\<lambda>clash. case clash of
        Some c \<Rightarrow> conflict (rng @ '' overlaps the existing merged range '' @ c @ ''.'')
      | None \<Rightarrow> Inr (replaceSheet snapshot (sheet\<lparr>wsMerges := Some (merges @ [rng])\<rparr>))))))"

definition applyUnmerge :: "WorkbookSnapshot \<Rightarrow> string \<Rightarrow> string \<Rightarrow> js_error + WorkbookSnapshot" where
  "applyUnmerge snapshot sheetId rng =
     bindE (findSheet snapshot sheetId) (\<lambda>sheet.
     bindE (filterE (\<lambda>existing. bindE (rangesIntersect existing rng) (\<lambda>b. Inr (\<not> b))) (optList (wsMerges sheet)))
       (\<lambda>merges. Inr (replaceSheet snapshot (sheet\<lparr>wsMerges := if merges = [] then None else Some merges\<rparr>))))"

definition applyRowHeight :: "WorkbookSnapshot \<Rightarrow> string \<Rightarrow> int \<Rightarrow> int \<Rightarrow> real \<Rightarrow> js_error + WorkbookSnapshot" where
  "applyRowHeight snapshot sheetId row count' height =
     bindE (findSheet snapshot sheetId) (\<lambda>sheet.
       Inr (replaceSheet snapshot (sheet\<lparr>rowHeights :=
         Some (foldl (\<lambda>hs offset. AList.update (intStr (row + offset)) height hs)
           (optList (rowHeights sheet)) [0..count' - 1])\<rparr>)))"

definition applyColWidth :: "WorkbookSnapshot \<Rightarrow> string \<Rightarrow> string \<Rightarrow> int \<Rightarrow> real \<Rightarrow> js_error + WorkbookSnapshot" where
  "applyColWidth snapshot sheetId column count' width =
     bindE (findSheet snapshot sheetId) (\<lambda>sheet.
     bindE (columnIndex column) (\<lambda>first.
       Inr (replaceSheet snapshot (sheet\<lparr>colWidths :=
         Some (foldl (\<lambda>ws offset. AList.update (columnLabel (first + offset)) width ws)
           (optList (colWidths sheet)) [0..count' - 1])\<rparr>))))"

fun applyLayoutOp ::
  "(real \<Rightarrow> string) \<Rightarrow> (string \<Rightarrow> js_number) \<Rightarrow> WorkbookSnapshot \<Rightarrow> LayoutOperation \<Rightarrow> js_error + WorkbookSnapshot" where
  "applyLayoutOp numStr toNum snapshot (EditChart e) = applyEditChart numStr toNum snapshot e"
| "applyLayoutOp numStr toNum snapshot (AddChart s t r title a) = applyAddChart numStr toNum snapshot s t r title a"
| "applyLayoutOp numStr toNum snapshot (DeleteVisual v) = applyDeleteVisual snapshot v"
| "applyLayoutOp numStr toNum snapshot (MergeCells s r) = applyMerge snapshot s r"
| "applyLayoutOp numStr toNum snapshot (UnmergeCells s r) = applyUnmerge snapshot s r"
| "applyLayoutOp numStr toNum snapshot (SetRowHeight s r n h) = applyRowHeight snapshot s r n h"
| "applyLayoutOp numStr toNum snapshot (SetColWidth s c n w) = applyColWidth snapshot s c n w"
| "applyLayoutOp numStr toNum snapshot l = demoUnsupported (layoutName l)"

end
