(* ===== verification/WorkbookAdapter.thy ===== *)
theory WorkbookAdapter
  imports WorkbookState
begin

text \<open>
  The adapter \<open>InMemoryWorkbookAdapter\<close>: \<open>plan\<close> previews a batch against the current snapshot,
  \<open>apply\<close> commits a plan, \<open>undo\<close> reverts the last commit. Its private fields are the record
  \<open>Adapter\<close>; a throw leaves it unchanged. The zod parser (\<open>parseWorkbookCommandBatch\<close>) is a
  parameter: of an input it returns a batch or an error.
\<close>

section \<open>Plans and the adapter\<close>

record CellChange =
  ccSheetId :: string
  ccAddress :: string
  ccBefore :: CellState
  ccAfter :: CellState

record SheetRename =
  srSheetId :: string
  srBefore :: string
  srAfter :: string

record StructuralChange =
  scOp :: PrimitiveOperation
  scLabel :: string

record FormatChange =
  fcSheetId :: string
  fcRange :: string
  fcFormat :: CellFormatPatch
  fcLabel :: string

record ChangePlan =
  planTransactionId :: string
  planBaseRevision :: int
  cellChanges :: "CellChange list"
  sheetRenames :: "SheetRename list"
  structuralChanges :: "StructuralChange list"
  formatChanges :: "FormatChange list"
  warnings :: "string list"

record CommitReceipt =
  receiptTransactionId :: string
  previousRevision :: int
  newRevision :: int

datatype AuditAction = ApplyAction | UndoAction

record AuditRecord =
  auditReceipt :: CommitReceipt
  auditAction :: AuditAction
  changedCellCount :: nat
  renamedSheetCount :: nat
  structuralChangeCount :: nat

record Adapter =
  snapshot :: WorkbookSnapshot
  history :: "WorkbookSnapshot list"
  committedTransactions :: "string list"
  auditLog :: "AuditRecord list"

definition newAdapter :: "WorkbookSnapshot \<Rightarrow> Adapter" where
  "newAdapter s = \<lparr>snapshot = s, history = [], committedTransactions = [], auditLog = []\<rparr>"

section \<open>Planning one operation\<close>

text \<open>\<open>working\<close> and the arrays of \<open>plan\<close>.\<close>

record Planning =
  working :: WorkbookSnapshot
  plCells :: "CellChange list"
  plRenames :: "SheetRename list"
  plStructural :: "StructuralChange list"
  plFormats :: "FormatChange list"
  plWarnings :: "string list"

text \<open>\<open>cellChanges.push\<close> and \<open>replaceCell\<close>.\<close>

definition pushChange :: "Planning \<Rightarrow> CellChange \<Rightarrow> js_error + Planning" where
  "pushChange pl c =
     bindE (replaceCell (working pl) (ccSheetId c) (ccAddress c) (ccAfter c)) (\<lambda>w.
       Inr (pl\<lparr>working := w, plCells := plCells pl @ [c]\<rparr>))"

text \<open>The cell that a source cell becomes when moved by the deltas.\<close>

definition copiedCell :: "CellState \<Rightarrow> int \<Rightarrow> int \<Rightarrow> CellState" where
  "copiedCell cell rowDelta columnDelta =
     (case formulaOf cell of
        Some f \<Rightarrow> formulaCell (offsetFormulaRefs f rowDelta columnDelta)
      | None \<Rightarrow> plainCell (cellValue cell))"

definition limitMessage :: "string \<Rightarrow> string" where
  "limitMessage name = name @ '' on an in-memory workbook is limited to '' @ intStr MAX_EXPANDED_CELL_OPS
     @ '' cells per operation (imported xlsx files allow up to 200,000).''"

definition orSheet :: "string option \<Rightarrow> string \<Rightarrow> string" where
  "orSheet o' s = (case o' of Some x \<Rightarrow> x | None \<Rightarrow> s)"

definition fillChanges :: "WorksheetState \<Rightarrow> WorksheetState \<Rightarrow> RangeBounds \<Rightarrow> RangeBounds \<Rightarrow> CellChange list" where
  "fillChanges sourceSheet targetBefore source target =
     concat (map (\<lambda>row. map (\<lambda>column.
         let sourceRow = startRow source + (row - startRow target) mod boundsRows source;
             sourceColumn = startColumn source + (column - startColumn target) mod boundsColumns source;
             address = formatAddress row column
         in \<lparr>ccSheetId = wsId targetBefore, ccAddress = address, ccBefore = cellOr targetBefore address,
             ccAfter = copiedCell (cellOr sourceSheet (formatAddress sourceRow sourceColumn))
               (row - sourceRow) (column - sourceColumn)\<rparr>)
       [startColumn target..endColumn target]) [startRow target..endRow target])"

definition planFill :: "Planning \<Rightarrow> FillRangeOperation \<Rightarrow> js_error + Planning" where
  "planFill pl op' =
     bindE (parseRange (fillTarget op')) (\<lambda>target.
     throwIf (rangeCellCount target > MAX_EXPANDED_CELL_OPS) (WorkbookConflictError (limitMessage ''fill_range''))
     (bindE (parseRange (fillSource op')) (\<lambda>source.
      bindE (findSheet (working pl) (orSheet (fillSourceSheetId op') (fillSheetId op'))) (\<lambda>sourceSheet.
      bindE (findSheet (working pl) (fillSheetId op')) (\<lambda>targetBefore.
      foldE pushChange pl (fillChanges sourceSheet targetBefore source target))))))"

definition copyChanges :: "CopyRangeOperation \<Rightarrow> WorksheetState \<Rightarrow> WorksheetState \<Rightarrow> RangeBounds \<Rightarrow> RangeBounds \<Rightarrow>
    int list \<Rightarrow> CellChange list" where
  "copyChanges op' sourceSheet targetBefore source target sourceRows =
     (let rowDelta = startRow target - startRow source; columnDelta = startColumn target - startColumn source in
      concat (map (\<lambda>(targetOffset, row). map (\<lambda>column.
         let cell = cellOr sourceSheet (formatAddress row column);
             address = formatAddress (startRow target + int targetOffset) (column + columnDelta)
         in \<lparr>ccSheetId = wsId targetBefore, ccAddress = address, ccBefore = cellOr targetBefore address,
             ccAfter = (if filterColumn op' \<noteq> None then plainCell (cellValue cell)
                        else copiedCell cell rowDelta columnDelta)\<rparr>)
       [startColumn source..endColumn source]) (enumerate 0 sourceRows)))"

definition planCopy :: "(real \<Rightarrow> string) \<Rightarrow> Planning \<Rightarrow> CopyRangeOperation \<Rightarrow> js_error + Planning" where
  "planCopy numStr pl op' =
     bindE (copyTargetBounds op') (\<lambda>target.
     throwIf (rangeCellCount target > MAX_EXPANDED_CELL_OPS) (WorkbookConflictError (limitMessage ''copy_range''))
     (bindE (parseRange (copySource op')) (\<lambda>source.
      bindE (findSheet (working pl) (orSheet (copySourceSheetId op') (copySheetId op'))) (\<lambda>sourceSheet.
      bindE (findSheet (working pl) (copySheetId op')) (\<lambda>targetBefore.
      bindE (filteredCopySourceRows op' (\<lambda>row column.
          matchableCellText numStr (cellValue (cellOr sourceSheet (formatAddress row column))))) (\<lambda>sourceRows.
      case sourceRows of
        None \<Rightarrow> conflict (''copy_range filter matched no source rows '' @ emDash @ '' none of the ''
          @ (case filterColumn op' of Some c \<Rightarrow> c | None \<Rightarrow> ''undefined'') @ '' cells equal ''
          @ commaJoin (optList (filterValues op')) @ '' (matching is trimmed and case-insensitive).'')
      | Some rows \<Rightarrow>
          foldE pushChange pl (copyChanges op' sourceSheet targetBefore source target rows)))))))"

text \<open>The cells of a large \<open>clear_range\<close>: those inside that are not empty already.\<close>

definition clearChanges :: "WorksheetState \<Rightarrow> RangeBounds \<Rightarrow> js_error + CellChange list" where
  "clearChanges sheet bounds =
     bindE (mapE (\<lambda>(address, cell).
       bindE (parseAddress address) (\<lambda>p.
         Inr (if inBounds bounds (cellRow p) (cellColumn p) \<and> \<not> (cellValue cell = Null \<and> formula cell = None)
              then [\<lparr>ccSheetId = wsId sheet, ccAddress = address, ccBefore = cell, ccAfter = plainCell Null\<rparr>]
              else []))) (wsCells sheet)) (\<lambda>cs. Inr (concat cs))"

definition planClear :: "Planning \<Rightarrow> string \<Rightarrow> string \<Rightarrow> js_error + Planning" where
  "planClear pl sheetId rng =
     bindE (parseRange rng) (\<lambda>bounds.
     bindE (findSheet (working pl) sheetId) (\<lambda>sheet.
     bindE (clearChanges sheet bounds) (\<lambda>cs. foldE pushChange pl cs)))"

definition planLayout ::
  "(real \<Rightarrow> string) \<Rightarrow> (string \<Rightarrow> js_number) \<Rightarrow> Planning \<Rightarrow> LayoutOperation \<Rightarrow> js_error + Planning" where
  "planLayout numStr toNum pl op' =
     bindE (applyLayoutOp numStr toNum (working pl) op') (\<lambda>w.
     bindE (layoutOpLabel numStr op') (\<lambda>label.
     Inr (pl\<lparr>working := w, plStructural := plStructural pl @ [\<lparr>scOp = Layout op', scLabel = label\<rparr>]\<rparr>)))"

definition planFormat ::
  "(real \<Rightarrow> string) \<Rightarrow> Planning \<Rightarrow> string \<Rightarrow> string \<Rightarrow> CellFormatPatch \<Rightarrow> js_error + Planning" where
  "planFormat numStr pl sheetId rng format =
     bindE (findSheet (working pl) sheetId) (\<lambda>_.
     bindE (applyFormatRange (working pl) sheetId rng format) (\<lambda>w.
     Inr (pl\<lparr>working := w, plFormats := plFormats pl @
       [\<lparr>fcSheetId = sheetId, fcRange = rng, fcFormat = format, fcLabel = formatOpLabel numStr rng format\<rparr>]\<rparr>)))"

definition planStructural :: "Planning \<Rightarrow> StructuralOperation \<Rightarrow> js_error + Planning" where
  "planStructural pl op' =
     bindE (applyStructuralOp (working pl) op') (\<lambda>(w, refErrors).
     bindE (structuralOpLabel op') (\<lambda>label.
     Inr (pl\<lparr>working := w, plStructural := plStructural pl @ [\<lparr>scOp = Structural op', scLabel = label\<rparr>],
       plWarnings := plWarnings pl @
         (if refErrors = [] then []
          else [''Formulas reference deleted targets and will break (#REF!): '' @ commaJoin refErrors])\<rparr>)))"

definition planRename :: "Planning \<Rightarrow> string \<Rightarrow> string \<Rightarrow> js_error + Planning" where
  "planRename pl sheetId name =
     bindE (findSheet (working pl) sheetId) (\<lambda>sheet.
     throwIf (list_ex (\<lambda>s. wsName s = name) (sheets (working pl)))
       (WorkbookConflictError (''A sheet named '' @ quoted name @ '' already exists.''))
     (Inr (pl\<lparr>plRenames := plRenames pl @ [\<lparr>srSheetId = wsId sheet, srBefore = wsName sheet, srAfter = name\<rparr>],
        working := replaceSheet (working pl) (sheet\<lparr>wsName := name\<rparr>)\<rparr>)))"

definition expectationError :: "WorksheetState \<Rightarrow> string \<Rightarrow> string \<Rightarrow> js_error" where
  "expectationError sheet address what =
     WorkbookConflictError (wsName sheet @ ''!'' @ address @ '' no longer has the expected '' @ what @ ''.'')"

fun planContent :: "Planning \<Rightarrow> CellContentOperation \<Rightarrow> js_error + Planning" where
  "planContent pl (SetCell s a v expected) =
     bindE (findSheet (working pl) s) (\<lambda>sheet.
       let cell = cellOr sheet a in
       throwIf (expected \<noteq> None \<and> Some (cellValue cell) \<noteq> expected) (expectationError sheet a ''value'')
       (pushChange pl \<lparr>ccSheetId = wsId sheet, ccAddress = a, ccBefore = cell, ccAfter = plainCell v\<rparr>))"
| "planContent pl (SetFormula s a f expected) =
     bindE (findSheet (working pl) s) (\<lambda>sheet.
       let cell = cellOr sheet a in
       throwIf (expected \<noteq> None \<and> formula cell \<noteq> expected) (expectationError sheet a ''formula'')
       (pushChange pl \<lparr>ccSheetId = wsId sheet, ccAddress = a, ccBefore = cell, ccAfter = formulaCell f\<rparr>))"
| "planContent pl (ClearCell s a) =
     bindE (findSheet (working pl) s) (\<lambda>sheet.
       pushChange pl \<lparr>ccSheetId = wsId sheet, ccAddress = a, ccBefore = cellOr sheet a, ccAfter = plainCell Null\<rparr>)"

fun planOperation ::
  "(real \<Rightarrow> string) \<Rightarrow> (string \<Rightarrow> js_number) \<Rightarrow> Planning \<Rightarrow> PrimitiveOperation \<Rightarrow> js_error + Planning" where
  "planOperation numStr toNum pl (FillRange op') = planFill pl op'"
| "planOperation numStr toNum pl (CopyRange op') = planCopy numStr pl op'"
| "planOperation numStr toNum pl (ConvertToValues s r) =
     conflict (''convert_to_values reaches the in-memory adapter only above the '' @ intStr MAX_EXPANDED_CELL_OPS
       @ ''-cell demo limit '' @ emDash @ '' convert smaller ranges, or work on an imported xlsx file.'')"
| "planOperation numStr toNum pl (FindReplace f) = conflict (limitMessage ''find_replace'')"
| "planOperation numStr toNum pl (SortRange s) = conflict (limitMessage ''sort_range'')"
| "planOperation numStr toNum pl (ClearRange s r) = planClear pl s r"
| "planOperation numStr toNum pl (Layout op') = planLayout numStr toNum pl op'"
| "planOperation numStr toNum pl (FormatRange s r f) = planFormat numStr pl s r f"
| "planOperation numStr toNum pl (Structural op') = planStructural pl op'"
| "planOperation numStr toNum pl (RenameSheet s name) = planRename pl s name"
| "planOperation numStr toNum pl (Content c) = planContent pl c"

section \<open>Plan, apply, undo\<close>

definition readCellOf :: "WorkbookSnapshot \<Rightarrow> cellReader" where
  "readCellOf snap = (\<lambda>address sheetId. bindE (findSheet snap sheetId) (\<lambda>sheet. Inr (cellOr sheet address)))"

definition alreadyCommitted :: js_error where
  "alreadyCommitted = WorkbookConflictError ''This transaction was already committed.''"

definition planOperations ::
  "(real \<Rightarrow> string) \<Rightarrow> (string \<Rightarrow> js_number) \<Rightarrow> (string \<Rightarrow> string \<Rightarrow> real) \<Rightarrow> WorkbookSnapshot \<Rightarrow>
   WorkbookOperation list \<Rightarrow> js_error + Planning" where
  "planOperations numStr toNum lc snap ops =
     bindE (expandToPrimitiveOps numStr lc ops (Some (readCellOf snap))) (\<lambda>primitives.
       foldE (planOperation numStr toNum)
         \<lparr>working = snap, plCells = [], plRenames = [], plStructural = [], plFormats = [], plWarnings = []\<rparr> primitives)"

definition plan ::
  "(real \<Rightarrow> string) \<Rightarrow> (string \<Rightarrow> js_number) \<Rightarrow> (string \<Rightarrow> string \<Rightarrow> real) \<Rightarrow> ('input \<Rightarrow> js_error + WorkbookCommandBatch) \<Rightarrow>
   Adapter \<Rightarrow> 'input \<Rightarrow> js_error + ChangePlan" where
  "plan numStr toNum lc parseBatch ad input =
     bindE (parseBatch input) (\<lambda>batch.
     throwIf (baseRevision batch \<noteq> revision (snapshot ad))
       (WorkbookConflictError ''The workbook changed after the AI context was captured.'')
     (throwIf (transactionId batch \<in> set (committedTransactions ad)) alreadyCommitted
     (bindE (planOperations numStr toNum lc (snapshot ad) (operations batch)) (\<lambda>pl.
       Inr \<lparr>planTransactionId = transactionId batch, planBaseRevision = baseRevision batch,
            cellChanges = plCells pl, sheetRenames = plRenames pl, structuralChanges = plStructural pl,
            formatChanges = plFormats pl, warnings = plWarnings pl\<rparr>))))"

text \<open>The new snapshot of \<open>apply\<close>: renames, then structural changes, cells, formats.\<close>

definition applyRename :: "WorkbookSnapshot \<Rightarrow> SheetRename \<Rightarrow> js_error + WorkbookSnapshot" where
  "applyRename next r =
     bindE (findSheet next (srSheetId r)) (\<lambda>sheet. Inr (replaceSheet next (sheet\<lparr>wsName := srAfter r\<rparr>)))"

definition applyStructuralChange ::
  "(real \<Rightarrow> string) \<Rightarrow> (string \<Rightarrow> js_number) \<Rightarrow> WorkbookSnapshot \<Rightarrow> StructuralChange \<Rightarrow> js_error + WorkbookSnapshot" where
  "applyStructuralChange numStr toNum next c =
     (case scOp c of
        Layout op' \<Rightarrow> applyLayoutOp numStr toNum next op'
      | Structural op' \<Rightarrow> bindE (applyStructuralOp next op') (\<lambda>r. Inr (fst r))
      | _ \<Rightarrow> Inr next)"

definition applyCellChange :: "WorkbookSnapshot \<Rightarrow> CellChange \<Rightarrow> js_error + WorkbookSnapshot" where
  "applyCellChange next c = replaceCell next (ccSheetId c) (ccAddress c) (ccAfter c)"

definition applyFormatChange :: "WorkbookSnapshot \<Rightarrow> FormatChange \<Rightarrow> js_error + WorkbookSnapshot" where
  "applyFormatChange next c = applyFormatRange next (fcSheetId c) (fcRange c) (fcFormat c)"

definition applyChanges ::
  "(real \<Rightarrow> string) \<Rightarrow> (string \<Rightarrow> js_number) \<Rightarrow> WorkbookSnapshot \<Rightarrow> ChangePlan \<Rightarrow> js_error + WorkbookSnapshot" where
  "applyChanges numStr toNum snap p =
     bindE (foldE applyRename snap (sheetRenames p)) (\<lambda>s1.
     bindE (foldE (applyStructuralChange numStr toNum) s1 (structuralChanges p)) (\<lambda>s2.
     bindE (foldE applyCellChange s2 (cellChanges p)) (\<lambda>s3.
     foldE applyFormatChange s3 (formatChanges p))))"

definition apply' ::
  "(real \<Rightarrow> string) \<Rightarrow> (string \<Rightarrow> js_number) \<Rightarrow> Adapter \<Rightarrow> ChangePlan \<Rightarrow> js_error + Adapter \<times> CommitReceipt" where
  "apply' numStr toNum ad p =
     throwIf (planBaseRevision p \<noteq> revision (snapshot ad)) (WorkbookConflictError ''The workbook changed after preview.'')
     (throwIf (planTransactionId p \<in> set (committedTransactions ad)) alreadyCommitted
     (bindE (applyChanges numStr toNum (snapshot ad) p) (\<lambda>next.
       let next' = next\<lparr>revision := revision next + 1\<rparr>;
           receipt = \<lparr>receiptTransactionId = planTransactionId p, previousRevision = revision (snapshot ad),
                      newRevision = revision next'\<rparr>
       in Inr (ad\<lparr>snapshot := next', history := history ad @ [snapshot ad],
                  committedTransactions := planTransactionId p # committedTransactions ad,
                  auditLog := auditLog ad @ [\<lparr>auditReceipt = receipt, auditAction = ApplyAction,
                    changedCellCount = length (cellChanges p), renamedSheetCount = length (sheetRenames p),
                    structuralChangeCount = length (structuralChanges p)\<rparr>]\<rparr>, receipt))))"

definition canUndo :: "Adapter \<Rightarrow> bool" where
  "canUndo ad = (0 < length (history ad))"

definition undo :: "Adapter \<Rightarrow> js_error + Adapter \<times> CommitReceipt" where
  "undo ad =
     (if history ad = [] then conflict ''There is no transaction to undo.''
      else
        let current = revision (snapshot ad);
            receipt = \<lparr>receiptTransactionId = ''undo-'' @ intStr current, previousRevision = current,
                       newRevision = current + 1\<rparr>
        in Inr (ad\<lparr>snapshot := (last (history ad))\<lparr>revision := current + 1\<rparr>, history := butlast (history ad),
                   auditLog := auditLog ad @ [\<lparr>auditReceipt = receipt, auditAction = UndoAction,
                     changedCellCount = 0, renamedSheetCount = 0, structuralChangeCount = 0\<rparr>]\<rparr>, receipt))"

section \<open>Visuals edited directly\<close>

definition findVisual :: "Adapter \<Rightarrow> string \<Rightarrow> SheetVisual option" where
  "findVisual ad vid = map_option snd (findVisualIn vid (sheets (snapshot ad)))"

definition replaceVisual :: "Adapter \<Rightarrow> string \<Rightarrow> SheetVisual option \<Rightarrow> Adapter \<times> SheetVisual option" where
  "replaceVisual ad vid next =
     (case findVisualIn vid (sheets (snapshot ad)) of
        Some (sheet, previous) \<Rightarrow>
          (ad\<lparr>snapshot := replaceSheet (snapshot ad) (sheet\<lparr>wsVisuals := Some (case next of
              None \<Rightarrow> filter (\<lambda>v. visualId v \<noteq> vid) (sheetVisuals sheet)
            | Some v \<Rightarrow> setVisual vid v (sheetVisuals sheet))\<rparr>)\<rparr>, Some previous)
      | None \<Rightarrow>
          (case next of
             None \<Rightarrow> ad
           | Some v \<Rightarrow>
               (case findSheet (snapshot ad) (visualSheetId v) of
                  Inl _ \<Rightarrow> ad
                | Inr sheet \<Rightarrow>
                    ad\<lparr>snapshot := replaceSheet (snapshot ad) (sheet\<lparr>wsVisuals := Some (sheetVisuals sheet @ [v])\<rparr>)\<rparr>),
           None))"

end
