(* ===== verification/WorkbookSheets.thy ===== *)
theory WorkbookSheets
  imports WorkbookAdapter
begin

text \<open>
  The laws of the stores of a workbook: records keyed by address (\<open>keyed_store\<close>), the sheets of a
  snapshot, the cells of a sheet; and what a list of cell changes leaves behind.
\<close>

section \<open>Stores keyed by a value\<close>

locale keyed_store =
  fixes get :: "'s \<Rightarrow> 'k \<Rightarrow> 'v option"
    and put :: "'k \<Rightarrow> 'v \<Rightarrow> 's \<Rightarrow> 's"
  assumes get_put: "get (put k v s) k' = (if k' = k then Some v else get s k')"
begin

lemma get_puts:
  "get (foldl (\<lambda>s (k, v). put k v s) s kvs) k = (case map_of (rev kvs) k of Some v \<Rightarrow> Some v | None \<Rightarrow> get s k)"
  by (induction kvs arbitrary: s) (auto simp: get_put map_add_def split: option.split)

lemma get_puts_same:
  "get (foldl (\<lambda>s i. put (key i) v s) s is) k = (if k \<in> key ` set is then Some v else get s k)"
  by (induction "is" arbitrary: s) (auto simp: get_put)

end

interpretation alist: keyed_store map_of AList.update
  by unfold_locales (simp add: update_conv')

section \<open>The sheets of a snapshot\<close>

lemma findSheet_iff: "findSheet snap sid = Inr s \<longleftrightarrow> find (\<lambda>s. wsId s = sid) (sheets snap) = Some s"
  by (auto simp: findSheet_def conflict_def split: option.splits)

lemma findSheet_id: "findSheet snap sid = Inr s \<Longrightarrow> wsId s = sid \<and> s \<in> set (sheets snap)"
  using find_Some_in by (fastforce simp: findSheet_iff)

lemma findSheet_unknown: "isOk (findSheet snap sid) \<longleftrightarrow> sid \<in> wsId ` set (sheets snap)"
  by (auto simp: findSheet_def conflict_def find_None split: option.splits dest: find_Some_in)

text \<open>Sheets are found by id, so replacing one leaves the others.\<close>

lemma find_replace_first:
  assumes "findIndex (\<lambda>s. f s = f x') xs = Some i"
  shows "find (\<lambda>s. f s = k) (xs[i := x']) = (if k = f x' then Some x' else find (\<lambda>s. f s = k) xs)"
  using assms
proof (induction xs arbitrary: i)
  case (Cons a xs)
  show ?case
  proof (cases "f a = f x'")
    case True
    with Cons.prems show ?thesis by auto
  next
    case False
    with Cons.prems obtain j where "findIndex (\<lambda>s. f s = f x') xs = Some j" "i = Suc j"
      by (auto split: if_splits)
    with Cons.IH [of j] False show ?thesis by auto
  qed
qed simp

lemma findSheet_replaceSheet:
  assumes "isOk (findSheet snap (wsId s'))"
  shows "findSheet (replaceSheet snap s') k = (if k = wsId s' then Inr s' else findSheet snap k)"
proof -
  obtain s where "find (\<lambda>s. wsId s = wsId s') (sheets snap) = Some s"
    using assms by (auto simp: isOk_iff findSheet_iff)
  then obtain i where i: "findIndex (\<lambda>s. wsId s = wsId s') (sheets snap) = Some i"
    using findIndex_ex [of s "sheets snap" "\<lambda>s. wsId s = wsId s'"] find_Some_in by fastforce
  show ?thesis
    using find_replace_first [OF i, of k] i by (simp add: findSheet_def replaceSheet_def)
qed

lemma map_replace_first:
  "findIndex (\<lambda>s. f s = f x') xs = Some i \<Longrightarrow> map f (xs[i := x']) = map f xs"
  by (induction xs arbitrary: i) (auto split: if_splits)

lemma replaceSheet_ids: "map wsId (sheets (replaceSheet snap s')) = map wsId (sheets snap)"
  using map_replace_first [of wsId s' "sheets snap"] by (auto simp: replaceSheet_def split: option.split)

lemma replaceSheet_revision [simp]: "revision (replaceSheet snap s') = revision snap"
  by (simp add: replaceSheet_def split: option.split)

section \<open>Cells\<close>

definition cellIn :: "WorkbookSnapshot \<Rightarrow> string \<Rightarrow> string \<Rightarrow> CellState option" where
  "cellIn snap sid address =
     (case findSheet snap sid of Inl _ \<Rightarrow> None | Inr s \<Rightarrow> map_of (wsCells s) address)"

lemma replaceCell_cases:
  assumes "replaceCell snap sid address cell = Inr snap'"
  obtains s where "findSheet snap sid = Inr s"
    "snap' = replaceSheet snap (s\<lparr>wsCells := AList.update address cell (wsCells s)\<rparr>)"
  using assms by (auto simp: replaceCell_def res_simps)

lemma replaceCell_sheet:
  assumes "replaceCell snap sid address cell = Inr snap'" "findSheet snap sid = Inr s"
  shows "findSheet snap' k = (if k = sid then Inr (s\<lparr>wsCells := AList.update address cell (wsCells s)\<rparr>)
    else findSheet snap k)"
proof -
  let ?s = "s\<lparr>wsCells := AList.update address cell (wsCells s)\<rparr>"
  have "snap' = replaceSheet snap ?s" "wsId ?s = sid"
    using assms findSheet_id [OF assms(2)] by (auto simp: replaceCell_def)
  then show ?thesis using findSheet_replaceSheet [of snap ?s k] assms(2) by simp
qed

lemma replaceCell_cellIn:
  assumes "replaceCell snap sid address cell = Inr snap'"
  shows "cellIn snap' k a = (if k = sid \<and> a = address then Some cell else cellIn snap k a)"
proof -
  obtain s where s: "findSheet snap sid = Inr s" by (rule replaceCell_cases [OF assms])
  show ?thesis using replaceCell_sheet [OF assms s, of k] s by (simp add: cellIn_def update_conv')
qed

text \<open>The last change of a cell in a list of changes, if any.\<close>

definition lastChange :: "CellChange list \<Rightarrow> string \<Rightarrow> string \<Rightarrow> CellState option" where
  "lastChange cs sid a = map_of (rev (map (\<lambda>c. ((ccSheetId c, ccAddress c), ccAfter c)) cs)) (sid, a)"

lemma lastChange_Cons:
  "lastChange (c # cs) sid a = (case lastChange cs sid a of Some x \<Rightarrow> Some x
     | None \<Rightarrow> if sid = ccSheetId c \<and> a = ccAddress c then Some (ccAfter c) else None)"
  by (auto simp: lastChange_def map_add_def split: option.split)

lemma lastChange_Nil [simp]: "lastChange [] sid a = None"
  by (simp add: lastChange_def)

lemma foldE_applyCellChange_cellIn:
  assumes "foldE applyCellChange snap cs = Inr snap'"
  shows "cellIn snap' k a = (case lastChange cs k a of Some x \<Rightarrow> Some x | None \<Rightarrow> cellIn snap k a)"
  using assms
proof (induction cs arbitrary: snap)
  case (Cons c cs)
  then obtain snap1 where "applyCellChange snap c = Inr snap1" "foldE applyCellChange snap1 cs = Inr snap'"
    by (auto simp: res_simps)
  with Cons.IH [of snap1] replaceCell_cellIn [of snap "ccSheetId c" "ccAddress c" "ccAfter c" snap1 k a] show ?case
    unfolding applyCellChange_def
    by (auto simp: lastChange_Cons split: option.split)
qed simp

lemma foldE_pushChange:
  "foldE pushChange pl cs = Inr pl' \<longleftrightarrow>
     (\<exists>w. foldE applyCellChange (working pl) cs = Inr w \<and> pl' = pl\<lparr>working := w, plCells := plCells pl @ cs\<rparr>)"
proof (induction cs arbitrary: pl)
  case (Cons c cs)
  have "pushChange pl c = bindE (applyCellChange (working pl) c)
      (\<lambda>w. Inr (pl\<lparr>working := w, plCells := plCells pl @ [c]\<rparr>))"
    by (simp add: pushChange_def applyCellChange_def)
  then show ?case by (auto simp: res_simps Cons.IH)
qed auto

lemma lastChange_distinct:
  assumes "distinct (map (\<lambda>c. (ccSheetId c, ccAddress c)) cs)" "c \<in> set cs"
  shows "lastChange cs (ccSheetId c) (ccAddress c) = Some (ccAfter c)"
  unfolding lastChange_def using assms by (intro map_of_is_SomeI) (auto simp: comp_def rev_map [symmetric])

lemma lastChange_None:
  "lastChange cs sid a = None \<longleftrightarrow> (\<forall>c\<in>set cs. (ccSheetId c, ccAddress c) \<noteq> (sid, a))"
  by (force simp: lastChange_def map_of_eq_None_iff)

end
