(* ===== verification/WorkbookFill.thy ===== *)
theory WorkbookFill
  imports WorkbookSheets ExpandProps
begin

text \<open>
  What fills, copies and clears leave in the cells of the working snapshot.
\<close>

section \<open>Fills\<close>

lemma fillChanges_address: "map ccAddress (fillChanges src tgt source target) = rangeAddresses target"
  by (simp add: fillChanges_def rangeAddresses_def map_concat comp_def Let_def)

lemma fillChanges_sheet: "c \<in> set (fillChanges src tgt source target) \<Longrightarrow> ccSheetId c = wsId tgt"
  by (auto simp: fillChanges_def Let_def)

lemma changes_distinct:
  assumes "distinct (map ccAddress cs)"
  shows "distinct (map (\<lambda>c. (ccSheetId c, ccAddress c)) cs)"
proof -
  have "map ccAddress cs = map snd (map (\<lambda>c. (ccSheetId c, ccAddress c)) cs)" by simp
  with assms show ?thesis by (simp only: distinct_map)
qed

text \<open>The row and column of the source cell that a target cell is filled from.\<close>

definition tileRow :: "RangeBounds \<Rightarrow> RangeBounds \<Rightarrow> int \<Rightarrow> int" where
  "tileRow source target row = startRow source + (row - startRow target) mod boundsRows source"

definition tileColumn :: "RangeBounds \<Rightarrow> RangeBounds \<Rightarrow> int \<Rightarrow> int" where
  "tileColumn source target column = startColumn source + (column - startColumn target) mod boundsColumns source"

lemma concat_map_mem: "x \<in> set xs \<Longrightarrow> y \<in> set ys \<Longrightarrow> z = f x y \<Longrightarrow> z \<in> set (concat (map (\<lambda>x. map (f x) ys) xs))"
  by auto

lemma fillChanges_mem:
  assumes "inBounds target row column"
  shows "\<exists>c\<in>set (fillChanges src tgt source target). ccAddress c = formatAddress row column
    \<and> ccAfter c = copiedCell (cellOr src (formatAddress (tileRow source target row) (tileColumn source target column)))
        (row - tileRow source target row) (column - tileColumn source target column)"
proof -
  let ?c = "\<lparr>ccSheetId = wsId tgt, ccAddress = formatAddress row column,
    ccBefore = cellOr tgt (formatAddress row column),
    ccAfter = copiedCell (cellOr src (formatAddress (tileRow source target row) (tileColumn source target column)))
        (row - tileRow source target row) (column - tileColumn source target column)\<rparr>"
  have "row \<in> set [startRow target..endRow target]" "column \<in> set [startColumn target..endColumn target]"
    using assms by (simp_all add: inBounds_def)
  then have "?c \<in> set (fillChanges src tgt source target)"
    unfolding fillChanges_def Let_def tileRow_def [symmetric] tileColumn_def [symmetric]
    by (rule concat_map_mem) simp
  then show ?thesis by force
qed

lemma planFill_Inr:
  assumes "planFill pl op' = Inr pl'"
  obtains source target src tgt where "parseRange (fillTarget op') = Inr target" "parseRange (fillSource op') = Inr source"
    "rangeCellCount target \<le> MAX_EXPANDED_CELL_OPS"
    "findSheet (working pl) (orSheet (fillSourceSheetId op') (fillSheetId op')) = Inr src"
    "findSheet (working pl) (fillSheetId op') = Inr tgt"
    "foldE pushChange pl (fillChanges src tgt source target) = Inr pl'"
  using assms by (auto simp: planFill_def res_simps)

text \<open>What distinct changes leave: the cells changed have their new content, the others keep theirs.\<close>

lemma pushChanges_cells:
  assumes run: "foldE pushChange pl cs = Inr pl'" and "distinct (map ccAddress cs)"
  shows "(\<forall>c\<in>set cs. cellIn (working pl') (ccSheetId c) (ccAddress c) = Some (ccAfter c))
    \<and> (\<forall>k a. (\<forall>c\<in>set cs. ccSheetId c \<noteq> k \<or> ccAddress c \<noteq> a) \<longrightarrow>
          cellIn (working pl') k a = cellIn (working pl) k a)"
proof -
  obtain w where w: "foldE applyCellChange (working pl) cs = Inr w" "working pl' = w"
    using run by (auto simp: foldE_pushChange)
  have "cellIn w (ccSheetId c) (ccAddress c) = Some (ccAfter c)" if "c \<in> set cs" for c
    using foldE_applyCellChange_cellIn [OF w(1)] lastChange_distinct [OF changes_distinct [OF assms(2)] that] by simp
  moreover have "cellIn w k a = cellIn (working pl) k a"
    if "\<forall>c\<in>set cs. ccSheetId c \<noteq> k \<or> ccAddress c \<noteq> a" for k a
  proof -
    have "lastChange cs k a = None" using that by (auto simp: lastChange_None)
    then show ?thesis using foldE_applyCellChange_cellIn [OF w(1)] by simp
  qed
  ultimately show ?thesis using w(2) by blast
qed

lemma planFill_cells:
  assumes run: "planFill pl op' = Inr pl'"
    and source: "parseRange (fillSource op') = Inr source" and target: "parseRange (fillTarget op') = Inr target"
    and src: "findSheet (working pl) (orSheet (fillSourceSheetId op') (fillSheetId op')) = Inr src"
  shows "(\<forall>row column. inBounds target row column \<longrightarrow>
      cellIn (working pl') (fillSheetId op') (formatAddress row column) =
        Some (copiedCell (cellOr src (formatAddress (tileRow source target row) (tileColumn source target column)))
          (row - tileRow source target row) (column - tileColumn source target column)))
    \<and> (\<forall>k a. k \<noteq> fillSheetId op' \<or> a \<notin> set (rangeAddresses target) \<longrightarrow> cellIn (working pl') k a = cellIn (working pl) k a)"
proof -
  obtain tgt where tgt: "findSheet (working pl) (fillSheetId op') = Inr tgt"
    and run': "foldE pushChange pl (fillChanges src tgt source target) = Inr pl'"
    using planFill_Inr [OF run] source target src by (metis sum.inject(2))
  have id: "wsId tgt = fillSheetId op'" using findSheet_id [OF tgt] by simp
  have "distinct (map ccAddress (fillChanges src tgt source target))"
    unfolding fillChanges_address by (rule rangeAddresses_distinct [OF parseRange_ok [OF target]])
  note cells = pushChanges_cells [OF run' this]
  have "cellIn (working pl') (fillSheetId op') (formatAddress row column) =
        Some (copiedCell (cellOr src (formatAddress (tileRow source target row) (tileColumn source target column)))
          (row - tileRow source target row) (column - tileColumn source target column))"
    if "inBounds target row column" for row column
    using fillChanges_mem [OF that, of src tgt source] cells fillChanges_sheet id by metis
  moreover have "cellIn (working pl') k a = cellIn (working pl) k a"
    if "k \<noteq> fillSheetId op' \<or> a \<notin> set (rangeAddresses target)" for k a
  proof -
    have "a \<in> set (rangeAddresses target)" if "c \<in> set (fillChanges src tgt source target)" "ccAddress c = a" for c
      using that by (simp add: fillChanges_address [symmetric, of target src tgt source] image_iff) metis
    then show ?thesis using that cells fillChanges_sheet id by metis
  qed
  ultimately show ?thesis by blast
qed

text \<open>
  A source cell inside the target is filled with itself: the guard makes overlapping ranges
  share their corner.
\<close>

lemma tile_self:
  assumes "boundsOk source" "boundsOk target" "inBounds source row column"
    and "startRow source = startRow target" "startColumn source = startColumn target"
  shows "tileRow source target row = row \<and> tileColumn source target column = column"
  using assms by (simp add: tileRow_def tileColumn_def inBounds_def boundsRows_def boundsColumns_def)

lemma validateFill_corner:
  assumes "validateFillRange op' = Inr ()" "parseRange (fillSource op') = Inr source"
    "parseRange (fillTarget op') = Inr target" "orSheet (fillSourceSheetId op') (fillSheetId op') = fillSheetId op'"
    "inBounds source row column" "inBounds target row column"
  shows "startRow source = startRow target \<and> startColumn source = startColumn target"
proof -
  have "boundsOverlap source target" using assms(5,6) by (auto simp: boundsOverlap_def inBounds_def)
  moreover have "fillSourceSheetId op' = None \<or> fillSourceSheetId op' = Some (fillSheetId op')"
    using assms(4) by (auto simp: orSheet_def split: option.splits)
  ultimately show ?thesis using assms(1-3) by (auto simp: validateFillRange_def res_simps Let_def)
qed

lemma tile_inBounds:
  assumes "boundsOk source"
  shows "inBounds source (tileRow source target row) (tileColumn source target column)"
proof -
  have "0 < boundsRows source" "0 < boundsColumns source"
    using assms by (simp_all add: boundsOk_def boundsRows_def boundsColumns_def)
  then show ?thesis
    using pos_mod_bound [of "boundsRows source" "row - startRow target"] pos_mod_sign [of "boundsRows source" "row - startRow target"]
      pos_mod_bound [of "boundsColumns source" "column - startColumn target"]
      pos_mod_sign [of "boundsColumns source" "column - startColumn target"]
    by (simp add: tileRow_def tileColumn_def inBounds_def boundsRows_def boundsColumns_def)
qed


section \<open>Copies\<close>

text \<open>The block that the copied rows fill.\<close>

definition copiedBlock :: "RangeBounds \<Rightarrow> RangeBounds \<Rightarrow> nat \<Rightarrow> RangeBounds" where
  "copiedBlock source target n =
     \<lparr>startRow = startRow target, startColumn = startColumn target, endRow = startRow target + int n - 1,
      endColumn = startColumn target + (endColumn source - startColumn source)\<rparr>"

lemma upto_from: "map (\<lambda>k. a + int k) [0..<n] = [a..a + int n - 1]"
  by (rule nth_equalityI) auto

lemma upto_plus: "map (\<lambda>c. c + d) [a..b] = [a + d..b + d]" for a b d :: int
  by (rule nth_equalityI) auto

lemma copyChanges_address:
  "map ccAddress (copyChanges op' src tgt source target rows) = rangeAddresses (copiedBlock source target (length rows))"
proof -
  have "map ccAddress (copyChanges op' src tgt source target rows) =
      concat (map (\<lambda>r. map (\<lambda>c. formatAddress r c) (map (\<lambda>c. c + (startColumn target - startColumn source))
        [startColumn source..endColumn source])) (map (\<lambda>k. startRow target + int k) (map fst (enumerate 0 rows))))"
    by (simp add: copyChanges_def Let_def map_concat comp_def case_prod_beta del: map_fst_enumerate)
  also have "\<dots> = rangeAddresses (copiedBlock source target (length rows))"
    unfolding upto_plus map_fst_enumerate upto_from plus_nat.add_0
    by (simp add: rangeAddresses_def copiedBlock_def upto_from algebra_simps)
  finally show ?thesis .
qed

lemma copyChanges_sheet: "c \<in> set (copyChanges op' src tgt source target rows) \<Longrightarrow> ccSheetId c = wsId tgt"
  by (auto simp: copyChanges_def Let_def)

text \<open>The content a copied cell gets.\<close>

definition copyContent :: "CopyRangeOperation \<Rightarrow> CellState \<Rightarrow> int \<Rightarrow> int \<Rightarrow> CellState" where
  "copyContent op' cell rowDelta columnDelta =
     (if filterColumn op' \<noteq> None then plainCell (cellValue cell) else copiedCell cell rowDelta columnDelta)"

lemma copyChanges_mem:
  assumes "k < length rows" "startColumn source \<le> column" "column \<le> endColumn source"
  shows "\<exists>c\<in>set (copyChanges op' src tgt source target rows).
    ccAddress c = formatAddress (startRow target + int k) (column + (startColumn target - startColumn source))
    \<and> ccAfter c = copyContent op' (cellOr src (formatAddress (rows ! k) column))
        (startRow target - startRow source) (startColumn target - startColumn source)"
proof -
  let ?a = "formatAddress (startRow target + int k) (column + (startColumn target - startColumn source))"
  let ?c = "\<lparr>ccSheetId = wsId tgt, ccAddress = ?a, ccBefore = cellOr tgt ?a,
    ccAfter = copyContent op' (cellOr src (formatAddress (rows ! k) column))
        (startRow target - startRow source) (startColumn target - startColumn source)\<rparr>"
  have "(k, rows ! k) \<in> set (enumerate 0 rows)" "column \<in> set [startColumn source..endColumn source]"
    using assms by (auto simp: in_set_enumerate_eq)
  then have "?c \<in> set (copyChanges op' src tgt source target rows)"
    unfolding copyChanges_def Let_def copyContent_def [symmetric] case_prod_beta
    by (rule concat_map_mem) simp
  then show ?thesis by force
qed

lemma planCopy_Inr:
  assumes "planCopy numStr pl op' = Inr pl'"
  obtains source target src tgt rows where "copyTargetBounds op' = Inr target" "parseRange (copySource op') = Inr source"
    "rangeCellCount target \<le> MAX_EXPANDED_CELL_OPS"
    "findSheet (working pl) (orSheet (copySourceSheetId op') (copySheetId op')) = Inr src"
    "findSheet (working pl) (copySheetId op') = Inr tgt"
    "filteredCopySourceRows op' (\<lambda>row column.
       matchableCellText numStr (cellValue (cellOr src (formatAddress row column)))) = Inr (Some rows)"
    "foldE pushChange pl (copyChanges op' src tgt source target rows) = Inr pl'"
proof -
  from assms obtain source target src tgt o' where *: "copyTargetBounds op' = Inr target" "parseRange (copySource op') = Inr source"
    "rangeCellCount target \<le> MAX_EXPANDED_CELL_OPS"
    "findSheet (working pl) (orSheet (copySourceSheetId op') (copySheetId op')) = Inr src"
    "findSheet (working pl) (copySheetId op') = Inr tgt"
    and o': "filteredCopySourceRows op' (\<lambda>row column.
       matchableCellText numStr (cellValue (cellOr src (formatAddress row column)))) = Inr o'"
    by (auto simp: planCopy_def res_simps)
  moreover obtain rows where "o' = Some rows" "foldE pushChange pl (copyChanges op' src tgt source target rows) = Inr pl'"
    using assms * o' by (cases o') (auto simp: planCopy_def res_simps conflict_def)
  ultimately show thesis using that by blast
qed

lemma copyTargetBounds_ok: "copyTargetBounds op' = Inr b \<Longrightarrow> boundsOk b"
  by (auto simp: copyTargetBounds_def res_simps boundsOk_def dest!: parseRange_ok)

lemma planCopy_cells:
  assumes run: "planCopy numStr pl op' = Inr pl'"
    and source: "parseRange (copySource op') = Inr source" and target: "copyTargetBounds op' = Inr target"
    and src: "findSheet (working pl) (orSheet (copySourceSheetId op') (copySheetId op')) = Inr src"
    and rows: "filteredCopySourceRows op' (\<lambda>row column.
       matchableCellText numStr (cellValue (cellOr src (formatAddress row column)))) = Inr (Some rows)"
  shows "(\<forall>k column. k < length rows \<and> startColumn source \<le> column \<and> column \<le> endColumn source \<longrightarrow>
      cellIn (working pl') (copySheetId op')
        (formatAddress (startRow target + int k) (column + (startColumn target - startColumn source))) =
      Some (copyContent op' (cellOr src (formatAddress (rows ! k) column))
        (startRow target - startRow source) (startColumn target - startColumn source)))
    \<and> (\<forall>k a. k \<noteq> copySheetId op' \<or> a \<notin> set (rangeAddresses (copiedBlock source target (length rows))) \<longrightarrow>
        cellIn (working pl') k a = cellIn (working pl) k a)"
proof -
  obtain tgt where tgt: "findSheet (working pl) (copySheetId op') = Inr tgt"
    and run': "foldE pushChange pl (copyChanges op' src tgt source target rows) = Inr pl'"
  proof (rule planCopy_Inr [OF run])
    fix source' target' src' tgt rows'
    assume *: "copyTargetBounds op' = Inr target'" "parseRange (copySource op') = Inr source'"
      "findSheet (working pl) (orSheet (copySourceSheetId op') (copySheetId op')) = Inr src'"
      "findSheet (working pl) (copySheetId op') = Inr tgt"
      "filteredCopySourceRows op' (\<lambda>row column.
         matchableCellText numStr (cellValue (cellOr src' (formatAddress row column)))) = Inr (Some rows')"
      "foldE pushChange pl (copyChanges op' src' tgt source' target' rows') = Inr pl'"
    then have "src' = src" "source' = source" "target' = target" using source target src by simp_all
    with * rows show thesis using that by simp
  qed
  have id: "wsId tgt = copySheetId op'" using findSheet_id [OF tgt] by simp
  have "distinct (map ccAddress (copyChanges op' src tgt source target rows))"
  proof (cases "rows = []")
    case False
    then have "boundsOk (copiedBlock source target (length rows))"
      using copyTargetBounds_ok [OF target] parseRange_ok [OF source]
      by (auto simp: copiedBlock_def boundsOk_def Suc_le_eq)
    then show ?thesis unfolding copyChanges_address by (rule rangeAddresses_distinct)
  qed (simp add: copyChanges_def)
  note cells = pushChanges_cells [OF run' this]
  have "cellIn (working pl') (copySheetId op')
        (formatAddress (startRow target + int k) (column + (startColumn target - startColumn source))) =
      Some (copyContent op' (cellOr src (formatAddress (rows ! k) column))
        (startRow target - startRow source) (startColumn target - startColumn source))"
    if "k < length rows" "startColumn source \<le> column" "column \<le> endColumn source" for k column
    using copyChanges_mem [OF that, of op' src tgt target] cells copyChanges_sheet id by metis
  moreover have "cellIn (working pl') k a = cellIn (working pl) k a"
    if "k \<noteq> copySheetId op' \<or> a \<notin> set (rangeAddresses (copiedBlock source target (length rows)))" for k a
  proof -
    have "a \<in> set (rangeAddresses (copiedBlock source target (length rows)))"
      if "c \<in> set (copyChanges op' src tgt source target rows)" "ccAddress c = a" for c
      using that unfolding copyChanges_address [symmetric, of source target rows op' src tgt] by force
    then show ?thesis using that cells copyChanges_sheet id by metis
  qed
  ultimately show ?thesis by blast
qed

end
