(* ===== verification/WorkbookMachine.thy ===== *)
theory WorkbookMachine
  imports WorkbookSheets
begin

text \<open>
  The adapter as a machine. Operations on a snapshot keep its revision and the identity of its
  sheets (apart from adding and deleting one); so the receipts of the audit log form one chain
  of revisions, the history is the stack of an undo machine, and no transaction is committed
  twice. Direct edits of visuals are steps of the machine too, without a history entry.
\<close>

section \<open>What every operation on a snapshot keeps\<close>

definition framed :: "WorkbookSnapshot \<Rightarrow> WorkbookSnapshot \<Rightarrow> bool" where
  "framed snap snap' \<longleftrightarrow> revision snap' = revision snap \<and> map wsId (sheets snap') = map wsId (sheets snap)"

lemma framed_refl [simp]: "framed snap snap"
  by (simp add: framed_def)

lemma framed_trans: "framed a b \<Longrightarrow> framed b c \<Longrightarrow> framed a c"
  by (simp add: framed_def)

lemma framed_replaceSheet [simp]: "framed snap (replaceSheet a s) = framed snap a"
  by (simp add: framed_def replaceSheet_ids)

lemma foldE_framed:
  assumes "\<And>s x s'. f s x = Inr s' \<Longrightarrow> framed s s'" "foldE f s xs = Inr s'"
  shows "framed s s'"
  using assms(2)
proof (induction xs arbitrary: s)
  case (Cons x xs)
  from Cons.prems obtain s1 where "f s x = Inr s1" "foldE f s1 xs = Inr s'" by (auto simp: res_simps)
  with assms(1) [of s x s1] Cons.IH [of s1] show ?case by (auto intro: framed_trans)
qed simp

lemma conflict_Inr [simp]: "conflict m \<noteq> Inr x" "demoUnsupported n \<noteq> Inr y"
  by (simp_all add: conflict_def demoUnsupported_def)

lemma applyEditChart_framed: "applyEditChart numStr toNum snap op' = Inr snap' \<Longrightarrow> framed snap snap'"
  by (auto simp: applyEditChart_def Let_def res_simps split: option.splits prod.splits)

lemma applyAddChart_framed: "applyAddChart numStr toNum snap s t r title a = Inr snap' \<Longrightarrow> framed snap snap'"
  by (auto simp: applyAddChart_def res_simps)

lemma applyDeleteVisual_framed: "applyDeleteVisual snap v = Inr snap' \<Longrightarrow> framed snap snap'"
  by (auto simp: applyDeleteVisual_def split: option.splits)

lemma applyMerge_framed: "applyMerge snap s r = Inr snap' \<Longrightarrow> framed snap snap'"
  by (auto simp: applyMerge_def Let_def res_simps split: option.splits if_splits)

lemma applyUnmerge_framed: "applyUnmerge snap s r = Inr snap' \<Longrightarrow> framed snap snap'"
  by (auto simp: applyUnmerge_def res_simps)

lemma applySizes_framed:
  "applyRowHeight snap s r n h = Inr snap' \<Longrightarrow> framed snap snap'"
  "applyColWidth snap s c n w = Inr snap' \<Longrightarrow> framed snap snap'"
  by (auto simp: applyRowHeight_def applyColWidth_def res_simps)

lemmas layout_framed = applyEditChart_framed applyAddChart_framed applyDeleteVisual_framed
  applyMerge_framed applyUnmerge_framed applySizes_framed

lemma applyLayoutOp_framed: "applyLayoutOp numStr toNum snap l = Inr snap' \<Longrightarrow> framed snap snap'"
  by (cases l) (auto dest: layout_framed)

lemma applyFormatRange_framed: "applyFormatRange snap s r f = Inr snap' \<Longrightarrow> framed snap snap'"
  by (auto simp: applyFormatRange_def Let_def res_simps)

lemma replaceCell_framed: "replaceCell snap s a c = Inr snap' \<Longrightarrow> framed snap snap'"
  by (erule replaceCell_cases) simp

lemma applyRename_framed: "applyRename snap r = Inr snap' \<Longrightarrow> framed snap snap'"
  by (auto simp: applyRename_def res_simps)

lemma shiftAllFormulas_framed:
  assumes "shiftAllFormulas snap op' sid name = Inr (snap', errs)"
  shows "framed snap snap'"
proof -
  have "framed snap (fst r)" if "foldE (\<lambda>(snap, refErrors) i.
       let candidate = sheets snap ! i in
       bindE (shiftSheetFormulas op' sid name candidate) (\<lambda>(nextCells, errs).
         Inr (case nextCells of None \<Rightarrow> snap | Some c \<Rightarrow> replaceSheet snap (candidate\<lparr>wsCells := c\<rparr>),
              refErrors @ errs))) (snap, []) is = Inr r" for "is" r
    using that by (rule foldE_inv [where P = "\<lambda>r. framed snap (fst r)"])
      (auto simp: Let_def res_simps split: option.split)
  with assms show ?thesis unfolding shiftAllFormulas_def by fastforce
qed

lemma shiftGrid_framed: "shiftGrid snap op' sid = Inr (snap', errs) \<Longrightarrow> framed snap snap'"
  unfolding shiftGrid_def
  by (auto simp: res_simps split: option.splits dest!: shiftAllFormulas_framed
      simp: framed_def replaceSheet_ids)

section \<open>Adding and deleting a sheet\<close>

lemma sheetName_inj: "''sheet-'' @ natStr m = ''sheet-'' @ natStr n \<longleftrightarrow> m = n"
  by (auto dest: natStr_inj)

lemma freshSerial_free: "''sheet-'' @ natStr (freshSerial ids k) \<notin> set ids"
proof -
  let ?name = "\<lambda>n. ''sheet-'' @ natStr n"
  have "\<not> ?name ` set [k..<Suc (k + length ids)] \<subseteq> set ids"
  proof
    assume "?name ` set [k..<Suc (k + length ids)] \<subseteq> set ids"
    from card_mono [OF _ this] have "card (?name ` set [k..<Suc (k + length ids)]) \<le> length ids"
      using card_length [of ids] by simp
    moreover have "card (?name ` set [k..<Suc (k + length ids)]) = Suc (length ids)"
      using card_image [OF inj_onI [of _ ?name]] sheetName_inj by (simp del: upt_Suc)
    ultimately show False by simp
  qed
  then obtain n where "n \<in> set [k..<Suc (k + length ids)]" "?name n \<notin> set ids" by blast
  then obtain m where m: "find (\<lambda>n. ?name n \<notin> set ids) [k..<Suc (k + length ids)] = Some m"
    using find_None [of "\<lambda>n. ?name n \<notin> set ids" "[k..<Suc (k + length ids)]"] by (auto simp del: upt_Suc)
  from find_Some_in [OF m] m show ?thesis by (simp add: freshSerial_def del: upt_Suc)
qed

text \<open>A snapshot with sheets, whose ids are distinct.\<close>

definition idsOk :: "WorkbookSnapshot \<Rightarrow> bool" where
  "idsOk snap \<longleftrightarrow> sheets snap \<noteq> [] \<and> distinct (map wsId (sheets snap))"

lemma framed_idsOk: "framed snap snap' \<Longrightarrow> idsOk snap \<Longrightarrow> idsOk snap'"
  unfolding framed_def idsOk_def by (metis map_is_Nil_conv)

lemma addSheet_ok:
  assumes "addSheet snap name rows columns = Inr snap'" "idsOk snap"
  shows "idsOk snap' \<and> revision snap' = revision snap"
  using assms freshSerial_free [of "map wsId (sheets snap)" "Suc (length (sheets snap))"]
  by (auto simp: addSheet_def idsOk_def res_simps)

lemma deleteSheet_ok:
  assumes "deleteSheet snap sid = Inr (snap', danglers)" "idsOk snap"
  shows "idsOk snap' \<and> revision snap' = revision snap"
proof (cases "findIndex (\<lambda>s. wsId s = sid) (sheets snap)")
  case (Some i)
  from findIndex_Some [OF this] have i: "i < length (sheets snap)" by simp
  with assms Some have "length (sheets snap) \<noteq> 1" and snap': "snap' = snap\<lparr>sheets := splice i 1 [] (sheets snap)\<rparr>"
    by (auto simp: deleteSheet_def Let_def res_simps)
  moreover have "length (splice i 1 [] (sheets snap)) = length (sheets snap) - 1"
    using i by (simp add: splice_def)
  moreover have "distinct (map wsId (splice i 1 [] (sheets snap)))"
  proof -
    have "map wsId (splice i 1 [] (sheets snap)) = take i (map wsId (sheets snap)) @ drop (Suc i) (map wsId (sheets snap))"
      by (simp add: splice_def take_map drop_map)
    moreover have "distinct (take i xs @ drop (Suc i) xs)" if "distinct xs" for xs :: "string list"
      using that by (simp add: set_take_disj_set_drop_if_distinct)
    ultimately show ?thesis using assms(2) by (simp add: idsOk_def)
  qed
  ultimately show ?thesis using i by (auto simp: idsOk_def)
qed (use assms in \<open>auto simp: deleteSheet_def res_simps\<close>)

lemma applyStructuralOp_ok:
  assumes "applyStructuralOp snap op' = Inr (snap', errs)" "idsOk snap"
  shows "idsOk snap' \<and> revision snap' = revision snap"
  using assms framed_idsOk [OF _ assms(2)]
  by (cases op') (auto simp: res_simps framed_def dest: addSheet_ok deleteSheet_ok shiftGrid_framed)

section \<open>Committing a plan\<close>

lemma framed_ok: "framed snap snap' \<Longrightarrow> idsOk snap \<Longrightarrow> idsOk snap' \<and> revision snap' = revision snap"
  using framed_idsOk by (auto simp: framed_def)

lemma foldE_ok:
  assumes "foldE f snap xs = Inr snap'" "idsOk snap"
    and "\<And>s x s'. f s x = Inr s' \<Longrightarrow> idsOk s \<Longrightarrow> idsOk s' \<and> revision s' = revision s"
  shows "idsOk snap' \<and> revision snap' = revision snap"
  using foldE_inv [OF assms(1), of "\<lambda>s. idsOk s \<and> revision s = revision snap"] assms(2,3) by fastforce

lemma applyStructuralChange_ok:
  "applyStructuralChange numStr toNum s c = Inr s' \<Longrightarrow> idsOk s \<Longrightarrow> idsOk s' \<and> revision s' = revision s"
  by (auto simp: applyStructuralChange_def res_simps split: PrimitiveOperation.splits
      dest: applyStructuralOp_ok applyLayoutOp_framed framed_ok)

lemma applyChanges_ok:
  assumes "applyChanges numStr toNum snap p = Inr snap'" "idsOk snap"
  shows "idsOk snap' \<and> revision snap' = revision snap"
proof -
  from assms(1) obtain s1 s2 s3 where
    s: "foldE applyRename snap (sheetRenames p) = Inr s1"
    "foldE (applyStructuralChange numStr toNum) s1 (structuralChanges p) = Inr s2"
    "foldE applyCellChange s2 (cellChanges p) = Inr s3" "foldE applyFormatChange s3 (formatChanges p) = Inr snap'"
    by (auto simp: applyChanges_def res_simps)
  have 1: "idsOk s1 \<and> revision s1 = revision snap"
    using s(1) assms(2) by (rule foldE_ok) (auto dest: applyRename_framed framed_ok)
  have 2: "idsOk s2 \<and> revision s2 = revision s1"
    using s(2) conjunct1 [OF 1] by (rule foldE_ok) (auto dest: applyStructuralChange_ok)
  have 3: "idsOk s3 \<and> revision s3 = revision s2"
    using s(3) conjunct1 [OF 2] by (rule foldE_ok) (auto simp: applyCellChange_def dest: replaceCell_framed framed_ok)
  have "idsOk snap' \<and> revision snap' = revision s3"
    using s(4) conjunct1 [OF 3] by (rule foldE_ok) (auto simp: applyFormatChange_def dest: applyFormatRange_framed framed_ok)
  with 1 2 3 show ?thesis by simp
qed

section \<open>The machine\<close>

lemma setVisual_framed: "framed (snapshot ad) (snapshot (fst (replaceVisual ad vid nxt)))"
  by (auto simp: replaceVisual_def split: option.split prod.split sum.split)

lemma replaceVisual_rest:
  "history (fst (replaceVisual ad vid nxt)) = history ad"
  "committedTransactions (fst (replaceVisual ad vid nxt)) = committedTransactions ad"
  "auditLog (fst (replaceVisual ad vid nxt)) = auditLog ad"
  by (auto simp: replaceVisual_def split: option.split prod.split sum.split)

lemma apply_Inr:
  assumes "apply' numStr toNum ad p = Inr (ad', receipt)"
  obtains nxt where "planBaseRevision p = revision (snapshot ad)" "planTransactionId p \<notin> set (committedTransactions ad)"
    "applyChanges numStr toNum (snapshot ad) p = Inr nxt"
    "receipt = \<lparr>receiptTransactionId = planTransactionId p, previousRevision = revision (snapshot ad),
       newRevision = revision nxt + 1\<rparr>"
    "ad' = ad\<lparr>snapshot := nxt\<lparr>revision := revision nxt + 1\<rparr>, history := history ad @ [snapshot ad],
       committedTransactions := planTransactionId p # committedTransactions ad,
       auditLog := auditLog ad @ [\<lparr>auditReceipt = receipt, auditAction = ApplyAction,
         changedCellCount = length (cellChanges p), renamedSheetCount = length (sheetRenames p),
         structuralChangeCount = length (structuralChanges p)\<rparr>]\<rparr>"
  using assms by (auto simp: apply'_def Let_def res_simps)

lemma undo_Inr:
  assumes "undo ad = Inr (ad', receipt)"
  obtains "history ad \<noteq> []"
    "receipt = \<lparr>receiptTransactionId = ''undo-'' @ intStr (revision (snapshot ad)),
       previousRevision = revision (snapshot ad), newRevision = revision (snapshot ad) + 1\<rparr>"
    "ad' = ad\<lparr>snapshot := (last (history ad))\<lparr>revision := revision (snapshot ad) + 1\<rparr>,
       history := butlast (history ad), auditLog := auditLog ad @ [\<lparr>auditReceipt = receipt, auditAction = UndoAction,
         changedCellCount = 0, renamedSheetCount = 0, structuralChangeCount = 0\<rparr>]\<rparr>"
  using assms by (auto simp: undo_def Let_def conflict_def split: if_splits)

lemma canUndo_iff: "canUndo ad \<longleftrightarrow> isOk (undo ad)"
  by (auto simp: canUndo_def undo_def Let_def conflict_def)

inductive adapterStep :: "(real \<Rightarrow> string) \<Rightarrow> (string \<Rightarrow> js_number) \<Rightarrow> Adapter \<Rightarrow> Adapter \<Rightarrow> bool"
  for numStr toNum where
  applied: "apply' numStr toNum ad p = Inr (ad', receipt) \<Longrightarrow> adapterStep numStr toNum ad ad'"
| undone: "undo ad = Inr (ad', receipt) \<Longrightarrow> adapterStep numStr toNum ad ad'"
| visual: "replaceVisual ad vid nxt = (ad', previous) \<Longrightarrow> adapterStep numStr toNum ad ad'"

inductive_cases adapterStepE: "adapterStep numStr toNum ad ad'"

inductive adapterRun :: "(real \<Rightarrow> string) \<Rightarrow> (string \<Rightarrow> js_number) \<Rightarrow> WorkbookSnapshot \<Rightarrow> Adapter \<Rightarrow> bool"
  for numStr toNum snap where
  new: "adapterRun numStr toNum snap (newAdapter snap)"
| step: "adapterRun numStr toNum snap ad \<Longrightarrow> adapterStep numStr toNum ad ad' \<Longrightarrow> adapterRun numStr toNum snap ad'"

section \<open>Invariants\<close>

fun auditChain :: "int \<Rightarrow> AuditRecord list \<Rightarrow> int \<Rightarrow> bool" where
  "auditChain r [] r' = (r = r')"
| "auditChain r (a # as) r' =
     (previousRevision (auditReceipt a) = r \<and> newRevision (auditReceipt a) = r + 1 \<and> auditChain (r + 1) as r')"

lemma auditChain_snoc:
  "auditChain r (as @ [a]) r' \<longleftrightarrow> auditChain r as (previousRevision (auditReceipt a))
     \<and> newRevision (auditReceipt a) = previousRevision (auditReceipt a) + 1 \<and> r' = newRevision (auditReceipt a)"
  by (induction as arbitrary: r) auto

definition appliedIds :: "AuditRecord list \<Rightarrow> string list" where
  "appliedIds entries = map (\<lambda>a. receiptTransactionId (auditReceipt a)) (filter (\<lambda>a. auditAction a = ApplyAction) entries)"

definition undoCount :: "AuditRecord list \<Rightarrow> nat" where
  "undoCount entries = length (filter (\<lambda>a. auditAction a = UndoAction) entries)"

definition adapterOk :: "int \<Rightarrow> Adapter \<Rightarrow> bool" where
  "adapterOk r0 ad \<longleftrightarrow>
     auditChain r0 (auditLog ad) (revision (snapshot ad))
     \<and> committedTransactions ad = rev (appliedIds (auditLog ad)) \<and> distinct (committedTransactions ad)
     \<and> length (history ad) + undoCount (auditLog ad) = length (appliedIds (auditLog ad))
     \<and> (\<forall>s\<in>set (snapshot ad # history ad). idsOk s) \<and> (\<forall>s\<in>set (history ad). revision s < revision (snapshot ad))"

lemma appliedIds_snoc [simp]:
  "appliedIds (entries @ [a]) = appliedIds entries @ (if auditAction a = ApplyAction then [receiptTransactionId (auditReceipt a)] else [])"
  "undoCount (entries @ [a]) = undoCount entries + (if auditAction a = UndoAction then 1 else 0)"
  by (simp_all add: appliedIds_def undoCount_def)

lemma idsOk_revision [simp]: "idsOk (s\<lparr>revision := r\<rparr>) = idsOk s"
  by (simp add: idsOk_def)

lemma adapterOk_apply:
  assumes "apply' numStr toNum ad p = Inr (ad', receipt)" "adapterOk r0 ad"
  shows "adapterOk r0 ad'"
proof -
  obtain nxt where n: "planTransactionId p \<notin> set (committedTransactions ad)"
    "applyChanges numStr toNum (snapshot ad) p = Inr nxt"
    "receipt = \<lparr>receiptTransactionId = planTransactionId p, previousRevision = revision (snapshot ad),
       newRevision = revision nxt + 1\<rparr>"
    "ad' = ad\<lparr>snapshot := nxt\<lparr>revision := revision nxt + 1\<rparr>, history := history ad @ [snapshot ad],
       committedTransactions := planTransactionId p # committedTransactions ad,
       auditLog := auditLog ad @ [\<lparr>auditReceipt = receipt, auditAction = ApplyAction,
         changedCellCount = length (cellChanges p), renamedSheetCount = length (sheetRenames p),
         structuralChangeCount = length (structuralChanges p)\<rparr>]\<rparr>"
    by (rule apply_Inr [OF assms(1)])
  have "idsOk nxt \<and> revision nxt = revision (snapshot ad)"
    using applyChanges_ok [OF n(2)] assms(2) by (simp add: adapterOk_def)
  with n assms(2) show ?thesis by (auto simp: adapterOk_def auditChain_snoc)
qed

lemma adapterOk_undo:
  assumes "undo ad = Inr (ad', receipt)" "adapterOk r0 ad"
  shows "adapterOk r0 ad'"
  using assms(1)
proof (rule undo_Inr)
  assume h: "history ad \<noteq> []"
    and r: "receipt = \<lparr>receiptTransactionId = ''undo-'' @ intStr (revision (snapshot ad)),
       previousRevision = revision (snapshot ad), newRevision = revision (snapshot ad) + 1\<rparr>"
    and ad': "ad' = ad\<lparr>snapshot := (last (history ad))\<lparr>revision := revision (snapshot ad) + 1\<rparr>,
       history := butlast (history ad), auditLog := auditLog ad @ [\<lparr>auditReceipt = receipt, auditAction = UndoAction,
         changedCellCount = 0, renamedSheetCount = 0, structuralChangeCount = 0\<rparr>]\<rparr>"
  have "idsOk s \<and> revision s < revision (snapshot ad) + 1" if "s \<in> set (butlast (history ad))" for s
    using in_set_butlastD [OF that] assms(2) by (fastforce simp: adapterOk_def)
  moreover have "Suc (length (history ad) - Suc 0) = length (history ad)" "idsOk (last (history ad))"
    using h assms(2) last_in_set [OF h] by (cases "history ad", auto simp: adapterOk_def)
  ultimately show ?thesis using assms(2) r ad'
    by (auto simp: adapterOk_def auditChain_snoc simp flip: add_Suc)
qed

lemma adapterOk_visual: "adapterOk r0 ad \<Longrightarrow> adapterOk r0 (fst (replaceVisual ad vid nxt))"
  using setVisual_framed [of ad vid nxt] framed_ok [OF setVisual_framed [of ad vid nxt]]
  by (auto simp: adapterOk_def replaceVisual_rest)

lemma adapterOk_step: "adapterStep numStr toNum ad ad' \<Longrightarrow> adapterOk r0 ad \<Longrightarrow> adapterOk r0 ad'"
proof (erule adapterStepE)
  fix vid nxt previous
  assume "adapterOk r0 ad" "replaceVisual ad vid nxt = (ad', previous)"
  then show "adapterOk r0 ad'" using adapterOk_visual [of r0 ad vid nxt] by simp
qed (auto dest: adapterOk_apply adapterOk_undo)

lemma adapterRun_ok: "adapterRun numStr toNum snap ad \<Longrightarrow> idsOk snap \<Longrightarrow> adapterOk (revision snap) ad"
proof (induction rule: adapterRun.induct)
  case new
  then show ?case by (simp add: adapterOk_def newAdapter_def appliedIds_def undoCount_def)
next
  case (step ad ad')
  then show ?case using adapterOk_step by blast
qed

section \<open>The undo stack\<close>

text \<open>The content of the workbook and the stack of the contents before each commit not yet undone.\<close>

type_synonym undoState = "WorksheetState list \<times> WorksheetState list list"

definition undoView :: "Adapter \<Rightarrow> undoState" where
  "undoView ad = (sheets (snapshot ad), rev (map sheets (history ad)))"

lemma apply_undoView:
  assumes "apply' numStr toNum ad p = Inr (ad', receipt)"
  shows "snd (undoView ad') = fst (undoView ad) # snd (undoView ad)"
  by (rule apply_Inr [OF assms]) (simp add: undoView_def)

lemma undo_undoView:
  assumes "undo ad = Inr (ad', receipt)"
  shows "snd (undoView ad) = fst (undoView ad') # snd (undoView ad')"
  using assms
proof (rule undo_Inr)
  assume h: "history ad \<noteq> []"
    and ad': "ad' = ad\<lparr>snapshot := (last (history ad))\<lparr>revision := revision (snapshot ad) + 1\<rparr>,
       history := butlast (history ad), auditLog := auditLog ad @ [\<lparr>auditReceipt = receipt, auditAction = UndoAction,
         changedCellCount = 0, renamedSheetCount = 0, structuralChangeCount = 0\<rparr>]\<rparr>"
  have "rev (map sheets (history ad)) = sheets (last (history ad)) # rev (map sheets (butlast (history ad)))"
    using h by (cases "history ad" rule: rev_cases) simp_all
  with ad' show ?thesis by (simp add: undoView_def)
qed

lemma visual_undoView: "snd (undoView (fst (replaceVisual ad vid nxt))) = snd (undoView ad)"
  by (simp add: undoView_def replaceVisual_rest)

text \<open>Commits with direct edits between them, then as many undos.\<close>

fun commitAll :: "(real \<Rightarrow> string) \<Rightarrow> (string \<Rightarrow> js_number) \<Rightarrow> Adapter \<Rightarrow>
    (ChangePlan \<times> (string \<times> SheetVisual option) list) list \<Rightarrow> js_error + Adapter" where
  "commitAll numStr toNum ad [] = Inr ad"
| "commitAll numStr toNum ad ((p, edits) # ps) =
     bindE (apply' numStr toNum ad p) (\<lambda>(ad', receipt).
       commitAll numStr toNum (foldl (\<lambda>a (vid, nxt). fst (replaceVisual a vid nxt)) ad' edits) ps)"

fun undoAll :: "nat \<Rightarrow> Adapter \<Rightarrow> js_error + Adapter" where
  "undoAll 0 ad = Inr ad"
| "undoAll (Suc n) ad = bindE (undo ad) (\<lambda>(ad', receipt). undoAll n ad')"

lemma edits_undoView: "snd (undoView (foldl (\<lambda>a (vid, nxt). fst (replaceVisual a vid nxt)) ad edits)) = snd (undoView ad)"
  by (induction edits arbitrary: ad) (auto simp: visual_undoView)

lemma undo_pops:
  assumes "snd (undoView ad) = old # stack"
  shows "\<exists>ad' receipt. undo ad = Inr (ad', receipt) \<and> undoView ad' = (old, stack)"
proof -
  have "history ad \<noteq> []" using assms by (auto simp: undoView_def)
  then obtain ad' receipt where u: "undo ad = Inr (ad', receipt)" by (simp add: undo_def Let_def)
  from undo_undoView [OF u] assms show ?thesis by (auto simp: u intro!: prod_eqI)
qed

lemma undoAll_pops:
  "snd (undoView ad) = rev olds @ cur # rest \<Longrightarrow>
   \<exists>ad'. undoAll (Suc (length olds)) ad = Inr ad' \<and> undoView ad' = (cur, rest)"
proof (induction olds arbitrary: ad rule: rev_induct)
  case Nil
  then show ?case using undo_pops [of ad cur rest] by force
next
  case (snoc o' os)
  then obtain ad1 receipt where u: "undo ad = Inr (ad1, receipt)" "undoView ad1 = (o', rev os @ cur # rest)"
    using undo_pops [of ad o' "rev os @ cur # rest"] by auto
  with snoc.IH [of ad1] show ?case by auto
qed

lemma commitAll_stack:
  "commitAll numStr toNum ad ps = Inr ad' \<Longrightarrow> ps \<noteq> [] \<Longrightarrow>
   \<exists>olds. Suc (length olds) = length ps \<and> snd (undoView ad') = rev olds @ fst (undoView ad) # snd (undoView ad)"
proof (induction ps arbitrary: ad)
  case (Cons pe ps)
  obtain p edits where pe: "pe = (p, edits)" by (cases pe)
  let ?edited = "\<lambda>ad1. foldl (\<lambda>a (vid, nxt). fst (replaceVisual a vid nxt)) ad1 edits"
  from Cons.prems pe obtain ad1 receipt where a: "apply' numStr toNum ad p = Inr (ad1, receipt)" and
    rest: "commitAll numStr toNum (?edited ad1) ps = Inr ad'"
    by (auto simp: res_simps)
  note top = apply_undoView [OF a]
  show ?case
  proof (cases "ps = []")
    case True
    with rest have "snd (undoView ad') = rev [] @ fst (undoView ad) # snd (undoView ad)"
      using top edits_undoView [of ad1 edits] by simp
    with True show ?thesis by (intro exI [of _ "[]"]) simp
  next
    case False
    from Cons.IH [OF rest False] obtain olds where "Suc (length olds) = length ps"
      "snd (undoView ad') = rev olds @ fst (undoView (?edited ad1)) # fst (undoView ad) # snd (undoView ad)"
      unfolding edits_undoView top by blast
    then show ?thesis by (intro exI [of _ "fst (undoView (?edited ad1)) # olds"]) simp
  qed
qed simp

lemma commits_undone:
  assumes "commitAll numStr toNum ad ps = Inr ad'" "ps \<noteq> []"
  shows "\<exists>ad''. undoAll (length ps) ad' = Inr ad'' \<and> undoView ad'' = undoView ad"
proof -
  from commitAll_stack [OF assms] obtain olds where o: "Suc (length olds) = length ps"
    "snd (undoView ad') = rev olds @ fst (undoView ad) # snd (undoView ad)"
    by blast
  from undoAll_pops [OF o(2)] show ?thesis by (simp add: o(1))
qed

end
