(* ===== verification/WorkbookAgreement.thy ===== *)
theory WorkbookAgreement
  imports WorkbookMachine
begin

text \<open>
  \<open>plan\<close> runs the operations of a batch in their order; \<open>apply\<close> runs the planned changes by kind:
  renames, layout, cells, formats. The two agree because changes of one kind read and write
  only their own part of a sheet: its name, its layout, its cells, its formats. Operations that
  build charts read cells, and structural ones read everything; they are left out here.
\<close>

section \<open>Updates that keep to their own view of a state\<close>

locale local_update =
  fixes own :: "'s \<Rightarrow> 'v" and other :: "'s \<Rightarrow> 'w" and good :: "'s \<Rightarrow> bool" and admitted :: "'x \<Rightarrow> bool"
    and f :: "'s \<Rightarrow> 'x \<Rightarrow> 'e + 's"
  assumes reads_own: "admitted x \<Longrightarrow> f s x = Inr s' \<Longrightarrow> own s = own t \<Longrightarrow> \<exists>t'. f t x = Inr t' \<and> own t' = own s'"
    and keeps_other: "admitted x \<Longrightarrow> good s \<Longrightarrow> f s x = Inr s' \<Longrightarrow> other s' = other s"
    and keeps_good: "admitted x \<Longrightarrow> good s \<Longrightarrow> f s x = Inr s' \<Longrightarrow> good s'"
begin

lemma run_from:
  assumes "foldE f s xs = Inr s'" "\<forall>x\<in>set xs. admitted x" "own s = own t" "good t"
  shows "\<exists>t'. foldE f t xs = Inr t' \<and> own t' = own s' \<and> other t' = other t \<and> good t'"
  using assms
proof (induction xs arbitrary: s t)
  case (Cons x xs)
  then obtain s1 where s1: "f s x = Inr s1" "foldE f s1 xs = Inr s'" by (auto simp: res_simps)
  with Cons.prems reads_own [of x s s1 t] obtain t1 where t1: "f t x = Inr t1" "own t1 = own s1" by auto
  have kept: "other t1 = other t" "good t1"
    using keeps_other [of x t t1] keeps_good [of x t t1] t1(1) Cons.prems(2,4) by simp_all
  from Cons.IH [OF s1(2) _ t1(2) [symmetric] kept(2)] Cons.prems(2) kept(1) t1(1) show ?case by auto
qed auto

lemma run_keeps: "foldE f s xs = Inr s' \<Longrightarrow> \<forall>x\<in>set xs. admitted x \<Longrightarrow> good s \<Longrightarrow> other s' = other s \<and> good s'"
  using run_from [of s xs s' s] by auto

lemma run_append:
  assumes "foldE f s xs = Inr s1" "own s1 = own t" "foldE f t ys = Inr t'" "\<forall>y\<in>set ys. admitted y" "good s1"
  shows "\<exists>s'. foldE f s (xs @ ys) = Inr s' \<and> own s' = own t'"
  using run_from [OF assms(3,4) assms(2) [symmetric] assms(5)] assms(1) by (auto simp: foldE_append)

end

section \<open>Views of a snapshot\<close>

definition sheetView :: "(WorksheetState \<Rightarrow> 'a) \<Rightarrow> WorkbookSnapshot \<Rightarrow> int \<times> (string \<times> 'a) list" where
  "sheetView g snap = (revision snap, map (\<lambda>s. (wsId s, g s)) (sheets snap))"

text \<open>The four parts of a sheet.\<close>

definition namePart :: "WorksheetState \<Rightarrow> string \<times> int option \<times> int option" where
  "namePart s = (wsName s, gridRows s, gridColumns s)"

definition layoutPart :: "WorksheetState \<Rightarrow>
    string list option \<times> real obj option \<times> real obj option \<times> SheetVisual list option" where
  "layoutPart s = (wsMerges s, rowHeights s, colWidths s, wsVisuals s)"

lemma sheetView_nth:
  assumes "sheetView g a = sheetView g b" "i < length (sheets a)"
  shows "i < length (sheets b) \<and> wsId (sheets a ! i) = wsId (sheets b ! i) \<and> g (sheets a ! i) = g (sheets b ! i)"
proof -
  have eq: "map (\<lambda>s. (wsId s, g s)) (sheets a) = map (\<lambda>s. (wsId s, g s)) (sheets b)"
    using assms(1) by (simp add: sheetView_def)
  have len: "i < length (sheets b)" using assms(2) map_eq_imp_length_eq [OF eq] by simp
  have "map (\<lambda>s. (wsId s, g s)) (sheets a) ! i = map (\<lambda>s. (wsId s, g s)) (sheets b) ! i" by (simp only: eq)
  with assms(2) len show ?thesis by simp
qed

lemma sheets_eqI:
  assumes v: "sheetView namePart a = sheetView namePart b" "sheetView layoutPart a = sheetView layoutPart b"
    "sheetView wsCells a = sheetView wsCells b" "sheetView wsStyles a = sheetView wsStyles b"
  shows "a = b"
proof -
  have "length (sheets a) = length (sheets b)" "revision a = revision b"
    using v(1) map_eq_imp_length_eq by (auto simp: sheetView_def)
  moreover have "sheets a ! i = sheets b ! i" if i: "i < length (sheets a)" for i
    using sheetView_nth [OF v(1) i] sheetView_nth [OF v(2) i] sheetView_nth [OF v(3) i] sheetView_nth [OF v(4) i]
    by (intro WorksheetState.equality) (simp_all add: namePart_def layoutPart_def)
  ultimately have "sheets a = sheets b" "revision a = revision b" by (auto intro: nth_equalityI)
  then show ?thesis by (cases a, cases b) simp
qed

lemma sheetView_proj: "sheetView g a = sheetView g b \<Longrightarrow> sheetView (\<lambda>s. f (g s)) a = sheetView (\<lambda>s. f (g s)) b"
proof -
  assume "sheetView g a = sheetView g b"
  from arg_cong [OF this, of "\<lambda>v. (fst v, map (map_prod id f) (snd v))"] show ?thesis
    by (simp add: sheetView_def comp_def)
qed

section \<open>Updates of one sheet\<close>

text \<open>Find a sheet, compute its replacement, put it back: the form of every operation but those on charts.\<close>

definition onSheet :: "WorkbookSnapshot \<Rightarrow> string \<Rightarrow> (WorksheetState \<Rightarrow> js_error + WorksheetState) \<Rightarrow> js_error + WorkbookSnapshot" where
  "onSheet snap sid F = bindE (findSheet snap sid) (\<lambda>s. bindE (F s) (\<lambda>s'. Inr (replaceSheet snap s')))"

text \<open>\<open>F\<close> reads and writes the part \<open>g\<close> of a sheet only.\<close>

definition localTo :: "(WorksheetState \<Rightarrow> 'a) \<Rightarrow> (WorksheetState \<Rightarrow> 'b) \<Rightarrow> (WorksheetState \<Rightarrow> js_error + WorksheetState) \<Rightarrow> bool" where
  "localTo g h F \<longleftrightarrow>
     (\<forall>s s' t. F s = Inr s' \<and> g s = g t \<longrightarrow> (\<exists>t'. F t = Inr t' \<and> g t' = g s'))
     \<and> (\<forall>s s'. F s = Inr s' \<longrightarrow> wsId s' = wsId s \<and> h s' = h s)"

lemma find_sheetView:
  assumes "map (\<lambda>s. (k s, g s)) xs = map (\<lambda>s. (k s, g s)) ys" "find (\<lambda>s. k s = i) xs = Some x"
  shows "\<exists>y. find (\<lambda>s. k s = i) ys = Some y \<and> g y = g x"
  using assms by (induction xs arbitrary: ys) (auto split: if_splits)

lemma findIndex_view:
  assumes "map k xs = map k ys"
  shows "findIndex (\<lambda>s. k s = i) xs = findIndex (\<lambda>s. k s = i) ys"
  using map_eq_imp_length_eq [OF assms] assms by (induction xs ys rule: list_induct2) simp_all

lemma sheetView_ids:
  assumes "sheetView g a = sheetView g b"
  shows "map wsId (sheets a) = map wsId (sheets b)"
  using arg_cong [OF assms, of "\<lambda>v. map fst (snd v)"] by (simp add: sheetView_def comp_def)

lemma sheetView_replace:
  assumes "sheetView g a = sheetView g b" "wsId s = wsId t" "g s = g t"
  shows "sheetView g (replaceSheet a s) = sheetView g (replaceSheet b t)"
proof -
  have "findIndex (\<lambda>x. wsId x = wsId t) (sheets a) = findIndex (\<lambda>x. wsId x = wsId t) (sheets b)"
    by (rule findIndex_view [OF sheetView_ids [OF assms(1)]])
  with assms show ?thesis by (auto simp: replaceSheet_def sheetView_def map_update split: option.split)
qed

lemma find_findIndex: "find P xs = Some s \<Longrightarrow> \<exists>i<length xs. findIndex P xs = Some i \<and> xs ! i = s"
proof (induction xs)
  case (Cons x xs)
  then show ?case by (cases "P x") auto
qed simp

lemma sheetView_frame:
  assumes "findSheet snap (wsId s') = Inr s" "h s' = h s"
  shows "sheetView h (replaceSheet snap s') = sheetView h snap"
proof -
  obtain i where i: "i < length (sheets snap)" "findIndex (\<lambda>x. wsId x = wsId s') (sheets snap) = Some i"
    "sheets snap ! i = s"
    using find_findIndex [OF assms(1) [unfolded findSheet_iff]] by (elim exE conjE) (rule that)
  have "(map (\<lambda>s. (wsId s, h s)) (sheets snap)) [i := (wsId s', h s')] = map (\<lambda>s. (wsId s, h s)) (sheets snap)"
    using i(1,3) assms(2) findSheet_id [OF assms(1)] by (simp add: list_update_same_conv)
  then show ?thesis by (simp add: replaceSheet_def sheetView_def i(2) map_update)
qed

lemma onSheet_local:
  assumes F: "localTo g h F" and run: "onSheet a sid F = Inr a'" and view: "sheetView g a = sheetView g b"
  shows "\<exists>b'. onSheet b sid F = Inr b' \<and> sheetView g b' = sheetView g a'"
proof -
  from run obtain s s' where s: "findSheet a sid = Inr s" "F s = Inr s'" "a' = replaceSheet a s'"
    by (auto simp: onSheet_def res_simps)
  from s(1) view find_sheetView [of wsId g "sheets a" "sheets b" sid s] obtain t where t: "findSheet b sid = Inr t" "g t = g s"
    by (auto simp: findSheet_iff sheetView_def)
  from F s(2) t(2) obtain t' where t': "F t = Inr t'" "g t' = g s'" unfolding localTo_def by metis
  moreover have "wsId t' = wsId s'"
    using F s(2) t'(1) findSheet_id [OF s(1)] findSheet_id [OF t(1)] unfolding localTo_def by metis
  ultimately have "sheetView g (replaceSheet b t') = sheetView g a'"
    using s(3) sheetView_replace [OF view, of s' t'] by simp
  then show ?thesis using t(1) t'(1) by (simp add: onSheet_def)
qed

lemma onSheet_frame:
  assumes F: "localTo g h F" and run: "onSheet a sid F = Inr a'"
  shows "sheetView h a' = sheetView h a"
proof -
  from run obtain s s' where s: "findSheet a sid = Inr s" "F s = Inr s'" "a' = replaceSheet a s'"
    by (auto simp: onSheet_def res_simps)
  moreover have "wsId s' = sid" "h s' = h s" using F s findSheet_id [OF s(1)] unfolding localTo_def by metis+
  ultimately show ?thesis using sheetView_frame [of a s' s h] by simp
qed

lemma idsOk_replaceSheet [simp]: "idsOk (replaceSheet snap s) = idsOk snap"
  using framed_idsOk [of snap "replaceSheet snap s"] framed_idsOk [of "replaceSheet snap s" snap]
  by (auto simp: framed_def replaceSheet_ids)

lemma onSheet_good: "onSheet a sid F = Inr a' \<Longrightarrow> idsOk a \<Longrightarrow> idsOk a'"
  by (auto simp: onSheet_def res_simps)


section \<open>The four kinds of changes\<close>

lemma localTo_write:
  assumes "\<And>s s'. F s = Inr s' \<Longrightarrow> \<exists>x. s' = put x s \<and> (\<forall>t. g t = g s \<longrightarrow> F t = Inr (put x t))"
    and "\<And>x s t. g s = g t \<Longrightarrow> g (put x s) = g (put x t)" "\<And>x s. wsId (put x s) = wsId s" "\<And>x s. h (put x s) = h s"
  shows "localTo g h F"
  unfolding localTo_def using assms by metis

lemma applyRename_onSheet:
  "applyRename snap r = onSheet snap (srSheetId r) (\<lambda>s. Inr (s\<lparr>wsName := srAfter r\<rparr>))"
  by (simp add: applyRename_def onSheet_def)

lemma applyCellChange_onSheet:
  "applyCellChange snap c = onSheet snap (ccSheetId c)
     (\<lambda>s. Inr (s\<lparr>wsCells := AList.update (ccAddress c) (ccAfter c) (wsCells s)\<rparr>))"
  by (simp add: applyCellChange_def replaceCell_def onSheet_def)

definition formattedStyles :: "RangeBounds \<Rightarrow> CellFormatPatch \<Rightarrow> CellFormatState obj option \<Rightarrow> CellFormatState obj option" where
  "formattedStyles bounds format before' =
     (let styles = foldl (\<lambda>st address.
             case mergeFormat (map_of st address) format of
               Some merged \<Rightarrow> AList.update address merged st
             | None \<Rightarrow> AList.delete address st)
           (optList before') (rangeAddresses bounds)
      in if styles = [] then None else Some styles)"

lemma applyFormatRange_onSheet:
  "applyFormatRange snap sid rng format = onSheet snap sid
     (\<lambda>s. bindE (parseRange rng) (\<lambda>b. Inr (s\<lparr>wsStyles := formattedStyles b format (wsStyles s)\<rparr>)))"
  by (auto simp: applyFormatRange_def onSheet_def formattedStyles_def Let_def bindE_def split: sum.split)

lemma rename_local: "localTo namePart (\<lambda>s. (layoutPart s, wsCells s, wsStyles s)) (\<lambda>s. Inr (s\<lparr>wsName := n\<rparr>))"
  by (rule localTo_write [where put = "\<lambda>_ s. s\<lparr>wsName := n\<rparr>"]) (simp_all add: namePart_def layoutPart_def)

lemma cell_local: "localTo wsCells (\<lambda>s. (namePart s, layoutPart s, wsStyles s))
    (\<lambda>s. Inr (s\<lparr>wsCells := AList.update a c (wsCells s)\<rparr>))"
  by (rule localTo_write [where put = "\<lambda>cells s. s\<lparr>wsCells := cells\<rparr>"]) (auto simp: namePart_def layoutPart_def)

lemma format_local: "localTo wsStyles (\<lambda>s. (namePart s, layoutPart s, wsCells s))
    (\<lambda>s. bindE (parseRange rng) (\<lambda>b. Inr (s\<lparr>wsStyles := formattedStyles b format (wsStyles s)\<rparr>)))"
  by (rule localTo_write [where put = "\<lambda>st s. s\<lparr>wsStyles := st\<rparr>"]) (auto simp: namePart_def layoutPart_def res_simps)

interpretation renames: local_update "sheetView namePart" "sheetView (\<lambda>s. (layoutPart s, wsCells s, wsStyles s))"
    idsOk "\<lambda>_. True" applyRename
  by unfold_locales (auto simp: applyRename_onSheet dest: onSheet_good onSheet_local [OF rename_local] onSheet_frame [OF rename_local])

interpretation cellWrites: local_update "sheetView wsCells" "sheetView (\<lambda>s. (namePart s, layoutPart s, wsStyles s))"
    idsOk "\<lambda>_. True" applyCellChange
  by unfold_locales (auto simp: applyCellChange_onSheet dest: onSheet_good onSheet_local [OF cell_local] onSheet_frame [OF cell_local])

interpretation formats: local_update "sheetView wsStyles" "sheetView (\<lambda>s. (namePart s, layoutPart s, wsCells s))"
    idsOk "\<lambda>_. True" applyFormatChange
  by unfold_locales (auto simp: applyFormatChange_def applyFormatRange_onSheet
      dest: onSheet_good onSheet_local [OF format_local] onSheet_frame [OF format_local])

section \<open>Layout\<close>

lemma find_distinct: "distinct (map k xs) \<Longrightarrow> x \<in> set xs \<Longrightarrow> find (\<lambda>s. k s = k x) xs = Some x"
  by (induction xs) auto

definition mergeSheet :: "string \<Rightarrow> WorksheetState \<Rightarrow> js_error + WorksheetState" where
  "mergeSheet rng s = bindE (parseRange rng) (\<lambda>b.
     throwIf (rangeCellCount b < 2) (WorkbookConflictError ''merge_cells needs a range of at least two cells.'')
     (if rng \<in> set (optList (wsMerges s)) then Inr s
      else bindE (findE (\<lambda>existing. rangesIntersect existing rng) (optList (wsMerges s))) (\<lambda>clash. case clash of
        Some c \<Rightarrow> conflict (rng @ '' overlaps the existing merged range '' @ c @ ''.'')
      | None \<Rightarrow> Inr (s\<lparr>wsMerges := Some (optList (wsMerges s) @ [rng])\<rparr>))))"

definition unmergeSheet :: "string \<Rightarrow> WorksheetState \<Rightarrow> js_error + WorksheetState" where
  "unmergeSheet rng s =
     bindE (filterE (\<lambda>existing. bindE (rangesIntersect existing rng) (\<lambda>b. Inr (\<not> b))) (optList (wsMerges s)))
       (\<lambda>merges. Inr (s\<lparr>wsMerges := if merges = [] then None else Some merges\<rparr>))"

lemma replaceSheet_self:
  assumes "findSheet snap sid = Inr s"
  shows "replaceSheet snap s = snap"
proof -
  have "wsId s = sid" using findSheet_id [OF assms] by simp
  with find_findIndex [OF assms [unfolded findSheet_iff]] show ?thesis by (auto simp: replaceSheet_def)
qed

lemma applyMerge_onSheet: "applyMerge snap sid rng = onSheet snap sid (mergeSheet rng)"
proof (cases "findSheet snap sid")
  case (Inr s)
  then show ?thesis
    by (auto simp: applyMerge_def onSheet_def mergeSheet_def Let_def bindE_def throwIf_def conflict_def
        replaceSheet_self [OF Inr] split: sum.split option.split)
qed (simp add: applyMerge_def onSheet_def)

lemma applyUnmerge_onSheet: "applyUnmerge snap sid rng = onSheet snap sid (unmergeSheet rng)"
  by (auto simp: applyUnmerge_def onSheet_def unmergeSheet_def bindE_def split: sum.split)

lemma applyRowHeight_onSheet: "applyRowHeight snap sid row n height = onSheet snap sid (\<lambda>s. Inr (s\<lparr>rowHeights :=
    Some (foldl (\<lambda>hs offset. AList.update (intStr (row + offset)) height hs) (optList (rowHeights s)) [0..n - 1])\<rparr>))"
  by (simp add: applyRowHeight_def onSheet_def)

lemma applyColWidth_onSheet: "applyColWidth snap sid column n width = onSheet snap sid (\<lambda>s.
    bindE (columnIndex column) (\<lambda>first. Inr (s\<lparr>colWidths :=
      Some (foldl (\<lambda>ws offset. AList.update (columnLabel (first + offset)) width ws) (optList (colWidths s)) [0..n - 1])\<rparr>)))"
  by (auto simp: applyColWidth_def onSheet_def bindE_def split: sum.split)

abbreviation besideLayout :: "WorksheetState \<Rightarrow> (string \<times> int option \<times> int option) \<times> CellState obj \<times> CellFormatState obj option" where
  "besideLayout s \<equiv> (namePart s, wsCells s, wsStyles s)"

lemma merge_local: "localTo layoutPart besideLayout (mergeSheet rng)"
proof -
  have "\<exists>t'. mergeSheet rng t = Inr t' \<and> layoutPart t' = layoutPart s'"
    if run: "mergeSheet rng s = Inr s'" and eq: "layoutPart s = layoutPart t" for s s' t
  proof -
    have "wsMerges s = wsMerges t" using eq by (simp add: layoutPart_def)
    with run eq show ?thesis
      by (auto simp: mergeSheet_def res_simps layoutPart_def split: option.splits if_splits)
  qed
  moreover have "wsId s' = wsId s \<and> besideLayout s' = besideLayout s" if "mergeSheet rng s = Inr s'" for s s'
    using that by (auto simp: mergeSheet_def res_simps namePart_def split: option.splits if_splits)
  ultimately show ?thesis unfolding localTo_def by blast
qed

lemma unmerge_local: "localTo layoutPart besideLayout (unmergeSheet rng)"
proof -
  have "\<exists>t'. unmergeSheet rng t = Inr t' \<and> layoutPart t' = layoutPart s'"
    if run: "unmergeSheet rng s = Inr s'" and eq: "layoutPart s = layoutPart t" for s s' t
  proof -
    have "wsMerges s = wsMerges t" using eq by (simp add: layoutPart_def)
    moreover from run obtain ms where
      "filterE (\<lambda>existing. bindE (rangesIntersect existing rng) (\<lambda>b. Inr (\<not> b))) (optList (wsMerges s)) = Inr ms"
      "s' = s\<lparr>wsMerges := if ms = [] then None else Some ms\<rparr>"
      by (auto simp: unmergeSheet_def bindE_Inr_iff)
    ultimately show ?thesis using eq by (simp add: unmergeSheet_def layoutPart_def)
  qed
  moreover have "wsId s' = wsId s \<and> besideLayout s' = besideLayout s" if "unmergeSheet rng s = Inr s'" for s s'
    using that by (auto simp: unmergeSheet_def res_simps namePart_def)
  ultimately show ?thesis unfolding localTo_def by blast
qed

lemma size_locals:
  "localTo layoutPart besideLayout (\<lambda>s. Inr (s\<lparr>rowHeights := Some (hf (rowHeights s))\<rparr>))"
  "localTo layoutPart besideLayout (\<lambda>s. bindE c (\<lambda>first. Inr (s\<lparr>colWidths := Some (cf first (colWidths s))\<rparr>)))"
  by (rule localTo_write [where put = "\<lambda>hs s. s\<lparr>rowHeights := hs\<rparr>"], auto simp: res_simps layoutPart_def namePart_def) []
    (rule localTo_write [where put = "\<lambda>ws s. s\<lparr>colWidths := ws\<rparr>"], auto simp: res_simps layoutPart_def namePart_def)

lemma find_visuals:
  "map (\<lambda>s. (wsId s, g s)) xs = map (\<lambda>s. (wsId s, g s)) ys \<Longrightarrow> find (\<lambda>s. P (g s)) xs = Some s \<Longrightarrow>
   \<exists>t. find (\<lambda>s. P (g s)) ys = Some t \<and> wsId t = wsId s \<and> g t = g s"
  by (induction xs arbitrary: ys) (auto split: if_splits)

lemma sheetVisuals_part: "sheetVisuals s = optList (snd (snd (snd (layoutPart s))))"
  by (simp add: sheetVisuals_def layoutPart_def)

lemma deleteVisual_local:
  assumes "applyDeleteVisual a vid = Inr a'" "sheetView layoutPart a = sheetView layoutPart b"
  shows "\<exists>b'. applyDeleteVisual b vid = Inr b' \<and> sheetView layoutPart b' = sheetView layoutPart a'"
proof -
  let ?P = "\<lambda>l. list_ex (\<lambda>v. visualId v = vid) (optList (snd (snd (snd l))))"
  let ?cut = "\<lambda>s. s\<lparr>wsVisuals := Some (filter (\<lambda>v. visualId v \<noteq> vid) (sheetVisuals s))\<rparr>"
  from assms(1) obtain s where s: "find (\<lambda>s. ?P (layoutPart s)) (sheets a) = Some s" "a' = replaceSheet a (?cut s)"
    by (auto simp: applyDeleteVisual_def sheetVisuals_part split: option.splits)
  from find_visuals [where P = ?P and g = layoutPart, OF _ s(1), of "sheets b"] assms(2) obtain t where
    t: "find (\<lambda>s. ?P (layoutPart s)) (sheets b) = Some t" "wsId t = wsId s" "layoutPart t = layoutPart s"
    by (auto simp: sheetView_def)
  have "sheetView layoutPart (replaceSheet b (?cut t)) = sheetView layoutPart a'"
    using sheetView_replace [OF assms(2), of "?cut s" "?cut t"] t(2,3) s(2)
    by (simp add: layoutPart_def sheetVisuals_def)
  with t(1) show ?thesis by (simp add: applyDeleteVisual_def sheetVisuals_part)
qed

lemma deleteVisual_frame:
  assumes "applyDeleteVisual a vid = Inr a'" "distinct (map wsId (sheets a))"
  shows "sheetView besideLayout a' = sheetView besideLayout a"
proof -
  let ?cut = "\<lambda>s. s\<lparr>wsVisuals := Some (filter (\<lambda>v. visualId v \<noteq> vid) (sheetVisuals s))\<rparr>"
  from assms(1) obtain s where s: "find (\<lambda>s. list_ex (\<lambda>v. visualId v = vid) (sheetVisuals s)) (sheets a) = Some s"
    "a' = replaceSheet a (?cut s)"
    by (auto simp: applyDeleteVisual_def split: option.splits)
  have "findSheet a (wsId (?cut s)) = Inr s"
    using find_Some_in [OF s(1)] find_distinct [OF assms(2), of s] by (simp add: findSheet_iff)
  from sheetView_frame [OF this, where h = besideLayout] s(2) show ?thesis by (simp add: namePart_def)
qed

fun buildsChart :: "LayoutOperation \<Rightarrow> bool" where
  "buildsChart (AddChart s t r title a) = True"
| "buildsChart (EditChart e) = True"
| "buildsChart _ = False"

definition layoutOnly :: "StructuralChange \<Rightarrow> bool" where
  "layoutOnly c = (case scOp c of Layout l \<Rightarrow> \<not> buildsChart l | _ \<Rightarrow> False)"

lemmas sheet_forms = applyMerge_onSheet applyUnmerge_onSheet applyRowHeight_onSheet applyColWidth_onSheet

lemma layoutOp_cases:
  assumes "applyLayoutOp numStr toNum a l = Inr a'" "\<not> buildsChart l"
  obtains (sheet) sid F where "\<And>b. applyLayoutOp numStr toNum b l = onSheet b sid F" "localTo layoutPart besideLayout F"
  | (visual) vid where "\<And>b. applyLayoutOp numStr toNum b l = applyDeleteVisual b vid"
proof (cases l)
  case (MergeCells s r)
  show thesis by (rule sheet [of s "mergeSheet r"]) (simp_all add: MergeCells applyMerge_onSheet merge_local)
next
  case (UnmergeCells s r)
  show thesis by (rule sheet [of s "unmergeSheet r"]) (simp_all add: UnmergeCells applyUnmerge_onSheet unmerge_local)
next
  case (SetRowHeight s r n h)
  show thesis
    by (rule sheet [OF _ size_locals(1) [of "\<lambda>hs. foldl (\<lambda>hs offset. AList.update (intStr (r + offset)) h hs) (optList hs) [0..n - 1]"]])
      (simp add: SetRowHeight applyRowHeight_onSheet)
next
  case (SetColWidth s c n w)
  show thesis
    by (rule sheet [OF _ size_locals(2) [of "columnIndex c"
        "\<lambda>first ws. foldl (\<lambda>ws offset. AList.update (columnLabel (first + offset)) w ws) (optList ws) [0..n - 1]"]])
      (simp add: SetColWidth applyColWidth_onSheet)
next
  case (DeleteVisual v)
  show thesis by (rule visual [of v]) (simp add: DeleteVisual)
qed (use assms in simp_all)

lemma layoutOp_local:
  assumes "applyLayoutOp numStr toNum a l = Inr a'" "\<not> buildsChart l" "sheetView layoutPart a = sheetView layoutPart b"
  shows "\<exists>b'. applyLayoutOp numStr toNum b l = Inr b' \<and> sheetView layoutPart b' = sheetView layoutPart a'"
  using assms(1,2)
proof (rule layoutOp_cases)
  fix sid F assume F: "\<And>b. applyLayoutOp numStr toNum b l = onSheet b sid F" "localTo layoutPart besideLayout F"
  from onSheet_local [OF F(2) _ assms(3)] assms(1) show ?thesis unfolding F(1) by blast
next
  fix vid assume v: "\<And>b. applyLayoutOp numStr toNum b l = applyDeleteVisual b vid"
  from deleteVisual_local [OF _ assms(3)] assms(1) show ?thesis unfolding v by blast
qed

lemma layoutOp_frame:
  assumes "applyLayoutOp numStr toNum a l = Inr a'" "\<not> buildsChart l" "idsOk a"
  shows "sheetView besideLayout a' = sheetView besideLayout a"
  using assms(1,2)
proof (rule layoutOp_cases)
  fix sid F assume F: "\<And>b. applyLayoutOp numStr toNum b l = onSheet b sid F" "localTo layoutPart besideLayout F"
  from onSheet_frame [OF F(2)] assms(1) show ?thesis unfolding F(1) by blast
next
  fix vid assume v: "\<And>b. applyLayoutOp numStr toNum b l = applyDeleteVisual b vid"
  from deleteVisual_frame assms(1,3) show ?thesis unfolding v idsOk_def by blast
qed

lemma layoutOnly_op: "layoutOnly c \<Longrightarrow> \<exists>l. scOp c = Layout l \<and> \<not> buildsChart l"
  by (simp add: layoutOnly_def split: PrimitiveOperation.splits)

lemma layoutChange_local:
  assumes "layoutOnly c" "applyStructuralChange numStr toNum s c = Inr s'" "sheetView layoutPart s = sheetView layoutPart t"
  shows "\<exists>t'. applyStructuralChange numStr toNum t c = Inr t' \<and> sheetView layoutPart t' = sheetView layoutPart s'"
proof -
  from layoutOnly_op [OF assms(1)] obtain l where l: "scOp c = Layout l" "\<not> buildsChart l" by blast
  from layoutOp_local [OF _ l(2) assms(3), of numStr toNum s'] assms(2) show ?thesis
    by (simp add: applyStructuralChange_def l(1))
qed

lemma layoutChange_frame:
  assumes "layoutOnly c" "idsOk s" "applyStructuralChange numStr toNum s c = Inr s'"
  shows "sheetView besideLayout s' = sheetView besideLayout s"
proof -
  from layoutOnly_op [OF assms(1)] obtain l where l: "scOp c = Layout l" "\<not> buildsChart l" by blast
  from layoutOp_frame [OF _ l(2) assms(2), of numStr toNum s'] assms(3) show ?thesis
    by (simp add: applyStructuralChange_def l(1))
qed

interpretation layout: local_update "sheetView layoutPart" "sheetView besideLayout" idsOk layoutOnly
    "applyStructuralChange numStr toNum" for numStr toNum
  by unfold_locales (rule layoutChange_local layoutChange_frame applyStructuralChange_ok [THEN conjunct1]; assumption)+

section \<open>Plan and apply agree\<close>

text \<open>Operations that neither shift the grid nor build a chart from cells.\<close>

fun separable :: "PrimitiveOperation \<Rightarrow> bool" where
  "separable (Structural op') = False"
| "separable (Layout l) = (\<not> buildsChart l)"
| "separable _ = True"

text \<open>Each list of changes, run alone on the snapshot, gives its part of the working copy.\<close>

definition agrees :: "(real \<Rightarrow> string) \<Rightarrow> (string \<Rightarrow> js_number) \<Rightarrow> WorkbookSnapshot \<Rightarrow> Planning \<Rightarrow> bool" where
  "agrees numStr toNum snap pl \<longleftrightarrow>
     (\<exists>r. foldE applyRename snap (plRenames pl) = Inr r \<and> sheetView namePart r = sheetView namePart (working pl))
   \<and> (\<exists>l. foldE (applyStructuralChange numStr toNum) snap (plStructural pl) = Inr l
        \<and> sheetView layoutPart l = sheetView layoutPart (working pl))
   \<and> (\<exists>c. foldE applyCellChange snap (plCells pl) = Inr c \<and> sheetView wsCells c = sheetView wsCells (working pl))
   \<and> (\<exists>t. foldE applyFormatChange snap (plFormats pl) = Inr t \<and> sheetView wsStyles t = sheetView wsStyles (working pl))
   \<and> (\<forall>c\<in>set (plStructural pl). layoutOnly c) \<and> idsOk (working pl) \<and> idsOk snap"

lemma sheetView_triple:
  assumes "sheetView (\<lambda>s. (f s, g s, h s)) a = sheetView (\<lambda>s. (f s, g s, h s)) b"
  shows "sheetView f a = sheetView f b \<and> sheetView g a = sheetView g b \<and> sheetView h a = sheetView h b"
  using sheetView_proj [OF assms, of fst] sheetView_proj [OF assms, of "fst \<circ> snd"] sheetView_proj [OF assms, of "snd \<circ> snd"]
  by simp

lemma agrees_cells:
  assumes "agrees numStr toNum snap pl" "foldE applyCellChange (working pl) cs = Inr w"
  shows "agrees numStr toNum snap (pl\<lparr>working := w, plCells := plCells pl @ cs\<rparr>)"
proof -
  from assms(1) obtain c where c: "foldE applyCellChange snap (plCells pl) = Inr c"
    "sheetView wsCells c = sheetView wsCells (working pl)" "idsOk (working pl)" "idsOk snap"
    unfolding agrees_def by blast
  have "idsOk c" using cellWrites.run_keeps [OF c(1)] c(4) by simp
  from cellWrites.run_append [OF c(1,2) assms(2) _ this]
  have own: "\<exists>c'. foldE applyCellChange snap (plCells pl @ cs) = Inr c' \<and> sheetView wsCells c' = sheetView wsCells w" by simp
  have rest: "sheetView (\<lambda>s. (namePart s, layoutPart s, wsStyles s)) w
      = sheetView (\<lambda>s. (namePart s, layoutPart s, wsStyles s)) (working pl) \<and> idsOk w"
    using cellWrites.run_keeps [OF assms(2)] c(3) by simp
  from sheetView_triple [OF conjunct1 [OF rest]] rest own assms(1) show ?thesis by (simp add: agrees_def)
qed

lemma agrees_rename:
  assumes "agrees numStr toNum snap pl" "applyRename (working pl) r = Inr w"
  shows "agrees numStr toNum snap (pl\<lparr>working := w, plRenames := plRenames pl @ [r]\<rparr>)"
proof -
  from assms(1) obtain c where c: "foldE applyRename snap (plRenames pl) = Inr c"
    "sheetView namePart c = sheetView namePart (working pl)" "idsOk (working pl)" "idsOk snap"
    unfolding agrees_def by blast
  have run: "foldE applyRename (working pl) [r] = Inr w" using assms(2) by simp
  have "idsOk c" using renames.run_keeps [OF c(1)] c(4) by simp
  from renames.run_append [OF c(1,2) run _ this]
  have own: "\<exists>c'. foldE applyRename snap (plRenames pl @ [r]) = Inr c' \<and> sheetView namePart c' = sheetView namePart w" by simp
  have rest: "sheetView (\<lambda>s. (layoutPart s, wsCells s, wsStyles s)) w
      = sheetView (\<lambda>s. (layoutPart s, wsCells s, wsStyles s)) (working pl) \<and> idsOk w"
    using renames.run_keeps [OF run] c(3) by simp
  from sheetView_triple [OF conjunct1 [OF rest]] rest own assms(1) show ?thesis by (simp add: agrees_def)
qed

lemma agrees_format:
  assumes "agrees numStr toNum snap pl" "applyFormatChange (working pl) r = Inr w"
  shows "agrees numStr toNum snap (pl\<lparr>working := w, plFormats := plFormats pl @ [r]\<rparr>)"
proof -
  from assms(1) obtain c where c: "foldE applyFormatChange snap (plFormats pl) = Inr c"
    "sheetView wsStyles c = sheetView wsStyles (working pl)" "idsOk (working pl)" "idsOk snap"
    unfolding agrees_def by blast
  have run: "foldE applyFormatChange (working pl) [r] = Inr w" using assms(2) by simp
  have "idsOk c" using formats.run_keeps [OF c(1)] c(4) by simp
  from formats.run_append [OF c(1,2) run _ this]
  have own: "\<exists>c'. foldE applyFormatChange snap (plFormats pl @ [r]) = Inr c' \<and> sheetView wsStyles c' = sheetView wsStyles w" by simp
  have rest: "sheetView (\<lambda>s. (namePart s, layoutPart s, wsCells s)) w
      = sheetView (\<lambda>s. (namePart s, layoutPart s, wsCells s)) (working pl) \<and> idsOk w"
    using formats.run_keeps [OF run] c(3) by simp
  from sheetView_triple [OF conjunct1 [OF rest]] rest own assms(1) show ?thesis by (simp add: agrees_def)
qed

lemma agrees_layout:
  assumes "agrees numStr toNum snap pl" "applyStructuralChange numStr toNum (working pl) r = Inr w" "layoutOnly r"
  shows "agrees numStr toNum snap (pl\<lparr>working := w, plStructural := plStructural pl @ [r]\<rparr>)"
proof -
  from assms(1) obtain c where c: "foldE (applyStructuralChange numStr toNum) snap (plStructural pl) = Inr c"
    "sheetView layoutPart c = sheetView layoutPart (working pl)" "idsOk (working pl)" "idsOk snap"
    "\<forall>c\<in>set (plStructural pl). layoutOnly c"
    unfolding agrees_def by blast
  have run: "foldE (applyStructuralChange numStr toNum) (working pl) [r] = Inr w" using assms(2) by simp
  have "idsOk c" using layout.run_keeps [OF c(1,5)] c(4) by simp
  from layout.run_append [OF c(1,2) run _ this] assms(3)
  have own: "\<exists>c'. foldE (applyStructuralChange numStr toNum) snap (plStructural pl @ [r]) = Inr c'
    \<and> sheetView layoutPart c' = sheetView layoutPart w" by simp
  have rest: "sheetView besideLayout w = sheetView besideLayout (working pl) \<and> idsOk w"
    using layout.run_keeps [OF run] c(3) assms(3) by simp
  from sheetView_triple [OF conjunct1 [OF rest]] rest own assms(1,3) show ?thesis by (simp add: agrees_def)
qed

text \<open>The operations that edit cells only push cell changes.\<close>

lemma pushes_agree:
  assumes "foldE pushChange pl cs = Inr pl'" "agrees numStr toNum snap pl"
  shows "agrees numStr toNum snap pl'"
  using assms(1) agrees_cells [OF assms(2)] by (auto simp: foldE_pushChange)

lemma pushChange_agrees:
  assumes "pushChange pl c = Inr pl'" "agrees numStr toNum snap pl"
  shows "agrees numStr toNum snap pl'"
  using pushes_agree [OF _ assms(2), of "[c]"] assms(1) by simp

lemma planFill_pushes: "planFill pl op' = Inr pl' \<Longrightarrow> \<exists>cs. foldE pushChange pl cs = Inr pl'"
  by (auto simp: planFill_def res_simps)

lemma planCopy_pushes: "planCopy numStr pl op' = Inr pl' \<Longrightarrow> \<exists>cs. foldE pushChange pl cs = Inr pl'"
  by (auto simp: planCopy_def res_simps conflict_def split: option.splits)

lemma planClear_pushes: "planClear pl sid rng = Inr pl' \<Longrightarrow> \<exists>cs. foldE pushChange pl cs = Inr pl'"
  by (auto simp: planClear_def res_simps)

lemma planContent_pushes: "planContent pl c = Inr pl' \<Longrightarrow> \<exists>c. pushChange pl c = Inr pl'"
  by (cases c) (auto simp: res_simps Let_def)

lemma planLayout_agrees:
  assumes "planLayout numStr toNum pl l = Inr pl'" "agrees numStr toNum snap pl" "\<not> buildsChart l"
  shows "agrees numStr toNum snap pl'"
proof -
  from assms(1) obtain w label where "applyLayoutOp numStr toNum (working pl) l = Inr w"
    "pl' = pl\<lparr>working := w, plStructural := plStructural pl @ [\<lparr>scOp = Layout l, scLabel = label\<rparr>]\<rparr>"
    by (auto simp: planLayout_def res_simps)
  with agrees_layout [OF assms(2), of "\<lparr>scOp = Layout l, scLabel = label\<rparr>" w] assms(3) show ?thesis
    by (simp add: applyStructuralChange_def layoutOnly_def)
qed

lemma planFormat_agrees:
  assumes "planFormat numStr pl sid rng format = Inr pl'" "agrees numStr toNum snap pl"
  shows "agrees numStr toNum snap pl'"
proof -
  from assms(1) obtain w label where "applyFormatRange (working pl) sid rng format = Inr w"
    "pl' = pl\<lparr>working := w, plFormats := plFormats pl @
       [\<lparr>fcSheetId = sid, fcRange = rng, fcFormat = format, fcLabel = label\<rparr>]\<rparr>"
    by (auto simp: planFormat_def res_simps)
  with agrees_format [OF assms(2), of "\<lparr>fcSheetId = sid, fcRange = rng, fcFormat = format, fcLabel = label\<rparr>" w]
  show ?thesis by (simp add: applyFormatChange_def)
qed

lemma planRename_agrees:
  assumes "planRename pl sid name = Inr pl'" "agrees numStr toNum snap pl"
  shows "agrees numStr toNum snap pl'"
proof -
  from assms(1) obtain sheet where sheet: "findSheet (working pl) sid = Inr sheet"
    "pl' = pl\<lparr>plRenames := plRenames pl @ [\<lparr>srSheetId = wsId sheet, srBefore = wsName sheet, srAfter = name\<rparr>],
        working := replaceSheet (working pl) (sheet\<lparr>wsName := name\<rparr>)\<rparr>"
    by (auto simp: planRename_def res_simps)
  with findSheet_id [OF sheet(1)]
  have "applyRename (working pl) \<lparr>srSheetId = wsId sheet, srBefore = wsName sheet, srAfter = name\<rparr>
      = Inr (replaceSheet (working pl) (sheet\<lparr>wsName := name\<rparr>))"
    by (simp add: applyRename_def)
  from agrees_rename [OF assms(2) this] sheet(2) show ?thesis by (simp add: agrees_def)
qed

lemma planOperation_agrees:
  assumes "planOperation numStr toNum pl p = Inr pl'" "agrees numStr toNum snap pl" "separable p"
  shows "agrees numStr toNum snap pl'"
  using assms
  by (cases p) (auto dest!: planFill_pushes planCopy_pushes planClear_pushes planContent_pushes
      intro: pushes_agree pushChange_agrees planLayout_agrees planFormat_agrees planRename_agrees)

lemma agrees_apply:
  assumes "agrees numStr toNum snap pl"
    and p: "sheetRenames p = plRenames pl" "structuralChanges p = plStructural pl" "cellChanges p = plCells pl"
      "formatChanges p = plFormats pl"
  shows "applyChanges numStr toNum snap p = Inr (working pl)"
proof -
  from assms(1) obtain r l c t where
    r: "foldE applyRename snap (plRenames pl) = Inr r" "sheetView namePart r = sheetView namePart (working pl)" and
    l: "foldE (applyStructuralChange numStr toNum) snap (plStructural pl) = Inr l"
      "sheetView layoutPart l = sheetView layoutPart (working pl)" and
    c: "foldE applyCellChange snap (plCells pl) = Inr c" "sheetView wsCells c = sheetView wsCells (working pl)" and
    t: "foldE applyFormatChange snap (plFormats pl) = Inr t" "sheetView wsStyles t = sheetView wsStyles (working pl)" and
    ok: "\<forall>c\<in>set (plStructural pl). layoutOnly c" "idsOk snap"
    unfolding agrees_def by blast
  have r': "sheetView (\<lambda>s. (layoutPart s, wsCells s, wsStyles s)) r = sheetView (\<lambda>s. (layoutPart s, wsCells s, wsStyles s)) snap"
    "idsOk r"
    using renames.run_keeps [OF r(1)] ok(2) by auto
  note r'' = sheetView_triple [OF r'(1)]
  obtain s2 where s2: "foldE (applyStructuralChange numStr toNum) r (plStructural pl) = Inr s2"
    "sheetView layoutPart s2 = sheetView layoutPart l" "sheetView besideLayout s2 = sheetView besideLayout r" "idsOk s2"
    using layout.run_from [OF l(1) ok(1) _ r'(2)] r'' by auto
  note s2' = sheetView_triple [OF s2(3)]
  obtain s3 where s3: "foldE applyCellChange s2 (plCells pl) = Inr s3" "sheetView wsCells s3 = sheetView wsCells c"
    "sheetView (\<lambda>s. (namePart s, layoutPart s, wsStyles s)) s3 = sheetView (\<lambda>s. (namePart s, layoutPart s, wsStyles s)) s2"
    "idsOk s3"
    using cellWrites.run_from [OF c(1) _ _ s2(4)] r'' s2' by auto
  note s3' = sheetView_triple [OF s3(3)]
  obtain s4 where s4: "foldE applyFormatChange s3 (plFormats pl) = Inr s4" "sheetView wsStyles s4 = sheetView wsStyles t"
    "sheetView (\<lambda>s. (namePart s, layoutPart s, wsCells s)) s4 = sheetView (\<lambda>s. (namePart s, layoutPart s, wsCells s)) s3"
    using formats.run_from [OF t(1) _ _ s3(4)] r'' s2' s3' by auto
  note s4' = sheetView_triple [OF s4(3)]
  have "s4 = working pl"
    by (rule sheets_eqI) (use r l c t s2 s2' s3 s3' s4 s4' in simp_all)
  with r s2 s3 s4 p show ?thesis by (simp add: applyChanges_def)
qed

text \<open>A batch of structural operations only is replayed as it was planned.\<close>

definition structuralOnly :: "(real \<Rightarrow> string) \<Rightarrow> (string \<Rightarrow> js_number) \<Rightarrow> WorkbookSnapshot \<Rightarrow> Planning \<Rightarrow> bool" where
  "structuralOnly numStr toNum snap pl \<longleftrightarrow> plRenames pl = [] \<and> plCells pl = [] \<and> plFormats pl = []
     \<and> foldE (applyStructuralChange numStr toNum) snap (plStructural pl) = Inr (working pl)"

lemma planOperation_structuralOnly:
  assumes "planOperation numStr toNum pl p = Inr pl'" "structuralOnly numStr toNum snap pl" "isStructuralOp p"
  shows "structuralOnly numStr toNum snap pl'"
proof -
  from assms(3) obtain s where s: "p = Structural s" by (auto simp: isStructuralOp_iff)
  with assms(1) show ?thesis
    using assms(2) by (auto simp: planStructural_def res_simps structuralOnly_def foldE_append applyStructuralChange_def
        split: prod.splits)
qed

text \<open>What \<open>plan\<close> previewed is what \<open>apply\<close> commits.\<close>

lemma planOperations_applied:
  assumes run: "planOperations numStr toNum lc snap ops = Inr pl"
    and prims: "expandToPrimitiveOps numStr lc ops (Some (readCellOf snap)) = Inr ps"
    and sep: "list_all separable ps \<or> list_all isStructuralOp ps" and ok: "idsOk snap"
    and p: "sheetRenames p = plRenames pl" "structuralChanges p = plStructural pl" "cellChanges p = plCells pl"
      "formatChanges p = plFormats pl"
  shows "applyChanges numStr toNum snap p = Inr (working pl)"
proof -
  let ?start = "\<lparr>working = snap, plCells = [], plRenames = [], plStructural = [], plFormats = [], plWarnings = []\<rparr>"
  have fold: "foldE (planOperation numStr toNum) ?start ps = Inr pl"
    using run prims by (simp add: planOperations_def)
  from sep show ?thesis
  proof
    assume sep: "list_all separable ps"
    have "agrees numStr toNum snap ?start" using ok by (simp add: agrees_def)
    then have "agrees numStr toNum snap pl"
      using sep by - (rule foldE_inv [OF fold], auto simp: list_all_iff dest: planOperation_agrees)
    from agrees_apply [OF this p] show ?thesis .
  next
    assume str: "list_all isStructuralOp ps"
    have "structuralOnly numStr toNum snap ?start" by (simp add: structuralOnly_def)
    then have "structuralOnly numStr toNum snap pl"
      using str by - (rule foldE_inv [OF fold], auto simp: list_all_iff dest: planOperation_structuralOnly)
    with p show ?thesis by (simp add: structuralOnly_def applyChanges_def)
  qed
qed

end
