(* ===== verification/WorkbookShift.thy ===== *)
theory WorkbookShift
  imports WorkbookSheets
begin

text \<open>
  What inserting and deleting rows and columns does to a workbook: the cells move as the
  references do (\<open>shiftPosition_spec\<close>), a record of cells is the list of its moved entries, an
  insert followed by its delete gives the record back, and the whole operation is one map over
  the sheets.
\<close>

section \<open>Positions\<close>

definition movePos :: "ShiftSpec \<Rightarrow> int \<times> int \<Rightarrow> (int \<times> int) option" where
  "movePos spec p =
     (if axis spec = RowAxis then map_option (\<lambda>r. (r, snd p)) (shiftIndex (fst p) spec)
      else map_option (\<lambda>c. (fst p, c)) (shiftIndex (snd p) spec))"

text \<open>The loop over the cells and the shift of references agree on where a position goes.\<close>

lemma shiftPosition_spec:
  assumes "shiftSpecForOp op' = Inr (Some spec)" "structuralOk op'"
  shows "shiftPosition op' row column = Inr (movePos spec (row, column))"
proof (cases op')
  case (InsertRows s r n)
  with assms have "spec = \<lparr>axis = RowAxis, shiftStart = r - 1, shiftDelta = n\<rparr>" "0 < n"
    by (auto simp: insertRowsOk_def intIn_def)
  with InsertRows show ?thesis by (simp add: movePos_def shiftIndex_def)
next
  case (DeleteRows s r n)
  with assms have "spec = \<lparr>axis = RowAxis, shiftStart = r - 1, shiftDelta = - n\<rparr>" "0 < n"
    by (auto simp: deleteRowsOk_def intIn_def)
  with DeleteRows show ?thesis by (simp add: movePos_def shiftIndex_def)
next
  case (InsertCols s c n)
  with assms obtain k where "columnIndex c = Inr k" "spec = \<lparr>axis = ColumnAxis, shiftStart = k, shiftDelta = n\<rparr>" "0 < n"
    by (auto simp: insertColsOk_def intIn_def res_simps)
  with InsertCols show ?thesis by (simp add: movePos_def shiftIndex_def)
next
  case (DeleteCols s c n)
  with assms obtain k where "columnIndex c = Inr k" "spec = \<lparr>axis = ColumnAxis, shiftStart = k, shiftDelta = - n\<rparr>" "0 < n"
    by (auto simp: deleteColsOk_def intIn_def res_simps)
  with DeleteCols show ?thesis by (simp add: movePos_def shiftIndex_def)
qed (use assms in auto)

lemma movePos_inj:
  "movePos spec p = Some q \<Longrightarrow> movePos spec p' = Some q \<Longrightarrow> shiftDelta spec \<noteq> 0 \<Longrightarrow> p = p'"
  by (cases p; cases p') (auto simp: movePos_def split: if_splits dest: shiftIndex_inj)

lemma movePos_nonneg:
  "movePos spec (r, c) = Some (r', c') \<Longrightarrow> 0 \<le> r \<Longrightarrow> 0 \<le> c \<Longrightarrow> 0 \<le> shiftStart spec \<Longrightarrow> 0 \<le> r' \<and> 0 \<le> c'"
  by (auto simp: movePos_def split: if_splits dest: shiftIndex_nonneg)

section \<open>Records of cells\<close>

text \<open>The records of the application: distinct keys, each the address of a cell.\<close>

definition posOf :: "string \<Rightarrow> int \<times> int" where
  "posOf a = (case parseAddress a of Inr p \<Rightarrow> (cellRow p, cellColumn p) | Inl _ \<Rightarrow> (0, 0))"

definition isAddress :: "string \<Rightarrow> bool" where
  "isAddress a \<longleftrightarrow> (\<exists>r c. 0 \<le> r \<and> 0 \<le> c \<and> a = formatAddress r c)"

definition cellRecord :: "'v obj \<Rightarrow> bool" where
  "cellRecord rec \<longleftrightarrow> wfObj rec \<and> (\<forall>a\<in>fst ` set rec. isAddress a)"

lemma posOf_format [simp]: "0 \<le> r \<Longrightarrow> 0 \<le> c \<Longrightarrow> posOf (formatAddress r c) = (r, c)"
  by (simp add: posOf_def parseAddress_formatAddress)

lemma isAddress_parse: "isAddress a \<Longrightarrow> parseAddress a = Inr \<lparr>cellRow = fst (posOf a), cellColumn = snd (posOf a)\<rparr>"
  by (auto simp: isAddress_def parseAddress_formatAddress)

lemma posOf_inj: "isAddress a \<Longrightarrow> isAddress b \<Longrightarrow> posOf a = posOf b \<Longrightarrow> a = b"
  by (auto simp: isAddress_def)

definition movedEntry :: "ShiftSpec \<Rightarrow> string \<times> 'v \<Rightarrow> (string \<times> 'v) option" where
  "movedEntry spec e = map_option (\<lambda>(r, c). (formatAddress r c, snd e)) (movePos spec (posOf (fst e)))"

definition movedRecord :: "ShiftSpec \<Rightarrow> 'v obj \<Rightarrow> 'v obj" where
  "movedRecord spec rec = List.map_filter (movedEntry spec) rec"

lemma movedRecord_simps [simp]:
  "movedRecord spec [] = []"
  "movedRecord spec (e # rec) = (case movedEntry spec e of None \<Rightarrow> movedRecord spec rec | Some e' \<Rightarrow> e' # movedRecord spec rec)"
  by (simp_all add: movedRecord_def map_filter_simps split: option.split)

lemma movedEntry_Some:
  assumes "movedEntry spec e = Some e'" "isAddress (fst e)" "0 \<le> shiftStart spec"
  shows "isAddress (fst e') \<and> movePos spec (posOf (fst e)) = Some (posOf (fst e')) \<and> snd e' = snd e"
proof -
  from assms(1) obtain r' c' where m: "movePos spec (posOf (fst e)) = Some (r', c')"
    and e': "e' = (formatAddress r' c', snd e)" by (auto simp: movedEntry_def)
  obtain r c where rc: "posOf (fst e) = (r, c)" "0 \<le> r" "0 \<le> c" using assms(2) by (auto simp: isAddress_def)
  with m movePos_nonneg assms(3) have "0 \<le> r'" "0 \<le> c'" by auto
  with m e' show ?thesis by (auto simp: isAddress_def)
qed

lemma movedRecord_mem:
  "(a', v) \<in> set (movedRecord spec rec) \<longleftrightarrow> (\<exists>a. (a, v) \<in> set rec \<and> movedEntry spec (a, v) = Some (a', v))"
proof (induction rec)
  case (Cons e rec)
  obtain a w where e: "e = (a, w)" by (cases e)
  have sv: "snd e' = w" if "movedEntry spec e = Some e'" for e' using that e by (auto simp: movedEntry_def)
  show ?case using Cons sv e by (cases "movedEntry spec e") auto
qed simp

lemma movedRecord_cellRecord:
  assumes "cellRecord rec" "0 \<le> shiftStart spec" "shiftDelta spec \<noteq> 0"
  shows "cellRecord (movedRecord spec rec)"
  using assms(1)
proof (induction rec)
  case (Cons e rec)
  then have IH: "cellRecord (movedRecord spec rec)" and e: "isAddress (fst e)"
    and new: "fst e \<notin> fst ` set rec" and all: "\<forall>a\<in>fst ` set rec. isAddress a"
    by (auto simp: cellRecord_def wfObj_def)
  show ?case
  proof (cases "movedEntry spec e")
    case (Some e')
    have "fst e' \<notin> fst ` set (movedRecord spec rec)"
    proof
      assume "fst e' \<in> fst ` set (movedRecord spec rec)"
      then obtain v where "(fst e', v) \<in> set (movedRecord spec rec)" by force
      then obtain a where a: "(a, v) \<in> set rec" "movedEntry spec (a, v) = Some (fst e', v)"
        by (auto simp: movedRecord_mem)
      have aa: "isAddress a" using a(1) all by force
      have "posOf a = posOf (fst e)"
        using movedEntry_Some [OF Some e assms(2)] movedEntry_Some [OF a(2) _ assms(2)] aa
          movePos_inj [OF _ _ assms(3)] by auto
      then have "a = fst e" using posOf_inj aa e by blast
      then show False using new a(1) by (metis fst_conv image_eqI)
    qed
    with Some IH movedEntry_Some [OF Some e assms(2)] show ?thesis
      by (auto simp: cellRecord_def wfObj_def)
  qed (use IH in simp)
qed (simp add: cellRecord_def)

lemma update_new: "k \<notin> fst ` set rec \<Longrightarrow> AList.update k v rec = rec @ [(k, v)]"
  by (induction rec) auto

definition shiftEntry :: "StructuralOperation \<Rightarrow> 'v obj \<Rightarrow> string \<times> 'v \<Rightarrow> js_error + 'v obj" where
  "shiftEntry op' next e = (case e of (address, value) \<Rightarrow>
       bindE (parseAddress address) (\<lambda>p.
       bindE (shiftPosition op' (cellRow p) (cellColumn p)) (\<lambda>moved.
         case moved of
           None \<Rightarrow> Inr next
         | Some (row, column) \<Rightarrow> Inr (AList.update (formatAddress row column) value next))))"

lemma shiftAddressedRecord_fold: "shiftAddressedRecord rec op' = foldE (shiftEntry op') [] rec"
  unfolding shiftAddressedRecord_def shiftEntry_def by (rule refl)

lemma shiftEntry_moved:
  assumes spec: "shiftSpecForOp op' = Inr (Some spec)" "structuralOk op'" and "isAddress (fst e)"
    and new: "\<And>e'. movedEntry spec e = Some e' \<Longrightarrow> fst e' \<notin> fst ` set acc"
  shows "shiftEntry op' acc e = Inr (case movedEntry spec e of None \<Rightarrow> acc | Some e' \<Rightarrow> acc @ [e'])"
proof -
  obtain a v where e: "e = (a, v)" by (cases e)
  have p: "parseAddress a = Inr \<lparr>cellRow = fst (posOf a), cellColumn = snd (posOf a)\<rparr>"
    using assms(3) e isAddress_parse by simp
  have "shiftPosition op' (fst (posOf a)) (snd (posOf a)) = Inr (movePos spec (posOf a))"
    using shiftPosition_spec [OF spec, of "fst (posOf a)" "snd (posOf a)"] by simp
  then show ?thesis
    using p e new update_new [of _ acc v] by (auto simp: shiftEntry_def movedEntry_def split: option.split)
qed

lemma shiftAddressed_fold:
  assumes spec: "shiftSpecForOp op' = Inr (Some spec)" "structuralOk op'"
    and "\<forall>a\<in>fst ` set rec. isAddress a" "wfObj (acc @ movedRecord spec rec)"
  shows "foldE (shiftEntry op') acc rec = Inr (acc @ movedRecord spec rec)"
  using assms(3,4)
proof (induction rec arbitrary: acc)
  case (Cons e rec)
  have "fst e' \<notin> fst ` set acc" if "movedEntry spec e = Some e'" for e'
    using Cons.prems(2) that by (auto simp: wfObj_def)
  then have step: "shiftEntry op' acc e = Inr (case movedEntry spec e of None \<Rightarrow> acc | Some e' \<Rightarrow> acc @ [e'])"
    by (intro shiftEntry_moved [OF spec]) (use Cons.prems(1) in simp_all)
  show ?case
  proof (cases "movedEntry spec e")
    case None
    with step Cons show ?thesis by simp
  next
    case (Some e')
    with Cons.prems have "wfObj ((acc @ [e']) @ movedRecord spec rec)" by (simp add: wfObj_def)
    with Cons.IH [of "acc @ [e']"] Cons.prems(1) step Some show ?thesis by simp
  qed
qed simp

text \<open>\<open>shiftAddressedRecord\<close> keeps the order and moves each entry.\<close>

lemma shiftAddressedRecord_moved:
  assumes "shiftSpecForOp op' = Inr (Some spec)" "structuralOk op'" "cellRecord rec"
  shows "shiftAddressedRecord rec op' = Inr (movedRecord spec rec)"
proof -
  have "cellRecord (movedRecord spec rec)"
    using movedRecord_cellRecord [OF assms(3)] shiftSpec_delta [OF assms(2,1)] by blast
  then show ?thesis
    using shiftAddressed_fold [OF assms(1,2), of rec "[]"] assms(3)
    by (simp add: shiftAddressedRecord_fold cellRecord_def)
qed

lemma movedRecord_lookup:
  assumes "cellRecord rec" "0 \<le> shiftStart spec" "shiftDelta spec \<noteq> 0"
    and "movePos spec (r, c) = Some (r', c')" "0 \<le> r" "0 \<le> c"
  shows "map_of (movedRecord spec rec) (formatAddress r' c') = map_of rec (formatAddress r c)"
proof -
  have wf: "distinct (map fst rec)" "distinct (map fst (movedRecord spec rec))"
    using assms(1) movedRecord_cellRecord [OF assms(1-3)] by (simp_all add: cellRecord_def wfObj_def)
  have pos: "0 \<le> r'" "0 \<le> c'" using movePos_nonneg [OF assms(4-6,2)] by simp_all
  have "(formatAddress r' c', v) \<in> set (movedRecord spec rec) \<longleftrightarrow> (formatAddress r c, v) \<in> set rec" for v
  proof
    assume "(formatAddress r' c', v) \<in> set (movedRecord spec rec)"
    then obtain a where a: "(a, v) \<in> set rec" "movedEntry spec (a, v) = Some (formatAddress r' c', v)"
      by (auto simp: movedRecord_mem)
    have aa: "isAddress a" using a(1) assms(1) by (force simp: cellRecord_def)
    have "movePos spec (posOf a) = Some (r', c')" using movedEntry_Some [OF a(2) _ assms(2)] aa pos by simp
    then have "posOf a = (r, c)" using movePos_inj assms(3,4) by blast
    then have "a = formatAddress r c" using posOf_inj [OF aa, of "formatAddress r c"] assms(5,6)
      by (auto simp: isAddress_def)
    with a show "(formatAddress r c, v) \<in> set rec" by simp
  next
    assume "(formatAddress r c, v) \<in> set rec"
    then show "(formatAddress r' c', v) \<in> set (movedRecord spec rec)"
      using assms(4-6) by (auto simp: movedRecord_mem movedEntry_def)
  qed
  then show ?thesis using wf by (metis (no_types) map_of_eq_Some_iff not_None_eq)
qed

text \<open>A position that nothing moves to is empty afterwards.\<close>

lemma movedRecord_empty:
  assumes "cellRecord rec" "0 \<le> shiftStart spec" "0 \<le> r'" "0 \<le> c'"
    and "\<forall>r c. movePos spec (r, c) \<noteq> Some (r', c')"
  shows "map_of (movedRecord spec rec) (formatAddress r' c') = None"
proof (rule ccontr)
  assume "map_of (movedRecord spec rec) (formatAddress r' c') \<noteq> None"
  then obtain v where "(formatAddress r' c', v) \<in> set (movedRecord spec rec)" by (auto dest: map_of_SomeD)
  then obtain a where a: "(a, v) \<in> set rec" "movedEntry spec (a, v) = Some (formatAddress r' c', v)"
    by (auto simp: movedRecord_mem)
  have "isAddress a" using a(1) assms(1) by (force simp: cellRecord_def)
  with movedEntry_Some [OF a(2) _ assms(2)] assms(3-5) show False by (cases "posOf a") auto
qed

section \<open>Deleting what was inserted\<close>

lemma movePos_back:
  assumes "movePos \<lparr>axis = x, shiftStart = k, shiftDelta = n\<rparr> p = Some q" "0 < n"
  shows "movePos \<lparr>axis = x, shiftStart = k, shiftDelta = - n\<rparr> q = Some p"
  using assms by (cases p) (auto simp: movePos_def split: if_splits dest: delete_undoes_insert [OF assms(2)])

lemma movePos_insert: "0 < shiftDelta spec \<Longrightarrow> \<exists>q. movePos spec p = Some q"
  by (auto simp: movePos_def shiftIndex_def)

lemma movedRecord_back:
  assumes "\<forall>a\<in>fst ` set rec. isAddress a" "0 < n" "0 \<le> k"
  shows "movedRecord \<lparr>axis = x, shiftStart = k, shiftDelta = - n\<rparr>
    (movedRecord \<lparr>axis = x, shiftStart = k, shiftDelta = n\<rparr> rec) = rec"
  using assms(1)
proof (induction rec)
  case (Cons e rec)
  let ?ins = "\<lparr>axis = x, shiftStart = k, shiftDelta = n\<rparr>" and ?del = "\<lparr>axis = x, shiftStart = k, shiftDelta = - n\<rparr>"
  have e: "isAddress (fst e)" using Cons.prems by simp
  obtain e' where e': "movedEntry ?ins e = Some e'"
    using movePos_insert [of ?ins "posOf (fst e)"] assms(2) by (auto simp: movedEntry_def)
  have *: "isAddress (fst e')" "movePos ?ins (posOf (fst e)) = Some (posOf (fst e'))" "snd e' = snd e"
    using movedEntry_Some [OF e' e] assms(3) by auto
  obtain r c where rc: "fst e = formatAddress r c" "0 \<le> r" "0 \<le> c" using e by (auto simp: isAddress_def)
  have "movedEntry ?del e' = Some e"
    using movePos_back [OF *(2) assms(2)] * rc by (cases e) (simp add: movedEntry_def)
  with e' Cons show ?case by simp
qed simp

end
