(* ===== verification/WorkbookGrid.thy ===== *)
theory WorkbookGrid
  imports WorkbookShift
begin

text \<open>
  A structural operation on rows or columns as one map over the sheets: the cells of its sheet
  move, and every formula of the workbook has its references shifted.
\<close>

section \<open>The formulas of one sheet\<close>

definition shiftedCell :: "StructuralOperation \<Rightarrow> bool \<Rightarrow> string \<Rightarrow> CellState \<Rightarrow> CellState" where
  "shiftedCell op' onSheet name cell =
     (case formulaOf cell of
        None \<Rightarrow> cell
      | Some f \<Rightarrow> (case shiftFormulaRefs f op' onSheet name of
          Inr r \<Rightarrow> cell\<lparr>formula := Some (shiftedFormula r)\<rparr> | Inl _ \<Rightarrow> cell))"

definition shiftedCells :: "StructuralOperation \<Rightarrow> bool \<Rightarrow> string \<Rightarrow> CellState obj \<Rightarrow> CellState obj" where
  "shiftedCells op' onSheet name cells = map (\<lambda>(a, c). (a, shiftedCell op' onSheet name c)) cells"

lemma formulaOf_Some: "formulaOf cell = Some f \<Longrightarrow> formula cell = Some f"
  by (auto simp: formulaOf_def split: option.splits list.splits)

lemma cell_formula_same: "formula cell = Some f \<Longrightarrow> cell\<lparr>formula := Some f\<rparr> = cell"
  by (cases cell) simp

lemma update_at: "wfObj (xs @ (k, v) # ys) \<Longrightarrow> AList.update k w (xs @ (k, v) # ys) = xs @ (k, w) # ys"
  by (induction xs) (auto simp: wfObj_def)

lemma shiftCellFormula_step:
  assumes "shiftCellFormula op' sid name s st (a, cell) = Inr st'"
    and cur: "(case fst st of Some c \<Rightarrow> c | None \<Rightarrow> wsCells s) = xs @ (a, cell) # ys" and "wfObj (xs @ (a, cell) # ys)"
  shows "(case fst st' of Some c \<Rightarrow> c | None \<Rightarrow> wsCells s) = xs @ (a, shiftedCell op' (wsId s = sid) name cell) # ys"
proof (cases "formulaOf cell")
  case None
  with assms show ?thesis by (cases st) (auto simp: shiftCellFormula_def shiftedCell_def)
next
  case (Some f)
  obtain next' errs where st: "st = (next', errs)" by (cases st)
  from assms(1) Some st obtain r where r: "shiftFormulaRefs f op' (wsId s = sid) name = Inr r"
    by (auto simp: shiftCellFormula_def res_simps)
  show ?thesis
  proof (cases "changed r")
    case True
    with assms Some st r show ?thesis
      by (auto simp: shiftCellFormula_def shiftedCell_def update_at)
  next
    case False
    then have "shiftedCell op' (wsId s = sid) name cell = cell"
      using shiftFormulaRefs_unchanged [OF r] cell_formula_same [OF formulaOf_Some [OF Some]] Some r
      by (simp add: shiftedCell_def)
    with False assms Some st r show ?thesis by (auto simp: shiftCellFormula_def)
  qed
qed

lemma shiftSheetFormulas_rest:
  assumes "foldE (shiftCellFormula op' sid name s) st ys = Inr st'"
    and "(case fst st of Some c \<Rightarrow> c | None \<Rightarrow> wsCells s) = xs @ ys" and "wfObj (xs @ ys)"
  shows "(case fst st' of Some c \<Rightarrow> c | None \<Rightarrow> wsCells s) = xs @ shiftedCells op' (wsId s = sid) name ys"
  using assms
proof (induction ys arbitrary: st xs)
  case (Cons e ys)
  obtain a cell where e: "e = (a, cell)" by (cases e)
  from Cons.prems(1) e obtain st1 where st1: "shiftCellFormula op' sid name s st (a, cell) = Inr st1"
    "foldE (shiftCellFormula op' sid name s) st1 ys = Inr st'" by (auto simp: res_simps)
  let ?xs = "xs @ [(a, shiftedCell op' (wsId s = sid) name cell)]"
  have "(case fst st1 of Some c \<Rightarrow> c | None \<Rightarrow> wsCells s) = ?xs @ ys"
    using shiftCellFormula_step [OF st1(1)] Cons.prems(2,3) e by simp
  moreover have "wfObj (?xs @ ys)" using Cons.prems(3) e by (auto simp: wfObj_def)
  ultimately show ?case using Cons.IH [OF st1(2)] e by (simp add: shiftedCells_def)
qed (simp add: shiftedCells_def)

lemma shiftSheetFormulas_cells:
  assumes "shiftSheetFormulas op' sid name s = Inr (next', errs)" "wfObj (wsCells s)"
  shows "(case next' of Some c \<Rightarrow> c | None \<Rightarrow> wsCells s) = shiftedCells op' (wsId s = sid) name (wsCells s)"
  using shiftSheetFormulas_rest [of op' sid name s "(None, [])" "wsCells s" "(next', errs)" "[]"] assms
  by (simp add: shiftSheetFormulas_def)

section \<open>The formulas of the workbook\<close>

definition shiftedFormulas :: "StructuralOperation \<Rightarrow> string \<Rightarrow> string \<Rightarrow> WorksheetState \<Rightarrow> WorksheetState" where
  "shiftedFormulas op' sid name s = s\<lparr>wsCells := shiftedCells op' (wsId s = sid) name (wsCells s)\<rparr>"

lemma findIndex_nth:
  "distinct (map f xs) \<Longrightarrow> i < length xs \<Longrightarrow> f (xs ! i) = k \<Longrightarrow> findIndex (\<lambda>x. f x = k) xs = Some i"
proof (induction xs arbitrary: i)
  case (Cons a xs)
  show ?case
  proof (cases i)
    case 0
    with Cons.prems show ?thesis by simp
  next
    case (Suc j)
    with Cons have "findIndex (\<lambda>x. f x = k) xs = Some j" "f a \<noteq> k" by auto
    with Suc show ?thesis by simp
  qed
qed simp

lemma replaceSheet_nth:
  assumes "distinct (map wsId (sheets snap))" "i < length (sheets snap)" "wsId s' = wsId (sheets snap ! i)"
  shows "replaceSheet snap s' = snap\<lparr>sheets := (sheets snap)[i := s']\<rparr>"
  using findIndex_nth [OF assms(1,2), of "wsId s'"] assms(3) by (simp add: replaceSheet_def)

definition shiftSheetAt ::
  "StructuralOperation \<Rightarrow> string \<Rightarrow> string \<Rightarrow> WorkbookSnapshot \<times> string list \<Rightarrow> nat \<Rightarrow> js_error + WorkbookSnapshot \<times> string list" where
  "shiftSheetAt op' sid name = (\<lambda>(snap, refErrors) i.
       let candidate = sheets snap ! i in
       bindE (shiftSheetFormulas op' sid name candidate) (\<lambda>(nextCells, errs).
         Inr (case nextCells of None \<Rightarrow> snap | Some c \<Rightarrow> replaceSheet snap (candidate\<lparr>wsCells := c\<rparr>),
              refErrors @ errs)))"

lemma shiftAllFormulas_fold:
  "shiftAllFormulas snap op' sid name = foldE (shiftSheetAt op' sid name) (snap, []) [0..<length (sheets snap)]"
  unfolding shiftAllFormulas_def shiftSheetAt_def by (rule refl)

lemma shiftSheetAt_Inr:
  assumes "shiftSheetAt op' sid name (snap, e0) i = Inr r" "sheets snap ! i = s"
  obtains next' e1 where "shiftSheetFormulas op' sid name s = Inr (next', e1)"
    "r = (case next' of None \<Rightarrow> snap | Some c \<Rightarrow> replaceSheet snap (s\<lparr>wsCells := c\<rparr>), e0 @ e1)"
  using assms by (auto simp: shiftSheetAt_def Let_def res_simps)

lemma shiftAllFormulas_from:
  assumes "foldE (shiftSheetAt op' sid name) (snap, e0) [length xs..<length xs + length ys] = Inr (snap', errs)"
    and "sheets snap = xs @ ys" "distinct (map wsId (xs @ ys))" "\<forall>s\<in>set ys. wfObj (wsCells s)"
  shows "snap' = snap\<lparr>sheets := xs @ map (shiftedFormulas op' sid name) ys\<rparr>"
  using assms
proof (induction ys arbitrary: snap e0 xs)
  case (Cons s ys)
  have nth: "sheets snap ! length xs = s" using Cons.prems(2) by simp
  have "[length xs..<length xs + length (s # ys)] = length xs # [Suc (length xs)..<Suc (length xs) + length ys]"
    by (subst upt_rec) simp
  with Cons.prems(1) obtain r where r: "shiftSheetAt op' sid name (snap, e0) (length xs) = Inr r"
    and rest': "foldE (shiftSheetAt op' sid name) r [Suc (length xs)..<Suc (length xs) + length ys] = Inr (snap', errs)"
    by (auto simp only: foldE.simps res_simps)
  obtain next' e1 where s: "shiftSheetFormulas op' sid name s = Inr (next', e1)" and
    rr: "r = (case next' of None \<Rightarrow> snap | Some c \<Rightarrow> replaceSheet snap (s\<lparr>wsCells := c\<rparr>), e0 @ e1)"
    by (rule shiftSheetAt_Inr [OF r nth])
  note rest = rest' [unfolded rr]
  let ?s = "shiftedFormulas op' sid name s"
  have cells: "(case next' of Some c \<Rightarrow> c | None \<Rightarrow> wsCells s) = shiftedCells op' (wsId s = sid) name (wsCells s)"
    using shiftSheetFormulas_cells [OF s] Cons.prems(4) by simp
  have snap1: "(case next' of None \<Rightarrow> snap | Some c \<Rightarrow> replaceSheet snap (s\<lparr>wsCells := c\<rparr>))
      = snap\<lparr>sheets := (xs @ [?s]) @ ys\<rparr>"
  proof (cases next')
    case None
    with cells have "?s = s" by (cases s) (simp add: shiftedFormulas_def)
    with None Cons.prems(2) show ?thesis by (cases snap) simp
  next
    case (Some c)
    have "replaceSheet snap ?s = snap\<lparr>sheets := (sheets snap)[length xs := ?s]\<rparr>"
      by (rule replaceSheet_nth) (use Cons.prems(2,3) nth in \<open>simp_all add: shiftedFormulas_def\<close>)
    with Some cells Cons.prems(2) show ?thesis by (simp add: shiftedFormulas_def)
  qed
  have "distinct (map wsId ((xs @ [?s]) @ ys))" using Cons.prems(3) by (auto simp: shiftedFormulas_def)
  with Cons.IH [of "snap\<lparr>sheets := (xs @ [?s]) @ ys\<rparr>" "e0 @ e1" "xs @ [?s]"] rest [unfolded snap1] Cons.prems(4)
  show ?case by simp
qed auto

lemma shiftAllFormulas_map:
  assumes "shiftAllFormulas snap op' sid name = Inr (snap', errs)"
    and "distinct (map wsId (sheets snap))" "\<forall>s\<in>set (sheets snap). wfObj (wsCells s)"
  shows "snap' = snap\<lparr>sheets := map (shiftedFormulas op' sid name) (sheets snap)\<rparr>"
  using shiftAllFormulas_from [of op' sid name snap "[]" "[]" "sheets snap" snap' errs] assms
  by (simp add: shiftAllFormulas_fold)


section \<open>The whole operation\<close>

fun gridSheet :: "StructuralOperation \<Rightarrow> string" where
  "gridSheet (InsertRows s _ _) = s"
| "gridSheet (DeleteRows s _ _) = s"
| "gridSheet (InsertCols s _ _) = s"
| "gridSheet (DeleteCols s _ _) = s"
| "gridSheet _ = []"

text \<open>Snapshots as the application builds them: distinct sheet ids, cells and styles keyed by address.\<close>

definition sheetRecordsOk :: "WorksheetState \<Rightarrow> bool" where
  "sheetRecordsOk s \<longleftrightarrow> cellRecord (wsCells s) \<and> optOk cellRecord (wsStyles s)"

definition recordsOk :: "WorkbookSnapshot \<Rightarrow> bool" where
  "recordsOk snap \<longleftrightarrow> distinct (map wsId (sheets snap)) \<and> (\<forall>s\<in>set (sheets snap). sheetRecordsOk s)"

text \<open>What the operation leaves of a sheet's identity, cells, styles and charts.\<close>

definition gridView :: "WorksheetState \<Rightarrow> string \<times> string \<times> CellState obj \<times> CellFormatState obj option \<times> SheetVisual list option" where
  "gridView s = (wsId s, wsName s, wsCells s, wsStyles s, wsVisuals s)"

definition shiftedView :: "StructuralOperation \<Rightarrow> ShiftSpec \<Rightarrow> string \<Rightarrow> WorksheetState \<Rightarrow>
    string \<times> string \<times> CellState obj \<times> CellFormatState obj option \<times> SheetVisual list option" where
  "shiftedView op' spec name s =
     (let here = (wsId s = gridSheet op') in
      (wsId s, wsName s,
       shiftedCells op' here name (if here then movedRecord spec (wsCells s) else wsCells s),
       (if here then map_option (movedRecord spec) (wsStyles s) else wsStyles s), wsVisuals s))"

lemma shiftGrid_Inr:
  assumes "shiftGrid snap op' sid = Inr (snap', errs)" "shiftSpecForOp op' = Inr (Some spec)"
    and s: "findSheet snap sid = Inr sheet"
  obtains cells' styles' merges' rh cw where
    "shiftAddressedRecord (wsCells sheet) op' = Inr cells'"
    "mapOptE (\<lambda>r. shiftAddressedRecord r op') (wsStyles sheet) = Inr styles'"
    "mapOptE (mapE (\<lambda>m. shiftRangeString m spec)) (wsMerges sheet) = Inr merges'"
    "shiftAllFormulas (replaceSheet snap (sheet\<lparr>wsCells := cells', wsStyles := styles',
       wsMerges := map_option (\<lambda>ms. map the (filter (\<lambda>m. m \<noteq> None) ms)) merges',
       rowHeights := rh, colWidths := cw\<rparr>)) op' sid (wsName sheet) = Inr (snap', errs)"
proof -
  note run = assms(1) [unfolded shiftGrid_def]
  from run s assms(2) show thesis
    by (simp only: bindE_simps option.case) (auto simp only: bindE_Inr_iff intro: that)
qed

lemma applyStructuralOp_grid:
  "shiftSpecForOp op' = Inr (Some spec) \<Longrightarrow> applyStructuralOp snap op' = shiftGrid snap op' (gridSheet op')"
  by (cases op') auto

lemma snapshot_fields: "sheets (s\<lparr>sheets := x\<rparr>) = x" "revision (s\<lparr>sheets := x\<rparr>) = revision s"
  by simp_all

lemma map_eq_list_update:
  assumes "distinct (map f xs)" "i < length xs"
  shows "map g (xs[i := y]) = map (\<lambda>x. if f x = f (xs ! i) then g y else g x) xs"
proof -
  have "f (xs ! j) = f (xs ! i) \<longleftrightarrow> j = i" if "j < length xs" for j
    using nth_eq_iff_index_eq [OF assms(1), of j i] assms(2) that by simp
  then show ?thesis by (intro nth_equalityI) (auto simp: nth_list_update)
qed

lemma replaceSheet_map:
  assumes "distinct (map wsId (sheets snap))" "findSheet snap (wsId s') = Inr s"
  shows "sheets (replaceSheet snap s') = map (\<lambda>x. if wsId x = wsId s' then s' else x) (sheets snap)"
proof -
  from findSheet_id [OF assms(2)] obtain i where i: "i < length (sheets snap)" "sheets snap ! i = s" "wsId s = wsId s'"
    by (auto simp: in_set_conv_nth)
  with replaceSheet_nth [OF assms(1), of i s'] have "sheets (replaceSheet snap s') = (sheets snap)[i := s']" by simp
  then show ?thesis using map_eq_list_update [OF assms(1) i(1), of "\<lambda>x. x" s'] i(2,3) by simp
qed

lemma movedRecord_ok:
  assumes "cellRecord rec" "structuralOk op'" "shiftSpecForOp op' = Inr (Some spec)"
  shows "cellRecord (movedRecord spec rec)"
  using movedRecord_cellRecord [OF assms(1)] shiftSpec_delta [OF assms(2,3)] by blast

text \<open>The operation refines one map over the sheets.\<close>

lemma structural_shift_view:
  assumes run: "applyStructuralOp snap op' = Inr (snap', errs)"
    and spec: "shiftSpecForOp op' = Inr (Some spec)" "structuralOk op'" and ok: "recordsOk snap"
    and sheet: "findSheet snap (gridSheet op') = Inr sheet"
  shows "map gridView (sheets snap') = map (shiftedView op' spec (wsName sheet)) (sheets snap)
    \<and> revision snap' = revision snap"
proof -
  obtain cells' styles' merges' rh cw where
    c: "shiftAddressedRecord (wsCells sheet) op' = Inr cells'"
    "mapOptE (\<lambda>r. shiftAddressedRecord r op') (wsStyles sheet) = Inr styles'"
    and all: "shiftAllFormulas (replaceSheet snap (sheet\<lparr>wsCells := cells', wsStyles := styles',
       wsMerges := map_option (\<lambda>ms. map the (filter (\<lambda>m. m \<noteq> None) ms)) merges',
       rowHeights := rh, colWidths := cw\<rparr>)) op' (gridSheet op') (wsName sheet) = Inr (snap', errs)"
    by (rule shiftGrid_Inr [OF run [unfolded applyStructuralOp_grid [OF spec(1)]] spec(1) sheet])
  let ?s = "sheet\<lparr>wsCells := cells', wsStyles := styles',
       wsMerges := map_option (\<lambda>ms. map the (filter (\<lambda>m. m \<noteq> None) ms)) merges',
       rowHeights := rh, colWidths := cw\<rparr>"
  have sid: "wsId sheet = gridSheet op'" "sheet \<in> set (sheets snap)" using findSheet_id [OF sheet] by auto
  have dist: "distinct (map wsId (sheets snap))" and recs: "\<And>s. s \<in> set (sheets snap) \<Longrightarrow> sheetRecordsOk s"
    using ok by (auto simp: recordsOk_def)
  have cells: "cells' = movedRecord spec (wsCells sheet)"
    using c(1) shiftAddressedRecord_moved [OF spec, of "wsCells sheet"] recs [OF sid(2)] by (simp add: sheetRecordsOk_def)
  have styles: "styles' = map_option (movedRecord spec) (wsStyles sheet)"
    using c(2) shiftAddressedRecord_moved [OF spec, of "the (wsStyles sheet)"] recs [OF sid(2)]
    by (cases "wsStyles sheet") (auto simp: sheetRecordsOk_def mapOptE_def)
  have "findSheet snap (wsId ?s) = Inr sheet" using sheet sid by simp
  note replaced = replaceSheet_map [OF dist this]
  have d: "distinct (map wsId (sheets (replaceSheet snap ?s)))" using dist by (simp add: replaceSheet_ids)
  have all_ok: "cellRecord (wsCells s)" if "s \<in> set (sheets snap)" for s using recs [OF that] by (simp add: sheetRecordsOk_def)
  have "cellRecord (wsCells ?s)" using movedRecord_ok [OF all_ok [OF sid(2)] spec(2,1)] cells by simp
  with all_ok have w: "\<forall>s\<in>set (sheets (replaceSheet snap ?s)). wfObj (wsCells s)"
    unfolding replaced by (auto simp: cellRecord_def)
  note final = shiftAllFormulas_map [OF all d w]
  have "gridView (shiftedFormulas op' (gridSheet op') (wsName sheet) (if wsId x = wsId ?s then ?s else x))
      = shiftedView op' spec (wsName sheet) x" if "x \<in> set (sheets snap)" for x
  proof (cases "wsId x = gridSheet op'")
    case True
    then have "x = sheet" using dist that sid by (auto simp: distinct_map inj_on_def)
    with True sid show ?thesis
      by (simp add: gridView_def shiftedFormulas_def shiftedView_def cells styles)
  next
    case False
    with sid show ?thesis by (simp add: gridView_def shiftedFormulas_def shiftedView_def)
  qed
  then have "map gridView (map (shiftedFormulas op' (gridSheet op') (wsName sheet)) (sheets (replaceSheet snap ?s)))
      = map (shiftedView op' spec (wsName sheet)) (sheets snap)"
    unfolding replaced map_map comp_def by (intro map_cong refl) blast
  moreover have "sheets snap' = map (shiftedFormulas op' (gridSheet op') (wsName sheet)) (sheets (replaceSheet snap ?s))"
    "revision snap' = revision snap" by (simp_all only: final snapshot_fields replaceSheet_revision)
  ultimately show ?thesis by (simp only:)
qed

end
