(* ===== verification/WorkbookMerges.thy ===== *)
theory WorkbookMerges
  imports WorkbookAgreement WorkbookGrid
begin

text \<open>
  The merged ranges of a sheet never overlap: merging checks it, and inserting or deleting rows
  or columns moves disjoint ranges to disjoint ranges. So it holds in every state of the adapter.
\<close>

section \<open>Moving an interval\<close>

definition spanStart :: "ShiftSpec \<Rightarrow> int \<Rightarrow> int" where
  "spanStart spec i = (case shiftIndex i spec of Some k \<Rightarrow> k | None \<Rightarrow> shiftStart spec)"

definition spanEnd :: "ShiftSpec \<Rightarrow> int \<Rightarrow> int" where
  "spanEnd spec i = (case shiftIndex i spec of Some k \<Rightarrow> k | None \<Rightarrow> shiftStart spec - 1)"

lemma spans_apart: "i < j \<Longrightarrow> spanEnd spec i < spanStart spec j"
  by (auto simp: spanStart_def spanEnd_def shiftIndex_def split: if_splits)

lemma span_nonneg: "0 \<le> i \<Longrightarrow> 0 \<le> shiftStart spec \<Longrightarrow> 0 \<le> spanStart spec i"
  by (auto simp: spanStart_def shiftIndex_def)

definition movedBounds :: "ShiftSpec \<Rightarrow> RangeBounds \<Rightarrow> RangeBounds" where
  "movedBounds spec b = (if axis spec = RowAxis
     then b\<lparr>startRow := spanStart spec (startRow b), endRow := spanEnd spec (endRow b)\<rparr>
     else b\<lparr>startColumn := spanStart spec (startColumn b), endColumn := spanEnd spec (endColumn b)\<rparr>)"

lemma movedBounds_disjoint:
  assumes "\<not> boundsOverlap a b"
  shows "\<not> boundsOverlap (movedBounds spec a) (movedBounds spec b)"
proof -
  from assms consider "endRow b < startRow a" | "endRow a < startRow b" | "endColumn b < startColumn a" | "endColumn a < startColumn b"
    by (auto simp: boundsOverlap_def)
  then show ?thesis
    by cases (auto simp: boundsOverlap_def movedBounds_def dest: spans_apart [of _ _ spec])
qed

lemma area_two:
  fixes r c :: int
  assumes "0 \<le> r" "0 \<le> c" "r \<noteq> 0 \<or> c \<noteq> 0"
  shows "2 \<le> (r + 1) * (c + 1)"
proof -
  have "(r + 1) * (c + 1) = r * c + r + c + 1" by (simp add: algebra_simps)
  moreover have "0 \<le> r * c" using assms by simp
  ultimately show ?thesis using assms by linarith
qed

lemma shiftRangeString_moved:
  assumes "shiftRangeString rng spec = Inr (Some rng')" "parseRange rng = Inr b" "0 \<le> shiftStart spec"
  shows "parseRange rng' = Inr (movedBounds spec b) \<and> 2 \<le> rangeCellCount (movedBounds spec b)"
proof -
  note b = parseRange_ok [OF assms(2)]
  let ?m = "movedBounds spec b"
  have run: "startRow ?m \<le> endRow ?m \<and> startColumn ?m \<le> endColumn ?m
      \<and> (startRow ?m, startColumn ?m) \<noteq> (endRow ?m, endColumn ?m)
      \<and> rng' = formatAddress (startRow ?m) (startColumn ?m) @ '':'' @ formatAddress (endRow ?m) (endColumn ?m)"
    using assms(1,2) b
    by (auto simp: shiftRangeString_def movedBounds_def spanStart_def spanEnd_def Let_def boundsOk_def split: if_splits)
  moreover have "0 \<le> startRow ?m" "0 \<le> startColumn ?m"
    using b assms(3) span_nonneg by (auto simp: movedBounds_def boundsOk_def)
  ultimately have "parseRange rng' = Inr ?m"
    using parseRange_join [of "startRow ?m" "startColumn ?m" "endRow ?m" "endColumn ?m"] by simp
  moreover have "2 \<le> rangeCellCount ?m" using run area_two [of "endRow ?m - startRow ?m" "endColumn ?m - startColumn ?m"]
    by (auto simp: rangeCellCount_def)
  ultimately show ?thesis by simp
qed

section \<open>Ranges that do not overlap\<close>

definition isMerge :: "string \<Rightarrow> bool" where
  "isMerge m = (case parseRange m of Inl _ \<Rightarrow> False | Inr b \<Rightarrow> 2 \<le> rangeCellCount b)"

definition apart :: "string \<Rightarrow> string \<Rightarrow> bool" where
  "apart m m' \<longleftrightarrow> rangesIntersect m m' = Inr False"

definition mergesApart :: "string list \<Rightarrow> bool" where
  "mergesApart ms \<longleftrightarrow> list_all isMerge ms \<and> sorted_wrt apart ms"

definition mergesOk :: "WorkbookSnapshot \<Rightarrow> bool" where
  "mergesOk snap \<longleftrightarrow> (\<forall>s\<in>set (sheets snap). mergesApart (optList (wsMerges s)))"

lemma optList_simps [simp]: "optList None = []" "optList (Some xs) = xs"
  by (simp_all add: optList_def)

lemma isMerge_parse: "isMerge m \<Longrightarrow> \<exists>b. parseRange m = Inr b \<and> 2 \<le> rangeCellCount b"
  by (auto simp: isMerge_def split: sum.splits)

lemma apart_iff: "parseRange m = Inr b \<Longrightarrow> parseRange m' = Inr b' \<Longrightarrow> apart m m' \<longleftrightarrow> \<not> boundsOverlap b b'"
  by (simp add: apart_def rangesIntersect_def)

lemma mergesApart_Nil [simp]: "mergesApart []"
  by (simp add: mergesApart_def)

lemma mergesApart_add:
  assumes "mergesApart ms" "parseRange rng = Inr b" "2 \<le> rangeCellCount b"
    and "findE (\<lambda>m. rangesIntersect m rng) ms = Inr None"
  shows "mergesApart (ms @ [rng])"
proof -
  have "\<forall>m\<in>set ms. apart m rng"
    using assms(4) by (induction ms) (auto simp: res_simps apart_def split: if_splits)
  with assms(1-3) show ?thesis by (auto simp: mergesApart_def sorted_wrt_append isMerge_def)
qed

lemma filterE_filter:
  "filterE f xs = Inr ys \<Longrightarrow> ys = filter (\<lambda>x. f x = Inr True) xs"
  by (induction xs arbitrary: ys) (auto simp: res_simps)

lemma mergesApart_filter: "mergesApart ms \<Longrightarrow> mergesApart (filter P ms)"
  by (auto simp: mergesApart_def list_all_iff intro: sorted_wrt_filter)

lemma mergesApart_moved:
  assumes "mergesApart ms" "mapE (\<lambda>m. shiftRangeString m spec) ms = Inr moved" "0 \<le> shiftStart spec"
  shows "mergesApart (map the (filter (\<lambda>m. m \<noteq> None) moved))
    \<and> (\<forall>m'. Some m' \<in> set moved \<longrightarrow> (\<exists>m\<in>set ms. shiftRangeString m spec = Inr (Some m')))"
  using assms(1,2)
proof (induction ms arbitrary: moved)
  case Nil
  then show ?case by simp
next
  case (Cons m ms)
  from Cons.prems(2) obtain m1 moved1 where m1: "shiftRangeString m spec = Inr m1"
    "mapE (\<lambda>m. shiftRangeString m spec) ms = Inr moved1" "moved = m1 # moved1"
    by (auto simp: res_simps)
  have ms: "mergesApart ms" using Cons.prems(1) by (simp add: mergesApart_def)
  note IH = Cons.IH [OF ms m1(2)]
  show ?case
  proof (cases m1)
    case None
    with IH m1 show ?thesis by auto
  next
    case (Some m')
    obtain b where b: "parseRange m = Inr b" using Cons.prems(1) isMerge_parse by (auto simp: mergesApart_def)
    note m' = shiftRangeString_moved [OF m1(1) [unfolded Some] b assms(3)]
    have "apart m' n'" if n': "Some n' \<in> set moved1" for n'
    proof -
      from IH n' obtain n where n: "n \<in> set ms" "shiftRangeString n spec = Inr (Some n')" by blast
      with Cons.prems(1) obtain c where c: "parseRange n = Inr c" "apart m n"
        using isMerge_parse [of n] by (auto simp: mergesApart_def list_all_iff)
      with b have "\<not> boundsOverlap b c" by (simp add: apart_iff)
      from movedBounds_disjoint [OF this] show ?thesis
        using m' shiftRangeString_moved [OF n(2) c(1) assms(3)] by (simp add: apart_iff)
    qed
    moreover have "isMerge m'" using m' by (simp add: isMerge_def)
    ultimately show ?thesis using IH m1 Some by (auto simp: mergesApart_def)
  qed
qed

section \<open>Every operation keeps them apart\<close>

lemma mergesOk_replace:
  assumes "mergesOk snap" "mergesApart (optList (wsMerges s))"
  shows "mergesOk (replaceSheet snap s)"
proof -
  have "set (xs[i := s]) \<subseteq> insert s (set xs)" for xs i by (rule set_update_subset_insert)
  with assms show ?thesis by (fastforce simp: mergesOk_def replaceSheet_def split: option.split)
qed

lemma mergesOk_find: "mergesOk snap \<Longrightarrow> findSheet snap sid = Inr s \<Longrightarrow> mergesApart (optList (wsMerges s))"
  using findSheet_id [of snap sid s] by (auto simp: mergesOk_def)

lemma mergesOk_onSheet:
  assumes "onSheet snap sid F = Inr snap'" "mergesOk snap"
    and "\<And>s s'. F s = Inr s' \<Longrightarrow> mergesApart (optList (wsMerges s)) \<Longrightarrow> mergesApart (optList (wsMerges s'))"
  shows "mergesOk snap'"
  using assms by (auto simp: onSheet_def res_simps intro!: mergesOk_replace dest: mergesOk_find)

lemma mergesOk_kept:
  assumes "mergesOk snap" "\<And>s s'. F s = Inr s' \<Longrightarrow> wsMerges s' = wsMerges s" "onSheet snap sid F = Inr snap'"
  shows "mergesOk snap'"
  using mergesOk_onSheet [OF assms(3,1)] assms(2) by simp

lemma mergeSheet_apart:
  "mergeSheet rng s = Inr s' \<Longrightarrow> mergesApart (optList (wsMerges s)) \<Longrightarrow> mergesApart (optList (wsMerges s'))"
  by (auto simp: mergeSheet_def res_simps not_less conflict_def intro: mergesApart_add split: option.splits if_splits)

lemma unmergeSheet_apart:
  "unmergeSheet rng s = Inr s' \<Longrightarrow> mergesApart (optList (wsMerges s)) \<Longrightarrow> mergesApart (optList (wsMerges s'))"
  by (auto simp: unmergeSheet_def res_simps dest!: filterE_filter intro: mergesApart_filter)

text \<open>The other operations leave the merges of every sheet alone.\<close>

lemma mergesOk_same: "mergesOk snap \<Longrightarrow> s \<in> set (sheets snap) \<Longrightarrow> wsMerges s' = wsMerges s \<Longrightarrow> mergesOk (replaceSheet snap s')"
  by (rule mergesOk_replace) (simp_all add: mergesOk_def)

lemma findVisualIn_sheet: "findVisualIn vid ss = Some (s, v) \<Longrightarrow> s \<in> set ss"
  by (induction ss) (auto split: option.splits)

lemma applyEditChart_merges: "applyEditChart numStr toNum snap op' = Inr snap' \<Longrightarrow> mergesOk snap \<Longrightarrow> mergesOk snap'"
  by (auto simp: applyEditChart_def Let_def res_simps split: option.splits prod.splits dest!: findVisualIn_sheet
      intro: mergesOk_same)

lemma applyAddChart_merges: "applyAddChart numStr toNum snap s t r title a = Inr snap' \<Longrightarrow> mergesOk snap \<Longrightarrow> mergesOk snap'"
  by (auto simp: applyAddChart_def res_simps dest!: findSheet_id intro: mergesOk_same)

lemma applyDeleteVisual_merges: "applyDeleteVisual snap v = Inr snap' \<Longrightarrow> mergesOk snap \<Longrightarrow> mergesOk snap'"
  by (auto simp: applyDeleteVisual_def split: option.splits dest!: find_Some_in intro: mergesOk_same)

lemma applyLayoutOp_merges:
  "applyLayoutOp numStr toNum snap l = Inr snap' \<Longrightarrow> mergesOk snap \<Longrightarrow> mergesOk snap'"
proof (cases l)
  case (MergeCells s r)
  then show "applyLayoutOp numStr toNum snap l = Inr snap' \<Longrightarrow> mergesOk snap \<Longrightarrow> mergesOk snap'"
    by (auto simp: applyMerge_onSheet intro: mergesOk_onSheet mergeSheet_apart)
next
  case (UnmergeCells s r)
  then show "applyLayoutOp numStr toNum snap l = Inr snap' \<Longrightarrow> mergesOk snap \<Longrightarrow> mergesOk snap'"
    by (auto simp: applyUnmerge_onSheet intro: mergesOk_onSheet unmergeSheet_apart)
next
  case (SetRowHeight s r n h)
  then show "applyLayoutOp numStr toNum snap l = Inr snap' \<Longrightarrow> mergesOk snap \<Longrightarrow> mergesOk snap'"
    by (auto simp: applyRowHeight_onSheet intro: mergesOk_onSheet)
next
  case (SetColWidth s c n w)
  then show "applyLayoutOp numStr toNum snap l = Inr snap' \<Longrightarrow> mergesOk snap \<Longrightarrow> mergesOk snap'"
    by (simp add: applyColWidth_onSheet) (erule (1) mergesOk_kept [rotated 2], auto simp: res_simps)
qed (auto intro: applyEditChart_merges applyAddChart_merges applyDeleteVisual_merges)

lemma mergesOk_same_merges:
  "mergesOk snap \<Longrightarrow> map wsMerges (sheets snap') = map wsMerges (sheets snap) \<Longrightarrow> mergesOk snap'"
  unfolding mergesOk_def by (metis (no_types, lifting) in_set_conv_nth length_map nth_map)

lemma shiftAllFormulas_merges:
  assumes "shiftAllFormulas snap op' sid name = Inr (snap', errs)" "mergesOk snap"
  shows "mergesOk snap'"
proof -
  let ?ok = "\<lambda>r. mergesOk (fst r) \<and> length (sheets (fst r)) = length (sheets snap)"
  have "?ok (snap', errs)"
  proof (rule foldE_inv [OF assms(1) [unfolded shiftAllFormulas_fold]])
    fix r i r' assume i: "i \<in> set [0..<length (sheets snap)]" and ok: "?ok r" and step: "shiftSheetAt op' sid name r i = Inr r'"
    obtain nxt e1 where r': "r' = (case nxt of None \<Rightarrow> fst r | Some c \<Rightarrow> replaceSheet (fst r) ((sheets (fst r) ! i)\<lparr>wsCells := c\<rparr>), snd r @ e1)"
      by (rule shiftSheetAt_Inr [of op' sid name "fst r" "snd r" i r', OF _ refl]) (use step in simp_all)
    have "length (sheets (replaceSheet a b)) = length (sheets a)" for a b
      using arg_cong [OF replaceSheet_ids, of length] by simp
    with ok i r' mergesOk_same [of "fst r" "sheets (fst r) ! i"] show "?ok r'" by (auto split: option.split)
  qed (use assms(2) in simp)
  then show ?thesis by simp
qed

lemma shiftGrid_merges:
  assumes "shiftGrid snap op' sid = Inr (snap', errs)" "mergesOk snap" "structuralOk op'"
  shows "mergesOk snap'"
proof -
  from assms(1) obtain sheet where sheet: "findSheet snap sid = Inr sheet" by (auto simp: shiftGrid_def res_simps)
  with assms(1) obtain spec where "shiftSpecForOp op' = Inr spec" by (auto simp: shiftGrid_def res_simps)
  show ?thesis
  proof (cases spec)
    case None
    with assms(1,2) sheet \<open>shiftSpecForOp op' = Inr spec\<close> show ?thesis by (simp add: shiftGrid_def)
  next
    case (Some sp)
    with \<open>shiftSpecForOp op' = Inr spec\<close> have sp: "shiftSpecForOp op' = Inr (Some sp)" by simp
    obtain cells' styles' merges' rh cw where
      m: "mapOptE (mapE (\<lambda>m. shiftRangeString m sp)) (wsMerges sheet) = Inr merges'" and
      all: "shiftAllFormulas (replaceSheet snap (sheet\<lparr>wsCells := cells', wsStyles := styles',
         wsMerges := map_option (\<lambda>ms. map the (filter (\<lambda>m. m \<noteq> None) ms)) merges',
         rowHeights := rh, colWidths := cw\<rparr>)) op' sid (wsName sheet) = Inr (snap', errs)"
      by (rule shiftGrid_Inr [OF assms(1) sp sheet])
    have "mergesApart (optList (map_option (\<lambda>ms. map the (filter (\<lambda>m. m \<noteq> None) ms)) merges'))"
    proof (cases "wsMerges sheet")
      case (Some ms)
      with m obtain moved where "mapE (\<lambda>m. shiftRangeString m sp) ms = Inr moved" "merges' = Some moved"
        by (auto simp: mapOptE_def res_simps)
      moreover have "mergesApart ms" using mergesOk_find [OF assms(2) sheet] Some by simp
      ultimately show ?thesis using mergesApart_moved [of ms sp moved] shiftSpec_delta [OF assms(3) sp] by simp
    qed (use m in \<open>auto simp: mapOptE_def\<close>)
    then show ?thesis
      by (intro shiftAllFormulas_merges [OF all] mergesOk_replace [OF assms(2)]) simp
  qed
qed

lemma applyStructuralOp_merges:
  assumes "applyStructuralOp snap op' = Inr (snap', errs)" "mergesOk snap" "structuralOk op'"
  shows "mergesOk snap'"
proof (cases "\<exists>name rows columns. op' = AddSheet name rows columns")
  case True
  with assms(1,2) show ?thesis by (auto simp: res_simps addSheet_def mergesOk_def)
next
  case False
  then show ?thesis
  proof (cases "\<exists>sid. op' = DeleteSheet sid")
    case True
    with assms(1,2) show ?thesis
      by (fastforce simp: deleteSheet_def mergesOk_def res_simps Let_def splice_def split: option.splits
          dest: in_set_takeD in_set_dropD)
  next
    case no: False
    with False assms show ?thesis
      by (cases op') (auto intro: shiftGrid_merges)
  qed
qed

text \<open>A plan whose structural operations passed the schema.\<close>

definition planOk :: "ChangePlan \<Rightarrow> bool" where
  "planOk p \<longleftrightarrow> (\<forall>c\<in>set (structuralChanges p). case scOp c of Structural op' \<Rightarrow> structuralOk op' | _ \<Rightarrow> True)"

lemma applyChanges_merges:
  assumes "applyChanges numStr toNum snap p = Inr snap'" "mergesOk snap" "planOk p"
  shows "mergesOk snap'"
proof -
  from assms(1) obtain s1 s2 s3 where
    s: "foldE applyRename snap (sheetRenames p) = Inr s1"
    "foldE (applyStructuralChange numStr toNum) s1 (structuralChanges p) = Inr s2"
    "foldE applyCellChange s2 (cellChanges p) = Inr s3" "foldE applyFormatChange s3 (formatChanges p) = Inr snap'"
    by (auto simp: applyChanges_def res_simps)
  have 1: "mergesOk s1"
    using s(1) assms(2) by (rule foldE_inv) (auto simp: applyRename_onSheet elim: mergesOk_onSheet)
  have 2: "mergesOk s2"
    using s(2) 1
  proof (rule foldE_inv)
    fix s c s' assume c: "c \<in> set (structuralChanges p)" "mergesOk s" "applyStructuralChange numStr toNum s c = Inr s'"
    with assms(3) show "mergesOk s'"
      by (auto simp: applyStructuralChange_def planOk_def res_simps split: PrimitiveOperation.splits
          intro: applyLayoutOp_merges applyStructuralOp_merges)
  qed
  have 3: "mergesOk s3"
    using s(3) 2 by (rule foldE_inv) (auto simp: applyCellChange_onSheet elim: mergesOk_onSheet)
  show ?thesis
    using s(4) 3
  proof (rule foldE_inv)
    fix s c s' assume "mergesOk s" "applyFormatChange s c = Inr s'"
    then show "mergesOk s'"
      unfolding applyFormatChange_def applyFormatRange_onSheet
      by (elim mergesOk_kept [rotated 2]) (auto simp: res_simps)
  qed
qed

lemma replaceVisual_merges:
  assumes "mergesOk (snapshot ad)"
  shows "mergesOk (snapshot (fst (replaceVisual ad vid nxt)))"
  using assms
  by (auto simp: replaceVisual_def split: option.split prod.split sum.split dest!: findVisualIn_sheet findSheet_id
      intro: mergesOk_same)

section \<open>In every state of the adapter\<close>

text \<open>Runs whose committed plans hold operations that passed the schema.\<close>

inductive checkedRun :: "(real \<Rightarrow> string) \<Rightarrow> (string \<Rightarrow> js_number) \<Rightarrow> WorkbookSnapshot \<Rightarrow> Adapter \<Rightarrow> bool"
  for numStr toNum snap where
  fresh: "checkedRun numStr toNum snap (newAdapter snap)"
| commit: "checkedRun numStr toNum snap ad \<Longrightarrow> planOk p \<Longrightarrow> apply' numStr toNum ad p = Inr (ad', receipt) \<Longrightarrow>
    checkedRun numStr toNum snap ad'"
| revert: "checkedRun numStr toNum snap ad \<Longrightarrow> undo ad = Inr (ad', receipt) \<Longrightarrow> checkedRun numStr toNum snap ad'"
| edit: "checkedRun numStr toNum snap ad \<Longrightarrow> checkedRun numStr toNum snap (fst (replaceVisual ad vid nxt))"

lemma checkedRun_merges:
  assumes "checkedRun numStr toNum snap ad" "mergesOk snap"
  shows "\<forall>s\<in>set (snapshot ad # history ad). mergesOk s"
  using assms
proof (induction rule: checkedRun.induct)
  case fresh
  then show ?case by (simp add: newAdapter_def)
next
  case (commit ad p ad' receipt)
  obtain nxt where n: "applyChanges numStr toNum (snapshot ad) p = Inr nxt"
    "snapshot ad' = nxt\<lparr>revision := revision nxt + 1\<rparr>" "history ad' = history ad @ [snapshot ad]"
    by (rule apply_Inr [OF commit.hyps(3)]) simp
  have all: "\<forall>s\<in>set (snapshot ad # history ad). mergesOk s" by (rule commit.IH [OF commit.prems])
  have "mergesOk nxt" by (rule applyChanges_merges [OF n(1) _ commit.hyps(2)]) (use all in simp)
  then have "mergesOk (snapshot ad')" unfolding n(2) by (simp add: mergesOk_def)
  with all n(3) show ?case by simp
next
  case (revert ad ad' receipt)
  have h: "history ad \<noteq> []" "snapshot ad' = (last (history ad))\<lparr>revision := revision (snapshot ad) + 1\<rparr>"
    "history ad' = butlast (history ad)"
    by (rule undo_Inr [OF revert.hyps(2)], simp)+
  have all: "\<forall>s\<in>set (snapshot ad # history ad). mergesOk s" using revert by simp
  have "mergesOk (last (history ad))" using all last_in_set [OF h(1)] by simp
  moreover have "mergesOk s" if "s \<in> set (butlast (history ad))" for s using all in_set_butlastD [OF that] by simp
  moreover from calculation(1) have "mergesOk (snapshot ad')" unfolding h(2) by (simp add: mergesOk_def)
  ultimately show ?case using h(3) by simp
next
  case (edit ad vid nxt)
  then show ?case using replaceVisual_merges [of ad vid nxt] by (simp add: replaceVisual_rest)
qed

end
