(* ===== verification/WorkbookFormats.thy ===== *)
theory WorkbookFormats
  imports WorkbookAgreement
begin

text \<open>
  What a format operation does to the styles of a sheet: every cell of the range gets its style
  merged with the patch, property by property; no other cell changes.
\<close>

definition styleIn :: "WorkbookSnapshot \<Rightarrow> string \<Rightarrow> string \<Rightarrow> CellFormatState option" where
  "styleIn snap sid address =
     (case findSheet snap sid of Inl _ \<Rightarrow> None | Inr s \<Rightarrow> map_of (optList (wsStyles s)) address)"

text \<open>A property of a style; cells without a style have none.\<close>

definition formatValue :: "CellFormatState option \<Rightarrow> string \<Rightarrow> FormatValue option" where
  "formatValue style key = (case style of None \<Rightarrow> None | Some m \<Rightarrow> map_of m key)"

lemma patch_lookup:
  "map_of (foldl (\<lambda>m (key, v). case v of None \<Rightarrow> AList.delete key m | Some x \<Rightarrow> AList.update key x m) m patch) k
    = (case map_of (rev patch) k of None \<Rightarrow> map_of m k | Some v \<Rightarrow> v)"
  by (induction patch arbitrary: m)
    (auto simp: update_conv' delete_conv' map_add_def split: option.split)

lemma map_of_rev_same:
  assumes "distinct (map fst xs)"
  shows "map_of (rev xs) = map_of xs"
proof (rule ext)
  fix k
  have "distinct (map fst (rev xs))" using assms by (simp add: rev_map [symmetric])
  then have "map_of (rev xs) k = Some v \<longleftrightarrow> map_of xs k = Some v" for v using assms by simp
  then show "map_of (rev xs) k = map_of xs k" by (metis not_None_eq)
qed

lemma mergeFormat_value:
  assumes "distinct (map fst patch)"
  shows "formatValue (mergeFormat style patch) key
    = (case map_of patch key of None \<Rightarrow> formatValue style key | Some v \<Rightarrow> v)"
proof -
  have "map_of (rev patch) = map_of patch" using assms by (rule map_of_rev_same)
  then show ?thesis
    using patch_lookup [of "case style of Some e \<Rightarrow> e | None \<Rightarrow> []" patch key]
    by (auto simp: mergeFormat_def formatValue_def Let_def split: option.splits if_splits)
qed

definition styleStep :: "CellFormatPatch \<Rightarrow> CellFormatState obj \<Rightarrow> string \<Rightarrow> CellFormatState obj" where
  "styleStep format st address =
     (case mergeFormat (map_of st address) format of
        Some merged \<Rightarrow> AList.update address merged st
      | None \<Rightarrow> AList.delete address st)"

lemma styleStep_lookup:
  "map_of (styleStep format st address) = (map_of st)(address := mergeFormat (map_of st address) format)"
  by (auto simp: styleStep_def update_conv' delete_conv' fun_eq_iff split: option.split)

lemma styleSteps_lookup:
  "distinct addresses \<Longrightarrow> map_of (foldl (styleStep format) st addresses) a
    = (if a \<in> set addresses then mergeFormat (map_of st a) format else map_of st a)"
  by (induction addresses arbitrary: st) (auto simp: styleStep_lookup)

lemma formattedStyles_lookup:
  assumes "boundsOk b"
  shows "map_of (optList (formattedStyles b format styles)) a
    = (if a \<in> set (rangeAddresses b) then mergeFormat (map_of (optList styles) a) format else map_of (optList styles) a)"
proof -
  have "formattedStyles b format styles = (let st = foldl (styleStep format) (optList styles) (rangeAddresses b)
      in if st = [] then None else Some st)"
    by (simp add: formattedStyles_def styleStep_def [abs_def])
  then have "map_of (optList (formattedStyles b format styles)) a
      = map_of (foldl (styleStep format) (optList styles) (rangeAddresses b)) a"
    by (simp add: Let_def optList_def)
  then show ?thesis using styleSteps_lookup [OF rangeAddresses_distinct [OF assms]] by simp
qed

lemma applyFormatRange_styles:
  assumes "applyFormatRange snap sid rng format = Inr snap'" "parseRange rng = Inr b"
  shows "styleIn snap' k a = (if k = sid \<and> a \<in> set (rangeAddresses b) then mergeFormat (styleIn snap sid a) format
    else styleIn snap k a)"
proof -
  from assms obtain s where s: "findSheet snap sid = Inr s"
    "snap' = replaceSheet snap (s\<lparr>wsStyles := formattedStyles b format (wsStyles s)\<rparr>)"
    by (auto simp: applyFormatRange_onSheet onSheet_def res_simps)
  note id = findSheet_id [OF s(1)]
  have "findSheet snap' k = (if k = sid then Inr (s\<lparr>wsStyles := formattedStyles b format (wsStyles s)\<rparr>) else findSheet snap k)"
    using findSheet_replaceSheet [of snap "s\<lparr>wsStyles := formattedStyles b format (wsStyles s)\<rparr>" k] s id by simp
  then show ?thesis
    using formattedStyles_lookup [OF parseRange_ok [OF assms(2)], of format "wsStyles s" a] s(1)
    by (simp add: styleIn_def)
qed

end
