(* ===== verification/WorkbookUndo.thy ===== *)
theory WorkbookUndo
  imports WorkbookMachine
begin

text \<open>
  The undo machine that the adapter (\<open>in-memory-workbook.ts\<close>) implements: a specification that names the calls,
  and the proof that the adapter takes exactly its steps.
\<close>

section \<open>The calls and the machine\<close>

text \<open>
  What the adapter promises, as a machine of its own: the revision, the transactions committed,
  the content of the workbook and the stack of the contents before each commit not yet undone.
  \<open>undoStep\<close> says what each call may do to it.
\<close>

datatype AdapterCall =
  CommitCall ChangePlan
| UndoCall
| VisualCall string "SheetVisual option"

definition adapterCall ::
  "(real \<Rightarrow> string) \<Rightarrow> (string \<Rightarrow> js_number) \<Rightarrow> Adapter \<Rightarrow> AdapterCall \<Rightarrow> js_error + Adapter" where
  "adapterCall numStr toNum ad call =
     (case call of
        CommitCall p \<Rightarrow> bindE (apply' numStr toNum ad p) (\<lambda>(ad', receipt). Inr ad')
      | UndoCall \<Rightarrow> bindE (undo ad) (\<lambda>(ad', receipt). Inr ad')
      | VisualCall vid nxt \<Rightarrow> Inr (fst (replaceVisual ad vid nxt)))"

record UndoMachine =
  umRevision :: int
  umCommitted :: "string set"
  umContent :: "WorksheetState list"
  umStack :: "WorksheetState list list"

definition undoMachine :: "Adapter \<Rightarrow> UndoMachine" where
  "undoMachine ad =
     \<lparr>umRevision = revision (snapshot ad), umCommitted = set (committedTransactions ad),
      umContent = sheets (snapshot ad), umStack = rev (map sheets (history ad))\<rparr>"

text \<open>A visual edited directly: in the first sheet that has it, every visual of that id is replaced
  or removed; a new one is put at the end of its own sheet; otherwise nothing happens.\<close>

definition hasVisual :: "string \<Rightarrow> WorksheetState \<Rightarrow> bool" where
  "hasVisual vid s \<longleftrightarrow> vid \<in> set (map visualId (sheetVisuals s))"

inductive visualEdit :: "string \<Rightarrow> SheetVisual option \<Rightarrow> WorksheetState list \<Rightarrow> WorksheetState list \<Rightarrow> bool" where
  replaced: "\<not> list_ex (hasVisual vid) pre \<Longrightarrow> hasVisual vid s \<Longrightarrow>
     visualEdit vid nxt (pre @ s # post)
       (pre @ s\<lparr>wsVisuals := Some (concat (map (\<lambda>v. if visualId v \<noteq> vid then [v] else case nxt of Some n \<Rightarrow> [n] | None \<Rightarrow> [])
          (sheetVisuals s)))\<rparr> # post)"
| added: "\<not> list_ex (hasVisual vid) (pre @ s # post) \<Longrightarrow> visualSheetId v = wsId s \<Longrightarrow>
     visualEdit vid (Some v) (pre @ s # post) (pre @ s\<lparr>wsVisuals := Some (sheetVisuals s @ [v])\<rparr> # post)"
| ignored: "\<not> list_ex (hasVisual vid) ss \<Longrightarrow> (case nxt of None \<Rightarrow> True | Some v \<Rightarrow> visualSheetId v \<notin> set (map wsId ss)) \<Longrightarrow>
     visualEdit vid nxt ss ss"

inductive undoStep :: "(real \<Rightarrow> string) \<Rightarrow> (string \<Rightarrow> js_number) \<Rightarrow> AdapterCall \<Rightarrow> UndoMachine \<Rightarrow> UndoMachine \<Rightarrow> bool"
  for numStr toNum where
  commit: "planBaseRevision p = umRevision u \<Longrightarrow> planTransactionId p \<notin> umCommitted u \<Longrightarrow>
     applyChanges numStr toNum \<lparr>revision = umRevision u, sheets = umContent u\<rparr> p = Inr nxt \<Longrightarrow>
     undoStep numStr toNum (CommitCall p) u
       \<lparr>umRevision = umRevision u + 1, umCommitted = insert (planTransactionId p) (umCommitted u),
        umContent = sheets nxt, umStack = umContent u # umStack u\<rparr>"
| revert: "umStack u = old # stack \<Longrightarrow>
     undoStep numStr toNum UndoCall u
       \<lparr>umRevision = umRevision u + 1, umCommitted = umCommitted u, umContent = old, umStack = stack\<rparr>"
| edit: "visualEdit vid nxt (umContent u) content \<Longrightarrow>
     undoStep numStr toNum (VisualCall vid nxt) u (u\<lparr>umContent := content\<rparr>)"

inductive_cases undoStepE: "undoStep numStr toNum call u u'"

inductive_cases visualEditE: "visualEdit vid nxt ss ss'"

lemma list_split_unique:
  assumes "pre @ x # post = pre' @ x' # post'" "\<not> list_ex P pre" "\<not> list_ex P pre'" "P x" "P x'"
  shows "pre = pre' \<and> x = x' \<and> post = post'"
  using assms by (induction pre arbitrary: pre') (auto simp: Cons_eq_append_conv append_eq_Cons_conv)

text \<open>On sheets with distinct ids there is one such edit.\<close>

lemma visualEdit_unique:
  assumes a: "visualEdit vid nxt ss t" and b: "visualEdit vid nxt ss t'" and d: "distinct (map wsId ss)"
  shows "t = t'"
  using a
proof cases
  case (replaced pre s post)
  then have there: "list_ex (hasVisual vid) ss" by simp
  show ?thesis
    using b
  proof cases
    case (replaced pre' s' post')
    with \<open>ss = pre @ s # post\<close> \<open>\<not> list_ex (hasVisual vid) pre\<close> \<open>hasVisual vid s\<close> \<open>t = _\<close>
    show ?thesis using list_split_unique [of pre s post pre' s' post' "hasVisual vid"] by simp
  qed (use there in simp_all)
next
  case (added pre s post v)
  show ?thesis
    using b
  proof cases
    case (replaced pre' s' post')
    then have "list_ex (hasVisual vid) ss" by simp
    with \<open>ss = pre @ s # post\<close> \<open>\<not> list_ex (hasVisual vid) (pre @ s # post)\<close> show ?thesis by (simp only:)
  next
    case (added pre' s' post' w)
    then have split: "pre @ s # post = pre' @ s' # post'" "wsId s = wsId s'"
      using \<open>ss = pre @ s # post\<close> \<open>nxt = Some v\<close> \<open>visualSheetId v = wsId s\<close> by simp_all
    have "distinct (map wsId (pre @ s # post))" "distinct (map wsId (pre' @ s' # post'))"
      using d \<open>ss = pre @ s # post\<close> \<open>ss = pre' @ s' # post'\<close> by (simp_all only:)
    then have "wsId s \<notin> wsId ` set pre" "wsId s' \<notin> wsId ` set pre'" by simp_all
    then have "\<not> list_ex (\<lambda>x. wsId x = wsId s) pre" "\<not> list_ex (\<lambda>x. wsId x = wsId s) pre'"
      using split(2) by (auto simp: list_ex_iff image_iff)
    from list_split_unique [OF split(1) this refl split(2) [symmetric]]
    have "pre = pre'" "s = s'" "post = post'" by simp_all
    moreover have "w = v" using \<open>nxt = Some w\<close> \<open>nxt = Some v\<close> by simp
    ultimately show ?thesis using \<open>t = _\<close> \<open>t' = _\<close> by (simp only:)
  next
    case ignored
    then show ?thesis using \<open>ss = pre @ s # post\<close> \<open>nxt = Some v\<close> \<open>visualSheetId v = wsId s\<close> by simp
  qed
next
  case ignored
  show ?thesis
    using b
  proof cases
    case (added pre' s' post' w)
    then show ?thesis using ignored by simp
  qed (use ignored in simp_all)
qed

lemma findVisualIn_None: "findVisualIn vid ss = None \<longleftrightarrow> \<not> list_ex (hasVisual vid) ss"
proof (induction ss)
  case (Cons s ss)
  have "find (\<lambda>v. visualId v = vid) (sheetVisuals s) = None \<longleftrightarrow> \<not> hasVisual vid s"
    by (auto simp: hasVisual_def find_None_iff)
  with Cons show ?case by (cases "find (\<lambda>v. visualId v = vid) (sheetVisuals s)") simp_all
qed simp

lemma findVisualIn_Some:
  "findVisualIn vid ss = Some (s, v) \<Longrightarrow> \<exists>pre post. ss = pre @ s # post \<and> \<not> list_ex (hasVisual vid) pre \<and> hasVisual vid s"
proof (induction ss)
  case (Cons t ss)
  show ?case
  proof (cases "find (\<lambda>v. visualId v = vid) (sheetVisuals t)")
    case (Some w)
    with Cons.prems have "s = t" by simp
    moreover have "hasVisual vid t" using Some by (auto simp: hasVisual_def find_Some_iff)
    ultimately show ?thesis by (intro exI [of _ "[]"] exI [of _ ss]) simp
  next
    case None
    with Cons obtain pre post where "ss = pre @ s # post" "\<not> list_ex (hasVisual vid) pre" "hasVisual vid s" by auto
    moreover have "\<not> hasVisual vid t" using None by (auto simp: hasVisual_def find_None_iff)
    ultimately show ?thesis by (intro exI [of _ "t # pre"] exI [of _ post]) simp
  qed
qed simp

lemma findIndex_split: "P x \<Longrightarrow> \<not> list_ex P pre \<Longrightarrow> findIndex P (pre @ x # post) = Some (length pre)"
  by (induction pre) simp_all

lemma replaceSheet_split:
  assumes "sheets snap = pre @ s # post" "wsId s' = wsId s" "distinct (map wsId (sheets snap))"
  shows "sheets (replaceSheet snap s') = pre @ s' # post"
proof -
  have "wsId s \<notin> wsId ` set pre" using assms(1,3) by simp
  then have "\<not> list_ex (\<lambda>x. wsId x = wsId s') pre" using assms(2) by (auto simp: list_ex_iff image_iff)
  then have "findIndex (\<lambda>x. wsId x = wsId s') (sheets snap) = Some (length pre)"
    unfolding assms(1) using assms(2) by (intro findIndex_split) simp_all
  then show ?thesis using assms(1) by (simp add: replaceSheet_def)
qed

lemma editedVisuals:
  "(case nxt of None \<Rightarrow> filter (\<lambda>v. visualId v \<noteq> vid) vs | Some v \<Rightarrow> setVisual vid v vs)
    = concat (map (\<lambda>v. if visualId v \<noteq> vid then [v] else case nxt of Some n \<Rightarrow> [n] | None \<Rightarrow> []) vs)"
  by (induction vs) (auto simp: setVisual_def split: option.splits)

lemma visualEdit_exists:
  assumes "distinct (map wsId (sheets (snapshot ad)))"
  shows "visualEdit vid nxt (sheets (snapshot ad)) (sheets (snapshot (fst (replaceVisual ad vid nxt))))"
proof (cases "findVisualIn vid (sheets (snapshot ad))")
  case (Some sv)
  obtain s v where sv: "sv = (s, v)" by force
  from findVisualIn_Some [OF Some [unfolded sv]] obtain pre post where
    ss: "sheets (snapshot ad) = pre @ s # post" "\<not> list_ex (hasVisual vid) pre" "hasVisual vid s" by blast
  let ?vs = "case nxt of None \<Rightarrow> filter (\<lambda>v. visualId v \<noteq> vid) (sheetVisuals s) | Some v \<Rightarrow> setVisual vid v (sheetVisuals s)"
  note vs = editedVisuals [of vid "sheetVisuals s" nxt]
  have "sheets (snapshot (fst (replaceVisual ad vid nxt))) = pre @ s\<lparr>wsVisuals := Some ?vs\<rparr> # post"
    using Some sv replaceSheet_split [OF ss(1) _ assms, of "s\<lparr>wsVisuals := Some ?vs\<rparr>"] by (simp add: replaceVisual_def)
  with ss visualEdit.replaced [OF ss(2,3), of nxt post] show ?thesis unfolding vs by simp
next
  case None
  note absent = None [unfolded findVisualIn_None]
  show ?thesis
  proof (cases nxt)
    case None
    then show ?thesis using absent \<open>findVisualIn vid (sheets (snapshot ad)) = None\<close>
      by (simp add: replaceVisual_def visualEdit.ignored)
  next
    case (Some v)
    note f = \<open>findVisualIn vid (sheets (snapshot ad)) = None\<close>
    show ?thesis
    proof (cases "find (\<lambda>s. wsId s = visualSheetId v) (sheets (snapshot ad))")
      case None
      then have "visualSheetId v \<notin> set (map wsId (sheets (snapshot ad)))" by (auto simp: find_None_iff)
      then show ?thesis using None f absent Some
        by (simp add: replaceVisual_def findSheet_def conflict_def visualEdit.ignored)
    next
      case (Some s)
      then have s: "s \<in> set (sheets (snapshot ad))" "wsId s = visualSheetId v" using find_Some_in by fastforce+
      obtain pre post where ss: "sheets (snapshot ad) = pre @ s # post" using split_list [OF s(1)] by blast
      have "sheets (snapshot (fst (replaceVisual ad vid nxt))) = pre @ s\<lparr>wsVisuals := Some (sheetVisuals s @ [v])\<rparr> # post"
        using f Some \<open>nxt = Some v\<close> replaceSheet_split [OF ss _ assms, of "s\<lparr>wsVisuals := Some (sheetVisuals s @ [v])\<rparr>"]
        by (simp add: replaceVisual_def findSheet_def)
      with absent ss s(2) \<open>nxt = Some v\<close> visualEdit.added [of vid pre s post v] show ?thesis by simp
    qed
  qed
qed

text \<open>The adapter and the machine move together.\<close>

lemma commit_undoStep:
  assumes "idsOk (snapshot ad)"
  shows "undoStep numStr toNum (CommitCall p) (undoMachine ad) u \<longleftrightarrow>
    (\<exists>ad' receipt. apply' numStr toNum ad p = Inr (ad', receipt) \<and> undoMachine ad' = u)"
proof
  assume "undoStep numStr toNum (CommitCall p) (undoMachine ad) u"
  then show "\<exists>ad' receipt. apply' numStr toNum ad p = Inr (ad', receipt) \<and> undoMachine ad' = u"
  proof (rule undoStepE)
    fix q nxt
    assume "CommitCall p = CommitCall q" and g: "planBaseRevision q = umRevision (undoMachine ad)"
      "planTransactionId q \<notin> umCommitted (undoMachine ad)"
      "applyChanges numStr toNum \<lparr>revision = umRevision (undoMachine ad), sheets = umContent (undoMachine ad)\<rparr> q = Inr nxt"
      and u: "u = \<lparr>umRevision = umRevision (undoMachine ad) + 1,
        umCommitted = insert (planTransactionId q) (umCommitted (undoMachine ad)),
        umContent = sheets nxt, umStack = umContent (undoMachine ad) # umStack (undoMachine ad)\<rparr>"
    moreover have "\<lparr>revision = revision (snapshot ad), sheets = sheets (snapshot ad)\<rparr> = snapshot ad" by (cases "snapshot ad") simp
    ultimately have run: "applyChanges numStr toNum (snapshot ad) p = Inr nxt" "p = q" by (simp_all add: undoMachine_def)
    with applyChanges_ok [OF run(1) assms] g u show ?thesis by (simp add: apply'_def undoMachine_def Let_def)
  qed simp_all
next
  assume "\<exists>ad' receipt. apply' numStr toNum ad p = Inr (ad', receipt) \<and> undoMachine ad' = u"
  then obtain ad' receipt where run: "apply' numStr toNum ad p = Inr (ad', receipt)" and u: "undoMachine ad' = u" by blast
  obtain nxt where n: "planBaseRevision p = revision (snapshot ad)" "planTransactionId p \<notin> set (committedTransactions ad)"
    "applyChanges numStr toNum (snapshot ad) p = Inr nxt"
    and ad': "snapshot ad' = nxt\<lparr>revision := revision nxt + 1\<rparr>" "history ad' = history ad @ [snapshot ad]"
      "committedTransactions ad' = planTransactionId p # committedTransactions ad"
    by (rule apply_Inr [OF run]) simp
  have "revision nxt = revision (snapshot ad)" using applyChanges_ok [OF n(3) assms] by simp
  with ad' u have "u = \<lparr>umRevision = umRevision (undoMachine ad) + 1,
      umCommitted = insert (planTransactionId p) (umCommitted (undoMachine ad)),
      umContent = sheets nxt, umStack = umContent (undoMachine ad) # umStack (undoMachine ad)\<rparr>" by (auto simp: undoMachine_def)
  moreover have "\<lparr>revision = umRevision (undoMachine ad), sheets = umContent (undoMachine ad)\<rparr> = snapshot ad"
    by (cases "snapshot ad") (simp add: undoMachine_def)
  ultimately show "undoStep numStr toNum (CommitCall p) (undoMachine ad) u"
    using n undoStep.commit [of p "undoMachine ad" numStr toNum nxt] by (simp only:) (simp add: undoMachine_def)
qed

lemma undo_undoStep:
  "undoStep numStr toNum UndoCall (undoMachine ad) u \<longleftrightarrow>
    (\<exists>ad' receipt. undo ad = Inr (ad', receipt) \<and> undoMachine ad' = u)"
proof (cases "history ad" rule: rev_cases)
  case Nil
  then show ?thesis by (auto simp: undo_def conflict_def undoMachine_def elim!: undoStepE)
next
  case (snoc h old)
  then have "undoStep numStr toNum UndoCall (undoMachine ad) u \<longleftrightarrow>
      u = \<lparr>umRevision = revision (snapshot ad) + 1, umCommitted = set (committedTransactions ad), umContent = sheets old,
           umStack = rev (map sheets h)\<rparr>"
    using undoStep.revert [of "undoMachine ad" "sheets old" "rev (map sheets h)" numStr toNum]
    by (auto simp: undoMachine_def elim!: undoStepE)
  with snoc show ?thesis by (auto simp: undo_def Let_def undoMachine_def)
qed

lemma visual_undoStep:
  assumes "idsOk (snapshot ad)"
  shows "undoStep numStr toNum (VisualCall vid nxt) (undoMachine ad) u \<longleftrightarrow> undoMachine (fst (replaceVisual ad vid nxt)) = u"
proof -
  have d: "distinct (map wsId (sheets (snapshot ad)))" using assms by (simp add: idsOk_def)
  note step = visualEdit_exists [OF d, of vid nxt]
  have same: "undoMachine (fst (replaceVisual ad vid nxt))
      = (undoMachine ad)\<lparr>umContent := sheets (snapshot (fst (replaceVisual ad vid nxt)))\<rparr>"
    using setVisual_framed [of ad vid nxt] by (simp add: undoMachine_def replaceVisual_rest framed_def)
  show ?thesis
  proof
    assume "undoStep numStr toNum (VisualCall vid nxt) (undoMachine ad) u"
    then obtain content where "visualEdit vid nxt (sheets (snapshot ad)) content" "u = (undoMachine ad)\<lparr>umContent := content\<rparr>"
      by (auto simp: undoMachine_def elim!: undoStepE)
    then show "undoMachine (fst (replaceVisual ad vid nxt)) = u"
      unfolding same using visualEdit_unique [OF step _ d] by simp
  next
    assume "undoMachine (fst (replaceVisual ad vid nxt)) = u"
    then show "undoStep numStr toNum (VisualCall vid nxt) (undoMachine ad) u"
      unfolding same using undoStep.edit [of vid nxt "undoMachine ad" _ numStr toNum] step by (auto simp: undoMachine_def)
  qed
qed

lemma adapterCall_undoStep:
  assumes "idsOk (snapshot ad)"
  shows "undoStep numStr toNum call (undoMachine ad) u \<longleftrightarrow>
    (\<exists>ad'. adapterCall numStr toNum ad call = Inr ad' \<and> undoMachine ad' = u)"
proof (cases call)
  case (CommitCall p)
  then show ?thesis using commit_undoStep [OF assms, of numStr toNum p u] by (auto simp: adapterCall_def res_simps)
next
  case UndoCall
  then show ?thesis using undo_undoStep [of numStr toNum ad u] by (auto simp: adapterCall_def res_simps)
next
  case (VisualCall vid nxt)
  then show ?thesis using visual_undoStep [OF assms, of numStr toNum vid nxt u] by (auto simp: adapterCall_def)
qed

end
