(* ===== verification/WorkbookProperties.thy ===== *)
theory WorkbookProperties
  imports WorkbookFill WorkbookMerges WorkbookFormats WorkbookUndo
begin

text \<open>
  The properties of the in-memory workbook: what its operations do to a snapshot, and what the
  adapter promises of planning, committing and undoing.
\<close>

section \<open>A sample workbook\<close>

definition blankSheet :: "string \<Rightarrow> string \<Rightarrow> CellState obj \<Rightarrow> WorksheetState" where
  "blankSheet i name cells = \<lparr>wsId = i, wsName = name, wsCells = cells, gridRows = None, gridColumns = None,
     wsStyles = None, wsMerges = None, rowHeights = None, colWidths = None, wsVisuals = None\<rparr>"

definition sampleBook :: WorkbookSnapshot where
  "sampleBook = \<lparr>revision = 3, sheets = [blankSheet ''s1'' ''Sales'' [(''A1'', plainCell (Num 5)), (''B2'', formulaCell ''=A1*2'')],
     blankSheet ''s2'' ''Notes'' []]\<rparr>"

definition sampleAdapter :: Adapter where
  "sampleAdapter = newAdapter sampleBook"

definition noNumber :: "string \<Rightarrow> js_number" where "noNumber s = NaN"
definition noText :: "real \<Rightarrow> string" where "noText x = []"

definition emptyPlan :: "string \<Rightarrow> int \<Rightarrow> ChangePlan" where
  "emptyPlan i r = \<lparr>planTransactionId = i, planBaseRevision = r, cellChanges = [], sheetRenames = [],
     structuralChanges = [], formatChanges = [], warnings = []\<rparr>"

definition samplePlan :: ChangePlan where
  "samplePlan = (emptyPlan ''t1'' 3)\<lparr>cellChanges := [\<lparr>ccSheetId = ''s1'', ccAddress = ''A1'',
     ccBefore = plainCell (Num 5), ccAfter = plainCell (Str ''x'')\<rparr>]\<rparr>"

lemma sample_ids: "idsOk sampleBook"
  by (simp add: idsOk_def sampleBook_def blankSheet_def)

lemma sample_sheet: "findSheet sampleBook ''s1'' =
    Inr (blankSheet ''s1'' ''Sales'' [(''A1'', plainCell (Num 5)), (''B2'', formulaCell ''=A1*2'')])"
  by (simp add: findSheet_def sampleBook_def blankSheet_def)

lemma sample_apply: "\<exists>ad' receipt. apply' noText noNumber sampleAdapter samplePlan = Inr (ad', receipt)"
  by (simp add: apply'_def sampleAdapter_def newAdapter_def samplePlan_def emptyPlan_def applyChanges_def applyCellChange_def
      replaceCell_def sample_sheet Let_def) (simp add: sampleBook_def)

section \<open>Filling and copying\<close>

text \<open>Filling tiles the source over the target: every target cell gets the content of the
  source cell at its offset modulo the size of the source, formulas with their references moved by
  the distance, and no other cell changes. Where the target covers the source, a source cell is
  its own tile.\<close>

theorem fill_tiles:
  assumes run: "planFill pl op' = Inr pl'"
    and source: "parseRange (fillSource op') = Inr source" and target: "parseRange (fillTarget op') = Inr target"
    and src: "findSheet (working pl) (orSheet (fillSourceSheetId op') (fillSheetId op')) = Inr src"
  shows "(\<forall>row column. inBounds target row column \<longrightarrow>
      inBounds source (tileRow source target row) (tileColumn source target column)
      \<and> cellIn (working pl') (fillSheetId op') (formatAddress row column) =
        Some (copiedCell (cellOr src (formatAddress (tileRow source target row) (tileColumn source target column)))
          (row - tileRow source target row) (column - tileColumn source target column)))
    \<and> (\<forall>k a. k \<noteq> fillSheetId op' \<or> a \<notin> set (rangeAddresses target) \<longrightarrow> cellIn (working pl') k a = cellIn (working pl) k a)
    \<and> (validateFillRange op' = Inr () \<and> orSheet (fillSourceSheetId op') (fillSheetId op') = fillSheetId op' \<longrightarrow>
        (\<forall>row column. inBounds source row column \<and> inBounds target row column \<longrightarrow>
           tileRow source target row = row \<and> tileColumn source target column = column))"
proof -
  note b = parseRange_ok [OF source] parseRange_ok [OF target]
  have "tileRow source target row = row \<and> tileColumn source target column = column"
    if "validateFillRange op' = Inr ()" "orSheet (fillSourceSheetId op') (fillSheetId op') = fillSheetId op'"
      "inBounds source row column" "inBounds target row column" for row column
    using tile_self [OF b that(3)] validateFill_corner [OF that(1) source target that(2,3,4)] by simp
  then show ?thesis using planFill_cells [OF assms] tile_inBounds [OF b(1)] by blast
qed

definition samplePlanning :: Planning where
  "samplePlanning = \<lparr>working = sampleBook, plCells = [], plRenames = [], plStructural = [], plFormats = [], plWarnings = []\<rparr>"

definition sampleFill :: FillRangeOperation where
  "sampleFill = \<lparr>fillSheetId = ''s1'', fillSource = ''B2'', fillSourceSheetId = None, fillTarget = ''B2:B3''\<rparr>"

theorem fill_tiles_witness:
  "\<exists>pl'. planFill samplePlanning sampleFill = Inr pl'
     \<and> cellIn (working pl') ''s1'' (formatAddress 2 1) = Some (copiedCell (formulaCell ''=A1*2'') 1 0)"
proof -
  let ?s = "\<lparr>startRow = 1, startColumn = 1, endRow = 1, endColumn = 1\<rparr>"
  let ?t = "\<lparr>startRow = 1, startColumn = 1, endRow = 2, endColumn = 1\<rparr>"
  let ?src = "blankSheet ''s1'' ''Sales'' [(''A1'', plainCell (Num 5)), (''B2'', formulaCell ''=A1*2'')]"
  have "isOk (planFill samplePlanning sampleFill)" by code_simp
  then obtain pl' where run: "planFill samplePlanning sampleFill = Inr pl'" by (auto simp: isOk_iff)
  have p: "parseRange (fillSource sampleFill) = Inr ?s" "parseRange (fillTarget sampleFill) = Inr ?t" by code_simp+
  have f: "findSheet (working samplePlanning) (orSheet (fillSourceSheetId sampleFill) (fillSheetId sampleFill)) = Inr ?src"
    by (simp add: samplePlanning_def sampleFill_def orSheet_def sample_sheet)
  have "formatAddress 1 1 = ''B2''" by code_simp
  moreover have "inBounds ?t 2 1" by (simp add: inBounds_def)
  with fill_tiles [OF run p f] have "cellIn (working pl') ''s1'' (formatAddress 2 1) =
      Some (copiedCell (cellOr ?src (formatAddress (tileRow ?s ?t 2) (tileColumn ?s ?t 1))) (2 - tileRow ?s ?t 2) (1 - tileColumn ?s ?t 1))"
    by (simp add: sampleFill_def)
  ultimately show ?thesis using run
    by (simp add: tileRow_def tileColumn_def boundsRows_def boundsColumns_def cellOr_def blankSheet_def)
qed

text \<open>Copying a block writes, row by row from the corner of the target, the source rows that
  pass the filter (all of them without one): the values when there is a filter, otherwise the
  contents with references moved by the distance of the blocks. No other cell changes.\<close>

theorem copy_block:
  assumes "planCopy numStr pl op' = Inr pl'"
    and "parseRange (copySource op') = Inr source" and "copyTargetBounds op' = Inr target"
    and "findSheet (working pl) (orSheet (copySourceSheetId op') (copySheetId op')) = Inr src"
    and "filteredCopySourceRows op' (\<lambda>row column.
       matchableCellText numStr (cellValue (cellOr src (formatAddress row column)))) = Inr (Some rows)"
  shows "(\<forall>k column. k < length rows \<and> startColumn source \<le> column \<and> column \<le> endColumn source \<longrightarrow>
      cellIn (working pl') (copySheetId op')
        (formatAddress (startRow target + int k) (column + (startColumn target - startColumn source))) =
      Some (copyContent op' (cellOr src (formatAddress (rows ! k) column))
        (startRow target - startRow source) (startColumn target - startColumn source)))
    \<and> (\<forall>k a. k \<noteq> copySheetId op' \<or> a \<notin> set (rangeAddresses (copiedBlock source target (length rows))) \<longrightarrow>
        cellIn (working pl') k a = cellIn (working pl) k a)"
  by (rule planCopy_cells [OF assms])

definition sampleCopy :: CopyRangeOperation where
  "sampleCopy = \<lparr>copySheetId = ''s2'', copySource = ''B2'', copySourceSheetId = Some ''s1'', copyTarget = ''D4'',
     filterColumn = None, filterValues = None\<rparr>"

theorem copy_block_witness:
  "\<exists>pl'. planCopy noText samplePlanning sampleCopy = Inr pl' \<and>
     cellIn (working pl') ''s2'' (formatAddress 3 3) = Some (copyContent sampleCopy (formulaCell ''=A1*2'') 2 2)"
proof -
  let ?s = "\<lparr>startRow = 1, startColumn = 1, endRow = 1, endColumn = 1\<rparr>"
  let ?t = "\<lparr>startRow = 3, startColumn = 3, endRow = 3, endColumn = 3\<rparr>"
  let ?src = "blankSheet ''s1'' ''Sales'' [(''A1'', plainCell (Num 5)), (''B2'', formulaCell ''=A1*2'')]"
  have "isOk (planCopy noText samplePlanning sampleCopy)" by code_simp
  then obtain pl' where run: "planCopy noText samplePlanning sampleCopy = Inr pl'" by (auto simp: isOk_iff)
  have p: "parseRange (copySource sampleCopy) = Inr ?s" "copyTargetBounds sampleCopy = Inr ?t" by code_simp+
  have f: "findSheet (working samplePlanning) (orSheet (copySourceSheetId sampleCopy) (copySheetId sampleCopy)) = Inr ?src"
    by (simp add: samplePlanning_def sampleCopy_def orSheet_def sample_sheet)
  have r: "filteredCopySourceRows sampleCopy (\<lambda>row column.
      matchableCellText noText (cellValue (cellOr ?src (formatAddress row column)))) = Inr (Some [1])" by code_simp
  have "formatAddress 1 1 = ''B2''" by code_simp
  moreover have "cellIn (working pl') (copySheetId sampleCopy) (formatAddress (startRow ?t + int 0) (1 + (startColumn ?t - startColumn ?s)))
      = Some (copyContent sampleCopy (cellOr ?src (formatAddress ([1] ! 0) 1)) (startRow ?t - startRow ?s) (startColumn ?t - startColumn ?s))"
    using conjunct1 [OF copy_block [OF run p f r], rule_format, of 0 1] by simp
  ultimately show ?thesis using run by (simp add: sampleCopy_def cellOr_def blankSheet_def)
qed

section \<open>Rows and columns\<close>

text \<open>C10: Inserting or deleting rows or columns is one map over the sheets: on its own sheet the
  cells and styles move to their shifted addresses or disappear, on every sheet the references of
  formulas are shifted, and names, charts and the revision stay.\<close>

theorem grid_shift_refines:
  assumes "applyStructuralOp snap op' = Inr (snap', errs)" "shiftSpecForOp op' = Inr (Some spec)" "structuralOk op'"
    "recordsOk snap" "findSheet snap (gridSheet op') = Inr sheet"
  shows "map gridView (sheets snap') = map (shiftedView op' spec (wsName sheet)) (sheets snap)
    \<and> revision snap' = revision snap"
  by (rule structural_shift_view [OF assms])

lemma isAddress_check:
  "(case parseAddress a of Inl _ \<Rightarrow> False | Inr p \<Rightarrow> formatAddress (cellRow p) (cellColumn p) = a) \<Longrightarrow> isAddress a"
  using parseAddress_bounds [of a] by (force simp: isAddress_def split: sum.splits)

lemma sample_addresses: "isAddress ''A1''" "isAddress ''B2''" "isAddress ''B7''"
  by (rule isAddress_check, code_simp)+

lemma sample_records: "recordsOk sampleBook"
  using sample_addresses by (simp add: recordsOk_def sheetRecordsOk_def cellRecord_def wfObj_def sampleBook_def blankSheet_def optOk_def)

theorem grid_shift_refines_witness:
  "\<exists>snap' errs. applyStructuralOp sampleBook (InsertRows ''s1'' 1 2) = Inr (snap', errs) \<and>
     map gridView (sheets snap') = map (shiftedView (InsertRows ''s1'' 1 2) \<lparr>axis = RowAxis, shiftStart = 0, shiftDelta = 2\<rparr> ''Sales'')
       (sheets sampleBook)"
proof -
  have "isOk (applyStructuralOp sampleBook (InsertRows ''s1'' 1 2))" by code_simp
  then obtain snap' errs where run: "applyStructuralOp sampleBook (InsertRows ''s1'' 1 2) = Inr (snap', errs)"
    by (auto simp: isOk_iff)
  have "shiftSpecForOp (InsertRows ''s1'' 1 2) = Inr (Some \<lparr>axis = RowAxis, shiftStart = 0, shiftDelta = 2\<rparr>)"
    "structuralOk (InsertRows ''s1'' 1 2)" by code_simp+
  from grid_shift_refines [OF run this sample_records, of "blankSheet ''s1'' ''Sales'' [(''A1'', plainCell (Num 5)), (''B2'', formulaCell ''=A1*2'')]"]
  show ?thesis using run by (simp add: sample_sheet) (simp add: blankSheet_def)
qed

text \<open>Deleting the rows just inserted gives every cell record back, entry by entry; a cell
  keeps its content on the way, at the address its position moves to.\<close>

theorem record_insert_delete:
  assumes ok: "cellRecord rec" and op: "structuralOk (InsertRows sid row n)"
  shows "bindE (shiftAddressedRecord rec (InsertRows sid row n)) (\<lambda>moved. shiftAddressedRecord moved (DeleteRows sid row n)) = Inr rec
    \<and> (\<forall>moved r c. shiftAddressedRecord rec (InsertRows sid row n) = Inr moved \<and> 0 \<le> r \<and> 0 \<le> c \<longrightarrow>
        map_of moved (formatAddress (if r < row - 1 then r else r + n) c) = map_of rec (formatAddress r c))"
proof -
  let ?ins = "\<lparr>axis = RowAxis, shiftStart = row - 1, shiftDelta = n\<rparr>"
  let ?del = "\<lparr>axis = RowAxis, shiftStart = row - 1, shiftDelta = - n\<rparr>"
  have rn: "1 \<le> row" "0 < n" using op by (auto simp: insertRowsOk_def intIn_def)
  have del: "structuralOk (DeleteRows sid row n)" using op by (simp add: insertRowsOk_def deleteRowsOk_def)
  have spec: "shiftSpecForOp (InsertRows sid row n) = Inr (Some ?ins)" "shiftSpecForOp (DeleteRows sid row n) = Inr (Some ?del)"
    by simp_all
  have ins: "shiftAddressedRecord rec (InsertRows sid row n) = Inr (movedRecord ?ins rec)"
    by (rule shiftAddressedRecord_moved [OF spec(1) op ok])
  have "cellRecord (movedRecord ?ins rec)" using movedRecord_cellRecord [OF ok] rn by simp
  from shiftAddressedRecord_moved [OF spec(2) del this]
  have "shiftAddressedRecord (movedRecord ?ins rec) (DeleteRows sid row n) = Inr rec"
    using movedRecord_back [of rec n "row - 1" RowAxis] ok rn by (simp add: cellRecord_def)
  moreover have "map_of (movedRecord ?ins rec) (formatAddress (if r < row - 1 then r else r + n) c) = map_of rec (formatAddress r c)"
    if "0 \<le> r" "0 \<le> c" for r c
    by (rule movedRecord_lookup [OF ok _ _ _ that]) (use rn in \<open>simp_all add: movePos_def shiftIndex_def\<close>)
  ultimately show ?thesis by (simp add: ins)
qed

theorem record_insert_delete_witness:
  "bindE (shiftAddressedRecord [(''A1'', Num 5), (''B7'', Null)] (InsertRows ''s1'' 3 2))
     (\<lambda>moved. shiftAddressedRecord moved (DeleteRows ''s1'' 3 2)) = Inr [(''A1'', Num 5), (''B7'', Null)]"
proof -
  have "structuralOk (InsertRows ''s1'' 3 2)" by code_simp
  moreover have "cellRecord [(''A1'', Num 5), (''B7'', Null)]"
    using sample_addresses by (simp add: cellRecord_def wfObj_def)
  ultimately show ?thesis using record_insert_delete [of "[(''A1'', Num 5), (''B7'', Null)]"] by blast
qed

section \<open>Merges and formats\<close>

text \<open>C11: In every state that the adapter reaches from a workbook whose merged ranges are proper
  and pairwise disjoint, through commits of schema-checked plans, undos and direct edits, the merged
  ranges of every sheet are proper and pairwise disjoint, in the snapshot and in the whole history.\<close>

theorem merges_stay_apart:
  assumes "checkedRun numStr toNum snap ad" "mergesOk snap"
  shows "\<forall>s\<in>set (snapshot ad # history ad). mergesOk s"
  by (rule checkedRun_merges [OF assms])

definition mergePlan :: ChangePlan where
  "mergePlan = (emptyPlan ''t1'' 3)\<lparr>structuralChanges :=
     [\<lparr>scOp = Layout (MergeCells ''s1'' ''B2:C3''), scLabel = []\<rparr>,
      \<lparr>scOp = Structural (InsertRows ''s1'' 3 2), scLabel = []\<rparr>]\<rparr>"

theorem merges_stay_apart_witness:
  "\<exists>ad' receipt. apply' noText noNumber sampleAdapter mergePlan = Inr (ad', receipt) \<and> mergesOk (snapshot ad')"
proof -
  have "isOk (apply' noText noNumber sampleAdapter mergePlan)" by code_simp
  then obtain ad' receipt where run: "apply' noText noNumber sampleAdapter mergePlan = Inr (ad', receipt)"
    by (auto simp: isOk_iff)
  have "planOk mergePlan" by code_simp
  from checkedRun.commit [OF _ this run] have "checkedRun noText noNumber sampleBook ad'"
    using checkedRun.fresh [of noText noNumber sampleBook] by (simp add: sampleAdapter_def)
  moreover have "mergesOk sampleBook" by (simp add: mergesOk_def sampleBook_def blankSheet_def)
  ultimately show ?thesis using merges_stay_apart run by force
qed

text \<open>A format operation merges its patch into the style of every cell of its range, property
  by property (a null value clears one, an absent one keeps it), and changes no other style.\<close>

theorem format_range_styles:
  assumes "applyFormatRange snap sid rng format = Inr snap'" "parseRange rng = Inr b" "distinct (map fst format)"
  shows "formatValue (styleIn snap' k a) key =
    (if k = sid \<and> a \<in> set (rangeAddresses b)
     then (case map_of format key of None \<Rightarrow> formatValue (styleIn snap sid a) key | Some v \<Rightarrow> v)
     else formatValue (styleIn snap k a) key)"
  using applyFormatRange_styles [OF assms(1,2), of k a] mergeFormat_value [OF assms(3)] by simp

theorem format_range_styles_witness:
  "\<exists>snap'. applyFormatRange sampleBook ''s1'' ''A1:B2'' [(''bold'', Some (FBool True))] = Inr snap'
     \<and> formatValue (styleIn snap' ''s1'' ''A2'') ''bold'' = Some (FBool True)"
proof -
  let ?b = "\<lparr>startRow = 0, startColumn = 0, endRow = 1, endColumn = 1\<rparr>"
  have "isOk (applyFormatRange sampleBook ''s1'' ''A1:B2'' [(''bold'', Some (FBool True))])" by code_simp
  then obtain snap' where run: "applyFormatRange sampleBook ''s1'' ''A1:B2'' [(''bold'', Some (FBool True))] = Inr snap'"
    by (auto simp: isOk_iff)
  have "parseRange ''A1:B2'' = Inr ?b" "''A2'' \<in> set (rangeAddresses ?b)" by code_simp+
  with format_range_styles [OF run, of ?b "''s1''" "''A2''" "''bold''"] run show ?thesis by simp
qed

section \<open>Planning and committing\<close>

text \<open>C6: What was planned is what gets committed. A plan of a batch whose primitive operations
  neither shift rows, columns and sheets nor build charts, or are all structural, can be applied to
  the snapshot it was planned on, and the committed workbook is the working copy of the plan with
  the next revision.\<close>

theorem plan_apply_agree:
  assumes run: "plan numStr toNum lc parseBatch ad input = Inr p" and batch: "parseBatch input = Inr batch"
    and prims: "expandToPrimitiveOps numStr lc (operations batch) (Some (readCellOf (snapshot ad))) = Inr ps"
    and sep: "list_all separable ps \<or> list_all isStructuralOp ps" and ok: "idsOk (snapshot ad)"
  shows "\<exists>pl ad' receipt. planOperations numStr toNum lc (snapshot ad) (operations batch) = Inr pl
    \<and> apply' numStr toNum ad p = Inr (ad', receipt)
    \<and> snapshot ad' = (working pl)\<lparr>revision := revision (snapshot ad) + 1\<rparr>"
proof -
  from run batch obtain pl where pl: "planOperations numStr toNum lc (snapshot ad) (operations batch) = Inr pl"
    and p: "p = \<lparr>planTransactionId = transactionId batch, planBaseRevision = baseRevision batch,
            cellChanges = plCells pl, sheetRenames = plRenames pl, structuralChanges = plStructural pl,
            formatChanges = plFormats pl, warnings = plWarnings pl\<rparr>"
    and current: "baseRevision batch = revision (snapshot ad)" "transactionId batch \<notin> set (committedTransactions ad)"
    by (auto simp: plan_def res_simps)
  have changes: "applyChanges numStr toNum (snapshot ad) p = Inr (working pl)"
    by (rule planOperations_applied [OF pl prims sep ok]) (simp_all add: p)
  have "revision (working pl) = revision (snapshot ad)" using applyChanges_ok [OF changes ok] by simp
  with changes current show ?thesis using pl by (simp add: apply'_def p Let_def)
qed

definition sampleBatch :: WorkbookCommandBatch where
  "sampleBatch = \<lparr>dslVersion = 1, transactionId = ''t1'', baseRevision = 3, summary = ''edit'', operations =
     [Primitive (Content (SetCell ''s1'' ''A1'' (Num 9) (Some (Num 5)))), Primitive (RenameSheet ''s2'' ''Log''),
      Primitive (Layout (MergeCells ''s1'' ''C1:D1''))]\<rparr>"

theorem plan_apply_agree_witness:
  "\<exists>p ad' receipt. plan noText noNumber (\<lambda>_ _. 0) Inr sampleAdapter sampleBatch = Inr p
     \<and> apply' noText noNumber sampleAdapter p = Inr (ad', receipt)"
proof -
  let ?ps = "[Content (SetCell ''s1'' ''A1'' (Num 9) (Some (Num 5))), RenameSheet ''s2'' ''Log'', Layout (MergeCells ''s1'' ''C1:D1'')]"
  have "isOk (plan noText noNumber (\<lambda>_ _. 0) Inr sampleAdapter sampleBatch)" by code_simp
  then obtain p where p: "plan noText noNumber (\<lambda>_ _. 0) Inr sampleAdapter sampleBatch = Inr p" by (auto simp: isOk_iff)
  have e: "expandToPrimitiveOps noText (\<lambda>_ _. 0) (operations sampleBatch) (Some (readCellOf (snapshot sampleAdapter))) = Inr ?ps"
    by code_simp
  have "idsOk (snapshot sampleAdapter)" using sample_ids by (simp add: sampleAdapter_def newAdapter_def)
  from plan_apply_agree [OF p refl e _ this] p show ?thesis by auto
qed

text \<open>C12: A plan made for another revision, or whose transaction was committed, is refused; once a
  plan is committed it cannot be committed again and no batch with its transaction can be planned;
  undo is refused exactly when there is nothing to undo.\<close>

theorem commits_guarded:
  "(planBaseRevision p \<noteq> revision (snapshot ad) \<or> planTransactionId p \<in> set (committedTransactions ad) \<longrightarrow>
      (\<exists>m. apply' numStr toNum ad p = Inl (WorkbookConflictError m)))
   \<and> (apply' numStr toNum ad p = Inr (ad', receipt) \<longrightarrow> \<not> isOk (apply' numStr toNum ad' p)
       \<and> (\<forall>input batch. parseBatch input = Inr batch \<and> transactionId batch = planTransactionId p \<longrightarrow>
            \<not> isOk (plan numStr toNum lc parseBatch ad' input)))
   \<and> (canUndo ad \<longleftrightarrow> isOk (undo ad))"
proof -
  have refuse: "\<exists>m. apply' numStr toNum a p = Inl (WorkbookConflictError m)"
    if "planBaseRevision p \<noteq> revision (snapshot a) \<or> planTransactionId p \<in> set (committedTransactions a)" for a
    using that by (auto simp: apply'_def throwIf_def alreadyCommitted_def)
  have again: "\<not> isOk (plan numStr toNum lc parseBatch a input)"
    if "parseBatch input = Inr batch" "transactionId batch \<in> set (committedTransactions a)" for a input batch
    using that by (simp add: plan_def throwIf_def)
  have committed: "planTransactionId p \<in> set (committedTransactions ad')" if "apply' numStr toNum ad p = Inr (ad', receipt)"
    by (rule apply_Inr [OF that]) simp
  show ?thesis
  proof (intro conjI impI allI)
    assume run: "apply' numStr toNum ad p = Inr (ad', receipt)"
    from refuse [of ad'] committed [OF run] obtain m where "apply' numStr toNum ad' p = Inl (WorkbookConflictError m)" by blast
    then show "\<not> isOk (apply' numStr toNum ad' p)" by simp
    fix input batch assume "parseBatch input = Inr batch \<and> transactionId batch = planTransactionId p"
    with again committed [OF run] show "\<not> isOk (plan numStr toNum lc parseBatch ad' input)" by simp
  qed (use refuse canUndo_iff in blast)+
qed

theorem commits_guarded_witness:
  "(\<exists>m. apply' noText noNumber sampleAdapter (emptyPlan ''t'' 2) = Inl (WorkbookConflictError m))
   \<and> (\<exists>ad' receipt. apply' noText noNumber sampleAdapter samplePlan = Inr (ad', receipt)
        \<and> \<not> isOk (apply' noText noNumber ad' samplePlan))"
proof -
  obtain ad' receipt where run: "apply' noText noNumber sampleAdapter samplePlan = Inr (ad', receipt)"
    using sample_apply by blast
  have "planBaseRevision (emptyPlan ''t'' 2) \<noteq> revision (snapshot sampleAdapter)"
    by (simp add: emptyPlan_def sampleAdapter_def newAdapter_def sampleBook_def)
  then have "\<exists>m. apply' noText noNumber sampleAdapter (emptyPlan ''t'' 2) = Inl (WorkbookConflictError m)"
    by (rule conjunct1 [OF commits_guarded, rule_format, OF disjI1])
  moreover have "\<not> isOk (apply' noText noNumber ad' samplePlan)"
    using conjunct1 [OF conjunct2 [OF commits_guarded], rule_format, OF run] by (rule conjunct1)
  ultimately show ?thesis using run by blast
qed

section \<open>The adapter as a machine\<close>

text \<open>C7: In every state reached from a fresh adapter the receipts of the audit log form one chain
  of revisions from the first to the current one, the committed transactions are those of the
  applied receipts and are distinct, there is one history entry for each commit not yet undone, sheet
  ids are distinct in every snapshot kept, and no snapshot of the history is as recent as the
  current one.\<close>

theorem adapter_states_ok:
  assumes "adapterRun numStr toNum snap ad" "idsOk snap"
  shows "adapterOk (revision snap) ad"
  by (rule adapterRun_ok [OF assms])

theorem adapter_states_ok_witness:
  "\<exists>ad1 ad2 r1 r2. apply' noText noNumber sampleAdapter samplePlan = Inr (ad1, r1) \<and> undo ad1 = Inr (ad2, r2)
     \<and> adapterOk 3 ad2"
proof -
  obtain ad1 r1 where 1: "apply' noText noNumber sampleAdapter samplePlan = Inr (ad1, r1)" using sample_apply by blast
  have "isOk (undo ad1)" by (rule apply_Inr [OF 1]) (simp add: undo_def Let_def)
  then obtain ad2 r2 where 2: "undo ad1 = Inr (ad2, r2)" by (auto simp: isOk_iff)
  have "adapterRun noText noNumber sampleBook sampleAdapter" unfolding sampleAdapter_def by (rule adapterRun.new)
  note adapterRun.step [OF adapterRun.step [OF this adapterStep.applied [OF 1]] adapterStep.undone [OF 2]]
  from adapter_states_ok [OF this sample_ids] have "adapterOk 3 ad2" by (simp add: sampleBook_def)
  with 1 2 show ?thesis by (intro exI conjI)
qed

text \<open>C9: The adapter is an undo machine: in every state reached from a fresh adapter, a commit, an
  undo or a direct edit of a visual is accepted exactly when the machine has a step for this call, and
  then leads to the machine's next state. A commit whose base revision is the current one, whose
  transaction is new and whose changes apply pushes the content and installs the changed one, an undo
  pops the last content pushed, each raising the revision, and an edit changes one visual and nothing
  else.\<close>

theorem adapter_refines_undo_stack:
  assumes "adapterRun numStr toNum snap ad" "idsOk snap"
  shows "undoStep numStr toNum call (undoMachine ad) u \<longleftrightarrow>
    (\<exists>ad'. adapterCall numStr toNum ad call = Inr ad' \<and> undoMachine ad' = u)"
  using adapterRun_ok [OF assms] by (intro adapterCall_undoStep) (simp add: adapterOk_def)

theorem adapter_refines_undo_stack_witness:
  "\<exists>ad'. adapterCall noText noNumber sampleAdapter (CommitCall samplePlan) = Inr ad'
     \<and> umStack (undoMachine ad') = [sheets sampleBook]
     \<and> undoStep noText noNumber UndoCall (undoMachine ad')
         \<lparr>umRevision = umRevision (undoMachine ad') + 1, umCommitted = umCommitted (undoMachine ad'),
          umContent = sheets sampleBook, umStack = []\<rparr>"
proof -
  obtain ad' receipt where run: "apply' noText noNumber sampleAdapter samplePlan = Inr (ad', receipt)"
    using sample_apply by blast
  have h: "history ad' = [sampleBook]" by (rule apply_Inr [OF run]) (simp add: sampleAdapter_def newAdapter_def)
  obtain ad'' r where undone: "undo ad' = Inr (ad'', r)" "undoMachine ad''
      = \<lparr>umRevision = umRevision (undoMachine ad') + 1, umCommitted = umCommitted (undoMachine ad'),
         umContent = sheets sampleBook, umStack = []\<rparr>"
    using h by (simp add: undo_def Let_def undoMachine_def)
  have "adapterRun noText noNumber sampleBook ad'"
    unfolding sampleAdapter_def by (rule adapterRun.step [OF adapterRun.new adapterStep.applied [OF run [unfolded sampleAdapter_def]]])
  from adapter_refines_undo_stack [OF this sample_ids, of UndoCall] undone
  have "undoStep noText noNumber UndoCall (undoMachine ad') (undoMachine ad'')" by (auto simp: adapterCall_def)
  then show ?thesis using run h undone(2) by (simp add: adapterCall_def undoMachine_def)
qed

text \<open>C8: Whatever was committed, with direct edits in between, as many undos as there were commits
  all succeed and bring undone the content of the workbook and the history that were there before.\<close>

theorem undo_restores:
  assumes "commitAll numStr toNum ad ps = Inr ad'" "ps \<noteq> []"
  shows "\<exists>ad''. undoAll (length ps) ad' = Inr ad'' \<and> sheets (snapshot ad'') = sheets (snapshot ad)
    \<and> map sheets (history ad'') = map sheets (history ad)"
  using commits_undone [OF assms] by (auto simp: undoView_def)

theorem undo_restores_witness:
  "\<exists>ad' ad''. commitAll noText noNumber sampleAdapter [(samplePlan, []), (emptyPlan ''t2'' 4, [(''chart'', None)])] = Inr ad'
     \<and> undoAll 2 ad' = Inr ad'' \<and> sheets (snapshot ad'') = sheets sampleBook"
proof -
  have "isOk (commitAll noText noNumber sampleAdapter [(samplePlan, []), (emptyPlan ''t2'' 4, [(''chart'', None)])])" by code_simp
  then obtain ad' where run: "commitAll noText noNumber sampleAdapter [(samplePlan, []), (emptyPlan ''t2'' 4, [(''chart'', None)])] = Inr ad'"
    by (auto simp: isOk_iff)
  from undo_restores [OF this] run show ?thesis
    by (simp add: numeral_2_eq_2 sampleAdapter_def newAdapter_def del: commitAll.simps undoAll.simps) blast
qed

end
