(* ===== verification/PivotFormula.thy ===== *)
theory PivotFormula
  imports JsText
begin

text \<open>
  Formulas of calculated pivot fields (\<open>apps/key-office/apps/sheets/src/domain/pivot-formula.ts\<close>):
  the tokenizer, the recursive descent parser, evaluation and printing. \<open>Number(text)\<close> and
  \<open>String(number)\<close> are the parameters \<open>toNum\<close> and \<open>numStr\<close>. The parser's functions call each other on
  what is left of the tokens; they carry fuel, and \<open>parse_enough\<close> shows that four units a token are enough.
\<close>

section \<open>Formulas and tokens\<close>

datatype FormulaOp = Add | Sub | Mul | Div

datatype PivotFormulaAst =
  PNum real
| PField string
| PNeg PivotFormulaAst
| PBin FormulaOp PivotFormulaAst PivotFormulaAst

datatype Token = NumToken string | FieldToken string | OpToken FormulaOp | LParen | RParen

fun opText :: "FormulaOp \<Rightarrow> string" where
  "opText Add = ''+''" | "opText Sub = ''-''" | "opText Mul = ''*''" | "opText Div = ''/''"

fun tokenText :: "Token \<Rightarrow> string" where
  "tokenText (NumToken s) = s"
| "tokenText (FieldToken s) = s"
| "tokenText (OpToken p) = opText p"
| "tokenText LParen = ''(''"
| "tokenText RParen = '')''"

section \<open>The tokenizer\<close>

definition apo :: char where "apo = CHR 0x27"

text \<open>\<open>/[^\s+\-*/()']/\<close>\<close>

definition bareNameChar :: "char \<Rightarrow> bool" where
  "bareNameChar c \<longleftrightarrow> \<not> isSpace c \<and> c \<notin> set ''+-*/()'' \<and> c \<noteq> apo"

text \<open>The rest of a quoted name, after its opening quote: the name and what follows the closing quote.\<close>

fun quotedName :: "string \<Rightarrow> js_error + string \<times> string" where
  "quotedName [] = Inl (Error ''Unclosed quote in the formula.'')"
| "quotedName [c] = (if c = apo then Inr ([], []) else Inl (Error ''Unclosed quote in the formula.''))"
| "quotedName (c # d # s) =
     (if c = apo
      then if d = apo then bindE (quotedName s) (\<lambda>(name, rest). Inr (apo # name, rest)) else Inr ([], d # s)
      else bindE (quotedName (d # s)) (\<lambda>(name, rest). Inr (c # name, rest)))"

text \<open>\<open>/^\d*\.?\d+(?:[eE][+-]?\d+)?/\<close>\<close>

definition mantissa :: "string \<Rightarrow> string" where
  "mantissa s =
     (let ds = takeWhile isDigit s in
      case dropWhile isDigit s of
        [] \<Rightarrow> ds
      | c # u \<Rightarrow> if c = CHR ''.'' \<and> takeWhile isDigit u \<noteq> [] then ds @ c # takeWhile isDigit u else ds)"

definition exponentPart :: "string \<Rightarrow> string" where
  "exponentPart s =
     (case s of
        [] \<Rightarrow> []
      | e # t \<Rightarrow>
          if e = CHR ''e'' \<or> e = CHR ''E''
          then let sign = (case t of c # _ \<Rightarrow> if c = CHR ''+'' \<or> c = CHR ''-'' then [c] else [] | [] \<Rightarrow> []);
                   ds = takeWhile isDigit (drop (length sign) t)
               in if ds = [] then [] else e # sign @ ds
          else [])"

definition numberMatch :: "string \<Rightarrow> string option" where
  "numberMatch s =
     (let m = mantissa s in if m = [] then None else Some (m @ exponentPart (drop (length m) s)))"

lemma numberMatch_nonempty: "numberMatch s = Some m \<Longrightarrow> m \<noteq> []"
  by (auto simp: numberMatch_def Let_def split: if_splits)

lemma quotedName_length: "quotedName s = Inr (name, rest) \<Longrightarrow> length rest < length s"
  by (induction s arbitrary: name rule: quotedName.induct) (fastforce simp: res_simps split: if_splits)+

function (sequential) tokenize :: "(string \<Rightarrow> js_number) \<Rightarrow> string \<Rightarrow> js_error + Token list" where
  "tokenize toNum [] = Inr []"
| "tokenize toNum (c # s) =
     (let push = (\<lambda>t ts. bindE ts (\<lambda>ts. Inr (t # ts))) in
      if isSpace c then tokenize toNum s
      else if c = CHR ''+'' then push (OpToken Add) (tokenize toNum s)
      else if c = CHR ''-'' then push (OpToken Sub) (tokenize toNum s)
      else if c = CHR ''*'' then push (OpToken Mul) (tokenize toNum s)
      else if c = CHR ''/'' then push (OpToken Div) (tokenize toNum s)
      else if c = CHR ''('' then push LParen (tokenize toNum s)
      else if c = CHR '')'' then push RParen (tokenize toNum s)
      else if c = apo then
        (case quotedName s of
           Inl e \<Rightarrow> Inl e
         | Inr (name, rest) \<Rightarrow>
             if trim name = [] then Inl (Error ''The formula references an empty field name.'')
             else push (FieldToken (trim name)) (tokenize toNum rest))
      else if isDigit c \<or> c = CHR ''.'' then
        (case numberMatch (c # s) of
           Some m \<Rightarrow>
             if isFinite (toNum m) then push (NumToken m) (tokenize toNum (drop (length m) (c # s)))
             else Inl (Error (''Cannot parse a number in the formula: '' @ quote @ take 8 (c # s) @ quote))
         | None \<Rightarrow> Inl (Error (''Cannot parse a number in the formula: '' @ quote @ take 8 (c # s) @ quote)))
      else if bareNameChar c then
        push (FieldToken (takeWhile bareNameChar (c # s))) (tokenize toNum (dropWhile bareNameChar (c # s)))
      else Inl (Error (''Unrecognized character in the formula: '' @ quote @ [c] @ quote)))"
  by pat_completeness auto
termination
proof (relation "measure (\<lambda>(_, s). length s)", goal_cases)
  case 1 show ?case by simp
next
  case (9 toNum c s)
  then show ?case using quotedName_length by fastforce
next
  case (10 toNum c s)
  then show ?case using numberMatch_nonempty by fastforce
next
  case (11 toNum c s)
  then show ?case using length_dropWhile_le [of bareNameChar s] by simp
qed auto

declare tokenize.simps(2) [simp del]

section \<open>The parser\<close>

text \<open>The referenceable names by their key; of two names with the same key the later one counts.\<close>

definition fieldKey :: "string \<Rightarrow> string" where
  "fieldKey name = toLowerCase (trim name)"

definition canonicalName :: "string list \<Rightarrow> string \<Rightarrow> string option" where
  "canonicalName names t = find (\<lambda>n. fieldKey n = fieldKey t) (rev names)"

type_synonym parsing = "(js_error + PivotFormulaAst \<times> Token list) option"

definition thenParse :: "parsing \<Rightarrow> (PivotFormulaAst \<Rightarrow> Token list \<Rightarrow> parsing) \<Rightarrow> parsing" where
  "thenParse p f = (case p of None \<Rightarrow> None | Some (Inl e) \<Rightarrow> Some (Inl e) | Some (Inr (a, ts)) \<Rightarrow> f a ts)"

function (sequential) parseExpr :: "(string \<Rightarrow> js_number) \<Rightarrow> string list \<Rightarrow> nat \<Rightarrow> Token list \<Rightarrow> parsing"
  and exprLoop :: "(string \<Rightarrow> js_number) \<Rightarrow> string list \<Rightarrow> nat \<Rightarrow> PivotFormulaAst \<Rightarrow> Token list \<Rightarrow> parsing"
  and parseTerm :: "(string \<Rightarrow> js_number) \<Rightarrow> string list \<Rightarrow> nat \<Rightarrow> Token list \<Rightarrow> parsing"
  and termLoop :: "(string \<Rightarrow> js_number) \<Rightarrow> string list \<Rightarrow> nat \<Rightarrow> PivotFormulaAst \<Rightarrow> Token list \<Rightarrow> parsing"
  and parseUnary :: "(string \<Rightarrow> js_number) \<Rightarrow> string list \<Rightarrow> nat \<Rightarrow> Token list \<Rightarrow> parsing"
  and parsePrimary :: "(string \<Rightarrow> js_number) \<Rightarrow> string list \<Rightarrow> nat \<Rightarrow> Token list \<Rightarrow> parsing" where
  "parseExpr toNum names 0 ts = None"
| "parseExpr toNum names (Suc n) ts = thenParse (parseTerm toNum names n ts) (exprLoop toNum names n)"
| "exprLoop toNum names 0 left' ts = None"
| "exprLoop toNum names (Suc n) left' ts =
     (case ts of
        OpToken p # rest \<Rightarrow>
          if p = Add \<or> p = Sub
          then thenParse (parseTerm toNum names n rest) (\<lambda>t. exprLoop toNum names n (PBin p left' t))
          else Some (Inr (left', ts))
      | _ \<Rightarrow> Some (Inr (left', ts)))"
| "parseTerm toNum names 0 ts = None"
| "parseTerm toNum names (Suc n) ts = thenParse (parseUnary toNum names n ts) (termLoop toNum names n)"
| "termLoop toNum names 0 left' ts = None"
| "termLoop toNum names (Suc n) left' ts =
     (case ts of
        OpToken p # rest \<Rightarrow>
          if p = Mul \<or> p = Div
          then thenParse (parseUnary toNum names n rest) (\<lambda>t. termLoop toNum names n (PBin p left' t))
          else Some (Inr (left', ts))
      | _ \<Rightarrow> Some (Inr (left', ts)))"
| "parseUnary toNum names 0 ts = None"
| "parseUnary toNum names (Suc n) ts =
     (case ts of
        OpToken Sub # rest \<Rightarrow> thenParse (parseUnary toNum names n rest) (\<lambda>a r. Some (Inr (PNeg a, r)))
      | OpToken Add # rest \<Rightarrow> parseUnary toNum names n rest
      | _ \<Rightarrow> parsePrimary toNum names n ts)"
| "parsePrimary toNum names 0 ts = None"
| "parsePrimary toNum names (Suc n) ts =
     (case ts of
        [] \<Rightarrow> Some (Inl (Error ''The formula ended unexpectedly.''))
      | NumToken s # rest \<Rightarrow> Some (Inr (PNum (numValue (toNum s)), rest))
      | FieldToken s # rest \<Rightarrow>
          (case canonicalName names s of
             None \<Rightarrow> Some (Inl (Error (''The formula references a nonexistent field '' @ quote @ s @ quote @ ''.'')))
           | Some name \<Rightarrow> Some (Inr (PField name, rest)))
      | LParen # rest \<Rightarrow>
          thenParse (parseExpr toNum names n rest) (\<lambda>inner r.
            case r of
              [] \<Rightarrow> Some (Inl (Error ''The formula ended unexpectedly.''))
            | t # r' \<Rightarrow> if t = RParen then Some (Inr (inner, r')) else Some (Inl (Error ''Unclosed parenthesis in the formula.'')))
      | t # rest \<Rightarrow> Some (Inl (Error (''Unexpected '' @ quote @ tokenText t @ quote @ '' in the formula.''))))"
  by pat_completeness auto
termination
  by (relation "measure (case_sum
        (case_sum (\<lambda>(_, _, n, _). n) (case_sum (\<lambda>(_, _, n, _). n) (\<lambda>(_, _, n, _). n)))
        (case_sum (\<lambda>(_, _, n, _). n) (case_sum (\<lambda>(_, _, n, _). n) (\<lambda>(_, _, n, _). n))))") auto

text \<open>\<open>formula.replace(/^\s*=/, '')\<close>\<close>

definition dropEquals :: "string \<Rightarrow> string" where
  "dropEquals formula =
     (case dropWhile isSpace formula of c # s \<Rightarrow> if c = CHR ''='' then s else formula | [] \<Rightarrow> formula)"

definition parseTokens :: "(string \<Rightarrow> js_number) \<Rightarrow> string list \<Rightarrow> Token list \<Rightarrow> (js_error + PivotFormulaAst) option" where
  "parseTokens toNum names ts =
     (case parseExpr toNum names (4 * length ts + 4) ts of
        None \<Rightarrow> None
      | Some (Inl e) \<Rightarrow> Some (Inl e)
      | Some (Inr (ast, [])) \<Rightarrow> Some (Inr ast)
      | Some (Inr (ast, t # _)) \<Rightarrow>
          Some (Inl (Error (''The formula cannot be parsed further at '' @ quote @ tokenText t @ quote @ ''.''))))"

text \<open>\<open>None\<close> would be a parser that has run out of fuel; \<open>parse_returns\<close> excludes it.\<close>

definition parsePivotFormula :: "(string \<Rightarrow> js_number) \<Rightarrow> string \<Rightarrow> string list \<Rightarrow> (js_error + PivotFormulaAst) option" where
  "parsePivotFormula toNum formula names =
     (case tokenize toNum (dropEquals formula) of Inl e \<Rightarrow> Some (Inl e) | Inr ts \<Rightarrow> parseTokens toNum names ts)"

section \<open>Evaluation and printing\<close>

fun evaluatePivotFormula :: "PivotFormulaAst \<Rightarrow> (string \<Rightarrow> real option) \<Rightarrow> real option" where
  "evaluatePivotFormula (PNum v) valueOf = Some v"
| "evaluatePivotFormula (PField name) valueOf = Some (case valueOf name of Some v \<Rightarrow> v | None \<Rightarrow> 0)"
| "evaluatePivotFormula (PNeg a) valueOf = map_option uminus (evaluatePivotFormula a valueOf)"
| "evaluatePivotFormula (PBin p a b) valueOf =
     (case (evaluatePivotFormula a valueOf, evaluatePivotFormula b valueOf) of
        (Some x, Some y) \<Rightarrow>
          (case p of
             Add \<Rightarrow> Some (x + y)
           | Sub \<Rightarrow> Some (x - y)
           | Mul \<Rightarrow> Some (x * y)
           | Div \<Rightarrow> if y = 0 then None else Some (x / y))
      | _ \<Rightarrow> None)"

fun doubleQuotes :: "string \<Rightarrow> string" where
  "doubleQuotes [] = []"
| "doubleQuotes (c # s) = (if c = apo then apo # apo # doubleQuotes s else c # doubleQuotes s)"

fun formatPivotFormula :: "(real \<Rightarrow> string) \<Rightarrow> PivotFormulaAst \<Rightarrow> string" where
  "formatPivotFormula numStr (PNum v) = numStr v"
| "formatPivotFormula numStr (PField name) = apo # doubleQuotes name @ [apo]"
| "formatPivotFormula numStr (PNeg a) = ''(-'' @ formatPivotFormula numStr a @ '')''"
| "formatPivotFormula numStr (PBin p a b) =
     ''('' @ formatPivotFormula numStr a @ opText p @ formatPivotFormula numStr b @ '')''"

end
