(* ===== verification/PivotModel.thy ===== *)
theory PivotModel
  imports PivotFormula WorkbookTypes
begin

text \<open>
  Pivot tables: the definition read from a file (\<open>gateway/xlsx-pivot.ts\<close>, its types), grouping of
  source values (\<open>domain/pivot-grouping.ts\<close>), filters (\<open>domain/pivot-filters.ts\<close>) and the engine
  (\<open>domain/pivot-engine.ts\<close>): recomputing the data area, growing the layout and slicing.

  What the code takes from JavaScript's number and date texts is the record \<open>Js\<close>: \<open>String(number)\<close>,
  \<open>Number(text)\<close> and the year and month of \<open>new Date(Date.parse(text))\<close>. Cells are \<open>CellScalar\<close>s; a cell
  outside a row is \<open>None\<close> (\<open>undefined\<close>). Field numbers of axes are integers, because \<open>-2\<close> marks the data fields.
\<close>

section \<open>Definitions of pivot tables\<close>

record Js =
  numText :: "real \<Rightarrow> string"
  textNum :: "string \<Rightarrow> js_number"
  textDate :: "string \<Rightarrow> (int \<times> int) option"

datatype pivot_error = PivotRefreshError string | TypeError

type_synonym SourceCell = "CellScalar option"
type_synonym SourceRow = "CellScalar list"

datatype PivotDateUnit = UnitYear | UnitQuarter | UnitMonth

datatype PivotFieldGrouping = ByDate PivotDateUnit | ByRange real "real option"  \<comment> \<open>rangeStep, rangeStart?\<close>

record PivotFieldItem =
  itemX :: "nat option"
  itemHidden :: bool

record PivotCacheField =
  fieldName :: string
  sharedItems :: "CellScalar list"
  grouping :: "PivotFieldGrouping option"
  fieldFormula :: "string option"

record PivotLayoutLine =
  lineT :: string
  lineMembers :: "nat option list"
  lineDepth :: nat
  lineDataField :: nat

datatype PivotShowDataAs = PercentOfTotal | PercentOfRow | PercentOfCol

record PivotDataField =
  dataName :: string
  dataSource :: int
  subtotal :: string
  showDataAs :: "PivotShowDataAs option"
  dataFormula :: "string option"

datatype LabelOp = LabelEqual | LabelContains | LabelBeginsWith

datatype ValueOp = TopValues "int option" | GreaterThan "real option" | Between "real option" "real option"

datatype PivotFilterDef =
  LabelFilter int LabelOp string  \<comment> \<open>field, op, value\<close>
| ValueFilter int nat ValueOp  \<comment> \<open>field, dataField, op with its count?, from?, to?\<close>

record PivotDefinition =
  outputRef :: string
  firstDataRow :: nat
  firstDataCol :: nat
  pFields :: "PivotCacheField list"
  fieldItems :: "PivotFieldItem list list"
  rowFields :: "int list"
  colFields :: "int list"
  rowLines :: "PivotLayoutLine list"
  colLines :: "PivotLayoutLine list"
  dataFields :: "PivotDataField list"
  pageFields :: "(int \<times> nat option) list"
  filters :: "PivotFilterDef list"
  sourceSheet :: string
  sourceRef :: string
  unsupported :: "string list"

text \<open>\<open>array[index]\<close>, \<open>undefined\<close> outside.\<close>

definition elemAt :: "'a list \<Rightarrow> int \<Rightarrow> 'a option" where
  "elemAt xs i = (if 0 \<le> i then nthOpt xs (nat i) else None)"

definition refuse :: "string \<Rightarrow> pivot_error + 'a" where
  "refuse message = Inl (PivotRefreshError message)"

section \<open>Texts of cells\<close>

text \<open>\<open>String(value)\<close>\<close>

fun cellText :: "Js \<Rightarrow> SourceCell \<Rightarrow> string" where
  "cellText js None = ''undefined''"
| "cellText js (Some Null) = ''null''"
| "cellText js (Some (Str s)) = s"
| "cellText js (Some (Num x)) = numText js x"
| "cellText js (Some (Boolean b)) = (if b then ''true'' else ''false'')"

text \<open>\<open>value === null || value === undefined || value === ''\<close>\<close>

definition isBlank :: "SourceCell \<Rightarrow> bool" where
  "isBlank v \<longleftrightarrow> v = None \<or> v = Some Null \<or> v = Some (Str [])"

definition blankKey :: string where "blankKey = CHR 0x00 # ''blank''"

definition groupKey :: "Js \<Rightarrow> SourceCell \<Rightarrow> string" where
  "groupKey js v =
     (if isBlank v then blankKey
      else case v of
        Some (Num x) \<Rightarrow> ''n:'' @ numText js x
      | Some (Boolean b) \<Rightarrow> ''b:'' @ cellText js v
      | _ \<Rightarrow>
          let s = cellText js v; numeric = textNum js s in
          if trim s \<noteq> [] \<and> isFinite numeric then ''n:'' @ numText js (numValue numeric)
          else ''s:'' @ toLowerCase (trim s))"

section \<open>Grouped fields\<close>

definition MONTH_LABELS :: "string list" where
  "MONTH_LABELS = [''Jan'', ''Feb'', ''Mar'', ''Apr'', ''May'', ''Jun'', ''Jul'', ''Aug'', ''Sep'', ''Oct'', ''Nov'', ''Dec'']"

text \<open>
  \<open>getUTCFullYear\<close> and \<open>getUTCMonth\<close> of a day number, as ECMAScript defines them: the first day of a year,
  the year of a day (searched upwards from the epoch's year) and the months' first days within a year.
\<close>

definition dayFromYear :: "int \<Rightarrow> int" where
  "dayFromYear y = 365 * (y - 1970) + (y - 1969) div 4 - (y - 1901) div 100 + (y - 1601) div 400"

lemma dayFromYear_arith: "a \<le> a' \<Longrightarrow> b' \<le> b + 1 \<Longrightarrow> c \<le> c' \<Longrightarrow> 365 * x + a - b + c < 365 * (x + 1) + a' - b' + (c' :: int)"
  by simp

lemma dayFromYear_Suc: "dayFromYear y < dayFromYear (y + 1)"
proof -
  have "(y + 1 - 1901) div 100 \<le> (y - 1901) div 100 + 1"
    using zdiv_mono1 [of "y + 1 - 1901" "(y - 1901) + 100" 100] by simp
  from dayFromYear_arith [OF zdiv_mono1 [of "y - 1969" "y + 1 - 1969" 4] this zdiv_mono1 [of "y - 1601" "y + 1 - 1601" 400], of "y - 1970"]
  show ?thesis by (simp add: dayFromYear_def algebra_simps)
qed

function yearUp :: "int \<Rightarrow> int \<Rightarrow> int" where
  "yearUp day y = (if dayFromYear (y + 1) \<le> day then yearUp day (y + 1) else y)"
  by pat_completeness auto
termination
proof (relation "measure (\<lambda>(day, y). nat (day + 1 - dayFromYear y))")
  fix day y :: int
  assume "dayFromYear (y + 1) \<le> day"
  then show "((day, y + 1), (day, y)) \<in> measure (\<lambda>(day, y). nat (day + 1 - dayFromYear y))"
    using dayFromYear_Suc [of y] by simp
qed simp

declare yearUp.simps [simp del]

definition leapYear :: "int \<Rightarrow> bool" where
  "leapYear y \<longleftrightarrow> dayFromYear (y + 1) - dayFromYear y = 366"

definition monthFirsts :: "bool \<Rightarrow> int list" where
  "monthFirsts leap = map (\<lambda>d. if leap \<and> d > 31 then d + 1 else d) [0, 31, 59, 90, 120, 151, 181, 212, 243, 273, 304, 334]"

definition monthOf :: "int \<Rightarrow> bool \<Rightarrow> int" where
  "monthOf inYear leap = int (length (takeWhile (\<lambda>d. d \<le> inYear) (monthFirsts leap)))"

text \<open>Excel's serial days start at 1899-12-30, 25569 days before 1970.\<close>

definition EXCEL_EPOCH_DAY :: int where "EXCEL_EPOCH_DAY = - 25569"

definition serialDate :: "int \<Rightarrow> int \<times> int" where
  "serialDate serial =
     (let day = EXCEL_EPOCH_DAY + serial; year = yearUp day 1899
      in (year, monthOf (day - dayFromYear year) (leapYear year)))"

text \<open>\<open>/^\s*(\d{4})[-/](\d{1,2})(?:[-/](\d{1,2}))?/\<close>: the year and the month; greedy digits, the optional day decides nothing.\<close>

definition directDate :: "string \<Rightarrow> (int \<times> int) option" where
  "directDate s =
     (let t = dropWhile isSpace s; year = take 4 t; rest = drop 4 t in
      if length year = 4 \<and> list_all isDigit year
      then case rest of
             c # u \<Rightarrow>
               let month = takeWhile isDigit (take 2 u) in
               if (c = CHR ''-'' \<or> c = CHR ''/'') \<and> month \<noteq> []
               then Some (int (digitsVal year), int (digitsVal month)) else None
           | [] \<Rightarrow> None
      else None)"

fun parseDateParts :: "Js \<Rightarrow> CellScalar \<Rightarrow> (int \<times> int) option" where
  "parseDateParts js (Num x) = (if x < 0 \<or> 2958465 < x then None else Some (serialDate \<lfloor>x\<rfloor>))"
| "parseDateParts js (Str s) =
     (case directDate s of
        Some (year, month) \<Rightarrow> if 1 \<le> month \<and> month \<le> 12 then Some (year, month) else None
      | None \<Rightarrow> textDate js s)"
| "parseDateParts js _ = None"

text \<open>\<open>Number(value.toFixed(10))\<close>: the nearest multiple of \<open>10^-10\<close>, halves away from zero.\<close>

definition toFixed10 :: "real \<Rightarrow> real" where
  "toFixed10 x =
     (if 10 ^ 21 \<le> \<bar>x\<bar> then x
      else let n = of_int \<lfloor>\<bar>x\<bar> * 10 ^ 10 + 1 / 2\<rfloor> / 10 ^ 10 in if x < 0 then - n else n)"

definition formatBoundary :: "Js \<Rightarrow> real \<Rightarrow> string" where
  "formatBoundary js x = numText js (toFixed10 x)"

definition groupByDate :: "Js \<Rightarrow> PivotDateUnit \<Rightarrow> CellScalar \<Rightarrow> string \<times> real option" where
  "groupByDate js dateUnit v =
     (case v of
        Boolean b \<Rightarrow> (cellText js (Some v), None)
      | _ \<Rightarrow>
          (case parseDateParts js v of
             None \<Rightarrow> (cellText js (Some v), None)
           | Some (year, month) \<Rightarrow>
               (case dateUnit of
                  UnitYear \<Rightarrow> (numText js (of_int year), Some (of_int year))
                | UnitQuarter \<Rightarrow> let quarter = (month - 1) div 3 + 1 in (''Q'' @ numText js (of_int quarter), Some (of_int quarter))
                | UnitMonth \<Rightarrow> (MONTH_LABELS ! nat (month - 1), Some (of_int month)))))"

definition groupByRange :: "Js \<Rightarrow> real \<Rightarrow> real option \<Rightarrow> CellScalar \<Rightarrow> string \<times> real option" where
  "groupByRange js rangeStep rangeStart v =
     (let numeric = (case v of Num x \<Rightarrow> Finite x | _ \<Rightarrow> textNum js (trim (cellText js (Some v)))) in
      if \<not> isFinite numeric then (cellText js (Some v), None)
      else let start = (case rangeStart of Some s \<Rightarrow> s | None \<Rightarrow> 0);
               bucketStart = start + of_int \<lfloor>(numValue numeric - start) / rangeStep\<rfloor> * rangeStep
           in (formatBoundary js bucketStart @ ''-'' @ formatBoundary js (bucketStart + rangeStep), Some bucketStart))"

definition groupValue :: "Js \<Rightarrow> PivotFieldGrouping \<Rightarrow> SourceCell \<Rightarrow> string \<times> real option" where
  "groupValue js g v =
     (if isBlank v then ([], None)
      else case g of
        ByDate dateUnit \<Rightarrow> groupByDate js dateUnit (the v)
      | ByRange rangeStep rangeStart \<Rightarrow> groupByRange js rangeStep rangeStart (the v))"

definition groupLabel :: "Js \<Rightarrow> PivotFieldGrouping \<Rightarrow> SourceCell \<Rightarrow> string" where
  "groupLabel js g v = fst (groupValue js g v)"

section \<open>Filters\<close>

fun matchesLabelFilter :: "LabelOp \<Rightarrow> string \<Rightarrow> string \<Rightarrow> bool" where
  "matchesLabelFilter LabelEqual v member = (toLowerCase member = toLowerCase v)"
| "matchesLabelFilter LabelContains v member = strIncludes (toLowerCase member) (toLowerCase v)"
| "matchesLabelFilter LabelBeginsWith v member = startsWith (toLowerCase member) (toLowerCase v)"

text \<open>The comparator of \<open>top\<close> on totals and their order.\<close>

definition rankOrder :: "('k \<times> real) \<times> nat \<Rightarrow> ('k \<times> real) \<times> nat \<Rightarrow> real" where
  "rankOrder a b =
     (if snd (fst b) - snd (fst a) \<noteq> 0 then snd (fst b) - snd (fst a) else real (snd a) - real (snd b))"

definition presentTotals :: "('k \<times> real option) list \<Rightarrow> ('k \<times> real) list" where
  "presentTotals totals = concat (map (\<lambda>(k, t). case t of Some x \<Rightarrow> [(k, x)] | None \<Rightarrow> []) totals)"

fun allowedByValueFilter :: "ValueOp \<Rightarrow> ('k \<times> real option) list \<Rightarrow> 'k list" where
  "allowedByValueFilter (TopValues most) totals =
     map (fst \<circ> fst)
       (take (nat (max 1 (case most of Some c \<Rightarrow> c | None \<Rightarrow> 10)))
         (sortBy rankOrder (map (\<lambda>(order, e). (e, order)) (enumerate 0 (presentTotals totals)))))"
| "allowedByValueFilter (GreaterThan from) totals =
     map fst (filter (\<lambda>(k, t). (case from of Some f \<Rightarrow> f | None \<Rightarrow> 0) < t) (presentTotals totals))"
| "allowedByValueFilter (Between from to) totals =
     map fst (filter (\<lambda>(k, t). (case from of Some f \<Rightarrow> f \<le> t | None \<Rightarrow> True) \<and> (case to of Some u \<Rightarrow> t \<le> u | None \<Rightarrow> True))
       (presentTotals totals))"

end
