(* ===== verification/PivotEngine.thy ===== *)
theory PivotEngine
  imports PivotModel
begin

text \<open>
  The pivot engine (\<open>domain/pivot-engine.ts\<close>). A source is the list of its rows, the header row first; a
  JavaScript \<open>Set\<close> is the list of its elements in insertion order, a \<open>Map\<close> an association list. Every \<open>throw\<close>
  is an \<open>Inl\<close>. Sums are exact reals.
\<close>

section \<open>Looking things up\<close>

definition fieldAt :: "PivotDefinition \<Rightarrow> int \<Rightarrow> PivotCacheField option" where
  "fieldAt d field = elemAt (pFields d) field"

definition sharedOf :: "PivotDefinition \<Rightarrow> int \<Rightarrow> CellScalar list" where
  "sharedOf d field = (case fieldAt d field of Some f \<Rightarrow> sharedItems f | None \<Rightarrow> [])"

definition groupingOf :: "PivotDefinition \<Rightarrow> int \<Rightarrow> PivotFieldGrouping option" where
  "groupingOf d field = Option.bind (fieldAt d field) grouping"

definition itemsOf :: "PivotDefinition \<Rightarrow> int \<Rightarrow> PivotFieldItem list" where
  "itemsOf d field = (case elemAt (fieldItems d) field of Some items \<Rightarrow> items | None \<Rightarrow> [])"

text \<open>The shared value of an item, \<open>undefined\<close> for subtotal items and indices outside.\<close>

definition itemShared :: "PivotDefinition \<Rightarrow> int \<Rightarrow> PivotFieldItem \<Rightarrow> SourceCell" where
  "itemShared d field i = Option.bind (itemX i) (nthOpt (sharedOf d field))"

definition groupedCell :: "Js \<Rightarrow> PivotDefinition \<Rightarrow> int \<Rightarrow> SourceCell \<Rightarrow> SourceCell" where
  "groupedCell js d field v = (case groupingOf d field of Some g \<Rightarrow> Some (Str (groupLabel js g v)) | None \<Rightarrow> v)"

definition sourceKey :: "Js \<Rightarrow> PivotDefinition \<Rightarrow> int \<Rightarrow> SourceCell \<Rightarrow> string" where
  "sourceKey js d field v = groupKey js (groupedCell js d field v)"

definition rowKey :: "Js \<Rightarrow> PivotDefinition \<Rightarrow> SourceRow \<Rightarrow> int \<Rightarrow> string" where
  "rowKey js d row field = sourceKey js d field (elemAt row field)"

text \<open>The members of \<open>new Set(xs)\<close> in order.\<close>

definition setOf :: "'a list \<Rightarrow> 'a list" where
  "setOf xs = rev (remdups (rev xs))"

definition axisFields :: "PivotDefinition \<Rightarrow> int list" where
  "axisFields d = filter (\<lambda>f. f \<noteq> -2) (setOf (rowFields d @ colFields d @ map fst (pageFields d)))"

section \<open>Predicates of a layout line\<close>

type_synonym AxisPredicate = "int \<times> string"

definition levelPredicate ::
  "Js \<Rightarrow> PivotDefinition \<Rightarrow> int list \<Rightarrow> PivotLayoutLine \<Rightarrow> AxisPredicate list \<times> nat \<Rightarrow> nat \<Rightarrow> pivot_error + (AxisPredicate list \<times> nat)" where
  "levelPredicate js d axis line acc level =
     (case (nthOpt axis level, nthOpt (lineMembers line) level) of
        (Some field, Some (Some member)) \<Rightarrow>
          if field = -2 then Inr (fst acc, member)
          else (case Option.bind (nthOpt (itemsOf d field) member) itemX of
             None \<Rightarrow> refuse (''Item '' @ natStr member @ '' of field '' @ intStr field @ '' cannot be resolved.'')
           | Some x \<Rightarrow>
               (case nthOpt (sharedOf d field) x of
                  None \<Rightarrow> refuse (''Shared item '' @ natStr x @ '' of field '' @ intStr field @ '' is missing.'')
                | Some shared \<Rightarrow> Inr (fst acc @ [(field, groupKey js (Some shared))], snd acc)))
      | _ \<Rightarrow> Inr acc)"

definition linePredicates ::
  "Js \<Rightarrow> PivotDefinition \<Rightarrow> int list \<Rightarrow> PivotLayoutLine \<Rightarrow> pivot_error + (AxisPredicate list \<times> nat)" where
  "linePredicates js d axis line =
     foldE (levelPredicate js d axis line) ([], lineDataField line)
       [0..<(if lineT line = ''data'' then length axis else lineDepth line)]"

section \<open>Aggregation\<close>

definition numbersOf :: "Js \<Rightarrow> SourceCell list \<Rightarrow> real list" where
  "numbersOf js values =
     concat (map (\<lambda>v.
       if isBlank v then []
       else case v of
         Some (Num x) \<Rightarrow> [x]
       | _ \<Rightarrow> (let n = textNum js (trim (cellText js v)) in if isFinite n then [numValue n] else [])) values)"

definition aggregate :: "Js \<Rightarrow> string \<Rightarrow> SourceCell list \<Rightarrow> pivot_error + real option" where
  "aggregate js subtotalName values =
     (if subtotalName = ''count'' then Inr (Some (real (length (filter (\<lambda>v. \<not> isBlank v) values))))
      else let numbers = numbersOf js values; ifAny = (\<lambda>x. if numbers = [] then None else Some x) in
        if subtotalName = ''countNums'' then Inr (Some (real (length numbers)))
        else if subtotalName = ''sum'' then Inr (Some (foldl (+) 0 numbers))
        else if subtotalName = ''average'' then Inr (ifAny (foldl (+) 0 numbers / real (length numbers)))
        else if subtotalName = ''max'' then Inr (ifAny (Max (set numbers)))
        else if subtotalName = ''min'' then Inr (ifAny (Min (set numbers)))
        else if subtotalName = ''product'' then Inr (ifAny (foldl (*) 1 numbers))
        else refuse (''Aggregation '' @ quote @ subtotalName @ quote @ '' does not support recompute.''))"

text \<open>\<open>aggregate('sum', ...)\<close>, which never throws.\<close>

definition sumOf :: "Js \<Rightarrow> SourceCell list \<Rightarrow> real option" where
  "sumOf js values = (case aggregate js ''sum'' values of Inr r \<Rightarrow> r | Inl _ \<Rightarrow> None)"

section \<open>The source against the cache\<close>

definition headerMismatch :: "Js \<Rightarrow> SourceRow \<Rightarrow> nat \<times> PivotCacheField \<Rightarrow> bool" where
  "headerMismatch js header = (\<lambda>(index, f).
     fieldFormula f = None \<and>
     toLowerCase (trim (case nthOpt header index of None \<Rightarrow> [] | Some Null \<Rightarrow> [] | v \<Rightarrow> cellText js v)) \<noteq>
     toLowerCase (trim (fieldName f)))"

definition headerError :: "Js \<Rightarrow> SourceRow \<Rightarrow> nat \<times> PivotCacheField \<Rightarrow> string" where
  "headerError js header = (\<lambda>(index, f).
     ''Source data column '' @ natStr (index + 1) @ '' header '' @ quote @
     trim (case nthOpt header index of None \<Rightarrow> [] | Some Null \<Rightarrow> [] | v \<Rightarrow> cellText js v) @ quote @
     '' does not match cache field '' @ quote @ fieldName f @ quote @ '' '' @ emDash @ '' the data source may have moved.'')"

definition assertSourceMatchesCache :: "Js \<Rightarrow> PivotDefinition \<Rightarrow> SourceRow list \<Rightarrow> pivot_error + unit" where
  "assertSourceMatchesCache js d sourceValues =
     (if unsupported d \<noteq> []
      then refuse (''This pivot table does not support recompute: '' @ join ''; '' (unsupported d))
      else let sourceFieldCount = length (filter (\<lambda>f. fieldFormula f = None) (pFields d));
               narrow = refuse (''The source data region is narrower than the pivot cache field count '' @ emDash @
                                '' the data source may have moved.'') in
        case sourceValues of
          [] \<Rightarrow> narrow
        | header # _ \<Rightarrow>
            if length header < sourceFieldCount then narrow
            else case find (headerMismatch js header) (enumerate 0 (pFields d)) of
                   Some f \<Rightarrow> refuse (headerError js header f)
                 | None \<Rightarrow> Inr ())"

text \<open>A value of an axis column that the cache does not hold.\<close>

definition driftedRow :: "Js \<Rightarrow> PivotDefinition \<Rightarrow> int \<Rightarrow> SourceRow \<Rightarrow> bool" where
  "driftedRow js d field row \<longleftrightarrow> rowKey js d row field \<notin> set (map (\<lambda>s. groupKey js (Some s)) (sharedOf d field))"

definition checkDrift :: "Js \<Rightarrow> PivotDefinition \<Rightarrow> SourceRow list \<Rightarrow> pivot_error + unit" where
  "checkDrift js d rows =
     foldE (\<lambda>_ field.
       case find (driftedRow js d field) rows of
         None \<Rightarrow> Inr ()
       | Some row \<Rightarrow>
           refuse (''The source data column '' @ quote @ (case fieldAt d field of Some f \<Rightarrow> fieldName f | None \<Rightarrow> ''undefined'') @ quote @
             '' contains a new item not in the cache ('' @ quote @ cellText js (elemAt row field) @ quote @ '') '' @ emDash @
             '' refresh the layout in Excel before it can be recomputed.''))
       () (axisFields d)"

section \<open>Rows that count\<close>

definition hiddenOf :: "Js \<Rightarrow> PivotDefinition \<Rightarrow> int \<Rightarrow> string list" where
  "hiddenOf js d field =
     concat (map (\<lambda>i. if \<not> itemHidden i then []
                       else case itemShared d field i of None \<Rightarrow> [] | Some s \<Rightarrow> [groupKey js (Some s)]) (itemsOf d field))"

definition pageItemError :: "pivot_error + 'a" where
  "pageItemError = refuse ''The selected report filter item cannot be resolved.''"

definition pagePredicates :: "Js \<Rightarrow> PivotDefinition \<Rightarrow> pivot_error + AxisPredicate list" where
  "pagePredicates js d =
     foldE (\<lambda>acc (field, i).
       case i of
         None \<Rightarrow> Inr acc
       | Some index \<Rightarrow>
           (case Option.bind (nthOpt (itemsOf d field) index) (itemShared d field) of
              None \<Rightarrow> pageItemError
            | Some shared \<Rightarrow> Inr (acc @ [(field, groupKey js (Some shared))]))) [] (pageFields d)"

definition matchesAll :: "Js \<Rightarrow> PivotDefinition \<Rightarrow> AxisPredicate list \<Rightarrow> SourceRow \<Rightarrow> bool" where
  "matchesAll js d predicates row \<longleftrightarrow> list_all (\<lambda>(field, key). rowKey js d row field = key) predicates"

definition rowVisible :: "Js \<Rightarrow> PivotDefinition \<Rightarrow> AxisPredicate list \<Rightarrow> SourceRow \<Rightarrow> bool" where
  "rowVisible js d pages row \<longleftrightarrow>
     list_all (\<lambda>field. rowKey js d row field \<notin> set (hiddenOf js d field)) (axisFields d) \<and> matchesAll js d pages row"

definition matchingValues ::
  "Js \<Rightarrow> PivotDefinition \<Rightarrow> SourceRow list \<Rightarrow> AxisPredicate list \<Rightarrow> int \<Rightarrow> SourceCell list" where
  "matchingValues js d visibleRows predicates field =
     map (\<lambda>row. elemAt row field) (filter (matchesAll js d predicates) visibleRows)"

section \<open>Calculated fields\<close>

definition fieldIndexByName :: "PivotDefinition \<Rightarrow> (string \<times> nat) list" where
  "fieldIndexByName d =
     foldl (\<lambda>m (index, f). if fieldFormula f = None then AList.update (fieldName f) index m else m) []
       (enumerate 0 (pFields d))"

text \<open>\<open>row[undefined]\<close> is \<open>undefined\<close>, as \<open>row[-1]\<close> is.\<close>

definition indexOfName :: "PivotDefinition \<Rightarrow> string \<Rightarrow> int" where
  "indexOfName d name = (case map_of (fieldIndexByName d) name of Some i \<Rightarrow> int i | None \<Rightarrow> -1)"

fun errorMessage :: "js_error \<Rightarrow> string" where
  "errorMessage (Error m) = m"
| "errorMessage (WorkbookConflictError m) = m"

text \<open>The parser always answers (lemma \<open>parse_returns\<close>).\<close>

definition parseDataFormula :: "Js \<Rightarrow> PivotDefinition \<Rightarrow> PivotDataField \<Rightarrow> string \<Rightarrow> pivot_error + PivotFormulaAst" where
  "parseDataFormula js d dataField text =
     (case the (parsePivotFormula (textNum js) text (map fst (fieldIndexByName d))) of
        Inr ast \<Rightarrow> Inr ast
      | Inl e \<Rightarrow> refuse (''The formula of calculated field '' @ quote @ dataName dataField @ quote @ '' cannot be parsed: '' @
                         errorMessage e))"

definition formulaAsts :: "Js \<Rightarrow> PivotDefinition \<Rightarrow> pivot_error + PivotFormulaAst option list" where
  "formulaAsts js d =
     mapE (\<lambda>f. case dataFormula f of
               None \<Rightarrow> Inr None
             | Some text \<Rightarrow> bindE (parseDataFormula js d f text) (\<lambda>ast. Inr (Some ast))) (dataFields d)"

section \<open>Recomputing the data area\<close>

definition missingDataField :: "nat \<Rightarrow> pivot_error + 'a" where
  "missingDataField i = refuse (''Data field '' @ natStr i @ '' is missing.'')"

definition aggregateCell ::
  "Js \<Rightarrow> PivotDefinition \<Rightarrow> SourceRow list \<Rightarrow> PivotFormulaAst option list \<Rightarrow> nat \<Rightarrow> AxisPredicate list \<Rightarrow> pivot_error + real option" where
  "aggregateCell js d visibleRows asts dataFieldIndex predicates =
     (case nthOpt (dataFields d) dataFieldIndex of
        None \<Rightarrow> missingDataField dataFieldIndex
      | Some f \<Rightarrow>
          (case nthOpt asts dataFieldIndex of
             Some (Some ast) \<Rightarrow>
               Inr (evaluatePivotFormula ast (\<lambda>name. sumOf js (matchingValues js d visibleRows predicates (indexOfName d name))))
           | _ \<Rightarrow> aggregate js (subtotal f) (matchingValues js d visibleRows predicates (dataSource f))))"

text \<open>\<open>aggregateBase\<close> keeps its results in \<open>baseCache\<close>.\<close>

type_synonym BaseCache = "string \<Rightarrow> real option option"

definition aggregateBase ::
  "(nat \<Rightarrow> AxisPredicate list \<Rightarrow> pivot_error + real option) \<Rightarrow> string \<Rightarrow> nat \<Rightarrow> AxisPredicate list \<Rightarrow> BaseCache
   \<Rightarrow> pivot_error + (real option \<times> BaseCache)" where
  "aggregateBase cell cacheKey dataFieldIndex predicates baseCache =
     (let key = cacheKey @ '':'' @ natStr dataFieldIndex in
      case baseCache key of
        Some v \<Rightarrow> Inr (v, baseCache)
      | None \<Rightarrow> bindE (cell dataFieldIndex predicates) (\<lambda>v. Inr (v, baseCache(key \<mapsto> v))))"

definition normalized :: "real \<Rightarrow> real option \<Rightarrow> real option" where
  "normalized raw base = (case base of None \<Rightarrow> None | Some b \<Rightarrow> if b = 0 then None else Some (raw / b))"

definition recomputeCell ::
  "Js \<Rightarrow> PivotDefinition \<Rightarrow> (nat \<Rightarrow> AxisPredicate list \<Rightarrow> pivot_error + real option) \<Rightarrow> nat \<Rightarrow> AxisPredicate list \<times> nat
   \<Rightarrow> BaseCache \<times> real option list \<Rightarrow> nat \<times> PivotLayoutLine \<Rightarrow> pivot_error + (BaseCache \<times> real option list)" where
  "recomputeCell js d cell rowIndex rowPart = (\<lambda>(baseCache, line) (colIndex, colLine).
     if lineT colLine = ''blank'' then Inr (baseCache, line @ [None])
     else bindE (linePredicates js d (colFields d) colLine) (\<lambda>colPart.
       let dataFieldIndex = max (snd rowPart) (snd colPart) in
       case nthOpt (dataFields d) dataFieldIndex of
         None \<Rightarrow> missingDataField dataFieldIndex
       | Some f \<Rightarrow>
           bindE (cell dataFieldIndex (fst rowPart @ fst colPart)) (\<lambda>raw.
             case (showDataAs f, raw) of
               (Some mode, Some r) \<Rightarrow>
                 bindE (case mode of
                          PercentOfTotal \<Rightarrow> aggregateBase cell ''total'' dataFieldIndex [] baseCache
                        | PercentOfRow \<Rightarrow> aggregateBase cell (''row'' @ natStr rowIndex) dataFieldIndex (fst rowPart) baseCache
                        | PercentOfCol \<Rightarrow> aggregateBase cell (''col'' @ natStr colIndex) dataFieldIndex (fst colPart) baseCache)
                   (\<lambda>(base, baseCache'). Inr (baseCache', line @ [normalized r base]))
             | _ \<Rightarrow> Inr (baseCache, line @ [raw]))))"

definition recomputeRow ::
  "Js \<Rightarrow> PivotDefinition \<Rightarrow> (nat \<Rightarrow> AxisPredicate list \<Rightarrow> pivot_error + real option)
   \<Rightarrow> BaseCache \<times> real option list list \<Rightarrow> nat \<times> PivotLayoutLine \<Rightarrow> pivot_error + (BaseCache \<times> real option list list)" where
  "recomputeRow js d cell = (\<lambda>(baseCache, data) (rowIndex, rowLine).
     if lineT rowLine = ''blank'' then Inr (baseCache, data @ [replicate (length (colLines d)) None])
     else bindE (linePredicates js d (rowFields d) rowLine) (\<lambda>rowPart.
       bindE (foldE (recomputeCell js d cell rowIndex rowPart) (baseCache, []) (enumerate 0 (colLines d)))
         (\<lambda>(baseCache', line). Inr (baseCache', data @ [line]))))"

definition recomputePivotData :: "Js \<Rightarrow> PivotDefinition \<Rightarrow> SourceRow list \<Rightarrow> pivot_error + real option list list" where
  "recomputePivotData js d sourceValues =
     bindE (assertSourceMatchesCache js d sourceValues) (\<lambda>_.
     let rows = drop 1 sourceValues in
     bindE (checkDrift js d rows) (\<lambda>_.
     bindE (pagePredicates js d) (\<lambda>pages.
     let visibleRows = filter (rowVisible js d pages) rows in
     bindE (formulaAsts js d) (\<lambda>asts.
     bindE (foldE (recomputeRow js d (aggregateCell js d visibleRows asts)) (Map.empty, []) (enumerate 0 (rowLines d)))
       (\<lambda>(_, data). Inr data)))))"

end
