(* ===== verification/PivotGrow.thy ===== *)
theory PivotGrow
  imports PivotEngine
begin

text \<open>
  The second half of the pivot engine (\<open>domain/pivot-engine.ts\<close>): rebuilding the layout lines of an axis,
  reapplying filters, growing the layout and slicing.
\<close>

section \<open>Rebuilding an axis\<close>

record AxisEntry =
  entryMember :: nat
  entryKey :: string

text \<open>The members of a level in display order; on the level of the data fields (\<open>-2\<close>) their indices.\<close>

definition levelOrder :: "Js \<Rightarrow> PivotDefinition \<Rightarrow> int \<Rightarrow> AxisEntry list" where
  "levelOrder js d field =
     (if field = -2
      then map (\<lambda>index. \<lparr>entryMember = index, entryKey = CHR ''d'' # natStr index\<rparr>) [0..<length (dataFields d)]
      else concat (map (\<lambda>(member, i).
             if itemHidden i then []
             else case itemShared d field i of
                    None \<Rightarrow> []
                  | Some s \<Rightarrow> [\<lparr>entryMember = member, entryKey = groupKey js (Some s)\<rparr>])
             (enumerate 0 (itemsOf d field))))"

definition joinKeys :: "string list \<Rightarrow> string" where
  "joinKeys keys = join [CHR 0x00] keys"

text \<open>\<open>addCombo\<close>: every non-empty prefix of a combination.\<close>

definition comboPrefixes :: "string list \<Rightarrow> string list" where
  "comboPrefixes keys = map (\<lambda>n. joinKeys (take n keys)) [1..<length keys + 1]"

text \<open>The levels that are not the data fields' and \<open>memberKeys.get(`${field}:${member}`)\<close>.\<close>

definition realLevels :: "int list \<Rightarrow> (int \<times> nat) list" where
  "realLevels axis = filter (\<lambda>(field, _). field \<noteq> -2) (map (\<lambda>(level, field). (field, level)) (enumerate 0 axis))"

definition memberKey :: "Js \<Rightarrow> PivotDefinition \<Rightarrow> int \<Rightarrow> nat \<Rightarrow> string option" where
  "memberKey js d field member = map_option entryKey (find (\<lambda>e. entryMember e = member) (levelOrder js d field))"

text \<open>The keys of an old data line; \<open>None\<close> when it names a hidden or stale item.\<close>

fun lineKeys :: "Js \<Rightarrow> PivotDefinition \<Rightarrow> PivotLayoutLine \<Rightarrow> (int \<times> nat) list \<Rightarrow> string list option" where
  "lineKeys js d line [] = Some []"
| "lineKeys js d line ((field, level) # ls) =
     (case Option.bind (Option.bind (nthOpt (lineMembers line) level) id) (memberKey js d field) of
        None \<Rightarrow> None
      | Some key \<Rightarrow> map_option ((#) key) (lineKeys js d line ls))"

definition axisCombos :: "Js \<Rightarrow> PivotDefinition \<Rightarrow> int list \<Rightarrow> PivotLayoutLine list \<Rightarrow> SourceRow list \<Rightarrow> string list list" where
  "axisCombos js d axis oldLines rows =
     concat (map (\<lambda>line. if lineT line \<noteq> ''data'' then []
                          else case lineKeys js d line (realLevels axis) of None \<Rightarrow> [] | Some keys \<Rightarrow> [keys]) oldLines) @
     map (\<lambda>row. map (\<lambda>(field, _). rowKey js d row field) (realLevels axis)) rows"

definition axisPrefixes :: "Js \<Rightarrow> PivotDefinition \<Rightarrow> int list \<Rightarrow> PivotLayoutLine list \<Rightarrow> SourceRow list \<Rightarrow> string set" where
  "axisPrefixes js d axis oldLines rows = set (concat (map comboPrefixes (axisCombos js d axis oldLines rows)))"

text \<open>\<open>emit\<close>, on the levels from \<open>level\<close> on with their entries.\<close>

fun emit ::
  "string set \<Rightarrow> nat set \<Rightarrow> nat \<Rightarrow> nat \<Rightarrow> (int \<times> AxisEntry list) list \<Rightarrow> nat option list \<Rightarrow> string list \<Rightarrow> nat \<Rightarrow> PivotLayoutLine list" where
  "emit prefixes subtotalDepths levels level [] members realKeys dataField = []"
| "emit prefixes subtotalDepths levels level ((field, entries) # rest) members realKeys dataField =
     concat (map (\<lambda>entry.
       let nextKeys = (if field = -2 then realKeys else realKeys @ [entryKey entry]) in
       if field \<noteq> -2 \<and> joinKeys nextKeys \<notin> prefixes then []
       else
         let nextMembers = members[level := Some (entryMember entry)];
             nextDataField = (if field = -2 then entryMember entry else dataField) in
         if rest = []
         then [\<lparr>lineT = ''data'', lineMembers = nextMembers, lineDepth = levels, lineDataField = nextDataField\<rparr>]
         else
           emit prefixes subtotalDepths levels (Suc level) rest nextMembers nextKeys nextDataField @
           (if level + 1 \<in> subtotalDepths
            then [\<lparr>lineT = ''default'',
                   lineMembers = map (\<lambda>(index, member). if index \<le> level then member else None) (enumerate 0 nextMembers),
                   lineDepth = level + 1, lineDataField = nextDataField\<rparr>]
            else [])) entries)"

definition rebuildAxisLines ::
  "Js \<Rightarrow> PivotDefinition \<Rightarrow> int list \<Rightarrow> PivotLayoutLine list \<Rightarrow> SourceRow list \<Rightarrow> pivot_error + PivotLayoutLine list" where
  "rebuildAxisLines js d axis oldLines rows =
     (let levels = length axis in
      if list_ex (\<lambda>line. lineT line = ''blank'') oldLines
      then refuse (''Pivot layouts containing blank lines do not support automatic growth '' @ emDash @ '' refresh in Excel.'')
      else if list_ex (\<lambda>line. lineT line = ''data'' \<and> lineDepth line \<noteq> levels) oldLines
      then refuse (''Compact/outline pivot layouts do not support automatic growth yet '' @ emDash @ '' refresh in Excel.'')
      else
        let subtotalDepths = set (map lineDepth (filter (\<lambda>line. lineT line = ''default'') oldLines)) in
        Inr (emit (axisPrefixes js d axis oldLines rows) subtotalDepths levels 0
               (map (\<lambda>field. (field, levelOrder js d field)) axis) (replicate levels None) [] 0 @
             filter (\<lambda>line. lineT line = ''grand'') oldLines))"

section \<open>Reapplying filters\<close>

definition aggregateDataFieldOverRows :: "Js \<Rightarrow> PivotDefinition \<Rightarrow> PivotDataField \<Rightarrow> SourceRow list \<Rightarrow> pivot_error + real option" where
  "aggregateDataFieldOverRows js d dataField rows =
     (case dataFormula dataField of
        Some text \<Rightarrow>
          bindE (parseDataFormula js d dataField text) (\<lambda>ast.
            Inr (evaluatePivotFormula ast (\<lambda>name. sumOf js (map (\<lambda>row. elemAt row (indexOfName d name)) rows))))
      | None \<Rightarrow> aggregate js (subtotal dataField) (map (\<lambda>row. elemAt row (dataSource dataField)) rows))"

text \<open>\<open>allowedByField\<close>: the candidate members of each filtered field.\<close>

type_synonym Allowed = "(int \<times> nat list) list"

definition realMembers :: "PivotDefinition \<Rightarrow> int \<Rightarrow> nat list" where
  "realMembers d field = map fst (filter (\<lambda>(_, i). itemX i \<noteq> None) (enumerate 0 (itemsOf d field)))"

definition ensureAllowed :: "PivotDefinition \<Rightarrow> int \<Rightarrow> Allowed \<Rightarrow> Allowed" where
  "ensureAllowed d field allowed =
     (if map_of allowed field = None then allowed @ [(field, realMembers d field)] else allowed)"

definition allowedOf :: "Allowed \<Rightarrow> int \<Rightarrow> nat list" where
  "allowedOf allowed field = (case map_of allowed field of Some ms \<Rightarrow> ms | None \<Rightarrow> [])"

definition memberLabel :: "Js \<Rightarrow> PivotDefinition \<Rightarrow> int \<Rightarrow> PivotFieldItem \<Rightarrow> string" where
  "memberLabel js d field i = (case itemShared d field i of None \<Rightarrow> [] | Some Null \<Rightarrow> [] | v \<Rightarrow> cellText js v)"

definition keptByLabel :: "Js \<Rightarrow> PivotDefinition \<Rightarrow> int \<Rightarrow> LabelOp \<Rightarrow> string \<Rightarrow> nat \<Rightarrow> bool" where
  "keptByLabel js d field labelOp v member =
     (case nthOpt (itemsOf d field) member of
        Some i \<Rightarrow> itemX i = None \<or> matchesLabelFilter labelOp v (memberLabel js d field i)
      | None \<Rightarrow> True)"

definition applyLabelFilter :: "Js \<Rightarrow> PivotDefinition \<Rightarrow> Allowed \<Rightarrow> PivotFilterDef \<Rightarrow> Allowed" where
  "applyLabelFilter js d allowed f =
     (case f of
        LabelFilter field labelOp v \<Rightarrow>
          let ensured = ensureAllowed d field allowed in
          AList.update field (filter (keptByLabel js d field labelOp v) (allowedOf ensured field)) ensured
      | ValueFilter _ _ _ \<Rightarrow> allowed)"

text \<open>\<open>ensureMemberKeys(field).get(key)\<close>: a later member with the same key replaces an earlier one.\<close>

definition memberOfKey :: "Js \<Rightarrow> PivotDefinition \<Rightarrow> int \<Rightarrow> string \<Rightarrow> nat option" where
  "memberOfKey js d field key =
     map_of (rev (concat (map (\<lambda>(member, i). case itemShared d field i of
                                  None \<Rightarrow> [] | Some s \<Rightarrow> [(groupKey js (Some s), member)]) (enumerate 0 (itemsOf d field))))) key"

definition rowPassesBase :: "Js \<Rightarrow> PivotDefinition \<Rightarrow> AxisPredicate list \<Rightarrow> Allowed \<Rightarrow> SourceRow \<Rightarrow> bool" where
  "rowPassesBase js d pages allowed row \<longleftrightarrow>
     matchesAll js d pages row \<and>
     list_all (\<lambda>(field, ms). case memberOfKey js d field (rowKey js d row field) of
                               None \<Rightarrow> False | Some member \<Rightarrow> member \<in> set ms) allowed"

definition applyValueFilter ::
  "Js \<Rightarrow> PivotDefinition \<Rightarrow> SourceRow list \<Rightarrow> AxisPredicate list \<Rightarrow> Allowed \<Rightarrow> PivotFilterDef \<Rightarrow> pivot_error + Allowed" where
  "applyValueFilter js d rows pages allowed f =
     (case f of
        LabelFilter _ _ _ \<Rightarrow> Inr allowed
      | ValueFilter field measured valueOp \<Rightarrow>
          (case nthOpt (dataFields d) measured of
             None \<Rightarrow> refuse (''The data field '' @ natStr measured @ '' referenced by the value filter is missing.'')
           | Some dataField \<Rightarrow>
               let ensured = ensureAllowed d field allowed;
                   baseRows = filter (rowPassesBase js d pages ensured) rows in
               bindE (mapE (\<lambda>member.
                        bindE (aggregateDataFieldOverRows js d dataField
                                 (filter (\<lambda>row. memberOfKey js d field (rowKey js d row field) = Some member) baseRows))
                          (\<lambda>total. Inr (member, total)))
                        (sort (allowedOf ensured field)))
                 (\<lambda>totals.
                    let kept = allowedByValueFilter valueOp totals in
                    Inr (AList.update field (filter (\<lambda>m. m \<in> set kept) (allowedOf ensured field)) ensured))))"

definition hideOthers :: "(nat \<Rightarrow> bool) \<Rightarrow> PivotFieldItem list \<Rightarrow> PivotFieldItem list" where
  "hideOthers keep items =
     map (\<lambda>(member, i). if itemX i = None then i else i\<lparr>itemHidden := \<not> keep member\<rparr>) (enumerate 0 items)"

definition allowedMembers :: "Js \<Rightarrow> PivotDefinition \<Rightarrow> SourceRow list \<Rightarrow> pivot_error + Allowed" where
  "allowedMembers js d rows =
     (let labelled = foldl (applyLabelFilter js d) [] (filters d) in
      bindE (pagePredicates js d) (\<lambda>pages. foldE (applyValueFilter js d rows pages) labelled (filters d)))"

definition filteredItems :: "Allowed \<Rightarrow> PivotFieldItem list list \<Rightarrow> PivotFieldItem list list" where
  "filteredItems allowed allItems =
     map (\<lambda>(field, items). case map_of allowed (int field) of None \<Rightarrow> items | Some ms \<Rightarrow> hideOthers (\<lambda>m. m \<in> set ms) items)
       (enumerate 0 allItems)"

definition reapplyPivotFilters ::
  "Js \<Rightarrow> PivotDefinition \<Rightarrow> SourceRow list \<Rightarrow> pivot_error + (PivotFieldItem list list \<times> int list)" where
  "reapplyPivotFilters js d rows =
     (if filters d = [] then Inr (fieldItems d, [])
      else
        bindE (allowedMembers js d rows) (\<lambda>allowed.
          let next = filteredItems allowed (fieldItems d)
          in Inr (next, map int (filter (\<lambda>field. next ! field \<noteq> fieldItems d ! field) [0..<length next]))))"

section \<open>Growing\<close>

text \<open>New members in first-seen order; blank cells are \<open>null\<close> in the cache.\<close>

definition cacheValue :: "SourceCell \<Rightarrow> CellScalar" where
  "cacheValue v = (case v of None \<Rightarrow> Null | Some (Str []) \<Rightarrow> Null | Some x \<Rightarrow> x)"

fun newMembers :: "Js \<Rightarrow> string set \<Rightarrow> SourceCell list \<Rightarrow> CellScalar list" where
  "newMembers js known [] = []"
| "newMembers js known (v # vs) =
     (let key = groupKey js v in
      if key \<in> known then newMembers js known vs
      else cacheValue v # newMembers js (insert key known) vs)"

definition fieldAdditions :: "Js \<Rightarrow> PivotDefinition \<Rightarrow> SourceRow list \<Rightarrow> int \<Rightarrow> CellScalar list" where
  "fieldAdditions js d rows field =
     newMembers js (set (map (\<lambda>s. groupKey js (Some s)) (sharedOf d field)))
       (map (\<lambda>row. groupedCell js d field (elemAt row field)) rows)"

definition additionsByField :: "Js \<Rightarrow> PivotDefinition \<Rightarrow> SourceRow list \<Rightarrow> (int \<times> CellScalar list) list" where
  "additionsByField js d rows =
     filter (\<lambda>(_, additions). additions \<noteq> []) (map (\<lambda>field. (field, fieldAdditions js d rows field)) (axisFields d))"

definition grownItems :: "PivotDefinition \<Rightarrow> (int \<times> CellScalar list) list \<Rightarrow> nat \<times> PivotFieldItem list \<Rightarrow> pivot_error + PivotFieldItem list" where
  "grownItems d additions = (\<lambda>(index, items).
     case map_of additions (int index) of
       None \<Rightarrow> Inr items
     | Some new \<Rightarrow>
         (case nthOpt (pFields d) index of
            None \<Rightarrow> Inl TypeError
          | Some f \<Rightarrow> Inr (items @ map (\<lambda>offset. \<lparr>itemX = Some (length (sharedItems f) + offset), itemHidden = False\<rparr>) [0..<length new])))"

definition appendMembers :: "PivotDefinition \<Rightarrow> (int \<times> CellScalar list) list \<Rightarrow> pivot_error + PivotDefinition" where
  "appendMembers d additions =
     (if additions = [] then Inr d
      else bindE (mapE (grownItems d additions) (enumerate 0 (fieldItems d))) (\<lambda>items.
        Inr (d\<lparr>pFields := map (\<lambda>(index, f). case map_of additions (int index) of
                              None \<Rightarrow> f | Some new \<Rightarrow> f\<lparr>sharedItems := sharedItems f @ new\<rparr>) (enumerate 0 (pFields d)),
               fieldItems := items\<rparr>)))"

text \<open>Rebuilds the lines of both axes, where they are affected.\<close>

definition rebuildAxes ::
  "Js \<Rightarrow> PivotDefinition \<Rightarrow> (int \<Rightarrow> bool) \<Rightarrow> PivotDefinition \<Rightarrow> SourceRow list \<Rightarrow> pivot_error + PivotDefinition" where
  "rebuildAxes js d affected base rows =
     bindE (if list_ex affected (rowFields d) then rebuildAxisLines js base (rowFields d) (rowLines d) rows
            else Inr (rowLines d)) (\<lambda>newRowLines.
     bindE (if list_ex affected (colFields d) then rebuildAxisLines js base (colFields d) (colLines d) rows
            else Inr (colLines d)) (\<lambda>newColLines.
     Inr (base\<lparr>rowLines := newRowLines, colLines := newColLines\<rparr>)))"

definition growPivotDefinition :: "Js \<Rightarrow> PivotDefinition \<Rightarrow> SourceRow list \<Rightarrow> pivot_error + (PivotDefinition \<times> bool)" where
  "growPivotDefinition js d sourceValues =
     bindE (assertSourceMatchesCache js d sourceValues) (\<lambda>_.
     let rows = drop 1 sourceValues; additions = additionsByField js d rows in
     bindE (appendMembers d additions) (\<lambda>grown.
     bindE (reapplyPivotFilters js grown rows) (\<lambda>(items, changedFields).
     if additions = [] \<and> changedFields = [] then Inr (d, False)
     else
       let grownBase = (if changedFields = [] then grown else grown\<lparr>fieldItems := items\<rparr>) in
       bindE (rebuildAxes js d (\<lambda>field. field \<in> set (map fst additions) \<or> field \<in> set changedFields) grownBase rows)
         (\<lambda>d'. Inr (d', True)))))"

section \<open>Slicers\<close>

text \<open>\<open>selectedMembers\<close> is \<open>None\<close> for \<open>null\<close>: all members.\<close>

definition applyPivotSlicer :: "Js \<Rightarrow> PivotDefinition \<Rightarrow> SourceRow list \<Rightarrow> int \<Rightarrow> nat list option \<Rightarrow> pivot_error + PivotDefinition" where
  "applyPivotSlicer js d sourceValues field selectedMembers =
     bindE (assertSourceMatchesCache js d sourceValues) (\<lambda>_.
     if field \<notin> set (axisFields d)
     then refuse ''A slicer can only bind to a dimension field in rows/columns/report filters.''
     else
       case find (\<lambda>member. Option.bind (nthOpt (itemsOf d field) member) itemX = None)
              (case selectedMembers of None \<Rightarrow> [] | Some ms \<Rightarrow> setOf ms) of
         Some member \<Rightarrow> refuse (''Slicer-selected member '' @ natStr member @ '' does not exist.'')
       | None \<Rightarrow>
           let nextItems = hideOthers (\<lambda>m. case selectedMembers of None \<Rightarrow> True | Some ms \<Rightarrow> m \<in> set ms) (itemsOf d field) in
           if nextItems = itemsOf d field then Inr d
           else rebuildAxes js d (\<lambda>f. f = field)
                  (d\<lparr>fieldItems := map (\<lambda>(index, items). if int index = field then nextItems else items) (enumerate 0 (fieldItems d))\<rparr>)
                  (drop 1 sourceValues))"

end
