(* ===== verification/PivotKeys.thy ===== *)
theory PivotKeys
  imports PivotGrow
begin

text \<open>
  Lemmas of the pivot engine that its properties share: new members and the growth they make, what the
  growth and the filters keep, and the keys of combinations.
\<close>

section \<open>New members\<close>

abbreviation scalarKey :: "Js \<Rightarrow> CellScalar \<Rightarrow> string" where
  "scalarKey js s \<equiv> groupKey js (Some s)"

lemma groupKey_cacheValue [simp]: "scalarKey js (cacheValue v) = groupKey js v"
  by (cases v) (auto simp: cacheValue_def groupKey_def isBlank_def split: CellScalar.splits list.splits)

lemma newMembers_cover: "groupKey js ` set vs \<subseteq> known \<union> scalarKey js ` set (newMembers js known vs)"
proof (induction vs arbitrary: known)
  case (Cons v vs)
  from Cons.IH [of known] Cons.IH [of "insert (groupKey js v) known"] show ?case by (auto simp: Let_def)
qed simp

lemma newMembers_empty: "newMembers js known vs = [] \<longleftrightarrow> groupKey js ` set vs \<subseteq> known"
  by (induction vs arbitrary: known) (auto simp: Let_def)

lemma newMembers_fresh:
  "distinct (map (scalarKey js) (newMembers js known vs)) \<and> scalarKey js ` set (newMembers js known vs) \<inter> known = {}"
proof (induction vs arbitrary: known)
  case (Cons v vs)
  from Cons.IH [of known] Cons.IH [of "insert (groupKey js v) known"] show ?case by (auto simp: Let_def)
qed simp

section \<open>Definitions that differ in hidden bits and lines only\<close>

text \<open>What growing reads of a definition, apart from the lines.\<close>

definition sameSource :: "PivotDefinition \<Rightarrow> PivotDefinition \<Rightarrow> bool" where
  "sameSource d e \<longleftrightarrow>
     pFields e = pFields d \<and> map (map itemX) (fieldItems e) = map (map itemX) (fieldItems d) \<and> rowFields e = rowFields d \<and>
     colFields e = colFields d \<and> pageFields e = pageFields d \<and> dataFields e = dataFields d \<and> filters e = filters d \<and>
     unsupported e = unsupported d"

lemma nthOpt_map: "nthOpt (map f xs) i = map_option f (nthOpt xs i)"
  by (simp add: nthOpt_def)

lemma elemAt_map: "elemAt (map f xs) i = map_option f (elemAt xs i)"
  by (simp add: elemAt_def nthOpt_map)

lemma enumerate_map_values: "map (\<lambda>(i, x). f i (g x)) (enumerate n xs) = map (\<lambda>(i, y). f i y) (enumerate n (map g xs))"
  by (induction xs arbitrary: n) auto

lemma same_parts:
  assumes "sameSource d e"
  shows "pFields e = pFields d" "rowFields e = rowFields d" "colFields e = colFields d" "pageFields e = pageFields d"
    "dataFields e = dataFields d" "filters e = filters d" "unsupported e = unsupported d"
  using assms by (simp_all add: sameSource_def)

lemma same_fieldAt: "sameSource d e \<Longrightarrow> fieldAt e = fieldAt d"
  by (simp add: fieldAt_def sameSource_def fun_eq_iff)

lemma same_sharedOf: "sameSource d e \<Longrightarrow> sharedOf e = sharedOf d"
  by (simp add: sharedOf_def same_fieldAt fun_eq_iff)

lemma same_groupedCell: "sameSource d e \<Longrightarrow> groupedCell js e = groupedCell js d"
  by (simp add: fun_eq_iff groupedCell_def groupingOf_def same_fieldAt)

lemma same_rowKey: "sameSource d e \<Longrightarrow> rowKey js e = rowKey js d"
  by (simp add: fun_eq_iff rowKey_def sourceKey_def same_groupedCell)

lemma same_matchesAll: "sameSource d e \<Longrightarrow> matchesAll js e = matchesAll js d"
  by (simp add: fun_eq_iff matchesAll_def same_rowKey)

lemma same_axisFields: "sameSource d e \<Longrightarrow> axisFields e = axisFields d"
  by (simp add: axisFields_def sameSource_def)

lemma same_itemXs: "sameSource d e \<Longrightarrow> map itemX (itemsOf e field) = map itemX (itemsOf d field)"
proof -
  assume "sameSource d e"
  then have "elemAt (map (map itemX) (fieldItems e)) field = elemAt (map (map itemX) (fieldItems d)) field"
    by (simp add: sameSource_def)
  then show ?thesis by (auto simp: elemAt_map itemsOf_def map_option_case split: option.splits)
qed

lemma same_itemAt: "sameSource d e \<Longrightarrow> map_option itemX (nthOpt (itemsOf e field) i) = map_option itemX (nthOpt (itemsOf d field) i)"
  by (metis nthOpt_map same_itemXs)

lemma same_itemShared: "sameSource d e \<Longrightarrow> itemX i = itemX j \<Longrightarrow> itemShared e field i = itemShared d field j"
  by (simp add: itemShared_def same_sharedOf)

lemma enumerate_itemXs:
  assumes "map itemX xs = map itemX ys" "\<And>m i j. itemX i = itemX j \<Longrightarrow> f m i = g m j"
  shows "map (\<lambda>(m, i). f m i) (enumerate n xs) = map (\<lambda>(m, i). g m i) (enumerate n ys)"
proof -
  have "list_all2 (\<lambda>i j. itemX i = itemX j) xs ys"
    using assms(1) by (simp add: list_all2_map1 list_all2_map2 flip: list.rel_eq)
  then show ?thesis by (induction arbitrary: n) (auto intro: assms(2))
qed

lemma filter_fst: "map fst (filter (\<lambda>(m, i). P i) xs) = concat (map (\<lambda>(m, i). if P i then [m] else []) xs)"
  by (induction xs) auto

lemma same_realMembers: "sameSource d e \<Longrightarrow> realMembers e field = realMembers d field"
  unfolding realMembers_def filter_fst by (rule arg_cong [of _ _ concat]) (rule enumerate_itemXs; simp add: same_itemXs)

lemma same_memberOfKey: "sameSource d e \<Longrightarrow> memberOfKey js e field = memberOfKey js d field"
proof -
  assume same: "sameSource d e"
  show ?thesis
    unfolding memberOfKey_def fun_eq_iff
    using enumerate_itemXs [OF same_itemXs [OF same, of field],
      of "\<lambda>m i. case itemShared e field i of None \<Rightarrow> [] | Some s \<Rightarrow> [(scalarKey js s, m)]"
         "\<lambda>m i. case itemShared d field i of None \<Rightarrow> [] | Some s \<Rightarrow> [(scalarKey js s, m)]" 0]
    by (simp add: same_itemShared [OF same])
qed

lemma same_memberLabel: "sameSource d e \<Longrightarrow> itemX i = itemX j \<Longrightarrow> memberLabel js e field i = memberLabel js d field j"
  by (simp add: memberLabel_def same_itemShared [of d e i j])

lemma same_keptByLabel: "sameSource d e \<Longrightarrow> keptByLabel js e field = keptByLabel js d field"
proof -
  assume same: "sameSource d e"
  have "keptByLabel js e field labelOp v m = keptByLabel js d field labelOp v m" for labelOp v m
  proof (cases "nthOpt (itemsOf e field) m")
    case (Some i)
    then obtain j where "nthOpt (itemsOf d field) m = Some j" "itemX i = itemX j"
      using same_itemAt [OF same, of field m] by (cases "nthOpt (itemsOf d field) m") auto
    with Some show ?thesis by (simp add: keptByLabel_def same_memberLabel [OF same, of i j])
  qed (use same_itemAt [OF same, of field m] in \<open>simp add: keptByLabel_def\<close>)
  then show ?thesis by (simp add: fun_eq_iff)
qed

lemma same_ensureAllowed: "sameSource d e \<Longrightarrow> ensureAllowed e = ensureAllowed d"
  by (simp add: fun_eq_iff ensureAllowed_def same_realMembers)

lemma same_applyLabelFilter: "sameSource d e \<Longrightarrow> applyLabelFilter js e = applyLabelFilter js d"
  by (simp add: fun_eq_iff applyLabelFilter_def same_keptByLabel same_ensureAllowed split: PivotFilterDef.splits)

lemma bind_itemShared:
  assumes "sameSource d e"
  shows "Option.bind (nthOpt (itemsOf e field) i) (itemShared e field) = Option.bind (nthOpt (itemsOf d field) i) (itemShared d field)"
  using same_itemAt [OF assms, of field i]
  by (cases "nthOpt (itemsOf e field) i"; cases "nthOpt (itemsOf d field) i") (simp_all add: same_itemShared [OF assms])

lemma same_pagePredicates: "sameSource d e \<Longrightarrow> pagePredicates js e = pagePredicates js d"
  by (simp add: pagePredicates_def bind_itemShared same_parts case_prod_unfold cong: option.case_cong)

lemma same_fieldIndexByName: "sameSource d e \<Longrightarrow> fieldIndexByName e = fieldIndexByName d"
  by (simp add: fieldIndexByName_def sameSource_def)

lemma same_aggregateOverRows: "sameSource d e \<Longrightarrow> aggregateDataFieldOverRows js e = aggregateDataFieldOverRows js d"
  by (simp add: fun_eq_iff aggregateDataFieldOverRows_def parseDataFormula_def indexOfName_def same_fieldIndexByName
        split: option.splits)

lemma same_rowPassesBase: "sameSource d e \<Longrightarrow> rowPassesBase js e = rowPassesBase js d"
  by (simp add: fun_eq_iff rowPassesBase_def same_matchesAll same_memberOfKey same_rowKey)

lemma same_applyValueFilter: "sameSource d e \<Longrightarrow> applyValueFilter js e = applyValueFilter js d"
  by (simp add: fun_eq_iff applyValueFilter_def same_ensureAllowed same_rowPassesBase same_aggregateOverRows
        same_memberOfKey same_rowKey same_parts cong: option.case_cong split: PivotFilterDef.splits)

lemma same_allowedMembers: "sameSource d e \<Longrightarrow> allowedMembers js e = allowedMembers js d"
  by (simp add: fun_eq_iff allowedMembers_def same_pagePredicates same_applyLabelFilter same_applyValueFilter same_parts)

lemma same_additions: "sameSource d e \<Longrightarrow> additionsByField js e rows = additionsByField js d rows"
  by (simp add: additionsByField_def fieldAdditions_def same_sharedOf same_groupedCell same_axisFields)

lemma same_assert: assumes "sameSource d e" shows "assertSourceMatchesCache js e = assertSourceMatchesCache js d"
  unfolding fun_eq_iff assertSourceMatchesCache_def same_parts [OF assms] by (intro allI refl)

section \<open>Hiding again\<close>

lemma hideOthers_idem [simp]: "hideOthers keep (hideOthers keep items) = hideOthers keep items"
  unfolding hideOthers_def by (rule nth_equalityI) (auto simp: nth_enumerate_eq)

lemma hideOthers_itemX [simp]: "map itemX (hideOthers keep items) = map itemX items"
  unfolding hideOthers_def by (rule nth_equalityI) (auto simp: nth_enumerate_eq)

lemma filteredItems_length [simp]: "length (filteredItems allowed items) = length items"
  by (simp add: filteredItems_def)

lemma filteredItems_nth:
  "i < length items \<Longrightarrow> filteredItems allowed items ! i =
     (case map_of allowed (int i) of None \<Rightarrow> items ! i | Some ms \<Rightarrow> hideOthers (\<lambda>m. m \<in> set ms) (items ! i))"
  by (simp add: filteredItems_def nth_enumerate_eq)

lemma filteredItems_idem [simp]: "filteredItems allowed (filteredItems allowed items) = filteredItems allowed items"
  by (rule nth_equalityI) (auto simp: filteredItems_nth split: option.splits)

lemma filteredItems_itemX [simp]: "map (map itemX) (filteredItems allowed items) = map (map itemX) items"
  by (rule nth_equalityI) (auto simp: filteredItems_nth split: option.splits)

lemma reapply_items:
  assumes "reapplyPivotFilters js d rows = Inr (items, changed)"
  shows "map (map itemX) items = map (map itemX) (fieldItems d)" "changed = [] \<Longrightarrow> items = fieldItems d"
proof -
  show "map (map itemX) items = map (map itemX) (fieldItems d)"
    using assms by (auto simp: reapplyPivotFilters_def Let_def res_simps split: if_splits)
  assume "changed = []"
  then show "items = fieldItems d"
    using assms
    by (auto simp: reapplyPivotFilters_def Let_def res_simps filter_empty_conv intro!: nth_equalityI split: if_splits)
qed

lemma reapply_again:
  assumes "reapplyPivotFilters js d rows = Inr (items, changed)" "sameSource d e" "fieldItems e = items"
  shows "reapplyPivotFilters js e rows = Inr (items, [])"
proof (cases "filters d = []")
  case False
  with assms(1) obtain allowed where allowed: "allowedMembers js d rows = Inr allowed" "items = filteredItems allowed (fieldItems d)"
    by (auto simp: reapplyPivotFilters_def Let_def res_simps)
  then have "filteredItems allowed items = items" by simp
  with False allowed(1) show ?thesis
    by (simp add: reapplyPivotFilters_def Let_def same_allowedMembers [OF assms(2)] same_parts [OF assms(2)] assms(3))
qed (use assms in \<open>simp add: reapplyPivotFilters_def same_parts\<close>)

section \<open>Growth\<close>

definition newOf :: "(int \<times> CellScalar list) list \<Rightarrow> int \<Rightarrow> CellScalar list" where
  "newOf additions field = (case map_of additions field of None \<Rightarrow> [] | Some new \<Rightarrow> new)"

lemma newOf_Nil [simp]: "newOf [] field = []" by (simp add: newOf_def)

lemma newOf_filter:
  "newOf (filter (\<lambda>(_, a). a \<noteq> []) (map (\<lambda>f. (f, g f)) fs)) field = (if field \<in> set fs then g field else [])"
  by (induction fs) (auto simp: newOf_def split: option.splits)

lemma newOf_additions:
  "newOf (additionsByField js d rows) field = (if field \<in> set (axisFields d) then fieldAdditions js d rows field else [])"
  by (simp add: additionsByField_def newOf_filter)

lemma additions_keys: "field \<in> set (map fst (additionsByField js d rows)) \<longleftrightarrow> field \<in> set (axisFields d) \<and> fieldAdditions js d rows field \<noteq> []"
  by (force simp: additionsByField_def)

lemma append_parts:
  assumes "appendMembers d additions = Inr g"
  shows "rowFields g = rowFields d" "colFields g = colFields d" "pageFields g = pageFields d" "dataFields g = dataFields d"
    "filters g = filters d" "unsupported g = unsupported d" "rowLines g = rowLines d" "colLines g = colLines d"
  using assms by (auto simp: appendMembers_def res_simps split: if_splits)

lemma append_axisFields: "appendMembers d additions = Inr g \<Longrightarrow> axisFields g = axisFields d"
  by (simp add: axisFields_def append_parts)

lemma elemAt_enumerate: "elemAt (map (\<lambda>(i, x). f i x) (enumerate 0 xs)) k = map_option (f (nat k)) (elemAt xs k)"
  by (simp add: elemAt_def nthOpt_def nth_enumerate_eq)

lemma elemAt_Some: "elemAt xs k = Some x \<longleftrightarrow> 0 \<le> k \<and> nat k < length xs \<and> x = xs ! nat k"
  by (auto simp: elemAt_def nthOpt_def)

lemma append_fieldAt:
  assumes "appendMembers d additions = Inr g"
  shows "fieldAt g field = map_option (\<lambda>f. f\<lparr>sharedItems := sharedItems f @ newOf additions field\<rparr>) (fieldAt d field)"
proof (cases "fieldAt d field")
  case (Some f)
  then have "0 \<le> field" by (simp add: fieldAt_def elemAt_Some)
  with Some assms show ?thesis
    by (auto simp: appendMembers_def res_simps fieldAt_def elemAt_enumerate newOf_def split: if_splits option.splits)
qed (use assms in \<open>auto simp: appendMembers_def res_simps fieldAt_def elemAt_enumerate split: if_splits\<close>)

lemma append_sharedOf:
  assumes "appendMembers d additions = Inr g" "fieldAt d field \<noteq> None"
  shows "sharedOf g field = sharedOf d field @ newOf additions field"
  using assms by (auto simp: sharedOf_def append_fieldAt)

lemma append_groupedCell: "appendMembers d additions = Inr g \<Longrightarrow> groupedCell js g field v = groupedCell js d field v"
  by (cases "fieldAt d field") (simp_all add: groupedCell_def groupingOf_def append_fieldAt)

lemma append_rowKey: "appendMembers d additions = Inr g \<Longrightarrow> rowKey js g row field = rowKey js d row field"
  by (simp add: rowKey_def sourceKey_def append_groupedCell)

text \<open>Items of subtotals and old items keep their places; new items follow.\<close>

lemma append_items:
  assumes "appendMembers d additions = Inr g"
  shows "length (fieldItems g) = length (fieldItems d)"
    "i < length (fieldItems d) \<Longrightarrow> \<exists>new. fieldItems g ! i = fieldItems d ! i @ new \<and> (newOf additions (int i) = [] \<longrightarrow> new = [])"
proof -
  have both: "length (fieldItems g) = length (fieldItems d) \<and>
     (i < length (fieldItems d) \<longrightarrow> (\<exists>new. fieldItems g ! i = fieldItems d ! i @ new \<and> (newOf additions (int i) = [] \<longrightarrow> new = [])))"
  proof (cases "additions = []")
    case False
    with assms obtain items where items: "mapE (grownItems d additions) (enumerate 0 (fieldItems d)) = Inr items" "fieldItems g = items"
      by (auto simp: appendMembers_def res_simps)
    from mapE_nth [OF items(1), of i] have "i < length (fieldItems d) \<Longrightarrow> grownItems d additions (i, fieldItems d ! i) = Inr (items ! i)"
      by (simp add: nth_enumerate_eq)
    then show ?thesis
      using items(2) mapE_Inr_length [OF items(1)]
      by (auto simp: grownItems_def newOf_def dest!: sym [of _ "fieldItems g ! i"] split: option.splits)
  qed (use assms in \<open>auto simp: appendMembers_def\<close>)
  show "length (fieldItems g) = length (fieldItems d)" using both by simp
  show "i < length (fieldItems d) \<Longrightarrow> \<exists>new. fieldItems g ! i = fieldItems d ! i @ new \<and> (newOf additions (int i) = [] \<longrightarrow> new = [])"
    using both by simp
qed

section \<open>Drift\<close>

lemma foldE_unit: "foldE f () xs = Inr () \<longleftrightarrow> (\<forall>x\<in>set xs. f () x = Inr ())"
  by (induction xs) (auto simp: res_simps)

lemma checkDrift_ok: "checkDrift js d rows = Inr () \<longleftrightarrow> (\<forall>field\<in>set (axisFields d). \<forall>row\<in>set rows. \<not> driftedRow js d field row)"
proof -
  have "(case find (driftedRow js d field) rows of None \<Rightarrow> Inr () | Some row \<Rightarrow> refuse (message row)) = Inr ()
          \<longleftrightarrow> (\<forall>row\<in>set rows. \<not> driftedRow js d field row)" for field and message :: "SourceRow \<Rightarrow> string"
    using find_None [of "driftedRow js d field" rows]
    by (cases "find (driftedRow js d field) rows") (auto simp: refuse_def dest: find_Some_in)
  then show ?thesis by (simp only: checkDrift_def foldE_unit)
qed

lemma no_additions: "additionsByField js d rows = [] \<longleftrightarrow> checkDrift js d rows = Inr ()"
  by (simp add: additionsByField_def filter_empty_conv fieldAdditions_def newMembers_empty checkDrift_ok driftedRow_def
        rowKey_def sourceKey_def image_subset_iff)

text \<open>The dimension fields are fields of the cache.\<close>

definition axesInCache :: "PivotDefinition \<Rightarrow> bool" where
  "axesInCache d \<longleftrightarrow> list_all (\<lambda>field. fieldAt d field \<noteq> None) (axisFields d)"

lemma append_checkDrift:
  assumes "appendMembers d (additionsByField js d rows) = Inr g" "axesInCache d"
  shows "checkDrift js g rows = Inr ()"
proof -
  have "rowKey js g row field \<in> scalarKey js ` set (sharedOf g field)" if "field \<in> set (axisFields d)" "row \<in> set rows" for field row
  proof -
    have "fieldAt d field \<noteq> None" using assms(2) that(1) by (auto simp: axesInCache_def list_all_iff)
    from append_sharedOf [OF assms(1) this] have "sharedOf g field = sharedOf d field @ fieldAdditions js d rows field"
      using that(1) by (simp add: newOf_additions)
    with newMembers_cover [of js "map (\<lambda>row. groupedCell js d field (elemAt row field)) rows" "scalarKey js ` set (sharedOf d field)"] that(2)
    show ?thesis
      by (simp add: fieldAdditions_def append_groupedCell [OF assms(1)] rowKey_def sourceKey_def image_subset_iff image_Un)
  qed
  then show ?thesis by (simp add: checkDrift_ok driftedRow_def append_axisFields [OF assms(1)])
qed

section \<open>What growing does\<close>

lemma assert_ok:
  "assertSourceMatchesCache js d source = Inr () \<longleftrightarrow>
     unsupported d = [] \<and> source \<noteq> [] \<and> length (filter (\<lambda>f. f = None) (map fieldFormula (pFields d))) \<le> length (hd source) \<and>
     (\<forall>i<length (pFields d). \<not> headerMismatch js (hd source) (i, pFields d ! i))"
proof (cases source)
  case (Cons header rows)
  have "find (headerMismatch js header) (enumerate 0 (pFields d)) = None \<longleftrightarrow>
          (\<forall>i<length (pFields d). \<not> headerMismatch js header (i, pFields d ! i))"
    by (auto simp: find_None in_set_enumerate_eq)
  with Cons show ?thesis
    by (auto simp: assertSourceMatchesCache_def refuse_def Let_def filter_map comp_def split: option.splits)
qed (simp add: assertSourceMatchesCache_def refuse_def Let_def)

lemma append_pFields:
  assumes "appendMembers d additions = Inr g"
  shows "length (pFields g) = length (pFields d)"
    "i < length (pFields d) \<Longrightarrow> fieldName (pFields g ! i) = fieldName (pFields d ! i) \<and> fieldFormula (pFields g ! i) = fieldFormula (pFields d ! i)"
  using assms by (auto simp: appendMembers_def res_simps nth_enumerate_eq split: if_splits option.splits)

lemma append_assert:
  assumes "appendMembers d additions = Inr g" "assertSourceMatchesCache js d source = Inr ()"
  shows "assertSourceMatchesCache js g source = Inr ()"
proof -
  have "map fieldFormula (pFields g) = map fieldFormula (pFields d)"
    by (rule nth_equalityI) (auto simp: append_pFields [OF assms(1)])
  with assms show ?thesis
    by (auto simp: assert_ok append_parts append_pFields [OF assms(1)] headerMismatch_def)
qed

lemma rebuildAxes_parts:
  assumes "rebuildAxes js d affected base rows = Inr d'"
  shows "sameSource base d'" "fieldItems d' = fieldItems base"
  using assms by (auto simp: rebuildAxes_def res_simps sameSource_def)

lemma grow_steps:
  assumes "growPivotDefinition js d source = Inr (d', grown)"
  obtains g items changed where
    "assertSourceMatchesCache js d source = Inr ()"
    "appendMembers d (additionsByField js d (drop 1 source)) = Inr g"
    "reapplyPivotFilters js g (drop 1 source) = Inr (items, changed)"
    "sameSource g d'" "fieldItems d' = items" "\<not> grown \<Longrightarrow> d' = d"
proof -
  let ?rows = "drop 1 source" and ?additions = "additionsByField js d (drop 1 source)"
  from assms obtain g items changed where run:
    "assertSourceMatchesCache js d source = Inr ()" "appendMembers d ?additions = Inr g"
    "reapplyPivotFilters js g ?rows = Inr (items, changed)"
    "(if ?additions = [] \<and> changed = [] then Inr (d, False)
      else bindE (rebuildAxes js d (\<lambda>field. field \<in> set (map fst ?additions) \<or> field \<in> set changed)
                    (if changed = [] then g else g\<lparr>fieldItems := items\<rparr>) ?rows) (\<lambda>d'. Inr (d', True))) = Inr (d', grown)"
    unfolding growPivotDefinition_def Let_def res_simps by auto
  have "sameSource g d' \<and> fieldItems d' = items \<and> (\<not> grown \<longrightarrow> d' = d)"
  proof (cases "?additions = [] \<and> changed = []")
    case True
    then have "g = d" using run(2) by (simp add: appendMembers_def)
    with True run(3,4) reapply_items [OF run(3)] show ?thesis by (auto simp: sameSource_def)
  next
    case False
    with run(4) have "rebuildAxes js d (\<lambda>field. field \<in> set (map fst ?additions) \<or> field \<in> set changed)
        (if changed = [] then g else g\<lparr>fieldItems := items\<rparr>) ?rows = Inr d'" "grown"
      by (auto simp: res_simps split: if_splits)
    from rebuildAxes_parts [OF this(1)] this(2) reapply_items [OF run(3)] show ?thesis
      by (auto simp: sameSource_def split: if_splits)
  qed
  with run(1-3) show thesis by (intro that) auto
qed

end
