(* ===== verification/PivotMemo.thy ===== *)
theory PivotMemo
  imports PivotKeys
begin

text \<open>
  Recomputing the data area without the cache of denominators, and the proof that the cache changes nothing;
  sums over the members of a field.
\<close>

section \<open>The reference\<close>

definition basePredicates :: "PivotShowDataAs \<Rightarrow> AxisPredicate list \<Rightarrow> AxisPredicate list \<Rightarrow> AxisPredicate list" where
  "basePredicates mode rowPreds colPreds =
     (case mode of PercentOfTotal \<Rightarrow> [] | PercentOfRow \<Rightarrow> rowPreds | PercentOfCol \<Rightarrow> colPreds)"

definition cellSpec ::
  "Js \<Rightarrow> PivotDefinition \<Rightarrow> (nat \<Rightarrow> AxisPredicate list \<Rightarrow> pivot_error + real option) \<Rightarrow> AxisPredicate list \<times> nat
   \<Rightarrow> PivotLayoutLine \<Rightarrow> pivot_error + real option" where
  "cellSpec js d cell rowPart colLine =
     (if lineT colLine = ''blank'' then Inr None
      else bindE (linePredicates js d (colFields d) colLine) (\<lambda>colPart.
        let index = max (snd rowPart) (snd colPart) in
        case nthOpt (dataFields d) index of
          None \<Rightarrow> missingDataField index
        | Some f \<Rightarrow>
            bindE (cell index (fst rowPart @ fst colPart)) (\<lambda>raw.
              case (showDataAs f, raw) of
                (Some mode, Some r) \<Rightarrow>
                  bindE (cell index (basePredicates mode (fst rowPart) (fst colPart))) (\<lambda>base. Inr (normalized r base))
              | _ \<Rightarrow> Inr raw)))"

definition rowSpec ::
  "Js \<Rightarrow> PivotDefinition \<Rightarrow> (nat \<Rightarrow> AxisPredicate list \<Rightarrow> pivot_error + real option) \<Rightarrow> PivotLayoutLine
   \<Rightarrow> pivot_error + real option list" where
  "rowSpec js d cell rowLine =
     (if lineT rowLine = ''blank'' then Inr (replicate (length (colLines d)) None)
      else bindE (linePredicates js d (rowFields d) rowLine) (\<lambda>rowPart. mapE (cellSpec js d cell rowPart) (colLines d)))"

definition recomputeSpec :: "Js \<Rightarrow> PivotDefinition \<Rightarrow> SourceRow list \<Rightarrow> pivot_error + real option list list" where
  "recomputeSpec js d source =
     bindE (assertSourceMatchesCache js d source) (\<lambda>_.
     bindE (checkDrift js d (drop 1 source)) (\<lambda>_.
     bindE (pagePredicates js d) (\<lambda>pages.
     bindE (formulaAsts js d) (\<lambda>asts.
       mapE (rowSpec js d (aggregateCell js d (filter (rowVisible js d pages) (drop 1 source)) asts)) (rowLines d)))))"

section \<open>The cache\<close>

text \<open>The predicates that belong to a cache key, and a cache that holds the aggregates of its keys.\<close>

definition basePred :: "Js \<Rightarrow> PivotDefinition \<Rightarrow> string \<Rightarrow> AxisPredicate list \<Rightarrow> bool" where
  "basePred js d tag preds \<longleftrightarrow>
     tag = ''total'' \<and> preds = [] \<or>
     (\<exists>r part. tag = ''row'' @ natStr r \<and> r < length (rowLines d) \<and>
        linePredicates js d (rowFields d) (rowLines d ! r) = Inr part \<and> preds = fst part) \<or>
     (\<exists>c part. tag = ''col'' @ natStr c \<and> c < length (colLines d) \<and>
        linePredicates js d (colFields d) (colLines d ! c) = Inr part \<and> preds = fst part)"

definition cacheHolds :: "Js \<Rightarrow> PivotDefinition \<Rightarrow> (nat \<Rightarrow> AxisPredicate list \<Rightarrow> pivot_error + real option) \<Rightarrow> BaseCache \<Rightarrow> bool" where
  "cacheHolds js d cell ch \<longleftrightarrow>
     (\<forall>key v. ch key = Some v \<longrightarrow>
        (\<exists>tag i preds. key = tag @ '':'' @ natStr i \<and> basePred js d tag preds \<and> cell i preds = Inr v))"

lemma colon_not_digit: "CHR '':'' \<notin> set (natStr n)"
  using natStr_digits [of n] by (auto simp: isDigit_def code_def)

lemma basePred_colon: "basePred js d tag preds \<Longrightarrow> CHR '':'' \<notin> set tag"
  by (auto simp: basePred_def colon_not_digit)

lemma basePred_unique: "basePred js d tag preds \<Longrightarrow> basePred js d tag preds' \<Longrightarrow> preds = preds'"
  by (auto simp: basePred_def dest: natStr_inj)

lemma cache_key_inj:
  assumes "CHR '':'' \<notin> set tag" "CHR '':'' \<notin> set tag'" "tag @ '':'' @ natStr i = tag' @ '':'' @ natStr j"
  shows "tag = tag' \<and> i = j"
proof -
  have "splitOn (CHR '':'') (tag @ CHR '':'' # natStr i) = splitOn (CHR '':'') (tag' @ CHR '':'' # natStr j)"
    using assms(3) by simp
  then show ?thesis using assms(1,2) by (auto simp: splitOn_append splitOn_none colon_not_digit dest: natStr_inj)
qed

lemma aggregateBase_cached:
  assumes "cacheHolds js d cell ch" "basePred js d tag preds"
  shows "\<exists>ch'. cacheHolds js d cell ch' \<and> aggregateBase cell tag i preds ch = bindE (cell i preds) (\<lambda>v. Inr (v, ch'))"
proof (cases "ch (tag @ '':'' @ natStr i)")
  case (Some v)
  with assms(1) obtain tag' j preds' where
    held: "tag @ '':'' @ natStr i = tag' @ '':'' @ natStr j" "basePred js d tag' preds'" "cell j preds' = Inr v"
    unfolding cacheHolds_def by blast
  from cache_key_inj [OF basePred_colon basePred_colon this(1), OF assms(2) this(2)] have "tag = tag'" "i = j" by auto
  with held basePred_unique assms(2) have "cell i preds = Inr v" by metis
  with Some assms(1) show ?thesis by (intro exI [of _ ch]) (simp add: aggregateBase_def)
next
  case None
  show ?thesis
  proof (cases "cell i preds")
    case (Inl e)
    with None assms(1) show ?thesis by (intro exI [of _ ch]) (simp add: aggregateBase_def)
  next
    case (Inr v)
    have "cacheHolds js d cell (ch(tag @ '':'' @ natStr i \<mapsto> v))"
      unfolding cacheHolds_def fun_upd_apply using assms Inr cacheHolds_def by (metis option.inject)
    with None Inr show ?thesis by (intro exI [of _ "ch(tag @ '':'' @ natStr i \<mapsto> v)"]) (simp add: aggregateBase_def)
  qed
qed

text \<open>A loop that threads a cache and appends what a pure step computes.\<close>

lemma cached_loop:
  assumes "\<And>x ch acc. x \<in> set xs \<Longrightarrow> holdsOf ch \<Longrightarrow> \<exists>ch'. holdsOf ch' \<and> step (ch, acc) x = bindE (spec x) (\<lambda>v. Inr (ch', acc @ [v]))"
    and "holdsOf ch"
  shows "\<exists>ch'. holdsOf ch' \<and> foldE step (ch, acc) xs = bindE (mapE spec xs) (\<lambda>vs. Inr (ch', acc @ vs))"
  using assms
proof (induction xs arbitrary: ch acc)
  case (Cons x xs)
  from Cons.prems(1) [of x ch acc] Cons.prems(2) obtain ch1 where
    one: "holdsOf ch1" "step (ch, acc) x = bindE (spec x) (\<lambda>v. Inr (ch1, acc @ [v]))" by auto
  show ?case
  proof (cases "spec x")
    case (Inr v)
    have "\<exists>ch'. holdsOf ch' \<and> foldE step (ch1, acc @ [v]) xs = bindE (mapE spec xs) (\<lambda>vs. Inr (ch', (acc @ [v]) @ vs))"
      by (rule Cons.IH) (use Cons.prems one in auto)
    then obtain ch2 where "holdsOf ch2" "foldE step (ch1, acc @ [v]) xs = bindE (mapE spec xs) (\<lambda>vs. Inr (ch2, acc @ v # vs))" by auto
    with one Inr show ?thesis by (intro exI [of _ ch2]) (cases "mapE spec xs"; simp)
  qed (use one in \<open>auto intro!: exI [of _ ch1]\<close>)
qed (auto intro!: exI [of _ ch])

lemma mapE_enumerate: "mapE (\<lambda>(i, x). f x) (enumerate n xs) = mapE f xs"
  by (induction xs arbitrary: n) auto

lemma basePred_total: "basePred js d ''total'' []"
  by (simp add: basePred_def)

lemma basePred_row:
  "r < length (rowLines d) \<Longrightarrow> linePredicates js d (rowFields d) (rowLines d ! r) = Inr part \<Longrightarrow> basePred js d (''row'' @ natStr r) (fst part)"
  by (simp only: basePred_def) blast

lemma basePred_col:
  "c < length (colLines d) \<Longrightarrow> linePredicates js d (colFields d) (colLines d ! c) = Inr part \<Longrightarrow> basePred js d (''col'' @ natStr c) (fst part)"
  by (simp only: basePred_def) blast

lemma recomputeCell_cached:
  assumes "cacheHolds js d cell ch" "rowIndex < length (rowLines d)"
    "linePredicates js d (rowFields d) (rowLines d ! rowIndex) = Inr rowPart" "colIndex < length (colLines d)"
  shows "\<exists>ch'. cacheHolds js d cell ch' \<and>
    recomputeCell js d cell rowIndex rowPart (ch, line) (colIndex, colLines d ! colIndex) =
      bindE (cellSpec js d cell rowPart (colLines d ! colIndex)) (\<lambda>v. Inr (ch', line @ [v]))"
proof (cases "lineT (colLines d ! colIndex) = ''blank'' \<or> \<not> isOk (linePredicates js d (colFields d) (colLines d ! colIndex))")
  case True
  with assms(1) show ?thesis
    by (intro exI [of _ ch]) (auto simp: recomputeCell_def cellSpec_def isOk_def split: sum.splits)
next
  case False
  then obtain colPart where col: "linePredicates js d (colFields d) (colLines d ! colIndex) = Inr colPart" "lineT (colLines d ! colIndex) \<noteq> ''blank''"
    by (auto simp: isOk_iff)
  let ?i = "max (snd rowPart) (snd colPart)"
  have base: "\<exists>ch'. cacheHolds js d cell ch' \<and>
      (case mode of
         PercentOfTotal \<Rightarrow> aggregateBase cell ''total'' ?i [] ch
       | PercentOfRow \<Rightarrow> aggregateBase cell (''row'' @ natStr rowIndex) ?i (fst rowPart) ch
       | PercentOfCol \<Rightarrow> aggregateBase cell (''col'' @ natStr colIndex) ?i (fst colPart) ch) =
      bindE (cell ?i (basePredicates mode (fst rowPart) (fst colPart))) (\<lambda>v. Inr (v, ch'))" for mode
    using aggregateBase_cached [OF assms(1), of "''total''" "[]" ?i] aggregateBase_cached [OF assms(1) basePred_row [OF assms(2,3)], of ?i]
      aggregateBase_cached [OF assms(1) basePred_col [OF assms(4) col(1)], of ?i]
    by (cases mode) (simp_all add: basePredicates_def basePred_total)
  show ?thesis
  proof (cases "nthOpt (dataFields d) ?i")
    case None
    with col assms(1) show ?thesis by (auto simp: recomputeCell_def cellSpec_def missingDataField_def refuse_def)
  next
    case (Some f)
    note field = this
    show ?thesis
    proof (cases "\<exists>r mode. cell ?i (fst rowPart @ fst colPart) = Inr (Some r) \<and> showDataAs f = Some mode")
      case True
      then obtain r mode where "cell ?i (fst rowPart @ fst colPart) = Inr (Some r)" "showDataAs f = Some mode" by auto
      moreover from base [of mode] obtain ch' where "cacheHolds js d cell ch'" 
        "(case mode of
         PercentOfTotal \<Rightarrow> aggregateBase cell ''total'' ?i [] ch
       | PercentOfRow \<Rightarrow> aggregateBase cell (''row'' @ natStr rowIndex) ?i (fst rowPart) ch
       | PercentOfCol \<Rightarrow> aggregateBase cell (''col'' @ natStr colIndex) ?i (fst colPart) ch) =
      bindE (cell ?i (basePredicates mode (fst rowPart) (fst colPart))) (\<lambda>v. Inr (v, ch'))" by auto
      ultimately show ?thesis using col field
        by (intro exI [of _ ch']) (cases "cell ?i (basePredicates mode (fst rowPart) (fst colPart))";
          simp add: recomputeCell_def cellSpec_def Let_def)
    next
      case False
      with col field assms(1) show ?thesis
        by (intro exI [of _ ch]) (auto simp: recomputeCell_def cellSpec_def Let_def bindE_def split: option.splits sum.splits)
    qed
  qed
qed

lemma recomputeRow_cached:
  assumes "cacheHolds js d cell ch" "rowIndex < length (rowLines d)"
  shows "\<exists>ch'. cacheHolds js d cell ch' \<and>
    recomputeRow js d cell (ch, data) (rowIndex, rowLines d ! rowIndex) =
      bindE (rowSpec js d cell (rowLines d ! rowIndex)) (\<lambda>v. Inr (ch', data @ [v]))"
proof (cases "lineT (rowLines d ! rowIndex) = ''blank'' \<or> \<not> isOk (linePredicates js d (rowFields d) (rowLines d ! rowIndex))")
  case True
  with assms(1) show ?thesis
    by (intro exI [of _ ch]) (auto simp: recomputeRow_def rowSpec_def isOk_def split: sum.splits)
next
  case False
  then obtain rowPart where row: "linePredicates js d (rowFields d) (rowLines d ! rowIndex) = Inr rowPart" "lineT (rowLines d ! rowIndex) \<noteq> ''blank''"
    by (auto simp: isOk_iff)
  have "\<exists>ch'. cacheHolds js d cell ch' \<and>
      foldE (recomputeCell js d cell rowIndex rowPart) (ch, []) (enumerate 0 (colLines d)) =
      bindE (mapE (\<lambda>(i, line). cellSpec js d cell rowPart line) (enumerate 0 (colLines d))) (\<lambda>vs. Inr (ch', [] @ vs))"
    by (rule cached_loop [where holdsOf = "cacheHolds js d cell"])
       (use assms(1) recomputeCell_cached [OF _ assms(2) row(1)] in \<open>auto simp: in_set_enumerate_eq\<close>)
  then obtain ch' where "cacheHolds js d cell ch'"
      "foldE (recomputeCell js d cell rowIndex rowPart) (ch, []) (enumerate 0 (colLines d)) =
      bindE (mapE (cellSpec js d cell rowPart) (colLines d)) (\<lambda>vs. Inr (ch', vs))" by (auto simp: mapE_enumerate)
  with row show ?thesis
    by (intro exI [of _ ch']) (cases "mapE (cellSpec js d cell rowPart) (colLines d)"; simp add: recomputeRow_def rowSpec_def)
qed

lemma recompute_loop:
  "bindE (foldE (recomputeRow js d cell) (Map.empty, []) (enumerate 0 (rowLines d))) (\<lambda>(_, data). Inr data) =
     mapE (rowSpec js d cell) (rowLines d)"
proof -
  have "\<exists>ch'. cacheHolds js d cell ch' \<and>
      foldE (recomputeRow js d cell) (Map.empty, []) (enumerate 0 (rowLines d)) =
      bindE (mapE (\<lambda>(i, line). rowSpec js d cell line) (enumerate 0 (rowLines d))) (\<lambda>vs. Inr (ch', [] @ vs))"
    by (rule cached_loop [where holdsOf = "cacheHolds js d cell"])
       (use recomputeRow_cached in \<open>auto simp: in_set_enumerate_eq cacheHolds_def\<close>)
  then show ?thesis by (cases "mapE (rowSpec js d cell) (rowLines d)") (auto simp: mapE_enumerate)
qed

section \<open>Totals\<close>

text \<open>What a value adds to the aggregates that add up.\<close>

definition weight :: "Js \<Rightarrow> string \<Rightarrow> SourceCell \<Rightarrow> real" where
  "weight js subtotalName v =
     (if subtotalName = ''count'' then (if isBlank v then 0 else 1)
      else if subtotalName = ''countNums'' then real (length (numbersOf js [v]))
      else sum_list (numbersOf js [v]))"

lemma foldl_plus: "foldl (+) (a :: real) xs = a + sum_list xs"
  by (induction xs arbitrary: a) (auto simp: algebra_simps)

lemma numbersOf_Cons: "numbersOf js (v # vs) = numbersOf js [v] @ numbersOf js vs"
  by (simp add: numbersOf_def)

lemma sum_numbers: "sum_list (numbersOf js vs) = sum_list (map (\<lambda>v. sum_list (numbersOf js [v])) vs)"
proof (induction vs)
  case (Cons v vs)
  then show ?case by (subst numbersOf_Cons) simp
qed (simp add: numbersOf_def)

lemma count_numbers: "real (length (numbersOf js vs)) = sum_list (map (\<lambda>v. real (length (numbersOf js [v]))) vs)"
proof (induction vs)
  case (Cons v vs)
  then show ?case by (subst numbersOf_Cons) simp
qed (simp add: numbersOf_def)

lemma count_nonblank: "real (length (filter (\<lambda>v. \<not> isBlank v) vs)) = sum_list (map (\<lambda>v. if isBlank v then 0 else 1) vs)"
  by (induction vs) auto

lemma aggregate_weight:
  "st \<in> {''sum'', ''count'', ''countNums''} \<Longrightarrow> aggregate js st vs = Inr (Some (sum_list (map (weight js st) vs)))"
  unfolding aggregate_def weight_def [abs_def] Let_def
  by (elim insertE; simp add: foldl_plus count_nonblank; subst sum_numbers count_numbers; simp)

lemma sum_one_hot: "distinct ks \<Longrightarrow> k0 \<in> set ks \<Longrightarrow> sum_list (map (\<lambda>k. if k0 = k then c else (0::real)) ks) = c"
proof (induction ks)
  case (Cons k ks)
  have "k0 \<notin> set ks \<Longrightarrow> sum_list (map (\<lambda>k. if k0 = k then c else 0) ks) = 0"
    by (induction ks) auto
  with Cons show ?case by auto
qed simp

lemma sum_by_key:
  assumes "distinct ks" "\<And>row. row \<in> set rows \<Longrightarrow> M row \<Longrightarrow> K row \<in> set ks"
  shows "sum_list (map (\<lambda>k. sum_list (map w (filter (\<lambda>row. M row \<and> K row = k) rows))) ks) = (sum_list (map w (filter M rows)) :: real)"
  using assms(2)
proof (induction rows)
  case (Cons row rows)
  have "sum_list (map w (filter (\<lambda>r. M r \<and> K r = k) (row # rows))) =
      (if M row \<and> K row = k then w row else 0) + sum_list (map w (filter (\<lambda>r. M r \<and> K r = k) rows))" for k
    by simp
  then have "sum_list (map (\<lambda>k. sum_list (map w (filter (\<lambda>r. M r \<and> K r = k) (row # rows)))) ks) =
      sum_list (map (\<lambda>k. if M row \<and> K row = k then w row else 0) ks) + sum_list (map w (filter M rows))"
    using Cons by (simp add: sum_list_addf)
  moreover have "sum_list (map (\<lambda>k. if M row \<and> K row = k then w row else 0) ks) = (if M row then w row else 0)"
    using sum_one_hot [OF assms(1), of "K row" "w row"] Cons.prems [of row] by (cases "M row") (auto simp: sum_list_0)
  ultimately show ?case by simp
qed (simp add: sum_list_0)

lemma matchesAll_snoc: "matchesAll js d (preds @ [(field, k)]) row \<longleftrightarrow> matchesAll js d preds row \<and> rowKey js d row field = k"
  by (simp add: matchesAll_def)

lemma totals_add_up:
  assumes "nthOpt (dataFields d) i = Some f" "subtotal f \<in> {''sum'', ''count'', ''countNums''}" "nthOpt asts i = Some None"
    and "distinct keys" "\<And>row. row \<in> set rows \<Longrightarrow> matchesAll js d preds row \<Longrightarrow> rowKey js d row field \<in> set keys"
  shows "\<exists>parts. mapE (\<lambda>k. aggregateCell js d rows asts i (preds @ [(field, k)])) keys = Inr (map Some parts) \<and>
                 aggregateCell js d rows asts i preds = Inr (Some (sum_list parts))"
proof -
  let ?w = "\<lambda>row. weight js (subtotal f) (elemAt row (dataSource f))"
  have cell: "aggregateCell js d rows asts i ps = Inr (Some (sum_list (map ?w (filter (matchesAll js d ps) rows))))" for ps
    using aggregate_weight [OF assms(2)] by (simp add: aggregateCell_def assms(1,3) matchingValues_def comp_def)
  let ?part = "\<lambda>k. sum_list (map ?w (filter (\<lambda>row. matchesAll js d preds row \<and> rowKey js d row field = k) rows))"
  have "mapE (\<lambda>k. aggregateCell js d rows asts i (preds @ [(field, k)])) keys = Inr (map (\<lambda>k. Some (?part k)) keys)"
    by (rule mapE_pure) (simp add: cell matchesAll_snoc cong: conj_cong filter_cong)
  moreover have "aggregateCell js d rows asts i preds = Inr (Some (sum_list (map ?part keys)))"
    using sum_by_key [OF assms(4), of rows "matchesAll js d preds" "\<lambda>row. rowKey js d row field" ?w] assms(5) by (simp add: cell)
  ultimately show ?thesis by (intro exI [of _ "map ?part keys"]) (simp add: comp_def)
qed

end
