(* ===== verification/PivotLayout.thy ===== *)
theory PivotLayout
  imports PivotMemo
begin

text \<open>
  The layout lines of an axis: joined keys tell combinations apart, and the data lines that \<open>emit\<close> makes are
  the combinations that are present.
\<close>

section \<open>Joined keys\<close>

text \<open>Keys of values without NUL characters; the key of blank cells starts with one.\<close>

definition cleanKey :: "string \<Rightarrow> bool" where
  "cleanKey k \<longleftrightarrow> k = blankKey \<or> k \<noteq> [] \<and> CHR 0x00 \<notin> set k"

definition keyParts :: "string \<Rightarrow> string list" where
  "keyParts k = (if k = blankKey then [[], ''blank''] else [k])"

lemma splitOn_clean: "cleanKey k \<Longrightarrow> splitOn (CHR 0x00) k = keyParts k"
  using splitOn_append [of "CHR 0x00" "[]" "''blank''"]
  by (auto simp: cleanKey_def keyParts_def blankKey_def splitOn_none)

lemma splitOn_clean_append: "cleanKey k \<Longrightarrow> splitOn (CHR 0x00) (k @ CHR 0x00 # t) = keyParts k @ splitOn (CHR 0x00) t"
  using splitOn_append [of "CHR 0x00" "[]" "''blank'' @ CHR 0x00 # t"] splitOn_append [of "CHR 0x00" "''blank''" t]
  by (auto simp: cleanKey_def keyParts_def blankKey_def splitOn_append)

lemma joinKeys_Cons: "joinKeys (k # l # ks) = k @ CHR 0x00 # joinKeys (l # ks)"
  by (simp add: joinKeys_def)

lemma splitOn_joinKeys: "ks \<noteq> [] \<Longrightarrow> list_all cleanKey ks \<Longrightarrow> splitOn (CHR 0x00) (joinKeys ks) = concat (map keyParts ks)"
proof (induction ks)
  case (Cons k ks)
  then show ?case
    by (cases ks) (simp_all add: joinKeys_Cons splitOn_clean_append, simp add: joinKeys_def splitOn_clean)
qed simp

lemma keyParts_inj:
  "list_all cleanKey ks \<Longrightarrow> list_all cleanKey ls \<Longrightarrow> concat (map keyParts ks) = concat (map keyParts ls) \<Longrightarrow> ks = ls"
proof (induction ks arbitrary: ls)
  case Nil
  then show ?case by (cases ls) (auto simp: keyParts_def split: if_splits)
next
  case (Cons k ks)
  then show ?case by (cases ls) (auto simp: keyParts_def cleanKey_def split: if_splits)
qed

lemma joinKeys_inj:
  assumes "ks \<noteq> []" "ls \<noteq> []" "list_all cleanKey ks" "list_all cleanKey ls" "joinKeys ks = joinKeys ls"
  shows "ks = ls"
proof (rule keyParts_inj [OF assms(3,4)])
  show "concat (map keyParts ks) = concat (map keyParts ls)"
    using splitOn_joinKeys [OF assms(1,3)] splitOn_joinKeys [OF assms(2,4)] assms(5) by simp
qed

section \<open>Entries of a level\<close>

lemma enumerate_upt: "enumerate 0 xs = map (\<lambda>m. (m, xs ! m)) [0..<length xs]"
  by (rule nth_equalityI) (simp_all add: nth_enumerate_eq)

lemma levelOrder_entry:
  "field \<noteq> -2 \<Longrightarrow> e \<in> set (levelOrder js d field) \<longleftrightarrow>
     (\<exists>i s. nthOpt (itemsOf d field) (entryMember e) = Some i \<and> \<not> itemHidden i \<and> itemShared d field i = Some s \<and>
            entryKey e = groupKey js (Some s))"
proof -
  let ?entries = "\<lambda>(member, i). if itemHidden i then []
             else case itemShared d field i of None \<Rightarrow> [] | Some s \<Rightarrow> [\<lparr>entryMember = member, entryKey = groupKey js (Some s)\<rparr>]"
  assume "field \<noteq> -2"
  then have "e \<in> set (levelOrder js d field) \<longleftrightarrow> (\<exists>m<length (itemsOf d field). e \<in> set (?entries (m, itemsOf d field ! m)))"
    by (simp add: levelOrder_def enumerate_upt set_concat comp_def Bex_def cong: conj_cong) blast
  also have "\<dots> \<longleftrightarrow> (\<exists>i s. nthOpt (itemsOf d field) (entryMember e) = Some i \<and> \<not> itemHidden i \<and> itemShared d field i = Some s \<and>
            entryKey e = groupKey js (Some s))"
    by (cases e) (auto simp: nthOpt_def split: if_splits option.splits, metis)
  finally show ?thesis .
qed

lemma memberKey_entry:
  assumes "field \<noteq> -2"
  shows "memberKey js d field m = Some k \<longleftrightarrow> \<lparr>entryMember = m, entryKey = k\<rparr> \<in> set (levelOrder js d field)"
proof
  assume "memberKey js d field m = Some k"
  then obtain e where "find (\<lambda>e. entryMember e = m) (levelOrder js d field) = Some e" "entryKey e = k"
    by (auto simp: memberKey_def)
  then show "\<lparr>entryMember = m, entryKey = k\<rparr> \<in> set (levelOrder js d field)" by (cases e) (auto dest!: find_Some_in)
next
  assume here: "\<lparr>entryMember = m, entryKey = k\<rparr> \<in> set (levelOrder js d field)"
  show "memberKey js d field m = Some k"
  proof (cases "find (\<lambda>e. entryMember e = m) (levelOrder js d field)")
    case None
    with here show ?thesis by (auto simp: find_None)
  next
    case (Some e)
    from find_Some_in [OF this] here assms have "entryKey e = k" by (auto simp: levelOrder_entry)
    with Some show ?thesis by (simp add: memberKey_def)
  qed
qed

section \<open>The lines of \<open>emit\<close>\<close>

text \<open>The members of the data lines among \<open>ls\<close>, and the choices of entries whose combinations are present.\<close>

definition dataMembers :: "PivotLayoutLine list \<Rightarrow> nat option list set" where
  "dataMembers ls = lineMembers ` {line \<in> set ls. lineT line = ''data''}"

definition presentChoice :: "string set \<Rightarrow> string list \<Rightarrow> (int \<times> AxisEntry list) list \<Rightarrow> AxisEntry list \<Rightarrow> bool" where
  "presentChoice present keys rest es \<longleftrightarrow>
     list_all2 (\<lambda>e fe. e \<in> set (snd fe)) es rest \<and>
     (\<forall>n. 0 < n \<and> n \<le> length es \<longrightarrow> joinKeys (keys @ map entryKey (take n es)) \<in> present)"

lemma dataMembers_append [simp]: "dataMembers (xs @ ys) = dataMembers xs \<union> dataMembers ys"
  by (auto simp: dataMembers_def)

lemma dataMembers_concat: "dataMembers (concat (map f xs)) = (\<Union>x\<in>set xs. dataMembers (f x))"
  by (auto simp: dataMembers_def)

lemma dataMembers_single: "dataMembers [line] = (if lineT line = ''data'' then {lineMembers line} else {})"
  by (auto simp: dataMembers_def)

lemma dataMembers_Nil [simp]: "dataMembers [] = {}"
  by (simp add: dataMembers_def)

lemma presentChoice_Nil [simp]: "presentChoice present keys [] es \<longleftrightarrow> es = []"
  by (auto simp: presentChoice_def)

lemma presentChoice_Cons:
  "presentChoice present keys ((f, entries) # rest) es \<longleftrightarrow>
     (\<exists>e es'. es = e # es' \<and> e \<in> set entries \<and> joinKeys (keys @ [entryKey e]) \<in> present \<and> presentChoice present (keys @ [entryKey e]) rest es')"
  (is "?l \<longleftrightarrow> ?r")
proof
  assume l: ?l
  then obtain e es' where es: "es = e # es'" "e \<in> set entries" "list_all2 (\<lambda>e fe. e \<in> set (snd fe)) es' rest"
    by (auto simp: presentChoice_def list_all2_Cons2)
  have all: "joinKeys (keys @ map entryKey (take n es)) \<in> present" if "0 < n" "n \<le> length es" for n
    using l that by (simp add: presentChoice_def)
  have "joinKeys ((keys @ [entryKey e]) @ map entryKey (take n es')) \<in> present" if "0 < n" "n \<le> length es'" for n
    using all [of "Suc n"] that es(1) by simp
  moreover have "joinKeys (keys @ [entryKey e]) \<in> present" using all [of 1] es(1) by simp
  ultimately show ?r using es by (auto simp: presentChoice_def)
next
  assume ?r
  then obtain e es' where es: "es = e # es'" "e \<in> set entries" "joinKeys (keys @ [entryKey e]) \<in> present"
    "presentChoice present (keys @ [entryKey e]) rest es'" by blast
  have "joinKeys (keys @ map entryKey (take n es)) \<in> present" if "0 < n" "n \<le> length es" for n
    using es that by (cases n; cases "n = 1") (auto simp: presentChoice_def)
  with es show ?l by (simp add: presentChoice_def)
qed

lemma emit_data:
  assumes "length members = level + length rest" "\<forall>fe\<in>set rest. fst fe \<noteq> -2" "rest \<noteq> []"
  shows "dataMembers (emit present depths levels level rest members keys df) =
     (\<lambda>es. take level members @ map (Some \<circ> entryMember) es) ` {es. presentChoice present keys rest es}"
  using assms
proof (induction rest arbitrary: level members keys df)
  case (Cons fe rest)
  obtain f entries where fe: "fe = (f, entries)" by force
  have taken: "take (Suc level) (members[level := Some m]) = take level members @ [Some m]" for m
    using Cons.prems(1) by (simp add: take_Suc_conv_app_nth)
  show ?case
  proof (cases "rest = []")
    case True
    have "members[level := Some m] = take level members @ [Some m]" for m
      using taken [of m] Cons.prems(1) True by simp
    moreover have "{es. presentChoice present keys [(f, entries)] es} = (\<lambda>e. [e]) ` {e \<in> set entries. joinKeys (keys @ [entryKey e]) \<in> present}"
      by (auto simp: presentChoice_Cons)
    ultimately show ?thesis
      using Cons.prems(2) True unfolding fe
      by (auto simp: dataMembers_concat dataMembers_single Let_def image_image split: if_splits)
  next
    case False
    have step: "dataMembers (emit present depths levels (Suc level) rest (members[level := Some (entryMember e)]) (keys @ [entryKey e]) df) =
        (\<lambda>es. take level members @ Some (entryMember e) # map (Some \<circ> entryMember) es) ` {es. presentChoice present (keys @ [entryKey e]) rest es}" for e
      using Cons.IH [of "members[level := Some (entryMember e)]" "Suc level" "keys @ [entryKey e]" df] Cons.prems False
      by (simp add: taken comp_def)
    have "dataMembers (emit present depths levels level (fe # rest) members keys df) =
        (\<Union>e\<in>set entries. if joinKeys (keys @ [entryKey e]) \<in> present
           then (\<lambda>es. take level members @ Some (entryMember e) # map (Some \<circ> entryMember) es) ` {es. presentChoice present (keys @ [entryKey e]) rest es}
           else {})"
      using Cons.prems(2) False unfolding fe
      by (auto simp: dataMembers_concat Let_def step dataMembers_single split: if_splits)
    also have "\<dots> = (\<lambda>es. take level members @ map (Some \<circ> entryMember) es) ` {es. presentChoice present keys (fe # rest) es}"
    proof -
      have "{es. presentChoice present keys (fe # rest) es} =
          (\<Union>e\<in>set entries. if joinKeys (keys @ [entryKey e]) \<in> present then (#) e ` {es. presentChoice present (keys @ [entryKey e]) rest es} else {})"
        unfolding fe by (auto simp: presentChoice_Cons split: if_splits)
      then show ?thesis by (simp add: image_UN if_distrib [of "image _"] image_image cong: if_cong)
    qed
    finally show ?thesis .
  qed
qed simp

section \<open>Rebuilt lines\<close>

lemma enumerate_levels: "-2 \<notin> set axis \<Longrightarrow> realLevels axis = map (\<lambda>level. (axis ! level, level)) [0..<length axis]"
  by (auto simp: realLevels_def enumerate_upt filter_map comp_def filter_id_conv in_set_conv_nth)

lemma lineKeys_length: "lineKeys js d line ls = Some keys \<Longrightarrow> length keys = length ls"
  by (induction ls arbitrary: keys) (auto split: option.splits)

lemma axisCombos_length: "-2 \<notin> set axis \<Longrightarrow> keys \<in> set (axisCombos js d axis old rows) \<Longrightarrow> length keys = length axis"
  by (auto simp: axisCombos_def enumerate_levels split: if_splits option.splits) (drule sym, drule lineKeys_length, simp)

text \<open>Present combinations and members with keys that can be told apart when joined.\<close>

definition cleanAxis :: "Js \<Rightarrow> PivotDefinition \<Rightarrow> int list \<Rightarrow> PivotLayoutLine list \<Rightarrow> SourceRow list \<Rightarrow> bool" where
  "cleanAxis js d axis oldLines rows \<longleftrightarrow>
     list_all (list_all cleanKey) (axisCombos js d axis oldLines rows) \<and>
     list_all (\<lambda>field. list_all (cleanKey \<circ> entryKey) (levelOrder js d field)) axis"

lemma axisPrefixes_iff:
  "p \<in> axisPrefixes js d axis old rows \<longleftrightarrow>
     (\<exists>combo n. combo \<in> set (axisCombos js d axis old rows) \<and> 0 < n \<and> n \<le> length combo \<and> p = joinKeys (take n combo))"
proof -
  have "set [1..<length combo + 1] = {n. 0 < n \<and> n \<le> length combo}" for combo :: "string list" by auto
  then have "p \<in> set (comboPrefixes combo) \<longleftrightarrow> (\<exists>n. 0 < n \<and> n \<le> length combo \<and> p = joinKeys (take n combo))" for combo
    unfolding comboPrefixes_def set_map by blast
  then show ?thesis unfolding axisPrefixes_def set_concat set_map by blast
qed

lemma prefix_present:
  assumes "-2 \<notin> set axis" "axis \<noteq> []" "cleanAxis js d axis old rows" "length keys = length axis" "list_all cleanKey keys"
  shows "(\<forall>n. 0 < n \<and> n \<le> length keys \<longrightarrow> joinKeys (take n keys) \<in> axisPrefixes js d axis old rows) \<longleftrightarrow>
           keys \<in> set (axisCombos js d axis old rows)"
proof
  assume "\<forall>n. 0 < n \<and> n \<le> length keys \<longrightarrow> joinKeys (take n keys) \<in> axisPrefixes js d axis old rows"
  moreover have "keys \<noteq> []" using assms(2,4) by auto
  ultimately have "joinKeys keys \<in> axisPrefixes js d axis old rows" by (auto dest: spec [of _ "length keys"])
  then obtain combo n where combo: "combo \<in> set (axisCombos js d axis old rows)" "0 < n" "n \<le> length combo" "joinKeys keys = joinKeys (take n combo)"
    unfolding axisPrefixes_iff by blast
  then have "list_all cleanKey combo" using assms(3) by (auto simp: cleanAxis_def list_all_iff)
  then have "list_all cleanKey (take n combo)" by (auto simp: list_all_iff dest: in_set_takeD)
  with joinKeys_inj [OF \<open>keys \<noteq> []\<close> _ assms(5) _ combo(4)] combo(2,3) have "keys = take n combo" by fastforce
  moreover have "length combo = length axis" using axisCombos_length [OF assms(1) combo(1)] .
  ultimately show "keys \<in> set (axisCombos js d axis old rows)" using combo(1,3) assms(4) by simp
next
  assume "keys \<in> set (axisCombos js d axis old rows)"
  then show "\<forall>n. 0 < n \<and> n \<le> length keys \<longrightarrow> joinKeys (take n keys) \<in> axisPrefixes js d axis old rows"
    unfolding axisPrefixes_iff by blast
qed

lemma rebuilt_choices:
  assumes "rebuildAxisLines js d axis old rows = Inr ls" "-2 \<notin> set axis" "axis \<noteq> []"
  shows "dataMembers ls = map (Some \<circ> entryMember) `
     {es. presentChoice (axisPrefixes js d axis old rows) [] (map (\<lambda>field. (field, levelOrder js d field)) axis) es}"
proof -
  let ?rest = "map (\<lambda>field. (field, levelOrder js d field)) axis"
  obtain depths where ls: "ls = emit (axisPrefixes js d axis old rows) depths (length axis) 0 ?rest (replicate (length axis) None) [] 0 @
      filter (\<lambda>line. lineT line = ''grand'') old"
    using assms(1) by (auto simp: rebuildAxisLines_def Let_def refuse_def split: if_splits)
  have "dataMembers (filter (\<lambda>line. lineT line = ''grand'') old) = {}" by (auto simp: dataMembers_def)
  moreover have "\<forall>fe\<in>set ?rest. fst fe \<noteq> -2" using assms(2) by auto
  ultimately show ?thesis unfolding ls dataMembers_append
    using assms(3) by (subst emit_data) (simp_all add: comp_def)
qed

lemma rebuilt_lines:
  assumes "rebuildAxisLines js d axis old rows = Inr ls" "-2 \<notin> set axis" "axis \<noteq> []" "cleanAxis js d axis old rows"
  shows "map Some ms \<in> dataMembers ls \<longleftrightarrow>
     length ms = length axis \<and>
     (\<exists>keys\<in>set (axisCombos js d axis old rows). \<forall>level<length axis. memberKey js d (axis ! level) (ms ! level) = Some (keys ! level))"
proof -
  let ?P = "axisPrefixes js d axis old rows" and ?rest = "map (\<lambda>field. (field, levelOrder js d field)) axis"
  have choice: "presentChoice ?P [] ?rest es \<longleftrightarrow>
      length es = length axis \<and> (\<forall>level<length axis. es ! level \<in> set (levelOrder js d (axis ! level))) \<and>
      map entryKey es \<in> set (axisCombos js d axis old rows)" for es
  proof (cases "length es = length axis \<and> (\<forall>level<length axis. es ! level \<in> set (levelOrder js d (axis ! level)))")
    case True
    have clean: "\<forall>field\<in>set axis. \<forall>e\<in>set (levelOrder js d field). cleanKey (entryKey e)"
      using assms(4) by (simp add: cleanAxis_def list_all_iff)
    have "cleanKey (entryKey (es ! i))" if "i < length axis" for i
      using True that by (intro bspec [OF bspec [OF clean nth_mem [OF that]]]) simp
    with True have "list_all cleanKey (map entryKey es)" by (simp add: list_all_length)
    with prefix_present [OF assms(2,3,4), of "map entryKey es"] True show ?thesis
      by (auto simp: presentChoice_def list_all2_conv_all_nth take_map)
  qed (auto simp: presentChoice_def list_all2_conv_all_nth)
  have "map Some ms \<in> dataMembers ls \<longleftrightarrow> (\<exists>es. map entryMember es = ms \<and> presentChoice ?P [] ?rest es)"
  proof -
    have "map Some ms = map (Some \<circ> entryMember) es \<longleftrightarrow> map entryMember es = ms" for es
      using inj_map_eq_map [OF inj_Some, of ms "map entryMember es"] by auto
    then show ?thesis unfolding rebuilt_choices [OF assms(1-3)] image_iff by blast
  qed
  also have "\<dots> \<longleftrightarrow> length ms = length axis \<and>
     (\<exists>keys\<in>set (axisCombos js d axis old rows). \<forall>level<length axis. memberKey js d (axis ! level) (ms ! level) = Some (keys ! level))"
    (is "?l \<longleftrightarrow> ?r")
  proof
    assume ?l
    then obtain es where es: "ms = map entryMember es" "presentChoice ?P [] ?rest es" by auto
    have "memberKey js d (axis ! level) (ms ! level) = Some (map entryKey es ! level)" if "level < length axis" for level
    proof -
      have "axis ! level \<noteq> -2" using assms(2) nth_mem [OF that] by auto
      with es that show ?thesis by (cases "es ! level") (auto simp: choice memberKey_entry)
    qed
    with es show ?r by (auto simp: choice intro!: bexI [of _ "map entryKey es"])
  next
    assume ?r
    then obtain keys where keys: "length ms = length axis" "keys \<in> set (axisCombos js d axis old rows)"
      "\<And>level. level < length axis \<Longrightarrow> memberKey js d (axis ! level) (ms ! level) = Some (keys ! level)" by auto
    let ?es = "map2 AxisEntry.make ms keys"
    have len: "length keys = length axis" using axisCombos_length [OF assms(2) keys(2)] .
    have "map entryMember ?es = ms" "map entryKey ?es = keys"
      using len keys(1) by (auto simp: AxisEntry.make_def intro!: nth_equalityI)
    moreover have "?es ! level \<in> set (levelOrder js d (axis ! level))" if "level < length axis" for level
    proof -
      have "axis ! level \<noteq> -2" using assms(2) nth_mem [OF that] by auto
      with keys(3) [OF that] that len keys(1) show ?thesis by (simp add: memberKey_entry AxisEntry.make_def)
    qed
    ultimately show ?l using keys len by (intro exI [of _ ?es]) (simp add: choice)
  qed
  finally show ?thesis .
qed

end
