(* ===== verification/PivotSlicer.thy ===== *)
theory PivotSlicer
  imports PivotLayout
begin

text \<open>What a slicer does to the items of its field.\<close>

definition keepSelected :: "nat list option \<Rightarrow> nat \<Rightarrow> bool" where
  "keepSelected selected m = (case selected of None \<Rightarrow> True | Some ms \<Rightarrow> m \<in> set ms)"

lemma itemsOf_update:
  "itemsOf (d\<lparr>fieldItems := map (\<lambda>(index, items). if int index = field then new else items) (enumerate 0 (fieldItems d))\<rparr>) f =
     (if f = field \<and> elemAt (fieldItems d) f \<noteq> None then new else itemsOf d f)"
  by (cases "elemAt (fieldItems d) f") (simp_all add: itemsOf_def elemAt_enumerate, auto simp: elemAt_Some)

lemma itemsOf_sameItems: "fieldItems e = fieldItems d \<Longrightarrow> itemsOf e = itemsOf d"
  by (simp add: itemsOf_def fun_eq_iff)

lemma sameSource_items:
  "map (map itemX) items = map (map itemX) (fieldItems d) \<Longrightarrow> sameSource d (d\<lparr>fieldItems := items\<rparr>)"
  by (simp add: sameSource_def)

lemma sameSource_trans: "sameSource d e \<Longrightarrow> sameSource e f \<Longrightarrow> sameSource d f"
  by (simp add: sameSource_def)

lemma sameSource_refl [simp]: "sameSource d d"
  by (simp add: sameSource_def)

lemma slicer_steps:
  assumes "applyPivotSlicer js d source field selected = Inr d'"
  shows "assertSourceMatchesCache js d source = Inr ()" "field \<in> set (axisFields d)"
    "find (\<lambda>member. Option.bind (nthOpt (itemsOf d field) member) itemX = None)
       (case selected of None \<Rightarrow> [] | Some ms \<Rightarrow> setOf ms) = None"
    "itemsOf d' f = (if f = field then hideOthers (keepSelected selected) (itemsOf d field) else itemsOf d f)"
    "sameSource d d'"
proof -
  let ?next = "hideOthers (keepSelected selected) (itemsOf d field)"
  let ?base = "d\<lparr>fieldItems := map (\<lambda>(index, items). if int index = field then ?next else items) (enumerate 0 (fieldItems d))\<rparr>"
  from assms have run: "assertSourceMatchesCache js d source = Inr ()" "field \<in> set (axisFields d)"
    "find (\<lambda>member. Option.bind (nthOpt (itemsOf d field) member) itemX = None) (case selected of None \<Rightarrow> [] | Some ms \<Rightarrow> setOf ms) = None"
    "(if ?next = itemsOf d field then Inr d else rebuildAxes js d (\<lambda>f. f = field) ?base (drop 1 source)) = Inr d'"
    by (auto simp: applyPivotSlicer_def keepSelected_def [abs_def] refuse_def Let_def res_simps split: if_splits option.splits)
  show "assertSourceMatchesCache js d source = Inr ()" "field \<in> set (axisFields d)"
    "find (\<lambda>member. Option.bind (nthOpt (itemsOf d field) member) itemX = None)
       (case selected of None \<Rightarrow> [] | Some ms \<Rightarrow> setOf ms) = None" using run by auto
  have "map (map itemX) (fieldItems ?base) = map (map itemX) (fieldItems d)"
    by (rule nth_equalityI) (auto simp: nth_enumerate_eq itemsOf_def elemAt_def nthOpt_def)
  then have base: "sameSource d ?base" by (simp add: sameSource_def)
  have "itemsOf d' f = (if f = field then ?next else itemsOf d f) \<and> sameSource d d'"
  proof (cases "?next = itemsOf d field")
    case False
    then have "elemAt (fieldItems d) field \<noteq> None" by (cases "elemAt (fieldItems d) field") (auto simp: itemsOf_def hideOthers_def)
    moreover have "rebuildAxes js d (\<lambda>f. f = field) ?base (drop 1 source) = Inr d'" using run(4) False by simp
    ultimately show ?thesis
      using rebuildAxes_parts sameSource_trans [OF base] by (metis itemsOf_sameItems itemsOf_update)
  qed (use run(4) in simp)
  then show "itemsOf d' f = (if f = field then ?next else itemsOf d f)" "sameSource d d'" by auto
qed

lemma hideOthers_nth:
  "nthOpt (hideOthers keep items) m = map_option (\<lambda>i. if itemX i = None then i else i\<lparr>itemHidden := \<not> keep m\<rparr>) (nthOpt items m)"
  by (simp add: hideOthers_def nthOpt_def nth_enumerate_eq)

lemma slicer_hides:
  assumes "applyPivotSlicer js d source field selected = Inr d'" "nthOpt (itemsOf d' field) m = Some i" "itemX i \<noteq> None"
  shows "itemHidden i \<longleftrightarrow> \<not> keepSelected selected m"
  using assms(2,3) by (auto simp: slicer_steps(4) [OF assms(1)] hideOthers_nth split: if_splits dest: arg_cong [of _ i itemHidden])

lemma hidden_rows_out:
  assumes "field \<in> set (axisFields d)" "nthOpt (itemsOf d field) m = Some i" "itemHidden i" "itemShared d field i = Some s"
    and "rowVisible js d pages row"
  shows "rowKey js d row field \<noteq> groupKey js (Some s)"
proof -
  have "i \<in> set (itemsOf d field)" using assms(2) by (auto simp: nthOpt_def split: if_splits)
  then have "groupKey js (Some s) \<in> set (hiddenOf js d field)" using assms(3,4) by (auto simp: hiddenOf_def intro!: bexI [of _ i])
  with assms(1,5) show ?thesis by (auto simp: rowVisible_def list_all_iff)
qed

lemma slicer_again:
  assumes "applyPivotSlicer js d source field selected = Inr d'"
  shows "applyPivotSlicer js d' source field selected = Inr d'"
proof -
  have "Option.bind (nthOpt (itemsOf d' field) m) itemX = Option.bind (nthOpt (itemsOf d field) m) itemX" for m
    using same_itemAt [OF slicer_steps(5) [OF assms], of field m]
    by (cases "nthOpt (itemsOf d' field) m"; cases "nthOpt (itemsOf d field) m") auto
  moreover have "hideOthers (keepSelected selected) (itemsOf d' field) = itemsOf d' field"
    by (simp add: slicer_steps(4) [OF assms])
  ultimately show ?thesis
    using slicer_steps(1,2,3) [OF assms]
    by (simp add: applyPivotSlicer_def same_assert [OF slicer_steps(5) [OF assms]] same_axisFields [OF slicer_steps(5) [OF assms]]
          keepSelected_def [abs_def])
qed

end
