(* ===== verification/PivotParse.thy ===== *)
theory PivotParse
  imports PivotFormula
begin

text \<open>
  The formula parser against the grammar that its methods follow, which has a unary plus that the
  comment lacks (\<open>PivotGrammar\<close> compares the two): four mutually inductive predicates; the parser
  accepts exactly the token lists that have a derivation and returns the tree of the derivation, so
  precedence and left associativity are the grammar's.
\<close>

section \<open>What the parser consumes, and the fuel it needs\<close>

lemma thenParse_simps [simp]:
  "thenParse None f = None" "thenParse (Some (Inl e)) f = Some (Inl e)" "thenParse (Some (Inr (a, ts))) f = f a ts"
  by (simp_all add: thenParse_def)

lemma thenParse_Inr: "thenParse p f = Some (Inr x) \<longleftrightarrow> (\<exists>a r. p = Some (Inr (a, r)) \<and> f a r = Some (Inr x))"
  by (auto simp: thenParse_def split: option.splits sum.splits)

lemma thenParse_None: "thenParse p f = None \<longleftrightarrow> p = None \<or> (\<exists>a r. p = Some (Inr (a, r)) \<and> f a r = None)"
  by (auto simp: thenParse_def split: option.splits sum.splits)

definition startsSum :: "Token list \<Rightarrow> bool" where
  "startsSum ts \<longleftrightarrow> (case ts of OpToken p # _ \<Rightarrow> p = Add \<or> p = Sub | _ \<Rightarrow> False)"

definition startsProduct :: "Token list \<Rightarrow> bool" where
  "startsProduct ts \<longleftrightarrow> (case ts of OpToken p # _ \<Rightarrow> p = Mul \<or> p = Div | _ \<Rightarrow> False)"

lemma starts_simps [simp]:
  "\<not> startsSum []" "\<not> startsProduct []" "startsSum (OpToken p # ts) \<longleftrightarrow> p = Add \<or> p = Sub"
  "startsProduct (OpToken p # ts) \<longleftrightarrow> p = Mul \<or> p = Div" "\<not> startsSum (RParen # ts)" "\<not> startsProduct (RParen # ts)"
  by (auto simp: startsSum_def startsProduct_def)

lemma startsSum_cases:
  "startsSum ts \<Longrightarrow> (\<And>p rest. ts = OpToken p # rest \<Longrightarrow> p = Add \<or> p = Sub \<Longrightarrow> Q) \<Longrightarrow> Q"
  by (auto simp: startsSum_def split: list.splits Token.splits)

lemma startsProduct_cases:
  "startsProduct ts \<Longrightarrow> (\<And>p rest. ts = OpToken p # rest \<Longrightarrow> p = Mul \<or> p = Div \<Longrightarrow> Q) \<Longrightarrow> Q"
  by (auto simp: startsProduct_def split: list.splits Token.splits)

text \<open>The loops: they stop at a token that is not theirs.\<close>

lemma exprLoop_stop: "\<not> startsSum ts \<Longrightarrow> exprLoop toNum names (Suc n) l ts = Some (Inr (l, ts))"
  by (auto simp: startsSum_def split: list.splits Token.splits)

lemma exprLoop_step:
  "p = Add \<or> p = Sub \<Longrightarrow> exprLoop toNum names (Suc n) l (OpToken p # ts)
     = thenParse (parseTerm toNum names n ts) (\<lambda>t. exprLoop toNum names n (PBin p l t))"
  by auto

lemma termLoop_stop: "\<not> startsProduct ts \<Longrightarrow> termLoop toNum names (Suc n) l ts = Some (Inr (l, ts))"
  by (auto simp: startsProduct_def split: list.splits Token.splits)

lemma termLoop_step:
  "p = Mul \<or> p = Div \<Longrightarrow> termLoop toNum names (Suc n) l (OpToken p # ts)
     = thenParse (parseUnary toNum names n ts) (\<lambda>t. termLoop toNum names n (PBin p l t))"
  by auto

lemma parseUnary_primary: "\<not> startsSum ts \<Longrightarrow> parseUnary toNum names (Suc n) ts = parsePrimary toNum names n ts"
  by (auto simp: startsSum_def split: list.splits Token.splits FormulaOp.splits)

lemma parseUnary_sign:
  "parseUnary toNum names (Suc n) (OpToken Sub # ts) = thenParse (parseUnary toNum names n ts) (\<lambda>a r. Some (Inr (PNeg a, r)))"
  "parseUnary toNum names (Suc n) (OpToken Add # ts) = parseUnary toNum names n ts"
  by simp_all

definition closeParen :: "PivotFormulaAst \<Rightarrow> Token list \<Rightarrow> parsing" where
  "closeParen inner r =
     (case r of
        [] \<Rightarrow> Some (Inl (Error ''The formula ended unexpectedly.''))
      | t # r' \<Rightarrow> if t = RParen then Some (Inr (inner, r')) else Some (Inl (Error ''Unclosed parenthesis in the formula.'')))"

lemma closeParen_Inr: "closeParen inner r = Some (Inr (a, r')) \<longleftrightarrow> a = inner \<and> r = RParen # r'"
  by (auto simp: closeParen_def split: list.splits if_splits)

lemma closeParen_not_None [simp]: "closeParen inner r \<noteq> None"
  by (auto simp: closeParen_def split: list.splits)

lemma parsePrimary_paren:
  "parsePrimary toNum names (Suc n) (LParen # ts) = thenParse (parseExpr toNum names n ts) closeParen"
  by (simp add: closeParen_def [abs_def])

text \<open>A primary that is no parenthesis is decided by its first token.\<close>

definition atomOf :: "(string \<Rightarrow> js_number) \<Rightarrow> string list \<Rightarrow> Token \<Rightarrow> PivotFormulaAst option" where
  "atomOf toNum names t =
     (case t of
        NumToken s \<Rightarrow> Some (PNum (numValue (toNum s)))
      | FieldToken s \<Rightarrow> map_option PField (canonicalName names s)
      | _ \<Rightarrow> None)"

lemma parsePrimary_atom: "t \<noteq> LParen \<Longrightarrow> atomOf toNum names t = Some a \<Longrightarrow> parsePrimary toNum names (Suc n) (t # ts) = Some (Inr (a, ts))"
  by (cases t) (auto simp: atomOf_def split: option.splits)

lemma parsePrimary_cases:
  obtains (paren) ts' where "ts = LParen # ts'"
  | (atom) t ts' a where "ts = t # ts'" "t \<noteq> LParen" "atomOf toNum names t = Some a"
      "\<And>n. parsePrimary toNum names (Suc n) ts = Some (Inr (a, ts'))"
  | (error) e where "\<And>n. parsePrimary toNum names (Suc n) ts = Some (Inl e)"
proof (cases ts)
  case Nil
  then show ?thesis using error [of "Error ''The formula ended unexpectedly.''"] by simp
next
  case (Cons t ts')
  show ?thesis
  proof (cases t)
    case (FieldToken s)
    then show ?thesis
      by (cases "canonicalName names s") (use error atom [of t ts'] Cons in \<open>auto simp: atomOf_def\<close>)
  qed (use paren [of ts'] atom [of t ts'] error Cons in \<open>auto simp: atomOf_def\<close>)
qed

lemmas parser_unfold = exprLoop_stop exprLoop_step termLoop_stop termLoop_step parseUnary_primary parseUnary_sign parsePrimary_paren

text \<open>From here on the parser is used through these equations.\<close>

declare exprLoop.simps(2) [simp del] termLoop.simps(2) [simp del] parseUnary.simps(2) [simp del] parsePrimary.simps(2) [simp del]

lemma parse_consumes:
  "parseExpr toNum names n ts = Some (Inr (a, r)) \<Longrightarrow> length r < length ts"
  "exprLoop toNum names n l ts = Some (Inr (a, r)) \<Longrightarrow> length r \<le> length ts"
  "parseTerm toNum names n ts = Some (Inr (a, r)) \<Longrightarrow> length r < length ts"
  "termLoop toNum names n l ts = Some (Inr (a, r)) \<Longrightarrow> length r \<le> length ts"
  "parseUnary toNum names n ts = Some (Inr (a, r)) \<Longrightarrow> length r < length ts"
  "parsePrimary toNum names n ts = Some (Inr (a, r)) \<Longrightarrow> length r < length ts"
proof (induction n arbitrary: ts l a r)
  case (Suc n)
  { case 1 then show ?case using Suc(2,3) by (fastforce simp: thenParse_Inr) }
  { case 2
    show ?case
    proof (cases "startsSum ts")
      case True
      then show ?thesis
        by (rule startsSum_cases) (use 2 Suc(2,3) in \<open>fastforce simp: exprLoop_step thenParse_Inr\<close>)
    qed (use 2 in \<open>simp add: exprLoop_stop\<close>) }
  { case 3 then show ?case using Suc(4,5) by (fastforce simp: thenParse_Inr) }
  { case 4
    show ?case
    proof (cases "startsProduct ts")
      case True
      then show ?thesis
        by (rule startsProduct_cases) (use 4 Suc(4,5) in \<open>fastforce simp: termLoop_step thenParse_Inr\<close>)
    qed (use 4 in \<open>simp add: termLoop_stop\<close>) }
  { case 5
    show ?case
    proof (cases "startsSum ts")
      case True
      then show ?thesis
        by (rule startsSum_cases) (use 5 Suc(5) in \<open>fastforce simp: parseUnary_sign thenParse_Inr\<close>)
    qed (use 5 Suc(6) in \<open>simp add: parseUnary_primary\<close>) }
  { case 6
    show ?case
    proof (cases rule: parsePrimary_cases [where ts = ts and toNum = toNum and names = names])
      case (paren ts')
      then show ?thesis using 6 Suc(1) by (fastforce simp: parsePrimary_paren thenParse_Inr closeParen_Inr)
    qed (use 6 in auto) }
qed simp_all

text \<open>Four units of fuel a token, and a few for the chain of nonterminals above the first one.\<close>

lemma parse_enough:
  "4 * length ts + 4 \<le> n \<Longrightarrow> parseExpr toNum names n ts \<noteq> None"
  "4 * length ts + 1 \<le> n \<Longrightarrow> exprLoop toNum names n l ts \<noteq> None"
  "4 * length ts + 3 \<le> n \<Longrightarrow> parseTerm toNum names n ts \<noteq> None"
  "4 * length ts + 1 \<le> n \<Longrightarrow> termLoop toNum names n l ts \<noteq> None"
  "4 * length ts + 2 \<le> n \<Longrightarrow> parseUnary toNum names n ts \<noteq> None"
  "4 * length ts + 1 \<le> n \<Longrightarrow> parsePrimary toNum names n ts \<noteq> None"
proof (induction n arbitrary: ts l)
  case (Suc n)
  { case 1
    have "exprLoop toNum names n a r \<noteq> None" if "parseTerm toNum names n ts = Some (Inr (a, r))" for a r
      using Suc(2) [of r] parse_consumes(3) [OF that] 1 by simp
    then show ?case using Suc(3) [of ts] 1 by (auto simp: thenParse_None) }
  { case 2
    show ?case
    proof (cases "startsSum ts")
      case True
      then show ?thesis
      proof (rule startsSum_cases)
        fix p rest assume ts: "ts = OpToken p # rest" "p = Add \<or> p = Sub"
        have "exprLoop toNum names n (PBin p l a) r \<noteq> None" if "parseTerm toNum names n rest = Some (Inr (a, r))" for a r
          using Suc(2) [of r] parse_consumes(3) [OF that] 2 ts by simp
        then show ?thesis using Suc(3) [of rest] 2 ts by (auto simp: exprLoop_step thenParse_None)
      qed
    qed (simp add: exprLoop_stop) }
  { case 3
    have "termLoop toNum names n a r \<noteq> None" if "parseUnary toNum names n ts = Some (Inr (a, r))" for a r
      using Suc(4) [of r] parse_consumes(5) [OF that] 3 by simp
    then show ?case using Suc(5) [of ts] 3 by (auto simp: thenParse_None) }
  { case 4
    show ?case
    proof (cases "startsProduct ts")
      case True
      then show ?thesis
      proof (rule startsProduct_cases)
        fix p rest assume ts: "ts = OpToken p # rest" "p = Mul \<or> p = Div"
        have "termLoop toNum names n (PBin p l a) r \<noteq> None" if "parseUnary toNum names n rest = Some (Inr (a, r))" for a r
          using Suc(4) [of r] parse_consumes(5) [OF that] 4 ts by simp
        then show ?thesis using Suc(5) [of rest] 4 ts by (auto simp: termLoop_step thenParse_None)
      qed
    qed (simp add: termLoop_stop) }
  { case 5
    show ?case
    proof (cases "startsSum ts")
      case True
      then show ?thesis
      proof (rule startsSum_cases)
        fix p rest assume ts: "ts = OpToken p # rest" "p = Add \<or> p = Sub"
        then obtain y where "parseUnary toNum names n rest = Some y" using Suc(5) [of rest] 5 by auto
        then show ?thesis using ts by (cases y) (auto simp: parseUnary_sign)
      qed
    qed (use 5 Suc(6) [of ts] in \<open>simp add: parseUnary_primary\<close>) }
  { case 6
    show ?case
    proof (cases rule: parsePrimary_cases [where ts = ts and toNum = toNum and names = names])
      case (paren ts')
      then show ?thesis using 6 Suc(1) [of ts'] by (auto simp: parsePrimary_paren thenParse_None)
    qed auto }
qed simp_all

text \<open>More fuel does not change a result.\<close>

lemma thenParse_mono:
  "thenParse p f = Some x \<Longrightarrow> (\<And>y. p = Some y \<Longrightarrow> p' = Some y) \<Longrightarrow> (\<And>a r y. f a r = Some y \<Longrightarrow> f' a r = Some y)
    \<Longrightarrow> thenParse p' f' = Some x"
  by (auto simp: thenParse_def split: option.splits sum.splits)

lemma parse_Suc:
  "parseExpr toNum names n ts = Some x \<Longrightarrow> parseExpr toNum names (Suc n) ts = Some x"
  "exprLoop toNum names n l ts = Some x \<Longrightarrow> exprLoop toNum names (Suc n) l ts = Some x"
  "parseTerm toNum names n ts = Some x \<Longrightarrow> parseTerm toNum names (Suc n) ts = Some x"
  "termLoop toNum names n l ts = Some x \<Longrightarrow> termLoop toNum names (Suc n) l ts = Some x"
  "parseUnary toNum names n ts = Some x \<Longrightarrow> parseUnary toNum names (Suc n) ts = Some x"
  "parsePrimary toNum names n ts = Some x \<Longrightarrow> parsePrimary toNum names (Suc n) ts = Some x"
proof (induction n arbitrary: ts l x)
  case (Suc n)
  { case 1
    then have "thenParse (parseTerm toNum names n ts) (exprLoop toNum names n) = Some x" by simp
    then have "thenParse (parseTerm toNum names (Suc n) ts) (exprLoop toNum names (Suc n)) = Some x"
      by (rule thenParse_mono) (rule Suc(2,3), assumption)+
    then show ?case by (simp only: parseExpr.simps) }
  { case 2
    show ?case
    proof (cases "startsSum ts")
      case True
      then show ?thesis
      proof (rule startsSum_cases)
        fix p rest assume ts: "ts = OpToken p # rest" "p = Add \<or> p = Sub"
        then have "thenParse (parseTerm toNum names n rest) (\<lambda>t. exprLoop toNum names n (PBin p l t)) = Some x"
          using 2 by (simp add: exprLoop_step)
        then have "thenParse (parseTerm toNum names (Suc n) rest) (\<lambda>t. exprLoop toNum names (Suc n) (PBin p l t)) = Some x"
          by (rule thenParse_mono) (rule Suc(2,3), assumption)+
        then show ?thesis using ts by (simp only: exprLoop_step)
      qed
    qed (use 2 in \<open>simp add: exprLoop_stop\<close>) }
  { case 3
    then have "thenParse (parseUnary toNum names n ts) (termLoop toNum names n) = Some x" by simp
    then have "thenParse (parseUnary toNum names (Suc n) ts) (termLoop toNum names (Suc n)) = Some x"
      by (rule thenParse_mono) (rule Suc(4,5), assumption)+
    then show ?case by (simp only: parseTerm.simps) }
  { case 4
    show ?case
    proof (cases "startsProduct ts")
      case True
      then show ?thesis
      proof (rule startsProduct_cases)
        fix p rest assume ts: "ts = OpToken p # rest" "p = Mul \<or> p = Div"
        then have "thenParse (parseUnary toNum names n rest) (\<lambda>t. termLoop toNum names n (PBin p l t)) = Some x"
          using 4 by (simp add: termLoop_step)
        then have "thenParse (parseUnary toNum names (Suc n) rest) (\<lambda>t. termLoop toNum names (Suc n) (PBin p l t)) = Some x"
          by (rule thenParse_mono) (rule Suc(4,5), assumption)+
        then show ?thesis using ts by (simp only: termLoop_step)
      qed
    qed (use 4 in \<open>simp add: termLoop_stop\<close>) }
  { case 5
    show ?case
    proof (cases "startsSum ts")
      case True
      then show ?thesis
      proof (rule startsSum_cases)
        fix p rest assume ts: "ts = OpToken p # rest" "p = Add \<or> p = Sub"
        show ?thesis
        proof (cases p)
          case Sub
          then have "thenParse (parseUnary toNum names n rest) (\<lambda>a r. Some (Inr (PNeg a, r))) = Some x"
            using 5 ts by (simp add: parseUnary_sign)
          then have "thenParse (parseUnary toNum names (Suc n) rest) (\<lambda>a r. Some (Inr (PNeg a, r))) = Some x"
            by (rule thenParse_mono) (rule Suc(5), assumption)
          then show ?thesis using ts Sub by (simp only: parseUnary_sign)
        qed (use 5 ts Suc(5) in \<open>auto simp: parseUnary_sign\<close>)
      qed
    qed (use 5 Suc(6) in \<open>simp add: parseUnary_primary\<close>) }
  { case 6
    show ?case
    proof (cases rule: parsePrimary_cases [where ts = ts and toNum = toNum and names = names])
      case (paren ts')
      then have "thenParse (parseExpr toNum names n ts') closeParen = Some x" using 6 by (simp add: parsePrimary_paren)
      then have "thenParse (parseExpr toNum names (Suc n) ts') closeParen = Some x"
        by (rule thenParse_mono) (rule Suc(1), assumption)
      then show ?thesis using paren by (simp only: parsePrimary_paren)
    qed (use 6 in auto) }
qed simp_all

lemma parse_mono:
  assumes "n \<le> m"
  shows "parseExpr toNum names n ts = Some x \<Longrightarrow> parseExpr toNum names m ts = Some x"
    and "exprLoop toNum names n l ts = Some x \<Longrightarrow> exprLoop toNum names m l ts = Some x"
    and "parseTerm toNum names n ts = Some x \<Longrightarrow> parseTerm toNum names m ts = Some x"
    and "termLoop toNum names n l ts = Some x \<Longrightarrow> termLoop toNum names m l ts = Some x"
    and "parseUnary toNum names n ts = Some x \<Longrightarrow> parseUnary toNum names m ts = Some x"
    and "parsePrimary toNum names n ts = Some x \<Longrightarrow> parsePrimary toNum names m ts = Some x"
  using assms by (induction m rule: dec_induct) (simp_all add: parse_Suc del: parseExpr.simps parseTerm.simps)

section \<open>The grammar of the methods\<close>

text \<open>
  \<open>expr := term (('+'|'-') term)*\<close>, \<open>term := unary (('*'|'/') unary)*\<close>,
  \<open>unary := '-' unary | '+' unary | primary\<close>, \<open>primary := num | field | '(' expr ')'\<close>
\<close>

inductive isExpr and isTerm and isUnary and isPrimary for toNum :: "string \<Rightarrow> js_number" and names :: "string list" where
  ExprTerm: "isTerm toNum names ts a \<Longrightarrow> isExpr toNum names ts a"
| ExprSum: "isExpr toNum names ts a \<Longrightarrow> p = Add \<or> p = Sub \<Longrightarrow> isTerm toNum names us b
    \<Longrightarrow> isExpr toNum names (ts @ OpToken p # us) (PBin p a b)"
| TermUnary: "isUnary toNum names ts a \<Longrightarrow> isTerm toNum names ts a"
| TermProduct: "isTerm toNum names ts a \<Longrightarrow> p = Mul \<or> p = Div \<Longrightarrow> isUnary toNum names us b
    \<Longrightarrow> isTerm toNum names (ts @ OpToken p # us) (PBin p a b)"
| UnaryMinus: "isUnary toNum names ts a \<Longrightarrow> isUnary toNum names (OpToken Sub # ts) (PNeg a)"
| UnaryPlus: "isUnary toNum names ts a \<Longrightarrow> isUnary toNum names (OpToken Add # ts) a"
| UnaryPrimary: "isPrimary toNum names ts a \<Longrightarrow> isUnary toNum names ts a"
| PrimaryAtom: "t \<noteq> LParen \<Longrightarrow> atomOf toNum names t = Some a \<Longrightarrow> isPrimary toNum names [t] a"
| PrimaryParen: "isExpr toNum names ts a \<Longrightarrow> isPrimary toNum names (LParen # ts @ [RParen]) a"

lemma isPrimary_start: "isPrimary toNum names ts a \<Longrightarrow> \<not> startsSum (ts @ r)"
  by (cases rule: isPrimary.cases) (auto simp: startsSum_def atomOf_def split: Token.splits)

text \<open>Soundness: what the parser consumes derives the tree it returns.\<close>

lemma parse_sound:
  "parseExpr toNum names n ts = Some (Inr (a, r)) \<Longrightarrow> \<exists>us. ts = us @ r \<and> isExpr toNum names us a"
  "exprLoop toNum names n l ts = Some (Inr (a, r)) \<Longrightarrow> isExpr toNum names ls l
    \<Longrightarrow> \<exists>us. ts = us @ r \<and> isExpr toNum names (ls @ us) a"
  "parseTerm toNum names n ts = Some (Inr (a, r)) \<Longrightarrow> \<exists>us. ts = us @ r \<and> isTerm toNum names us a"
  "termLoop toNum names n l ts = Some (Inr (a, r)) \<Longrightarrow> isTerm toNum names ls l
    \<Longrightarrow> \<exists>us. ts = us @ r \<and> isTerm toNum names (ls @ us) a"
  "parseUnary toNum names n ts = Some (Inr (a, r)) \<Longrightarrow> \<exists>us. ts = us @ r \<and> isUnary toNum names us a"
  "parsePrimary toNum names n ts = Some (Inr (a, r)) \<Longrightarrow> \<exists>us. ts = us @ r \<and> isPrimary toNum names us a"
proof (induction n arbitrary: ts a r l ls)
  case (Suc n)
  { case 1
    then obtain b r1 where b: "parseTerm toNum names n ts = Some (Inr (b, r1))" "exprLoop toNum names n b r1 = Some (Inr (a, r))"
      by (auto simp: thenParse_Inr)
    from Suc(3) [OF b(1)] obtain us where us: "ts = us @ r1" "isTerm toNum names us b" by blast
    from Suc(2) [OF b(2) ExprTerm [OF us(2)]] show ?case using us(1) by auto }
  { case 2
    show ?case
    proof (cases "startsSum ts")
      case True
      then show ?thesis
      proof (rule startsSum_cases)
        fix p rest assume ts: "ts = OpToken p # rest" "p = Add \<or> p = Sub"
        then obtain b r1 where b: "parseTerm toNum names n rest = Some (Inr (b, r1))"
          "exprLoop toNum names n (PBin p l b) r1 = Some (Inr (a, r))"
          using 2 by (auto simp: exprLoop_step thenParse_Inr)
        from Suc(3) [OF b(1)] obtain us where us: "rest = us @ r1" "isTerm toNum names us b" by blast
        from Suc(2) [OF b(2) ExprSum [OF 2(2) ts(2) us(2)]] show ?thesis using us(1) ts(1) by auto
      qed
    qed (use 2 in \<open>simp add: exprLoop_stop\<close>) }
  { case 3
    then obtain b r1 where b: "parseUnary toNum names n ts = Some (Inr (b, r1))" "termLoop toNum names n b r1 = Some (Inr (a, r))"
      by (auto simp: thenParse_Inr)
    from Suc(5) [OF b(1)] obtain us where us: "ts = us @ r1" "isUnary toNum names us b" by blast
    from Suc(4) [OF b(2) TermUnary [OF us(2)]] show ?case using us(1) by auto }
  { case 4
    show ?case
    proof (cases "startsProduct ts")
      case True
      then show ?thesis
      proof (rule startsProduct_cases)
        fix p rest assume ts: "ts = OpToken p # rest" "p = Mul \<or> p = Div"
        then obtain b r1 where b: "parseUnary toNum names n rest = Some (Inr (b, r1))"
          "termLoop toNum names n (PBin p l b) r1 = Some (Inr (a, r))"
          using 4 by (auto simp: termLoop_step thenParse_Inr)
        from Suc(5) [OF b(1)] obtain us where us: "rest = us @ r1" "isUnary toNum names us b" by blast
        from Suc(4) [OF b(2) TermProduct [OF 4(2) ts(2) us(2)]] show ?thesis using us(1) ts(1) by auto
      qed
    qed (use 4 in \<open>simp add: termLoop_stop\<close>) }
  { case 5
    show ?case
    proof (cases "startsSum ts")
      case True
      then show ?thesis
      proof (rule startsSum_cases)
        fix p rest assume ts: "ts = OpToken p # rest" "p = Add \<or> p = Sub"
        show ?thesis
        proof (cases "p = Sub")
          case True
          then obtain b where "a = PNeg b" "parseUnary toNum names n rest = Some (Inr (b, r))"
            using 5 ts by (auto simp: parseUnary_sign thenParse_Inr)
          with Suc(5) [of rest b r] show ?thesis using ts True by (auto intro: UnaryMinus)
        next
          case False
          then show ?thesis using 5 ts Suc(5) [of rest a r] by (auto simp: parseUnary_sign intro: UnaryPlus)
        qed
      qed
    qed (use 5 Suc(6) [of ts a r] in \<open>auto simp: parseUnary_primary intro: UnaryPrimary\<close>) }
  { case 6
    show ?case
    proof (cases rule: parsePrimary_cases [where ts = ts and toNum = toNum and names = names])
      case (paren ts')
      then have "parseExpr toNum names n ts' = Some (Inr (a, RParen # r))"
        using 6 by (auto simp: parsePrimary_paren thenParse_Inr closeParen_Inr)
      with Suc(1) obtain us where "ts' = us @ RParen # r" "isExpr toNum names us a" by blast
      then show ?thesis using paren PrimaryParen by (intro exI [of _ "LParen # us @ [RParen]"]) simp
    next
      case (atom t ts' b)
      then show ?thesis using 6 PrimaryAtom by (intro exI [of _ "[t]"]) simp
    qed (use 6 in simp) }
qed simp_all

text \<open>Completeness: with enough fuel the parser goes on from a derivation as its loops would.\<close>

lemma parse_complete:
  "isExpr toNum names ts a \<Longrightarrow> \<not> startsProduct r \<Longrightarrow> exprLoop toNum names m a r = Some x
    \<Longrightarrow> \<exists>n. parseExpr toNum names n (ts @ r) = Some x"
  "isTerm toNum names ts a \<Longrightarrow> termLoop toNum names m a r = Some x \<Longrightarrow> \<exists>n. parseTerm toNum names n (ts @ r) = Some x"
  "isUnary toNum names ts a \<Longrightarrow> \<exists>n. parseUnary toNum names n (ts @ r) = Some (Inr (a, r))"
  "isPrimary toNum names ts a \<Longrightarrow> \<exists>n. parsePrimary toNum names n (ts @ r) = Some (Inr (a, r))"
proof (induction arbitrary: r m x and r m x and r and r rule: isExpr_isTerm_isUnary_isPrimary.inducts)
  case (ExprTerm ts a)
  have "termLoop toNum names (Suc 0) a r = Some (Inr (a, r))" using ExprTerm.prems(1) by (rule termLoop_stop)
  from ExprTerm.IH(2) [OF this] obtain n where n: "parseTerm toNum names n (ts @ r) = Some (Inr (a, r))" by blast
  have "parseTerm toNum names (max n m) (ts @ r) = Some (Inr (a, r))" "exprLoop toNum names (max n m) a r = Some x"
    using parse_mono(3) [OF _ n] parse_mono(2) [OF _ ExprTerm.prems(2)] by simp_all
  then show ?case by (intro exI [of _ "Suc (max n m)"]) simp
next
  case (ExprSum ts a p us b)
  have "termLoop toNum names (Suc 0) b r = Some (Inr (b, r))" using ExprSum.prems(1) by (rule termLoop_stop)
  from ExprSum.IH(4) [OF this] obtain n where n: "parseTerm toNum names n (us @ r) = Some (Inr (b, r))" by blast
  have "parseTerm toNum names (max n m) (us @ r) = Some (Inr (b, r))" "exprLoop toNum names (max n m) (PBin p a b) r = Some x"
    using parse_mono(3) [OF _ n] parse_mono(2) [OF _ ExprSum.prems(2)] by simp_all
  then have "exprLoop toNum names (Suc (max n m)) a (OpToken p # us @ r) = Some x"
    using ExprSum.hyps by (simp add: exprLoop_step)
  then show ?case using ExprSum.IH(2) [of "OpToken p # us @ r"] ExprSum.hyps by auto
next
  case (TermUnary ts a)
  obtain n where n: "parseUnary toNum names n (ts @ r) = Some (Inr (a, r))" using TermUnary.IH(2) by blast
  have "parseUnary toNum names (max n m) (ts @ r) = Some (Inr (a, r))" "termLoop toNum names (max n m) a r = Some x"
    using parse_mono(5) [OF _ n] parse_mono(4) [OF _ TermUnary.prems(1)] by simp_all
  then show ?case by (intro exI [of _ "Suc (max n m)"]) simp
next
  case (TermProduct ts a p us b)
  obtain n where n: "parseUnary toNum names n (us @ r) = Some (Inr (b, r))" using TermProduct.IH(4) by blast
  have "parseUnary toNum names (max n m) (us @ r) = Some (Inr (b, r))" "termLoop toNum names (max n m) (PBin p a b) r = Some x"
    using parse_mono(5) [OF _ n] parse_mono(4) [OF _ TermProduct.prems(1)] by simp_all
  then have "termLoop toNum names (Suc (max n m)) a (OpToken p # us @ r) = Some x"
    using TermProduct.hyps by (simp add: termLoop_step)
  then show ?case using TermProduct.IH(2) [of _ "OpToken p # us @ r"] by auto
next
  case (UnaryMinus ts a)
  obtain n where "parseUnary toNum names n (ts @ r) = Some (Inr (a, r))" using UnaryMinus.IH(2) by blast
  then show ?case by (intro exI [of _ "Suc n"]) (simp add: parseUnary_sign)
next
  case (UnaryPlus ts a)
  obtain n where "parseUnary toNum names n (ts @ r) = Some (Inr (a, r))" using UnaryPlus.IH(2) by blast
  then show ?case by (intro exI [of _ "Suc n"]) (simp add: parseUnary_sign)
next
  case (UnaryPrimary ts a)
  obtain n where "parsePrimary toNum names n (ts @ r) = Some (Inr (a, r))" using UnaryPrimary.IH(2) by blast
  then show ?case using isPrimary_start [OF UnaryPrimary.IH(1)] by (intro exI [of _ "Suc n"]) (simp add: parseUnary_primary)
next
  case (PrimaryAtom t a)
  then show ?case by (intro exI [of _ "Suc 0"]) (simp add: parsePrimary_atom)
next
  case (PrimaryParen ts a)
  have "exprLoop toNum names (Suc 0) a (RParen # r) = Some (Inr (a, RParen # r))" by (rule exprLoop_stop) simp
  from PrimaryParen.IH(2) [OF _ this] obtain n where "parseExpr toNum names n (ts @ RParen # r) = Some (Inr (a, RParen # r))"
    by auto
  then show ?case by (intro exI [of _ "Suc n"]) (simp add: parsePrimary_paren closeParen_def)
qed

text \<open>The parser is the grammar.\<close>

lemma parseTokens_iff: "parseTokens toNum names ts = Some (Inr a) \<longleftrightarrow> isExpr toNum names ts a"
proof
  assume "parseTokens toNum names ts = Some (Inr a)"
  then have "parseExpr toNum names (4 * length ts + 4) ts = Some (Inr (a, []))"
    by (auto simp: parseTokens_def split: option.splits sum.splits list.splits)
  from parse_sound(1) [OF this] show "isExpr toNum names ts a" by simp
next
  assume e: "isExpr toNum names ts a"
  have "exprLoop toNum names (Suc 0) a [] = Some (Inr (a, []))" by (rule exprLoop_stop) simp
  from parse_complete(1) [OF e _ this] obtain n where n: "parseExpr toNum names n ts = Some (Inr (a, []))" by auto
  obtain y where y: "parseExpr toNum names (4 * length ts + 4) ts = Some y" using parse_enough(1) by blast
  have "parseExpr toNum names (max n (4 * length ts + 4)) ts = Some (Inr (a, []))" by (rule parse_mono(1) [OF _ n]) simp
  moreover have "parseExpr toNum names (max n (4 * length ts + 4)) ts = Some y" by (rule parse_mono(1) [OF _ y]) simp
  ultimately show "parseTokens toNum names ts = Some (Inr a)" using y by (simp add: parseTokens_def)
qed

lemma parseTokens_returns: "parseTokens toNum names ts \<noteq> None"
  using parse_enough(1) [of ts "4 * length ts + 4" toNum names]
  by (auto simp: parseTokens_def split: option.splits sum.splits list.splits)

end
