(* ===== verification/PivotPrint.thy ===== *)
theory PivotPrint
  imports PivotParse
begin

text \<open>Printed formulas: they tokenize to the tokens of their tree, which derive it in the grammar.\<close>

section \<open>Which formulas print\<close>

text \<open>
  A number prints as one number token that reads back as the number (\<open>String\<close> and \<open>Number\<close> agree on the
  finite numbers a formula can contain), a field is one of the referenceable names under its own key.
\<close>

fun printable :: "(real \<Rightarrow> string) \<Rightarrow> (string \<Rightarrow> js_number) \<Rightarrow> string list \<Rightarrow> PivotFormulaAst \<Rightarrow> bool" where
  "printable numStr toNum names (PNum v) = (numberMatch (numStr v) = Some (numStr v) \<and> toNum (numStr v) = Finite v)"
| "printable numStr toNum names (PField n) = (trim n \<noteq> [] \<and> canonicalName names n = Some n)"
| "printable numStr toNum names (PNeg a) = printable numStr toNum names a"
| "printable numStr toNum names (PBin p a b) = (printable numStr toNum names a \<and> printable numStr toNum names b)"

fun astTokens :: "(real \<Rightarrow> string) \<Rightarrow> PivotFormulaAst \<Rightarrow> Token list" where
  "astTokens numStr (PNum v) = [NumToken (numStr v)]"
| "astTokens numStr (PField n) = [FieldToken (trim n)]"
| "astTokens numStr (PNeg a) = LParen # (OpToken Sub # astTokens numStr a) @ [RParen]"
| "astTokens numStr (PBin p a b) = LParen # (astTokens numStr a @ OpToken p # astTokens numStr b) @ [RParen]"

lemma dropWhile_idem [simp]: "dropWhile P (dropWhile P s) = dropWhile P s"
  by (induction s) auto

lemma trimWith_idem: "trimWith P (trimWith P s) = trimWith P s"
proof -
  let ?t = "dropWhile P s"
  have "dropWhile P (rev (dropWhile P (rev ?t))) = rev (dropWhile P (rev ?t))"
  proof (cases "rev (dropWhile P (rev ?t))")
    case (Cons c u)
    have "\<exists>w. ?t = rev (dropWhile P (rev ?t)) @ w"
      by (metis rev_append rev_rev_ident takeWhile_dropWhile_id)
    then have t: "hd ?t = c" "?t \<noteq> []" using Cons by (auto simp del: dropWhile_eq_Nil_conv)
    then have "\<not> P c" using hd_dropWhile [OF t(2)] by simp
    then show ?thesis by (simp add: Cons)
  next
    case Nil
    then show ?thesis by (metis dropWhile.simps(1))
  qed
  then show ?thesis by (simp add: trimWith_def)
qed

lemma trim_idem [simp]: "trim (trim s) = trim s"
  by (simp add: trim_def trimWith_idem)

lemma canonicalName_trim: "canonicalName names (trim n) = canonicalName names n"
  by (simp add: canonicalName_def fieldKey_def)

lemma astTokens_derive: "printable numStr toNum names a \<Longrightarrow> isPrimary toNum names (astTokens numStr a) a"
proof (induction a)
  case (PNum v)
  then show ?case by (auto intro!: PrimaryAtom simp: atomOf_def)
next
  case (PField n)
  then show ?case by (auto intro!: PrimaryAtom simp: atomOf_def canonicalName_trim)
next
  case (PNeg a)
  then have "isExpr toNum names (OpToken Sub # astTokens numStr a) (PNeg a)"
    by (auto intro: ExprTerm TermUnary UnaryMinus UnaryPrimary)
  then show ?case unfolding astTokens.simps by (rule PrimaryParen)
next
  case (PBin p a b)
  then have u: "isUnary toNum names (astTokens numStr a) a" "isUnary toNum names (astTokens numStr b) b"
    by (auto intro: UnaryPrimary)
  have "isExpr toNum names (astTokens numStr a @ OpToken p # astTokens numStr b) (PBin p a b)"
  proof (cases "p = Add \<or> p = Sub")
    case True
    show ?thesis by (rule ExprSum [OF ExprTerm [OF TermUnary [OF u(1)]] True TermUnary [OF u(2)]])
  next
    case False
    then have "p = Mul \<or> p = Div" by (cases p) auto
    then show ?thesis using u by (intro ExprTerm TermProduct TermUnary)
  qed
  then show ?case unfolding astTokens.simps by (rule PrimaryParen)
qed

section \<open>Tokenizing what is printed\<close>

definition endsNumber :: "string \<Rightarrow> bool" where
  "endsNumber r \<longleftrightarrow> r = [] \<or> hd r \<in> set ''+-*/)''"

lemma endsNumber_simps [simp]: "endsNumber []" "endsNumber (CHR '')'' # r)" "endsNumber (opText p @ r)"
  by (cases p; simp add: endsNumber_def)+

lemma endsNumber_head:
  assumes "endsNumber (c # r)"
  shows "\<not> isDigit c" "c \<noteq> CHR ''.''" "c \<noteq> CHR ''e''" "c \<noteq> CHR ''E''" "c \<noteq> apo"
  using assms by (auto simp: endsNumber_def isDigit_def code_def apo_def)

lemma digits_append:
  "endsNumber r \<Longrightarrow> takeWhile isDigit (s @ r) = takeWhile isDigit s"
  "endsNumber r \<Longrightarrow> dropWhile isDigit (s @ r) = dropWhile isDigit s @ r"
  by (induction s) (cases r; auto dest: endsNumber_head)+

lemma mantissa_append: "endsNumber r \<Longrightarrow> mantissa (s @ r) = mantissa s"
  by (cases r; cases "dropWhile isDigit s") 
    (auto simp: mantissa_def Let_def digits_append simp del: dropWhile_eq_Nil_conv dest: endsNumber_head)

lemma mantissa_prefix: "\<exists>t. s = mantissa s @ t"
proof (cases "dropWhile isDigit s")
  case Nil
  then have "mantissa s = takeWhile isDigit s" by (simp add: mantissa_def Let_def del: dropWhile_eq_Nil_conv)
  then show ?thesis by (metis takeWhile_dropWhile_id)
next
  case (Cons c u)
  have s: "s = takeWhile isDigit s @ c # u" using Cons by (metis takeWhile_dropWhile_id)
  show ?thesis
  proof (cases "c = CHR ''.'' \<and> takeWhile isDigit u \<noteq> []")
    case True
    then have "mantissa s = takeWhile isDigit s @ c # takeWhile isDigit u" using Cons by (simp add: mantissa_def)
    moreover have "s = (takeWhile isDigit s @ c # takeWhile isDigit u) @ dropWhile isDigit u" using s by simp
    ultimately show ?thesis by metis
  next
    case False
    then have "mantissa s = takeWhile isDigit s" using Cons by (auto simp: mantissa_def)
    then show ?thesis using s by metis
  qed
qed

lemma exponentPart_append:
  assumes "exponentPart s = s" and r: "endsNumber r"
  shows "exponentPart (s @ r) = s"
proof (cases s)
  case Nil
  then show ?thesis using r by (cases r) (auto simp: exponentPart_def dest: endsNumber_head)
next
  case (Cons e t)
  show ?thesis
  proof (cases t)
    case Nil
    then show ?thesis using assms(1) Cons by (auto simp: exponentPart_def Let_def split: if_splits)
  next
    case t: (Cons c u)
    have "exponentPart (e # c # u @ r) = exponentPart (e # c # u)"
      using digits_append(1) [OF r, of u] digits_append(1) [OF r, of "c # u"] by (auto simp: exponentPart_def Let_def)
    then show ?thesis using assms(1) Cons t by simp
  qed
qed

lemma numberMatch_append:
  assumes "numberMatch s = Some s" and "endsNumber r"
  shows "numberMatch (s @ r) = Some s"
proof -
  obtain t where t: "s = mantissa s @ t" using mantissa_prefix by blast
  then have drop: "drop (length (mantissa s)) s = t" "drop (length (mantissa s)) (s @ r) = t @ r"
    by (metis append_eq_conv_conj, metis append.assoc append_eq_conv_conj)
  from assms(1) have m: "mantissa s \<noteq> []" "mantissa s @ exponentPart t = s"
    by (auto simp: numberMatch_def Let_def drop split: if_splits)
  then have "exponentPart t = t" using t by (metis same_append_eq)
  then have "exponentPart (t @ r) = t" by (rule exponentPart_append [OF _ assms(2)])
  then have "mantissa (s @ r) @ exponentPart (drop (length (mantissa (s @ r))) (s @ r)) = s"
    using t by (simp only: mantissa_append [OF assms(2)] drop)
  then show ?thesis using m(1) by (simp add: numberMatch_def Let_def mantissa_append [OF assms(2)])
qed

lemma numberMatch_head:
  assumes "numberMatch (c # s) = Some m" shows "isDigit c \<or> c = CHR ''.''"
proof (rule ccontr)
  assume "\<not> ?thesis"
  then have "mantissa (c # s) = []" by (simp add: mantissa_def)
  then show False using assms by (simp add: numberMatch_def)
qed

lemma quotedName_print: "r = [] \<or> hd r \<noteq> apo \<Longrightarrow> quotedName (doubleQuotes name @ apo # r) = Inr (name, r)"
proof (induction name)
  case Nil
  then show ?case by (cases r) auto
next
  case (Cons c name)
  obtain d s where "doubleQuotes name @ apo # r = d # s" by (cases "doubleQuotes name") auto
  then show ?case using Cons by auto
qed

lemma tokenize_chars:
  "tokenize toNum (CHR ''('' # s) = bindE (tokenize toNum s) (\<lambda>ts. Inr (LParen # ts))"
  "tokenize toNum (CHR '')'' # s) = bindE (tokenize toNum s) (\<lambda>ts. Inr (RParen # ts))"
  "tokenize toNum (opText p @ s) = bindE (tokenize toNum s) (\<lambda>ts. Inr (OpToken p # ts))"
  by (cases p; simp add: tokenize.simps(2) isSpace_def code_def Let_def)+

lemma tokenize_minus: "tokenize toNum (CHR ''-'' # s) = bindE (tokenize toNum s) (\<lambda>ts. Inr (OpToken Sub # ts))"
  using tokenize_chars(3) [of toNum Sub s] by simp

lemma digit_not_special:
  assumes "isDigit c \<or> c = CHR ''.''"
  shows "\<not> isSpace c" "c \<noteq> CHR ''+''" "c \<noteq> CHR ''-''" "c \<noteq> CHR ''*''" "c \<noteq> CHR ''/''" "c \<noteq> CHR ''(''" "c \<noteq> CHR '')''" "c \<noteq> apo" "c \<noteq> CHR ''=''"
  using assms by (auto simp: isDigit_def isSpace_def code_def apo_def)

lemma tokenize_number:
  assumes "numberMatch s = Some s" and "isFinite (toNum s)" and "endsNumber r"
  shows "tokenize toNum (s @ r) = bindE (tokenize toNum r) (\<lambda>ts. Inr (NumToken s # ts))"
proof (cases s)
  case Nil
  then show ?thesis using assms(1) numberMatch_nonempty by blast
next
  case (Cons c t)
  have c: "isDigit c \<or> c = CHR ''.''" using assms(1) numberMatch_head Cons by blast
  have "numberMatch (c # t @ r) = Some s" using numberMatch_append [OF assms(1,3)] Cons by simp
  then show ?thesis using assms(2) digit_not_special [OF c] c Cons
    by (simp add: tokenize.simps(2) Let_def)
qed

lemma apo_special:
  "\<not> isSpace apo" "apo \<noteq> CHR ''+''" "apo \<noteq> CHR ''-''" "apo \<noteq> CHR ''*''" "apo \<noteq> CHR ''/''" "apo \<noteq> CHR ''(''" "apo \<noteq> CHR '')''"
  by (auto simp: apo_def isSpace_def code_def)

lemma tokenize_field:
  assumes "trim name \<noteq> []" and "endsNumber r"
  shows "tokenize toNum (apo # doubleQuotes name @ apo # r) = bindE (tokenize toNum r) (\<lambda>ts. Inr (FieldToken (trim name) # ts))"
proof -
  have "r = [] \<or> hd r \<noteq> apo" using assms(2) endsNumber_head(5) by (cases r) auto
  then show ?thesis using assms(1)
    by (simp add: tokenize.simps(2) quotedName_print Let_def apo_special)
qed

lemma tokenize_print:
  "printable numStr toNum names a \<Longrightarrow> endsNumber r \<Longrightarrow>
     tokenize toNum (formatPivotFormula numStr a @ r) = bindE (tokenize toNum r) (\<lambda>ts. Inr (astTokens numStr a @ ts))"
proof (induction a arbitrary: r)
  case (PNum v)
  then show ?case by (simp add: tokenize_number isFinite_def)
next
  case (PField n)
  then show ?case by (simp add: tokenize_field)
next
  case (PNeg a)
  then show ?case by (simp add: tokenize_chars tokenize_minus bindE_assoc)
next
  case (PBin p a b)
  then show ?case by (simp add: tokenize_chars bindE_assoc)
qed

lemma dropEquals_print:
  assumes "printable numStr toNum names a"
  shows "dropEquals (formatPivotFormula numStr a) = formatPivotFormula numStr a"
proof -
  obtain c s where cs: "formatPivotFormula numStr a = c # s" and c: "\<not> isSpace c \<and> c \<noteq> CHR ''=''"
  proof (cases a)
    case (PNum v)
    then obtain c s where "numStr v = c # s" using assms numberMatch_nonempty by (cases "numStr v") auto
    moreover then have "isDigit c \<or> c = CHR ''.''" using assms PNum numberMatch_head by auto
    ultimately show ?thesis using that digit_not_special PNum by simp
  qed (use that in \<open>auto simp: apo_def isSpace_def code_def\<close>)
  then show ?thesis by (simp add: dropEquals_def)
qed

lemma parse_print:
  assumes "printable numStr toNum names a"
  shows "parsePivotFormula toNum (formatPivotFormula numStr a) names = Some (Inr a)"
proof -
  have "tokenize toNum (formatPivotFormula numStr a) = Inr (astTokens numStr a)"
    using tokenize_print [OF assms, of "[]"] by simp
  moreover have "parseTokens toNum names (astTokens numStr a) = Some (Inr a)"
    unfolding parseTokens_iff using astTokens_derive [OF assms] by (intro ExprTerm TermUnary UnaryPrimary)
  ultimately show ?thesis by (simp add: parsePivotFormula_def dropEquals_print [OF assms])
qed

section \<open>The fields of a formula\<close>

fun fieldsOfFormula :: "PivotFormulaAst \<Rightarrow> string set" where
  "fieldsOfFormula (PNum v) = {}"
| "fieldsOfFormula (PField n) = {n}"
| "fieldsOfFormula (PNeg a) = fieldsOfFormula a"
| "fieldsOfFormula (PBin p a b) = fieldsOfFormula a \<union> fieldsOfFormula b"

lemma canonicalName_mem: "canonicalName names t = Some n \<Longrightarrow> n \<in> set names"
  by (auto simp: canonicalName_def find_Some_iff) (metis length_rev nth_mem set_rev)

lemma grammar_fields:
  "isExpr toNum names ts a \<Longrightarrow> fieldsOfFormula a \<subseteq> set names"
  "isTerm toNum names ts a \<Longrightarrow> fieldsOfFormula a \<subseteq> set names"
  "isUnary toNum names ts a \<Longrightarrow> fieldsOfFormula a \<subseteq> set names"
  "isPrimary toNum names ts a \<Longrightarrow> fieldsOfFormula a \<subseteq> set names"
  by (induction rule: isExpr_isTerm_isUnary_isPrimary.inducts)
    (auto simp: atomOf_def canonicalName_mem split: Token.splits)

lemma parse_fields: "parsePivotFormula toNum formula names = Some (Inr a) \<Longrightarrow> fieldsOfFormula a \<subseteq> set names"
  by (auto simp: parsePivotFormula_def parseTokens_iff split: sum.splits dest: grammar_fields)

lemma parse_returns: "parsePivotFormula toNum formula names \<noteq> None"
  by (auto simp: parsePivotFormula_def parseTokens_returns simp del: not_None_eq split: sum.splits)

lemma evaluate_fields:
  "(\<And>n. n \<in> fieldsOfFormula a \<Longrightarrow> valueOf n = valueOf' n) \<Longrightarrow> evaluatePivotFormula a valueOf = evaluatePivotFormula a valueOf'"
  by (induction a) (auto split: option.splits)

end
