(* ===== verification/PivotGrammar.thy ===== *)
theory PivotGrammar
  imports PivotParse
begin

text \<open>
  The grammar in the comment of \<open>pivot-formula.ts\<close> (lines 119 and 120), and the parser against it. The code also
  skips a \<open>+\<close> where an operand is expected, which the comment does not have: the parser accepts a formula when the
  comment's grammar derives what is left of it without these signs.
\<close>

section \<open>The documented grammar\<close>

text \<open>
  \<open>expr := term (('+'|'-') term)*\<close>, \<open>term := unary (('*'|'/') unary)*\<close>,
  \<open>unary := '-' unary | primary\<close>, \<open>primary := num | field | '(' expr ')'\<close>
\<close>

inductive docExpr and docTerm and docUnary and docPrimary for toNum :: "string \<Rightarrow> js_number" and names :: "string list" where
  DocExprTerm: "docTerm toNum names ts a \<Longrightarrow> docExpr toNum names ts a"
| DocExprSum: "docExpr toNum names ts a \<Longrightarrow> p = Add \<or> p = Sub \<Longrightarrow> docTerm toNum names us b
    \<Longrightarrow> docExpr toNum names (ts @ OpToken p # us) (PBin p a b)"
| DocTermUnary: "docUnary toNum names ts a \<Longrightarrow> docTerm toNum names ts a"
| DocTermProduct: "docTerm toNum names ts a \<Longrightarrow> p = Mul \<or> p = Div \<Longrightarrow> docUnary toNum names us b
    \<Longrightarrow> docTerm toNum names (ts @ OpToken p # us) (PBin p a b)"
| DocUnaryMinus: "docUnary toNum names ts a \<Longrightarrow> docUnary toNum names (OpToken Sub # ts) (PNeg a)"
| DocUnaryPrimary: "docPrimary toNum names ts a \<Longrightarrow> docUnary toNum names ts a"
| DocPrimaryNumber: "docPrimary toNum names [NumToken s] (PNum (numValue (toNum s)))"
| DocPrimaryField: "canonicalName names s = Some n \<Longrightarrow> docPrimary toNum names [FieldToken s] (PField n)"
| DocPrimaryParen: "docExpr toNum names ts a \<Longrightarrow> docPrimary toNum names (LParen # ts @ [RParen]) a"

section \<open>Unary plus\<close>

text \<open>Whether an operand is expected after a token.\<close>

fun opensOperand :: "Token \<Rightarrow> bool" where
  "opensOperand (OpToken p) = True"
| "opensOperand LParen = True"
| "opensOperand _ = False"

text \<open>The tokens without each \<open>+\<close> at which an operand is expected.\<close>

fun withoutPlus :: "bool \<Rightarrow> Token list \<Rightarrow> Token list" where
  "withoutPlus operand [] = []"
| "withoutPlus operand (t # ts) =
     (if operand \<and> t = OpToken Add then withoutPlus True ts else t # withoutPlus (opensOperand t) ts)"

fun operandAfter :: "bool \<Rightarrow> Token list \<Rightarrow> bool" where
  "operandAfter operand [] = operand"
| "operandAfter operand (t # ts) = operandAfter (opensOperand t) ts"

definition dropUnaryPlus :: "Token list \<Rightarrow> Token list" where
  "dropUnaryPlus ts = withoutPlus True ts"

lemma operandAfter_append [simp]: "operandAfter operand (ts @ us) = operandAfter (operandAfter operand ts) us"
  by (induction ts arbitrary: operand) simp_all

lemma operandAfter_withoutPlus [simp]: "operandAfter operand (withoutPlus operand ts) = operandAfter operand ts"
  by (induction ts arbitrary: operand) auto

lemma withoutPlus_append: "withoutPlus operand (ts @ us) = withoutPlus operand ts @ withoutPlus (operandAfter operand ts) us"
  by (induction ts arbitrary: operand) auto

lemma withoutPlus_Nil: "withoutPlus False ts = [] \<longleftrightarrow> ts = []"
  by (cases ts) simp_all

lemma withoutPlus_split:
  "withoutPlus operand ts = us @ vs \<Longrightarrow>
    \<exists>ts1 ts2. ts = ts1 @ ts2 \<and> withoutPlus operand ts1 = us \<and> withoutPlus (operandAfter operand ts1) ts2 = vs"
proof (induction ts arbitrary: operand us)
  case (Cons t ts)
  show ?case
  proof (cases us)
    case Nil
    then show ?thesis using Cons.prems by (intro exI [of _ "[]"] exI [of _ "t # ts"]) simp
  next
    case (Cons u us')
    note us = this
    show ?thesis
    proof (cases "operand \<and> t = OpToken Add")
      case True
      then obtain ts1 ts2 where "ts = ts1 @ ts2" "withoutPlus True ts1 = us" "withoutPlus (operandAfter True ts1) ts2 = vs"
        using Cons.prems Cons.IH [of True us] by auto
      then show ?thesis using True by (intro exI [of _ "t # ts1"] exI [of _ ts2]) simp
    next
      case False
      then have "u = t" "withoutPlus (opensOperand t) ts = us' @ vs" using Cons.prems us by (auto split: if_splits)
      then obtain ts1 ts2 where "ts = ts1 @ ts2" "withoutPlus (opensOperand t) ts1 = us'"
        "withoutPlus (operandAfter (opensOperand t) ts1) ts2 = vs"
        using Cons.IH by blast
      then show ?thesis using False us \<open>u = t\<close> by (intro exI [of _ "t # ts1"] exI [of _ ts2]) auto
    qed
  qed
qed auto

text \<open>After a sentence no operand is expected, and a documented sentence has no unary plus.\<close>

lemma sentence_operand:
  "isExpr toNum names ts a \<Longrightarrow> \<not> operandAfter e ts" "isTerm toNum names ts a \<Longrightarrow> \<not> operandAfter e ts"
  "isUnary toNum names ts a \<Longrightarrow> \<not> operandAfter e ts" "isPrimary toNum names ts a \<Longrightarrow> \<not> operandAfter e ts"
proof (induction arbitrary: e and e and e and e rule: isExpr_isTerm_isUnary_isPrimary.inducts)
  case (PrimaryAtom t a)
  then show ?case by (cases t) (auto simp: atomOf_def)
qed simp_all

lemma doc_operand:
  "docExpr toNum names ts a \<Longrightarrow> \<not> operandAfter e ts" "docTerm toNum names ts a \<Longrightarrow> \<not> operandAfter e ts"
  "docUnary toNum names ts a \<Longrightarrow> \<not> operandAfter e ts" "docPrimary toNum names ts a \<Longrightarrow> \<not> operandAfter e ts"
  by (induction arbitrary: e and e and e and e rule: docExpr_docTerm_docUnary_docPrimary.inducts) simp_all

lemma doc_withoutPlus:
  "docExpr toNum names ts a \<Longrightarrow> withoutPlus True ts = ts" "docTerm toNum names ts a \<Longrightarrow> withoutPlus True ts = ts"
  "docUnary toNum names ts a \<Longrightarrow> withoutPlus True ts = ts" "docPrimary toNum names ts a \<Longrightarrow> withoutPlus True ts = ts"
  by (induction rule: docExpr_docTerm_docUnary_docPrimary.inducts) (simp_all add: withoutPlus_append doc_operand)

section \<open>The parser's sentences are the documented ones with unary pluses\<close>

lemma documented_of_parsed:
  "isExpr toNum names ts a \<Longrightarrow> docExpr toNum names (withoutPlus True ts) a"
  "isTerm toNum names ts a \<Longrightarrow> docTerm toNum names (withoutPlus True ts) a"
  "isUnary toNum names ts a \<Longrightarrow> docUnary toNum names (withoutPlus True ts) a"
  "isPrimary toNum names ts a \<Longrightarrow> docPrimary toNum names (withoutPlus True ts) a"
proof (induction rule: isExpr_isTerm_isUnary_isPrimary.inducts)
  case (PrimaryAtom t a)
  then show ?case by (cases t) (auto simp: atomOf_def intro: DocPrimaryNumber DocPrimaryField)
qed (auto simp: withoutPlus_append sentence_operand
    intro: DocExprTerm DocExprSum DocTermUnary DocTermProduct DocUnaryMinus DocUnaryPrimary DocPrimaryParen)

text \<open>The pluses before an operand are taken by the rule for them.\<close>

lemma withoutPlus_first:
  assumes "withoutPlus True ts = u # us"
    and "\<And>ts'. withoutPlus (opensOperand u) ts' = us \<Longrightarrow> isUnary toNum names (u # ts') a"
  shows "isUnary toNum names ts a"
  using assms by (induction ts) (auto intro: UnaryPlus split: if_splits)

lemma parsed_of_documented:
  "docExpr toNum names us a \<Longrightarrow> withoutPlus True ts = us \<Longrightarrow> isExpr toNum names ts a"
  "docTerm toNum names us a \<Longrightarrow> withoutPlus True ts = us \<Longrightarrow> isTerm toNum names ts a"
  "docUnary toNum names us a \<Longrightarrow> withoutPlus True ts = us \<Longrightarrow> isUnary toNum names ts a"
  "docPrimary toNum names us a \<Longrightarrow> withoutPlus True ts = us \<Longrightarrow> isUnary toNum names ts a"
proof (induction arbitrary: ts and ts and ts and ts rule: docExpr_docTerm_docUnary_docPrimary.inducts)
  case (DocExprSum us a p vs b)
  from withoutPlus_split [OF DocExprSum.prems] obtain ts1 ts2 where
    s: "ts = ts1 @ ts2" "withoutPlus True ts1 = us" "withoutPlus (operandAfter True ts1) ts2 = OpToken p # vs" by blast
  have "\<not> operandAfter True ts1" using doc_operand(1) [OF DocExprSum.IH(1)] s(2) by (metis operandAfter_withoutPlus)
  then obtain ts3 where "ts2 = OpToken p # ts3" "withoutPlus True ts3 = vs" using s(3) by (cases ts2) auto
  then show ?case using s DocExprSum by (auto intro: ExprSum)
next
  case (DocTermProduct us a p vs b)
  from withoutPlus_split [OF DocTermProduct.prems] obtain ts1 ts2 where
    s: "ts = ts1 @ ts2" "withoutPlus True ts1 = us" "withoutPlus (operandAfter True ts1) ts2 = OpToken p # vs" by blast
  have "\<not> operandAfter True ts1" using doc_operand(2) [OF DocTermProduct.IH(1)] s(2) by (metis operandAfter_withoutPlus)
  then obtain ts3 where "ts2 = OpToken p # ts3" "withoutPlus True ts3 = vs" using s(3) by (cases ts2) auto
  then show ?case using s DocTermProduct by (auto intro: TermProduct)
next
  case (DocUnaryMinus us a)
  show ?case
    by (rule withoutPlus_first [OF DocUnaryMinus.prems]) (use DocUnaryMinus.IH in \<open>auto intro: UnaryMinus\<close>)
next
  case (DocPrimaryNumber s)
  show ?case
    by (rule withoutPlus_first [OF DocPrimaryNumber.prems])
      (auto simp: withoutPlus_Nil atomOf_def intro!: UnaryPrimary PrimaryAtom)
next
  case (DocPrimaryField s n)
  show ?case
    by (rule withoutPlus_first [OF DocPrimaryField.prems])
      (use DocPrimaryField.IH in \<open>auto simp: withoutPlus_Nil atomOf_def intro!: UnaryPrimary PrimaryAtom\<close>)
next
  case (DocPrimaryParen us a)
  show ?case
  proof (rule withoutPlus_first [OF DocPrimaryParen.prems])
    fix ts' assume "withoutPlus (opensOperand LParen) ts' = us @ [RParen]"
    then have "withoutPlus True ts' = us @ [RParen]" by simp
    from withoutPlus_split [OF this] obtain ts1 ts2 where
      s: "ts' = ts1 @ ts2" "withoutPlus True ts1 = us" "withoutPlus (operandAfter True ts1) ts2 = [RParen]" by blast
    have "\<not> operandAfter True ts1" using doc_operand(1) [OF DocPrimaryParen.IH(1)] s(2) by (metis operandAfter_withoutPlus)
    then have "ts2 = [RParen]" using s(3) by (cases ts2) (auto simp: withoutPlus_Nil)
    then show "isUnary toNum names (LParen # ts') a"
      using s DocPrimaryParen.IH by (auto intro!: UnaryPrimary PrimaryParen)
  qed
qed (auto intro: ExprTerm TermUnary)

lemma documented_iff: "isExpr toNum names ts a \<longleftrightarrow> docExpr toNum names (dropUnaryPlus ts) a"
  using documented_of_parsed(1) parsed_of_documented(1) by (auto simp: dropUnaryPlus_def)

lemma documented_parsed:
  "docExpr toNum names ts a \<longleftrightarrow> parseTokens toNum names ts = Some (Inr a) \<and> dropUnaryPlus ts = ts"
  using doc_withoutPlus(1) [of toNum names ts a] documented_iff [of toNum names ts a] parseTokens_iff [of toNum names ts a]
  by (auto simp: dropUnaryPlus_def)

text \<open>Against the comment, a formula may have unary pluses.\<close>

lemma unary_plus_accepted:
  "parseTokens toNum names [OpToken Add, NumToken s] = Some (Inr (PNum (numValue (toNum s))))"
  "\<not> docExpr toNum names [OpToken Add, NumToken s] a"
proof -
  have "isExpr toNum names [OpToken Add, NumToken s] (PNum (numValue (toNum s)))"
    by (intro ExprTerm TermUnary UnaryPlus UnaryPrimary PrimaryAtom) (simp_all add: atomOf_def)
  then show "parseTokens toNum names [OpToken Add, NumToken s] = Some (Inr (PNum (numValue (toNum s))))"
    by (simp only: parseTokens_iff)
  show "\<not> docExpr toNum names [OpToken Add, NumToken s] a" by (auto simp: documented_parsed dropUnaryPlus_def)
qed

end
