(* ===== verification/PivotProperties.thy ===== *)
theory PivotProperties
  imports PivotSlicer PivotPrint PivotGrammar
begin

text \<open>
  The properties of pivot tables: calculated-field formulas against their grammar, growing a layout,
  recomputing its data area, slicing and the lines of a rebuilt axis. Witnesses use a pivot of one row field
  whose source has a region the cache does not know.
\<close>

section \<open>A small pivot\<close>

definition sampleJs :: Js where
  "sampleJs = \<lparr>numText = (\<lambda>_. ''1''), textNum = (\<lambda>_. NaN), textDate = (\<lambda>_. None)\<rparr>"

definition sampleSource :: "SourceRow list" where
  "sampleSource = [[Str ''Region'', Str ''Sales''], [Str ''North'', Num 1], [Str ''South'', Num 2]]"

definition samplePivot :: PivotDefinition where
  "samplePivot =
     \<lparr>outputRef = ''A1:B3'', firstDataRow = 1, firstDataCol = 1,
      pFields = [\<lparr>fieldName = ''Region'', sharedItems = [Str ''north''], grouping = None, fieldFormula = None\<rparr>,
                 \<lparr>fieldName = ''Sales'', sharedItems = [], grouping = None, fieldFormula = None\<rparr>],
      fieldItems = [[\<lparr>itemX = Some 0, itemHidden = False\<rparr>], []], rowFields = [0], colFields = [],
      rowLines = [\<lparr>lineT = ''data'', lineMembers = [Some 0], lineDepth = 1, lineDataField = 0\<rparr>,
                  \<lparr>lineT = ''grand'', lineMembers = [None], lineDepth = 0, lineDataField = 0\<rparr>],
      colLines = [\<lparr>lineT = ''data'', lineMembers = [], lineDepth = 0, lineDataField = 0\<rparr>],
      dataFields = [\<lparr>dataName = ''Sum of Sales'', dataSource = 1, subtotal = ''sum'', showDataAs = None, dataFormula = None\<rparr>],
      pageFields = [], filters = [], sourceSheet = ''Data'', sourceRef = ''A1:B3'', unsupported = []\<rparr>"

lemma sample_grows: "isOk (growPivotDefinition sampleJs samplePivot sampleSource)"
  by code_simp

section \<open>Formulas\<close>

text \<open>C20: The parser of calculated-field formulas reads the grammar in its comment: sums and differences
  associate to the left and bind weaker than products and quotients, minus signs bind tighter, parentheses group,
  names resolve to cache fields. It accepts a formula, with the tree of the derivation, exactly when the comment's
  grammar derives the tokens without the plus signs that stand where an operand is expected; the comment has no
  such sign, so its sentences are exactly the accepted token lists without one.\<close>

theorem pivot_formula_grammar:
  "(parsePivotFormula toNum text names = Some (Inr a) \<longleftrightarrow>
      (\<exists>ts. tokenize toNum (dropEquals text) = Inr ts \<and> docExpr toNum names (dropUnaryPlus ts) a)) \<and>
   (docExpr toNum names ts a \<longleftrightarrow> parseTokens toNum names ts = Some (Inr a) \<and> dropUnaryPlus ts = ts)"
proof (intro conjI)
  show "parsePivotFormula toNum text names = Some (Inr a) \<longleftrightarrow>
      (\<exists>ts. tokenize toNum (dropEquals text) = Inr ts \<and> docExpr toNum names (dropUnaryPlus ts) a)"
    by (auto simp: parsePivotFormula_def parseTokens_iff documented_iff split: sum.splits)
qed (rule documented_parsed)

text \<open>The parser always answers: four steps for every token (and four more) are enough for the descent through
  sums, products, signs and parentheses, and more steps give the same tree or the same error.\<close>

theorem pivot_formula_answers:
  "parsePivotFormula toNum text names \<noteq> None \<and>
   parseExpr toNum names (4 * length ts + 4 + extra) ts = parseExpr toNum names (4 * length ts + 4) ts"
proof -
  obtain x where "parseExpr toNum names (4 * length ts + 4) ts = Some x"
    using parse_enough(1) [of ts "4 * length ts + 4" toNum names] by auto
  with parse_mono(1) [of "4 * length ts + 4" "4 * length ts + 4 + extra" toNum names ts x] show ?thesis
    by (simp add: parse_returns del: parseExpr.simps)
qed

text \<open>C21: Printing a formula and parsing the text gives the formula back: quotes in field names are doubled and undone,
  every operation is parenthesized, and no name or number runs into its neighbour. The numbers print as number
  tokens that read back, the names are those of the referenceable fields.\<close>

theorem pivot_formula_roundtrip:
  "printable numStr toNum names a \<Longrightarrow> parsePivotFormula toNum (formatPivotFormula numStr a) names = Some (Inr a)"
  by (rule parse_print)

theorem pivot_formula_roundtrip_witness:
  "parsePivotFormula (\<lambda>_. Finite 2)
     (formatPivotFormula (\<lambda>_. ''2'') (PBin Sub (PField ''it's'') (PBin Mul (PNum 2) (PNeg (PField ''b'')))))
     [''it's'', ''b''] = Some (Inr (PBin Sub (PField ''it's'') (PBin Mul (PNum 2) (PNeg (PField ''b'')))))"
proof (rule pivot_formula_roundtrip)
  show "printable (\<lambda>_. ''2'') (\<lambda>_. Finite 2) [''it's'', ''b''] (PBin Sub (PField ''it's'') (PBin Mul (PNum 2) (PNeg (PField ''b''))))"
    by (simp, code_simp)
qed

section \<open>Growth\<close>

text \<open>C17: Growing a pivot whose dimension fields are in the cache gives a definition that its source no longer
  drifts from: the source still matches the cache, every value of every dimension column has a shared item, so that
  recomputing does not fail closed. Growth only appends: shared items and the items that stand for them keep their
  indices.\<close>

theorem growth_repairs_drift:
  assumes "growPivotDefinition js d source = Inr (d', grown)" "axesInCache d"
  shows "assertSourceMatchesCache js d' source = Inr () \<and> checkDrift js d' (drop 1 source) = Inr () \<and>
    (\<forall>field. fieldAt d field \<noteq> None \<longrightarrow> (\<exists>new. sharedOf d' field = sharedOf d field @ new)) \<and>
    (\<forall>i<length (fieldItems d). \<exists>new. map itemX (fieldItems d' ! i) = map itemX (fieldItems d ! i) @ new)"
proof -
  obtain g items changed where run:
    "assertSourceMatchesCache js d source = Inr ()" "appendMembers d (additionsByField js d (drop 1 source)) = Inr g" "sameSource g d'"
    by (rule grow_steps [OF assms(1)])
  have "map itemX (fieldItems d' ! i) = map itemX (fieldItems g ! i)" if "i < length (fieldItems d)" for i
  proof -
    have eq: "map (map itemX) (fieldItems d') = map (map itemX) (fieldItems g)" using run(3) by (simp add: sameSource_def)
    have "length (fieldItems d') = length (fieldItems d)" using arg_cong [OF eq, of length] append_items(1) [OF run(2)] by simp
    then show ?thesis using arg_cong [OF eq, of "\<lambda>xs. xs ! i"] that append_items(1) [OF run(2)] by simp
  qed
  then have "\<forall>i<length (fieldItems d). \<exists>new. map itemX (fieldItems d' ! i) = map itemX (fieldItems d ! i) @ new"
    using append_items(2) [OF run(2)] by fastforce
  then show ?thesis
    using append_assert [OF run(2,1)] append_checkDrift [OF run(2) assms(2)] append_sharedOf [OF run(2)]
    by (simp add: same_assert [OF run(3)] same_sharedOf [OF run(3)] checkDrift_ok driftedRow_def same_axisFields [OF run(3)]
          same_rowKey [OF run(3)])
qed

theorem growth_repairs_drift_witness:
  "\<exists>d' grown. growPivotDefinition sampleJs samplePivot sampleSource = Inr (d', grown) \<and>
     checkDrift sampleJs d' (drop 1 sampleSource) = Inr ()"
proof -
  obtain d' grown where "growPivotDefinition sampleJs samplePivot sampleSource = Inr (d', grown)"
    using sample_grows by (auto simp: isOk_iff)
  moreover have "axesInCache samplePivot" by code_simp
  ultimately show ?thesis using growth_repairs_drift by blast
qed

text \<open>Growth settles at once: growing a grown pivot from the same source finds no new member and the same hidden
  bits for every filter, so that it returns the same definition and reports no growth.\<close>

theorem growth_settles:
  assumes "growPivotDefinition js d source = Inr (d', grown)" "axesInCache d"
  shows "growPivotDefinition js d' source = Inr (d', False)"
proof -
  obtain g items changed where run:
    "assertSourceMatchesCache js d source = Inr ()" "appendMembers d (additionsByField js d (drop 1 source)) = Inr g"
    "reapplyPivotFilters js g (drop 1 source) = Inr (items, changed)" "sameSource g d'" "fieldItems d' = items"
    by (rule grow_steps [OF assms(1)])
  have "additionsByField js d' (drop 1 source) = []"
    using append_checkDrift [OF run(2) assms(2)] by (simp add: same_additions [OF run(4)] no_additions)
  then show ?thesis
    using append_assert [OF run(2,1)] reapply_again [OF run(3-5)]
    by (simp add: growPivotDefinition_def same_assert [OF run(4)] appendMembers_def)
qed

theorem growth_settles_witness:
  "\<exists>d' grown. growPivotDefinition sampleJs samplePivot sampleSource = Inr (d', grown) \<and>
     growPivotDefinition sampleJs d' sampleSource = Inr (d', False)"
proof -
  obtain d' grown where "growPivotDefinition sampleJs samplePivot sampleSource = Inr (d', grown)"
    using sample_grows by (auto simp: isOk_iff)
  moreover have "axesInCache samplePivot" by code_simp
  ultimately show ?thesis using growth_settles by blast
qed

section \<open>Recomputing\<close>

text \<open>C18: Keeping the denominators of the shares in a cache changes no result and no error: the recomputed data area is
  that of the direct definition, where every cell aggregates the visible rows that match its line and its column
  and divides by the aggregate of its row, its column or all rows.\<close>

theorem recompute_cache_transparent: "recomputePivotData js d source = recomputeSpec js d source"
  unfolding recomputePivotData_def recomputeSpec_def Let_def recompute_loop ..

text \<open>Totals add up: for the aggregations \<open>sum\<close>, \<open>count\<close> and \<open>countNums\<close>, the cell of a line is the sum of the cells
  of the lines below it, one for each key of a further field, when the keys are distinct and cover the visible rows
  of the line.\<close>

theorem pivot_totals_add_up:
  assumes "nthOpt (dataFields d) i = Some f" "subtotal f \<in> {''sum'', ''count'', ''countNums''}" "nthOpt asts i = Some None"
    and "distinct keys" "\<forall>row\<in>set rows. matchesAll js d preds row \<longrightarrow> rowKey js d row field \<in> set keys"
  shows "\<exists>parts. mapE (\<lambda>k. aggregateCell js d rows asts i (preds @ [(field, k)])) keys = Inr (map Some parts) \<and>
                 aggregateCell js d rows asts i preds = Inr (Some (sum_list parts))"
  by (rule totals_add_up [OF assms(1-4)]) (use assms(5) in blast)

theorem pivot_totals_add_up_witness:
  "\<exists>parts. mapE (\<lambda>k. aggregateCell sampleJs samplePivot (drop 1 sampleSource) [None] 0 [(0, k)]) [''s:north'', ''s:south''] = Inr (map Some parts) \<and>
           aggregateCell sampleJs samplePivot (drop 1 sampleSource) [None] 0 [] = Inr (Some (sum_list parts))"
proof -
  have "nthOpt (dataFields samplePivot) 0 = Some (hd (dataFields samplePivot))" "subtotal (hd (dataFields samplePivot)) = ''sum''"
    by (simp_all add: samplePivot_def nthOpt_def)
  moreover have "\<forall>row\<in>set (drop 1 sampleSource). matchesAll sampleJs samplePivot [] row \<longrightarrow>
      rowKey sampleJs samplePivot row 0 \<in> set [''s:north'', ''s:south'']" by code_simp
  ultimately show ?thesis
    using pivot_totals_add_up [of samplePivot 0 "hd (dataFields samplePivot)" "[None]" "[''s:north'', ''s:south'']"
        "drop 1 sampleSource" sampleJs "[]" 0]
    by (simp add: nthOpt_def)
qed

section \<open>Slicing\<close>

text \<open>A slicer hides exactly the members of its field that are not selected (none when everything is selected),
  leaves the items of the other fields alone, and no row of a hidden member counts towards any cell. Slicing again
  with the same selection changes nothing.\<close>

theorem slicer_exact:
  assumes "applyPivotSlicer js d source field selected = Inr d'"
  shows "map itemX (itemsOf d' field) = map itemX (itemsOf d field) \<and> (\<forall>f. f \<noteq> field \<longrightarrow> itemsOf d' f = itemsOf d f) \<and>
    (\<forall>m i. nthOpt (itemsOf d' field) m = Some i \<and> itemX i \<noteq> None \<longrightarrow>
       (itemHidden i \<longleftrightarrow> \<not> keepSelected selected m) \<and>
       (\<forall>s pages row. itemHidden i \<and> itemShared d' field i = Some s \<and> rowVisible js d' pages row \<longrightarrow>
          rowKey js d' row field \<noteq> groupKey js (Some s))) \<and>
    applyPivotSlicer js d' source field selected = Inr d'"
proof -
  have "field \<in> set (axisFields d')" using slicer_steps(2,5) [OF assms] by (simp add: same_axisFields)
  then show ?thesis
    using slicer_steps(4) [OF assms] slicer_hides [OF assms] slicer_again [OF assms] hidden_rows_out by auto
qed

theorem slicer_exact_witness:
  "\<exists>d'. applyPivotSlicer sampleJs samplePivot sampleSource 0 (Some []) = Inr d' \<and>
        applyPivotSlicer sampleJs d' sampleSource 0 (Some []) = Inr d'"
proof -
  have "isOk (applyPivotSlicer sampleJs samplePivot sampleSource 0 (Some []))" by code_simp
  then obtain d' where "applyPivotSlicer sampleJs samplePivot sampleSource 0 (Some []) = Inr d'" by (auto simp: isOk_iff)
  then show ?thesis using slicer_exact by blast
qed

section \<open>Layout\<close>

text \<open>C19: Rebuilding an axis makes a data line for a choice of members exactly when the members are visible and their
  keys are a combination that a source row or an old data line has: none is lost and none is invented. The keys of
  the values have no NUL characters (the key of blank cells apart), which joining combinations relies on; the data
  field does not stand on the axis.\<close>

theorem rebuilt_lines_exact:
  assumes "rebuildAxisLines js d axis oldLines rows = Inr newLines" "-2 \<notin> set axis" "axis \<noteq> []" "cleanAxis js d axis oldLines rows"
  shows "(\<exists>line\<in>set newLines. lineT line = ''data'' \<and> lineMembers line = map Some ms) \<longleftrightarrow>
     length ms = length axis \<and>
     (\<exists>keys\<in>set (axisCombos js d axis oldLines rows).
        \<forall>level<length axis. memberKey js d (axis ! level) (ms ! level) = Some (keys ! level))"
proof -
  have "(\<exists>line\<in>set newLines. lineT line = ''data'' \<and> lineMembers line = map Some ms) \<longleftrightarrow> map Some ms \<in> dataMembers newLines"
    by (auto simp: dataMembers_def image_iff)
  then show ?thesis using rebuilt_lines [OF assms] by simp
qed

theorem rebuilt_lines_exact_witness:
  "\<exists>newLines. rebuildAxisLines sampleJs samplePivot [0] (rowLines samplePivot) (drop 1 sampleSource) = Inr newLines \<and>
     (\<exists>line\<in>set newLines. lineT line = ''data'' \<and> lineMembers line = map Some [0])"
proof -
  have "isOk (rebuildAxisLines sampleJs samplePivot [0] (rowLines samplePivot) (drop 1 sampleSource))" by code_simp
  then obtain newLines where rebuilt: "rebuildAxisLines sampleJs samplePivot [0] (rowLines samplePivot) (drop 1 sampleSource) = Inr newLines"
    by (auto simp: isOk_iff)
  have "cleanAxis sampleJs samplePivot [0] (rowLines samplePivot) (drop 1 sampleSource)" by code_simp
  moreover have "memberKey sampleJs samplePivot 0 0 = Some ''s:north''" by code_simp
  moreover have "[''s:north''] \<in> set (axisCombos sampleJs samplePivot [0] (rowLines samplePivot) (drop 1 sampleSource))" by code_simp
  ultimately show ?thesis
    using rebuilt rebuilt_lines_exact [OF rebuilt, of "[0]"] by fastforce
qed

end
