(* ===== verification/CanvasModel.thy ===== *)
theory CanvasModel
  imports JsText
begin

text \<open>
  The canvas scene and its editing (\<open>apps/key-office/apps/key/src/renderer/canvas/model.ts\<close>): cards,
  text, shapes and ink with their connectors, the viewport, snapping, groups, frames, layout and the
  undo history. Coordinates are reals. A node extends its rectangle, as in the source; a node's variant
  is its \<open>nodeBody\<close>. \<open>newId\<close> (random) is a parameter: the \<open>k\<close>-th identifier a call makes is \<open>fresh k\<close>.
  An optional text that the code tests for truth is empty or absent.
\<close>

section \<open>Scenes\<close>

type_synonym Point = "real \<times> real"

record Rect =
  rectX :: real
  rectY :: real
  rectW :: real
  rectH :: real

record ItemLink =
  linkKind :: string
  linkId :: string
  linkAnchor :: "string option"

datatype NodeBody =
  ItemBody ItemLink string "string option" "string option" "string option"  \<comment> \<open>ref, title, detail?, color?, face?\<close>
| TextBody string string  \<comment> \<open>text, color\<close>
| ShapeBody string string string  \<comment> \<open>shape, text, color\<close>
| InkBody "Point list" string real real real  \<comment> \<open>points, color, width, vw, vh\<close>

record CanvasNode = Rect +
  nodeId :: string
  nodeGroup :: "string option"
  nodeBody :: NodeBody

record CanvasEdge =
  edgeId :: string
  edgeFrom :: string
  edgeTo :: string
  edgeLabel :: "string option"
  edgeColor :: string

record CanvasDoc =
  docNodes :: "CanvasNode list"
  docEdges :: "CanvasEdge list"

record Viewport =
  viewX :: real
  viewY :: real
  viewZoom :: real

definition asText :: "string option \<Rightarrow> string option" where
  "asText s = (case s of Some (c # t) \<Rightarrow> s | _ \<Rightarrow> None)"

section \<open>Cards\<close>

definition CARD_GAP :: real where "CARD_GAP = 24"

definition PREVIEW_KINDS :: "string list" where
  "PREVIEW_KINDS = [''pdf'', ''image'', ''video'', ''book'', ''document'']"

record CardItem = ItemLink +
  cardTitle :: string
  cardDetail :: "string option"
  cardColor :: "string option"

definition cardSize :: "string \<Rightarrow> string option \<Rightarrow> string option \<Rightarrow> real \<times> real" where
  "cardSize kind anchor detail =
     (let anchored = (\<lambda>p. case anchor of Some a \<Rightarrow> startsWith a p | None \<Rightarrow> False) in
      if anchored ''highlight:'' then (260, 160)
      else if anchored ''page:'' then (260, 320)
      else if kind = ''note'' \<or> kind = ''record'' then (320, 300)
      else if kind = ''source''
      then (if (case detail of Some d \<Rightarrow> d | None \<Rightarrow> []) \<in> set PREVIEW_KINDS then (280, 320) else (280, 180))
      else (240, 120))"

definition itemSize :: "CardItem \<Rightarrow> real \<times> real" where
  "itemSize item = cardSize (linkKind item) (linkAnchor item) (cardDetail item)"

text \<open>The loop of \<open>layoutCards\<close>: the index, and \<open>x\<close>, \<open>y\<close> and \<open>rowHeight\<close>.\<close>

fun placeCards :: "(nat \<Rightarrow> string) \<Rightarrow> real \<Rightarrow> real \<Rightarrow> nat \<Rightarrow> real \<Rightarrow> real \<Rightarrow> real \<Rightarrow> CardItem list \<Rightarrow> CanvasNode list" where
  "placeCards fresh leftX topY i x y rowHeight [] = []"
| "placeCards fresh leftX topY i x y rowHeight (item # items) =
     (let (w, h) = itemSize item;
          wrap = (i \<noteq> 0 \<and> i mod 4 = 0);
          x0 = (if wrap then 0 else x);
          y0 = (if wrap then y + (rowHeight + CARD_GAP) else y);
          r0 = (if wrap then 0 else rowHeight);
          node = \<lparr>rectX = of_int (mathRound (leftX + x0)), rectY = of_int (mathRound (topY + y0)), rectW = w, rectH = h,
            nodeId = fresh i, nodeGroup = None,
            nodeBody = ItemBody \<lparr>linkKind = linkKind item, linkId = linkId item, linkAnchor = asText (linkAnchor item)\<rparr>
              (cardTitle item) (cardDetail item) (cardColor item) None\<rparr>
      in node # placeCards fresh leftX topY (Suc i) (x0 + (w + CARD_GAP)) y0 (max r0 h) items)"

definition layoutCards :: "(nat \<Rightarrow> string) \<Rightarrow> CardItem list \<Rightarrow> Point \<Rightarrow> CanvasNode list" where
  "layoutCards fresh items c =
     (let (w, h) = (case items of [] \<Rightarrow> (0, 0) | item # _ \<Rightarrow> itemSize item)
      in placeCards fresh (fst c - w / 2) (snd c - h / 2) 0 0 0 0 items)"

section \<open>Rectangles\<close>

definition bounds :: "'a Rect_scheme list \<Rightarrow> Rect option" where
  "bounds rects =
     (if rects = [] then None
      else let x = Min (set (map rectX rects)); y = Min (set (map rectY rects));
               right = Max (set (map (\<lambda>r. rectX r + rectW r) rects));
               bottom = Max (set (map (\<lambda>r. rectY r + rectH r) rects))
           in Some \<lparr>rectX = x, rectY = y, rectW = right - x, rectH = bottom - y\<rparr>)"

definition intersects :: "'a Rect_scheme \<Rightarrow> 'b Rect_scheme \<Rightarrow> bool" where
  "intersects a b \<longleftrightarrow> rectX a < rectX b + rectW b \<and> rectX b < rectX a + rectW a
     \<and> rectY a < rectY b + rectH b \<and> rectY b < rectY a + rectH a"

definition rectFrom :: "Point \<Rightarrow> Point \<Rightarrow> Rect" where
  "rectFrom a b = \<lparr>rectX = min (fst a) (fst b), rectY = min (snd a) (snd b),
     rectW = \<bar>fst a - fst b\<bar>, rectH = \<bar>snd a - snd b\<bar>\<rparr>"

definition centre :: "'a Rect_scheme \<Rightarrow> Point" where
  "centre r = (rectX r + rectW r / 2, rectY r + rectH r / 2)"

text \<open>\<open>Math.min\<close> with an infinite argument for a zero difference.\<close>

definition boxExit :: "'a Rect_scheme \<Rightarrow> Point \<Rightarrow> Point" where
  "boxExit rect target =
     (let cx = fst (centre rect); cy = snd (centre rect); dx = fst target - cx; dy = snd target - cy in
      if dx = 0 \<and> dy = 0 then (cx, cy)
      else let across = rectW rect / 2 / \<bar>dx\<bar>; down = rectH rect / 2 / \<bar>dy\<bar>;
               scale = (if dx = 0 then down else if dy = 0 then across else min across down)
           in (cx + dx * scale, cy + dy * scale))"

definition padded :: "real \<Rightarrow> 'a Rect_scheme \<Rightarrow> Rect" where
  "padded gap r = \<lparr>rectX = rectX r - gap, rectY = rectY r - gap, rectW = rectW r + gap * 2, rectH = rectH r + gap * 2\<rparr>"

definition edgeEnds :: "'a Rect_scheme \<Rightarrow> 'b Rect_scheme \<Rightarrow> real \<Rightarrow> Point \<times> Point" where
  "edgeEnds from to gap = (boxExit (padded gap from) (centre to), boxExit (padded gap to) (centre from))"

definition pointText :: "(real \<Rightarrow> string) \<Rightarrow> Point \<Rightarrow> string" where
  "pointText numStr p = numStr (fst p) @ '','' @ numStr (snd p)"

definition edgePath :: "(real \<Rightarrow> string) \<Rightarrow> Point \<times> Point \<Rightarrow> string" where
  "edgePath numStr ends =
     (let (a, b) = ends; dx = fst b - fst a; dy = snd b - snd a; k = 35 / 100;
          horizontal = (\<bar>dy\<bar> \<le> \<bar>dx\<bar>);
          c1 = (if horizontal then (fst a + dx * k, snd a) else (fst a, snd a + dy * k));
          c2 = (if horizontal then (fst b - dx * k, snd b) else (fst b, snd b - dy * k))
      in ''M'' @ pointText numStr a @ '' C'' @ pointText numStr c1 @ '' '' @ pointText numStr c2 @ '' '' @ pointText numStr b)"

text \<open>\<open>Math.atan2(y, x)\<close> is the argument of \<open>x + iy\<close>.\<close>

definition arrowHead :: "(real \<Rightarrow> string) \<Rightarrow> Point \<Rightarrow> Point \<Rightarrow> real \<Rightarrow> string" where
  "arrowHead numStr a b headSize =
     (let angle = Arg (Complex (fst b - fst a) (snd b - snd a));
          left = (fst b - headSize * cos (angle - 45 / 100), snd b - headSize * sin (angle - 45 / 100));
          right = (fst b - headSize * cos (angle + 45 / 100), snd b - headSize * sin (angle + 45 / 100))
      in ''M'' @ pointText numStr left @ '' L'' @ pointText numStr b @ '' L'' @ pointText numStr right)"

definition belowContent :: "CanvasDoc \<Rightarrow> Point" where
  "belowContent doc = (case bounds (docNodes doc) of
     Some box \<Rightarrow> (rectX box + 160, rectY box + rectH box + 200) | None \<Rightarrow> (0, 0))"

section \<open>Loading a document\<close>

text \<open>
  The stored value is untyped: the arrays may be missing, and entries may be null, nodes may lack a
  textual id, edges may lack an end. What survives the filters is typed.
\<close>

datatype RawNode = RawNode CanvasNode | BadNode

datatype RawEdge = RawEdge string "string option" "string option" "string option" string | BadEdge

definition EMPTY_DOC :: CanvasDoc where "EMPTY_DOC = \<lparr>docNodes = [], docEdges = []\<rparr>"

fun keptNode :: "RawNode \<Rightarrow> CanvasNode list" where
  "keptNode (RawNode n) = [n]"
| "keptNode BadNode = []"

fun keptEdge :: "string set \<Rightarrow> RawEdge \<Rightarrow> CanvasEdge list" where
  "keptEdge ids (RawEdge i (Some a) (Some b) l c) =
     (if a \<in> ids \<and> b \<in> ids
      then [\<lparr>edgeId = i, edgeFrom = a, edgeTo = b, edgeLabel = l, edgeColor = c\<rparr>] else [])"
| "keptEdge ids _ = []"

definition normalizeDoc :: "RawNode list option \<Rightarrow> RawEdge list option \<Rightarrow> CanvasDoc" where
  "normalizeDoc rawNodes rawEdges =
     (let nodes = concat (map keptNode (case rawNodes of Some ns \<Rightarrow> ns | None \<Rightarrow> []));
          ids = set (map nodeId nodes)
      in \<lparr>docNodes = nodes, docEdges = concat (map (keptEdge ids) (case rawEdges of Some es \<Rightarrow> es | None \<Rightarrow> []))\<rparr>)"

section \<open>The viewport\<close>

definition MIN_ZOOM :: real where "MIN_ZOOM = 1 / 10"
definition MAX_ZOOM :: real where "MAX_ZOOM = 4"
definition SNAP_PX :: real where "SNAP_PX = 6"

definition toWorld :: "Viewport \<Rightarrow> real \<Rightarrow> real \<Rightarrow> Point" where
  "toWorld view x y = ((x - viewX view) / viewZoom view, (y - viewY view) / viewZoom view)"

definition zoomAt :: "Viewport \<Rightarrow> real \<Rightarrow> real \<Rightarrow> real \<Rightarrow> Viewport" where
  "zoomAt view factor x y =
     (let zoom = min MAX_ZOOM (max MIN_ZOOM (viewZoom view * factor)); (wx, wy) = toWorld view x y
      in \<lparr>viewX = x - wx * zoom, viewY = y - wy * zoom, viewZoom = zoom\<rparr>)"

definition fitView :: "Rect option \<Rightarrow> real \<Rightarrow> real \<Rightarrow> real \<Rightarrow> Viewport" where
  "fitView rect width height margin =
     (case rect of
        None \<Rightarrow> \<lparr>viewX = width / 2, viewY = height / 2, viewZoom = 1\<rparr>
      | Some r \<Rightarrow>
          if rectW r \<le> 0 \<or> rectH r \<le> 0 then \<lparr>viewX = width / 2, viewY = height / 2, viewZoom = 1\<rparr>
          else let zoom = min (3 / 2) (max MIN_ZOOM (min ((width - margin * 2) / rectW r) ((height - margin * 2) / rectH r)))
               in \<lparr>viewX = width / 2 - fst (centre r) * zoom, viewY = height / 2 - snd (centre r) * zoom, viewZoom = zoom\<rparr>)"

section \<open>Snapping\<close>

datatype GuideAxis = AxisX | AxisY

record Guide =
  guideAxis :: GuideAxis
  guideAt :: real
  guideFrom :: real
  guideTo :: real

record Snap =
  snapDx :: real
  snapDy :: real
  snapGuides :: "Guide list"

definition linesX :: "'a Rect_scheme \<Rightarrow> real list" where
  "linesX r = [rectX r, rectX r + rectW r / 2, rectX r + rectW r]"

definition linesY :: "'a Rect_scheme \<Rightarrow> real list" where
  "linesY r = [rectY r, rectY r + rectH r / 2, rectY r + rectH r]"

text \<open>The pairs of the three loops of \<open>best\<close>: the distance to a line, and the line.\<close>

definition snapCandidates :: "real list \<Rightarrow> real list list \<Rightarrow> (real \<times> real) list" where
  "snapCandidates mine theirs = concat (map (\<lambda>ls. concat (map (\<lambda>line. map (\<lambda>own. (line - own, line)) mine) ls)) theirs)"

definition betterSnap :: "real \<Rightarrow> (real \<times> real) option \<Rightarrow> real \<times> real \<Rightarrow> (real \<times> real) option" where
  "betterSnap threshold found c =
     (if \<bar>fst c\<bar> \<le> threshold \<and> (case found of None \<Rightarrow> True | Some f \<Rightarrow> \<bar>fst c\<bar> < \<bar>fst f\<bar>) then Some c else found)"

definition bestSnap :: "real \<Rightarrow> real list \<Rightarrow> real list list \<Rightarrow> (real \<times> real) option" where
  "bestSnap threshold mine theirs = foldl (betterSnap threshold) None (snapCandidates mine theirs)"

definition alignedWith :: "('a Rect_scheme \<Rightarrow> real list) \<Rightarrow> real \<Rightarrow> 'a Rect_scheme list \<Rightarrow> 'a Rect_scheme list" where
  "alignedWith lines at' others = filter (\<lambda>r. list_ex (\<lambda>l. \<bar>l - at'\<bar> < 1 / 2) (lines r)) others"

definition snapGuide ::
  "GuideAxis \<Rightarrow> (real \<times> real) option \<Rightarrow> Rect \<Rightarrow> (Rect \<Rightarrow> real list) \<Rightarrow> Rect list \<Rightarrow> Guide list" where
  "snapGuide ax found placed lines others =
     (case found of
        None \<Rightarrow> []
      | Some (_, at') \<Rightarrow>
          (case bounds (placed # alignedWith lines at' others) of
             None \<Rightarrow> []
           | Some extent \<Rightarrow>
               [if ax = AxisX
                then \<lparr>guideAxis = AxisX, guideAt = at', guideFrom = rectY extent, guideTo = rectY extent + rectH extent\<rparr>
                else \<lparr>guideAxis = AxisY, guideAt = at', guideFrom = rectX extent, guideTo = rectX extent + rectW extent\<rparr>]))"

definition snapRect :: "Rect \<Rightarrow> Rect list \<Rightarrow> real \<Rightarrow> Snap" where
  "snapRect moving others threshold =
     (let sx = bestSnap threshold (linesX moving) (map linesX others);
          sy = bestSnap threshold (linesY moving) (map linesY others);
          dx = (case sx of Some (d, _) \<Rightarrow> d | None \<Rightarrow> 0);
          dy = (case sy of Some (d, _) \<Rightarrow> d | None \<Rightarrow> 0);
          placed = moving\<lparr>rectX := rectX moving + dx, rectY := rectY moving + dy\<rparr>
      in \<lparr>snapDx = dx, snapDy = dy,
          snapGuides = snapGuide AxisX sx placed linesX others @ snapGuide AxisY sy placed linesY others\<rparr>)"

section \<open>Editing\<close>

text \<open>Sets of identifiers are the source's \<open>Set<string>\<close>. A group counts when it is a non-empty text.\<close>

definition nodeOf :: "CanvasNode \<Rightarrow> Rect" where
  "nodeOf n = \<lparr>rectX = rectX n, rectY = rectY n, rectW = rectW n, rectH = rectH n\<rparr>"

definition picked :: "string set \<Rightarrow> CanvasDoc \<Rightarrow> CanvasNode list" where
  "picked ids doc = filter (\<lambda>n. nodeId n \<in> ids) (docNodes doc)"

definition mapNodes :: "(CanvasNode \<Rightarrow> CanvasNode) \<Rightarrow> CanvasDoc \<Rightarrow> CanvasDoc" where
  "mapNodes f doc = doc\<lparr>docNodes := map f (docNodes doc)\<rparr>"

definition groupOf :: "CanvasNode \<Rightarrow> string option" where
  "groupOf n = asText (nodeGroup n)"

definition withGroups :: "CanvasDoc \<Rightarrow> string set \<Rightarrow> string set" where
  "withGroups doc ids =
     (let groups = set (map groupOf (filter (\<lambda>n. groupOf n \<noteq> None) (picked ids doc)))
      in ids \<union> set (map nodeId (filter (\<lambda>n. groupOf n \<noteq> None \<and> groupOf n \<in> groups) (docNodes doc))))"

definition moveNodes :: "CanvasDoc \<Rightarrow> string set \<Rightarrow> real \<Rightarrow> real \<Rightarrow> CanvasDoc" where
  "moveNodes doc ids dx dy =
     mapNodes (\<lambda>n. if nodeId n \<in> ids then n\<lparr>rectX := rectX n + dx, rectY := rectY n + dy\<rparr> else n) doc"

text \<open>
  A patch of \<open>updateNode\<close> gives the fields to overwrite. The editor patches the size, the text of
  text and shape nodes and the face of item nodes; a field the variant does not have is not read again.
\<close>

record NodePatch =
  patchX :: "real option"
  patchY :: "real option"
  patchW :: "real option"
  patchH :: "real option"
  patchText :: "string option"
  patchColor :: "string option"
  patchFace :: "string option"

definition orElse :: "'a \<Rightarrow> 'a option \<Rightarrow> 'a" where
  "orElse old new = (case new of Some v \<Rightarrow> v | None \<Rightarrow> old)"

fun patchBody :: "NodePatch \<Rightarrow> NodeBody \<Rightarrow> NodeBody" where
  "patchBody p (ItemBody link title detail color face) =
     ItemBody link title detail (orElse color (map_option Some (patchColor p))) (orElse face (map_option Some (patchFace p)))"
| "patchBody p (TextBody t color) = TextBody (orElse t (patchText p)) (orElse color (patchColor p))"
| "patchBody p (ShapeBody shape t color) = ShapeBody shape (orElse t (patchText p)) (orElse color (patchColor p))"
| "patchBody p (InkBody points color width vw vh) = InkBody points (orElse color (patchColor p)) width vw vh"

definition patchNode :: "NodePatch \<Rightarrow> CanvasNode \<Rightarrow> CanvasNode" where
  "patchNode p n = n\<lparr>rectX := orElse (rectX n) (patchX p), rectY := orElse (rectY n) (patchY p),
     rectW := orElse (rectW n) (patchW p), rectH := orElse (rectH n) (patchH p), nodeBody := patchBody p (nodeBody n)\<rparr>"

definition updateNode :: "CanvasDoc \<Rightarrow> string \<Rightarrow> NodePatch \<Rightarrow> CanvasDoc" where
  "updateNode doc i p = mapNodes (\<lambda>n. if nodeId n = i then patchNode p n else n) doc"

definition removeAll :: "CanvasDoc \<Rightarrow> string set \<Rightarrow> CanvasDoc" where
  "removeAll doc ids =
     doc\<lparr>docNodes := filter (\<lambda>n. nodeId n \<notin> ids) (docNodes doc),
         docEdges := filter (\<lambda>e. edgeId e \<notin> ids \<and> edgeFrom e \<notin> ids \<and> edgeTo e \<notin> ids) (docEdges doc)\<rparr>"

definition groupNodes :: "string \<Rightarrow> CanvasDoc \<Rightarrow> string set \<Rightarrow> CanvasDoc" where
  "groupNodes newId doc ids =
     (if card ids < 2 then doc else mapNodes (\<lambda>n. if nodeId n \<in> ids then n\<lparr>nodeGroup := Some newId\<rparr> else n) doc)"

definition ungroup :: "CanvasDoc \<Rightarrow> string set \<Rightarrow> CanvasDoc" where
  "ungroup doc ids =
     mapNodes (\<lambda>n. if nodeId n \<in> ids \<and> groupOf n \<noteq> None then n\<lparr>nodeGroup := None\<rparr> else n) doc"

text \<open>
  The loop of \<open>duplicate\<close> over the chosen nodes: the number of identifiers made so far, the map
  from groups to their copies and the map from nodes to their copies (newest entries first).
\<close>

type_synonym Renaming = "(string \<times> string) list"

fun copyNodes ::
  "(nat \<Rightarrow> string) \<Rightarrow> real \<Rightarrow> nat \<Rightarrow> Renaming \<Rightarrow> Renaming \<Rightarrow> CanvasNode list \<Rightarrow> CanvasNode list \<times> nat \<times> Renaming" where
  "copyNodes fresh offset k copied groups [] = ([], k, copied)"
| "copyNodes fresh offset k copied groups (n # ns) =
     (let i = fresh k;
          (grouped, k', groups') =
            (case groupOf n of
               None \<Rightarrow> (None, Suc k, groups)
             | Some g \<Rightarrow>
                 (case map_of groups g of
                    Some g' \<Rightarrow> (Some g', Suc k, groups)
                  | None \<Rightarrow> (Some (fresh (Suc k)), Suc (Suc k), (g, fresh (Suc k)) # groups)));
          node = n\<lparr>nodeId := i, rectX := rectX n + offset, rectY := rectY n + offset, nodeGroup := grouped\<rparr>;
          (nodes, last', copied') = copyNodes fresh offset k' ((nodeId n, i) # copied) groups' ns
      in (node # nodes, last', copied'))"

fun copyEdges :: "(nat \<Rightarrow> string) \<Rightarrow> nat \<Rightarrow> Renaming \<Rightarrow> CanvasEdge list \<Rightarrow> CanvasEdge list" where
  "copyEdges fresh k copied [] = []"
| "copyEdges fresh k copied (e # es) =
     (case (map_of copied (edgeFrom e), map_of copied (edgeTo e)) of
        (Some a, Some b) \<Rightarrow> e\<lparr>edgeId := fresh k, edgeFrom := a, edgeTo := b\<rparr> # copyEdges fresh (Suc k) copied es
      | _ \<Rightarrow> copyEdges fresh k copied es)"

definition duplicate :: "(nat \<Rightarrow> string) \<Rightarrow> CanvasDoc \<Rightarrow> string set \<Rightarrow> real \<Rightarrow> CanvasDoc \<times> string set" where
  "duplicate fresh doc ids offset =
     (let (copies, k, copied) = copyNodes fresh offset 0 [] [] (picked ids doc)
      in (doc\<lparr>docNodes := docNodes doc @ copies, docEdges := docEdges doc @ copyEdges fresh k copied (docEdges doc)\<rparr>,
          ran (map_of copied)))"

section \<open>Frames, alignment and layout\<close>

fun isFrameBody :: "NodeBody \<Rightarrow> bool" where
  "isFrameBody (ShapeBody shape _ _) = (shape = ''frame'')"
| "isFrameBody _ = False"

definition isFrame :: "CanvasNode \<Rightarrow> bool" where
  "isFrame n = isFrameBody (nodeBody n)"

definition inside :: "'a Rect_scheme \<Rightarrow> 'b Rect_scheme \<Rightarrow> bool" where
  "inside inner outer \<longleftrightarrow> rectX outer \<le> rectX inner \<and> rectY outer \<le> rectY inner
     \<and> rectX inner + rectW inner \<le> rectX outer + rectW outer \<and> rectY inner + rectH inner \<le> rectY outer + rectH outer"

definition withFrameContents :: "CanvasDoc \<Rightarrow> string set \<Rightarrow> string set" where
  "withFrameContents doc ids =
     foldl (\<lambda>out frame. out \<union> set (map nodeId (filter (\<lambda>n. nodeId n \<noteq> nodeId frame \<and> inside n frame) (docNodes doc))))
       ids (filter isFrame (picked ids doc))"

definition drawOrder :: "CanvasNode list \<Rightarrow> CanvasNode list" where
  "drawOrder nodes = filter isFrame nodes @ filter (\<lambda>n. \<not> isFrame n) nodes"

definition frameAround :: "string \<Rightarrow> CanvasDoc \<Rightarrow> string set \<Rightarrow> string \<Rightarrow> string \<Rightarrow> (CanvasDoc \<times> string) option" where
  "frameAround newId doc ids title color =
     (case bounds (picked ids doc) of
        None \<Rightarrow> None
      | Some box \<Rightarrow>
          let pad = 32;
              frame = \<lparr>rectX = rectX box - pad, rectY = rectY box - pad - 28, rectW = rectW box + 2 * pad,
                rectH = rectH box + 2 * pad + 28, nodeId = newId, nodeGroup = None, nodeBody = ShapeBody ''frame'' title color\<rparr>
          in Some (doc\<lparr>docNodes := frame # docNodes doc\<rparr>, newId))"

datatype Alignment = AlignLeft | AlignCentre | AlignRight | AlignTop | AlignMiddle | AlignBottom

fun alignNode :: "Rect \<Rightarrow> Alignment \<Rightarrow> CanvasNode \<Rightarrow> CanvasNode" where
  "alignNode box AlignLeft n = n\<lparr>rectX := rectX box\<rparr>"
| "alignNode box AlignRight n = n\<lparr>rectX := rectX box + rectW box - rectW n\<rparr>"
| "alignNode box AlignCentre n = n\<lparr>rectX := of_int (mathRound (rectX box + rectW box / 2 - rectW n / 2))\<rparr>"
| "alignNode box AlignTop n = n\<lparr>rectY := rectY box\<rparr>"
| "alignNode box AlignBottom n = n\<lparr>rectY := rectY box + rectH box - rectH n\<rparr>"
| "alignNode box AlignMiddle n = n\<lparr>rectY := of_int (mathRound (rectY box + rectH box / 2 - rectH n / 2))\<rparr>"

definition alignNodes :: "CanvasDoc \<Rightarrow> string set \<Rightarrow> Alignment \<Rightarrow> CanvasDoc" where
  "alignNodes doc ids how =
     (case bounds (picked ids doc) of
        None \<Rightarrow> doc
      | Some box \<Rightarrow> mapNodes (\<lambda>n. if nodeId n \<in> ids then alignNode box how n else n) doc)"

text \<open>\<open>(a, b) => a.y - b.y || a.x - b.x\<close>\<close>

definition readingOrder :: "CanvasNode \<Rightarrow> CanvasNode \<Rightarrow> real" where
  "readingOrder a b = (if rectY a - rectY b \<noteq> 0 then rectY a - rectY b else rectX a - rectX b)"

definition tidyColumns :: "nat \<Rightarrow> nat" where
  "tidyColumns n = nat (max 1 (mathRound (sqrt (real n * (14 / 10)))))"

text \<open>The row loop: what is left of \<open>chosen\<close>, and \<open>y\<close>. It gives the calls of \<open>placed.set\<close> in order.\<close>

function tidyRows :: "nat \<Rightarrow> real \<Rightarrow> real \<Rightarrow> real \<Rightarrow> real \<Rightarrow> CanvasNode list \<Rightarrow> (string \<times> Point) list" where
  "tidyRows columns width gap x0 y0 ns =
     (if columns = 0 \<or> ns = [] then []
      else let cells = take columns ns
           in map (\<lambda>(i, n). (nodeId n, (x0 + real i * (width + gap), y0))) (enumerate 0 cells)
              @ tidyRows columns width gap x0 (y0 + (Max (set (map rectH cells)) + gap)) (drop columns ns))"
  by pat_completeness auto
termination
  by (relation "measure (\<lambda>(_, _, _, _, _, ns). length ns)") auto

declare tidyRows.simps [simp del]

definition moveTo :: "(string \<rightharpoonup> Point) \<Rightarrow> CanvasNode \<Rightarrow> CanvasNode" where
  "moveTo placed n = (case placed (nodeId n) of Some p \<Rightarrow> n\<lparr>rectX := fst p, rectY := snd p\<rparr> | None \<Rightarrow> n)"

definition tidyNodes :: "CanvasDoc \<Rightarrow> string set \<Rightarrow> real \<Rightarrow> CanvasDoc" where
  "tidyNodes doc ids gap =
     (let chosen = sortBy readingOrder (filter (\<lambda>n. \<not> isFrame n) (picked ids doc)) in
      case bounds chosen of
        None \<Rightarrow> doc
      | Some box \<Rightarrow>
          if length chosen < 2 then doc
          else mapNodes (moveTo (map_of (rev (tidyRows (tidyColumns (length chosen)) (Max (set (map rectW chosen))) gap
                 (rectX box) (rectY box) chosen)))) doc)"

text \<open>The sizes' \<open>w\<close> and \<open>h\<close>; the running \<open>y\<close>.\<close>

fun unfoldFrom :: "Rect \<Rightarrow> bool \<Rightarrow> real \<Rightarrow> real \<Rightarrow> (real \<times> real) list \<Rightarrow> Point list" where
  "unfoldFrom source right gap y [] = []"
| "unfoldFrom source right gap y (s # ss) =
     ((if right then rectX source + rectW source + gap * 4 else rectX source - gap * 4 - fst s), of_int (mathRound y))
       # unfoldFrom source right gap (y + (snd s + gap)) ss"

definition unfoldPositions :: "Rect \<Rightarrow> (real \<times> real) list \<Rightarrow> bool \<Rightarrow> real \<Rightarrow> Point list" where
  "unfoldPositions source sizes right gap =
     (let total = sum_list (map snd sizes) + gap * real (length sizes - 1)
      in unfoldFrom source right gap (rectY source + rectH source / 2 - total / 2) sizes)"

definition inkNode :: "string \<Rightarrow> Point list \<Rightarrow> string \<Rightarrow> real \<Rightarrow> CanvasNode option" where
  "inkNode newId points color width =
     (if length points < 2 then None
      else case bounds (map (\<lambda>p. \<lparr>rectX = fst p, rectY = snd p, rectW = 0, rectH = 0\<rparr>) points) of
             None \<Rightarrow> None
           | Some box \<Rightarrow>
               let pad = width; w = max (rectW box + pad * 2) 1; h = max (rectH box + pad * 2) 1
               in Some \<lparr>rectX = rectX box - pad, rectY = rectY box - pad, rectW = w, rectH = h,
                    nodeId = newId, nodeGroup = None,
                    nodeBody = InkBody
                      (map (\<lambda>p. (of_int (mathRound ((fst p - rectX box + pad) * 10)) / 10,
                                 of_int (mathRound ((snd p - rectY box + pad) * 10)) / 10)) points)
                      color width w h\<rparr>)"

definition inkPath :: "(real \<Rightarrow> string) \<Rightarrow> Point list \<Rightarrow> string" where
  "inkPath numStr points =
     join '' '' (map (\<lambda>(i, p). (if i = 0 then ''M'' else ''L'') @ pointText numStr p) (enumerate 0 points))"

section \<open>History\<close>

text \<open>The newest entry of both stacks is the last one, as in the source's arrays.\<close>

record History =
  past :: "CanvasDoc list"
  future :: "CanvasDoc list"
  limit :: nat

definition newHistory :: "nat \<Rightarrow> History" where
  "newHistory n = \<lparr>past = [], future = [], limit = n\<rparr>"

definition pushHistory :: "CanvasDoc \<Rightarrow> History \<Rightarrow> History" where
  "pushHistory b h =
     (let grown = past h @ [b]
      in h\<lparr>past := (if limit h < length grown then tl grown else grown), future := []\<rparr>)"

definition undoHistory :: "CanvasDoc \<Rightarrow> History \<Rightarrow> (CanvasDoc \<times> History) option" where
  "undoHistory current h =
     (if past h = [] then None
      else Some (last (past h), h\<lparr>past := butlast (past h), future := future h @ [current]\<rparr>))"

definition redoHistory :: "CanvasDoc \<Rightarrow> History \<Rightarrow> (CanvasDoc \<times> History) option" where
  "redoHistory current h =
     (if future h = [] then None
      else Some (last (future h), h\<lparr>future := butlast (future h), past := past h @ [current]\<rparr>))"

definition canUndoHistory :: "History \<Rightarrow> bool" where "canUndoHistory h \<longleftrightarrow> 0 < length (past h)"
definition canRedoHistory :: "History \<Rightarrow> bool" where "canRedoHistory h \<longleftrightarrow> 0 < length (future h)"

end
