(* ===== verification/CanvasEdit.thy ===== *)
theory CanvasEdit
  imports CanvasModel
begin

text \<open>
  The editing operations of the canvas keep its document well formed: node and connector
  identifiers are distinct, and both ends of a connector are nodes of the document. The operations
  are the commands of a machine, an instance of \<open>invariant_machine\<close>; a command is enabled when the
  identifiers it draws are new. Also: what a group selection is, and what a copy is.
\<close>

section \<open>Well-formed documents\<close>

definition nodeIds :: "CanvasDoc \<Rightarrow> string list" where
  "nodeIds doc = map nodeId (docNodes doc)"

definition edgeIds :: "CanvasDoc \<Rightarrow> string list" where
  "edgeIds doc = map edgeId (docEdges doc)"

definition edgesClosed :: "CanvasDoc \<Rightarrow> bool" where
  "edgesClosed doc \<longleftrightarrow> (\<forall>e \<in> set (docEdges doc). edgeFrom e \<in> set (nodeIds doc) \<and> edgeTo e \<in> set (nodeIds doc))"

definition docOk :: "CanvasDoc \<Rightarrow> bool" where
  "docOk doc \<longleftrightarrow> distinct (nodeIds doc) \<and> distinct (edgeIds doc) \<and> edgesClosed doc"

lemma set_nodeIds: "set (nodeIds doc) = nodeId ` set (docNodes doc)"
  by (simp add: nodeIds_def)

lemma mapNodes_simps [simp]:
  "docNodes (mapNodes f doc) = map f (docNodes doc)" "docEdges (mapNodes f doc) = docEdges doc"
  by (simp_all add: mapNodes_def)

lemma docOk_mapNodes:
  assumes "\<And>n. nodeId (f n) = nodeId n" and "docOk doc"
  shows "docOk (mapNodes f doc)"
proof -
  have "nodeIds (mapNodes f doc) = nodeIds doc"
    by (simp add: nodeIds_def assms(1) comp_def)
  then show ?thesis using assms(2) by (simp add: docOk_def edgesClosed_def edgeIds_def)
qed

lemma nodeId_patchNode [simp]: "nodeId (patchNode p n) = nodeId n"
  by (simp add: patchNode_def)

lemma nodeId_alignNode [simp]: "nodeId (alignNode box how n) = nodeId n"
  by (cases how) simp_all

lemma nodeId_moveTo [simp]: "nodeId (moveTo placed n) = nodeId n"
  by (simp add: moveTo_def split: option.splits)

lemma keptEdge_ends:
  "e \<in> set (keptEdge ids raw) \<Longrightarrow> edgeFrom e \<in> ids \<and> edgeTo e \<in> ids"
  by (induction ids raw rule: keptEdge.induct) (auto split: if_splits)

lemma normalizeDoc_closed: "edgesClosed (normalizeDoc ns es)"
  by (auto simp: normalizeDoc_def Let_def edgesClosed_def nodeIds_def dest: keptEdge_ends)

section \<open>Removing\<close>

lemma docOk_removeAll: "docOk doc \<Longrightarrow> docOk (removeAll doc ids)"
  by (auto simp: docOk_def removeAll_def nodeIds_def edgeIds_def edgesClosed_def
      intro: distinct_map_filter)

lemma removeAll_gone: "ids \<inter> set (nodeIds (removeAll doc ids)) = {}"
  by (auto simp: removeAll_def nodeIds_def)

section \<open>Copying\<close>

text \<open>What the loop over the copied nodes has done when it ends.\<close>

definition copyDone ::
  "(nat \<Rightarrow> string) \<Rightarrow> nat \<Rightarrow> Renaming \<Rightarrow> CanvasNode list \<Rightarrow> CanvasNode list \<times> nat \<times> Renaming \<Rightarrow> bool" where
  "copyDone fresh k copied ns result \<longleftrightarrow>
     (case result of (copies, k', copied') \<Rightarrow>
        k \<le> k' \<and> distinct (map nodeId copies) \<and> nodeId ` set copies \<subseteq> fresh ` {k..<k'}
        \<and> dom (map_of copied') = dom (map_of copied) \<union> nodeId ` set ns
        \<and> ran (map_of copied') \<subseteq> ran (map_of copied) \<union> nodeId ` set copies)"

lemma copyDone_Cons:
  assumes fin: "copyDone fresh j ((nodeId n, fresh k) # copied) ns (rest, k', copied')"
    and inj: "inj fresh" and j: "k < j" and node: "nodeId node = fresh k"
  shows "copyDone fresh k copied (n # ns) (node # rest, k', copied')"
proof -
  have new: "nodeId ` set rest \<subseteq> fresh ` {j..<k'}" and jk: "j \<le> k'"
    using fin by (simp_all add: copyDone_def)
  have "fresh k \<notin> fresh ` {j..<k'}" using j injD [OF inj] by fastforce
  then have "distinct (map nodeId (node # rest))" using new fin by (auto simp: copyDone_def node)
  moreover have "nodeId ` set (node # rest) \<subseteq> fresh ` {k..<k'}"
  proof -
    have "fresh ` {j..<k'} \<subseteq> fresh ` {k..<k'}" using j by (intro image_mono) auto
    moreover have "fresh k \<in> fresh ` {k..<k'}" using j jk by (intro imageI) auto
    ultimately show ?thesis using new by (simp add: node)
  qed
  moreover have "ran (map_of ((nodeId n, fresh k) # copied)) \<subseteq> insert (fresh k) (ran (map_of copied))"
    by (auto simp: ran_def)
  ultimately show ?thesis using fin j jk by (auto simp: copyDone_def node)
qed

lemma copyNodes_done:
  "inj fresh \<Longrightarrow> copyDone fresh k copied ns (copyNodes fresh offset k copied groups ns)"
proof (induction fresh offset k copied groups ns rule: copyNodes.induct)
  case (1 fresh offset k copied groups)
  then show ?case by (simp add: copyDone_def)
next
  case (2 fresh offset k copied groups n ns)
  show ?case
  proof (cases "groupOf n")
    case None
    obtain rest k' copied' where rest: "copyNodes fresh offset (Suc k) ((nodeId n, fresh k) # copied) groups ns = (rest, k', copied')"
      by (metis prod_cases3)
    show ?thesis using 2 None rest by (auto simp: Let_def intro!: copyDone_Cons)
  next
    case (Some g)
    show ?thesis
    proof (cases "map_of groups g")
      case None
      obtain rest k' copied' where
        rest: "copyNodes fresh offset (Suc (Suc k)) ((nodeId n, fresh k) # copied) ((g, fresh (Suc k)) # groups) ns = (rest, k', copied')"
        by (metis prod_cases3)
      show ?thesis using 2 Some None rest by (auto simp: Let_def intro!: copyDone_Cons [where j = "Suc (Suc k)"])
    next
      case s': (Some g')
      obtain rest k' copied' where rest: "copyNodes fresh offset (Suc k) ((nodeId n, fresh k) # copied) groups ns = (rest, k', copied')"
        by (metis prod_cases3)
      show ?thesis using 2 Some s' rest by (auto simp: Let_def intro!: copyDone_Cons)
    qed
  qed
qed

lemma copyEdges_new: "edgeId ` set (copyEdges fresh k copied es) \<subseteq> fresh ` {k..}"
proof (induction fresh k copied es rule: copyEdges.induct)
  case (2 fresh k copied e es)
  have "fresh ` {Suc k..} \<subseteq> fresh ` {k..}" by (intro image_mono) auto
  with 2 show ?case by (fastforce split: option.splits)
qed simp

lemma copyEdges_distinct: "inj fresh \<Longrightarrow> distinct (map edgeId (copyEdges fresh k copied es))"
proof (induction fresh k copied es rule: copyEdges.induct)
  case (2 fresh k copied e es)
  have "fresh k \<notin> edgeId ` set (copyEdges fresh (Suc k) copied es)"
  proof
    assume "fresh k \<in> edgeId ` set (copyEdges fresh (Suc k) copied es)"
    then obtain l where "Suc k \<le> l" and "fresh k = fresh l"
      using copyEdges_new [of fresh "Suc k" copied es] by auto
    with injD [OF 2(4)] show False by force
  qed
  with 2 show ?case by (auto split: option.splits)
qed simp

lemma copyEdges_ends:
  "e \<in> set (copyEdges fresh k copied es) \<Longrightarrow> edgeFrom e \<in> ran (map_of copied) \<and> edgeTo e \<in> ran (map_of copied)"
  by (induction fresh k copied es rule: copyEdges.induct) (auto split: option.splits intro: ranI)

definition newFor :: "(nat \<Rightarrow> string) \<Rightarrow> CanvasDoc \<Rightarrow> bool" where
  "newFor fresh doc \<longleftrightarrow> inj fresh \<and> range fresh \<inter> (set (nodeIds doc) \<union> set (edgeIds doc)) = {}"

lemma docOk_duplicate:
  assumes ok: "docOk doc" and new: "newFor fresh doc"
  shows "docOk (fst (duplicate fresh doc ids offset))"
proof -
  obtain copies k copied where run: "copyNodes fresh offset 0 [] [] (picked ids doc) = (copies, k, copied)"
    by (metis prod_cases3)
  have inj: "inj fresh" and off: "range fresh \<inter> set (nodeIds doc) = {}" "range fresh \<inter> set (edgeIds doc) = {}"
    using new by (auto simp: newFor_def)
  have d: "copyDone fresh 0 [] (picked ids doc) (copies, k, copied)"
    using copyNodes_done [OF inj, of 0 "[]" "picked ids doc" offset "[]"] run by simp
  then have nodes: "nodeId ` set copies \<subseteq> range fresh" "distinct (map nodeId copies)"
      and ends: "ran (map_of copied) \<subseteq> nodeId ` set copies"
    by (auto simp: copyDone_def)
  have "edgeId ` set (copyEdges fresh k copied (docEdges doc)) \<subseteq> range fresh"
    using copyEdges_new [of fresh k copied "docEdges doc"] by blast
  then have "distinct (edgeIds (fst (duplicate fresh doc ids offset)))"
    using ok off(2) copyEdges_distinct [OF inj]
    by (auto simp: duplicate_def run docOk_def edgeIds_def)
  moreover have "distinct (nodeIds (fst (duplicate fresh doc ids offset)))"
  proof -
    have "set (nodeIds doc) \<inter> set (map nodeId copies) = {}" using off(1) nodes(1) by auto
    then show ?thesis using ok nodes(2) by (simp add: duplicate_def run docOk_def nodeIds_def)
  qed
  moreover have "edgesClosed (fst (duplicate fresh doc ids offset))"
    using ok ends by (fastforce simp: duplicate_def run docOk_def edgesClosed_def nodeIds_def dest!: copyEdges_ends)
  ultimately show ?thesis by (simp add: docOk_def)
qed

section \<open>The machine\<close>

datatype CanvasCommand =
  MoveNodes "string set" real real
| UpdateNode string NodePatch
| RemoveAll "string set"
| GroupNodes string "string set"
| Ungroup "string set"
| Duplicate "nat \<Rightarrow> string" "string set" real
| FrameAround string "string set" string string
| AlignNodes "string set" Alignment
| TidyNodes "string set" real

fun canvasStep :: "CanvasDoc \<Rightarrow> CanvasCommand \<Rightarrow> CanvasDoc" where
  "canvasStep doc (MoveNodes ids dx dy) = moveNodes doc ids dx dy"
| "canvasStep doc (UpdateNode i p) = updateNode doc i p"
| "canvasStep doc (RemoveAll ids) = removeAll doc ids"
| "canvasStep doc (GroupNodes g ids) = groupNodes g doc ids"
| "canvasStep doc (Ungroup ids) = ungroup doc ids"
| "canvasStep doc (Duplicate fresh ids offset) = fst (duplicate fresh doc ids offset)"
| "canvasStep doc (FrameAround i ids title color) =
     (case frameAround i doc ids title color of None \<Rightarrow> doc | Some (doc', _) \<Rightarrow> doc')"
| "canvasStep doc (AlignNodes ids how) = alignNodes doc ids how"
| "canvasStep doc (TidyNodes ids gap) = tidyNodes doc ids gap"

fun canvasEnabled :: "CanvasDoc \<Rightarrow> CanvasCommand \<Rightarrow> bool" where
  "canvasEnabled doc (Duplicate fresh ids offset) = newFor fresh doc"
| "canvasEnabled doc (FrameAround i ids title color) = (i \<notin> set (nodeIds doc))"
| "canvasEnabled doc _ = True"

lemma docOk_frameAround:
  "docOk doc \<Longrightarrow> i \<notin> set (nodeIds doc) \<Longrightarrow> frameAround i doc ids title color = Some (doc', j) \<Longrightarrow> docOk doc'"
  by (auto simp: frameAround_def Let_def docOk_def nodeIds_def edgeIds_def edgesClosed_def split: option.splits)

lemma canvasStep_ok: "docOk doc \<Longrightarrow> canvasEnabled doc c \<Longrightarrow> docOk (canvasStep doc c)"
proof (cases c)
  case (FrameAround i ids title color)
  assume "docOk doc" and "canvasEnabled doc c"
  then show ?thesis using docOk_frameAround [of doc i ids title color]
    by (cases "frameAround i doc ids title color") (auto simp: FrameAround)
qed (auto simp: moveNodes_def updateNode_def groupNodes_def ungroup_def alignNodes_def tidyNodes_def Let_def
    intro!: docOk_mapNodes docOk_removeAll docOk_duplicate split: option.splits)

interpretation canvas: invariant_machine canvasStep canvasEnabled docOk
  by unfold_locales (rule canvasStep_ok)

section \<open>Group selections\<close>

text \<open>Two nodes share a group when both have one and it is the same.\<close>

definition sameGroup :: "CanvasNode \<Rightarrow> CanvasNode \<Rightarrow> bool" where
  "sameGroup a b \<longleftrightarrow> groupOf a \<noteq> None \<and> groupOf a = groupOf b"

lemma withGroups_iff:
  "i \<in> withGroups doc ids \<longleftrightarrow>
     i \<in> ids \<or> (\<exists>a \<in> set (docNodes doc). \<exists>b \<in> set (docNodes doc). nodeId a \<in> ids \<and> nodeId b = i \<and> sameGroup a b)"
proof -
  have "i \<in> withGroups doc ids \<longleftrightarrow> i \<in> ids \<or>
    (\<exists>b \<in> set (docNodes doc). i = nodeId b \<and> groupOf b \<noteq> None
      \<and> (\<exists>a \<in> set (docNodes doc). (nodeId a \<in> ids \<and> groupOf a \<noteq> None) \<and> groupOf b = groupOf a))"
    by (simp only: withGroups_def picked_def Let_def set_map set_filter Un_iff image_iff mem_Collect_eq Bex_def conj_assoc)
      blast
  also have "\<dots> \<longleftrightarrow> i \<in> ids \<or> (\<exists>a \<in> set (docNodes doc). \<exists>b \<in> set (docNodes doc). nodeId a \<in> ids \<and> nodeId b = i \<and> sameGroup a b)"
    unfolding sameGroup_def by metis
  finally show ?thesis .
qed

end
