(* ===== verification/CanvasCopy.thy ===== *)
theory CanvasCopy
  imports CanvasEdit
begin

text \<open>
  A duplicated selection is an isomorphic copy: nodes and groups are renamed by injective maps to
  names that the document does not use, positions are offset, and the connectors among the chosen
  nodes come along under new identifiers.
\<close>

definition copyOf :: "real \<Rightarrow> (string \<rightharpoonup> string) \<Rightarrow> (string \<rightharpoonup> string) \<Rightarrow> CanvasNode \<Rightarrow> CanvasNode" where
  "copyOf offset M G n =
     n\<lparr>nodeId := the (M (nodeId n)), rectX := rectX n + offset, rectY := rectY n + offset,
       nodeGroup := Option.bind (groupOf n) G\<rparr>"

text \<open>What the loop knows when it starts: the groups copied so far were renamed to distinct new names.\<close>

definition groupsRenamed :: "(nat \<Rightarrow> string) \<Rightarrow> nat \<Rightarrow> Renaming \<Rightarrow> bool" where
  "groupsRenamed fresh k groups \<longleftrightarrow>
     inj_on (map_of groups) (dom (map_of groups)) \<and> ran (map_of groups) \<subseteq> fresh ` {..<k}"

text \<open>What it has done when it ends.\<close>

definition copiedBy ::
  "real \<Rightarrow> Renaming \<Rightarrow> Renaming \<Rightarrow> CanvasNode list \<Rightarrow> CanvasNode list \<times> nat \<times> Renaming \<Rightarrow> (string \<rightharpoonup> string) \<Rightarrow> bool" where
  "copiedBy offset copied groups ns result G \<longleftrightarrow>
     (case result of (copies, k', copied') \<Rightarrow>
        (\<forall>g \<in> dom (map_of groups). G g = map_of groups g) \<and> inj_on G (dom G)
        \<and> (\<forall>n \<in> set ns. \<forall>g. groupOf n = Some g \<longrightarrow> G g \<noteq> None)
        \<and> copies = map (copyOf offset (map_of copied') G) ns
        \<and> (\<forall>i. i \<notin> nodeId ` set ns \<longrightarrow> map_of copied' i = map_of copied i))"

lemma groupsRenamed_Suc: "groupsRenamed fresh k groups \<Longrightarrow> k \<le> l \<Longrightarrow> groupsRenamed fresh l groups"
  unfolding groupsRenamed_def by (meson image_mono lessThan_subset_iff order_trans)

lemma groupsRenamed_new:
  assumes "groupsRenamed fresh k groups" and "inj fresh" and "map_of groups g = None"
  shows "groupsRenamed fresh (Suc (Suc k)) ((g, fresh (Suc k)) # groups)"
proof -
  have old: "inj_on (map_of groups) (dom (map_of groups))" "ran (map_of groups) \<subseteq> fresh ` {..<k}"
    using assms(1) by (simp_all add: groupsRenamed_def)
  have new: "fresh (Suc k) \<notin> ran (map_of groups)"
    using old(2) injD [OF assms(2)] by fastforce
  have "inj_on (map_of ((g, fresh (Suc k)) # groups)) (insert g (dom (map_of groups)))"
    using old(1) new assms(3) by (auto simp: inj_on_def ran_def)
  moreover have "ran (map_of ((g, fresh (Suc k)) # groups)) \<subseteq> insert (fresh (Suc k)) (ran (map_of groups))"
    by (auto simp: ran_def)
  then have "ran (map_of ((g, fresh (Suc k)) # groups)) \<subseteq> fresh ` {..<Suc (Suc k)}"
    using old(2) by (auto simp: lessThan_Suc)
  ultimately show ?thesis by (simp add: groupsRenamed_def)
qed

lemma copiedBy_Cons:
  assumes run: "copiedBy offset ((nodeId n, i) # copied) groups' ns (rest, k', copied') G"
    and old: "\<And>g. g \<in> dom (map_of groups) \<Longrightarrow> map_of groups' g = map_of groups g"
    and grouped: "\<And>g. groupOf n = Some g \<Longrightarrow> map_of groups' g \<noteq> None"
    and new: "nodeId n \<notin> nodeId ` set ns"
    and node: "node = n\<lparr>nodeId := i, rectX := rectX n + offset, rectY := rectY n + offset,
      nodeGroup := Option.bind (groupOf n) (map_of groups')\<rparr>"
  shows "copiedBy offset copied groups (n # ns) (node # rest, k', copied') G"
proof -
  have agree: "G g = map_of groups' g" if "map_of groups' g \<noteq> None" for g
    using run that by (auto simp: copiedBy_def)
  have "Option.bind (groupOf n) G = Option.bind (groupOf n) (map_of groups')"
    using agree grouped by (cases "groupOf n") auto
  moreover have "map_of copied' (nodeId n) = Some i"
    using run new by (simp add: copiedBy_def)
  ultimately have "node = copyOf offset (map_of copied') G n" by (simp add: copyOf_def node)
  moreover have "G g = map_of groups g" if "g \<in> dom (map_of groups)" for g
    using agree [of g] old [OF that] that by (auto simp: dom_def)
  moreover have "G g \<noteq> None" if "groupOf n = Some g" for g
    using agree grouped [OF that] by simp
  ultimately show ?thesis using run by (simp add: copiedBy_def)
qed

lemma copyNodes_copies:
  "inj fresh \<Longrightarrow> distinct (map nodeId ns) \<Longrightarrow> groupsRenamed fresh k groups
    \<Longrightarrow> \<exists>G. copiedBy offset copied groups ns (copyNodes fresh offset k copied groups ns) G"
proof (induction ns arbitrary: k copied groups)
  case Nil
  then show ?case by (auto simp: copiedBy_def groupsRenamed_def)
next
  case (Cons n ns)
  have new: "nodeId n \<notin> nodeId ` set ns" and ds: "distinct (map nodeId ns)" using Cons.prems(2) by auto
  let ?copied = "(nodeId n, fresh k) # copied"
  have step: "\<exists>G. copiedBy offset copied groups (n # ns) (copyNodes fresh offset k copied groups (n # ns)) G"
    if groups': "groupsRenamed fresh j groups'"
      and old: "\<And>g. g \<in> dom (map_of groups) \<Longrightarrow> map_of groups' g = map_of groups g"
      and grouped: "\<And>g. groupOf n = Some g \<Longrightarrow> map_of groups' g \<noteq> None"
      and run: "\<And>rest k' copied'. copyNodes fresh offset j ?copied groups' ns = (rest, k', copied') \<Longrightarrow>
        copyNodes fresh offset k copied groups (n # ns) =
          (n\<lparr>nodeId := fresh k, rectX := rectX n + offset, rectY := rectY n + offset,
             nodeGroup := Option.bind (groupOf n) (map_of groups')\<rparr> # rest, k', copied')"
    for j groups'
  proof -
    obtain rest k' copied' where rest: "copyNodes fresh offset j ?copied groups' ns = (rest, k', copied')"
      by (metis prod_cases3)
    obtain G where "copiedBy offset ?copied groups' ns (rest, k', copied') G"
      using Cons.IH [OF Cons.prems(1) ds groups', of ?copied] rest by auto
    from copiedBy_Cons [OF this old grouped new refl] run [OF rest] show ?thesis by auto
  qed
  show ?case
  proof (cases "groupOf n")
    case None
    show ?thesis by (rule step [of "Suc k" groups])
      (use None groupsRenamed_Suc [OF Cons.prems(3)] in \<open>auto simp: Let_def\<close>)
  next
    case (Some g)
    show ?thesis
    proof (cases "map_of groups g")
      case None
      show ?thesis by (rule step [OF groupsRenamed_new [OF Cons.prems(3,1) None]])
        (use Some None in \<open>auto simp: Let_def\<close>)
    next
      case (Some g')
      show ?thesis by (rule step [of "Suc k" groups])
        (use \<open>groupOf n = Some g\<close> Some groupsRenamed_Suc [OF Cons.prems(3)] in \<open>auto simp: Let_def\<close>)
    qed
  qed
qed

section \<open>New names\<close>

text \<open>Every name in use in a document: identifiers of nodes and connectors, and groups. New names are none of them.\<close>

definition groupNames :: "CanvasNode list \<Rightarrow> string set" where
  "groupNames ns = {g. \<exists>n \<in> set ns. groupOf n = Some g}"

definition docNames :: "CanvasDoc \<Rightarrow> string set" where
  "docNames doc = set (nodeIds doc) \<union> set (edgeIds doc) \<union> groupNames (docNodes doc)"

definition newNames :: "(nat \<Rightarrow> string) \<Rightarrow> CanvasDoc \<Rightarrow> bool" where
  "newNames fresh doc \<longleftrightarrow> inj fresh \<and> range fresh \<inter> docNames doc = {}"

lemma newNames_newFor: "newNames fresh doc \<Longrightarrow> newFor fresh doc"
  by (auto simp: newNames_def newFor_def docNames_def)

text \<open>The groups that the copies are put in.\<close>

definition givenGroups :: "CanvasNode list \<Rightarrow> string set" where
  "givenGroups ns = {g. \<exists>n \<in> set ns. nodeGroup n = Some g}"

definition groupsApart :: "(nat \<Rightarrow> string) \<Rightarrow> nat \<Rightarrow> Renaming \<Rightarrow> CanvasNode list \<times> nat \<times> Renaming \<Rightarrow> bool" where
  "groupsApart fresh k groups result \<longleftrightarrow>
     (case result of (copies, k', copied') \<Rightarrow>
        givenGroups copies \<subseteq> ran (map_of groups) \<union> fresh ` {k..<k'}
        \<and> givenGroups copies \<inter> nodeId ` set copies = {})"

lemma fresh_apart: "inj f \<Longrightarrow> A \<inter> B = {} \<Longrightarrow> f ` A \<inter> f ` B = {}"
  by (simp add: image_Int [symmetric])

lemma parts_apart: "A \<subseteq> B \<union> C \<Longrightarrow> B \<subseteq> D \<Longrightarrow> D \<inter> E = {} \<Longrightarrow> C \<inter> E = {} \<Longrightarrow> A \<inter> E = {}"
  by blast

lemma head_apart: "H \<subseteq> R \<Longrightarrow> G \<subseteq> R \<union> F \<Longrightarrow> G \<inter> I = {} \<Longrightarrow> x \<notin> R \<Longrightarrow> x \<notin> F \<Longrightarrow> R \<inter> F = {} \<Longrightarrow> I \<subseteq> F
    \<Longrightarrow> (H \<union> G) \<inter> insert x I = {}"
  by blast

lemma groupsApart_Cons:
  assumes rest: "groupsApart fresh j groups' (rest, k', copied')" and ids: "nodeId ` set rest \<subseteq> fresh ` {j..<k'}" "j \<le> k'"
    and inj: "inj fresh" and j: "k < j" and node: "nodeId node = fresh k"
    and old: "ran (map_of groups) \<subseteq> fresh ` {..<k}"
    and groups': "ran (map_of groups') \<subseteq> ran (map_of groups) \<union> fresh ` {k<..<j}"
    and given: "nodeGroup node = None \<or> nodeGroup node \<in> Some ` ran (map_of groups')"
  shows "groupsApart fresh k groups (node # rest, k', copied')"
proof -
  have r: "givenGroups rest \<subseteq> ran (map_of groups') \<union> fresh ` {j..<k'}" "givenGroups rest \<inter> nodeId ` set rest = {}"
    using rest by (simp_all add: groupsApart_def)
  have head: "givenGroups (node # rest) = set_option (nodeGroup node) \<union> givenGroups rest" "set_option (nodeGroup node) \<subseteq> ran (map_of groups')"
    using given by (auto simp: givenGroups_def)
  have sub: "givenGroups (node # rest) \<subseteq> ran (map_of groups') \<union> fresh ` {j..<k'}"
    using r(1) head by blast
  have "fresh k \<notin> fresh ` {..<k} \<union> fresh ` {k<..<j} \<union> fresh ` {j..<k'}"
    using j by (simp add: inj_image_mem_iff [OF inj])
  then have off: "fresh k \<notin> ran (map_of groups')" "fresh k \<notin> fresh ` {j..<k'}" using old groups' by (simp_all add: subset_iff) metis+
  have early: "fresh ` {..<k} \<inter> fresh ` {j..<k'} = {}" by (rule fresh_apart [OF inj]) (use j in auto)
  have between: "fresh ` {k<..<j} \<inter> fresh ` {j..<k'} = {}" by (rule fresh_apart [OF inj]) auto
  have apart: "ran (map_of groups') \<inter> fresh ` {j..<k'} = {}" by (rule parts_apart [OF groups' old early between])
  have "givenGroups (node # rest) \<inter> nodeId ` set (node # rest) = {}"
    unfolding head(1) list.set image_insert node by (rule head_apart [OF head(2) r off apart ids(1)])
  moreover have "givenGroups (node # rest) \<subseteq> ran (map_of groups) \<union> fresh ` {k..<k'}"
  proof -
    have a: "fresh ` {k<..<j} \<subseteq> fresh ` {k..<k'}" by (rule image_mono) (use ids(2) in auto)
    have b: "fresh ` {j..<k'} \<subseteq> fresh ` {k..<k'}" by (rule image_mono) (use j in auto)
    from sub Un_least [OF order_trans [OF groups' Un_mono [OF order_refl a]] le_supI2 [OF b]]
    show ?thesis by (rule order_trans)
  qed
  ultimately show ?thesis by (simp add: groupsApart_def)
qed

lemma copyNodes_groups:
  "inj fresh \<Longrightarrow> ran (map_of groups) \<subseteq> fresh ` {..<k}
    \<Longrightarrow> groupsApart fresh k groups (copyNodes fresh offset k copied groups ns)"
proof (induction ns arbitrary: k copied groups)
  case Nil
  then show ?case by (simp add: groupsApart_def givenGroups_def)
next
  case (Cons n ns)
  have step: "groupsApart fresh k groups (node # rest, k', copied')"
    if run: "copyNodes fresh offset j copied1 groups' ns = (rest, k', copied')" and j: "k < j"
      and ran': "ran (map_of groups') \<subseteq> ran (map_of groups) \<union> fresh ` {k<..<j}"
      and node: "nodeId node = fresh k" "nodeGroup node = None \<or> nodeGroup node \<in> Some ` ran (map_of groups')"
    for j copied1 groups' rest k' copied' node
  proof -
    have early: "fresh ` {..<k} \<subseteq> fresh ` {..<j}" by (rule image_mono) (use j in auto)
    have "fresh ` {k<..<j} \<subseteq> fresh ` {..<j}" by (rule image_mono) auto
    from order_trans [OF ran' Un_least [OF order_trans [OF Cons.prems(2) early] this]]
    have "ran (map_of groups') \<subseteq> fresh ` {..<j}" .
    from Cons.IH [OF Cons.prems(1) this, of copied1] run have "groupsApart fresh j groups' (rest, k', copied')" by simp
    moreover have "copyDone fresh j copied1 ns (rest, k', copied')"
      using copyNodes_done [OF Cons.prems(1), of j copied1 ns offset groups'] run by simp
    then have "nodeId ` set rest \<subseteq> fresh ` {j..<k'}" "j \<le> k'" by (simp_all add: copyDone_def)
    ultimately show ?thesis by (rule groupsApart_Cons [OF _ _ _ Cons.prems(1) j node(1) Cons.prems(2) ran' node(2)])
  qed
  show ?case
  proof (cases "groupOf n")
    case None
    obtain rest k' copied' where "copyNodes fresh offset (Suc k) ((nodeId n, fresh k) # copied) groups ns = (rest, k', copied')"
      by (metis prod_cases3)
    with step [OF this] None show ?thesis by (simp add: Let_def)
  next
    case (Some g)
    show ?thesis
    proof (cases "map_of groups g")
      case None
      obtain rest k' copied' where
        "copyNodes fresh offset (Suc (Suc k)) ((nodeId n, fresh k) # copied) ((g, fresh (Suc k)) # groups) ns = (rest, k', copied')"
        by (metis prod_cases3)
      moreover have "ran (map_of ((g, fresh (Suc k)) # groups)) \<subseteq> ran (map_of groups) \<union> fresh ` {k<..<Suc (Suc k)}"
        by (auto simp: ran_def)
      moreover have "fresh (Suc k) \<in> ran (map_of ((g, fresh (Suc k)) # groups))" by (rule ranI [of _ g]) simp
      ultimately show ?thesis using step [of "Suc (Suc k)"] Some None by (simp add: Let_def)
    next
      case s': (Some g')
      obtain rest k' copied' where "copyNodes fresh offset (Suc k) ((nodeId n, fresh k) # copied) groups ns = (rest, k', copied')"
        by (metis prod_cases3)
      with step [OF this] Some s' show ?thesis by (simp add: Let_def ranI)
    qed
  qed
qed

text \<open>The renaming of the groups, on the groups of the chosen nodes only.\<close>

lemma copies_restricted:
  assumes "copies = map (copyOf offset M G) ns" "\<forall>n \<in> set ns. \<forall>g. groupOf n = Some g \<longrightarrow> G g \<noteq> None"
  shows "copies = map (copyOf offset M (G |` groupNames ns)) ns" "dom (G |` groupNames ns) = groupNames ns"
    "ran (G |` groupNames ns) = givenGroups copies"
proof -
  let ?G = "G |` groupNames ns"
  have "Option.bind (groupOf n) ?G = Option.bind (groupOf n) G" if "n \<in> set ns" for n
    using that by (cases "groupOf n") (auto simp: groupNames_def restrict_map_def)
  then show same: "copies = map (copyOf offset M ?G) ns" using assms(1) by (simp add: copyOf_def)
  show "dom ?G = groupNames ns" using assms(2) by (auto simp: groupNames_def restrict_map_def dom_def)
  show "ran ?G = givenGroups copies"
    unfolding same by (auto simp: givenGroups_def copyOf_def ran_def restrict_map_def groupNames_def bind_eq_Some_conv)
qed

section \<open>Duplicates\<close>

text \<open>A copied connector, its identifier aside.\<close>

definition edgeShape :: "(string \<Rightarrow> string) \<Rightarrow> CanvasEdge \<Rightarrow> string \<times> string \<times> string option \<times> string" where
  "edgeShape f e = (f (edgeFrom e), f (edgeTo e), edgeLabel e, edgeColor e)"

lemma copyEdges_shape:
  "map (edgeShape id) (copyEdges fresh k copied es) =
     map (edgeShape (\<lambda>i. the (map_of copied i)))
       (filter (\<lambda>e. edgeFrom e \<in> dom (map_of copied) \<and> edgeTo e \<in> dom (map_of copied)) es)"
  by (induction fresh k copied es rule: copyEdges.induct) (auto simp: edgeShape_def dom_def split: option.splits)

lemma disjointed:
  assumes "range f \<inter> names = {}" "ids \<subseteq> f ` {..<k}" "m \<subseteq> ids" "groups \<subseteq> f ` {..<k}" "groups \<inter> ids = {}"
    "es \<subseteq> f ` {k..}" "f ` {k..} \<inter> f ` {..<k} = {}"
  shows "m \<inter> names = {}" "groups \<inter> (names \<union> m) = {}" "es \<inter> (names \<union> m \<union> groups) = {}"
proof -
  have "ids \<inter> names = {}" "groups \<inter> names = {}" "es \<inter> names = {}" using assms(1,2,4,6) by blast+
  moreover have "es \<inter> ids = {}" "es \<inter> groups = {}" using assms(2,4,6,7) by blast+
  ultimately show "m \<inter> names = {}" "groups \<inter> (names \<union> m) = {}" "es \<inter> (names \<union> m \<union> groups) = {}"
    using assms(3,5) by blast+
qed

lemma duplicate_copy:
  assumes ok: "docOk doc" and new: "newNames fresh doc"
  shows "\<exists>M G es. inj_on M (dom M) \<and> dom M = ids \<inter> set (nodeIds doc) \<and> ran M \<inter> docNames doc = {}
    \<and> inj_on G (dom G) \<and> dom G = groupNames (picked ids doc) \<and> ran G \<inter> (docNames doc \<union> ran M) = {}
    \<and> docNodes (fst (duplicate fresh doc ids offset)) = docNodes doc @ map (copyOf offset M G) (picked ids doc)
    \<and> docEdges (fst (duplicate fresh doc ids offset)) = docEdges doc @ es
    \<and> map (edgeShape id) es
        = map (edgeShape (\<lambda>i. the (M i))) (filter (\<lambda>e. edgeFrom e \<in> ids \<and> edgeTo e \<in> ids) (docEdges doc))
    \<and> distinct (map edgeId es) \<and> edgeId ` set es \<inter> (docNames doc \<union> ran M \<union> ran G) = {}
    \<and> snd (duplicate fresh doc ids offset) = ran M"
proof -
  obtain copies k copied where run: "copyNodes fresh offset 0 [] [] (picked ids doc) = (copies, k, copied)"
    by (metis prod_cases3)
  let ?M = "map_of copied" and ?es = "copyEdges fresh k copied (docEdges doc)"
  have inj: "inj fresh" and off: "range fresh \<inter> docNames doc = {}" using new by (simp_all add: newNames_def)
  have ds: "distinct (map nodeId (picked ids doc))"
    using ok by (simp add: docOk_def nodeIds_def picked_def distinct_map_filter)
  have "groupsRenamed fresh 0 []" by (simp add: groupsRenamed_def)
  from copyNodes_copies [OF inj ds this, of offset "[]"] run obtain H where
    H: "inj_on H (dom H)" "copies = map (copyOf offset ?M H) (picked ids doc)"
    "\<forall>n \<in> set (picked ids doc). \<forall>g. groupOf n = Some g \<longrightarrow> H g \<noteq> None"
    by (auto simp: copiedBy_def)
  define G where "G = H |` groupNames (picked ids doc)"
  note G = copies_restricted [OF H(2,3), folded G_def]
  have injG: "inj_on G (dom G)" unfolding G_def using H(1) by (auto simp: inj_on_def restrict_map_def dom_def split: if_splits)
  have fin: "copyDone fresh 0 [] (picked ids doc) (copies, k, copied)"
    using copyNodes_done [OF inj, of 0 "[]" "picked ids doc" offset "[]"] run by simp
  have dom: "dom ?M = ids \<inter> set (nodeIds doc)" using fin by (auto simp: copyDone_def picked_def nodeIds_def)
  have named: "nodeId ` set copies \<subseteq> fresh ` {..<k}" "ran ?M \<subseteq> nodeId ` set copies"
    using fin by (auto simp: copyDone_def atLeast0LessThan)
  have groups: "givenGroups copies \<subseteq> fresh ` {..<k}" "givenGroups copies \<inter> nodeId ` set copies = {}"
    using copyNodes_groups [OF inj, of "[]" 0 offset "[]" "picked ids doc"] run by (simp_all add: groupsApart_def atLeast0LessThan)
  have edges: "edgeId ` set ?es \<subseteq> fresh ` {k..}" by (rule copyEdges_new)
  have late: "fresh ` {k..} \<inter> fresh ` {..<k} = {}" by (rule fresh_apart [OF inj]) auto
  have "distinct (map (\<lambda>n. the (?M (nodeId n))) (picked ids doc))"
    using fin by (simp add: copyDone_def H(2) copyOf_def comp_def)
  then have inj_the: "inj_on (\<lambda>n. the (?M (nodeId n))) (set (picked ids doc))" by (simp add: distinct_map)
  have "inj_on ?M (dom ?M)"
  proof (rule inj_onI)
    fix i j assume ij: "i \<in> dom ?M" "j \<in> dom ?M" "?M i = ?M j"
    obtain a b where "a \<in> set (picked ids doc)" "i = nodeId a" "b \<in> set (picked ids doc)" "j = nodeId b"
      using ij(1,2) by (auto simp: dom picked_def nodeIds_def)
    then show "i = j" using inj_onD [OF inj_the, of a b] ij(3) by simp
  qed
  moreover have "filter (\<lambda>e. edgeFrom e \<in> dom ?M \<and> edgeTo e \<in> dom ?M) (docEdges doc)
    = filter (\<lambda>e. edgeFrom e \<in> ids \<and> edgeTo e \<in> ids) (docEdges doc)"
    using ok by (intro filter_cong) (auto simp: dom docOk_def edgesClosed_def)
  moreover have "ran ?M \<inter> docNames doc = {}" "ran G \<inter> (docNames doc \<union> ran ?M) = {}"
    "edgeId ` set ?es \<inter> (docNames doc \<union> ran ?M \<union> ran G) = {}"
    using disjointed [OF off named groups edges late] unfolding G(3) by blast+
  ultimately show ?thesis
    using injG dom G(1,2) copyEdges_distinct [OF inj, of k copied "docEdges doc"]
    by (intro exI [of _ ?M] exI [of _ G] exI [of _ ?es]) (simp add: duplicate_def run copyEdges_shape)
qed

end
