(* ===== verification/CanvasLayout.thy ===== *)
theory CanvasLayout
  imports CanvasEdit
begin

text \<open>
  Geometry of the canvas: cards laid out in rows and nodes tidied into a grid do not overlap,
  snapping picks the nearest line, zooming keeps the point under the pointer.
\<close>

section \<open>Rectangles apart\<close>

text \<open>\<open>b\<close> starts at least \<open>gap\<close> right of \<open>a\<close>'s right side, or below its lower side.\<close>

definition apart :: "real \<Rightarrow> 'a Rect_scheme \<Rightarrow> 'b Rect_scheme \<Rightarrow> bool" where
  "apart gap a b \<longleftrightarrow> rectX a + rectW a + gap \<le> rectX b \<or> rectY a + rectH a + gap \<le> rectY b"

lemma apart_not_intersects: "apart gap a b \<Longrightarrow> 0 \<le> gap \<Longrightarrow> \<not> intersects a b \<and> \<not> intersects b a"
  by (auto simp: apart_def intersects_def)

section \<open>Cards in rows\<close>

lemma mathRound_add_Ints: "k \<in> \<int> \<Longrightarrow> (of_int (mathRound (a + k)) :: real) = of_int (mathRound a) + k"
proof (elim Ints_cases)
  fix z assume k: "k = of_int z"
  have "a + of_int z + 1 / 2 = a + 1 / 2 + of_int z" by simp
  then have "\<lfloor>a + of_int z + 1 / 2\<rfloor> = \<lfloor>a + 1 / 2\<rfloor> + z" using floor_add_int [of "a + 1 / 2" z] by (simp only:)
  then show ?thesis by (simp add: mathRound_def k)
qed

lemma cardSize_Ints: "fst (cardSize k a d) \<in> \<int>" "snd (cardSize k a d) \<in> \<int>"
  by (auto simp: cardSize_def Let_def)

lemma cardSize_pos: "0 < fst (cardSize k a d)" "0 < snd (cardSize k a d)"
  by (auto simp: cardSize_def Let_def)

lemmas itemSize_facts = cardSize_Ints cardSize_pos

lemma CARD_GAP_Ints [simp]: "CARD_GAP \<in> \<int>" by (simp add: CARD_GAP_def)
lemma CARD_GAP_pos [simp]: "0 \<le> CARD_GAP" by (simp add: CARD_GAP_def)

text \<open>One card: the cursor either stays in its row or has wrapped to the next one.\<close>

lemma placeCards_step:
  obtains node w h x0 y0 r0 where
    "placeCards fresh leftX topY i x y r (item # items)
      = node # placeCards fresh leftX topY (Suc i) (x0 + (w + CARD_GAP)) y0 (max r0 h) items"
    "nodeId node = fresh i" "rectX node = of_int (mathRound (leftX + x0))" "rectY node = of_int (mathRound (topY + y0))"
    "rectW node = w" "rectH node = h" "w \<in> \<int>" "h \<in> \<int>" "0 < w" "0 < h"
    "x0 = x \<and> y0 = y \<and> r0 = r \<or> x0 = 0 \<and> y0 = y + (r + CARD_GAP) \<and> r0 = 0"
proof -
  obtain w h where size: "itemSize item = (w, h)" by fastforce
  have "w \<in> \<int>" "h \<in> \<int>" "0 < w" "0 < h"
    using itemSize_facts [of "linkKind item" "linkAnchor item" "cardDetail item"] size by (auto simp: itemSize_def)
  note wh = this
  show thesis
  proof (cases "i \<noteq> 0 \<and> i mod 4 = 0")
    case True
    then have wrap: "(i \<noteq> 0 \<and> i mod 4 = 0) = True" by simp
    show thesis using wh
      by (intro that [where ?x0.0 = 0 and ?y0.0 = "y + (r + CARD_GAP)" and ?r0.0 = 0 and w = w and h = h])
        (simp only: placeCards.simps size prod.case Let_def wrap if_True, simp_all)
  next
    case False
    then have wrap: "(i \<noteq> 0 \<and> i mod 4 = 0) = False" by simp
    show thesis using wh
      by (intro that [where ?x0.0 = x and ?y0.0 = y and ?r0.0 = r and w = w and h = h])
        (simp only: placeCards.simps size prod.case Let_def wrap if_False, simp_all)
  qed
qed

declare placeCards.simps(2) [simp del]

text \<open>Where the cards still to be placed go: right of the cursor in its row, or below the row.\<close>

lemma placeCards_after:
  assumes "m \<in> set (placeCards fresh leftX topY i x y r items)" and "x \<in> \<int>" "y \<in> \<int>" "r \<in> \<int>" "0 \<le> r"
  shows "rectY m = of_int (mathRound topY) + y \<and> of_int (mathRound leftX) + x \<le> rectX m
    \<or> of_int (mathRound topY) + y + r + CARD_GAP \<le> rectY m"
  using assms
proof (induction items arbitrary: i x y r)
  case (Cons item items)
  obtain node w h x0 y0 r0 where step:
    "placeCards fresh leftX topY i x y r (item # items)
      = node # placeCards fresh leftX topY (Suc i) (x0 + (w + CARD_GAP)) y0 (max r0 h) items"
    and node: "rectX node = of_int (mathRound (leftX + x0))" "rectY node = of_int (mathRound (topY + y0))"
    and wh: "w \<in> \<int>" "h \<in> \<int>" "0 < w" "0 < h"
    and wrap: "x0 = x \<and> y0 = y \<and> r0 = r \<or> x0 = 0 \<and> y0 = y + (r + CARD_GAP) \<and> r0 = 0"
    by (rule placeCards_step [of fresh leftX topY i x y r item items]) blast
  have ints: "x0 \<in> \<int>" "y0 \<in> \<int>" "r0 \<in> \<int>" "0 \<le> r0" using wrap Cons.prems by auto
  consider "m = node" | "m \<in> set (placeCards fresh leftX topY (Suc i) (x0 + (w + CARD_GAP)) y0 (max r0 h) items)"
    using Cons.prems(1) by (auto simp: step)
  then show ?case
  proof cases
    case 1
    then show ?thesis using wrap by (auto simp: node mathRound_add_Ints ints)
  next
    case 2
    then have "rectY m = of_int (mathRound topY) + y0 \<and> of_int (mathRound leftX) + (x0 + (w + CARD_GAP)) \<le> rectX m
      \<or> of_int (mathRound topY) + y0 + max r0 h + CARD_GAP \<le> rectY m"
      by (rule Cons.IH) (use ints wh in \<open>auto simp: max_def\<close>)
    then show ?thesis using wrap wh ints Cons.prems(5) by (auto simp: CARD_GAP_def)
  qed
qed simp

lemma placeCards_apart:
  assumes "x \<in> \<int>" "y \<in> \<int>" "r \<in> \<int>" "0 \<le> r"
  shows "sorted_wrt (apart CARD_GAP) (placeCards fresh leftX topY i x y r items)"
  using assms
proof (induction items arbitrary: i x y r)
  case (Cons item items)
  obtain node w h x0 y0 r0 where step:
    "placeCards fresh leftX topY i x y r (item # items)
      = node # placeCards fresh leftX topY (Suc i) (x0 + (w + CARD_GAP)) y0 (max r0 h) items"
    and node: "rectX node = of_int (mathRound (leftX + x0))" "rectY node = of_int (mathRound (topY + y0))"
      "rectW node = w" "rectH node = h"
    and wh: "w \<in> \<int>" "h \<in> \<int>" "0 < w" "0 < h"
    and wrap: "x0 = x \<and> y0 = y \<and> r0 = r \<or> x0 = 0 \<and> y0 = y + (r + CARD_GAP) \<and> r0 = 0"
    by (rule placeCards_step [of fresh leftX topY i x y r item items]) blast
  have ints: "x0 \<in> \<int>" "y0 \<in> \<int>" "r0 \<in> \<int>" "0 \<le> r0" using wrap Cons.prems by auto
  have next_ints: "x0 + (w + CARD_GAP) \<in> \<int>" "max r0 h \<in> \<int>" "0 \<le> max r0 h" using ints wh by (auto simp: max_def)
  have "apart CARD_GAP node m"
    if "m \<in> set (placeCards fresh leftX topY (Suc i) (x0 + (w + CARD_GAP)) y0 (max r0 h) items)" for m
    using placeCards_after [OF that next_ints(1) ints(2) next_ints(2,3)]
    by (auto simp: apart_def node mathRound_add_Ints ints)
  moreover have "sorted_wrt (apart CARD_GAP) (placeCards fresh leftX topY (Suc i) (x0 + (w + CARD_GAP)) y0 (max r0 h) items)"
    by (rule Cons.IH) (use next_ints ints in auto)
  ultimately show ?case by (simp add: step)
qed simp

lemma placeCards_ids: "map nodeId (placeCards fresh leftX topY i x y r items) = map fresh [i..<i + length items]"
proof (induction items arbitrary: i x y r)
  case (Cons item items)
  obtain node w h x0 y0 r0 where
    "placeCards fresh leftX topY i x y r (item # items)
      = node # placeCards fresh leftX topY (Suc i) (x0 + (w + CARD_GAP)) y0 (max r0 h) items"
    and "nodeId node = fresh i"
    by (rule placeCards_step [of fresh leftX topY i x y r item items]) blast
  then show ?case using Cons.IH [of "Suc i"] by (simp add: upt_conv_Cons del: upt_Suc)
qed simp

section \<open>Tidying\<close>

lemma tidyRows_Nil [simp]: "tidyRows columns width gap x0 y0 [] = []"
  by (simp add: tidyRows.simps)

lemma tidyRows_ids: "0 < columns \<Longrightarrow> map fst (tidyRows columns width gap x0 y0 ns) = map nodeId ns"
proof (induction columns width gap x0 y0 ns rule: tidyRows.induct)
  case (1 columns width gap x0 y0 ns)
  show ?case
  proof (cases "ns = []")
    case False
    have "map fst (tidyRows columns width gap x0 y0 ns)
      = map nodeId (take columns ns) @ map nodeId (drop columns ns)"
      using 1 False by (subst tidyRows.simps)
        (simp add: Let_def case_prod_beta comp_def flip: map_map [of nodeId snd, unfolded comp_def])
    then show ?thesis by (simp flip: map_append)
  qed simp
qed

text \<open>The node moved to its place.\<close>

definition placedAt :: "Point \<Rightarrow> CanvasNode \<Rightarrow> CanvasNode" where
  "placedAt p n = n\<lparr>rectX := fst p, rectY := snd p\<rparr>"

definition tidyPlaced :: "nat \<Rightarrow> real \<Rightarrow> real \<Rightarrow> real \<Rightarrow> real \<Rightarrow> CanvasNode list \<Rightarrow> CanvasNode list" where
  "tidyPlaced columns width gap x0 y0 ns =
     map2 placedAt (map snd (tidyRows columns width gap x0 y0 ns)) ns"

lemma tidyPlaced_row:
  assumes "0 < columns" and "ns \<noteq> []"
  shows "tidyPlaced columns width gap x0 y0 ns =
    map (\<lambda>(i, n). placedAt (x0 + real i * (width + gap), y0) n) (enumerate 0 (take columns ns))
    @ tidyPlaced columns width gap x0 (y0 + (Max (set (map rectH (take columns ns))) + gap)) (drop columns ns)"
proof -
  let ?row = "map (\<lambda>(i, n). (nodeId n, (x0 + real i * (width + gap), y0))) (enumerate 0 (take columns ns))"
  have split: "ns = take columns ns @ drop columns ns" by simp
  have "tidyPlaced columns width gap x0 y0 (take columns ns @ drop columns ns)
    = map2 placedAt (map snd ?row) (take columns ns)
      @ tidyPlaced columns width gap x0 (y0 + (Max (set (map rectH (take columns ns))) + gap)) (drop columns ns)"
    using assms by (cases "columns \<le> length ns")
      (simp_all add: tidyPlaced_def tidyRows.simps [of columns width gap x0 y0 ns] Let_def zip_append1 min_def)
  moreover have "map2 placedAt (map snd ?row) (take columns ns)
    = map (\<lambda>(i, n). placedAt (x0 + real i * (width + gap), y0) n) (enumerate 0 (take columns ns))"
    by (rule nth_equalityI) (simp_all add: nth_enumerate_eq)
  ultimately show ?thesis by simp
qed

lemma placedAt_simps [simp]:
  "rectX (placedAt p n) = fst p" "rectY (placedAt p n) = snd p" "rectW (placedAt p n) = rectW n"
  "rectH (placedAt p n) = rectH n" "nodeId (placedAt p n) = nodeId n" "nodeBody (placedAt p n) = nodeBody n"
  by (simp_all add: placedAt_def)

lemma tidyPlaced_Nil [simp]: "tidyPlaced columns width gap x0 y0 [] = []"
  by (simp add: tidyPlaced_def)

lemma tidyPlaced_below:
  assumes "0 < columns" and "0 \<le> gap" and "\<And>n. n \<in> set ns \<Longrightarrow> 0 \<le> rectH n"
    and "m \<in> set (tidyPlaced columns width gap x0 y0 ns)"
  shows "y0 \<le> rectY m"
  using assms
proof (induction columns width gap x0 y0 ns rule: tidyRows.induct)
  case (1 columns width gap x0 y0 ns)
  then have ne: "ns \<noteq> []" by auto
  let ?y1 = "y0 + (Max (set (map rectH (take columns ns))) + gap)"
  have "0 \<le> Max (set (map rectH (take columns ns)))"
  proof -
    have "hd ns \<in> set (take columns ns)" using 1(2) ne by (cases ns; cases columns) auto
    then have "rectH (hd ns) \<le> Max (set (map rectH (take columns ns)))" by (intro Max_ge) auto
    moreover have "0 \<le> rectH (hd ns)" using 1(4) ne by simp
    ultimately show ?thesis by simp
  qed
  then have y1: "y0 \<le> ?y1" using 1(3) by simp
  consider "m \<in> set (map (\<lambda>(i, n). placedAt (x0 + real i * (width + gap), y0) n) (enumerate 0 (take columns ns)))"
    | "m \<in> set (tidyPlaced columns width gap x0 ?y1 (drop columns ns))"
    using 1(5) unfolding tidyPlaced_row [OF 1(2) ne] set_append by blast
  then show ?case
  proof cases
    case 1
    then show ?thesis by auto
  next
    case 2
    have "?y1 \<le> rectY m"
      by (rule 1(1)) (use 1(2-4) ne 2 in \<open>auto dest: in_set_dropD\<close>)
    then show ?thesis using y1 by simp
  qed
qed

lemma tidyRow_apart:
  assumes "\<And>n. n \<in> set cells \<Longrightarrow> rectW n \<le> width" and "0 \<le> width + gap"
  shows "sorted_wrt (apart gap) (map (\<lambda>(i, n). placedAt (x0 + real i * (width + gap), y0) n) (enumerate k cells))"
  using assms(1)
proof (induction cells arbitrary: k)
  case (Cons c cs)
  have "apart gap (placedAt (x0 + real k * (width + gap), y0) c) m"
    if "m \<in> set (map (\<lambda>(i, n). placedAt (x0 + real i * (width + gap), y0) n) (enumerate (Suc k) cs))" for m
  proof -
    from that obtain i n where m: "m = placedAt (x0 + real i * (width + gap), y0) n" and "Suc k \<le> i"
      by (auto simp: in_set_enumerate_eq)
    then have "(real k + 1) * (width + gap) \<le> real i * (width + gap)"
      using assms(2) by (intro mult_right_mono) auto
    then show ?thesis using Cons.prems [of c] by (simp add: apart_def m algebra_simps)
  qed
  with Cons show ?case by simp
qed simp

lemma tidyPlaced_apart:
  assumes "0 < columns" and "0 \<le> gap" and "0 \<le> width" and "\<And>n. n \<in> set ns \<Longrightarrow> 0 \<le> rectH n \<and> rectW n \<le> width"
  shows "sorted_wrt (apart gap) (tidyPlaced columns width gap x0 y0 ns)"
  using assms
proof (induction columns width gap x0 y0 ns rule: tidyRows.induct)
  case (1 columns width gap x0 y0 ns)
  show ?case
  proof (cases "ns = []")
    case False
    let ?row = "map (\<lambda>(i, n). placedAt (x0 + real i * (width + gap), y0) n) (enumerate 0 (take columns ns))"
    let ?y1 = "y0 + (Max (set (map rectH (take columns ns))) + gap)"
    let ?rest = "tidyPlaced columns width gap x0 ?y1 (drop columns ns)"
    have row: "sorted_wrt (apart gap) ?row"
      by (rule tidyRow_apart) (use 1(3-5) in \<open>auto dest: in_set_takeD\<close>)
    have rest: "sorted_wrt (apart gap) ?rest"
      by (rule 1(1)) (use 1(2-5) False in \<open>auto dest: in_set_dropD\<close>)
    have "apart gap a m" if a: "a \<in> set ?row" and m: "m \<in> set ?rest" for a m
    proof -
      from a obtain i n where n: "n \<in> set (take columns ns)" and a': "a = placedAt (x0 + real i * (width + gap), y0) n"
        by (auto simp: enumerate_eq_zip dest: set_zip_rightD)
      have "rectH n \<le> Max (set (map rectH (take columns ns)))" using n by (intro Max_ge) auto
      moreover have "?y1 \<le> rectY m"
        using 1(2,3,5) m by (intro tidyPlaced_below [of columns gap "drop columns ns"]) (auto dest: in_set_dropD)
      ultimately show ?thesis by (simp add: apart_def a')
    qed
    with row rest show ?thesis by (simp add: tidyPlaced_row [OF 1(2) False] sorted_wrt_append)
  qed simp
qed

lemma tidyColumns_pos: "0 < tidyColumns n"
  by (simp add: tidyColumns_def)

lemma moveTo_tidyRows:
  assumes "distinct (map nodeId ns)" and "0 < columns"
  shows "map (moveTo (map_of (rev (tidyRows columns width gap x0 y0 ns)))) ns = tidyPlaced columns width gap x0 y0 ns"
proof (rule nth_equalityI)
  let ?rows = "tidyRows columns width gap x0 y0 ns"
  have ids: "map fst ?rows = map nodeId ns" by (rule tidyRows_ids [OF assms(2)])
  then have len: "length ?rows = length ns" by (metis length_map)
  then show "length (map (moveTo (map_of (rev ?rows))) ns) = length (tidyPlaced columns width gap x0 y0 ns)"
    by (simp add: tidyPlaced_def)
  fix k assume "k < length (map (moveTo (map_of (rev ?rows))) ns)"
  then have k: "k < length ns" by simp
  have "fst (?rows ! k) = nodeId (ns ! k)" using ids k len by (metis nth_map)
  then have "(nodeId (ns ! k), snd (?rows ! k)) \<in> set (rev ?rows)"
    using k len by (metis nth_mem prod.collapse set_rev)
  moreover have "distinct (map fst (rev ?rows))" using assms(1) ids by (simp flip: rev_map)
  ultimately have "map_of (rev ?rows) (nodeId (ns ! k)) = Some (snd (?rows ! k))" by (intro map_of_is_SomeI)
  then show "map (moveTo (map_of (rev ?rows))) ns ! k = tidyPlaced columns width gap x0 y0 ns ! k"
    using k len by (simp add: moveTo_def tidyPlaced_def placedAt_def)
qed

text \<open>The nodes \<open>tidyNodes\<close> arranges, in reading order.\<close>

definition tidyChosen :: "CanvasDoc \<Rightarrow> string set \<Rightarrow> CanvasNode list" where
  "tidyChosen doc ids = sortBy readingOrder (filter (\<lambda>n. \<not> isFrame n) (picked ids doc))"

lemma set_tidyChosen: "set (tidyChosen doc ids) = {n \<in> set (docNodes doc). nodeId n \<in> ids \<and> \<not> isFrame n}"
  by (auto simp: tidyChosen_def picked_def)

lemma distinct_tidyChosen:
  assumes "docOk doc" shows "distinct (map nodeId (tidyChosen doc ids))"
proof -
  have "distinct (map nodeId (filter (\<lambda>n. \<not> isFrame n) (picked ids doc)))"
    using assms by (simp add: docOk_def nodeIds_def picked_def distinct_map_filter)
  moreover have "mset (map nodeId (tidyChosen doc ids)) = mset (map nodeId (filter (\<lambda>n. \<not> isFrame n) (picked ids doc)))"
    by (simp add: tidyChosen_def)
  ultimately show ?thesis by (metis mset_eq_imp_distinct_iff)
qed

definition tidyBox :: "CanvasDoc \<Rightarrow> string set \<Rightarrow> Rect" where
  "tidyBox doc ids = the (bounds (tidyChosen doc ids))"

definition tidyGrid :: "CanvasDoc \<Rightarrow> string set \<Rightarrow> real \<Rightarrow> CanvasNode list" where
  "tidyGrid doc ids gap =
     tidyPlaced (tidyColumns (length (tidyChosen doc ids))) (Max (set (map rectW (tidyChosen doc ids)))) gap
       (rectX (tidyBox doc ids)) (rectY (tidyBox doc ids)) (tidyChosen doc ids)"

lemma tidyNodes_grid:
  assumes "docOk doc" and "2 \<le> length (tidyChosen doc ids)"
  shows "\<exists>f. docNodes (tidyNodes doc ids gap) = map f (docNodes doc) \<and> map f (tidyChosen doc ids) = tidyGrid doc ids gap
    \<and> (\<forall>n \<in> set (docNodes doc) - set (tidyChosen doc ids). f n = n)"
proof -
  let ?ns = "tidyChosen doc ids" and ?box = "tidyBox doc ids"
  have ne: "?ns \<noteq> []" using assms(2) by auto
  then have box: "bounds ?ns = Some ?box" by (simp add: tidyBox_def bounds_def Let_def)
  let ?rows = "tidyRows (tidyColumns (length ?ns)) (Max (set (map rectW ?ns))) gap (rectX ?box) (rectY ?box) ?ns"
  let ?f = "moveTo (map_of (rev ?rows))"
  have "docNodes (tidyNodes doc ids gap) = map ?f (docNodes doc)"
    using assms(2) box by (simp add: tidyNodes_def Let_def flip: tidyChosen_def)
  moreover have "map ?f ?ns = tidyGrid doc ids gap"
    unfolding tidyGrid_def by (rule moveTo_tidyRows [OF distinct_tidyChosen [OF assms(1)] tidyColumns_pos])
  moreover have "?f n = n" if n: "n \<in> set (docNodes doc) - set ?ns" for n
  proof -
    have "fst ` set ?rows = nodeId ` set ?ns" using tidyRows_ids [OF tidyColumns_pos] by (metis set_map)
    moreover have "nodeId n \<notin> nodeId ` set ?ns"
    proof
      assume "nodeId n \<in> nodeId ` set ?ns"
      then obtain n' where n': "n' \<in> set ?ns" "nodeId n = nodeId n'" by auto
      have "inj_on nodeId (set (docNodes doc))"
        using assms(1) by (simp add: docOk_def nodeIds_def distinct_map)
      moreover have "n' \<in> set (docNodes doc)" using n'(1) by (simp add: set_tidyChosen)
      ultimately have "n = n'" using n n'(2) by (simp add: inj_on_def)
      then show False using n n'(1) by simp
    qed
    ultimately have "map_of (rev ?rows) (nodeId n) = None" by (simp add: map_of_eq_None_iff)
    then show ?thesis by (simp add: moveTo_def)
  qed
  ultimately show ?thesis by blast
qed

lemma tidyGrid_apart:
  assumes "0 \<le> gap" and "\<And>n. n \<in> set (docNodes doc) \<Longrightarrow> 0 \<le> rectW n \<and> 0 \<le> rectH n"
    and "2 \<le> length (tidyChosen doc ids)"
  shows "sorted_wrt (apart gap) (tidyGrid doc ids gap)"
  unfolding tidyGrid_def
proof (rule tidyPlaced_apart [OF tidyColumns_pos assms(1)])
  let ?ns = "tidyChosen doc ids"
  have sizes: "0 \<le> rectW n \<and> 0 \<le> rectH n" if "n \<in> set ?ns" for n
    using that assms(2) by (simp add: set_tidyChosen)
  have le: "rectW n \<le> Max (set (map rectW ?ns))" if "n \<in> set ?ns" for n
    using that by (intro Max_ge) auto
  show "0 \<le> Max (set (map rectW ?ns))"
  proof -
    have "hd ?ns \<in> set ?ns" using assms(3) by (intro hd_in_set) auto
    then show ?thesis using le sizes order_trans by blast
  qed
  show "0 \<le> rectH n \<and> rectW n \<le> Max (set (map rectW ?ns))" if "n \<in> set ?ns" for n
    using that le sizes by blast
qed

section \<open>Snapping\<close>

lemma snapCandidates_iff:
  "(d, at') \<in> set (snapCandidates mine theirs) \<longleftrightarrow> (\<exists>ls \<in> set theirs. \<exists>own \<in> set mine. at' \<in> set ls \<and> d = at' - own)"
  by (auto simp: snapCandidates_def)

text \<open>The loop keeps a nearest candidate within the threshold, if there is one.\<close>

definition nearest :: "real \<Rightarrow> (real \<times> real) set \<Rightarrow> (real \<times> real) option \<Rightarrow> bool" where
  "nearest threshold cs found \<longleftrightarrow>
     (case found of
        None \<Rightarrow> \<forall>c \<in> cs. threshold < \<bar>fst c\<bar>
      | Some f \<Rightarrow> f \<in> cs \<and> \<bar>fst f\<bar> \<le> threshold \<and> (\<forall>c \<in> cs. \<bar>fst f\<bar> \<le> \<bar>fst c\<bar>))"

lemma nearest_step: "nearest threshold cs found \<Longrightarrow> nearest threshold (insert c cs) (betterSnap threshold found c)"
  by (cases found) (force simp: nearest_def betterSnap_def)+

lemma nearest_foldl: "nearest threshold cs found \<Longrightarrow> nearest threshold (cs \<union> set l) (foldl (betterSnap threshold) found l)"
proof (induction l arbitrary: cs found)
  case (Cons c l)
  from Cons.IH [OF nearest_step [OF Cons.prems]] show ?case by simp
qed simp

lemma bestSnap_nearest: "nearest threshold (set (snapCandidates mine theirs)) (bestSnap threshold mine theirs)"
  using nearest_foldl [of threshold "{}" None] by (simp add: bestSnap_def nearest_def)

section \<open>Zooming\<close>

lemma zoomAt_zoom: "MIN_ZOOM \<le> viewZoom (zoomAt v f x y) \<and> viewZoom (zoomAt v f x y) \<le> MAX_ZOOM"
  by (simp add: zoomAt_def Let_def case_prod_beta MIN_ZOOM_def MAX_ZOOM_def)

lemma zoomAt_fixed: "toWorld (zoomAt v f x y) x y = toWorld v x y"
proof -
  have "viewZoom (zoomAt v f x y) \<noteq> 0" using zoomAt_zoom [of v f x y] by (auto simp: MIN_ZOOM_def)
  then show ?thesis by (simp add: zoomAt_def toWorld_def Let_def)
qed

end
