(* ===== verification/CanvasHistory.thy ===== *)
theory CanvasHistory
  imports CanvasModel
begin

text \<open>
  The undo history of the canvas refines a timeline: the list of documents the user has gone
  through, with a cursor at the current one. An edit cuts what lies ahead of the cursor and
  appends, undo and redo move the cursor, and beyond the limit the oldest document is dropped.
\<close>

section \<open>The editor's use of the history\<close>

text \<open>
  The editor (\<open>commit\<close>, \<open>undo\<close> and \<open>redo\<close> of \<open>CanvasPage.tsx\<close>) pushes the current document before it shows a new one, and replaces
  the current document by what \<open>undo\<close> and \<open>redo\<close> return, unless that is null.
\<close>

datatype HistoryCommand = Edit CanvasDoc | Undo | Redo

fun historyStep :: "CanvasDoc \<times> History \<Rightarrow> HistoryCommand \<Rightarrow> CanvasDoc \<times> History" where
  "historyStep (current, h) (Edit new) = (new, pushHistory current h)"
| "historyStep (current, h) Undo = (case undoHistory current h of Some s \<Rightarrow> s | None \<Rightarrow> (current, h))"
| "historyStep (current, h) Redo = (case redoHistory current h of Some s \<Rightarrow> s | None \<Rightarrow> (current, h))"

definition historyRun :: "CanvasDoc \<times> History \<Rightarrow> HistoryCommand list \<Rightarrow> CanvasDoc \<times> History" where
  "historyRun s cs = foldl historyStep s cs"

section \<open>The timeline\<close>

type_synonym Timeline = "CanvasDoc list \<times> nat"

fun timelineStep :: "nat \<Rightarrow> Timeline \<Rightarrow> HistoryCommand \<Rightarrow> Timeline" where
  "timelineStep cap (ds, i) (Edit new) =
     (if i < cap then (take (Suc i) ds @ [new], Suc i) else (tl (take (Suc i) ds) @ [new], i))"
| "timelineStep cap (ds, i) Undo = (ds, i - 1)"
| "timelineStep cap (ds, i) Redo = (ds, if Suc i < length ds then Suc i else i)"

definition timelineRun :: "nat \<Rightarrow> Timeline \<Rightarrow> HistoryCommand list \<Rightarrow> Timeline" where
  "timelineRun cap t cs = foldl (timelineStep cap) t cs"

fun timelineOf :: "CanvasDoc \<times> History \<Rightarrow> Timeline" where
  "timelineOf (current, h) = (past h @ current # rev (future h), length (past h))"

fun historyOk :: "CanvasDoc \<times> History \<Rightarrow> bool" where
  "historyOk (current, h) = (length (past h) + length (future h) \<le> limit h)"

lemma pushHistory_simps [simp]:
  "future (pushHistory b h) = []" "limit (pushHistory b h) = limit h"
  by (simp_all add: pushHistory_def Let_def)

lemma past_push:
  "length (past h) \<le> limit h \<Longrightarrow>
     past (pushHistory b h) = (if length (past h) < limit h then past h @ [b] else tl (past h @ [b]))"
  by (auto simp: pushHistory_def Let_def)

lemma historyStep_limit: "limit (snd (historyStep s c)) = limit (snd s)"
  by (cases s; cases c) (auto simp: undoHistory_def redoHistory_def)

lemma historyStep_ok: "historyOk s \<Longrightarrow> historyOk (historyStep s c)"
  by (cases s; cases c; cases "past (snd s)" rule: rev_cases; cases "future (snd s)" rule: rev_cases)
    (auto simp: undoHistory_def redoHistory_def past_push)

lemma historyStep_refines:
  assumes "historyOk s"
  shows "timelineOf (historyStep s c) = timelineStep (limit (snd s)) (timelineOf s) c"
proof (cases s)
  case s: (Pair current h)
  show ?thesis
  proof (cases c)
    case (Edit new)
    have "length (past h) \<le> limit h" using assms s by simp
    moreover have "take (Suc (length (past h))) (past h @ current # rev (future h)) = past h @ [current]" by simp
    ultimately show ?thesis
      by (cases "length (past h) < limit h") (simp_all add: Edit s past_push del: take_append)
  next
    case Undo
    show ?thesis
      by (cases "past h" rule: rev_cases) (simp_all add: Undo s undoHistory_def)
  next
    case Redo
    show ?thesis
      by (cases "future h" rule: rev_cases) (simp_all add: Redo s redoHistory_def)
  qed
qed

lemma historyRun_refines:
  assumes "historyOk s"
  shows "timelineOf (historyRun s cs) = timelineRun (limit (snd s)) (timelineOf s) cs \<and> historyOk (historyRun s cs)
    \<and> limit (snd (historyRun s cs)) = limit (snd s)"
  using assms
proof (induction cs arbitrary: s)
  case Nil
  then show ?case by (simp add: historyRun_def timelineRun_def)
next
  case (Cons c cs)
  from Cons.IH [OF historyStep_ok [OF Cons.prems]] Cons.prems show ?case
    by (simp add: historyRun_def timelineRun_def historyStep_refines historyStep_limit)
qed

lemma newHistory_ok [simp]: "historyOk (doc, newHistory cap)" "timelineOf (doc, newHistory cap) = ([doc], 0)"
  "limit (newHistory cap) = cap"
  by (simp_all add: newHistory_def)

text \<open>The current document is the one at the cursor.\<close>

lemma timelineOf_current: "timelineOf s = (ds, i) \<Longrightarrow> i < length ds \<and> ds ! i = fst s"
  by (cases s) (auto simp: nth_append)

end
