(* ===== verification/CanvasProperties.thy ===== *)
theory CanvasProperties
  imports CanvasCopy CanvasLayout CanvasHistory
begin

text \<open>
  The properties of the canvas: its documents stay well formed, a copy is isomorphic to what was
  copied, laid out and tidied nodes do not overlap, snapping is to the nearest line, the viewport
  operations keep their fixed points, and the undo history refines a timeline.
\<close>

section \<open>Sample data for the witnesses\<close>

definition sampleNode :: "string \<Rightarrow> real \<Rightarrow> real \<Rightarrow> CanvasNode" where
  "sampleNode i px py = \<lparr>rectX = px, rectY = py, rectW = 100, rectH = 40, nodeId = i, nodeGroup = None,
     nodeBody = TextBody i ''ink''\<rparr>"

definition sampleCanvas :: CanvasDoc where
  "sampleCanvas = \<lparr>docNodes = [sampleNode ''a'' 0 0, sampleNode ''b'' 50 20, sampleNode ''c'' 0 200],
     docEdges = [\<lparr>edgeId = ''e'', edgeFrom = ''a'', edgeTo = ''b'', edgeLabel = None, edgeColor = ''ink''\<rparr>]\<rparr>"

definition sampleFresh :: "nat \<Rightarrow> string" where
  "sampleFresh k = replicate (k + 2) CHR ''n''"

lemma sampleFresh_new:
  assumes "\<And>i. i \<in> set (nodeIds doc) \<union> set (edgeIds doc) \<Longrightarrow> length i < 2"
  shows "newFor sampleFresh doc"
proof -
  have "inj sampleFresh" by (rule injI) (simp add: sampleFresh_def replicate_eq_replicate)
  moreover have "sampleFresh k \<notin> set (nodeIds doc) \<union> set (edgeIds doc)" for k
    using assms [of "sampleFresh k"] by (auto simp: sampleFresh_def)
  ultimately show ?thesis by (auto simp: newFor_def)
qed

lemma sampleCanvas_ok: "docOk sampleCanvas" "newFor sampleFresh sampleCanvas"
  by (auto simp: docOk_def sampleCanvas_def sampleNode_def nodeIds_def edgeIds_def edgesClosed_def intro!: sampleFresh_new)

section \<open>Documents\<close>

text \<open>C37: Every editing operation of the canvas keeps its document well formed: node and connector
identifiers stay distinct and no connector loses an end, through any sequence of edits whose new
identifiers are new; and a document that is loaded has no dangling connector, whatever was stored.\<close>

theorem canvas_documents_ok:
  assumes "docOk doc" and "enabledRun canvasStep canvasEnabled doc cs"
  shows "docOk (fold (\<lambda>c s. canvasStep s c) cs doc) \<and> edgesClosed (normalizeDoc rawNodes rawEdges)"
  using canvas.run_inv [OF assms] normalizeDoc_closed by simp

theorem canvas_documents_ok_witness:
  "docOk (fold (\<lambda>c s. canvasStep s c) [Duplicate sampleFresh {''a'', ''b''} 24, RemoveAll {''a''}, TidyNodes {''b'', ''c''} 24] sampleCanvas)
   \<and> edgesClosed (normalizeDoc (Some [RawNode (sampleNode ''a'' 0 0), BadNode]) (Some [RawEdge ''e'' (Some ''a'') (Some ''x'') None ''ink'', BadEdge]))"
  by (rule canvas_documents_ok) (simp_all add: sampleCanvas_ok)

text \<open>C38: A duplicated selection is an isomorphic copy under new names: an injective renaming of the chosen
nodes and one of their groups to names that neither the document nor the other renaming uses, everything else of a
node but its offset position kept; exactly the connectors among the chosen nodes copied, with renamed ends and
new, distinct identifiers; the document's own nodes and connectors stay, and the identifiers returned are the
copies'. The identifiers made are distinct and not in use.\<close>

theorem duplicate_isomorphic:
  assumes "docOk doc" and "newNames fresh doc"
  shows "\<exists>M G es. inj_on M (dom M) \<and> dom M = ids \<inter> set (nodeIds doc) \<and> ran M \<inter> docNames doc = {}
    \<and> inj_on G (dom G) \<and> dom G = groupNames (picked ids doc) \<and> ran G \<inter> (docNames doc \<union> ran M) = {}
    \<and> docNodes (fst (duplicate fresh doc ids offset)) = docNodes doc @ map (copyOf offset M G) (picked ids doc)
    \<and> docEdges (fst (duplicate fresh doc ids offset)) = docEdges doc @ es
    \<and> map (edgeShape id) es
        = map (edgeShape (\<lambda>i. the (M i))) (filter (\<lambda>e. edgeFrom e \<in> ids \<and> edgeTo e \<in> ids) (docEdges doc))
    \<and> distinct (map edgeId es) \<and> edgeId ` set es \<inter> (docNames doc \<union> ran M \<union> ran G) = {}
    \<and> snd (duplicate fresh doc ids offset) = ran M"
  by (rule duplicate_copy [OF assms])

definition groupedCanvas :: CanvasDoc where
  "groupedCanvas = mapNodes (\<lambda>n. n\<lparr>nodeGroup := Some ''g''\<rparr>) sampleCanvas"

lemma groupedCanvas_ok: "docOk groupedCanvas" "newNames sampleFresh groupedCanvas"
proof -
  show "docOk groupedCanvas" unfolding groupedCanvas_def by (rule docOk_mapNodes [OF _ sampleCanvas_ok(1)]) simp
  have "docNames groupedCanvas = {''a'', ''b'', ''c'', ''e'', ''g''}"
    by (auto simp: docNames_def groupNames_def groupedCanvas_def mapNodes_def sampleCanvas_def sampleNode_def
        nodeIds_def edgeIds_def groupOf_def asText_def)
  moreover have "inj sampleFresh" using sampleCanvas_ok(2) by (simp add: newFor_def)
  ultimately show "newNames sampleFresh groupedCanvas" by (auto simp: newNames_def sampleFresh_def)
qed

theorem duplicate_isomorphic_witness:
  "\<exists>M G. dom M = {''a'', ''b''} \<and> ran M \<inter> {''a'', ''b'', ''c'', ''e'', ''g''} = {} \<and> dom G = {''g''} \<and> G ''g'' \<noteq> Some ''g''
    \<and> docNodes (fst (duplicate sampleFresh groupedCanvas {''a'', ''b''} 24))
        = docNodes groupedCanvas @ map (copyOf 24 M G) (picked {''a'', ''b''} groupedCanvas)"
proof -
  have names: "docNames groupedCanvas = {''a'', ''b'', ''c'', ''e'', ''g''}" "{''a'', ''b''} \<inter> set (nodeIds groupedCanvas) = {''a'', ''b''}"
    "groupNames (picked {''a'', ''b''} groupedCanvas) = {''g''}"
    by (auto simp: docNames_def groupNames_def groupedCanvas_def mapNodes_def sampleCanvas_def sampleNode_def
        nodeIds_def edgeIds_def groupOf_def asText_def picked_def)
  from duplicate_isomorphic [OF groupedCanvas_ok, of "{''a'', ''b''}" 24, unfolded names] show ?thesis
  proof (elim exE conjE)
    fix M G
    assume copy: "dom M = {''a'', ''b''}" "ran M \<inter> {''a'', ''b'', ''c'', ''e'', ''g''} = {}" "dom G = {''g''}"
      "docNodes (fst (duplicate sampleFresh groupedCanvas {''a'', ''b''} 24))
        = docNodes groupedCanvas @ map (copyOf 24 M G) (picked {''a'', ''b''} groupedCanvas)"
      and "ran G \<inter> ({''a'', ''b'', ''c'', ''e'', ''g''} \<union> ran M) = {}"
    from this(5) have "G ''g'' \<noteq> Some ''g''" by (auto simp: ran_def)
    with copy show ?thesis by (intro exI [of _ M] exI [of _ G] conjI)
  qed
qed

section \<open>Layout\<close>

text \<open>C39: Tidying a selection keeps nodes, sizes and everything outside the selection, and leaves
no two of the nodes it arranges overlapping.\<close>

theorem tidy_no_overlap:
  assumes "docOk doc" and "0 \<le> gap" and "\<And>n. n \<in> set (docNodes doc) \<Longrightarrow> 0 \<le> rectW n \<and> 0 \<le> rectH n"
  shows "\<exists>f. docNodes (tidyNodes doc ids gap) = map f (docNodes doc)
    \<and> (\<forall>n \<in> set (docNodes doc) - set (tidyChosen doc ids). f n = n)
    \<and> (\<forall>n \<in> set (docNodes doc). f n = n\<lparr>rectX := rectX (f n), rectY := rectY (f n)\<rparr>)
    \<and> (\<forall>a \<in> set (tidyChosen doc ids). \<forall>b \<in> set (tidyChosen doc ids). a \<noteq> b \<longrightarrow> \<not> intersects (f a) (f b))"
proof (cases "2 \<le> length (tidyChosen doc ids)")
  case False
  then have "tidyNodes doc ids gap = doc"
    by (simp add: tidyNodes_def Let_def flip: tidyChosen_def split: option.splits)
  moreover have "a = b" if "a \<in> set (tidyChosen doc ids)" "b \<in> set (tidyChosen doc ids)" for a b
    using that False by (cases "tidyChosen doc ids" rule: list.exhaust; cases "tl (tidyChosen doc ids)") auto
  ultimately show ?thesis by (intro exI [of _ id]) auto
next
  case two: True
  let ?ns = "tidyChosen doc ids"
  obtain f where f: "docNodes (tidyNodes doc ids gap) = map f (docNodes doc)" "map f ?ns = tidyGrid doc ids gap"
    "\<forall>n \<in> set (docNodes doc) - set ?ns. f n = n"
    using tidyNodes_grid [OF assms(1) two] by blast
  have apart: "sorted_wrt (apart gap) (map f ?ns)"
    unfolding f(2) by (rule tidyGrid_apart [OF assms(2,3) two])
  have "\<not> intersects (f a) (f b)" if ab: "a \<in> set ?ns" "b \<in> set ?ns" "a \<noteq> b" for a b
  proof -
    obtain i j where ij: "i < length ?ns" "j < length ?ns" "a = ?ns ! i" "b = ?ns ! j"
      using ab by (metis in_set_conv_nth)
    then have "i < j \<or> j < i" using ab(3) by (metis nat_neq_iff)
    then have "apart gap (f a) (f b) \<or> apart gap (f b) (f a)"
      using sorted_wrt_nth_less [OF apart, of i j] sorted_wrt_nth_less [OF apart, of j i] ij by auto
    then show ?thesis using apart_not_intersects assms(2) by blast
  qed
  moreover have "f n = n\<lparr>rectX := rectX (f n), rectY := rectY (f n)\<rparr>" if n: "n \<in> set (docNodes doc)" for n
  proof (cases "n \<in> set ?ns")
    case True
    then obtain k where k: "k < length ?ns" "n = ?ns ! k" by (metis in_set_conv_nth)
    then have "f n = tidyGrid doc ids gap ! k" using f(2) by (metis nth_map)
    moreover have "k < length (tidyGrid doc ids gap)" using f(2) k(1) by (metis length_map)
    ultimately obtain p where "f n = placedAt p n" using k by (simp add: tidyGrid_def tidyPlaced_def)
    then show ?thesis by (simp add: placedAt_def)
  qed (use f(3) n in simp)
  ultimately show ?thesis using f(1,3) by blast
qed

theorem tidy_no_overlap_witness:
  "\<exists>f. docNodes (tidyNodes sampleCanvas {''a'', ''b'', ''c''} 24) = map f (docNodes sampleCanvas)
    \<and> (\<forall>n \<in> set (docNodes sampleCanvas) - set (tidyChosen sampleCanvas {''a'', ''b'', ''c''}). f n = n)
    \<and> (\<forall>n \<in> set (docNodes sampleCanvas). f n = n\<lparr>rectX := rectX (f n), rectY := rectY (f n)\<rparr>)
    \<and> (\<forall>a \<in> set (tidyChosen sampleCanvas {''a'', ''b'', ''c''}). \<forall>b \<in> set (tidyChosen sampleCanvas {''a'', ''b'', ''c''}).
        a \<noteq> b \<longrightarrow> \<not> intersects (f a) (f b))"
  by (rule tidy_no_overlap [OF sampleCanvas_ok(1)])
    (simp, auto simp: sampleCanvas_def sampleNode_def)

text \<open>Cards laid out in rows of four get the drawn identifiers in order, the first card is
centred on the given point, and any two cards are a gap apart.\<close>

theorem laid_out_cards_apart:
  "map nodeId (layoutCards fresh items c) = map fresh [0..<length items]
   \<and> sorted_wrt (apart CARD_GAP) (layoutCards fresh items c)
   \<and> (case items of
        [] \<Rightarrow> True
      | item # _ \<Rightarrow> rectX (hd (layoutCards fresh items c)) = of_int (mathRound (fst c - fst (itemSize item) / 2))
                     \<and> rectY (hd (layoutCards fresh items c)) = of_int (mathRound (snd c - snd (itemSize item) / 2)))"
proof (cases items)
  case Nil
  then show ?thesis by (simp add: layoutCards_def)
next
  case (Cons item rest)
  have "sorted_wrt (apart CARD_GAP) (layoutCards fresh items c)"
    by (simp add: layoutCards_def Let_def placeCards_apart split: prod.splits)
  moreover have "map nodeId (layoutCards fresh items c) = map fresh [0..<length items]"
    by (simp add: layoutCards_def Let_def placeCards_ids split: prod.splits)
  moreover have "rectX (hd (layoutCards fresh items c)) = of_int (mathRound (fst c - fst (itemSize item) / 2))
    \<and> rectY (hd (layoutCards fresh items c)) = of_int (mathRound (snd c - snd (itemSize item) / 2))"
    by (simp add: Cons layoutCards_def Let_def placeCards.simps split: prod.splits)
  ultimately show ?thesis by (simp add: Cons)
qed

text \<open>Snapping moves a box onto the nearest line of another box in each direction, by at most
the threshold, and not at all when no line is within it.\<close>

definition snapsTo :: "real \<Rightarrow> (Rect \<Rightarrow> real list) \<Rightarrow> Rect \<Rightarrow> Rect list \<Rightarrow> real \<Rightarrow> bool" where
  "snapsTo threshold lines moving others d \<longleftrightarrow>
     (let ds = {line - own | line own other. other \<in> set others \<and> line \<in> set (lines other) \<and> own \<in> set (lines moving)} in
      if \<exists>e \<in> ds. \<bar>e\<bar> \<le> threshold then d \<in> ds \<and> (\<forall>e \<in> ds. \<bar>d\<bar> \<le> \<bar>e\<bar>) else d = 0)"

theorem snap_nearest:
  "snapsTo threshold linesX moving others (snapDx (snapRect moving others threshold))
   \<and> snapsTo threshold linesY moving others (snapDy (snapRect moving others threshold))"
proof -
  have main: "snapsTo threshold lines moving others
      (case bestSnap threshold (lines moving) (map lines others) of Some (d, _) \<Rightarrow> d | None \<Rightarrow> 0)"
    for lines :: "Rect \<Rightarrow> real list"
  proof -
    let ?cs = "set (snapCandidates (lines moving) (map lines others))"
    let ?ds = "{line - own | line own other. other \<in> set others \<and> line \<in> set (lines other) \<and> own \<in> set (lines moving)}"
    have ds: "?ds = fst ` ?cs"
    proof (rule set_eqI)
      fix d
      have "d \<in> fst ` ?cs \<longleftrightarrow> (\<exists>at'. (d, at') \<in> ?cs)" by force
      then show "d \<in> ?ds \<longleftrightarrow> d \<in> fst ` ?cs" by (auto simp: snapCandidates_iff)
    qed
    have near: "nearest threshold ?cs (bestSnap threshold (lines moving) (map lines others))"
      by (rule bestSnap_nearest)
    show ?thesis
    proof (cases "bestSnap threshold (lines moving) (map lines others)")
      case None
      then have "\<not> (\<exists>e \<in> fst ` ?cs. \<bar>e\<bar> \<le> threshold)" using near by (force simp: nearest_def)
      then show ?thesis by (simp only: snapsTo_def Let_def ds None option.case if_False)
    next
      case (Some p)
      then have "p \<in> ?cs" "\<bar>fst p\<bar> \<le> threshold" "\<forall>e \<in> fst ` ?cs. \<bar>fst p\<bar> \<le> \<bar>e\<bar>"
        using near by (auto simp: nearest_def)
      then have "fst p \<in> fst ` ?cs" "\<exists>e \<in> fst ` ?cs. \<bar>e\<bar> \<le> threshold" "\<forall>e \<in> fst ` ?cs. \<bar>fst p\<bar> \<le> \<bar>e\<bar>" by auto
      then show ?thesis by (simp only: snapsTo_def Let_def ds Some case_prod_beta option.case if_True)
    qed
  qed
  from main [of linesX] main [of linesY] show ?thesis by (simp add: snapRect_def Let_def)
qed

section \<open>The viewport and the history\<close>

text \<open>Zooming keeps the world point under the pointer where it is and the zoom within its
limits; fitting a rectangle of positive size puts its centre at the middle of the screen.\<close>

theorem viewport_fixed_points:
  "toWorld (zoomAt v factor px py) px py = toWorld v px py
   \<and> MIN_ZOOM \<le> viewZoom (zoomAt v factor px py) \<and> viewZoom (zoomAt v factor px py) \<le> MAX_ZOOM
   \<and> toWorld (fitView (Some r) width height margin) (width / 2) (height / 2)
       = (if rectW r \<le> 0 \<or> rectH r \<le> 0 then (0, 0) else centre r)"
proof -
  have "0 < min (3 / 2) (max MIN_ZOOM q)" for q by (simp add: MIN_ZOOM_def less_max_iff_disj)
  then have "min (3 / 2) (max MIN_ZOOM q) \<noteq> 0" for q by (metis less_irrefl)
  then show ?thesis
    using zoomAt_fixed [of v factor px py] zoomAt_zoom [of v factor px py]
    by (simp add: fitView_def toWorld_def Let_def)
qed

text \<open>C40: The undo history refines a timeline: after any sequence of edits, undos and redos, the past,
the current document and the future are the timeline the abstract commands give, with the cursor at
the current document, and no more than the limit is kept.\<close>

theorem history_refines_timeline:
  "timelineOf (historyRun (doc, newHistory cap) cs) = timelineRun cap ([doc], 0) cs
   \<and> historyOk (historyRun (doc, newHistory cap) cs)
   \<and> fst (historyRun (doc, newHistory cap) cs) = fst (timelineRun cap ([doc], 0) cs) ! snd (timelineRun cap ([doc], 0) cs)"
proof -
  have run: "timelineOf (historyRun (doc, newHistory cap) cs) = timelineRun cap ([doc], 0) cs"
    and ok: "historyOk (historyRun (doc, newHistory cap) cs)"
    using historyRun_refines [OF newHistory_ok(1), of doc cap cs]
    by (simp_all only: newHistory_ok snd_conv)
  obtain ds i where t: "timelineRun cap ([doc], 0) cs = (ds, i)" by fastforce
  show ?thesis using timelineOf_current [OF run [unfolded t]] run ok t by simp
qed

end
