(* ===== verification/AgentModel.thy ===== *)
theory AgentModel
  imports JsText
begin

text \<open>
  The agent loop (\<open>apps/key-office/packages/agent-core/src/loop.ts\<close>, the types of \<open>types.ts\<close>): conversations with a
  model that may ask for tools. The code is asynchronous; what it waits for is a list of activities, each with the
  generation of the loop it belongs to: the start of a run, a summary request, a stream of a turn, the pause before
  a retry, a running tool. \<open>agentStep\<close> is one uninterrupted piece of the code: a call of a method, or an input to an
  activity. Outputs are the events for the user interface and the requests to the transport.

  Parameters: the skill and transport answer through inputs; the format of the instruction is a field
  of the options. The input of a tool call is its JSON text, characters are code units below 256. A user message of a
  run carries the run's number, which stands for the identity of the object. Event handlers are taken not to call
  the loop back.
\<close>

section \<open>Messages\<close>

record AgentToolCall =
  callId :: string
  callName :: string
  callInput :: string
  inputError :: "string option"
  callTruncated :: bool

record AgentToolResult =
  resultId :: string
  resultName :: string
  resultOutput :: string
  resultError :: bool

datatype AgentMessage =
  UserMsg "nat option" string "string list"  \<comment> \<open>run, text, images\<close>
| AssistantMsg string "AgentToolCall list" "string option"  \<comment> \<open>text, toolCalls, reasoning\<close>
| ToolMsg "AgentToolResult list"

record ToolExecution =
  exOutput :: string
  exError :: bool
  exMutated :: bool
  exSummary :: string

fun isUser :: "AgentMessage \<Rightarrow> bool" where
  "isUser (UserMsg _ _ _) = True"
| "isUser _ = False"

section \<open>Options\<close>

record CompactionOptions =
  maxBytes :: "nat option"
  keepRecentBytes :: "nat option"
  disableLlmSummary :: bool

record AgentOptions =
  maxTurns :: "nat option"
  maxHistory :: "nat option"
  compaction :: "CompactionOptions option"  \<comment> \<open>\<open>None\<close> for \<open>false\<close>\<close>
  capturesSnapshot :: bool
  formatUserMessage :: "(string \<Rightarrow> string \<Rightarrow> string) option"
  verifyResponse :: "(string \<Rightarrow> (string \<times> bool) list \<Rightarrow> string option) option"

definition COMPACT_MAX_BYTES :: nat where "COMPACT_MAX_BYTES = 256 * 1024"
definition COMPACT_KEEP_RECENT_BYTES :: nat where "COMPACT_KEEP_RECENT_BYTES = 96 * 1024"
definition SUMMARIZE_TOOL_OUTPUT_MAX :: nat where "SUMMARIZE_TOOL_OUTPUT_MAX = 2000"
definition STALE_TOOL_KEEP_RECENT :: nat where "STALE_TOOL_KEEP_RECENT = 2"
definition STALE_TOOL_OUTPUT_MAX :: nat where "STALE_TOOL_OUTPUT_MAX = 1000"
definition DEFAULT_MAX_TURNS :: nat where "DEFAULT_MAX_TURNS = 100"
definition MAX_INPUT_PARSE_RETRIES :: nat where "MAX_INPUT_PARSE_RETRIES = 3"
definition MAX_IDENTICAL_TURNS :: nat where "MAX_IDENTICAL_TURNS = 3"
definition MAX_ALL_ERROR_TURNS :: nat where "MAX_ALL_ERROR_TURNS = 8"
definition EMPTY_STREAM_RETRY_DELAYS_MS :: "nat list" where "EMPTY_STREAM_RETRY_DELAYS_MS = [1000, 3000]"

definition TURN_LIMIT_NOTE :: string where
  "TURN_LIMIT_NOTE =
     ''[System] The tool-call turn limit for this request has been reached; no more tools may be called this turn. '' @
     ''Answer directly from the information already gathered; if the task is unfinished, briefly state what is done and what remains.''"

definition COMPLETED_VIA_TOOLS_TEXT :: string where
  "COMPLETED_VIA_TOOLS_TEXT = ''(completed tool actions; no text reply)''"

definition COMPACT_SUMMARY_PREFIX :: string where
  "COMPACT_SUMMARY_PREFIX = ''[Summary of earlier conversation''"

definition COMPACT_SUMMARY_HEADER :: string where
  "COMPACT_SUMMARY_HEADER = ''[Summary of earlier conversation (auto-compacted)]''"

definition COMPACT_SUMMARY_ACK :: string where
  "COMPACT_SUMMARY_ACK = ''Understood, continuing from the progress so far.''"

definition newline :: string where "newline = [CHR 0x0A]"

definition maxTurnsOf :: "AgentOptions \<Rightarrow> nat" where
  "maxTurnsOf opts = (case maxTurns opts of Some n \<Rightarrow> n | None \<Rightarrow> DEFAULT_MAX_TURNS)"

text \<open>\<open>compactBudget\<close>: the size that triggers compaction and the size of what is kept.\<close>

definition compactBudget :: "AgentOptions \<Rightarrow> nat \<times> nat" where
  "compactBudget opts =
     (let opt = compaction opts in
      (case Option.bind opt maxBytes of Some n \<Rightarrow> n | None \<Rightarrow> COMPACT_MAX_BYTES,
       case Option.bind opt keepRecentBytes of Some n \<Rightarrow> n | None \<Rightarrow> COMPACT_KEEP_RECENT_BYTES))"

section \<open>Sizes\<close>

definition utf8Size :: "string \<Rightarrow> nat" where
  "utf8Size s = sum_list (map (\<lambda>c. if code c < 0x80 then 1 else if code c < 0x800 then 2 else 3) s)"

fun messageSize :: "AgentMessage \<Rightarrow> nat" where
  "messageSize (ToolMsg results) = sum_list (map (\<lambda>r. utf8Size (resultOutput r) + 40) results)"
| "messageSize (UserMsg _ text images) = utf8Size text + sum_list (map length images)"
| "messageSize (AssistantMsg text calls _) = utf8Size text + sum_list (map (\<lambda>c. utf8Size (callInput c) + 40) calls)"

definition historySize :: "AgentMessage list \<Rightarrow> nat" where
  "historySize messages = sum_list (map messageSize messages)"

fun digestLine :: "AgentMessage \<Rightarrow> string list" where
  "digestLine (UserMsg _ text _) =
     (if startsWith text COMPACT_SUMMARY_PREFIX then [] else [''- User: '' @ take 200 text])"
| "digestLine (AssistantMsg text calls _) = (if text \<noteq> [] \<and> calls = [] then [''  Reply: '' @ take 200 text] else [])"
| "digestLine (ToolMsg _) = []"

definition mechanicalDigest :: "AgentMessage list \<Rightarrow> string" where
  "mechanicalDigest dropped =
     (let digest = take 4000 (join newline (concat (map digestLine dropped)))
      in if digest = [] then ''(earlier conversation omitted)'' else digest)"

section \<open>The state\<close>

text \<open>What the loop waits for.\<close>

datatype AgentThread =
  Beginning nat string "string list"  \<comment> \<open>the rest of \<open>beginRun\<close>, with the text and images of the user message\<close>
| Summarizing nat string "string list" nat string  \<comment> \<open>a summary request: the cut and the text so far\<close>
| Summarized nat string "string list" nat "string option"
| Streaming nat nat  \<comment> \<open>a turn's stream, with \<open>retriesUsed\<close>\<close>
| Backoff nat nat
| Executing nat AgentToolCall "AgentToolCall list" "AgentToolCall list" "AgentToolResult list" bool bool
    \<comment> \<open>the call, the calls after it, all calls, the results so far, \<open>turnMutated\<close>, whether there is a snapshot\<close>

fun threadGeneration :: "AgentThread \<Rightarrow> nat" where
  "threadGeneration (Beginning g _ _) = g"
| "threadGeneration (Summarizing g _ _ _ _) = g"
| "threadGeneration (Summarized g _ _ _ _) = g"
| "threadGeneration (Streaming g _) = g"
| "threadGeneration (Backoff g _) = g"
| "threadGeneration (Executing g _ _ _ _ _ _) = g"

text \<open>\<open>JSON.stringify\<close> of a turn's text, calls and outputs, which determines them.\<close>

type_synonym TurnSig = "string \<times> (string \<times> string) list \<times> string list"

record AgentState =
  msgs :: "AgentMessage list"
  running :: bool
  cancelled :: bool
  turns :: nat
  finalizing :: bool
  mutationSeen :: bool
  inputParseFails :: nat
  lastTurnSig :: "TurnSig option"
  identicalTurns :: nat
  allErrorTurns :: nat
  turnStopReason :: "string option"
  turnText :: string
  turnReasoning :: string
  toolCalls :: "AgentToolCall list"
  executedCalls :: "(string \<times> bool) list"
  verifyRetryUsed :: bool
  runUserMsg :: "nat option"
  generation :: nat
  aborted :: bool
  threads :: "AgentThread list"
  runCount :: nat

definition initialAgent :: AgentState where
  "initialAgent =
     \<lparr>msgs = [], running = False, cancelled = False, turns = 0, finalizing = False, mutationSeen = False,
      inputParseFails = 0, lastTurnSig = None, identicalTurns = 0, allErrorTurns = 0, turnStopReason = None,
      turnText = [], turnReasoning = [], toolCalls = [], executedCalls = [], verifyRetryUsed = False,
      runUserMsg = None, generation = 0, aborted = False, threads = [], runCount = 0\<rparr>"

text \<open>Outputs: the events, and requests with the messages and whether tools are offered.\<close>

datatype AgentOutput =
  OnText string
| OnToolStart AgentToolCall
| OnToolExecuted AgentToolCall ToolExecution bool
| OnTurnEnd
| OnDone string bool bool bool  \<comment> \<open>text, cancelled, turnLimit, truncated\<close>
| OnError string
| TurnRequest "AgentMessage list" bool
| SummaryRequest "AgentMessage list"

section \<open>Trimming and compaction\<close>

fun runOf :: "AgentMessage \<Rightarrow> nat option" where
  "runOf (UserMsg run _ _) = run"
| "runOf _ = None"

definition trimHistory :: "AgentOptions \<Rightarrow> AgentState \<Rightarrow> AgentState" where
  "trimHistory opts st =
     (let most = (case maxHistory opts of Some n \<Rightarrow> n | None \<Rightarrow> 40); h = msgs st in
      if length h \<le> most then st
      else case dropWhile (\<lambda>m. \<not> isUser m) (drop (length h - most) h) of
        [] \<Rightarrow> st
      | next' \<Rightarrow> if runUserMsg st \<noteq> None \<and> runUserMsg st \<notin> set (map runOf next') then st else st\<lparr>msgs := next'\<rparr>)"

text \<open>The loop of \<open>findCompactCut\<close>, on the messages from the last one with their indices.\<close>

fun compactCutLoop :: "nat \<Rightarrow> (nat \<times> AgentMessage) list \<Rightarrow> nat \<Rightarrow> nat option \<Rightarrow> nat option" where
  "compactCutLoop keep [] kept cutAt = cutAt"
| "compactCutLoop keep ((i, m) # rest) kept cutAt =
     (let kept' = kept + messageSize m in
      if keep < kept' \<and> cutAt \<noteq> None then cutAt
      else compactCutLoop keep rest kept' (if isUser m then Some i else cutAt))"

definition findCompactCut :: "nat \<Rightarrow> AgentMessage list \<Rightarrow> nat option" where
  "findCompactCut keep h =
     (case compactCutLoop keep (rev (enumerate 0 h)) 0 None of
        Some i \<Rightarrow> Some i
      | None \<Rightarrow> map_option fst (find (\<lambda>(_, m). isUser m) (rev (enumerate 0 h))))"

definition foldedHistory :: "string \<Rightarrow> nat \<Rightarrow> AgentMessage list \<Rightarrow> AgentMessage list" where
  "foldedHistory summary cutAt h =
     UserMsg None (COMPACT_SUMMARY_HEADER @ newline @ summary) [] # AssistantMsg COMPACT_SUMMARY_ACK [] None # drop cutAt h"

text \<open>The cut of a history over the budget; \<open>None\<close> when nothing is folded.\<close>

definition compactionCut :: "AgentOptions \<Rightarrow> AgentMessage list \<Rightarrow> nat option" where
  "compactionCut opts h =
     (if compaction opts = None \<or> historySize h \<le> fst (compactBudget opts) then None
      else case findCompactCut (snd (compactBudget opts)) h of
        Some i \<Rightarrow> if 0 < i then Some i else None
      | None \<Rightarrow> None)"

fun slimMessage :: "AgentMessage \<Rightarrow> AgentMessage" where
  "slimMessage (ToolMsg results) = ToolMsg (map (\<lambda>r. r\<lparr>resultOutput := take SUMMARIZE_TOOL_OUTPUT_MAX (resultOutput r)\<rparr>) results)"
| "slimMessage (UserMsg run text images) = UserMsg run text []"
| "slimMessage m = m"

definition summaryMessages :: "AgentMessage list \<Rightarrow> AgentMessage list" where
  "summaryMessages dropped =
     map slimMessage dropped @ [UserMsg None ''Compress the conversation above as instructed.'' []]"

fun squashMessage :: "AgentMessage \<Rightarrow> AgentMessage" where
  "squashMessage (ToolMsg results) =
     ToolMsg (map (\<lambda>r. if STALE_TOOL_OUTPUT_MAX < length (resultOutput r)
       then r\<lparr>resultOutput := take STALE_TOOL_OUTPUT_MAX (resultOutput r) @ newline @ ellipsis @ ''(output truncated: too long)''\<rparr>
       else r) results)"
| "squashMessage m = m"

text \<open>The loop of \<open>squashStaleToolOutputs\<close>, from the last message on.\<close>

fun squashFrom :: "nat \<Rightarrow> AgentMessage list \<Rightarrow> AgentMessage list" where
  "squashFrom recent [] = []"
| "squashFrom recent (ToolMsg results # ms) =
     (if recent + 1 \<le> STALE_TOOL_KEEP_RECENT then ToolMsg results else squashMessage (ToolMsg results)) # squashFrom (recent + 1) ms"
| "squashFrom recent (m # ms) = m # squashFrom recent ms"

definition squashStaleToolOutputs :: "AgentOptions \<Rightarrow> AgentState \<Rightarrow> AgentState" where
  "squashStaleToolOutputs opts st =
     (if compaction opts = None \<or> historySize (msgs st) \<le> fst (compactBudget opts) then st
      else st\<lparr>msgs := rev (squashFrom 0 (rev (msgs st)))\<rparr>)"

end
