(* ===== verification/AgentSecrets.thy ===== *)
theory AgentSecrets
  imports Regex
begin

text \<open>
  Redacting secrets in the user's messages (\<open>sanitizeAgentPayload\<close> of \<open>agent-core/src/loop.ts\<close>), and that no API key
  with a known prefix is left. The \<open>i\<close> flag is written out for characters below 256.
\<close>

section \<open>The three expressions\<close>

definition isWordChar :: "char \<Rightarrow> bool" where "isWordChar c = (isAlnum c \<or> c = CHR ''_'')"
definition isKeyChar :: "char \<Rightarrow> bool" where "isKeyChar c = (isWordChar c \<or> c = CHR ''-'')"
definition isQuoteChar :: "char \<Rightarrow> bool" where "isQuoteChar c = (code c = 34 \<or> code c = 39)"

definition wordRe :: "string \<Rightarrow> re" where "wordRe s = seqAll (map lit s)"

text \<open>A word in any case.\<close>

definition caselessRe :: "string \<Rightarrow> re" where "caselessRe s = seqAll (map (\<lambda>c. Class (\<lambda>x. toLower x = c)) s)"

definition keyPrefixes :: "string list" where "keyPrefixes = [''sk-'', ''AIza'', ''ghp_'', ''secret_'']"

definition keyRe :: re where
  "keyRe = Seq (NotBehind isWordChar)
     (Seq (Alt (wordRe ''sk-'') (Alt (wordRe ''AIza'') (Alt (wordRe ''ghp_'') (wordRe ''secret_'')))) (Many isKeyChar 16 None))"

definition credentialRe :: re where
  "credentialRe =
     Seq (Group 1 (seqAll [Class (\<lambda>c. isUpper c \<or> isLower c), Many (\<lambda>c. isAlnum c \<or> c \<in> set ''+.-'') 0 None,
                           lit (CHR '':''), lit (CHR ''/''), lit (CHR ''/''),
                           Many (\<lambda>c. \<not> isSpace c \<and> c \<notin> set '':@/'') 1 None]))
       (Seq (lit (CHR '':'')) (Seq (Many (\<lambda>c. \<not> isSpace c \<and> c \<notin> set ''@/'') 1 None) (lit (CHR ''@''))))"

definition assignmentRe :: re where
  "assignmentRe =
     Seq (Group 1 (Alt (caselessRe ''password'') (Alt (caselessRe ''passwd'') (Alt (caselessRe ''secret_key'') (caselessRe ''private_key'')))))
       (Seq (Group 2 (seqAll [Many isSpace 0 None, Class (\<lambda>c. c \<in> set '':=''), Many isSpace 0 None]))
         (Seq (Class isQuoteChar) (Seq (Many (\<lambda>c. \<not> isQuoteChar c) 1 None) (Class isQuoteChar))))"

definition replaced :: "re \<Rightarrow> (captures \<Rightarrow> string) \<Rightarrow> char option \<Rightarrow> string \<Rightarrow> string" where
  "replaced r f pv s = fst (replaceAll r (\<lambda>m caps u. (f caps, u)) pv s ())"

definition keyText :: "captures \<Rightarrow> string" where "keyText caps = ''[REDACTED_API_KEY]''"
definition credentialText :: "captures \<Rightarrow> string" where "credentialText caps = captured caps 1 @ '':[REDACTED_CREDENTIALS]@''"
definition assignmentText :: "captures \<Rightarrow> string" where
  "assignmentText caps = captured caps 1 @ captured caps 2 @ [CHR 0x22] @ ''[REDACTED_SECURE_TOKEN]'' @ [CHR 0x22]"

definition sanitizeAgentPayload :: "string \<Rightarrow> string" where
  "sanitizeAgentPayload payload =
     replaced assignmentRe assignmentText None
       (replaced credentialRe credentialText None
         (replaced keyRe keyText None payload))"

section \<open>Texts without keys\<close>

text \<open>A known prefix, at the beginning of a word, with at least sixteen characters of a key after it.\<close>

definition keyRun :: "string \<Rightarrow> bool" where
  "keyRun r = list_ex (\<lambda>p. startsWith r p \<and> length p + 16 \<le> length r) keyPrefixes"

definition afterWord :: "char option \<Rightarrow> bool" where
  "afterWord pv = (case pv of Some c \<Rightarrow> isWordChar c | None \<Rightarrow> False)"

definition keyAt :: "char option \<Rightarrow> string \<Rightarrow> bool" where
  "keyAt pv s \<longleftrightarrow> \<not> afterWord pv \<and> keyRun (takeWhile isKeyChar s)"

fun noKey :: "char option \<Rightarrow> string \<Rightarrow> bool" where
  "noKey pv [] = True"
| "noKey pv (c # s) = (\<not> keyAt pv (c # s) \<and> noKey (Some c) s)"

lemma keyRun_Nil [simp]: "\<not> keyRun []"
  by (simp add: keyRun_def list_ex_iff)

lemma keyRun_prefix: "keyRun r \<Longrightarrow> keyRun (r @ t)"
proof -
  assume "keyRun r"
  then obtain p where "p \<in> set keyPrefixes" "take (length p) r = p" "length p + 16 \<le> length r"
    by (auto simp: keyRun_def startsWith_def list_ex_iff)
  moreover from this have "take (length p) (r @ t) = p" "length p + 16 \<le> length (r @ t)" by simp_all
  ultimately show ?thesis unfolding keyRun_def startsWith_def list_ex_iff by blast
qed

lemma keyAt_prefix: "keyAt pv s \<Longrightarrow> takeWhile isKeyChar s' = takeWhile isKeyChar s @ t \<Longrightarrow> keyAt pv s'"
  by (simp add: keyAt_def keyRun_prefix)

text \<open>Texts split where no key can cross.\<close>

definition splits :: "string \<Rightarrow> string \<Rightarrow> bool" where
  "splits a b \<longleftrightarrow> (a \<noteq> [] \<and> \<not> isKeyChar (last a)) \<or> b = [] \<or> \<not> isKeyChar (hd b)"

lemma splits_takeWhile: "splits a b \<Longrightarrow> a \<noteq> [] \<Longrightarrow> takeWhile isKeyChar (a @ b) = takeWhile isKeyChar a"
proof (induction a)
  case (Cons c a)
  show ?case
  proof (cases "a = []")
    case True
    with Cons.prems show ?thesis by (cases b) (auto simp: splits_def)
  next
    case False
    with Cons show ?thesis by (simp add: splits_def)
  qed
qed simp

lemma noKey_append: "splits a b \<Longrightarrow> noKey pv (a @ b) \<longleftrightarrow> noKey pv a \<and> noKey (lastOf pv a) b"
proof (induction a arbitrary: pv)
  case Nil
  then show ?case by (simp add: lastOf_def)
next
  case (Cons c a)
  have same: "keyAt pv (c # a @ b) = keyAt pv (c # a)" using splits_takeWhile [OF Cons.prems] by (simp add: keyAt_def)
  show ?case
  proof (cases "a = []")
    case True
    with same show ?thesis by (simp add: lastOf_def)
  next
    case False
    then have "splits a b" using Cons.prems by (simp add: splits_def)
    with Cons.IH [of "Some c"] same False show ?thesis by (simp add: lastOf_def)
  qed
qed

lemma word_key: "isWordChar c \<Longrightarrow> isKeyChar c"
  by (simp add: isKeyChar_def)

lemma noKey_before: "afterWord pv = afterWord pv' \<Longrightarrow> noKey pv s = noKey pv' s"
  by (cases s) (simp_all add: keyAt_def)

lemma noKey_free: "s = [] \<or> \<not> isKeyChar (hd s) \<Longrightarrow> noKey pv s = noKey pv' s"
  by (cases s) (simp_all add: keyAt_def)

section \<open>Replacing keys\<close>

lemma wordRe_match: "w \<noteq> [] \<Longrightarrow>
  reMatch (wordRe w) (pv, s, caps) = (if startsWith s w then [(Some (last w), drop (length w) s, caps)] else [])"
proof (induction w arbitrary: pv s)
  case (Cons c w)
  show ?case
  proof (cases w)
    case Nil
    then show ?thesis by (cases s) (auto simp: wordRe_def seqAll_def lit_def startsWith_def)
  next
    case (Cons d v)
    then have "wordRe (c # w) = Seq (lit c) (wordRe w)" by (simp add: wordRe_def seqAll_def)
    then show ?thesis using Cons.IH Cons by (cases s) (auto simp: lit_def startsWith_def)
  qed
qed simp

lemma many_key:
  "16 \<le> length (takeWhile isKeyChar s) \<Longrightarrow> \<exists>pv' ps. reMatch (Many isKeyChar 16 None) (pv, s, caps) = (pv', dropWhile isKeyChar s, caps) # ps"
  "length (takeWhile isKeyChar s) < 16 \<Longrightarrow> reMatch (Many isKeyChar 16 None) (pv, s, caps) = []"
proof -
  assume "16 \<le> length (takeWhile isKeyChar s)"
  moreover have "drop (length (takeWhile isKeyChar s)) s = dropWhile isKeyChar s" by (simp add: dropWhile_eq_drop)
  ultimately show "\<exists>pv' ps. reMatch (Many isKeyChar 16 None) (pv, s, caps) = (pv', dropWhile isKeyChar s, caps) # ps"
    by (simp add: runs_def advance_def Let_def)
qed (simp add: runs_def)

text \<open>The matches of a prefix and the characters after it.\<close>

definition keyMatches :: "string \<Rightarrow> char option \<Rightarrow> string \<Rightarrow> position list" where
  "keyMatches p pv s = concat (map (reMatch (Many isKeyChar 16 None)) (reMatch (wordRe p) (pv, s, [])))"

definition keyWith :: "string \<Rightarrow> string \<Rightarrow> bool" where
  "keyWith s p \<longleftrightarrow> startsWith (takeWhile isKeyChar s) p \<and> length p + 16 \<le> length (takeWhile isKeyChar s)"

lemma startsWith_run:
  assumes "list_all isKeyChar p" shows "startsWith (takeWhile isKeyChar s) p = startsWith s p"
    "startsWith s p \<Longrightarrow> takeWhile isKeyChar s = p @ takeWhile isKeyChar (drop (length p) s) \<and> dropWhile isKeyChar s = dropWhile isKeyChar (drop (length p) s)"
proof -
  have split: "takeWhile isKeyChar (p @ u) = p @ takeWhile isKeyChar u" "dropWhile isKeyChar (p @ u) = dropWhile isKeyChar u" for u
    using assms by (induction p) auto
  show two: "takeWhile isKeyChar s = p @ takeWhile isKeyChar (drop (length p) s) \<and> dropWhile isKeyChar s = dropWhile isKeyChar (drop (length p) s)"
    if "startsWith s p"
    using that split [of "drop (length p) s"] unfolding startsWith_def by (metis append_take_drop_id)
  show "startsWith (takeWhile isKeyChar s) p = startsWith s p"
  proof
    assume "startsWith (takeWhile isKeyChar s) p"
    then obtain t where "takeWhile isKeyChar s = p @ t" unfolding startsWith_def by (metis append_take_drop_id)
    then have "s = p @ t @ dropWhile isKeyChar s" by (metis append.assoc takeWhile_dropWhile_id)
    then show "startsWith s p" unfolding startsWith_def by (metis append_eq_conv_conj)
  next
    assume "startsWith s p"
    with two show "startsWith (takeWhile isKeyChar s) p" unfolding startsWith_def by (metis append_eq_conv_conj)
  qed
qed

lemma keyMatches_spec:
  assumes "p \<noteq> []" "list_all isKeyChar p"
  shows "keyWith s p \<Longrightarrow> \<exists>pv' ps. keyMatches p pv s = (pv', dropWhile isKeyChar s, []) # ps" "\<not> keyWith s p \<Longrightarrow> keyMatches p pv s = []"
proof -
  note run = startsWith_run [OF assms(2), of s]
  show "\<exists>pv' ps. keyMatches p pv s = (pv', dropWhile isKeyChar s, []) # ps" if "keyWith s p"
  proof -
    have starts: "startsWith s p" using that run(1) by (simp add: keyWith_def)
    with run(2) that have "16 \<le> length (takeWhile isKeyChar (drop (length p) s))" by (simp add: keyWith_def)
    from many_key(1) [OF this] starts run(2) show ?thesis by (simp add: keyMatches_def wordRe_match assms(1))
  qed
  show "keyMatches p pv s = []" if "\<not> keyWith s p"
  proof (cases "startsWith s p")
    case True
    with run that have "length (takeWhile isKeyChar (drop (length p) s)) < 16" by (simp add: keyWith_def)
    from many_key(2) [OF this] True show ?thesis by (simp add: keyMatches_def wordRe_match assms(1) del: reMatch.simps(2))
  next
    case False
    then show ?thesis by (simp add: keyMatches_def wordRe_match assms(1))
  qed
qed

lemma keyRe_matches:
  "reMatch keyRe (pv, s, []) = (if afterWord pv then [] else concat (map (\<lambda>p. keyMatches p pv s) keyPrefixes))"
  by (cases pv) (simp_all add: keyRe_def keyMatches_def keyPrefixes_def afterWord_def)

lemma keyRe_spec:
  "keyAt pv s \<Longrightarrow> \<exists>pv' ps. reMatch keyRe (pv, s, []) = (pv', dropWhile isKeyChar s, []) # ps"
  "\<not> keyAt pv s \<Longrightarrow> reMatch keyRe (pv, s, []) = []"
proof -
  have good: "p \<noteq> [] \<and> list_all isKeyChar p" if "p \<in> set keyPrefixes" for p
    using that by (auto simp: keyPrefixes_def isKeyChar_def isWordChar_def isAlnum_def isUpper_def isLower_def code_def)
  have key: "keyAt pv s \<longleftrightarrow> \<not> afterWord pv \<and> (\<exists>p\<in>set keyPrefixes. keyWith s p)"
    by (auto simp: keyAt_def keyRun_def keyWith_def list_ex_iff)
  have all: "(\<forall>p\<in>set ps. p \<noteq> [] \<and> list_all isKeyChar p) \<Longrightarrow>
    (if \<exists>p\<in>set ps. keyWith s p then \<exists>pv' qs. concat (map (\<lambda>p. keyMatches p pv s) ps) = (pv', dropWhile isKeyChar s, []) # qs
     else concat (map (\<lambda>p. keyMatches p pv s) ps) = [])" for ps
  proof (induction ps)
    case (Cons p ps)
    then show ?case using keyMatches_spec [of p s pv] by (cases "keyWith s p") (auto split: if_splits)
  qed simp
  show "keyAt pv s \<Longrightarrow> \<exists>pv' ps. reMatch keyRe (pv, s, []) = (pv', dropWhile isKeyChar s, []) # ps"
    "\<not> keyAt pv s \<Longrightarrow> reMatch keyRe (pv, s, []) = []"
    using all [of keyPrefixes] good key by (auto simp: keyRe_matches split: if_splits)
qed

lemma keyRe_matchAt:
  "matchAt keyRe pv s = (if keyAt pv s then Some (takeWhile isKeyChar s, [], dropWhile isKeyChar s) else None)"
proof -
  have "take (length s - length (dropWhile isKeyChar s)) s = takeWhile isKeyChar s"
    by (metis add_diff_cancel_right' append_eq_conv_conj length_append takeWhile_dropWhile_id)
  then show ?thesis using keyRe_spec [of pv s] by (auto simp: matchAt_def)
qed

lemma replaced_simps:
  "replaced r f pv [] = []"
  "replaced r f pv (c # s) =
     (case matchAt r pv (c # s) of
        None \<Rightarrow> c # replaced r f (Some c) s
      | Some (m, caps, t) \<Rightarrow> if length t < length (c # s) then f caps @ replaced r f (lastOf pv m) t else c # replaced r f (Some c) s)"
  by (simp_all add: replaced_def replaceAll.simps split: option.split prod.split)

text \<open>Replacing keys never extends the characters of a key at the beginning, and leaves no key.\<close>

lemma keys_replaced_run: "\<exists>t. takeWhile isKeyChar s = takeWhile isKeyChar (replaced keyRe keyText pv s) @ t"
proof (induction s arbitrary: pv)
  case (Cons c s)
  have "\<not> isKeyChar CHR ''[''" by code_simp
  with Cons [of "Some c"] show ?case
    by (auto simp: replaced_simps keyRe_matchAt keyText_def split: option.split)
qed (simp add: replaced_simps)

lemma takeWhile_free: "s = [] \<or> \<not> isKeyChar (hd s) \<longleftrightarrow> takeWhile isKeyChar s = []"
  by (cases s) auto

lemma keys_replaced: "noKey pv (replaced keyRe keyText pv s)"
proof (induction s arbitrary: pv rule: length_induct)
  case (1 s)
  show ?case
  proof (cases s)
    case Nil
    then show ?thesis by (simp add: replaced_simps)
  next
    case (Cons c u)
    show ?thesis
    proof (cases "keyAt pv s")
      case False
      let ?rest = "replaced keyRe keyText (Some c) u"
      obtain t where "takeWhile isKeyChar u = takeWhile isKeyChar ?rest @ t" using keys_replaced_run by blast
      then have "\<exists>x. takeWhile isKeyChar s = takeWhile isKeyChar (c # ?rest) @ x" using Cons by auto
      then have "\<not> keyAt pv (c # ?rest)" using False keyAt_prefix by blast
      moreover have "noKey (Some c) ?rest" using 1 Cons by simp
      ultimately show ?thesis using False Cons by (simp add: replaced_simps keyRe_matchAt)
    next
      case True
      let ?t = "dropWhile isKeyChar s" and ?m = "takeWhile isKeyChar s"
      let ?rest = "replaced keyRe keyText (lastOf pv ?m) ?t"
      have "?m \<noteq> []" using True by (auto simp: keyAt_def)
      then have short: "length ?t < length s" by (metis append_Nil length_append length_greater_0_conv less_add_same_cancel2 takeWhile_dropWhile_id)
      then have rest: "noKey (lastOf pv ?m) ?rest" using 1 by blast
      obtain x where "takeWhile isKeyChar ?t = takeWhile isKeyChar ?rest @ x" using keys_replaced_run by blast
      moreover have "takeWhile isKeyChar ?t = []" using hd_dropWhile [of isKeyChar s] takeWhile_free by blast
      ultimately have "takeWhile isKeyChar ?rest = []" by simp
      then have "?rest = [] \<or> \<not> isKeyChar (hd ?rest)" by (simp only: takeWhile_free)
      with rest have "noKey (lastOf pv (keyText [])) ?rest" using noKey_free by blast
      moreover have "noKey pv (keyText [])"
      proof -
        have "noKey pv (keyText []) = noKey None (keyText [])" by (rule noKey_free) (code_simp)
        moreover have "noKey None (keyText [])" by code_simp
        ultimately show ?thesis by simp
      qed
      moreover have "splits (keyText []) ?rest" using \<open>?rest = [] \<or> \<not> isKeyChar (hd ?rest)\<close> by (simp add: splits_def)
      ultimately have "noKey pv (keyText [] @ ?rest)" by (simp add: noKey_append)
      then show ?thesis using True Cons short by (simp add: replaced_simps keyRe_matchAt)
    qed
  qed
qed

section \<open>Replacing the rest\<close>

text \<open>A replacement that keeps the text up to a character of no key, and ends with one as its match does.\<close>

definition keepsKeys :: "string \<Rightarrow> string \<Rightarrow> bool" where
  "keepsKeys m out \<longleftrightarrow> m \<noteq> [] \<and> out \<noteq> [] \<and> \<not> isKeyChar (last m) \<and> \<not> isKeyChar (last out) \<and>
     takeWhile isKeyChar out = takeWhile isKeyChar m \<and> (\<forall>pv. noKey pv m \<longrightarrow> noKey pv out)"

lemma takeWhile_stop: "a \<noteq> [] \<Longrightarrow> \<not> isKeyChar (last a) \<Longrightarrow> takeWhile isKeyChar (a @ b) = takeWhile isKeyChar a"
  by (rule splits_takeWhile) (simp_all add: splits_def)

lemma replaced_run:
  assumes keeps: "\<And>pv s m caps t. matchAt r pv s = Some (m, caps, t) \<Longrightarrow> keepsKeys m (f caps)"
  shows "takeWhile isKeyChar (replaced r f pv s) = takeWhile isKeyChar s"
proof (induction s arbitrary: pv)
  case (Cons c s)
  show ?case
  proof (cases "matchAt r pv (c # s)")
    case None
    then show ?thesis by (simp add: replaced_simps Cons)
  next
    case (Some z)
    then obtain m caps t where m: "matchAt r pv (c # s) = Some (m, caps, t)" by (cases z) auto
    note sp = matchAt_append [OF m] and k = keeps [OF m]
    then have "length t < length (c # s)" by (auto simp: keepsKeys_def)
    moreover have "takeWhile isKeyChar (f caps @ x) = takeWhile isKeyChar (c # s)" for x
      using k unfolding sp keepsKeys_def by (metis takeWhile_stop)
    ultimately show ?thesis using m by (simp add: replaced_simps)
  qed
qed (simp add: replaced_simps)

lemma replaced_noKey:
  assumes keeps: "\<And>pv s m caps t. matchAt r pv s = Some (m, caps, t) \<Longrightarrow> keepsKeys m (f caps)"
  shows "noKey pv s \<Longrightarrow> noKey pv (replaced r f pv s)"
proof (induction s arbitrary: pv rule: length_induct)
  case (1 s)
  show ?case
  proof (cases s)
    case Nil
    then show ?thesis by (simp add: replaced_simps)
  next
    case (Cons c u)
    show ?thesis
    proof (cases "matchAt r pv s")
      case None
      have "takeWhile isKeyChar (replaced r f (Some c) u) = takeWhile isKeyChar u" using replaced_run keeps by blast
      then have "keyAt pv (c # replaced r f (Some c) u) = keyAt pv s" by (simp add: keyAt_def Cons)
      with 1 Cons None show ?thesis by (simp add: replaced_simps)
    next
      case (Some z)
      then obtain m caps t where m: "matchAt r pv s = Some (m, caps, t)" by (cases z) auto
      note sp = matchAt_append [OF m] and k = keeps [OF m]
      then have short: "length t < length s" by (auto simp: keepsKeys_def)
      have "splits m t" "splits (f caps) x" for x using k by (auto simp: splits_def keepsKeys_def)
      then have parts: "noKey pv m" "noKey (lastOf pv m) t" "noKey pv (f caps @ x) \<longleftrightarrow> noKey pv (f caps) \<and> noKey (lastOf pv (f caps)) x" for x
        using 1(2) noKey_append unfolding sp by blast+
      have "afterWord (lastOf pv m) = afterWord (lastOf pv (f caps))"
        using k word_key by (auto simp: keepsKeys_def lastOf_def afterWord_def)
      moreover have "noKey (lastOf pv m) (replaced r f (lastOf pv m) t)" using 1(1) short parts(2) by blast
      ultimately have "noKey (lastOf pv (f caps)) (replaced r f (lastOf pv m) t)" using noKey_before by blast
      moreover have "noKey pv (f caps)" using k parts(1) by (simp add: keepsKeys_def)
      ultimately show ?thesis using m short Cons parts(3) by (simp add: replaced_simps)
    qed
  qed
qed

text \<open>Expressions without groups leave the captures alone.\<close>

fun groupFree :: "re \<Rightarrow> bool" where
  "groupFree (Group g a) = False"
| "groupFree (Seq a b) = (groupFree a \<and> groupFree b)"
| "groupFree (Alt a b) = (groupFree a \<and> groupFree b)"
| "groupFree (Opt a) = groupFree a"
| "groupFree _ = True"

lemma groupFree_captures: "(pv', t, caps') \<in> set (reMatch r (pv, s, caps)) \<Longrightarrow> groupFree r \<Longrightarrow> caps' = caps"
proof (induction r arbitrary: pv s caps pv' t caps')
  case (Seq a b)
  then obtain pv1 t1 caps1 where "(pv1, t1, caps1) \<in> set (reMatch a (pv, s, caps))" "(pv', t, caps') \<in> set (reMatch b (pv1, t1, caps1))" by auto
  with Seq.IH(1) [OF this(1)] Seq.IH(2) [OF this(2)] Seq.prems(2) show ?case by simp
qed (auto simp: advance_def split: list.splits option.splits if_splits)

lemma free_match: "(pv', t, caps') \<in> set (reMatch r (pv, s, caps)) \<Longrightarrow> groupFree r \<Longrightarrow> caps' = caps \<and> (\<exists>w. s = w @ t)"
  using groupFree_captures reMatch_suffix by blast

lemma group_match:
  assumes "(pv', t, caps') \<in> set (reMatch (Group g a) (pv, s, caps))" "groupFree a"
  shows "\<exists>w. s = w @ t \<and> caps' = (g, w) # caps"
proof -
  from assms(1) obtain caps'' where a: "(pv', t, caps'') \<in> set (reMatch a (pv, s, caps))" "caps' = (g, take (length s - length t) s) # caps''" by auto
  with free_match [OF a(1) assms(2)] show ?thesis by auto
qed

lemma class_match: "(pv', t, caps') \<in> set (reMatch (Class P) (pv, s, caps)) \<Longrightarrow> caps' = caps \<and> (\<exists>c. P c \<and> s = c # t)"
  by (auto split: list.splits if_splits)

lemma seq_match:
  assumes "(pv', t, caps') \<in> set (reMatch (Seq a b) (pv, s, caps))"
  obtains pv1 t1 caps1 where "(pv1, t1, caps1) \<in> set (reMatch a (pv, s, caps))" "(pv', t, caps') \<in> set (reMatch b (pv1, t1, caps1))"
  using assms by auto

lemma matchAt_matches: "matchAt r pv s = Some (m, caps, t) \<Longrightarrow> \<exists>pv'. (pv', t, caps) \<in> set (reMatch r (pv, s, []))"
  by (auto simp: matchAt_def split: list.splits)

lemma takeWhile_at: "\<not> isKeyChar c \<Longrightarrow> takeWhile isKeyChar (w @ c # y) = takeWhile isKeyChar w"
  by (induction w) auto

text \<open>Keeping the text before a character of no key and replacing the rest, up to another such character.\<close>

lemma keepsKeys_rest:
  assumes "\<not> isKeyChar c" "\<not> isKeyChar d" "C \<noteq> []" "\<not> isKeyChar (hd C)" "\<not> isKeyChar (last C)" "noKey None C"
  shows "keepsKeys (w @ c # x @ [d]) (w @ C)"
proof -
  obtain c' C' where C: "C = c' # C'" using assms(3) by (cases C) auto
  have "noKey pv (w @ C)" if "noKey pv (w @ c # x @ [d])" for pv
  proof -
    have "splits w (c # x @ [d])" "splits w C" using assms(1,4) by (simp_all add: splits_def)
    moreover have "noKey (lastOf pv w) C" using assms(4,6) noKey_free by blast
    ultimately show ?thesis using that noKey_append by blast
  qed
  with assms C show ?thesis by (simp add: keepsKeys_def takeWhile_at)
qed

lemma credential_match:
  assumes "matchAt credentialRe pv s = Some (m, caps, t)"
  obtains w x where "m = w @ CHR '':'' # x @ [CHR ''@'']" "caps = [(1, w)]"
proof -
  from matchAt_matches [OF assms] obtain pv' where "(pv', t, caps) \<in> set (reMatch credentialRe (pv, s, []))" by blast
  then obtain pv1 t1 caps1 pv2 t2 caps2 pv3 t3 caps3 where parts:
    "(pv1, t1, caps1) \<in> set (reMatch (Group 1 (seqAll [Class (\<lambda>c. isUpper c \<or> isLower c), Many (\<lambda>c. isAlnum c \<or> c \<in> set ''+.-'') 0 None,
       lit (CHR '':''), lit (CHR ''/''), lit (CHR ''/''), Many (\<lambda>c. \<not> isSpace c \<and> c \<notin> set '':@/'') 1 None])) (pv, s, []))"
    "(pv2, t2, caps2) \<in> set (reMatch (lit (CHR '':'')) (pv1, t1, caps1))"
    "(pv3, t3, caps3) \<in> set (reMatch (Many (\<lambda>c. \<not> isSpace c \<and> c \<notin> set ''@/'') 1 None) (pv2, t2, caps2))"
    "(pv', t, caps) \<in> set (reMatch (lit (CHR ''@'')) (pv3, t3, caps3))"
    unfolding credentialRe_def by (elim seq_match) (rule that)
  from group_match [OF parts(1)] obtain w where w: "s = w @ t1" "caps1 = [(1, w)]" by (auto simp: seqAll_def lit_def)
  from class_match [OF parts(2) [unfolded lit_def]] have t1: "t1 = CHR '':'' # t2" "caps2 = caps1" by auto
  from free_match [OF parts(3)] obtain x where t2: "t2 = x @ t3" "caps3 = caps2" by auto
  from class_match [OF parts(4) [unfolded lit_def]] have t3: "t3 = CHR ''@'' # t" "caps = caps3" by auto
  have "m @ t = (w @ CHR '':'' # x @ [CHR ''@'']) @ t" using matchAt_append [OF assms] w t1 t2 t3 by simp
  then have "m = w @ CHR '':'' # x @ [CHR ''@'']" by simp
  with that w t1 t2 t3 show thesis by simp
qed

lemma credential_keeps:
  assumes "matchAt credentialRe pv s = Some (m, caps, t)" shows "keepsKeys m (credentialText caps)"
proof (rule credential_match [OF assms])
  fix w x
  assume m: "m = w @ CHR '':'' # x @ [CHR ''@'']" and caps: "caps = [(1, w)]"
  have out: "credentialText caps = w @ '':[REDACTED_CREDENTIALS]@''" by (simp add: caps credentialText_def captured_def)
  have "\<not> isKeyChar CHR '':''" "\<not> isKeyChar CHR ''@''" "noKey None '':[REDACTED_CREDENTIALS]@''" by code_simp+
  then show ?thesis unfolding m out by (intro keepsKeys_rest) simp_all
qed

lemma quote_key: "isQuoteChar c \<Longrightarrow> \<not> isKeyChar c"
  by (auto simp: isQuoteChar_def isKeyChar_def isWordChar_def isAlnum_def isUpper_def isLower_def isDigit_def code_def)

lemma caseless_free: "w \<noteq> [] \<Longrightarrow> groupFree (caselessRe w)"
  unfolding caselessRe_def by (induction w rule: induct_list012) (auto simp: seqAll_def)

lemma assignment_match:
  assumes "matchAt assignmentRe pv s = Some (m, caps, t)"
  obtains v w c x d where "m = (v @ w) @ c # x @ [d]" "isQuoteChar c" "isQuoteChar d" "captured caps 1 = v" "captured caps 2 = w"
    "CHR '':'' \<in> set w \<or> CHR ''='' \<in> set w"
proof -
  from matchAt_matches [OF assms] obtain pv' where "(pv', t, caps) \<in> set (reMatch assignmentRe (pv, s, []))" by blast
  then obtain pv1 t1 caps1 pv2 t2 caps2 pv3 t3 caps3 pv4 t4 caps4 where parts:
    "(pv1, t1, caps1) \<in> set (reMatch (Group 1 (Alt (caselessRe ''password'') (Alt (caselessRe ''passwd'')
       (Alt (caselessRe ''secret_key'') (caselessRe ''private_key''))))) (pv, s, []))"
    "(pv2, t2, caps2) \<in> set (reMatch (Group 2 (Seq (Many isSpace 0 None) (Seq (Class (\<lambda>c. c \<in> set '':='')) (Many isSpace 0 None)))) (pv1, t1, caps1))"
    "(pv3, t3, caps3) \<in> set (reMatch (Class isQuoteChar) (pv2, t2, caps2))"
    "(pv4, t4, caps4) \<in> set (reMatch (Many (\<lambda>c. \<not> isQuoteChar c) 1 None) (pv3, t3, caps3))"
    "(pv', t, caps) \<in> set (reMatch (Class isQuoteChar) (pv4, t4, caps4))"
    unfolding assignmentRe_def by (elim seq_match) (rule that, simp_all add: seqAll_def)
  from group_match [OF parts(1)] obtain v where v: "s = v @ t1" "caps1 = [(1, v)]" by (auto simp: caseless_free)
  from group_match [OF parts(2)] obtain w where w: "t1 = w @ t2" "caps2 = [(2, w), (1, v)]" by (auto simp: v)
  from parts(2) obtain caps0 where "(pv2, t2, caps0) \<in> set (reMatch (Seq (Many isSpace 0 None) (Seq (Class (\<lambda>c. c \<in> set '':='')) (Many isSpace 0 None))) (pv1, t1, caps1))"
    by auto
  then obtain q1 u1 e1 q2 u2 e2 where inner: "(q1, u1, e1) \<in> set (reMatch (Many isSpace 0 None) (pv1, t1, caps1))"
    "(q2, u2, e2) \<in> set (reMatch (Class (\<lambda>c. c \<in> set '':='')) (q1, u1, e1))"
    "(pv2, t2, caps0) \<in> set (reMatch (Many isSpace 0 None) (q2, u2, e2))"
    by (elim seq_match) (rule that)
  from free_match [OF inner(1)] free_match [OF inner(3)] class_match [OF inner(2)]
  obtain y z sep where "t1 = y @ sep # z @ t2" "sep \<in> set '':=''" by auto
  with w(1) have "w = y @ sep # z" by simp
  with \<open>sep \<in> set '':=''\<close> have sep: "CHR '':'' \<in> set w \<or> CHR ''='' \<in> set w" by auto
  from class_match [OF parts(3)] obtain c where t2: "isQuoteChar c" "t2 = c # t3" "caps3 = caps2" by auto
  from free_match [OF parts(4)] obtain x where t3: "t3 = x @ t4" "caps4 = caps3" by auto
  from class_match [OF parts(5)] obtain d where t4: "isQuoteChar d" "t4 = d # t" "caps = caps4" by auto
  have "m @ t = ((v @ w) @ c # x @ [d]) @ t" using matchAt_append [OF assms] v w t2 t3 t4 by simp
  then have "m = (v @ w) @ c # x @ [d]" by simp
  with that [OF _ t2(1) t4(1) _ _ sep] v w t2 t3 t4 show thesis by (simp add: captured_def)
qed

lemma assignment_keeps:
  assumes "matchAt assignmentRe pv s = Some (m, caps, t)" shows "keepsKeys m (assignmentText caps)"
proof (rule assignment_match [OF assms])
  fix v w c x d
  assume m: "m = (v @ w) @ c # x @ [d]" and quotes: "isQuoteChar c" "isQuoteChar d" and caps: "captured caps 1 = v" "captured caps 2 = w"
  let ?C = "[CHR 0x22] @ ''[REDACTED_SECURE_TOKEN]'' @ [CHR 0x22]"
  have out: "assignmentText caps = (v @ w) @ ?C" unfolding assignmentText_def caps by simp
  have "\<not> isKeyChar CHR 0x22" "noKey None ?C" by code_simp+
  then show ?thesis unfolding m out by (intro keepsKeys_rest) (use quote_key quotes in simp_all)
qed

theorem sanitized_noKey: "noKey None (sanitizeAgentPayload payload)"
  unfolding sanitizeAgentPayload_def
  by (intro replaced_noKey keys_replaced) (fact assignment_keeps credential_keeps)+

section \<open>Texts without separators\<close>

text \<open>The first replacement as a scan, and texts that the other two leave alone.\<close>

function redactKeys :: "char option \<Rightarrow> string \<Rightarrow> string" where
  "redactKeys pv [] = []"
| "redactKeys pv (c # s) =
     (if keyAt pv (c # s) then keyText [] @ redactKeys (lastOf pv (takeWhile isKeyChar (c # s))) (dropWhile isKeyChar (c # s))
      else c # redactKeys (Some c) s)"
  by pat_completeness auto
termination
proof (relation "measure (\<lambda>(_, s). length s)")
  fix pv c s
  assume "keyAt pv (c # s)"
  then have "isKeyChar c" by (simp add: keyAt_def split: if_splits)
  then show "((lastOf pv (takeWhile isKeyChar (c # s)), dropWhile isKeyChar (c # s)), pv, c # s) \<in> measure (\<lambda>(_, s). length s)"
    by (simp add: le_imp_less_Suc length_dropWhile_le)
qed simp_all

lemma redactKeys_replaced: "replaced keyRe keyText pv s = redactKeys pv s"
proof (induction pv s rule: redactKeys.induct)
  case (2 pv c s)
  have "isKeyChar c" if "keyAt pv (c # s)" using that by (simp add: keyAt_def split: if_splits)
  then have "length (dropWhile isKeyChar (c # s)) < length (c # s)" if "keyAt pv (c # s)"
    using that by (simp add: le_imp_less_Suc length_dropWhile_le)
  with 2 show ?case by (simp add: replaced_simps keyRe_matchAt keyText_def)
qed (simp add: replaced_simps)

lemma replaced_unmatched:
  assumes "\<And>pv m caps t. matchAt r pv (m @ t) = Some (m, caps, t) \<Longrightarrow> x \<in> set m \<or> y \<in> set m"
  shows "x \<notin> set s \<Longrightarrow> y \<notin> set s \<Longrightarrow> replaced r f pv s = s"
proof (induction s arbitrary: pv)
  case (Cons c s)
  have "matchAt r pv (c # s) = None"
  proof (rule ccontr)
    assume "matchAt r pv (c # s) \<noteq> None"
    then obtain m caps t where m: "matchAt r pv (c # s) = Some (m, caps, t)" by auto
    note sp = matchAt_append [OF m]
    with assms [of pv m t caps] m Cons.prems show False by (metis Un_iff set_append)
  qed
  with Cons show ?case by (simp add: replaced_simps)
qed (simp add: replaced_simps)

lemma sanitize_code [code]:
  "sanitizeAgentPayload payload =
     (let s = redactKeys None payload in
      if CHR '':'' \<notin> set s \<and> CHR ''='' \<notin> set s then s
      else replaced assignmentRe assignmentText None (replaced credentialRe credentialText None s))"
proof -
  have "CHR '':'' \<in> set m \<or> CHR '':'' \<in> set m" if "matchAt credentialRe pv (m @ t) = Some (m, caps, t)" for pv m caps t
    using that by (rule credential_match) simp
  then have credential: "replaced credentialRe credentialText None s = s" if "CHR '':'' \<notin> set s" for s
    using replaced_unmatched [of credentialRe "CHR '':''" "CHR '':''" s] that by blast
  have "CHR '':'' \<in> set m \<or> CHR ''='' \<in> set m" if "matchAt assignmentRe pv (m @ t) = Some (m, caps, t)" for pv m caps t
    using that by (rule assignment_match) auto
  then have assignment: "replaced assignmentRe assignmentText None s = s" if "CHR '':'' \<notin> set s" "CHR ''='' \<notin> set s" for s
    using replaced_unmatched [of assignmentRe "CHR '':''" "CHR ''=''" s] that by blast
  show ?thesis by (simp add: sanitizeAgentPayload_def redactKeys_replaced Let_def credential assignment)
qed

end
