(* ===== verification/AgentLoop.thy ===== *)
theory AgentLoop
  imports AgentModel AgentSecrets
begin

text \<open>The methods of the loop and its step function, with the activities that the code leaves behind.\<close>

type_synonym AgentResult = "AgentState \<times> AgentOutput list"

text \<open>Further code after some that has made outputs.\<close>

definition andThen :: "AgentResult \<Rightarrow> (AgentState \<Rightarrow> AgentResult) \<Rightarrow> AgentResult" where
  "andThen r f = (let (st, outs) = r; (st', outs') = f st in (st', outs @ outs'))"

definition spawn :: "AgentThread \<Rightarrow> AgentState \<Rightarrow> AgentState" where
  "spawn t st = st\<lparr>threads := threads st @ [t]\<rparr>"

section \<open>Turns\<close>

definition startTurn :: "nat \<Rightarrow> AgentState \<Rightarrow> AgentResult" where
  "startTurn retriesUsed st =
     (spawn (Streaming (generation st) retriesUsed)
        (st\<lparr>turnText := [], turnReasoning := [], toolCalls := [], turnStopReason := None\<rparr>),
      [TurnRequest (msgs st) (\<not> finalizing st)])"

definition rollbackFailedRun :: "AgentState \<Rightarrow> AgentState" where
  "rollbackFailedRun st =
     (case runUserMsg st of
        None \<Rightarrow> st
      | Some n \<Rightarrow>
          (case findIndex (\<lambda>m. runOf m = Some n) (rev (msgs st)) of
             None \<Rightarrow> st\<lparr>runUserMsg := None\<rparr>
           | Some j \<Rightarrow> st\<lparr>runUserMsg := None, msgs := take (length (msgs st) - 1 - j) (msgs st)\<rparr>))"

definition failRun :: "string \<Rightarrow> AgentState \<Rightarrow> AgentResult" where
  "failRun message st = (rollbackFailedRun (st\<lparr>running := False\<rparr>), [OnError message])"

text \<open>Removes the last turn limit note.\<close>

fun dropFirst :: "('a \<Rightarrow> bool) \<Rightarrow> 'a list \<Rightarrow> 'a list" where
  "dropFirst P [] = []"
| "dropFirst P (x # xs) = (if P x then xs else x # dropFirst P xs)"

fun isNote :: "AgentMessage \<Rightarrow> bool" where
  "isNote (UserMsg _ text _) = (text = TURN_LIMIT_NOTE)"
| "isNote _ = False"

definition dropNote :: "AgentMessage list \<Rightarrow> AgentMessage list" where
  "dropNote h = rev (dropFirst isNote (rev h))"

definition finalTurn :: "AgentState \<Rightarrow> AgentResult" where
  "finalTurn st =
     (let h = (if finalizing st then dropNote (msgs st) else msgs st) in
      (st\<lparr>msgs := h @ [AssistantMsg (if turnText st = [] then COMPLETED_VIA_TOOLS_TEXT else turnText st) [] None],
          running := False, runUserMsg := None\<rparr>,
       [OnDone (turnText st) (cancelled st) (finalizing st)
          (turnStopReason st = Some ''max_tokens'' \<and> \<not> cancelled st)]))"

section \<open>Running the tools of a turn\<close>

definition turnSignature :: "AgentState \<Rightarrow> AgentToolCall list \<Rightarrow> AgentToolResult list \<Rightarrow> TurnSig" where
  "turnSignature st calls results = (turnText st, map (\<lambda>c. (callName c, callInput c)) calls, map resultOutput results)"

definition nextTurn :: "AgentOptions \<Rightarrow> AgentState \<Rightarrow> AgentResult" where
  "nextTurn opts st =
     (let st1 = st\<lparr>turns := turns st + 1\<rparr>;
          st2 = (if maxTurnsOf opts \<le> turns st1
                 then st1\<lparr>finalizing := True, msgs := msgs st1 @ [UserMsg None TURN_LIMIT_NOTE []]\<rparr> else st1);
          st3 = squashStaleToolOutputs opts st2
      in andThen (st3, [OnTurnEnd]) (startTurn 0))"

definition afterTools :: "AgentOptions \<Rightarrow> AgentToolCall list \<Rightarrow> AgentToolResult list \<Rightarrow> bool \<Rightarrow> AgentState \<Rightarrow> AgentResult" where
  "afterTools opts calls results turnMutated st0 =
     (let st = st0\<lparr>msgs := msgs st0 @ [ToolMsg results]\<rparr> in
      if cancelled st then (st\<lparr>running := False, runUserMsg := None\<rparr>, [OnDone (turnText st) True False False])
      else if MAX_INPUT_PARSE_RETRIES \<le> inputParseFails st then
        failRun (''Tool input was unusable (unparseable or truncated) '' @ natStr MAX_INPUT_PARSE_RETRIES @
                 '' times in a row; retries stopped, please send the request again'') st
      else
        let st1 = st\<lparr>allErrorTurns := if list_all resultError results then allErrorTurns st + 1 else 0\<rparr> in
        if MAX_ALL_ERROR_TURNS \<le> allErrorTurns st1 then
          failRun (''Every tool call failed for '' @ natStr MAX_ALL_ERROR_TURNS @
                   '' turns in a row; the run was stopped. Please send the request again'') st1
        else
          let sig = turnSignature st1 calls results in
          if Some sig = lastTurnSig st1 \<and> \<not> turnMutated then
            let st2 = st1\<lparr>identicalTurns := identicalTurns st1 + 1\<rparr> in
            if MAX_IDENTICAL_TURNS \<le> identicalTurns st2 then
              failRun ''The model kept repeating the exact same turn without making progress; the run was stopped. Please send the request again'' st2
            else nextTurn opts st2
          else nextTurn opts (st1\<lparr>lastTurnSig := Some sig, identicalTurns := 0\<rparr>))"

definition stoppedResult :: "AgentToolCall \<Rightarrow> AgentToolResult" where
  "stoppedResult c =
     \<lparr>resultId = callId c, resultName = callName c,
      resultOutput = ''(the user stopped the run; this tool was not executed)'', resultError = True\<rparr>"

definition unusableInput :: "AgentToolCall \<Rightarrow> bool" where
  "unusableInput c \<longleftrightarrow> callTruncated c \<or> (inputError c \<noteq> None \<and> inputError c \<noteq> Some [])"

definition unusableOutput :: "AgentToolCall \<Rightarrow> string" where
  "unusableOutput c =
     (if callTruncated c
      then ''Tool arguments were cut off by the output length limit; the tool was not executed. Split this operation into several smaller tool calls (less content per call) and try again.''
      else ''Tool input JSON failed to parse; the tool was not executed: '' @ (case inputError c of Some e \<Rightarrow> e | None \<Rightarrow> []) @ newline @
           ''Fix the arguments (make sure quotes inside strings are escaped) and call again.'')"

text \<open>The loop over the calls, up to the next tool that runs.\<close>

fun toolLoop :: "AgentOptions \<Rightarrow> AgentToolCall list \<Rightarrow> AgentToolCall list \<Rightarrow> AgentToolResult list \<Rightarrow> bool \<Rightarrow> AgentState \<Rightarrow> AgentResult" where
  "toolLoop opts [] calls results turnMutated st = afterTools opts calls results turnMutated st"
| "toolLoop opts (c # rest) calls results turnMutated st =
     (if cancelled st then toolLoop opts rest calls (results @ [stoppedResult c]) turnMutated st
      else if unusableInput c then
        let output = unusableOutput c in
        andThen (st\<lparr>inputParseFails := inputParseFails st + 1\<rparr>,
                 [OnToolExecuted c \<lparr>exOutput = output, exError = True, exMutated = False, exSummary = callName c\<rparr> False])
          (toolLoop opts rest calls
             (results @ [\<lparr>resultId = callId c, resultName = callName c, resultOutput = output, resultError = True\<rparr>]) turnMutated)
      else
        (spawn (Executing (generation st) c rest calls results turnMutated (\<not> mutationSeen st \<and> capturesSnapshot opts))
           (st\<lparr>inputParseFails := 0\<rparr>),
         [OnToolStart c]))"

definition toolFinished ::
  "AgentOptions \<Rightarrow> AgentToolCall \<Rightarrow> AgentToolCall list \<Rightarrow> AgentToolCall list \<Rightarrow> AgentToolResult list \<Rightarrow> bool \<Rightarrow> bool
   \<Rightarrow> ToolExecution \<Rightarrow> AgentState \<Rightarrow> AgentResult" where
  "toolFinished opts c rest calls results turnMutated snapshot execution st =
     (let firstMutation = exMutated execution \<and> \<not> mutationSeen st;
          st1 = st\<lparr>executedCalls := executedCalls st @ [(callName c, \<not> exError execution)],
                   mutationSeen := mutationSeen st \<or> exMutated execution\<rparr>
      in andThen (st1, [OnToolExecuted c execution (firstMutation \<and> snapshot)])
           (toolLoop opts rest calls
              (results @ [\<lparr>resultId = callId c, resultName = callName c, resultOutput = exOutput execution,
                           resultError = exError execution\<rparr>])
              (turnMutated \<or> exMutated execution)))"

definition storedCall :: "AgentToolCall \<Rightarrow> AgentToolCall" where
  "storedCall c = c\<lparr>inputError := None, callTruncated := False\<rparr>"

text \<open>The correction that \<open>verifyResponse\<close> asks for, at most once a run.\<close>

definition correctionOf :: "AgentOptions \<Rightarrow> AgentState \<Rightarrow> string option" where
  "correctionOf opts st =
     (if toolCalls st \<noteq> [] \<or> cancelled st \<or> finalizing st \<or> verifyRetryUsed st \<or> turnText st = [] then None
      else case verifyResponse opts of
        None \<Rightarrow> None
      | Some verify \<Rightarrow>
          (case verify (turnText st) (executedCalls st) of Some c \<Rightarrow> if c = [] then None else Some c | None \<Rightarrow> None))"

definition finishTurn :: "AgentOptions \<Rightarrow> AgentState \<Rightarrow> AgentResult" where
  "finishTurn opts st =
     (case correctionOf opts st of
        Some correction \<Rightarrow>
          startTurn 0 (st\<lparr>verifyRetryUsed := True,
            msgs := msgs st @ [AssistantMsg (turnText st) [] None, UserMsg None correction []]\<rparr>)
      | None \<Rightarrow>
          if toolCalls st = [] \<or> cancelled st \<or> finalizing st then finalTurn st
          else
            toolLoop opts (toolCalls st) (toolCalls st) [] False
              (st\<lparr>msgs := msgs st @ [AssistantMsg (turnText st) (map storedCall (toolCalls st))
                     (if turnReasoning st = [] then None else Some (turnReasoning st))]\<rparr>))"

section \<open>Beginning a run\<close>

definition run ::  "AgentOptions \<Rightarrow> string \<Rightarrow> string \<Rightarrow> string list \<Rightarrow> AgentState \<Rightarrow> AgentResult" where
  "run opts instruction context' images st =
     (if running st \<or> instruction = [] then (st, [])
      else
        let st1 = st\<lparr>running := True, cancelled := False, turns := 0, finalizing := False, mutationSeen := False,
                     inputParseFails := 0, lastTurnSig := None, identicalTurns := 0, allErrorTurns := 0,
                     executedCalls := [], verifyRetryUsed := False, aborted := False\<rparr>;
            text = (case formatUserMessage opts of
                      Some format \<Rightarrow> format instruction context'
                    | None \<Rightarrow> if context' = [] then instruction else instruction @ newline @ newline @ context')
        in case compactionCut opts (msgs st1) of
             None \<Rightarrow> (spawn (Beginning (generation st1) text images) st1, [])
           | Some i \<Rightarrow>
               if (case compaction opts of Some opt \<Rightarrow> disableLlmSummary opt | None \<Rightarrow> False)
               then (spawn (Beginning (generation st1) text images)
                       (st1\<lparr>msgs := foldedHistory (mechanicalDigest (take i (msgs st1))) i (msgs st1)\<rparr>), [])
               else (spawn (Summarizing (generation st1) text images i []) st1,
                     [SummaryRequest (summaryMessages (take i (msgs st1)))]))"

fun dropReasoning :: "AgentMessage \<Rightarrow> AgentMessage" where
  "dropReasoning (AssistantMsg text calls _) = AssistantMsg text calls None"
| "dropReasoning m = m"

text \<open>The rest of \<open>beginRun\<close>, when the generation is still the loop's.\<close>

definition beginRun :: "AgentOptions \<Rightarrow> string \<Rightarrow> string list \<Rightarrow> AgentState \<Rightarrow> AgentResult" where
  "beginRun opts text images st =
     (if cancelled st then (st\<lparr>running := False\<rparr>, [OnDone [] True False False])
      else
        let answered = rev (dropWhile isUser (rev (msgs st)));
            trimmed = trimHistory opts (st\<lparr>msgs := answered\<rparr>);
            n = runCount st
        in startTurn 0 (trimmed\<lparr>
             msgs := map dropReasoning (msgs trimmed) @ [UserMsg (Some n) (sanitizeAgentPayload text) images],
             runUserMsg := Some n, runCount := n + 1\<rparr>))"

section \<open>Other methods\<close>

text \<open>Restored messages are other objects than the messages of runs.\<close>

fun restoredMessage :: "AgentMessage \<Rightarrow> AgentMessage" where
  "restoredMessage (AssistantMsg text calls reasoning) =
     AssistantMsg (if text = [] then COMPLETED_VIA_TOOLS_TEXT else text) calls reasoning"
| "restoredMessage (UserMsg _ text images) = UserMsg None text images"
| "restoredMessage m = m"

fun answeredOnly :: "AgentMessage list \<Rightarrow> AgentMessage list" where
  "answeredOnly [] = []"
| "answeredOnly (m # ms) =
     (if \<not> isUser m \<or> (case ms of next' # _ \<Rightarrow> \<not> isUser next' | [] \<Rightarrow> False) then m # answeredOnly ms else answeredOnly ms)"

definition restore :: "AgentOptions \<Rightarrow> AgentMessage list \<Rightarrow> AgentState \<Rightarrow> AgentState" where
  "restore opts messages st =
     (if running st \<or> msgs st \<noteq> [] \<or> messages = [] then st
      else
        let h = answeredOnly (map restoredMessage (filter (\<lambda>m. \<not> isNote m) messages)) in
        if h = [] then st\<lparr>msgs := h\<rparr>
        else trimHistory opts (st\<lparr>msgs :=
          (case compactionCut opts h of None \<Rightarrow> h | Some i \<Rightarrow> foldedHistory (mechanicalDigest (take i h)) i h)\<rparr>))"

text \<open>\<open>cancel\<close> and \<open>reset\<close>; the handle's \<open>cancel\<close> asks the transport to end the stream.\<close>

definition cancel :: "AgentState \<Rightarrow> AgentState" where
  "cancel st = (if running st then st\<lparr>cancelled := True, aborted := True\<rparr> else st)"

definition reset :: "AgentState \<Rightarrow> AgentState" where
  "reset st =
     st\<lparr>generation := generation st + 1, aborted := True, running := False, cancelled := False, msgs := [], runUserMsg := None\<rparr>"

section \<open>Steps\<close>

datatype ThreadInput =
  Continue
| SummaryDelta string | SummaryDone | SummaryFailed  \<comment> \<open>also the timeout\<close>
| Delta string | Reasoning string | ToolCalled AgentToolCall | StopReason string | StreamDone | StreamError string
| BackoffOver
| ToolFinished ToolExecution | ToolThrew string

datatype AgentLabel =
  DoRun string string "string list"  \<comment> \<open>instruction, context, images\<close>
| DoRestore "AgentMessage list"
| DoCancel
| DoReset
| Wake nat ThreadInput

definition emptyStream :: "string \<Rightarrow> bool" where
  "emptyStream error = strIncludes error ''(empty stream)''"

definition streamError :: "nat \<Rightarrow> string \<Rightarrow> AgentState \<Rightarrow> AgentResult" where
  "streamError retriesUsed error st =
     (if retriesUsed < length EMPTY_STREAM_RETRY_DELAYS_MS \<and> emptyStream error \<and> \<not> cancelled st \<and> turnText st = [] \<and> toolCalls st = []
      then (spawn (Backoff (generation st) retriesUsed) st, [])
      else failRun error st)"

text \<open>An input to an activity of the loop's generation, which has been taken from the list.\<close>

definition liveStep :: "AgentOptions \<Rightarrow> AgentThread \<Rightarrow> ThreadInput \<Rightarrow> AgentState \<Rightarrow> AgentResult option" where
  "liveStep opts t input st =
     (case t of
        Beginning g text images \<Rightarrow> (case input of Continue \<Rightarrow> Some (beginRun opts text images st) | _ \<Rightarrow> None)
      | Summarizing g text images i s \<Rightarrow>
          (case input of
             SummaryDelta d \<Rightarrow> Some (spawn (Summarizing g text images i (s @ d)) st, [])
           | SummaryDone \<Rightarrow> Some (spawn (Summarized g text images i (if trim s = [] then None else Some (trim s))) st, [])
           | SummaryFailed \<Rightarrow> Some (spawn (Summarized g text images i None) st, [])
           | _ \<Rightarrow> None)
      | Summarized g text images i s \<Rightarrow>
          (case input of
             Continue \<Rightarrow>
               Some (spawn (Beginning g text images)
                 (st\<lparr>msgs := foldedHistory (case s of Some summary \<Rightarrow> summary | None \<Rightarrow> mechanicalDigest (take i (msgs st))) i (msgs st)\<rparr>), [])
           | _ \<Rightarrow> None)
      | Streaming g r \<Rightarrow>
          (case input of
             Delta d \<Rightarrow> Some (spawn t (st\<lparr>turnText := turnText st @ d\<rparr>), [OnText (turnText st @ d)])
           | Reasoning d \<Rightarrow> Some (spawn t (st\<lparr>turnReasoning := turnReasoning st @ d\<rparr>), [])
           | ToolCalled c \<Rightarrow> Some (spawn t (st\<lparr>toolCalls := toolCalls st @ [c]\<rparr>), [])
           | StopReason reason \<Rightarrow> Some (spawn t (st\<lparr>turnStopReason := Some reason\<rparr>), [])
           | StreamDone \<Rightarrow> Some (finishTurn opts st)
           | StreamError e \<Rightarrow> Some (streamError r e st)
           | _ \<Rightarrow> None)
      | Backoff g r \<Rightarrow>
          (case input of BackoffOver \<Rightarrow> Some (if cancelled st then finishTurn opts st else startTurn (r + 1) st) | _ \<Rightarrow> None)
      | Executing g c rest calls results mutated snapshot \<Rightarrow>
          (case input of
             ToolFinished e \<Rightarrow> Some (toolFinished opts c rest calls results mutated snapshot e st)
           | ToolThrew e \<Rightarrow>
               Some (toolFinished opts c rest calls results mutated snapshot
                 \<lparr>exOutput = e, exError = True, exMutated = False, exSummary = callName c\<rparr> st)
           | _ \<Rightarrow> None))"

text \<open>Activities of an older generation do nothing: they end, or go on ignoring their inputs.\<close>

definition wake :: "AgentOptions \<Rightarrow> nat \<Rightarrow> ThreadInput \<Rightarrow> AgentState \<Rightarrow> AgentResult option" where
  "wake opts k input st =
     (case nthOpt (threads st) k of
        None \<Rightarrow> None
      | Some t \<Rightarrow>
          let st' = st\<lparr>threads := take k (threads st) @ drop (k + 1) (threads st)\<rparr> in
          if threadGeneration t \<noteq> generation st then Some (st', []) else liveStep opts t input st')"

fun agentStep :: "AgentOptions \<Rightarrow> AgentLabel \<Rightarrow> AgentState \<Rightarrow> AgentResult option" where
  "agentStep opts (DoRun instruction context' images) st = Some (run opts instruction context' images st)"
| "agentStep opts (DoRestore messages) st = Some (restore opts messages st, [])"
| "agentStep opts DoCancel st = Some (cancel st, [])"
| "agentStep opts DoReset st = Some (reset st, [])"
| "agentStep opts (Wake k input) st = wake opts k input st"

end
