(* ===== verification/AgentInvariant.thy ===== *)
theory AgentInvariant
  imports AgentLoop
begin

text \<open>
  The invariant of the agent loop: a busy loop has exactly one activity of its generation, and the conversation
  has the form that model providers accept.
\<close>

section \<open>Conversations\<close>

text \<open>
  Every message of the assistant that asks for tools is followed by the results of these tools, in their order; no
  results stand elsewhere, and a message without calls has text.
\<close>

fun paired :: "AgentMessage list \<Rightarrow> bool" where
  "paired [] = True"
| "paired (UserMsg n text images # ms) = paired ms"
| "paired (ToolMsg results # ms) = False"
| "paired (AssistantMsg text [] r # ms) = (text \<noteq> [] \<and> paired ms)"
| "paired (AssistantMsg text (c # cs) r # ToolMsg results # ms) =
     (map resultId results = map callId (c # cs) \<and> map resultName results = map callName (c # cs) \<and> paired ms)"
| "paired (AssistantMsg text (c # cs) r # ms) = False"

definition apart :: "AgentMessage list \<Rightarrow> bool" where
  "apart h \<longleftrightarrow> successively (\<lambda>a b. \<not> (isUser a \<and> isUser b)) h"

definition conversation :: "AgentMessage list \<Rightarrow> bool" where
  "conversation h \<longleftrightarrow> paired h \<and> apart h"

fun asks :: "AgentMessage \<Rightarrow> bool" where
  "asks (AssistantMsg _ _ _) = False"
| "asks _ = True"

text \<open>What is sent to a model: a conversation that ends with the user or with results of tools.\<close>

definition requestOk :: "AgentMessage list \<Rightarrow> bool" where
  "requestOk h \<longleftrightarrow> conversation h \<and> h \<noteq> [] \<and> asks (last h)"

lemma paired_append: "paired h \<Longrightarrow> paired (h @ t) \<longleftrightarrow> paired t"
  by (induction h rule: paired.induct) auto

lemma isUser_cases: "isUser m \<Longrightarrow> \<exists>n s images. m = UserMsg n s images"
  by (cases m) auto

lemma paired_split_user: "paired (h @ UserMsg n s images # t) \<Longrightarrow> paired h \<and> paired t"
  by (induction h rule: paired.induct) auto

lemma paired_split: "paired (h @ m # t) \<Longrightarrow> isUser m \<Longrightarrow> paired h \<and> paired t"
  using paired_split_user isUser_cases by blast

lemma paired_user: "isUser m \<Longrightarrow> paired (m # t) = paired t"
  by (cases m) auto

lemma apart_append: "apart (h @ t) \<longleftrightarrow> apart h \<and> apart t \<and> (h = [] \<or> t = [] \<or> \<not> (isUser (last h) \<and> isUser (hd t)))"
  by (auto simp: apart_def successively_append_iff)

lemma apart_Nil [simp]: "apart []" and apart_single [simp]: "apart [m]"
  by (simp_all add: apart_def)

lemma apart_Cons: "apart (m # t) \<longleftrightarrow> apart t \<and> (t = [] \<or> \<not> (isUser m \<and> isUser (hd t)))"
  using apart_append [of "[m]" t] by auto

lemma conversation_Nil [simp]: "conversation []"
  by (simp add: conversation_def)

lemma conversation_append: "conversation h \<Longrightarrow> conversation t \<Longrightarrow> \<not> isUser (hd t) \<Longrightarrow> conversation (h @ t)"
  using paired_append [of h t] apart_append [of h t] by (simp add: conversation_def)

lemma conversation_prefix: "conversation (h @ m # t) \<Longrightarrow> isUser m \<Longrightarrow> conversation h"
  using paired_split [of h m t] by (simp add: conversation_def apart_append)

lemma conversation_suffix: "conversation (h @ m # t) \<Longrightarrow> isUser m \<Longrightarrow> conversation (m # t)"
  using paired_split [of h m t] by (simp add: conversation_def apart_append paired_user)

section \<open>Shapes\<close>

text \<open>A message without the texts that the loop may shorten or drop later.\<close>

fun shapeOf :: "AgentMessage \<Rightarrow> AgentMessage" where
  "shapeOf (AssistantMsg text calls r) = AssistantMsg text calls None"
| "shapeOf (ToolMsg results) = ToolMsg (map (\<lambda>r. r\<lparr>resultOutput := []\<rparr>) results)"
| "shapeOf m = m"

lemma isUser_shape [simp]: "isUser (shapeOf m) = isUser m"
  by (cases m) auto

lemma asks_shape [simp]: "asks (shapeOf m) = asks m"
  by (cases m) auto

lemma runOf_shape [simp]: "runOf (shapeOf m) = runOf m"
  by (cases m) auto

lemma shape_user: "isUser m \<Longrightarrow> shapeOf m = m"
  by (cases m) auto

lemma paired_shape: "paired (map shapeOf h) = paired h"
  by (induction h rule: paired.induct) (auto simp: comp_def)

lemma apart_shape: "apart (map shapeOf h) = apart h"
  by (simp add: apart_def successively_map)

lemma conversation_shape: "map shapeOf h' = map shapeOf h \<Longrightarrow> conversation h' = conversation h"
  by (metis conversation_def paired_shape apart_shape)

lemma requestOk_shape:
  assumes "map shapeOf h' = map shapeOf h" shows "requestOk h' = requestOk h"
proof -
  have "h' = [] \<longleftrightarrow> h = []" using assms by (metis list.map_disc_iff)
  moreover have "h \<noteq> [] \<Longrightarrow> h' \<noteq> [] \<Longrightarrow> asks (last h') = asks (last h)"
    using assms by (metis asks_shape last_map)
  ultimately show ?thesis using conversation_shape [OF assms] by (auto simp: requestOk_def)
qed

lemma squashFrom_shape: "map shapeOf (squashFrom n h) = map shapeOf h"
  by (induction n h rule: squashFrom.induct) (auto simp: comp_def)

lemma squash_shape: "map shapeOf (msgs (squashStaleToolOutputs opts st)) = map shapeOf (msgs st)"
  by (simp add: squashStaleToolOutputs_def squashFrom_shape flip: rev_map)

lemma dropReasoning_shape: "shapeOf (dropReasoning m) = shapeOf m"
  by (cases m) auto

section \<open>What trimming and folding keep\<close>

lemma dropWhile_suffix: "\<exists>a. h = a @ dropWhile P h"
  by (metis takeWhile_dropWhile_id)

lemma trim_msgs: "msgs (trimHistory opts st) = msgs st \<or> (\<exists>a m t. msgs st = a @ m # t \<and> isUser m \<and> msgs (trimHistory opts st) = m # t)"
proof -
  let ?n = "length (msgs st) - (case maxHistory opts of Some n \<Rightarrow> n | None \<Rightarrow> 40)"
  show ?thesis
  proof (cases "dropWhile (\<lambda>m. \<not> isUser m) (drop ?n (msgs st))")
    case Nil
    then show ?thesis by (simp add: trimHistory_def Let_def del: dropWhile_eq_Nil_conv)
  next
    case (Cons m t)
    have "msgs st = take ?n (msgs st) @ takeWhile (\<lambda>m. \<not> isUser m) (drop ?n (msgs st)) @ m # t"
      using Cons by (metis append_take_drop_id takeWhile_dropWhile_id)
    then have "\<exists>a. msgs st = a @ m # t" by (metis append.assoc)
    moreover have "isUser m" using Cons by (metis dropWhile_eq_Cons_conv)
    moreover have "msgs (trimHistory opts st) = msgs st \<or> msgs (trimHistory opts st) = m # t"
      using Cons by (simp add: trimHistory_def Let_def)
    ultimately show ?thesis by blast
  qed
qed

lemma trim_set: "set (msgs (trimHistory opts st)) \<subseteq> set (msgs st)"
  using trim_msgs [of opts st] by auto

lemma trim_parts:
  "running (trimHistory opts st) = running st \<and> threads (trimHistory opts st) = threads st \<and> generation (trimHistory opts st) = generation st \<and>
   runUserMsg (trimHistory opts st) = runUserMsg st \<and> runCount (trimHistory opts st) = runCount st \<and>
   finalizing (trimHistory opts st) = finalizing st \<and> turns (trimHistory opts st) = turns st \<and>
   verifyRetryUsed (trimHistory opts st) = verifyRetryUsed st \<and> cancelled (trimHistory opts st) = cancelled st"
  by (simp add: trimHistory_def Let_def split: list.split)

lemma trim_conversation: "conversation (msgs st) \<Longrightarrow> conversation (msgs (trimHistory opts st))"
  using trim_msgs [of opts st] conversation_suffix by fastforce

lemma trim_keeps_last: "msgs st \<noteq> [] \<Longrightarrow> msgs (trimHistory opts st) \<noteq> [] \<and> last (msgs (trimHistory opts st)) = last (msgs st)"
  using trim_msgs [of opts st] by fastforce

definition cutOk :: "nat \<Rightarrow> AgentMessage list \<Rightarrow> bool" where
  "cutOk i h \<longleftrightarrow> i < length h \<and> isUser (h ! i)"

lemma compactCutLoop_user:
  "compactCutLoop keep ims kept c = Some i \<Longrightarrow> (\<forall>(j, m)\<in>set ims. m = h ! j \<and> j < length h) \<Longrightarrow> (\<forall>j. c = Some j \<longrightarrow> cutOk j h) \<Longrightarrow> cutOk i h"
proof (induction ims arbitrary: kept c)
  case (Cons jm ims)
  obtain j m where jm: "jm = (j, m)" by force
  show ?case
  proof (cases "keep < kept + messageSize m \<and> c \<noteq> None")
    case True
    with Cons.prems jm show ?thesis by simp
  next
    case False
    with Cons.prems(1) jm have "compactCutLoop keep ims (kept + messageSize m) (if isUser m then Some j else c) = Some i"
      by (simp only: compactCutLoop.simps Let_def if_False)
    then show ?thesis
    proof (rule Cons.IH)
      show "\<forall>(j, m)\<in>set ims. m = h ! j \<and> j < length h" using Cons.prems(2) by simp
      show "\<forall>k. (if isUser m then Some j else c) = Some k \<longrightarrow> cutOk k h" using Cons.prems(2,3) jm by (simp add: cutOk_def)
    qed
  qed
qed simp

lemma findCompactCut_user: "findCompactCut keep h = Some i \<Longrightarrow> cutOk i h"
proof -
  assume found: "findCompactCut keep h = Some i"
  have all: "\<forall>(j, m)\<in>set (rev (enumerate 0 h)). m = h ! j \<and> j < length h" by (auto simp: in_set_enumerate_eq)
  show ?thesis
  proof (cases "compactCutLoop keep (rev (enumerate 0 h)) 0 None")
    case (Some j)
    with found compactCutLoop_user [OF Some all] show ?thesis by (simp add: findCompactCut_def)
  next
    case None
    with found obtain p where "find (\<lambda>(_, m). isUser m) (rev (enumerate 0 h)) = Some p" "fst p = i"
      by (auto simp: findCompactCut_def)
    with find_Some_in [OF this(1)] all show ?thesis by (auto simp: cutOk_def)
  qed
qed

lemma compactionCut_user: "compactionCut opts h = Some i \<Longrightarrow> cutOk i h"
  by (auto simp: compactionCut_def findCompactCut_user split: if_splits option.splits)

lemma folded_conversation:
  assumes "conversation h" "cutOk i h" shows "conversation (foldedHistory summary i h)"
proof -
  have "h = take i h @ h ! i # drop (Suc i) h" using assms(2) by (simp add: cutOk_def id_take_nth_drop)
  with assms have "conversation (h ! i # drop (Suc i) h)" by (metis conversation_suffix cutOk_def)
  then have "conversation (drop i h)" using assms(2) by (simp add: cutOk_def Cons_nth_drop_Suc)
  then show ?thesis by (auto simp: foldedHistory_def conversation_def apart_Cons COMPACT_SUMMARY_ACK_def)
qed

lemma folded_runs: "set (map runOf (foldedHistory summary i h)) \<subseteq> insert None (set (map runOf h))"
  by (auto simp: foldedHistory_def dest: in_set_dropD)

section \<open>The invariant\<close>

text \<open>The message of the running run stands once in the conversation.\<close>

definition inRun :: "AgentState \<Rightarrow> bool" where
  "inRun st \<longleftrightarrow>
     (\<exists>n before s images after. runUserMsg st = Some n \<and> msgs st = before @ UserMsg (Some n) s images # after \<and>
        Some n \<notin> set (map runOf before) \<and> Some n \<notin> set (map runOf after))"

text \<open>The bound on the turns with tools; the turn after them ends with the note.\<close>

definition turnBound :: "AgentOptions \<Rightarrow> nat" where
  "turnBound opts = max 1 (maxTurnsOf opts)"

definition turnsOk :: "AgentOptions \<Rightarrow> AgentState \<Rightarrow> bool" where
  "turnsOk opts st \<longleftrightarrow>
     (if finalizing st then \<exists>h. msgs st = h @ [UserMsg None TURN_LIMIT_NOTE []] \<and> conversation h else turns st < turnBound opts)"

definition freshRun :: "AgentState \<Rightarrow> bool" where
  "freshRun st \<longleftrightarrow> conversation (msgs st) \<and> runUserMsg st = None \<and> \<not> finalizing st \<and> turns st = 0 \<and> \<not> verifyRetryUsed st"

definition streamOk :: "AgentOptions \<Rightarrow> AgentState \<Rightarrow> bool" where
  "streamOk opts st \<longleftrightarrow> requestOk (msgs st) \<and> inRun st \<and> turnsOk opts st"

text \<open>The results so far and the calls still to run are those of the calls of the turn.\<close>

definition callsOk :: "AgentToolCall list \<Rightarrow> AgentToolResult list \<Rightarrow> AgentToolCall list \<Rightarrow> bool" where
  "callsOk calls results rest \<longleftrightarrow>
     map resultId results @ map callId rest = map callId calls \<and> map resultName results @ map callName rest = map callName calls"

definition toolsOk :: "AgentOptions \<Rightarrow> AgentToolCall list \<Rightarrow> AgentState \<Rightarrow> bool" where
  "toolsOk opts calls st \<longleftrightarrow>
     calls \<noteq> [] \<and> inRun st \<and> \<not> finalizing st \<and> turns st < turnBound opts \<and>
     (\<exists>h s r. msgs st = h @ [AssistantMsg s (map storedCall calls) r] \<and> requestOk h)"

definition liveInv :: "AgentOptions \<Rightarrow> AgentState \<Rightarrow> AgentThread \<Rightarrow> bool" where
  "liveInv opts st t =
     (case t of
        Beginning _ _ _ \<Rightarrow> freshRun st
      | Summarizing _ _ _ i _ \<Rightarrow> freshRun st \<and> cutOk i (msgs st)
      | Summarized _ _ _ i _ \<Rightarrow> freshRun st \<and> cutOk i (msgs st)
      | Streaming _ r \<Rightarrow> streamOk opts st \<and> r \<le> 2
      | Backoff _ r \<Rightarrow> streamOk opts st \<and> r < 2
      | Executing _ c rest calls results _ _ \<Rightarrow> toolsOk opts calls st \<and> callsOk calls results (c # rest))"

definition older :: "AgentState \<Rightarrow> AgentThread list \<Rightarrow> bool" where
  "older st ts \<longleftrightarrow> (\<forall>t\<in>set ts. threadGeneration t < generation st)"

definition runsKnown :: "AgentState \<Rightarrow> bool" where
  "runsKnown st \<longleftrightarrow> (\<forall>m\<in>set (msgs st). \<forall>n. runOf m = Some n \<longrightarrow> n < runCount st)"

definition agentInv :: "AgentOptions \<Rightarrow> AgentState \<Rightarrow> bool" where
  "agentInv opts st \<longleftrightarrow>
     runsKnown st \<and>
     (if running st
      then \<exists>ts1 t ts2. threads st = ts1 @ t # ts2 \<and> older st ts1 \<and> older st ts2 \<and> threadGeneration t = generation st \<and> liveInv opts st t
      else older st (threads st) \<and> conversation (msgs st) \<and> runUserMsg st = None)"

text \<open>Outputs whose requests are well formed.\<close>

definition outsOk :: "AgentOutput list \<Rightarrow> bool" where
  "outsOk outs \<longleftrightarrow> (\<forall>h tools. TurnRequest h tools \<in> set outs \<longrightarrow> requestOk h)"

definition goodResult :: "AgentOptions \<Rightarrow> AgentResult \<Rightarrow> bool" where
  "goodResult opts r \<longleftrightarrow> agentInv opts (fst r) \<and> outsOk (snd r)"

lemma outsOk_append: "outsOk (xs @ ys) \<longleftrightarrow> outsOk xs \<and> outsOk ys"
  unfolding outsOk_def set_append by blast

lemma andThen_good: "outsOk outs \<Longrightarrow> goodResult opts (f st) \<Longrightarrow> goodResult opts (andThen (st, outs) f)"
  by (auto simp: andThen_def goodResult_def outsOk_append split: prod.splits)

lemma outsOk_simps [simp]: "outsOk []" "outsOk (out # outs) \<longleftrightarrow> outsOk outs \<and> (\<forall>h tools. out = TurnRequest h tools \<longrightarrow> requestOk h)"
  by (auto simp: outsOk_def)

section \<open>The methods keep it\<close>

lemma spawn_simps [simp]:
  "msgs (spawn t st) = msgs st" "running (spawn t st) = running st" "threads (spawn t st) = threads st @ [t]"
  "generation (spawn t st) = generation st" "runUserMsg (spawn t st) = runUserMsg st" "runCount (spawn t st) = runCount st"
  "finalizing (spawn t st) = finalizing st" "turns (spawn t st) = turns st" "verifyRetryUsed (spawn t st) = verifyRetryUsed st"
  "cancelled (spawn t st) = cancelled st" "toolCalls (spawn t st) = toolCalls st" "turnText (spawn t st) = turnText st"
  by (simp_all add: spawn_def)

lemma older_mono [simp]: "older (spawn t st) ts = older st ts"
  by (simp add: older_def)

lemma older_Nil [simp]: "older st []"
  by (simp add: older_def)

lemma spawn_good:
  assumes "running st" "older st (threads st)" "runsKnown st" "threadGeneration t = generation st" "liveInv opts (spawn t st) t"
  shows "agentInv opts (spawn t st)"
proof -
  have "runsKnown (spawn t st)" using assms(3) by (simp add: runsKnown_def)
  moreover have "threads (spawn t st) = threads st @ t # []" by simp
  ultimately show ?thesis unfolding agentInv_def using assms by (metis older_Nil older_mono spawn_simps(2,4))
qed

lemma startTurn_good:
  assumes "running st" "older st (threads st)" "runsKnown st" "streamOk opts st" "r \<le> 2"
  shows "goodResult opts (startTurn r st)"
proof -
  let ?st = "st\<lparr>turnText := [], turnReasoning := [], toolCalls := [], turnStopReason := None\<rparr>"
  have "agentInv opts (spawn (Streaming (generation st) r) ?st)"
    by (rule spawn_good) (use assms in \<open>auto simp: older_def runsKnown_def liveInv_def streamOk_def inRun_def turnsOk_def\<close>)
  then show ?thesis using assms(4) by (simp add: goodResult_def startTurn_def streamOk_def)
qed

lemma findIndex_append: "\<forall>x\<in>set xs. \<not> P x \<Longrightarrow> P y \<Longrightarrow> findIndex P (xs @ y # ys) = Some (length xs)"
  by (induction xs) auto

text \<open>Rolling back removes the run's message and everything after it.\<close>

lemma rollback_msgs:
  assumes "inRun st"
  shows "rollbackFailedRun st = st\<lparr>runUserMsg := None, msgs := takeWhile (\<lambda>m. runOf m \<noteq> runUserMsg st) (msgs st)\<rparr>"
proof -
  obtain n b s images a where run: "runUserMsg st = Some n" "msgs st = b @ UserMsg (Some n) s images # a"
    "Some n \<notin> set (map runOf b)" "Some n \<notin> set (map runOf a)" using assms by (auto simp: inRun_def)
  have a: "findIndex (\<lambda>m. runOf m = Some n) (rev a @ UserMsg (Some n) s images # rev b) = Some (length (rev a))"
    by (rule findIndex_append) (use run(4) in \<open>auto simp: image_iff\<close>)
  have "takeWhile (\<lambda>m. runOf m \<noteq> Some n) (b @ UserMsg (Some n) s images # a) = b"
    using run(3) by (subst takeWhile_append2) (auto simp: image_iff)
  with run(1,2) a show ?thesis by (simp add: rollbackFailedRun_def)
qed

lemma rollback_good:
  assumes "inRun st" "older st (threads st)" "runsKnown st" "conversation (msgs st)"
  shows "agentInv opts (rollbackFailedRun (st\<lparr>running := False\<rparr>))"
proof -
  obtain n b s images a where run: "runUserMsg st = Some n" "msgs st = b @ UserMsg (Some n) s images # a"
    "Some n \<notin> set (map runOf b)" using assms(1) by (auto simp: inRun_def)
  have "takeWhile (\<lambda>m. runOf m \<noteq> Some n) (b @ UserMsg (Some n) s images # a) = b"
    using run(3) by (subst takeWhile_append2) (auto simp: image_iff)
  moreover have "inRun (st\<lparr>running := False\<rparr>)" using assms(1) by (simp add: inRun_def)
  moreover have "conversation b" using assms(4) run(2) conversation_prefix by (metis isUser.simps(1))
  ultimately show ?thesis
    using assms(2,3) run(1,2) by (auto simp: rollback_msgs agentInv_def older_def runsKnown_def)
qed

lemma failRun_good:
  assumes "inRun st" "older st (threads st)" "runsKnown st" "conversation (msgs st)"
  shows "goodResult opts (failRun message st)"
  using rollback_good [OF assms] by (simp add: goodResult_def failRun_def)

lemma inRun_runs: "inRun st \<longleftrightarrow> (\<exists>n. runUserMsg st = Some n \<and> count_list (map runOf (msgs st)) (Some n) = 1)"
proof
  assume "inRun st"
  then show "\<exists>n. runUserMsg st = Some n \<and> count_list (map runOf (msgs st)) (Some n) = 1"
    unfolding inRun_def by (force simp: count_list_0_iff)
next
  assume "\<exists>n. runUserMsg st = Some n \<and> count_list (map runOf (msgs st)) (Some n) = 1"
  then obtain n where n: "runUserMsg st = Some n" "count_list (map runOf (msgs st)) (Some n) = 1" by blast
  then have "Some n \<in> set (map runOf (msgs st))" by (metis count_list_0_iff zero_neq_one)
  then obtain m where "m \<in> set (msgs st)" "runOf m = Some n" by auto
  then obtain b a where split: "msgs st = b @ m # a" by (meson split_list)
  with n(2) \<open>runOf m = Some n\<close> have "count_list (map runOf b) (Some n) = 0 \<and> count_list (map runOf a) (Some n) = 0" by simp
  then have "Some n \<notin> set (map runOf b)" "Some n \<notin> set (map runOf a)" by (simp_all add: count_list_0_iff)
  moreover obtain s images where "m = UserMsg (Some n) s images" using \<open>runOf m = Some n\<close> by (cases m) auto
  ultimately show "inRun st" using n(1) split by (auto simp: inRun_def)
qed

lemma inRun_shape:
  assumes "map shapeOf (msgs st') = map shapeOf (msgs st)" "runUserMsg st' = runUserMsg st" "inRun st"
  shows "inRun st'"
proof -
  have "map runOf (msgs st') = map (runOf \<circ> shapeOf) (msgs st')" by (simp add: comp_def)
  also have "\<dots> = map runOf (msgs st)" using assms(1) by (metis (no_types, lifting) list.map_comp comp_def map_eq_conv runOf_shape)
  finally show ?thesis using assms(2,3) by (simp add: inRun_runs)
qed

lemma inRun_more:
  "inRun st \<Longrightarrow> runUserMsg st' = runUserMsg st \<Longrightarrow> msgs st' = msgs st @ added \<Longrightarrow> set (map runOf added) \<subseteq> {None} \<Longrightarrow> inRun st'"
  by (auto simp: inRun_runs count_list_0_iff)

lemma turnsOk_shape:
  assumes "map shapeOf (msgs st') = map shapeOf (msgs st)" "finalizing st' = finalizing st" "turns st' = turns st" "turnsOk opts st"
  shows "turnsOk opts st'"
proof (cases "finalizing st")
  case True
  with assms(4) obtain h where h: "msgs st = h @ [UserMsg None TURN_LIMIT_NOTE []]" "conversation h" by (auto simp: turnsOk_def)
  with assms(1) obtain h' m where h': "msgs st' = h' @ [m]" "map shapeOf h' = map shapeOf h" "shapeOf m = UserMsg None TURN_LIMIT_NOTE []"
    by (auto simp: map_eq_append_conv append_eq_map_conv)
  then have "m = UserMsg None TURN_LIMIT_NOTE []" by (cases m) auto
  with h' h(2) True assms(2) conversation_shape [OF h'(2)] show ?thesis by (auto simp: turnsOk_def)
qed (use assms in \<open>simp add: turnsOk_def\<close>)

lemma finalTurn_good:
  assumes "older st (threads st)" "runsKnown st" "conversation (msgs st)" "turnsOk opts st"
  shows "goodResult opts (finalTurn st)"
proof -
  let ?h = "if finalizing st then dropNote (msgs st) else msgs st"
  have "conversation ?h \<and> set ?h \<subseteq> set (msgs st)"
    using assms(3,4) by (cases "finalizing st") (auto simp: turnsOk_def dropNote_def)
  then show ?thesis
    using assms(1,2)
    by (auto simp: goodResult_def finalTurn_def agentInv_def older_def runsKnown_def conversation_def paired_append apart_append
          COMPLETED_VIA_TOOLS_TEXT_def)
qed

lemma squash_parts:
  "running (squashStaleToolOutputs opts st) = running st \<and> threads (squashStaleToolOutputs opts st) = threads st \<and>
   generation (squashStaleToolOutputs opts st) = generation st \<and> runUserMsg (squashStaleToolOutputs opts st) = runUserMsg st \<and>
   runCount (squashStaleToolOutputs opts st) = runCount st \<and> finalizing (squashStaleToolOutputs opts st) = finalizing st \<and>
   turns (squashStaleToolOutputs opts st) = turns st \<and> verifyRetryUsed (squashStaleToolOutputs opts st) = verifyRetryUsed st \<and>
   cancelled (squashStaleToolOutputs opts st) = cancelled st"
  by (simp add: squashStaleToolOutputs_def)

lemma runsKnown_shape:
  assumes "map shapeOf (msgs st') = map shapeOf (msgs st)" "runCount st' = runCount st" "runsKnown st" shows "runsKnown st'"
proof -
  have "runOf ` set (msgs st') = runOf ` shapeOf ` set (msgs st')" by (simp add: image_image)
  also have "\<dots> = runOf ` shapeOf ` set (msgs st)" using arg_cong [OF assms(1), of set] by simp
  finally have "runOf ` set (msgs st') = runOf ` set (msgs st)" by (simp add: image_image)
  then show ?thesis using assms(2,3) unfolding runsKnown_def by (metis imageE imageI)
qed

lemma conversation_user: "conversation h \<Longrightarrow> \<not> (h \<noteq> [] \<and> isUser (last h)) \<Longrightarrow> requestOk (h @ [UserMsg n s images])"
  by (auto simp: requestOk_def conversation_def paired_append apart_append)

lemma nextTurn_good:
  assumes "running st" "older st (threads st)" "runsKnown st" "inRun st" "\<not> finalizing st" "turns st < turnBound opts"
    "conversation (msgs st)" "msgs st = h @ [ToolMsg results]"
  shows "goodResult opts (nextTurn opts st)"
proof -
  let ?st1 = "st\<lparr>turns := turns st + 1\<rparr>"
  let ?st2 = "if maxTurnsOf opts \<le> turns ?st1
                 then ?st1\<lparr>finalizing := True, msgs := msgs ?st1 @ [UserMsg None TURN_LIMIT_NOTE []]\<rparr> else ?st1"
  let ?st3 = "squashStaleToolOutputs opts ?st2"
  have asked: "requestOk (msgs st)" using assms(7,8) by (simp add: requestOk_def)
  have noted: "requestOk (msgs st @ [UserMsg None TURN_LIMIT_NOTE []])" using assms(7,8) by (intro conversation_user) simp_all
  have "inRun ?st2" using inRun_more [OF assms(4), of _ "[]"] inRun_more [OF assms(4), of _ "[UserMsg None TURN_LIMIT_NOTE []]"] by simp
  then have two: "running ?st2" "older ?st2 (threads ?st2)" "runsKnown ?st2" "inRun ?st2" "turnsOk opts ?st2" "requestOk (msgs ?st2)"
    using assms(1-3,5-7) asked noted by (auto simp: older_def runsKnown_def turnsOk_def turnBound_def)
  have shape: "map shapeOf (msgs ?st3) = map shapeOf (msgs ?st2)" by (rule squash_shape)
  have "goodResult opts (startTurn 0 ?st3)"
  proof (rule startTurn_good)
    show "streamOk opts ?st3"
      using two(4-6) inRun_shape [OF shape] turnsOk_shape [OF shape] requestOk_shape [OF shape] squash_parts [of opts ?st2]
      by (auto simp: streamOk_def)
    show "runsKnown ?st3" using runsKnown_shape [OF shape] two(3) squash_parts [of opts ?st2] by blast
    show "running ?st3" "older ?st3 (threads ?st3)" using two(1,2) squash_parts [of opts ?st2] by (simp_all only: older_def)
  qed simp
  then show ?thesis unfolding nextTurn_def Let_def by (intro andThen_good) simp_all
qed

section \<open>Tools\<close>

lemma good_if: "(c \<Longrightarrow> goodResult opts a) \<Longrightarrow> (\<not> c \<Longrightarrow> goodResult opts b) \<Longrightarrow> goodResult opts (if c then a else b)"
  by simp

lemma stored_calls [simp]: "callId (storedCall c) = callId c" "callName (storedCall c) = callName c"
  by (simp_all add: storedCall_def)

lemma toolsOk_results:
  assumes "toolsOk opts calls st" "callsOk calls results []"
  shows "conversation (msgs st @ [ToolMsg results])" "inRun (st\<lparr>msgs := msgs st @ [ToolMsg results]\<rparr>)"
proof -
  obtain h s r where h: "msgs st = h @ [AssistantMsg s (map storedCall calls) r]" "requestOk h" "calls \<noteq> []"
    using assms(1) by (auto simp: toolsOk_def)
  obtain c cs where "calls = c # cs" using h(3) by (cases calls) auto
  then have "paired [AssistantMsg s (map storedCall calls) r, ToolMsg results]"
    using assms(2) by (simp add: callsOk_def comp_def)
  moreover have "apart [AssistantMsg s (map storedCall calls) r, ToolMsg results]" by (simp add: apart_def)
  ultimately have "conversation [AssistantMsg s (map storedCall calls) r, ToolMsg results]" by (simp only: conversation_def)
  with conversation_append [of h] h(2) have "conversation (h @ [AssistantMsg s (map storedCall calls) r, ToolMsg results])"
    by (simp only: requestOk_def list.sel isUser.simps not_False_eq_True)
  then show "conversation (msgs st @ [ToolMsg results])" by (simp only: h(1) append.assoc append.simps)
  show "inRun (st\<lparr>msgs := msgs st @ [ToolMsg results]\<rparr>)"
    by (rule inRun_more [where st = st and added = "[ToolMsg results]"]) (use assms(1) in \<open>simp_all add: toolsOk_def\<close>)
qed

lemma afterTools_good:
  assumes "running st" "older st (threads st)" "runsKnown st" "toolsOk opts calls st" "callsOk calls results []"
  shows "goodResult opts (afterTools opts calls results mutated st)"
proof -
  let ?st = "st\<lparr>msgs := msgs st @ [ToolMsg results]\<rparr>"
  note done' = toolsOk_results [OF assms(4,5)]
  have known: "runsKnown ?st" using assms(3) by (auto simp: runsKnown_def)
  have fail: "goodResult opts (failRun message st')"
    if "msgs st' = msgs ?st" "runUserMsg st' = runUserMsg st" "runCount st' = runCount st" "threads st' = threads st" "generation st' = generation st" for message st'
    by (rule failRun_good) (use that done' known assms(2) in \<open>auto simp: inRun_def older_def runsKnown_def\<close>)
  have next': "goodResult opts (nextTurn opts st')"
    if "msgs st' = msgs ?st" "runUserMsg st' = runUserMsg st" "runCount st' = runCount st" "threads st' = threads st" "generation st' = generation st"
      "running st'" "finalizing st' = finalizing st" "turns st' = turns st" for st'
    by (rule nextTurn_good [where h = "msgs st" and results = results])
       (use that done' known assms(2,4) in \<open>auto simp: inRun_def older_def runsKnown_def toolsOk_def\<close>)
  have stopped: "goodResult opts (?st\<lparr>running := False, runUserMsg := None\<rparr>, [OnDone (turnText ?st) True False False])"
    using done'(1) known assms(2) by (simp add: goodResult_def agentInv_def older_def runsKnown_def)
  show ?thesis unfolding afterTools_def Let_def
    by (intro good_if stopped fail next') (simp_all add: assms(1))
qed

lemma toolLoop_good:
  assumes "running st" "older st (threads st)" "runsKnown st" "toolsOk opts calls st" "callsOk calls results rest"
  shows "goodResult opts (toolLoop opts rest calls results mutated st)"
  using assms
proof (induction rest arbitrary: results st)
  case Nil
  then show ?case using afterTools_good by simp
next
  case (Cons c rest)
  have calls: "callsOk calls (results @ [r]) rest" if "resultId r = callId c" "resultName r = callName c" for r
    using Cons.prems(5) that by (simp add: callsOk_def)
  consider (stop) "cancelled st" | (bad) "\<not> cancelled st" "unusableInput c" | (runs) "\<not> cancelled st" "\<not> unusableInput c" by blast
  then show ?case
  proof cases
    case stop
    then show ?thesis using Cons.IH [OF Cons.prems(1-4) calls] by (simp add: stoppedResult_def)
  next
    case bad
    let ?r = "\<lparr>resultId = callId c, resultName = callName c, resultOutput = unusableOutput c, resultError = True\<rparr>"
    have "goodResult opts (toolLoop opts rest calls (results @ [?r]) mutated (st\<lparr>inputParseFails := inputParseFails st + 1\<rparr>))"
      by (rule Cons.IH) (use Cons.prems(1-4) calls in \<open>auto simp: older_def runsKnown_def toolsOk_def inRun_def\<close>)
    with bad show ?thesis by (simp add: Let_def andThen_good)
  next
    case runs
    let ?t = "Executing (generation st) c rest calls results mutated (\<not> mutationSeen st \<and> capturesSnapshot opts)"
    have "agentInv opts (spawn ?t (st\<lparr>inputParseFails := 0\<rparr>))"
      by (rule spawn_good)
         (use Cons.prems in \<open>auto simp: older_def runsKnown_def toolsOk_def inRun_def liveInv_def\<close>)
    with runs show ?thesis by (simp add: goodResult_def)
  qed
qed

lemma toolFinished_good:
  assumes "running st" "older st (threads st)" "runsKnown st" "toolsOk opts calls st" "callsOk calls results (c # rest)"
  shows "goodResult opts (toolFinished opts c rest calls results mutated snapshot e st)"
  unfolding toolFinished_def Let_def
  by (intro andThen_good toolLoop_good)
     (use assms in \<open>auto simp: older_def runsKnown_def toolsOk_def inRun_def callsOk_def\<close>)

section \<open>Turns and runs\<close>

lemma finishTurn_good:
  assumes "running st" "older st (threads st)" "runsKnown st" "streamOk opts st"
  shows "goodResult opts (finishTurn opts st)"
proof (cases "correctionOf opts st")
  case (Some correction)
  let ?st = "st\<lparr>verifyRetryUsed := True, msgs := msgs st @ [AssistantMsg (turnText st) [] None, UserMsg None correction []]\<rparr>"
  have "turnText st \<noteq> []" "\<not> finalizing st" using Some by (auto simp: correctionOf_def split: if_splits)
  moreover have "conversation (msgs st @ [AssistantMsg (turnText st) [] None])"
    using \<open>turnText st \<noteq> []\<close> assms(4) by (simp add: streamOk_def requestOk_def conversation_def paired_append apart_append)
  ultimately have "streamOk opts ?st"
    using assms(4) conversation_user [of "msgs st @ [AssistantMsg (turnText st) [] None]" None correction "[]"]
      inRun_more [of st ?st "[AssistantMsg (turnText st) [] None, UserMsg None correction []]"]
    by (simp add: streamOk_def turnsOk_def)
  with Some assms show ?thesis
    by (auto simp: finishTurn_def older_def runsKnown_def intro!: startTurn_good)
next
  case None
  show ?thesis
  proof (cases "toolCalls st = [] \<or> cancelled st \<or> finalizing st")
    case True
    with None finalTurn_good [OF assms(2,3)] assms(4) show ?thesis by (simp add: finishTurn_def streamOk_def requestOk_def)
  next
    case False
    let ?a = "AssistantMsg (turnText st) (map storedCall (toolCalls st)) (if turnReasoning st = [] then None else Some (turnReasoning st))"
    have "toolsOk opts (toolCalls st) (st\<lparr>msgs := msgs st @ [?a]\<rparr>)"
      using False assms(4) inRun_more [of st "st\<lparr>msgs := msgs st @ [?a]\<rparr>" "[?a]"] by (auto simp: toolsOk_def streamOk_def turnsOk_def)
    then have "goodResult opts (toolLoop opts (toolCalls st) (toolCalls st) [] False (st\<lparr>msgs := msgs st @ [?a]\<rparr>))"
      by (intro toolLoop_good) (use assms in \<open>auto simp: older_def runsKnown_def callsOk_def\<close>)
    with None False show ?thesis by (simp add: finishTurn_def)
  qed
qed

lemma streamError_good:
  assumes "running st" "older st (threads st)" "runsKnown st" "streamOk opts st"
  shows "goodResult opts (streamError r e st)"
proof (cases "r < length EMPTY_STREAM_RETRY_DELAYS_MS \<and> emptyStream e \<and> \<not> cancelled st \<and> turnText st = [] \<and> toolCalls st = []")
  case True
  then have "agentInv opts (spawn (Backoff (generation st) r) st)"
    by (intro spawn_good) (use assms in \<open>auto simp: liveInv_def streamOk_def inRun_def turnsOk_def EMPTY_STREAM_RETRY_DELAYS_MS_def\<close>)
  with True show ?thesis by (simp add: streamError_def goodResult_def)
next
  case False
  with failRun_good [OF _ assms(2,3)] assms(4) show ?thesis by (auto simp: streamError_def streamOk_def requestOk_def)
qed

lemma conversation_answered: "conversation h \<Longrightarrow> conversation (rev (dropWhile isUser (rev h)))"
proof -
  assume h: "conversation h"
  let ?us = "rev (takeWhile isUser (rev h))"
  have split: "h = rev (dropWhile isUser (rev h)) @ ?us" by (metis rev_append rev_rev_ident takeWhile_dropWhile_id)
  show ?thesis
  proof (cases ?us)
    case Nil
    with split h show ?thesis by (metis append_Nil2)
  next
    case (Cons u us)
    then have "u \<in> set (takeWhile isUser (rev h))" by (metis list.set_intros(1) set_rev)
    then have "isUser u" by (auto dest: set_takeWhileD)
    with split h Cons show ?thesis by (metis conversation_prefix)
  qed
qed

lemma answered_last: "rev (dropWhile isUser (rev h)) \<noteq> [] \<Longrightarrow> \<not> isUser (last (rev (dropWhile isUser (rev h))))"
  using hd_dropWhile [of isUser "rev h"] by (metis last_rev rev_is_Nil_conv)

lemma beginRun_good:
  assumes "running st" "older st (threads st)" "runsKnown st" "freshRun st"
  shows "goodResult opts (beginRun opts s images st)"
proof (cases "cancelled st")
  case True
  with assms show ?thesis by (simp add: beginRun_def goodResult_def agentInv_def older_def runsKnown_def freshRun_def)
next
  case False
  let ?a = "rev (dropWhile isUser (rev (msgs st)))"
  let ?t = "trimHistory opts (st\<lparr>msgs := ?a\<rparr>)"
  let ?h = "map dropReasoning (msgs ?t)"
  let ?u = "UserMsg (Some (runCount st)) (sanitizeAgentPayload s) images"
  let ?st = "?t\<lparr>msgs := ?h @ [?u], runUserMsg := Some (runCount st), runCount := runCount st + 1\<rparr>"
  have shape: "map shapeOf ?h = map shapeOf (msgs ?t)" by (simp add: comp_def dropReasoning_shape)
  have "conversation (msgs ?t)"
    using trim_conversation [of "st\<lparr>msgs := ?a\<rparr>" opts] conversation_answered assms(4) by (simp add: freshRun_def)
  then have kept: "conversation ?h" using conversation_shape [OF shape] by simp
  have sub: "set (msgs ?t) \<subseteq> set ?a" using trim_set [of opts "st\<lparr>msgs := ?a\<rparr>"] by simp
  also have "set ?a \<subseteq> set (msgs st)" by (auto dest: set_dropWhileD)
  finally have old: "\<forall>m\<in>set (msgs ?t). \<forall>n. runOf m = Some n \<longrightarrow> n < runCount st" using assms(3) by (auto simp: runsKnown_def)
  have runs: "runOf (dropReasoning m) = runOf m" for m by (metis dropReasoning_shape runOf_shape)
  have notUser: "?h \<noteq> [] \<Longrightarrow> \<not> isUser (last ?h)"
  proof -
    assume "?h \<noteq> []"
    then have "msgs ?t \<noteq> []" by simp
    moreover from this sub have "?a \<noteq> []" by (metis empty_set set_empty subset_empty)
    ultimately have "\<not> isUser (last (msgs ?t))" using trim_keeps_last [of "st\<lparr>msgs := ?a\<rparr>" opts] answered_last by simp
    then show ?thesis using \<open>msgs ?t \<noteq> []\<close> by (metis dropReasoning_shape isUser_shape last_map)
  qed
  have "requestOk (?h @ [?u])" using conversation_user [OF kept] notUser by blast
  moreover have "inRun ?st"
  proof -
    have "runOf m \<noteq> Some (runCount st)" if "m \<in> set (msgs ?t)" for m using old that by fastforce
    then have "Some (runCount st) \<notin> runOf ` set (msgs ?t)" by (metis imageE)
    then have "Some (runCount st) \<notin> set (map runOf ?h)" by (simp add: comp_def runs)
    then show ?thesis by (simp add: inRun_runs count_list_0_iff)
  qed
  moreover have "turnsOk opts ?st" using assms(4) trim_parts [of opts "st\<lparr>msgs := ?a\<rparr>"] by (simp add: turnsOk_def freshRun_def turnBound_def)
  ultimately have "goodResult opts (startTurn 0 ?st)"
    using assms(1,2) old trim_parts [of opts "st\<lparr>msgs := ?a\<rparr>"]
    by (intro startTurn_good) (auto simp: streamOk_def older_def runsKnown_def runs)
  with False show ?thesis by (simp add: beginRun_def Let_def)
qed

lemma runsKnown_folded: "runsKnown st \<Longrightarrow> runsKnown (st\<lparr>msgs := foldedHistory summary i (msgs st)\<rparr>)"
  using folded_runs [of summary i "msgs st"] unfolding runsKnown_def by (fastforce simp: image_subset_iff)

lemma run_good:
  assumes "agentInv opts st" shows "goodResult opts (run opts instruction c images st)"
proof (cases "running st \<or> instruction = []")
  case True
  with assms show ?thesis by (auto simp: run_def goodResult_def)
next
  case False
  let ?st = "st\<lparr>running := True, cancelled := False, turns := 0, finalizing := False, mutationSeen := False,
                     inputParseFails := 0, lastTurnSig := None, identicalTurns := 0, allErrorTurns := 0,
                     executedCalls := [], verifyRetryUsed := False, aborted := False\<rparr>"
  have idle: "older st (threads st)" "conversation (msgs st)" "runUserMsg st = None" "runsKnown st"
    using assms False by (auto simp: agentInv_def)
  have one: "agentInv opts (spawn t (?st\<lparr>msgs := h\<rparr>))"
    if "threadGeneration t = generation st" "liveInv opts (?st\<lparr>msgs := h\<rparr>) t" "runsKnown (?st\<lparr>msgs := h\<rparr>)" for t h
  proof (rule spawn_good)
    show "liveInv opts (spawn t (?st\<lparr>msgs := h\<rparr>)) t"
      using that(2) by (cases t) (auto simp: liveInv_def freshRun_def streamOk_def toolsOk_def inRun_def turnsOk_def)
  qed (use that idle in \<open>auto simp: older_def\<close>)
  have fresh: "freshRun (?st\<lparr>msgs := h\<rparr>)" if "conversation h" for h
    using that idle(3) by (simp add: freshRun_def)
  have known: "runsKnown (?st\<lparr>msgs := msgs st\<rparr>)" "runsKnown (?st\<lparr>msgs := foldedHistory summary i (msgs st)\<rparr>)" for summary i
    using idle(4) runsKnown_folded [OF idle(4), of summary i] by (simp_all add: runsKnown_def)
  have same: "?st\<lparr>msgs := msgs st\<rparr> = ?st" by simp
  show ?thesis
  proof (cases "compactionCut opts (msgs st)")
    case None
    with False show ?thesis
      using one [of "Beginning (generation st) _ images" "msgs st"] fresh [OF idle(2)] known(1)
      by (auto simp: run_def Let_def goodResult_def liveInv_def same split: option.splits)
  next
    case (Some i)
    note cut = compactionCut_user [OF Some]
    with Some False show ?thesis
      using one [of "Beginning (generation st) _ images" "foldedHistory (mechanicalDigest (take i (msgs st))) i (msgs st)"]
        one [of "Summarizing (generation st) _ images i []" "msgs st"] fresh [OF idle(2)] known
        fresh [OF folded_conversation [OF idle(2) cut, of "mechanicalDigest (take i (msgs st))"]]
      by (auto simp: run_def Let_def goodResult_def liveInv_def same split: option.splits)
  qed
qed

section \<open>Restoring, cancelling, resetting\<close>

lemma paired_filter: "paired h \<Longrightarrow> (\<forall>m. \<not> P m \<longrightarrow> isUser m) \<Longrightarrow> paired (filter P h)"
proof (induction h rule: paired.induct)
  case (5 s c cs r results ms)
  moreover from this have "P (AssistantMsg s (c # cs) r)" "P (ToolMsg results)" by (metis isUser.simps(2), metis isUser.simps(3))
  ultimately show ?case by simp
next
  case (4 s r ms)
  moreover from this have "P (AssistantMsg s [] r)" by (metis isUser.simps(2))
  ultimately show ?case by simp
qed auto

lemma answeredOnly_head: "ms \<noteq> [] \<Longrightarrow> \<not> isUser (hd ms) \<Longrightarrow> answeredOnly ms \<noteq> [] \<and> hd (answeredOnly ms) = hd ms"
  by (cases ms) auto

lemma answeredOnly_conversation: "paired h \<Longrightarrow> conversation (answeredOnly h)"
proof -
  assume p: "paired h"
  from p have "paired (answeredOnly h)" by (induction h rule: paired.induct) (auto split: list.splits)
  moreover have "apart (answeredOnly h)"
  proof (induction h)
    case (Cons m ms)
    then show ?case using answeredOnly_head [of ms] by (auto simp: apart_Cons split: list.splits)
  qed simp
  ultimately show ?thesis by (simp add: conversation_def)
qed

text \<open>A transcript with paired tool calls, as the applications store it.\<close>

definition transcriptOk :: "AgentMessage list \<Rightarrow> bool" where
  "transcriptOk messages \<longleftrightarrow> paired (map restoredMessage messages)"

lemma isNote_restored: "isUser m \<Longrightarrow> isNote (restoredMessage m) = isNote m" "isNote m \<Longrightarrow> isUser m"
  by (cases m; simp)+

lemma restored_runs: "runOf (restoredMessage m) = None"
  by (cases m) auto

lemma restore_good:
  assumes "agentInv opts st" "transcriptOk messages" shows "agentInv opts (restore opts messages st)"
proof -
  let ?h = "answeredOnly (map restoredMessage (filter (\<lambda>m. \<not> isNote m) messages))"
  have restored: "isUser (restoredMessage m) = isUser m" for m by (cases m) auto
  have sameNote: "isNote (restoredMessage m) = isNote m" for m by (cases m) auto
  have "map restoredMessage (filter (\<lambda>m. \<not> isNote m) messages) = filter (\<lambda>m. \<not> isNote m) (map restoredMessage messages)"
    by (simp add: filter_map comp_def sameNote)
  then have conv: "conversation ?h"
    using assms(2) isNote_restored(2) by (simp add: transcriptOk_def answeredOnly_conversation paired_filter)
  have none: "\<forall>m\<in>set ?h. runOf m = None"
  proof -
    have "set (answeredOnly (m # ms)) \<subseteq> insert m (set (answeredOnly ms))" for m ms by auto
    then have "set (answeredOnly ms) \<subseteq> set ms" for ms by (induction ms) fastforce+
    then show ?thesis using restored_runs by fastforce
  qed
  have trimmed: "agentInv opts (trimHistory opts (st\<lparr>msgs := g\<rparr>))" if "conversation g" "\<forall>m\<in>set g. runOf m = None" "\<not> running st" for g
  proof -
    have "conversation (msgs (trimHistory opts (st\<lparr>msgs := g\<rparr>)))" using trim_conversation that(1) by simp
    moreover have "\<forall>m\<in>set (msgs (trimHistory opts (st\<lparr>msgs := g\<rparr>))). runOf m = None" using trim_set [of opts "st\<lparr>msgs := g\<rparr>"] that(2) by auto
    ultimately show ?thesis using assms(1) that(3) trim_parts [of opts "st\<lparr>msgs := g\<rparr>"] by (auto simp: agentInv_def older_def runsKnown_def)
  qed
  show ?thesis
  proof (cases "running st \<or> msgs st \<noteq> [] \<or> messages = [] \<or> ?h = []")
    case True
    then show ?thesis using assms(1) by (auto simp: restore_def Let_def agentInv_def older_def runsKnown_def)
  next
    case False
    show ?thesis
    proof (cases "compactionCut opts ?h")
      case None
      with False show ?thesis using trimmed [OF conv none] by (simp add: restore_def Let_def)
    next
      case (Some i)
      let ?g = "foldedHistory (mechanicalDigest (take i ?h)) i ?h"
      have "\<forall>m\<in>set ?g. runOf m = None" using none by (auto simp: foldedHistory_def dest: in_set_dropD)
      with Some False show ?thesis
        using trimmed [OF folded_conversation [OF conv compactionCut_user [OF Some]]] by (simp add: restore_def Let_def)
    qed
  qed
qed

lemma cancel_good: "agentInv opts st \<Longrightarrow> agentInv opts (cancel st)"
proof -
  have "liveInv opts (st\<lparr>cancelled := True, aborted := True\<rparr>) t = liveInv opts st t" for t
    by (cases t) (simp_all add: liveInv_def freshRun_def streamOk_def toolsOk_def inRun_def turnsOk_def)
  moreover have olderSame: "older (st\<lparr>cancelled := True, aborted := True\<rparr>) ts = older st ts" for ts by (simp add: older_def)
  ultimately show "agentInv opts st \<Longrightarrow> agentInv opts (cancel st)"
    by (simp add: cancel_def agentInv_def olderSame runsKnown_def)
qed

lemma reset_good: "agentInv opts st \<Longrightarrow> agentInv opts (reset st)"
proof -
  assume inv: "agentInv opts st"
  have "older (reset st) (threads st)"
  proof (cases "running st")
    case True
    with inv obtain ts1 t ts2 where ts: "threads st = ts1 @ t # ts2" "older st ts1" "older st ts2" "threadGeneration t = generation st"
      by (auto simp: agentInv_def)
    show ?thesis unfolding ts(1) using ts(2-4) by (auto simp: older_def reset_def less_SucI)
  next
    case False
    with inv show ?thesis by (auto simp: agentInv_def older_def reset_def less_SucI)
  qed
  then show "agentInv opts (reset st)" by (simp add: agentInv_def runsKnown_def reset_def)
qed

section \<open>Steps\<close>

text \<open>The one activity of a busy loop.\<close>

definition liveThread :: "AgentState \<Rightarrow> AgentThread option" where
  "liveThread st = find (\<lambda>t. threadGeneration t = generation st) (threads st)"

lemma find_only: "older st us \<Longrightarrow> threadGeneration t = generation st \<Longrightarrow> find (\<lambda>t. threadGeneration t = generation st) (us @ t # vs) = Some t"
  by (induction us) (auto simp: older_def)

lemma live_cases:
  assumes "agentInv opts st" "wake opts k input st = Some r"
  obtains (stale) t where "agentInv opts (fst r)" "nthOpt (threads st) k = Some t" "threadGeneration t \<noteq> generation st"
      "r = (st\<lparr>threads := take k (threads st) @ drop (k + 1) (threads st)\<rparr>, [])"
  | (live) t st' where "nthOpt (threads st) k = Some t" "liveThread st = Some t" "running st" "liveStep opts t input st' = Some r" "running st'" "older st' (threads st')" "runsKnown st'" "liveInv opts st' t"
      "threadGeneration t = generation st'" "st' = st\<lparr>threads := threads st'\<rparr>"
proof -
  from assms(2) obtain t where t: "nthOpt (threads st) k = Some t" by (auto simp: wake_def split: option.splits)
  then have k: "k < length (threads st)" "t = threads st ! k" by (auto simp: nthOpt_def split: if_splits)
  let ?ts = "take k (threads st) @ drop (k + 1) (threads st)"
  let ?st = "st\<lparr>threads := ?ts\<rparr>"
  have all: "threads st = take k (threads st) @ t # drop (k + 1) (threads st)" using k by (simp add: id_take_nth_drop)
  have sameLive: "liveInv opts (st\<lparr>threads := x\<rparr>) u = liveInv opts st u" for u x
    by (cases u) (simp_all add: liveInv_def freshRun_def streamOk_def toolsOk_def inRun_def turnsOk_def)
  have olderSame: "older (st\<lparr>threads := x\<rparr>) us = older st us" for us x by (simp add: older_def)
  have known: "runsKnown (st\<lparr>threads := x\<rparr>) = runsKnown st" for x by (simp add: runsKnown_def)
  show thesis
  proof (cases "threadGeneration t = generation st")
    case True
    moreover have "t \<in> set (threads st)" using k by simp
    ultimately have "running st" using assms(1) by (cases "running st") (auto simp: agentInv_def older_def)
    with assms(1) obtain ts1 u ts2 where ts: "threads st = ts1 @ u # ts2" "older st ts1" "older st ts2" "threadGeneration u = generation st" "liveInv opts st u"
      by (auto simp: agentInv_def)
    have "k = length ts1"
    proof (rule ccontr)
      assume "k \<noteq> length ts1"
      then have "t \<in> set ts1 \<union> set ts2" using k ts(1) by (auto simp: nth_append nth_Cons' split: if_splits)
      then show False using ts(2,3) True by (auto simp: older_def)
    qed
    then have "?ts = ts1 @ ts2" "t = u" using ts(1) k by auto
    have "older st ?ts" unfolding \<open>?ts = ts1 @ ts2\<close> using ts(2,3) by (auto simp: older_def)
    then have "older ?st (threads ?st)" unfolding olderSame by simp
    moreover have "liveInv opts ?st t" unfolding sameLive \<open>t = u\<close> by (rule ts(5))
    moreover have "runsKnown ?st" unfolding known using assms(1) by (simp add: agentInv_def)
    moreover have "liveThread st = Some t" unfolding liveThread_def ts(1) \<open>t = u\<close> using ts(2,4) by (rule find_only)
    ultimately show thesis
      using live [of t ?st] True assms(2) t \<open>running st\<close> by (simp add: wake_def Let_def)
  next
    case False
    have "agentInv opts ?st"
    proof (cases "running st")
      case True
      with assms(1) obtain ts1 u ts2 where ts: "threads st = ts1 @ u # ts2" "older st ts1" "older st ts2" "threadGeneration u = generation st" "liveInv opts st u"
        by (auto simp: agentInv_def)
      have "k \<noteq> length ts1" using k ts(1,4) False by auto
      obtain us1 us2 where us: "?ts = us1 @ u # us2" "older st us1" "older st us2"
      proof (cases "k < length ts1")
        case True
        have "?ts = (take k ts1 @ drop (k + 1) ts1) @ u # ts2" unfolding ts(1) using True by simp
        moreover have "older st (take k ts1 @ drop (k + 1) ts1)" using ts(2) by (auto simp: older_def dest: in_set_takeD in_set_dropD)
        ultimately show thesis using that ts(3) by blast
      next
        case False
        with \<open>k \<noteq> length ts1\<close> obtain j where "k = length ts1 + Suc j" by (metis add_Suc_right less_imp_Suc_add linorder_neqE_nat)
        then have "?ts = ts1 @ u # (take j ts2 @ drop (j + 1) ts2)" unfolding ts(1) by simp
        moreover have "older st (take j ts2 @ drop (j + 1) ts2)" using ts(3) by (auto simp: older_def dest: in_set_takeD in_set_dropD)
        ultimately show thesis using that ts(2) by blast
      qed
      have "threads ?st = us1 @ u # us2" "older ?st us1" "older ?st us2" "threadGeneration u = generation ?st" "liveInv opts ?st u"
        using us ts(4,5) by (simp_all add: olderSame sameLive)
      moreover have "runsKnown ?st" unfolding known using assms(1) by (simp add: agentInv_def)
      moreover have "running ?st" using True by simp
      ultimately show ?thesis unfolding agentInv_def by auto
    next
      case notRunning: False
      have "set ?ts \<subseteq> set (threads st)" by (auto dest: in_set_takeD in_set_dropD)
      with notRunning assms(1) show ?thesis by (auto simp: agentInv_def older_def known)
    qed
    with stale [of t] False assms(2) t show thesis by (auto simp: wake_def Let_def)
  qed
qed

lemma liveStep_good:
  assumes "liveStep opts t input st = Some r" "running st" "older st (threads st)" "runsKnown st" "liveInv opts st t"
    "threadGeneration t = generation st"
  shows "goodResult opts r"
proof (cases t)
  case (Beginning g s images)
  with assms show ?thesis by (auto simp: liveStep_def liveInv_def beginRun_good split: ThreadInput.splits)
next
  case (Summarizing g s images i x)
  have "agentInv opts (spawn u st)" if "liveInv opts st u" "threadGeneration u = generation st" for u
  proof (rule spawn_good)
    show "liveInv opts (spawn u st) u"
      using that(1) by (cases u) (auto simp: liveInv_def freshRun_def streamOk_def toolsOk_def inRun_def turnsOk_def)
  qed (use assms that in auto)
  with Summarizing assms show ?thesis by (auto simp: liveStep_def liveInv_def goodResult_def split: ThreadInput.splits)
next
  case (Summarized g s images i x)
  let ?st = "st\<lparr>msgs := foldedHistory (case x of Some summary \<Rightarrow> summary | None \<Rightarrow> mechanicalDigest (take i (msgs st))) i (msgs st)\<rparr>"
  have "agentInv opts (spawn (Beginning g s images) ?st)"
    by (rule spawn_good)
       (use assms Summarized runsKnown_folded in
         \<open>auto simp: liveInv_def freshRun_def older_def folded_conversation\<close>)
  with Summarized assms show ?thesis by (auto simp: liveStep_def goodResult_def split: ThreadInput.splits)
next
  case (Streaming g n)
  have more: "agentInv opts (spawn (Streaming (generation st) n) st')"
    if "msgs st' = msgs st" "running st'" "threads st' = threads st" "generation st' = generation st" "runUserMsg st' = runUserMsg st"
      "runCount st' = runCount st" "finalizing st' = finalizing st" "turns st' = turns st" for st'
    by (rule spawn_good)
       (use that assms Streaming in \<open>auto simp: liveInv_def streamOk_def inRun_def turnsOk_def older_def runsKnown_def\<close>)
  show ?thesis
    using assms Streaming finishTurn_good [of st opts] streamError_good [of st opts]
    by (auto simp: liveStep_def goodResult_def liveInv_def intro!: more split: ThreadInput.splits)
next
  case (Backoff g n)
  with assms show ?thesis
    by (auto simp: liveStep_def liveInv_def intro!: finishTurn_good startTurn_good split: ThreadInput.splits if_splits)
next
  case (Executing g c rest calls results mutated snapshot)
  with assms show ?thesis by (auto simp: liveStep_def liveInv_def intro!: toolFinished_good split: ThreadInput.splits)
qed

definition labelOk :: "AgentLabel \<Rightarrow> bool" where
  "labelOk l = (case l of DoRestore messages \<Rightarrow> transcriptOk messages | _ \<Rightarrow> True)"

lemma agentStep_good:
  assumes "agentStep opts l st = Some r" "agentInv opts st" "labelOk l"
  shows "goodResult opts r"
proof (cases l)
  case (Wake k input)
  with assms have woken: "wake opts k input st = Some r" by simp
  show ?thesis
  proof (rule live_cases [OF assms(2) woken])
    assume "agentInv opts (fst r)" "r = (st\<lparr>threads := take k (threads st) @ drop (k + 1) (threads st)\<rparr>, [])"
    then show ?thesis by (metis goodResult_def outsOk_simps(1) snd_conv)
  next
    fix t st'
    assume "liveStep opts t input st' = Some r" "running st'" "older st' (threads st')" "runsKnown st'" "liveInv opts st' t"
      "threadGeneration t = generation st'"
    then show ?thesis by (rule liveStep_good)
  qed
qed (use assms run_good restore_good cancel_good reset_good in \<open>auto simp: goodResult_def labelOk_def\<close>)

section \<open>Reachable states\<close>

text \<open>The states of a loop with the outputs so far.\<close>

inductive agentReach :: "AgentOptions \<Rightarrow> AgentState \<Rightarrow> AgentOutput list \<Rightarrow> bool" for opts where
  ReachStart: "agentReach opts initialAgent []"
| ReachStep: "agentReach opts st sent \<Longrightarrow> labelOk l \<Longrightarrow> agentStep opts l st = Some (st', outs) \<Longrightarrow> agentReach opts st' (sent @ outs)"

lemma reach_good: "agentReach opts st sent \<Longrightarrow> agentInv opts st \<and> outsOk sent"
proof (induction rule: agentReach.induct)
  case ReachStart
  show ?case by (simp add: agentInv_def initialAgent_def older_def runsKnown_def)
next
  case (ReachStep st sent l st' outs)
  then show ?case using agentStep_good by (fastforce simp: goodResult_def outsOk_append)
qed

end
