(* ===== verification/AgentProgress.thy ===== *)
theory AgentProgress
  imports AgentInvariant
begin

text \<open>
  What a busy loop still may do: a bound on the requests of its run, the single event that ends it, and what a
  cancelled or a failed run leaves.
\<close>

section \<open>Counting outputs\<close>

fun isRequest :: "AgentOutput \<Rightarrow> bool" where
  "isRequest (TurnRequest h tools) = True"
| "isRequest _ = False"

fun isEnding :: "AgentOutput \<Rightarrow> bool" where
  "isEnding (OnDone _ _ _ _) = True"
| "isEnding (OnError _) = True"
| "isEnding _ = False"

definition requests :: "AgentOutput list \<Rightarrow> nat" where
  "requests outs = length (filter isRequest outs)"

definition endings :: "AgentOutput list \<Rightarrow> nat" where
  "endings outs = length (filter isEnding outs)"

lemma requests_simps [simp]:
  "requests [] = 0" "requests (out # outs) = (if isRequest out then 1 else 0) + requests outs" "requests (xs @ ys) = requests xs + requests ys"
  by (simp_all add: requests_def)

lemma endings_simps [simp]:
  "endings [] = 0" "endings (out # outs) = (if isEnding out then 1 else 0) + endings outs" "endings (xs @ ys) = endings xs + endings ys"
  by (simp_all add: endings_def)

section \<open>The requests that are left\<close>

text \<open>The turns that may follow: one after each turn with tools, and one correction.\<close>

definition turnsLeft :: "AgentOptions \<Rightarrow> AgentState \<Rightarrow> nat" where
  "turnsLeft opts st = (if finalizing st then 0 else (turnBound opts - turns st) + (if verifyRetryUsed st then 0 else 1))"

text \<open>Each turn is requested at most three times, for its two retries.\<close>

definition requestsLeft :: "AgentOptions \<Rightarrow> AgentState \<Rightarrow> AgentThread \<Rightarrow> nat" where
  "requestsLeft opts st t =
     (case t of
        Streaming _ r \<Rightarrow> (2 - r) + 3 * turnsLeft opts st
      | Backoff _ r \<Rightarrow> (2 - r) + 3 * turnsLeft opts st
      | Executing _ _ _ _ _ _ _ \<Rightarrow> 3 * turnsLeft opts st
      | _ \<Rightarrow> 3 * (turnBound opts + 2))"

definition potential :: "AgentOptions \<Rightarrow> AgentState \<Rightarrow> nat" where
  "potential opts st = (if running st then (case liveThread st of Some t \<Rightarrow> requestsLeft opts st t | None \<Rightarrow> 0) else 0)"

definition requestBound :: "AgentOptions \<Rightarrow> nat" where
  "requestBound opts = 3 * (turnBound opts + 2)"

text \<open>
  A result of a busy loop that had \<open>b\<close> requests left and was cancelled or not: it stays within them, ends the run
  with one event or goes on, and requests nothing once cancelled.
\<close>

definition progress :: "AgentOptions \<Rightarrow> nat \<Rightarrow> bool \<Rightarrow> AgentResult \<Rightarrow> bool" where
  "progress opts b stopped r \<longleftrightarrow>
     requests (snd r) + potential opts (fst r) \<le> b \<and> endings (snd r) = (if running (fst r) then 0 else 1) \<and>
     (stopped \<longrightarrow> requests (snd r) = 0 \<and> (running (fst r) \<longrightarrow> cancelled (fst r)))"

lemma progress_mono: "progress opts b stopped r \<Longrightarrow> b \<le> b' \<Longrightarrow> progress opts b' stopped r"
  by (auto simp: progress_def)

lemma progress_if: "(c \<Longrightarrow> progress opts b stopped x) \<Longrightarrow> (\<not> c \<Longrightarrow> progress opts b stopped y) \<Longrightarrow> progress opts b stopped (if c then x else y)"
  by simp

lemma progress_andThen:
  "requests outs = 0 \<Longrightarrow> endings outs = 0 \<Longrightarrow> progress opts b stopped (f st) \<Longrightarrow> progress opts b stopped (andThen (st, outs) f)"
  by (auto simp: andThen_def progress_def split: prod.splits)

lemma liveThread_spawn: "older st (threads st) \<Longrightarrow> threadGeneration t = generation st \<Longrightarrow> liveThread (spawn t st) = Some t"
proof -
  assume "older st (threads st)" "threadGeneration t = generation st"
  moreover have "(\<forall>u\<in>set us. threadGeneration u < g) \<Longrightarrow> find (\<lambda>t. threadGeneration t = g) (us @ [u]) = find (\<lambda>t. threadGeneration t = g) [u]" for us g u
    by (induction us) auto
  ultimately show ?thesis by (simp add: liveThread_def older_def)
qed

lemma spawn_progress:
  assumes "running st" "older st (threads st)" "threadGeneration t = generation st" "stopped \<longrightarrow> cancelled st"
    "requests outs + requestsLeft opts st t \<le> b" "endings outs = 0" "stopped \<longrightarrow> requests outs = 0"
  shows "progress opts b stopped (spawn t st, outs)"
proof -
  have "requestsLeft opts (spawn t st) t = requestsLeft opts st t" by (simp add: requestsLeft_def turnsLeft_def split: AgentThread.split)
  then show ?thesis using assms by (simp add: progress_def potential_def liveThread_spawn)
qed

lemma startTurn_progress:
  assumes "running st" "older st (threads st)" "r \<le> 2"
  shows "progress opts (3 - r + 3 * turnsLeft opts st) False (startTurn r st)"
  unfolding startTurn_def
  by (rule spawn_progress) (use assms in \<open>auto simp: older_def requestsLeft_def turnsLeft_def\<close>)

lemma rollback_running [simp]: "running (rollbackFailedRun st) = running st"
  by (simp add: rollbackFailedRun_def split: option.split)

lemma failRun_progress: "progress opts b stopped (failRun message st)"
  by (simp add: progress_def failRun_def potential_def)

lemma finalTurn_progress: "progress opts b stopped (finalTurn st)"
  by (simp add: progress_def finalTurn_def potential_def Let_def)

lemma nextTurn_progress:
  assumes "running st" "older st (threads st)" "\<not> finalizing st" "turns st < turnBound opts"
  shows "progress opts (3 * turnsLeft opts st) False (nextTurn opts st)"
proof -
  let ?st1 = "st\<lparr>turns := turns st + 1\<rparr>"
  let ?st2 = "if maxTurnsOf opts \<le> turns ?st1
                 then ?st1\<lparr>finalizing := True, msgs := msgs ?st1 @ [UserMsg None TURN_LIMIT_NOTE []]\<rparr> else ?st1"
  let ?st3 = "squashStaleToolOutputs opts ?st2"
  have "3 + 3 * turnsLeft opts ?st2 \<le> 3 * turnsLeft opts st"
    using assms(3,4) by (cases "maxTurnsOf opts \<le> turns ?st1"; cases "verifyRetryUsed st") (auto simp: turnsLeft_def turnBound_def)
  moreover have "turnsLeft opts ?st3 = turnsLeft opts ?st2" using squash_parts [of opts ?st2] by (simp only: turnsLeft_def)
  ultimately have left': "3 - 0 + 3 * turnsLeft opts ?st3 \<le> 3 * turnsLeft opts st" by simp
  have "older ?st2 (threads ?st2)" "running ?st2" using assms(1,2) by (auto simp: older_def)
  then have "older ?st3 (threads ?st3)" "running ?st3" using squash_parts [of opts ?st2] by (simp_all only: older_def)
  then have "progress opts (3 * turnsLeft opts st) False (startTurn 0 ?st3)"
    using progress_mono [OF startTurn_progress left'] by simp
  then show ?thesis unfolding nextTurn_def Let_def by (intro progress_andThen) simp_all
qed

lemma afterTools_progress:
  assumes "running st" "older st (threads st)" "\<not> finalizing st" "turns st < turnBound opts"
  shows "progress opts (3 * turnsLeft opts st) (cancelled st) (afterTools opts calls results mutated st)"
proof (cases "cancelled st")
  case True
  then show ?thesis by (simp add: afterTools_def progress_def potential_def)
next
  case False
  have turn: "progress opts (3 * turnsLeft opts st) False (nextTurn opts st')"
    if "running st'" "threads st' = threads st" "generation st' = generation st" "finalizing st' = finalizing st" "turns st' = turns st"
      "verifyRetryUsed st' = verifyRetryUsed st" for st'
    using nextTurn_progress [of st' opts] assms that by (simp add: older_def turnsLeft_def)
  show ?thesis using False unfolding afterTools_def Let_def
    by simp (intro conjI impI failRun_progress turn; simp add: assms(1))
qed

lemma toolLoop_progress:
  assumes "running st" "older st (threads st)" "\<not> finalizing st" "turns st < turnBound opts"
  shows "progress opts (3 * turnsLeft opts st) (cancelled st) (toolLoop opts rest calls results mutated st)"
  using assms
proof (induction rest arbitrary: results st)
  case Nil
  then show ?case using afterTools_progress by simp
next
  case (Cons c rest)
  consider (stop) "cancelled st" | (bad) "\<not> cancelled st" "unusableInput c" | (runs) "\<not> cancelled st" "\<not> unusableInput c" by blast
  then show ?case
  proof cases
    case stop
    then show ?thesis using Cons.IH [OF Cons.prems] by simp
  next
    case bad
    let ?st = "st\<lparr>inputParseFails := inputParseFails st + 1\<rparr>"
    have "progress opts (3 * turnsLeft opts ?st) (cancelled ?st) (toolLoop opts rest calls results' mutated ?st)" for results'
      by (rule Cons.IH) (use Cons.prems in \<open>auto simp: older_def\<close>)
    moreover have "turnsLeft opts ?st = turnsLeft opts st" "\<not> cancelled ?st" using bad(1) by (simp_all add: turnsLeft_def)
    ultimately have "progress opts (3 * turnsLeft opts st) False (toolLoop opts rest calls results' mutated ?st)" for results' by metis
    with bad show ?thesis by (simp add: Let_def progress_andThen)
  next
    case runs
    then show ?thesis
      using Cons.prems by (auto simp: older_def requestsLeft_def turnsLeft_def intro!: spawn_progress)
  qed
qed

lemma toolFinished_progress:
  assumes "running st" "older st (threads st)" "\<not> finalizing st" "turns st < turnBound opts"
  shows "progress opts (3 * turnsLeft opts st) (cancelled st) (toolFinished opts c rest calls results mutated snapshot e st)"
proof -
  let ?st = "st\<lparr>executedCalls := executedCalls st @ [(callName c, \<not> exError e)], mutationSeen := mutationSeen st \<or> exMutated e\<rparr>"
  have "progress opts (3 * turnsLeft opts ?st) (cancelled ?st) (toolLoop opts rest calls results' mutated' ?st)" for results' mutated'
    by (rule toolLoop_progress) (use assms in \<open>auto simp: older_def\<close>)
  moreover have "turnsLeft opts ?st = turnsLeft opts st" by (simp add: turnsLeft_def)
  ultimately show ?thesis unfolding toolFinished_def Let_def by (intro progress_andThen) simp_all
qed

lemma finishTurn_progress:
  assumes "running st" "older st (threads st)" "streamOk opts st"
  shows "progress opts (3 * turnsLeft opts st) (cancelled st) (finishTurn opts st)"
proof (cases "correctionOf opts st")
  case (Some correction)
  let ?st = "st\<lparr>verifyRetryUsed := True, msgs := msgs st @ [AssistantMsg (turnText st) [] None, UserMsg None correction []]\<rparr>"
  have free: "\<not> cancelled st" "\<not> finalizing st" "\<not> verifyRetryUsed st" using Some by (auto simp: correctionOf_def split: if_splits)
  have "progress opts (3 - 0 + 3 * turnsLeft opts ?st) False (startTurn 0 ?st)"
    by (rule startTurn_progress) (use assms in \<open>auto simp: older_def\<close>)
  then have "progress opts (3 * turnsLeft opts st) False (startTurn 0 ?st)"
    by (rule progress_mono) (use free in \<open>simp add: turnsLeft_def\<close>)
  with Some free show ?thesis by (simp add: finishTurn_def)
next
  case None
  let ?st = "st\<lparr>msgs := msgs st @ [AssistantMsg (turnText st) (map storedCall (toolCalls st)) (if turnReasoning st = [] then None else Some (turnReasoning st))]\<rparr>"
  have "progress opts (3 * turnsLeft opts ?st) (cancelled ?st) (toolLoop opts (toolCalls st) (toolCalls st) [] False ?st)" if "\<not> finalizing st"
    by (rule toolLoop_progress) (use assms that in \<open>auto simp: older_def streamOk_def turnsOk_def\<close>)
  moreover have "turnsLeft opts ?st = turnsLeft opts st" "cancelled ?st = cancelled st" by (simp_all add: turnsLeft_def)
  ultimately show ?thesis using None unfolding finishTurn_def
    by (simp only: option.case) (intro progress_if finalTurn_progress; simp)
qed

lemma streamError_progress:
  assumes "running st" "older st (threads st)"
  shows "progress opts (2 - r + 3 * turnsLeft opts st) (cancelled st) (streamError r e st)"
  unfolding streamError_def
  by (intro progress_if failRun_progress spawn_progress) (use assms in \<open>auto simp: requestsLeft_def\<close>)

lemma beginRun_progress:
  assumes "running st" "older st (threads st)" "freshRun st"
  shows "progress opts (requestBound opts) (cancelled st) (beginRun opts s images st)"
proof (cases "cancelled st")
  case True
  then show ?thesis by (simp add: beginRun_def progress_def potential_def)
next
  case False
  let ?t = "trimHistory opts (st\<lparr>msgs := rev (dropWhile isUser (rev (msgs st)))\<rparr>)"
  let ?st = "?t\<lparr>msgs := map dropReasoning (msgs ?t) @ [UserMsg (Some (runCount st)) (sanitizeAgentPayload s) images],
                runUserMsg := Some (runCount st), runCount := runCount st + 1\<rparr>"
  note parts = trim_parts [of opts "st\<lparr>msgs := rev (dropWhile isUser (rev (msgs st)))\<rparr>"]
  have "progress opts (3 - 0 + 3 * turnsLeft opts ?st) False (startTurn 0 ?st)"
    by (rule startTurn_progress) (use assms(1,2) parts in \<open>auto simp: older_def\<close>)
  moreover have "turnsLeft opts ?st = turnBound opts + 1" using assms(3) parts by (simp add: turnsLeft_def freshRun_def)
  ultimately have "progress opts (requestBound opts) False (startTurn 0 ?st)" by (simp add: requestBound_def progress_mono)
  with False show ?thesis by (simp add: beginRun_def Let_def)
qed

lemma liveStep_progress:
  assumes "liveStep opts t input st = Some r" "running st" "older st (threads st)" "liveInv opts st t" "threadGeneration t = generation st"
  shows "progress opts (requestsLeft opts st t) (cancelled st) r"
proof (cases t)
  case (Beginning g s images)
  with assms beginRun_progress [of st opts s images] show ?thesis
    by (auto simp: liveStep_def liveInv_def requestsLeft_def requestBound_def split: ThreadInput.splits)
next
  case (Summarizing g s images i x)
  with assms show ?thesis
    by (auto simp: liveStep_def requestsLeft_def intro!: spawn_progress split: ThreadInput.splits)
next
  case (Summarized g s images i x)
  with assms show ?thesis
    by (auto simp: liveStep_def requestsLeft_def older_def intro!: spawn_progress split: ThreadInput.splits)
next
  case (Streaming g n)
  have "progress opts (3 * turnsLeft opts st) (cancelled st) (finishTurn opts st)"
    using assms Streaming by (intro finishTurn_progress) (auto simp: liveInv_def)
  then have finish: "progress opts (2 - n + 3 * turnsLeft opts st) (cancelled st) (finishTurn opts st)" by (rule progress_mono) simp
  show ?thesis
    using assms Streaming finish streamError_progress [of st opts n]
    by (auto simp: liveStep_def requestsLeft_def turnsLeft_def older_def ac_simps intro!: spawn_progress split: ThreadInput.splits)
next
  case (Backoff g n)
  have "progress opts (3 * turnsLeft opts st) (cancelled st) (finishTurn opts st)"
    using assms Backoff by (intro finishTurn_progress) (auto simp: liveInv_def)
  then have finish: "progress opts (2 - n + 3 * turnsLeft opts st) (cancelled st) (finishTurn opts st)" by (rule progress_mono) simp
  have "n < 2" using assms(4) Backoff by (simp add: liveInv_def)
  then have "progress opts (2 - n + 3 * turnsLeft opts st) False (startTurn (n + 1) st)"
    using startTurn_progress [of st "n + 1" opts] assms(2,3) by (simp add: Suc_diff_Suc numeral_3_eq_3 numeral_2_eq_2)
  with finish assms Backoff show ?thesis by (auto simp: liveStep_def requestsLeft_def split: ThreadInput.splits if_splits)
next
  case (Executing g c rest calls results mutated snapshot)
  have "\<not> finalizing st" "turns st < turnBound opts" using assms(4) Executing by (auto simp: liveInv_def toolsOk_def)
  with assms Executing show ?thesis by (auto simp: liveStep_def requestsLeft_def intro!: toolFinished_progress split: ThreadInput.splits)
qed

section \<open>Steps\<close>

lemma liveThread_same: "find (\<lambda>t. P t) (take k xs @ drop (k + 1) xs) = find P xs" if "nthOpt xs k = Some t" "\<not> P t" for P
proof -
  have "k < length xs" "xs ! k = t" using that(1) by (auto simp: nthOpt_def split: if_splits)
  then have "xs = take k xs @ t # drop (k + 1) xs" by (metis Suc_eq_plus1 id_take_nth_drop)
  moreover have "find P (us @ t # vs) = find P (us @ vs)" for us vs using that(2) by (induction us) auto
  ultimately show ?thesis by metis
qed

lemma requestsLeft_threads [simp]: "requestsLeft opts (st\<lparr>threads := x\<rparr>) t = requestsLeft opts st t"
  by (cases t) (simp_all add: requestsLeft_def turnsLeft_def)

lemma requestsLeft_bound: "requestsLeft opts st t \<le> requestBound opts"
proof -
  have "turnsLeft opts st \<le> turnBound opts + 1" by (simp add: turnsLeft_def le_SucI)
  then show ?thesis by (cases t) (auto simp: requestsLeft_def requestBound_def)
qed

lemma potential_bound: "potential opts st \<le> requestBound opts"
  by (simp add: potential_def requestsLeft_bound split: option.split)

lemma busy_thread:
  assumes "agentInv opts st" "running st"
  obtains t where "liveThread st = Some t" "threadGeneration t = generation st" "liveInv opts st t"
proof -
  from assms obtain ts1 u ts2 where ts: "threads st = ts1 @ u # ts2" "older st ts1" "threadGeneration u = generation st" "liveInv opts st u"
    by (auto simp: agentInv_def)
  have "liveThread st = Some u" unfolding liveThread_def ts(1) using ts(2,3) by (rule find_only)
  with that ts(3,4) show thesis by blast
qed

text \<open>A step without the start of a run spends requests, and one that ends a run says so once.\<close>

lemma wake_progress:
  assumes "agentInv opts st" "wake opts k input st = Some r"
  shows "requests (snd r) + potential opts (fst r) \<le> potential opts st \<and>
         endings (snd r) = (if running st \<and> \<not> running (fst r) then 1 else 0) \<and> (running (fst r) \<longrightarrow> running st) \<and>
         (running st \<and> cancelled st \<longrightarrow> requests (snd r) = 0 \<and> (running (fst r) \<longrightarrow> cancelled (fst r)))"
proof (rule live_cases [OF assms])
  fix t
  assume t: "nthOpt (threads st) k = Some t" "threadGeneration t \<noteq> generation st"
    and r: "r = (st\<lparr>threads := take k (threads st) @ drop (k + 1) (threads st)\<rparr>, [])"
  have "liveThread (fst r) = liveThread st"
    using liveThread_same [OF t(1), of "\<lambda>t. threadGeneration t = generation st"] t(2) by (simp add: liveThread_def r)
  then show ?thesis by (simp add: r potential_def split: option.split)
next
  fix t st'
  assume live: "liveThread st = Some t" "threadGeneration t = generation st'" "liveStep opts t input st' = Some r"
    "running st'" "older st' (threads st')" "liveInv opts st' t" "running st" "st' = st\<lparr>threads := threads st'\<rparr>"
  have "progress opts (requestsLeft opts st' t) (cancelled st') r"
    using live liveStep_progress by blast
  moreover have "requestsLeft opts st' t = requestsLeft opts st t" "cancelled st' = cancelled st"
    by (subst live(8), simp)+
  ultimately show ?thesis using live(1,7) by (simp add: progress_def potential_def)
qed

lemma run_progress:
  "requests (snd (run opts instruction c images st)) = 0 \<and> endings (snd (run opts instruction c images st)) = 0 \<and>
   (running st \<longrightarrow> run opts instruction c images st = (st, []))"
  by (simp add: run_def Let_def split: option.split)

lemma restore_progress: "running (restore opts messages st) = running st \<and> (running st \<longrightarrow> restore opts messages st = st)"
  using trim_parts [of opts] by (simp add: restore_def Let_def)

lemma cancel_progress: "running (cancel st) = running st \<and> potential opts (cancel st) = potential opts st"
proof -
  have "requestsLeft opts (st\<lparr>cancelled := True, aborted := True\<rparr>) t = requestsLeft opts st t" for t
    by (cases t) (simp_all add: requestsLeft_def turnsLeft_def)
  then show ?thesis by (simp add: cancel_def potential_def liveThread_def split: option.split)
qed

lemma reset_progress: "\<not> running (reset st) \<and> potential opts (reset st) = 0"
  by (simp add: reset_def potential_def)

lemma step_endings:
  assumes "agentInv opts st" "agentStep opts l st = Some r"
  shows "endings (snd r) = (if running st \<and> \<not> running (fst r) \<and> l \<noteq> DoReset then 1 else 0)"
proof (cases l)
  case (DoRun instruction c images)
  with assms(2) show ?thesis using run_progress [of opts instruction c images st] by auto
next
  case (Wake k input)
  with assms(2) have "wake opts k input st = Some r" by simp
  from wake_progress [OF assms(1) this] Wake show ?thesis by simp
qed (use assms(2) restore_progress cancel_progress in auto)

lemma step_requests:
  assumes "agentInv opts st" "agentStep opts l st = Some r" "\<And>instruction c images. l \<noteq> DoRun instruction c images"
  shows "requests (snd r) + potential opts (fst r) \<le> potential opts st"
proof (cases l)
  case (DoRestore messages)
  with assms(2) have r: "r = (restore opts messages st, [])" by simp
  then show ?thesis using restore_progress [of opts messages st] by (cases "running st") (auto simp: potential_def)
next
  case (Wake k input)
  with assms(2) have "wake opts k input st = Some r" by simp
  from wake_progress [OF assms(1) this] show ?thesis by simp
qed (use assms(2,3) cancel_progress reset_progress in auto)

text \<open>A sequence of steps.\<close>

fun agentSteps :: "AgentOptions \<Rightarrow> AgentLabel list \<Rightarrow> AgentState \<Rightarrow> AgentResult option" where
  "agentSteps opts [] st = Some (st, [])"
| "agentSteps opts (l # ls) st =
     (case agentStep opts l st of
        None \<Rightarrow> None
      | Some r \<Rightarrow> map_option (\<lambda>r'. (fst r', snd r @ snd r')) (agentSteps opts ls (fst r)))"

fun startsRun :: "AgentLabel \<Rightarrow> bool" where
  "startsRun (DoRun _ _ _) = True"
| "startsRun _ = False"

lemma steps_requests:
  "agentSteps opts ls st = Some r \<Longrightarrow> agentInv opts st \<Longrightarrow> list_all labelOk ls \<Longrightarrow> \<not> list_ex startsRun ls
   \<Longrightarrow> requests (snd r) + potential opts (fst r) \<le> potential opts st"
proof (induction ls arbitrary: st r)
  case (Cons l ls)
  from Cons.prems(1) obtain q r' where step: "agentStep opts l st = Some q" "agentSteps opts ls (fst q) = Some r'" "r = (fst r', snd q @ snd r')"
    by (auto split: option.splits)
  have "goodResult opts q" using agentStep_good [OF step(1) Cons.prems(2)] Cons.prems(3) by simp
  then have "requests (snd r') + potential opts (fst r') \<le> potential opts (fst q)"
    using Cons.IH [OF step(2)] Cons.prems(3,4) by (simp add: goodResult_def)
  moreover have "requests (snd q) + potential opts (fst q) \<le> potential opts st"
    using step_requests [OF Cons.prems(2) step(1)] Cons.prems(4) by fastforce
  ultimately show ?case by (simp add: step(3))
qed simp

section \<open>Failed runs\<close>

text \<open>The conversation before the running run.\<close>

definition beforeRun :: "AgentState \<Rightarrow> AgentMessage list" where
  "beforeRun st = takeWhile (\<lambda>m. runOf m \<noteq> runUserMsg st) (msgs st)"

definition undone :: "AgentMessage list \<Rightarrow> AgentResult \<Rightarrow> bool" where
  "undone h r \<longleftrightarrow> (\<forall>e. OnError e \<in> set (snd r) \<longrightarrow> \<not> running (fst r) \<and> runUserMsg (fst r) = None \<and> msgs (fst r) = h)"

lemma undone_silent: "\<forall>e. OnError e \<notin> set (snd r) \<Longrightarrow> undone h r"
  by (simp add: undone_def)

lemma undone_if: "(c \<Longrightarrow> undone h x) \<Longrightarrow> (\<not> c \<Longrightarrow> undone h y) \<Longrightarrow> undone h (if c then x else y)"
  by simp

lemma undone_andThen: "\<forall>e. OnError e \<notin> set outs \<Longrightarrow> undone h (f st) \<Longrightarrow> undone h (andThen (st, outs) f)"
  by (auto simp: undone_def andThen_def split: prod.splits)

lemma beforeRun_more:
  assumes "inRun st" "runUserMsg st' = runUserMsg st" "msgs st' = msgs st @ added"
  shows "beforeRun st' = beforeRun st"
proof -
  obtain n b s images a where "runUserMsg st = Some n" "msgs st = b @ UserMsg (Some n) s images # a" using assms(1) by (auto simp: inRun_def)
  then have "UserMsg (Some n) s images \<in> set (msgs st)" "runOf (UserMsg (Some n) s images) = runUserMsg st" by simp_all
  then have "takeWhile (\<lambda>m. runOf m \<noteq> runUserMsg st) (msgs st @ added) = takeWhile (\<lambda>m. runOf m \<noteq> runUserMsg st) (msgs st)"
    by (metis (mono_tags, lifting) takeWhile_append1)
  then show ?thesis using assms(2,3) by (simp add: beforeRun_def)
qed

lemma failRun_undone: "inRun st \<Longrightarrow> undone (beforeRun st) (failRun message st)"
  using rollback_msgs [of "st\<lparr>running := False\<rparr>"] by (simp add: undone_def failRun_def beforeRun_def inRun_def)

lemma startTurn_undone: "undone h (startTurn r st)"
  by (rule undone_silent) (simp add: startTurn_def)

lemma nextTurn_undone: "undone h (nextTurn opts st)"
  unfolding nextTurn_def Let_def by (rule undone_andThen) (simp_all add: startTurn_undone)

lemma afterTools_undone:
  assumes "inRun st" shows "undone (beforeRun st) (afterTools opts calls results mutated st)"
proof -
  let ?st = "st\<lparr>msgs := msgs st @ [ToolMsg results]\<rparr>"
  have added: "inRun ?st" "beforeRun ?st = beforeRun st"
    using inRun_more [OF assms, of ?st "[ToolMsg results]"] beforeRun_more [OF assms, of ?st] by simp_all
  have fail: "undone (beforeRun st) (failRun message st')" if "msgs st' = msgs ?st" "runUserMsg st' = runUserMsg st" for message st'
  proof -
    have "inRun st'" "beforeRun st' = beforeRun ?st" using that added(1) by (simp_all add: inRun_def beforeRun_def)
    then show ?thesis using failRun_undone [of st' message] added(2) by simp
  qed
  have "undone (beforeRun st) (?st\<lparr>running := False, runUserMsg := None\<rparr>, [OnDone (turnText ?st) True False False])"
    by (rule undone_silent) simp
  then show ?thesis unfolding afterTools_def Let_def by (intro undone_if fail nextTurn_undone) simp_all
qed

lemma toolLoop_undone: "inRun st \<Longrightarrow> undone (beforeRun st) (toolLoop opts rest calls results mutated st)"
proof (induction rest arbitrary: results st)
  case Nil
  then show ?case by (simp add: afterTools_undone)
next
  case (Cons c rest)
  let ?st = "st\<lparr>inputParseFails := inputParseFails st + 1\<rparr>"
  have "inRun ?st" "beforeRun ?st = beforeRun st" using Cons.prems by (simp_all add: inRun_def beforeRun_def)
  then have "undone (beforeRun st) (toolLoop opts rest calls results' mutated ?st)" for results' using Cons.IH [of ?st] by simp
  with Cons.IH [OF Cons.prems] show ?case
    by (auto simp: Let_def undone_silent intro!: undone_andThen)
qed

lemma toolFinished_undone:
  assumes "inRun st" shows "undone (beforeRun st) (toolFinished opts c rest calls results mutated snapshot e st)"
proof -
  let ?st = "st\<lparr>executedCalls := executedCalls st @ [(callName c, \<not> exError e)], mutationSeen := mutationSeen st \<or> exMutated e\<rparr>"
  have "inRun ?st" "beforeRun ?st = beforeRun st" using assms by (simp_all add: inRun_def beforeRun_def)
  then have "undone (beforeRun st) (toolLoop opts rest calls results' mutated' ?st)" for results' mutated' using toolLoop_undone [of ?st] by simp
  then show ?thesis unfolding toolFinished_def Let_def by (intro undone_andThen) simp_all
qed

lemma finishTurn_undone:
  assumes "inRun st" shows "undone (beforeRun st) (finishTurn opts st)"
proof (cases "correctionOf opts st")
  case (Some correction)
  then show ?thesis by (simp add: finishTurn_def startTurn_undone)
next
  case None
  let ?a = "AssistantMsg (turnText st) (map storedCall (toolCalls st)) (if turnReasoning st = [] then None else Some (turnReasoning st))"
  have "inRun (st\<lparr>msgs := msgs st @ [?a]\<rparr>)" "beforeRun (st\<lparr>msgs := msgs st @ [?a]\<rparr>) = beforeRun st"
    using inRun_more [OF assms, of _ "[?a]"] beforeRun_more [OF assms, of _ "[?a]"] by simp_all
  then have "undone (beforeRun st) (toolLoop opts (toolCalls st) (toolCalls st) [] False (st\<lparr>msgs := msgs st @ [?a]\<rparr>))"
    using toolLoop_undone by metis
  moreover have "undone (beforeRun st) (finalTurn st)" by (rule undone_silent) (simp add: finalTurn_def Let_def)
  ultimately show ?thesis using None by (simp add: finishTurn_def)
qed

lemma streamError_undone: "inRun st \<Longrightarrow> undone (beforeRun st) (streamError r e st)"
  unfolding streamError_def by (intro undone_if failRun_undone undone_silent) simp_all

lemma beginRun_silent: "\<forall>e. OnError e \<notin> set (snd (beginRun opts s images st))"
  by (simp add: beginRun_def startTurn_def Let_def)

lemma liveStep_undone:
  assumes "liveStep opts t input st = Some r" "liveInv opts st t" shows "undone (beforeRun st) r"
proof (cases t)
  case (Beginning g s images)
  with assms(1) beginRun_silent show ?thesis by (auto simp: liveStep_def intro!: undone_silent split: ThreadInput.splits)
next
  case (Summarizing g s images i x)
  with assms(1) show ?thesis by (auto simp: liveStep_def intro!: undone_silent split: ThreadInput.splits)
next
  case (Summarized g s images i x)
  with assms(1) show ?thesis by (auto simp: liveStep_def intro!: undone_silent split: ThreadInput.splits)
next
  case (Streaming g n)
  with assms finishTurn_undone streamError_undone show ?thesis
    by (auto simp: liveStep_def liveInv_def streamOk_def undone_silent split: ThreadInput.splits)
next
  case (Backoff g n)
  with assms finishTurn_undone startTurn_undone show ?thesis
    by (auto simp: liveStep_def liveInv_def streamOk_def split: ThreadInput.splits if_splits)
next
  case (Executing g c rest calls results mutated snapshot)
  with assms toolFinished_undone show ?thesis by (auto simp: liveStep_def liveInv_def toolsOk_def split: ThreadInput.splits)
qed

lemma wake_undone:
  assumes "agentInv opts st" "wake opts k input st = Some r" shows "undone (beforeRun st) r"
proof (rule live_cases [OF assms])
  fix t st'
  assume live: "liveStep opts t input st' = Some r" "liveInv opts st' t" "st' = st\<lparr>threads := threads st'\<rparr>"
  have "beforeRun st' = beforeRun st" by (subst live(3)) (simp add: beforeRun_def)
  then show ?thesis using liveStep_undone [OF live(1,2)] by simp
qed (simp add: undone_def)

section \<open>Cancelled runs\<close>

text \<open>The inputs that complete an activity, and the activities that are left before a cancelled run ends.\<close>

fun completes :: "ThreadInput \<Rightarrow> bool" where
  "completes (SummaryDelta _) = False"
| "completes (Delta _) = False"
| "completes (Reasoning _) = False"
| "completes (ToolCalled _) = False"
| "completes (StopReason _) = False"
| "completes _ = True"

fun completion :: "AgentThread \<Rightarrow> ThreadInput" where
  "completion (Beginning _ _ _) = Continue"
| "completion (Summarizing _ _ _ _ _) = SummaryDone"
| "completion (Summarized _ _ _ _ _) = Continue"
| "completion (Streaming _ _) = StreamDone"
| "completion (Backoff _ _) = BackoffOver"
| "completion (Executing _ _ _ _ _ _ _) = ToolThrew ''aborted''"

fun stagesLeft :: "AgentThread \<Rightarrow> nat" where
  "stagesLeft (Summarizing _ _ _ _ _) = 3"
| "stagesLeft (Summarized _ _ _ _ _) = 2"
| "stagesLeft _ = 1"

lemma fst_andThen: "fst (andThen r f) = fst (f (fst r))"
  by (simp add: andThen_def split: prod.split)

lemma toolLoop_cancelled: "cancelled st \<Longrightarrow> \<not> running (fst (toolLoop opts rest calls results mutated st))"
  by (induction rest arbitrary: results) (simp_all add: afterTools_def)

lemma liveStep_cancelled:
  assumes "liveStep opts t input st = Some r" "cancelled st" "completes input" "running (fst r)"
    "older st (threads st)" "threadGeneration t = generation st"
  shows "\<exists>t'. liveThread (fst r) = Some t' \<and> stagesLeft t' < stagesLeft t"
proof (cases t)
  case (Beginning g s images)
  with assms show ?thesis by (auto simp: liveStep_def beginRun_def split: ThreadInput.splits)
next
  case (Summarizing g s images i x)
  with assms show ?thesis by (auto simp: liveStep_def liveThread_spawn split: ThreadInput.splits)
next
  case (Summarized g s images i x)
  with assms show ?thesis by (auto simp: liveStep_def liveThread_spawn older_def split: ThreadInput.splits)
next
  case (Streaming g n)
  with assms show ?thesis
    by (auto simp: liveStep_def finishTurn_def correctionOf_def finalTurn_def streamError_def failRun_def Let_def split: ThreadInput.splits)
next
  case (Backoff g n)
  with assms show ?thesis by (auto simp: liveStep_def finishTurn_def correctionOf_def finalTurn_def Let_def split: ThreadInput.splits)
next
  case (Executing g c rest calls results mutated snapshot)
  have "\<not> running (fst (toolFinished opts c rest calls results mutated snapshot e st))" for e
  proof -
    have "cancelled (st\<lparr>executedCalls := executedCalls st @ [(callName c, \<not> exError e)], mutationSeen := mutationSeen st \<or> exMutated e\<rparr>)"
      using assms(2) by simp
    then show ?thesis unfolding toolFinished_def Let_def fst_andThen fst_conv by (rule toolLoop_cancelled)
  qed
  with Executing assms show ?thesis by (auto simp: liveStep_def split: ThreadInput.splits)
qed

lemma completion_accepted:
  "nthOpt (threads st) k = Some t \<Longrightarrow> completes (completion t) \<and> agentStep opts (Wake k (completion t)) st \<noteq> None"
  by (cases t) (simp_all add: wake_def liveStep_def Let_def)

end
