(* ===== verification/AgentRedaction.thy ===== *)
theory AgentRedaction
  imports AgentProgress
begin

text \<open>
  What the loop sends to models of the user's instructions is redacted: every method keeps the texts of run messages
  free of keys, in the conversation and in the requests for turns and summaries.
\<close>

fun redactedMessage :: "AgentMessage \<Rightarrow> bool" where
  "redactedMessage (UserMsg (Some n) s images) = noKey None s"
| "redactedMessage _ = True"

definition redacted :: "AgentMessage list \<Rightarrow> bool" where
  "redacted h = list_all redactedMessage h"

lemma redactedMessage_same [simp]:
  "redactedMessage (shapeOf m) = redactedMessage m" "redactedMessage (slimMessage m) = redactedMessage m" "redactedMessage (restoredMessage m)"
  by (induction m rule: redactedMessage.induct; simp)+

fun sentMessages :: "AgentOutput \<Rightarrow> AgentMessage list" where
  "sentMessages (TurnRequest h tools) = h"
| "sentMessages (SummaryRequest h) = h"
| "sentMessages _ = []"

definition redactedOuts :: "AgentOutput list \<Rightarrow> bool" where
  "redactedOuts outs \<longleftrightarrow> (\<forall>out\<in>set outs. redacted (sentMessages out))"

definition redactedResult :: "AgentResult \<Rightarrow> bool" where
  "redactedResult r \<longleftrightarrow> redacted (msgs (fst r)) \<and> redactedOuts (snd r)"

lemma redacted_simps [simp]:
  "redacted []" "redacted (m # h) = (redactedMessage m \<and> redacted h)" "redacted (h @ h') = (redacted h \<and> redacted h')"
  by (auto simp: redacted_def)

lemma redacted_subset: "redacted h \<Longrightarrow> set h' \<subseteq> set h \<Longrightarrow> redacted h'"
  by (auto simp: redacted_def list_all_iff)

lemma redacted_parts: "redacted h \<Longrightarrow> redacted (take i h) \<and> redacted (drop i h)"
  by (auto intro: redacted_subset dest: in_set_takeD in_set_dropD)

lemma redacted_map: "(\<And>m. redactedMessage (f m) = redactedMessage m) \<Longrightarrow> redacted (map f h) = redacted h"
  by (simp add: redacted_def list.pred_map comp_def)

lemma redacted_shape: "map shapeOf h' = map shapeOf h \<Longrightarrow> redacted h \<Longrightarrow> redacted h'"
  using redacted_map [of shapeOf] by (metis redactedMessage_same(1))

lemma redactedOuts_simps [simp]:
  "redactedOuts []" "redactedOuts (out # outs) = (redacted (sentMessages out) \<and> redactedOuts outs)"
  "redactedOuts (xs @ ys) = (redactedOuts xs \<and> redactedOuts ys)"
  by (auto simp: redactedOuts_def)

lemma redacted_andThen: "redactedOuts outs \<Longrightarrow> redactedResult (f st) \<Longrightarrow> redactedResult (andThen (st, outs) f)"
  by (auto simp: andThen_def redactedResult_def split: prod.splits)

lemma redacted_if: "(c \<Longrightarrow> redactedResult x) \<Longrightarrow> (\<not> c \<Longrightarrow> redactedResult y) \<Longrightarrow> redactedResult (if c then x else y)"
  by simp

lemma startTurn_redacted: "redacted (msgs st) \<Longrightarrow> redactedResult (startTurn r st)"
  by (simp add: startTurn_def redactedResult_def)

lemma rollback_redacted: "redacted (msgs st) \<Longrightarrow> redacted (msgs (rollbackFailedRun st))"
  using redacted_parts [of "msgs st"] by (simp add: rollbackFailedRun_def split: option.split)

lemma failRun_redacted: "redacted (msgs st) \<Longrightarrow> redactedResult (failRun message st)"
  by (simp add: failRun_def redactedResult_def rollback_redacted)

lemma dropNote_subset: "set (dropNote h) \<subseteq> set h"
proof -
  have "set (dropFirst P xs) \<subseteq> set xs" for P and xs :: "AgentMessage list" by (induction xs) auto
  then show ?thesis by (metis dropNote_def set_rev)
qed

lemma finalTurn_redacted: "redacted (msgs st) \<Longrightarrow> redactedResult (finalTurn st)"
  using redacted_subset [OF _ dropNote_subset] by (simp add: finalTurn_def redactedResult_def Let_def)

lemma nextTurn_redacted:
  assumes "redacted (msgs st)" shows "redactedResult (nextTurn opts st)"
proof -
  have "redacted (msgs (squashStaleToolOutputs opts s))" if "redacted (msgs s)" for s
    using redacted_shape [OF squash_shape that] .
  then show ?thesis unfolding nextTurn_def Let_def
    by (intro redacted_andThen startTurn_redacted) (use assms in simp_all)
qed

lemma afterTools_redacted: "redacted (msgs st) \<Longrightarrow> redactedResult (afterTools opts calls results mutated st)"
  unfolding afterTools_def Let_def
  by (intro redacted_if failRun_redacted nextTurn_redacted) (simp_all add: redactedResult_def)

lemma toolLoop_redacted: "redacted (msgs st) \<Longrightarrow> redactedResult (toolLoop opts rest calls results mutated st)"
proof (induction rest arbitrary: results st)
  case Nil
  then show ?case by (simp add: afterTools_redacted)
next
  case (Cons c rest)
  then show ?case by (auto simp: Let_def redactedResult_def [of "(s, [OnToolStart c])" for s] intro!: redacted_andThen)
qed

lemma toolFinished_redacted:
  "redacted (msgs st) \<Longrightarrow> redactedResult (toolFinished opts c rest calls results mutated snapshot e st)"
  unfolding toolFinished_def Let_def by (intro redacted_andThen toolLoop_redacted) simp_all

lemma finishTurn_redacted: "redacted (msgs st) \<Longrightarrow> redactedResult (finishTurn opts st)"
  by (auto simp: finishTurn_def startTurn_redacted finalTurn_redacted toolLoop_redacted split: option.split)

lemma streamError_redacted: "redacted (msgs st) \<Longrightarrow> redactedResult (streamError r e st)"
  unfolding streamError_def by (intro redacted_if failRun_redacted) (simp_all add: redactedResult_def)

lemma beginRun_redacted:
  assumes "redacted (msgs st)" shows "redactedResult (beginRun opts s images st)"
proof -
  let ?st = "st\<lparr>msgs := rev (dropWhile isUser (rev (msgs st)))\<rparr>"
  have "set (msgs ?st) \<subseteq> set (msgs st)" by (auto dest: set_dropWhileD)
  then have "set (msgs (trimHistory opts ?st)) \<subseteq> set (msgs st)" using trim_set [of opts ?st] by blast
  then have "redacted (msgs (trimHistory opts ?st))" using redacted_subset assms by blast
  moreover have "map shapeOf (map dropReasoning h) = map shapeOf h" for h by (simp add: comp_def dropReasoning_shape)
  ultimately have "redacted (map dropReasoning (msgs (trimHistory opts ?st)))" using redacted_shape by blast
  then show ?thesis using assms unfolding beginRun_def Let_def
    by (intro redacted_if startTurn_redacted) (simp_all add: redactedResult_def sanitized_noKey)
qed

lemma folded_redacted: "redacted h \<Longrightarrow> redacted (foldedHistory summary i h)"
  using redacted_parts by (simp add: foldedHistory_def)

lemma summary_redacted: "redacted h \<Longrightarrow> redacted (summaryMessages h)"
  by (simp add: summaryMessages_def redacted_map)

lemma run_redacted: "redacted (msgs st) \<Longrightarrow> redactedResult (run opts instruction c images st)"
  using summary_redacted redacted_parts [of "msgs st"]
  by (auto simp: run_def Let_def redactedResult_def folded_redacted split: option.split)

lemma restore_redacted: "redacted (msgs st) \<Longrightarrow> redacted (msgs (restore opts messages st))"
proof -
  assume st: "redacted (msgs st)"
  have sub: "set (answeredOnly ms) \<subseteq> set ms" for ms by (induction ms) auto
  have "redacted (map restoredMessage ms)" for ms by (simp add: redacted_def list.pred_map comp_def list.pred_True)
  then have h: "redacted (answeredOnly (map restoredMessage ms))" for ms using redacted_subset sub by blast
  have trim: "redacted (msgs (trimHistory opts (st\<lparr>msgs := g\<rparr>)))" if "redacted g" for g
    using redacted_subset [OF that] trim_set [of opts "st\<lparr>msgs := g\<rparr>"] by simp
  show ?thesis unfolding restore_def Let_def
    by (auto simp: st intro!: trim h folded_redacted split: option.split)
qed

lemma liveStep_redacted: "liveStep opts t input st = Some r \<Longrightarrow> redacted (msgs st) \<Longrightarrow> redactedResult r"
  by (auto simp: liveStep_def beginRun_redacted finishTurn_redacted streamError_redacted startTurn_redacted toolFinished_redacted
        folded_redacted redactedResult_def [of "(s, [])" for s] redactedResult_def [of "(s, [OnText x])" for s x]
      split: AgentThread.splits ThreadInput.splits if_splits)

lemma agentStep_redacted:
  assumes "agentStep opts l st = Some r" "redacted (msgs st)" shows "redactedResult r"
proof (cases l)
  case (Wake k input)
  with assms show ?thesis
    by (auto simp: wake_def Let_def redactedResult_def [of "(s, [])" for s] intro: liveStep_redacted split: option.splits if_splits)
qed (use assms run_redacted restore_redacted in \<open>auto simp: redactedResult_def cancel_def reset_def\<close>)

lemma reach_redacted: "agentReach opts st sent \<Longrightarrow> redacted (msgs st) \<and> redactedOuts sent"
proof (induction rule: agentReach.induct)
  case ReachStart
  show ?case by (simp add: initialAgent_def)
next
  case (ReachStep st sent l st' outs)
  then show ?case using agentStep_redacted [OF ReachStep.hyps(3)] by (simp add: redactedResult_def)
qed

end
