(* ===== verification/AgentCompaction.thy ===== *)
theory AgentCompaction
  imports AgentInvariant
begin

text \<open>
  Where a compaction cuts the conversation (\<open>findCompactCut\<close>): the specification of the cut, and the loop that
  reads the messages from the last one.
\<close>

text \<open>The cut found when the messages from \<open>k\<close> on have been read.\<close>

definition lastOrFits :: "nat \<Rightarrow> AgentMessage list \<Rightarrow> nat \<Rightarrow> bool" where
  "lastOrFits keep h i \<longleftrightarrow> cutOk i h \<and> (historySize (drop i h) \<le> keep \<or> list_all (\<lambda>m. \<not> isUser m) (drop (Suc i) h))"

definition cutFrom :: "nat \<Rightarrow> AgentMessage list \<Rightarrow> nat \<Rightarrow> nat option \<Rightarrow> bool" where
  "cutFrom keep h k c =
     (case c of None \<Rightarrow> list_all (\<lambda>m. \<not> isUser m) (drop k h)
      | Some i \<Rightarrow> k \<le> i \<and> lastOrFits keep h i \<and> (\<forall>j. k \<le> j \<and> j < i \<longrightarrow> \<not> isUser (h ! j)))"

definition bestCut :: "nat \<Rightarrow> AgentMessage list \<Rightarrow> nat option \<Rightarrow> bool" where
  "bestCut keep h c =
     (case c of None \<Rightarrow> list_all (\<lambda>m. \<not> isUser m) h
      | Some i \<Rightarrow> lastOrFits keep h i \<and> (\<forall>j<i. isUser (h ! j) \<longrightarrow> keep < historySize (drop j h)))"

lemma historySize_drop: "k < length h \<Longrightarrow> historySize (drop k h) = messageSize (h ! k) + historySize (drop (Suc k) h)"
  by (simp add: historySize_def flip: Cons_nth_drop_Suc)

lemma historySize_mono: "j \<le> k \<Longrightarrow> historySize (drop k h) \<le> historySize (drop j h)"
proof -
  assume "j \<le> k"
  then have "drop j h = take (k - j) (drop j h) @ drop k h" by (metis append_take_drop_id drop_drop le_add_diff_inverse2)
  then show ?thesis by (metis historySize_def le_add2 map_append sum_list_append)
qed

lemma compactCutLoop_best:
  "k \<le> length h \<Longrightarrow> cutFrom keep h k c \<Longrightarrow> bestCut keep h (compactCutLoop keep (rev (enumerate 0 (take k h))) (historySize (drop k h)) c)"
proof (induction k arbitrary: c)
  case 0
  then show ?case by (auto simp: cutFrom_def bestCut_def split: option.splits)
next
  case (Suc k)
  then have k: "k < length h" by simp
  have list: "rev (enumerate 0 (take (Suc k) h)) = (k, h ! k) # rev (enumerate 0 (take k h))"
    using k by (simp add: take_Suc_conv_app_nth enumerate_append_eq)
  have size': "historySize (drop (Suc k) h) + messageSize (h ! k) = historySize (drop k h)" using historySize_drop [OF k] by simp
  have drop': "drop k h = h ! k # drop (Suc k) h" using k by (simp add: Cons_nth_drop_Suc)
  show ?case
  proof (cases "keep < historySize (drop k h) \<and> c \<noteq> None")
    case True
    then obtain i where i: "c = Some i" by auto
    with Suc.prems(2) have spec: "lastOrFits keep h i" "\<forall>j. Suc k \<le> j \<and> j < i \<longrightarrow> \<not> isUser (h ! j)" by (simp_all add: cutFrom_def)
    have "keep < historySize (drop j h)" if "j < i" "isUser (h ! j)" for j
    proof -
      have "j \<le> k" using spec(2) that by (metis not_less_eq_eq)
      with historySize_mono [of j k h] True show ?thesis by simp
    qed
    with True i spec(1) show ?thesis by (simp add: list size' bestCut_def)
  next
    case False
    have "cutFrom keep h k (if isUser (h ! k) then Some k else c)"
    proof (cases c)
      case None
      with Suc.prems(2) k drop' show ?thesis by (auto simp: cutFrom_def lastOrFits_def cutOk_def)
    next
      case (Some i)
      with Suc.prems(2) have spec: "Suc k \<le> i" "lastOrFits keep h i" "\<forall>j. Suc k \<le> j \<and> j < i \<longrightarrow> \<not> isUser (h ! j)"
        by (simp_all add: cutFrom_def)
      show ?thesis
      proof (cases "isUser (h ! k)")
        case True
        with Some False k show ?thesis by (auto simp: cutFrom_def lastOrFits_def cutOk_def)
      next
        case notUser: False
        then have "\<not> isUser (h ! j)" if "k \<le> j" "j < i" for j using spec(3) that by (cases "j = k") simp_all
        with spec(1,2) Some notUser show ?thesis by (simp add: cutFrom_def)
      qed
    qed
    from Suc.IH [OF _ this] k have "bestCut keep h (compactCutLoop keep (rev (enumerate 0 (take k h))) (historySize (drop k h)) (if isUser (h ! k) then Some k else c))"
      by simp
    with False show ?thesis unfolding list compactCutLoop.simps Let_def size' by auto
  qed
qed

end
