(* ===== verification/AgentRollback.thy ===== *)
theory AgentRollback
  imports AgentProgress
begin

text \<open>
  What a failed run leaves of the conversation that was there when \<open>run\<close> was called. The run's own messages go; but
  what the loop did to the earlier messages is not undone: the compaction and the trimming before its user message,
  the reasoning dropped there, and the stale tool outputs shortened between its turns.
\<close>

section \<open>Shortened conversations\<close>

definition cutResult :: "AgentToolResult \<Rightarrow> AgentToolResult \<Rightarrow> bool" where
  "cutResult r r' \<longleftrightarrow> r' = r \<or>
     STALE_TOOL_OUTPUT_MAX < length (resultOutput r) \<and>
     r' = r\<lparr>resultOutput := take STALE_TOOL_OUTPUT_MAX (resultOutput r) @ newline @ ellipsis @ ''(output truncated: too long)''\<rparr>"

fun cutMessage :: "AgentMessage \<Rightarrow> AgentMessage \<Rightarrow> bool" where
  "cutMessage (ToolMsg results) (ToolMsg results') = list_all2 cutResult results results'"
| "cutMessage m m' = (m' = m)"

text \<open>The same messages; without compaction exactly, otherwise up to long outputs of tools cut short.\<close>

definition shortened :: "AgentOptions \<Rightarrow> AgentMessage list \<Rightarrow> AgentMessage list \<Rightarrow> bool" where
  "shortened opts h h' \<longleftrightarrow> (if compaction opts = None then h' = h else list_all2 cutMessage h h')"

lemma cutResult_refl [simp]: "cutResult r r"
  by (simp add: cutResult_def)

lemma cutMessage_refl [simp]: "cutMessage m m"
  by (cases m) (simp_all add: list_all2_refl)

lemma cutResult_trans: "cutResult a b \<Longrightarrow> cutResult b c \<Longrightarrow> cutResult a c"
  by (auto simp: cutResult_def)

lemma cutMessage_trans: "cutMessage a b \<Longrightarrow> cutMessage b c \<Longrightarrow> cutMessage a c"
  by (cases a; cases b; cases c) (auto intro: list_all2_trans [of cutResult, OF cutResult_trans])

lemma cutMessage_run: "cutMessage m m' \<Longrightarrow> runOf m' = runOf m"
  by (cases m; cases m') auto

lemma shortened_refl [simp]: "shortened opts h h"
  by (simp add: shortened_def list_all2_refl)

lemma shortened_trans: "shortened opts a b \<Longrightarrow> shortened opts b c \<Longrightarrow> shortened opts a c"
  by (auto simp: shortened_def intro: list_all2_trans [of cutMessage, OF cutMessage_trans])

lemma shortened_append: "shortened opts h h' \<Longrightarrow> shortened opts (h @ t) (h' @ t)"
  by (auto simp: shortened_def list_all2_refl intro!: list_all2_appendI)

lemma cut_takeWhile: "list_all2 cutMessage h h' \<Longrightarrow>
    list_all2 cutMessage (takeWhile (\<lambda>m. runOf m \<noteq> n) h) (takeWhile (\<lambda>m. runOf m \<noteq> n) h')"
  by (induction rule: list_all2_induct) (auto dest: cutMessage_run)

lemma shortened_takeWhile:
  "shortened opts h h' \<Longrightarrow> shortened opts (takeWhile (\<lambda>m. runOf m \<noteq> n) h) (takeWhile (\<lambda>m. runOf m \<noteq> n) h')"
  by (simp add: shortened_def cut_takeWhile split: if_splits)

lemma squashMessage_cut: "cutMessage m (squashMessage m)"
  by (cases m) (auto simp: list_all2_conv_all_nth cutResult_def)

lemma squashFrom_cut: "list_all2 cutMessage h (squashFrom n h)"
proof (induction n h rule: squashFrom.induct)
  case (2 n results ms)
  then show ?case using squashMessage_cut [of "ToolMsg results"] by simp
qed simp_all

lemma squash_shortened: "shortened opts (msgs st) (msgs (squashStaleToolOutputs opts st))"
proof -
  have "list_all2 cutMessage (msgs st) (rev (squashFrom 0 (rev (msgs st))))"
    using squashFrom_cut [of "rev (msgs st)" 0] by (metis list_all2_rev rev_rev_ident)
  then show ?thesis by (simp add: squashStaleToolOutputs_def shortened_def list_all2_refl)
qed

section \<open>Steps within a run\<close>

text \<open>A result that goes on with the run keeps its messages, shortened, and adds to them.\<close>

definition carries :: "AgentOptions \<Rightarrow> AgentState \<Rightarrow> AgentResult \<Rightarrow> bool" where
  "carries opts st r \<longleftrightarrow> (running (fst r) \<longrightarrow>
     runUserMsg (fst r) = runUserMsg st \<and> (\<exists>added. shortened opts (msgs st @ added) (msgs (fst r))))"

lemma carries_ended: "\<not> running (fst r) \<Longrightarrow> carries opts st r"
  by (simp add: carries_def)

lemma carries_same: "runUserMsg (fst r) = runUserMsg st \<Longrightarrow> msgs (fst r) = msgs st @ added \<Longrightarrow> carries opts st r"
  by (auto simp: carries_def intro!: exI [of _ added])

lemma carries_if: "(c \<Longrightarrow> carries opts st x) \<Longrightarrow> (\<not> c \<Longrightarrow> carries opts st y) \<Longrightarrow> carries opts st (if c then x else y)"
  by simp

lemma carries_andThen: "carries opts st (f st') \<Longrightarrow> carries opts st (andThen (st', outs) f)"
  by (cases "f st'") (simp add: carries_def andThen_def)

lemma carries_more:
  assumes "carries opts st' r" "runUserMsg st' = runUserMsg st" "msgs st' = msgs st @ extra"
  shows "carries opts st r"
  unfolding carries_def
proof
  assume "running (fst r)"
  with assms obtain added where a: "runUserMsg (fst r) = runUserMsg st" "shortened opts ((msgs st @ extra) @ added) (msgs (fst r))"
    by (auto simp: carries_def)
  then show "runUserMsg (fst r) = runUserMsg st \<and> (\<exists>added. shortened opts (msgs st @ added) (msgs (fst r)))"
    by (auto intro!: exI [of _ "extra @ added"])
qed

lemma carries_alike: "carries opts st' r \<Longrightarrow> runUserMsg st' = runUserMsg st \<Longrightarrow> msgs st' = msgs st \<Longrightarrow> carries opts st r"
  by (simp add: carries_def)

lemma failRun_carries: "carries opts st (failRun message st')"
  by (rule carries_ended) (simp add: failRun_def)

lemma finalTurn_carries: "carries opts st (finalTurn st')"
  by (rule carries_ended) (simp add: finalTurn_def Let_def)

lemma startTurn_carries: "carries opts st (startTurn r st)"
  by (rule carries_same [of _ _ "[]"]) (simp_all add: startTurn_def)

lemma nextTurn_carries: "carries opts st (nextTurn opts st)"
proof -
  let ?st1 = "st\<lparr>turns := turns st + 1\<rparr>"
  let ?st2 = "if maxTurnsOf opts \<le> turns ?st1
      then ?st1\<lparr>finalizing := True, msgs := msgs ?st1 @ [UserMsg None TURN_LIMIT_NOTE []]\<rparr> else ?st1"
  let ?st3 = "squashStaleToolOutputs opts ?st2"
  obtain note' where two: "runUserMsg ?st2 = runUserMsg st" "msgs ?st2 = msgs st @ note'" by (cases "maxTurnsOf opts \<le> turns ?st1") auto
  have "runUserMsg (fst (startTurn 0 ?st3)) = runUserMsg ?st2" "msgs (fst (startTurn 0 ?st3)) = msgs ?st3"
    using squash_parts [of opts ?st2] by (simp_all add: startTurn_def)
  with two squash_shortened [of opts ?st2] have "carries opts st (startTurn 0 ?st3)" unfolding carries_def by metis
  then show ?thesis unfolding nextTurn_def Let_def by (rule carries_andThen)
qed

lemma afterTools_carries: "carries opts st (afterTools opts calls results mutated st)"
proof -
  let ?st = "st\<lparr>msgs := msgs st @ [ToolMsg results]\<rparr>"
  have next': "carries opts st (nextTurn opts st')" if "runUserMsg st' = runUserMsg st" "msgs st' = msgs ?st" for st'
    by (rule carries_more [OF nextTurn_carries]) (use that in simp_all)
  show ?thesis
    unfolding afterTools_def Let_def by (intro carries_if next' failRun_carries carries_ended) simp_all
qed

lemma toolLoop_carries: "carries opts st (toolLoop opts rest calls results mutated st)"
proof (induction rest arbitrary: results st)
  case Nil
  then show ?case by (simp add: afterTools_carries)
next
  case (Cons c rest)
  let ?st = "st\<lparr>inputParseFails := inputParseFails st + 1\<rparr>"
  have "carries opts st (toolLoop opts rest calls results' mutated ?st)" for results'
    by (rule carries_alike [OF Cons.IH]) simp_all
  moreover have "carries opts st (spawn t (st\<lparr>inputParseFails := 0\<rparr>), outs)" for t outs
    by (rule carries_same [of _ _ "[]"]) simp_all
  ultimately show ?case using Cons.IH by (auto simp: Let_def intro!: carries_andThen)
qed

lemma toolFinished_carries: "carries opts st (toolFinished opts c rest calls results mutated snapshot e st)"
  unfolding toolFinished_def Let_def
  by (intro carries_andThen, rule carries_alike [OF toolLoop_carries]) simp_all

lemma finishTurn_carries: "carries opts st (finishTurn opts st)"
proof (cases "correctionOf opts st")
  case (Some correction)
  let ?st = "st\<lparr>verifyRetryUsed := True, msgs := msgs st @ [AssistantMsg (turnText st) [] None, UserMsg None correction []]\<rparr>"
  have "carries opts st (startTurn 0 ?st)" by (rule carries_more [OF startTurn_carries]) simp_all
  with Some show ?thesis by (simp add: finishTurn_def)
next
  case None
  let ?a = "AssistantMsg (turnText st) (map storedCall (toolCalls st)) (if turnReasoning st = [] then None else Some (turnReasoning st))"
  have "carries opts st (toolLoop opts (toolCalls st) (toolCalls st) [] False (st\<lparr>msgs := msgs st @ [?a]\<rparr>))"
    by (rule carries_more [OF toolLoop_carries]) simp_all
  then show ?thesis using None finalTurn_carries by (simp add: finishTurn_def)
qed

lemma streamError_carries: "carries opts st (streamError r e st)"
  unfolding streamError_def by (intro carries_if failRun_carries, rule carries_same [of _ _ "[]"]) simp_all

lemma liveStep_carries:
  assumes "liveStep opts t input st = Some r" "runUserMsg st \<noteq> None" "liveInv opts st t" shows "carries opts st r"
proof (cases t)
  case (Streaming g n)
  have more: "carries opts st (spawn u st', outs)" if "msgs st' = msgs st" "runUserMsg st' = runUserMsg st" for u st' outs
    by (rule carries_same [of _ _ "[]"]) (use that in simp_all)
  from Streaming assms(1) finishTurn_carries streamError_carries show ?thesis
    by (auto simp: liveStep_def intro!: more split: ThreadInput.splits)
next
  case (Backoff g n)
  with assms(1) finishTurn_carries startTurn_carries show ?thesis by (auto simp: liveStep_def split: ThreadInput.splits if_splits)
next
  case (Executing g c rest calls results mutated snapshot)
  with assms(1) toolFinished_carries show ?thesis by (auto simp: liveStep_def split: ThreadInput.splits)
qed (use assms(2,3) in \<open>auto simp: liveInv_def freshRun_def\<close>)

lemma carries_before:
  assumes "carries opts st r" "running (fst r)" "inRun st"
  shows "shortened opts (beforeRun st) (beforeRun (fst r))"
proof -
  obtain added where a: "runUserMsg (fst r) = runUserMsg st" "shortened opts (msgs st @ added) (msgs (fst r))"
    using assms(1,2) by (auto simp: carries_def)
  have "beforeRun (st\<lparr>msgs := msgs st @ added\<rparr>) = beforeRun st" by (rule beforeRun_more [OF assms(3)]) simp_all
  with shortened_takeWhile [OF a(2), of "runUserMsg st"] a(1) show ?thesis by (simp add: beforeRun_def)
qed

section \<open>From the call of a run on\<close>

text \<open>What compaction makes of the conversation, the summary aside.\<close>

definition compacted :: "AgentOptions \<Rightarrow> AgentMessage list \<Rightarrow> AgentMessage list \<Rightarrow> bool" where
  "compacted opts h h1 \<longleftrightarrow>
     (case compactionCut opts h of None \<Rightarrow> h1 = h | Some i \<Rightarrow> \<exists>summary. h1 = foldedHistory summary i h)"

text \<open>A conversation over the limit of messages loses a part before a message of the user, if anything.\<close>

definition trimmedTo :: "AgentOptions \<Rightarrow> AgentMessage list \<Rightarrow> AgentMessage list \<Rightarrow> bool" where
  "trimmedTo opts h d \<longleftrightarrow>
     d = h \<or> (case maxHistory opts of Some n \<Rightarrow> n | None \<Rightarrow> 40) < length h \<and> (\<exists>a. h = a @ d \<and> d \<noteq> [] \<and> isUser (hd d))"

text \<open>The conversation before the user message of a run, when \<open>run\<close> was called on the given one.\<close>

definition startsFrom :: "AgentOptions \<Rightarrow> AgentMessage list \<Rightarrow> AgentMessage list \<Rightarrow> bool" where
  "startsFrom opts h base \<longleftrightarrow>
     (\<exists>h1 d. compacted opts h h1 \<and> trimmedTo opts (rev (dropWhile isUser (rev h1))) d \<and> base = map dropReasoning d)"

fun beginsFrom :: "AgentOptions \<Rightarrow> AgentMessage list \<Rightarrow> AgentMessage list \<Rightarrow> AgentThread \<Rightarrow> bool" where
  "beginsFrom opts h now (Beginning _ _ _) = compacted opts h now"
| "beginsFrom opts h now (Summarizing _ _ _ i _) = (now = h \<and> compactionCut opts h = Some i)"
| "beginsFrom opts h now (Summarized _ _ _ i _) = (now = h \<and> compactionCut opts h = Some i)"
| "beginsFrom opts h now _ = False"

definition runHistory :: "AgentOptions \<Rightarrow> AgentMessage list \<Rightarrow> AgentState \<Rightarrow> bool" where
  "runHistory opts h st \<longleftrightarrow> (running st \<longrightarrow>
     (if runUserMsg st \<noteq> None then \<exists>base. startsFrom opts h base \<and> shortened opts base (beforeRun st)
      else \<forall>t\<in>set (threads st). threadGeneration t = generation st \<longrightarrow> beginsFrom opts h (msgs st) t))"

lemma spawned_history:
  assumes "older st (threads st)" "runUserMsg st = None" "beginsFrom opts h (msgs st) t"
  shows "runHistory opts h (spawn t st)"
  using assms by (auto simp: runHistory_def older_def)

lemma run_history:
  assumes "agentInv opts st" "\<not> running st"
  shows "runHistory opts (msgs st) (fst (run opts instruction c images st))"
proof (cases "instruction = []")
  case True
  then show ?thesis using assms(2) by (simp add: run_def runHistory_def)
next
  case False
  have "older st (threads st)" "runUserMsg st = None" using assms by (simp_all add: agentInv_def)
  then show ?thesis
    using False assms(2)
    by (auto simp: run_def Let_def older_def compacted_def intro!: spawned_history split: option.split)
qed

lemma trimmed_msgs: "trimmedTo opts (msgs st) (msgs (trimHistory opts st))"
proof (cases "length (msgs st) \<le> (case maxHistory opts of Some n \<Rightarrow> n | None \<Rightarrow> 40)")
  case True
  then show ?thesis by (simp add: trimmedTo_def trimHistory_def Let_def)
next
  case False
  with trim_msgs [of opts st] show ?thesis by (fastforce simp: trimmedTo_def)
qed

lemma beginRun_history:
  assumes "runsKnown st" "compacted opts h (msgs st)"
  shows "runHistory opts h (fst (beginRun opts s images st))"
proof (cases "cancelled st")
  case True
  then show ?thesis by (simp add: beginRun_def runHistory_def)
next
  case False
  let ?a = "rev (dropWhile isUser (rev (msgs st)))"
  let ?t = "trimHistory opts (st\<lparr>msgs := ?a\<rparr>)"
  let ?base = "map dropReasoning (msgs ?t)"
  have trimmed: "trimmedTo opts ?a (msgs ?t)" using trimmed_msgs [of opts "st\<lparr>msgs := ?a\<rparr>"] by simp
  with assms(2) have "startsFrom opts h ?base" by (auto simp: startsFrom_def)
  moreover have "runOf m \<noteq> Some (runCount st)" if "m \<in> set ?base" for m
  proof -
    from that obtain d where "d \<in> set (msgs ?t)" "m = dropReasoning d" by auto
    moreover from this(1) have "d \<in> set (msgs st)"
      using trim_set [of opts "st\<lparr>msgs := ?a\<rparr>"] by (auto dest!: subsetD [of "set _" "set (dropWhile _ _)"] set_dropWhileD)
    moreover have "runOf (dropReasoning d) = runOf d" by (cases d) simp_all
    ultimately show ?thesis using assms(1) by (auto simp: runsKnown_def)
  qed
  then have "takeWhile (\<lambda>m. runOf m \<noteq> Some (runCount st)) (?base @ [UserMsg (Some (runCount st)) u images]) = ?base" for u
    by (subst takeWhile_append2) auto
  then have "beforeRun (fst (beginRun opts s images st)) = ?base"
    using False by (simp add: beginRun_def startTurn_def Let_def beforeRun_def)
  moreover have "runUserMsg (fst (beginRun opts s images st)) \<noteq> None"
    using False by (simp add: beginRun_def startTurn_def Let_def)
  ultimately show ?thesis unfolding runHistory_def by (metis shortened_refl)
qed

lemma carried_history:
  assumes "runHistory opts h st" "running st" "inRun st" "carries opts st r"
  shows "runHistory opts h (fst r)"
  unfolding runHistory_def
proof
  assume on: "running (fst r)"
  have some: "runUserMsg st \<noteq> None" using assms(3) by (auto simp: inRun_def)
  with assms(1,2) obtain base where "startsFrom opts h base" "shortened opts base (beforeRun st)" by (auto simp: runHistory_def)
  with carries_before [OF assms(4) on assms(3)] have "startsFrom opts h base" "shortened opts base (beforeRun (fst r))"
    by (auto intro: shortened_trans)
  moreover have "runUserMsg (fst r) \<noteq> None" using assms(4) on some by (simp add: carries_def)
  ultimately show "if runUserMsg (fst r) \<noteq> None then \<exists>base. startsFrom opts h base \<and> shortened opts base (beforeRun (fst r))
      else \<forall>t\<in>set (threads (fst r)). threadGeneration t = generation (fst r) \<longrightarrow> beginsFrom opts h (msgs (fst r)) t" by auto
qed

lemma liveStep_history:
  assumes "liveStep opts t input st = Some r" "older st (threads st)" "runsKnown st" "liveInv opts st t" "running st"
    and history: "runUserMsg st = None \<Longrightarrow> beginsFrom opts h (msgs st) t" "runUserMsg st \<noteq> None \<Longrightarrow> runHistory opts h st"
  shows "runHistory opts h (fst r)"
proof (cases "runUserMsg st")
  case None
  note begins = history(1) [OF None]
  show ?thesis
  proof (cases t)
    case (Beginning g s images)
    with begins beginRun_history [OF assms(3)] assms(1) show ?thesis by (auto simp: liveStep_def split: ThreadInput.splits)
  next
    case (Summarizing g s images i x)
    with begins assms(1,2) None show ?thesis by (auto simp: liveStep_def intro!: spawned_history split: ThreadInput.splits)
  next
    case (Summarized g s images i x)
    let ?st = "st\<lparr>msgs := foldedHistory (case x of Some summary \<Rightarrow> summary | None \<Rightarrow> mechanicalDigest (take i (msgs st))) i (msgs st)\<rparr>"
    have "runHistory opts h (spawn (Beginning g s images) ?st)"
      by (rule spawned_history) (use Summarized begins assms(2) None in \<open>auto simp: older_def compacted_def\<close>)
    with Summarized assms(1) show ?thesis by (auto simp: liveStep_def split: ThreadInput.splits)
  qed (use begins in simp_all)
next
  case (Some n)
  then have "inRun st" using assms(4) by (cases t) (auto simp: liveInv_def freshRun_def streamOk_def toolsOk_def)
  with carried_history [OF history(2) assms(5) this] liveStep_carries [OF assms(1) _ assms(4)] Some show ?thesis by simp
qed

lemma step_history:
  assumes "agentStep opts l st = Some r" "agentInv opts st" "runHistory opts h st" "\<not> startsRun l"
  shows "runHistory opts h (fst r)"
proof (cases l)
  case (Wake k input)
  with assms(1) have woken: "wake opts k input st = Some r" by simp
  show ?thesis
  proof (rule live_cases [OF assms(2) woken])
    assume "r = (st\<lparr>threads := take k (threads st) @ drop (k + 1) (threads st)\<rparr>, [])"
    with assms(3) show ?thesis by (auto simp: runHistory_def beforeRun_def dest: in_set_takeD in_set_dropD)
  next
    fix t st'
    assume live: "nthOpt (threads st) k = Some t" "running st" "liveStep opts t input st' = Some r" "running st'" "older st' (threads st')"
      "runsKnown st'" "liveInv opts st' t" "threadGeneration t = generation st'" "st' = st\<lparr>threads := threads st'\<rparr>"
    have same: "runUserMsg st' = runUserMsg st" "msgs st' = msgs st" "generation st' = generation st" "beforeRun st' = beforeRun st"
      by (subst live(9), simp add: beforeRun_def)+
    have "t \<in> set (threads st)" using live(1) by (auto simp: nthOpt_def split: if_splits)
    then have "beginsFrom opts h (msgs st') t" if "runUserMsg st' = None"
      using assms(3) that same live(2,8) by (auto simp: runHistory_def)
    moreover have "runHistory opts h st'" if "runUserMsg st' \<noteq> None"
      using assms(3) that same live(2) by (auto simp: runHistory_def)
    ultimately show ?thesis by (rule liveStep_history [OF live(3,5,6,7,4)])
  qed
next
  case (DoRestore messages)
  with assms(1,3) show ?thesis by (auto simp: restore_def runHistory_def trim_parts Let_def)
next
  case DoCancel
  have "running (cancel st) = running st" "runUserMsg (cancel st) = runUserMsg st" "beforeRun (cancel st) = beforeRun st"
    "threads (cancel st) = threads st" "generation (cancel st) = generation st" "msgs (cancel st) = msgs st"
    by (simp_all add: cancel_def beforeRun_def)
  moreover have "fst r = cancel st" using DoCancel assms(1) by auto
  ultimately show ?thesis using assms(3) by (simp add: runHistory_def)
next
  case DoReset
  with assms(1) show ?thesis by (auto simp: reset_def runHistory_def)
qed (use assms(4) in simp)

lemma steps_history:
  "agentSteps opts ls st = Some r \<Longrightarrow> agentInv opts st \<Longrightarrow> list_all labelOk ls \<Longrightarrow> \<not> list_ex startsRun ls \<Longrightarrow> runHistory opts h st
    \<Longrightarrow> agentInv opts (fst r) \<and> runHistory opts h (fst r)"
proof (induction ls arbitrary: st r)
  case (Cons l ls)
  from Cons.prems(1) obtain q r' where step: "agentStep opts l st = Some q" "agentSteps opts ls (fst q) = Some r'" "r = (fst r', snd q @ snd r')"
    by (auto split: option.splits)
  have "agentInv opts (fst q)" using agentStep_good [OF step(1)] Cons.prems by (simp add: goodResult_def)
  moreover have "runHistory opts h (fst q)" using step_history [OF step(1)] Cons.prems by simp
  ultimately show ?case using Cons.IH [OF step(2)] Cons.prems(3,4) step(3) by simp
qed auto

text \<open>A failure is one of a run that has its user message in the conversation.\<close>

lemma failure_in_run:
  assumes "agentInv opts st" "wake opts k input st = Some r" "OnError e \<in> set (snd r)"
  shows "running st \<and> runUserMsg st \<noteq> None"
proof (rule live_cases [OF assms(1,2)])
  assume "r = (st\<lparr>threads := take k (threads st) @ drop (k + 1) (threads st)\<rparr>, [])"
  with assms(3) show ?thesis by simp
next
  fix t st'
  assume live: "running st" "liveStep opts t input st' = Some r" "liveInv opts st' t" "st' = st\<lparr>threads := threads st'\<rparr>"
  have "runUserMsg st' = runUserMsg st" by (subst live(4)) simp
  moreover have "runUserMsg st' \<noteq> None"
  proof (cases t)
    case (Beginning g s images)
    with live(2) assms(3) beginRun_silent [of opts s images st'] show ?thesis by (auto simp: liveStep_def split: ThreadInput.splits)
  qed (use live(2,3) assms(3) in \<open>auto simp: liveStep_def liveInv_def streamOk_def toolsOk_def inRun_def split: ThreadInput.splits\<close>)
  ultimately show ?thesis using live(1) by simp
qed

lemma failure_history:
  assumes "agentInv opts st" "runHistory opts h st" "agentStep opts l st = Some (st', outs)" "OnError e \<in> set outs"
  shows "\<not> running st' \<and> runUserMsg st' = None \<and> (\<exists>base. startsFrom opts h base \<and> shortened opts base (msgs st'))"
proof (cases l)
  case (DoRun instruction c images)
  then show ?thesis using assms(3,4) by (auto simp: run_def Let_def split: if_splits option.splits)
next
  case (Wake k input)
  with assms(3) have woken: "wake opts k input st = Some (st', outs)" by simp
  have "running st \<and> runUserMsg st \<noteq> None" by (rule failure_in_run [OF assms(1) woken]) (use assms(4) in simp)
  with assms(2) obtain base where "startsFrom opts h base" "shortened opts base (beforeRun st)" by (auto simp: runHistory_def)
  moreover have "\<not> running st' \<and> runUserMsg st' = None \<and> msgs st' = beforeRun st"
    using wake_undone [OF assms(1) woken] assms(4) by (auto simp: undone_def)
  ultimately show ?thesis by auto
qed (use assms(3,4) in auto)

text \<open>An output of an earlier run that the failed run has cut stays cut.\<close>

lemma cut_output_stays:
  assumes "msgs st = [UserMsg None s [], AssistantMsg [] [c1] None, ToolMsg [r1], AssistantMsg s' [] None,
      UserMsg (Some n) t [], AssistantMsg [] [c2] None, ToolMsg [r2], AssistantMsg [] [c3] None, ToolMsg [r3]]"
    and "runUserMsg st = Some n" "STALE_TOOL_OUTPUT_MAX < length (resultOutput r1)"
    and "compaction opts \<noteq> None" "fst (compactBudget opts) < historySize (msgs st)"
  shows "msgs (fst (failRun message (squashStaleToolOutputs opts st))) =
    [UserMsg None s [], AssistantMsg [] [c1] None,
     ToolMsg [r1\<lparr>resultOutput := take STALE_TOOL_OUTPUT_MAX (resultOutput r1) @ newline @ ellipsis @ ''(output truncated: too long)''\<rparr>],
     AssistantMsg s' [] None]"
  using assms by (auto simp: failRun_def rollbackFailedRun_def squashStaleToolOutputs_def STALE_TOOL_KEEP_RECENT_def)

text \<open>Where nothing had to be compacted, trimmed or dropped, the conversation is the former one exactly.\<close>

definition startsUnchanged :: "AgentOptions \<Rightarrow> AgentMessage list \<Rightarrow> bool" where
  "startsUnchanged opts h \<longleftrightarrow>
     compaction opts = None \<and> length h \<le> (case maxHistory opts of Some n \<Rightarrow> n | None \<Rightarrow> 40) \<and>
     (h = [] \<or> \<not> isUser (last h)) \<and> map dropReasoning h = h"

lemma unchanged_base:
  assumes "startsUnchanged opts h" "startsFrom opts h base" "shortened opts base h'"
  shows "h' = h"
proof -
  have none: "compactionCut opts h = None" using assms(1) by (simp add: startsUnchanged_def compactionCut_def)
  have "dropWhile isUser (rev h) = rev h"
    using assms(1) by (cases h rule: rev_cases) (auto simp: startsUnchanged_def)
  then have "base = map dropReasoning h"
    using assms(1,2) none by (auto simp: startsFrom_def compacted_def trimmedTo_def startsUnchanged_def)
  then show ?thesis using assms(1,3) by (simp add: startsUnchanged_def shortened_def)
qed

end
