(* ===== verification/AgentProperties.thy ===== *)
theory AgentProperties
  imports AgentRedaction AgentCompaction AgentRollback
begin

text \<open>The properties of the agent loop, in all its reachable states, with sample runs.\<close>

section \<open>A sample run\<close>

definition sampleOptions :: AgentOptions where
  "sampleOptions =
     \<lparr>maxTurns = Some 1, maxHistory = None, compaction = None, capturesSnapshot = False, formatUserMessage = None,
      verifyResponse = None\<rparr>"

definition sampleCall :: AgentToolCall where
  "sampleCall = \<lparr>callId = ''t1'', callName = ''read'', callInput = ''{}'', inputError = None, callTruncated = False\<rparr>"

definition sampleExecution :: ToolExecution where
  "sampleExecution = \<lparr>exOutput = ''ok'', exError = False, exMutated = False, exSummary = ''read''\<rparr>"

text \<open>A run up to its stream, to its tool, to the turn after the tool; one that is cancelled; one that fails.\<close>

definition streamingRun :: "AgentLabel list" where
  "streamingRun = [DoRun ''hi'' [] [], Wake 0 Continue]"

definition toolRun :: "AgentLabel list" where
  "toolRun = [Wake 0 (ToolCalled sampleCall), Wake 0 StreamDone, Wake 0 (ToolFinished sampleExecution)]"

definition cancelledRun :: "AgentLabel list" where
  "cancelledRun = [DoRun ''hi'' [] [], Wake 0 Continue, DoCancel]"

definition stateAfter :: "AgentLabel list \<Rightarrow> AgentState" where
  "stateAfter ls = (case agentSteps sampleOptions ls initialAgent of Some r \<Rightarrow> fst r | None \<Rightarrow> initialAgent)"

definition sentBy :: "AgentLabel list \<Rightarrow> AgentOutput list" where
  "sentBy ls = (case agentSteps sampleOptions ls initialAgent of Some r \<Rightarrow> snd r | None \<Rightarrow> [])"

lemma steps_reach:
  "agentSteps opts ls st = Some r \<Longrightarrow> agentReach opts st sent \<Longrightarrow> list_all labelOk ls \<Longrightarrow> agentReach opts (fst r) (sent @ snd r)"
proof (induction ls arbitrary: st r sent)
  case (Cons l ls)
  from Cons.prems(1) obtain q r' where step: "agentStep opts l st = Some q" "agentSteps opts ls (fst q) = Some r'" "r = (fst r', snd q @ snd r')"
    by (auto split: option.splits)
  have "agentReach opts (fst q) (sent @ snd q)"
    using ReachStep [OF Cons.prems(2), of l "fst q" "snd q"] step(1) Cons.prems(3) by simp
  then show ?case using Cons.IH [OF step(2)] Cons.prems(3) step(3) by fastforce
qed auto

lemma sample_reach: "agentSteps sampleOptions ls initialAgent \<noteq> None \<Longrightarrow> list_all labelOk ls \<Longrightarrow> agentReach sampleOptions (stateAfter ls) (sentBy ls)"
  using steps_reach [OF _ ReachStart] by (auto simp: stateAfter_def sentBy_def)

lemmas sample_defs = sampleOptions_def sampleCall_def sampleExecution_def streamingRun_def toolRun_def cancelledRun_def stateAfter_def sentBy_def

lemma streaming_steps: "agentSteps sampleOptions streamingRun initialAgent \<noteq> None" "list_all labelOk streamingRun"
  by code_simp+

lemma tool_steps: "agentSteps sampleOptions (streamingRun @ toolRun) initialAgent \<noteq> None" "list_all labelOk (streamingRun @ toolRun)"
  by code_simp+

lemma cancelled_steps: "agentSteps sampleOptions cancelledRun initialAgent \<noteq> None" "list_all labelOk cancelledRun"
  by code_simp+

section \<open>Requests\<close>

text \<open>C22: Every request of a turn carries a conversation that model providers accept: each message with tool
  calls is followed by the results of exactly these calls, in their order, no two user messages stand together, no
  message of the assistant is empty, and the last message is the user's or the results of tools.\<close>

theorem requests_well_formed:
  assumes "agentReach opts st sent" "TurnRequest h tools \<in> set sent"
  shows "requestOk h"
  using reach_good [OF assms(1)] assms(2) by (auto simp: outsOk_def)

theorem requests_well_formed_witness:
  "requestOk [UserMsg (Some 0) ''hi'' [], AssistantMsg [] [sampleCall] None,
     ToolMsg [\<lparr>resultId = ''t1'', resultName = ''read'', resultOutput = ''ok'', resultError = False\<rparr>],
     UserMsg None TURN_LIMIT_NOTE []]"
  by (rule requests_well_formed [OF sample_reach [OF tool_steps], where tools = False]) code_simp

text \<open>C24: However the model, the tools and the user interface behave, a run requests at most
  three times its allowed turns with tools and two more turns, retries of empty streams included.\<close>

theorem requests_bounded:
  assumes "agentReach opts st sent" "agentSteps opts ls st = Some (st', outs)" "list_all labelOk ls" "\<not> list_ex startsRun ls"
  shows "requests outs \<le> 3 * (max 1 (maxTurnsOf opts) + 2)"
proof -
  have "requests outs \<le> potential opts st" using steps_requests [OF assms(2) _ assms(3,4)] reach_good [OF assms(1)] by simp
  then show ?thesis using potential_bound [of opts st] by (simp add: requestBound_def turnBound_def)
qed

theorem requests_bounded_witness:
  "\<exists>st' outs. agentSteps sampleOptions toolRun (stateAfter streamingRun) = Some (st', outs) \<and> requests outs = 1 \<and> requests outs \<le> 9"
proof -
  have "agentSteps sampleOptions toolRun (stateAfter streamingRun) \<noteq> None" by code_simp
  then obtain st' outs where steps: "agentSteps sampleOptions toolRun (stateAfter streamingRun) = Some (st', outs)" by auto
  have "list_all labelOk toolRun" "\<not> list_ex startsRun toolRun" by code_simp+
  from requests_bounded [OF sample_reach [OF streaming_steps] steps this]
  have "requests outs \<le> 9" by (simp add: sampleOptions_def maxTurnsOf_def)
  moreover have "map_option (\<lambda>r. requests (snd r)) (agentSteps sampleOptions toolRun (stateAfter streamingRun)) = Some 1" by code_simp
  ultimately show ?thesis using steps by auto
qed

section \<open>Runs\<close>

text \<open>C23: A busy loop waits for exactly one activity of its generation; an idle one waits for
  none, has no message of a running run and its conversation is well formed.\<close>

theorem busy_has_one_activity:
  assumes "agentReach opts st sent"
  shows "length (filter (\<lambda>t. threadGeneration t = generation st) (threads st)) = (if running st then 1 else 0) \<and>
         (\<not> running st \<longrightarrow> conversation (msgs st) \<and> runUserMsg st = None)"
proof -
  have inv: "agentInv opts st" using reach_good [OF assms] by simp
  have none: "filter (\<lambda>t. threadGeneration t = generation st) ts = []" if "older st ts" for ts
    using that by (auto simp: older_def filter_empty_conv)
  show ?thesis
  proof (cases "running st")
    case True
    with inv obtain ts1 t ts2 where "threads st = ts1 @ t # ts2" "older st ts1" "older st ts2" "threadGeneration t = generation st"
      by (auto simp: agentInv_def)
    then show ?thesis using True by (simp add: none)
  next
    case False
    with inv show ?thesis by (simp add: agentInv_def none)
  qed
qed

theorem busy_has_one_activity_witness:
  "length (filter (\<lambda>t. threadGeneration t = generation (stateAfter streamingRun)) (threads (stateAfter streamingRun))) = 1"
proof -
  have "running (stateAfter streamingRun)" by code_simp
  with busy_has_one_activity [OF sample_reach [OF streaming_steps]] show ?thesis by simp
qed

text \<open>C27: A step that makes a busy loop idle reports it exactly once, done or failed, and no other
  step does; only a reset drops its run silently.\<close>

theorem runs_end_once:
  assumes "agentReach opts st sent" "agentStep opts l st = Some (st', outs)"
  shows "endings outs = (if running st \<and> \<not> running st' \<and> l \<noteq> DoReset then 1 else 0)"
  using step_endings [OF conjunct1 [OF reach_good [OF assms(1)]] assms(2)] by simp

theorem runs_end_once_witness:
  "\<exists>st' outs. agentStep sampleOptions (Wake 0 StreamDone) (stateAfter streamingRun) = Some (st', outs) \<and> \<not> running st' \<and> endings outs = 1"
proof -
  have some: "map_option (running \<circ> fst) (agentStep sampleOptions (Wake 0 StreamDone) (stateAfter streamingRun)) = Some False" by code_simp
  then obtain st' outs where step: "agentStep sampleOptions (Wake 0 StreamDone) (stateAfter streamingRun) = Some (st', outs)" by auto
  have "running (stateAfter streamingRun)" by code_simp
  with some step runs_end_once [OF sample_reach [OF streaming_steps] step] show ?thesis by auto
qed

text \<open>C25: A run that fails leaves the loop idle and none of its own messages: the conversation is the one that the call
  of the run found, as it stood before the run's user message. That is, with unanswered user messages at its end, the
  reasoning of earlier runs and what compaction folds and the limit of messages cuts gone; exactly so without compaction,
  and otherwise with long outputs of earlier tools cut to their first 1,000 characters at most. So it is the former
  conversation itself where there was nothing to compact, trim or drop.\<close>

theorem failed_run_undone:
  assumes "agentReach opts st0 sent" "\<not> running st0"
    and "agentSteps opts (DoRun instruction c images # ls) st0 = Some (st, outs0)" "list_all labelOk ls" "\<not> list_ex startsRun ls"
    and "agentStep opts l st = Some (st', outs)" "OnError e \<in> set outs"
  shows "\<not> running st' \<and> runUserMsg st' = None
    \<and> (\<exists>base. startsFrom opts (msgs st0) base \<and> shortened opts base (msgs st'))
    \<and> (startsUnchanged opts (msgs st0) \<longrightarrow> msgs st' = msgs st0)"
proof -
  have inv: "agentInv opts st0" using reach_good [OF assms(1)] by simp
  let ?r = "run opts instruction c images st0"
  from assms(3) obtain r where rest: "agentSteps opts ls (fst ?r) = Some r" "st = fst r" by (auto split: option.splits)
  have good: "agentInv opts (fst ?r)" using run_good [OF inv] by (simp add: goodResult_def)
  from steps_history [OF rest(1) good assms(4,5) run_history [OF inv assms(2)]] rest(2)
  have "agentInv opts st" "runHistory opts (msgs st0) st" by simp_all
  from failure_history [OF this assms(6,7)] show ?thesis using unchanged_base by blast
qed

definition answeredRun :: "AgentLabel list" where
  "answeredRun = streamingRun @ [Wake 0 (Delta ''hello''), Wake 0 StreamDone]"

theorem failed_run_undone_witness:
  "\<exists>st st' outs. agentSteps sampleOptions (DoRun ''more'' [] [] # Wake 0 Continue # toolRun) (stateAfter answeredRun) = Some (st, outs)
     \<and> length (msgs (stateAfter answeredRun)) = 2 \<and> length (msgs st) = 6
     \<and> map_option fst (agentStep sampleOptions (Wake 0 (StreamError ''refused'')) st) = Some st'
     \<and> msgs st' = msgs (stateAfter answeredRun)"
proof -
  let ?ls = "Wake 0 Continue # toolRun" and ?before = "stateAfter answeredRun"
  have "map_option (\<lambda>r. length (msgs (fst r))) (agentSteps sampleOptions (DoRun ''more'' [] [] # ?ls) ?before) = Some 6" by code_simp
  then obtain st outs where steps: "agentSteps sampleOptions (DoRun ''more'' [] [] # ?ls) ?before = Some (st, outs)" "length (msgs st) = 6"
    by auto
  have "Option.bind (agentSteps sampleOptions (DoRun ''more'' [] [] # ?ls) ?before)
      (\<lambda>r. map_option snd (agentStep sampleOptions (Wake 0 (StreamError ''refused'')) (fst r))) = Some [OnError ''refused'']"
    by code_simp
  with steps(1) obtain st' where fails: "agentStep sampleOptions (Wake 0 (StreamError ''refused'')) st = Some (st', [OnError ''refused''])"
    by auto
  have "agentSteps sampleOptions answeredRun initialAgent \<noteq> None" "list_all labelOk answeredRun" by code_simp+
  note reach = sample_reach [OF this]
  have idle: "\<not> running ?before" "length (msgs ?before) = 2" "startsUnchanged sampleOptions (msgs ?before)" by code_simp+
  have "list_all labelOk ?ls" "\<not> list_ex startsRun ?ls" by code_simp+
  from failed_run_undone [OF reach idle(1) steps(1) this fails] idle(3) have "msgs st' = msgs ?before" by simp
  then show ?thesis using steps fails idle(2) by auto
qed

section \<open>Cancelling\<close>

text \<open>C26: A cancelled run ends: its activity accepts an input that completes it, each such input requests nothing
  and either ends the run or leaves an activity with fewer stages before the end, of which there are at most three;
  the run stays cancelled until then.\<close>

theorem cancelled_run_ends:
  assumes "agentReach opts st sent" "cancelled st" "running st" "nthOpt (threads st) k = Some t" "threadGeneration t = generation st"
  shows "agentStep opts (Wake k (completion t)) st \<noteq> None \<and>
         (\<forall>input st' outs. completes input \<and> agentStep opts (Wake k input) st = Some (st', outs) \<longrightarrow>
            requests outs = 0 \<and>
            (if running st' then cancelled st' \<and> (\<exists>t'. liveThread st' = Some t' \<and> stagesLeft t' < stagesLeft t) else endings outs = 1))"
proof (intro conjI allI impI)
  show "agentStep opts (Wake k (completion t)) st \<noteq> None" using completion_accepted [OF assms(4)] by blast
next
  fix input st' outs
  assume step: "completes input \<and> agentStep opts (Wake k input) st = Some (st', outs)"
  have inv: "agentInv opts st" using reach_good [OF assms(1)] by simp
  from step have woken: "wake opts k input st = Some (st', outs)" by simp
  note spent = wake_progress [OF inv woken]
  then show "requests outs = 0" using assms(2,3) by simp
  show "if running st' then cancelled st' \<and> (\<exists>t'. liveThread st' = Some t' \<and> stagesLeft t' < stagesLeft t) else endings outs = 1"
  proof (rule live_cases [OF inv woken])
    fix u
    assume "nthOpt (threads st) k = Some u" "threadGeneration u \<noteq> generation st"
    then show ?thesis using assms(4,5) by simp
  next
    fix u s
    assume live: "nthOpt (threads st) k = Some u" "liveStep opts u input s = Some (st', outs)" "older s (threads s)"
      "threadGeneration u = generation s" "s = st\<lparr>threads := threads s\<rparr>"
    have "cancelled s" by (subst live(5)) (simp add: assms(2))
    then show ?thesis
      using liveStep_cancelled [OF live(2)] live(1,3,4) step assms(2-4) spent by auto
  qed
qed

theorem cancelled_run_ends_witness:
  "\<exists>st' outs. agentStep sampleOptions (Wake 0 StreamDone) (stateAfter cancelledRun) = Some (st', outs) \<and>
     requests outs = 0 \<and> endings outs = 1 \<and> \<not> running st'"
proof -
  let ?st = "stateAfter cancelledRun"
  have facts: "cancelled ?st" "running ?st" "nthOpt (threads ?st) 0 = Some (Streaming 0 0)" "threadGeneration (Streaming 0 0) = generation ?st"
    by code_simp+
  note ends = cancelled_run_ends [OF sample_reach [OF cancelled_steps] facts]
  then obtain st' outs where step: "agentStep sampleOptions (Wake 0 StreamDone) ?st = Some (st', outs)" by auto
  have "map_option (running \<circ> fst) (agentStep sampleOptions (Wake 0 StreamDone) ?st) = Some False" by code_simp
  with step have idle: "\<not> running st'" by simp
  have "completes StreamDone \<and> agentStep sampleOptions (Wake 0 StreamDone) ?st = Some (st', outs)" using step by simp
  from conjunct2 [OF ends, rule_format, OF this] step idle show ?thesis by simp
qed

section \<open>Compaction\<close>

text \<open>C29: The cut of a compaction stands at a user message; what is kept fits its budget or is the last exchange,
  and any earlier cut would keep too much; there is none only without user messages.\<close>

theorem compaction_cut_best: "bestCut keep h (findCompactCut keep h)"
proof -
  have start: "bestCut keep h (compactCutLoop keep (rev (enumerate 0 h)) 0 None)"
    using compactCutLoop_best [of "length h" h keep None] by (simp add: cutFrom_def historySize_def)
  show ?thesis
  proof (cases "compactCutLoop keep (rev (enumerate 0 h)) 0 None")
    case (Some i)
    with start show ?thesis by (simp add: findCompactCut_def)
  next
    case None
    with start have "list_all (\<lambda>m. \<not> isUser m) h" by (simp add: bestCut_def)
    moreover from this have "find (\<lambda>(_, m). isUser m) (rev (enumerate 0 h)) = None"
      by (auto simp: find_None_iff list_all_iff in_set_enumerate_eq)
    ultimately show ?thesis using None by (simp add: findCompactCut_def bestCut_def)
  qed
qed

section \<open>Secrets\<close>

text \<open>C28: No request to a model, for a turn or for a summary, contains an API key with a known prefix in the message
  of a run: what the user typed has been redacted.\<close>

theorem secrets_redacted:
  assumes "agentReach opts st sent" "out \<in> set sent" "UserMsg (Some n) s images \<in> set (sentMessages out)"
  shows "noKey None s"
proof -
  have "redacted (sentMessages out)" using reach_redacted [OF assms(1)] assms(2) by (simp add: redactedOuts_def)
  with assms(3) have "redactedMessage (UserMsg (Some n) s images)" unfolding redacted_def list_all_iff by blast
  then show ?thesis by simp
qed

definition secretRun :: "AgentLabel list" where
  "secretRun = [DoRun ''use sk-abcdefghijklmnop'' [] [], Wake 0 Continue]"

lemma secret_steps: "agentSteps sampleOptions secretRun initialAgent \<noteq> None" "list_all labelOk secretRun"
  by code_simp+

theorem secrets_redacted_witness:
  "sentBy secretRun = [TurnRequest [UserMsg (Some 0) ''use [REDACTED_API_KEY]'' []] True] \<and>
   noKey None ''use [REDACTED_API_KEY]'' \<and> \<not> noKey None ''use sk-abcdefghijklmnop''"
proof (intro conjI)
  show sent: "sentBy secretRun = [TurnRequest [UserMsg (Some 0) ''use [REDACTED_API_KEY]'' []] True]" by code_simp
  show "noKey None ''use [REDACTED_API_KEY]''"
    by (rule secrets_redacted [OF sample_reach [OF secret_steps], where n = 0 and images = "[]"
          and out = "TurnRequest [UserMsg (Some 0) ''use [REDACTED_API_KEY]'' []] True"]) (simp_all add: sent)
  show "\<not> noKey None ''use sk-abcdefghijklmnop''" by code_simp
qed

text \<open>
  Restored messages are not redacted: a transcript with the user's own text, as the applications store it, is sent
  with the key in it.
\<close>

definition restoredRun :: "AgentLabel list" where
  "restoredRun =
     [DoRestore [UserMsg None ''use sk-abcdefghijklmnop'' [], AssistantMsg ''ok'' [] None],
      DoRun ''hi'' [] [], Wake 0 Continue]"

lemma restored_secret_sent:
  "sentBy restoredRun =
     [TurnRequest [UserMsg None ''use sk-abcdefghijklmnop'' [], AssistantMsg ''ok'' [] None, UserMsg (Some 0) ''hi'' []] True]"
  by code_simp

end
