(* ===== verification/PropertyFormula.thy ===== *)
theory PropertyFormula
  imports JsText Prelude
begin

text \<open>
  Formulas of library properties (\<open>apps/key-office/apps/key/src/renderer/property-formula.ts\<close>, whole file): the
  tokenizer, and the interpreter that evaluates while it parses, by precedence climbing. Tokens are strings as in the
  code. Numbers are exact reals, \<open>NaN\<close> or infinite. Parameters, in \<open>FormulaJs\<close>: the texts of numbers, \<open>Number\<close> of a
  text, the case mappings of Unicode, and code units above 255 in escapes.
\<close>

datatype FormulaError = FormulaError string | SyntaxError

datatype FValue = FStr string | FNum js_number | FBool bool | FNull

text \<open>What a property may hold: a scalar, \<open>undefined\<close>, or something else.\<close>

datatype PropertyValue = Scalar FValue | Undefined | Compound

record FormulaJs =
  numText :: "js_number \<Rightarrow> string"
  textNum :: "string \<Rightarrow> js_number"
  lowerText :: "string \<Rightarrow> string"
  upperText :: "string \<Rightarrow> string"
  unitText :: "nat \<Rightarrow> string"

type_synonym Properties = "(string \<times> PropertyValue) list"

abbreviation fail :: "string \<Rightarrow> FormulaError + 'a" where
  "fail message \<equiv> Inl (FormulaError message)"

section \<open>Tokens\<close>

text \<open>A bracketed name of 1 to 128 characters, after its opening bracket.\<close>

definition bracketed :: "char \<Rightarrow> char \<Rightarrow> string \<Rightarrow> (string \<times> string) option" where
  "bracketed open' close s =
     (let name = takeWhile (\<lambda>c. c \<noteq> close) s in
      case dropWhile (\<lambda>c. c \<noteq> close) s of
        [] \<Rightarrow> None
      | _ # rest \<Rightarrow> if name \<noteq> [] \<and> length name \<le> 128 then Some (open' # name @ [close], rest) else None)"

text \<open>\<open>(?:[^"\\]|\\.)*"\<close>, after the opening quote; the dot matches no line end.\<close>

fun quotedText :: "char \<Rightarrow> string \<Rightarrow> (string \<times> string) option" where
  "quotedText q [] = None"
| "quotedText q (c # s) =
     (if c = q then Some ([c], s)
      else if c = CHR 0x5C then
        (case s of
           [] \<Rightarrow> None
         | d # u \<Rightarrow>
             if d = CHR 0x0A \<or> d = CHR 0x0D then None
             else map_option (\<lambda>(t, rest). (c # d # t, rest)) (quotedText q u))
      else map_option (\<lambda>(t, rest). (c # t, rest)) (quotedText q s))"

definition decimal :: "string \<Rightarrow> (string \<times> string) option" where
  "decimal s =
     (let ds = takeWhile isDigit s; u = dropWhile isDigit s in
      if ds \<noteq> [] then
        (case u of
           c # v \<Rightarrow> if c = CHR ''.'' then Some (ds @ c # takeWhile isDigit v, dropWhile isDigit v) else Some (ds, u)
         | [] \<Rightarrow> Some (ds, u))
      else
        (case u of
           c # v \<Rightarrow> if c = CHR ''.'' \<and> takeWhile isDigit v \<noteq> [] then Some (c # takeWhile isDigit v, dropWhile isDigit v) else None
         | [] \<Rightarrow> None))"

definition isNameStart :: "char \<Rightarrow> bool" where "isNameStart c = (isUpper c \<or> isLower c \<or> c = CHR ''_'')"
definition isNameChar :: "char \<Rightarrow> bool" where "isNameChar c = (isAlnum c \<or> c = CHR ''_'')"

definition operatorTexts :: "string list" where
  "operatorTexts = [''==='', ''!=='', ''=='', ''!='', ''<='', ''>='', ''&&'', ''||''] @ map (\<lambda>c. [c]) ''+-*/%(),<>!''"

definition operatorMatch :: "string \<Rightarrow> (string \<times> string) option" where
  "operatorMatch s = map_option (\<lambda>p. (p, drop (length p) s)) (find (startsWith s) operatorTexts)"

text \<open>The group of the token expression: its alternatives begin with different characters.\<close>

definition tokenMatch :: "string \<Rightarrow> (string \<times> string) option" where
  "tokenMatch s =
     (case s of
        [] \<Rightarrow> None
      | c # u \<Rightarrow>
          if c = CHR ''['' then bracketed c (CHR '']'') u
          else if c = CHR ''{'' then bracketed c (CHR ''}'') u
          else if isDigit c \<or> c = CHR ''.'' then decimal s
          else if c = CHR 0x22 \<or> c = CHR 0x27 then map_option (\<lambda>(t, rest). (c # t, rest)) (quotedText c u)
          else if isNameStart c then Some (takeWhile isNameChar s, dropWhile isNameChar s)
          else operatorMatch s)"

lemma quoted_length: "quotedText q s = Some (t, rest) \<Longrightarrow> length rest < length s"
  by (induction q s arbitrary: t rest rule: quotedText.induct) (fastforce split: if_splits list.splits)+

lemma bracketed_length: "bracketed c d s = Some (t, rest) \<Longrightarrow> length rest < length s"
proof -
  assume "bracketed c d s = Some (t, rest)"
  then obtain e where "dropWhile (\<lambda>c. c \<noteq> d) s = e # rest" by (auto simp: bracketed_def Let_def split: list.splits if_splits)
  then have "length (e # rest) \<le> length s" by (metis length_dropWhile_le)
  then show ?thesis by simp
qed

lemma decimal_length: "decimal s = Some (t, rest) \<Longrightarrow> length rest < length s"
proof -
  assume d: "decimal s = Some (t, rest)"
  have parts: "length s = length (takeWhile isDigit s) + length (dropWhile isDigit s)" by (metis length_append takeWhile_dropWhile_id)
  have less: "length (dropWhile isDigit v) < Suc (length v)" for v by (simp add: le_imp_less_Suc length_dropWhile_le)
  show ?thesis
  proof (cases "dropWhile isDigit s")
    case Nil
    with d parts show ?thesis by (auto simp: decimal_def Let_def simp del: dropWhile_eq_Nil_conv split: if_splits)
  next
    case (Cons c v)
    have "rest = c # v \<and> takeWhile isDigit s \<noteq> [] \<or> rest = dropWhile isDigit v"
      using d by (simp add: decimal_def Let_def Cons split: if_splits)
    with less [of v] parts Cons show ?thesis by auto
  qed
qed

lemma tokenMatch_length: "tokenMatch s = Some (t, rest) \<Longrightarrow> length rest < length s"
proof (cases s)
  case (Cons c u)
  assume m: "tokenMatch s = Some (t, rest)"
  have name: "length (dropWhile isNameChar (c # u)) < length (c # u)" if "isNameStart c"
    using that by (auto simp: isNameStart_def isNameChar_def isAlnum_def le_imp_less_Suc length_dropWhile_le)
  have "p \<noteq> []" if "p \<in> set operatorTexts" for p using that by (auto simp: operatorTexts_def)
  then have op: "length r < length s" if "operatorMatch s = Some (p, r)" for p r
    using that find_Some_in [of "startsWith s" operatorTexts] Cons by (auto simp: operatorMatch_def)
  have "(\<exists>d. bracketed c d u = Some (t, rest)) \<or> decimal s = Some (t, rest) \<or> (\<exists>t'. quotedText c u = Some (t', rest)) \<or>
      (isNameStart c \<and> rest = dropWhile isNameChar (c # u)) \<or> operatorMatch s = Some (t, rest)"
    using m unfolding Cons tokenMatch_def by (auto simp del: dropWhile.simps split: if_splits)
  then show ?thesis
  proof (elim disjE exE conjE)
    show "length rest < length s" if "bracketed c d u = Some (t, rest)" for d using bracketed_length [OF that] Cons by simp
    show "length rest < length s" if "quotedText c u = Some (t', rest)" for t' using quoted_length [OF that] Cons by simp
    show "length rest < length s" if "decimal s = Some (t, rest)" using decimal_length [OF that] .
    show "length rest < length s" if "operatorMatch s = Some (t, rest)" using op [OF that] .
    show "length rest < length s" if "isNameStart c" "rest = dropWhile isNameChar (c # u)" using name that Cons by simp
  qed
qed (simp add: tokenMatch_def)

section \<open>The tokenizer\<close>

text \<open>\<open>n\<close> counts the tokens found so far.\<close>

function formulaTokens :: "nat \<Rightarrow> string \<Rightarrow> FormulaError + string list" where
  "formulaTokens n s =
     (if s = [] then Inr []
      else case tokenMatch (dropWhile isSpace s) of
        None \<Rightarrow> if trim s = [] then Inr [] else fail (''Invalid formula near '' @ take 15 s)
      | Some (t, rest) \<Rightarrow>
          if 512 < n + 1 then fail ''Formula is too complex''
          else bindE (formulaTokens (n + 1) rest) (\<lambda>ts. Inr (t # ts)))"
  by pat_completeness auto
termination
proof (relation "measure (\<lambda>(_, s). length s)")
  fix n s z t rest
  assume "s \<noteq> []" "tokenMatch (dropWhile isSpace s) = Some z" "(t, rest) = z"
  then have "length rest < length (dropWhile isSpace s)" using tokenMatch_length by metis
  moreover have "length (dropWhile isSpace s) \<le> length s" by (rule length_dropWhile_le)
  ultimately show "((n + 1, rest), n, s) \<in> measure (\<lambda>(_, s). length s)" by simp
qed simp

declare formulaTokens.simps [simp del]

section \<open>Values\<close>

text \<open>\<open>Number(v)\<close>, \<open>String(v ?? "")\<close>, \<open>Boolean(v)\<close>.\<close>

definition numberOf :: "FormulaJs \<Rightarrow> FValue \<Rightarrow> FormulaError + real" where
  "numberOf js v =
     (case (case v of FStr s \<Rightarrow> textNum js s | FNum n \<Rightarrow> n | FBool b \<Rightarrow> Finite (if b then 1 else 0) | FNull \<Rightarrow> Finite 0) of
        Finite x \<Rightarrow> Inr x
      | _ \<Rightarrow> fail ''Expected a finite number'')"

fun textOf :: "FormulaJs \<Rightarrow> FValue \<Rightarrow> string" where
  "textOf js (FStr s) = s"
| "textOf js (FNum n) = numText js n"
| "textOf js (FBool b) = (if b then ''true'' else ''false'')"
| "textOf js FNull = []"

fun truthyValue :: "FValue \<Rightarrow> bool" where
  "truthyValue (FStr s) = (s \<noteq> [])"
| "truthyValue (FNum n) = (case n of Finite x \<Rightarrow> x \<noteq> 0 | NaN \<Rightarrow> False | Infinite _ \<Rightarrow> True)"
| "truthyValue (FBool b) = b"
| "truthyValue FNull = False"

definition strictlyEqual :: "FValue \<Rightarrow> FValue \<Rightarrow> bool" where
  "strictlyEqual a b \<longleftrightarrow> a = b \<and> a \<noteq> FNum NaN"

fun isText :: "FValue \<Rightarrow> bool" where
  "isText (FStr s) = True"
| "isText _ = False"

abbreviation num :: "real \<Rightarrow> FValue" where "num x \<equiv> FNum (Finite x)"

definition both :: "FormulaJs \<Rightarrow> (real \<Rightarrow> real \<Rightarrow> FValue) \<Rightarrow> FValue \<Rightarrow> FValue \<Rightarrow> FormulaError + FValue" where
  "both js f a b = bindE (numberOf js a) (\<lambda>x. bindE (numberOf js b) (\<lambda>y. Inr (f x y)))"

definition divided :: "FormulaJs \<Rightarrow> (real \<Rightarrow> real \<Rightarrow> FValue) \<Rightarrow> FValue \<Rightarrow> FValue \<Rightarrow> FormulaError + FValue" where
  "divided js f a b =
     bindE (numberOf js b) (\<lambda>y. if y = 0 then fail ''Division by zero'' else bindE (numberOf js a) (\<lambda>x. Inr (f x y)))"

definition applyOperator :: "FormulaJs \<Rightarrow> string \<Rightarrow> FValue \<Rightarrow> FValue \<Rightarrow> FormulaError + FValue" where
  "applyOperator js p a b =
     (if p = ''+'' then (if isText a \<or> isText b then Inr (FStr (textOf js a @ textOf js b)) else both js (\<lambda>x y. num (x + y)) a b)
      else if p = ''-'' then both js (\<lambda>x y. num (x - y)) a b
      else if p = ''*'' then both js (\<lambda>x y. num (x * y)) a b
      else if p = ''/'' then divided js (\<lambda>x y. num (x / y)) a b
      else if p = ''%'' then divided js (\<lambda>x y. num (x - y * of_int (mathTrunc (x / y)))) a b
      else if p = ''=='' \<or> p = ''==='' then Inr (FBool (strictlyEqual a b))
      else if p = ''!='' \<or> p = ''!=='' then Inr (FBool (\<not> strictlyEqual a b))
      else if p = ''<'' then both js (\<lambda>x y. FBool (x < y)) a b
      else if p = ''>'' then both js (\<lambda>x y. FBool (x > y)) a b
      else if p = ''<='' then both js (\<lambda>x y. FBool (x \<le> y)) a b
      else if p = ''>='' then both js (\<lambda>x y. FBool (x \<ge> y)) a b
      else if p = ''&&'' then Inr (FBool (truthyValue a \<and> truthyValue b))
      else if p = ''||'' then Inr (FBool (truthyValue a \<or> truthyValue b))
      else fail ''Unknown operator'')"

definition precedences :: "(string \<times> nat) list" where
  "precedences =
     [(''||'', 1), (''&&'', 2), (''=='', 3), (''==='', 3), (''!='', 3), (''!=='', 3),
      (''<'', 4), (''>'', 4), (''<='', 4), (''>='', 4), (''+'', 5), (''-'', 5), (''*'', 6), (''/'', 6), (''%'', 6)]"

section \<open>Literals\<close>

definition hexValue :: "char \<Rightarrow> nat" where
  "hexValue c = (if isDigit c then code c - 48 else if isUpper c then code c - 55 else code c - 87)"

fun escapeChar :: "char \<Rightarrow> char option" where
  "escapeChar c =
     (if c = CHR 0x22 \<or> c = CHR 0x5C \<or> c = CHR ''/'' then Some c
      else if c = CHR ''b'' then Some (CHR 0x08)
      else if c = CHR ''f'' then Some (CHR 0x0C)
      else if c = CHR ''n'' then Some (CHR 0x0A)
      else if c = CHR ''r'' then Some (CHR 0x0D)
      else if c = CHR ''t'' then Some (CHR 0x09)
      else None)"

text \<open>\<open>JSON.parse\<close> of a string literal, after its opening quote, up to the closing one at its end.\<close>

fun jsonText :: "FormulaJs \<Rightarrow> string \<Rightarrow> FormulaError + string" where
  "jsonText js [] = Inl SyntaxError"
| "jsonText js (c # s) =
     (if c = CHR 0x22 then (if s = [] then Inr [] else Inl SyntaxError)
      else if code c < 32 then Inl SyntaxError
      else if c \<noteq> CHR 0x5C then map_sum id ((#) c) (jsonText js s)
      else case s of
        [] \<Rightarrow> Inl SyntaxError
      | d # u \<Rightarrow>
          if d = CHR ''u'' then
            (case u of
               h1 # h2 # h3 # h4 # v \<Rightarrow>
                 if isHex h1 \<and> isHex h2 \<and> isHex h3 \<and> isHex h4 then
                   let n = foldl (\<lambda>n h. n * 16 + hexValue h) 0 [h1, h2, h3, h4] in
                   map_sum id ((@) (if n < 256 then [char_of n] else unitText js n)) (jsonText js v)
                 else Inl SyntaxError
             | _ \<Rightarrow> Inl SyntaxError)
          else (case escapeChar d of Some e \<Rightarrow> map_sum id ((#) e) (jsonText js u) | None \<Rightarrow> Inl SyntaxError))"

text \<open>\<open>.replace(/\\'/g, "'")\<close> and then \<open>.replace(/\\\\/g, "\\")\<close>.\<close>

fun unescape :: "char \<Rightarrow> string \<Rightarrow> string" where
  "unescape q [] = []"
| "unescape q [c] = [c]"
| "unescape q (c # d # s) = (if c = CHR 0x5C \<and> d = q then q # unescape q s else c # unescape q (d # s))"

definition propertyField :: "FormulaJs \<Rightarrow> Properties \<Rightarrow> string \<Rightarrow> string option" where
  "propertyField js props name =
     (if map_of props name \<noteq> None then Some name
      else find (\<lambda>k. lowerText js k = lowerText js name) (map fst props))"

definition propertyValue :: "FormulaJs \<Rightarrow> Properties \<Rightarrow> string \<Rightarrow> FormulaError + FValue" where
  "propertyValue js props name =
     (case Option.bind (propertyField js props name) (map_of props) of
        None \<Rightarrow> Inr FNull
      | Some Undefined \<Rightarrow> Inr FNull
      | Some (Scalar v) \<Rightarrow> Inr v
      | Some Compound \<Rightarrow> fail ''Formula properties must be scalar'')"

text \<open>The tokens that are values, by their first character; \<open>None\<close> for the others.\<close>

definition atomValue :: "FormulaJs \<Rightarrow> Properties \<Rightarrow> string \<Rightarrow> (FormulaError + FValue) option" where
  "atomValue js props t =
     (if hd t = CHR ''['' \<or> hd t = CHR ''{'' then Some (propertyValue js props (butlast (tl t)))
      else if isDigit (hd t) \<or> hd t = CHR ''.'' then Some (Inr (FNum (textNum js t)))
      else if hd t = CHR 0x22 then Some (map_sum id FStr (jsonText js (tl t)))
      else if hd t = CHR 0x27 then Some (Inr (FStr (unescape (CHR 0x5C) (unescape (CHR 0x27) (butlast (tl t))))))
      else if t = ''true'' then Some (Inr (FBool True))
      else if t = ''false'' then Some (Inr (FBool False))
      else if t = ''null'' then Some (Inr FNull)
      else None)"

section \<open>Functions\<close>

definition firstText :: "FormulaJs \<Rightarrow> FValue list \<Rightarrow> nat \<Rightarrow> string" where
  "firstText js args i = (case nthOpt args i of Some v \<Rightarrow> textOf js v | None \<Rightarrow> [])"

definition applyFunction :: "FormulaJs \<Rightarrow> string \<Rightarrow> FValue list \<Rightarrow> FormulaError + FValue" where
  "applyFunction js name args =
     (let f = toLowerCase name in
      if f = ''concat'' then Inr (FStr (concat (map (textOf js) args)))
      else if f = ''lower'' then Inr (FStr (lowerText js (firstText js args 0)))
      else if f = ''upper'' then Inr (FStr (upperText js (firstText js args 0)))
      else if f = ''length'' then Inr (num (real (length (firstText js args 0))))
      else if f = ''round'' then
        (case args of
           v # _ \<Rightarrow> bindE (numberOf js v) (\<lambda>x. Inr (num (of_int (mathRound x))))
         | [] \<Rightarrow> fail ''Expected a finite number'')
      else if f = ''contains'' then Inr (FBool (strIncludes (firstText js args 0) (firstText js args 1)))
      else if f = ''if'' then
        (case args of
           [c, a, b] \<Rightarrow> Inr (if truthyValue c then a else b)
         | _ \<Rightarrow> fail ''if requires condition, true value, false value'')
      else if f = ''coalesce'' then Inr (case find (\<lambda>v. v \<noteq> FNull) args of Some v \<Rightarrow> v | None \<Rightarrow> FNull)
      else fail (''Unknown function '' @ name))"

definition applySign :: "FormulaJs \<Rightarrow> string \<Rightarrow> FValue \<Rightarrow> FormulaError + FValue" where
  "applySign js t v =
     (if t = ''!'' then Inr (FBool (\<not> truthyValue v))
      else if t = ''-'' then bindE (numberOf js v) (\<lambda>x. Inr (num (- x)))
      else bindE (numberOf js v) (\<lambda>x. Inr (num x)))"

section \<open>Expressions\<close>

type_synonym Evaluation = "FormulaError + FValue \<times> string list"

text \<open>The arguments of a call, after its opening parenthesis; \<open>e\<close> evaluates an expression. The number bounds the rounds.\<close>

fun argLoop :: "(string list \<Rightarrow> Evaluation) \<Rightarrow> nat \<Rightarrow> string list \<Rightarrow> FormulaError + FValue list \<times> string list" where
  "argLoop e 0 ts = Inr ([], ts)"
| "argLoop e (Suc n) ts =
     bindE (e ts) (\<lambda>(v, rest).
       case rest of
         t # rest' \<Rightarrow>
           if t = '','' then bindE (argLoop e n rest') (\<lambda>(vs, rest''). Inr (v # vs, rest''))
           else Inr ([v], rest)
       | [] \<Rightarrow> Inr ([v], []))"

definition closed :: "'a \<Rightarrow> string list \<Rightarrow> FormulaError + 'a \<times> string list" where
  "closed v ts = (case ts of t # rest \<Rightarrow> if t = '')'' then Inr (v, rest) else fail ''Expected )'' | [] \<Rightarrow> fail ''Expected )'')"

definition callArgs :: "(string list \<Rightarrow> Evaluation) \<Rightarrow> string list \<Rightarrow> FormulaError + FValue list \<times> string list" where
  "callArgs e ts =
     (case ts of
        t # _ \<Rightarrow> if t = '')'' then Inr ([], ts) else argLoop e (length ts) ts
      | [] \<Rightarrow> argLoop e (Suc 0) ts)"

text \<open>A value without binary operators outside parentheses; \<open>e\<close> evaluates an expression with a minimum precedence.\<close>

definition primary :: "FormulaJs \<Rightarrow> Properties \<Rightarrow> (nat \<Rightarrow> string list \<Rightarrow> Evaluation) \<Rightarrow> string list \<Rightarrow> Evaluation" where
  "primary js props e ts =
     (case ts of
        [] \<Rightarrow> fail ''Expected a value''
      | t # rest \<Rightarrow>
          if t = ''('' then bindE (e 0 rest) (\<lambda>(v, rest'). closed v rest')
          else if t = ''-'' \<or> t = ''+'' \<or> t = ''!'' then
            bindE (e 7 rest) (\<lambda>(v, rest'). bindE (applySign js t v) (\<lambda>w. Inr (w, rest')))
          else case atomValue js props t of
            Some r \<Rightarrow> bindE r (\<lambda>v. Inr (v, rest))
          | None \<Rightarrow>
              (case rest of
                 u # rest' \<Rightarrow>
                   if u = ''('' then
                     bindE (callArgs (e 0) rest') (\<lambda>(args, rest'').
                       bindE (closed args rest'') (\<lambda>(args', rest3).
                         bindE (applyFunction js t args') (\<lambda>v. Inr (v, rest3))))
                   else fail (''Use ['' @ t @ ''] to reference a property'')
               | [] \<Rightarrow> fail (''Use ['' @ t @ ''] to reference a property'')))"

fun operatorLoop :: "FormulaJs \<Rightarrow> (nat \<Rightarrow> string list \<Rightarrow> Evaluation) \<Rightarrow> nat \<Rightarrow> nat \<Rightarrow> FValue \<Rightarrow> string list \<Rightarrow> Evaluation" where
  "operatorLoop js e 0 least v ts = Inr (v, ts)"
| "operatorLoop js e (Suc n) least v ts =
     (case ts of
        [] \<Rightarrow> Inr (v, [])
      | t # rest \<Rightarrow>
          (case map_of precedences t of
             Some p \<Rightarrow>
               if least \<le> p then
                 bindE (e (p + 1) rest) (\<lambda>(w, rest'). bindE (applyOperator js t v w) (\<lambda>u. operatorLoop js e n least u rest'))
               else Inr (v, ts)
           | None \<Rightarrow> Inr (v, ts)))"

definition checked :: "FValue \<times> string list \<Rightarrow> Evaluation" where
  "checked r =
     (case fst r of
        FStr s \<Rightarrow> if 65536 < length s then fail ''Formula output too long'' else Inr r
      | FNum (Finite x) \<Rightarrow> Inr r
      | FNum n \<Rightarrow> fail ''Formula result is not finite''
      | _ \<Rightarrow> Inr r)"

text \<open>The number is the depth that is left.\<close>

fun expression :: "FormulaJs \<Rightarrow> Properties \<Rightarrow> nat \<Rightarrow> nat \<Rightarrow> string list \<Rightarrow> Evaluation" where
  "expression js props 0 least ts = fail ''Formula nesting exceeds 32''"
| "expression js props (Suc d) least ts =
     bindE (primary js props (expression js props d) ts) (\<lambda>(v, rest).
       bindE (operatorLoop js (expression js props d) (length rest) least v rest) checked)"

definition evaluatePropertyFormula :: "FormulaJs \<Rightarrow> string \<Rightarrow> Properties \<Rightarrow> FormulaError + FValue" where
  "evaluatePropertyFormula js source props =
     (if 4096 < length source then fail ''Formula exceeds 4,096 characters''
      else bindE (formulaTokens 0 source) (\<lambda>ts.
        bindE (expression js props 32 0 ts) (\<lambda>(v, rest).
          if rest \<noteq> [] then fail ''Unexpected trailing expression'' else Inr v)))"

end
