(* ===== verification/PropertyGrammar.thy ===== *)
theory PropertyGrammar
  imports PropertyFormula
begin

text \<open>
  What formulas of properties mean: trees with the usual precedences, their texts, and their values. The interpreter
  gives a printed tree its value, or reports one of its limits.
\<close>

datatype Formula = Atom string | Signed string Formula | Binary string Formula Formula | Call string "Formula list"

definition precedence :: "string \<Rightarrow> nat" where
  "precedence p = (case map_of precedences p of Some q \<Rightarrow> q | None \<Rightarrow> 0)"

fun commas :: "string list list \<Rightarrow> string list" where
  "commas [] = []"
| "commas [ts] = ts"
| "commas (ts # tss) = ts @ '','' # commas tss"

text \<open>The tokens of a formula, with the parentheses that it needs as an operand of the precedence.\<close>

fun printed :: "nat \<Rightarrow> Formula \<Rightarrow> string list" where
  "printed least (Atom t) = [t]"
| "printed least (Signed t f) = t # printed 7 f"
| "printed least (Binary p l r) =
     (let ts = printed (precedence p) l @ p # printed (precedence p + 1) r in
      if precedence p < least then ''('' # ts @ ['')''] else ts)"
| "printed least (Call name args) = name # ''('' # commas (map (printed 0) args) @ ['')'']"

fun meaning :: "FormulaJs \<Rightarrow> Properties \<Rightarrow> Formula \<Rightarrow> FormulaError + FValue"
  and meanings :: "FormulaJs \<Rightarrow> Properties \<Rightarrow> Formula list \<Rightarrow> FormulaError + FValue list" where
  "meaning js props (Atom t) = (case atomValue js props t of Some r \<Rightarrow> r | None \<Rightarrow> Inr FNull)"
| "meaning js props (Signed t f) = bindE (meaning js props f) (applySign js t)"
| "meaning js props (Binary p l r) =
     bindE (meaning js props l) (\<lambda>a. bindE (meaning js props r) (\<lambda>b. applyOperator js p a b))"
| "meaning js props (Call name args) = bindE (meanings js props args) (applyFunction js name)"
| "meanings js props [] = Inr []"
| "meanings js props (f # fs) =
     bindE (meaning js props f) (\<lambda>v. bindE (meanings js props fs) (\<lambda>vs. Inr (v # vs)))"

definition wordValues :: "string list" where "wordValues = [''true'', ''false'', ''null'']"

definition validToken :: "string \<Rightarrow> bool" where "validToken t \<longleftrightarrow> tokenMatch t = Some (t, [])"

definition isAtom :: "string \<Rightarrow> bool" where
  "isAtom t \<longleftrightarrow> validToken t \<and> (hd t \<in> {CHR ''['', CHR ''{'', CHR ''.'', CHR 0x22, CHR 0x27} \<or> isDigit (hd t) \<or> t \<in> set wordValues)"

definition isFunctionName :: "string \<Rightarrow> bool" where
  "isFunctionName t \<longleftrightarrow> validToken t \<and> isNameStart (hd t) \<and> t \<notin> set wordValues"

fun wellFormed :: "Formula \<Rightarrow> bool" where
  "wellFormed (Atom t) = isAtom t"
| "wellFormed (Signed t f) = (t \<in> {''-'', ''+'', ''!''} \<and> wellFormed f)"
| "wellFormed (Binary p l r) = (map_of precedences p \<noteq> None \<and> wellFormed l \<and> wellFormed r)"
| "wellFormed (Call name args) = (isFunctionName name \<and> list_all wellFormed args)"

text \<open>How deep expressions nest in a printed formula, besides its own.\<close>

fun nesting :: "nat \<Rightarrow> Formula \<Rightarrow> nat" where
  "nesting least (Atom t) = 0"
| "nesting least (Signed t f) = Suc (nesting 7 f)"
| "nesting least (Binary p l r) =
     (let n = max (nesting (precedence p) l) (Suc (nesting (precedence p + 1) r)) in if precedence p < least then Suc n else n)"
| "nesting least (Call name args) = fold max (map (\<lambda>f. Suc (nesting 0 f)) args) 0"

section \<open>Evaluation shortens the tokens\<close>

definition shortens :: "(nat \<Rightarrow> string list \<Rightarrow> Evaluation) \<Rightarrow> bool" where
  "shortens e \<longleftrightarrow> (\<forall>least ts v rest. e least ts = Inr (v, rest) \<longrightarrow> length rest < length ts)"

lemma shortensD: "shortens e \<Longrightarrow> e least ts = Inr (v, rest) \<Longrightarrow> length rest < length ts"
  by (simp add: shortens_def)

lemma argLoop_length: "shortens e \<Longrightarrow> argLoop (e m) n ts = Inr (vs, rest) \<Longrightarrow> length rest \<le> length ts"
proof (induction n arbitrary: ts vs rest)
  case (Suc n)
  from Suc.prems(2) obtain v rest1 where e: "e m ts = Inr (v, rest1)" by (auto simp: res_simps)
  note short = shortensD [OF Suc.prems(1) e]
  show ?case
  proof (cases rest1)
    case Nil
    with Suc.prems(2) e show ?thesis by simp
  next
    case (Cons t rest2)
    show ?thesis
    proof (cases "t = '',''")
      case True
      with Suc.prems(2) e Cons obtain vs' where "argLoop (e m) n rest2 = Inr (vs', rest)" by (auto simp: res_simps)
      from Suc.IH [OF Suc.prems(1) this] short Cons show ?thesis by simp
    next
      case False
      with Suc.prems(2) e Cons short show ?thesis by simp
    qed
  qed
qed simp

lemma closed_length: "closed v ts = Inr (w, rest) \<Longrightarrow> length rest < length ts \<and> w = v"
  by (auto simp: closed_def split: list.splits if_splits)

lemma callArgs_length: "shortens e \<Longrightarrow> callArgs (e m) ts = Inr (vs, rest) \<Longrightarrow> length rest \<le> length ts"
  by (auto simp: callArgs_def simp del: argLoop.simps dest!: argLoop_length split: list.splits if_splits)

lemma primary_shortens:
  assumes "shortens e" "primary js props e ts = Inr (v, rest)" shows "length rest < length ts"
proof (cases ts)
  case Nil
  with assms(2) show ?thesis by (simp add: primary_def)
next
  case (Cons t us)
  consider (group) "t = ''(''" | (sign) "t \<in> {''-'', ''+'', ''!''}" | (atom) r where "t \<notin> {''('', ''-'', ''+'', ''!''}" "atomValue js props t = Some r"
    | (call) "t \<notin> {''('', ''-'', ''+'', ''!''}" "atomValue js props t = None" by (cases "atomValue js props t") auto
  then show ?thesis
  proof cases
    case group
    with assms(2) Cons obtain w rest' where "e 0 us = Inr (w, rest')" "closed w rest' = Inr (v, rest)" by (auto simp: primary_def res_simps)
    with shortensD [OF assms(1) this(1)] closed_length [OF this(2)] Cons show ?thesis by simp
  next
    case sign
    with assms(2) Cons obtain w rest' where "e 7 us = Inr (w, rest')" "rest = rest'" by (auto simp: primary_def res_simps)
    with shortensD [OF assms(1) this(1)] Cons show ?thesis by simp
  next
    case atom
    with assms(2) Cons show ?thesis by (auto simp: primary_def res_simps)
  next
    case call
    with assms(2) Cons obtain us' where us: "us = ''('' # us'" by (auto simp: primary_def split: list.splits if_splits)
    with call assms(2) Cons obtain vs rest2 vs' where "callArgs (e 0) us' = Inr (vs, rest2)" "closed vs rest2 = Inr (vs', rest)"
      by (auto simp: primary_def res_simps)
    with callArgs_length [OF assms(1) this(1)] closed_length [OF this(2)] Cons us show ?thesis by simp
  qed
qed

lemma operatorLoop_length: "shortens e \<Longrightarrow> operatorLoop js e n least v ts = Inr (w, rest) \<Longrightarrow> length rest \<le> length ts"
proof (induction n arbitrary: v ts)
  case (Suc n)
  show ?case
  proof (cases ts)
    case Nil
    with Suc.prems(2) show ?thesis by simp
  next
    case (Cons t us)
    show ?thesis
    proof (cases "\<exists>p. map_of precedences t = Some p \<and> least \<le> p")
      case True
      then obtain p where p: "map_of precedences t = Some p" "least \<le> p" by blast
      with Suc.prems(2) Cons obtain x us' u where "e (p + 1) us = Inr (x, us')" "operatorLoop js e n least u us' = Inr (w, rest)"
        by (auto simp: res_simps)
      with shortensD [OF Suc.prems(1) this(1)] Suc.IH [OF Suc.prems(1) this(2)] Cons show ?thesis by simp
    next
      case False
      with Suc.prems(2) Cons show ?thesis by (auto split: option.splits if_splits)
    qed
  qed
qed simp

lemma checked_same: "checked r = Inr r' \<Longrightarrow> r' = r"
  by (auto simp: checked_def split: FValue.splits js_number.splits if_splits)

lemma expression_shortens: "shortens (expression js props d)"
proof (induction d)
  case 0
  show ?case by (simp add: shortens_def)
next
  case (Suc d)
  show ?case unfolding shortens_def
  proof (intro allI impI)
    fix least ts v rest
    assume "expression js props (Suc d) least ts = Inr (v, rest)"
    then obtain w us where "primary js props (expression js props d) ts = Inr (w, us)"
      "bindE (operatorLoop js (expression js props d) (length us) least w us) checked = Inr (v, rest)"
      by (auto simp: res_simps)
    moreover from this(2) have "operatorLoop js (expression js props d) (length us) least w us = Inr (v, rest)"
      by (auto simp: bindE_Inr_iff dest: checked_same)
    ultimately show "length rest < length ts"
      using primary_shortens [OF Suc] operatorLoop_length [OF Suc] by fastforce
  qed
qed

text \<open>So the lengths bound the loops.\<close>

lemma operatorLoop_rounds:
  "shortens e \<Longrightarrow> length ts \<le> n \<Longrightarrow> length ts \<le> m \<Longrightarrow> operatorLoop js e n least v ts = operatorLoop js e m least v ts"
proof (induction n arbitrary: m v ts)
  case 0
  then show ?case by (cases m) simp_all
next
  case (Suc n)
  show ?case
  proof (cases ts)
    case Nil
    then show ?thesis by (cases m) simp_all
  next
    case (Cons t us)
    with Suc.prems(3) obtain k where m: "m = Suc k" by (cases m) auto
    have "operatorLoop js e n least u us' = operatorLoop js e k least u us'" if "e q us = Inr (x, us')" for q x u us'
      using Suc.IH [OF Suc.prems(1)] shortensD [OF Suc.prems(1) that] Suc.prems(2,3) Cons m by simp
    then show ?thesis
      by (auto simp: Cons m bindE_def split: option.split sum.split)
  qed
qed

definition operators :: "FormulaJs \<Rightarrow> (nat \<Rightarrow> string list \<Rightarrow> Evaluation) \<Rightarrow> nat \<Rightarrow> FValue \<Rightarrow> string list \<Rightarrow> Evaluation" where
  "operators js e least v ts = operatorLoop js e (length ts) least v ts"

lemma operators_Cons:
  assumes "shortens e" "map_of precedences t = Some p" "least \<le> p"
  shows "operators js e least v (t # ts) =
    bindE (e (p + 1) ts) (\<lambda>(w, rest). bindE (applyOperator js t v w) (\<lambda>u. operators js e least u rest))"
proof -
  have "operatorLoop js e (length ts) least u rest = operators js e least u rest" if "e (p + 1) ts = Inr (w, rest)" for w rest u
    using operatorLoop_rounds [OF assms(1), of rest "length ts" "length rest"] shortensD [OF assms(1) that] by (simp add: operators_def)
  then show ?thesis using assms(2,3) by (auto simp: operators_def bindE_def split: sum.split)
qed

text \<open>The tokens after an operand end it.\<close>

definition stops :: "nat \<Rightarrow> string list \<Rightarrow> bool" where
  "stops least ts = (case ts of [] \<Rightarrow> True | t # _ \<Rightarrow> (case map_of precedences t of Some p \<Rightarrow> p < least | None \<Rightarrow> True))"

lemma operators_stop: "stops least ts \<Longrightarrow> operators js e least v ts = Inr (v, ts)"
  by (cases ts) (auto simp: operators_def stops_def split: option.splits)

lemma stops_mono: "stops m ts \<Longrightarrow> m \<le> n \<Longrightarrow> stops n ts"
  by (auto simp: stops_def split: list.splits option.splits)

lemma precedences_bound: "map_of precedences t = Some p \<Longrightarrow> 1 \<le> p \<and> p \<le> 6"
  by (auto simp: precedences_def split: if_splits)

lemma stops_unary: "stops 7 ts"
  using precedences_bound by (fastforce simp: stops_def split: list.splits option.splits)

text \<open>Results that agree with a meaning unless a limit of the interpreter, one of \<open>K\<close>, is met.\<close>

definition agreesWithin :: "FormulaError set \<Rightarrow> FormulaError + 'a \<Rightarrow> FormulaError + 'a \<Rightarrow> bool" where
  "agreesWithin K r m \<longleftrightarrow> r = m \<or> r \<in> Inl ` K"

lemma agreesWithin_refl [simp]: "agreesWithin K r r"
  by (simp add: agreesWithin_def)

lemma agreesWithin_Inl: "e \<in> K \<Longrightarrow> agreesWithin K (Inl e) m"
  by (simp add: agreesWithin_def)

lemma agreesWithin_bind:
  "agreesWithin K r m \<Longrightarrow> (\<And>x. m = Inr x \<Longrightarrow> agreesWithin K (f x) (g x)) \<Longrightarrow> agreesWithin K (bindE r f) (bindE m g)"
  by (cases m) (auto simp: agreesWithin_def)

lemma agreesWithin_trans: "agreesWithin K r m \<Longrightarrow> agreesWithin K m m' \<Longrightarrow> agreesWithin K r m'"
  by (auto simp: agreesWithin_def)

abbreviation nestingError :: FormulaError where "nestingError \<equiv> FormulaError ''Formula nesting exceeds 32''"

text \<open>A value over the size limit, and its error.\<close>

fun sizeError :: "FValue \<Rightarrow> FormulaError option" where
  "sizeError (FStr s) = (if 65536 < length s then Some (FormulaError ''Formula output too long'') else None)"
| "sizeError (FNum (Finite x)) = None"
| "sizeError (FNum n) = Some (FormulaError ''Formula result is not finite'')"
| "sizeError _ = None"

definition sizesIn :: "FormulaError set \<Rightarrow> FormulaError + FValue \<Rightarrow> bool" where
  "sizesIn K m \<longleftrightarrow> (\<forall>v e. m = Inr v \<longrightarrow> sizeError v = Some e \<longrightarrow> e \<in> K)"

lemma checked_sizeError: "checked r = (case sizeError (fst r) of None \<Rightarrow> Inr r | Some e \<Rightarrow> Inl e)"
  by (simp add: checked_def split: FValue.split js_number.split)

lemma checked_agrees: "sizesIn K (Inr (fst r)) \<Longrightarrow> agreesWithin K (checked r) (Inr r)"
  by (auto simp: checked_sizeError agreesWithin_def sizesIn_def split: option.splits)

section \<open>Printed formulas\<close>

text \<open>
  What holds of a formula printed as an operand: the value before its rest, where the operators of a lower
  precedence go on. \<open>d\<close> is the depth left for nested expressions.
\<close>

definition operandOk :: "FormulaJs \<Rightarrow> Properties \<Rightarrow> FormulaError set \<Rightarrow> Formula \<Rightarrow> bool" where
  "operandOk js props K f \<longleftrightarrow>
     (\<forall>d p least rest. least \<le> p \<longrightarrow> stops (p + 1) rest \<longrightarrow> (d < nesting p f \<longrightarrow> nestingError \<in> K) \<longrightarrow>
       agreesWithin K
         (bindE (primary js props (expression js props d) (printed p f @ rest)) (\<lambda>(v, us). operators js (expression js props d) least v us))
         (bindE (meaning js props f) (\<lambda>v. operators js (expression js props d) least v rest)))"

definition expressionOk :: "FormulaJs \<Rightarrow> Properties \<Rightarrow> FormulaError set \<Rightarrow> Formula \<Rightarrow> bool" where
  "expressionOk js props K f \<longleftrightarrow>
     (\<forall>d least rest. stops least rest \<longrightarrow> (d \<le> nesting least f \<longrightarrow> nestingError \<in> K) \<longrightarrow>
       agreesWithin K (expression js props d least (printed least f @ rest)) (bindE (meaning js props f) (\<lambda>v. Inr (v, rest))))"

lemma operandOkD:
  "operandOk js props K f \<Longrightarrow> least \<le> p \<Longrightarrow> stops (p + 1) rest \<Longrightarrow> (d < nesting p f \<longrightarrow> nestingError \<in> K) \<Longrightarrow>
   agreesWithin K
     (bindE (primary js props (expression js props d) (printed p f @ rest)) (\<lambda>(v, us). operators js (expression js props d) least v us))
     (bindE (meaning js props f) (\<lambda>v. operators js (expression js props d) least v rest))"
  unfolding operandOk_def by blast

lemma expressionOkD:
  "expressionOk js props K f \<Longrightarrow> stops least rest \<Longrightarrow> (d \<le> nesting least f \<longrightarrow> nestingError \<in> K) \<Longrightarrow>
   agreesWithin K (expression js props d least (printed least f @ rest)) (bindE (meaning js props f) (\<lambda>v. Inr (v, rest)))"
  unfolding expressionOk_def by blast

lemma expression_step:
  "expression js props (Suc d) least ts =
     bindE (bindE (primary js props (expression js props d) ts) (\<lambda>(v, us). operators js (expression js props d) least v us)) checked"
  by (simp add: bindE_assoc operators_def case_prod_unfold)

text \<open>An operand that ends where it stands is an expression.\<close>

lemma ends_expression:
  assumes "sizesIn K m" "stops least rest"
    and "agreesWithin K
      (bindE (primary js props (expression js props d) ts) (\<lambda>(v, us). operators js (expression js props d) least v us))
      (bindE m (\<lambda>v. operators js (expression js props d) least v rest))"
  shows "agreesWithin K (expression js props (Suc d) least ts) (bindE m (\<lambda>v. Inr (v, rest)))"
proof -
  have "agreesWithin K (expression js props (Suc d) least ts) (bindE (bindE m (\<lambda>v. Inr (v, rest))) checked)"
    unfolding expression_step by (rule agreesWithin_bind) (use assms(2,3) in \<open>simp_all add: operators_stop\<close>)
  also have "bindE (bindE m (\<lambda>v. Inr (v, rest))) checked = bindE m (\<lambda>v. checked (v, rest))" by (simp add: bindE_assoc)
  finally have "agreesWithin K (expression js props (Suc d) least ts) (bindE m (\<lambda>v. checked (v, rest)))" .
  moreover have "agreesWithin K (bindE m (\<lambda>v. checked (v, rest))) (bindE m (\<lambda>v. Inr (v, rest)))"
    by (rule agreesWithin_bind) (use assms(1) in \<open>simp_all add: checked_agrees\<close>)
  ultimately show ?thesis by (rule agreesWithin_trans)
qed

lemma operand_expression:
  assumes "sizesIn K (meaning js props f)" "operandOk js props K f" shows "expressionOk js props K f"
  unfolding expressionOk_def
proof (intro allI impI)
  fix d least rest
  assume stop: "stops least rest" and deep: "d \<le> nesting least f \<longrightarrow> nestingError \<in> K"
  show "agreesWithin K (expression js props d least (printed least f @ rest)) (bindE (meaning js props f) (\<lambda>v. Inr (v, rest)))"
  proof (cases d)
    case 0
    with deep show ?thesis by (simp add: agreesWithin_Inl)
  next
    case (Suc d')
    have "agreesWithin K
      (bindE (primary js props (expression js props d') (printed least f @ rest)) (\<lambda>(v, us). operators js (expression js props d') least v us))
      (bindE (meaning js props f) (\<lambda>v. operators js (expression js props d') least v rest))"
      by (rule operandOkD [OF assms(2)]) (use stop stops_mono deep Suc in auto)
    from ends_expression [OF assms(1) stop this] Suc show ?thesis by simp
  qed
qed

lemma atom_operand:
  assumes "isAtom t" shows "operandOk js props K (Atom t)"
proof -
  have "t \<noteq> []" using assms by (auto simp: isAtom_def validToken_def tokenMatch_def)
  then have "t \<notin> {''('', ''-'', ''+'', ''!''}" "atomValue js props t \<noteq> None"
    using assms by (auto simp: isAtom_def atomValue_def wordValues_def isDigit_def code_def)
  then show ?thesis by (auto simp: operandOk_def primary_def bindE_assoc)
qed

lemma signed_operand:
  assumes "t \<in> {''-'', ''+'', ''!''}" "expressionOk js props K f" shows "operandOk js props K (Signed t f)"
  unfolding operandOk_def
proof (intro allI impI)
  fix d p least rest
  assume deep: "d < nesting p (Signed t f) \<longrightarrow> nestingError \<in> K"
  have "agreesWithin K (expression js props d 7 (printed 7 f @ rest)) (bindE (meaning js props f) (\<lambda>v. Inr (v, rest)))"
    by (rule expressionOkD [OF assms(2) stops_unary]) (use deep in auto)
  then have "agreesWithin K
    (bindE (expression js props d 7 (printed 7 f @ rest)) (\<lambda>(v, us). bindE (applySign js t v) (\<lambda>w. operators js (expression js props d) least w us)))
    (bindE (bindE (meaning js props f) (\<lambda>v. Inr (v, rest))) (\<lambda>(v, us). bindE (applySign js t v) (\<lambda>w. operators js (expression js props d) least w us)))"
    by (rule agreesWithin_bind) simp
  moreover have "primary js props (expression js props d) (t # printed 7 f @ rest) =
      bindE (expression js props d 7 (printed 7 f @ rest)) (\<lambda>(v, us). bindE (applySign js t v) (\<lambda>w. Inr (w, us)))"
    using assms(1) by (auto simp: primary_def)
  ultimately show "agreesWithin K
      (bindE (primary js props (expression js props d) (printed p (Signed t f) @ rest)) (\<lambda>(v, us). operators js (expression js props d) least v us))
      (bindE (meaning js props (Signed t f)) (\<lambda>v. operators js (expression js props d) least v rest))"
    by (simp add: bindE_assoc case_prod_unfold)
qed

lemma binary_unbracketed:
  assumes prec: "map_of precedences t = Some q" and l: "operandOk js props K l" and r: "expressionOk js props K r"
    and least: "least \<le> q" and stop: "stops (q + 1) rest"
    and deep: "d < max (nesting q l) (Suc (nesting (q + 1) r)) \<longrightarrow> nestingError \<in> K"
  shows "agreesWithin K
    (bindE (primary js props (expression js props d) (printed q l @ t # printed (q + 1) r @ rest))
      (\<lambda>(v, us). operators js (expression js props d) least v us))
    (bindE (meaning js props (Binary t l r)) (\<lambda>v. operators js (expression js props d) least v rest))"
proof -
  let ?e = "expression js props d" and ?us = "printed (q + 1) r @ rest"
  have "agreesWithin K
      (bindE (primary js props ?e (printed q l @ t # ?us)) (\<lambda>(v, us). operators js ?e least v us))
      (bindE (meaning js props l) (\<lambda>v. operators js ?e least v (t # ?us)))"
    by (rule operandOkD [OF l least]) (use prec deep in \<open>auto simp: stops_def\<close>)
  moreover have "agreesWithin K (bindE (meaning js props l) (\<lambda>v. operators js ?e least v (t # ?us)))
      (bindE (meaning js props l) (\<lambda>v. bindE (meaning js props r) (\<lambda>w. bindE (applyOperator js t v w) (\<lambda>u. operators js ?e least u rest))))"
  proof (rule agreesWithin_bind)
    fix v
    have "agreesWithin K (?e (q + 1) ?us) (bindE (meaning js props r) (\<lambda>w. Inr (w, rest)))"
      by (rule expressionOkD [OF r stop]) (use deep in auto)
    then have "agreesWithin K (bindE (?e (q + 1) ?us) (\<lambda>(w, us). bindE (applyOperator js t v w) (\<lambda>u. operators js ?e least u us)))
      (bindE (bindE (meaning js props r) (\<lambda>w. Inr (w, rest))) (\<lambda>(w, us). bindE (applyOperator js t v w) (\<lambda>u. operators js ?e least u us)))"
      by (rule agreesWithin_bind) simp
    then show "agreesWithin K (operators js ?e least v (t # ?us))
      (bindE (meaning js props r) (\<lambda>w. bindE (applyOperator js t v w) (\<lambda>u. operators js ?e least u rest)))"
      by (simp add: operators_Cons [OF expression_shortens prec least] bindE_assoc)
  qed simp
  ultimately show ?thesis by (simp add: bindE_assoc agreesWithin_trans)
qed

lemma binary_operand:
  assumes sizes: "sizesIn K (meaning js props (Binary t l r))" "sizesIn K (meaning js props r)" and known: "map_of precedences t \<noteq> None"
    and l: "operandOk js props K l" and r: "operandOk js props K r"
  shows "operandOk js props K (Binary t l r)"
  unfolding operandOk_def
proof (intro allI impI)
  fix d p least rest
  assume least: "least \<le> p" and stop: "stops (p + 1) rest" and deep: "d < nesting p (Binary t l r) \<longrightarrow> nestingError \<in> K"
  from known obtain q where q: "map_of precedences t = Some q" by auto
  then have prec: "precedence t = q" by (simp add: precedence_def)
  note r' = operand_expression [OF sizes(2) r]
  let ?n = "max (nesting q l) (Suc (nesting (q + 1) r))"
  show "agreesWithin K
      (bindE (primary js props (expression js props d) (printed p (Binary t l r) @ rest)) (\<lambda>(v, us). operators js (expression js props d) least v us))
      (bindE (meaning js props (Binary t l r)) (\<lambda>v. operators js (expression js props d) least v rest))"
  proof (cases "q < p")
    case False
    then have "stops (q + 1) rest" using stop stops_mono by simp
    from binary_unbracketed [OF q l r' _ this, of least d] False least deep show ?thesis
      by (simp add: prec Let_def)
  next
    case True
    let ?ts = "printed q l @ t # printed (q + 1) r @ '')'' # rest"
    have ends: "stops m ('')'' # rest)" for m by (simp add: stops_def precedences_def)
    have "agreesWithin K (expression js props d 0 ?ts) (bindE (meaning js props (Binary t l r)) (\<lambda>v. Inr (v, '')'' # rest)))"
    proof (cases d)
      case 0
      with deep True show ?thesis by (simp add: prec Let_def agreesWithin_Inl)
    next
      case (Suc d')
      have inner: "d' < ?n \<longrightarrow> nestingError \<in> K" using deep True Suc by (simp add: prec Let_def)
      from ends_expression [OF sizes(1) ends binary_unbracketed [OF q l r' _ ends inner]] Suc show ?thesis by simp
    qed
    then have "agreesWithin K (bindE (expression js props d 0 ?ts) (\<lambda>(v, us). bindE (closed v us) (\<lambda>(w, us'). operators js (expression js props d) least w us')))
        (bindE (bindE (meaning js props (Binary t l r)) (\<lambda>v. Inr (v, '')'' # rest)))
          (\<lambda>(v, us). bindE (closed v us) (\<lambda>(w, us'). operators js (expression js props d) least w us')))"
      by (rule agreesWithin_bind) simp
    then show ?thesis using True by (simp add: prec Let_def primary_def bindE_assoc case_prod_unfold closed_def)
  qed
qed

text \<open>Arguments.\<close>

lemma argLoop_rounds:
  "shortens e \<Longrightarrow> length ts < n \<Longrightarrow> length ts < m \<Longrightarrow> argLoop (e k) n ts = argLoop (e k) m ts"
proof (induction n arbitrary: m ts)
  case (Suc n)
  then obtain i where m: "m = Suc i" by (cases m) auto
  have "argLoop (e k) n us = argLoop (e k) i us" if "e k ts = Inr (v, t # us)" for v t us
    using Suc.IH [OF Suc.prems(1)] shortensD [OF Suc.prems(1) that] Suc.prems(2,3) m by simp
  then show ?case by (auto simp: m bindE_def split: sum.split list.split)
qed simp

lemma argLoop_operands:
  assumes "\<forall>f\<in>set fs. sizesIn K (meaning js props f) \<and> operandOk js props K f" "fs \<noteq> []"
    and "\<forall>f\<in>set fs. d \<le> nesting 0 f \<longrightarrow> nestingError \<in> K"
  shows "length (commas (map (printed 0) fs) @ '')'' # rest) \<le> n \<Longrightarrow>
    agreesWithin K (argLoop (expression js props d 0) n (commas (map (printed 0) fs) @ '')'' # rest))
      (bindE (meanings js props fs) (\<lambda>vs. Inr (vs, '')'' # rest)))"
  using assms
proof (induction fs arbitrary: n)
  case (Cons f fs)
  have ends: "stops m ('')'' # us)" "stops m ('','' # us)" for m us by (simp_all add: stops_def precedences_def)
  have one: "agreesWithin K (expression js props d 0 (printed 0 f @ us)) (bindE (meaning js props f) (\<lambda>v. Inr (v, us)))" if "stops 0 us" for us
    by (rule expressionOkD [OF operand_expression that]) (use Cons.prems in auto)
  show ?case
  proof (cases fs)
    case Nil
    with Cons.prems(1) obtain k where n: "n = Suc k" by (cases n) auto
    have "agreesWithin K (argLoop (expression js props d 0) n (printed 0 f @ '')'' # rest))
      (bindE (bindE (meaning js props f) (\<lambda>v. Inr (v, '')'' # rest))) (\<lambda>(v, us). Inr ([v], us)))"
      unfolding n argLoop.simps by (rule agreesWithin_bind [OF one [OF ends(1)]]) (auto simp: bindE_Inr_iff)
    with Nil show ?thesis by (simp add: bindE_assoc)
  next
    case (Cons g gs)
    let ?more = "commas (map (printed 0) fs) @ '')'' # rest"
    have ts: "commas (map (printed 0) (f # fs)) = printed 0 f @ '','' # commas (map (printed 0) fs)" using Cons by simp
    with Cons.prems(1) obtain k where n: "n = Suc k" "length ?more \<le> k" by (cases n) auto
    have more: "agreesWithin K (argLoop (expression js props d 0) k ?more) (bindE (meanings js props fs) (\<lambda>vs. Inr (vs, '')'' # rest)))"
      by (rule Cons.IH) (use Cons.prems Cons n(2) in auto)
    have "agreesWithin K (argLoop (expression js props d 0) n (printed 0 f @ '','' # ?more))
      (bindE (bindE (meaning js props f) (\<lambda>v. Inr (v, '','' # ?more)))
        (\<lambda>(v, us). bindE (bindE (meanings js props fs) (\<lambda>vs. Inr (vs, '')'' # rest))) (\<lambda>(vs, us'). Inr (v # vs, us'))))"
      unfolding n(1) argLoop.simps
      by (rule agreesWithin_bind [OF one [OF ends(2)]]) (auto simp: bindE_Inr_iff intro!: agreesWithin_bind [OF more])
    with ts show ?thesis by (simp add: bindE_assoc)
  qed
qed simp

lemma printed_head: "wellFormed f \<Longrightarrow> printed p f \<noteq> [] \<and> hd (printed p f) \<noteq> '')''"
proof (induction p f rule: printed.induct)
  case (1 least t)
  then show ?case by (auto simp: isAtom_def wordValues_def isDigit_def code_def)
next
  case (4 least name args)
  then show ?case by (auto simp: isFunctionName_def isNameStart_def isUpper_def isLower_def code_def)
qed (auto simp: Let_def)

lemma fold_max: "x \<in> set xs \<Longrightarrow> x \<le> fold max xs (n::nat)"
proof (induction xs arbitrary: n)
  case (Cons y ys)
  have "n' \<le> fold max zs n'" for zs and n' :: nat by (induction zs arbitrary: n') (simp, metis fold_simps(2) max.coboundedI2 max.cobounded2 order_trans)
  then have "y \<le> fold max (y # ys) n" by (metis fold_simps(2) max.cobounded1 order_trans)
  with Cons show ?case by auto
qed simp

lemma nameStart_only:
  "isNameStart c \<Longrightarrow> c \<notin> {CHR ''['', CHR ''{'', CHR ''.'', CHR 0x22, CHR 0x27, CHR ''('', CHR '')'', CHR ''-'', CHR ''+'', CHR ''!''} \<and> \<not> isDigit c"
  by (auto simp: isNameStart_def isUpper_def isLower_def isDigit_def code_def)

lemma call_operand:
  assumes name: "isFunctionName name"
    and args: "\<forall>f\<in>set args. sizesIn K (meaning js props f) \<and> operandOk js props K f \<and> wellFormed f"
  shows "operandOk js props K (Call name args)"
  unfolding operandOk_def
proof (intro allI impI)
  fix d p least rest
  assume deep: "d < nesting p (Call name args) \<longrightarrow> nestingError \<in> K"
  let ?e = "expression js props d" and ?ts = "commas (map (printed 0) args) @ '')'' # rest"
  have nested: "\<forall>f\<in>set args. d \<le> nesting 0 f \<longrightarrow> nestingError \<in> K"
  proof (intro ballI impI)
    fix f assume "f \<in> set args" "d \<le> nesting 0 f"
    moreover from this have "Suc (nesting 0 f) \<le> nesting p (Call name args)" by (simp add: fold_max)
    ultimately show "nestingError \<in> K" using deep by simp
  qed
  have "agreesWithin K (callArgs (?e 0) ?ts) (bindE (meanings js props args) (\<lambda>vs. Inr (vs, '')'' # rest)))"
  proof (cases args)
    case Nil
    then show ?thesis by (simp add: callArgs_def)
  next
    case (Cons f fs)
    then have "commas (map (printed 0) args) \<noteq> [] \<and> hd (commas (map (printed 0) args)) \<noteq> '')''"
      using printed_head [of f 0] args by (cases fs) auto
    then have "callArgs (?e 0) ?ts = argLoop (?e 0) (length ?ts) ?ts"
      by (cases "commas (map (printed 0) args)") (simp_all add: callArgs_def del: argLoop.simps)
    then show ?thesis using argLoop_operands [OF _ _ nested, of js props rest "length ?ts"] args Cons by simp
  qed
  then have "agreesWithin K
    (bindE (callArgs (?e 0) ?ts) (\<lambda>(vs, us). bindE (closed vs us) (\<lambda>(ws, us'). bindE (applyFunction js name ws) (\<lambda>v. operators js ?e least v us'))))
    (bindE (bindE (meanings js props args) (\<lambda>vs. Inr (vs, '')'' # rest)))
      (\<lambda>(vs, us). bindE (closed vs us) (\<lambda>(ws, us'). bindE (applyFunction js name ws) (\<lambda>v. operators js ?e least v us'))))"
    by (rule agreesWithin_bind) simp
  moreover have "name \<notin> {''('', ''-'', ''+'', ''!''}" "atomValue js props name = None"
  proof -
    have head: "hd name \<notin> {CHR ''['', CHR ''{'', CHR ''.'', CHR 0x22, CHR 0x27, CHR ''('', CHR '')'', CHR ''-'', CHR ''+'', CHR ''!''}"
      "\<not> isDigit (hd name)" using nameStart_only name unfolding isFunctionName_def by blast+
    then show "name \<notin> {''('', ''-'', ''+'', ''!''}" by force
    have "name \<notin> {''true'', ''false'', ''null''}" using name unfolding isFunctionName_def wordValues_def by simp
    with head show "atomValue js props name = None" by (simp add: atomValue_def)
  qed
  ultimately show "agreesWithin K
      (bindE (primary js props ?e (printed p (Call name args) @ rest)) (\<lambda>(v, us). operators js ?e least v us))
      (bindE (meaning js props (Call name args)) (\<lambda>v. operators js ?e least v rest))"
    by (simp add: primary_def bindE_assoc case_prod_unfold closed_def)
qed

text \<open>The parts of a formula, whose values the interpreter checks.\<close>

fun subformulas :: "Formula \<Rightarrow> Formula list" where
  "subformulas (Atom t) = [Atom t]"
| "subformulas (Signed t f) = Signed t f # subformulas f"
| "subformulas (Binary p l r) = Binary p l r # subformulas l @ subformulas r"
| "subformulas (Call name args) = Call name args # concat (map subformulas args)"

lemma subformulas_self: "f \<in> set (subformulas f)"
  by (cases f) simp_all

lemma formula_operand:
  "\<forall>g\<in>set (subformulas f). sizesIn K (meaning js props g) \<Longrightarrow> wellFormed f \<Longrightarrow> operandOk js props K f"
proof (induction f)
  case (Signed t f)
  then show ?case using subformulas_self [of f] by (simp add: signed_operand operand_expression)
next
  case (Binary p l r)
  then show ?case using subformulas_self [of r] by (simp add: binary_operand)
next
  case (Call name args)
  have "sizesIn K (meaning js props f) \<and> operandOk js props K f \<and> wellFormed f" if "f \<in> set args" for f
    using Call that subformulas_self [of f] by (auto simp: list_all_iff)
  then show ?case using Call.prems by (intro call_operand) simp_all
qed (simp_all add: atom_operand)

section \<open>Printed texts\<close>

definition formulaText :: "Formula \<Rightarrow> string" where
  "formulaText f = join '' '' (printed 0 f)"

lemma takeWhile_before: "rest = [] \<or> \<not> P (hd rest) \<Longrightarrow> takeWhile P (s @ rest) = takeWhile P s"
  "rest = [] \<or> \<not> P (hd rest) \<Longrightarrow> dropWhile P (s @ rest) = dropWhile P s @ rest"
proof -
  assume rest: "rest = [] \<or> \<not> P (hd rest)"
  show "takeWhile P (s @ rest) = takeWhile P s" using rest by (induction s) (cases rest, auto)
  show "dropWhile P (s @ rest) = dropWhile P s @ rest" using rest by (induction s) (cases rest, auto)
qed

lemma quoted_append: "quotedText q s = Some (t, u) \<Longrightarrow> quotedText q (s @ rest) = Some (t, u @ rest)"
  by (induction q s arbitrary: t u rule: quotedText.induct) (fastforce split: if_splits list.splits)+

lemma bracketed_append: "bracketed c d s = Some (t, u) \<Longrightarrow> bracketed c d (s @ rest) = Some (t, u @ rest)"
proof -
  assume m: "bracketed c d s = Some (t, u)"
  then obtain e where drop': "dropWhile (\<lambda>c. c \<noteq> d) s = e # u" by (auto simp: bracketed_def Let_def split: list.splits if_splits)
  have "takeWhile (\<lambda>c. c \<noteq> d) (s @ rest) = takeWhile (\<lambda>c. c \<noteq> d) s \<and> dropWhile (\<lambda>c. c \<noteq> d) (s @ rest) = dropWhile (\<lambda>c. c \<noteq> d) s @ rest"
    if "dropWhile (\<lambda>c. c \<noteq> d) s \<noteq> []" using that by (induction s) (auto split: if_splits)
  with drop' have "takeWhile (\<lambda>c. c \<noteq> d) (s @ rest) = takeWhile (\<lambda>c. c \<noteq> d) s" "dropWhile (\<lambda>c. c \<noteq> d) (s @ rest) = e # u @ rest" by simp_all
  with m drop' show ?thesis by (auto simp: bracketed_def Let_def split: if_splits)
qed

lemma decimal_append:
  assumes "decimal t = Some (t, [])" "\<not> isDigit (hd rest)" "hd rest \<noteq> CHR ''.''" "rest \<noteq> []"
  shows "decimal (t @ rest) = Some (t, rest)"
proof -
  obtain b bs where rest: "rest = b # bs" using assms(4) by (cases rest) auto
  have digits: "takeWhile isDigit (v @ rest) = takeWhile isDigit v" "dropWhile isDigit (v @ rest) = dropWhile isDigit v @ rest" for v
    using takeWhile_before [of rest isDigit v] assms(2) by simp_all
  show ?thesis
  proof (cases "dropWhile isDigit t")
    case Nil
    then show ?thesis using assms digits rest by (auto simp: decimal_def Let_def simp del: dropWhile_eq_Nil_conv split: if_splits)
  next
    case (Cons c v)
    then show ?thesis using assms digits by (auto simp: decimal_def Let_def split: if_splits)
  qed
qed

lemma operatorTexts_spaceless: "p \<in> set operatorTexts \<Longrightarrow> CHR '' '' \<notin> set p"
  by (auto simp: operatorTexts_def)

text \<open>A token that is the whole text is still one before a space.\<close>

lemma token_before_space:
  assumes "validToken t" shows "tokenMatch (t @ CHR '' '' # s) = Some (t, CHR '' '' # s)"
proof (cases t)
  case Nil
  with assms show ?thesis by (simp add: validToken_def tokenMatch_def)
next
  case (Cons c u)
  let ?rest = "CHR '' '' # s"
  have stop: "\<not> isDigit (hd ?rest)" "\<not> isNameChar (hd ?rest)"
    by (simp_all add: isDigit_def isNameChar_def isAlnum_def isUpper_def isLower_def code_def)
  have m: "tokenMatch (c # u) = Some (c # u, [])" using assms Cons by (simp add: validToken_def)
  have ops: "operatorMatch (t @ ?rest) = Some (t, ?rest)" if "operatorMatch t = Some (t, [])"
  proof -
    from that obtain p where p: "find (startsWith t) operatorTexts = Some p" "p = t" by (auto simp: operatorMatch_def)
    have "startsWith (t @ ?rest) q = startsWith t q" if "q \<in> set operatorTexts" for q
    proof
      assume starts: "startsWith (t @ ?rest) q"
      show "startsWith t q"
      proof (cases "length q \<le> length t")
        case True
        with starts show ?thesis by (simp add: startsWith_def)
      next
        case False
        with starts have "q = t @ take (length q - length t) ?rest" by (simp add: startsWith_def)
        with False have "CHR '' '' \<in> set q" by (metis Suc_diff_Suc in_set_conv_decomp leI linorder_not_le take_Suc_Cons not_le)
        with operatorTexts_spaceless [OF that] show ?thesis by simp
      qed
    next
      assume "startsWith t q"
      then have "take (length q) t = q" by (simp add: startsWith_def)
      moreover from this have "length q \<le> length t" by (metis length_take min.cobounded1)
      ultimately show "startsWith (t @ ?rest) q" by (simp add: startsWith_def)
    qed
    then have "find (startsWith (t @ ?rest)) operatorTexts = find (startsWith t) operatorTexts" by (rule find_cong [OF refl])
    with p show ?thesis by (simp add: operatorMatch_def)
  qed
  consider (square) "c = CHR ''[''" | (curly) "c = CHR ''{''" | (number) "isDigit c \<or> c = CHR ''.''" "c \<noteq> CHR ''[''" "c \<noteq> CHR ''{''"
    | (text') "c = CHR 0x22 \<or> c = CHR 0x27"
    | (name) "isNameStart c" "c \<notin> {CHR ''['', CHR ''{'', CHR ''.'', CHR 0x22, CHR 0x27}" "\<not> isDigit c"
    | (operator) "\<not> isNameStart c" "c \<notin> {CHR ''['', CHR ''{'', CHR ''.'', CHR 0x22, CHR 0x27}" "\<not> isDigit c"
    by blast
  then show ?thesis
  proof cases
    case square
    with m have "bracketed c (CHR '']'') u = Some (c # u, [])" by (simp add: tokenMatch_def)
    from bracketed_append [OF this] square show ?thesis by (simp add: Cons tokenMatch_def)
  next
    case curly
    with m have "bracketed c (CHR ''}'') u = Some (c # u, [])" by (simp add: tokenMatch_def)
    from bracketed_append [OF this] curly show ?thesis by (simp add: Cons tokenMatch_def)
  next
    case number
    with m have "decimal t = Some (t, [])" by (simp add: tokenMatch_def Cons)
    from decimal_append [OF this, of ?rest] stop(1) number show ?thesis by (simp add: Cons tokenMatch_def)
  next
    case text'
    then have other: "c \<noteq> CHR ''[''" "c \<noteq> CHR ''{''" "\<not> (isDigit c \<or> c = CHR ''.'')" by (auto simp: isDigit_def code_def)
    with m text' have "quotedText c u = Some (u, [])" by (auto simp: tokenMatch_def)
    from quoted_append [OF this] text' other show ?thesis by (simp add: Cons tokenMatch_def)
  next
    case name
    then have "takeWhile isNameChar (c # u) = c # u" "dropWhile isNameChar (c # u) = []" using m by (simp_all add: tokenMatch_def)
    then show ?thesis using name takeWhile_before [of ?rest isNameChar "c # u"] stop(2) by (simp add: Cons tokenMatch_def)
  next
    case operator
    with m have "operatorMatch t = Some (t, [])" by (simp add: tokenMatch_def Cons)
    from ops [OF this] operator show ?thesis by (simp add: Cons tokenMatch_def)
  qed
qed

lemma validToken_head: "validToken t \<Longrightarrow> t \<noteq> [] \<and> \<not> isSpace (hd t)"
proof -
  assume valid: "validToken t"
  then obtain c u where t: "t = c # u" by (cases t) (auto simp: validToken_def tokenMatch_def)
  have False if space: "isSpace c"
  proof -
    have "c \<notin> {CHR ''['', CHR ''{'', CHR ''.'', CHR 0x22, CHR 0x27}" "\<not> isDigit c" "\<not> isNameStart c"
      using space by (auto simp: isSpace_def isDigit_def isNameStart_def isUpper_def isLower_def code_def)
    then have "operatorMatch t = Some (t, [])" using valid by (simp add: validToken_def tokenMatch_def t)
    then obtain p where "find (startsWith t) operatorTexts = Some p" by (auto simp: operatorMatch_def)
    from find_Some_in [OF this] have p: "p \<in> set operatorTexts" "startsWith t p" by auto
    have "\<forall>p\<in>set operatorTexts. p \<noteq> [] \<and> \<not> isSpace (hd p)" by code_simp
    with p(1) have "p \<noteq> []" "\<not> isSpace (hd p)" by auto
    moreover have "hd p = c" using p(2) \<open>p \<noteq> []\<close> t by (cases p) (auto simp: startsWith_def)
    ultimately show False using space by simp
  qed
  with t show ?thesis by auto
qed

lemma formulaTokens_space: "s \<noteq> [] \<Longrightarrow> \<not> isSpace (hd s) \<Longrightarrow> tokenMatch s \<noteq> None \<Longrightarrow> formulaTokens n (CHR '' '' # s) = formulaTokens n s"
proof -
  assume s: "s \<noteq> []" "\<not> isSpace (hd s)" "tokenMatch s \<noteq> None"
  have "isSpace CHR '' ''" by code_simp
  moreover have "dropWhile isSpace s = s" using s(1,2) by (cases s) simp_all
  ultimately show ?thesis using s(1,3) formulaTokens.simps [of n "CHR '' '' # s"] formulaTokens.simps [of n s]
    by (auto split: option.split)
qed

lemma tokens_joined:
  "list_all validToken ts \<Longrightarrow> n \<le> 512 \<Longrightarrow>
   formulaTokens n (join '' '' ts) = (if n + length ts \<le> 512 then Inr ts else fail ''Formula is too complex'')"
proof (induction ts arbitrary: n)
  case Nil
  then show ?case by (simp add: formulaTokens.simps)
next
  case (Cons t ts)
  then have t: "validToken t" by simp
  note head = validToken_head [OF t]
  show ?case
  proof (cases ts)
    case Nil
    have "dropWhile isSpace t = t" using head by (cases t) simp_all
    with t head Nil Cons.prems(2) show ?thesis by (simp add: validToken_def formulaTokens.simps [of n t] formulaTokens.simps [of _ "[]"])
  next
    case (Cons t' ts')
    let ?s = "join '' '' ts"
    have t': "validToken t'" using Cons Cons.prems(1) by simp
    obtain v where s: "?s = t' @ v" "v = [] \<or> (\<exists>w. v = CHR '' '' # w)" using Cons by (cases ts') auto
    then have "tokenMatch ?s \<noteq> None" using t' token_before_space [OF t'] by (auto simp: validToken_def)
    moreover have "?s \<noteq> []" "\<not> isSpace (hd ?s)" using s(1) validToken_head [OF t'] by auto
    ultimately have space: "formulaTokens m (CHR '' '' # ?s) = formulaTokens m ?s" for m by (simp add: formulaTokens_space)
    have whole: "join '' '' (t # ts) = t @ CHR '' '' # ?s" using Cons by simp
    have "dropWhile isSpace (t @ CHR '' '' # ?s) = t @ CHR '' '' # ?s" using head by (cases t) simp_all
    then have step: "formulaTokens n (join '' '' (t # ts)) =
        (if 512 < n + 1 then fail ''Formula is too complex'' else bindE (formulaTokens (n + 1) ?s) (\<lambda>ts. Inr (t # ts)))"
      using head by (simp add: whole formulaTokens.simps [of n "t @ CHR '' '' # ?s"] token_before_space [OF t] space)
    show ?thesis
    proof (cases "n + 1 \<le> 512")
      case True
      with Cons.IH [of "n + 1"] Cons.prems(1) show ?thesis by (simp add: step)
    next
      case False
      then show ?thesis by (simp add: step)
    qed
  qed
qed

lemma commas_tokens: "validToken '','' \<Longrightarrow> (\<forall>ts\<in>set tss. list_all validToken ts) \<Longrightarrow> list_all validToken (commas tss)"
  by (induction tss rule: commas.induct) auto

lemma printed_tokens: "wellFormed f \<Longrightarrow> list_all validToken (printed p f)"
proof (induction p f rule: printed.induct)
  case (1 least t)
  then show ?case by (simp add: isAtom_def)
next
  case (2 least t f)
  have "validToken ''-''" "validToken ''+''" "validToken ''!''" by code_simp+
  with 2 show ?case by auto
next
  case (3 least t l r)
  have "list_all (\<lambda>p. validToken p) (map fst precedences)" by code_simp
  moreover have "t \<in> set (map fst precedences)" using 3(3) by (auto simp: map_of_eq_None_iff)
  ultimately have "validToken t" by (simp only: list_all_iff)
  moreover have "validToken ''(''" "validToken '')''" by code_simp+
  ultimately show ?case using 3 by (simp add: Let_def)
next
  case (4 least name args)
  have "validToken ''(''" "validToken '')''" "validToken '',''" by code_simp+
  with 4 commas_tokens [of "map (printed 0) args"] show ?case by (auto simp: isFunctionName_def list_all_iff)
qed

text \<open>The limits that the evaluation of a formula exceeds: its depth, and the sizes of the values of its parts.\<close>

definition limitErrors :: "FormulaJs \<Rightarrow> Properties \<Rightarrow> Formula \<Rightarrow> FormulaError set" where
  "limitErrors js props f =
     {e. \<exists>g\<in>set (subformulas f). \<exists>v. meaning js props g = Inr v \<and> sizeError v = Some e} \<union>
     (if 32 \<le> nesting 0 f then {nestingError} else {})"

lemma limits_sizes: "g \<in> set (subformulas f) \<Longrightarrow> sizesIn (limitErrors js props f) (meaning js props g)"
  by (auto simp: sizesIn_def limitErrors_def)

lemma expression_sizes: "expression js props d least ts = Inr (v, rest) \<Longrightarrow> sizeError v = None"
  by (cases d) (auto simp: bindE_Inr_iff checked_sizeError split: option.splits)

lemma formula_tokens_agree:
  assumes "wellFormed f" "length (formulaText f) \<le> 4096" "length (printed 0 f) \<le> 512"
  shows "agreesWithin (limitErrors js props f) (evaluatePropertyFormula js (formulaText f) props) (meaning js props f)"
proof -
  let ?K = "limitErrors js props f"
  let ?finish = "\<lambda>(v, rest). if rest \<noteq> [] then fail ''Unexpected trailing expression'' else Inr v"
  have stop: "stops 0 []" by (simp add: stops_def)
  have operand: "operandOk js props ?K f" by (rule formula_operand) (use limits_sizes assms(1) in blast)+
  have "agreesWithin ?K (expression js props 32 0 (printed 0 f)) (bindE (meaning js props f) (\<lambda>v. Inr (v, [])))"
    using expressionOkD [OF operand_expression [OF limits_sizes operand] stop, of 32] subformulas_self
    by (simp add: limitErrors_def)
  then have "agreesWithin ?K (bindE (expression js props 32 0 (printed 0 f)) ?finish)
      (bindE (bindE (meaning js props f) (\<lambda>v. Inr (v, [] :: string list))) ?finish)"
    by (rule agreesWithin_bind) simp
  moreover have "bindE (meaning js props f) Inr = meaning js props f" by (cases "meaning js props f") simp_all
  ultimately have "agreesWithin ?K (bindE (expression js props 32 0 (printed 0 f)) ?finish) (meaning js props f)"
    by (simp add: bindE_assoc)
  moreover have "formulaTokens 0 (formulaText f) = Inr (printed 0 f)"
    using tokens_joined [OF printed_tokens [OF assms(1), of 0], of 0] assms(3) by (simp add: formulaText_def)
  ultimately show ?thesis using assms(2) by (simp add: evaluatePropertyFormula_def)
qed

lemma formula_too_long: "4096 < length (formulaText f) \<Longrightarrow>
    evaluatePropertyFormula js (formulaText f) props = fail ''Formula exceeds 4,096 characters''"
  by (simp add: evaluatePropertyFormula_def)

lemma formula_too_complex:
  assumes "wellFormed f" "length (formulaText f) \<le> 4096" "512 < length (printed 0 f)"
  shows "evaluatePropertyFormula js (formulaText f) props = fail ''Formula is too complex''"
  using tokens_joined [OF printed_tokens [OF assms(1), of 0], of 0] assms(2,3)
  by (simp add: formulaText_def evaluatePropertyFormula_def)

lemma evaluated_sizes: "evaluatePropertyFormula js text props = Inr v \<Longrightarrow> sizeError v = None"
  by (auto simp: evaluatePropertyFormula_def bindE_Inr_iff expression_sizes split: if_splits)

end
