(* ===== verification/DatabaseView.thy ===== *)
theory DatabaseView
  imports Prelude
begin

text \<open>
  The shared database view (\<open>apps/key-office/apps/key/src/renderer/database-view-model.ts\<close>): columns in display
  order with the user's settings, moving and changing them, and sort levels. Reading and writing the local storage is
  left out. Widths are exact reals.
\<close>

section \<open>Columns\<close>

record SortLevel =
  sortField :: string
  descending :: bool

record ColumnSetting =
  setId :: string
  setWidth :: "real option"
  setHidden :: "bool option"
  setPinned :: "bool option"

record ColumnDefaults =
  colId :: string
  colWidth :: real
  colHidden :: "bool option"
  colPinned :: "bool option"

record ResolvedColumn =
  column :: ColumnDefaults
  shownWidth :: real
  hidden :: bool
  pinned :: bool

definition MIN_COLUMN :: real where "MIN_COLUMN = 56"
definition MAX_COLUMN :: real where "MAX_COLUMN = 900"

definition clampWidth :: "real \<Rightarrow> real" where
  "clampWidth w = of_int (mathRound (max MIN_COLUMN (min MAX_COLUMN w)))"

definition givenOr :: "'a option \<Rightarrow> 'a \<Rightarrow> 'a" where
  "givenOr x y = (case x of Some v \<Rightarrow> v | None \<Rightarrow> y)"

abbreviation resolvedId :: "ResolvedColumn \<Rightarrow> string" where "resolvedId r \<equiv> colId (column r)"

definition withDefaults :: "ColumnDefaults \<Rightarrow> ResolvedColumn" where
  "withDefaults c =
     \<lparr>column = c, shownWidth = clampWidth (colWidth c), hidden = (colHidden c = Some True), pinned = (colPinned c = Some True)\<rparr>"

definition withSetting :: "ColumnDefaults \<Rightarrow> ColumnSetting \<Rightarrow> ResolvedColumn" where
  "withSetting c s =
     \<lparr>column = c, shownWidth = clampWidth (givenOr (setWidth s) (colWidth c)),
      hidden = givenOr (setHidden s) (colHidden c = Some True), pinned = givenOr (setPinned s) (colPinned c = Some True)\<rparr>"

text \<open>\<open>new Map\<close> of the columns by their identifiers: of equal ones the last counts.\<close>

definition byId :: "ColumnDefaults list \<Rightarrow> string \<Rightarrow> ColumnDefaults option" where
  "byId columns i = find (\<lambda>c. colId c = i) (rev columns)"

text \<open>The identifiers seen are those of the ordered columns.\<close>

definition addSetting :: "ColumnDefaults list \<Rightarrow> ResolvedColumn list \<Rightarrow> ColumnSetting \<Rightarrow> ResolvedColumn list" where
  "addSetting columns ordered s =
     (case byId columns (setId s) of
        Some c \<Rightarrow> if colId c \<notin> set (map resolvedId ordered) then ordered @ [withSetting c s] else ordered
      | None \<Rightarrow> ordered)"

text \<open>\<open>before\<close> are the columns before the new one, the nearest first.\<close>

definition addColumn :: "ColumnDefaults list \<Rightarrow> ColumnDefaults \<Rightarrow> ResolvedColumn list \<Rightarrow> ResolvedColumn list" where
  "addColumn before c ordered =
     (if colId c \<in> set (map resolvedId ordered) then ordered
      else
        let place = (case find (\<lambda>b. colId b \<in> set (map resolvedId ordered)) before of
                    Some b \<Rightarrow> (case findIndex (\<lambda>r. resolvedId r = colId b) ordered of Some i \<Rightarrow> i + 1 | None \<Rightarrow> 0)
                  | None \<Rightarrow> 0)
        in splice place 0 [withDefaults c] ordered)"

fun addColumns :: "ColumnDefaults list \<Rightarrow> ColumnDefaults list \<Rightarrow> ResolvedColumn list \<Rightarrow> ResolvedColumn list" where
  "addColumns before [] ordered = ordered"
| "addColumns before (c # cs) ordered = addColumns (c # before) cs (addColumn before c ordered)"

definition resolveColumns :: "ColumnDefaults list \<Rightarrow> ColumnSetting list \<Rightarrow> ResolvedColumn list" where
  "resolveColumns columns settings =
     (let ordered = addColumns [] columns (foldl (addSetting columns) [] settings)
      in filter pinned ordered @ filter (\<lambda>r. \<not> pinned r) ordered)"

definition toSetting :: "ResolvedColumn \<Rightarrow> ColumnSetting" where
  "toSetting r = \<lparr>setId = resolvedId r, setWidth = Some (shownWidth r), setHidden = Some (hidden r), setPinned = Some (pinned r)\<rparr>"

definition toSettings :: "ResolvedColumn list \<Rightarrow> ColumnSetting list" where
  "toSettings resolved = map toSetting resolved"

text \<open>A patch of a column: the width, hidden and pinned, where given.\<close>

record ColumnPatch =
  patchWidth :: "real option"
  patchHidden :: "bool option"
  patchPinned :: "bool option"

definition patchedColumn :: "ColumnPatch \<Rightarrow> ResolvedColumn \<Rightarrow> ResolvedColumn" where
  "patchedColumn patch r =
     r\<lparr>shownWidth := (case patchWidth patch of Some w \<Rightarrow> clampWidth w | None \<Rightarrow> shownWidth r),
       hidden := givenOr (patchHidden patch) (hidden r), pinned := givenOr (patchPinned patch) (pinned r)\<rparr>"

definition updateColumn :: "ResolvedColumn list \<Rightarrow> string \<Rightarrow> ColumnPatch \<Rightarrow> ColumnSetting list" where
  "updateColumn resolved i patch = toSettings (map (\<lambda>r. if resolvedId r = i then patchedColumn patch r else r) resolved)"

definition moveTarget :: "nat \<Rightarrow> nat \<Rightarrow> int \<Rightarrow> nat" where
  "moveTarget n from' to = nat (max 0 (min (int n) (if int from' < to then to - 1 else to)))"

definition movedColumns :: "ResolvedColumn list \<Rightarrow> nat \<Rightarrow> int \<Rightarrow> ResolvedColumn list" where
  "movedColumns resolved from' to =
     (let moved = resolved ! from';
          rest = splice from' 1 [] resolved;
          target = moveTarget (length rest) from' to;
          pinnedCount = length (filter pinned rest)
      in splice target 0 [moved\<lparr>pinned := (target < pinnedCount \<or> pinned moved \<and> target = pinnedCount)\<rparr>] rest)"

definition moveColumn :: "ResolvedColumn list \<Rightarrow> string \<Rightarrow> int \<Rightarrow> ColumnSetting list" where
  "moveColumn resolved i to =
     (case findIndex (\<lambda>r. resolvedId r = i) resolved of
        None \<Rightarrow> toSettings resolved
      | Some from' \<Rightarrow> toSettings (movedColumns resolved from' to))"

section \<open>Sorting\<close>

definition clickSort :: "SortLevel list \<Rightarrow> string \<Rightarrow> bool \<Rightarrow> bool \<Rightarrow> SortLevel list" where
  "clickSort sorts field' extending defaultDescending =
     (let existing = find (\<lambda>s. sortField s = field') sorts in
      if \<not> extending then
        (case existing of
           Some s \<Rightarrow>
             if length sorts = 1 then [\<lparr>sortField = field', descending = \<not> descending s\<rparr>]
             else [\<lparr>sortField = field', descending = descending s\<rparr>]
         | None \<Rightarrow> [\<lparr>sortField = field', descending = defaultDescending\<rparr>])
      else
        (case existing of
           None \<Rightarrow> sorts @ [\<lparr>sortField = field', descending = defaultDescending\<rparr>]
         | Some s \<Rightarrow>
             if descending s = defaultDescending
             then map (\<lambda>s. if sortField s = field' then s\<lparr>descending := \<not> descending s\<rparr> else s) sorts
             else (case filter (\<lambda>s. sortField s \<noteq> field') sorts of [] \<Rightarrow> sorts | rest \<Rightarrow> rest)))"

section \<open>Resolving\<close>

lemma clampWidth_bounds: "MIN_COLUMN \<le> clampWidth w \<and> clampWidth w \<le> MAX_COLUMN"
proof -
  let ?w = "max MIN_COLUMN (min MAX_COLUMN w)"
  have "of_int 56 \<le> ?w" "?w \<le> of_int 900" by (simp_all add: MIN_COLUMN_def MAX_COLUMN_def)
  then have "mathRound (of_int 56) \<le> mathRound ?w" "mathRound ?w \<le> mathRound (of_int 900)" using mathRound_mono by blast+
  then have "56 \<le> mathRound ?w" "mathRound ?w \<le> 900" by (simp_all only: mathRound_int)
  then show ?thesis by (simp add: clampWidth_def MIN_COLUMN_def MAX_COLUMN_def)
qed

lemma clampWidth_same: "clampWidth (clampWidth w) = clampWidth w"
proof -
  have "max MIN_COLUMN (min MAX_COLUMN (clampWidth w)) = clampWidth w" using clampWidth_bounds [of w] by simp
  moreover obtain k where "clampWidth w = of_int k" by (simp add: clampWidth_def)
  ultimately show ?thesis by (metis clampWidth_def mathRound_int)
qed

lemma byId_found: "byId columns i = Some c \<Longrightarrow> c \<in> set columns \<and> colId c = i"
  by (auto simp: byId_def dest: find_Some_in)

text \<open>What is known of the ordered columns while they are collected.\<close>

definition collected :: "ColumnDefaults list \<Rightarrow> ResolvedColumn list \<Rightarrow> bool" where
  "collected columns ordered \<longleftrightarrow>
     distinct (map resolvedId ordered) \<and>
     (\<forall>r\<in>set ordered. column r \<in> set columns \<and> shownWidth r = clampWidth (shownWidth r))"

lemma addSetting_collected: "collected columns ordered \<Longrightarrow> collected columns (addSetting columns ordered s)"
  by (auto simp: addSetting_def collected_def withSetting_def clampWidth_same dest!: byId_found split: option.split)

lemma settings_collected: "collected columns ordered \<Longrightarrow> collected columns (foldl (addSetting columns) ordered settings)"
  by (induction settings arbitrary: ordered) (simp_all add: addSetting_collected)

lemma addColumn_collected: "collected columns ordered \<Longrightarrow> c \<in> set columns \<Longrightarrow> collected columns (addColumn before c ordered)"
proof -
  assume ordered: "collected columns ordered" and c: "c \<in> set columns"
  have "collected columns (splice i 0 [withDefaults c] ordered)" if "colId c \<notin> set (map resolvedId ordered)" for i
  proof -
    have "mset (map resolvedId (splice i 0 [withDefaults c] ordered)) = mset (colId c # map resolvedId ordered)"
      using arg_cong [OF mset_insert_at [of i "[withDefaults c]" ordered], of "image_mset resolvedId"] by (simp add: withDefaults_def)
    then have "distinct (map resolvedId (splice i 0 [withDefaults c] ordered))"
      using ordered that by (metis collected_def distinct.simps(2) mset_eq_imp_distinct_iff)
    then show ?thesis using ordered c by (auto simp: collected_def set_insert_at withDefaults_def clampWidth_same)
  qed
  then show ?thesis using ordered by (simp add: addColumn_def Let_def)
qed

lemma addColumns_collected: "collected columns ordered \<Longrightarrow> set cs \<subseteq> set columns \<Longrightarrow> collected columns (addColumns before cs ordered)"
  by (induction cs arbitrary: before ordered) (simp_all add: addColumn_collected)

lemma addColumn_ids: "set (map resolvedId (addColumn before c ordered)) = insert (colId c) (set (map resolvedId ordered))"
  by (auto simp: addColumn_def Let_def set_insert_at withDefaults_def)

lemma addColumns_ids: "set (map resolvedId (addColumns before cs ordered)) = set (map colId cs) \<union> set (map resolvedId ordered)"
proof (induction cs arbitrary: before ordered)
  case (Cons c cs)
  have "set (map resolvedId (addColumns before (c # cs) ordered)) = set (map colId cs) \<union> set (map resolvedId (addColumn before c ordered))"
    by (simp only: addColumns.simps Cons.IH)
  also have "\<dots> = set (map colId cs) \<union> insert (colId c) (set (map resolvedId ordered))" by (simp only: addColumn_ids)
  finally show ?case by auto
qed simp

definition pinnedColumnsFirst :: "ResolvedColumn list \<Rightarrow> bool" where
  "pinnedColumnsFirst rs \<longleftrightarrow> rs = filter pinned rs @ filter (\<lambda>r. \<not> pinned r) rs"

lemma pinnedColumnsFirst_iff: "pinnedColumnsFirst rs \<longleftrightarrow> (\<exists>ps us. rs = ps @ us \<and> list_all pinned ps \<and> list_all (\<lambda>r. \<not> pinned r) us)"
proof
  assume "pinnedColumnsFirst rs"
  then show "\<exists>ps us. rs = ps @ us \<and> list_all pinned ps \<and> list_all (\<lambda>r. \<not> pinned r) us"
    unfolding pinnedColumnsFirst_def
    by (intro exI [of _ "filter pinned rs"] exI [of _ "filter (\<lambda>r. \<not> pinned r) rs"]) (simp add: list_all_iff)
next
  assume "\<exists>ps us. rs = ps @ us \<and> list_all pinned ps \<and> list_all (\<lambda>r. \<not> pinned r) us"
  then show "pinnedColumnsFirst rs" by (auto simp: pinnedColumnsFirst_def list_all_iff filter_empty_conv)
qed

lemma pinnedColumnsFirst_append: "list_all pinned ps \<Longrightarrow> list_all (\<lambda>r. \<not> pinned r) us \<Longrightarrow> pinnedColumnsFirst (ps @ us)"
  unfolding pinnedColumnsFirst_iff by blast

text \<open>Columns that are all there, with widths in the bounds.\<close>

definition complete :: "ColumnDefaults list \<Rightarrow> ResolvedColumn list \<Rightarrow> bool" where
  "complete columns rs \<longleftrightarrow> collected columns rs \<and> set (map resolvedId rs) = set (map colId columns)"

lemma complete_mset: "mset rs = mset rs' \<Longrightarrow> complete columns rs \<Longrightarrow> complete columns rs'"
  unfolding complete_def collected_def by (metis mset_eq_imp_distinct_iff mset_eq_setD mset_map)

lemma mset_partitioned: "mset (filter P xs @ filter (\<lambda>x. \<not> P x) xs) = mset xs"
  by (induction xs) auto

lemma resolve_complete: "complete columns (resolveColumns columns settings)"
proof -
  let ?ordered = "addColumns [] columns (foldl (addSetting columns) [] settings)"
  have start: "collected columns (foldl (addSetting columns) [] settings)" by (rule settings_collected) (simp add: collected_def)
  then have collected: "collected columns ?ordered" by (rule addColumns_collected) simp
  have "set (map resolvedId ?ordered) = set (map colId columns)"
  proof -
    have "set (map resolvedId (foldl (addSetting columns) [] settings)) \<subseteq> set (map colId columns)"
      using start by (auto simp: collected_def)
    then show ?thesis unfolding addColumns_ids by blast
  qed
  with collected have "complete columns ?ordered" by (simp add: complete_def)
  then show ?thesis unfolding resolveColumns_def Let_def by (rule complete_mset [rotated]) (simp only: mset_partitioned)
qed

lemma resolve_pinned: "pinnedColumnsFirst (resolveColumns columns settings)"
  by (simp add: pinnedColumnsFirst_def resolveColumns_def Let_def)

text \<open>Complete columns survive being saved.\<close>

lemma withSetting_same: "shownWidth r = clampWidth (shownWidth r) \<Longrightarrow> withSetting (column r) (toSetting r) = r"
  by (simp add: withSetting_def toSetting_def givenOr_def)

lemma byId_distinct: "distinct (map colId columns) \<Longrightarrow> c \<in> set columns \<Longrightarrow> byId columns (colId c) = Some c"
proof -
  assume d: "distinct (map colId columns)" and c: "c \<in> set columns"
  have "byId columns (colId c) \<noteq> None" using c by (auto simp: byId_def find_None)
  then obtain b where b: "byId columns (colId c) = Some b" by blast
  from byId_found [OF this] d c have "b = c" by (metis distinct_map inj_onD)
  with b show ?thesis by simp
qed

lemma settings_restored:
  assumes "distinct (map colId columns)"
  shows "collected columns (done' @ rs) \<Longrightarrow> foldl (addSetting columns) done' (toSettings rs) = done' @ rs"
proof (induction rs arbitrary: done')
  case (Cons r rs)
  then have r: "column r \<in> set columns" "shownWidth r = clampWidth (shownWidth r)" "resolvedId r \<notin> set (map resolvedId done')"
    by (auto simp: collected_def)
  have "setId (toSetting r) = resolvedId r" by (simp add: toSetting_def)
  then have "addSetting columns done' (toSetting r) = done' @ [r]"
    using r byId_distinct [OF assms r(1)] by (simp add: addSetting_def withSetting_same)
  with Cons show ?case by (simp add: toSettings_def)
qed (simp add: toSettings_def)

lemma addColumns_known: "set (map colId cs) \<subseteq> set (map resolvedId ordered) \<Longrightarrow> addColumns before cs ordered = ordered"
  by (induction cs arbitrary: before) (simp_all add: addColumn_def)

lemma resolve_restored:
  assumes "distinct (map colId columns)" "complete columns rs" "pinnedColumnsFirst rs"
  shows "resolveColumns columns (toSettings rs) = rs"
proof -
  have "foldl (addSetting columns) [] (toSettings rs) = rs"
    using settings_restored [OF assms(1), of "[]" rs] assms(2) by (simp add: complete_def)
  moreover have "addColumns [] columns rs = rs" using assms(2) by (intro addColumns_known) (simp add: complete_def)
  ultimately show ?thesis using assms(3) by (simp add: resolveColumns_def pinnedColumnsFirst_def)
qed

section \<open>Moving\<close>

lemma insert_pinned:
  assumes "pinnedColumnsFirst rest" "target \<le> length rest"
  shows "pinnedColumnsFirst (splice target 0
    [r\<lparr>pinned := (target < length (filter pinned rest) \<or> pinned r \<and> target = length (filter pinned rest))\<rparr>] rest)"
proof -
  obtain ps us where rest: "rest = ps @ us" "list_all pinned ps" "list_all (\<lambda>r. \<not> pinned r) us"
    using assms(1) by (auto simp: pinnedColumnsFirst_iff)
  have "filter pinned rest = ps" using rest by (auto simp: list_all_iff filter_empty_conv)
  then have count: "length (filter pinned rest) = length ps" by simp
  have part: "list_all P (take n xs)" "list_all P (drop n xs)" if "list_all P xs" for P n and xs :: "ResolvedColumn list"
    using that by (auto simp: list_all_iff dest: in_set_takeD in_set_dropD)
  consider (inside) "target < length ps" | (border) "target = length ps" | (outside) "length ps < target" by linarith
  then show ?thesis
  proof cases
    case inside
    then have "splice target 0 [r\<lparr>pinned := True\<rparr>] rest = (take target ps @ r\<lparr>pinned := True\<rparr> # drop target ps) @ us"
      by (simp add: splice_def rest(1))
    moreover have "list_all pinned (take target ps @ r\<lparr>pinned := True\<rparr> # drop target ps)" using rest(2) part by simp
    ultimately have "pinnedColumnsFirst (splice target 0 [r\<lparr>pinned := True\<rparr>] rest)" using pinnedColumnsFirst_append [OF _ rest(3)] by metis
    then show ?thesis unfolding count using inside by simp
  next
    case border
    then have "splice target 0 [r\<lparr>pinned := b\<rparr>] rest = ps @ r\<lparr>pinned := b\<rparr> # us" for b by (simp add: splice_def rest(1))
    moreover have "\<exists>ps' us'. ps @ r\<lparr>pinned := b\<rparr> # us = ps' @ us' \<and> list_all pinned ps' \<and> list_all (\<lambda>r. \<not> pinned r) us'" for b
    proof (cases b)
      case True
      then show ?thesis using rest(2,3) by (intro exI [of _ "ps @ [r\<lparr>pinned := b\<rparr>]"] exI [of _ us]) simp
    next
      case False
      then show ?thesis using rest(2,3) by (intro exI [of _ ps] exI [of _ "r\<lparr>pinned := b\<rparr> # us"]) simp
    qed
    ultimately show ?thesis unfolding pinnedColumnsFirst_iff by simp
  next
    case outside
    then have "splice target 0 [r\<lparr>pinned := False\<rparr>] rest =
        ps @ take (target - length ps) us @ r\<lparr>pinned := False\<rparr> # drop (target - length ps) us"
      by (simp add: splice_def rest(1))
    moreover have "list_all (\<lambda>r. \<not> pinned r) (take (target - length ps) us @ r\<lparr>pinned := False\<rparr> # drop (target - length ps) us)"
      using rest(3) part by simp
    ultimately have "pinnedColumnsFirst (splice target 0 [r\<lparr>pinned := False\<rparr>] rest)" using pinnedColumnsFirst_append [OF rest(2)] by metis
    then show ?thesis unfolding count using outside by simp
  qed
qed

lemma remove_pinned_column: "pinnedColumnsFirst rs \<Longrightarrow> pinnedColumnsFirst (splice i 1 [] rs)"
proof -
  assume "pinnedColumnsFirst rs"
  then obtain ps us where rs: "rs = ps @ us" "list_all pinned ps" "list_all (\<lambda>r. \<not> pinned r) us" by (auto simp: pinnedColumnsFirst_iff)
  have "splice i 1 [] rs = (take i ps @ drop (i + 1) ps) @ (take (i - length ps) us @ drop (i + 1 - length ps) us)"
    using rs(1) by (cases "i < length ps") (auto simp: splice_def)
  moreover have "list_all pinned (take i ps @ drop (i + 1) ps)"
    "list_all (\<lambda>r. \<not> pinned r) (take (i - length ps) us @ drop (i + 1 - length ps) us)"
    using rs(2,3) by (auto simp: list_all_iff dest: in_set_takeD in_set_dropD)
  ultimately show ?thesis unfolding pinnedColumnsFirst_iff by blast
qed

lemma moveTarget_le: "moveTarget n from' to \<le> n"
  by (auto simp: moveTarget_def)

lemma complete_ids: "complete columns rs \<Longrightarrow> map resolvedId rs' = map resolvedId rs \<Longrightarrow> map column rs' = map column rs
  \<Longrightarrow> map shownWidth rs' = map shownWidth rs \<Longrightarrow> complete columns rs'"
proof -
  assume rs: "complete columns rs" and same: "map resolvedId rs' = map resolvedId rs" "map column rs' = map column rs"
    "map shownWidth rs' = map shownWidth rs"
  have sets: "set (map column rs') = set (map column rs)" "set (map shownWidth rs') = set (map shownWidth rs)" by (simp_all only: same)
  from rs have "set (map column rs) \<subseteq> set columns \<and> (\<forall>w\<in>set (map shownWidth rs). w = clampWidth w)"
    by (auto simp: complete_def collected_def)
  then have "set (map column rs') \<subseteq> set columns \<and> (\<forall>w\<in>set (map shownWidth rs'). w = clampWidth w)" unfolding sets by blast
  then have "\<forall>r\<in>set rs'. column r \<in> set columns \<and> shownWidth r = clampWidth (shownWidth r)" by auto
  then show ?thesis using rs same(1) by (simp only: complete_def collected_def)
qed

lemma moved_mset:
  assumes "from' < length rs"
  shows "\<exists>b. mset (movedColumns rs from' to) = add_mset ((rs ! from')\<lparr>pinned := b\<rparr>) (mset (splice from' 1 [] rs)) \<and>
    mset rs = add_mset (rs ! from') (mset (splice from' 1 [] rs))"
proof -
  have "rs = take from' rs @ rs ! from' # drop (from' + 1) rs" using assms by (simp add: id_take_nth_drop)
  then have "mset rs = add_mset (rs ! from') (mset (splice from' 1 [] rs))"
    by (metis append_Nil mset.simps(2) mset_append splice_def union_mset_add_mset_right)
  then show ?thesis by (auto simp: movedColumns_def Let_def mset_insert_at)
qed

lemma moved_complete:
  assumes "complete columns rs" "from' < length rs" shows "complete columns (movedColumns rs from' to)"
proof -
  obtain b where b: "mset (movedColumns rs from' to) = add_mset ((rs ! from')\<lparr>pinned := b\<rparr>) (mset (splice from' 1 [] rs))"
    "mset rs = add_mset (rs ! from') (mset (splice from' 1 [] rs))" using moved_mset [OF assms(2)] by blast
  let ?a = "rs ! from' # splice from' 1 [] rs" and ?b = "(rs ! from')\<lparr>pinned := b\<rparr> # splice from' 1 [] rs"
  have "complete columns ?a" using complete_mset [OF _ assms(1)] b(2) by simp
  then have "complete columns ?b" by (rule complete_ids) simp_all
  then show ?thesis by (rule complete_mset [rotated]) (simp add: b(1))
qed

lemma moved_pinned: "pinnedColumnsFirst rs \<Longrightarrow> pinnedColumnsFirst (movedColumns rs from' to)"
  unfolding movedColumns_def Let_def by (rule insert_pinned [OF remove_pinned_column moveTarget_le])

lemma findIndex_distinct:
  assumes "distinct (map f xs)" "i < length xs" shows "findIndex (\<lambda>x. f x = f (xs ! i)) xs = Some i"
proof -
  obtain j where j: "findIndex (\<lambda>x. f x = f (xs ! i)) xs = Some j"
    using findIndex_ex [of "xs ! i" xs "\<lambda>x. f x = f (xs ! i)"] assms(2) by auto
  from findIndex_Some [OF this] have "j < length xs" "map f xs ! j = map f xs ! i" using assms(2) by auto
  with assms j show ?thesis by (metis length_map nth_eq_iff_index_eq)
qed

text \<open>What is left of the columns before and after a place in the full list, without the moved column.\<close>

lemma without_moved:
  fixes to :: int
  assumes d: "distinct (map f rs)" and from': "from' < length rs"
  defines "rest \<equiv> splice from' 1 [] rs" and "t \<equiv> moveTarget (length rs - 1) from' to"
  shows "take t rest = filter (\<lambda>r. f r \<noteq> f (rs ! from')) (take (nat to) rs)"
    and "drop t rest = filter (\<lambda>r. f r \<noteq> f (rs ! from')) (drop (nat to) rs)"
proof -
  let ?a = "take from' rs" and ?x = "rs ! from'" and ?b = "drop (from' + 1) rs"
  have rs: "rs = ?a @ ?x # ?b" using from' by (simp add: id_take_nth_drop)
  have len: "length ?a = from'" "length rs - 1 = from' + length ?b" using from' by simp_all
  have "distinct (map f (?a @ ?x # ?b))" using d rs by metis
  then have off: "\<forall>r\<in>set ?a. f r \<noteq> f ?x" "\<forall>r\<in>set ?b. f r \<noteq> f ?x" by (auto simp: image_iff)
  have same: "filter (\<lambda>r. f r \<noteq> f ?x) ys = ys" if "set ys \<subseteq> set ?a \<union> set ?b" for ys
    using that off by (intro filter_True) blast
  have sub: "set (take k ?a) \<subseteq> set ?a" "set (drop k ?a) \<subseteq> set ?a" "set (take k ?b) \<subseteq> set ?b" "set (drop k ?b) \<subseteq> set ?b" for k
    by (rule set_take_subset set_drop_subset)+
  have rest: "rest = ?a @ ?b" by (simp add: rest_def splice_def)
  show "take t rest = filter (\<lambda>r. f r \<noteq> f ?x) (take (nat to) rs)"
    and "drop t rest = filter (\<lambda>r. f r \<noteq> f ?x) (drop (nat to) rs)"
  proof -
    consider (later) k where "nat to = from' + Suc k" | (earlier) "nat to \<le> from'" 
      by (metis add_Suc_right less_iff_Suc_add not_less)
    then have "take t rest = filter (\<lambda>r. f r \<noteq> f ?x) (take (nat to) (?a @ ?x # ?b)) \<and>
      drop t rest = filter (\<lambda>r. f r \<noteq> f ?x) (drop (nat to) (?a @ ?x # ?b))"
    proof cases
      case later
      then have "to = int from' + int k + 1" by linarith
      then have t: "t = from' + min (length ?b) k" unfolding t_def moveTarget_def len(2) by (simp add: min_def nat_int_add)
      have parts: "take (nat to) (?a @ ?x # ?b) = ?a @ ?x # take k ?b" "drop (nat to) (?a @ ?x # ?b) = drop k ?b"
        "take t rest = ?a @ take k ?b" "drop t rest = drop k ?b"
        using len(1) by (simp_all add: later t rest min_def)
      show ?thesis unfolding parts using same [of ?a] same [OF le_supI2 [OF sub(3)]] same [OF le_supI2 [OF sub(4)]] by simp
    next
      case earlier
      then have "to \<le> int from'" by linarith
      then have t: "t = nat to" unfolding t_def moveTarget_def len(2) by (simp add: min_def max_def) arith
      have parts: "take (nat to) (?a @ ?x # ?b) = take (nat to) ?a" "drop (nat to) (?a @ ?x # ?b) = drop (nat to) ?a @ ?x # ?b"
        "take t rest = take (nat to) ?a" "drop t rest = drop (nat to) ?a @ ?b"
        using earlier len(1) by (simp_all add: t rest)
      show ?thesis unfolding parts
        using same [of ?b] same [OF le_supI1 [OF sub(1)]] same [OF le_supI1 [OF sub(2)]] by simp
    qed
    with rs show "take t rest = filter (\<lambda>r. f r \<noteq> f ?x) (take (nat to) rs)"
      "drop t rest = filter (\<lambda>r. f r \<noteq> f ?x) (drop (nat to) rs)" by simp_all
  qed
qed

text \<open>The pin of the moved column: it is among the pinned ones, or after the last of them and keeps its pin.\<close>

lemma moved_pin:
  assumes "pinnedColumnsFirst rest" "t \<le> length rest"
  shows "t < length (filter pinned rest) \<longleftrightarrow> list_ex pinned (drop t rest)"
    and "t \<le> length (filter pinned rest) \<longleftrightarrow> list_all pinned (take t rest)"
proof -
  obtain ps us where rest: "rest = ps @ us" "list_all pinned ps" "list_all (\<lambda>r. \<not> pinned r) us"
    using assms(1) by (auto simp: pinnedColumnsFirst_iff)
  then have "filter pinned rest = ps" by (auto simp: list_all_iff filter_empty_conv)
  then have count: "length (filter pinned rest) = length ps" by simp
  have none: "\<not> list_ex pinned (drop k us)" for k using rest(3) by (auto simp: list_all_iff list_ex_iff dest: in_set_dropD)
  have some: "list_ex pinned (drop t ps) \<longleftrightarrow> t < length ps"
  proof (cases "t < length ps")
    case True
    then have "ps ! t \<in> set (drop t ps)" "ps ! t \<in> set ps" by (metis Cons_nth_drop_Suc list.set_intros(1), simp)
    then show ?thesis using True rest(2) by (auto simp: list_all_iff list_ex_iff)
  qed simp
  show "t < length (filter pinned rest) \<longleftrightarrow> list_ex pinned (drop t rest)" unfolding count using none some by (simp add: rest(1))
  have early: "list_all pinned (take t ps)" using rest(2) by (auto simp: list_all_iff dest: in_set_takeD)
  show "t \<le> length (filter pinned rest) \<longleftrightarrow> list_all pinned (take t rest)"
  proof (cases "t \<le> length ps")
    case True
    then show ?thesis unfolding count using early by (simp add: rest(1))
  next
    case False
    then obtain u us' where us: "us = u # us'" using assms(2) rest(1) by (cases us) auto
    with False have "u \<in> set (take (t - length ps) us)" by (cases "t - length ps") simp_all
    moreover have "\<not> pinned u" using rest(3) us by simp
    ultimately show ?thesis unfolding count using False by (auto simp: rest(1) list_all_iff)
  qed
qed

lemma insert_at: "splice t 0 [y] rest = take t rest @ y # drop t rest"
  by (simp add: splice_def)

lemma movedColumns_exact:
  fixes to :: int
  assumes d: "distinct (map resolvedId rs)" and from': "from' < length rs" and first: "pinnedColumnsFirst rs"
  defines "x \<equiv> rs ! from'"
  defines "before \<equiv> filter (\<lambda>r. resolvedId r \<noteq> resolvedId x) (take (nat to) rs)"
    and "after \<equiv> filter (\<lambda>r. resolvedId r \<noteq> resolvedId x) (drop (nat to) rs)"
  shows "movedColumns rs from' to =
    before @ x\<lparr>pinned := (list_ex pinned after \<or> pinned x \<and> list_all pinned before)\<rparr> # after"
proof -
  let ?rest = "splice from' 1 [] rs" and ?t = "moveTarget (length rs - 1) from' to"
  have len: "length ?rest = length rs - 1" using from' by (simp add: splice_def)
  have split: "take ?t ?rest = before" "drop ?t ?rest = after"
    unfolding before_def after_def x_def using without_moved [OF d from'] by simp_all
  have le: "?t \<le> length ?rest" unfolding len by (rule moveTarget_le)
  note pin = moved_pin [OF remove_pinned_column [OF first] le, unfolded split]
  have "?t < length (filter pinned ?rest) \<or> pinned x \<and> ?t = length (filter pinned ?rest)
      \<longleftrightarrow> list_ex pinned after \<or> pinned x \<and> list_all pinned before"
    using pin by linarith
  then show ?thesis unfolding movedColumns_def Let_def len x_def [symmetric] insert_at split by simp
qed

lemma moved_resolved:
  fixes to :: int
  assumes "distinct (map colId columns)" "from' < length (resolveColumns columns settings)"
  defines "rs \<equiv> resolveColumns columns settings"
  shows "resolveColumns columns (moveColumn rs (resolvedId (rs ! from')) to) = movedColumns rs from' to"
    and "distinct (map resolvedId rs)" "pinnedColumnsFirst rs" "pinnedColumnsFirst (movedColumns rs from' to)"
proof -
  have rs: "complete columns rs" "pinnedColumnsFirst rs" "from' < length rs"
    unfolding rs_def by (rule resolve_complete, rule resolve_pinned, rule assms(2))
  then show d: "distinct (map resolvedId rs)" by (simp add: complete_def collected_def)
  have "findIndex (\<lambda>r. resolvedId r = resolvedId (rs ! from')) rs = Some from'"
    using d rs(3) by (intro findIndex_distinct)
  then have saved: "moveColumn rs (resolvedId (rs ! from')) to = toSettings (movedColumns rs from' to)" by (simp add: moveColumn_def)
  show "resolveColumns columns (moveColumn rs (resolvedId (rs ! from')) to) = movedColumns rs from' to" unfolding saved
    using resolve_restored [OF assms(1) moved_complete [OF rs(1,3)] moved_pinned [OF rs(2)]] .
  show "pinnedColumnsFirst rs" "pinnedColumnsFirst (movedColumns rs from' to)" by (rule rs(2), rule moved_pinned [OF rs(2)])
qed

section \<open>Sort levels\<close>

definition sortsOk :: "SortLevel list \<Rightarrow> bool" where
  "sortsOk sorts \<longleftrightarrow> sorts \<noteq> [] \<and> distinct (map sortField sorts)"

lemma clickSort_ok: "sortsOk sorts \<Longrightarrow> sortsOk (clickSort sorts f extending d)"
proof -
  assume ok: "sortsOk sorts"
  have map_same: "map sortField (map (\<lambda>s. if sortField s = f then s\<lparr>descending := \<not> descending s\<rparr> else s) sorts) = map sortField sorts"
    by (induction sorts) auto
  have "distinct (map sortField (filter P sorts))" for P using ok by (simp add: sortsOk_def distinct_map_filter)
  note filtered = this
  show ?thesis
  proof (cases "find (\<lambda>s. sortField s = f) sorts")
    case None
    then have "f \<notin> set (map sortField sorts)" by (auto simp: find_None)
    with None ok show ?thesis by (auto simp: clickSort_def sortsOk_def)
  next
    case (Some s)
    have "sortsOk (map (\<lambda>s. if sortField s = f then s\<lparr>descending := \<not> descending s\<rparr> else s) sorts)"
      using ok unfolding sortsOk_def map_same by simp
    moreover have "sortsOk (case filter (\<lambda>s. sortField s \<noteq> f) sorts of [] \<Rightarrow> sorts | r # rs \<Rightarrow> r # rs)"
      using ok filtered [of "\<lambda>s. sortField s \<noteq> f"] by (auto simp: sortsOk_def split: list.split)
    moreover have "sortsOk [l]" for l by (simp add: sortsOk_def)
    ultimately show ?thesis unfolding clickSort_def Let_def Some by (simp del: map_map split del: if_split add: if_split)
  qed
qed

lemma extending_click_cycle:
  assumes "sorts \<noteq> []" "f \<notin> set (map sortField sorts)"
  shows "clickSort (clickSort (clickSort sorts f True d) f True d) f True d = sorts"
proof -
  have none: "find (\<lambda>s. sortField s = f) sorts = None" using assms(2) by (auto simp: find_None)
  have last': "find (\<lambda>s. sortField s = f) (sorts @ [\<lparr>sortField = f, descending = b\<rparr>]) = Some \<lparr>sortField = f, descending = b\<rparr>" for b
    using assms(2) by (induction sorts) auto
  have flip: "map (\<lambda>s. if sortField s = f then s\<lparr>descending := \<not> descending s\<rparr> else s) sorts = sorts"
    using assms(2) by (induction sorts) auto
  have drop': "filter (\<lambda>s. sortField s \<noteq> f) sorts = sorts" using assms(2) by (auto simp: filter_id_conv)
  show ?thesis using none last' flip drop' assms(1) by (simp add: clickSort_def Let_def split: list.split)
qed

end
