(* ===== verification/ReaderLayout.thy ===== *)
theory ReaderLayout
  imports Prelude
begin

text \<open>
  Layout of the PDF reader (\<open>apps/key/src/pdfjs\<close>): widths of tabs (\<open>tab-widths.ts\<close>), the pages in a viewport and
  the horizontal geometry (\<open>reader-layout.ts\<close>), and the position of a floating card (\<open>floating-card.ts\<close>). Measures
  are exact reals; page counts are below \<open>2 ^ 31\<close>, so that the shift of the binary search is a division.
\<close>

section \<open>Tab widths\<close>

record TabWidthMetrics =
  minimumTitleCharacters :: nat
  documentIconWidth :: real
  closeButtonWidth :: real
  segmentGap :: real
  horizontalPadding :: real
  separatorWidth :: real

text \<open>\<open>measureText\<close> is the parameter of the code; the ellipsis is the text that marks a cut title.\<close>

definition readableTabWidth :: "string \<Rightarrow> string list \<Rightarrow> TabWidthMetrics \<Rightarrow> (string \<Rightarrow> real) \<Rightarrow> int" where
  "readableTabWidth dots titles metrics measureText =
     (let segmentChrome = documentIconWidth metrics + closeButtonWidth metrics + segmentGap metrics * 2;
          prefix' = (\<lambda>title. take (minimumTitleCharacters metrics) title);
          readable = (\<lambda>title. if length title > minimumTitleCharacters metrics then prefix' title @ dots else prefix' title);
          titleWidth = sum_list (map (\<lambda>title. measureText (readable title) + segmentChrome) titles)
      in \<lceil>titleWidth + horizontalPadding metrics * 2 + real (length titles - 1) * separatorWidth metrics\<rceil>)"

text \<open>The loop of \<open>distributeTabWidths\<close>: \<open>unresolved\<close> is the set of indices in its order of insertion.\<close>

function shareWidths :: "real list \<Rightarrow> nat list \<Rightarrow> real \<Rightarrow> real list \<Rightarrow> real list" where
  "shareWidths minimums unresolved remaining widths =
     (if unresolved = [] then widths
      else
        let equalShare = remaining / real (length unresolved);
            constrained = filter (\<lambda>i. minimums ! i > equalShare) unresolved
        in if constrained = [] then foldl (\<lambda>ws i. ws[i := equalShare]) widths unresolved
           else shareWidths minimums (filter (\<lambda>i. \<not> minimums ! i > equalShare) unresolved)
                  (foldl (\<lambda>r i. r - minimums ! i) remaining constrained)
                  (foldl (\<lambda>ws i. ws[i := minimums ! i]) widths constrained))"
  by pat_completeness auto
termination
proof (relation "measure (\<lambda>(_, u, _, _). length u)")
  fix minimums :: "real list" and unresolved remaining widths equalShare constrained
  assume "constrained = filter (\<lambda>i. minimums ! i > equalShare) unresolved" "constrained \<noteq> []"
  then obtain i where "i \<in> set unresolved" "\<not> \<not> minimums ! i > equalShare" by (auto simp: filter_empty_conv)
  then have "length (filter (\<lambda>i. \<not> minimums ! i > equalShare) unresolved) < length unresolved" by (rule length_filter_less)
  then show "((minimums, filter (\<lambda>i. \<not> minimums ! i > equalShare) unresolved, foldl (\<lambda>r i. r - minimums ! i) remaining constrained,
      foldl (\<lambda>ws i. ws[i := minimums ! i]) widths constrained), minimums, unresolved, remaining, widths) \<in> measure (\<lambda>(_, u, _, _). length u)"
    by simp
qed simp

declare shareWidths.simps [simp del]

definition distributeTabWidths :: "real list \<Rightarrow> real \<Rightarrow> real list" where
  "distributeTabWidths minimums availableWidth =
     (if minimums = [] then []
      else if sum_list minimums \<ge> availableWidth then minimums
      else shareWidths minimums [0..<length minimums] availableWidth (replicate (length minimums) 0))"

section \<open>Pages\<close>

record PageBox =
  pageTop :: real
  pageHeight :: real

function searchPages :: "(PageBox \<Rightarrow> bool) \<Rightarrow> PageBox list \<Rightarrow> nat \<Rightarrow> nat \<Rightarrow> nat" where
  "searchPages before' pages low high =
     (if low < high then
        let middle = (low + high) div 2 in
        if before' (pages ! middle) then searchPages before' pages (middle + 1) high else searchPages before' pages low middle
      else low)"
  by pat_completeness auto
termination
  by (relation "measure (\<lambda>(_, _, low, high). high - low)") auto

declare searchPages.simps [simp del]

definition readerPageWindow :: "PageBox list \<Rightarrow> real \<Rightarrow> real \<Rightarrow> nat \<times> nat" where
  "readerPageWindow pages t b =
     (let first = searchPages (\<lambda>p. pageTop p + pageHeight p < t) pages 0 (length pages);
          end' = searchPages (\<lambda>p. pageTop p \<le> b) pages first (length pages)
      in (first, end'))"

record ReaderHorizontalGeometry =
  baseContentWidth :: real
  contentWidth :: real
  pageLeft :: "real \<Rightarrow> real"

definition readerHorizontalGeometry :: "real \<Rightarrow> real \<Rightarrow> real \<Rightarrow> real \<Rightarrow> ReaderHorizontalGeometry" where
  "readerHorizontalGeometry viewportWidth widestPageWidth pagePadding panelInset =
     (let base = max viewportWidth (widestPageWidth + pagePadding * 2) in
      \<lparr>baseContentWidth = base, contentWidth = base + max 0 panelInset, pageLeft = (\<lambda>pageWidth. (base - pageWidth) / 2)\<rparr>)"

section \<open>Floating cards\<close>

record CardAnchor =
  anchorLeft :: real
  anchorTop :: real
  anchorBottom :: real

definition anchoredFloatingCardPosition :: "CardAnchor \<Rightarrow> real \<times> real \<Rightarrow> real \<times> real \<Rightarrow> real \<Rightarrow> real \<Rightarrow> real \<times> real" where
  "anchoredFloatingCardPosition anchor viewport card' gap margin =
     (let (viewportWidth, viewportHeight) = viewport; (cardWidth, cardHeight) = card';
          maximumLeft = max margin (viewportWidth - cardWidth - margin);
          left' = min maximumLeft (max margin (anchorLeft anchor - 18));
          below = anchorBottom anchor + gap;
          above = anchorTop anchor - cardHeight - gap;
          maximumTop = max margin (viewportHeight - cardHeight - margin);
          top' = (if below + cardHeight \<le> viewportHeight - margin then below else min maximumTop (max margin above))
      in (left', top'))"

text \<open>
  \<open>HoverCardBridge\<close>: its exit timer, with the timers of the platform that are armed, the number of the next one, and how
  often the exit has run.
\<close>

record HoverCards =
  exitTimer :: "nat option"
  armedTimers :: "nat list"
  nextTimer :: nat
  exitsRun :: nat

definition cancelExit :: "HoverCards \<Rightarrow> HoverCards" where
  "cancelExit s =
     (case exitTimer s of
        None \<Rightarrow> s
      | Some i \<Rightarrow> s\<lparr>armedTimers := removeAll i (armedTimers s), exitTimer := None\<rparr>)"

definition scheduleExit :: "HoverCards \<Rightarrow> HoverCards" where
  "scheduleExit s =
     (let s' = cancelExit s in
      s'\<lparr>armedTimers := armedTimers s' @ [nextTimer s'], exitTimer := Some (nextTimer s'), nextTimer := nextTimer s' + 1\<rparr>)"

text \<open>An armed timer fires.\<close>

definition fireExit :: "nat \<Rightarrow> HoverCards \<Rightarrow> HoverCards" where
  "fireExit i s =
     (if i \<in> set (armedTimers s)
      then s\<lparr>armedTimers := removeAll i (armedTimers s), exitTimer := None, exitsRun := exitsRun s + 1\<rparr>
      else s)"

section \<open>Shares\<close>

lemma foldl_minus: "foldl (\<lambda>r i. r - f i) x is = x - sum_list (map f is)" for x :: real
  by (induction "is" arbitrary: x) auto

lemma length_updates [simp]: "length (foldl (\<lambda>ws i. ws[i := f i]) ws is) = length ws"
  by (induction "is" arbitrary: ws) auto

lemma nth_updates:
  "i < length ws \<Longrightarrow> foldl (\<lambda>ws i. ws[i := f i]) ws is ! i = (if i \<in> set is then f i else ws ! i)"
  by (induction "is" arbitrary: ws) (auto simp: nth_list_update)

lemma sum_partition: "sum_list (map f (filter P xs)) + sum_list (map f (filter (\<lambda>x. \<not> P x) xs)) = sum_list (map f xs)" for f :: "'a \<Rightarrow> real"
  by (induction xs) auto

lemma sum_above: "\<forall>x\<in>set xs. f x > s \<Longrightarrow> xs \<noteq> [] \<Longrightarrow> sum_list (map f xs) > real (length xs) * s" for f :: "'a \<Rightarrow> real"
proof (induction xs)
  case (Cons x xs)
  have "f x > s" using Cons.prems(1) by simp
  moreover have "xs \<noteq> [] \<Longrightarrow> sum_list (map f xs) > real (length xs) * s" using Cons by simp
  ultimately show ?case by (cases "xs = []") (simp_all add: algebra_simps)
qed simp

lemma share_rest: "0 < n \<Longrightarrow> n = a + b \<Longrightarrow> x - a * (x / n) = b * (x / n)" for a b n x :: real
  by (simp add: field_simps)

text \<open>
  Every width is its minimum or the level, whichever is larger, and the widths of the unresolved tabs use up what remains.
\<close>

lemma shareWidths_level:
  assumes "unresolved \<noteq> []" "distinct unresolved" "set unresolved \<subseteq> {..<length widths}"
    and "sum_list (map ((!) minimums) unresolved) < remaining"
  shows "\<exists>level \<le> remaining / real (length unresolved).
    (\<forall>i\<in>set unresolved. shareWidths minimums unresolved remaining widths ! i = max (minimums ! i) level) \<and>
    (\<forall>i<length widths. i \<notin> set unresolved \<longrightarrow> shareWidths minimums unresolved remaining widths ! i = widths ! i) \<and>
    sum_list (map ((!) (shareWidths minimums unresolved remaining widths)) unresolved) = remaining \<and>
    length (shareWidths minimums unresolved remaining widths) = length widths"
  using assms
proof (induction minimums unresolved remaining widths rule: shareWidths.induct)
  case (1 minimums unresolved remaining widths)
  let ?n = "real (length unresolved)"
  let ?share = "remaining / ?n"
  let ?con = "filter (\<lambda>i. minimums ! i > ?share) unresolved" and ?rest = "filter (\<lambda>i. \<not> minimums ! i > ?share) unresolved"
  have n: "0 < ?n" using 1(2) by simp
  show ?case
  proof (cases "?con = []")
    case True
    let ?ws = "foldl (\<lambda>ws i. ws[i := ?share]) widths unresolved"
    have result: "shareWidths minimums unresolved remaining widths = ?ws"
      using 1(2) True by (simp add: shareWidths.simps [of minimums unresolved] Let_def)
    have least: "\<forall>i\<in>set unresolved. minimums ! i \<le> ?share" using True by (auto simp: filter_empty_conv not_less)
    have each: "?ws ! i = ?share" if "i \<in> set unresolved" for i using that 1(4) nth_updates [of i widths "\<lambda>_. ?share" unresolved] by auto
    have others: "?ws ! i = widths ! i" if "i < length widths" "i \<notin> set unresolved" for i
      using that nth_updates [of i widths "\<lambda>_. ?share" unresolved] by auto
    have "map ((!) ?ws) unresolved = map (\<lambda>_. ?share) unresolved" using each by simp
    then have "sum_list (map ((!) ?ws) unresolved) = sum_list (map (\<lambda>_. ?share) unresolved)" by (simp only:)
    then have "sum_list (map ((!) ?ws) unresolved) = remaining" using n by (simp add: sum_list_triv)
    then show ?thesis unfolding result using least each others by (intro exI [of _ ?share]) auto
  next
    case False
    let ?r = "foldl (\<lambda>r i. r - minimums ! i) remaining ?con" and ?ws = "foldl (\<lambda>ws i. ws[i := minimums ! i]) widths ?con"
    have result: "shareWidths minimums unresolved remaining widths = shareWidths minimums ?rest ?r ?ws"
      using 1(2) False by (simp add: shareWidths.simps [of minimums unresolved] Let_def)
    have r: "?r = remaining - sum_list (map ((!) minimums) ?con)" by (simp add: foldl_minus)
    have parts: "sum_list (map ((!) minimums) ?con) + sum_list (map ((!) minimums) ?rest) = sum_list (map ((!) minimums) unresolved)"
      by (rule sum_partition)
    have count: "length ?con + length ?rest = length unresolved" by (rule sum_length_filter_compl)
    have above: "sum_list (map ((!) minimums) ?con) > real (length ?con) * ?share"
      using False by (intro sum_above) auto
    have "?rest \<noteq> []"
    proof
      assume none: "?rest = []"
      then have "sum_list (map ((!) minimums) unresolved) > ?n * ?share" using parts above count by simp
      then show False using 1(5) n by simp
    qed
    moreover have "distinct ?rest" "set ?rest \<subseteq> {..<length ?ws}" using 1(3,4) by auto
    moreover have "sum_list (map ((!) minimums) ?rest) < ?r" using 1(5) parts r by simp
    ultimately obtain level where level: "level \<le> ?r / real (length ?rest)"
      "\<forall>i\<in>set ?rest. shareWidths minimums ?rest ?r ?ws ! i = max (minimums ! i) level"
      "\<forall>i<length ?ws. i \<notin> set ?rest \<longrightarrow> shareWidths minimums ?rest ?r ?ws ! i = ?ws ! i"
      "sum_list (map ((!) (shareWidths minimums ?rest ?r ?ws)) ?rest) = ?r" "length (shareWidths minimums ?rest ?r ?ws) = length ?ws"
      using 1(1) [OF 1(2) refl refl False] by blast
    have rest: "0 < real (length ?rest)" using \<open>?rest \<noteq> []\<close> by simp
    have "?r < remaining - real (length ?con) * ?share" using r above by simp
    also have "\<dots> = real (length ?rest) * ?share" by (rule share_rest [OF n]) (use count in linarith)
    finally have lower: "?r / real (length ?rest) < ?share" using rest by (subst pos_divide_less_eq) (simp_all only: mult.commute [of ?share])
    have con: "shareWidths minimums ?rest ?r ?ws ! i = minimums ! i" if "i \<in> set ?con" for i
    proof -
      have "i < length widths" "i \<notin> set ?rest" using that 1(4) by auto
      then have "shareWidths minimums ?rest ?r ?ws ! i = ?ws ! i" using level(3) by simp
      also have "\<dots> = minimums ! i" using nth_updates [OF \<open>i < length widths\<close>, of "(!) minimums" ?con] that by simp
      finally show ?thesis .
    qed
    have all: "shareWidths minimums ?rest ?r ?ws ! i = max (minimums ! i) level" if "i \<in> set unresolved" for i
    proof (cases "minimums ! i > ?share")
      case True
      with that con [of i] level(1) lower show ?thesis by simp
    next
      case False
      with that level(2) show ?thesis by simp
    qed
    have others: "shareWidths minimums ?rest ?r ?ws ! i = widths ! i" if "i < length widths" "i \<notin> set unresolved" for i
    proof -
      have "i \<notin> set ?con" "i \<notin> set ?rest" using that(2) by auto
      then have "shareWidths minimums ?rest ?r ?ws ! i = ?ws ! i" using level(3) that(1) by simp
      also have "\<dots> = widths ! i" using nth_updates [OF that(1), of "(!) minimums" ?con] \<open>i \<notin> set ?con\<close> by (simp only: if_False)
      finally show ?thesis .
    qed
    have "map ((!) (shareWidths minimums ?rest ?r ?ws)) ?con = map ((!) minimums) ?con" by (rule map_cong [OF refl con])
    then have fixed: "sum_list (map ((!) (shareWidths minimums ?rest ?r ?ws)) ?con) = sum_list (map ((!) minimums) ?con)" by (simp only:)
    have "sum_list (map ((!) (shareWidths minimums ?rest ?r ?ws)) unresolved) = remaining"
      using level(4) fixed r sum_partition [of "(!) (shareWidths minimums ?rest ?r ?ws)" "\<lambda>i. minimums ! i > ?share" unresolved] by linarith
    then show ?thesis unfolding result using level(1,5) lower all others by (intro exI [of _ level]) auto
  qed
qed

lemma distribute_level:
  assumes "minimums \<noteq> []" "sum_list minimums < available"
  shows "\<exists>level. distributeTabWidths minimums available = map (\<lambda>m. max m level) minimums \<and> sum_list (distributeTabWidths minimums available) = available"
proof -
  let ?n = "length minimums" and ?ws = "distributeTabWidths minimums available"
  have ws: "?ws = shareWidths minimums [0..<?n] available (replicate ?n 0)" using assms by (simp add: distributeTabWidths_def)
  have whole: "map ((!) xs) [0..<length xs] = xs" for xs :: "real list" by (rule map_nth)
  obtain level where level: "\<forall>i\<in>set [0..<?n]. ?ws ! i = max (minimums ! i) level" "sum_list (map ((!) ?ws) [0..<?n]) = available" "length ?ws = ?n"
  proof -
    have "set [0..<?n] \<subseteq> {..<length (replicate ?n (0 :: real))}" by auto
    from shareWidths_level [OF _ distinct_upt this, of minimums available] show ?thesis
      using that assms whole [of minimums] unfolding ws by (metis length_replicate length_upt upt_eq_Nil_conv le_zero_eq length_0_conv)
  qed
  have "?ws = map (\<lambda>m. max m level) minimums" using level(1,3) by (intro nth_equalityI) auto
  moreover have "sum_list ?ws = available" using level(2,3) whole [of ?ws] by simp
  ultimately show ?thesis by blast
qed

section \<open>Windows\<close>

text \<open>Binary search for the end of a prefix.\<close>

lemma searchPages_prefix:
  assumes "low \<le> k" "k \<le> high" "high \<le> length pages"
    and "\<forall>i<length pages. before' (pages ! i) \<longleftrightarrow> i < k"
  shows "searchPages before' pages low high = k"
  using assms
proof (induction before' pages low high rule: searchPages.induct)
  case (1 before' pages low high)
  let ?m = "(low + high) div 2"
  show ?case
  proof (cases "low < high")
    case True
    then have m: "low \<le> ?m" "?m < high" by auto
    then have "before' (pages ! ?m) \<longleftrightarrow> ?m < k" using 1(5,6) by auto
    then show ?thesis
      using 1(1) [OF True refl] 1(2) [OF True refl] 1(3-6) True m
      by (cases "?m < k") (simp_all add: searchPages.simps [of before' pages low] Let_def)
  next
    case False
    then show ?thesis using 1(3,4) by (simp add: searchPages.simps [of before' pages low])
  qed
qed

text \<open>Nothing is found after the prefix.\<close>

lemma searchPages_past:
  "\<forall>i<high. low \<le> i \<longrightarrow> \<not> before' (pages ! i) \<Longrightarrow> low \<le> high \<Longrightarrow> searchPages before' pages low high = low"
proof (induction before' pages low high rule: searchPages.induct)
  case (1 before' pages low high)
  let ?m = "(low + high) div 2"
  show ?case
  proof (cases "low < high")
    case True
    then have m: "low \<le> ?m" "?m < high" by auto
    then have "\<not> before' (pages ! ?m)" using 1(3) by simp
    then show ?thesis using 1(2) [OF True refl] 1(3) True m by (simp add: searchPages.simps [of before' pages low] Let_def)
  qed (simp add: searchPages.simps [of before' pages low])
qed

text \<open>A property that holds up to some page and no further is that of a prefix.\<close>

lemma prefix_pages:
  assumes "\<And>i j. i \<le> j \<Longrightarrow> j < length xs \<Longrightarrow> P (xs ! j) \<Longrightarrow> P (xs ! i)"
  obtains k where "k \<le> length xs" "\<forall>i<length xs. P (xs ! i) \<longleftrightarrow> i < k"
proof
  let ?k = "length (takeWhile P xs)"
  show "?k \<le> length xs" by (rule length_takeWhile_le)
  show "\<forall>i<length xs. P (xs ! i) \<longleftrightarrow> i < ?k"
  proof (intro allI impI iffI)
    fix i assume i: "i < length xs" "P (xs ! i)"
    show "i < ?k"
    proof (rule ccontr)
      assume "\<not> i < ?k"
      then have "?k \<le> i" by simp
      then have "P (xs ! ?k)" using assms i by blast
      moreover have "\<not> P (xs ! ?k)" using \<open>?k \<le> i\<close> i(1) by (intro nth_length_takeWhile) simp
      ultimately show False by simp
    qed
  next
    fix i assume "i < length xs" "i < ?k"
    then show "P (xs ! i)" by (metis nth_mem set_takeWhileD takeWhile_nth)
  qed
qed

text \<open>The pages in order: tops and bottoms do not decrease.\<close>

definition pagesInOrder :: "PageBox list \<Rightarrow> bool" where
  "pagesInOrder pages \<longleftrightarrow>
     sorted_wrt (\<lambda>p q. pageTop p \<le> pageTop q \<and> pageTop p + pageHeight p \<le> pageTop q + pageHeight q) pages"

lemma window_exact:
  assumes "pagesInOrder pages"
  shows "case readerPageWindow pages t b of (first, end') \<Rightarrow> first \<le> end' \<and> end' \<le> length pages \<and>
    (\<forall>i<length pages. first \<le> i \<and> i < end' \<longleftrightarrow> t \<le> pageTop (pages ! i) + pageHeight (pages ! i) \<and> pageTop (pages ! i) \<le> b)"
proof -
  let ?above = "\<lambda>p. pageTop p + pageHeight p < t" and ?begun = "\<lambda>p. pageTop p \<le> b"
  have order: "pageTop (pages ! i) \<le> pageTop (pages ! j) \<and> pageTop (pages ! i) + pageHeight (pages ! i) \<le> pageTop (pages ! j) + pageHeight (pages ! j)"
    if "i \<le> j" "j < length pages" for i j
    using that assms by (cases "i = j") (auto simp: pagesInOrder_def sorted_wrt_iff_nth_less)
  obtain k where k: "k \<le> length pages" "\<forall>i<length pages. ?above (pages ! i) \<longleftrightarrow> i < k"
    by (rule prefix_pages [of pages ?above]) (use order in force)
  obtain m where m: "m \<le> length pages" "\<forall>i<length pages. ?begun (pages ! i) \<longleftrightarrow> i < m"
    by (rule prefix_pages [of pages ?begun]) (use order in force)
  have first: "searchPages ?above pages 0 (length pages) = k" by (rule searchPages_prefix) (use k in auto)
  have more: "searchPages ?begun pages k (length pages) = max k m"
  proof (cases "k \<le> m")
    case True
    then show ?thesis by (subst searchPages_prefix [of k m]) (use m True in auto)
  next
    case False
    then show ?thesis using searchPages_past [of "length pages" k ?begun pages] m(2) k(1) by auto
  qed
  have "readerPageWindow pages t b = (k, max k m)" by (simp add: readerPageWindow_def Let_def first more)
  then show ?thesis using k m by (auto simp: not_less)
qed

section \<open>Cards\<close>

text \<open>A card that fits keeps the margin of the viewport at its sides.\<close>

lemma card_inside:
  assumes "cardWidth + 2 * margin \<le> viewportWidth" "cardHeight + 2 * margin \<le> viewportHeight" "margin \<le> anchorBottom anchor + gap"
  shows "case anchoredFloatingCardPosition anchor (viewportWidth, viewportHeight) (cardWidth, cardHeight) gap margin of (x, y) \<Rightarrow>
    margin \<le> x \<and> x + cardWidth \<le> viewportWidth - margin \<and> margin \<le> y \<and> y + cardHeight \<le> viewportHeight - margin"
  using assms by (auto simp: anchoredFloatingCardPosition_def Let_def min_def max_def)

text \<open>Pages of at most the widest width lie inside the content, with equal space at both sides.\<close>

lemma page_centred:
  assumes "pageWidth \<le> widest" "0 \<le> padding"
  shows "let g = readerHorizontalGeometry viewportWidth widest padding inset in
    padding \<le> pageLeft g pageWidth \<and> pageLeft g pageWidth + pageWidth + pageLeft g pageWidth = baseContentWidth g \<and>
    baseContentWidth g \<le> contentWidth g"
  using assms by (auto simp: readerHorizontalGeometry_def Let_def field_simps max_def)

text \<open>At most the timer of the bridge is armed, so a leave that is followed by a return never hides the card.\<close>

definition oneTimer :: "HoverCards \<Rightarrow> bool" where
  "oneTimer s \<longleftrightarrow>
     armedTimers s = (case exitTimer s of None \<Rightarrow> [] | Some i \<Rightarrow> [i]) \<and> (\<forall>i\<in>set (armedTimers s). i < nextTimer s)"

lemma one_timer: "oneTimer s \<Longrightarrow> oneTimer (cancelExit s)" "oneTimer s \<Longrightarrow> oneTimer (scheduleExit s)" "oneTimer s \<Longrightarrow> oneTimer (fireExit i s)"
  by (auto simp: oneTimer_def cancelExit_def scheduleExit_def fireExit_def Let_def split: option.splits)

lemma cancelled_exit: "oneTimer s \<Longrightarrow> exitsRun (fireExit i (cancelExit s)) = exitsRun s"
  by (auto simp: oneTimer_def cancelExit_def fireExit_def split: option.splits)

end
