(* ===== verification/KeyProperties.thy ===== *)
theory KeyProperties
  imports PropertyGrammar DatabaseView ReaderLayout
begin

text \<open>Properties of the library of Key: formulas of properties, the database view, and the layout of the reader.\<close>

section \<open>Formulas of properties\<close>

text \<open>C30: The interpreter, which computes while it parses, gives the text of every well-formed formula tree (with parentheses
  only where precedence and left associativity ask for them) the value of the tree, its errors included; such a value is
  within the size limits. It reports a limit only when the formula exceeds it: always when the text has more than 4,096
  characters, or else more than 512 tokens; otherwise the depth when expressions nest deeper than 32, and a size when some
  part of the formula has a text of more than 65,536 characters or a number that is not finite as its value.\<close>

theorem formula_value:
  assumes "wellFormed f"
  shows "let r = evaluatePropertyFormula js (formulaText f) props in
    if 4096 < length (formulaText f) then r = fail ''Formula exceeds 4,096 characters''
    else if 512 < length (printed 0 f) then r = fail ''Formula is too complex''
    else r = meaning js props f \<and> (\<forall>v. r \<noteq> Inr v \<or> sizeError v = None) \<or> (\<exists>e\<in>limitErrors js props f. r = Inl e)"
  unfolding Let_def
  using formula_tokens_agree [OF assms, of js props] formula_too_long [of f js props] formula_too_complex [OF assms, of js props]
    evaluated_sizes [of js "formulaText f" props]
  by (auto simp: agreesWithin_def)

definition sampleFormulaJs :: FormulaJs where
  "sampleFormulaJs = \<lparr>numText = (\<lambda>_. ''n''), textNum = (\<lambda>_. Finite 0), lowerText = id, upperText = id, unitText = (\<lambda>_. [])\<rparr>"

definition sampleFormula :: Formula where
  "sampleFormula =
     Binary ''||'' (Binary ''&&'' (Atom ''true'') (Signed ''!'' (Binary ''||'' (Atom ''false'') (Atom ''true'')))) (Atom ''[Done]'')"

definition sampleProps :: Properties where
  "sampleProps = [(''Done'', Scalar (FBool True))]"

lemma formula_value_witness:
  "formulaText sampleFormula = ''true && ! ( false || true ) || [Done]'' \<and>
   evaluatePropertyFormula sampleFormulaJs (formulaText sampleFormula) sampleProps = meaning sampleFormulaJs sampleProps sampleFormula \<and>
   meaning sampleFormulaJs sampleProps sampleFormula = Inr (FBool True)"
proof (intro conjI)
  show shown: "formulaText sampleFormula = ''true && ! ( false || true ) || [Done]''" by code_simp
  show "meaning sampleFormulaJs sampleProps sampleFormula = Inr (FBool True)" by code_simp
  have "list_all (\<lambda>g. case meaning sampleFormulaJs sampleProps g of Inr v \<Rightarrow> sizeError v = None | Inl e \<Rightarrow> True) (subformulas sampleFormula)"
    "nesting 0 sampleFormula < 32" by code_simp+
  then have "limitErrors sampleFormulaJs sampleProps sampleFormula = {}" by (force simp: limitErrors_def list_all_iff)
  moreover have "wellFormed sampleFormula" "length (printed 0 sampleFormula) \<le> 512" by code_simp+
  ultimately show "evaluatePropertyFormula sampleFormulaJs (formulaText sampleFormula) sampleProps = meaning sampleFormulaJs sampleProps sampleFormula"
    using formula_value [of sampleFormula sampleFormulaJs sampleProps] shown by (simp add: Let_def)
qed

section \<open>The database view\<close>

text \<open>Columns that are resolved and saved resolve to themselves: order, widths, hidden and pinned columns survive.\<close>

theorem settings_roundtrip:
  assumes "distinct (map colId columns)"
  shows "resolveColumns columns (toSettings (resolveColumns columns settings)) = resolveColumns columns settings"
  by (rule resolve_restored [OF assms resolve_complete resolve_pinned])

definition sampleColumn :: "string \<Rightarrow> bool \<Rightarrow> ColumnDefaults" where
  "sampleColumn i pin = \<lparr>colId = i, colWidth = 100, colHidden = None, colPinned = Some pin\<rparr>"

lemma settings_roundtrip_witness:
  "let columns = [sampleColumn ''title'' True, sampleColumn ''author'' False] in
   resolveColumns columns (toSettings (resolveColumns columns [])) = resolveColumns columns []"
  unfolding Let_def by (rule settings_roundtrip) (simp add: sampleColumn_def)

text \<open>C31: Moving a column to an index of the list: after the settings are saved and resolved again, it stands between
  the other columns that were before this index and those that were not, all of them with their order, widths, hidden
  and pinned states as they were, and itself with its width and hidden state; it is pinned exactly when a pinned column
  comes after it, or it was pinned and all columns before it are. So the pinned columns stay first.\<close>

theorem move_column_exact:
  assumes "distinct (map colId columns)" "from' < length (resolveColumns columns settings)"
  shows "let rs = resolveColumns columns settings; x = rs ! from';
             moved = resolveColumns columns (moveColumn rs (resolvedId x) to);
             before = filter (\<lambda>r. resolvedId r \<noteq> resolvedId x) (take (nat to) rs);
             after = filter (\<lambda>r. resolvedId r \<noteq> resolvedId x) (drop (nat to) rs)
         in moved = before @ x\<lparr>pinned := (list_ex pinned after \<or> pinned x \<and> list_all pinned before)\<rparr> # after \<and>
            pinnedColumnsFirst moved"
  unfolding Let_def using moved_resolved [OF assms] movedColumns_exact [OF moved_resolved(2) [OF assms] assms(2)] by simp

lemma move_column_exact_witness:
  "let columns = [sampleColumn ''title'' True, sampleColumn ''author'' False, sampleColumn ''year'' False];
       rs = resolveColumns columns [] in
   map resolvedId (resolveColumns columns (moveColumn rs (resolvedId (rs ! 2)) 0)) = [''year'', ''title'', ''author'']"
proof -
  let ?columns = "[sampleColumn ''title'' True, sampleColumn ''author'' False, sampleColumn ''year'' False]"
  have w: "clampWidth 100 = 100"
    using mathRound_int [of 100] by (simp add: clampWidth_def MIN_COLUMN_def MAX_COLUMN_def)
  have rs: "resolveColumns ?columns [] = map withDefaults ?columns"
    by (simp add: resolveColumns_def addColumn_def withDefaults_def sampleColumn_def splice_def Let_def)
  have "distinct (map colId ?columns)" by (simp add: sampleColumn_def)
  from move_column_exact [OF this, of 2 "[]" 0] show ?thesis
    unfolding Let_def rs by (simp add: withDefaults_def sampleColumn_def splice_def moveTarget_def)
qed

section \<open>The reader\<close>

text \<open>C32: The widths of tabs: the readable minimums when they do not fit, and otherwise the available width is used up
  exactly, every tab getting the larger of its minimum and one level that is the same for all.\<close>

theorem tab_widths_fair:
  "if minimums = [] \<or> available \<le> sum_list minimums then distributeTabWidths minimums available = minimums
   else \<exists>level. distributeTabWidths minimums available = map (\<lambda>m. max m level) minimums \<and>
          sum_list (distributeTabWidths minimums available) = available"
proof (cases "minimums = [] \<or> available \<le> sum_list minimums")
  case True
  then show ?thesis by (auto simp: distributeTabWidths_def)
next
  case False
  then show ?thesis using distribute_level [of minimums available] by simp
qed

text \<open>C33: The window of pages is exactly the pages that intersect the viewport, for pages whose tops and bottoms do not
  decrease.\<close>

theorem page_window_exact:
  assumes "pagesInOrder pages"
  shows "case readerPageWindow pages t b of (first, end') \<Rightarrow> first \<le> end' \<and> end' \<le> length pages \<and>
    (\<forall>i<length pages. first \<le> i \<and> i < end' \<longleftrightarrow> t \<le> pageTop (pages ! i) + pageHeight (pages ! i) \<and> pageTop (pages ! i) \<le> b)"
  by (rule window_exact [OF assms])

lemma page_window_exact_witness:
  "let pages = map (\<lambda>y. \<lparr>pageTop = y, pageHeight = 90\<rparr>) [0, 100, 200, 300] in
   case readerPageWindow pages 120 210 of (first, end') \<Rightarrow> first \<le> end' \<and> end' \<le> length pages \<and>
    (\<forall>i<length pages. first \<le> i \<and> i < end' \<longleftrightarrow> 120 \<le> pageTop (pages ! i) + pageHeight (pages ! i) \<and> pageTop (pages ! i) \<le> 210)"
proof -
  let ?pages = "map (\<lambda>y. \<lparr>pageTop = y, pageHeight = 90\<rparr>) [0, 100, 200, 300]"
  have "pagesInOrder ?pages" by (simp add: pagesInOrder_def)
  from page_window_exact [OF this, of 120 210] show ?thesis unfolding Let_def .
qed

end
