(* ===== verification/BoundedRegex.thy ===== *)
theory BoundedRegex
  imports JsText Prelude
begin

text \<open>
  The regular expressions of layout scripts (\<open>apps/key-office/apps/slides/src/renderer/ai/bounded-regex.ts\<close>, whole file):
  the parser, and the backtracking matcher with its budget of steps and its limit of nested calls. Texts are lists of
  UTF-16 code units, as numbers. The case mappings of Unicode are a parameter (\<open>CaseJs\<close>). A parser takes what is left of
  the source, and continuations of the matcher get the position, the depth of calls and the budget that is left.
\<close>

section \<open>Patterns\<close>

datatype PredefName = Digits | NonDigits | WordUnits | NonWordUnits | Spaces | NonSpaces

datatype AnchorAt = AtStart | AtEnd | AtWord | AtNonWord

text \<open>A maximum of \<open>None\<close> is \<open>Infinity\<close>.\<close>

datatype RxNode =
    RxSeq "RxNode list"
  | RxAlt "RxNode list"
  | RxChar nat
  | RxDot
  | RxClass bool "nat list" "(nat \<times> nat) list" "PredefName list"
  | RxPredef PredefName
  | RxAnchor AnchorAt
  | RxRepeat nat "nat option" RxNode

datatype RxError = RxUnavailable string | RxBadFlag nat | RxSyntax | RxTooLong | RxBudget | RxFuel

record CaseJs =
  lowerUnit :: "nat \<Rightarrow> nat list"
  upperUnit :: "nat \<Rightarrow> nat list"

definition MAX_PATTERN_LENGTH :: nat where "MAX_PATTERN_LENGTH = 500"
definition MAX_REPEAT_COUNT :: nat where "MAX_REPEAT_COUNT = 1000"
definition MAX_MATCH_STEPS :: nat where "MAX_MATCH_STEPS = 1000000"
definition MAX_MATCH_DEPTH :: nat where "MAX_MATCH_DEPTH = 2000"

section \<open>Code units\<close>

definition isLineTerminator :: "nat \<Rightarrow> bool" where
  "isLineTerminator c = (c = 10 \<or> c = 13 \<or> c = 0x2028 \<or> c = 0x2029)"

definition digitUnit :: "nat \<Rightarrow> bool" where "digitUnit c = (48 \<le> c \<and> c \<le> 57)"
definition letterUnit :: "nat \<Rightarrow> bool" where "letterUnit c = (65 \<le> c \<and> c \<le> 90 \<or> 97 \<le> c \<and> c \<le> 122)"
definition wordUnit :: "nat \<Rightarrow> bool" where "wordUnit c = (digitUnit c \<or> letterUnit c \<or> c = 95)"

text \<open>\<open>/\s/\<close>: white space and line ends.\<close>

definition spaceUnit :: "nat \<Rightarrow> bool" where
  "spaceUnit c =
     (9 \<le> c \<and> c \<le> 13 \<or> c = 32 \<or> c = 0xA0 \<or> c = 0x1680 \<or> 0x2000 \<le> c \<and> c \<le> 0x200A \<or>
      c = 0x2028 \<or> c = 0x2029 \<or> c = 0x202F \<or> c = 0x205F \<or> c = 0x3000 \<or> c = 0xFEFF)"

fun predefMatch :: "PredefName \<Rightarrow> nat \<Rightarrow> bool" where
  "predefMatch Digits c = digitUnit c"
| "predefMatch NonDigits c = (\<not> digitUnit c)"
| "predefMatch WordUnits c = wordUnit c"
| "predefMatch NonWordUnits c = (\<not> wordUnit c)"
| "predefMatch Spaces c = spaceUnit c"
| "predefMatch NonSpaces c = (\<not> spaceUnit c)"

definition hexUnit :: "nat \<Rightarrow> nat option" where
  "hexUnit c =
     (if digitUnit c then Some (c - 48)
      else if 65 \<le> c \<and> c \<le> 70 then Some (c - 55)
      else if 97 \<le> c \<and> c \<le> 102 then Some (c - 87)
      else None)"

fun hexNumber :: "nat \<Rightarrow> nat list \<Rightarrow> nat option" where
  "hexNumber n [] = Some n"
| "hexNumber n (c # cs) = (case hexUnit c of Some d \<Rightarrow> hexNumber (n * 16 + d) cs | None \<Rightarrow> None)"

fun decimalNumber :: "nat \<Rightarrow> nat list \<Rightarrow> nat" where
  "decimalNumber n [] = n"
| "decimalNumber n (c # cs) = decimalNumber (n * 10 + (c - 48)) cs"

section \<open>Parsing\<close>

type_synonym RxParsed = "RxError + RxNode \<times> nat list"

text \<open>An escape, after its backslash.\<close>

definition hexEscape :: "nat \<Rightarrow> nat list \<Rightarrow> RxParsed" where
  "hexEscape n s =
     (case (if length (take n s) = n then hexNumber 0 (take n s) else None) of
        Some c \<Rightarrow> Inr (RxChar c, drop n s)
      | None \<Rightarrow> Inl RxSyntax)"

definition parseEscape :: "bool \<Rightarrow> nat list \<Rightarrow> RxParsed" where
  "parseEscape inClass s =
     (case s of
        [] \<Rightarrow> Inl RxSyntax
      | ch # rest \<Rightarrow>
          if ch = code CHR ''d'' then Inr (RxPredef Digits, rest)
          else if ch = code CHR ''D'' then Inr (RxPredef NonDigits, rest)
          else if ch = code CHR ''w'' then Inr (RxPredef WordUnits, rest)
          else if ch = code CHR ''W'' then Inr (RxPredef NonWordUnits, rest)
          else if ch = code CHR ''s'' then Inr (RxPredef Spaces, rest)
          else if ch = code CHR ''S'' then Inr (RxPredef NonSpaces, rest)
          else if ch = code CHR ''b'' then Inr (if inClass then RxChar 8 else RxAnchor AtWord, rest)
          else if ch = code CHR ''B'' then (if inClass then Inl RxSyntax else Inr (RxAnchor AtNonWord, rest))
          else if ch = code CHR ''n'' then Inr (RxChar 10, rest)
          else if ch = code CHR ''r'' then Inr (RxChar 13, rest)
          else if ch = code CHR ''t'' then Inr (RxChar 9, rest)
          else if ch = code CHR ''f'' then Inr (RxChar 12, rest)
          else if ch = code CHR ''v'' then Inr (RxChar 11, rest)
          else if ch = code CHR ''0'' then Inr (RxChar 0, rest)
          else if ch = code CHR ''x'' then hexEscape 2 rest
          else if ch = code CHR ''u'' then hexEscape 4 rest
          else if ch = code CHR ''c'' then
            (case rest of
               l # rest' \<Rightarrow> if letterUnit l then Inr (RxChar ((if 97 \<le> l then l - 32 else l) - 64), rest') else Inl RxSyntax
             | [] \<Rightarrow> Inl RxSyntax)
          else if ch = code CHR ''k'' then Inl (RxUnavailable ''named backreference'')
          else if ch = code CHR ''p'' \<or> ch = code CHR ''P'' then Inl (RxUnavailable ''unicode property escape'')
          else if 49 \<le> ch \<and> ch \<le> 57 then Inl (RxUnavailable ''backreference'')
          else if letterUnit ch then Inl RxSyntax
          else Inr (RxChar ch, rest))"

text \<open>A member of a class, which is not empty: a predefined set or one unit. An escape in a class is nothing else.\<close>

definition classMember :: "nat list \<Rightarrow> RxError + (PredefName + nat) \<times> nat list" where
  "classMember s =
     (if hd s = code CHR 0x5C then
        bindE (parseEscape True (tl s)) (\<lambda>(node, rest).
          case node of
            RxPredef name \<Rightarrow> Inr (Inl name, rest)
          | RxChar c \<Rightarrow> Inr (Inr c, rest)
          | _ \<Rightarrow> Inl RxSyntax)
      else Inr (Inr (hd s), tl s))"

definition startsRange :: "nat list \<Rightarrow> bool" where
  "startsRange s = (case s of c # d # _ \<Rightarrow> c = code CHR ''-'' \<and> d \<noteq> code CHR '']'' | _ \<Rightarrow> False)"

lemma hexEscape_rest: "hexEscape n s = Inr (node, rest) \<Longrightarrow> length rest \<le> length s"
  by (auto simp: hexEscape_def split: option.splits if_splits)

lemma parseEscape_rest: "parseEscape inClass s = Inr (node, rest) \<Longrightarrow> length rest < length s"
  by (auto simp: parseEscape_def le_imp_less_Suc dest!: hexEscape_rest split: list.splits if_splits)

lemma classMember_rest: "s \<noteq> [] \<Longrightarrow> classMember s = Inr (x, rest) \<Longrightarrow> length rest < length s"
proof -
  assume s: "s \<noteq> []" and m: "classMember s = Inr (x, rest)"
  show ?thesis
  proof (cases "hd s = code CHR 0x5C")
    case True
    with m obtain node rest' where e: "parseEscape True (tl s) = Inr (node, rest')"
      "(case node of RxPredef name \<Rightarrow> Inr (Inl name, rest') | RxChar c \<Rightarrow> Inr (Inr c, rest') | _ \<Rightarrow> Inl RxSyntax) = Inr (x, rest)"
      by (auto simp: classMember_def res_simps)
    then have "rest' = rest" by (cases node) auto
    with parseEscape_rest [OF e(1)] show ?thesis by (cases s) simp_all
  next
    case False
    with s m show ?thesis by (cases s) (auto simp: classMember_def)
  qed
qed

function classLoop :: "nat list \<Rightarrow> (nat \<times> nat) list \<Rightarrow> PredefName list \<Rightarrow> nat list
    \<Rightarrow> RxError + (nat list \<times> (nat \<times> nat) list \<times> PredefName list) \<times> nat list" where
  "classLoop singles ranges predefs s =
     (if s = [] then Inl RxSyntax
      else if hd s = code CHR '']'' then Inr ((singles, ranges, predefs), tl s)
      else case classMember s of
        Inl e \<Rightarrow> Inl e
      | Inr (Inl name, rest) \<Rightarrow> classLoop singles ranges (predefs @ [name]) rest
      | Inr (Inr lo, rest) \<Rightarrow>
          if startsRange rest then
            (case classMember (tl rest) of
               Inl e \<Rightarrow> Inl e
             | Inr (Inl name, rest') \<Rightarrow> Inl RxSyntax
             | Inr (Inr hi, rest') \<Rightarrow>
                 if hi < lo then Inl RxSyntax else classLoop singles (ranges @ [(lo, hi)]) predefs rest')
          else classLoop (singles @ [lo]) ranges predefs rest)"
  by pat_completeness auto
termination
proof (relation "measure (\<lambda>(_, _, _, s). length s)", goal_cases)
  case (2 singles ranges predefs s b x y a)
  then show ?case by (auto dest: classMember_rest)
next
  case (3 singles ranges predefs s b x y ba b2 xa ya bb)
  then obtain c d u where "y = c # d # u" by (auto simp: startsRange_def split: list.splits)
  with 3 classMember_rest [of s "Inr ba" y] classMember_rest [of "d # u" "Inr bb" ya] show ?case by auto
next
  case (4 singles ranges predefs s b x y ba)
  then show ?case by (auto dest: classMember_rest)
qed simp

declare classLoop.simps [simp del]

text \<open>A class, after its opening bracket.\<close>

definition parseClass :: "nat list \<Rightarrow> RxParsed" where
  "parseClass s =
     (let negated = (s \<noteq> [] \<and> hd s = code CHR ''^'') in
      bindE (classLoop [] [] [] (if negated then tl s else s)) (\<lambda>((singles, ranges, predefs), rest).
        Inr (RxClass negated singles ranges predefs, rest)))"

text \<open>A group, after its opening parenthesis; \<open>g\<close> parses an alternation.\<close>

definition groupStart :: "nat list \<Rightarrow> RxError + nat list" where
  "groupStart s =
     (if s \<noteq> [] \<and> hd s = code CHR ''?'' then
        let next' = nthOpt s 1; after = nthOpt s 2 in
        if next' = Some (code CHR '':'') then Inr (drop 2 s)
        else if next' = Some (code CHR ''<'') \<and> after \<noteq> Some (code CHR ''='') \<and> after \<noteq> Some (code CHR ''!'') then
          (case dropWhile (\<lambda>c. c \<noteq> code CHR ''>'') (drop 2 s) of
             [] \<Rightarrow> Inl RxSyntax
           | _ # rest \<Rightarrow> Inr rest)
        else if next' = Some (code CHR ''='') \<or> next' = Some (code CHR ''!'') then Inl (RxUnavailable ''lookahead'')
        else Inl (RxUnavailable ''lookbehind'')
      else Inr s)"

definition parseGroup :: "(nat list \<Rightarrow> RxParsed) \<Rightarrow> nat list \<Rightarrow> RxParsed" where
  "parseGroup g s =
     bindE (groupStart s) (\<lambda>s'.
       bindE (g s') (\<lambda>(inner, rest).
         case rest of
           c # rest' \<Rightarrow> if c = code CHR '')'' then Inr (inner, rest') else Inl RxSyntax
         | [] \<Rightarrow> Inl RxSyntax))"

definition parseAtom :: "(nat list \<Rightarrow> RxParsed) \<Rightarrow> nat list \<Rightarrow> RxParsed" where
  "parseAtom g s =
     (case s of
        [] \<Rightarrow> Inl RxSyntax
      | ch # rest \<Rightarrow>
          if ch = code CHR ''^'' then Inr (RxAnchor AtStart, rest)
          else if ch = code CHR ''$'' then Inr (RxAnchor AtEnd, rest)
          else if ch = code CHR ''.'' then Inr (RxDot, rest)
          else if ch = code CHR ''('' then parseGroup g rest
          else if ch = code CHR ''['' then parseClass rest
          else if ch = code CHR 0x5C then parseEscape False rest
          else if ch \<in> set (map code '')*+?'') then Inl RxSyntax
          else Inr (RxChar ch, rest))"

text \<open>\<open>/^\{(\d+)(?:,(\d*))?\}/\<close>, after the brace: the bounds and what follows.\<close>

definition braces :: "nat list \<Rightarrow> (nat \<times> nat option \<times> nat list) option" where
  "braces s =
     (let ds = takeWhile digitUnit s; n = decimalNumber 0 ds in
      if ds = [] then None
      else case dropWhile digitUnit s of
        [] \<Rightarrow> None
      | c # rest \<Rightarrow>
          if c = code CHR ''}'' then Some (n, Some n, rest)
          else if c = code CHR '','' then
            (let es = takeWhile digitUnit rest in
             case dropWhile digitUnit rest of
               [] \<Rightarrow> None
             | d # rest' \<Rightarrow>
                 if d = code CHR ''}'' then Some (n, if es = [] then None else Some (decimalNumber 0 es), rest') else None)
          else None)"

definition below :: "nat \<Rightarrow> nat option \<Rightarrow> bool" where
  "below n most = (case most of None \<Rightarrow> True | Some m \<Rightarrow> n < m)"

definition quantifier :: "nat list \<Rightarrow> RxError + ((nat \<times> nat option) option \<times> nat list)" where
  "quantifier s =
     (case s of
        [] \<Rightarrow> Inr (None, s)
      | ch # rest \<Rightarrow>
          if ch = code CHR ''*'' then Inr (Some (0, None), rest)
          else if ch = code CHR ''+'' then Inr (Some (1, None), rest)
          else if ch = code CHR ''?'' then Inr (Some (0, Some 1), rest)
          else if ch = code CHR ''{'' then
            (case braces rest of
               None \<Rightarrow> Inr (None, s)
             | Some (least, most, rest') \<Rightarrow>
                 if (case most of Some m \<Rightarrow> m < least | None \<Rightarrow> False) then Inl RxSyntax
                 else if least > MAX_REPEAT_COUNT \<or> (case most of Some m \<Rightarrow> m > MAX_REPEAT_COUNT | None \<Rightarrow> False)
                 then Inl (RxUnavailable ''repetition beyond {1000}'')
                 else Inr (Some (least, most), rest'))
          else Inr (None, s))"

definition parseQuantifier :: "nat list \<Rightarrow> RxError + ((nat \<times> nat option) option \<times> nat list)" where
  "parseQuantifier s =
     bindE (quantifier s) (\<lambda>(q, rest).
       case q of
         None \<Rightarrow> Inr (None, rest)
       | Some _ \<Rightarrow>
           let rest' = (if rest \<noteq> [] \<and> hd rest = code CHR ''?'' then tl rest else rest) in
           if rest' \<noteq> [] \<and> hd rest' \<in> set (map code ''*+?'') then Inl RxSyntax else Inr (q, rest'))"

definition parseQuantified :: "(nat list \<Rightarrow> RxParsed) \<Rightarrow> nat list \<Rightarrow> RxParsed" where
  "parseQuantified g s =
     bindE (parseAtom g s) (\<lambda>(atom, rest).
       bindE (parseQuantifier rest) (\<lambda>(q, rest').
         case q of
           None \<Rightarrow> Inr (atom, rest')
         | Some (least, most) \<Rightarrow>
             (case atom of RxAnchor _ \<Rightarrow> Inl RxSyntax | _ \<Rightarrow> Inr (RxRepeat least most atom, rest'))))"

text \<open>Loops, with a bound of their rounds.\<close>

fun sequenceLoop :: "(nat list \<Rightarrow> RxParsed) \<Rightarrow> nat \<Rightarrow> nat list \<Rightarrow> RxError + RxNode list \<times> nat list" where
  "sequenceLoop g n s =
     (if s = [] \<or> hd s = code CHR ''|'' \<or> hd s = code CHR '')'' then Inr ([], s)
      else case n of
        0 \<Rightarrow> Inl RxFuel
      | Suc n' \<Rightarrow>
          bindE (parseQuantified g s) (\<lambda>(part, rest). bindE (sequenceLoop g n' rest) (\<lambda>(parts, rest'). Inr (part # parts, rest'))))"

declare sequenceLoop.simps [simp del]

definition parseSequence :: "(nat list \<Rightarrow> RxParsed) \<Rightarrow> nat list \<Rightarrow> RxParsed" where
  "parseSequence g s =
     bindE (sequenceLoop g (length s) s) (\<lambda>(parts, rest). Inr (case parts of [p] \<Rightarrow> p | _ \<Rightarrow> RxSeq parts, rest))"

fun optionLoop :: "(nat list \<Rightarrow> RxParsed) \<Rightarrow> nat \<Rightarrow> nat list \<Rightarrow> RxError + RxNode list \<times> nat list" where
  "optionLoop g n s =
     (case s of
        [] \<Rightarrow> Inr ([], s)
      | c # rest \<Rightarrow>
          if c \<noteq> code CHR ''|'' then Inr ([], s)
          else case n of
            0 \<Rightarrow> Inl RxFuel
          | Suc n' \<Rightarrow>
              bindE (parseSequence g rest) (\<lambda>(part, rest'). bindE (optionLoop g n' rest') (\<lambda>(parts, rest''). Inr (part # parts, rest''))))"

declare optionLoop.simps [simp del]

definition alternation :: "(nat list \<Rightarrow> RxParsed) \<Rightarrow> nat list \<Rightarrow> RxParsed" where
  "alternation g s =
     bindE (parseSequence g s) (\<lambda>(part, rest).
       bindE (optionLoop g (length rest) rest) (\<lambda>(parts, rest').
         Inr (if parts = [] then part else RxAlt (part # parts), rest')))"

text \<open>The number bounds the nesting of groups.\<close>

fun parseAlternation :: "nat \<Rightarrow> nat list \<Rightarrow> RxParsed" where
  "parseAlternation 0 s = Inl RxFuel"
| "parseAlternation (Suc n) s = alternation (parseAlternation n) s"

record RxFlags =
  ignoreCase :: bool
  multiline :: bool
  dotAll :: bool

record BoundedRegex =
  rxFlags :: RxFlags
  rxRoot :: RxNode

definition rxFlagsOf :: "nat list \<Rightarrow> RxFlags" where
  "rxFlagsOf flags =
     \<lparr>ignoreCase = code CHR ''i'' \<in> set flags, multiline = code CHR ''m'' \<in> set flags, dotAll = code CHR ''s'' \<in> set flags\<rparr>"

definition compileBoundedRegex :: "nat list \<Rightarrow> nat list \<Rightarrow> RxError + BoundedRegex" where
  "compileBoundedRegex source flags =
     (case find (\<lambda>f. f \<notin> set (map code ''gimsd'')) flags of
        Some f \<Rightarrow> Inl (RxBadFlag f)
      | None \<Rightarrow>
          if length source > MAX_PATTERN_LENGTH then Inl RxTooLong
          else bindE (parseAlternation (Suc (length source)) source) (\<lambda>(node, rest).
            if rest \<noteq> [] then Inl RxSyntax else Inr \<lparr>rxFlags = rxFlagsOf flags, rxRoot = node\<rparr>))"

section \<open>Single units\<close>

definition charEq :: "CaseJs \<Rightarrow> RxFlags \<Rightarrow> nat \<Rightarrow> nat \<Rightarrow> bool" where
  "charEq js flags a b = (a = b \<or> ignoreCase flags \<and> lowerUnit js a = lowerUnit js b)"

definition codeMatches :: "nat list \<Rightarrow> (nat \<times> nat) list \<Rightarrow> nat \<Rightarrow> bool" where
  "codeMatches singles ranges c = (c \<in> set singles \<or> list_ex (\<lambda>(lo, hi). lo \<le> c \<and> c \<le> hi) ranges)"

text \<open>The other case of a unit, when it is one unit and different.\<close>

definition otherCase :: "(nat \<Rightarrow> bool) \<Rightarrow> nat list \<Rightarrow> nat \<Rightarrow> bool" where
  "otherCase matches' us c = (us \<noteq> [c] \<and> length us = 1 \<and> matches' (hd us))"

definition classMatch :: "CaseJs \<Rightarrow> RxFlags \<Rightarrow> bool \<Rightarrow> nat list \<Rightarrow> (nat \<times> nat) list \<Rightarrow> PredefName list \<Rightarrow> nat \<Rightarrow> bool" where
  "classMatch js flags negated singles ranges predefs c =
     (let direct = (codeMatches singles ranges c \<or> list_ex (\<lambda>name. predefMatch name c) predefs);
          hit = (if \<not> direct \<and> ignoreCase flags then
                   otherCase (codeMatches singles ranges) (lowerUnit js c) c \<or> otherCase (codeMatches singles ranges) (upperUnit js c) c
                 else direct)
      in if negated then \<not> hit else hit)"

fun singleMatch :: "CaseJs \<Rightarrow> RxFlags \<Rightarrow> RxNode \<Rightarrow> nat \<Rightarrow> bool" where
  "singleMatch js flags (RxChar ch) c = charEq js flags c ch"
| "singleMatch js flags RxDot c = (dotAll flags \<or> \<not> isLineTerminator c)"
| "singleMatch js flags (RxPredef name) c = predefMatch name c"
| "singleMatch js flags (RxClass negated singles ranges predefs) c = classMatch js flags negated singles ranges predefs c"
| "singleMatch js flags _ c = False"

fun isSingle :: "RxNode \<Rightarrow> bool" where
  "isSingle (RxChar _) = True"
| "isSingle RxDot = True"
| "isSingle (RxPredef _) = True"
| "isSingle (RxClass _ _ _ _) = True"
| "isSingle _ = False"

definition wordAt :: "nat option \<Rightarrow> bool" where
  "wordAt c = (case c of Some u \<Rightarrow> wordUnit u | None \<Rightarrow> False)"

definition unitBefore :: "nat list \<Rightarrow> nat \<Rightarrow> nat option" where
  "unitBefore input p = (if p = 0 then None else nthOpt input (p - 1))"

definition lineEndAt :: "nat option \<Rightarrow> bool" where
  "lineEndAt c = (case c of Some u \<Rightarrow> isLineTerminator u | None \<Rightarrow> False)"

fun anchorHolds :: "RxFlags \<Rightarrow> nat list \<Rightarrow> AnchorAt \<Rightarrow> nat \<Rightarrow> bool" where
  "anchorHolds flags input AtStart p = (p = 0 \<or> multiline flags \<and> lineEndAt (unitBefore input p))"
| "anchorHolds flags input AtEnd p = (p = length input \<or> multiline flags \<and> lineEndAt (nthOpt input p))"
| "anchorHolds flags input AtWord p = (wordAt (unitBefore input p) \<noteq> wordAt (nthOpt input p))"
| "anchorHolds flags input AtNonWord p = (wordAt (unitBefore input p) = wordAt (nthOpt input p))"

fun startsAnchored :: "RxNode \<Rightarrow> bool" where
  "startsAnchored (RxAnchor a) = (a = AtStart)"
| "startsAnchored (RxSeq parts) = (case parts of [] \<Rightarrow> False | p # _ \<Rightarrow> startsAnchored p)"
| "startsAnchored (RxAlt options) = list_all startsAnchored options"
| "startsAnchored (RxRepeat least most inner) = (1 \<le> least \<and> startsAnchored inner)"
| "startsAnchored _ = False"

section \<open>Matching\<close>

text \<open>The answer with the budget that is left, or the error of an exceeded budget.\<close>

type_synonym Outcome = "RxError + bool \<times> nat"
type_synonym Cont = "nat \<Rightarrow> nat \<Rightarrow> nat \<Rightarrow> Outcome"

definition charge :: "nat \<Rightarrow> (nat \<Rightarrow> Outcome) \<Rightarrow> Outcome" where
  "charge budget k = (if budget = 0 then Inl RxBudget else k (budget - 1))"

text \<open>\<open>if (a) return true; b\<close>.\<close>

definition orTry :: "Outcome \<Rightarrow> (nat \<Rightarrow> Outcome) \<Rightarrow> Outcome" where
  "orTry r k = bindE r (\<lambda>(b, budget). if b then Inr (True, budget) else k budget)"

text \<open>A call of \<open>match\<close>: a step, and one level deeper.\<close>

definition frame :: "Cont \<Rightarrow> Cont" where
  "frame m p depth budget =
     charge budget (\<lambda>budget'. if depth + 1 > MAX_MATCH_DEPTH then Inl RxBudget else m p (depth + 1) budget')"

text \<open>The repetition of a single unit: forward as far as possible, and then back.\<close>

function runForward :: "(nat \<Rightarrow> bool) \<Rightarrow> nat list \<Rightarrow> nat option \<Rightarrow> nat \<Rightarrow> nat \<Rightarrow> nat \<Rightarrow> RxError + nat \<times> nat \<times> nat" where
  "runForward matches' input most taken p budget =
     (if below taken most \<and> p < length input \<and> matches' (input ! p) then
        (if budget = 0 then Inl RxBudget else runForward matches' input most (taken + 1) (p + 1) (budget - 1))
      else Inr (taken, p, budget))"
  by pat_completeness auto
termination
  by (relation "measure (\<lambda>(_, input, _, _, p, _). length input - p)") auto

declare runForward.simps [simp del]

fun runBack :: "nat \<Rightarrow> Cont \<Rightarrow> nat \<Rightarrow> nat \<Rightarrow> nat \<Rightarrow> nat \<Rightarrow> Outcome" where
  "runBack least k taken p depth budget =
     (if taken < least then Inr (False, budget)
      else charge budget (\<lambda>budget'.
        orTry (k p depth budget') (\<lambda>budget''.
          case taken of
            0 \<Rightarrow> Inr (False, budget'')
          | Suc taken' \<Rightarrow> runBack least k taken' (p - 1) depth budget'')))"

declare runBack.simps [simp del]

text \<open>
  The repetition of other patterns, \<open>m\<close>. Every round is inside a call of \<open>match\<close>, so that their number is bounded by the
  depth of calls.
\<close>

fun repLoop :: "(Cont \<Rightarrow> Cont) \<Rightarrow> nat \<Rightarrow> nat option \<Rightarrow> Cont \<Rightarrow> nat \<Rightarrow> nat \<Rightarrow> Cont" where
  "repLoop m least most k 0 taken p depth budget = Inl RxFuel"
| "repLoop m least most k (Suc rounds) taken p depth budget =
     charge budget (\<lambda>budget'.
       orTry
         (if below taken most
          then m (\<lambda>q d b. if q = p then k p d b else repLoop m least most k rounds (taken + 1) q d b) p depth budget'
          else Inr (False, budget'))
         (\<lambda>budget''. if least \<le> taken then k p depth budget'' else Inr (False, budget'')))"

fun matchNode :: "CaseJs \<Rightarrow> RxFlags \<Rightarrow> nat list \<Rightarrow> RxNode \<Rightarrow> Cont \<Rightarrow> Cont"
  and matchSeq :: "CaseJs \<Rightarrow> RxFlags \<Rightarrow> nat list \<Rightarrow> RxNode list \<Rightarrow> Cont \<Rightarrow> Cont"
  and matchAlt :: "CaseJs \<Rightarrow> RxFlags \<Rightarrow> nat list \<Rightarrow> RxNode list \<Rightarrow> Cont \<Rightarrow> Cont" where
  "matchNode js flags input (RxAnchor a) k =
     frame (\<lambda>p d b. if anchorHolds flags input a p then k p d b else Inr (False, b))"
| "matchNode js flags input (RxSeq parts) k = frame (matchSeq js flags input parts k)"
| "matchNode js flags input (RxAlt options) k = frame (matchAlt js flags input options k)"
| "matchNode js flags input (RxRepeat least most inner) k =
     frame (\<lambda>p d b.
       if isSingle inner then
         bindE (runForward (singleMatch js flags inner) input most 0 p b) (\<lambda>(taken, q, b'). runBack least k taken q d b')
       else repLoop (matchNode js flags input inner) least most k (MAX_MATCH_DEPTH + 1) 0 p d b)"
| "matchNode js flags input node k =
     frame (\<lambda>p d b. if p < length input \<and> singleMatch js flags node (input ! p) then k (p + 1) d b else Inr (False, b))"
| "matchSeq js flags input [] k = k"
| "matchSeq js flags input (part # parts) k = matchNode js flags input part (matchSeq js flags input parts k)"
| "matchAlt js flags input [] k = (\<lambda>p d b. Inr (False, b))"
| "matchAlt js flags input (option' # options) k =
     (\<lambda>p d b. orTry (matchNode js flags input option' k p d b) (matchAlt js flags input options k p d))"

text \<open>The starts from \<open>start\<close> on; the number is that of the starts that are left.\<close>

fun testFrom :: "(nat \<Rightarrow> nat \<Rightarrow> Outcome) \<Rightarrow> nat \<Rightarrow> nat \<Rightarrow> nat \<Rightarrow> Outcome" where
  "testFrom m 0 start budget = Inr (False, budget)"
| "testFrom m (Suc n) start budget =
     charge budget (\<lambda>budget'. orTry (m start budget') (testFrom m n (start + 1)))"

definition anchoredOnly :: "BoundedRegex \<Rightarrow> bool" where
  "anchoredOnly rx = (\<not> multiline (rxFlags rx) \<and> startsAnchored (rxRoot rx))"

definition accept :: Cont where "accept p d b = Inr (True, b)"

definition testRegex :: "CaseJs \<Rightarrow> BoundedRegex \<Rightarrow> nat list \<Rightarrow> RxError + bool" where
  "testRegex js rx input =
     bindE (testFrom (\<lambda>start. matchNode js (rxFlags rx) input (rxRoot rx) accept start 0)
              (if anchoredOnly rx then 1 else length input + 1) 0 MAX_MATCH_STEPS)
       (\<lambda>(b, _). Inr b)"

end
