(* ===== verification/RegexMeaning.thy ===== *)
theory RegexMeaning
  imports BoundedRegex
begin

text \<open>
  What the patterns of layout scripts mean, as relations between positions, and that the matcher decides it: an answer
  \<open>true\<close> has a match, and \<open>false\<close> means that there is none, for patterns that repeat groups without depending on where an
  empty round stands (\<open>steady\<close>). The bounds of the loops of the matcher are never met; patterns that repeat only single
  units have a cost that is known in advance.
\<close>

section \<open>Meaning\<close>

definition withinMost :: "nat \<Rightarrow> nat option \<Rightarrow> bool" where
  "withinMost n most = (case most of None \<Rightarrow> True | Some m \<Rightarrow> n \<le> m)"

definition singleSpans :: "CaseJs \<Rightarrow> RxFlags \<Rightarrow> nat list \<Rightarrow> RxNode \<Rightarrow> (nat \<times> nat) set" where
  "singleSpans js flags input node = {(p, q). q = Suc p \<and> p < length input \<and> singleMatch js flags node (input ! p)}"

definition repeated :: "nat \<Rightarrow> nat option \<Rightarrow> (nat \<times> nat) set \<Rightarrow> (nat \<times> nat) set" where
  "repeated least most R = {(p, q). \<exists>n. least \<le> n \<and> withinMost n most \<and> (p, q) \<in> R ^^ n}"

fun spans :: "CaseJs \<Rightarrow> RxFlags \<Rightarrow> nat list \<Rightarrow> RxNode \<Rightarrow> (nat \<times> nat) set"
  and spansSeq :: "CaseJs \<Rightarrow> RxFlags \<Rightarrow> nat list \<Rightarrow> RxNode list \<Rightarrow> (nat \<times> nat) set"
  and spansAlt :: "CaseJs \<Rightarrow> RxFlags \<Rightarrow> nat list \<Rightarrow> RxNode list \<Rightarrow> (nat \<times> nat) set" where
  "spans js flags input (RxAnchor a) = {(p, q). q = p \<and> anchorHolds flags input a p}"
| "spans js flags input (RxSeq parts) = spansSeq js flags input parts"
| "spans js flags input (RxAlt options) = spansAlt js flags input options"
| "spans js flags input (RxRepeat least most inner) = repeated least most (spans js flags input inner)"
| "spans js flags input node = singleSpans js flags input node"
| "spansSeq js flags input [] = Id"
| "spansSeq js flags input (part # parts) = spans js flags input part O spansSeq js flags input parts"
| "spansAlt js flags input [] = {}"
| "spansAlt js flags input (option' # options) = spans js flags input option' \<union> spansAlt js flags input options"

text \<open>Patterns as the parser makes them.\<close>

fun rxOk :: "RxNode \<Rightarrow> bool" where
  "rxOk (RxSeq parts) = list_all rxOk parts"
| "rxOk (RxAlt options) = list_all rxOk options"
| "rxOk (RxRepeat least most inner) =
     (withinMost least most \<and> least \<le> MAX_REPEAT_COUNT \<and> (case most of None \<Rightarrow> True | Some m \<Rightarrow> m \<le> MAX_REPEAT_COUNT) \<and> rxOk inner)"
| "rxOk (RxClass negated singles ranges predefs) = list_all (\<lambda>(lo, hi). lo \<le> hi) ranges"
| "rxOk _ = True"

text \<open>Patterns whose empty matches do not depend on the place, and patterns without empty matches.\<close>

fun anchorFree :: "RxNode \<Rightarrow> bool" where
  "anchorFree (RxSeq parts) = list_all anchorFree parts"
| "anchorFree (RxAlt options) = list_all anchorFree options"
| "anchorFree (RxRepeat least most inner) = anchorFree inner"
| "anchorFree (RxAnchor a) = False"
| "anchorFree _ = True"

fun consumes :: "RxNode \<Rightarrow> bool" where
  "consumes (RxSeq parts) = list_ex consumes parts"
| "consumes (RxAlt options) = list_all consumes options"
| "consumes (RxRepeat least most inner) = (1 \<le> least \<and> consumes inner)"
| "consumes (RxAnchor a) = False"
| "consumes _ = True"

fun steady :: "RxNode \<Rightarrow> bool" where
  "steady (RxSeq parts) = list_all steady parts"
| "steady (RxAlt options) = list_all steady options"
| "steady (RxRepeat least most inner) =
     (steady inner \<and> (least \<le> 1 \<or> isSingle inner \<or> anchorFree inner \<or> consumes inner))"
| "steady _ = True"

section \<open>Outcomes\<close>

lemma charge_Inr [simp]: "charge budget k = Inr r \<longleftrightarrow> budget \<noteq> 0 \<and> k (budget - 1) = Inr r"
  by (simp add: charge_def)

lemma charge_Fuel [simp]: "charge budget k = Inl RxFuel \<longleftrightarrow> budget \<noteq> 0 \<and> k (budget - 1) = Inl RxFuel"
  by (simp add: charge_def)

lemma orTry_True: "orTry r k = Inr (True, b') \<longleftrightarrow> r = Inr (True, b') \<or> (\<exists>b. r = Inr (False, b) \<and> k b = Inr (True, b'))"
  by (cases r) (auto simp: orTry_def split: if_splits)

lemma orTry_False: "orTry r k = Inr (False, b') \<longleftrightarrow> (\<exists>b. r = Inr (False, b) \<and> k b = Inr (False, b'))"
  by (cases r) (auto simp: orTry_def split: if_splits)

lemma orTry_Fuel: "orTry r k = Inl RxFuel \<longleftrightarrow> r = Inl RxFuel \<or> (\<exists>b. r = Inr (False, b) \<and> k b = Inl RxFuel)"
  by (cases r) (auto simp: orTry_def split: if_splits)

lemma frame_Inr [simp]:
  "frame m p d b = Inr r \<longleftrightarrow> b \<noteq> 0 \<and> d + 1 \<le> MAX_MATCH_DEPTH \<and> m p (d + 1) (b - 1) = Inr r"
  by (simp add: frame_def not_less)

lemma frame_Fuel [simp]:
  "frame m p d b = Inl RxFuel \<longleftrightarrow> b \<noteq> 0 \<and> d + 1 \<le> MAX_MATCH_DEPTH \<and> m p (d + 1) (b - 1) = Inl RxFuel"
  by (simp add: frame_def not_less)

section \<open>Soundness\<close>

text \<open>An answer \<open>true\<close> is one of the continuation, at the end of a match.\<close>

definition soundFor :: "(nat \<times> nat) set \<Rightarrow> (Cont \<Rightarrow> Cont) \<Rightarrow> bool" where
  "soundFor R m \<longleftrightarrow> (\<forall>k p d b b'. m k p d b = Inr (True, b') \<longrightarrow> (\<exists>q d' b''. (p, q) \<in> R \<and> k q d' b'' = Inr (True, b')))"

lemma soundForD: "soundFor R m \<Longrightarrow> m k p d b = Inr (True, b') \<Longrightarrow> \<exists>q d' b''. (p, q) \<in> R \<and> k q d' b'' = Inr (True, b')"
  unfolding soundFor_def by blast

text \<open>An answer \<open>false\<close> is one of the continuation at the ends of all matches.\<close>

definition completeFor :: "(nat \<times> nat) set \<Rightarrow> (Cont \<Rightarrow> Cont) \<Rightarrow> bool" where
  "completeFor R m \<longleftrightarrow>
     (\<forall>k p d b b' q. m k p d b = Inr (False, b') \<longrightarrow> (p, q) \<in> R \<longrightarrow> (\<exists>d' b'' b3. k q d' b'' = Inr (False, b3)))"

lemma completeForD: "completeFor R m \<Longrightarrow> m k p d b = Inr (False, b') \<Longrightarrow> (p, q) \<in> R \<Longrightarrow> \<exists>d' b'' b3. k q d' b'' = Inr (False, b3)"
  unfolding completeFor_def by blast

lemma empty_power: "(p, p) \<in> R \<Longrightarrow> (p, p) \<in> R ^^ n"
  by (induction n) auto

lemma below_Suc: "below n most \<Longrightarrow> withinMost (Suc n) most"
  by (auto simp: below_def withinMost_def split: option.splits)

lemma repLoop_sound:
  assumes "soundFor R m" "withinMost least most"
  shows "repLoop m least most k rounds taken p d b = Inr (True, b') \<Longrightarrow> withinMost taken most \<Longrightarrow>
    \<exists>n q d' b''. (p, q) \<in> R ^^ n \<and> least \<le> taken + n \<and> withinMost (taken + n) most \<and> k q d' b'' = Inr (True, b')"
proof (induction rounds arbitrary: taken p d b)
  case (Suc rounds)
  let ?k = "\<lambda>q d b. if q = p then k p d b else repLoop m least most k rounds (taken + 1) q d b"
  consider (inner) "below taken most" "m ?k p d (b - 1) = Inr (True, b')"
    | (stop) b1 where "least \<le> taken" "k p d b1 = Inr (True, b')"
    using Suc.prems(1) by (auto simp: orTry_True split: if_splits)
  then show ?case
  proof cases
    case inner
    obtain q d1 b1 where q: "(p, q) \<in> R" "?k q d1 b1 = Inr (True, b')" using soundForD [OF assms(1), of ?k p d "b - 1" b'] inner(2) by blast
    show ?thesis
    proof (cases "q = p")
      case True
      let ?n = "if least \<le> taken then 1 else least - taken"
      have "(p, p) \<in> R ^^ ?n" using q(1) True by (intro empty_power) simp
      moreover have "least \<le> taken + ?n" by simp
      moreover have "withinMost (taken + ?n) most" using below_Suc [OF inner(1)] assms(2) by simp
      ultimately show ?thesis using q(2) True by force
    next
      case False
      then have "repLoop m least most k rounds (taken + 1) q d1 b1 = Inr (True, b')" using q(2) by simp
      moreover have "withinMost (taken + 1) most" using below_Suc [OF inner(1)] by simp
      ultimately obtain n q' d' b'' where n: "(q, q') \<in> R ^^ n" "least \<le> taken + 1 + n" "withinMost (taken + 1 + n) most" "k q' d' b'' = Inr (True, b')"
        using Suc.IH by blast
      have "(p, q') \<in> R ^^ Suc n" using q(1) n(1) by (rule relpow_Suc_I2)
      then have "(p, q') \<in> R ^^ Suc n \<and> least \<le> taken + Suc n \<and> withinMost (taken + Suc n) most" using n by (simp del: relpow.simps)
      then show ?thesis using n(4) by blast
    qed
  next
    case stop
    have "(p, p) \<in> R ^^ 0" by simp
    then show ?thesis using stop Suc.prems(2) by (metis add.right_neutral)
  qed
qed simp

subsection \<open>Single units\<close>

lemma runForward_run:
  "runForward f input most taken p b = Inr (n, q, b') \<Longrightarrow>
     taken \<le> n \<and> q = p + (n - taken) \<and> (\<forall>i. p \<le> i \<and> i < q \<longrightarrow> i < length input \<and> f (input ! i)) \<and>
     (withinMost taken most \<longrightarrow> withinMost n most) \<and> \<not> (below n most \<and> q < length input \<and> f (input ! q))"
proof (induction f input most taken p b rule: runForward.induct)
  case (1 f input most taken p b)
  show ?case
  proof (cases "below taken most \<and> p < length input \<and> f (input ! p)")
    case True
    with 1(2) have b: "b \<noteq> 0" "runForward f input most (taken + 1) (p + 1) (b - 1) = Inr (n, q, b')"
      by (simp_all add: runForward.simps [of f input most taken p b] split: if_splits)
    note IH = 1(1) [OF True b]
    have "i < length input \<and> f (input ! i)" if "p \<le> i" "i < q" for i using that IH True by (cases "i = p") auto
    then show ?thesis using IH below_Suc [of taken most] True by auto
  next
    case False
    then have "(n, q, b') = (taken, p, b)" using 1(2) by (auto simp: runForward.simps [of f input most taken p b])
    then show ?thesis using False by auto
  qed
qed

lemma runBack_True:
  "runBack least k n p d b = Inr (True, b') \<Longrightarrow> n \<le> p \<Longrightarrow> \<exists>j b''. least \<le> j \<and> j \<le> n \<and> k (p - (n - j)) d b'' = Inr (True, b')"
proof (induction n arbitrary: p b)
  case 0
  then show ?case by (auto simp: runBack.simps [of least k 0] orTry_True split: if_splits)
next
  case (Suc n)
  from Suc.prems(1) consider (now) "least \<le> Suc n" "k p d (b - 1) = Inr (True, b')"
    | (earlier) b1 where "runBack least k n (p - 1) d b1 = Inr (True, b')"
    by (auto simp: runBack.simps [of least k "Suc n"] orTry_True split: if_splits)
  then show ?case
  proof cases
    case now
    then show ?thesis by (intro exI [of _ "Suc n"] exI [of _ "b - 1"]) simp
  next
    case earlier
    have "n \<le> p - 1" using Suc.prems(2) by simp
    from Suc.IH [OF earlier this] obtain j b'' where "least \<le> j" "j \<le> n" "k (p - 1 - (n - j)) d b'' = Inr (True, b')" by blast
    moreover have "p - 1 - (n - j) = p - (Suc n - j)" using \<open>j \<le> n\<close> by simp
    ultimately show ?thesis by (metis le_Suc_eq)
  qed
qed

lemma runBack_False:
  "runBack least k n p d b = Inr (False, b') \<Longrightarrow> n \<le> p \<Longrightarrow> least \<le> j \<Longrightarrow> j \<le> n \<Longrightarrow> \<exists>b1 b2. k (p - (n - j)) d b1 = Inr (False, b2)"
proof (induction n arbitrary: p b)
  case 0
  then show ?case by (auto simp: runBack.simps [of least k 0] orTry_False split: if_splits)
next
  case (Suc n)
  from Suc.prems(1,3,4) obtain b1 where now: "k p d (b - 1) = Inr (False, b1)" "runBack least k n (p - 1) d b1 = Inr (False, b')"
    by (auto simp: runBack.simps [of least k "Suc n"] orTry_False split: if_splits)
  show ?case
  proof (cases "j = Suc n")
    case True
    with now show ?thesis by auto
  next
    case False
    with Suc.prems(4) have "j \<le> n" by simp
    with Suc.IH [OF now(2)] Suc.prems(2,3) have "\<exists>b1 b2. k (p - 1 - (n - j)) d b1 = Inr (False, b2)" by simp
    moreover have "p - 1 - (n - j) = p - (Suc n - j)" using \<open>j \<le> n\<close> by simp
    ultimately show ?thesis by metis
  qed
qed

lemma single_power:
  "(p, q) \<in> singleSpans js flags input node ^^ n \<longleftrightarrow>
     q = p + n \<and> (\<forall>i. p \<le> i \<and> i < q \<longrightarrow> i < length input \<and> singleMatch js flags node (input ! i))"
proof (induction n arbitrary: q)
  case (Suc n)
  have "(p, q) \<in> singleSpans js flags input node ^^ Suc n \<longleftrightarrow>
      (\<exists>r. (p, r) \<in> singleSpans js flags input node ^^ n \<and> (r, q) \<in> singleSpans js flags input node)" by auto
  also have "\<dots> \<longleftrightarrow> q = p + Suc n \<and> (\<forall>i. p \<le> i \<and> i < q \<longrightarrow> i < length input \<and> singleMatch js flags node (input ! i))"
    unfolding Suc.IH by (auto simp: singleSpans_def less_Suc_eq)
  finally show ?case .
qed auto

lemma single_spans: "isSingle node \<Longrightarrow> spans js flags input node = singleSpans js flags input node"
  by (cases node) simp_all

lemma singleRepeat_sound:
  assumes "isSingle inner"
  shows "soundFor (spans js flags input (RxRepeat least most inner)) (matchNode js flags input (RxRepeat least most inner))"
  unfolding soundFor_def
proof (intro allI impI)
  fix k p d b b' assume "matchNode js flags input (RxRepeat least most inner) k p d b = Inr (True, b')"
  then obtain n q b1 where run: "runForward (singleMatch js flags inner) input most 0 p (b - 1) = Inr (n, q, b1)"
    "runBack least k n q (d + 1) b1 = Inr (True, b')" using assms by (auto simp: res_simps)
  note fwd = runForward_run [OF run(1)]
  have "n \<le> q" using fwd by simp
  from runBack_True [OF run(2) this] obtain j b'' where j: "least \<le> j" "j \<le> n" "k (q - (n - j)) (d + 1) b'' = Inr (True, b')" by blast
  have "(p, q - (n - j)) \<in> singleSpans js flags input inner ^^ j" unfolding single_power using fwd j(2) by auto
  moreover have "withinMost j most"
  proof -
    have "withinMost n most" using fwd by (simp add: withinMost_def split: option.splits)
    with j(2) show ?thesis by (auto simp: withinMost_def split: option.splits)
  qed
  ultimately have "(p, q - (n - j)) \<in> spans js flags input (RxRepeat least most inner)"
    using j(1) by (auto simp: repeated_def single_spans [OF assms])
  then show "\<exists>q d' b''. (p, q) \<in> spans js flags input (RxRepeat least most inner) \<and> k q d' b'' = Inr (True, b')" using j(3) by blast
qed

lemma singleRepeat_complete:
  assumes "isSingle inner"
  shows "completeFor (spans js flags input (RxRepeat least most inner)) (matchNode js flags input (RxRepeat least most inner))"
  unfolding completeFor_def
proof (intro allI impI)
  fix k p d b b' r assume "matchNode js flags input (RxRepeat least most inner) k p d b = Inr (False, b')"
  then obtain n q b1 where run: "runForward (singleMatch js flags inner) input most 0 p (b - 1) = Inr (n, q, b1)"
    "runBack least k n q (d + 1) b1 = Inr (False, b')" using assms by (auto simp: res_simps)
  note fwd = runForward_run [OF run(1)]
  assume "(p, r) \<in> spans js flags input (RxRepeat least most inner)"
  then obtain j where j: "least \<le> j" "withinMost j most" "(p, r) \<in> singleSpans js flags input inner ^^ j"
    by (auto simp: repeated_def single_spans [OF assms])
  have r: "r = p + j" "\<forall>i. p \<le> i \<and> i < r \<longrightarrow> i < length input \<and> singleMatch js flags inner (input ! i)" using j(3) by (auto simp: single_power)
  have "j \<le> n"
  proof (rule ccontr)
    assume "\<not> j \<le> n"
    then have "below n most" using j(2) by (auto simp: below_def withinMost_def split: option.splits)
    moreover have "p \<le> q \<and> q < r" using \<open>\<not> j \<le> n\<close> fwd r(1) by simp
    ultimately show False using fwd r(2) by blast
  qed
  have "n \<le> q" using fwd by simp
  from runBack_False [OF run(2) this j(1) \<open>j \<le> n\<close>] obtain b2 b3 where "k (q - (n - j)) (d + 1) b2 = Inr (False, b3)" by blast
  moreover have "q - (n - j) = r" using fwd r(1) \<open>j \<le> n\<close> by simp
  ultimately show "\<exists>d' b'' b3. k r d' b'' = Inr (False, b3)" by blast
qed

subsection \<open>All patterns\<close>

lemma node_sound:
  shows "rxOk node \<Longrightarrow> soundFor (spans js flags input node) (matchNode js flags input node)"
    and "list_all rxOk nodes \<Longrightarrow> soundFor (spansSeq js flags input nodes) (matchSeq js flags input nodes)"
    and "list_all rxOk options \<Longrightarrow> soundFor (spansAlt js flags input options) (matchAlt js flags input options)"
proof (induction js flags input node and js flags input nodes and js flags input options rule: spans_spansSeq_spansAlt.induct)
  case (4 js flags input least most inner)
  show ?case
  proof (cases "isSingle inner")
    case False
    have inner: "soundFor (spans js flags input inner) (matchNode js flags input inner)" using 4 by simp
    have "withinMost least most" using 4 by simp
    show ?thesis unfolding soundFor_def
    proof (intro allI impI)
      fix k p d b b' assume "matchNode js flags input (RxRepeat least most inner) k p d b = Inr (True, b')"
      then have "repLoop (matchNode js flags input inner) least most k (MAX_MATCH_DEPTH + 1) 0 p (d + 1) (b - 1) = Inr (True, b')"
        using False by (simp del: repLoop.simps)
      moreover have "withinMost 0 most" by (simp add: withinMost_def split: option.split)
      ultimately have "\<exists>n q d' b''. (p, q) \<in> spans js flags input inner ^^ n \<and> least \<le> 0 + n \<and> withinMost (0 + n) most \<and> k q d' b'' = Inr (True, b')"
        by (rule repLoop_sound [OF inner \<open>withinMost least most\<close>])
      then show "\<exists>q d' b''. (p, q) \<in> spans js flags input (RxRepeat least most inner) \<and> k q d' b'' = Inr (True, b')"
        by (auto simp: repeated_def)
    qed
  qed (rule singleRepeat_sound)
next
  case (7 js flags input part parts)
  then have parts: "soundFor (spans js flags input part) (matchNode js flags input part)"
    "soundFor (spansSeq js flags input parts) (matchSeq js flags input parts)" by simp_all
  show ?case unfolding soundFor_def
  proof (intro allI impI)
    fix k p d b b' assume "matchSeq js flags input (part # parts) k p d b = Inr (True, b')"
    then have "matchNode js flags input part (matchSeq js flags input parts k) p d b = Inr (True, b')" by simp
    from soundForD [OF parts(1) this] obtain r d1 b1 where r: "(p, r) \<in> spans js flags input part" "matchSeq js flags input parts k r d1 b1 = Inr (True, b')" by blast
    from soundForD [OF parts(2) r(2)] r(1)
    show "\<exists>q d' b''. (p, q) \<in> spansSeq js flags input (part # parts) \<and> k q d' b'' = Inr (True, b')" by auto
  qed
next
  case (9 js flags input option' options)
  then have parts: "soundFor (spans js flags input option') (matchNode js flags input option')"
    "soundFor (spansAlt js flags input options) (matchAlt js flags input options)" by simp_all
  show ?case unfolding soundFor_def
  proof (intro allI impI)
    fix k p d b b' assume "matchAlt js flags input (option' # options) k p d b = Inr (True, b')"
    then consider "matchNode js flags input option' k p d b = Inr (True, b')" | b1 where "matchAlt js flags input options k p d b1 = Inr (True, b')"
      by (auto simp: orTry_True)
    then show "\<exists>q d' b''. (p, q) \<in> spansAlt js flags input (option' # options) \<and> k q d' b'' = Inr (True, b')"
      using soundForD [OF parts(1), of k p d b b'] soundForD [OF parts(2), of k p d _ b'] by cases (simp only: spansAlt.simps Un_iff, blast)+
  qed
qed (force simp: soundFor_def singleSpans_def split: if_splits)+

section \<open>Completeness\<close>

text \<open>Matches go forward.\<close>

lemma power_forward: "(\<And>p q. (p, q) \<in> R \<Longrightarrow> p \<le> q) \<Longrightarrow> (p, q) \<in> R ^^ n \<Longrightarrow> p \<le> q" for p q :: nat
proof (induction n arbitrary: q)
  case (Suc n)
  then obtain r where "(p, r) \<in> R ^^ n" "(r, q) \<in> R" by auto
  with Suc show ?case by (meson order_trans)
qed simp

lemma spans_forward:
  shows "(p, q) \<in> spans js flags input node \<Longrightarrow> p \<le> q"
    and "(p, q) \<in> spansSeq js flags input nodes \<Longrightarrow> p \<le> q"
    and "(p, q) \<in> spansAlt js flags input options \<Longrightarrow> p \<le> q"
proof (induction js flags input node and js flags input nodes and js flags input options arbitrary: p q and p q and p q
    rule: spans_spansSeq_spansAlt.induct)
  case (4 js flags input least most inner)
  then show ?case by (auto simp: repeated_def intro: power_forward)
next
  case (7 js flags input part parts)
  from 7(3) obtain r where "(p, r) \<in> spans js flags input part" "(r, q) \<in> spansSeq js flags input parts" by auto
  with 7(1) [of p r] 7(2) [of r q] show ?case by simp
qed (auto simp: singleSpans_def)

text \<open>A power of steps from a place to itself stays there.\<close>

lemma power_stays: "(\<And>p q. (p, q) \<in> R \<Longrightarrow> p \<le> q) \<Longrightarrow> (p, p) \<in> R ^^ n \<Longrightarrow> n = 0 \<or> (p, p) \<in> R" for p :: nat
proof (cases n)
  case (Suc m)
  assume fwd: "\<And>p q. (p, q) \<in> R \<Longrightarrow> p \<le> q" and "(p, p) \<in> R ^^ n"
  then obtain r where r: "(p, r) \<in> R ^^ m" "(r, p) \<in> R" using Suc by auto
  from power_forward [OF fwd r(1)] fwd [OF r(2)] have "r = p" by simp
  with r(2) show ?thesis by simp
qed simp

text \<open>An empty match does not depend on the place.\<close>

definition uniform :: "(nat \<times> nat) set \<Rightarrow> bool" where
  "uniform R \<longleftrightarrow> (\<forall>p q. (p, p) \<in> R \<longrightarrow> (q, q) \<in> R)"

lemma anchorFree_uniform:
  shows "anchorFree node \<Longrightarrow> uniform (spans js flags input node)"
    and "list_all anchorFree nodes \<Longrightarrow> uniform (spansSeq js flags input nodes)"
    and "list_all anchorFree options \<Longrightarrow> uniform (spansAlt js flags input options)"
proof (induction js flags input node and js flags input nodes and js flags input options rule: spans_spansSeq_spansAlt.induct)
  case (4 js flags input least most inner)
  show ?case unfolding uniform_def
  proof (intro allI impI)
    fix p q assume "(p, p) \<in> spans js flags input (RxRepeat least most inner)"
    then obtain n where n: "least \<le> n" "withinMost n most" "(p, p) \<in> spans js flags input inner ^^ n" by (auto simp: repeated_def)
    have "n = 0 \<or> (p, p) \<in> spans js flags input inner" by (rule power_stays [OF _ n(3)]) (rule spans_forward)
    then have "(q, q) \<in> spans js flags input inner ^^ n"
    proof
      assume "(p, p) \<in> spans js flags input inner"
      then show ?thesis using 4 by (intro empty_power) (auto simp: uniform_def)
    qed simp
    with n show "(q, q) \<in> spans js flags input (RxRepeat least most inner)" by (auto simp: repeated_def)
  qed
next
  case (7 js flags input part parts)
  then have u: "uniform (spans js flags input part)" "uniform (spansSeq js flags input parts)" by simp_all
  show ?case unfolding uniform_def
  proof (intro allI impI)
    fix p q assume "(p, p) \<in> spansSeq js flags input (part # parts)"
    then obtain r where r: "(p, r) \<in> spans js flags input part" "(r, p) \<in> spansSeq js flags input parts" by auto
    from spans_forward(1) [OF r(1)] spans_forward(2) [OF r(2)] have "r = p" by simp
    with r u have "(q, q) \<in> spans js flags input part" "(q, q) \<in> spansSeq js flags input parts" unfolding uniform_def by blast+
    then show "(q, q) \<in> spansSeq js flags input (part # parts)" by auto
  qed
next
  case (9 js flags input option' options)
  then show ?case by (auto simp: uniform_def)
qed (auto simp: uniform_def singleSpans_def)

lemma consumes_no_empty:
  shows "consumes node \<Longrightarrow> (p, p) \<notin> spans js flags input node"
    and "list_ex consumes nodes \<Longrightarrow> (p, p) \<notin> spansSeq js flags input nodes"
    and "list_all consumes options \<Longrightarrow> (p, p) \<notin> spansAlt js flags input options"
proof (induction js flags input node and js flags input nodes and js flags input options arbitrary: p and p and p
    rule: spans_spansSeq_spansAlt.induct)
  case (4 js flags input least most inner)
  show ?case
  proof
    assume "(p, p) \<in> spans js flags input (RxRepeat least most inner)"
    then obtain n where n: "least \<le> n" "(p, p) \<in> spans js flags input inner ^^ n" by (auto simp: repeated_def)
    have "n = 0 \<or> (p, p) \<in> spans js flags input inner" by (rule power_stays [OF _ n(2)]) (rule spans_forward)
    then show False using 4 n(1) by simp
  qed
next
  case (7 js flags input part parts)
  show ?case
  proof
    assume "(p, p) \<in> spansSeq js flags input (part # parts)"
    then obtain r where r: "(p, r) \<in> spans js flags input part" "(r, p) \<in> spansSeq js flags input parts" by auto
    from spans_forward(1) [OF r(1)] spans_forward(2) [OF r(2)] have "r = p" by simp
    with r 7 show False by auto
  qed
qed (auto simp: singleSpans_def)

lemma steady_uniform: "anchorFree node \<or> consumes node \<Longrightarrow> uniform (spans js flags input node)"
  using anchorFree_uniform(1) consumes_no_empty(1) unfolding uniform_def by blast

text \<open>The first step of a power that moves.\<close>

lemma power_moves:
  "(p, q) \<in> R ^^ n \<Longrightarrow> q \<noteq> p \<Longrightarrow>
     \<exists>i r j. n = i + Suc j \<and> (i \<noteq> 0 \<longrightarrow> (p, p) \<in> R) \<and> r \<noteq> p \<and> (p, r) \<in> R \<and> (r, q) \<in> R ^^ j"
proof (induction n)
  case (Suc n)
  from relpow_Suc_D2 [OF Suc.prems(1)] obtain r where r: "(p, r) \<in> R" "(r, q) \<in> R ^^ n" by blast
  show ?case
  proof (cases "r = p")
    case True
    with Suc r obtain i r' j where "n = i + Suc j" "r' \<noteq> p" "(p, r') \<in> R" "(r', q) \<in> R ^^ j" by blast
    then show ?thesis using r(1) True by (intro exI [of _ "Suc i"] exI [of _ r'] exI [of _ j]) simp
  next
    case False
    with r show ?thesis by (intro exI [of _ 0] exI [of _ r] exI [of _ n]) simp
  qed
qed simp

lemma repLoop_complete:
  assumes "completeFor R m" "least \<le> 1 \<or> uniform R" "\<And>p q. (p, q) \<in> R \<Longrightarrow> p \<le> q"
  shows "repLoop m least most k rounds taken p d b = Inr (False, b') \<Longrightarrow> (p, q) \<in> R ^^ n \<Longrightarrow>
    least \<le> taken + n \<Longrightarrow> withinMost (taken + n) most \<Longrightarrow> \<exists>d' b'' b3. k q d' b'' = Inr (False, b3)"
proof (induction rounds arbitrary: taken p d b b' n)
  case (Suc rounds)
  let ?k = "\<lambda>q d b. if q = p then k p d b else repLoop m least most k rounds (taken + 1) q d b"
  from Suc.prems(1) obtain b1 where b1:
    "below taken most \<Longrightarrow> m ?k p d (b - 1) = Inr (False, b1)" "least \<le> taken \<Longrightarrow> k p d b1 = Inr (False, b')"
    by (auto simp: orTry_False split: if_splits)
  note inner = completeForD [OF assms(1), of ?k p d "b - 1" b1]
  show ?case
  proof (cases n)
    case 0
    with Suc.prems(2,3) b1(2) show ?thesis by auto
  next
    case n: (Suc n')
    have more: "below taken most" using Suc.prems(4) n by (auto simp: below_def withinMost_def split: option.splits)
    show ?thesis
    proof (cases "q = p \<and> (p, p) \<in> R")
      case True
      with inner [OF b1(1) [OF more], of p] show ?thesis by auto
    next
      case False
      have "q \<noteq> p"
      proof
        assume "q = p"
        with False have no: "(p, p) \<notin> R" by simp
        show False using power_stays [OF assms(3) Suc.prems(2) [unfolded \<open>q = p\<close>]] n no by simp
      qed
      from power_moves [OF Suc.prems(2) this] obtain i r j where r: "n = i + Suc j" "i \<noteq> 0 \<longrightarrow> (p, p) \<in> R" "r \<noteq> p" "(p, r) \<in> R" "(r, q) \<in> R ^^ j"
        by blast
      from inner [OF b1(1) [OF more] r(4)] r(3) obtain d1 b2 b3 where next': "repLoop m least most k rounds (taken + 1) r d1 b2 = Inr (False, b3)"
        by auto
      show ?thesis
      proof (cases "least \<le> taken + 1 + j")
        case True
        have "withinMost (taken + 1 + j) most" using Suc.prems(4) r(1) by (auto simp: withinMost_def split: option.splits)
        from Suc.IH [OF next' r(5) True this] show ?thesis .
      next
        case False
        with Suc.prems(3) r(1) have "i \<noteq> 0" "uniform R" using assms(2) by auto
        then have "(q, q) \<in> R ^^ i" using r(2) by (intro empty_power) (auto simp: uniform_def)
        with r(5) have "(r, q) \<in> R ^^ (j + i)" by (auto simp: relpow_add)
        moreover have "taken + 1 + (j + i) = taken + n" using r(1) by simp
        ultimately show ?thesis using Suc.IH [OF next', of "j + i"] Suc.prems(3,4) by (simp only: True_implies_equals)
      qed
    qed
  qed
qed simp

lemma node_complete:
  shows "steady node \<Longrightarrow> completeFor (spans js flags input node) (matchNode js flags input node)"
    and "list_all steady nodes \<Longrightarrow> completeFor (spansSeq js flags input nodes) (matchSeq js flags input nodes)"
    and "list_all steady options \<Longrightarrow> completeFor (spansAlt js flags input options) (matchAlt js flags input options)"
proof (induction js flags input node and js flags input nodes and js flags input options rule: spans_spansSeq_spansAlt.induct)
  case (4 js flags input least most inner)
  show ?case
  proof (cases "isSingle inner")
    case False
    have inner: "completeFor (spans js flags input inner) (matchNode js flags input inner)" using 4 by simp
    have free: "least \<le> 1 \<or> uniform (spans js flags input inner)" using 4(2) False steady_uniform by auto
    show ?thesis unfolding completeFor_def
    proof (intro allI impI)
      fix k p d b b' q assume "matchNode js flags input (RxRepeat least most inner) k p d b = Inr (False, b')"
      then have loop: "repLoop (matchNode js flags input inner) least most k (MAX_MATCH_DEPTH + 1) 0 p (d + 1) (b - 1) = Inr (False, b')"
        using False by (simp del: repLoop.simps)
      assume "(p, q) \<in> spans js flags input (RxRepeat least most inner)"
      then obtain n where "least \<le> 0 + n" "withinMost (0 + n) most" "(p, q) \<in> spans js flags input inner ^^ n" by (auto simp: repeated_def)
      then show "\<exists>d' b'' b3. k q d' b'' = Inr (False, b3)"
        using repLoop_complete [OF inner free _ loop] spans_forward(1) by blast
    qed
  qed (rule singleRepeat_complete)
next
  case (7 js flags input part parts)
  then have parts: "completeFor (spans js flags input part) (matchNode js flags input part)"
    "completeFor (spansSeq js flags input parts) (matchSeq js flags input parts)" by simp_all
  show ?case unfolding completeFor_def
  proof (intro allI impI)
    fix k p d b b' q assume "matchSeq js flags input (part # parts) k p d b = Inr (False, b')"
    then have first: "matchNode js flags input part (matchSeq js flags input parts k) p d b = Inr (False, b')" by simp
    assume "(p, q) \<in> spansSeq js flags input (part # parts)"
    then obtain r where r: "(p, r) \<in> spans js flags input part" "(r, q) \<in> spansSeq js flags input parts" by auto
    from completeForD [OF parts(1) first r(1)] obtain d1 b1 b2 where "matchSeq js flags input parts k r d1 b1 = Inr (False, b2)" by blast
    from completeForD [OF parts(2) this r(2)] show "\<exists>d' b'' b3. k q d' b'' = Inr (False, b3)" .
  qed
next
  case (9 js flags input option' options)
  then have parts: "completeFor (spans js flags input option') (matchNode js flags input option')"
    "completeFor (spansAlt js flags input options) (matchAlt js flags input options)" by simp_all
  show ?case unfolding completeFor_def
  proof (intro allI impI)
    fix k p d b b' q assume "matchAlt js flags input (option' # options) k p d b = Inr (False, b')"
    then obtain b1 where b1: "matchNode js flags input option' k p d b = Inr (False, b1)" "matchAlt js flags input options k p d b1 = Inr (False, b')"
      by (auto simp: orTry_False)
    assume "(p, q) \<in> spansAlt js flags input (option' # options)"
    then show "\<exists>d' b'' b3. k q d' b'' = Inr (False, b3)"
      using completeForD [OF parts(1) b1(1), of q] completeForD [OF parts(2) b1(2), of q] by auto
  qed
qed (force simp: completeFor_def singleSpans_def split: if_splits)+

section \<open>Whole tests\<close>

lemma anchored_start:
  shows "startsAnchored node \<Longrightarrow> \<not> multiline flags \<Longrightarrow> (p, q) \<in> spans js flags input node \<Longrightarrow> p = 0"
    and "(case nodes of [] \<Rightarrow> False | n # _ \<Rightarrow> startsAnchored n) \<Longrightarrow> \<not> multiline flags \<Longrightarrow> (p, q) \<in> spansSeq js flags input nodes \<Longrightarrow> p = 0"
    and "list_all startsAnchored options \<Longrightarrow> \<not> multiline flags \<Longrightarrow> (p, q) \<in> spansAlt js flags input options \<Longrightarrow> p = 0"
proof (induction js flags input node and js flags input nodes and js flags input options arbitrary: p q and p q and p q
    rule: spans_spansSeq_spansAlt.induct)
  case (4 js flags input least most inner)
  from 4(4) obtain n where "least \<le> n" "(p, q) \<in> spans js flags input inner ^^ n" by (auto simp: repeated_def)
  with 4(2) obtain m r where "(p, r) \<in> spans js flags input inner" by (cases n) (auto dest: relpow_Suc_D2 simp del: relpow.simps)
  with 4 show ?case by simp
qed auto

lemma testFrom_True:
  "testFrom m n start b = Inr (True, b') \<Longrightarrow> \<exists>s b''. start \<le> s \<and> s < start + n \<and> m s b'' = Inr (True, b')"
proof (induction n arbitrary: start b)
  case (Suc n)
  then consider "m start (b - 1) = Inr (True, b')" | b1 where "testFrom m n (start + 1) b1 = Inr (True, b')" by (auto simp: orTry_True)
  then show ?case
  proof cases
    case 1
    then show ?thesis by (intro exI [of _ start] exI [of _ "b - 1"]) simp
  next
    case 2
    from Suc.IH [OF this] obtain s b'' where "start + 1 \<le> s" "s < start + 1 + n" "m s b'' = Inr (True, b')" by blast
    then show ?thesis by (intro exI [of _ s] exI [of _ b'']) simp
  qed
qed simp

lemma testFrom_False:
  "testFrom m n start b = Inr (False, b') \<Longrightarrow> start \<le> s \<Longrightarrow> s < start + n \<Longrightarrow> \<exists>b1 b2. m s b1 = Inr (False, b2)"
proof (induction n arbitrary: start b)
  case (Suc n)
  from Suc.prems(1) obtain b1 where b1: "m start (b - 1) = Inr (False, b1)" "testFrom m n (start + 1) b1 = Inr (False, b')"
    by (auto simp: orTry_False)
  show ?case
  proof (cases "s = start")
    case False
    with Suc.IH [OF b1(2)] Suc.prems(2,3) show ?thesis by simp
  qed (use b1 in blast)
qed simp

text \<open>A match of a text is a match from some place in it.\<close>

definition matchesSomewhere :: "CaseJs \<Rightarrow> BoundedRegex \<Rightarrow> nat list \<Rightarrow> bool" where
  "matchesSomewhere js rx input \<longleftrightarrow> (\<exists>p q. p \<le> length input \<and> (p, q) \<in> spans js (rxFlags rx) input (rxRoot rx))"

lemma test_sound:
  assumes "rxOk (rxRoot rx)" "testRegex js rx input = Inr True" shows "matchesSomewhere js rx input"
proof -
  let ?m = "\<lambda>start. matchNode js (rxFlags rx) input (rxRoot rx) accept start 0"
  let ?n = "if anchoredOnly rx then 1 else length input + 1"
  from assms(2) obtain b' where "testFrom ?m ?n 0 MAX_MATCH_STEPS = Inr (True, b')" by (auto simp: testRegex_def res_simps)
  from testFrom_True [OF this] obtain s b'' where s: "s < ?n" "?m s b'' = Inr (True, b')" by auto
  from soundForD [OF node_sound(1) [OF assms(1)] s(2)] obtain q where "(s, q) \<in> spans js (rxFlags rx) input (rxRoot rx)" by blast
  moreover have "s \<le> length input" using s(1) by (simp split: if_splits)
  ultimately show ?thesis by (auto simp: matchesSomewhere_def)
qed

lemma test_complete:
  assumes "steady (rxRoot rx)" "testRegex js rx input = Inr False" shows "\<not> matchesSomewhere js rx input"
proof
  let ?m = "\<lambda>start. matchNode js (rxFlags rx) input (rxRoot rx) accept start 0"
  let ?n = "if anchoredOnly rx then 1 else length input + 1"
  assume "matchesSomewhere js rx input"
  then obtain p q where p: "p \<le> length input" "(p, q) \<in> spans js (rxFlags rx) input (rxRoot rx)" by (auto simp: matchesSomewhere_def)
  from assms(2) obtain b' where run: "testFrom ?m ?n 0 MAX_MATCH_STEPS = Inr (False, b')" by (auto simp: testRegex_def res_simps)
  have "p < 0 + ?n" using p anchored_start(1) by (auto simp: anchoredOnly_def)
  from testFrom_False [OF run _ this] obtain b1 b2 where "?m p b1 = Inr (False, b2)" by auto
  from completeForD [OF node_complete(1) [OF assms(1)] this p(2)] show False by (auto simp: accept_def)
qed

end
