(* ===== verification/RegexParse.thy ===== *)
theory RegexParse
  imports RegexMeaning
begin

text \<open>
  The parser of patterns always answers: its bounds of rounds and of nesting are never met. What it returns is a pattern
  with bounds in order (\<open>rxOk\<close>).
\<close>

text \<open>A parser that takes from the text, is not stopped by a bound, and returns patterns, for texts below a length.\<close>

definition parsesBelow :: "nat \<Rightarrow> (nat list \<Rightarrow> RxParsed) \<Rightarrow> bool" where
  "parsesBelow n g \<longleftrightarrow>
     (\<forall>s. length s < n \<longrightarrow> g s \<noteq> Inl RxFuel \<and> (\<forall>node rest. g s = Inr (node, rest) \<longrightarrow> length rest \<le> length s \<and> rxOk node))"

lemma parsesBelowD:
  "parsesBelow n g \<Longrightarrow> length s < n \<Longrightarrow> g s \<noteq> Inl RxFuel"
  "parsesBelow n g \<Longrightarrow> length s < n \<Longrightarrow> g s = Inr (node, rest) \<Longrightarrow> length rest \<le> length s \<and> rxOk node"
  unfolding parsesBelow_def by blast+

lemma hexEscape_fuel: "hexEscape n s \<noteq> Inl RxFuel"
  by (simp add: hexEscape_def split: option.split)

lemma parseEscape_fuel: "parseEscape inClass s \<noteq> Inl RxFuel"
  by (simp add: parseEscape_def hexEscape_fuel split: list.split)

lemma hexEscape_ok: "hexEscape n s = Inr (node, rest) \<Longrightarrow> rxOk node"
  by (auto simp: hexEscape_def split: option.splits)

lemma parseEscape_ok: "parseEscape inClass s = Inr (node, rest) \<Longrightarrow> rxOk node"
  by (auto simp: parseEscape_def dest: hexEscape_ok split: list.splits if_splits)

lemma classMember_fuel: "classMember s \<noteq> Inl RxFuel"
  by (auto simp: classMember_def bindE_def dest: parseEscape_fuel [THEN notE] split: sum.splits RxNode.splits)

lemma classLoop_parses:
  "classLoop singles ranges predefs s \<noteq> Inl RxFuel \<and>
   (\<forall>ss rs ps rest. classLoop singles ranges predefs s = Inr ((ss, rs, ps), rest) \<longrightarrow>
      length rest < length s \<and> (list_all (\<lambda>(lo, hi). lo \<le> hi) ranges \<longrightarrow> list_all (\<lambda>(lo, hi). lo \<le> hi) rs))"
proof (induction singles ranges predefs s rule: classLoop.induct)
  case (1 singles ranges predefs s)
  show ?case
  proof (cases "s = [] \<or> hd s = code CHR '']''")
    case True
    then show ?thesis by (auto simp: classLoop.simps [of singles ranges predefs s] neq_Nil_conv)
  next
    case False
    then have s: "s \<noteq> []" "hd s \<noteq> code CHR '']''" by auto
    show ?thesis
    proof (cases "classMember s")
      case (Inl e)
      then show ?thesis using s classMember_fuel [of s] by (simp add: classLoop.simps [of singles ranges predefs s])
    next
      case (Inr r)
      obtain x rest where r: "r = (x, rest)" by (cases r)
      have less: "length rest < length s" using classMember_rest [OF s(1)] Inr r by simp
      show ?thesis
      proof (cases x)
        case name: (Inl name)
        with s Inr r have step: "classLoop singles ranges predefs s = classLoop singles ranges (predefs @ [name]) rest"
          by (simp add: classLoop.simps [of singles ranges predefs s])
        show ?thesis unfolding step using 1(1) [OF s Inr r [symmetric] name] less by fastforce
      next
        case lo: (Inr lo)
        show ?thesis
        proof (cases "startsRange rest")
          case False
          with s Inr r lo have step: "classLoop singles ranges predefs s = classLoop (singles @ [lo]) ranges predefs rest"
            by (simp add: classLoop.simps [of singles ranges predefs s])
          show ?thesis unfolding step using 1(3) [OF s Inr r [symmetric] lo False] less by fastforce
        next
          case True
          then have tl: "tl rest \<noteq> []" "length (tl rest) < length rest" by (auto simp: startsRange_def split: list.splits)
          show ?thesis
          proof (cases "classMember (tl rest)")
            case (Inl e)
            then show ?thesis using s Inr r lo True classMember_fuel [of "tl rest"] by (simp add: classLoop.simps [of singles ranges predefs s])
          next
            case hi: (Inr r')
            obtain y rest' where r': "r' = (y, rest')" by (cases r')
            have less': "length rest' < length s" using classMember_rest [OF tl(1)] hi r' tl(2) less by fastforce
            show ?thesis
            proof (cases "\<exists>h. y = Inr h \<and> lo \<le> h")
              case True
              then obtain h where h: "y = Inr h" "\<not> h < lo" by auto
              with s Inr r lo \<open>startsRange rest\<close> hi r'
              have step: "classLoop singles ranges predefs s = classLoop singles (ranges @ [(lo, h)]) predefs rest'"
                by (simp add: classLoop.simps [of singles ranges predefs s])
              show ?thesis unfolding step using 1(2) [OF s Inr r [symmetric] lo \<open>startsRange rest\<close> hi r' [symmetric] h] less' h by fastforce
            next
              case False
              then have "classLoop singles ranges predefs s = Inl RxSyntax"
                using s Inr r lo \<open>startsRange rest\<close> hi r' by (cases y) (auto simp: classLoop.simps [of singles ranges predefs s])
              then show ?thesis by simp
            qed
          qed
        qed
      qed
    qed
  qed
qed

lemma parseClass_parses: "parseClass s \<noteq> Inl RxFuel"
  "parseClass s = Inr (node, rest) \<Longrightarrow> length rest \<le> length s \<and> rxOk node"
proof -
  let ?s = "if s \<noteq> [] \<and> hd s = code CHR ''^'' then tl s else s"
  have "length ?s \<le> length s" by simp
  moreover note classLoop_parses [of "[]" "[]" "[]" ?s]
  ultimately show "parseClass s \<noteq> Inl RxFuel" "parseClass s = Inr (node, rest) \<Longrightarrow> length rest \<le> length s \<and> rxOk node"
    by (force simp: parseClass_def Let_def res_simps bindE_def split: sum.splits)+
qed

lemma groupStart_parses: "groupStart s \<noteq> Inl RxFuel" "groupStart s = Inr s' \<Longrightarrow> length s' \<le> length s"
proof -
  show "groupStart s \<noteq> Inl RxFuel" by (simp add: groupStart_def Let_def split: list.split)
  assume g: "groupStart s = Inr s'"
  have "length rest \<le> length s" if "dropWhile P (drop 2 s) = x # rest" for P x rest
  proof -
    have "length (x # rest) \<le> length (drop 2 s)" using that by (metis length_dropWhile_le)
    then show ?thesis by simp
  qed
  with g show "length s' \<le> length s" by (auto simp: groupStart_def Let_def split: if_splits list.splits)
qed

lemma parseGroup_parses:
  assumes "parsesBelow n g" "length s < n"
  shows "parseGroup g s \<noteq> Inl RxFuel" "parseGroup g s = Inr (node, rest) \<Longrightarrow> length rest \<le> length s \<and> rxOk node"
proof -
  have inner: "g s' \<noteq> Inl RxFuel" "g s' = Inr (node, rest) \<Longrightarrow> length rest \<le> length s' \<and> rxOk node" "length s' \<le> length s"
    if "groupStart s = Inr s'" for s' node rest
    using groupStart_parses(2) [OF that] parsesBelowD [OF assms(1), of s'] assms(2) by auto
  show "parseGroup g s \<noteq> Inl RxFuel"
    using groupStart_parses(1) inner(1) by (auto simp: parseGroup_def bindE_def split: sum.splits list.splits)
  assume "parseGroup g s = Inr (node, rest)"
  then obtain s' a u where u: "groupStart s = Inr s'" "g s' = Inr (a, u)"
    "(case u of c # rest' \<Rightarrow> if c = code CHR '')'' then Inr (a, rest') else Inl RxSyntax | [] \<Rightarrow> Inl RxSyntax) = Inr (node, rest)"
    unfolding parseGroup_def by (auto simp only: bindE_Inr_iff split_paired_Ex prod.case)
  then obtain c where s': "groupStart s = Inr s'" "g s' = Inr (node, c # rest)" by (cases u) (auto split: if_splits)
  from inner(2) [OF this] inner(3) [OF s'(1)] show "length rest \<le> length s \<and> rxOk node" by simp
qed

lemma parseAtom_parses:
  assumes "parsesBelow n g" "length s < Suc n"
  shows "parseAtom g s \<noteq> Inl RxFuel" "parseAtom g s = Inr (node, rest) \<Longrightarrow> length rest < length s \<and> rxOk node"
proof -
  show "parseAtom g s \<noteq> Inl RxFuel"
    using assms parseGroup_parses(1) [OF assms(1)] parseClass_parses(1) parseEscape_fuel by (auto simp: parseAtom_def split: list.split)
  assume p: "parseAtom g s = Inr (node, rest)"
  show "length rest < length s \<and> rxOk node"
  proof (cases s)
    case Nil
    with p show ?thesis by (simp add: parseAtom_def)
  next
    case (Cons c u)
    have "length u < n" using assms(2) Cons by simp
    with p Cons show ?thesis
      by (auto simp: parseAtom_def le_imp_less_Suc less_SucI split: if_splits
          dest: parseGroup_parses(2) [OF assms(1)] parseClass_parses(2) parseEscape_rest parseEscape_ok)
  qed
qed

text \<open>Quantifiers.\<close>

definition quantifierOk :: "(nat \<times> nat option) option \<Rightarrow> bool" where
  "quantifierOk q = (case q of None \<Rightarrow> True | Some (least, most) \<Rightarrow>
     withinMost least most \<and> least \<le> MAX_REPEAT_COUNT \<and> (case most of None \<Rightarrow> True | Some m \<Rightarrow> m \<le> MAX_REPEAT_COUNT))"

lemma braces_rest: "braces s = Some (least, most, rest) \<Longrightarrow> length rest \<le> length s"
proof -
  assume b: "braces s = Some (least, most, rest)"
  have drop: "length (dropWhile digitUnit u) \<le> length u" for u by (rule length_dropWhile_le)
  obtain c u where u: "dropWhile digitUnit s = c # u" using b by (auto simp: braces_def Let_def split: if_splits list.splits)
  have "rest = u \<or> (\<exists>d. dropWhile digitUnit u = d # rest)" using b u by (auto simp: braces_def Let_def split: if_splits list.splits)
  moreover have "Suc (length u) \<le> length s" using drop [of s] u by simp
  ultimately show ?thesis using drop [of u] by auto
qed

lemma quantifier_parses: "quantifier s \<noteq> Inl RxFuel" "quantifier s = Inr (q, rest) \<Longrightarrow> length rest \<le> length s \<and> quantifierOk q"
proof -
  show "quantifier s \<noteq> Inl RxFuel" by (auto simp: quantifier_def split: list.split option.split)
  assume "quantifier s = Inr (q, rest)"
  then show "length rest \<le> length s \<and> quantifierOk q"
    by (auto simp: quantifier_def quantifierOk_def withinMost_def MAX_REPEAT_COUNT_def le_SucI dest!: braces_rest
        split: list.splits option.splits if_splits)
qed

lemma parseQuantifier_parses: "parseQuantifier s \<noteq> Inl RxFuel" "parseQuantifier s = Inr (q, rest) \<Longrightarrow> length rest \<le> length s \<and> quantifierOk q"
proof -
  show "parseQuantifier s \<noteq> Inl RxFuel"
    using quantifier_parses(1) by (auto simp: parseQuantifier_def bindE_def Let_def split: sum.splits option.split)
  assume "parseQuantifier s = Inr (q, rest)"
  then obtain q' rest' where u: "quantifier s = Inr (q', rest')" "(case q' of None \<Rightarrow> Inr (None, rest') | Some _ \<Rightarrow>
      let rest'' = (if rest' \<noteq> [] \<and> hd rest' = code CHR ''?'' then tl rest' else rest') in
      if rest'' \<noteq> [] \<and> hd rest'' \<in> set (map code ''*+?'') then Inl RxSyntax else Inr (q', rest'')) = Inr (q, rest)"
    unfolding parseQuantifier_def by (auto simp only: bindE_Inr_iff split_paired_Ex prod.case)
  then have r: "quantifier s = Inr (q, rest')" "rest = rest' \<or> rest = tl rest'"
    by (cases q'; simp add: Let_def split: if_splits; blast)+
  from quantifier_parses(2) [OF r(1)] r(2) show "length rest \<le> length s \<and> quantifierOk q" by auto
qed

lemma parseQuantified_parses:
  assumes "parsesBelow n g" "length s < Suc n"
  shows "parseQuantified g s \<noteq> Inl RxFuel" "parseQuantified g s = Inr (node, rest) \<Longrightarrow> length rest < length s \<and> rxOk node"
proof -
  note atom = parseAtom_parses [OF assms]
  show "parseQuantified g s \<noteq> Inl RxFuel"
    using atom(1) parseQuantifier_parses(1) by (auto simp: parseQuantified_def bindE_def split: sum.splits option.split RxNode.split)
  assume "parseQuantified g s = Inr (node, rest)"
  then obtain a r q r' where u: "parseAtom g s = Inr (a, r)" "parseQuantifier r = Inr (q, r')"
    "(case q of None \<Rightarrow> Inr (a, r') | Some (least, most) \<Rightarrow>
       (case a of RxAnchor _ \<Rightarrow> Inl RxSyntax | _ \<Rightarrow> Inr (RxRepeat least most a, r'))) = Inr (node, rest)"
    unfolding parseQuantified_def by (auto simp only: bindE_Inr_iff split_paired_Ex prod.case)
  then have r: "parseAtom g s = Inr (a, r)" "parseQuantifier r = Inr (q, rest)"
    "node = (case q of None \<Rightarrow> a | Some (least, most) \<Rightarrow> RxRepeat least most a)"
    by (cases q; cases a; auto)+
  from atom(2) [OF r(1)] parseQuantifier_parses(2) [OF r(2)] r(3) show "length rest < length s \<and> rxOk node"
    by (auto simp: quantifierOk_def split: option.splits)
qed

lemma sequenceLoop_parses:
  assumes "parsesBelow n g"
  shows "length s < Suc n \<Longrightarrow> length s \<le> m \<Longrightarrow>
    sequenceLoop g m s \<noteq> Inl RxFuel \<and> (\<forall>nodes rest. sequenceLoop g m s = Inr (nodes, rest) \<longrightarrow> length rest \<le> length s \<and> list_all rxOk nodes)"
proof (induction m arbitrary: s)
  case 0
  then show ?case by (simp add: sequenceLoop.simps)
next
  case (Suc m)
  show ?case
  proof (cases "s = [] \<or> hd s = code CHR ''|'' \<or> hd s = code CHR '')''")
    case True
    then show ?thesis by (simp add: sequenceLoop.simps)
  next
    case False
    then have step: "sequenceLoop g (Suc m) s =
        bindE (parseQuantified g s) (\<lambda>(part, rest). bindE (sequenceLoop g m rest) (\<lambda>(parts, rest'). Inr (part # parts, rest')))"
      by (simp add: sequenceLoop.simps)
    note part = parseQuantified_parses [OF assms Suc.prems(1)]
    show ?thesis
    proof (cases "parseQuantified g s")
      case (Inl e)
      then show ?thesis using part(1) step by simp
    next
      case (Inr r)
      obtain node rest where r: "r = (node, rest)" by (cases r)
      from part(2) Inr r have less: "length rest < length s" "rxOk node" by simp_all
      from Suc.IH [of rest] less Suc.prems show ?thesis unfolding step Inr r by (auto simp: bindE_def split: sum.splits)
    qed
  qed
qed

lemma parseSequence_parses:
  assumes "parsesBelow n g" "length s < Suc n"
  shows "parseSequence g s \<noteq> Inl RxFuel" "parseSequence g s = Inr (node, rest) \<Longrightarrow> length rest \<le> length s \<and> rxOk node"
  using sequenceLoop_parses [OF assms order_refl]
  by (auto simp: parseSequence_def bindE_def split: sum.splits list.splits)

lemma optionLoop_parses:
  assumes "parsesBelow n g"
  shows "length s < Suc n \<Longrightarrow> length s \<le> m \<Longrightarrow>
    optionLoop g m s \<noteq> Inl RxFuel \<and> (\<forall>nodes rest. optionLoop g m s = Inr (nodes, rest) \<longrightarrow> length rest \<le> length s \<and> list_all rxOk nodes)"
proof (induction m arbitrary: s)
  case 0
  then show ?case by (simp add: optionLoop.simps)
next
  case (Suc m)
  show ?case
  proof (cases "\<exists>u. s = code CHR ''|'' # u")
    case False
    then show ?thesis by (auto simp: optionLoop.simps [of g "Suc m"] split: list.split)
  next
    case True
    then obtain u where u: "s = code CHR ''|'' # u" by blast
    then have step: "optionLoop g (Suc m) s =
        bindE (parseSequence g u) (\<lambda>(part, rest'). bindE (optionLoop g m rest') (\<lambda>(parts, rest''). Inr (part # parts, rest'')))"
      by (simp add: optionLoop.simps [of g "Suc m"])
    have "length u < Suc n" using Suc.prems(1) u by simp
    note part = parseSequence_parses [OF assms this]
    show ?thesis
    proof (cases "parseSequence g u")
      case (Inl e)
      then show ?thesis using part(1) step by simp
    next
      case (Inr r)
      obtain node rest where r: "r = (node, rest)" by (cases r)
      from part(2) Inr r have less: "length rest \<le> length u" "rxOk node" by simp_all
      from Suc.IH [of rest] less Suc.prems u show ?thesis unfolding step Inr r by (auto simp: bindE_def split: sum.splits)
    qed
  qed
qed

lemma alternation_parses: "parsesBelow n g \<Longrightarrow> parsesBelow (Suc n) (alternation g)"
  unfolding parsesBelow_def [of "Suc n"]
proof (intro allI impI)
  fix s :: "nat list" assume g: "parsesBelow n g" and s: "length s < Suc n"
  note first = parseSequence_parses [OF g s]
  show "alternation g s \<noteq> Inl RxFuel \<and> (\<forall>node rest. alternation g s = Inr (node, rest) \<longrightarrow> length rest \<le> length s \<and> rxOk node)"
  proof (cases "parseSequence g s")
    case (Inl e)
    then show ?thesis using first(1) by (simp add: alternation_def)
  next
    case (Inr r)
    obtain node rest where r: "r = (node, rest)" by (cases r)
    from first(2) Inr r have less: "length rest \<le> length s" "rxOk node" by simp_all
    have "length rest < Suc n" using less(1) s by simp
    from optionLoop_parses [OF g this order_refl] less Inr r show ?thesis
      by (auto simp: alternation_def bindE_def split: sum.splits)
  qed
qed

lemma parseAlternation_parses: "parsesBelow n (parseAlternation n)"
proof (induction n)
  case (Suc n)
  have "parseAlternation (Suc n) = alternation (parseAlternation n)" by (rule ext) simp
  then show ?case using alternation_parses [OF Suc] by simp
qed (simp add: parsesBelow_def)

lemma compile_parses:
  "compileBoundedRegex source flags \<noteq> Inl RxFuel"
  "compileBoundedRegex source flags = Inr rx \<Longrightarrow> rxOk (rxRoot rx) \<and> rxFlags rx = rxFlagsOf flags"
proof -
  note parsed = parsesBelowD [OF parseAlternation_parses lessI, of source]
  show "compileBoundedRegex source flags \<noteq> Inl RxFuel"
    using parsed(1) by (auto simp: compileBoundedRegex_def bindE_def split: option.split sum.splits simp del: parseAlternation.simps)
  assume "compileBoundedRegex source flags = Inr rx"
  then obtain node where "parseAlternation (Suc (length source)) source = Inr (node, [])" "rx = \<lparr>rxFlags = rxFlagsOf flags, rxRoot = node\<rparr>"
    by (auto simp: compileBoundedRegex_def res_simps split: option.splits if_splits simp del: parseAlternation.simps)
  then show "rxOk (rxRoot rx) \<and> rxFlags rx = rxFlagsOf flags" using parsed(2) by fastforce
qed

end
