(* ===== verification/RegexPrint.thy ===== *)
theory RegexPrint
  imports RegexParse
begin

text \<open>
  Texts of patterns, and that the parser reads them back: every normal pattern has a source. Units are printed as escapes
  \<open>\uHHHH\<close>, quantifiers in braces, and groups as \<open>(?:...)\<close> where a part asks for them.
\<close>

section \<open>Texts\<close>

definition hexDigit :: "nat \<Rightarrow> nat" where "hexDigit n = (if n < 10 then 48 + n else 87 + n)"

definition hexText :: "nat \<Rightarrow> nat list" where
  "hexText c = [hexDigit (c div 4096), hexDigit (c div 256 mod 16), hexDigit (c div 16 mod 16), hexDigit (c mod 16)]"

definition unitEscape :: "nat \<Rightarrow> nat list" where "unitEscape c = code CHR 0x5C # code CHR ''u'' # hexText c"

fun digitsText :: "nat \<Rightarrow> nat list" where
  "digitsText n = (if n < 10 then [48 + n] else digitsText (n div 10) @ [48 + n mod 10])"

declare digitsText.simps [simp del]

fun predefText :: "PredefName \<Rightarrow> nat list" where
  "predefText Digits = map code [CHR 0x5C, CHR ''d'']"
| "predefText NonDigits = map code [CHR 0x5C, CHR ''D'']"
| "predefText WordUnits = map code [CHR 0x5C, CHR ''w'']"
| "predefText NonWordUnits = map code [CHR 0x5C, CHR ''W'']"
| "predefText Spaces = map code [CHR 0x5C, CHR ''s'']"
| "predefText NonSpaces = map code [CHR 0x5C, CHR ''S'']"

fun anchorText :: "AnchorAt \<Rightarrow> nat list" where
  "anchorText AtStart = [code CHR ''^'']"
| "anchorText AtEnd = [code CHR ''$'']"
| "anchorText AtWord = map code [CHR 0x5C, CHR ''b'']"
| "anchorText AtNonWord = map code [CHR 0x5C, CHR ''B'']"

definition rangeText :: "nat \<times> nat \<Rightarrow> nat list" where
  "rangeText r = unitEscape (fst r) @ code CHR ''-'' # unitEscape (snd r)"

definition memberTexts :: "nat list \<Rightarrow> (nat \<times> nat) list \<Rightarrow> PredefName list \<Rightarrow> nat list" where
  "memberTexts singles ranges predefs =
     concat (map rangeText ranges) @ concat (map unitEscape singles) @ concat (map predefText predefs)"

definition quantifierText :: "nat \<Rightarrow> nat option \<Rightarrow> nat list" where
  "quantifierText least most =
     code CHR ''{'' # digitsText least @ code CHR '','' # (case most of None \<Rightarrow> [] | Some m \<Rightarrow> digitsText m) @ [code CHR ''}'']"

definition grouped :: "bool \<Rightarrow> nat list \<Rightarrow> nat list" where
  "grouped b s = (if b then map code ''(?:'' @ s @ [code CHR '')''] else s)"

fun bars :: "nat list list \<Rightarrow> nat list" where
  "bars [] = []"
| "bars (s # ss) = s @ concat (map (\<lambda>t. code CHR ''|'' # t) ss)"

text \<open>The level is 0 for an alternation, 1 for a sequence, 2 for a part of a sequence, 3 for what is repeated.\<close>

fun patternText :: "nat \<Rightarrow> RxNode \<Rightarrow> nat list" where
  "patternText l (RxAlt options) = grouped (1 \<le> l) (bars (map (patternText 1) options))"
| "patternText l (RxSeq parts) = grouped (2 \<le> l) (concat (map (patternText 2) parts))"
| "patternText l (RxRepeat least most inner) = grouped (3 \<le> l) (patternText 3 inner @ quantifierText least most)"
| "patternText l (RxChar c) = unitEscape c"
| "patternText l RxDot = [code CHR ''.'']"
| "patternText l (RxPredef name) = predefText name"
| "patternText l (RxAnchor a) = anchorText a"
| "patternText l (RxClass negated singles ranges predefs) =
     code CHR ''['' # (if negated then [code CHR ''^''] else []) @ memberTexts singles ranges predefs @ [code CHR '']'']"

fun isAnchor :: "RxNode \<Rightarrow> bool" where
  "isAnchor (RxAnchor _) = True"
| "isAnchor _ = False"

text \<open>Patterns as the parser makes them: no sequence of one part, no single alternative, no repeated anchor.\<close>

fun rxNormal :: "RxNode \<Rightarrow> bool" where
  "rxNormal (RxAlt options) = (2 \<le> length options \<and> list_all rxNormal options)"
| "rxNormal (RxSeq parts) = (length parts \<noteq> 1 \<and> list_all rxNormal parts)"
| "rxNormal (RxRepeat least most inner) =
     (withinMost least most \<and> least \<le> MAX_REPEAT_COUNT \<and> (case most of None \<Rightarrow> True | Some m \<Rightarrow> m \<le> MAX_REPEAT_COUNT) \<and>
      \<not> isAnchor inner \<and> rxNormal inner)"
| "rxNormal (RxChar c) = (c < 65536)"
| "rxNormal (RxClass negated singles ranges predefs) =
     (list_all (\<lambda>c. c < 65536) singles \<and> list_all (\<lambda>(lo, hi). lo \<le> hi \<and> hi < 65536) ranges)"
| "rxNormal _ = True"

section \<open>Units and numbers\<close>

lemma hexUnit_hexDigit: "n < 16 \<Longrightarrow> hexUnit (hexDigit n) = Some n"
  by (simp add: hexUnit_def hexDigit_def digitUnit_def)

lemma parse_unit: "c < 65536 \<Longrightarrow> parseEscape inClass (code CHR ''u'' # hexText c @ rest) = Inr (RxChar c, rest)"
proof -
  assume c: "c < 65536"
  then have d: "c div 4096 < 16" "c div 256 mod 16 < 16" "c div 16 mod 16 < 16" "c mod 16 < 16" by simp_all
  have "((c div 4096 * 16 + c div 256 mod 16) * 16 + c div 16 mod 16) * 16 + c mod 16 = c"
  proof -
    have up: "c div 16 = c div 256 * 16 + c div 16 mod 16" "c div 256 = c div 4096 * 16 + c div 256 mod 16"
      using div_mult_mod_eq [of "c div 16" 16] div_mult_mod_eq [of "c div 256" 16] by (simp_all add: div_mult2_eq [symmetric])
    show ?thesis unfolding up(2) [symmetric] up(1) [symmetric] by (rule div_mult_mod_eq)
  qed
  then have "hexNumber 0 (hexText c) = Some c" using d by (simp add: hexText_def hexUnit_hexDigit)
  moreover have "length (hexText c) = 4" by (simp add: hexText_def)
  ultimately show ?thesis by (simp add: parseEscape_def hexEscape_def code_def)
qed

lemma parse_predef: "parseEscape inClass (tl (predefText name) @ rest) = Inr (RxPredef name, rest)"
  by (cases name) (simp_all add: parseEscape_def code_def)

lemma decimalNumber_append: "decimalNumber n (xs @ ys) = decimalNumber (decimalNumber n xs) ys"
  by (induction xs arbitrary: n) auto

lemma digits_number: "decimalNumber 0 (digitsText n) = n"
proof (induction n rule: digitsText.induct)
  case (1 n)
  then show ?case by (simp add: digitsText.simps [of n] decimalNumber_append)
qed

lemma digits_units: "list_all digitUnit (digitsText n)"
proof (induction n rule: digitsText.induct)
  case (1 n)
  have "n mod 10 < 10" by simp
  then have "digitUnit (48 + n mod 10)" by (simp add: digitUnit_def)
  with 1 show ?case by (simp add: digitsText.simps [of n]) (simp add: digitUnit_def)
qed

lemma digits_nonempty: "digitsText n \<noteq> []"
  by (simp add: digitsText.simps [of n])

lemma takeWhile_all: "list_all P xs \<Longrightarrow> \<not> P y \<Longrightarrow> takeWhile P (xs @ y # ys) = xs \<and> dropWhile P (xs @ y # ys) = y # ys"
  by (induction xs) auto

lemma braces_text:
  "braces (digitsText least @ code CHR '','' # (case most of None \<Rightarrow> [] | Some m \<Rightarrow> digitsText m) @ code CHR ''}'' # rest) =
     Some (least, most, rest)"
proof -
  have stop: "\<not> digitUnit (code CHR '','')" "\<not> digitUnit (code CHR ''}'')" by (simp_all add: digitUnit_def code_def)
  note first = takeWhile_all [OF digits_units stop(1), of least]
  have "takeWhile digitUnit ((case most of None \<Rightarrow> [] | Some m \<Rightarrow> digitsText m) @ code CHR ''}'' # rest) = (case most of None \<Rightarrow> [] | Some m \<Rightarrow> digitsText m) \<and>
      dropWhile digitUnit ((case most of None \<Rightarrow> [] | Some m \<Rightarrow> digitsText m) @ code CHR ''}'' # rest) = code CHR ''}'' # rest"
    by (rule takeWhile_all) (simp_all add: stop digits_units split: option.split)
  then show ?thesis using first digits_nonempty by (auto simp: braces_def Let_def digits_number code_def split: option.split)
qed

section \<open>Classes\<close>

lemma member_unit: "c < 65536 \<Longrightarrow> classMember (unitEscape c @ rest) = Inr (Inr c, rest)"
  by (simp add: classMember_def unitEscape_def parse_unit)

lemma member_predef: "classMember (predefText name @ rest) = Inr (Inl name, rest)"
proof -
  have "predefText name = code CHR 0x5C # tl (predefText name)" by (cases name) simp_all
  then obtain u where u: "predefText name = code CHR 0x5C # u" by blast
  then show ?thesis using parse_predef [of True name rest] by (simp add: classMember_def)
qed

lemma loop_step:
  assumes "s \<noteq> []" "hd s = code CHR 0x5C"
  shows "classMember s = Inr (Inl name, rest) \<Longrightarrow> classLoop ss rs ps s = classLoop ss rs (ps @ [name]) rest"
    and "classMember s = Inr (Inr c, rest) \<Longrightarrow> \<not> startsRange rest \<Longrightarrow> classLoop ss rs ps s = classLoop (ss @ [c]) rs ps rest"
    and "classMember s = Inr (Inr lo, rest) \<Longrightarrow> startsRange rest \<Longrightarrow> classMember (tl rest) = Inr (Inr hi, rest') \<Longrightarrow> lo \<le> hi \<Longrightarrow>
      classLoop ss rs ps s = classLoop ss (rs @ [(lo, hi)]) ps rest'"
  using assms by (simp_all add: classLoop.simps [of ss rs ps s] code_def)

lemma predefs_loop: "classLoop ss rs ps (concat (map predefText names) @ code CHR '']'' # rest) = Inr ((ss, rs, ps @ names), rest)"
proof (induction names arbitrary: ps)
  case Nil
  then show ?case by (simp add: classLoop.simps)
next
  case (Cons name names)
  have "predefText name = code CHR 0x5C # tl (predefText name)" by (cases name) simp_all
  then have "predefText name @ r \<noteq> []" "hd (predefText name @ r) = code CHR 0x5C" for r by (metis append_Cons list.discI, metis append_Cons list.sel(1))
  from loop_step(1) [OF this member_predef] Cons show ?case by simp
qed

lemma no_range: "\<not> startsRange (concat (map unitEscape singles) @ concat (map predefText names) @ code CHR '']'' # rest)"
proof -
  have "startsRange s \<Longrightarrow> hd s = code CHR ''-''" for s by (auto simp: startsRange_def split: list.splits)
  moreover have "hd (concat (map unitEscape singles) @ concat (map predefText names) @ code CHR '']'' # rest) \<noteq> code CHR ''-''"
  proof (cases singles)
    case Nil
    then show ?thesis
    proof (cases names)
      case (Cons n ns)
      then show ?thesis using Nil by (cases n) (simp_all add: code_def)
    qed (simp add: code_def)
  qed (simp add: unitEscape_def code_def)
  ultimately show ?thesis by blast
qed

lemma singles_loop:
  "list_all (\<lambda>c. c < 65536) singles \<Longrightarrow>
     classLoop ss rs [] (concat (map unitEscape singles) @ concat (map predefText names) @ code CHR '']'' # rest) =
     Inr ((ss @ singles, rs, names), rest)"
proof (induction singles arbitrary: ss)
  case Nil
  then show ?case using predefs_loop [of ss rs "[]"] by simp
next
  case (Cons c singles)
  let ?rest = "concat (map unitEscape singles) @ concat (map predefText names) @ code CHR '']'' # rest"
  have "unitEscape c @ ?rest \<noteq> []" "hd (unitEscape c @ ?rest) = code CHR 0x5C" by (simp_all add: unitEscape_def)
  from loop_step(2) [OF this member_unit no_range] Cons show ?case by simp
qed

lemma members_loop:
  "list_all (\<lambda>c. c < 65536) singles \<Longrightarrow> list_all (\<lambda>(lo, hi). lo \<le> hi \<and> hi < 65536) ranges \<Longrightarrow>
     classLoop [] rs [] (memberTexts singles ranges names @ code CHR '']'' # rest) = Inr ((singles, rs @ ranges, names), rest)"
proof (induction ranges arbitrary: rs)
  case Nil
  then show ?case using singles_loop [of singles "[]" rs] by (simp add: memberTexts_def)
next
  case (Cons r ranges)
  obtain lo hi where r: "r = (lo, hi)" by (cases r)
  with Cons.prems have b: "lo \<le> hi" "lo < 65536" "hi < 65536" by simp_all
  let ?rest = "memberTexts singles ranges names @ code CHR '']'' # rest"
  let ?tail = "code CHR ''-'' # unitEscape hi @ ?rest"
  have "unitEscape lo @ ?tail \<noteq> []" "hd (unitEscape lo @ ?tail) = code CHR 0x5C" by (simp_all add: unitEscape_def)
  moreover have "startsRange ?tail" by (simp add: startsRange_def unitEscape_def code_def)
  ultimately have "classLoop [] rs [] (unitEscape lo @ ?tail) = classLoop [] (rs @ [(lo, hi)]) [] ?rest"
    using loop_step(3) [OF _ _ member_unit [OF b(2)], of ?tail hi ?rest "[]" rs "[]"] member_unit [OF b(3)] b(1) by simp
  moreover have "memberTexts singles (r # ranges) names @ code CHR '']'' # rest = unitEscape lo @ ?tail"
    by (simp add: memberTexts_def rangeText_def r)
  ultimately show ?case using Cons r by simp
qed

lemma class_text:
  assumes "rxNormal (RxClass negated singles ranges names)"
  shows "parseClass ((if negated then [code CHR ''^''] else []) @ memberTexts singles ranges names @ code CHR '']'' # rest) =
    Inr (RxClass negated singles ranges names, rest)"
proof -
  let ?s = "memberTexts singles ranges names @ code CHR '']'' # rest"
  have "hd ?s \<noteq> code CHR ''^''"
  proof (cases ranges)
    case Nil
    then show ?thesis
    proof (cases singles)
      case single: Nil
      show ?thesis
      proof (cases names)
        case (Cons n ns)
        then show ?thesis using Nil single by (cases n) (simp_all add: memberTexts_def code_def)
      qed (use Nil single in \<open>simp add: memberTexts_def code_def\<close>)
    qed (simp add: memberTexts_def unitEscape_def code_def)
  qed (simp add: memberTexts_def rangeText_def unitEscape_def code_def)
  then show ?thesis using members_loop [of singles ranges "[]" names rest] assms by (simp add: parseClass_def Let_def)
qed

section \<open>Reading back\<close>

text \<open>What may follow a part of a sequence, and what ends a sequence or an alternation.\<close>

definition followsPart :: "nat list \<Rightarrow> bool" where
  "followsPart s \<longleftrightarrow> (s = [] \<or> hd s \<notin> set (map code ''*+?{''))"

definition endsSequence :: "nat list \<Rightarrow> bool" where
  "endsSequence s \<longleftrightarrow> (s = [] \<or> hd s = code CHR ''|'' \<or> hd s = code CHR '')'')"

definition endsAlternation :: "nat list \<Rightarrow> bool" where
  "endsAlternation s \<longleftrightarrow> (s = [] \<or> hd s = code CHR '')'')"

abbreviation parserAt :: "nat \<Rightarrow> nat list \<Rightarrow> RxParsed" where "parserAt n \<equiv> parseAlternation n"

text \<open>The four readings of a pattern, with a parser of groups that goes deep enough.\<close>

definition readsAtom :: "RxNode \<Rightarrow> bool" where
  "readsAtom node \<longleftrightarrow> (\<forall>n rest. length (patternText 3 node) \<le> n \<longrightarrow> parseAtom (parserAt n) (patternText 3 node @ rest) = Inr (node, rest))"

definition readsPart :: "RxNode \<Rightarrow> bool" where
  "readsPart node \<longleftrightarrow> (\<forall>n rest. length (patternText 2 node) \<le> n \<longrightarrow> followsPart rest \<longrightarrow>
     parseQuantified (parserAt n) (patternText 2 node @ rest) = Inr (node, rest))"

definition readsSequence :: "RxNode \<Rightarrow> bool" where
  "readsSequence node \<longleftrightarrow> (\<forall>n rest. length (patternText 1 node) \<le> n \<longrightarrow> endsSequence rest \<longrightarrow>
     parseSequence (parserAt n) (patternText 1 node @ rest) = Inr (node, rest))"

definition readsAlternation :: "RxNode \<Rightarrow> bool" where
  "readsAlternation node \<longleftrightarrow> (\<forall>n rest. length (patternText 0 node) \<le> n \<longrightarrow> endsAlternation rest \<longrightarrow>
     alternation (parserAt n) (patternText 0 node @ rest) = Inr (node, rest))"

lemma endsSequence_follows: "endsSequence s \<Longrightarrow> followsPart s"
  by (auto simp: endsSequence_def followsPart_def code_def)

text \<open>Every part begins with a character that neither ends a sequence nor repeats what is before it.\<close>

definition beginsPart :: "nat list \<Rightarrow> bool" where
  "beginsPart s \<longleftrightarrow> s \<noteq> [] \<and> hd s \<in> set (map code [CHR 0x5C, CHR ''('', CHR ''['', CHR ''.'', CHR ''^'', CHR ''$''])"

lemma beginsPart_append: "beginsPart s \<Longrightarrow> beginsPart (s @ t)"
  by (simp add: beginsPart_def)

lemma part_begins: "2 \<le> l \<Longrightarrow> beginsPart (patternText l node)"
proof (induction node arbitrary: l)
  case (RxRepeat least most inner)
  then have "beginsPart (patternText 3 inner)" by simp
  then show ?case using RxRepeat.prems by (auto simp: grouped_def beginsPart_def)
next
  case (RxPredef name)
  then show ?case by (cases name) (simp_all add: beginsPart_def)
next
  case (RxAnchor a)
  then show ?case by (cases a) (simp_all add: beginsPart_def)
qed (simp_all add: beginsPart_def grouped_def unitEscape_def)

lemma begins_follows: "beginsPart s \<Longrightarrow> followsPart s \<and> \<not> endsSequence s"
  by (auto simp: beginsPart_def followsPart_def endsSequence_def code_def)

lemma no_quantifier: "followsPart rest \<Longrightarrow> parseQuantifier rest = Inr (None, rest)"
  by (auto simp: parseQuantifier_def quantifier_def followsPart_def split: list.splits)

text \<open>From each reading to the next.\<close>

lemma part_of_atom: "patternText 2 node = patternText 3 node \<Longrightarrow> readsAtom node \<Longrightarrow> readsPart node"
  by (simp add: readsAtom_def readsPart_def parseQuantified_def no_quantifier)

lemma sequence_loop:
  assumes "\<forall>p\<in>set parts. readsPart p" "endsSequence rest"
  shows "length (concat (map (patternText 2) parts)) \<le> n \<Longrightarrow> length parts \<le> m \<Longrightarrow>
    sequenceLoop (parserAt n) m (concat (map (patternText 2) parts) @ rest) = Inr (parts, rest)"
  using assms(1)
proof (induction parts arbitrary: m)
  case Nil
  then show ?case using assms(2) by (simp add: sequenceLoop.simps endsSequence_def)
next
  case (Cons p parts)
  let ?rest = "concat (map (patternText 2) parts) @ rest"
  obtain m' where m: "m = Suc m'" using Cons.prems(2) by (cases m) simp_all
  have "beginsPart (patternText 2 p @ ?rest)" by (intro beginsPart_append part_begins) simp
  then have "\<not> endsSequence (patternText 2 p @ ?rest)" using begins_follows by blast
  then have step: "sequenceLoop (parserAt n) m (patternText 2 p @ ?rest) =
      bindE (parseQuantified (parserAt n) (patternText 2 p @ ?rest)) (\<lambda>(part, rest).
        bindE (sequenceLoop (parserAt n) m' rest) (\<lambda>(parts, rest'). Inr (part # parts, rest')))"
    by (subst sequenceLoop.simps) (simp only: endsSequence_def m if_False nat.case)
  have "followsPart ?rest"
  proof (cases parts)
    case Nil
    then show ?thesis using endsSequence_follows [OF assms(2)] by simp
  next
    case (Cons q qs)
    have "beginsPart (patternText 2 q @ concat (map (patternText 2) qs) @ rest)" by (intro beginsPart_append part_begins) simp
    then show ?thesis using begins_follows Cons by simp
  qed
  then have "parseQuantified (parserAt n) (patternText 2 p @ ?rest) = Inr (p, ?rest)" using Cons.prems(1,3) by (simp add: readsPart_def)
  moreover have "sequenceLoop (parserAt n) m' ?rest = Inr (parts, rest)" using Cons m by simp
  ultimately show ?case using step by simp
qed

lemma parts_length: "length parts \<le> length (concat (map (patternText 2) parts))"
proof (induction parts)
  case (Cons p parts)
  have "patternText 2 p \<noteq> []" using part_begins [of 2 p] by (simp add: beginsPart_def)
  then have "1 \<le> length (patternText 2 p)" by (cases "patternText 2 p") simp_all
  with Cons show ?case by simp
qed simp

lemma sequence_parts:
  assumes "\<forall>p\<in>set parts. readsPart p" "endsSequence rest" "length (concat (map (patternText 2) parts)) \<le> n"
  shows "parseSequence (parserAt n) (concat (map (patternText 2) parts) @ rest) = Inr (case parts of [p] \<Rightarrow> p | _ \<Rightarrow> RxSeq parts, rest)"
proof -
  have "length parts \<le> length (concat (map (patternText 2) parts) @ rest)" using parts_length [of parts] by simp
  from sequence_loop [OF assms(1,2,3) this] show ?thesis by (simp add: parseSequence_def)
qed

lemma sequence_of_part: "patternText 1 node = patternText 2 node \<Longrightarrow> readsPart node \<Longrightarrow> readsSequence node"
  using sequence_parts [of "[node]"] by (simp add: readsSequence_def)

lemma option_loop:
  assumes "\<forall>p\<in>set options. readsSequence p" "endsAlternation rest"
  shows "length (concat (map (\<lambda>t. code CHR ''|'' # t) (map (patternText 1) options))) \<le> n \<Longrightarrow> length options \<le> m \<Longrightarrow>
    optionLoop (parserAt n) m (concat (map (\<lambda>t. code CHR ''|'' # t) (map (patternText 1) options)) @ rest) = Inr (options, rest)"
  using assms(1)
proof (induction options arbitrary: m)
  case Nil
  then show ?case using assms(2) by (auto simp: optionLoop.simps endsAlternation_def code_def split: list.split)
next
  case (Cons p options)
  let ?rest = "concat (map (\<lambda>t. code CHR ''|'' # t) (map (patternText 1) options)) @ rest"
  obtain m' where m: "m = Suc m'" using Cons.prems(2) by (cases m) simp_all
  have "endsSequence ?rest" using assms(2) by (cases options) (auto simp: endsSequence_def endsAlternation_def)
  then have "parseSequence (parserAt n) (patternText 1 p @ ?rest) = Inr (p, ?rest)" using Cons.prems(1,3) by (simp add: readsSequence_def)
  moreover have "optionLoop (parserAt n) m' ?rest = Inr (options, rest)" using Cons m by simp
  ultimately show ?case by (simp add: optionLoop.simps [of _ "Suc m'"] m)
qed

lemma alternation_options:
  assumes "readsSequence p" "\<forall>q\<in>set options. readsSequence q" "endsAlternation rest"
    "length (bars (map (patternText 1) (p # options))) \<le> n"
  shows "alternation (parserAt n) (bars (map (patternText 1) (p # options)) @ rest) =
    Inr (if options = [] then p else RxAlt (p # options), rest)"
proof -
  let ?rest = "concat (map (\<lambda>t. code CHR ''|'' # t) (map (patternText 1) options)) @ rest"
  have "endsSequence ?rest" using assms(3) by (cases options) (auto simp: endsSequence_def endsAlternation_def)
  then have "parseSequence (parserAt n) (patternText 1 p @ ?rest) = Inr (p, ?rest)" using assms(1,4) by (simp add: readsSequence_def)
  moreover have "length options \<le> length ?rest" by (induction options) auto
  then have "optionLoop (parserAt n) (length ?rest) ?rest = Inr (options, rest)" using assms(4) by (intro option_loop [OF assms(2,3)]) simp_all
  ultimately show ?thesis by (simp add: alternation_def)
qed

lemma alternation_of_sequence: "patternText 0 node = patternText 1 node \<Longrightarrow> readsSequence node \<Longrightarrow> readsAlternation node"
  using alternation_options [of node "[]"] by (simp add: readsAlternation_def)

lemma atom_of_alternation:
  assumes "patternText 3 node = grouped True (patternText 0 node)" "readsAlternation node"
  shows "readsAtom node"
  unfolding readsAtom_def
proof (intro allI impI)
  fix n and rest :: "nat list" assume n: "length (patternText 3 node) \<le> n"
  let ?s = "patternText 0 node @ code CHR '')'' # rest"
  obtain n' where n': "n = Suc n'" using n assms(1) by (cases n) (simp_all add: grouped_def)
  have "endsAlternation (code CHR '')'' # rest)" by (simp add: endsAlternation_def)
  then have "parserAt n ?s = Inr (node, code CHR '')'' # rest)" using assms n n' by (simp add: readsAlternation_def grouped_def)
  moreover have "groupStart (map code ''?:'' @ ?s) = Inr ?s" by (simp add: groupStart_def nthOpt_def)
  ultimately have "parseGroup (parserAt n) (map code ''?:'' @ ?s) = Inr (node, rest)" by (simp add: parseGroup_def)
  moreover have "patternText 3 node @ rest = code CHR ''('' # map code ''?:'' @ ?s" using assms(1) by (simp add: grouped_def)
  ultimately show "parseAtom (parserAt n) (patternText 3 node @ rest) = Inr (node, rest)"
    by (simp add: parseAtom_def code_def)
qed

text \<open>A pattern is read in all four places.\<close>

definition reads :: "RxNode \<Rightarrow> bool" where
  "reads node \<longleftrightarrow> readsAtom node \<and> readsPart node \<and> readsSequence node \<and> readsAlternation node"

lemma reads_simple:
  assumes "\<And>l. patternText l node = patternText 3 node" "readsAtom node" shows "reads node"
proof -
  have "readsPart node" using part_of_atom [OF assms(1) assms(2)] .
  moreover from this have "readsSequence node" using sequence_of_part assms(1) by metis
  moreover from this have "readsAlternation node" using alternation_of_sequence assms(1) by metis
  ultimately show ?thesis using assms(2) by (simp add: reads_def)
qed

lemma reads_escape:
  assumes "\<And>l. patternText l node = code CHR 0x5C # u" "\<And>rest. parseEscape False (u @ rest) = Inr (node, rest)" shows "reads node"
proof (rule reads_simple)
  show "patternText l node = patternText 3 node" for l by (simp only: assms(1))
  show "readsAtom node" unfolding readsAtom_def assms(1) by (simp add: parseAtom_def assms(2) code_def)
qed

lemma reads_unit: "c < 65536 \<Longrightarrow> reads (RxChar c)"
  by (rule reads_escape [of _ "code CHR ''u'' # hexText c"]) (simp_all add: unitEscape_def parse_unit)

lemma reads_predef: "reads (RxPredef name)"
proof (rule reads_escape)
  show "patternText l (RxPredef name) = code CHR 0x5C # tl (predefText name)" for l by (cases name) simp_all
qed (rule parse_predef)

lemma reads_anchor: "reads (RxAnchor a)"
proof (cases "a = AtStart \<or> a = AtEnd")
  case True
  show ?thesis by (rule reads_simple) (use True in \<open>auto simp: readsAtom_def parseAtom_def code_def\<close>)
next
  case False
  show ?thesis
  proof (rule reads_escape)
    show "patternText l (RxAnchor a) = code CHR 0x5C # tl (anchorText a)" for l using False by (cases a) simp_all
    show "parseEscape False (tl (anchorText a) @ rest) = Inr (RxAnchor a, rest)" for rest
      using False by (cases a) (simp_all add: parseEscape_def code_def)
  qed
qed

lemma reads_class:
  assumes "rxNormal (RxClass negated singles ranges names)" shows "reads (RxClass negated singles ranges names)"
proof (rule reads_simple)
  show "readsAtom (RxClass negated singles ranges names)" unfolding readsAtom_def
  proof (intro allI impI)
    fix n rest
    show "parseAtom (parserAt n) (patternText 3 (RxClass negated singles ranges names) @ rest) = Inr (RxClass negated singles ranges names, rest)"
      using class_text [OF assms, of rest] by (simp add: parseAtom_def code_def)
  qed
qed simp

lemma quantifier_text:
  assumes "withinMost least most" "least \<le> MAX_REPEAT_COUNT" "case most of None \<Rightarrow> True | Some m \<Rightarrow> m \<le> MAX_REPEAT_COUNT" "followsPart rest"
  shows "parseQuantifier (quantifierText least most @ rest) = Inr (Some (least, most), rest)"
proof -
  have "quantifier (quantifierText least most @ rest) = Inr (Some (least, most), rest)"
    using assms(1-3) braces_text [of least most rest]
    by (simp add: quantifier_def quantifierText_def code_def withinMost_def split: option.splits)
  then show ?thesis using assms(4) by (auto simp: parseQuantifier_def followsPart_def)
qed

lemma reads_repeat:
  assumes "rxNormal (RxRepeat least most inner)" "reads inner" shows "reads (RxRepeat least most inner)"
proof -
  let ?node = "RxRepeat least most inner"
  have plain: "\<And>r. (case inner of RxAnchor _ \<Rightarrow> Inl RxSyntax | _ \<Rightarrow> Inr r) = Inr r" using assms(1) by (cases inner) simp_all
  have part: "readsPart ?node" unfolding readsPart_def
  proof (intro allI impI)
    fix n rest assume n: "length (patternText 2 ?node) \<le> n" and rest: "followsPart rest"
    have "parseAtom (parserAt n) (patternText 3 inner @ quantifierText least most @ rest) = Inr (inner, quantifierText least most @ rest)"
      using assms(2) n by (simp add: reads_def readsAtom_def grouped_def)
    moreover have "parseQuantifier (quantifierText least most @ rest) = Inr (Some (least, most), rest)"
      using assms(1) rest by (intro quantifier_text) simp_all
    ultimately show "parseQuantified (parserAt n) (patternText 2 ?node @ rest) = Inr (?node, rest)"
      by (simp add: parseQuantified_def grouped_def plain)
  qed
  have "readsSequence ?node" by (rule sequence_of_part [OF _ part]) (simp add: grouped_def)
  moreover from this have alt: "readsAlternation ?node" by (rule alternation_of_sequence [rotated]) (simp add: grouped_def)
  moreover have "readsAtom ?node" by (rule atom_of_alternation [OF _ alt]) (simp add: grouped_def)
  ultimately show ?thesis using part by (simp add: reads_def)
qed

lemma reads_sequence:
  assumes "length parts \<noteq> 1" "\<forall>p\<in>set parts. reads p" shows "reads (RxSeq parts)"
proof -
  have whole: "(case parts of [p] \<Rightarrow> p | _ \<Rightarrow> RxSeq parts) = RxSeq parts" using assms(1) by (auto split: list.split)
  have parts: "\<forall>p\<in>set parts. readsPart p" using assms(2) by (simp add: reads_def)
  have seq: "readsSequence (RxSeq parts)" unfolding readsSequence_def
    using sequence_parts [OF parts] whole by (simp add: grouped_def)
  then have alt: "readsAlternation (RxSeq parts)" by (rule alternation_of_sequence [rotated]) (simp add: grouped_def)
  then have atom: "readsAtom (RxSeq parts)" by (rule atom_of_alternation [rotated]) (simp add: grouped_def)
  then have "readsPart (RxSeq parts)" by (rule part_of_atom [rotated]) (simp add: grouped_def)
  then show ?thesis using seq alt atom by (simp add: reads_def)
qed

lemma reads_alternation:
  assumes "2 \<le> length options" "\<forall>p\<in>set options. reads p" shows "reads (RxAlt options)"
proof -
  obtain p q qs where options: "options = p # q # qs" using assms(1) by (cases options; cases "tl options") auto
  have all: "readsSequence p" "\<forall>r\<in>set (q # qs). readsSequence r" using assms(2) options by (simp_all add: reads_def)
  have alt: "readsAlternation (RxAlt options)" unfolding readsAlternation_def options
    using alternation_options [OF all] by (simp add: grouped_def)
  then have atom: "readsAtom (RxAlt options)" by (rule atom_of_alternation [rotated]) (simp add: grouped_def)
  then have part: "readsPart (RxAlt options)" by (rule part_of_atom [rotated]) (simp add: grouped_def)
  then have "readsSequence (RxAlt options)" by (rule sequence_of_part [rotated]) (simp add: grouped_def)
  then show ?thesis using alt atom part by (simp add: reads_def)
qed

lemma pattern_reads: "rxNormal node \<Longrightarrow> reads node"
proof (induction node)
  case (RxSeq parts)
  then show ?case by (intro reads_sequence) (simp_all add: list_all_iff)
next
  case (RxAlt options)
  then show ?case by (intro reads_alternation) (simp_all add: list_all_iff)
next
  case (RxRepeat least most inner)
  then show ?case by (intro reads_repeat) simp_all
next
  case RxDot
  show ?case by (rule reads_simple) (simp_all add: readsAtom_def parseAtom_def code_def)
qed (simp_all add: reads_unit reads_predef reads_anchor reads_class)

lemma compile_text:
  assumes "rxNormal node" "length (patternText 0 node) \<le> MAX_PATTERN_LENGTH" "set flags \<subseteq> set (map code ''gimsd'')"
  shows "compileBoundedRegex (patternText 0 node) flags = Inr \<lparr>rxFlags = rxFlagsOf flags, rxRoot = node\<rparr>"
proof -
  have "alternation (parserAt (length (patternText 0 node))) (patternText 0 node @ []) = Inr (node, [])"
    using pattern_reads [OF assms(1)] unfolding reads_def readsAlternation_def endsAlternation_def by blast
  moreover have "find (\<lambda>f. f \<notin> set (map code ''gimsd'')) flags = None" using assms(3) by (auto simp: find_None_iff)
  ultimately show ?thesis using assms(2) by (simp add: compileBoundedRegex_def)
qed

end
