(* ===== verification/RegexAnswers.thy ===== *)
theory RegexAnswers
  imports RegexMeaning
begin

text \<open>
  That the matcher always answers or reports an exceeded budget (the bound of the rounds of a repetition is never met),
  and that patterns which repeat only single units answer whenever their cost is within the budget.
\<close>

section \<open>The bound of the rounds\<close>

text \<open>Continuations are called deeper, and within the limit of depth.\<close>

definition quietBelow :: "nat \<Rightarrow> Cont \<Rightarrow> bool" where
  "quietBelow d k \<longleftrightarrow> (\<forall>q d' b. d \<le> d' \<longrightarrow> d' \<le> MAX_MATCH_DEPTH \<longrightarrow> k q d' b \<noteq> Inl RxFuel)"

lemma quietBelow_mono: "quietBelow d k \<Longrightarrow> d \<le> d' \<Longrightarrow> quietBelow d' k"
  unfolding quietBelow_def by (meson order_trans)

definition quiet :: "(Cont \<Rightarrow> Cont) \<Rightarrow> bool" where
  "quiet m \<longleftrightarrow> (\<forall>k p d b. quietBelow (d + 1) k \<longrightarrow> d \<le> MAX_MATCH_DEPTH \<longrightarrow> m k p d b \<noteq> Inl RxFuel)"

lemma runForward_quiet: "runForward f input most taken p b \<noteq> Inl RxFuel"
  by (induction f input most taken p b rule: runForward.induct) (simp add: runForward.simps)

lemma runBack_quiet: "(\<And>q b. k q d b \<noteq> Inl RxFuel) \<Longrightarrow> runBack least k n p d b \<noteq> Inl RxFuel"
proof (induction n arbitrary: p b)
  case 0
  then show ?case by (auto simp: runBack.simps [of least k 0] orTry_Fuel)
next
  case (Suc n)
  then show ?case by (auto simp: runBack.simps [of least k "Suc n"] orTry_Fuel)
qed

lemma repLoop_quiet:
  assumes "quiet m"
  shows "MAX_MATCH_DEPTH < rounds + d \<Longrightarrow> d \<le> MAX_MATCH_DEPTH \<Longrightarrow> quietBelow d k \<Longrightarrow> repLoop m least most k rounds taken p d b \<noteq> Inl RxFuel"
proof (induction rounds arbitrary: taken p d b)
  case (Suc rounds)
  let ?k = "\<lambda>q d b. if q = p then k p d b else repLoop m least most k rounds (taken + 1) q d b"
  have "quietBelow (d + 1) ?k" unfolding quietBelow_def
  proof (intro allI impI)
    fix q d' b' assume d': "d + 1 \<le> d'" "d' \<le> MAX_MATCH_DEPTH"
    have "quietBelow d' k" using quietBelow_mono [OF Suc.prems(3)] d'(1) by simp
    then have "repLoop m least most k rounds (taken + 1) q d' b' \<noteq> Inl RxFuel" using Suc.IH [of d'] Suc.prems(1) d' by simp
    moreover have "k p d' b' \<noteq> Inl RxFuel" using Suc.prems(3) d' by (auto simp: quietBelow_def)
    ultimately show "?k q d' b' \<noteq> Inl RxFuel" by simp
  qed
  with assms Suc.prems(2) have "m ?k p d (b - 1) \<noteq> Inl RxFuel" by (simp add: quiet_def)
  moreover have "k p d b' \<noteq> Inl RxFuel" for b' using Suc.prems(2,3) by (simp add: quietBelow_def)
  ultimately show ?case by (auto simp: orTry_Fuel)
qed simp

lemma node_quiet:
  shows "quiet (matchNode js flags input node)"
    and "quietBelow d k \<Longrightarrow> d \<le> MAX_MATCH_DEPTH \<Longrightarrow> matchSeq js flags input nodes k p d b \<noteq> Inl RxFuel"
    and "quietBelow (d + 1) k \<Longrightarrow> d \<le> MAX_MATCH_DEPTH \<Longrightarrow> matchAlt js flags input options k p d b \<noteq> Inl RxFuel"
proof (induction js flags input node and js flags input nodes and js flags input options arbitrary: and k p d b and k p d b
    rule: spans_spansSeq_spansAlt.induct)
  case (2 js flags input parts)
  then show ?case by (auto simp: quiet_def)
next
  case (3 js flags input options)
  show ?case unfolding quiet_def
  proof (intro allI impI)
    fix k p d b assume "quietBelow (d + 1) k"
    then have "quietBelow (d + 1 + 1) k" by (rule quietBelow_mono) simp
    then show "matchNode js flags input (RxAlt options) k p d b \<noteq> Inl RxFuel" using 3 by simp
  qed
next
  case (4 js flags input least most inner)
  show ?case unfolding quiet_def
  proof (intro allI impI)
    fix k p d b assume k: "quietBelow (d + 1) k" "d \<le> MAX_MATCH_DEPTH"
    have "repLoop (matchNode js flags input inner) least most k (MAX_MATCH_DEPTH + 1) 0 p (d + 1) (b - 1) \<noteq> Inl RxFuel"
      if "d + 1 \<le> MAX_MATCH_DEPTH" by (rule repLoop_quiet [OF 4 _ that k(1)]) simp
    moreover have "bindE (runForward (singleMatch js flags inner) input most 0 p (b - 1)) (\<lambda>(n, q, b'). runBack least k n q (d + 1) b') \<noteq> Inl RxFuel"
      if "d + 1 \<le> MAX_MATCH_DEPTH"
    proof -
      have "k q (d + 1) b' \<noteq> Inl RxFuel" for q b' using k(1) that by (simp add: quietBelow_def)
      then have "runBack least k n q (d + 1) b' \<noteq> Inl RxFuel" for n q b' by (rule runBack_quiet)
      then show ?thesis using runForward_quiet
        by (cases "runForward (singleMatch js flags inner) input most 0 p (b - 1)") (auto split: prod.splits)
    qed
    ultimately show "matchNode js flags input (RxRepeat least most inner) k p d b \<noteq> Inl RxFuel" by (simp del: repLoop.simps)
  qed
next
  case (7 js flags input part parts)
  have "quietBelow (d + 1) (matchSeq js flags input parts k)" unfolding quietBelow_def
  proof (intro allI impI)
    fix q d' b' assume "d + 1 \<le> d'" "d' \<le> MAX_MATCH_DEPTH"
    then show "matchSeq js flags input parts k q d' b' \<noteq> Inl RxFuel" using 7(2) quietBelow_mono [OF 7(3)] by simp
  qed
  with 7(1,4) show ?case by (simp add: quiet_def)
next
  case (9 js flags input option' options)
  then show ?case by (auto simp: quiet_def orTry_Fuel)
qed (auto simp: quiet_def quietBelow_def)

lemma testFrom_quiet: "(\<And>s b. m s b \<noteq> Inl RxFuel) \<Longrightarrow> testFrom m n start b \<noteq> Inl RxFuel"
  by (induction n arbitrary: start b) (auto simp: orTry_Fuel)

section \<open>Costs\<close>

text \<open>The most steps of a pattern on a text of \<open>n\<close> units, before a continuation that takes at most \<open>rest\<close>.\<close>

fun cost :: "nat \<Rightarrow> RxNode \<Rightarrow> nat \<Rightarrow> nat"
  and costSeq :: "nat \<Rightarrow> RxNode list \<Rightarrow> nat \<Rightarrow> nat"
  and costAlt :: "nat \<Rightarrow> RxNode list \<Rightarrow> nat \<Rightarrow> nat" where
  "cost n (RxSeq parts) rest = 1 + costSeq n parts rest"
| "cost n (RxAlt options) rest = 1 + costAlt n options rest"
| "cost n (RxRepeat least most inner) rest = 1 + n + (n + 1) * (1 + rest)"
| "cost n _ rest = 1 + rest"
| "costSeq n [] rest = rest"
| "costSeq n (part # parts) rest = cost n part (costSeq n parts rest)"
| "costAlt n [] rest = 0"
| "costAlt n (option' # options) rest = cost n option' rest + costAlt n options rest"

text \<open>How much deeper the continuation of a pattern is called.\<close>

fun deep :: "RxNode \<Rightarrow> nat" and deepSeq :: "RxNode list \<Rightarrow> nat" and deepAlt :: "RxNode list \<Rightarrow> nat" where
  "deep (RxSeq parts) = 1 + deepSeq parts"
| "deep (RxAlt options) = 1 + deepAlt options"
| "deep _ = 1"
| "deepSeq [] = 0"
| "deepSeq (part # parts) = deep part + deepSeq parts"
| "deepAlt [] = 0"
| "deepAlt (option' # options) = max (deep option') (deepAlt options)"

text \<open>Patterns that repeat only single units.\<close>

fun frugal :: "RxNode \<Rightarrow> bool" where
  "frugal (RxSeq parts) = list_all frugal parts"
| "frugal (RxAlt options) = list_all frugal options"
| "frugal (RxRepeat least most inner) = isSingle inner"
| "frugal _ = True"

text \<open>An outcome that is an answer and takes at most the cost.\<close>

definition answersIn :: "nat \<Rightarrow> nat \<Rightarrow> Outcome \<Rightarrow> bool" where
  "answersIn c b r \<longleftrightarrow> (\<exists>x b'. r = Inr (x, b') \<and> b \<le> b' + c)"

lemma answersIn_Inr [simp]: "answersIn c b (Inr (x, b')) \<longleftrightarrow> b \<le> b' + c"
  by (auto simp: answersIn_def)

definition contWithin :: "nat \<Rightarrow> nat \<Rightarrow> nat \<Rightarrow> Cont \<Rightarrow> bool" where
  "contWithin n c deepest k \<longleftrightarrow> (\<forall>q d b. q \<le> n \<longrightarrow> d \<le> deepest \<longrightarrow> c \<le> b \<longrightarrow> answersIn c b (k q d b))"

lemma answersIn_charge: "c < b \<Longrightarrow> answersIn c (b - 1) (f (b - 1)) \<Longrightarrow> answersIn (Suc c) b (charge b f)"
  by (auto simp: answersIn_def charge_def)

lemma answersIn_orTry: "answersIn c b r \<Longrightarrow> (\<And>b'. b \<le> b' + c \<Longrightarrow> answersIn c' b' (f b')) \<Longrightarrow> answersIn (c + c') b (orTry r f)"
proof -
  assume r: "answersIn c b r" and f: "\<And>b'. b \<le> b' + c \<Longrightarrow> answersIn c' b' (f b')"
  from r obtain x b' where x: "r = Inr (x, b')" "b \<le> b' + c" by (auto simp: answersIn_def)
  show ?thesis
  proof (cases x)
    case False
    from f [OF x(2)] obtain y b3 where "f b' = Inr (y, b3)" "b' \<le> b3 + c'" by (auto simp: answersIn_def)
    with x False show ?thesis by (simp add: orTry_def)
  qed (use x in \<open>simp add: orTry_def\<close>)
qed

lemma answersIn_more: "answersIn c b r \<Longrightarrow> c \<le> c' \<Longrightarrow> answersIn c' b r"
  by (auto simp: answersIn_def)

lemma runForward_within:
  "length input - p \<le> b \<Longrightarrow> p \<le> length input \<Longrightarrow>
     \<exists>n q b'. runForward f input most taken p b = Inr (n, q, b') \<and> q \<le> length input \<and> n - taken \<le> length input - p \<and> b \<le> b' + (length input - p)"
proof (induction f input most taken p b rule: runForward.induct)
  case (1 f input most taken p b)
  show ?case
  proof (cases "below taken most \<and> p < length input \<and> f (input ! p)")
    case True
    then have b: "b \<noteq> 0" using 1(2) by auto
    have "length input - (p + 1) \<le> b - 1" "p + 1 \<le> length input" using 1(2) True by simp_all
    from 1(1) [OF True b this] obtain n q b' where
      "runForward f input most (taken + 1) (p + 1) (b - 1) = Inr (n, q, b')" "q \<le> length input"
      "n - (taken + 1) \<le> length input - (p + 1)" "b - 1 \<le> b' + (length input - (p + 1))" by blast
    then show ?thesis using True b by (auto simp: runForward.simps [of f input most taken p b])
  next
    case False
    then show ?thesis using 1(3) by (auto simp: runForward.simps [of f input most taken p b])
  qed
qed

lemma runBack_within:
  assumes "\<And>q b. q \<le> L \<Longrightarrow> c \<le> b \<Longrightarrow> answersIn c b (k q d b)"
  shows "(n + 1) * (1 + c) \<le> b \<Longrightarrow> p \<le> L \<Longrightarrow> answersIn ((n + 1) * (1 + c)) b (runBack least k n p d b)"
proof (induction n arbitrary: p b)
  case 0
  have "answersIn c (b - 1) (k p d (b - 1))" using 0 assms by simp
  then have "answersIn (c + 0) (b - 1) (orTry (k p d (b - 1)) (\<lambda>b''. Inr (False, b'')))"
    by (rule answersIn_orTry) simp
  then have "answersIn (Suc c) b (charge b (\<lambda>b'. orTry (k p d b') (\<lambda>b''. Inr (False, b''))))" using 0 by (intro answersIn_charge) simp_all
  moreover have "answersIn (Suc c) b (Inr (False, b))" by simp
  ultimately show ?case by (simp add: runBack.simps [of least k 0])
next
  case (Suc n)
  let ?c = "(n + 1) * (1 + c)"
  have big: "Suc c + ?c \<le> b" using Suc.prems(1) by simp
  have "answersIn c (b - 1) (k p d (b - 1))" using Suc.prems(2) big assms by simp
  then have "answersIn (c + ?c) (b - 1) (orTry (k p d (b - 1)) (\<lambda>b''. runBack least k n (p - 1) d b''))"
  proof (rule answersIn_orTry)
    fix b' assume "b - 1 \<le> b' + c"
    then have "?c \<le> b'" using big by simp
    then show "answersIn ?c b' (runBack least k n (p - 1) d b')" using Suc.IH Suc.prems(2) by simp
  qed
  then have "answersIn (Suc (c + ?c)) b (charge b (\<lambda>b'. orTry (k p d b') (\<lambda>b''. runBack least k n (p - 1) d b'')))"
    using big by (intro answersIn_charge) simp_all
  moreover have "answersIn (Suc (c + ?c)) b (Inr (False, b))" by simp
  moreover have "(Suc n + 1) * (1 + c) = Suc (c + ?c)" by simp
  ultimately show ?case by (simp only: runBack.simps [of least k "Suc n"] nat.case split: if_split) simp
qed

lemma contWithinD: "contWithin n c deepest k \<Longrightarrow> q \<le> n \<Longrightarrow> d \<le> deepest \<Longrightarrow> c \<le> b \<Longrightarrow> answersIn c b (k q d b)"
  unfolding contWithin_def by blast

lemma contWithin_less: "contWithin n c deepest k \<Longrightarrow> deepest' \<le> deepest \<Longrightarrow> contWithin n c deepest' k"
  unfolding contWithin_def by (meson order_trans)

lemma answersIn_frame:
  "c < b \<Longrightarrow> d + 1 \<le> MAX_MATCH_DEPTH \<Longrightarrow> answersIn c (b - 1) (m p (d + 1) (b - 1)) \<Longrightarrow> answersIn (1 + c) b (frame m p d b)"
  unfolding frame_def using answersIn_charge [of c b "\<lambda>b'. if d + 1 > MAX_MATCH_DEPTH then Inl RxBudget else m p (d + 1) b'"] by simp

lemma single_within:
  assumes "isSingle node" "contWithin (length input) c (d + 1) k" "d + 1 \<le> MAX_MATCH_DEPTH" "p \<le> length input" "1 + c \<le> b"
  shows "answersIn (1 + c) b (matchNode js flags input node k p d b)"
proof -
  let ?m = "\<lambda>p d b. if p < length input \<and> singleMatch js flags node (input ! p) then k (p + 1) d b else Inr (False, b)"
  have "answersIn c (b - 1) (?m p (d + 1) (b - 1))"
    using contWithinD [OF assms(2), of "p + 1" "d + 1" "b - 1"] assms(4,5) by auto
  then have "answersIn (1 + c) b (frame ?m p d b)" using assms(3,5) by (intro answersIn_frame) simp_all
  then show ?thesis using assms(1) by (cases node) simp_all
qed

lemma repeat_within:
  assumes "isSingle inner" "contWithin (length input) c (d + 1) k" "d + 1 \<le> MAX_MATCH_DEPTH" "p \<le> length input"
    "1 + length input + (length input + 1) * (1 + c) \<le> b"
  shows "answersIn (1 + length input + (length input + 1) * (1 + c)) b (matchNode js flags input (RxRepeat least most inner) k p d b)"
proof -
  let ?L = "length input" and ?f = "singleMatch js flags inner"
  let ?c = "(?L + 1) * (1 + c)"
  obtain n q b' where run: "runForward ?f input most 0 p (b - 1) = Inr (n, q, b')" "q \<le> ?L" "n \<le> ?L - p" "b - 1 \<le> b' + (?L - p)"
  proof -
    have "?L - p \<le> b - 1" using assms(5) by simp
    from runForward_within [OF this assms(4), of ?f most 0] show ?thesis using that by auto
  qed
  have "(n + 1) * (1 + c) \<le> ?c" using run(3) by (intro mult_right_mono) simp_all
  moreover have "?c \<le> b'" using assms(5) run(4) by simp
  ultimately have "answersIn ((n + 1) * (1 + c)) b' (runBack least k n q (d + 1) b')"
    using runBack_within [of ?L c k "d + 1" n b' q least] contWithinD [OF assms(2)] run(2) by simp
  then obtain x b'' where x: "runBack least k n q (d + 1) b' = Inr (x, b'')" "b' \<le> b'' + ?c"
    using \<open>(n + 1) * (1 + c) \<le> ?c\<close> by (auto simp: answersIn_def)
  then have "answersIn (?L + ?c) (b - 1) (bindE (runForward ?f input most 0 p (b - 1)) (\<lambda>(n, q, b'). runBack least k n q (d + 1) b'))"
    using run by (auto simp: answersIn_def)
  then have "answersIn (1 + (?L + ?c)) b (frame (\<lambda>p d b. if isSingle inner then
        bindE (runForward ?f input most 0 p b) (\<lambda>(n, q, b'). runBack least k n q d b')
      else repLoop (matchNode js flags input inner) least most k (MAX_MATCH_DEPTH + 1) 0 p d b) p d b)"
    using assms(1,3,5) by (intro answersIn_frame) (simp_all del: repLoop.simps)
  then show ?thesis by (simp only: matchNode.simps add.assoc)
qed

lemma node_within:
  shows "frugal node \<Longrightarrow> contWithin (length input) c (d + deep node) k \<Longrightarrow> d + deep node \<le> MAX_MATCH_DEPTH \<Longrightarrow> p \<le> length input \<Longrightarrow>
      cost (length input) node c \<le> b \<Longrightarrow> answersIn (cost (length input) node c) b (matchNode js flags input node k p d b)"
    and "list_all frugal nodes \<Longrightarrow> contWithin (length input) c (d + deepSeq nodes) k \<Longrightarrow> d + deepSeq nodes \<le> MAX_MATCH_DEPTH \<Longrightarrow>
      p \<le> length input \<Longrightarrow> costSeq (length input) nodes c \<le> b \<Longrightarrow>
      answersIn (costSeq (length input) nodes c) b (matchSeq js flags input nodes k p d b)"
    and "list_all frugal options \<Longrightarrow> contWithin (length input) c (d + deepAlt options) k \<Longrightarrow> d + deepAlt options \<le> MAX_MATCH_DEPTH \<Longrightarrow>
      p \<le> length input \<Longrightarrow> costAlt (length input) options c \<le> b \<Longrightarrow>
      answersIn (costAlt (length input) options c) b (matchAlt js flags input options k p d b)"
proof (induction js flags input node and js flags input nodes and js flags input options
    arbitrary: c d k p b and c d k p b and c d k p b rule: spans_spansSeq_spansAlt.induct)
  case (1 js flags input a)
  let ?m = "\<lambda>p d b. if anchorHolds flags input a p then k p d b else Inr (False, b)"
  have "answersIn c (b - 1) (?m p (d + 1) (b - 1))"
    using contWithinD [OF 1(2), of p "d + 1" "b - 1"] 1(4,5) by auto
  then show ?case using 1(3,5) answersIn_frame [of c b d ?m p] by simp
next
  case (2 js flags input parts)
  have "answersIn (costSeq (length input) parts c) (b - 1) (matchSeq js flags input parts k p (d + 1) (b - 1))"
    using 2(1) [of c "d + 1" k p "b - 1"] 2(2-6) by simp
  then show ?case using 2(4,6) answersIn_frame [of "costSeq (length input) parts c" b d] by simp
next
  case (3 js flags input options)
  have "answersIn (costAlt (length input) options c) (b - 1) (matchAlt js flags input options k p (d + 1) (b - 1))"
    using 3(1) [of c "d + 1" k p "b - 1"] 3(2-6) by simp
  then show ?case using 3(4,6) answersIn_frame [of "costAlt (length input) options c" b d] by simp
next
  case (4 js flags input least most inner)
  then show ?case using repeat_within [of inner input c d k p b js flags least most] by simp
next
  case (7 js flags input part parts)
  let ?L = "length input"
  have "contWithin ?L (costSeq ?L parts c) (d + deep part) (matchSeq js flags input parts k)" unfolding contWithin_def
  proof (intro allI impI)
    fix q d' b' assume q: "q \<le> ?L" "d' \<le> d + deep part" "costSeq ?L parts c \<le> b'"
    have "contWithin ?L c (d' + deepSeq parts) k" using contWithin_less [OF 7(4)] q(2) by simp
    then show "answersIn (costSeq ?L parts c) b' (matchSeq js flags input parts k q d' b')"
      using 7(2) 7(3,5) q by simp
  qed
  then show ?case using 7(1) [of "costSeq ?L parts c" d "matchSeq js flags input parts k" p b] 7(3,5-7) by simp
next
  case (9 js flags input option' options)
  let ?L = "length input"
  have k: "contWithin ?L c (d + deep option') k" "contWithin ?L c (d + deepAlt options) k"
    using contWithin_less [OF 9(4)] by simp_all
  have "answersIn (cost ?L option' c) b (matchNode js flags input option' k p d b)" using 9(1) [OF _ k(1)] 9(3,5-7) by simp
  then have "answersIn (cost ?L option' c + costAlt ?L options c) b
      (orTry (matchNode js flags input option' k p d b) (matchAlt js flags input options k p d))"
  proof (rule answersIn_orTry)
    fix b' assume "b \<le> b' + cost ?L option' c"
    then have "costAlt ?L options c \<le> b'" using 9(7) by simp
    then show "answersIn (costAlt ?L options c) b' (matchAlt js flags input options k p d b')" using 9(2) [OF _ k(2)] 9(3,5,6) by simp
  qed
  then show ?case by simp
qed (simp_all only: frugal.simps cost.simps deep.simps single_within isSingle.simps, simp_all add: contWithinD)

lemma testFrom_within:
  assumes "\<And>s b. s \<le> last' \<Longrightarrow> c \<le> b \<Longrightarrow> answersIn c b (m s b)"
  shows "n * (1 + c) \<le> b \<Longrightarrow> start + n \<le> last' + 1 \<Longrightarrow> answersIn (n * (1 + c)) b (testFrom m n start b)"
proof (induction n arbitrary: start b)
  case (Suc n)
  have big: "Suc c + n * (1 + c) \<le> b" using Suc.prems(1) by simp
  have "answersIn c (b - 1) (m start (b - 1))" using assms Suc.prems(2) big by simp
  then have "answersIn (c + n * (1 + c)) (b - 1) (orTry (m start (b - 1)) (testFrom m n (start + 1)))"
  proof (rule answersIn_orTry)
    fix b' assume "b - 1 \<le> b' + c"
    then show "answersIn (n * (1 + c)) b' (testFrom m n (start + 1) b')" using Suc.IH [of b' "start + 1"] Suc.prems(2) big by simp
  qed
  then have "answersIn (Suc (c + n * (1 + c))) b (charge b (\<lambda>b'. orTry (m start b') (testFrom m n (start + 1))))"
    using big by (intro answersIn_charge) simp_all
  moreover have "Suc n * (1 + c) = Suc (c + n * (1 + c))" by simp
  ultimately show ?case by (simp only: testFrom.simps)
qed simp

lemma test_total: "testRegex js rx input \<noteq> Inl RxFuel"
proof -
  have "quietBelow (0 + 1) accept" by (simp add: quietBelow_def accept_def)
  then have "matchNode js (rxFlags rx) input (rxRoot rx) accept s 0 b \<noteq> Inl RxFuel" for s b
    using node_quiet(1) [of js "rxFlags rx" input "rxRoot rx"] unfolding quiet_def by blast
  then have "testFrom (\<lambda>s. matchNode js (rxFlags rx) input (rxRoot rx) accept s 0) n 0 MAX_MATCH_STEPS \<noteq> Inl RxFuel" for n
    by (rule testFrom_quiet)
  then show ?thesis unfolding testRegex_def
    by (metis (no_types, lifting) bindE_Inl_iff case_prod_conv sum.distinct(1) surj_pair)
qed

lemma test_answers:
  assumes "frugal (rxRoot rx)" "deep (rxRoot rx) \<le> MAX_MATCH_DEPTH"
    and "(length input + 1) * (1 + cost (length input) (rxRoot rx) 0) \<le> MAX_MATCH_STEPS"
  shows "\<exists>b. testRegex js rx input = Inr b"
proof -
  let ?m = "\<lambda>start. matchNode js (rxFlags rx) input (rxRoot rx) accept start 0"
  let ?c = "cost (length input) (rxRoot rx) 0" and ?n = "if anchoredOnly rx then 1 else length input + 1"
  have "contWithin (length input) 0 (0 + deep (rxRoot rx)) accept" by (simp add: contWithin_def accept_def)
  from node_within(1) [OF assms(1) this] have each: "answersIn ?c b (?m s b)" if "s \<le> length input" "?c \<le> b" for s b
    using assms(2) that by simp
  have "?n * (1 + ?c) \<le> MAX_MATCH_STEPS"
  proof -
    have "?n * (1 + ?c) \<le> (length input + 1) * (1 + ?c)" by (intro mult_right_mono) simp_all
    with assms(3) show ?thesis by linarith
  qed
  from testFrom_within [of "length input" ?c ?m, OF each this, of 0]
  have "answersIn (?n * (1 + ?c)) MAX_MATCH_STEPS (testFrom ?m ?n 0 MAX_MATCH_STEPS)" by simp
  then obtain x b' where "testFrom ?m ?n 0 MAX_MATCH_STEPS = Inr (x, b')" by (auto simp: answersIn_def)
  then show ?thesis by (simp add: testRegex_def)
qed

end
