(* ===== verification/RegexProperties.thy ===== *)
theory RegexProperties
  imports RegexPrint RegexAnswers "HOL-Library.Code_Target_Nat"
begin

text \<open>Properties of the regular expressions of layout scripts.\<close>

text \<open>C34: A test that answers decides the meaning of the compiled pattern: an answer \<open>true\<close> has a match somewhere in the text,
  and for steady patterns (a group that is repeated at least twice has empty matches everywhere or nowhere) the answer
  is \<open>true\<close> exactly when there is one, whatever the flags. The search from the first position alone loses nothing.\<close>

theorem regex_decides:
  assumes "compileBoundedRegex source flags = Inr rx" "testRegex js rx input = Inr b"
  shows "(b \<longrightarrow> matchesSomewhere js rx input) \<and> (steady (rxRoot rx) \<longrightarrow> b = matchesSomewhere js rx input)"
proof (cases b)
  case True
  then show ?thesis using test_sound [of rx js input] compile_parses(2) [OF assms(1)] assms(2) by simp
next
  case False
  then show ?thesis using test_complete [of rx js input] assms(2) by simp
qed

definition asciiCase :: CaseJs where
  "asciiCase = \<lparr>lowerUnit = (\<lambda>c. [if 65 \<le> c \<and> c \<le> 90 then c + 32 else c]), upperUnit = (\<lambda>c. [if 97 \<le> c \<and> c \<le> 122 then c - 32 else c])\<rparr>"

definition samplePattern :: "nat list" where "samplePattern = map code ''^(?:[a-c]+x?)*$''"

definition sampleRegex :: BoundedRegex where
  "sampleRegex = \<lparr>rxFlags = rxFlagsOf (map code ''i''),
     rxRoot = RxSeq [RxAnchor AtStart,
       RxRepeat 0 None (RxSeq [RxRepeat 1 None (RxClass False [] [(97, 99)] []), RxRepeat 0 (Some 1) (RxChar 120)]), RxAnchor AtEnd]\<rparr>"

lemma sample_compiles: "compileBoundedRegex samplePattern (map code ''i'') = Inr sampleRegex"
  by code_simp

lemma regex_decides_witness:
  "matchesSomewhere asciiCase sampleRegex (map code ''abXc'') \<and> \<not> matchesSomewhere asciiCase sampleRegex (map code ''abxx'')"
proof -
  have "testRegex asciiCase sampleRegex (map code ''abXc'') = Inr True" "testRegex asciiCase sampleRegex (map code ''abxx'') = Inr False"
    by code_simp+
  moreover have "steady (rxRoot sampleRegex)" by code_simp
  ultimately show ?thesis using regex_decides [OF sample_compiles] by blast
qed

text \<open>The matcher differs from the meaning, and from the engine of the platform, where an empty round is needed at the front.\<close>

lemma unsteady_missed:
  "\<exists>rx. compileBoundedRegex (map code ''(?:^|a){2}$'') [] = Inr rx \<and> testRegex asciiCase rx (map code ''a'') = Inr False \<and>
     matchesSomewhere asciiCase rx (map code ''a'')"
proof -
  let ?inner = "RxAlt [RxAnchor AtStart, RxChar 97]"
  let ?rx = "\<lparr>rxFlags = rxFlagsOf [], rxRoot = RxSeq [RxRepeat 2 (Some 2) ?inner, RxAnchor AtEnd]\<rparr>"
  have "compileBoundedRegex (map code ''(?:^|a){2}$'') [] = Inr ?rx" "testRegex asciiCase ?rx (map code ''a'') = Inr False" by code_simp+
  moreover have "matchesSomewhere asciiCase ?rx (map code ''a'')"
  proof -
    let ?R = "spans asciiCase (rxFlagsOf []) (map code ''a'') ?inner"
    have "(0, 0) \<in> ?R" "(0, 1) \<in> ?R" by (simp_all add: singleSpans_def charEq_def code_def)
    then have "(0, 1) \<in> ?R ^^ 2" by (auto simp: numeral_2_eq_2)
    then have "(0, 1) \<in> repeated 2 (Some 2) ?R" unfolding repeated_def withinMost_def by auto
    moreover have "(1, 1) \<in> spans asciiCase (rxFlagsOf []) (map code ''a'') (RxAnchor AtEnd)" by simp
    ultimately have "(0, 1) \<in> spans asciiCase (rxFlagsOf []) (map code ''a'') (RxSeq [RxRepeat 2 (Some 2) ?inner, RxAnchor AtEnd])" by auto
    then show ?thesis unfolding matchesSomewhere_def by fastforce
  qed
  ultimately show ?thesis by blast
qed

text \<open>C35: The bounds of the model are never met: compiling ends with a pattern or an error of the source, and a test with an
  answer or an exceeded budget. A pattern that repeats only single units (as \<open>[a-z]+\<close>) does answer whenever its cost,
  which is known in advance, is within the budget of 1,000,000 steps.\<close>

theorem regex_answers:
  "compileBoundedRegex source flags \<noteq> Inl RxFuel \<and> testRegex js rx input \<noteq> Inl RxFuel \<and>
   (frugal (rxRoot rx) \<and> deep (rxRoot rx) \<le> MAX_MATCH_DEPTH \<and>
      (length input + 1) * (1 + cost (length input) (rxRoot rx) 0) \<le> MAX_MATCH_STEPS \<longrightarrow>
    (\<exists>b. testRegex js rx input = Inr b))"
  using compile_parses(1) test_total test_answers by blast

definition numberRegex :: BoundedRegex where
  "numberRegex = \<lparr>rxFlags = rxFlagsOf [], rxRoot = RxSeq [RxRepeat 1 None (RxPredef Digits), RxChar 46, RxRepeat 0 None (RxPredef Digits)]\<rparr>"

lemma regex_answers_witness: "\<exists>b. testRegex asciiCase numberRegex (map code ''version 12.5'') = Inr b"
proof -
  have "frugal (rxRoot numberRegex) \<and> deep (rxRoot numberRegex) \<le> MAX_MATCH_DEPTH \<and>
    (length (map code ''version 12.5'') + 1) * (1 + cost (length (map code ''version 12.5'')) (rxRoot numberRegex) 0) \<le> MAX_MATCH_STEPS"
    by code_simp
  then show ?thesis using regex_answers by blast
qed

text \<open>C36: Every normal pattern has a source that compiles to it: its text, with units as escapes and groups where they are
  needed, when the text is within the limit of 500 units.\<close>

theorem regex_roundtrip:
  assumes "rxNormal node" "length (patternText 0 node) \<le> MAX_PATTERN_LENGTH" "set flags \<subseteq> set (map code ''gimsd'')"
  shows "compileBoundedRegex (patternText 0 node) flags = Inr \<lparr>rxFlags = rxFlagsOf flags, rxRoot = node\<rparr>"
  by (rule compile_text [OF assms])

lemma regex_roundtrip_witness:
  "compileBoundedRegex (patternText 0 (rxRoot sampleRegex)) [] = Inr (sampleRegex\<lparr>rxFlags := rxFlagsOf []\<rparr>)"
proof -
  have "rxNormal (rxRoot sampleRegex)" "length (patternText 0 (rxRoot sampleRegex)) \<le> MAX_PATTERN_LENGTH" by code_simp+
  from regex_roundtrip [OF this, of "[]"] show ?thesis by (simp add: sampleRegex_def)
qed

end
