(* ===== verification/Spec2Isabelle.thy ===== *)
theory Spec2Isabelle
  imports TabProperties SheetsProperties WorkbookProperties PivotProperties CanvasProperties AgentProperties KeyProperties RegexProperties
begin

text \<open>
  A verification library for the TypeScript of Key (research workspace) and its office suite.

  \<^bold>\<open>The program.\<close> Key is a desktop application: a window of tabs split into panes, a library of
  sources and notes, canvases, a PDF reader, and editors for documents, spreadsheets and slides. Most
  of the code is user interface (React), file formats (OOXML) and glue to third-party editors; the
  logic the program owns is in a few modules. These are modelled, each completely: the tabs of the
  window, the spreadsheet language with its demo workbook, the pivot engine, the canvas, the agent loop
  that the chat panels of all editors share, the formulas and columns of the library, the layout of the reader, and
  the regular expressions of layout scripts.

  \<^bold>\<open>Shared vocabulary.\<close> \<open>Prelude\<close>: results of code that throws (\<open>Inl\<close> the error), JavaScript numbers,
  \<open>Math.round\<close>, arrays, objects as association lists in insertion order, \<open>Array.sort\<close> as the stable
  sort of a comparator (locale \<open>comparator\<close>), and the interface of a machine with an invariant (locale
  \<open>invariant_machine\<close>). \<open>JsText\<close>: strings, \<open>split\<close>, \<open>join\<close>, case, numerals. \<open>Regex\<close>: the regular expression
  of A1 references as a matcher on lists of characters.

  \<^bold>\<open>Tabs\<close> (\<open>apps/key-office/apps/key/src/shared/tab-model.ts\<close>, whole file). \<open>TabModel\<close>: the tree of panes,
  tabs, window state, every operation, drag and drop, and the geometry of panes. \<open>TabInvariant\<close>: the
  well-formedness of a window (distinct identifiers, every view in one pane, ratios and pane counts in
  bounds, pinned tabs first, the active view and tab exist) kept by every operation; the operations
  are an instance of \<open>invariant_machine\<close>. \<open>TabLayout\<close>: rectangles of panes, neighbours. \<open>TabProperties\<close>.

  \<^bold>\<open>Spreadsheets\<close> (\<open>apps/key-office/apps/sheets/src/domain\<close>).
  \<open>CellAddress\<close> (\<open>cell-address.ts\<close>); \<open>WorkbookTypes\<close>, \<open>WorkbookOps\<close> (the types of \<open>workbook.types.ts\<close>,
  \<open>shape-types.ts\<close> and the operations and schemas of \<open>workbook-dsl.ts\<close>); \<open>FormulaShift\<close>, \<open>FormulaRef\<close>
  (\<open>formula-shift.ts\<close>); \<open>SortRange\<close> (\<open>sort-range.ts\<close>), \<open>SortOrder\<close> (the order its comments document); \<open>WorkbookExpand\<close>, \<open>ExpandProps\<close> (the expansion of a
  batch to primitive operations); \<open>WorkbookLabels\<close> (preview texts); \<open>ChartVisual\<close>, \<open>ChartBuild\<close>, \<open>ChartRefs\<close>
  (\<open>chart-visual.ts\<close>). \<open>in-memory-workbook.ts\<close>: \<open>WorkbookState\<close> (every operation on a snapshot) and
  \<open>WorkbookAdapter\<close> (\<open>plan\<close>, \<open>apply\<close>, \<open>undo\<close>, \<open>replaceVisual\<close>). On top of these:
  \<open>WorkbookSheets\<close> (the sheets as a keyed store, locale \<open>keyed_store\<close>), \<open>WorkbookFill\<close> (filling and copying),
  \<open>WorkbookShift\<close> and \<open>WorkbookGrid\<close> (inserting and deleting rows and columns as one map over the sheets),
  \<open>WorkbookMachine\<close> (runs of an adapter as an inductive relation, their invariant, undone commits),
  \<open>WorkbookUndo\<close> (an undo machine with a step for each call, which the adapter implements exactly), \<open>WorkbookAgreement\<close> (plan and apply agree; locale \<open>local_update\<close>, interpreted on renames,
  cell writes, formats and layout), \<open>WorkbookMerges\<close> (merged ranges), \<open>WorkbookFormats\<close> (styles).
  \<open>SheetsProperties\<close>, \<open>WorkbookProperties\<close>.

  \<^bold>\<open>Pivot tables\<close> (\<open>pivot-engine.ts\<close>, \<open>pivot-filters.ts\<close>, \<open>pivot-grouping.ts\<close>, \<open>pivot-formula.ts\<close> of the same
  directory, the types of \<open>gateway/xlsx-pivot.ts\<close>). \<open>PivotFormula\<close>: tokenizer, parser, evaluation and printing of
  calculated fields; \<open>PivotParse\<close>: the grammar of its methods as inductive relations and the parser's soundness,
  completeness and fuel; \<open>PivotGrammar\<close>: the grammar of its comment, which has no unary plus, and the two compared;
  \<open>PivotPrint\<close>: printed formulas. \<open>PivotModel\<close>: definitions of pivots, grouping, filters. \<open>PivotEngine\<close>:
  \<open>recomputePivotData\<close>; \<open>PivotGrow\<close>: \<open>rebuildAxisLines\<close>, \<open>reapplyPivotFilters\<close>, \<open>growPivotDefinition\<close>,
  \<open>applyPivotSlicer\<close>. \<open>PivotKeys\<close> (growth, and what definitions that differ in hidden bits share), \<open>PivotMemo\<close>
  (the cache of denominators against a direct definition; sums), \<open>PivotLayout\<close> (joined keys, the lines of
  \<open>emit\<close>), \<open>PivotSlicer\<close>. \<open>PivotProperties\<close>.

  \<^bold>\<open>Canvas\<close> (\<open>apps/key-office/apps/key/src/renderer/canvas/model.ts\<close>, whole file). \<open>CanvasModel\<close>: scenes,
  loading, viewport, geometry, snapping, editing, layout, ink, history. \<open>CanvasEdit\<close>: well-formed documents,
  an instance of \<open>invariant_machine\<close>. \<open>CanvasCopy\<close>: duplicated selections. \<open>CanvasLayout\<close>: cards in rows, tidy
  grids, snapping, zooming. \<open>CanvasHistory\<close>: the history as a timeline. \<open>CanvasProperties\<close>.

  \<^bold>\<open>Agent loop\<close> (\<open>packages/agent-core/src/loop.ts\<close>, messages and tools of \<open>types.ts\<close>). \<open>AgentSecrets\<close>: redacting
  keys and passwords (\<open>sanitizeAgentPayload\<close>, on the matcher of \<open>Regex\<close>), and that no key with a known prefix is left.
  \<open>AgentModel\<close>: messages, options, sizes, the state, trimming, compaction. \<open>AgentLoop\<close>: every method, and the step
  function \<open>agentStep\<close>: what the asynchronous code waits for is a list of activities (\<open>AgentThread\<close>), each with the
  generation it was started in, and a step is a call of a method or an input to an activity, so that all
  interleavings of deltas, tools, retries, cancelling and resetting are sequences of steps. \<open>AgentInvariant\<close>: well-formed
  conversations and the invariant of all reachable states (\<open>agentReach\<close>); \<open>AgentProgress\<close>: a bound on the requests that
  are left, the single end of a run, failed and cancelled runs; \<open>AgentRollback\<close>: what a failed run leaves of the earlier
  conversation (outputs of tools that it has cut short stay so); \<open>AgentCompaction\<close>: the cut of a compaction;
  \<open>AgentRedaction\<close>: what is sent is redacted. \<open>AgentProperties\<close>, with sample runs. Transport and skill answer through
  the inputs; event handlers are taken not to call the loop back, and calls that throw in the transport are left out.

  \<^bold>\<open>Library and reader.\<close> \<open>PropertyFormula\<close> (\<open>apps/key-office/apps/key/src/renderer/property-formula.ts\<close>): the
  interpreter of property formulas; \<open>PropertyGrammar\<close>: formula trees, their texts and values, and that the
  interpreter computes these unless the formula exceeds a limit (4,096 characters, 512 tokens, depth 32, a part whose
  value is a text of more than 65,536 characters or a number that is not finite). \<open>DatabaseView\<close>
  (\<open>database-view-model.ts\<close>): columns with the user's settings. \<open>ReaderLayout\<close> (\<open>tab-widths.ts\<close>,
  \<open>reader-layout.ts\<close>, \<open>floating-card.ts\<close> of \<open>apps/key/src/pdfjs\<close>). \<open>KeyProperties\<close>.

  \<^bold>\<open>Regular expressions of layout scripts\<close> (\<open>apps/key-office/apps/slides/src/renderer/ai/bounded-regex.ts\<close>, whole
  file). \<open>BoundedRegex\<close>: patterns, the parser, and the backtracking matcher in continuation-passing style with its
  budget of steps and limit of depth; \<open>RegexMeaning\<close>: patterns as relations between positions, soundness and
  completeness of the matcher; \<open>RegexAnswers\<close>: the bounds of its loops and the cost of patterns; \<open>RegexParse\<close>: the parser
  always ends and makes patterns with bounds in order; \<open>RegexPrint\<close>: texts of patterns, which the parser reads back.
  \<open>RegexProperties\<close>.

  \<^bold>\<open>How the parts meet.\<close> A batch of the workbook language is expanded (\<open>WorkbookExpand\<close>, reading cells
  of the snapshot), planned on a working copy by the snapshot operations (\<open>WorkbookState\<close>), which use
  addresses, formula rewriting, sorting and charts, and applied by the adapter (\<open>WorkbookAdapter\<close>).
  \<open>plan_apply_agree\<close>, \<open>adapter_states_ok\<close>, \<open>undo_restores\<close> and \<open>merges_stay_apart\<close> are about the composition.

  \<^bold>\<open>What the lemmas show.\<close> Invariants of every reachable state of the window, the adapter, the
  canvas and the agent loop; refinement of abstract specifications (a timeline, an undo stack, a map over the sheets);
  agreement of planning with applying, of chart references with the values they denote, of a cached
  computation with a direct one and of parsers with their grammars; round trips (formulas, addresses, insertion and deletion of rows in records, formulas and panes); what each operation
  changes and what it leaves; which calls are refused, and with which error; caps and bounds.

  \<^bold>\<open>Parameters.\<close> \<open>crypto.randomUUID\<close> (supplies of identifiers; theorems ask for new ones),
  \<open>String(number)\<close> (\<open>numStr\<close>), \<open>Number(string)\<close> (\<open>toNum\<close>), both and \<open>Date.parse\<close>
  in the record \<open>Js\<close> of the pivot engine and, with the case mappings of Unicode, in \<open>FormulaJs\<close> and \<open>CaseJs\<close>, \<open>localeCompare\<close>, and the \<open>zod\<close> library: its schemas
  are the predicates \<open>Ok\<close> of \<open>WorkbookOps\<close>. No theorem assumes more of them than its statement says.

  \<^bold>\<open>Numbers, loops and bounds.\<close> Coordinates and cell numbers are exact reals (rounding of doubles is not
  modelled), row and column indices are integers, \<open>NaN\<close> and infinities are values of \<open>js_number\<close> where the
  code tests for them. All functions are total: loops are structural or have a measure, save the
  parser of pivot formulas, whose fuel of four units a token is enough (\<open>parse_enough\<close>), and the regular expressions: the
  parser has the length of the source as the bound of its loops and of its nesting (\<open>compile_parses\<close>), a repeated group
  one round more than calls may nest (\<open>test_total\<close>). Measures
  (\<open>columnLabel\<close>: the number left; \<open>tidyNodes\<close>: the nodes left; \<open>splitText\<close> and the reference matcher: the
  text left; the search of a new sheet identifier: the identifiers in use). The caps of the code
  (2,000 expanded cell edits, 200,000 cells of a range, four panes of a tab) are the constants of the source.

  \<^bold>\<open>Not modelled.\<close> User interface and Electron processes, the third-party editors and their bridges
  (\<open>univer-sync.ts\<close>, the ProseMirror extensions), parsing and writing of OOXML (\<open>docx-engine\<close>,
  \<open>pptx-engine\<close>, \<open>xlsx-gateway.ts\<close>), network clients, and the Rust crates. Of the modelled modules only
  console output and object identity are left out. Pivot charts and timelines, and the guards
  \<open>isValidGrouping\<close> and \<open>isValidPivotFilter\<close> (which the types replace) are left out. Of the database view the
  local storage is left out. Pure code that could follow: the relations and tabs of the PDF reader
  (\<open>workspace-relations.ts\<close>, \<open>workspace-tabs.ts\<close>), the index of the project store.
\<close>

end
